(* ===== verification/Rosco_Prelude.thy ===== *)
theory Rosco_Prelude
  imports Main "HOL-Library.Word"
begin

unbundle bit_operations_syntax

text \<open>
  Prelude of the development: the machine integer types the C++ sources use, the
  conversions between them, the bit helpers of \<^verbatim>\<open>lib/util/coretmpl.h\<close>, and the
  generic lemmas on words and lists that the component theories share.

  A C++ register that is used as a bit pattern is a word of its width. A counter or an
  index is a \<^typ>\<open>nat\<close> or an \<^typ>\<open>int\<close> with the wrap-around of its C++ type written
  out by one of the conversion functions below.
\<close>

named_theorems mask_bits \<open>a test of a register against a constant mask, as tests of single bits\<close>
named_theorems bitblast \<open>equality of words, as equality of their bits\<close>

type_synonym u8 = "8 word"
type_synonym u16 = "16 word"
type_synonym u32 = "32 word"
type_synonym u64 = "64 word"

section \<open>Conversions between C++ integer types\<close>

definition to_u8 :: "int \<Rightarrow> int" where
  "to_u8 x = x mod 2 ^ 8"

definition to_u32 :: "int \<Rightarrow> int" where
  "to_u32 x = x mod 2 ^ 32"

definition to_u64 :: "int \<Rightarrow> int" where
  "to_u64 x = x mod 2 ^ 64"

definition to_s32 :: "int \<Rightarrow> int" where
  "to_s32 x = (x + 2 ^ 31) mod 2 ^ 32 - 2 ^ 31"

definition to_s64 :: "int \<Rightarrow> int" where
  "to_s64 x = (x + 2 ^ 63) mod 2 ^ 64 - 2 ^ 63"

lemma to_u32_id [simp]: "0 \<le> x \<Longrightarrow> x < 4294967296 \<Longrightarrow> to_u32 x = x"
  by (simp add: to_u32_def)

lemma to_u64_id [simp]: "0 \<le> x \<Longrightarrow> x < 18446744073709551616 \<Longrightarrow> to_u64 x = x"
  by (simp add: to_u64_def)

lemma to_s32_id [simp]: "- 2147483648 \<le> x \<Longrightarrow> x < 2147483648 \<Longrightarrow> to_s32 x = x"
  by (simp add: to_s32_def)

lemma to_s64_id [simp]:
  "- 9223372036854775808 \<le> x \<Longrightarrow> x < 9223372036854775808 \<Longrightarrow> to_s64 x = x"
  by (simp add: to_s64_def)

lemma to_u32_range: "0 \<le> to_u32 x" "to_u32 x < 2 ^ 32"
  by (simp_all add: to_u32_def)

text \<open>Division of C++ truncates towards zero.\<close>

definition tdiv :: "int \<Rightarrow> int \<Rightarrow> int" where
  "tdiv a b = sgn a * sgn b * (\<bar>a\<bar> div \<bar>b\<bar>)"

section \<open>Bits of a register\<close>

text \<open>\<^verbatim>\<open>BIT(x, n)\<close> and \<^verbatim>\<open>BIT(x, n, w)\<close> of coretmpl.h.\<close>

definition BIT :: "'a::len word \<Rightarrow> nat \<Rightarrow> 'a word" where
  "BIT x n = drop_bit n x AND 1"

definition BITS :: "'a::len word \<Rightarrow> nat \<Rightarrow> nat \<Rightarrow> 'a word" where
  "BITS x n w = drop_bit n x AND mask w"

lemma and_one_zero_iff: "(w :: 'a::len word) AND 1 = 0 \<longleftrightarrow> \<not> bit w 0"
  by (simp add: and_one_eq odd_iff_mod_2_eq_one bit_0)

lemma BIT_eq_0_iff [mask_bits]: "BIT x n = 0 \<longleftrightarrow> \<not> bit x n"
  by (simp add: BIT_def and_one_zero_iff bit_simps)

lemma BIT_of_bool: "BIT x n = of_bool (bit x n)"
  by (auto simp: BIT_def and_one_eq odd_iff_mod_2_eq_one bit_iff_odd_drop_bit)

lemma BIT_eq_1_iff [mask_bits]: "BIT x n = 1 \<longleftrightarrow> bit x n"
  by (simp add: BIT_of_bool)

lemma bit_BIT [simp]: "bit (BIT x n) m \<longleftrightarrow> m = 0 \<and> bit x n"
  by (auto simp: BIT_of_bool bit_simps)

lemma bit_BITS [simp]: "bit (BITS x n w) m \<longleftrightarrow> m < w \<and> bit x (n + m)"
  by (auto simp: BITS_def bit_simps dest: bit_imp_le_length)

lemma less_8_cases: "n < 8 \<longleftrightarrow> n = 0 \<or> n = 1 \<or> n = 2 \<or> n = 3 \<or> n = 4 \<or> n = 5 \<or> n = 6 \<or> n = (7::nat)"
  by auto

lemma u8_eq_iff [bitblast]:
  "(a :: u8) = b \<longleftrightarrow>
     (bit a 0 = bit b 0 \<and> bit a 1 = bit b 1 \<and> bit a 2 = bit b 2 \<and> bit a 3 = bit b 3 \<and>
      bit a 4 = bit b 4 \<and> bit a 5 = bit b 5 \<and> bit a 6 = bit b 6 \<and> bit a 7 = bit b 7)"
proof
  assume A: "bit a 0 = bit b 0 \<and> bit a 1 = bit b 1 \<and> bit a 2 = bit b 2 \<and> bit a 3 = bit b 3 \<and>
      bit a 4 = bit b 4 \<and> bit a 5 = bit b 5 \<and> bit a 6 = bit b 6 \<and> bit a 7 = bit b 7"
  show "a = b"
  proof (rule bit_word_eqI)
    fix n
    assume "n < LENGTH(8)"
    then have "n = 0 \<or> n = 1 \<or> n = 2 \<or> n = 3 \<or> n = 4 \<or> n = 5 \<or> n = 6 \<or> n = 7"
      by (simp add: less_8_cases)
    with A show "bit a n = bit b n" by (elim disjE) simp_all
  qed
qed simp

text \<open>A test of one bit through its mask, for each bit of an 8-bit register.\<close>

lemma u8_mask_bit [mask_bits]:
  "(w :: u8) AND 1 = 0 \<longleftrightarrow> \<not> bit w 0"
  "w AND 2 = 0 \<longleftrightarrow> \<not> bit w 1"
  "w AND 4 = 0 \<longleftrightarrow> \<not> bit w 2"
  "w AND 8 = 0 \<longleftrightarrow> \<not> bit w 3"
  "w AND 16 = 0 \<longleftrightarrow> \<not> bit w 4"
  "w AND 32 = 0 \<longleftrightarrow> \<not> bit w 5"
  "w AND 64 = 0 \<longleftrightarrow> \<not> bit w 6"
  "w AND 128 = 0 \<longleftrightarrow> \<not> bit w 7"
  by (simp_all add: u8_eq_iff bit_simps)

lemma bit_u8_ge: "8 \<le> n \<Longrightarrow> \<not> bit (w :: u8) n"
  using bit_imp_le_length [of w n] by auto

lemma bit_0xff [simp]: "bit (0xff :: u8) k \<longleftrightarrow> k < 8" "bit (0xff :: int) k \<longleftrightarrow> k < 8"
proof -
  have "(0xff :: u8) = mask 8" "(0xff :: int) = mask 8" by (simp_all add: mask_eq_exp_minus_1)
  then show "bit (0xff :: u8) k \<longleftrightarrow> k < 8" "bit (0xff :: int) k \<longleftrightarrow> k < 8"
    by (simp_all only: bit_mask_iff) simp_all
qed

lemma u16_eq_iff:
  "(a :: u16) = b \<longleftrightarrow> (\<forall>n<16. bit a n = bit b n)"
  by (auto intro: bit_word_eqI)

section \<open>Lists\<close>

lemma nth_list_update_if:
  "j < length xs \<Longrightarrow> (xs[i := v]) ! j = (if i = j then v else xs ! j)"
  by (simp add: nth_list_update)

end
