(* ===== verification/Attotime.thy ===== *)
theory Attotime
  imports Rosco_Prelude
begin

text \<open>
  Emulated time, \<^verbatim>\<open>src/emu/attotime.h\<close> and \<^verbatim>\<open>src/emu/attotime.cpp\<close>: a signed 32-bit
  seconds count and a signed 64-bit attoseconds count, with a largest value \<open>never\<close> that
  every operation saturates to. The abstract meaning of a time is the integer number of
  attoseconds \<open>attos\<close>; the lemmas show that the split-word arithmetic of the code
  computes with it exactly, up to the documented rounding of the division.
\<close>

definition ATTOSECONDS_PER_SECOND_SQRT :: int where
  "ATTOSECONDS_PER_SECOND_SQRT = 1000000000"

definition ATTOSECONDS_PER_SECOND :: int where
  "ATTOSECONDS_PER_SECOND = ATTOSECONDS_PER_SECOND_SQRT * ATTOSECONDS_PER_SECOND_SQRT"

definition ATTOTIME_MAX_SECONDS :: int where
  "ATTOTIME_MAX_SECONDS = 1000000000"

lemmas atto_consts = ATTOSECONDS_PER_SECOND_SQRT_def ATTOSECONDS_PER_SECOND_def ATTOTIME_MAX_SECONDS_def

datatype attotime = Attotime (m_seconds: int) (m_attoseconds: int)

definition attotime_never :: attotime where
  "attotime_never = Attotime ATTOTIME_MAX_SECONDS 0"

definition attotime_zero :: attotime where
  "attotime_zero = Attotime 0 0"

definition is_zero :: "attotime \<Rightarrow> bool" where
  "is_zero t \<longleftrightarrow> m_seconds t = 0 \<and> m_attoseconds t = 0"

definition is_never :: "attotime \<Rightarrow> bool" where
  "is_never t \<longleftrightarrow> m_seconds t \<ge> ATTOTIME_MAX_SECONDS"

section \<open>Comparison\<close>

text \<open>\<^verbatim>\<open>operator<\<close> and \<^verbatim>\<open>operator<=\<close>; the remaining comparisons are their converses.\<close>

definition attotime_less :: "attotime \<Rightarrow> attotime \<Rightarrow> bool" where
  "attotime_less l r \<longleftrightarrow>
     m_seconds l < m_seconds r \<or> (m_seconds l = m_seconds r \<and> m_attoseconds l < m_attoseconds r)"

definition attotime_le :: "attotime \<Rightarrow> attotime \<Rightarrow> bool" where
  "attotime_le l r \<longleftrightarrow>
     m_seconds l < m_seconds r \<or> (m_seconds l = m_seconds r \<and> m_attoseconds l \<le> m_attoseconds r)"

instantiation attotime :: linorder
begin

definition less_attotime :: "attotime \<Rightarrow> attotime \<Rightarrow> bool" where
  "less_attotime = attotime_less"

definition less_eq_attotime :: "attotime \<Rightarrow> attotime \<Rightarrow> bool" where
  "less_eq_attotime = attotime_le"

instance
  by standard (auto simp: less_attotime_def less_eq_attotime_def attotime_less_def attotime_le_def
      intro: attotime.expand)

end

section \<open>Arithmetic\<close>

text \<open>\<^verbatim>\<open>operator+\<close>, also \<^verbatim>\<open>operator+=\<close>.\<close>

definition attotime_add :: "attotime \<Rightarrow> attotime \<Rightarrow> attotime" where
  "attotime_add l r =
     (if m_seconds l \<ge> ATTOTIME_MAX_SECONDS \<or> m_seconds r \<ge> ATTOTIME_MAX_SECONDS
      then attotime_never
      else
        let a = to_s64 (m_attoseconds l + m_attoseconds r);
            s = to_s32 (m_seconds l + m_seconds r);
            (s', a') = (if a \<ge> ATTOSECONDS_PER_SECOND
                        then (to_s32 (s + 1), a - ATTOSECONDS_PER_SECOND) else (s, a))
        in if s' \<ge> ATTOTIME_MAX_SECONDS then attotime_never else Attotime s' a')"

text \<open>\<^verbatim>\<open>operator-\<close>, also \<^verbatim>\<open>operator-=\<close>.\<close>

definition attotime_sub :: "attotime \<Rightarrow> attotime \<Rightarrow> attotime" where
  "attotime_sub l r =
     (if m_seconds l \<ge> ATTOTIME_MAX_SECONDS then attotime_never
      else
        let a = to_s64 (m_attoseconds l - m_attoseconds r);
            s = to_s32 (m_seconds l - m_seconds r)
        in if a < 0 then Attotime (to_s32 (s - 1)) (a + ATTOSECONDS_PER_SECOND) else Attotime s a)"

text \<open>
  \<^verbatim>\<open>divu_64x32_rem\<close> of eminline.h divides an unsigned 64-bit number by an unsigned 32-bit
  one; the quotient is truncated to 32 bits, and the remainder is returned through a
  reference. \<^verbatim>\<open>mulu_32x32\<close> multiplies two unsigned 32-bit numbers to 64 bits.
\<close>

definition divu_64x32_rem :: "int \<Rightarrow> int \<Rightarrow> int \<times> int" where
  "divu_64x32_rem a b =
     (let res = to_u32 (to_u64 a div to_u32 b)
      in (res, to_u32 (to_u64 a - to_u32 b * res)))"

definition mulu_32x32 :: "int \<Rightarrow> int \<Rightarrow> int" where
  "mulu_32x32 a b = to_u32 a * to_u32 b"

definition attotime_mul :: "attotime \<Rightarrow> int \<Rightarrow> attotime" where
  "attotime_mul t factor =
     (if m_seconds t \<ge> ATTOTIME_MAX_SECONDS then attotime_never
      else if factor = 0 then attotime_zero
      else
        let (attohi, attolo) = divu_64x32_rem (m_attoseconds t) ATTOSECONDS_PER_SECOND_SQRT;
            temp1 = mulu_32x32 attolo factor;
            (q1, reslo) = divu_64x32_rem temp1 ATTOSECONDS_PER_SECOND_SQRT;
            temp2 = to_u64 (q1 + mulu_32x32 attohi factor);
            (q2, reshi) = divu_64x32_rem temp2 ATTOSECONDS_PER_SECOND_SQRT;
            temp3 = to_u64 (q2 + mulu_32x32 (m_seconds t) factor)
        in if temp3 \<ge> ATTOTIME_MAX_SECONDS then attotime_never
           else Attotime temp3 (reslo + reshi * ATTOSECONDS_PER_SECOND_SQRT))"

definition attotime_div :: "attotime \<Rightarrow> int \<Rightarrow> attotime" where
  "attotime_div t factor =
     (if m_seconds t \<ge> ATTOTIME_MAX_SECONDS then attotime_never
      else if factor = 0 then t
      else
        let (attohi, attolo) = divu_64x32_rem (m_attoseconds t) ATTOSECONDS_PER_SECOND_SQRT;
            (secs, rem0) = divu_64x32_rem (m_seconds t) factor;
            temp1 = to_u64 (attohi + mulu_32x32 rem0 ATTOSECONDS_PER_SECOND_SQRT);
            (reshi, rem1) = divu_64x32_rem temp1 factor;
            temp2 = to_u64 (attolo + mulu_32x32 rem1 ATTOSECONDS_PER_SECOND_SQRT);
            (reslo, rem2) = divu_64x32_rem temp2 factor;
            a = reslo + mulu_32x32 reshi ATTOSECONDS_PER_SECOND_SQRT
        in if rem2 \<ge> factor div 2
           then (if a + 1 \<ge> ATTOSECONDS_PER_SECOND then Attotime (secs + 1) 0
                 else Attotime secs (a + 1))
           else Attotime secs a)"

section \<open>Conversion\<close>

text \<open>\<^verbatim>\<open>HZ_TO_ATTOSECONDS\<close> truncates; \<^verbatim>\<open>from_hz\<close> has an overload for \<^verbatim>\<open>u32\<close> and one for \<^verbatim>\<open>int\<close>.\<close>

definition HZ_TO_ATTOSECONDS :: "int \<Rightarrow> int" where
  "HZ_TO_ATTOSECONDS hz = ATTOSECONDS_PER_SECOND div hz"

definition from_hz_u32 :: "int \<Rightarrow> attotime" where
  "from_hz_u32 f =
     (if f > 1 then Attotime 0 (HZ_TO_ATTOSECONDS f)
      else if f = 1 then Attotime 1 0 else attotime_never)"

definition from_hz :: "int \<Rightarrow> attotime" where
  "from_hz f = (if f > 0 then from_hz_u32 f else attotime_never)"

definition from_msec :: "int \<Rightarrow> attotime" where
  "from_msec msec = Attotime (tdiv msec 1000) ((msec - tdiv msec 1000 * 1000) * (ATTOSECONDS_PER_SECOND div 1000))"

definition from_usec :: "int \<Rightarrow> attotime" where
  "from_usec usec = Attotime (tdiv usec 1000000) ((usec - tdiv usec 1000000 * 1000000) * (ATTOSECONDS_PER_SECOND div 1000000))"

definition from_nsec :: "int \<Rightarrow> attotime" where
  "from_nsec nsec = Attotime (tdiv nsec 1000000000) ((nsec - tdiv nsec 1000000000 * 1000000000) * (ATTOSECONDS_PER_SECOND div 1000000000))"

definition from_ticks :: "int \<Rightarrow> int \<Rightarrow> attotime" where
  "from_ticks ticks frequency =
     (if frequency > 0 then
        let attos_per_tick = HZ_TO_ATTOSECONDS frequency
        in if ticks < frequency then Attotime 0 (ticks * attos_per_tick)
           else let (secs, remainder) = divu_64x32_rem ticks frequency
                in Attotime (to_s32 secs) (remainder * attos_per_tick)
      else attotime_never)"

definition as_ticks :: "attotime \<Rightarrow> int \<Rightarrow> int" where
  "as_ticks t frequency =
     (let fracticks = m_seconds (attotime_mul (Attotime 0 (m_attoseconds t)) frequency)
      in to_u64 (mulu_32x32 (m_seconds t) frequency + to_u32 fracticks))"

definition as_attoseconds :: "attotime \<Rightarrow> int" where
  "as_attoseconds t =
     (if m_seconds t = 0 then m_attoseconds t
      else if m_seconds t = - 1 then m_attoseconds t - ATTOSECONDS_PER_SECOND
      else if m_seconds t > 0 then ATTOSECONDS_PER_SECOND
      else - ATTOSECONDS_PER_SECOND)"

section \<open>The abstract meaning\<close>

definition attos :: "attotime \<Rightarrow> int" where
  "attos t = m_seconds t * ATTOSECONDS_PER_SECOND + m_attoseconds t"

text \<open>A normalised finite time that is not negative.\<close>

definition wf_time :: "attotime \<Rightarrow> bool" where
  "wf_time t \<longleftrightarrow> 0 \<le> m_seconds t \<and> m_seconds t < ATTOTIME_MAX_SECONDS \<and>
     0 \<le> m_attoseconds t \<and> m_attoseconds t < ATTOSECONDS_PER_SECOND"

lemma wf_time_attos: "wf_time t \<Longrightarrow> 0 \<le> attos t \<and> attos t < ATTOTIME_MAX_SECONDS * ATTOSECONDS_PER_SECOND"
  by (simp add: wf_time_def attos_def atto_consts)

lemma wf_time_split:
  assumes "wf_time t"
  shows "m_seconds t = attos t div ATTOSECONDS_PER_SECOND" "m_attoseconds t = attos t mod ATTOSECONDS_PER_SECOND"
  using assms by (simp_all add: wf_time_def attos_def atto_consts)

lemma attos_inject: "wf_time s \<Longrightarrow> wf_time t \<Longrightarrow> attos s = attos t \<Longrightarrow> s = t"
  by (simp add: attotime.expand wf_time_split)

lemma divu_exact:
  assumes "0 \<le> a" "a < 18446744073709551616" "0 < b" "b < 4294967296" "a div b < 4294967296"
  shows "divu_64x32_rem a b = (a div b, a mod b)"
proof -
  have m: "a - b * (a div b) = a mod b" by (simp add: minus_mult_div_eq_mod)
  have "0 \<le> a mod b" "a mod b < 4294967296"
    using assms pos_mod_bound [of b a] by (simp, linarith)
  then show ?thesis
    using assms by (simp add: divu_64x32_rem_def Let_def m pos_imp_zdiv_nonneg_iff)
qed

lemma less_by_order:
  "wf_time s \<Longrightarrow> wf_time t \<Longrightarrow> s < t \<longleftrightarrow> attos s < attos t"
  by (auto simp: less_attotime_def attotime_less_def wf_time_def attos_def atto_consts)

lemma attotime_add_exact:
  assumes "wf_time s" "wf_time t"
  shows "attos s + attos t < ATTOTIME_MAX_SECONDS * ATTOSECONDS_PER_SECOND \<Longrightarrow>
           wf_time (attotime_add s t) \<and> attos (attotime_add s t) = attos s + attos t"
    and "ATTOTIME_MAX_SECONDS * ATTOSECONDS_PER_SECOND \<le> attos s + attos t \<Longrightarrow>
           attotime_add s t = attotime_never"
  using assms
  by (auto simp: attotime_add_def wf_time_def attos_def atto_consts Let_def)

lemma attotime_sub_exact:
  assumes "wf_time s" "wf_time t" "t \<le> s"
  shows "wf_time (attotime_sub s t) \<and> attos (attotime_sub s t) = attos s - attos t"
  using assms
  by (auto simp: attotime_sub_def wf_time_def attos_def atto_consts Let_def less_eq_attotime_def
      attotime_le_def)

lemma split_sqrt:
  fixes a :: int
  assumes "0 \<le> a" "a < 1000000000000000000"
  shows "divu_64x32_rem a 1000000000 = (a div 1000000000, a mod 1000000000)"
  using assms by (intro divu_exact) auto

text \<open>
  The multiplication in base \<open>10 ^ 9\<close>: the three digits of the product, lowest first, as
  the code computes them.
\<close>

lemma mul_digits:
  fixes sec a f :: int
  defines "hi \<equiv> a div 1000000000" and "lo \<equiv> a mod 1000000000"
  defines "q1 \<equiv> lo * f div 1000000000"
  defines "q2 \<equiv> (q1 + hi * f) div 1000000000"
  shows "(sec * 1000000000000000000 + a) * f =
     (q2 + sec * f) * 1000000000000000000 + ((q1 + hi * f) mod 1000000000) * 1000000000 + lo * f mod 1000000000"
proof -
  have a: "a = hi * 1000000000 + lo" by (simp add: hi_def lo_def)
  have l: "lo * f = q1 * 1000000000 + lo * f mod 1000000000" by (simp add: q1_def)
  have h: "q1 + hi * f = q2 * 1000000000 + (q1 + hi * f) mod 1000000000" by (simp add: q2_def)
  have "(sec * 1000000000000000000 + a) * f = sec * f * 1000000000000000000 + hi * f * 1000000000 + lo * f"
    unfolding a by (simp add: algebra_simps)
  also have "\<dots> = sec * f * 1000000000000000000 + (q1 + hi * f) * 1000000000 + lo * f mod 1000000000"
    using l by (simp add: algebra_simps)
  also have "\<dots> = (q2 + sec * f) * 1000000000000000000 + ((q1 + hi * f) mod 1000000000) * 1000000000 +
      lo * f mod 1000000000"
    using h by (simp add: algebra_simps)
  finally show ?thesis .
qed

lemma div_scale_less:
  fixes x f n :: int
  assumes "0 \<le> x" "x < n * f" "0 < n"
  shows "0 \<le> x div n \<and> x div n < f"
proof
  show "0 \<le> x div n" using assms by (simp add: pos_imp_zdiv_nonneg_iff)
  have "(x div n) * n \<le> x"
    using div_mult_mod_eq [of x n] pos_mod_sign [OF assms(3), of x] by linarith
  then have "(x div n) * n < f * n" using assms(2) by (simp add: mult.commute)
  then show "x div n < f" using assms(3) by simp
qed

lemma attotime_mul_eval:
  assumes "wf_time t" "0 < f" "f < 4294967296"
  defines "hi \<equiv> m_attoseconds t div 1000000000" and "lo \<equiv> m_attoseconds t mod 1000000000"
  defines "q1 \<equiv> lo * f div 1000000000"
  defines "q2 \<equiv> (q1 + hi * f) div 1000000000"
  shows "attotime_mul t f =
     (if q2 + m_seconds t * f \<ge> 1000000000 then attotime_never
      else Attotime (q2 + m_seconds t * f) (lo * f mod 1000000000 + ((q1 + hi * f) mod 1000000000) * 1000000000))"
proof -
  have b: "0 \<le> m_seconds t" "m_seconds t < 1000000000" "0 \<le> m_attoseconds t"
    "m_attoseconds t < 1000000000000000000"
    using assms(1) by (auto simp: wf_time_def atto_consts)
  have hl: "0 \<le> hi" "hi < 1000000000" "0 \<le> lo" "lo < 1000000000"
    using b unfolding hi_def lo_def by auto
  have lf: "0 \<le> lo * f" "lo * f < 1000000000 * f" "hi * f \<le> 999999999 * f" "0 \<le> hi * f"
    "m_seconds t * f \<le> 999999999 * f" "0 \<le> m_seconds t * f"
    using hl b assms(2) by (auto intro: mult_right_mono)
  have q1: "0 \<le> q1" "q1 < f"
    using div_scale_less [OF lf(1,2)] by (auto simp: q1_def)
  have s2: "0 \<le> q1 + hi * f" "q1 + hi * f < 1000000000 * f"
    using q1 lf by linarith+
  have q2: "0 \<le> q2" "q2 < f"
    using div_scale_less [OF s2] by (auto simp: q2_def)
  have d0: "divu_64x32_rem (m_attoseconds t) 1000000000 = (hi, lo)"
    using split_sqrt [OF b(3,4)] by (simp add: hi_def lo_def)
  have d1: "divu_64x32_rem (lo * f) 1000000000 = (q1, lo * f mod 1000000000)"
    using lf assms(2,3) q1 by (subst divu_exact) (auto simp: q1_def)
  have d2: "divu_64x32_rem (q1 + hi * f) 1000000000 = (q2, (q1 + hi * f) mod 1000000000)"
    using s2 assms(2,3) q2 by (subst divu_exact) (auto simp: q2_def)
  have u2: "to_u64 (q1 + hi * f) = q1 + hi * f"
    by (rule to_u64_id) (use s2 assms(3) in linarith)+
  have u3: "to_u64 (q2 + m_seconds t * f) = q2 + m_seconds t * f"
    by (rule to_u64_id) (use q2 lf assms(3) in linarith)+
  show ?thesis
    using assms(2,3) b hl
    by (simp add: attotime_mul_def atto_consts d0 d1 d2 u2 u3 mulu_32x32_def Let_def)
qed

lemma attotime_mul_exact:
  assumes "wf_time t" "0 < f" "f < 4294967296"
  shows "attos t * f < ATTOTIME_MAX_SECONDS * ATTOSECONDS_PER_SECOND \<Longrightarrow>
           wf_time (attotime_mul t f) \<and> attos (attotime_mul t f) = attos t * f"
    and "ATTOTIME_MAX_SECONDS * ATTOSECONDS_PER_SECOND \<le> attos t * f \<Longrightarrow>
           attotime_mul t f = attotime_never"
proof -
  define hi lo where "hi = m_attoseconds t div 1000000000" and "lo = m_attoseconds t mod 1000000000"
  define q1 where "q1 = lo * f div 1000000000"
  define q2 where "q2 = (q1 + hi * f) div 1000000000"
  define Q where "Q = q2 + m_seconds t * f"
  define r where "r = lo * f mod 1000000000 + ((q1 + hi * f) mod 1000000000) * 1000000000"
  have e: "attotime_mul t f = (if Q \<ge> 1000000000 then attotime_never else Attotime Q r)"
    unfolding Q_def r_def q2_def q1_def hi_def lo_def by (rule attotime_mul_eval [OF assms])
  have p: "attos t * f = Q * 1000000000000000000 + r"
    using mul_digits [of "m_seconds t" "m_attoseconds t" f]
    by (simp add: attos_def atto_consts hi_def lo_def q1_def q2_def r_def Q_def)
  have r: "0 \<le> r" "r < 1000000000000000000"
    using pos_mod_bound [of 1000000000 "lo * f"] pos_mod_bound [of 1000000000 "q1 + hi * f"]
    by (simp_all add: r_def)
  have "0 \<le> attos t * f" using wf_time_attos [OF assms(1)] assms(2) by simp
  then have nn: "0 \<le> Q" using p r by linarith
  show "attos t * f < ATTOTIME_MAX_SECONDS * ATTOSECONDS_PER_SECOND \<Longrightarrow>
      wf_time (attotime_mul t f) \<and> attos (attotime_mul t f) = attos t * f"
    using e p r nn by (simp add: wf_time_def attos_def atto_consts)
  show "ATTOTIME_MAX_SECONDS * ATTOSECONDS_PER_SECOND \<le> attos t * f \<Longrightarrow>
      attotime_mul t f = attotime_never"
    using e p r by (simp add: atto_consts)
qed

lemma long_division_digits:
  fixes f :: int
  assumes "sec = f * qs + r0" "hi + r0 * 1000000000 = f * q1 + r1" "lo + r1 * 1000000000 = f * q2 + r2"
  shows "sec * 1000000000000000000 + hi * 1000000000 + lo =
    f * (qs * 1000000000000000000 + q1 * 1000000000 + q2) + r2"
proof -
  have "hi = f * q1 + r1 - r0 * 1000000000" and "lo = f * q2 + r2 - r1 * 1000000000"
    using assms(2,3) by simp_all
  then show ?thesis using assms(1) by (simp add: algebra_simps)
qed

lemma div_digits:
  fixes sec hi lo f :: int
  assumes "0 < f" "0 \<le> hi" "hi < 1000000000" "0 \<le> lo" "lo < 1000000000"
  defines "t1 \<equiv> hi + sec mod f * 1000000000"
  defines "t2 \<equiv> lo + t1 mod f * 1000000000"
  shows "0 \<le> t1" "t1 < 1000000000 * f" "0 \<le> t2" "t2 < 1000000000 * f"
    and "sec * 1000000000000000000 + hi * 1000000000 + lo =
      f * (sec div f * 1000000000000000000 + t1 div f * 1000000000 + t2 div f) + t2 mod f"
proof -
  have r: "0 \<le> sec mod f" "sec mod f \<le> f - 1" "0 \<le> t1 mod f" "t1 mod f \<le> f - 1"
    using assms(1) pos_mod_bound [of f sec] pos_mod_bound [of f t1] by auto
  show "0 \<le> t1" "t1 < 1000000000 * f" "0 \<le> t2" "t2 < 1000000000 * f"
    using r assms(2-5) unfolding t1_def t2_def by linarith+
  show "sec * 1000000000000000000 + hi * 1000000000 + lo =
      f * (sec div f * 1000000000000000000 + t1 div f * 1000000000 + t2 div f) + t2 mod f"
    by (rule long_division_digits [of sec f "sec div f" "sec mod f" hi "t1 div f" "t1 mod f" lo])
      (simp_all add: t1_def [symmetric] t2_def [symmetric])
qed

lemma attotime_div_exact:
  assumes "wf_time t" "0 < f" "f < 4294967296"
  shows "attos (attotime_div t f) = attos t div f + of_bool (attos t mod f \<ge> f div 2)"
    and "0 \<le> m_attoseconds (attotime_div t f)" "m_attoseconds (attotime_div t f) < ATTOSECONDS_PER_SECOND"
    and "0 \<le> m_seconds (attotime_div t f)"
proof -
  define hi lo where "hi = m_attoseconds t div 1000000000" and "lo = m_attoseconds t mod 1000000000"
  define t1 where "t1 = hi + m_seconds t mod f * 1000000000"
  define t2 where "t2 = lo + t1 mod f * 1000000000"
  have b: "0 \<le> m_seconds t" "m_seconds t < 1000000000" "0 \<le> m_attoseconds t"
    "m_attoseconds t < 1000000000000000000"
    using assms(1) by (auto simp: wf_time_def atto_consts)
  have hl: "0 \<le> hi" "hi < 1000000000" "0 \<le> lo" "lo < 1000000000"
    using b unfolding hi_def lo_def by auto
  note dd = div_digits [OF assms(2) hl, of "m_seconds t", folded t1_def, folded t2_def]
  have q1: "0 \<le> t1 div f" "t1 div f < 1000000000" "0 \<le> t2 div f" "t2 div f < 1000000000"
    using div_scale_less [of t1 f 1000000000] div_scale_less [of t2 f 1000000000] dd assms(2)
    by (simp_all add: mult.commute)
  have m: "0 \<le> m_seconds t mod f" "m_seconds t mod f < 4294967296" "0 \<le> t1 mod f" "t1 mod f < 4294967296"
    using assms(2,3) pos_mod_bound [of f "m_seconds t"] pos_mod_bound [of f t1]
      pos_mod_sign [of f "m_seconds t"] pos_mod_sign [of f t1] by linarith+
  have sd: "0 \<le> m_seconds t div f" "m_seconds t div f < 4294967296"
    using b assms(2) zdiv_mono2 [of "m_seconds t" 1 f] by (auto simp: pos_imp_zdiv_nonneg_iff)
  have d0: "divu_64x32_rem (m_attoseconds t) 1000000000 = (hi, lo)"
    using split_sqrt [OF b(3,4)] by (simp add: hi_def lo_def)
  have d1: "divu_64x32_rem (m_seconds t) f = (m_seconds t div f, m_seconds t mod f)"
    using b assms sd by (intro divu_exact) auto
  have d2: "divu_64x32_rem t1 f = (t1 div f, t1 mod f)"
    and d3: "divu_64x32_rem t2 f = (t2 div f, t2 mod f)"
    using dd(1-4) assms q1 by (intro divu_exact; auto)+
  have u: "to_u64 t1 = t1" "to_u64 t2 = t2"
    using dd(1-4) assms(3) by auto
  define A where "A = t2 div f + t1 div f * 1000000000"
  have A: "0 \<le> A" "A < 1000000000000000000" using q1 by (auto simp: A_def)
  have at: "attos t = f * (m_seconds t div f * 1000000000000000000 + A) + t2 mod f"
    using dd(5) by (simp add: attos_def atto_consts hi_def lo_def A_def algebra_simps)
  have dv: "attos t div f = m_seconds t div f * 1000000000000000000 + A"
    and md: "attos t mod f = t2 mod f"
    unfolding at using assms(2) pos_mod_bound [of f t2] by simp_all
  have e: "attotime_div t f =
     (if t2 mod f \<ge> f div 2 then (if A + 1 \<ge> 1000000000000000000 then Attotime (m_seconds t div f + 1) 0
        else Attotime (m_seconds t div f) (A + 1)) else Attotime (m_seconds t div f) A)"
    using assms(2,3) b m q1
    by (simp add: attotime_div_def atto_consts d0 d1 d2 d3 u mulu_32x32_def A_def
        t1_def [symmetric] t2_def [symmetric])
  show "attos (attotime_div t f) = attos t div f + of_bool (attos t mod f \<ge> f div 2)"
    unfolding dv md e using A by (simp add: attos_def atto_consts)
  show "0 \<le> m_attoseconds (attotime_div t f)" "m_attoseconds (attotime_div t f) < ATTOSECONDS_PER_SECOND"
    "0 \<le> m_seconds (attotime_div t f)"
    unfolding e using A sd by (simp_all add: atto_consts)
qed

section \<open>Tick counts\<close>

lemma tick_fraction:
  fixes f r :: int
  assumes "0 < f" "f \<le> 1000000000" "0 \<le> r" "r < f"
  defines "R \<equiv> 1000000000000000000 mod f"
  shows "r * (1000000000000000000 div f) * f div 1000000000000000000 = r - of_bool (r * R \<noteq> 0)"
    and "r * (1000000000000000000 div f) < 1000000000000000000"
proof -
  have R: "0 \<le> R" "R < f" using assms(1) by (auto simp: R_def)
  have K: "f * (1000000000000000000 div f) = 1000000000000000000 - R"
    by (simp add: R_def minus_mod_eq_mult_div)
  have e: "r * (1000000000000000000 div f) * f = r * 1000000000000000000 - r * R"
  proof -
    have "r * (1000000000000000000 div f) * f = r * (f * (1000000000000000000 div f))" by simp
    then show ?thesis unfolding K by (simp add: right_diff_distrib)
  qed
  have "r * R \<le> r * f" using R assms(3) by (simp add: mult_left_mono)
  also have "\<dots> < f * f" using assms(1,4) by simp
  also have "\<dots> \<le> 1000000000 * 1000000000" using assms(1,2) by (intro mult_mono) auto
  finally have b: "r * R < 1000000000000000000" by simp
  have "0 \<le> r * R" using R assms(3) by simp
  then show "r * (1000000000000000000 div f) * f div 1000000000000000000 = r - of_bool (r * R \<noteq> 0)"
    unfolding e using b by (auto simp: of_bool_def simp del: mult_eq_0_iff)
  have "0 < 1000000000000000000 div f" using assms(1,2) by (simp add: pos_imp_zdiv_pos_iff)
  then have "r * (1000000000000000000 div f) < f * (1000000000000000000 div f)" using assms(4) by simp
  then show "r * (1000000000000000000 div f) < 1000000000000000000" using K R by simp
qed

lemma from_ticks_eval:
  assumes "0 < f" "f \<le> 1000000000" "0 \<le> n" "n div f < 1000000000"
  shows "from_ticks n f = Attotime (n div f) (n mod f * (1000000000000000000 div f))"
proof -
  have "n div f * f \<le> 999999999 * f" using assms(1,4) by (intro mult_right_mono) auto
  then have "n < f * 1000000000"
    using div_mult_mod_eq [of n f] pos_mod_bound [OF assms(1), of n] by linarith
  then have n: "n < 18446744073709551616" using assms(2) by linarith
  have q: "0 \<le> n div f" using assms by (simp add: pos_imp_zdiv_nonneg_iff)
  have d: "divu_64x32_rem n f = (n div f, n mod f)" using assms n by (intro divu_exact) auto
  show ?thesis
    using assms q by (simp add: from_ticks_def HZ_TO_ATTOSECONDS_def atto_consts d Let_def)
qed

lemma as_ticks_from_ticks:
  assumes "0 < f" "f \<le> 1000000000" "0 \<le> n" "n div f < 1000000000"
  shows "as_ticks (from_ticks n f) f = n - of_bool (n mod f * (ATTOSECONDS_PER_SECOND mod f) \<noteq> 0)"
proof -
  define r where "r = n mod f"
  have r: "0 \<le> r" "r < f" using assms(1) by (auto simp: r_def)
  note tf = tick_fraction [OF assms(1,2) r]
  define a where "a = r * (1000000000000000000 div f)"
  have a: "0 \<le> a" "a < 1000000000000000000" using tf(2) r assms(1) by (auto simp: a_def pos_imp_zdiv_nonneg_iff)
  have wf: "wf_time (Attotime 0 a)" using a by (simp add: wf_time_def atto_consts)
  have prod: "a * f div 1000000000000000000 = r - of_bool (r * (1000000000000000000 mod f) \<noteq> 0)"
    using tf(1) by (simp add: a_def)
  have "a * f < 1000000000000000000 * f" using a assms(1) by simp
  then have lt: "attos (Attotime 0 a) * f < ATTOTIME_MAX_SECONDS * ATTOSECONDS_PER_SECOND"
    using assms(2) by (simp add: attos_def atto_consts)
  have ex: "wf_time (attotime_mul (Attotime 0 a) f)" "attos (attotime_mul (Attotime 0 a) f) = a * f"
    using attotime_mul_exact(1) [OF wf assms(1) _ lt] assms(2) by (auto simp: attos_def)
  then have sec: "m_seconds (attotime_mul (Attotime 0 a) f) = a * f div 1000000000000000000"
    by (auto simp: attos_def wf_time_def atto_consts)
  have q: "0 \<le> n div f" using assms by (simp add: pos_imp_zdiv_nonneg_iff)
  have nf: "n div f * f + r = n" by (simp add: r_def)
  have n: "0 \<le> n div f * f" "n div f * f \<le> 1000000000 * f"
    using q assms(1,4) by (auto intro: mult_right_mono)
  have m: "0 \<le> m_seconds (attotime_mul (Attotime 0 a) f)"
    "m_seconds (attotime_mul (Attotime 0 a) f) < 4294967296"
    using ex(1) by (auto simp: wf_time_def atto_consts)
  have u: "to_u64 (n div f * f + a * f div 1000000000000000000) = n div f * f + a * f div 1000000000000000000"
    by (rule to_u64_id) (use n m sec assms(2) in linarith)+
  have "as_ticks (from_ticks n f) f = n div f * f + a * f div 1000000000000000000"
    unfolding from_ticks_eval [OF assms] r_def [symmetric] a_def [symmetric] as_ticks_def Let_def
    using assms q m u by (simp add: mulu_32x32_def sec)
  then show ?thesis
    unfolding prod using nf by (simp add: atto_consts r_def)
qed

text \<open>A tick count survives the conversion to a time and back, except that one tick is
  lost exactly when the frequency does not divide a second into a whole number of
  attoseconds and the count is not a whole number of seconds: \<open>from_ticks\<close> truncates the
  length of a tick, so \<open>as_ticks\<close> finds the last tick not quite complete.
\<close>

theorem ticks_roundtrip:
  assumes "0 < f" "f \<le> 1000000000" "0 \<le> n" "n div f < 1000000000"
  shows "as_ticks (from_ticks n f) f = n - of_bool (n mod f * (ATTOSECONDS_PER_SECOND mod f) \<noteq> 0)"
  by (rule as_ticks_from_ticks [OF assms])

theorem ticks_roundtrip_witness:
  "as_ticks (from_ticks 4608 230400) 230400 = 4607"
  using ticks_roundtrip [of 230400 4608] by (simp add: atto_consts)

text \<open>Division of a time by a 32-bit factor is the integer quotient of its attoseconds,
  rounded up when the remainder is at least \<open>f div 2\<close>. Since \<open>1 div 2\<close> is zero, a
  division by one does not return its argument but the time one attosecond later.
\<close>

theorem attotime_div_rounds:
  assumes "wf_time t" "0 < f" "f < 2 ^ 32"
  shows "attos (attotime_div t f) = attos t div f + of_bool (f div 2 \<le> attos t mod f) \<and>
     attos (attotime_div t 1) = attos t + 1"
  using attotime_div_exact(1) [OF assms(1), of f] attotime_div_exact(1) [OF assms(1), of 1] assms(2,3)
  by auto

theorem attotime_div_rounds_witness:
  "attos (attotime_div (Attotime 0 7) 3) = 3 \<and> attos (attotime_div (Attotime 0 7) 1) = 8"
  using attotime_div_rounds [of "Attotime 0 7" 3] by (simp add: wf_time_def atto_consts attos_def)

end
