(* ===== verification/Emu_Timer.thy ===== *)
theory Emu_Timer
  imports Attotime
begin

text \<open>
  The timer of the emulator core, \<^verbatim>\<open>emu_timer\<close> of \<^verbatim>\<open>src/emu/schedule.cpp\<close>: the fields
  a device can observe and the operations the devices of this development call. The
  scheduler's \<^verbatim>\<open>time()\<close> is an argument \<open>now\<close> of the operations that read it; the
  position of the timer in the scheduler's list is not part of a device's state.
\<close>

record emu_timer =
  m_param :: int
  m_enabled :: bool
  m_period :: attotime
  m_start :: attotime
  m_expire :: attotime

text \<open>\<^verbatim>\<open>timer_alloc\<close>: \<^verbatim>\<open>init\<close> with a start delay of \<open>never\<close>.\<close>

definition timer_init :: "attotime \<Rightarrow> attotime \<Rightarrow> int \<Rightarrow> emu_timer" where
  "timer_init now start_delay param =
     (let expire = attotime_add now start_delay
      in \<lparr>m_param = param, m_enabled = (\<not> is_never expire), m_period = attotime_never,
          m_start = now, m_expire = expire\<rparr>)"

definition timer_enable :: "bool \<Rightarrow> emu_timer \<Rightarrow> emu_timer" where
  "timer_enable e t = (if m_enabled t \<noteq> e then t\<lparr>m_enabled := e\<rparr> else t)"

definition timer_adjust :: "attotime \<Rightarrow> attotime \<Rightarrow> int \<Rightarrow> attotime \<Rightarrow> emu_timer \<Rightarrow> emu_timer" where
  "timer_adjust now start_delay param period t =
     (let d = (if m_seconds start_delay < 0 then attotime_zero else start_delay)
      in t\<lparr>m_param := param, m_enabled := True, m_start := now,
           m_expire := attotime_add now d, m_period := period\<rparr>)"

definition timer_elapsed :: "attotime \<Rightarrow> emu_timer \<Rightarrow> attotime" where
  "timer_elapsed now t = attotime_sub now (m_start t)"

definition timer_remaining :: "attotime \<Rightarrow> emu_timer \<Rightarrow> attotime" where
  "timer_remaining now t =
     (if now \<ge> m_expire t then attotime_zero else attotime_sub (m_expire t) now)"

text \<open>\<^verbatim>\<open>schedule_next_period\<close>, which the scheduler calls after a periodic timer fired.\<close>

definition schedule_next_period :: "emu_timer \<Rightarrow> emu_timer" where
  "schedule_next_period t =
     t\<lparr>m_start := m_expire t, m_expire := attotime_add (m_expire t) (m_period t)\<rparr>"

text \<open>\<^verbatim>\<open>adjust(attotime::never)\<close>: the timer does not fire again.\<close>

abbreviation timer_never :: "attotime \<Rightarrow> emu_timer \<Rightarrow> emu_timer" where
  "timer_never now \<equiv> timer_adjust now attotime_never 0 attotime_never"

lemma timer_never_expire: "is_never (m_expire (timer_never now t))"
  by (simp add: timer_adjust_def attotime_add_def is_never_def attotime_never_def Let_def atto_consts)

text \<open>A timer that was just set reports the delay it was set with.\<close>

lemma remaining_after_adjust:
  assumes "wf_time now" "wf_time d" "attos now + attos d < ATTOTIME_MAX_SECONDS * ATTOSECONDS_PER_SECOND"
    "0 < attos d"
  shows "timer_remaining now (timer_adjust now d p q t) = d"
proof -
  let ?e = "attotime_add now d"
  have e: "wf_time ?e" "attos ?e = attos now + attos d"
    using attotime_add_exact(1) [OF assms(1,2)] assms(3) by auto
  have lt: "now < ?e" using less_by_order [OF assms(1) e(1)] e(2) assms(4) by simp
  then have s: "wf_time (attotime_sub ?e now)" "attos (attotime_sub ?e now) = attos d"
    using attotime_sub_exact [OF e(1) assms(1)] e(2) by auto
  have "attotime_sub ?e now = d" using attos_inject [OF s(1) assms(2) s(2)] .
  then show ?thesis
    using lt assms(2) by (auto simp: timer_remaining_def timer_adjust_def Let_def wf_time_def)
qed

end
