(* ===== verification/Diserial.thy ===== *)
theory Diserial
  imports Emu_Timer
begin

text \<open>
  The serial device interface, \<^verbatim>\<open>src/emu/diserial.cpp\<close> and \<^verbatim>\<open>src/emu/diserial.h\<close>: the
  shift registers that every serial chip of the emulator is built on, their framing, and
  the clock edges that move bits through them. A line level is a \<^typ>\<open>bool\<close>, since the
  \<^verbatim>\<open>int\<close> the code passes is 0 or 1. The flag words and shift registers are words of
  their width; the \<^verbatim>\<open>u8\<close> counters are natural numbers with the wrap-around written out.

  The virtual callbacks (\<^verbatim>\<open>tra_callback\<close>, \<^verbatim>\<open>tra_complete\<close>, \<^verbatim>\<open>rcv_complete\<close>) belong to the
  chip that derives from the interface. The clock edges therefore take them as arguments,
  together with the access to the interface's fields inside the chip's state.
\<close>

section \<open>Types and state\<close>

datatype parity_t = PARITY_NONE | PARITY_ODD | PARITY_EVEN | PARITY_MARK | PARITY_SPACE

datatype stop_bits_t = STOP_BITS_0 | STOP_BITS_1 | STOP_BITS_1_5 | STOP_BITS_2

abbreviation RECEIVE_REGISTER_WAITING_FOR_START_BIT :: u8 where
  "RECEIVE_REGISTER_WAITING_FOR_START_BIT \<equiv> 0x01"

abbreviation RECEIVE_REGISTER_SYNCHRONISED :: u8 where
  "RECEIVE_REGISTER_SYNCHRONISED \<equiv> 0x02"

abbreviation RECEIVE_REGISTER_FULL :: u8 where
  "RECEIVE_REGISTER_FULL \<equiv> 0x04"

abbreviation TRANSMIT_REGISTER_EMPTY :: u8 where
  "TRANSMIT_REGISTER_EMPTY \<equiv> 0x01"

record device_serial_interface =
  m_start_bit_hack_for_external_clocks :: bool
  m_df_start_bit_count :: int
  m_df_word_length :: nat
  m_df_parity :: parity_t
  m_df_stop_bit_count :: nat
  m_df_min_rx_stop_bit_count :: nat
  m_rcv_register_data :: u16
  m_rcv_flags :: u8
  m_rcv_bit_count_received :: nat
  m_rcv_bit_count :: nat
  m_rcv_byte_received :: u8
  m_rcv_framing_error :: bool
  m_rcv_parity_error :: bool
  m_tra_register_data :: u16
  m_tra_flags :: u8
  m_tra_bit_count_transmitted :: nat
  m_tra_bit_count :: nat
  m_rcv_clock :: emu_timer
  m_tra_clock :: emu_timer
  m_rcv_rate :: attotime
  m_tra_rate :: attotime
  m_rcv_line :: bool
  m_tra_clock_state :: bool
  m_rcv_clock_state :: bool

text \<open>The constructor, with the two timers of \<^verbatim>\<open>interface_pre_start\<close> allocated at time \<open>now\<close>.\<close>

definition device_serial_interface_init :: "attotime \<Rightarrow> device_serial_interface" where
  "device_serial_interface_init now =
     \<lparr>m_start_bit_hack_for_external_clocks = False,
      m_df_start_bit_count = 0, m_df_word_length = 0, m_df_parity = PARITY_NONE,
      m_df_stop_bit_count = 0, m_df_min_rx_stop_bit_count = 0,
      m_rcv_register_data = 0x8000, m_rcv_flags = 0, m_rcv_bit_count_received = 0,
      m_rcv_bit_count = 0, m_rcv_byte_received = 0, m_rcv_framing_error = False,
      m_rcv_parity_error = False, m_tra_register_data = 0,
      m_tra_flags = TRANSMIT_REGISTER_EMPTY, m_tra_bit_count_transmitted = 0,
      m_tra_bit_count = 0, m_rcv_clock = timer_init now attotime_never 0,
      m_tra_clock = timer_init now attotime_never 0, m_rcv_rate = attotime_never,
      m_tra_rate = attotime_never, m_rcv_line = False, m_tra_clock_state = False,
      m_rcv_clock_state = False\<rparr>"

definition is_receive_register_full :: "'a device_serial_interface_scheme \<Rightarrow> bool" where
  "is_receive_register_full s \<longleftrightarrow> m_rcv_flags s AND RECEIVE_REGISTER_FULL \<noteq> 0"

definition is_transmit_register_empty :: "'a device_serial_interface_scheme \<Rightarrow> bool" where
  "is_transmit_register_empty s \<longleftrightarrow> m_tra_flags s AND TRANSMIT_REGISTER_EMPTY \<noteq> 0"

definition is_receive_register_synchronized :: "'a device_serial_interface_scheme \<Rightarrow> bool" where
  "is_receive_register_synchronized s \<longleftrightarrow> m_rcv_flags s AND RECEIVE_REGISTER_SYNCHRONISED \<noteq> 0"

definition popcount :: "u8 \<Rightarrow> nat" where
  "popcount w = (\<Sum>i\<leftarrow>[0..<8]. of_bool (bit w i))"

section \<open>Framing and the receive register\<close>

definition receive_register_reset ::
    "'a device_serial_interface_scheme \<Rightarrow> 'a device_serial_interface_scheme" where
  "receive_register_reset s =
     (let f = m_rcv_flags s AND NOT RECEIVE_REGISTER_FULL
      in s\<lparr>m_rcv_bit_count_received := 0,
           m_rcv_flags :=
             (if m_df_start_bit_count s = 0
              then (f OR RECEIVE_REGISTER_SYNCHRONISED) AND NOT RECEIVE_REGISTER_WAITING_FOR_START_BIT
              else (f AND NOT RECEIVE_REGISTER_SYNCHRONISED) OR RECEIVE_REGISTER_WAITING_FOR_START_BIT)\<rparr>)"

text \<open>The number of stop bits sent, and the number a receiver insists on.\<close>

definition stop_bit_counts :: "stop_bits_t \<Rightarrow> nat \<times> nat" where
  "stop_bit_counts sb =
     (case sb of STOP_BITS_0 \<Rightarrow> (0, 0) | STOP_BITS_1 \<Rightarrow> (1, 1) | STOP_BITS_1_5 \<Rightarrow> (2, 1)
      | STOP_BITS_2 \<Rightarrow> (2, 1))"

definition set_data_frame ::
    "int \<Rightarrow> nat \<Rightarrow> parity_t \<Rightarrow> stop_bits_t \<Rightarrow> 'a device_serial_interface_scheme
       \<Rightarrow> 'a device_serial_interface_scheme" where
  "set_data_frame start_bit_count data_bit_count parity stop_bits s =
     (let df_changed = (start_bit_count \<noteq> m_df_start_bit_count s \<or>
                        data_bit_count \<noteq> m_df_word_length s \<or> parity \<noteq> m_df_parity s);
          (stops, min_rx) = stop_bit_counts stop_bits;
          s1 = s\<lparr>m_df_word_length := data_bit_count, m_df_stop_bit_count := stops,
                 m_df_min_rx_stop_bit_count := min_rx\<rparr>;
          df_changed' = (df_changed \<or> stops \<noteq> m_df_stop_bit_count s \<or>
                         min_rx \<noteq> m_df_min_rx_stop_bit_count s)
      in if \<not> df_changed' then s1
         else
           let s2 = s1\<lparr>m_df_parity := parity, m_df_start_bit_count := start_bit_count,
                       m_rcv_bit_count :=
                         (data_bit_count + min_rx + of_bool (parity \<noteq> PARITY_NONE)) mod 256\<rparr>
           in receive_register_reset s2)"

text \<open>The two shifts: the receive register moves down, the transmit register up.\<close>

definition rcv_shift :: "bool \<Rightarrow> u16 \<Rightarrow> u16" where
  "rcv_shift b w = (drop_bit 1 w AND 0x7fff) OR push_bit 15 (of_bool b)"

definition tra_shift :: "bool \<Rightarrow> u16 \<Rightarrow> u16" where
  "tra_shift b w = push_bit 1 w OR of_bool b"

text \<open>One sampled bit. The shift register is filled from its top, so after a whole frame the
  oldest bit is the lowest of the \<open>m_rcv_bit_count\<close> bits below the top.\<close>

definition receive_register_update_bit ::
    "bool \<Rightarrow> 'a device_serial_interface_scheme \<Rightarrow> 'a device_serial_interface_scheme" where
  "receive_register_update_bit b s =
     (let previous_bit = bit (m_rcv_register_data s) 15;
          s1 = s\<lparr>m_rcv_register_data := rcv_shift b (m_rcv_register_data s)\<rparr>
      in if m_rcv_flags s1 AND RECEIVE_REGISTER_WAITING_FOR_START_BIT \<noteq> 0 then
           (if previous_bit \<noteq> b \<and> \<not> b then
              s1\<lparr>m_rcv_flags := (m_rcv_flags s1 AND NOT RECEIVE_REGISTER_WAITING_FOR_START_BIT)
                                 OR RECEIVE_REGISTER_SYNCHRONISED,
                 m_rcv_bit_count_received := 0,
                 m_rcv_framing_error := False, m_rcv_parity_error := False\<rparr>
            else s1)
         else if m_rcv_flags s1 AND RECEIVE_REGISTER_SYNCHRONISED \<noteq> 0 then
           let n = (m_rcv_bit_count_received s1 + 1) mod 256;
               fe = (\<not> b \<and> int n > int (m_rcv_bit_count s1) - int (m_df_min_rx_stop_bit_count s1));
               s2 = s1\<lparr>m_rcv_bit_count_received := n,
                       m_rcv_framing_error := (m_rcv_framing_error s1 \<or> fe)\<rparr>
           in if n = m_rcv_bit_count s2 then
                s2\<lparr>m_rcv_bit_count_received := 0,
                   m_rcv_flags := (((m_rcv_flags s2 AND NOT RECEIVE_REGISTER_SYNCHRONISED)
                                    OR RECEIVE_REGISTER_WAITING_FOR_START_BIT) OR RECEIVE_REGISTER_FULL)\<rparr>
              else s2
         else s1)"

definition parity_error :: "parity_t \<Rightarrow> u8 \<Rightarrow> bool \<Rightarrow> bool" where
  "parity_error p data parity_received =
     (case p of
        PARITY_NONE \<Rightarrow> False
      | PARITY_ODD \<Rightarrow> parity_received = odd (popcount data)
      | PARITY_EVEN \<Rightarrow> parity_received \<noteq> odd (popcount data)
      | PARITY_MARK \<Rightarrow> \<not> parity_received
      | PARITY_SPACE \<Rightarrow> parity_received)"

definition receive_register_extract ::
    "'a device_serial_interface_scheme \<Rightarrow> 'a device_serial_interface_scheme" where
  "receive_register_extract s =
     (let s1 = receive_register_reset s;
          raw = (ucast (drop_bit (16 - m_rcv_bit_count s1) (m_rcv_register_data s1)) :: u8);
          data = raw AND NOT (push_bit (m_df_word_length s1) 0xff);
          s2 = s1\<lparr>m_rcv_byte_received := data\<rparr>
      in if m_df_parity s2 = PARITY_NONE then s2
         else
           let parity_received =
                 bit (m_rcv_register_data s2) (16 - m_rcv_bit_count s2 + m_df_word_length s2)
           in s2\<lparr>m_rcv_parity_error :=
                    (m_rcv_parity_error s2 \<or> parity_error (m_df_parity s2) data parity_received)\<rparr>)"

definition rx_w :: "attotime \<Rightarrow> bool \<Rightarrow> 'a device_serial_interface_scheme
    \<Rightarrow> 'a device_serial_interface_scheme" where
  "rx_w now state s =
     (let s1 = s\<lparr>m_rcv_line := state\<rparr>
      in if m_rcv_flags s1 AND RECEIVE_REGISTER_SYNCHRONISED \<noteq> 0 then s1
         else
           let s2 = receive_register_update_bit state s1
           in if m_rcv_flags s2 AND RECEIVE_REGISTER_SYNCHRONISED \<noteq> 0 then
                (if \<not> is_never (m_rcv_rate s2) then
                   s2\<lparr>m_rcv_clock := timer_adjust now (attotime_mul (m_rcv_rate s2) 2) 0
                                        (m_rcv_rate s2) (m_rcv_clock s2)\<rparr>
                 else if m_start_bit_hack_for_external_clocks s2 then
                   s2\<lparr>m_rcv_bit_count_received := (m_rcv_bit_count_received s2 + 255) mod 256\<rparr>
                 else s2)
              else s2)"

section \<open>The transmit register\<close>

definition transmit_register_reset ::
    "'a device_serial_interface_scheme \<Rightarrow> 'a device_serial_interface_scheme" where
  "transmit_register_reset s = s\<lparr>m_tra_flags := m_tra_flags s OR TRANSMIT_REGISTER_EMPTY\<rparr>"

definition transmit_register_add_bit ::
    "bool \<Rightarrow> 'a device_serial_interface_scheme \<Rightarrow> 'a device_serial_interface_scheme" where
  "transmit_register_add_bit b s =
     s\<lparr>m_tra_register_data := tra_shift b (m_tra_register_data s),
       m_tra_bit_count := (m_tra_bit_count s + 1) mod 256\<rparr>"

text \<open>The loop over the data bits, which shifts the byte right by one each time round.\<close>

primrec add_data_bits ::
    "nat \<Rightarrow> u8 \<Rightarrow> 'a device_serial_interface_scheme \<Rightarrow> 'a device_serial_interface_scheme" where
  "add_data_bits 0 transmit_data s = s"
| "add_data_bits (Suc n) transmit_data s =
     add_data_bits n (drop_bit 1 transmit_data)
       (transmit_register_add_bit (bit transmit_data 0) s)"

text \<open>The parity bit of a byte, computed over all eight bits of it.\<close>

definition transmit_parity :: "parity_t \<Rightarrow> u8 \<Rightarrow> bool" where
  "transmit_parity p data_byte =
     (case p of
        PARITY_NONE \<Rightarrow> False
      | PARITY_ODD \<Rightarrow> \<not> odd (popcount data_byte)
      | PARITY_EVEN \<Rightarrow> odd (popcount data_byte)
      | PARITY_MARK \<Rightarrow> True
      | PARITY_SPACE \<Rightarrow> False)"

definition transmit_register_setup ::
    "attotime \<Rightarrow> u8 \<Rightarrow> 'a device_serial_interface_scheme \<Rightarrow> 'a device_serial_interface_scheme" where
  "transmit_register_setup now data_byte s =
     (let s1 = (if \<not> is_never (m_tra_rate s)
                then s\<lparr>m_tra_clock := timer_adjust now (m_tra_rate s) 0 (m_tra_rate s) (m_tra_clock s)\<rparr>
                else s);
          s2 = s1\<lparr>m_tra_bit_count_transmitted := 0, m_tra_bit_count := 0,
                  m_tra_flags := m_tra_flags s1 AND NOT TRANSMIT_REGISTER_EMPTY\<rparr>;
          s3 = (transmit_register_add_bit False ^^ nat (m_df_start_bit_count s2)) s2;
          s4 = add_data_bits (m_df_word_length s3) data_byte s3;
          s5 = (if m_df_parity s4 \<noteq> PARITY_NONE
                then transmit_register_add_bit (transmit_parity (m_df_parity s4) data_byte) s4
                else s4)
      in (transmit_register_add_bit True ^^ m_df_stop_bit_count s5) s5)"

definition transmit_register_get_data_bit ::
    "'a device_serial_interface_scheme \<Rightarrow> bool \<times> 'a device_serial_interface_scheme" where
  "transmit_register_get_data_bit s =
     (let b = bit (m_tra_register_data s) (m_tra_bit_count s - 1 - m_tra_bit_count_transmitted s);
          s1 = s\<lparr>m_tra_bit_count_transmitted := (m_tra_bit_count_transmitted s + 1) mod 256\<rparr>
      in (b, if m_tra_bit_count_transmitted s1 = m_tra_bit_count s1
             then s1\<lparr>m_tra_flags := m_tra_flags s1 OR TRANSMIT_REGISTER_EMPTY\<rparr> else s1))"

section \<open>Rates and clock edges\<close>

definition set_rcv_rate :: "attotime \<Rightarrow> attotime \<Rightarrow> 'a device_serial_interface_scheme
    \<Rightarrow> 'a device_serial_interface_scheme" where
  "set_rcv_rate now rate s =
     (let s1 = receive_register_reset (s\<lparr>m_rcv_rate := attotime_div rate 2\<rparr>)
      in s1\<lparr>m_rcv_clock := timer_never now (m_rcv_clock s1)\<rparr>)"

definition set_tra_rate :: "attotime \<Rightarrow> attotime \<Rightarrow> 'a device_serial_interface_scheme
    \<Rightarrow> 'a device_serial_interface_scheme" where
  "set_tra_rate now rate s =
     (let s1 = transmit_register_reset (s\<lparr>m_tra_rate := attotime_div rate 2\<rparr>)
      in s1\<lparr>m_tra_clock := timer_never now (m_tra_clock s1)\<rparr>)"

text \<open>The overloads that take a baud rate.\<close>

definition baud_to_rate :: "int \<Rightarrow> attotime" where
  "baud_to_rate baud = (if baud \<noteq> 0 then from_hz baud else attotime_never)"

definition set_rcv_rate_baud :: "attotime \<Rightarrow> int \<Rightarrow> 'a device_serial_interface_scheme
    \<Rightarrow> 'a device_serial_interface_scheme" where
  "set_rcv_rate_baud now baud s = set_rcv_rate now (baud_to_rate baud) s"

definition set_tra_rate_baud :: "attotime \<Rightarrow> int \<Rightarrow> 'a device_serial_interface_scheme
    \<Rightarrow> 'a device_serial_interface_scheme" where
  "set_tra_rate_baud now baud s = set_tra_rate now (baud_to_rate baud) s"

text \<open>
  The clock edges, over a chip state \<open>'s\<close> in which \<open>self\<close> reads the interface's fields and
  \<open>upd\<close> changes them.
\<close>

definition tra_edge ::
    "('s \<Rightarrow> 'a device_serial_interface_scheme) \<Rightarrow>
     (('a device_serial_interface_scheme \<Rightarrow> 'a device_serial_interface_scheme) \<Rightarrow> 's \<Rightarrow> 's) \<Rightarrow>
     ('s \<Rightarrow> 's) \<Rightarrow> ('s \<Rightarrow> 's) \<Rightarrow> attotime \<Rightarrow> 's \<Rightarrow> 's" where
  "tra_edge self upd tra_callback tra_complete now d =
     (let d1 = (if \<not> is_transmit_register_empty (self d)
                then let d' = tra_callback d
                     in if is_transmit_register_empty (self d') then tra_complete d' else d'
                else d)
      in if is_transmit_register_empty (self d1) \<and> \<not> is_never (m_tra_rate (self d1))
         then upd (\<lambda>s. s\<lparr>m_tra_clock := timer_never now (m_tra_clock s)\<rparr>) d1
         else d1)"

definition rcv_edge ::
    "('s \<Rightarrow> 'a device_serial_interface_scheme) \<Rightarrow>
     (('a device_serial_interface_scheme \<Rightarrow> 'a device_serial_interface_scheme) \<Rightarrow> 's \<Rightarrow> 's) \<Rightarrow>
     ('s \<Rightarrow> 's) \<Rightarrow> attotime \<Rightarrow> 's \<Rightarrow> 's" where
  "rcv_edge self upd rcv_complete now d =
     (let d1 = upd (\<lambda>s. receive_register_update_bit (m_rcv_line s) s) d
      in if is_receive_register_full (self d1)
         then rcv_complete (upd (\<lambda>s. s\<lparr>m_rcv_clock := timer_never now (m_rcv_clock s)\<rparr>) d1)
         else d1)"

definition tx_clock_w ::
    "('s \<Rightarrow> 'a device_serial_interface_scheme) \<Rightarrow>
     (('a device_serial_interface_scheme \<Rightarrow> 'a device_serial_interface_scheme) \<Rightarrow> 's \<Rightarrow> 's) \<Rightarrow>
     ('s \<Rightarrow> 's) \<Rightarrow> ('s \<Rightarrow> 's) \<Rightarrow> attotime \<Rightarrow> bool \<Rightarrow> 's \<Rightarrow> 's" where
  "tx_clock_w self upd tra_callback tra_complete now state d =
     (if state \<noteq> m_tra_clock_state (self d) then
        let d1 = upd (\<lambda>s. s\<lparr>m_tra_clock_state := state\<rparr>) d
        in if m_tra_clock_state (self d1) then tra_edge self upd tra_callback tra_complete now d1 else d1
      else d)"

definition rx_clock_w ::
    "('s \<Rightarrow> 'a device_serial_interface_scheme) \<Rightarrow>
     (('a device_serial_interface_scheme \<Rightarrow> 'a device_serial_interface_scheme) \<Rightarrow> 's \<Rightarrow> 's) \<Rightarrow>
     ('s \<Rightarrow> 's) \<Rightarrow> attotime \<Rightarrow> bool \<Rightarrow> 's \<Rightarrow> 's" where
  "rx_clock_w self upd rcv_complete now state d =
     (if state \<noteq> m_rcv_clock_state (self d) then
        let d1 = upd (\<lambda>s. s\<lparr>m_rcv_clock_state := state\<rparr>) d
        in if \<not> m_rcv_clock_state (self d1) then rcv_edge self upd rcv_complete now d1 else d1
      else d)"

section \<open>The vocabulary of the specification\<close>

text \<open>The frame of a byte on the line, in the order of transmission; the pending bits of the
  transmit register; the bits \<open>n\<close> successive clock edges send; the last \<open>n\<close> bits shifted into
  the receive register; and the states of a receiver between and inside frames.\<close>

definition frame_bits :: "'a device_serial_interface_scheme \<Rightarrow> u8 \<Rightarrow> bool list" where
  "frame_bits s data =
     replicate (nat (m_df_start_bit_count s)) False @ map (bit data) [0..<m_df_word_length s] @
     (if m_df_parity s \<noteq> PARITY_NONE then [transmit_parity (m_df_parity s) data] else []) @
     replicate (m_df_stop_bit_count s) True"

definition tra_list :: "'a device_serial_interface_scheme \<Rightarrow> bool list" where
  "tra_list s = map (\<lambda>k. bit (m_tra_register_data s) (m_tra_bit_count s - 1 - k)) [0..<m_tra_bit_count s]"

primrec tx_bits :: "nat \<Rightarrow> 'a device_serial_interface_scheme \<Rightarrow> bool list \<times> 'a device_serial_interface_scheme" where
  "tx_bits 0 s = ([], s)"
| "tx_bits (Suc n) s =
     (let (b, s1) = transmit_register_get_data_bit s; (bs, s2) = tx_bits n s1 in (b # bs, s2))"

definition rcv_list :: "nat \<Rightarrow> 'a device_serial_interface_scheme \<Rightarrow> bool list" where
  "rcv_list n s = map (\<lambda>k. bit (m_rcv_register_data s) (16 - n + k)) [0..<n]"

definition shift_in :: "bool \<Rightarrow> 'a device_serial_interface_scheme \<Rightarrow> 'a device_serial_interface_scheme" where
  "shift_in b s = s\<lparr>m_rcv_register_data := rcv_shift b (m_rcv_register_data s)\<rparr>"

definition receiving :: "'a device_serial_interface_scheme \<Rightarrow> bool" where
  "receiving s \<longleftrightarrow> bit (m_rcv_flags s) 1 \<and> \<not> bit (m_rcv_flags s) 0 \<and> \<not> bit (m_rcv_flags s) 2"

definition waiting :: "'a device_serial_interface_scheme \<Rightarrow> bool" where
  "waiting s \<longleftrightarrow> bit (m_rcv_flags s) 0 \<and> \<not> bit (m_rcv_flags s) 1 \<and> \<not> bit (m_rcv_flags s) 2 \<and>
     bit (m_rcv_register_data s) 15"

text \<open>One bit time: the line changes, then the falling clock edge samples it.\<close>

definition bit_time :: "attotime \<Rightarrow> bool \<Rightarrow> 'a device_serial_interface_scheme \<Rightarrow> 'a device_serial_interface_scheme" where
  "bit_time now b s = (let s1 = rx_w now b s in receive_register_update_bit (m_rcv_line s1) s1)"

definition receive_frame :: "attotime \<Rightarrow> bool list \<Rightarrow> 'a device_serial_interface_scheme \<Rightarrow> 'a device_serial_interface_scheme" where
  "receive_frame now bits r =
     fold (bit_time now) (take (m_rcv_bit_count r) (tl bits)) (rx_w now (hd bits) r)"

text \<open>The fields of a receiver that reception does not change.\<close>

definition same_frame :: "'a device_serial_interface_scheme \<Rightarrow> 'a device_serial_interface_scheme \<Rightarrow> bool" where
  "same_frame s t \<longleftrightarrow> m_rcv_bit_count s = m_rcv_bit_count t \<and> m_df_word_length s = m_df_word_length t \<and>
     m_df_parity s = m_df_parity t \<and> m_df_min_rx_stop_bit_count s = m_df_min_rx_stop_bit_count t \<and>
     m_rcv_parity_error s = m_rcv_parity_error t \<and> m_df_start_bit_count s = m_df_start_bit_count t"

text \<open>The frame length a receiver counts to agrees with the frame it is set to.\<close>

definition df_consistent :: "'a device_serial_interface_scheme \<Rightarrow> bool" where
  "df_consistent s \<longleftrightarrow> m_rcv_bit_count s
     = (m_df_word_length s + m_df_min_rx_stop_bit_count s + of_bool (m_df_parity s \<noteq> PARITY_NONE)) mod 256"

text \<open>The bits of a frame a receiver takes after the start bit, and whether they have the stop bits where it looks for them.\<close>

definition frame_body :: "nat \<Rightarrow> parity_t \<Rightarrow> u8 \<Rightarrow> bool list" where
  "frame_body wl p data = map (bit data) [0..<wl] @ (if p \<noteq> PARITY_NONE then [transmit_parity p data] else []) @ [True]"

definition stops_ok :: "'a device_serial_interface_scheme \<Rightarrow> bool list \<Rightarrow> bool" where
  "stops_ok s bs \<longleftrightarrow> (\<forall>i < length bs. m_rcv_bit_count s - m_df_min_rx_stop_bit_count s \<le> i \<longrightarrow> bs ! i)"

section \<open>Shift registers\<close>

lemma bit_tra_shift:
  "k < 16 \<Longrightarrow> bit (tra_shift b w) k = (if k = 0 then b else bit w (k - 1))"
  unfolding tra_shift_def bit_or_iff bit_push_bit_iff
  by (auto simp: bit_simps)

lemma bit_rcv_shift:
  assumes "k < 16"
  shows "bit (rcv_shift b w) k = (if k = 15 then b else bit w (Suc k))"
proof -
  have m: "(0x7fff :: u16) = mask 15" by (simp add: mask_eq_exp_minus_1)
  show ?thesis
    using assms unfolding rcv_shift_def bit_or_iff bit_and_iff bit_push_bit_iff bit_drop_bit_eq m
    by (auto simp: bit_simps)
qed

section \<open>Transmission\<close>

lemma length_tra_list [simp]: "length (tra_list s) = m_tra_bit_count s"
  by (simp add: tra_list_def)

lemma tra_list_add_bit:
  assumes "m_tra_bit_count s < 16"
  shows "tra_list (transmit_register_add_bit b s) = tra_list s @ [b]"
proof (rule nth_equalityI)
  show "length (tra_list (transmit_register_add_bit b s)) = length (tra_list s @ [b])"
    using assms by (simp add: transmit_register_add_bit_def)
  fix k
  assume "k < length (tra_list (transmit_register_add_bit b s))"
  with assms have k: "k \<le> m_tra_bit_count s" by (simp add: transmit_register_add_bit_def)
  show "tra_list (transmit_register_add_bit b s) ! k = (tra_list s @ [b]) ! k"
  proof (cases "k = m_tra_bit_count s")
    case True
    then show ?thesis using assms
      by (simp add: tra_list_def transmit_register_add_bit_def nth_append bit_tra_shift)
  next
    case False
    with k have "k < m_tra_bit_count s" by simp
    then show ?thesis using assms
      by (simp add: tra_list_def transmit_register_add_bit_def nth_append bit_tra_shift)
  qed
qed

text \<open>What adding a bit leaves alone.\<close>

lemma add_bit_frame [simp]:
  "m_df_start_bit_count (transmit_register_add_bit b s) = m_df_start_bit_count s"
  "m_df_word_length (transmit_register_add_bit b s) = m_df_word_length s"
  "m_df_parity (transmit_register_add_bit b s) = m_df_parity s"
  "m_df_stop_bit_count (transmit_register_add_bit b s) = m_df_stop_bit_count s"
  "m_tra_flags (transmit_register_add_bit b s) = m_tra_flags s"
  "m_tra_bit_count_transmitted (transmit_register_add_bit b s) = m_tra_bit_count_transmitted s"
  by (simp_all add: transmit_register_add_bit_def)

lemma add_bits_frame [simp]:
  "m_df_start_bit_count ((transmit_register_add_bit b ^^ n) s) = m_df_start_bit_count s"
  "m_df_word_length ((transmit_register_add_bit b ^^ n) s) = m_df_word_length s"
  "m_df_parity ((transmit_register_add_bit b ^^ n) s) = m_df_parity s"
  "m_df_stop_bit_count ((transmit_register_add_bit b ^^ n) s) = m_df_stop_bit_count s"
  "m_tra_flags ((transmit_register_add_bit b ^^ n) s) = m_tra_flags s"
  "m_tra_bit_count_transmitted ((transmit_register_add_bit b ^^ n) s) = m_tra_bit_count_transmitted s"
  by (induction n) simp_all

lemma add_data_bits_frame [simp]:
  "m_df_start_bit_count (add_data_bits n d s) = m_df_start_bit_count s"
  "m_df_word_length (add_data_bits n d s) = m_df_word_length s"
  "m_df_parity (add_data_bits n d s) = m_df_parity s"
  "m_df_stop_bit_count (add_data_bits n d s) = m_df_stop_bit_count s"
  "m_tra_flags (add_data_bits n d s) = m_tra_flags s"
  "m_tra_bit_count_transmitted (add_data_bits n d s) = m_tra_bit_count_transmitted s"
  by (induction n arbitrary: d s) simp_all

lemma add_bit_count: "m_tra_bit_count s < 16 \<Longrightarrow> m_tra_bit_count (transmit_register_add_bit b s) = m_tra_bit_count s + 1"
  by (simp add: transmit_register_add_bit_def)

lemma add_bits_tra_list:
  assumes "m_tra_bit_count s + n \<le> 16"
  shows "tra_list ((transmit_register_add_bit b ^^ n) s) = tra_list s @ replicate n b \<and>
    m_tra_bit_count ((transmit_register_add_bit b ^^ n) s) = m_tra_bit_count s + n"
  using assms
proof (induction n)
  case (Suc n)
  then show ?case
    by (simp add: tra_list_add_bit add_bit_count replicate_append_same)
qed simp

lemma add_data_bits_tra_list:
  assumes "m_tra_bit_count s + n \<le> 16"
  shows "tra_list (add_data_bits n d s) = tra_list s @ map (bit d) [0..<n] \<and>
    m_tra_bit_count (add_data_bits n d s) = m_tra_bit_count s + n"
  using assms
proof (induction n arbitrary: d s)
  case (Suc n)
  have c: "m_tra_bit_count (transmit_register_add_bit (bit d 0) s) = m_tra_bit_count s + 1"
    using Suc.prems by (intro add_bit_count) simp
  have "map (bit d) [0..<Suc n] = bit d 0 # map (bit (drop_bit 1 d)) [0..<n]"
    by (simp add: upt_conv_Cons map_Suc_upt [symmetric] bit_simps del: upt_Suc)
  then show ?case
    using Suc.IH [of "transmit_register_add_bit (bit d 0) s" "drop_bit 1 d"] Suc.prems c
    by (simp add: tra_list_add_bit del: upt_Suc)
qed simp

lemma transmit_register_setup_list:
  assumes "length (frame_bits s d) \<le> 16"
  shows "tra_list (transmit_register_setup now d s) = frame_bits s d"
    and "m_tra_bit_count (transmit_register_setup now d s) = length (frame_bits s d)"
    and "m_tra_bit_count_transmitted (transmit_register_setup now d s) = 0"
    and "\<not> is_transmit_register_empty (transmit_register_setup now d s)"
proof -
  define s2 where "s2 = (if \<not> is_never (m_tra_rate s)
      then s\<lparr>m_tra_clock := timer_adjust now (m_tra_rate s) 0 (m_tra_rate s) (m_tra_clock s)\<rparr> else s)
      \<lparr>m_tra_bit_count_transmitted := 0, m_tra_bit_count := 0,
                  m_tra_flags := m_tra_flags s AND NOT TRANSMIT_REGISTER_EMPTY\<rparr>"
  have s2: "m_df_start_bit_count s2 = m_df_start_bit_count s" "m_df_word_length s2 = m_df_word_length s"
    "m_df_parity s2 = m_df_parity s" "m_df_stop_bit_count s2 = m_df_stop_bit_count s"
    "m_tra_bit_count s2 = 0" "m_tra_bit_count_transmitted s2 = 0"
    "m_tra_flags s2 = m_tra_flags s AND NOT TRANSMIT_REGISTER_EMPTY"
    by (auto simp: s2_def)
  have n2: "tra_list s2 = []" by (simp add: tra_list_def s2)
  define s3 where "s3 = (transmit_register_add_bit False ^^ nat (m_df_start_bit_count s)) s2"
  define s4 where "s4 = add_data_bits (m_df_word_length s) d s3"
  define s5 where "s5 = (if m_df_parity s \<noteq> PARITY_NONE
      then transmit_register_add_bit (transmit_parity (m_df_parity s) d) s4 else s4)"
  have e: "transmit_register_setup now d s = (transmit_register_add_bit True ^^ m_df_stop_bit_count s) s5"
    by (simp add: transmit_register_setup_def Let_def s5_def s4_def s3_def s2_def)
  have l: "nat (m_df_start_bit_count s) + m_df_word_length s + of_bool (m_df_parity s \<noteq> PARITY_NONE)
      + m_df_stop_bit_count s \<le> 16"
    using assms by (simp add: frame_bits_def split: if_splits)
  have l3: "tra_list s3 = replicate (nat (m_df_start_bit_count s)) False"
    "m_tra_bit_count s3 = nat (m_df_start_bit_count s)"
    using add_bits_tra_list [of s2 "nat (m_df_start_bit_count s)" False] l s2 n2 by (simp_all add: s3_def)
  have l4: "tra_list s4 = tra_list s3 @ map (bit d) [0..<m_df_word_length s]"
    "m_tra_bit_count s4 = m_tra_bit_count s3 + m_df_word_length s"
    using add_data_bits_tra_list [of s3 "m_df_word_length s" d] l l3 by (simp_all add: s4_def)
  have l5: "tra_list s5 = tra_list s4 @ (if m_df_parity s \<noteq> PARITY_NONE then [transmit_parity (m_df_parity s) d] else [])"
    "m_tra_bit_count s5 = m_tra_bit_count s4 + of_bool (m_df_parity s \<noteq> PARITY_NONE)"
    using l l3 l4 by (auto simp: s5_def tra_list_add_bit add_bit_count)
  have l6: "tra_list (transmit_register_setup now d s) = tra_list s5 @ replicate (m_df_stop_bit_count s) True"
    "m_tra_bit_count (transmit_register_setup now d s) = m_tra_bit_count s5 + m_df_stop_bit_count s"
    using add_bits_tra_list [of s5 "m_df_stop_bit_count s" True] l l3 l4 l5 by (simp_all add: e)
  show tl: "tra_list (transmit_register_setup now d s) = frame_bits s d"
    using l3 l4 l5 l6 by (simp add: frame_bits_def)
  show "m_tra_bit_count (transmit_register_setup now d s) = length (frame_bits s d)"
    unfolding tl [symmetric] by simp
  show "m_tra_bit_count_transmitted (transmit_register_setup now d s) = 0"
    by (simp add: e s5_def s4_def s3_def s2)
  show "\<not> is_transmit_register_empty (transmit_register_setup now d s)"
    by (simp add: e s5_def s4_def s3_def s2 is_transmit_register_empty_def mask_bits bit_simps)
qed

lemma get_data_bit_list:
  assumes "m_tra_bit_count_transmitted s < m_tra_bit_count s" "m_tra_bit_count s \<le> 16"
    "transmit_register_get_data_bit s = (b, s1)"
  shows "b = tra_list s ! m_tra_bit_count_transmitted s" "tra_list s1 = tra_list s"
    "m_tra_bit_count s1 = m_tra_bit_count s"
    "m_tra_bit_count_transmitted s1 = m_tra_bit_count_transmitted s + 1"
    "is_transmit_register_empty s1 \<longleftrightarrow>
       is_transmit_register_empty s \<or> m_tra_bit_count_transmitted s + 1 = m_tra_bit_count s"
  using assms
  by (auto simp: transmit_register_get_data_bit_def Let_def tra_list_def is_transmit_register_empty_def
      mask_bits bit_simps split: if_splits)

lemma tx_bits_list:
  assumes "m_tra_bit_count_transmitted s + n \<le> m_tra_bit_count s" "m_tra_bit_count s \<le> 16"
    "\<not> is_transmit_register_empty s"
  shows "fst (tx_bits n s) = take n (drop (m_tra_bit_count_transmitted s) (tra_list s)) \<and>
    (0 < n \<longrightarrow> (is_transmit_register_empty (snd (tx_bits n s)) \<longleftrightarrow> m_tra_bit_count_transmitted s + n = m_tra_bit_count s))"
  using assms
proof (induction n arbitrary: s)
  case (Suc n)
  obtain b s1 where g: "transmit_register_get_data_bit s = (b, s1)" by fastforce
  note gl = get_data_bit_list [OF _ Suc.prems(2) g]
  have lt: "m_tra_bit_count_transmitted s < m_tra_bit_count s" using Suc.prems(1) by simp
  show ?case
  proof (cases "n = 0")
    case True
    then show ?thesis using gl [OF lt] lt g Suc.prems(3)
      by (simp add: take_Suc_conv_app_nth hd_drop_conv_nth take_Suc)
  next
    case False
    then have ne: "\<not> is_transmit_register_empty s1" using gl(5) [OF lt] Suc.prems by auto
    have ih: "fst (tx_bits n s1) = take n (drop (m_tra_bit_count_transmitted s1) (tra_list s1)) \<and>
      (0 < n \<longrightarrow> (is_transmit_register_empty (snd (tx_bits n s1)) \<longleftrightarrow> m_tra_bit_count_transmitted s1 + n = m_tra_bit_count s1))"
      using Suc.IH [of s1] gl [OF lt] Suc.prems ne by simp
    have "drop (m_tra_bit_count_transmitted s) (tra_list s) = b # drop (m_tra_bit_count_transmitted s + 1) (tra_list s)"
      using gl(1) [OF lt] lt by (simp add: Cons_nth_drop_Suc)
    then show ?thesis using ih gl [OF lt] False by (cases "tx_bits n s1") (simp add: g)
  qed
qed simp

lemma transmit_frame_parts:
  assumes "length (frame_bits s data) \<le> 16" "frame_bits s data \<noteq> []"
  defines "n \<equiv> length (frame_bits s data)"
  shows "fst (tx_bits n (transmit_register_setup now data s)) = frame_bits s data"
    and "is_transmit_register_empty (snd (tx_bits n (transmit_register_setup now data s)))"
    and "\<forall>k<n. \<not> is_transmit_register_empty (snd (tx_bits k (transmit_register_setup now data s)))"
proof -
  let ?s = "transmit_register_setup now data s"
  note su = transmit_register_setup_list [OF assms(1), of now]
  have t: "fst (tx_bits k ?s) = take k (frame_bits s data) \<and>
     (0 < k \<longrightarrow> (is_transmit_register_empty (snd (tx_bits k ?s)) \<longleftrightarrow> k = n))" if "k \<le> n" for k
    using tx_bits_list [of ?s k] su assms(1) that by (simp add: n_def)
  show "fst (tx_bits n ?s) = frame_bits s data" using t [of n] by (simp add: n_def)
  show "is_transmit_register_empty (snd (tx_bits n ?s))" using t [of n] assms(2) by (simp add: n_def)
  show "\<forall>k<n. \<not> is_transmit_register_empty (snd (tx_bits k ?s))"
  proof (intro allI impI)
    fix k assume "k < n"
    then show "\<not> is_transmit_register_empty (snd (tx_bits k ?s))"
      using t [of k] su(4) by (cases k) auto
  qed
qed

text \<open>Transmission: after \<open>transmit_register_setup\<close> loads a byte whose frame fits the 16-bit
  shift register, successive calls of \<open>transmit_register_get_data_bit\<close> send exactly the frame
  (start bits, data bits with the least significant first, parity bit, stop bits), and the
  register reports empty with the last bit of the frame and never before.\<close>

theorem transmit_frame:
  assumes "length (frame_bits s data) \<le> 16" "frame_bits s data \<noteq> []"
  shows "let t = transmit_register_setup now data s; n = length (frame_bits s data)
         in fst (tx_bits n t) = frame_bits s data \<and>
            (\<forall>k\<le>n. is_transmit_register_empty (snd (tx_bits k t)) \<longleftrightarrow> k = n)"
  using transmit_frame_parts [OF assms, of now] by (auto simp: Let_def le_less)

theorem transmit_frame_witness:
  "let s = set_data_frame 1 8 PARITY_NONE STOP_BITS_1 (device_serial_interface_init attotime_zero);
       t = transmit_register_setup attotime_zero 0x55 s; n = length (frame_bits s 0x55)
   in fst (tx_bits n t) = frame_bits s 0x55 \<and>
      (\<forall>k\<le>n. is_transmit_register_empty (snd (tx_bits k t)) \<longleftrightarrow> k = n)"
  unfolding Let_def
  by (rule transmit_frame [unfolded Let_def])
    (simp_all add: frame_bits_def set_data_frame_def receive_register_reset_def
      device_serial_interface_init_def stop_bit_counts_def)

section \<open>Reception\<close>

lemma rcv_list_shift_in:
  assumes "n < 16"
  shows "rcv_list (Suc n) (shift_in b s) = rcv_list n s @ [b]"
proof (rule nth_equalityI)
  fix i
  assume "i < length (rcv_list (Suc n) (shift_in b s))"
  then have "i \<le> n" by (simp add: rcv_list_def)
  then consider "i = n" | "i < n" by linarith
  then show "rcv_list (Suc n) (shift_in b s) ! i = (rcv_list n s @ [b]) ! i"
  proof cases
    case 2
    then have "15 + i - n \<noteq> 15" "Suc (15 + i - n) = 16 + i - n" using assms by linarith+
    then show ?thesis using assms 2
      by (simp add: rcv_list_def shift_in_def bit_rcv_shift nth_append del: upt_Suc)
  qed (use assms in \<open>simp add: rcv_list_def shift_in_def bit_rcv_shift nth_append del: upt_Suc\<close>)
qed (simp add: rcv_list_def)

lemma update_bit_receiving:
  assumes "receiving s" "m_rcv_bit_count_received s + 1 < m_rcv_bit_count s" "m_rcv_bit_count s \<le> 16"
  shows "receive_register_update_bit b s =
    (shift_in b s)\<lparr>m_rcv_bit_count_received := m_rcv_bit_count_received s + 1,
       m_rcv_framing_error := (m_rcv_framing_error s \<or>
          \<not> b \<and> int (m_rcv_bit_count s) - int (m_df_min_rx_stop_bit_count s) < int (m_rcv_bit_count_received s + 1))\<rparr>"
  using assms
  by (auto simp: receive_register_update_bit_def shift_in_def receiving_def mask_bits Let_def)

lemma update_bit_last:
  assumes "receiving s" "m_rcv_bit_count_received s + 1 = m_rcv_bit_count s" "m_rcv_bit_count s \<le> 16"
  shows "receive_register_update_bit b s =
    (shift_in b s)\<lparr>m_rcv_bit_count_received := 0,
       m_rcv_flags := (((m_rcv_flags s AND NOT RECEIVE_REGISTER_SYNCHRONISED)
            OR RECEIVE_REGISTER_WAITING_FOR_START_BIT) OR RECEIVE_REGISTER_FULL),
       m_rcv_framing_error := (m_rcv_framing_error s \<or> \<not> b \<and> 0 < m_df_min_rx_stop_bit_count s)\<rparr>"
  using assms
  by (auto simp: receive_register_update_bit_def shift_in_def receiving_def mask_bits Let_def)


lemma bit_time_receiving:
  assumes "receiving s"
  shows "bit_time now b s = receive_register_update_bit b (s\<lparr>m_rcv_line := b\<rparr>)"
  using assms by (simp add: bit_time_def rx_w_def receiving_def mask_bits Let_def)

lemma receive_prefix:
  assumes "receiving s" "m_rcv_bit_count_received s = 0" "length bs < m_rcv_bit_count s" "m_rcv_bit_count s \<le> 16"
    "\<forall>i < length bs. m_rcv_bit_count s - m_df_min_rx_stop_bit_count s \<le> i \<longrightarrow> bs ! i"
  shows "let t = fold (bit_time now) bs s in
     receiving t \<and> m_rcv_bit_count_received t = length bs \<and> rcv_list (length bs) t = bs \<and>
     m_rcv_framing_error t = m_rcv_framing_error s \<and> same_frame t s"
  using assms(3,5)
proof (induction bs rule: rev_induct)
  case Nil
  then show ?case using assms by (simp add: rcv_list_def same_frame_def)
next
  case (snoc b bs)
  define t where "t = fold (bit_time now) bs s"
  have pre: "\<forall>i < length bs. m_rcv_bit_count s - m_df_min_rx_stop_bit_count s \<le> i \<longrightarrow> bs ! i"
    using snoc.prems(2) by (auto simp: nth_append split: if_splits)
  have t: "receiving t" "m_rcv_bit_count_received t = length bs" "rcv_list (length bs) t = bs"
    "m_rcv_framing_error t = m_rcv_framing_error s" "same_frame t s"
    using snoc.IH pre snoc.prems(1) by (auto simp: t_def Let_def)
  have c: "m_rcv_bit_count t = m_rcv_bit_count s" "m_df_min_rx_stop_bit_count t = m_df_min_rx_stop_bit_count s"
    using t(5) by (auto simp: same_frame_def)
  let ?l = "t\<lparr>m_rcv_line := b\<rparr>"
  have u: "bit_time now b t = (shift_in b ?l)\<lparr>m_rcv_bit_count_received := length bs + 1,
       m_rcv_framing_error := (m_rcv_framing_error t \<or>
          \<not> b \<and> int (m_rcv_bit_count s) - int (m_df_min_rx_stop_bit_count s) < int (length bs + 1))\<rparr>"
    using bit_time_receiving [OF t(1)] update_bit_receiving [of ?l b] t c snoc.prems(1) assms(4)
    by (simp add: receiving_def)
  have nf: "\<not> (\<not> b \<and> int (m_rcv_bit_count s) - int (m_df_min_rx_stop_bit_count s) < int (length bs + 1))"
  proof
    assume a: "\<not> b \<and> int (m_rcv_bit_count s) - int (m_df_min_rx_stop_bit_count s) < int (length bs + 1)"
    then have "m_rcv_bit_count s - m_df_min_rx_stop_bit_count s \<le> length bs" by linarith
    with snoc.prems(2) [rule_format, of "length bs"] a show False by simp
  qed
  have rl: "rcv_list (Suc (length bs)) (bit_time now b t) = bs @ [b]"
  proof -
    have "rcv_list (Suc (length bs)) (bit_time now b t) = rcv_list (Suc (length bs)) (shift_in b ?l)"
      unfolding u by (simp add: rcv_list_def)
    also have "\<dots> = rcv_list (length bs) ?l @ [b]"
      using snoc.prems(1) assms(4) by (intro rcv_list_shift_in) simp
    also have "rcv_list (length bs) ?l = bs" using t(3) by (simp add: rcv_list_def)
    finally show ?thesis .
  qed
  show ?case
    using t(1,4,5) nf rl unfolding Let_def t_def [symmetric] fold_append comp_def
    by (auto simp: u receiving_def shift_in_def same_frame_def t_def [symmetric])
qed

lemma receive_all:
  assumes "receiving s" "m_rcv_bit_count_received s = 0" "length bs = m_rcv_bit_count s" "bs \<noteq> []"
    "m_rcv_bit_count s \<le> 16" "\<not> m_rcv_framing_error s"
    "\<forall>i < length bs. m_rcv_bit_count s - m_df_min_rx_stop_bit_count s \<le> i \<longrightarrow> bs ! i"
  shows "let t = fold (bit_time now) bs s in
     is_receive_register_full t \<and> rcv_list (length bs) t = bs \<and>
     \<not> m_rcv_framing_error t \<and> same_frame t s"
proof -
  obtain cs b where bs: "bs = cs @ [b]" using assms(4) by (metis rev_exhaust)
  define t where "t = fold (bit_time now) cs s"
  have pre: "\<forall>i < length cs. m_rcv_bit_count s - m_df_min_rx_stop_bit_count s \<le> i \<longrightarrow> cs ! i"
    using assms(7) bs by (auto simp: nth_append split: if_splits)
  have t: "receiving t" "m_rcv_bit_count_received t = length cs" "rcv_list (length cs) t = cs"
    "\<not> m_rcv_framing_error t" "same_frame t s"
    using receive_prefix [OF assms(1,2) _ assms(5) pre, of now] assms(3,6) bs by (auto simp: t_def Let_def)
  have c: "m_rcv_bit_count t = m_rcv_bit_count s" "m_df_min_rx_stop_bit_count t = m_df_min_rx_stop_bit_count s"
    using t(5) by (auto simp: same_frame_def)
  let ?l = "t\<lparr>m_rcv_line := b\<rparr>"
  have len: "length cs + 1 = m_rcv_bit_count s" using assms(3) bs by simp
  have u: "bit_time now b t = (shift_in b ?l)\<lparr>m_rcv_bit_count_received := 0,
       m_rcv_flags := (((m_rcv_flags t AND NOT RECEIVE_REGISTER_SYNCHRONISED)
            OR RECEIVE_REGISTER_WAITING_FOR_START_BIT) OR RECEIVE_REGISTER_FULL),
       m_rcv_framing_error := (m_rcv_framing_error t \<or> \<not> b \<and> 0 < m_df_min_rx_stop_bit_count s)\<rparr>"
    using bit_time_receiving [OF t(1)] update_bit_last [of ?l b] t c len assms(5)
    by (simp add: receiving_def)
  have nf: "\<not> (\<not> b \<and> 0 < m_df_min_rx_stop_bit_count s)"
    using assms(7) [rule_format, of "length cs"] len bs by auto
  have "rcv_list (Suc (length cs)) (bit_time now b t) = rcv_list (Suc (length cs)) (shift_in b ?l)"
    unfolding u by (simp add: rcv_list_def)
  also have "\<dots> = rcv_list (length cs) ?l @ [b]"
    using len assms(5) by (intro rcv_list_shift_in) simp
  also have "rcv_list (length cs) ?l = cs" using t(3) by (simp add: rcv_list_def)
  finally have rl: "rcv_list (Suc (length cs)) (bit_time now b t) = cs @ [b]" .
  show ?thesis
    using t(1,4,5) nf rl unfolding Let_def bs fold_append comp_def
    by (auto simp: u receiving_def shift_in_def same_frame_def t_def [symmetric]
        is_receive_register_full_def mask_bits bit_simps)
qed


section \<open>Extraction and the round trip\<close>

lemma extract_byte:
  assumes "m_rcv_bit_count s \<le> 16" "m_df_word_length s \<le> 8" "m_df_word_length s \<le> m_rcv_bit_count s"
    "i < 8"
  shows "bit (m_rcv_byte_received (receive_register_extract s)) i
    = (i < m_df_word_length s \<and> rcv_list (m_rcv_bit_count s) s ! i)"
proof -
  have e: "m_rcv_byte_received (receive_register_extract s)
    = (ucast (drop_bit (16 - m_rcv_bit_count s) (m_rcv_register_data s)) :: u8)
       AND NOT (push_bit (m_df_word_length s) 0xff)"
    by (simp add: receive_register_extract_def receive_register_reset_def Let_def)
  show ?thesis
    using assms unfolding e bit_and_iff bit_not_iff bit_push_bit_iff
    by (auto simp: bit_simps rcv_list_def)
qed

lemma extract_parity:
  assumes "m_df_parity s \<noteq> PARITY_NONE" "m_df_word_length s < m_rcv_bit_count s"
  shows "m_rcv_parity_error (receive_register_extract s) \<longleftrightarrow> m_rcv_parity_error s \<or>
    parity_error (m_df_parity s) (m_rcv_byte_received (receive_register_extract s))
      (rcv_list (m_rcv_bit_count s) s ! m_df_word_length s)"
  using assms by (simp add: receive_register_extract_def receive_register_reset_def Let_def rcv_list_def)

lemma extract_no_parity:
  "m_df_parity s = PARITY_NONE \<Longrightarrow> m_rcv_parity_error (receive_register_extract s) = m_rcv_parity_error s"
  by (simp add: receive_register_extract_def receive_register_reset_def Let_def)

lemma extract_framing:
  "m_rcv_framing_error (receive_register_extract s) = m_rcv_framing_error s"
  by (simp add: receive_register_extract_def receive_register_reset_def Let_def)

lemma parity_ok: "\<not> parity_error p d (transmit_parity p d)"
  by (cases p) (simp_all add: parity_error_def transmit_parity_def)

lemma set_data_frame_fields [simp]:
  "m_df_start_bit_count (set_data_frame st wl p sb s) = st"
  "m_df_word_length (set_data_frame st wl p sb s) = wl"
  "m_df_parity (set_data_frame st wl p sb s) = p"
  "m_df_stop_bit_count (set_data_frame st wl p sb s) = fst (stop_bit_counts sb)"
  "m_df_min_rx_stop_bit_count (set_data_frame st wl p sb s) = snd (stop_bit_counts sb)"
  "m_rcv_register_data (set_data_frame st wl p sb s) = m_rcv_register_data s"
  "m_rcv_rate (set_data_frame st wl p sb s) = m_rcv_rate s"
  "m_start_bit_hack_for_external_clocks (set_data_frame st wl p sb s) = m_start_bit_hack_for_external_clocks s"
  by (auto simp: set_data_frame_def receive_register_reset_def Let_def split: prod.splits)

lemma set_data_frame_consistent:
  "df_consistent s \<Longrightarrow> df_consistent (set_data_frame st wl p sb s)"
  by (auto simp: df_consistent_def set_data_frame_def receive_register_reset_def Let_def split: prod.splits)

lemma set_data_frame_waiting:
  "waiting s \<Longrightarrow> st \<noteq> 0 \<Longrightarrow> waiting (set_data_frame st wl p sb s)"
  by (auto simp: waiting_def set_data_frame_def receive_register_reset_def Let_def bit_simps split: prod.splits)

lemma start_bit:
  assumes "waiting s" "\<not> m_start_bit_hack_for_external_clocks s \<or> \<not> is_never (m_rcv_rate s)"
  shows "receiving (rx_w now False s)" "m_rcv_bit_count_received (rx_w now False s) = 0"
    "\<not> m_rcv_framing_error (rx_w now False s)" "\<not> m_rcv_parity_error (rx_w now False s)"
    "m_rcv_bit_count (rx_w now False s) = m_rcv_bit_count s"
    "m_df_word_length (rx_w now False s) = m_df_word_length s"
    "m_df_parity (rx_w now False s) = m_df_parity s"
    "m_df_min_rx_stop_bit_count (rx_w now False s) = m_df_min_rx_stop_bit_count s"
  using assms
  by (auto simp: rx_w_def receive_register_update_bit_def waiting_def receiving_def mask_bits bit_simps Let_def)

text \<open>The body of a frame, received bit by bit, has the data, and no error but one of parity.\<close>

lemma receive_body:
  fixes s :: "'a device_serial_interface_scheme" and now :: attotime and data :: u8
  assumes wl: "5 \<le> wl" "wl \<le> 8" and s: "waiting s" "df_consistent s" "\<not> m_start_bit_hack_for_external_clocks s \<or> \<not> is_never (m_rcv_rate s)"
    and f: "m_df_word_length s = wl" "m_df_parity s = p" "m_df_min_rx_stop_bit_count s = 1"
  defines "t \<equiv> receive_frame now (False # frame_body wl p data) s"
  shows "length (frame_body wl p data) = m_rcv_bit_count s" "stops_ok s (frame_body wl p data)"
    "is_receive_register_full t" "rcv_list (m_rcv_bit_count s) t = frame_body wl p data" "\<not> m_rcv_framing_error t" "m_rcv_bit_count t = m_rcv_bit_count s"
    "m_df_word_length t = wl" "m_df_parity t = p" "m_df_min_rx_stop_bit_count t = 1" "m_df_start_bit_count t = m_df_start_bit_count s"
    "m_rcv_byte_received (receive_register_extract t) = data AND mask wl"
    "m_rcv_parity_error (receive_register_extract t) = parity_error p (data AND mask wl) (transmit_parity p data)"
proof -
  let ?body = "frame_body wl p data"
  show len: "length ?body = m_rcv_bit_count s" using s(2) f wl by (simp add: df_consistent_def frame_body_def)
  show st: "stops_ok s ?body" using len f(3) by (auto simp: stops_ok_def frame_body_def nth_append)
  note X = start_bit [OF s(1,3), of now]
  have te: "t = fold (bit_time now) ?body (rx_w now False s)" by (simp add: t_def receive_frame_def len)
  have all: "is_receive_register_full t" "rcv_list (length ?body) t = ?body" "\<not> m_rcv_framing_error t" "same_frame t (rx_w now False s)"
    using receive_all [OF X(1,2), of ?body now] X(3,5,8) st len wl by (auto simp: te Let_def stops_ok_def frame_body_def)
  show "is_receive_register_full t" "\<not> m_rcv_framing_error t" by (fact all)+
  show rl: "rcv_list (m_rcv_bit_count s) t = ?body" using all(2) len by simp
  have sc: "m_df_start_bit_count (rx_w now False s) = m_df_start_bit_count s" by (simp add: rx_w_def receive_register_update_bit_def Let_def)
  show k: "m_rcv_bit_count t = m_rcv_bit_count s" "m_df_word_length t = wl" "m_df_parity t = p" "m_df_min_rx_stop_bit_count t = 1" "m_df_start_bit_count t = m_df_start_bit_count s"
    using all(4) X f sc by (auto simp: same_frame_def)
  have tf: "m_rcv_bit_count t = length ?body" "m_df_word_length t = wl" "m_df_parity t = p" "\<not> m_rcv_parity_error t"
    using all(4) X len k by (auto simp: same_frame_def)
  have lb: "length ?body \<le> 16" "wl < length ?body" using wl by (auto simp: frame_body_def)
  show byte: "m_rcv_byte_received (receive_register_extract t) = data AND mask wl"
  proof (rule bit_word_eqI)
    fix i assume "i < LENGTH(8)"
    then have "bit (m_rcv_byte_received (receive_register_extract t)) i = (i < wl \<and> ?body ! i)"
      using extract_byte [of t i] tf lb wl all(2) by simp
    also have "\<dots> = bit (data AND mask wl) i" using wl by (auto simp: frame_body_def nth_append bit_simps)
    finally show "bit (m_rcv_byte_received (receive_register_extract t)) i = bit (data AND mask wl) i" .
  qed
  show "m_rcv_parity_error (receive_register_extract t) = parity_error p (data AND mask wl) (transmit_parity p data)"
  proof (cases "p = PARITY_NONE")
    case False
    then have "rcv_list (m_rcv_bit_count t) t ! wl = transmit_parity p data" using all(2) tf by (simp add: frame_body_def nth_append)
    then show ?thesis using extract_parity [of t] tf lb False byte by simp
  qed (use extract_no_parity [of t] tf in \<open>simp add: parity_error_def\<close>)
qed

lemma frame_bits_body:
  assumes "m_df_start_bit_count tx = 1" "m_df_word_length tx = wl" "m_df_parity tx = p" "m_df_stop_bit_count tx = Suc k"
  shows "frame_bits tx data = False # frame_body wl p data @ replicate k True"
  using assms by (simp add: frame_bits_def frame_body_def)

lemma serial_transfer:
  assumes wl: "5 \<le> wl" "wl \<le> 8" and sb: "sb \<noteq> STOP_BITS_0"
    and idle: "df_consistent r" "waiting r"
      "\<not> m_start_bit_hack_for_external_clocks r \<or> \<not> is_never (m_rcv_rate r)"
  shows "let tx = transmit_register_setup now data (set_data_frame 1 wl p sb s);
             t = receive_frame now (fst (tx_bits (m_tra_bit_count tx) tx)) (set_data_frame 1 wl p sb r);
             u = receive_register_extract t
         in is_receive_register_full t \<and> m_rcv_byte_received u = data AND mask wl \<and>
            \<not> m_rcv_framing_error u \<and>
            m_rcv_parity_error u = parity_error p (data AND mask wl) (transmit_parity p data)"
proof -
  let ?s = "set_data_frame 1 wl p sb s"
  define tx rx where "tx = transmit_register_setup now data ?s" and "rx = set_data_frame 1 wl p sb r"
  obtain k where st: "fst (stop_bit_counts sb) = Suc k" "k \<le> 1" "snd (stop_bit_counts sb) = 1"
    using sb by (cases sb) (auto simp: stop_bit_counts_def)
  have fb: "frame_bits ?s data = False # frame_body wl p data @ replicate k True" by (rule frame_bits_body) (simp_all add: st)
  have len: "length (frame_bits ?s data) \<le> 16" using wl st by (simp add: fb frame_body_def)
  have bits: "fst (tx_bits (m_tra_bit_count tx) tx) = frame_bits ?s data"
    unfolding tx_def transmit_register_setup_list(2) [OF len]
    by (rule transmit_frame_parts(1) [OF len]) (simp add: fb)
  have "waiting rx" "df_consistent rx" "\<not> m_start_bit_hack_for_external_clocks rx \<or> \<not> is_never (m_rcv_rate rx)"
      "m_df_word_length rx = wl" "m_df_parity rx = p" "m_df_min_rx_stop_bit_count rx = 1"
    using idle set_data_frame_waiting [OF idle(2)] set_data_frame_consistent [OF idle(1)] by (simp_all add: rx_def st)
  note b = receive_body [OF wl this]
  have "receive_frame now (frame_bits ?s data) rx = receive_frame now (False # frame_body wl p data) rx"
    using b(1) [of data] by (simp add: receive_frame_def fb)
  then show ?thesis unfolding Let_def tx_def [symmetric] rx_def [symmetric] bits
    using b(3,5,11,12) [where data = data] by (simp add: extract_framing)
qed

text \<open>C1. Serial round trip: a byte that fits the word length, loaded into a transmitter and clocked
  out, reaches an idle receiver set to the same frame unchanged: the receiver's register is full
  after exactly the bits it waits for, the extracted byte is the byte sent, and neither a framing
  nor a parity error is flagged, for every word length, parity and number of stop bits.\<close>

theorem serial_roundtrip:
  assumes "5 \<le> wl" "wl \<le> 8" "sb \<noteq> STOP_BITS_0" "data AND mask wl = data"
    "df_consistent r" "waiting r"
    "\<not> m_start_bit_hack_for_external_clocks r \<or> \<not> is_never (m_rcv_rate r)"
  shows "let tx = transmit_register_setup now data (set_data_frame 1 wl p sb s);
             t = receive_frame now (fst (tx_bits (m_tra_bit_count tx) tx)) (set_data_frame 1 wl p sb r);
             u = receive_register_extract t
         in is_receive_register_full t \<and> m_rcv_byte_received u = data \<and>
            \<not> m_rcv_framing_error u \<and> \<not> m_rcv_parity_error u"
  using serial_transfer [OF assms(1-3,5-7), of now data p s] assms(4)
  by (simp add: Let_def parity_ok)

theorem serial_roundtrip_witness:
  "let s = device_serial_interface_init attotime_zero;
       r = (set_data_frame 1 7 PARITY_ODD STOP_BITS_1 s);
       tx = transmit_register_setup attotime_zero 0x41 (set_data_frame 1 8 PARITY_EVEN STOP_BITS_2 s);
       t = receive_frame attotime_zero (fst (tx_bits (m_tra_bit_count tx) tx))
             (set_data_frame 1 8 PARITY_EVEN STOP_BITS_2 r);
       u = receive_register_extract t
   in is_receive_register_full t \<and> m_rcv_byte_received u = 0x41 \<and>
      \<not> m_rcv_framing_error u \<and> \<not> m_rcv_parity_error u"
proof -
  let ?s = "device_serial_interface_init attotime_zero"
  let ?r = "set_data_frame 1 7 PARITY_ODD STOP_BITS_1 ?s"
  have r: "df_consistent ?r" "waiting ?r" "\<not> m_start_bit_hack_for_external_clocks ?r"
    by (simp_all add: df_consistent_def waiting_def set_data_frame_def receive_register_reset_def
        device_serial_interface_init_def stop_bit_counts_def bit_simps)
  show ?thesis unfolding Let_def
    by (rule serial_roundtrip [where p = PARITY_EVEN, unfolded Let_def])
      (use r in \<open>simp_all add: mask_eq_exp_minus_1\<close>)
qed

lemma popcount_bits:
  "popcount w = of_bool (bit w 0) + of_bool (bit w 1) + of_bool (bit w 2) + of_bool (bit w 3) +
     of_bool (bit w 4) + of_bool (bit w 5) + of_bool (bit w 6) + of_bool (bit w 7)"
  by (simp add: popcount_def upt_rec numeral_eq_Suc)

lemma odd_popcount_mask:
  "odd (popcount w) \<longleftrightarrow> odd (popcount (w AND mask n)) \<noteq> odd (popcount (w AND NOT (mask n)))"
proof -
  have "popcount w = popcount (w AND mask n) + popcount (w AND NOT (mask n))"
    by (simp add: popcount_bits bit_simps)
  then show ?thesis by simp
qed

text \<open>The parity bit is computed over all eight bits of the byte, the receiver's check only over
  the bits of the word: with odd or even parity and a word shorter than eight bits, the receiver
  flags a parity error exactly when the bits of the byte that are not sent have odd parity.\<close>

theorem serial_parity_of_unsent_bits:
  assumes "5 \<le> wl" "wl \<le> 8" "sb \<noteq> STOP_BITS_0" "p = PARITY_ODD \<or> p = PARITY_EVEN"
    "df_consistent r" "waiting r"
    "\<not> m_start_bit_hack_for_external_clocks r \<or> \<not> is_never (m_rcv_rate r)"
  shows "let tx = transmit_register_setup now data (set_data_frame 1 wl p sb s);
             t = receive_frame now (fst (tx_bits (m_tra_bit_count tx) tx)) (set_data_frame 1 wl p sb r)
         in m_rcv_parity_error (receive_register_extract t) \<longleftrightarrow> odd (popcount (data AND NOT (mask wl)))"
  using serial_transfer [OF assms(1-3,5-7), of now data p s] assms(4) odd_popcount_mask [of data wl]
  by (auto simp: Let_def parity_error_def transmit_parity_def)

theorem serial_parity_of_unsent_bits_witness:
  "let s = device_serial_interface_init attotime_zero;
       r = set_data_frame 1 7 PARITY_ODD STOP_BITS_1 s;
       tx = transmit_register_setup attotime_zero 0xc1 (set_data_frame 1 7 PARITY_ODD STOP_BITS_1 s);
       t = receive_frame attotime_zero (fst (tx_bits (m_tra_bit_count tx) tx))
             (set_data_frame 1 7 PARITY_ODD STOP_BITS_1 r)
   in m_rcv_parity_error (receive_register_extract t)"
proof -
  let ?s = "device_serial_interface_init attotime_zero"
  let ?r = "set_data_frame 1 7 PARITY_ODD STOP_BITS_1 ?s"
  have r: "df_consistent ?r" "waiting ?r" "\<not> m_start_bit_hack_for_external_clocks ?r"
    by (simp_all add: df_consistent_def waiting_def set_data_frame_def receive_register_reset_def
        device_serial_interface_init_def stop_bit_counts_def bit_simps)
  have p: "odd (popcount (0xc1 AND NOT (mask 7)))"
    by (simp add: popcount_bits bit_simps)
  show ?thesis
    using serial_parity_of_unsent_bits [of 7 STOP_BITS_1 PARITY_ODD ?r attotime_zero "0xc1" ?s] r p
    unfolding Let_def by simp
qed

end
