(* ===== verification/Duart.thy ===== *)
theory Duart
  imports Diserial
begin

unbundle bit_operations_syntax

text \<open>
  The dual UART of the boards, \<^verbatim>\<open>xr68c681_device\<close> of \<^verbatim>\<open>src/devices/machine/mc68681.cpp\<close>,
  with the classes it derives from (\<^verbatim>\<open>mc68681_device\<close>, \<^verbatim>\<open>duart_base_device\<close>) and its two
  channels (\<^verbatim>\<open>duart_channel\<close>). A channel extends the serial interface; a channel operation
  takes the channel number and the whole chip, since it reaches the interrupt registers of
  its owner. Registers are words of their width. The lines and ports the chip drives
  (\<^verbatim>\<open>write_irq\<close>, \<^verbatim>\<open>write_outport\<close>, \<^verbatim>\<open>write_a_tx\<close>, \<^verbatim>\<open>write_b_tx\<close>) are the log \<open>m_out\<close>, in the
  order of the calls. The scheduler's time is the argument \<open>now\<close>. This theory holds the
  definitions; their lemmas are in the theories that follow it.
\<close>

section \<open>State\<close>

abbreviation INT_INPUT_PORT_CHANGE :: u8 where "INT_INPUT_PORT_CHANGE \<equiv> 0x80"
abbreviation INT_DELTA_BREAK_B :: u8 where "INT_DELTA_BREAK_B \<equiv> 0x40"
abbreviation INT_RXRDY_FFULLB :: u8 where "INT_RXRDY_FFULLB \<equiv> 0x20"
abbreviation INT_TXRDYB :: u8 where "INT_TXRDYB \<equiv> 0x10"
abbreviation INT_COUNTER_READY :: u8 where "INT_COUNTER_READY \<equiv> 0x08"
abbreviation INT_DELTA_BREAK_A :: u8 where "INT_DELTA_BREAK_A \<equiv> 0x04"
abbreviation INT_RXRDY_FFULLA :: u8 where "INT_RXRDY_FFULLA \<equiv> 0x02"
abbreviation INT_TXRDYA :: u8 where "INT_TXRDYA \<equiv> 0x01"

abbreviation STATUS_RECEIVED_BREAK :: u8 where "STATUS_RECEIVED_BREAK \<equiv> 0x80"
abbreviation STATUS_FRAMING_ERROR :: u8 where "STATUS_FRAMING_ERROR \<equiv> 0x40"
abbreviation STATUS_PARITY_ERROR :: u8 where "STATUS_PARITY_ERROR \<equiv> 0x20"
abbreviation STATUS_OVERRUN_ERROR :: u8 where "STATUS_OVERRUN_ERROR \<equiv> 0x10"
abbreviation STATUS_TRANSMITTER_EMPTY :: u8 where "STATUS_TRANSMITTER_EMPTY \<equiv> 0x08"
abbreviation STATUS_TRANSMITTER_READY :: u8 where "STATUS_TRANSMITTER_READY \<equiv> 0x04"
abbreviation STATUS_FIFO_FULL :: u8 where "STATUS_FIFO_FULL \<equiv> 0x02"
abbreviation STATUS_RECEIVER_READY :: u8 where "STATUS_RECEIVER_READY \<equiv> 0x01"

abbreviation MODE_RX_INT_SELECT_BIT :: u8 where "MODE_RX_INT_SELECT_BIT \<equiv> 0x40"
abbreviation MODE_BLOCK_ERROR :: u8 where "MODE_BLOCK_ERROR \<equiv> 0x20"

abbreviation MC68681_RX_FIFO_SIZE :: nat where "MC68681_RX_FIFO_SIZE \<equiv> 3"

definition baud_rate_ACR_0 :: "int list" where
  "baud_rate_ACR_0 = [50, 110, 134, 200, 300, 600, 1200, 1050, 2400, 4800, 7200, 9600, 38400, 0, 0, 0]"

definition baud_rate_ACR_0_X_1 :: "int list" where
  "baud_rate_ACR_0_X_1 =
     [75, 110, 134, 150, 3600, 14400, 28800, 57600, 115200, 4800, 1800, 9600, 19200, 0, 0, 0]"

definition baud_rate_ACR_1 :: "int list" where
  "baud_rate_ACR_1 = [75, 110, 134, 150, 300, 600, 1200, 2000, 2400, 4800, 1800, 9600, 19200, 0, 0, 0]"

definition baud_rate_ACR_1_X_1 :: "int list" where
  "baud_rate_ACR_1_X_1 =
     [50, 110, 134, 200, 3600, 14400, 28800, 57600, 115200, 4800, 7200, 9600, 38400, 0, 0, 0]"

record duart_channel = device_serial_interface +
  CR :: u8
  CSR :: u8
  MR1 :: u8
  MR2 :: u8
  MR_ptr :: nat
  SR :: u8
  tx_baud_rate :: int
  rx_baud_rate :: int
  rx_enabled :: bool
  rx_fifo :: "u16 list"
  rx_fifo_read_ptr :: nat
  rx_fifo_write_ptr :: nat
  rx_fifo_num :: nat
  m_tx_data :: u8
  m_tx_data_in_buffer :: bool
  m_tx_break :: bool
  m_bits_transmitted :: nat
  m_tx_enabled :: bool
  m_rx_prescaler :: nat
  m_tx_prescaler :: nat

datatype duart_event =
    Write_irq bool
  | Write_outport u8
  | Write_tx nat bool

record duart =
  m_chanA :: duart_channel
  m_chanB :: duart_channel
  m_clock :: int
  read_inport :: "u8 option"
  ip3clk :: int
  ip4clk :: int
  ip5clk :: int
  ip6clk :: int
  ACR :: u8
  IMR :: u8
  ISR :: u8
  OPCR :: u8
  OPR :: u8
  CTR :: u16
  IPCR :: u8
  IP_last_state :: u8
  half_period :: u8
  duart_timer :: emu_timer
  m_irq_state :: bool
  m_read_vector :: bool
  IVR :: u8
  m_XTXA :: bool
  m_XRXA :: bool
  m_XTXB :: bool
  m_XRXB :: bool
  m_out :: "duart_event list"

definition emit :: "duart_event \<Rightarrow> duart \<Rightarrow> duart" where
  "emit e d = d\<lparr>m_out := m_out d @ [e]\<rparr>"

definition get_channel :: "nat \<Rightarrow> duart \<Rightarrow> duart_channel" where
  "get_channel chan d = (if chan = 0 then m_chanA d else m_chanB d)"

definition upd_chan :: "nat \<Rightarrow> (duart_channel \<Rightarrow> duart_channel) \<Rightarrow> duart \<Rightarrow> duart" where
  "upd_chan c f d = (if c = 0 then d\<lparr>m_chanA := f (m_chanA d)\<rparr> else d\<lparr>m_chanB := f (m_chanB d)\<rparr>)"

text \<open>Read-modify-write of a register under a mask: \<^verbatim>\<open>r |= m\<close> and \<^verbatim>\<open>r &= ~m\<close>.\<close>

abbreviation set_SR :: "u8 \<Rightarrow> duart_channel \<Rightarrow> duart_channel" where
  "set_SR m ch \<equiv> ch\<lparr>SR := SR ch OR m\<rparr>"

abbreviation clear_SR :: "u8 \<Rightarrow> duart_channel \<Rightarrow> duart_channel" where
  "clear_SR m ch \<equiv> ch\<lparr>SR := SR ch AND NOT m\<rparr>"

section \<open>Interrupts and the output port\<close>

definition irq_pending :: "duart \<Rightarrow> bool" where
  "irq_pending d \<longleftrightarrow> ISR d AND IMR d \<noteq> 0"

definition update_irq_line :: "duart \<Rightarrow> duart" where
  "update_irq_line d =
     (if ISR d AND IMR d \<noteq> 0
      then (if \<not> m_irq_state d then emit (Write_irq True) (d\<lparr>m_irq_state := True\<rparr>) else d)
      else (if m_irq_state d then emit (Write_irq False) (d\<lparr>m_irq_state := False\<rparr>) else d))"

text \<open>One of the four output port pins that can mirror an interrupt status bit.\<close>

definition opr_mirror :: "nat \<Rightarrow> nat \<Rightarrow> u8 \<Rightarrow> duart \<Rightarrow> duart" where
  "opr_mirror op_bit isr_bit m d =
     (if BIT (OPCR d) op_bit \<noteq> 0
      then (if BIT (ISR d) isr_bit \<noteq> 0 then d\<lparr>OPR := OPR d OR m\<rparr> else d\<lparr>OPR := OPR d AND NOT m\<rparr>)
      else d)"

definition write_outport :: "duart \<Rightarrow> duart" where
  "write_outport d = emit (Write_outport (OPR d XOR 0xff)) d"

definition update_interrupts_base :: "duart \<Rightarrow> duart" where
  "update_interrupts_base d =
     (let d1 = update_irq_line d
      in if OPCR d1 AND 0xf0 \<noteq> 0
         then write_outport (opr_mirror 7 4 0x80 (opr_mirror 6 0 0x40
                (opr_mirror 5 5 0x20 (opr_mirror 4 1 0x10 d1))))
         else d1)"

definition update_interrupts :: "duart \<Rightarrow> duart" where
  "update_interrupts d =
     (let d1 = update_interrupts_base d
      in if \<not> irq_pending d1 then d1\<lparr>m_read_vector := False\<rparr> else d1)"

definition clear_ISR_bits :: "u8 \<Rightarrow> duart \<Rightarrow> duart" where
  "clear_ISR_bits m d =
     (if ISR d AND m \<noteq> 0 then update_interrupts (d\<lparr>ISR := ISR d AND NOT m\<rparr>) else d)"

definition set_ISR_bits :: "u8 \<Rightarrow> duart \<Rightarrow> duart" where
  "set_ISR_bits m d =
     (if ISR d AND m = 0 then update_interrupts (d\<lparr>ISR := ISR d OR m\<rparr>) else d)"

definition get_irq_vector :: "bool \<Rightarrow> duart \<Rightarrow> u8 \<times> duart" where
  "get_irq_vector side_effects_disabled d =
     (IVR d, if \<not> side_effects_disabled then d\<lparr>m_read_vector := True\<rparr> else d)"

section \<open>The counter/timer\<close>

definition get_ct_rate :: "duart \<Rightarrow> int" where
  "get_ct_rate d =
     (let src = BITS (ACR d) 4 2
      in if ACR d AND 0x40 \<noteq> 0
         then (if src = 3 then m_clock d div 16 else m_clock d)
         else (if src = 0 then m_clock d
               else if src = 1 then to_u32 (tx_baud_rate (m_chanA d))
               else if src = 2 then to_u32 (tx_baud_rate (m_chanB d))
               else m_clock d div 16))"

definition get_ct_count :: "attotime \<Rightarrow> duart \<Rightarrow> u16" where
  "get_ct_count now d = of_int (as_ticks (timer_remaining now (duart_timer d)) (get_ct_rate d))"

definition start_ct :: "attotime \<Rightarrow> nat \<Rightarrow> duart \<Rightarrow> duart" where
  "start_ct now count d =
     d\<lparr>duart_timer := timer_adjust now (from_ticks (int count) (get_ct_rate d)) 0 attotime_never
                        (duart_timer d)\<rparr>"

text \<open>\<^verbatim>\<open>std::max(CTR.w.l, uint16_t(1))\<close>.\<close>

definition ct_preset :: "duart \<Rightarrow> nat" where
  "ct_preset d = max (unat (CTR d)) 1"

section \<open>Baud rates\<close>

definition baud_table :: "bool \<Rightarrow> bool \<Rightarrow> int list" where
  "baud_table x acr7 =
     (if x then (if \<not> acr7 then baud_rate_ACR_0_X_1 else baud_rate_ACR_1_X_1)
      else (if \<not> acr7 then baud_rate_ACR_0 else baud_rate_ACR_1))"

definition calc_baud :: "nat \<Rightarrow> bool \<Rightarrow> u8 \<Rightarrow> duart \<Rightarrow> int" where
  "calc_baud ch rx data d =
     (let sel = data AND 0x0f; i = unat sel; acr7 = (BIT (ACR d) 7 \<noteq> 0)
      in if ch = 0 then
           (if sel = 0x0e then tdiv (ip3clk d) 16
            else if sel = 0x0f then ip3clk d
            else baud_table ((rx \<and> m_XRXA d) \<or> (\<not> rx \<and> m_XTXA d)) acr7 ! i)
         else if ch = 1 then
           (if sel = 0x0e then tdiv (ip5clk d) 16
            else if sel = 0x0f then ip5clk d
            else baud_table ((rx \<and> m_XRXB d) \<or> (\<not> rx \<and> m_XTXB d)) acr7 ! i)
         else baud_rate_ACR_0 ! i)"

section \<open>The channel: interrupts and the receive FIFO\<close>

definition txrdy_bit :: "nat \<Rightarrow> u8" where
  "txrdy_bit c = (if c = 0 then INT_TXRDYA else INT_TXRDYB)"

definition rxrdy_bit :: "nat \<Rightarrow> u8" where
  "rxrdy_bit c = (if c = 0 then INT_RXRDY_FFULLA else INT_RXRDY_FFULLB)"

definition delta_break_bit :: "nat \<Rightarrow> u8" where
  "delta_break_bit c = (if c = 0 then INT_DELTA_BREAK_A else INT_DELTA_BREAK_B)"

definition chan_update_mode :: "duart_channel \<Rightarrow> duart_channel" where
  "chan_update_mode ch =
     (if MR2 ch AND 0xc0 = 0x40 \<or> MR2 ch AND 0xc0 = 0xc0 then clear_SR STATUS_TRANSMITTER_READY ch else ch)"

definition chan_update_interrupts :: "nat \<Rightarrow> duart \<Rightarrow> duart" where
  "chan_update_interrupts c d =
     (let d1 = upd_chan c chan_update_mode d;
          d2 = (if SR (get_channel c d1) AND STATUS_TRANSMITTER_READY \<noteq> 0
                then set_ISR_bits (txrdy_bit c) d1 else clear_ISR_bits (txrdy_bit c) d1);
          ch = get_channel c d2
      in if MR1 ch AND MODE_RX_INT_SELECT_BIT \<noteq> 0
         then (if SR ch AND STATUS_FIFO_FULL \<noteq> 0
               then set_ISR_bits (rxrdy_bit c) d2 else clear_ISR_bits (rxrdy_bit c) d2)
         else (if SR ch AND STATUS_RECEIVER_READY \<noteq> 0
               then set_ISR_bits (rxrdy_bit c) d2 else clear_ISR_bits (rxrdy_bit c) d2))"

abbreviation SR_RX_ERRORS :: u8 where
  "SR_RX_ERRORS \<equiv> (STATUS_RECEIVED_BREAK OR STATUS_FRAMING_ERROR OR STATUS_PARITY_ERROR)"

text \<open>An entry of the FIFO: the character with its error bits above it.\<close>

definition fifo_entry :: "u8 \<Rightarrow> u8 \<Rightarrow> u16" where
  "fifo_entry data errors = ucast data OR push_bit 8 (ucast errors)"

text \<open>\<^verbatim>\<open>rx_fifo_push\<close> up to its final \<^verbatim>\<open>update_interrupts\<close>: first the array and its
  pointers, then the status register.\<close>

definition fifo_put :: "u8 \<Rightarrow> u8 \<Rightarrow> duart_channel \<Rightarrow> duart_channel" where
  "fifo_put data errors ch =
     (let ch1 = (if rx_fifo_num ch = MC68681_RX_FIFO_SIZE + 1
                 then (set_SR STATUS_OVERRUN_ERROR ch)
                        \<lparr>rx_fifo_write_ptr := (if rx_fifo_write_ptr ch \<noteq> 0 then rx_fifo_write_ptr ch - 1
                                              else MC68681_RX_FIFO_SIZE)\<rparr>
                 else ch);
          wp = rx_fifo_write_ptr ch1 + 1
      in ch1\<lparr>rx_fifo := (rx_fifo ch1)[rx_fifo_write_ptr ch1 := fifo_entry data errors],
             rx_fifo_write_ptr := (if wp > MC68681_RX_FIFO_SIZE then 0 else wp),
             rx_fifo_num := (if rx_fifo_num ch1 \<le> MC68681_RX_FIFO_SIZE then rx_fifo_num ch1 + 1
                             else rx_fifo_num ch1)\<rparr>)"

definition rx_fifo_push_chan :: "u8 \<Rightarrow> u8 \<Rightarrow> duart_channel \<Rightarrow> duart_channel" where
  "rx_fifo_push_chan data errors ch =
     (let ch1 = fifo_put data errors ch;
          ch2 = (if rx_fifo_num ch1 = 1
                 then let a = set_SR STATUS_RECEIVER_READY ch1;
                          b = (if MR1 a AND MODE_BLOCK_ERROR = 0 then clear_SR SR_RX_ERRORS a else a)
                      in set_SR errors b
                 else ch1)
      in if rx_fifo_num ch2 = MC68681_RX_FIFO_SIZE then set_SR STATUS_FIFO_FULL ch2 else ch2)"

definition rx_fifo_push :: "nat \<Rightarrow> u8 \<Rightarrow> u8 \<Rightarrow> duart \<Rightarrow> duart" where
  "rx_fifo_push c data errors d =
     chan_update_interrupts c (upd_chan c (rx_fifo_push_chan data errors) d)"

text \<open>\<^verbatim>\<open>read_rx_fifo\<close>, the case of a FIFO that is not empty: the array, then the status.\<close>

definition fifo_get :: "duart_channel \<Rightarrow> u8 \<times> duart_channel" where
  "fifo_get ch =
     (let rv = ucast (rx_fifo ch ! rx_fifo_read_ptr ch); rp = rx_fifo_read_ptr ch + 1
      in (rv, ch\<lparr>rx_fifo_read_ptr := (if rp > MC68681_RX_FIFO_SIZE then 0 else rp),
                 rx_fifo_num := rx_fifo_num ch - 1\<rparr>))"

definition read_rx_fifo_chan :: "duart_channel \<Rightarrow> u8 \<times> duart_channel" where
  "read_rx_fifo_chan ch =
     (let (rv, ch1) = fifo_get ch;
          ch2 = (if rx_fifo_num ch1 = MC68681_RX_FIFO_SIZE - 1 then clear_SR STATUS_FIFO_FULL ch1 else ch1);
          ch3 = (if MR1 ch2 AND MODE_BLOCK_ERROR = 0 then clear_SR SR_RX_ERRORS ch2 else ch2)
      in (rv, if rx_fifo_num ch3 = 0 then clear_SR STATUS_RECEIVER_READY ch3
              else set_SR (ucast (drop_bit 8 (rx_fifo ch3 ! rx_fifo_read_ptr ch3))) ch3))"

definition read_rx_fifo :: "nat \<Rightarrow> duart \<Rightarrow> u8 \<times> duart" where
  "read_rx_fifo c d =
     (if rx_fifo_num (get_channel c d) = 0 then (0, chan_update_interrupts c d)
      else let (rv, ch) = read_rx_fifo_chan (get_channel c d)
           in (rv, chan_update_interrupts c (upd_chan c (\<lambda>_. ch) d)))"

section \<open>The channel: serial callbacks\<close>

definition rcv_errors :: "duart_channel \<Rightarrow> u8" where
  "rcv_errors ch = (if m_rcv_framing_error ch then STATUS_FRAMING_ERROR else 0)
                   OR (if m_rcv_parity_error ch then STATUS_PARITY_ERROR else 0)"

definition rcv_complete :: "nat \<Rightarrow> duart \<Rightarrow> duart" where
  "rcv_complete c d =
     (let d1 = upd_chan c receive_register_extract d; ch = get_channel c d1
      in if rx_enabled ch \<or> MR2 ch AND 0xc0 = 0x80
         then rx_fifo_push c (m_rcv_byte_received ch) (rcv_errors ch) d1
         else d1)"

definition tra_complete :: "attotime \<Rightarrow> nat \<Rightarrow> duart \<Rightarrow> duart" where
  "tra_complete now c d =
     (if m_tx_data_in_buffer (get_channel c d)
      then chan_update_interrupts c
             (upd_chan c (\<lambda>ch. set_SR STATUS_TRANSMITTER_READY
                ((transmit_register_setup now (m_tx_data ch) ch)
                   \<lparr>m_bits_transmitted := 0, m_tx_data_in_buffer := False\<rparr>)) d)
      else chan_update_interrupts c (upd_chan c (set_SR STATUS_TRANSMITTER_EMPTY) d))"

definition tra_callback :: "attotime \<Rightarrow> nat \<Rightarrow> duart \<Rightarrow> duart" where
  "tra_callback now c d =
     (let (b, ch1) = transmit_register_get_data_bit (get_channel c d);
          d1 = (if MR2 ch1 AND 0xc0 \<noteq> 0x80
                then emit (Write_tx c b) (upd_chan c (\<lambda>_. ch1) d)
                else upd_chan c (\<lambda>_. rx_w now b ch1) d);
          d2 = upd_chan c (\<lambda>ch. ch\<lparr>m_bits_transmitted := (m_bits_transmitted ch + 1) mod 256\<rparr>) d1;
          ch2 = get_channel c d2
      in if m_bits_transmitted ch2 > 1 \<and> \<not> m_tx_data_in_buffer ch2 \<and> m_tx_enabled ch2
         then chan_update_interrupts c (upd_chan c (set_SR STATUS_TRANSMITTER_READY) d2)
         else d2)"

abbreviation chan_tx_clock_w :: "attotime \<Rightarrow> nat \<Rightarrow> bool \<Rightarrow> duart \<Rightarrow> duart" where
  "chan_tx_clock_w now c \<equiv>
     tx_clock_w (get_channel c) (upd_chan c) (tra_callback now c) (tra_complete now c) now"

abbreviation chan_rx_clock_w :: "attotime \<Rightarrow> nat \<Rightarrow> bool \<Rightarrow> duart \<Rightarrow> duart" where
  "chan_rx_clock_w now c \<equiv> rx_clock_w (get_channel c) (upd_chan c) (rcv_complete c) now"

text \<open>The timer callbacks of the serial interface toggle the clock of their direction.\<close>

definition tra_clock :: "attotime \<Rightarrow> nat \<Rightarrow> duart \<Rightarrow> duart" where
  "tra_clock now c d = chan_tx_clock_w now c (\<not> m_tra_clock_state (get_channel c d)) d"

definition rcv_clock :: "attotime \<Rightarrow> nat \<Rightarrow> duart \<Rightarrow> duart" where
  "rcv_clock now c d = chan_rx_clock_w now c (\<not> m_rcv_clock_state (get_channel c d)) d"

definition tx_16x_clock_w :: "attotime \<Rightarrow> nat \<Rightarrow> bool \<Rightarrow> duart \<Rightarrow> duart" where
  "tx_16x_clock_w now c state d =
     (if state then
        let p = (m_tx_prescaler (get_channel c d) + 255) mod 256;
            d1 = upd_chan c (\<lambda>ch. ch\<lparr>m_tx_prescaler := p\<rparr>) d
        in if p = 8 then chan_tx_clock_w now c True d1
           else if p = 0 then chan_tx_clock_w now c False (upd_chan c (\<lambda>ch. ch\<lparr>m_tx_prescaler := 16\<rparr>) d1)
           else d1
      else d)"

definition rx_16x_clock_w :: "attotime \<Rightarrow> nat \<Rightarrow> bool \<Rightarrow> duart \<Rightarrow> duart" where
  "rx_16x_clock_w now c state d =
     (if \<not> is_receive_register_synchronized (get_channel c d)
      then chan_rx_clock_w now c True (upd_chan c (\<lambda>ch. ch\<lparr>m_rx_prescaler := 32\<rparr>) d)
      else if state then
        let p = (m_rx_prescaler (get_channel c d) + 255) mod 256;
            d1 = upd_chan c (\<lambda>ch. ch\<lparr>m_rx_prescaler := p\<rparr>) d
        in if p = 8 then chan_rx_clock_w now c False d1
           else if p = 0 then chan_rx_clock_w now c True (upd_chan c (\<lambda>ch. ch\<lparr>m_rx_prescaler := 16\<rparr>) d1)
           else d1
      else d)"

section \<open>The channel: registers\<close>

definition frame_parity :: "u8 \<Rightarrow> parity_t" where
  "frame_parity mr1 =
     (let sel = BITS mr1 3 2
      in if sel = 0 then (if mr1 AND 4 \<noteq> 0 then PARITY_ODD else PARITY_EVEN)
         else if sel = 1 then (if mr1 AND 4 \<noteq> 0 then PARITY_MARK else PARITY_SPACE)
         else PARITY_NONE)"

definition frame_stop_bits :: "u8 \<Rightarrow> stop_bits_t" where
  "frame_stop_bits mr2 =
     (let sel = BITS mr2 2 2
      in if sel = 0 \<or> sel = 1 then STOP_BITS_1 else if sel = 2 then STOP_BITS_1_5 else STOP_BITS_2)"

definition recalc_framing :: "duart_channel \<Rightarrow> duart_channel" where
  "recalc_framing ch =
     set_data_frame 1 (unat (MR1 ch AND 3) + 5) (frame_parity (MR1 ch)) (frame_stop_bits (MR2 ch)) ch"

definition write_MR :: "nat \<Rightarrow> u8 \<Rightarrow> duart \<Rightarrow> duart" where
  "write_MR c data d =
     chan_update_interrupts c
       (upd_chan c (\<lambda>ch. recalc_framing
          (if MR_ptr ch = 0 then ch\<lparr>MR1 := data, MR_ptr := 1\<rparr> else ch\<lparr>MR2 := data\<rparr>)) d)"

text \<open>The command field of \<^verbatim>\<open>write_CR\<close>, one definition per command that does work.\<close>

definition reset_receiver :: "duart_channel \<Rightarrow> duart_channel" where
  "reset_receiver ch =
     receive_register_reset
       ((clear_SR STATUS_OVERRUN_ERROR (clear_SR SR_RX_ERRORS (clear_SR STATUS_RECEIVER_READY ch)))
          \<lparr>rx_enabled := False, rx_fifo_read_ptr := 0, rx_fifo_write_ptr := 0, rx_fifo_num := 0\<rparr>)"

definition reset_transmitter :: "nat \<Rightarrow> duart \<Rightarrow> duart" where
  "reset_transmitter c d =
     (let d1 = upd_chan c (clear_SR (STATUS_TRANSMITTER_READY OR STATUS_TRANSMITTER_EMPTY)) d;
          d2 = clear_ISR_bits (txrdy_bit c) (emit (Write_tx c True) d1)
      in upd_chan c (\<lambda>ch. (transmit_register_reset ch)
           \<lparr>m_bits_transmitted := 255, m_tx_data_in_buffer := False, m_tx_enabled := False\<rparr>) d2)"

definition start_break :: "nat \<Rightarrow> duart \<Rightarrow> duart" where
  "start_break c d =
     (if \<not> m_tx_break (get_channel c d) then
        let d1 = upd_chan c (\<lambda>ch. ch\<lparr>m_tx_break := True\<rparr>) d
        in if MR2 (get_channel c d1) AND 0xc0 = 0x80
           then rx_fifo_push c 0 STATUS_RECEIVED_BREAK (set_ISR_bits (delta_break_bit c) d1)
           else d1
      else d)"

definition stop_break :: "nat \<Rightarrow> duart \<Rightarrow> duart" where
  "stop_break c d =
     (if m_tx_break (get_channel c d) then
        let d1 = upd_chan c (\<lambda>ch. ch\<lparr>m_tx_break := False\<rparr>) d
        in if MR2 (get_channel c d1) AND 0xc0 = 0x80 then set_ISR_bits (delta_break_bit c) d1 else d1
      else d)"

definition CR_command :: "nat \<Rightarrow> u8 \<Rightarrow> duart \<Rightarrow> duart" where
  "CR_command c data d =
     (let cmd = BITS data 4 3
      in if cmd = 1 then upd_chan c (\<lambda>ch. ch\<lparr>MR_ptr := 0\<rparr>) d
         else if cmd = 2 then upd_chan c reset_receiver d
         else if cmd = 3 then reset_transmitter c d
         else if cmd = 4 then upd_chan c (clear_SR (SR_RX_ERRORS OR STATUS_OVERRUN_ERROR)) d
         else if cmd = 5 then clear_ISR_bits (delta_break_bit c) d
         else if cmd = 6 then start_break c d
         else if cmd = 7 then stop_break c d
         else d)"

definition CR_enable_rx :: "nat \<Rightarrow> u8 \<Rightarrow> duart \<Rightarrow> duart" where
  "CR_enable_rx c data d =
     (let d1 = (if BIT data 0 \<noteq> 0 then upd_chan c (\<lambda>ch. ch\<lparr>rx_enabled := True\<rparr>) d else d)
      in if BIT data 1 \<noteq> 0
         then upd_chan c (\<lambda>ch. clear_SR STATUS_RECEIVER_READY (ch\<lparr>rx_enabled := False\<rparr>)) d1 else d1)"

definition CR_enable_tx :: "nat \<Rightarrow> u8 \<Rightarrow> duart \<Rightarrow> duart" where
  "CR_enable_tx c data d =
     (let d1 = (if BIT (CR (get_channel c d)) 2 = 0 \<and> BIT data 2 \<noteq> 0
                then set_ISR_bits (txrdy_bit c)
                       (upd_chan c (\<lambda>ch. (set_SR (STATUS_TRANSMITTER_READY OR STATUS_TRANSMITTER_EMPTY) ch)
                          \<lparr>m_tx_data_in_buffer := False, m_tx_enabled := True\<rparr>) d)
                else d)
      in if BIT data 3 \<noteq> 0
         then clear_ISR_bits (txrdy_bit c)
                (upd_chan c (\<lambda>ch. (clear_SR (STATUS_TRANSMITTER_READY OR STATUS_TRANSMITTER_EMPTY) ch)
                   \<lparr>m_tx_data_in_buffer := False, m_tx_enabled := False\<rparr>) d1)
         else d1)"

definition write_CR :: "nat \<Rightarrow> u8 \<Rightarrow> duart \<Rightarrow> duart" where
  "write_CR c data d =
     upd_chan c (\<lambda>ch. ch\<lparr>CR := data\<rparr>)
       (chan_update_interrupts c (CR_enable_tx c data (CR_enable_rx c data (CR_command c data d))))"

definition write_TX :: "attotime \<Rightarrow> nat \<Rightarrow> u8 \<Rightarrow> duart \<Rightarrow> duart" where
  "write_TX now c data d =
     (if SR (get_channel c d) AND STATUS_TRANSMITTER_READY = 0 then d
      else chan_update_interrupts c
             (upd_chan c (\<lambda>ch.
                let ch1 = clear_SR (STATUS_TRANSMITTER_READY OR STATUS_TRANSMITTER_EMPTY) ch
                in if \<not> is_transmit_register_empty ch1
                   then ch1\<lparr>m_tx_data := data, m_tx_data_in_buffer := True\<rparr>
                   else (transmit_register_setup now data ch1)\<lparr>m_bits_transmitted := 0\<rparr>) d))"

definition write_CSR :: "attotime \<Rightarrow> nat \<Rightarrow> u8 \<Rightarrow> duart \<Rightarrow> duart" where
  "write_CSR now c data d =
     (let tx = calc_baud c False (data AND 0xf) d; rx = calc_baud c True (BITS data 4 4) d
      in upd_chan c (\<lambda>ch. set_tra_rate_baud now tx (set_rcv_rate_baud now rx
           (ch\<lparr>CSR := data, tx_baud_rate := tx, rx_baud_rate := rx\<rparr>))) d)"

definition write_chan_reg :: "attotime \<Rightarrow> nat \<Rightarrow> nat \<Rightarrow> u8 \<Rightarrow> duart \<Rightarrow> duart" where
  "write_chan_reg now c reg data d =
     (if reg = 0 then write_MR c data d
      else if reg = 1 then write_CSR now c data d
      else if reg = 2 then write_CR c data d
      else if reg = 3 then write_TX now c data d
      else d)"

definition read_chan_reg :: "nat \<Rightarrow> nat \<Rightarrow> duart \<Rightarrow> u8 \<times> duart" where
  "read_chan_reg c reg d =
     (let ch = get_channel c d
      in if reg = 0 then
           (if MR_ptr ch = 0 then (MR1 ch, upd_chan c (\<lambda>ch. ch\<lparr>MR_ptr := 1\<rparr>) d) else (MR2 ch, d))
         else if reg = 1 then (SR ch, d)
         else if reg = 3 then read_rx_fifo c d
         else (0xff, d))"

definition baud_updated :: "attotime \<Rightarrow> nat \<Rightarrow> duart \<Rightarrow> duart" where
  "baud_updated now c d = write_chan_reg now c 1 (CSR (get_channel c d)) d"

definition chan_reset :: "attotime \<Rightarrow> nat \<Rightarrow> duart \<Rightarrow> duart" where
  "chan_reset now c d =
     upd_chan c (\<lambda>ch. (set_data_frame 1 8 PARITY_NONE STOP_BITS_1 ch)
         \<lparr>tx_baud_rate := 0, rx_baud_rate := 0, CSR := 0, m_tx_break := False\<rparr>)
       (write_CR c 0x40 (write_CR c 0x30 (write_CR c 0x20 (write_CR c 0x10 d))))"

section \<open>The chip: timer, input port, registers and reset\<close>

text \<open>The serial clocks a channel takes from the timer.\<close>

definition timer_drive_chan :: "attotime \<Rightarrow> nat \<Rightarrow> duart \<Rightarrow> duart" where
  "timer_drive_chan now c d =
     (let csr = CSR (get_channel c d); state = (half_period d \<noteq> 0);
          d1 = (if csr AND 0x0f = 0x0d then tx_16x_clock_w now c state d else d)
      in if csr AND 0xf0 = 0xd0 then rx_16x_clock_w now c state d1 else d1)"

definition duart_timer_callback :: "attotime \<Rightarrow> duart \<Rightarrow> duart" where
  "duart_timer_callback now d =
     (if ACR d AND 0x40 \<noteq> 0 then
        let d1 = d\<lparr>half_period := half_period d XOR 1\<rparr>;
            d2 = (if OPCR d1 AND 0xc = 0x4 then write_outport (d1\<lparr>OPR := OPR d1 XOR 0x8\<rparr>) else d1);
            d3 = timer_drive_chan now 1 (timer_drive_chan now 0 d2);
            d4 = (if half_period d3 = 0 then set_ISR_bits INT_COUNTER_READY d3 else d3)
        in start_ct now (ct_preset d4) d4
      else
        let d1 = (if OPCR d AND 0xc = 0x4 then d\<lparr>OPR := OPR d OR 0x8\<rparr> else d)
        in start_ct now 0xffff (set_ISR_bits INT_COUNTER_READY d1))"

text \<open>\<^verbatim>\<open>ip0_w\<close> to \<^verbatim>\<open>ip3_w\<close>: the pin number \<open>i\<close> gives the masks of each.\<close>

definition ip_change_w :: "nat \<Rightarrow> bool \<Rightarrow> duart \<Rightarrow> duart" where
  "ip_change_w i state d =
     (let m = push_bit i 1; newIP = (IP_last_state d AND NOT m) OR (if state then m else 0);
          d1 = (if newIP \<noteq> IP_last_state d then
                  let a = d\<lparr>IPCR := ((IPCR d AND NOT 0x0f) OR (newIP AND 0x0f)) OR push_bit 4 m\<rparr>
                  in if ACR a AND m \<noteq> 0 then set_ISR_bits INT_INPUT_PORT_CHANGE a else a
                else d)
      in d1\<lparr>IP_last_state := newIP\<rparr>)"

definition ip0_w :: "bool \<Rightarrow> duart \<Rightarrow> duart" where "ip0_w = ip_change_w 0"
definition ip1_w :: "bool \<Rightarrow> duart \<Rightarrow> duart" where "ip1_w = ip_change_w 1"
definition ip2_w :: "bool \<Rightarrow> duart \<Rightarrow> duart" where "ip2_w = ip_change_w 2"
definition ip3_w :: "bool \<Rightarrow> duart \<Rightarrow> duart" where "ip3_w = ip_change_w 3"

text \<open>\<^verbatim>\<open>ip4_w\<close> to \<^verbatim>\<open>ip6_w\<close>.\<close>

definition ip_level_w :: "nat \<Rightarrow> bool \<Rightarrow> duart \<Rightarrow> duart" where
  "ip_level_w i state d =
     (let m = push_bit i 1 in d\<lparr>IP_last_state := (IP_last_state d AND NOT m) OR (if state then m else 0)\<rparr>)"

definition rx_line_w :: "attotime \<Rightarrow> nat \<Rightarrow> bool \<Rightarrow> duart \<Rightarrow> duart" where
  "rx_line_w now c state d = upd_chan c (rx_w now state) d"

definition read_base :: "attotime \<Rightarrow> nat \<Rightarrow> duart \<Rightarrow> u8 \<times> duart" where
  "read_base now offset d =
     (let r = offset mod 16
      in if r = 0x0 \<or> r = 0x1 \<or> r = 0x3 then read_chan_reg 0 (r mod 4) d
         else if r = 0x4 then
           (IPCR d, clear_ISR_bits INT_INPUT_PORT_CHANGE (d\<lparr>IPCR := IPCR d AND 0x0f\<rparr>))
         else if r = 0x5 then (ISR d, d)
         else if r = 0x6 then (ucast (drop_bit 8 (get_ct_count now d)), d)
         else if r = 0x7 then (ucast (get_ct_count now d AND 0xff), d)
         else if r = 0x8 \<or> r = 0x9 \<or> r = 0xb then read_chan_reg 1 (r mod 4) d
         else if r = 0xa then (0x61, d)
         else if r = 0xd then
           ((case read_inport d of Some v \<Rightarrow> v | None \<Rightarrow> IP_last_state d) OR 0x80, d)
         else if r = 0xe then
           (0xff, let d1 = (if ACR d AND 0x40 \<noteq> 0 then d\<lparr>half_period := 0\<rparr> else d)
                  in start_ct now (ct_preset d1) d1)
         else if r = 0xf then
           (0xff, let d1 = (if ACR d AND 0x40 = 0
                            then let a = d\<lparr>duart_timer := timer_enable False (duart_timer d)\<rparr>
                                 in if OPCR a AND 0xc = 0x4 then a\<lparr>OPR := OPR a AND NOT 0x8\<rparr> else a
                            else d)
                  in clear_ISR_bits INT_COUNTER_READY d1)
         else (0xff, d))"

definition read_mc68681 :: "attotime \<Rightarrow> nat \<Rightarrow> duart \<Rightarrow> u8 \<times> duart" where
  "read_mc68681 now offset d =
     (if offset = 0x0c then (IVR d, d)
      else let (r, d1) = read_base now offset d
           in if offset = 0x0d
              then (if m_read_vector d1 then (r AND NOT 0x40, d1) else (r OR 0x40, d1))
              else (r, d1))"

definition duart_read :: "attotime \<Rightarrow> nat \<Rightarrow> duart \<Rightarrow> u8 \<times> duart" where
  "duart_read now offset d =
     (if offset = 0x02 then (ISR d AND IMR d, d) else read_mc68681 now offset d)"

definition write_ACR :: "attotime \<Rightarrow> u8 \<Rightarrow> duart \<Rightarrow> duart" where
  "write_ACR now data d =
     (let old_acr = ACR d; d1 = d\<lparr>ACR := data\<rparr>;
          d2 = (if (old_acr XOR data) AND 0x40 \<noteq> 0 then
                  (if data AND 0x40 \<noteq> 0
                   then let a = d1\<lparr>half_period := 0\<rparr> in start_ct now (ct_preset a) a
                   else d1\<lparr>duart_timer := timer_never now (duart_timer d1)\<rparr>)
                else d1);
          d3 = (if (drop_bit 4 (IPCR d2) AND data) AND 0x0f \<noteq> 0
                then set_ISR_bits INT_INPUT_PORT_CHANGE d2 else d2)
      in chan_update_interrupts 1 (chan_update_interrupts 0 (baud_updated now 1 (baud_updated now 0 d3))))"

definition write_base :: "attotime \<Rightarrow> nat \<Rightarrow> u8 \<Rightarrow> duart \<Rightarrow> duart" where
  "write_base now offset data d =
     (let r = offset mod 16
      in if r \<le> 0x3 then write_chan_reg now 0 (r mod 4) data d
         else if r = 0x4 then write_ACR now data d
         else if r = 0x5 then update_interrupts (d\<lparr>IMR := data\<rparr>)
         else if r = 0x6 then d\<lparr>CTR := (CTR d AND 0x00ff) OR push_bit 8 (ucast data)\<rparr>
         else if r = 0x7 then d\<lparr>CTR := (CTR d AND 0xff00) OR ucast data\<rparr>
         else if 0x8 \<le> r \<and> r \<le> 0xb then write_chan_reg now 1 (r mod 4) data d
         else if r = 0xd then d\<lparr>OPCR := data\<rparr>
         else if r = 0xe then write_outport (d\<lparr>OPR := OPR d OR data\<rparr>)
         else if r = 0xf then write_outport (d\<lparr>OPR := OPR d AND NOT data\<rparr>)
         else d)"

definition write_mc68681 :: "attotime \<Rightarrow> nat \<Rightarrow> u8 \<Rightarrow> duart \<Rightarrow> duart" where
  "write_mc68681 now offset data d =
     (if offset = 0x0c then d\<lparr>IVR := data\<rparr> else write_base now offset data d)"

text \<open>The extended commands of the XR68C681 in the command register of a channel: the byte
  that is passed on, and the chip after the command.\<close>

definition set_extend :: "nat \<Rightarrow> bool \<Rightarrow> bool \<Rightarrow> duart \<Rightarrow> duart" where
  "set_extend c rx v d =
     (if c = 0 then (if rx then d\<lparr>m_XRXA := v\<rparr> else d\<lparr>m_XTXA := v\<rparr>)
      else (if rx then d\<lparr>m_XRXB := v\<rparr> else d\<lparr>m_XTXB := v\<rparr>))"

definition extended_command :: "attotime \<Rightarrow> nat \<Rightarrow> u8 \<Rightarrow> duart \<Rightarrow> u8 \<times> duart" where
  "extended_command now c data d =
     (let cmd = drop_bit 4 data
      in if cmd = 0x8 then (data AND 0x0f, baud_updated now c (set_extend c True True d))
         else if cmd = 0x9 then (data AND 0x0f, baud_updated now c (set_extend c True False d))
         else if cmd = 0xa then (data AND 0x0f, baud_updated now c (set_extend c False True d))
         else if cmd = 0xb then (data AND 0x0f, baud_updated now c (set_extend c False False d))
         else if cmd = 0xc \<or> cmd = 0xd \<or> cmd = 0xe \<or> cmd = 0xf then (data AND 0x0f, d)
         else (data, d))"

definition duart_write :: "attotime \<Rightarrow> nat \<Rightarrow> u8 \<Rightarrow> duart \<Rightarrow> duart" where
  "duart_write now offset data d =
     (let (data1, d1) =
        (if offset = 0x02 then extended_command now 0 data d
         else if offset = 0x0a then extended_command now 1 data d
         else (data, d))
      in write_mc68681 now offset data1 d1)"

definition device_reset_base :: "duart \<Rightarrow> duart" where
  "device_reset_base d =
     write_outport (emit (Write_irq False)
       (d\<lparr>ACR := 0, IMR := 0, ISR := 0, OPCR := 0, OPR := 0, CTR := 0, IPCR := 0, m_irq_state := False\<rparr>))"

definition device_reset_xr68c681 :: "duart \<Rightarrow> duart" where
  "device_reset_xr68c681 d =
     (device_reset_base d)\<lparr>IVR := 0x0f, m_read_vector := False,
        m_XTXA := False, m_XRXA := False, m_XTXB := False, m_XRXB := False\<rparr>"

text \<open>\<^verbatim>\<open>device_t::reset\<close>: the chip, then its child devices in order.\<close>

definition duart_reset :: "attotime \<Rightarrow> duart \<Rightarrow> duart" where
  "duart_reset now d = chan_reset now 1 (chan_reset now 0 (device_reset_xr68c681 d))"

definition set_clocks :: "int \<Rightarrow> int \<Rightarrow> int \<Rightarrow> int \<Rightarrow> duart \<Rightarrow> duart" where
  "set_clocks clk3 clk4 clk5 clk6 d = d\<lparr>ip3clk := clk3, ip4clk := clk4, ip5clk := clk5, ip6clk := clk6\<rparr>"

text \<open>The constructors. Fields the constructors leave alone (\<^verbatim>\<open>CR\<close>, \<^verbatim>\<open>CSR\<close>, \<^verbatim>\<open>MR_ptr\<close>, the baud
  rates, the FIFO pointers, \<^verbatim>\<open>m_tx_data\<close>, the prescalers; of the chip \<^verbatim>\<open>IMR\<close>, \<^verbatim>\<open>ISR\<close>, \<^verbatim>\<open>OPCR\<close>,
  \<^verbatim>\<open>OPR\<close>, \<^verbatim>\<open>CTR\<close>, \<^verbatim>\<open>IPCR\<close>, \<^verbatim>\<open>half_period\<close>, \<^verbatim>\<open>m_irq_state\<close>, \<^verbatim>\<open>IVR\<close>) have the values of \<open>ch\<close> and \<open>d\<close>.\<close>

definition duart_channel_init :: "attotime \<Rightarrow> duart_channel \<Rightarrow> duart_channel" where
  "duart_channel_init now ch =
     (device_serial_interface.extend (device_serial_interface_init now) (device_serial_interface.more ch))
       \<lparr>MR1 := 0, MR2 := 0, SR := 0, rx_enabled := False, rx_fifo_num := 0, m_tx_data_in_buffer := False,
        m_tx_break := False, m_bits_transmitted := 255, m_tx_enabled := False,
        rx_fifo := replicate (MC68681_RX_FIFO_SIZE + 1) 0\<rparr>"

definition duart_init :: "attotime \<Rightarrow> int \<Rightarrow> duart \<Rightarrow> duart" where
  "duart_init now clk d =
     d\<lparr>m_chanA := duart_channel_init now (m_chanA d), m_chanB := duart_channel_init now (m_chanB d),
       m_clock := clk, read_inport := None, ip3clk := 0, ip4clk := 0, ip5clk := 0, ip6clk := 0,
       ACR := 0, IP_last_state := 0, duart_timer := timer_init now attotime_never 0,
       m_read_vector := False, m_XTXA := False, m_XRXA := False, m_XTXB := False, m_XRXB := False,
       m_out := []\<rparr>"

end
