(* ===== verification/Duart_Fifo.thy ===== *)
theory Duart_Fifo
  imports Duart
begin

unbundle bit_operations_syntax

text \<open>
  The receive FIFO of a DUART channel as a bounded queue. The contract of such a queue is
  the locale \<open>overrun_queue\<close>; the array with its two pointers and its count
  (\<open>fifo_put\<close>, \<open>fifo_get\<close>) is an interpretation of it, and so the whole receive path refines
  the abstract queue.
\<close>

section \<open>The contract\<close>

text \<open>A queue of capacity \<open>cap\<close> that replaces its newest element when it overflows.\<close>

definition overrun_put :: "nat \<Rightarrow> 'a \<Rightarrow> 'a list \<Rightarrow> 'a list" where
  "overrun_put cap x xs = (if length xs < cap then xs @ [x] else butlast xs @ [x])"

locale overrun_queue =
  fixes inv :: "'s \<Rightarrow> bool" and abs :: "'s \<Rightarrow> 'a list" and cap :: nat
    and put :: "'a \<Rightarrow> 's \<Rightarrow> 's" and get :: "'s \<Rightarrow> 'a \<times> 's" and flush :: "'s \<Rightarrow> 's"
    and num :: "'s \<Rightarrow> nat"
  assumes cap_pos: "0 < cap"
    and num_abs: "inv s \<Longrightarrow> num s = length (abs s)"
    and bounded: "inv s \<Longrightarrow> length (abs s) \<le> cap"
    and put_inv: "inv s \<Longrightarrow> inv (put x s)"
    and put_abs: "inv s \<Longrightarrow> abs (put x s) = overrun_put cap x (abs s)"
    and get_inv: "inv s \<Longrightarrow> num s \<noteq> 0 \<Longrightarrow> inv (snd (get s))"
    and get_abs: "inv s \<Longrightarrow> num s \<noteq> 0 \<Longrightarrow> abs s = fst (get s) # abs (snd (get s))"
    and flush_abs: "inv s \<Longrightarrow> inv (flush s) \<and> abs (flush s) = []"
begin

text \<open>The elements a sequence of reads returns.\<close>

primrec drain :: "nat \<Rightarrow> 's \<Rightarrow> 'a list" where
  "drain 0 s = []"
| "drain (Suc n) s = fst (get s) # drain n (snd (get s))"

lemma put_num: "inv s \<Longrightarrow> num (put x s) = min cap (Suc (num s))"
  using bounded [of s] cap_pos by (auto simp: num_abs put_inv put_abs overrun_put_def)

lemma fold_put:
  "inv s \<Longrightarrow> inv (fold put xs s) \<and> abs (fold put xs s) = fold (overrun_put cap) xs (abs s)"
  by (induction xs arbitrary: s) (simp_all add: put_inv put_abs)

lemma drain_abs:
  "inv s \<Longrightarrow> n \<le> num s \<Longrightarrow> drain n s = take n (abs s)"
proof (induction n arbitrary: s)
  case (Suc n)
  then have nz: "num s \<noteq> 0" by simp
  have "abs s = fst (get s) # abs (snd (get s))" using get_abs [OF Suc.prems(1) nz] .
  moreover from this have "n \<le> num (snd (get s))"
    using Suc.prems get_inv [OF Suc.prems(1) nz] by (simp add: num_abs)
  ultimately show ?case
    using Suc.IH [OF get_inv [OF Suc.prems(1) nz]] by (metis drain.simps(2) take_Suc_Cons)
qed simp

text \<open>Elements come out in the order in which they went in, as long as the queue has room.\<close>

lemma fifo_order:
  assumes "inv s" "length (abs s) + length xs \<le> cap"
  shows "drain (num s + length xs) (fold put xs s) = abs s @ xs"
proof -
  have "fold (overrun_put cap) xs ys = ys @ xs" if "length ys + length xs \<le> cap" for ys
    using that by (induction xs arbitrary: ys) (simp_all add: overrun_put_def)
  then have a: "abs (fold put xs s) = abs s @ xs" using fold_put [OF assms(1)] assms(2) by simp
  have i: "inv (fold put xs s)" using fold_put [OF assms(1)] by simp
  show ?thesis
    using drain_abs [OF i, of "num s + length xs"] a i assms(1) by (simp add: num_abs)
qed

end

section \<open>The array of a channel\<close>

definition fifo_ok :: "duart_channel \<Rightarrow> bool" where
  "fifo_ok ch \<longleftrightarrow> length (rx_fifo ch) = 4 \<and> rx_fifo_num ch \<le> 4 \<and> rx_fifo_read_ptr ch < 4 \<and>
     rx_fifo_write_ptr ch = (rx_fifo_read_ptr ch + rx_fifo_num ch) mod 4"

definition fifo_abs :: "duart_channel \<Rightarrow> u16 list" where
  "fifo_abs ch = map (\<lambda>i. rx_fifo ch ! ((rx_fifo_read_ptr ch + i) mod 4)) [0..<rx_fifo_num ch]"

text \<open>The queue operations on whole entries: the write of an entry is \<open>fifo_put\<close> of its two
  halves, the read of one returns the whole entry instead of its character.\<close>

definition entry_put :: "u16 \<Rightarrow> duart_channel \<Rightarrow> duart_channel" where
  "entry_put e ch = fifo_put (ucast e) (ucast (drop_bit 8 e)) ch"

definition entry_get :: "duart_channel \<Rightarrow> u16 \<times> duart_channel" where
  "entry_get ch = (rx_fifo ch ! rx_fifo_read_ptr ch, snd (fifo_get ch))"

lemma fifo_entry_halves: "fifo_entry (ucast e) (ucast (drop_bit 8 e)) = e"
  unfolding fifo_entry_def
  by (rule bit_word_eqI) (auto simp: bit_simps)

lemma fifo_entry_data [simp]: "ucast (fifo_entry data errors) = data"
  unfolding fifo_entry_def by (rule bit_word_eqI) (auto simp: bit_simps)

lemma fifo_entry_errors [simp]: "ucast (drop_bit 8 (fifo_entry data errors)) = errors"
  unfolding fifo_entry_def by (rule bit_word_eqI) (auto simp: bit_simps bit_u8_ge)

lemma length_fifo_abs [simp]: "length (fifo_abs ch) = rx_fifo_num ch"
  by (simp add: fifo_abs_def)

lemma upt_4 [simp]:
  "[0..<Suc 0] = [0]" "[0..<2] = [0, 1]" "[0..<3] = [0, 1, 2]" "[0..<4] = [0, 1, 2, 3::nat]"
  by (simp_all add: upt_rec)

lemma list_4: "length xs = 4 \<longleftrightarrow> (\<exists>a b c d. xs = [a, b, c, d])"
proof
  assume "length xs = 4"
  then have "length xs = Suc (Suc (Suc (Suc 0)))" by simp
  then show "\<exists>a b c d. xs = [a, b, c, d]" by (simp only: length_Suc_conv) auto
qed auto

text \<open>A channel with a well-formed FIFO is one of twenty shapes.\<close>

lemma fifo_shape:
  assumes "fifo_ok ch"
  obtains a b c d where "rx_fifo ch = [a, b, c, d]"
    and "rx_fifo_num ch = 0 \<or> rx_fifo_num ch = Suc 0 \<or> rx_fifo_num ch = 2 \<or> rx_fifo_num ch = 3 \<or> rx_fifo_num ch = 4"
    and "rx_fifo_read_ptr ch = 0 \<or> rx_fifo_read_ptr ch = Suc 0 \<or> rx_fifo_read_ptr ch = 2 \<or> rx_fifo_read_ptr ch = 3"
    and "rx_fifo_write_ptr ch = (rx_fifo_read_ptr ch + rx_fifo_num ch) mod 4"
proof -
  have "rx_fifo_num ch \<le> 4" "rx_fifo_read_ptr ch < 4" "length (rx_fifo ch) = 4"
    "rx_fifo_write_ptr ch = (rx_fifo_read_ptr ch + rx_fifo_num ch) mod 4"
    using assms by (simp_all add: fifo_ok_def)
  moreover from this have "rx_fifo_num ch = 0 \<or> rx_fifo_num ch = Suc 0 \<or> rx_fifo_num ch = 2 \<or> rx_fifo_num ch = 3 \<or> rx_fifo_num ch = 4"
    "rx_fifo_read_ptr ch = 0 \<or> rx_fifo_read_ptr ch = Suc 0 \<or> rx_fifo_read_ptr ch = 2 \<or> rx_fifo_read_ptr ch = 3"
    by linarith+
  ultimately show ?thesis using that unfolding list_4 by blast
qed

lemmas fifo_eval = fifo_ok_def fifo_abs_def fifo_put_def fifo_get_def overrun_put_def Let_def

lemma fifo_put_ok:
  assumes "fifo_ok ch"
  shows "fifo_ok (fifo_put data errors ch)"
proof -
  obtain a b c d where f: "rx_fifo ch = [a, b, c, d]"
    and n: "rx_fifo_num ch = 0 \<or> rx_fifo_num ch = Suc 0 \<or> rx_fifo_num ch = 2 \<or> rx_fifo_num ch = 3 \<or> rx_fifo_num ch = 4"
    and r: "rx_fifo_read_ptr ch = 0 \<or> rx_fifo_read_ptr ch = Suc 0 \<or> rx_fifo_read_ptr ch = 2 \<or> rx_fifo_read_ptr ch = 3"
    and w: "rx_fifo_write_ptr ch = (rx_fifo_read_ptr ch + rx_fifo_num ch) mod 4"
    by (rule fifo_shape [OF assms])
  from n r show ?thesis by (elim disjE) (simp_all add: w f fifo_eval)
qed

lemma fifo_put_abs:
  assumes "fifo_ok ch"
  shows "fifo_abs (fifo_put data errors ch) = overrun_put 4 (fifo_entry data errors) (fifo_abs ch)"
proof -
  obtain a b c d where f: "rx_fifo ch = [a, b, c, d]"
    and n: "rx_fifo_num ch = 0 \<or> rx_fifo_num ch = Suc 0 \<or> rx_fifo_num ch = 2 \<or> rx_fifo_num ch = 3 \<or> rx_fifo_num ch = 4"
    and r: "rx_fifo_read_ptr ch = 0 \<or> rx_fifo_read_ptr ch = Suc 0 \<or> rx_fifo_read_ptr ch = 2 \<or> rx_fifo_read_ptr ch = 3"
    and w: "rx_fifo_write_ptr ch = (rx_fifo_read_ptr ch + rx_fifo_num ch) mod 4"
    by (rule fifo_shape [OF assms])
  from n r show ?thesis by (elim disjE) (simp_all add: w f fifo_eval)
qed

lemma fifo_get_queue:
  assumes "fifo_ok ch" "rx_fifo_num ch \<noteq> 0"
  shows "fifo_ok (snd (fifo_get ch)) \<and>
    fifo_abs ch = rx_fifo ch ! rx_fifo_read_ptr ch # fifo_abs (snd (fifo_get ch))"
proof -
  obtain a b c d where f: "rx_fifo ch = [a, b, c, d]"
    and n: "rx_fifo_num ch = 0 \<or> rx_fifo_num ch = Suc 0 \<or> rx_fifo_num ch = 2 \<or> rx_fifo_num ch = 3 \<or> rx_fifo_num ch = 4"
    and r: "rx_fifo_read_ptr ch = 0 \<or> rx_fifo_read_ptr ch = Suc 0 \<or> rx_fifo_read_ptr ch = 2 \<or> rx_fifo_read_ptr ch = 3"
    and w: "rx_fifo_write_ptr ch = (rx_fifo_read_ptr ch + rx_fifo_num ch) mod 4"
    by (rule fifo_shape [OF assms(1)])
  from n r show ?thesis by (elim disjE) (use assms(2) in \<open>simp_all add: w f fifo_eval\<close>)
qed

lemma reset_receiver_fifo:
  "fifo_ok ch \<Longrightarrow> fifo_ok (reset_receiver ch) \<and> fifo_abs (reset_receiver ch) = []"
  by (simp add: fifo_ok_def fifo_abs_def reset_receiver_def receive_register_reset_def Let_def)

interpretation rxq: overrun_queue fifo_ok fifo_abs 4 entry_put entry_get reset_receiver rx_fifo_num
proof unfold_locales
  fix s x
  show "(0::nat) < 4" by simp
  show "fifo_ok s \<Longrightarrow> rx_fifo_num s = length (fifo_abs s)" by simp
  show "fifo_ok s \<Longrightarrow> length (fifo_abs s) \<le> 4" by (simp add: fifo_ok_def)
  show "fifo_ok s \<Longrightarrow> fifo_ok (entry_put x s)" by (simp add: entry_put_def fifo_put_ok)
  show "fifo_ok s \<Longrightarrow> fifo_abs (entry_put x s) = overrun_put 4 x (fifo_abs s)"
    by (simp add: entry_put_def fifo_put_abs fifo_entry_halves)
  show "fifo_ok s \<Longrightarrow> rx_fifo_num s \<noteq> 0 \<Longrightarrow> fifo_ok (snd (entry_get s))"
    by (simp add: entry_get_def fifo_get_queue)
  show "fifo_ok s \<Longrightarrow> rx_fifo_num s \<noteq> 0 \<Longrightarrow> fifo_abs s = fst (entry_get s) # fifo_abs (snd (entry_get s))"
    using fifo_get_queue [of s] by (simp add: entry_get_def)
  show "fifo_ok s \<Longrightarrow> fifo_ok (reset_receiver s) \<and> fifo_abs (reset_receiver s) = []"
    by (rule reset_receiver_fifo)
qed

end
