(* ===== verification/Duart_Inv.thy ===== *)
theory Duart_Inv
  imports Duart_Fifo
begin

unbundle bit_operations_syntax

text \<open>
  The invariant of the DUART over all the operations the boards and the scheduler perform on
  it: the interrupt line follows the masked status register, the status register mirrors the
  channels, and the receive FIFOs are well formed and agree with the status bits.
\<close>

section \<open>The invariant and the operations\<close>

text \<open>The level of the interrupt line after a sequence of output events.\<close>

definition irq_level :: "duart_event list \<Rightarrow> bool" where
  "irq_level es = foldl (\<lambda>l e. case e of Write_irq b \<Rightarrow> b | _ \<Rightarrow> l) False es"

definition irq_ok :: "duart \<Rightarrow> bool" where
  "irq_ok d \<longleftrightarrow> m_irq_state d = (ISR d AND IMR d \<noteq> 0) \<and> irq_level (m_out d) = m_irq_state d"

text \<open>The two status bits of a channel, as conditions on its registers.\<close>

definition tx_status :: "duart_channel \<Rightarrow> bool" where
  "tx_status ch \<longleftrightarrow> bit (SR ch) 2"

definition rx_status :: "duart_channel \<Rightarrow> bool" where
  "rx_status ch \<longleftrightarrow> (if bit (MR1 ch) 6 then bit (SR ch) 1 else bit (SR ch) 0)"

definition isr_mirror :: "nat \<Rightarrow> duart \<Rightarrow> bool" where
  "isr_mirror c d \<longleftrightarrow>
     bit (ISR d) (if c = 0 then 0 else 4) = tx_status (get_channel c d) \<and>
     bit (ISR d) (if c = 0 then 1 else 5) = rx_status (get_channel c d) \<and>
     (bit (MR2 (get_channel c d)) 6 \<longrightarrow> \<not> bit (SR (get_channel c d)) 2)"

definition chan_ok :: "duart_channel \<Rightarrow> bool" where
  "chan_ok ch \<longleftrightarrow> fifo_ok ch \<and> (\<forall>e \<in> set (fifo_abs ch). \<forall>k<5. \<not> bit e (8 + k)) \<and>
     (bit (SR ch) 0 \<longrightarrow> 0 < rx_fifo_num ch) \<and> (3 \<le> rx_fifo_num ch \<longrightarrow> bit (SR ch) 1)"

definition duart_inv :: "duart \<Rightarrow> bool" where
  "duart_inv d \<longleftrightarrow> irq_ok d \<and> isr_mirror 0 d \<and> isr_mirror 1 d \<and> chan_ok (m_chanA d) \<and> chan_ok (m_chanB d)"

text \<open>The parts of the invariant that hold while an operation of channel \<open>c\<close> is under way: the
  flags say whether the mirror of the other channel, the FIFO of the other channel and the FIFO
  of \<open>c\<close> are included. During a reset they are restored one after the other.\<close>

definition other :: "nat \<Rightarrow> nat" where
  "other c = (if c = 0 then 1 else 0)"

definition inv_part :: "bool \<Rightarrow> bool \<Rightarrow> bool \<Rightarrow> nat \<Rightarrow> duart \<Rightarrow> bool" where
  "inv_part mi ot ow c d \<longleftrightarrow> irq_ok d \<and> (mi \<longrightarrow> isr_mirror (other c) d) \<and>
     (ot \<longrightarrow> chan_ok (get_channel (other c) d)) \<and> (ow \<longrightarrow> chan_ok (get_channel c d))"

abbreviation inv_but :: "nat \<Rightarrow> duart \<Rightarrow> bool" where
  "inv_but \<equiv> inv_part True True True"

inductive duart_step :: "duart \<Rightarrow> duart \<Rightarrow> bool" where
  Read: "duart_step d (snd (duart_read now offset d))"
| Write: "duart_step d (duart_write now offset data d)"
| Ip_change: "i < 4 \<Longrightarrow> duart_step d (ip_change_w i state d)"
| Ip_level: "duart_step d (ip_level_w i state d)"
| Rx_line: "duart_step d (rx_line_w now c state d)"
| Tra_clock: "duart_step d (tra_clock now c d)"
| Rcv_clock: "duart_step d (rcv_clock now c d)"
| Timer: "duart_step d (duart_timer_callback now d)"
| Vector: "duart_step d (snd (get_irq_vector dis d))"
| Clocks: "duart_step d (set_clocks c3 c4 c5 c6 d)"
| Reset: "duart_step d (duart_reset now d)"

section \<open>What updating the interrupts changes\<close>

lemma emit_simps [simp]:
  "m_chanA (emit e d) = m_chanA d" "m_chanB (emit e d) = m_chanB d" "ISR (emit e d) = ISR d"
  "IMR (emit e d) = IMR d" "OPCR (emit e d) = OPCR d" "ACR (emit e d) = ACR d"
  "half_period (emit e d) = half_period d" "IPCR (emit e d) = IPCR d"
  "IP_last_state (emit e d) = IP_last_state d" "CTR (emit e d) = CTR d" "m_clock (emit e d) = m_clock d"
  "IVR (emit e d) = IVR d" "m_XTXA (emit e d) = m_XTXA d" "m_XRXA (emit e d) = m_XRXA d"
  "m_XTXB (emit e d) = m_XTXB d" "m_XRXB (emit e d) = m_XRXB d" "ip3clk (emit e d) = ip3clk d"
  "ip5clk (emit e d) = ip5clk d" "duart_timer (emit e d) = duart_timer d"
  "read_inport (emit e d) = read_inport d" "OPR (emit e d) = OPR d" "m_irq_state (emit e d) = m_irq_state d"
  "m_read_vector (emit e d) = m_read_vector d" "m_out (emit e d) = m_out d @ [e]"
  "get_channel c (emit e d) = get_channel c d"
  by (simp_all add: emit_def get_channel_def)

lemma update_irq_line_simps [simp]:
  "m_chanA (update_irq_line d) = m_chanA d" "m_chanB (update_irq_line d) = m_chanB d"
  "ISR (update_irq_line d) = ISR d" "IMR (update_irq_line d) = IMR d" "OPCR (update_irq_line d) = OPCR d"
  "ACR (update_irq_line d) = ACR d" "half_period (update_irq_line d) = half_period d"
  "IPCR (update_irq_line d) = IPCR d" "IP_last_state (update_irq_line d) = IP_last_state d"
  "CTR (update_irq_line d) = CTR d" "m_clock (update_irq_line d) = m_clock d"
  "IVR (update_irq_line d) = IVR d" "m_XTXA (update_irq_line d) = m_XTXA d"
  "m_XRXA (update_irq_line d) = m_XRXA d" "m_XTXB (update_irq_line d) = m_XTXB d"
  "m_XRXB (update_irq_line d) = m_XRXB d" "ip3clk (update_irq_line d) = ip3clk d"
  "ip5clk (update_irq_line d) = ip5clk d" "duart_timer (update_irq_line d) = duart_timer d"
  "read_inport (update_irq_line d) = read_inport d" "OPR (update_irq_line d) = OPR d"
  "m_read_vector (update_irq_line d) = m_read_vector d"
  "m_irq_state (update_irq_line d) = (ISR d AND IMR d \<noteq> 0)"
  by (simp_all add: update_irq_line_def)

lemma opr_mirror_simps [simp]:
  "m_chanA (opr_mirror i j m d) = m_chanA d" "m_chanB (opr_mirror i j m d) = m_chanB d"
  "ISR (opr_mirror i j m d) = ISR d" "IMR (opr_mirror i j m d) = IMR d" "OPCR (opr_mirror i j m d) = OPCR d"
  "ACR (opr_mirror i j m d) = ACR d" "half_period (opr_mirror i j m d) = half_period d"
  "IPCR (opr_mirror i j m d) = IPCR d" "IP_last_state (opr_mirror i j m d) = IP_last_state d"
  "CTR (opr_mirror i j m d) = CTR d" "m_clock (opr_mirror i j m d) = m_clock d"
  "IVR (opr_mirror i j m d) = IVR d" "m_XTXA (opr_mirror i j m d) = m_XTXA d"
  "m_XRXA (opr_mirror i j m d) = m_XRXA d" "m_XTXB (opr_mirror i j m d) = m_XTXB d"
  "m_XRXB (opr_mirror i j m d) = m_XRXB d" "ip3clk (opr_mirror i j m d) = ip3clk d"
  "ip5clk (opr_mirror i j m d) = ip5clk d" "duart_timer (opr_mirror i j m d) = duart_timer d"
  "read_inport (opr_mirror i j m d) = read_inport d" "m_irq_state (opr_mirror i j m d) = m_irq_state d"
  "m_read_vector (opr_mirror i j m d) = m_read_vector d" "m_out (opr_mirror i j m d) = m_out d"
  by (simp_all add: opr_mirror_def)

lemma write_outport_simps [simp]:
  "m_chanA (write_outport d) = m_chanA d" "m_chanB (write_outport d) = m_chanB d"
  "ISR (write_outport d) = ISR d" "IMR (write_outport d) = IMR d" "OPCR (write_outport d) = OPCR d"
  "ACR (write_outport d) = ACR d" "half_period (write_outport d) = half_period d"
  "IPCR (write_outport d) = IPCR d" "IP_last_state (write_outport d) = IP_last_state d"
  "CTR (write_outport d) = CTR d" "m_clock (write_outport d) = m_clock d" "IVR (write_outport d) = IVR d"
  "m_XTXA (write_outport d) = m_XTXA d" "m_XRXA (write_outport d) = m_XRXA d"
  "m_XTXB (write_outport d) = m_XTXB d" "m_XRXB (write_outport d) = m_XRXB d"
  "ip3clk (write_outport d) = ip3clk d" "ip5clk (write_outport d) = ip5clk d"
  "duart_timer (write_outport d) = duart_timer d" "read_inport (write_outport d) = read_inport d"
  "OPR (write_outport d) = OPR d" "m_irq_state (write_outport d) = m_irq_state d"
  "m_read_vector (write_outport d) = m_read_vector d"
  "m_out (write_outport d) = m_out d @ [Write_outport (OPR d XOR 0xff)]"
  by (simp_all add: write_outport_def)

lemma update_interrupts_base_simps [simp]:
  "m_chanA (update_interrupts_base d) = m_chanA d" "m_chanB (update_interrupts_base d) = m_chanB d"
  "ISR (update_interrupts_base d) = ISR d" "IMR (update_interrupts_base d) = IMR d"
  "OPCR (update_interrupts_base d) = OPCR d" "ACR (update_interrupts_base d) = ACR d"
  "half_period (update_interrupts_base d) = half_period d" "IPCR (update_interrupts_base d) = IPCR d"
  "IP_last_state (update_interrupts_base d) = IP_last_state d" "CTR (update_interrupts_base d) = CTR d"
  "m_clock (update_interrupts_base d) = m_clock d" "IVR (update_interrupts_base d) = IVR d"
  "m_XTXA (update_interrupts_base d) = m_XTXA d" "m_XRXA (update_interrupts_base d) = m_XRXA d"
  "m_XTXB (update_interrupts_base d) = m_XTXB d" "m_XRXB (update_interrupts_base d) = m_XRXB d"
  "ip3clk (update_interrupts_base d) = ip3clk d" "ip5clk (update_interrupts_base d) = ip5clk d"
  "duart_timer (update_interrupts_base d) = duart_timer d"
  "read_inport (update_interrupts_base d) = read_inport d"
  "m_read_vector (update_interrupts_base d) = m_read_vector d"
  "m_irq_state (update_interrupts_base d) = (ISR d AND IMR d \<noteq> 0)"
  by (simp_all add: update_interrupts_base_def Let_def)

lemma update_interrupts_simps [simp]:
  "m_chanA (update_interrupts d) = m_chanA d" "m_chanB (update_interrupts d) = m_chanB d"
  "ISR (update_interrupts d) = ISR d" "IMR (update_interrupts d) = IMR d"
  "OPCR (update_interrupts d) = OPCR d" "ACR (update_interrupts d) = ACR d"
  "half_period (update_interrupts d) = half_period d" "IPCR (update_interrupts d) = IPCR d"
  "IP_last_state (update_interrupts d) = IP_last_state d" "CTR (update_interrupts d) = CTR d"
  "m_clock (update_interrupts d) = m_clock d" "IVR (update_interrupts d) = IVR d"
  "m_XTXA (update_interrupts d) = m_XTXA d" "m_XRXA (update_interrupts d) = m_XRXA d"
  "m_XTXB (update_interrupts d) = m_XTXB d" "m_XRXB (update_interrupts d) = m_XRXB d"
  "ip3clk (update_interrupts d) = ip3clk d" "ip5clk (update_interrupts d) = ip5clk d"
  "duart_timer (update_interrupts d) = duart_timer d" "read_inport (update_interrupts d) = read_inport d"
  "m_irq_state (update_interrupts d) = (ISR d AND IMR d \<noteq> 0)"
  by (simp_all add: update_interrupts_def Let_def)

lemma set_ISR_bits_simps [simp]:
  "m_chanA (set_ISR_bits m d) = m_chanA d" "m_chanB (set_ISR_bits m d) = m_chanB d"
  "IMR (set_ISR_bits m d) = IMR d" "OPCR (set_ISR_bits m d) = OPCR d" "ACR (set_ISR_bits m d) = ACR d"
  "half_period (set_ISR_bits m d) = half_period d" "IPCR (set_ISR_bits m d) = IPCR d"
  "IP_last_state (set_ISR_bits m d) = IP_last_state d" "CTR (set_ISR_bits m d) = CTR d"
  "m_clock (set_ISR_bits m d) = m_clock d" "IVR (set_ISR_bits m d) = IVR d"
  "m_XTXA (set_ISR_bits m d) = m_XTXA d" "m_XRXA (set_ISR_bits m d) = m_XRXA d"
  "m_XTXB (set_ISR_bits m d) = m_XTXB d" "m_XRXB (set_ISR_bits m d) = m_XRXB d"
  "ip3clk (set_ISR_bits m d) = ip3clk d" "ip5clk (set_ISR_bits m d) = ip5clk d"
  "duart_timer (set_ISR_bits m d) = duart_timer d" "read_inport (set_ISR_bits m d) = read_inport d"
  "get_channel c (set_ISR_bits m d) = get_channel c d"
  by (simp_all add: set_ISR_bits_def get_channel_def)

lemma clear_ISR_bits_simps [simp]:
  "m_chanA (clear_ISR_bits m d) = m_chanA d" "m_chanB (clear_ISR_bits m d) = m_chanB d"
  "IMR (clear_ISR_bits m d) = IMR d" "OPCR (clear_ISR_bits m d) = OPCR d" "ACR (clear_ISR_bits m d) = ACR d"
  "half_period (clear_ISR_bits m d) = half_period d" "IPCR (clear_ISR_bits m d) = IPCR d"
  "IP_last_state (clear_ISR_bits m d) = IP_last_state d" "CTR (clear_ISR_bits m d) = CTR d"
  "m_clock (clear_ISR_bits m d) = m_clock d" "IVR (clear_ISR_bits m d) = IVR d"
  "m_XTXA (clear_ISR_bits m d) = m_XTXA d" "m_XRXA (clear_ISR_bits m d) = m_XRXA d"
  "m_XTXB (clear_ISR_bits m d) = m_XTXB d" "m_XRXB (clear_ISR_bits m d) = m_XRXB d"
  "ip3clk (clear_ISR_bits m d) = ip3clk d" "ip5clk (clear_ISR_bits m d) = ip5clk d"
  "duart_timer (clear_ISR_bits m d) = duart_timer d" "read_inport (clear_ISR_bits m d) = read_inport d"
  "get_channel c (clear_ISR_bits m d) = get_channel c d"
  by (simp_all add: clear_ISR_bits_def get_channel_def)

definition single_bit :: "u8 \<Rightarrow> bool" where
  "single_bit m \<longleftrightarrow> m = 1 \<or> m = 2 \<or> m = 4 \<or> m = 8 \<or> m = 16 \<or> m = 32 \<or> m = 64 \<or> m = 128"

lemma single_bits [simp]:
  "single_bit (txrdy_bit c)" "single_bit (rxrdy_bit c)" "single_bit (delta_break_bit c)"
  "single_bit 8" "single_bit 128"
  by (simp_all add: single_bit_def txrdy_bit_def rxrdy_bit_def delta_break_bit_def)

lemma ISR_set [simp]: "single_bit m \<Longrightarrow> ISR (set_ISR_bits m d) = ISR d OR m"
  by (cases "ISR d AND m = 0")
    (auto simp: set_ISR_bits_def single_bit_def mask_bits u8_eq_iff [of "ISR d"] bit_simps)

lemma ISR_clear [simp]: "single_bit m \<Longrightarrow> ISR (clear_ISR_bits m d) = ISR d AND NOT m"
  by (cases "ISR d AND m = 0")
    (auto simp: clear_ISR_bits_def single_bit_def mask_bits u8_eq_iff [of "ISR d"] bit_simps)

text \<open>Setting or clearing a status bit by a condition.\<close>

definition put_ISR :: "bool \<Rightarrow> u8 \<Rightarrow> duart \<Rightarrow> duart" where
  "put_ISR b m d = (if b then set_ISR_bits m d else clear_ISR_bits m d)"

lemma put_ISR_simps [simp]:
  "m_chanA (put_ISR b m d) = m_chanA d" "m_chanB (put_ISR b m d) = m_chanB d" "IMR (put_ISR b m d) = IMR d"
  "OPCR (put_ISR b m d) = OPCR d" "ACR (put_ISR b m d) = ACR d" "half_period (put_ISR b m d) = half_period d"
  "IPCR (put_ISR b m d) = IPCR d" "IP_last_state (put_ISR b m d) = IP_last_state d"
  "CTR (put_ISR b m d) = CTR d" "m_clock (put_ISR b m d) = m_clock d" "IVR (put_ISR b m d) = IVR d"
  "m_XTXA (put_ISR b m d) = m_XTXA d" "m_XRXA (put_ISR b m d) = m_XRXA d" "m_XTXB (put_ISR b m d) = m_XTXB d"
  "m_XRXB (put_ISR b m d) = m_XRXB d" "ip3clk (put_ISR b m d) = ip3clk d" "ip5clk (put_ISR b m d) = ip5clk d"
  "duart_timer (put_ISR b m d) = duart_timer d" "read_inport (put_ISR b m d) = read_inport d"
  "get_channel c (put_ISR b m d) = get_channel c d"
  by (simp_all add: put_ISR_def)

lemma ISR_put [simp]:
  "single_bit m \<Longrightarrow> ISR (put_ISR b m d) = (if b then ISR d OR m else ISR d AND NOT m)"
  by (simp add: put_ISR_def)

lemma irq_level_snoc [simp]:
  "irq_level (es @ [Write_irq b]) = b" "irq_level (es @ [Write_outport x]) = irq_level es"
  "irq_level (es @ [Write_tx c b]) = irq_level es"
  by (simp_all add: irq_level_def)

lemma update_irq_line_level:
  "irq_level (m_out d) = m_irq_state d \<Longrightarrow> irq_level (m_out (update_irq_line d)) = m_irq_state (update_irq_line d)"
  by (simp add: update_irq_line_def)

lemma update_interrupts_level [simp]:
  "irq_level (m_out d) = m_irq_state d \<Longrightarrow> irq_level (m_out (update_interrupts d)) = (ISR d AND IMR d \<noteq> 0)"
  using update_irq_line_level [of d]
  by (simp add: update_interrupts_def update_interrupts_base_def Let_def)

lemma irq_ok_set [simp]: "irq_ok d \<Longrightarrow> irq_ok (set_ISR_bits m d)"
  by (simp add: set_ISR_bits_def irq_ok_def)

lemma irq_ok_emit [simp]:
  "irq_ok (emit (Write_tx c b) d) = irq_ok d" "irq_ok (emit (Write_outport x) d) = irq_ok d"
  by (simp_all add: irq_ok_def)

lemma irq_ok_clear [simp]: "irq_ok d \<Longrightarrow> irq_ok (clear_ISR_bits m d)"
  by (simp add: clear_ISR_bits_def irq_ok_def)

lemma get_channel_upd [simp]:
  "get_channel c (upd_chan c f d) = f (get_channel c d)"
  "m_chanA (upd_chan c f d) = (if c = 0 then f (m_chanA d) else m_chanA d)"
  "m_chanB (upd_chan c f d) = (if c = 0 then m_chanB d else f (m_chanB d))"
  by (simp_all add: get_channel_def upd_chan_def)

lemma upd_chan_simps [simp]:
  "ISR (upd_chan c f d) = ISR d" "IMR (upd_chan c f d) = IMR d" "m_irq_state (upd_chan c f d) = m_irq_state d"
  "ACR (upd_chan c f d) = ACR d" "half_period (upd_chan c f d) = half_period d"
  "OPCR (upd_chan c f d) = OPCR d" "OPR (upd_chan c f d) = OPR d" "m_out (upd_chan c f d) = m_out d"
  "IPCR (upd_chan c f d) = IPCR d" "IP_last_state (upd_chan c f d) = IP_last_state d"
  "irq_ok (upd_chan c f d) = irq_ok d"
  by (simp_all add: upd_chan_def irq_ok_def)

section \<open>Updating the interrupts of a channel\<close>

lemma irq_ok_put [simp]: "irq_ok d \<Longrightarrow> irq_ok (put_ISR b m d)"
  by (simp add: put_ISR_def)

lemma chan_update_interrupts_eq:
  "chan_update_interrupts c d =
     put_ISR (rx_status (chan_update_mode (get_channel c d))) (rxrdy_bit c)
       (put_ISR (tx_status (chan_update_mode (get_channel c d))) (txrdy_bit c)
         (upd_chan c chan_update_mode d))"
proof -
  have tx: "(if SR (get_channel c d1) AND STATUS_TRANSMITTER_READY \<noteq> 0
       then set_ISR_bits (txrdy_bit c) d1 else clear_ISR_bits (txrdy_bit c) d1)
     = put_ISR (tx_status (get_channel c d1)) (txrdy_bit c) d1" for d1
    by (simp add: put_ISR_def tx_status_def mask_bits)
  show ?thesis
    unfolding chan_update_interrupts_def Let_def tx
    by (simp add: put_ISR_def [of True] put_ISR_def [of False] rx_status_def mask_bits)
qed

lemma chan_update_mode_ok [simp]: "chan_ok (chan_update_mode ch) = chan_ok ch"
  by (simp add: chan_update_mode_def chan_ok_def fifo_ok_def fifo_abs_def bit_simps)

lemma chan_update_interrupts_chans [simp]:
  "get_channel c (chan_update_interrupts c d) = chan_update_mode (get_channel c d)"
  "m_chanA (chan_update_interrupts c d) = (if c = 0 then chan_update_mode (m_chanA d) else m_chanA d)"
  "m_chanB (chan_update_interrupts c d) = (if c = 0 then m_chanB d else chan_update_mode (m_chanB d))"
  by (simp_all add: chan_update_interrupts_eq)

lemma and_c0_iff:
  "(w :: u8) AND 0xc0 = 0x40 \<longleftrightarrow> bit w 6 \<and> \<not> bit w 7" "w AND 0xc0 = 0xc0 \<longleftrightarrow> bit w 6 \<and> bit w 7"
  "w AND 0xc0 = 0x80 \<longleftrightarrow> \<not> bit w 6 \<and> bit w 7"
  by (auto simp: u8_eq_iff bit_simps)

lemma chan_update_interrupts_mirror: "isr_mirror c (chan_update_interrupts c d)"
  unfolding isr_mirror_def chan_update_interrupts_chans Let_def
  by (auto simp: chan_update_interrupts_eq bit_simps txrdy_bit_def rxrdy_bit_def single_bit_def
      tx_status_def rx_status_def chan_update_mode_def and_c0_iff)

lemma get_other [simp]:
  "get_channel (other c) (upd_chan c f d) = get_channel (other c) d"
  "get_channel (other c) (chan_update_interrupts c d) = get_channel (other c) d"
  by (auto simp: get_channel_def other_def upd_chan_def chan_update_interrupts_eq)

lemma chan_update_interrupts_other:
  assumes "isr_mirror (other c) d"
  shows "isr_mirror (other c) (chan_update_interrupts c d)"
  using assms unfolding isr_mirror_def get_other
  by (auto simp: chan_update_interrupts_eq bit_simps txrdy_bit_def rxrdy_bit_def single_bit_def other_def)

lemma irq_ok_chan_update [simp]: "irq_ok d \<Longrightarrow> irq_ok (chan_update_interrupts c d)"
  by (simp add: chan_update_interrupts_eq)

lemma inv_iff_parts: "duart_inv d \<longleftrightarrow> inv_but c d \<and> isr_mirror c d"
proof (cases "c = 0")
  case False
  then have "isr_mirror c d = isr_mirror 1 d" by (simp add: isr_mirror_def get_channel_def)
  with False show ?thesis by (auto simp: duart_inv_def inv_part_def other_def get_channel_def)
qed (auto simp: duart_inv_def inv_part_def other_def get_channel_def)

lemma inv_part_update: "inv_part mi ot ow c d \<Longrightarrow> inv_part mi ot ow c (chan_update_interrupts c d)"
  by (simp add: inv_part_def chan_update_interrupts_other)

lemma inv_but_update: "inv_but c d \<Longrightarrow> duart_inv (chan_update_interrupts c d)"
  by (simp add: inv_iff_parts [of _ c] inv_part_update chan_update_interrupts_mirror)

section \<open>Steps that keep the invariant\<close>

lemma inv_imp_but: "duart_inv d \<Longrightarrow> inv_but c d"
  by (simp add: inv_iff_parts [of _ c])

lemma inv_but_upd:
  assumes "inv_part mi ot ow c d" "ow \<Longrightarrow> chan_ok (get_channel c d) \<Longrightarrow> chan_ok (f (get_channel c d))"
  shows "inv_part mi ot ow c (upd_chan c f d)"
  using assms by (auto simp: inv_part_def isr_mirror_def)

text \<open>An update of a channel that leaves alone what the interrupts depend on.\<close>

lemma inv_upd_silent:
  assumes "duart_inv d" "chan_ok (get_channel c d) \<Longrightarrow> chan_ok (f (get_channel c d))"
    "SR (f (get_channel c d)) = SR (get_channel c d)" "MR1 (f (get_channel c d)) = MR1 (get_channel c d)"
    "MR2 (f (get_channel c d)) = MR2 (get_channel c d)"
  shows "duart_inv (upd_chan c f d)"
  using assms
  by (cases "c = 0")
    (simp_all add: duart_inv_def isr_mirror_def get_channel_def upd_chan_def irq_ok_def tx_status_def rx_status_def)

lemma inv_but_set_own:
  assumes "inv_part mi ot ow c d" "m = txrdy_bit c \<or> m = rxrdy_bit c \<or> m = delta_break_bit c"
  shows "inv_part mi ot ow c (put_ISR b m d)"
proof (cases "c = 0")
  case True
  then show ?thesis using assms(2)
    by (elim disjE) (use assms(1) in \<open>simp_all add: inv_part_def isr_mirror_def other_def bit_simps
      txrdy_bit_def rxrdy_bit_def delta_break_bit_def single_bit_def\<close>)
next
  case False
  then show ?thesis using assms(2)
    by (elim disjE) (use assms(1) in \<open>simp_all add: inv_part_def isr_mirror_def other_def bit_simps
      txrdy_bit_def rxrdy_bit_def delta_break_bit_def single_bit_def\<close>)
qed

lemma inv_put_other:
  assumes "duart_inv d" "m = 4 \<or> m = 64 \<or> m = 8 \<or> m = 128"
  shows "duart_inv (put_ISR b m d)"
  using assms(2)
  by (elim disjE) (use assms(1) in \<open>simp_all add: duart_inv_def isr_mirror_def get_channel_def bit_simps single_bit_def\<close>)

lemma put_ISR_True: "set_ISR_bits = put_ISR True" and put_ISR_False: "clear_ISR_bits = put_ISR False"
  by (simp_all add: put_ISR_def fun_eq_iff)

text \<open>Fields of the chip outside the invariant.\<close>

lemma inv_ext:
  assumes "duart_inv d" "ISR d' = ISR d" "IMR d' = IMR d" "m_irq_state d' = m_irq_state d"
    "m_chanA d' = m_chanA d" "m_chanB d' = m_chanB d" "irq_level (m_out d') = irq_level (m_out d)"
  shows "duart_inv d'"
  using assms by (simp add: duart_inv_def irq_ok_def isr_mirror_def get_channel_def)

lemma inv_but_emit [simp]: "inv_part mi ot ow c (emit (Write_tx c' b) d) = inv_part mi ot ow c d"
  by (simp add: inv_part_def isr_mirror_def)

lemma duart_inv_emit [simp]:
  "duart_inv (emit (Write_tx c b) d) = duart_inv d" "duart_inv (emit (Write_outport x) d) = duart_inv d"
  by (simp_all add: duart_inv_def isr_mirror_def)

section \<open>The channels\<close>

lemma bit_fifo_entry: "k < 8 \<Longrightarrow> bit (fifo_entry data errors) (8 + k) = bit errors k"
  by (auto simp: fifo_entry_def bit_simps bit_u8_ge)

lemma fifo_put_fields [simp]:
  "MR1 (fifo_put data errors ch) = MR1 ch" "MR2 (fifo_put data errors ch) = MR2 ch"
  "bit (SR (fifo_put data errors ch)) 0 = bit (SR ch) 0" "bit (SR (fifo_put data errors ch)) (Suc 0) = bit (SR ch) (Suc 0)"
  "rx_fifo_num (fifo_put data errors ch) = (if rx_fifo_num ch \<le> 3 then rx_fifo_num ch + 1 else rx_fifo_num ch)"
  by (auto simp: fifo_put_def Let_def bit_simps)

lemma overrun_put_set: "set (overrun_put n x xs) \<subseteq> insert x (set xs)"
  by (auto simp: overrun_put_def dest: in_set_butlastD)

lemma fifo_SR [simp]: "fifo_ok (ch\<lparr>SR := x\<rparr>) = fifo_ok ch" "fifo_abs (ch\<lparr>SR := x\<rparr>) = fifo_abs ch"
  by (simp_all add: fifo_ok_def fifo_abs_def)

lemma push_chan_ok:
  assumes "chan_ok ch" "\<forall>k<5. \<not> bit errors k"
  shows "chan_ok (rx_fifo_push_chan data errors ch)"
proof -
  let ?f = "fifo_put data errors ch"
  have f: "fifo_ok ?f" "\<forall>e\<in>set (fifo_abs ?f). \<forall>k<5. \<not> bit e (8 + k)"
    using assms overrun_put_set [of 4 "fifo_entry data errors" "fifo_abs ch"]
    by (auto simp: chan_ok_def bit_fifo_entry fifo_put_ok fifo_put_abs)
  have n: "rx_fifo_num ?f \<noteq> 0" "rx_fifo_num ch \<le> 4" "4 \<le> rx_fifo_num ?f \<Longrightarrow> bit (SR ch) (Suc 0)"
    using assms(1) by (auto simp: chan_ok_def fifo_ok_def split: if_splits)
  have e: "\<not> bit errors 0" "\<not> bit errors (Suc 0)" using assms(2) by auto
  show ?thesis
    using f n e assms(1) by (auto simp: rx_fifo_push_chan_def Let_def chan_ok_def bit_simps)
qed

lemma fifo_get_fields [simp]:
  "MR1 (snd (fifo_get ch)) = MR1 ch" "MR2 (snd (fifo_get ch)) = MR2 ch" "SR (snd (fifo_get ch)) = SR ch"
  "rx_fifo (snd (fifo_get ch)) = rx_fifo ch" "rx_fifo_num (snd (fifo_get ch)) = rx_fifo_num ch - 1"
  "fst (fifo_get ch) = ucast (rx_fifo ch ! rx_fifo_read_ptr ch)"
  by (simp_all add: fifo_get_def Let_def)

lemma read_chan_ok:
  assumes "chan_ok ch" "rx_fifo_num ch \<noteq> 0"
  shows "chan_ok (snd (read_rx_fifo_chan ch))"
proof -
  let ?g = "snd (fifo_get ch)"
  have q: "fifo_abs ch = rx_fifo ch ! rx_fifo_read_ptr ch # fifo_abs ?g" "fifo_ok ?g"
    using assms fifo_get_queue [of ch] by (simp_all add: chan_ok_def)
  then have ok: "fifo_ok ?g" "\<forall>e\<in>set (fifo_abs ?g). \<forall>k<5. \<not> bit e (8 + k)" "rx_fifo_num ch \<le> 4"
    using assms by (auto simp: chan_ok_def fifo_ok_def)
  have e: "\<not> bit (rx_fifo ch ! rx_fifo_read_ptr ?g) 8" "\<not> bit (rx_fifo ch ! rx_fifo_read_ptr ?g) 9"
    if "rx_fifo_num ?g \<noteq> 0"
  proof -
    have "rx_fifo ch ! rx_fifo_read_ptr ?g \<in> set (fifo_abs ?g)"
      using fifo_get_queue [OF q(2) that] by simp
    then have "\<forall>k<5. \<not> bit (rx_fifo ch ! rx_fifo_read_ptr ?g) (8 + k)" using ok(2) by blast
    then show "\<not> bit (rx_fifo ch ! rx_fifo_read_ptr ?g) 8" "\<not> bit (rx_fifo ch ! rx_fifo_read_ptr ?g) 9"
      by (auto dest: spec [of _ 0] spec [of _ 1])
  qed
  show ?thesis
    using assms ok e by (auto simp: read_rx_fifo_chan_def case_prod_beta Let_def chan_ok_def bit_simps)
qed

lemma rx_fifo_push_inv:
  "inv_but c d \<Longrightarrow> \<forall>k<5. \<not> bit errors k \<Longrightarrow> duart_inv (rx_fifo_push c data errors d)"
  unfolding rx_fifo_push_def by (intro inv_but_update inv_but_upd push_chan_ok)

lemma rx_fifo_push_part:
  "inv_part mi ot ow c d \<Longrightarrow> \<forall>k<5. \<not> bit errors k \<Longrightarrow> inv_part mi ot ow c (rx_fifo_push c data errors d)"
  unfolding rx_fifo_push_def by (intro inv_part_update inv_but_upd push_chan_ok)

lemma read_rx_fifo_inv: "duart_inv d \<Longrightarrow> duart_inv (snd (read_rx_fifo c d))"
proof (cases "rx_fifo_num (get_channel c d) = 0")
  case True
  assume "duart_inv d"
  with True show ?thesis by (simp add: read_rx_fifo_def inv_but_update inv_imp_but)
next
  case False
  assume "duart_inv d"
  then have "inv_but c (upd_chan c (\<lambda>_. snd (read_rx_fifo_chan (get_channel c d))) d)"
    using False by (intro inv_but_upd read_chan_ok inv_imp_but)
  then show ?thesis using False by (simp add: read_rx_fifo_def case_prod_beta Let_def inv_but_update)
qed

text \<open>Updates of a channel's serial interface leave the registers of the channel alone.\<close>

definition chan_regs :: "duart_channel \<Rightarrow> u8 \<times> u8 \<times> u8 \<times> u16 list \<times> nat \<times> nat \<times> nat" where
  "chan_regs ch = (SR ch, MR1 ch, MR2 ch, rx_fifo ch, rx_fifo_read_ptr ch, rx_fifo_write_ptr ch, rx_fifo_num ch)"

lemma chan_regs_ok: "chan_regs ch' = chan_regs ch \<Longrightarrow> chan_ok ch' = chan_ok ch"
  by (simp add: chan_regs_def chan_ok_def fifo_ok_def fifo_abs_def)

lemma chan_regs_ext [simp]:
  "chan_regs (ch\<lparr>m_tra_clock := t\<rparr>) = chan_regs ch" "chan_regs (ch\<lparr>m_rcv_clock := t\<rparr>) = chan_regs ch"
  "chan_regs (ch\<lparr>m_tra_clock_state := b\<rparr>) = chan_regs ch" "chan_regs (ch\<lparr>m_rcv_clock_state := b\<rparr>) = chan_regs ch"
  "chan_regs (ch\<lparr>m_rx_prescaler := n\<rparr>) = chan_regs ch" "chan_regs (ch\<lparr>m_tx_prescaler := n\<rparr>) = chan_regs ch"
  "chan_regs (ch\<lparr>m_bits_transmitted := n\<rparr>) = chan_regs ch" "chan_regs (ch\<lparr>MR_ptr := n\<rparr>) = chan_regs ch"
  "chan_regs (ch\<lparr>m_tx_break := b\<rparr>) = chan_regs ch" "chan_regs (ch\<lparr>rx_enabled := b\<rparr>) = chan_regs ch"
  "chan_regs (ch\<lparr>CR := x\<rparr>) = chan_regs ch" "chan_regs (ch\<lparr>CSR := x\<rparr>) = chan_regs ch"
  "chan_regs (ch\<lparr>m_tx_data_in_buffer := b\<rparr>) = chan_regs ch" "chan_regs (ch\<lparr>m_tx_enabled := b\<rparr>) = chan_regs ch"
  "chan_regs (ch\<lparr>m_tx_data := x\<rparr>) = chan_regs ch"
  "chan_regs (ch\<lparr>tx_baud_rate := i\<rparr>) = chan_regs ch" "chan_regs (ch\<lparr>rx_baud_rate := i\<rparr>) = chan_regs ch"
  by (simp_all add: chan_regs_def)

lemma chan_regs_serial [simp]:
  "chan_regs (receive_register_reset ch) = chan_regs ch"
  "chan_regs (transmit_register_reset ch) = chan_regs ch"
  "chan_regs (transmit_register_add_bit b ch) = chan_regs ch"
  "chan_regs (snd (transmit_register_get_data_bit ch)) = chan_regs ch"
  by (simp_all add: chan_regs_def receive_register_reset_def transmit_register_reset_def
      transmit_register_add_bit_def transmit_register_get_data_bit_def Let_def)

lemma chan_regs_update_bit [simp]: "chan_regs (receive_register_update_bit b ch) = chan_regs ch"
  by (simp add: chan_regs_def receive_register_update_bit_def Let_def)

lemma chan_regs_extract [simp]: "chan_regs (receive_register_extract ch) = chan_regs ch"
  by (simp add: chan_regs_def receive_register_extract_def receive_register_reset_def Let_def)

lemma chan_regs_rx_w [simp]: "chan_regs (rx_w now b ch) = chan_regs ch"
proof -
  have l: "chan_regs (ch\<lparr>m_rcv_line := b\<rparr>) = chan_regs ch" by (simp add: chan_regs_def)
  have c: "chan_regs (x\<lparr>m_rcv_bit_count_received := n\<rparr>) = chan_regs x" for x n by (simp add: chan_regs_def)
  show ?thesis by (simp add: rx_w_def Let_def l c)
qed

lemma chan_regs_iter [simp]:
  "chan_regs ((transmit_register_add_bit b ^^ n) ch) = chan_regs ch"
  "chan_regs (add_data_bits n w ch) = chan_regs ch"
proof -
  show "chan_regs ((transmit_register_add_bit b ^^ n) ch) = chan_regs ch" by (induction n) simp_all
  show "chan_regs (add_data_bits n w ch) = chan_regs ch" by (induction n arbitrary: w ch) simp_all
qed

lemma chan_regs_setup [simp]: "chan_regs (transmit_register_setup now data ch) = chan_regs ch"
proof -
  have t: "chan_regs (x\<lparr>m_tra_bit_count_transmitted := 0, m_tra_bit_count := 0, m_tra_flags := f\<rparr>) = chan_regs x"
    for x f by (simp add: chan_regs_def)
  show ?thesis by (simp add: transmit_register_setup_def Let_def t)
qed

lemma chan_regs_rates [simp]:
  "chan_regs (set_rcv_rate_baud now i ch) = chan_regs ch" "chan_regs (set_tra_rate_baud now i ch) = chan_regs ch"
  by (simp_all add: set_rcv_rate_baud_def set_tra_rate_baud_def set_rcv_rate_def set_tra_rate_def Let_def
      chan_regs_def receive_register_reset_def transmit_register_reset_def)

lemma chan_regs_frame [simp]: "chan_regs (set_data_frame st wl p sb ch) = chan_regs ch"
  by (simp add: set_data_frame_def Let_def chan_regs_def receive_register_reset_def split: prod.splits)

lemma inv_upd_regs:
  "duart_inv d \<Longrightarrow> chan_regs (f (get_channel c d)) = chan_regs (get_channel c d) \<Longrightarrow> duart_inv (upd_chan c f d)"
  using chan_regs_ok [of "f (get_channel c d)" "get_channel c d"]
  by (intro inv_upd_silent) (simp_all add: chan_regs_def)

lemma inv_but_upd_regs:
  "inv_part mi ot ow c d \<Longrightarrow> chan_regs (f (get_channel c d)) = chan_regs (get_channel c d) \<Longrightarrow>
     inv_part mi ot ow c (upd_chan c f d)"
  using chan_regs_ok [of "f (get_channel c d)" "get_channel c d"] by (intro inv_but_upd) simp_all

end
