(* ===== verification/Duart_Reach.thy ===== *)
theory Duart_Reach
  imports Duart_Inv
begin

unbundle bit_operations_syntax

section \<open>Channel operations\<close>

lemma chan_ok_SR:
  "chan_ok ch \<Longrightarrow> (bit x 0 \<Longrightarrow> bit (SR ch) 0) \<Longrightarrow> (bit (SR ch) 1 \<Longrightarrow> bit x 1) \<Longrightarrow> chan_ok (ch\<lparr>SR := x\<rparr>)"
  by (auto simp: chan_ok_def)

lemma chan_ok_set_tx [simp]:
  "chan_ok ch \<Longrightarrow> chan_ok (ch\<lparr>SR := SR ch OR 4\<rparr>)" "chan_ok ch \<Longrightarrow> chan_ok (ch\<lparr>SR := SR ch OR 8\<rparr>)"
  "chan_ok ch \<Longrightarrow> chan_ok (ch\<lparr>SR := SR ch OR 12\<rparr>)" "chan_ok ch \<Longrightarrow> chan_ok (ch\<lparr>SR := SR ch AND - 13\<rparr>)"
  by (erule chan_ok_SR; simp add: bit_simps)+

lemma rcv_errors_high: "k < 5 \<Longrightarrow> \<not> bit (rcv_errors ch) k"
proof -
  assume "k < 5"
  then have "k = 0 \<or> k = 1 \<or> k = 2 \<or> k = 3 \<or> k = 4" by auto
  then show ?thesis by (elim disjE) (simp_all add: rcv_errors_def bit_simps)
qed

lemma rcv_complete_inv:
  assumes "duart_inv d"
  shows "duart_inv (rcv_complete c d)"
proof -
  have "duart_inv (upd_chan c receive_register_extract d)"
    using assms by (rule inv_upd_regs) simp
  then show ?thesis
    by (auto simp: rcv_complete_def Let_def rcv_errors_high intro!: rx_fifo_push_inv inv_imp_but)
qed

lemma tra_complete_inv:
  assumes "duart_inv d"
  shows "duart_inv (tra_complete now c d)"
proof -
  let ?f = "\<lambda>ch. (transmit_register_setup now (m_tx_data ch) ch)\<lparr>m_bits_transmitted := 0, m_tx_data_in_buffer := False\<rparr>"
  have "chan_ok (?f ch) = chan_ok ch" for ch by (rule chan_regs_ok) simp
  then have "chan_ok ch \<Longrightarrow> chan_ok (set_SR STATUS_TRANSMITTER_READY (?f ch))" for ch
    using chan_ok_set_tx(1) [of "?f ch"] by simp
  then have "inv_but c (upd_chan c (\<lambda>ch. set_SR STATUS_TRANSMITTER_READY (?f ch)) d)"
    by (intro inv_but_upd [OF inv_imp_but [OF assms]])
  moreover have "inv_but c (upd_chan c (set_SR STATUS_TRANSMITTER_EMPTY) d)"
    by (rule inv_but_upd [OF inv_imp_but [OF assms]]) simp
  ultimately show ?thesis by (simp add: tra_complete_def inv_but_update)
qed

lemma tra_callback_inv:
  assumes "duart_inv d"
  shows "duart_inv (tra_callback now c d)"
proof -
  obtain b ch1 where g: "transmit_register_get_data_bit (get_channel c d) = (b, ch1)" by fastforce
  then have r: "chan_regs ch1 = chan_regs (get_channel c d)"
    using chan_regs_serial(4) [of "get_channel c d"] by simp
  define d1 where "d1 = (if MR2 ch1 AND 0xc0 \<noteq> 0x80
      then emit (Write_tx c b) (upd_chan c (\<lambda>_. ch1) d) else upd_chan c (\<lambda>_. rx_w now b ch1) d)"
  have i1: "duart_inv d1"
    unfolding d1_def by (auto intro!: inv_upd_regs assms simp: r)
  define d2 where "d2 = upd_chan c (\<lambda>ch. ch\<lparr>m_bits_transmitted := (m_bits_transmitted ch + 1) mod 256\<rparr>) d1"
  have i2: "duart_inv d2" unfolding d2_def by (rule inv_upd_regs [OF i1]) simp
  have "inv_but c (upd_chan c (set_SR STATUS_TRANSMITTER_READY) d2)"
    by (rule inv_but_upd [OF inv_imp_but [OF i2]]) simp
  then show ?thesis
    using i2 unfolding tra_callback_def g Let_def prod.case d1_def [symmetric] d2_def [symmetric]
    by (simp add: inv_but_update)
qed

lemma chan_tx_clock_inv:
  assumes "duart_inv d"
  shows "duart_inv (chan_tx_clock_w now c state d)"
proof -
  have e: "duart_inv (tra_edge (get_channel c) (upd_chan c) (tra_callback now c) (tra_complete now c) now d)"
    if "duart_inv d" for d
    using that tra_callback_inv [of d now c]
    by (auto simp: tra_edge_def Let_def intro!: inv_upd_regs tra_complete_inv)
  have "duart_inv (upd_chan c (\<lambda>s. s\<lparr>m_tra_clock_state := state\<rparr>) d)"
    by (rule inv_upd_regs [OF assms]) simp
  then show ?thesis using assms e by (cases state) (simp_all add: tx_clock_w_def Let_def)
qed

lemma chan_rx_clock_inv:
  assumes "duart_inv d"
  shows "duart_inv (chan_rx_clock_w now c state d)"
proof -
  have e: "duart_inv (rcv_edge (get_channel c) (upd_chan c) (rcv_complete c) now d)"
    if "duart_inv d" for d
    using inv_upd_regs [OF that, of "\<lambda>s. receive_register_update_bit (m_rcv_line s) s" c]
    by (auto simp: rcv_edge_def Let_def intro!: inv_upd_regs rcv_complete_inv)
  have "duart_inv (upd_chan c (\<lambda>s. s\<lparr>m_rcv_clock_state := state\<rparr>) d)"
    by (rule inv_upd_regs [OF assms]) simp
  then show ?thesis using assms e by (cases state) (simp_all add: rx_clock_w_def Let_def)
qed

lemma tx_16x_clock_inv: "duart_inv d \<Longrightarrow> duart_inv (tx_16x_clock_w now c state d)"
  by (auto simp: tx_16x_clock_w_def Let_def intro!: chan_tx_clock_inv inv_upd_regs)

lemma rx_16x_clock_inv: "duart_inv d \<Longrightarrow> duart_inv (rx_16x_clock_w now c state d)"
  by (auto simp: rx_16x_clock_w_def Let_def intro!: chan_rx_clock_inv inv_upd_regs)

lemma recalc_framing_regs [simp]: "chan_regs (recalc_framing ch) = chan_regs ch"
  by (simp add: recalc_framing_def)

lemma write_MR_inv: "duart_inv d \<Longrightarrow> duart_inv (write_MR c data d)"
proof -
  assume "duart_inv d"
  moreover have "chan_ok (recalc_framing (if MR_ptr ch = 0 then ch\<lparr>MR1 := data, MR_ptr := 1\<rparr> else ch\<lparr>MR2 := data\<rparr>)) = chan_ok ch"
    for ch by (subst chan_regs_ok [OF recalc_framing_regs]) (simp add: chan_ok_def fifo_ok_def fifo_abs_def)
  ultimately show ?thesis
    unfolding write_MR_def by (intro inv_but_update inv_but_upd inv_imp_but) simp_all
qed

lemma write_CSR_inv: "duart_inv d \<Longrightarrow> duart_inv (write_CSR now c data d)"
  by (auto simp: write_CSR_def Let_def intro!: inv_upd_regs)

lemma write_TX_inv: "duart_inv d \<Longrightarrow> duart_inv (write_TX now c data d)"
proof -
  assume i: "duart_inv d"
  let ?f = "\<lambda>ch. let ch1 = clear_SR (STATUS_TRANSMITTER_READY OR STATUS_TRANSMITTER_EMPTY) ch
                in if \<not> is_transmit_register_empty ch1
                   then ch1\<lparr>m_tx_data := data, m_tx_data_in_buffer := True\<rparr>
                   else (transmit_register_setup now data ch1)\<lparr>m_bits_transmitted := 0\<rparr>"
  have "chan_ok (?f ch) = chan_ok (clear_SR (STATUS_TRANSMITTER_READY OR STATUS_TRANSMITTER_EMPTY) ch)" for ch
    by (rule chan_regs_ok) (simp add: Let_def)
  then have "inv_but c (upd_chan c ?f d)"
    by (intro inv_but_upd [OF inv_imp_but [OF i]]) simp
  then show ?thesis using i by (simp add: write_TX_def inv_but_update)
qed

lemma upd_chan_ok_but:
  "inv_part mi ot ow c d \<Longrightarrow> (\<And>ch. chan_ok ch \<Longrightarrow> chan_ok (f ch)) \<Longrightarrow> inv_part mi ot ow c (upd_chan c f d)"
  by (rule inv_but_upd)

lemma reset_receiver_ok:
  assumes "chan_ok ch"
  shows "chan_ok (reset_receiver ch)"
proof -
  let ?c = "(clear_SR STATUS_OVERRUN_ERROR (clear_SR SR_RX_ERRORS (clear_SR STATUS_RECEIVER_READY ch)))
          \<lparr>rx_enabled := False, rx_fifo_read_ptr := 0, rx_fifo_write_ptr := 0, rx_fifo_num := 0\<rparr>"
  have "chan_ok (reset_receiver ch) = chan_ok ?c"
    unfolding reset_receiver_def by (rule chan_regs_ok) simp
  then show ?thesis using assms by (simp add: chan_ok_def fifo_ok_def fifo_abs_def bit_simps)
qed

lemma bit_0x80: "bit (0x80 :: u8) k \<longleftrightarrow> k = 7" "bit (0x80 :: int) k \<longleftrightarrow> k = 7"
proof -
  have "(0x80 :: u8) = push_bit 7 1" "(0x80 :: int) = push_bit 7 1" by simp_all
  then show "bit (0x80 :: u8) k \<longleftrightarrow> k = 7" "bit (0x80 :: int) k \<longleftrightarrow> k = 7"
    by (simp_all only: bit_push_bit_iff) (auto simp: bit_simps)
qed

lemma CR_command_but:
  assumes "inv_part mi ot ow c d"
  shows "inv_part mi ot ow c (CR_command c data d)"
proof -
  have t: "inv_part mi ot ow c (reset_transmitter c d)"
    unfolding reset_transmitter_def Let_def put_ISR_False
    by (intro inv_but_upd_regs inv_but_set_own)
      (use assms in \<open>auto intro!: upd_chan_ok_but\<close>)
  have b: "inv_part mi ot ow c (upd_chan c (\<lambda>ch. ch\<lparr>m_tx_break := v\<rparr>) d)" for v
    by (rule inv_but_upd_regs [OF assms]) simp
  have "inv_part mi ot ow c (rx_fifo_push c 0 STATUS_RECEIVED_BREAK (set_ISR_bits (delta_break_bit c)
      (upd_chan c (\<lambda>ch. ch\<lparr>m_tx_break := True\<rparr>) d)))"
    unfolding put_ISR_True
    by (rule rx_fifo_push_part, rule inv_but_set_own [OF b]) (auto simp: bit_0x80)
  then have s: "inv_part mi ot ow c (start_break c d)" using assms b [of True] by (simp add: start_break_def Let_def)
  have "inv_part mi ot ow c (set_ISR_bits (delta_break_bit c) (upd_chan c (\<lambda>ch. ch\<lparr>m_tx_break := False\<rparr>) d))"
    unfolding put_ISR_True by (intro inv_but_set_own b) simp
  then have p: "inv_part mi ot ow c (stop_break c d)" using assms b [of False] by (simp add: stop_break_def Let_def)
  have e: "inv_part mi ot ow c (upd_chan c (clear_SR (SR_RX_ERRORS OR STATUS_OVERRUN_ERROR)) d)"
    by (rule upd_chan_ok_but [OF assms]) (auto intro!: chan_ok_SR simp: bit_simps)
  have "inv_part mi ot ow c (clear_ISR_bits (delta_break_bit c) d)"
    unfolding put_ISR_False by (intro inv_but_set_own assms) simp
  moreover have "inv_part mi ot ow c (upd_chan c (\<lambda>ch. ch\<lparr>MR_ptr := 0\<rparr>) d)"
    by (rule inv_but_upd_regs [OF assms]) simp
  moreover have "inv_part mi ot ow c (upd_chan c reset_receiver d)"
    by (rule upd_chan_ok_but [OF assms reset_receiver_ok])
  ultimately show ?thesis using assms t s p e by (simp add: CR_command_def Let_def)
qed

lemma CR_enable_rx_but:
  assumes "inv_part mi ot ow c d"
  shows "inv_part mi ot ow c (CR_enable_rx c data d)"
proof -
  have en: "inv_part mi ot ow c (upd_chan c (\<lambda>ch. ch\<lparr>rx_enabled := True\<rparr>) d)"
    by (rule inv_but_upd_regs [OF assms]) simp
  have "chan_ok (clear_SR STATUS_RECEIVER_READY (ch\<lparr>rx_enabled := False\<rparr>))" if "chan_ok ch" for ch
    using that by (simp add: chan_ok_def fifo_ok_def fifo_abs_def bit_simps)
  then have "inv_part mi ot ow c (upd_chan c (\<lambda>ch. clear_SR STATUS_RECEIVER_READY (ch\<lparr>rx_enabled := False\<rparr>)) d')"
    if "inv_part mi ot ow c d'" for d' by (rule upd_chan_ok_but [OF that])
  then show ?thesis using assms en by (simp add: CR_enable_rx_def Let_def)
qed

lemma CR_enable_tx_but:
  assumes "inv_part mi ot ow c d"
  shows "inv_part mi ot ow c (CR_enable_tx c data d)"
proof -
  let ?on = "\<lambda>ch. (set_SR (STATUS_TRANSMITTER_READY OR STATUS_TRANSMITTER_EMPTY) ch)
      \<lparr>m_tx_data_in_buffer := False, m_tx_enabled := True\<rparr>"
  let ?off = "\<lambda>ch. (clear_SR (STATUS_TRANSMITTER_READY OR STATUS_TRANSMITTER_EMPTY) ch)
      \<lparr>m_tx_data_in_buffer := False, m_tx_enabled := False\<rparr>"
  have "chan_ok (?on ch)" "chan_ok (?off ch)" if "chan_ok ch" for ch
    using that by (simp_all add: chan_ok_def fifo_ok_def fifo_abs_def bit_simps)
  then have "inv_part mi ot ow c (upd_chan c ?on d')" "inv_part mi ot ow c (upd_chan c ?off d')" if "inv_part mi ot ow c d'" for d'
    using that by (auto intro: upd_chan_ok_but)
  then have "inv_part mi ot ow c (set_ISR_bits (txrdy_bit c) (upd_chan c ?on d'))"
    "inv_part mi ot ow c (clear_ISR_bits (txrdy_bit c) (upd_chan c ?off d'))" if "inv_part mi ot ow c d'" for d'
    using that unfolding put_ISR_True put_ISR_False by (auto intro: inv_but_set_own)
  then show ?thesis using assms by (simp add: CR_enable_tx_def Let_def)
qed

lemma write_CR_part: "inv_part mi ot ow c d \<Longrightarrow> inv_part mi ot ow c (write_CR c data d)"
  unfolding write_CR_def
  by (rule inv_but_upd_regs) (auto intro!: inv_part_update CR_enable_tx_but CR_enable_rx_but CR_command_but)

lemma write_CR_mirror: "isr_mirror c (write_CR c data d)"
  using chan_update_interrupts_mirror [of c "CR_enable_tx c data (CR_enable_rx c data (CR_command c data d))"]
  by (simp add: write_CR_def isr_mirror_def tx_status_def rx_status_def)

lemma write_CR_but: "inv_but c d \<Longrightarrow> duart_inv (write_CR c data d)"
  by (simp add: inv_iff_parts [of _ c] write_CR_part write_CR_mirror)

lemma write_chan_reg_inv: "duart_inv d \<Longrightarrow> duart_inv (write_chan_reg now c reg data d)"
  by (simp add: write_chan_reg_def write_MR_inv write_CSR_inv write_CR_but inv_imp_but write_TX_inv)

lemma read_chan_reg_inv: "duart_inv d \<Longrightarrow> duart_inv (snd (read_chan_reg c reg d))"
  by (auto simp: read_chan_reg_def Let_def read_rx_fifo_inv intro!: inv_upd_regs)

lemma baud_updated_inv: "duart_inv d \<Longrightarrow> duart_inv (baud_updated now c d)"
  by (simp add: baud_updated_def write_chan_reg_inv)

section \<open>Operations of the chip\<close>

lemma timer_drive_inv: "duart_inv d \<Longrightarrow> duart_inv (timer_drive_chan now c d)"
  by (simp add: timer_drive_chan_def Let_def tx_16x_clock_inv rx_16x_clock_inv)

lemma write_outport_inv [simp]: "duart_inv (write_outport d) = duart_inv d"
  by (simp add: write_outport_def)

lemma start_ct_inv [simp]: "duart_inv (start_ct now n d) = duart_inv d"
  by (auto simp: start_ct_def elim!: inv_ext)

lemma inv_fields [simp]:
  "duart_inv (d\<lparr>half_period := x\<rparr>) = duart_inv d" "duart_inv (d\<lparr>OPR := x\<rparr>) = duart_inv d"
  "duart_inv (d\<lparr>ACR := x\<rparr>) = duart_inv d" "duart_inv (d\<lparr>IPCR := x\<rparr>) = duart_inv d"
  "duart_inv (d\<lparr>IP_last_state := x\<rparr>) = duart_inv d" "duart_inv (d\<lparr>CTR := y\<rparr>) = duart_inv d"
  "duart_inv (d\<lparr>OPCR := x\<rparr>) = duart_inv d" "duart_inv (d\<lparr>IVR := x\<rparr>) = duart_inv d"
  "duart_inv (d\<lparr>duart_timer := t\<rparr>) = duart_inv d" "duart_inv (d\<lparr>m_read_vector := b\<rparr>) = duart_inv d"
  "duart_inv (d\<lparr>m_XTXA := b\<rparr>) = duart_inv d" "duart_inv (d\<lparr>m_XRXA := b\<rparr>) = duart_inv d"
  "duart_inv (d\<lparr>m_XTXB := b\<rparr>) = duart_inv d" "duart_inv (d\<lparr>m_XRXB := b\<rparr>) = duart_inv d"
  by (auto elim!: inv_ext)

lemma inv_set_line [simp]:
  "duart_inv d \<Longrightarrow> duart_inv (set_ISR_bits 8 d)" "duart_inv d \<Longrightarrow> duart_inv (set_ISR_bits 128 d)"
  "duart_inv d \<Longrightarrow> duart_inv (clear_ISR_bits 8 d)" "duart_inv d \<Longrightarrow> duart_inv (clear_ISR_bits 128 d)"
  unfolding put_ISR_True put_ISR_False by (simp_all add: inv_put_other)

lemma duart_timer_callback_inv: "duart_inv d \<Longrightarrow> duart_inv (duart_timer_callback now d)"
  by (simp add: duart_timer_callback_def Let_def timer_drive_inv)

lemma ip_change_inv: "duart_inv d \<Longrightarrow> duart_inv (ip_change_w i state d)"
  by (simp add: ip_change_w_def Let_def)

lemma read_base_inv: "duart_inv d \<Longrightarrow> duart_inv (snd (read_base now offset d))"
  by (simp add: read_base_def Let_def read_chan_reg_inv)

lemma duart_read_inv: "duart_inv d \<Longrightarrow> duart_inv (snd (duart_read now offset d))"
  using read_base_inv [of d now offset]
  by (auto simp: duart_read_def read_mc68681_def Let_def case_prod_beta)

lemma write_ACR_inv: "duart_inv d \<Longrightarrow> duart_inv (write_ACR now data d)"
  by (simp add: write_ACR_def Let_def inv_but_update inv_imp_but baud_updated_inv)

lemma write_IMR_inv: "duart_inv d \<Longrightarrow> duart_inv (update_interrupts (d\<lparr>IMR := data\<rparr>))"
  by (simp add: duart_inv_def irq_ok_def isr_mirror_def get_channel_def)

lemma write_base_inv: "duart_inv d \<Longrightarrow> duart_inv (write_base now offset data d)"
  by (simp add: write_base_def Let_def write_chan_reg_inv write_ACR_inv write_IMR_inv)

lemma set_extend_inv [simp]: "duart_inv (set_extend c rx v d) = duart_inv d"
  by (simp add: set_extend_def)

lemma duart_write_inv:
  assumes "duart_inv d"
  shows "duart_inv (duart_write now offset data d)"
proof -
  have "duart_inv (snd (extended_command now c data d))" for c
    using assms by (simp add: extended_command_def Let_def baud_updated_inv)
  moreover have "duart_inv (write_mc68681 now offset x d')" if "duart_inv d'" for x d'
    using that by (simp add: write_mc68681_def write_base_inv)
  ultimately show ?thesis using assms by (simp add: duart_write_def case_prod_beta)
qed

section \<open>Reset and reachability\<close>

text \<open>What an operation of one channel leaves alone of the other.\<close>

lemma other_set_ISR [simp]:
  "get_channel (other c) (emit e d) = get_channel (other c) d"
  "get_channel (other c) (rx_fifo_push c data errors d) = get_channel (other c) d"
  by (simp_all add: rx_fifo_push_def)

lemma write_CR_other [simp]: "get_channel (other c) (write_CR c data d) = get_channel (other c) d"
proof -
  have "get_channel (other c) (CR_command c data d') = get_channel (other c) d'" for d'
    by (simp add: CR_command_def reset_transmitter_def start_break_def stop_break_def Let_def)
  moreover have "get_channel (other c) (CR_enable_rx c data d') = get_channel (other c) d'"
    "get_channel (other c) (CR_enable_tx c data d') = get_channel (other c) d'" for d'
    by (simp_all add: CR_enable_rx_def CR_enable_tx_def Let_def)
  ultimately show ?thesis by (simp add: write_CR_def)
qed

lemma BITS_cmd: "BITS (0x10 :: u8) 4 3 = 1" "BITS (0x20 :: u8) 4 3 = 2"
  by (simp_all add: BITS_def mask_eq_exp_minus_1 drop_bit_eq_div)

lemma reset_MR_array: "rx_fifo (get_channel c (write_CR c 0x10 d)) = rx_fifo (get_channel c d)"
  by (simp add: write_CR_def CR_command_def CR_enable_rx_def CR_enable_tx_def BITS_cmd Let_def mask_bits bit_simps
      chan_update_mode_def)

lemma reset_receiver_array: "length (rx_fifo ch) = 4 \<Longrightarrow> chan_ok (reset_receiver ch)"
  by (simp add: chan_ok_def fifo_ok_def fifo_abs_def reset_receiver_def receive_register_reset_def Let_def bit_simps)

lemma chan_reset_part:
  assumes "inv_part mi ot False c d" "length (rx_fifo (get_channel c d)) = 4"
  shows "inv_part mi ot True c (chan_reset now c d)" "isr_mirror c (chan_reset now c d)"
proof -
  define d1 where "d1 = write_CR c 0x10 d"
  have "inv_part mi ot False c d1" unfolding d1_def by (rule write_CR_part [OF assms(1)])
  moreover have "chan_ok (reset_receiver (get_channel c d1))"
    using assms(2) by (intro reset_receiver_array) (simp add: d1_def reset_MR_array)
  ultimately have "inv_part mi ot True c (upd_chan c reset_receiver d1)"
    by (auto simp: inv_part_def isr_mirror_def)
  then have "inv_part mi ot True c (CR_command c 0x20 d1)" by (simp add: CR_command_def BITS_cmd)
  then have d2: "inv_part mi ot True c (write_CR c 0x20 d1)"
    unfolding write_CR_def
    by (intro inv_but_upd_regs inv_part_update CR_enable_tx_but CR_enable_rx_but) simp_all
  let ?e = "write_CR c 0x40 (write_CR c 0x30 (write_CR c 0x20 d1))"
  let ?f = "\<lambda>ch. (set_data_frame 1 8 PARITY_NONE STOP_BITS_1 ch)
         \<lparr>tx_baud_rate := 0, rx_baud_rate := 0, CSR := 0, m_tx_break := False\<rparr>"
  have r: "chan_regs (?f ch) = chan_regs ch" for ch by simp
  have e: "chan_reset now c d = upd_chan c ?f ?e" by (simp add: chan_reset_def d1_def)
  show "inv_part mi ot True c (chan_reset now c d)"
    unfolding e by (intro inv_but_upd_regs write_CR_part d2 r)
  have "isr_mirror c ?e" by (rule write_CR_mirror)
  then show "isr_mirror c (chan_reset now c d)"
    using r [of "get_channel c ?e"] unfolding e by (simp add: isr_mirror_def tx_status_def rx_status_def chan_regs_def)
qed

text \<open>A reset needs only arrays of the right size: it discards the FIFOs and all status.\<close>

definition arrays_ok :: "duart \<Rightarrow> bool" where
  "arrays_ok d \<longleftrightarrow> length (rx_fifo (m_chanA d)) = 4 \<and> length (rx_fifo (m_chanB d)) = 4"

lemma duart_reset_inv:
  assumes "arrays_ok d"
  shows "duart_inv (duart_reset now d)"
proof -
  define d0 where "d0 = device_reset_xr68c681 d"
  have i0: "irq_ok d0" "m_chanA d0 = m_chanA d" "m_chanB d0 = m_chanB d"
    by (simp_all add: d0_def device_reset_xr68c681_def device_reset_base_def write_outport_def irq_ok_def irq_level_def)
  then have p0: "inv_part False False False 0 d0" by (simp add: inv_part_def)
  have l0: "length (rx_fifo (get_channel 0 d0)) = 4" using assms i0 by (simp add: arrays_ok_def get_channel_def)
  define d1 where "d1 = chan_reset now 0 d0"
  have "inv_part False False True 0 d1" "isr_mirror 0 d1"
    using chan_reset_part [OF p0 l0, of now] by (simp_all add: d1_def)
  then have p1: "inv_part True True False 1 d1" by (simp add: inv_part_def other_def)
  have "get_channel (other 0) d1 = get_channel (other 0) d0"
    unfolding d1_def chan_reset_def by simp
  then have l1: "length (rx_fifo (get_channel 1 d1)) = 4"
    using assms i0 by (simp add: other_def arrays_ok_def get_channel_def)
  show ?thesis
    using chan_reset_part [OF p1 l1, of now] by (simp add: duart_reset_def d0_def d1_def inv_iff_parts [of _ 1])
qed

lemma inv_arrays: "duart_inv d \<Longrightarrow> arrays_ok d"
  by (simp add: duart_inv_def arrays_ok_def chan_ok_def fifo_ok_def)

lemma duart_step_inv: "duart_step d d' \<Longrightarrow> duart_inv d \<Longrightarrow> duart_inv d'"
proof (induction rule: duart_step.induct)
  case (Rx_line d now c state)
  then show ?case unfolding rx_line_w_def by (intro inv_upd_regs) simp_all
next
  case (Clocks d c3 c4 c5 c6)
  then show ?case by (auto simp: set_clocks_def elim: inv_ext)
qed (simp_all add: duart_read_inv duart_write_inv ip_change_inv ip_level_w_def Let_def tra_clock_def rcv_clock_def
    chan_tx_clock_inv chan_rx_clock_inv duart_timer_callback_inv get_irq_vector_def duart_reset_inv inv_arrays)

definition duart_reachable :: "duart \<Rightarrow> bool" where
  "duart_reachable d \<longleftrightarrow> (\<exists>now t clk d0. duart_step\<^sup>*\<^sup>* (duart_reset now (duart_init t clk d0)) d)"

lemma duart_init_arrays: "arrays_ok (duart_init t clk d)"
  by (simp add: arrays_ok_def duart_init_def duart_channel_init_def)

lemma duart_reachable_inv: "duart_reachable d \<Longrightarrow> duart_inv d"
proof -
  assume "duart_reachable d"
  then obtain now t clk d0 where "duart_step\<^sup>*\<^sup>* (duart_reset now (duart_init t clk d0)) d"
    by (auto simp: duart_reachable_def)
  then show ?thesis
    by (induction rule: rtranclp_induct) (auto intro: duart_reset_inv duart_init_arrays duart_step_inv)
qed

end
