(* ===== verification/Duart_Tx.thy ===== *)
theory Duart_Tx
  imports Duart_Reach
begin

unbundle bit_operations_syntax

text \<open>
  The transmitter of the DUART at the level of its output line: what a character written to the
  transmit holding register puts on the TX line as the bit clock runs.
\<close>

section \<open>The line and the bit clock\<close>

definition tx_line :: "nat \<Rightarrow> duart_event list \<Rightarrow> bool list" where
  "tx_line c es = concat (map (\<lambda>e. case e of Write_tx c' b \<Rightarrow> if c' = c then [b] else [] | _ \<Rightarrow> []) es)"

text \<open>One period of the bit clock: the rising and then the falling edge.\<close>

definition tx_pulse :: "attotime \<Rightarrow> nat \<Rightarrow> duart \<Rightarrow> duart" where
  "tx_pulse now c d = chan_tx_clock_w now c False (chan_tx_clock_w now c True d)"

primrec tx_pulses :: "nat \<Rightarrow> attotime \<Rightarrow> nat \<Rightarrow> duart \<Rightarrow> duart" where
  "tx_pulses 0 now c d = d"
| "tx_pulses (Suc n) now c d = tx_pulses n now c (tx_pulse now c d)"

text \<open>A channel in normal mode with no character waiting in the holding register, between two
  periods of its clock.\<close>

definition tx_idle :: "duart_channel \<Rightarrow> bool" where
  "tx_idle ch \<longleftrightarrow> MR2 ch AND 0xc0 = 0 \<and> \<not> m_tx_data_in_buffer ch \<and> \<not> m_tra_clock_state ch \<and> m_tx_enabled ch"

text \<open>The fields of the transmit shift register.\<close>

definition tra_regs :: "'a device_serial_interface_scheme \<Rightarrow> u16 \<times> u8 \<times> nat \<times> nat" where
  "tra_regs s = (m_tra_register_data s, m_tra_flags s, m_tra_bit_count_transmitted s, m_tra_bit_count s)"

section \<open>Events of the interrupt logic are not on the line\<close>

lemma tx_line_snoc [simp]:
  "tx_line c (es @ [Write_tx c b]) = tx_line c es @ [b]" "tx_line c (es @ [Write_irq v]) = tx_line c es"
  "tx_line c (es @ [Write_outport x]) = tx_line c es"
  by (simp_all add: tx_line_def)

lemma tx_line_interrupts [simp]: "tx_line c (m_out (update_interrupts d)) = tx_line c (m_out d)"
proof -
  have "tx_line c (m_out (update_irq_line d)) = tx_line c (m_out d)" by (simp add: update_irq_line_def)
  then show ?thesis by (simp add: update_interrupts_def update_interrupts_base_def Let_def)
qed

lemma tx_line_put [simp]: "tx_line c (m_out (put_ISR b m d)) = tx_line c (m_out d)"
  by (simp add: put_ISR_def set_ISR_bits_def clear_ISR_bits_def)

lemma tx_line_chan_update [simp]: "tx_line c (m_out (chan_update_interrupts c' d)) = tx_line c (m_out d)"
  by (simp add: chan_update_interrupts_eq)

lemma mode_normal: "MR2 ch AND 0xc0 = 0 \<Longrightarrow> chan_update_mode ch = ch"
  by (simp add: chan_update_mode_def)

section \<open>One period of the clock\<close>

lemma get_data_bit_regs:
  assumes "tra_regs s = tra_regs t"
  shows "fst (transmit_register_get_data_bit s) = fst (transmit_register_get_data_bit t)"
    "tra_regs (snd (transmit_register_get_data_bit s)) = tra_regs (snd (transmit_register_get_data_bit t))"
  using assms by (simp_all add: tra_regs_def transmit_register_get_data_bit_def Let_def)

lemma get_data_bit_chan:
  "MR2 (snd (transmit_register_get_data_bit ch)) = MR2 ch"
  "m_tx_data_in_buffer (snd (transmit_register_get_data_bit ch)) = m_tx_data_in_buffer ch"
  "m_tra_clock_state (snd (transmit_register_get_data_bit ch)) = m_tra_clock_state ch"
  "m_tx_enabled (snd (transmit_register_get_data_bit ch)) = m_tx_enabled ch"
  "m_bits_transmitted (snd (transmit_register_get_data_bit ch)) = m_bits_transmitted ch"
  by (simp_all add: transmit_register_get_data_bit_def Let_def)

lemma empty_regs: "is_transmit_register_empty s = (fst (snd (tra_regs s)) AND TRANSMIT_REGISTER_EMPTY \<noteq> 0)"
  by (simp add: is_transmit_register_empty_def tra_regs_def)

lemma tra_callback_normal:
  fixes now :: attotime
  assumes "MR2 (get_channel c d) AND 0xc0 = 0" "\<not> m_tx_data_in_buffer (get_channel c d)" "m_tx_enabled (get_channel c d)"
  defines "g \<equiv> transmit_register_get_data_bit (get_channel c d)"
  defines "d' \<equiv> tra_callback now c d"
  shows "tx_line c (m_out d') = tx_line c (m_out d) @ [fst g]"
    and "tra_regs (get_channel c d') = tra_regs (snd g)"
    and "MR2 (get_channel c d') AND 0xc0 = 0 \<and> \<not> m_tx_data_in_buffer (get_channel c d') \<and>
      m_tx_enabled (get_channel c d') \<and> m_tra_clock_state (get_channel c d') = m_tra_clock_state (get_channel c d)"
    and "m_bits_transmitted (get_channel c d') = (m_bits_transmitted (get_channel c d) + 1) mod 256"
    and "1 < (m_bits_transmitted (get_channel c d) + 1) mod 256 \<Longrightarrow> bit (SR (get_channel c d')) 2"
proof -
  obtain b ch1 where g: "transmit_register_get_data_bit (get_channel c d) = (b, ch1)" by fastforce
  have c1: "MR2 ch1 = MR2 (get_channel c d)" "\<not> m_tx_data_in_buffer ch1" "m_tx_enabled ch1"
    "m_tra_clock_state ch1 = m_tra_clock_state (get_channel c d)"
    "m_bits_transmitted ch1 = m_bits_transmitted (get_channel c d)"
    using get_data_bit_chan [of "get_channel c d"] assms(2,3) g by auto
  define ch2 where "ch2 = ch1\<lparr>m_bits_transmitted := (m_bits_transmitted ch1 + 1) mod 256\<rparr>"
  define d2 where "d2 = upd_chan c (\<lambda>_. ch2) (emit (Write_tx c b) d)"
  have mr: "MR2 ch1 AND 0xc0 \<noteq> 0x80" using c1(1) assms(1) by simp
  have e2: "upd_chan c (\<lambda>ch. ch\<lparr>m_bits_transmitted := (m_bits_transmitted ch + 1) mod 256\<rparr>)
      (emit (Write_tx c b) (upd_chan c (\<lambda>_. ch1) d)) = d2"
    by (simp add: d2_def ch2_def upd_chan_def emit_def)
  have g2: "get_channel c d2 = ch2" by (simp add: d2_def)
  have e: "d' = (if m_bits_transmitted ch2 > 1
      then chan_update_interrupts c (upd_chan c (set_SR STATUS_TRANSMITTER_READY) d2) else d2)"
    using c1(2,3) unfolding d'_def tra_callback_def g Let_def prod.case if_P [OF mr] e2 g2
    by (simp add: ch2_def)
  have ch: "get_channel c d' = (if m_bits_transmitted ch2 > 1 then set_SR STATUS_TRANSMITTER_READY ch2 else ch2)"
    using assms(1) c1(1) by (simp add: e g2 mode_normal ch2_def)
  show "tx_line c (m_out d') = tx_line c (m_out d) @ [fst g]"
    by (simp add: e g_def g d2_def)
  show "tra_regs (get_channel c d') = tra_regs (snd g)"
    by (simp add: ch g_def g ch2_def tra_regs_def)
  show "MR2 (get_channel c d') AND 0xc0 = 0 \<and> \<not> m_tx_data_in_buffer (get_channel c d') \<and>
      m_tx_enabled (get_channel c d') \<and> m_tra_clock_state (get_channel c d') = m_tra_clock_state (get_channel c d)"
    using c1 assms(1) by (simp add: ch ch2_def)
  show "m_bits_transmitted (get_channel c d') = (m_bits_transmitted (get_channel c d) + 1) mod 256"
    using c1(5) by (simp add: ch ch2_def)
  show "1 < (m_bits_transmitted (get_channel c d) + 1) mod 256 \<Longrightarrow> bit (SR (get_channel c d')) 2"
    using c1(5) by (simp add: ch ch2_def bit_simps)
qed

text \<open>The end of a frame with no further character: the channel reports an empty transmitter.\<close>

lemma tra_complete_idle:
  assumes "MR2 (get_channel c d) AND 0xc0 = 0" "\<not> m_tx_data_in_buffer (get_channel c d)"
  shows "get_channel c (tra_complete now c d) = set_SR STATUS_TRANSMITTER_EMPTY (get_channel c d)"
    "tx_line c (m_out (tra_complete now c d)) = tx_line c (m_out d)"
  using assms by (simp_all add: tra_complete_def mode_normal)

lemma tx_pulse_bit:
  fixes now :: attotime
  assumes "tx_idle (get_channel c d)" "\<not> is_transmit_register_empty (get_channel c d)"
  defines "g \<equiv> transmit_register_get_data_bit (get_channel c d)"
  defines "d' \<equiv> tx_pulse now c d"
  shows "tx_line c (m_out d') = tx_line c (m_out d) @ [fst g]"
    and "tra_regs (get_channel c d') = tra_regs (snd g)"
    and "tx_idle (get_channel c d')"
    and "m_bits_transmitted (get_channel c d') = (m_bits_transmitted (get_channel c d) + 1) mod 256"
    and "1 < (m_bits_transmitted (get_channel c d) + 1) mod 256 \<Longrightarrow> bit (SR (get_channel c d')) 2"
    and "is_transmit_register_empty (snd g) \<Longrightarrow> bit (SR (get_channel c d')) 3"
proof -
  have i: "MR2 (get_channel c d) AND 0xc0 = 0" "\<not> m_tx_data_in_buffer (get_channel c d)"
    "\<not> m_tra_clock_state (get_channel c d)" "m_tx_enabled (get_channel c d)"
    using assms(1) by (auto simp: tx_idle_def)
  define d1 where "d1 = upd_chan c (\<lambda>s. s\<lparr>m_tra_clock_state := True\<rparr>) d"
  have r1: "tra_regs (get_channel c d1) = tra_regs (get_channel c d)" by (simp add: d1_def tra_regs_def)
  have s1: "m_tra_clock_state (get_channel c d1)" by (simp add: d1_def)
  define d2 where "d2 = tra_callback now c d1"
  have cb: "tx_line c (m_out d2) = tx_line c (m_out d) @ [fst g]" "tra_regs (get_channel c d2) = tra_regs (snd g)"
    "MR2 (get_channel c d2) AND 0xc0 = 0" "\<not> m_tx_data_in_buffer (get_channel c d2)" "m_tx_enabled (get_channel c d2)"
    "m_tra_clock_state (get_channel c d2)"
    "m_bits_transmitted (get_channel c d2) = (m_bits_transmitted (get_channel c d) + 1) mod 256"
    "1 < (m_bits_transmitted (get_channel c d) + 1) mod 256 \<Longrightarrow> bit (SR (get_channel c d2)) 2"
    using tra_callback_normal [of c d1 now] i get_data_bit_regs [OF r1]
    by (auto simp: d1_def d2_def g_def)
  define d3 where "d3 = (if is_transmit_register_empty (get_channel c d2) then tra_complete now c d2 else d2)"
  have c3: "get_channel c d3 = (if is_transmit_register_empty (get_channel c d2)
      then set_SR STATUS_TRANSMITTER_EMPTY (get_channel c d2) else get_channel c d2)"
    "tx_line c (m_out d3) = tx_line c (m_out d2)"
    using tra_complete_idle [OF cb(3,4)] by (simp_all add: d3_def)
  have ne: "\<not> is_transmit_register_empty (get_channel c d1)"
    using assms(2) by (simp add: empty_regs r1)
  let ?stop = "is_transmit_register_empty (get_channel c d3) \<and> \<not> is_never (m_tra_rate (get_channel c d3))"
  define d4 where "d4 = (if ?stop then upd_chan c (\<lambda>s. s\<lparr>m_tra_clock := timer_never now (m_tra_clock s)\<rparr>) d3 else d3)"
  have "chan_tx_clock_w now c True d = d4"
    using i(3) ne s1
    by (simp add: tx_clock_w_def tra_edge_def Let_def d1_def [symmetric] d2_def [symmetric] d3_def [symmetric] d4_def)
  moreover have "m_tra_clock_state (get_channel c d4)" using cb(6) by (simp add: d4_def c3)
  ultimately have e: "d' = upd_chan c (\<lambda>s. s\<lparr>m_tra_clock_state := False\<rparr>) d4"
    by (simp add: d'_def tx_pulse_def tx_clock_w_def Let_def)
  show "tx_line c (m_out d') = tx_line c (m_out d) @ [fst g]"
    by (simp add: e d4_def c3 cb)
  show "tra_regs (get_channel c d') = tra_regs (snd g)"
    using cb(2) by (simp add: e d4_def c3 tra_regs_def)
  show "tx_idle (get_channel c d')"
    using cb by (simp add: e d4_def c3 tx_idle_def)
  show "m_bits_transmitted (get_channel c d') = (m_bits_transmitted (get_channel c d) + 1) mod 256"
    using cb(7) by (simp add: e d4_def c3)
  show "1 < (m_bits_transmitted (get_channel c d) + 1) mod 256 \<Longrightarrow> bit (SR (get_channel c d')) 2"
    using cb(8) by (simp add: e d4_def c3 bit_simps)
  have "is_transmit_register_empty (get_channel c d2) = is_transmit_register_empty (snd g)"
    by (simp add: empty_regs cb(2))
  then show "is_transmit_register_empty (snd g) \<Longrightarrow> bit (SR (get_channel c d')) 3"
    by (simp add: e d4_def c3 bit_simps)
qed

section \<open>A whole frame\<close>

lemma tx_pulses_bits:
  assumes "tx_idle (get_channel c d)" "tra_regs (get_channel c d) = tra_regs s"
    "\<forall>k<n. \<not> is_transmit_register_empty (snd (tx_bits k s))" "m_bits_transmitted (get_channel c d) + n < 256"
  shows "tx_line c (m_out (tx_pulses n now c d)) = tx_line c (m_out d) @ fst (tx_bits n s) \<and>
    tra_regs (get_channel c (tx_pulses n now c d)) = tra_regs (snd (tx_bits n s)) \<and>
    tx_idle (get_channel c (tx_pulses n now c d)) \<and>
    (0 < n \<longrightarrow> is_transmit_register_empty (snd (tx_bits n s)) \<longrightarrow> bit (SR (get_channel c (tx_pulses n now c d))) 3) \<and>
    (0 < n \<longrightarrow> 1 < m_bits_transmitted (get_channel c d) + n \<longrightarrow> bit (SR (get_channel c (tx_pulses n now c d))) 2)"
  using assms
proof (induction n arbitrary: d s)
  case (Suc n)
  let ?d = "tx_pulse now c d"
  obtain b s1 where g: "transmit_register_get_data_bit s = (b, s1)" by fastforce
  have ne: "\<not> is_transmit_register_empty (get_channel c d)"
    using Suc.prems(2,3) by (auto simp: empty_regs dest!: spec [of _ 0])
  note p = tx_pulse_bit [OF Suc.prems(1) ne, of now]
  note gr = get_data_bit_regs [OF Suc.prems(2), unfolded g]
  have r: "tra_regs (get_channel c ?d) = tra_regs s1" using p(2) gr by simp
  have k: "\<forall>k<n. \<not> is_transmit_register_empty (snd (tx_bits k s1))"
  proof (intro allI impI)
    fix k assume "k < n"
    then show "\<not> is_transmit_register_empty (snd (tx_bits k s1))"
      using Suc.prems(3) [rule_format, of "Suc k"] by (simp add: g case_prod_beta Let_def)
  qed
  have m: "m_bits_transmitted (get_channel c ?d) = m_bits_transmitted (get_channel c d) + 1"
    using p(4) Suc.prems(4) by simp
  have ih: "tx_line c (m_out (tx_pulses n now c ?d)) = tx_line c (m_out ?d) @ fst (tx_bits n s1) \<and>
    tra_regs (get_channel c (tx_pulses n now c ?d)) = tra_regs (snd (tx_bits n s1)) \<and>
    tx_idle (get_channel c (tx_pulses n now c ?d)) \<and>
    (0 < n \<longrightarrow> is_transmit_register_empty (snd (tx_bits n s1)) \<longrightarrow> bit (SR (get_channel c (tx_pulses n now c ?d))) 3) \<and>
    (0 < n \<longrightarrow> 1 < m_bits_transmitted (get_channel c ?d) + n \<longrightarrow> bit (SR (get_channel c (tx_pulses n now c ?d))) 2)"
    using Suc.IH [OF p(3) r k] m Suc.prems(4) by simp
  have last: "is_transmit_register_empty s1 \<Longrightarrow> bit (SR (get_channel c ?d)) 3"
    using p(6) gr(2) by (simp add: empty_regs)
  show ?case
  proof (cases n)
    case 0
    then show ?thesis using p(1,3) r gr(1) last p(5) m Suc.prems(4) by (simp add: g)
  next
    case (Suc j)
    then show ?thesis using ih p(1) gr(1) m by (simp add: g case_prod_beta Let_def)
  qed
qed (simp add: tx_idle_def)

text \<open>Loading the shift register leaves the transmitter's flags alone.\<close>

definition tx_fields :: "duart_channel \<Rightarrow> bool \<times> bool \<times> bool" where
  "tx_fields ch = (m_tx_data_in_buffer ch, m_tra_clock_state ch, m_tx_enabled ch)"

lemma tx_fields_add_bit [simp]: "tx_fields (transmit_register_add_bit b ch) = tx_fields ch"
  by (simp add: tx_fields_def transmit_register_add_bit_def)

lemma tx_fields_iter [simp]:
  "tx_fields ((transmit_register_add_bit b ^^ n) ch) = tx_fields ch" "tx_fields (add_data_bits n w ch) = tx_fields ch"
proof -
  show "tx_fields ((transmit_register_add_bit b ^^ n) ch) = tx_fields ch" by (induction n) simp_all
  show "tx_fields (add_data_bits n w ch) = tx_fields ch" by (induction n arbitrary: w ch) simp_all
qed

lemma tx_fields_setup: "tx_fields (transmit_register_setup now data ch) = tx_fields ch"
proof -
  have t: "tx_fields (x\<lparr>m_tra_bit_count_transmitted := 0, m_tra_bit_count := 0, m_tra_flags := f\<rparr>) = tx_fields x"
    "tx_fields (x\<lparr>m_tra_clock := k\<rparr>) = tx_fields x" for x f k by (simp_all add: tx_fields_def)
  show ?thesis by (simp add: transmit_register_setup_def Let_def t)
qed

lemma frame_bits_SR [simp]: "frame_bits (ch\<lparr>SR := x\<rparr>) data = frame_bits ch data"
  by (simp add: frame_bits_def)

lemma tx_frame:
  assumes "bit (SR (get_channel c d)) 2" "is_transmit_register_empty (get_channel c d)" "tx_idle (get_channel c d)"
    "length (frame_bits (get_channel c d) data) \<le> 16" "1 < length (frame_bits (get_channel c d) data)"
  shows "let f = frame_bits (get_channel c d) data; d' = tx_pulses (length f) now c (write_TX now c data d)
         in tx_line c (m_out d') = tx_line c (m_out d) @ f \<and>
            is_transmit_register_empty (get_channel c d') \<and>
            bit (SR (get_channel c d')) 2 \<and> bit (SR (get_channel c d')) 3"
proof -
  let ?ch = "get_channel c d"
  define ch1 where "ch1 = clear_SR (STATUS_TRANSMITTER_READY OR STATUS_TRANSMITTER_EMPTY) ?ch"
  define s where "s = transmit_register_setup now data ch1"
  define d1 where "d1 = write_TX now c data d"
  define n where "n = length (frame_bits ?ch data)"
  have f1: "frame_bits ch1 data = frame_bits ?ch data" by (simp add: ch1_def)
  have regs: "chan_regs s = chan_regs ch1" by (simp add: s_def)
  have keep: "MR2 s = MR2 ?ch"
    using regs by (simp add: chan_regs_def ch1_def)
  have e1: "is_transmit_register_empty ch1" using assms(2) by (simp add: ch1_def is_transmit_register_empty_def)
  have nr: "SR ?ch AND STATUS_TRANSMITTER_READY \<noteq> 0" using assms(1) by (simp add: mask_bits)
  have fun_eq: "upd_chan c (\<lambda>ch.
                let ch1 = clear_SR (STATUS_TRANSMITTER_READY OR STATUS_TRANSMITTER_EMPTY) ch
                in if \<not> is_transmit_register_empty ch1
                   then ch1\<lparr>m_tx_data := data, m_tx_data_in_buffer := True\<rparr>
                   else (transmit_register_setup now data ch1)\<lparr>m_bits_transmitted := 0\<rparr>) d
      = upd_chan c (\<lambda>_. s\<lparr>m_bits_transmitted := 0\<rparr>) d"
    using e1 by (auto simp: upd_chan_def ch1_def s_def Let_def get_channel_def)
  have d1: "d1 = chan_update_interrupts c (upd_chan c (\<lambda>_. s\<lparr>m_bits_transmitted := 0\<rparr>) d)"
    using nr unfolding d1_def write_TX_def fun_eq by simp
  have mr: "MR2 ?ch AND 0xc0 = 0" using assms(3) by (simp add: tx_idle_def)
  have c1: "get_channel c d1 = s\<lparr>m_bits_transmitted := 0\<rparr>"
    using keep mr by (simp add: d1 mode_normal)
  have fields: "m_tx_data_in_buffer s = m_tx_data_in_buffer ?ch" "m_tra_clock_state s = m_tra_clock_state ?ch"
    "m_tx_enabled s = m_tx_enabled ?ch"
    using tx_fields_setup [of now data ch1] by (simp_all add: tx_fields_def s_def ch1_def)
  have idle: "tx_idle (get_channel c d1)"
    using assms(3) keep fields by (simp add: c1 tx_idle_def)
  have ne: "frame_bits ch1 data \<noteq> []" using assms(5) f1 by auto
  note tf = transmit_frame_parts [OF assms(4) [folded f1] ne, of now, folded s_def, unfolded f1, folded n_def]
  have "tx_line c (m_out (tx_pulses n now c d1)) = tx_line c (m_out d1) @ fst (tx_bits n s) \<and>
    tra_regs (get_channel c (tx_pulses n now c d1)) = tra_regs (snd (tx_bits n s)) \<and>
    tx_idle (get_channel c (tx_pulses n now c d1)) \<and>
    (0 < n \<longrightarrow> is_transmit_register_empty (snd (tx_bits n s)) \<longrightarrow> bit (SR (get_channel c (tx_pulses n now c d1))) 3) \<and>
    (0 < n \<longrightarrow> 1 < m_bits_transmitted (get_channel c d1) + n \<longrightarrow> bit (SR (get_channel c (tx_pulses n now c d1))) 2)"
    by (rule tx_pulses_bits [OF idle]) (use tf(3) assms(4) in \<open>simp_all add: c1 tra_regs_def n_def\<close>)
  moreover have "tx_line c (m_out d1) = tx_line c (m_out d)" by (simp add: d1)
  ultimately show ?thesis
    unfolding Let_def d1_def [symmetric] n_def [symmetric]
    using tf(1,2) assms(5) ne f1 by (simp add: n_def empty_regs)
qed

text \<open>C5. Transmission: a character written to the transmit holding register of a channel that is
  ready, idle and in normal mode appears on the channel's TX line as exactly its frame, one bit
  per period of the bit clock, and when the frame is complete the shift register is empty again
  and the status register reports both TxRDY and TxEMT.\<close>

theorem duart_transmits_frame:
  assumes "bit (SR (get_channel c d)) 2" "is_transmit_register_empty (get_channel c d)" "tx_idle (get_channel c d)"
    "length (frame_bits (get_channel c d) data) \<le> 16" "1 < length (frame_bits (get_channel c d) data)"
  shows "let f = frame_bits (get_channel c d) data; d' = tx_pulses (length f) now c (write_TX now c data d)
         in tx_line c (m_out d') = tx_line c (m_out d) @ f \<and>
            is_transmit_register_empty (get_channel c d') \<and>
            bit (SR (get_channel c d')) 2 \<and> bit (SR (get_channel c d')) 3"
  by (rule tx_frame [OF assms])

end
