(* ===== verification/Duart_Props.thy ===== *)
theory Duart_Props
  imports Duart_Tx
begin

unbundle bit_operations_syntax

text \<open>
  The properties of the DUART: the interrupt line, the status registers, the receive FIFO, the
  output and input ports, the baud rates, the counter and the transmitter.
\<close>

section \<open>Concrete chips for the witnesses\<close>

text \<open>Some content of the memory before the constructors run, and the chip after power-on.\<close>

definition blank_channel :: duart_channel where
  "blank_channel = device_serial_interface.extend (device_serial_interface_init attotime_zero)
     (duart_channel.fields 0 0 0 0 0 0 0 0 False [] 0 0 0 0 False False 0 False 0 0)"

definition blank_duart :: duart where
  "blank_duart = duart.make blank_channel blank_channel 0 None 0 0 0 0 0 0 0 0 0 0 0 0 0
     (timer_init attotime_zero attotime_never 0) False False 0 False False False False []"

definition power_on :: duart where
  "power_on = duart_reset attotime_zero (duart_init attotime_zero 3686400 blank_duart)"

lemma power_on_reachable: "duart_reachable power_on"
  unfolding duart_reachable_def power_on_def by blast

lemma reachable_step: "duart_reachable d \<Longrightarrow> duart_step d d' \<Longrightarrow> duart_reachable d'"
  unfolding duart_reachable_def by (meson rtranclp.rtrancl_into_rtrancl)

section \<open>Interrupts and status\<close>

text \<open>C6. In every state the chip can reach by register accesses, line changes, clock edges, timer
  events and resets, the interrupt line that was last driven is asserted exactly when an
  interrupt status bit is set that the mask register enables.\<close>

theorem duart_irq_line:
  assumes "duart_reachable d"
  shows "irq_level (m_out d) \<longleftrightarrow> ISR d AND IMR d \<noteq> 0"
  using duart_reachable_inv [OF assms] by (simp add: duart_inv_def irq_ok_def)

theorem duart_irq_line_witness:
  "let d = duart_write attotime_zero 0x2 0x05 (duart_write attotime_zero 0x5 0x01 power_on)
   in irq_level (m_out d) \<longleftrightarrow> ISR d AND IMR d \<noteq> 0"
  unfolding Let_def
  by (rule duart_irq_line,
      rule reachable_step [OF reachable_step [OF power_on_reachable duart_step.Write] duart_step.Write])

text \<open>C34. In every reachable state the interrupt status register mirrors the channels: its TxRDY
  bits equal the TxRDY bits of the two status registers, its RxRDY bits equal RxRDY or FFULL
  as bit 6 of the channel's first mode register selects, and a channel in automatic echo or
  remote loopback mode never reports TxRDY.\<close>

theorem duart_isr_mirrors_channels:
  assumes "duart_reachable d"
  shows "(bit (ISR d) 0 \<longleftrightarrow> bit (SR (m_chanA d)) 2) \<and> (bit (ISR d) 4 \<longleftrightarrow> bit (SR (m_chanB d)) 2) \<and>
    (bit (ISR d) 1 \<longleftrightarrow> bit (SR (m_chanA d)) (if bit (MR1 (m_chanA d)) 6 then 1 else 0)) \<and>
    (bit (ISR d) 5 \<longleftrightarrow> bit (SR (m_chanB d)) (if bit (MR1 (m_chanB d)) 6 then 1 else 0)) \<and>
    (bit (MR2 (m_chanA d)) 6 \<longrightarrow> \<not> bit (SR (m_chanA d)) 2) \<and>
    (bit (MR2 (m_chanB d)) 6 \<longrightarrow> \<not> bit (SR (m_chanB d)) 2)"
  using duart_reachable_inv [OF assms]
  by (simp add: duart_inv_def isr_mirror_def get_channel_def tx_status_def rx_status_def)

theorem duart_isr_mirrors_channels_witness:
  "let d = duart_write attotime_zero 0xa 0x05 power_on in
    (bit (ISR d) 0 \<longleftrightarrow> bit (SR (m_chanA d)) 2) \<and> (bit (ISR d) 4 \<longleftrightarrow> bit (SR (m_chanB d)) 2)"
  using duart_isr_mirrors_channels [OF reachable_step [OF power_on_reachable duart_step.Write]]
  by (simp add: Let_def)

text \<open>C35. In every reachable state the receive FIFO of each channel is well formed (its pointers
  are inside the array of four entries and its count is their distance), RxRDY is set only if
  a character waits, and FFULL is set whenever three or four characters wait.\<close>

theorem duart_fifo_status:
  assumes "duart_reachable d"
  shows "let ch = get_channel c d
         in fifo_ok ch \<and> (bit (SR ch) 0 \<longrightarrow> fifo_abs ch \<noteq> []) \<and> (3 \<le> length (fifo_abs ch) \<longrightarrow> bit (SR ch) 1)"
proof -
  have "chan_ok (get_channel c d)"
    using duart_reachable_inv [OF assms] by (simp add: duart_inv_def get_channel_def)
  then show ?thesis by (auto simp: chan_ok_def Let_def fifo_abs_def)
qed

theorem duart_fifo_status_witness:
  "let ch = get_channel 0 (duart_write attotime_zero 0x2 0x05 power_on)
   in fifo_ok ch \<and> (bit (SR ch) 0 \<longrightarrow> fifo_abs ch \<noteq> []) \<and> (3 \<le> length (fifo_abs ch) \<longrightarrow> bit (SR ch) 1)"
  by (rule duart_fifo_status) (rule reachable_step [OF power_on_reachable duart_step.Write])

section \<open>The receive FIFO\<close>

text \<open>What the receive path does to the queue of a channel.\<close>

lemma fifo_mode [simp]:
  "fifo_abs (chan_update_mode ch) = fifo_abs ch" "fifo_ok (chan_update_mode ch) = fifo_ok ch"
  "rx_fifo_num (chan_update_mode ch) = rx_fifo_num ch"
  by (simp_all add: chan_update_mode_def fifo_abs_def fifo_ok_def)

lemma push_chan_queue:
  assumes "fifo_ok ch"
  shows "fifo_ok (rx_fifo_push_chan data errors ch)"
    "fifo_abs (rx_fifo_push_chan data errors ch) = overrun_put 4 (fifo_entry data errors) (fifo_abs ch)"
  using fifo_put_ok [OF assms] fifo_put_abs [OF assms] by (simp_all add: rx_fifo_push_chan_def Let_def)

lemma push_queue:
  assumes "fifo_ok (get_channel c d)"
  shows "fifo_ok (get_channel c (rx_fifo_push c data errors d))"
    "fifo_abs (get_channel c (rx_fifo_push c data errors d))
       = overrun_put 4 (fifo_entry data errors) (fifo_abs (get_channel c d))"
  using push_chan_queue [OF assms] by (simp_all add: rx_fifo_push_def)

lemma read_chan_queue:
  assumes "fifo_ok ch" "rx_fifo_num ch \<noteq> 0"
  shows "fifo_ok (snd (read_rx_fifo_chan ch))"
    "fifo_abs (snd (read_rx_fifo_chan ch)) = tl (fifo_abs ch)"
    "fst (read_rx_fifo_chan ch) = ucast (hd (fifo_abs ch))"
  using fifo_get_queue [OF assms] by (simp_all add: read_rx_fifo_chan_def case_prod_beta Let_def)

lemma read_queue:
  assumes "fifo_ok (get_channel c d)" "fifo_abs (get_channel c d) \<noteq> []"
  shows "fifo_ok (get_channel c (snd (read_chan_reg c 3 d)))"
    "fifo_abs (get_channel c (snd (read_chan_reg c 3 d))) = tl (fifo_abs (get_channel c d))"
    "fst (read_chan_reg c 3 d) = ucast (hd (fifo_abs (get_channel c d)))"
proof -
  have "rx_fifo_num (get_channel c d) \<noteq> 0" using assms(2) by (simp add: fifo_abs_def)
  with read_chan_queue [OF assms(1) this] show
    "fifo_ok (get_channel c (snd (read_chan_reg c 3 d)))"
    "fifo_abs (get_channel c (snd (read_chan_reg c 3 d))) = tl (fifo_abs (get_channel c d))"
    "fst (read_chan_reg c 3 d) = ucast (hd (fifo_abs (get_channel c d)))"
    by (simp_all add: read_chan_reg_def read_rx_fifo_def case_prod_beta Let_def)
qed

text \<open>\<open>n\<close> reads of the receive holding register.\<close>

primrec read_chars :: "nat \<Rightarrow> nat \<Rightarrow> duart \<Rightarrow> u8 list" where
  "read_chars 0 c d = []"
| "read_chars (Suc n) c d = (let (r, d1) = read_chan_reg c 3 d in r # read_chars n c d1)"

definition push_chars :: "nat \<Rightarrow> (u8 \<times> u8) list \<Rightarrow> duart \<Rightarrow> duart" where
  "push_chars c xs d = fold (\<lambda>(data, errors). rx_fifo_push c data errors) xs d"

lemma push_chars_queue:
  "fifo_ok (get_channel c d) \<Longrightarrow>
     fifo_ok (get_channel c (push_chars c xs d)) \<and>
     fifo_abs (get_channel c (push_chars c xs d))
       = fold (overrun_put 4) (map (\<lambda>(x, e). fifo_entry x e) xs) (fifo_abs (get_channel c d))"
  unfolding push_chars_def
  by (induction xs arbitrary: d) (auto simp: push_queue)

lemma read_chars_queue:
  "fifo_ok (get_channel c d) \<Longrightarrow> n \<le> length (fifo_abs (get_channel c d)) \<Longrightarrow>
     read_chars n c d = map ucast (take n (fifo_abs (get_channel c d)))"
proof (induction n arbitrary: d)
  case (Suc n)
  then have ne: "fifo_abs (get_channel c d) \<noteq> []" by (auto simp del: length_fifo_abs)
  note rq = read_queue [OF Suc.prems(1) ne]
  have "read_chars n c (snd (read_chan_reg c 3 d)) = map ucast (take n (tl (fifo_abs (get_channel c d))))"
    using Suc.IH [OF rq(1)] rq(2) Suc.prems(2) by (simp del: length_fifo_abs)
  then show ?case
    using rq(3) ne by (cases "fifo_abs (get_channel c d)") (simp_all add: case_prod_beta Let_def)
qed simp

lemma fold_overrun_room:
  "length ys + length xs \<le> 4 \<Longrightarrow> fold (overrun_put 4) xs ys = ys @ xs"
  by (induction xs arbitrary: ys) (simp_all add: overrun_put_def)

text \<open>C24. The receive FIFO keeps the order of the characters: as long as at most four characters
  wait, reading the receive holding register returns the characters that were waiting and then
  the characters received, each once and in the order of their arrival.\<close>

theorem duart_receive_order:
  assumes "fifo_ok (get_channel c d)" "rx_fifo_num (get_channel c d) + length xs \<le> 4"
  shows "read_chars (rx_fifo_num (get_channel c d) + length xs) c (push_chars c xs d)
    = map ucast (fifo_abs (get_channel c d)) @ map fst xs"
proof -
  let ?q = "fifo_abs (get_channel c d)"
  have q: "fifo_ok (get_channel c (push_chars c xs d))"
    "fifo_abs (get_channel c (push_chars c xs d)) = ?q @ map (\<lambda>(x, e). fifo_entry x e) xs"
    using push_chars_queue [OF assms(1), of xs] fold_overrun_room [of ?q] assms(2) by auto
  have "read_chars (rx_fifo_num (get_channel c d) + length xs) c (push_chars c xs d)
    = map ucast (?q @ map (\<lambda>(x, e). fifo_entry x e) xs)"
    using read_chars_queue [OF q(1), of "rx_fifo_num (get_channel c d) + length xs"] q(2)
    by (simp del: length_fifo_abs add: length_fifo_abs [symmetric])
  then show ?thesis by (simp add: comp_def case_prod_beta)
qed


lemma power_on_num: "rx_fifo_num (get_channel 0 power_on) = 0"
  by code_simp

lemma power_on_fifo: "fifo_ok (get_channel c power_on)"
  using duart_reachable_inv [OF power_on_reachable]
  by (simp add: duart_inv_def chan_ok_def get_channel_def)

theorem duart_receive_order_witness:
  "read_chars (rx_fifo_num (get_channel 0 power_on) + 2) 0 (push_chars 0 [(0x41, 0), (0x42, 0x40)] power_on)
     = map ucast (fifo_abs (get_channel 0 power_on)) @ [0x41, 0x42]"
  using duart_receive_order [OF power_on_fifo, of 0 "[(0x41, 0), (0x42, 0x40)]"] by (simp add: power_on_num)

text \<open>Overrun: a character that arrives while four characters wait replaces the newest of them,
  keeps the three oldest, sets the overrun bit of the channel's status register and leaves the
  number of waiting characters at four.\<close>

theorem duart_overrun:
  assumes "fifo_ok (get_channel c d)" "rx_fifo_num (get_channel c d) = 4"
  shows "let ch = get_channel c (rx_fifo_push c data errors d)
         in fifo_abs ch = take 3 (fifo_abs (get_channel c d)) @ [fifo_entry data errors] \<and>
            rx_fifo_num ch = 4 \<and> bit (SR ch) 4"
proof -
  let ?ch = "get_channel c d"
  have "fifo_abs (get_channel c (rx_fifo_push c data errors d)) = butlast (fifo_abs ?ch) @ [fifo_entry data errors]"
    using push_queue(2) [OF assms(1)] assms(2) by (simp add: overrun_put_def)
  moreover have "butlast (fifo_abs ?ch) = take 3 (fifo_abs ?ch)"
    using assms(2) by (simp add: butlast_conv_take)
  moreover have "bit (SR (rx_fifo_push_chan data errors ?ch)) 4"
    using assms(2) by (simp add: rx_fifo_push_chan_def fifo_put_def Let_def bit_simps)
  then have "bit (SR (get_channel c (rx_fifo_push c data errors d))) 4"
    by (simp add: rx_fifo_push_def chan_update_mode_def bit_simps)
  ultimately show ?thesis by (simp add: Let_def rx_fifo_push_def rx_fifo_push_chan_def assms(2))
qed

theorem duart_overrun_witness:
  "let d = push_chars 0 [(1, 0), (2, 0), (3, 0), (4, 0)] power_on;
       ch = get_channel 0 (rx_fifo_push 0 5 0 d)
   in fifo_abs ch = take 3 (fifo_abs (get_channel 0 d)) @ [fifo_entry 5 0] \<and>
      rx_fifo_num ch = 4 \<and> bit (SR ch) 4"
proof -
  let ?d = "push_chars 0 [(1, 0), (2, 0), (3, 0), (4, 0)] power_on"
  have "fifo_ok (get_channel 0 ?d)"
    using push_chars_queue [OF power_on_fifo, of 0] by simp
  moreover have "rx_fifo_num (get_channel 0 ?d) = 4" by code_simp
  ultimately show ?thesis using duart_overrun [of 0 ?d 5 0] by (simp add: Let_def)
qed

section \<open>The ports\<close>

text \<open>The output port: writing \<open>v\<close> to the set register (14) or the reset register (15) changes
  exactly the bits of \<open>v\<close> in the output port register, changes nothing else of the chip, and
  drives the complement of the new register on the port as its only output.\<close>

theorem duart_output_port:
  "duart_write now 14 v d = d\<lparr>OPR := OPR d OR v, m_out := m_out d @ [Write_outport (NOT (OPR d OR v))]\<rparr> \<and>
   duart_write now 15 v d = d\<lparr>OPR := OPR d AND NOT v, m_out := m_out d @ [Write_outport (NOT (OPR d AND NOT v))]\<rparr>"
proof -
  have "x XOR 0xff = NOT x" for x :: u8
    by (rule bit_word_eqI) (simp add: bit_simps)
  then show ?thesis
    by (simp add: duart_write_def write_mc68681_def write_base_def write_outport_def emit_def)
qed

text \<open>Input port change detection: when one of the pins IP0 to IP3 changes its level, the
  change register shows the new levels of the four pins and the change bit of that pin, with the
  change bits of earlier changes kept, the pin's level is stored, and the input port interrupt is
  raised if the pin's enable bit in ACR is set; a write of the same level changes nothing.\<close>

theorem duart_input_change:
  assumes "i < 4"
  shows "let d' = ip_change_w i state d in
    (bit (IP_last_state d) i = state \<longrightarrow> d' = d) \<and>
    (bit (IP_last_state d) i \<noteq> state \<longrightarrow>
       (\<forall>k<4. bit (IPCR d') k = (if k = i then state else bit (IP_last_state d) k)) \<and>
       (\<forall>k<4. bit (IPCR d') (4 + k) = (k = i \<or> bit (IPCR d) (4 + k))) \<and>
       (\<forall>k. bit (IP_last_state d') k = (if k = i then state else bit (IP_last_state d) k)) \<and>
       (bit (ISR d') 7 \<longleftrightarrow> bit (ISR d) 7 \<or> bit (ACR d) i))"
proof -
  define m where "m = (push_bit i 1 :: u8)"
  define new where "new = (IP_last_state d AND NOT m) OR (if state then m else 0)"
  have m: "bit m k \<longleftrightarrow> k = i" for k using assms by (auto simp: m_def bit_simps)
  have new: "bit new k = (if k = i then state else bit (IP_last_state d) k)" for k
    using assms by (auto simp: new_def bit_simps m dest: bit_imp_le_length)
  have eq: "new = IP_last_state d \<longleftrightarrow> bit (IP_last_state d) i = state"
    by (metis bit_word_eqI new)
  have acr: "ACR d AND m = 0 \<longleftrightarrow> \<not> bit (ACR d) i"
    by (simp add: m_def bit_iff_and_push_bit_not_eq_0)
  have f: "(0x0f :: u8) = mask 4" by (simp add: mask_eq_exp_minus_1)
  define ip where "ip = ((IPCR d AND NOT 0x0f OR new AND 0x0f) OR push_bit 4 m)"
  have ip: "bit ip k = (if k < 4 then bit new k else bit (IPCR d) k \<or> k = 4 + i)" if "k < 8" for k
    using that unfolding ip_def f by (auto simp: bit_simps m)
  show ?thesis
  proof (cases "bit (IP_last_state d) i = state")
    case True
    with eq show ?thesis
      unfolding ip_change_w_def Let_def m_def [symmetric] new_def [symmetric] by simp
  next
    case False
    with eq have ne: "new \<noteq> IP_last_state d" by simp
    let ?d = "ip_change_w i state d"
    have "IPCR ?d = ip" "IP_last_state ?d = new" "ISR ?d = (if bit (ACR d) i then ISR d OR 0x80 else ISR d)"
      unfolding ip_change_w_def Let_def m_def [symmetric] new_def [symmetric] ip_def [symmetric]
      using ne by (simp_all add: acr)
    moreover have "bit (ISR d OR 0x80) 7" by (simp add: bit_simps)
    ultimately show ?thesis using False assms ip new by (auto simp: Let_def)
  qed
qed

theorem duart_input_change_witness:
  "let d' = ip_change_w 2 (\<not> bit (IP_last_state power_on) 2) power_on in
     bit (IPCR d') 2 = (\<not> bit (IP_last_state power_on) 2) \<and> bit (IPCR d') 6"
  using duart_input_change [of 2 "\<not> bit (IP_last_state power_on) 2" power_on]
  by (auto simp: Let_def dest: spec [of _ 2])

section \<open>The counter\<close>

text \<open>The counter: a start counter command loads the preset (at least 1), and the counter read
  at once shows the preset, less one when the length of a tick is not a whole number of
  attoseconds, for every clock source up to 1 GHz.\<close>

theorem duart_counter_start:
  assumes "0 < get_ct_rate d" "get_ct_rate d \<le> 1000000000" "wf_time now" "m_seconds now < 999000000"
  shows "let n = int (ct_preset d); f = get_ct_rate d
         in get_ct_count now (snd (duart_read now 14 d))
              = of_int (n - of_bool (n mod f * (ATTOSECONDS_PER_SECOND mod f) \<noteq> 0))"
proof -
  define f n where "f = get_ct_rate d" and "n = int (ct_preset d)"
  have "unat (CTR d) < 2 ^ LENGTH(16)" by (rule unsigned_less)
  then have n: "0 < n" "n \<le> 65535" by (auto simp: n_def ct_preset_def)
  have f: "0 < f" "f \<le> 1000000000" using assms by (auto simp: f_def)
  have "n div f \<le> n" using zdiv_mono2 [of n 1 f] n f by simp
  then have nf: "0 \<le> n div f" "n div f < 1000000" "n div f < 1000000000"
    using n f by (auto simp: pos_imp_zdiv_nonneg_iff)
  have e: "from_ticks n f = Attotime (n div f) (n mod f * (1000000000000000000 div f))"
    using from_ticks_eval [OF f _ nf(3)] n by simp
  have r: "0 \<le> n mod f" "n mod f < f" using f by auto
  have wf: "wf_time (from_ticks n f)"
    using tick_fraction(2) [OF f r] r f nf unfolding e
    by (simp add: wf_time_def atto_consts pos_imp_zdiv_nonneg_iff)
  have tick: "0 < (1000000000000000000 :: int) div f"
    using zdiv_mono2 [of 1000000000000000000 f 1000000000] f by simp
  have pos: "0 < attos (from_ticks n f)"
  proof (cases "n mod f = 0")
    case True
    then have "0 < n div f" using n f by (metis add.right_neutral div_mult_mod_eq less_le mult_zero_left nf(1))
    with True show ?thesis by (simp add: e attos_def atto_consts)
  next
    case False
    then have "0 < n mod f * (1000000000000000000 div f)" using r tick by simp
    then show ?thesis using nf by (simp add: e attos_def atto_consts)
  qed
  have lt: "attos now + attos (from_ticks n f) < ATTOTIME_MAX_SECONDS * ATTOSECONDS_PER_SECOND"
    using assms(3,4) wf nf unfolding e by (simp add: wf_time_def attos_def atto_consts)
  have "as_ticks (from_ticks n f) f = n - of_bool (n mod f * (ATTOSECONDS_PER_SECOND mod f) \<noteq> 0)"
    using as_ticks_from_ticks [OF f _ nf(3)] n by simp
  moreover have "timer_remaining now (timer_adjust now (from_ticks n f) 0 attotime_never t) = from_ticks n f" for t
    by (rule remaining_after_adjust [OF assms(3) wf lt pos])
  moreover have "get_ct_count now (snd (duart_read now 14 d))
      = of_int (as_ticks (timer_remaining now (timer_adjust now (from_ticks n f) 0 attotime_never (duart_timer d))) f)"
    by (simp add: duart_read_def read_mc68681_def read_base_def case_prod_beta Let_def start_ct_def get_ct_count_def
        get_ct_rate_def ct_preset_def f_def n_def)
  ultimately show ?thesis by (simp add: Let_def f_def n_def)
qed

theorem duart_counter_start_witness:
  "get_ct_count attotime_zero (snd (duart_read attotime_zero 14
     (duart_write attotime_zero 7 100 (duart_write attotime_zero 4 0x30 power_on)))) = 99"
proof -
  let ?d = "duart_write attotime_zero 7 100 (duart_write attotime_zero 4 0x30 power_on)"
  have r: "get_ct_rate ?d = 230400" by code_simp
  moreover have "ct_preset ?d = 100" by code_simp
  ultimately show ?thesis
    using duart_counter_start [of ?d attotime_zero]
    by (simp add: Let_def wf_time_def attotime_zero_def atto_consts)
qed

section \<open>Baud rates and commands\<close>

text \<open>A write of the command register with no command and no enable bits.\<close>

lemma write_CR_0: "write_CR c 0 d = upd_chan c (\<lambda>ch. ch\<lparr>CR := 0\<rparr>) (chan_update_interrupts c d)"
  by (simp add: write_CR_def CR_command_def CR_enable_rx_def CR_enable_tx_def BITS_def BIT_def)

lemma extend_upd [simp]:
  "m_XRXA (upd_chan c f d) = m_XRXA d" "m_XTXA (upd_chan c f d) = m_XTXA d"
  "m_XRXB (upd_chan c f d) = m_XRXB d" "m_XTXB (upd_chan c f d) = m_XTXB d"
  by (simp_all add: upd_chan_def)

lemma extend_baud [simp]:
  "m_XRXA (baud_updated now c d) = m_XRXA d" "m_XTXA (baud_updated now c d) = m_XTXA d"
  by (simp_all add: baud_updated_def write_chan_reg_def write_CSR_def Let_def)

lemma write_cmd_0:
  "m_XRXA (write_mc68681 now 2 0 d) = m_XRXA d" "m_XTXA (write_mc68681 now 2 0 d) = m_XTXA d"
  by (simp_all add: write_mc68681_def write_base_def write_chan_reg_def write_CR_0 chan_update_interrupts_eq)

text \<open>Baud rate: after the firmware sets the extend bits of channel A (commands 0x80 and 0xa0) and
  selects clock 8 for both directions, the channel sends and receives at 115200 baud, whatever
  the auxiliary control register selects, and its bit timers run at half a bit time.\<close>

theorem duart_baud_115200:
  "let d' = duart_write now 1 0x88 (duart_write now 2 0xa0 (duart_write now 2 0x80 d));
       ch = m_chanA d'
   in tx_baud_rate ch = 115200 \<and> rx_baud_rate ch = 115200 \<and>
      m_tra_rate ch = attotime_div (from_hz 115200) 2 \<and> m_rcv_rate ch = attotime_div (from_hz 115200) 2"
proof -
  define d1 where "d1 = duart_write now 2 0x80 d"
  define d2 where "d2 = duart_write now 2 0xa0 d1"
  have "m_XRXA d1" by (simp add: d1_def duart_write_def extended_command_def write_cmd_0 set_extend_def)
  then have x: "m_XRXA d2" "m_XTXA d2"
    by (simp_all add: d2_def duart_write_def extended_command_def write_cmd_0 set_extend_def)
  have t: "baud_table True b ! 8 = 115200" for b
    by (cases b) (simp_all add: baud_table_def baud_rate_ACR_0_X_1_def baud_rate_ACR_1_X_1_def)
  have "BITS (0x88 :: u8) 4 4 = 8" by (simp add: BITS_def mask_eq_exp_minus_1 drop_bit_eq_div)
  then have "calc_baud 0 False (0x88 AND 0xf) d2 = 115200" "calc_baud 0 True (BITS 0x88 4 4) d2 = 115200"
    using x by (simp_all add: calc_baud_def Let_def t)
  moreover have "duart_write now 1 0x88 d2 = write_CSR now 0 0x88 d2"
    by (simp add: duart_write_def write_mc68681_def write_base_def write_chan_reg_def)
  ultimately show ?thesis
    unfolding d1_def [symmetric] d2_def [symmetric]
    by (simp add: write_CSR_def Let_def set_tra_rate_baud_def set_rcv_rate_baud_def set_tra_rate_def
        set_rcv_rate_def baud_to_rate_def receive_register_reset_def transmit_register_reset_def)
qed

text \<open>A receiver reset empties the FIFO but leaves the FFULL bit of the status register as it was,
  so that a full FIFO is still reported after it has been flushed.\<close>

theorem duart_reset_receiver_keeps_ffull:
  "let d' = write_CR c 0x20 d; ch = get_channel c d'
   in rx_fifo_num ch = 0 \<and> (bit (SR ch) 1 \<longleftrightarrow> bit (SR (get_channel c d)) 1)"
  by (simp add: write_CR_def CR_command_def CR_enable_rx_def CR_enable_tx_def BITS_cmd Let_def mask_bits bit_simps
      chan_update_mode_def reset_receiver_def receive_register_reset_def)

section \<open>A concrete transmission\<close>

theorem duart_transmits_frame_witness:
  "let d = duart_write attotime_zero 2 0x04 power_on; f = frame_bits (get_channel 0 d) 0x55;
       d' = tx_pulses (length f) attotime_zero 0 (write_TX attotime_zero 0 0x55 d)
   in tx_line 0 (m_out d') = tx_line 0 (m_out d) @ f \<and> is_transmit_register_empty (get_channel 0 d') \<and>
      bit (SR (get_channel 0 d')) 2 \<and> bit (SR (get_channel 0 d')) 3"
proof -
  let ?d = "duart_write attotime_zero 2 0x04 power_on"
  have "bit (SR (get_channel 0 ?d)) 2 \<and> is_transmit_register_empty (get_channel 0 ?d) \<and> tx_idle (get_channel 0 ?d) \<and>
    length (frame_bits (get_channel 0 ?d) 0x55) = 10"
    by code_simp
  then show ?thesis using duart_transmits_frame [of 0 ?d "0x55" attotime_zero] by (simp add: Let_def)
qed

end
