(* ===== verification/Crc16.thy ===== *)
theory Crc16
  imports Rosco_Prelude
begin

unbundle bit_operations_syntax

text \<open>
  The CRC-16 of \<^verbatim>\<open>src/lib/util/hashing.cpp\<close> (\<^verbatim>\<open>crc16_creator\<close>), which the SD card appends to its
  data blocks, and the big-endian accessors of \<^verbatim>\<open>src/lib/util/multibyte.h\<close>. The table-driven loop
  is proved equal to the bit-serial shift register of the polynomial \<open>0x1021\<close>.
\<close>

section \<open>The table-driven hash\<close>

definition s_table :: "u16 list" where
  "s_table =
     [0x0000, 0x1021, 0x2042, 0x3063, 0x4084, 0x50a5, 0x60c6, 0x70e7,
      0x8108, 0x9129, 0xa14a, 0xb16b, 0xc18c, 0xd1ad, 0xe1ce, 0xf1ef,
      0x1231, 0x0210, 0x3273, 0x2252, 0x52b5, 0x4294, 0x72f7, 0x62d6,
      0x9339, 0x8318, 0xb37b, 0xa35a, 0xd3bd, 0xc39c, 0xf3ff, 0xe3de,
      0x2462, 0x3443, 0x0420, 0x1401, 0x64e6, 0x74c7, 0x44a4, 0x5485,
      0xa56a, 0xb54b, 0x8528, 0x9509, 0xe5ee, 0xf5cf, 0xc5ac, 0xd58d,
      0x3653, 0x2672, 0x1611, 0x0630, 0x76d7, 0x66f6, 0x5695, 0x46b4,
      0xb75b, 0xa77a, 0x9719, 0x8738, 0xf7df, 0xe7fe, 0xd79d, 0xc7bc,
      0x48c4, 0x58e5, 0x6886, 0x78a7, 0x0840, 0x1861, 0x2802, 0x3823,
      0xc9cc, 0xd9ed, 0xe98e, 0xf9af, 0x8948, 0x9969, 0xa90a, 0xb92b,
      0x5af5, 0x4ad4, 0x7ab7, 0x6a96, 0x1a71, 0x0a50, 0x3a33, 0x2a12,
      0xdbfd, 0xcbdc, 0xfbbf, 0xeb9e, 0x9b79, 0x8b58, 0xbb3b, 0xab1a,
      0x6ca6, 0x7c87, 0x4ce4, 0x5cc5, 0x2c22, 0x3c03, 0x0c60, 0x1c41,
      0xedae, 0xfd8f, 0xcdec, 0xddcd, 0xad2a, 0xbd0b, 0x8d68, 0x9d49,
      0x7e97, 0x6eb6, 0x5ed5, 0x4ef4, 0x3e13, 0x2e32, 0x1e51, 0x0e70,
      0xff9f, 0xefbe, 0xdfdd, 0xcffc, 0xbf1b, 0xaf3a, 0x9f59, 0x8f78,
      0x9188, 0x81a9, 0xb1ca, 0xa1eb, 0xd10c, 0xc12d, 0xf14e, 0xe16f,
      0x1080, 0x00a1, 0x30c2, 0x20e3, 0x5004, 0x4025, 0x7046, 0x6067,
      0x83b9, 0x9398, 0xa3fb, 0xb3da, 0xc33d, 0xd31c, 0xe37f, 0xf35e,
      0x02b1, 0x1290, 0x22f3, 0x32d2, 0x4235, 0x5214, 0x6277, 0x7256,
      0xb5ea, 0xa5cb, 0x95a8, 0x8589, 0xf56e, 0xe54f, 0xd52c, 0xc50d,
      0x34e2, 0x24c3, 0x14a0, 0x0481, 0x7466, 0x6447, 0x5424, 0x4405,
      0xa7db, 0xb7fa, 0x8799, 0x97b8, 0xe75f, 0xf77e, 0xc71d, 0xd73c,
      0x26d3, 0x36f2, 0x0691, 0x16b0, 0x6657, 0x7676, 0x4615, 0x5634,
      0xd94c, 0xc96d, 0xf90e, 0xe92f, 0x99c8, 0x89e9, 0xb98a, 0xa9ab,
      0x5844, 0x4865, 0x7806, 0x6827, 0x18c0, 0x08e1, 0x3882, 0x28a3,
      0xcb7d, 0xdb5c, 0xeb3f, 0xfb1e, 0x8bf9, 0x9bd8, 0xabbb, 0xbb9a,
      0x4a75, 0x5a54, 0x6a37, 0x7a16, 0x0af1, 0x1ad0, 0x2ab3, 0x3a92,
      0xfd2e, 0xed0f, 0xdd6c, 0xcd4d, 0xbdaa, 0xad8b, 0x9de8, 0x8dc9,
      0x7c26, 0x6c07, 0x5c64, 0x4c45, 0x3ca2, 0x2c83, 0x1ce0, 0x0cc1,
      0xef1f, 0xff3e, 0xcf5d, 0xdf7c, 0xaf9b, 0xbfba, 0x8fd9, 0x9ff8,
      0x6e17, 0x7e36, 0x4e55, 0x5e74, 0x2e93, 0x3eb2, 0x0ed1, 0x1ef0]"

definition crc16_step :: "u16 \<Rightarrow> u8 \<Rightarrow> u16" where
  "crc16_step crc b = push_bit 8 crc XOR s_table ! unat (drop_bit 8 crc XOR ucast b)"

definition crc16_append :: "u16 \<Rightarrow> u8 list \<Rightarrow> u16" where
  "crc16_append crc data = foldl crc16_step crc data"

definition crc16_simple :: "u8 list \<Rightarrow> u16" where
  "crc16_simple data = crc16_append 0xffff data"

section \<open>Big-endian accessors\<close>

definition put_u16be :: "u16 \<Rightarrow> u8 list" where
  "put_u16be w = [ucast (drop_bit 8 w), ucast w]"

definition put_u32be :: "u32 \<Rightarrow> u8 list" where
  "put_u32be w = [ucast (drop_bit 24 w), ucast (drop_bit 16 w), ucast (drop_bit 8 w), ucast w]"

definition get_u16be :: "u8 list \<Rightarrow> u16" where
  "get_u16be b = push_bit 8 (ucast (b ! 0)) OR ucast (b ! 1)"

definition get_u32be :: "u8 list \<Rightarrow> u32" where
  "get_u32be b = push_bit 24 (ucast (b ! 0)) OR push_bit 16 (ucast (b ! 1)) OR push_bit 8 (ucast (b ! 2))
     OR ucast (b ! 3)"

section \<open>The bit-serial reference\<close>

definition crc_bit :: "u16 \<Rightarrow> bool \<Rightarrow> u16" where
  "crc_bit c b = push_bit 1 c XOR (if bit c 15 \<noteq> b then 0x1021 else 0)"

definition crc_byte :: "u16 \<Rightarrow> u8 \<Rightarrow> u16" where
  "crc_byte c w = foldl crc_bit c (map (bit w) [7, 6, 5, 4, 3, 2, 1, 0])"

definition crc_reference :: "u8 list \<Rightarrow> u16" where
  "crc_reference data = foldl crc_byte 0xffff data"

section \<open>Equivalence\<close>

text \<open>The register is linear in its content and its input.\<close>

lemma crc_bit_linear: "crc_bit (c XOR c') (b \<noteq> b') = crc_bit c b XOR crc_bit c' b'"
  unfolding crc_bit_def
  by (rule bit_word_eqI) (auto simp: bit_simps)

lemma crc_byte_linear: "crc_byte (c XOR c') (w XOR w') = crc_byte c w XOR crc_byte c' w'"
proof -
  have "foldl crc_bit (c XOR c') (map (bit (w XOR w')) ns) = foldl crc_bit c (map (bit w) ns) XOR foldl crc_bit c' (map (bit w') ns)"
    for ns
  proof (induction ns arbitrary: c c')
    case (Cons n ns)
    have "bit (w XOR w') n = (bit w n \<noteq> bit w' n)" by (simp add: bit_simps)
    then have "crc_bit (c XOR c') (bit (w XOR w') n) = crc_bit c (bit w n) XOR crc_bit c' (bit w' n)"
      by (simp only: crc_bit_linear)
    then show ?case using Cons [of "crc_bit c (bit w n)" "crc_bit c' (bit w' n)"] by simp
  qed simp
  then show ?thesis unfolding crc_byte_def .
qed

text \<open>A linear function of a byte is determined by its values on the eight single bits.\<close>

definition xor_linear :: "(u8 \<Rightarrow> u16) \<Rightarrow> bool" where
  "xor_linear f \<longleftrightarrow> (\<forall>a b. f (a XOR b) = f a XOR f b)"

lemma xor_linear_0: "xor_linear f \<Longrightarrow> f 0 = 0"
  unfolding xor_linear_def by (metis xor_self_eq)

lemma take_bit_Suc_xor:
  "take_bit (Suc k) (w :: u8) = take_bit k w XOR (if bit w k then push_bit k 1 else 0)"
  by (rule bit_word_eqI) (auto simp: bit_simps less_Suc_eq)

lemma xor_linear_ext:
  assumes "xor_linear f" "xor_linear g" "\<forall>i<8. f (push_bit i 1) = g (push_bit i 1)"
  shows "f w = g w"
proof -
  have "k \<le> 8 \<Longrightarrow> f (take_bit k w) = g (take_bit k w)" for k
  proof (induction k)
    case 0
    then show ?case using xor_linear_0 [OF assms(1)] xor_linear_0 [OF assms(2)] by simp
  next
    case (Suc k)
    then show ?case using assms xor_linear_0 [OF assms(1)] xor_linear_0 [OF assms(2)]
      by (simp add: take_bit_Suc_xor) (simp add: xor_linear_def)
  qed
  from this [of 8] show ?thesis by (simp add: take_bit_length_eq [of w, simplified])
qed

lemma xor_linear_crc [intro]:
  "xor_linear (crc_byte 0)" "xor_linear (\<lambda>w. crc_byte (push_bit 8 (ucast w)) 0)"
  "xor_linear (\<lambda>w. crc_byte (ucast w) 0)" "xor_linear (\<lambda>w. push_bit 8 (ucast w))"
proof -
  have u: "push_bit 8 (ucast (a XOR b)) = (push_bit 8 (ucast a) XOR push_bit 8 (ucast b) :: u16)"
    "ucast (a XOR b) = (ucast a XOR ucast b :: u16)" for a b :: u8
    by (rule bit_word_eqI; auto simp: bit_simps)+
  show "xor_linear (crc_byte 0)" using crc_byte_linear [of 0 0] by (simp add: xor_linear_def)
  show "xor_linear (\<lambda>w. crc_byte (push_bit 8 (ucast w)) 0)" "xor_linear (\<lambda>w. crc_byte (ucast w) 0)"
    using crc_byte_linear [of _ _ 0 0] by (simp_all add: xor_linear_def u)
  show "xor_linear (\<lambda>w. push_bit 8 (ucast w))" by (simp add: xor_linear_def u)
qed

lemma all_less_8: "(\<forall>i<8. P i) \<longleftrightarrow> P 0 \<and> P 1 \<and> P 2 \<and> P 3 \<and> P 4 \<and> P 5 \<and> P 6 \<and> P (7::nat)"
  by (metis less_8_cases)

lemma crc_high: "crc_byte (push_bit 8 (ucast (w :: u8))) 0 = crc_byte 0 w"
proof (rule xor_linear_ext [OF xor_linear_crc(2) xor_linear_crc(1)])
  show "\<forall>i<8. crc_byte (push_bit 8 (ucast (push_bit i 1 :: u8))) 0 = crc_byte 0 (push_bit i 1)"
    by (simp add: all_less_8 crc_byte_def crc_bit_def)
qed

lemma crc_low: "crc_byte (ucast (w :: u8)) 0 = push_bit 8 (ucast w)"
proof (rule xor_linear_ext [OF xor_linear_crc(3) xor_linear_crc(4)])
  show "\<forall>i<8. crc_byte (ucast (push_bit i 1 :: u8)) 0 = push_bit 8 (ucast (push_bit i 1 :: u8))"
    by (simp add: all_less_8 crc_byte_def crc_bit_def)
qed

text \<open>The table of a linear function, built from its values on the single bits.\<close>

definition build :: "u16 list \<Rightarrow> u16 list" where
  "build ks = foldl (\<lambda>t k. t @ map (\<lambda>x. x XOR k) t) [0] ks"

lemma build_snoc [simp]: "build [] = [0]" "build (ks @ [k]) = build ks @ map (\<lambda>x. x XOR k) (build ks)"
  by (simp_all add: build_def)

lemma length_build [simp]: "length (build ks) = 2 ^ length ks"
  by (induction ks rule: rev_induct) simp_all

lemma build_nth:
  assumes "xor_linear f"
  shows "k \<le> 8 \<Longrightarrow> build (map (\<lambda>i. f (push_bit i 1)) [0..<k]) ! unat (take_bit k w) = f (take_bit k w)"
proof (induction k)
  case 0
  then show ?case using xor_linear_0 [OF assms] by simp
next
  case (Suc k)
  let ?b = "build (map (\<lambda>i. f (push_bit i 1)) [0..<k])"
  have u: "unat (take_bit (Suc k) w) = unat (take_bit k w) + of_bool (bit w k) * 2 ^ k"
    by (simp add: unsigned_take_bit_eq take_bit_Suc_from_most bit_unsigned_iff)
  have lt: "unat (take_bit k w) < 2 ^ k" by (simp add: unsigned_take_bit_eq)
  have IH: "?b ! unat (take_bit k w) = f (take_bit k w)" using Suc by simp
  show ?case
  proof (cases "bit w k")
    case True
    then show ?thesis using u lt IH assms
      by (simp add: nth_append take_bit_Suc_xor xor_linear_def)
  next
    case False
    then show ?thesis using u lt IH by (simp add: nth_append take_bit_Suc_xor)
  qed
qed

lemma s_table_build: "s_table = build (map (\<lambda>i. crc_byte 0 (push_bit i 1)) [0..<8])"
proof -
  have "map (\<lambda>i. crc_byte 0 (push_bit i 1)) [0..<8] = [0x1021, 0x2042, 0x4084, 0x8108, 0x1231, 0x2462, 0x48c4, 0x9188]"
    by (simp add: upt_rec crc_byte_def crc_bit_def)
  then show ?thesis by (simp add: build_def s_table_def)
qed

lemma s_table_nth: "s_table ! unat w = crc_byte 0 w"
  using build_nth [OF xor_linear_crc(1), of 8 w] take_bit_length_eq [of w] by (simp add: s_table_build)

lemma crc16_step_eq: "crc16_step c b = crc_byte c b"
proof -
  let ?hi = "ucast (drop_bit 8 c) :: u8" and ?lo = "ucast c :: u8"
  have c: "c = push_bit 8 (ucast ?hi) XOR ucast ?lo"
    by (rule bit_word_eqI) (auto simp: bit_simps)
  have i: "unat (drop_bit 8 c XOR ucast b) = unat (?hi XOR b)"
  proof -
    have "drop_bit 8 c XOR ucast b = (ucast (?hi XOR b) :: u16)"
      by (rule bit_word_eqI) (auto simp: bit_simps dest: bit_imp_le_length)
    then show ?thesis by (simp add: unsigned_ucast_eq take_bit_nat_eq_self unsigned_less [of "?hi XOR b", simplified] less_trans [OF unsigned_less [of "?hi XOR b"]])
  qed
  have "crc_byte c b = crc_byte (push_bit 8 (ucast ?hi) XOR ucast ?lo) (b XOR 0)" using c by simp
  also have "\<dots> = crc_byte (push_bit 8 (ucast ?hi)) b XOR push_bit 8 (ucast ?lo)"
    by (simp only: crc_byte_linear crc_low)
  also have "crc_byte (push_bit 8 (ucast ?hi)) b = crc_byte (push_bit 8 (ucast ?hi) XOR 0) (0 XOR b)" by simp
  also have "\<dots> = crc_byte 0 (?hi XOR b)"
    by (simp only: crc_byte_linear crc_high) (simp add: crc_byte_linear [of 0 0, simplified])
  also have "push_bit 8 (ucast ?lo) = push_bit 8 c"
    by (rule bit_word_eqI) (auto simp: bit_simps)
  finally have "crc_byte c b = crc_byte 0 (?hi XOR b) XOR push_bit 8 c" .
  then show ?thesis unfolding crc16_step_def i s_table_nth by (simp only: xor.commute)
qed

text \<open>C36. The table-driven CRC-16 of every byte sequence equals the bit-serial shift register of the
  polynomial x^16 + x^12 + x^5 + 1 with initial value \<open>0xffff\<close>, most significant bit first.\<close>

theorem crc16_table_correct: "crc16_simple data = crc_reference data"
  by (simp add: crc16_simple_def crc16_append_def crc_reference_def crc16_step_eq [abs_def])

lemma get_put_u16be: "get_u16be (put_u16be w) = w"
  unfolding get_u16be_def put_u16be_def by (rule bit_word_eqI) (auto simp: bit_simps)

lemma get_put_u32be: "get_u32be (put_u32be w) = w"
proof (rule bit_word_eqI)
  fix n assume n: "n < LENGTH(32)"
  consider "n < 8" | "8 \<le> n" "n < 16" | "16 \<le> n" "n < 24" | "24 \<le> n" by linarith
  then show "bit (get_u32be (put_u32be w)) n = bit w n"
    by cases (use n in \<open>auto simp: get_u32be_def put_u32be_def bit_simps\<close>)
qed

end
