(* ===== verification/Store.thy ===== *)
theory Store
  imports Main
begin

text \<open>
  The contract that the memories, disks and cards of the development share: a store of values under keys, where a read
  returns what was written last. A provider interprets \<open>keyed_store\<close> on its own operations and gets the behaviour of every
  sequence of writes.
\<close>

locale keyed_store =
  fixes inv :: "'d \<Rightarrow> bool" and keys :: "'d \<Rightarrow> 'k set" and valid :: "'v \<Rightarrow> bool"
    and rd :: "'k \<Rightarrow> 'd \<Rightarrow> 'v" and wr :: "'k \<Rightarrow> 'v \<Rightarrow> 'd \<Rightarrow> 'd"
  assumes wr_inv: "inv d \<Longrightarrow> l \<in> keys d \<Longrightarrow> valid v \<Longrightarrow> inv (wr l v d) \<and> keys (wr l v d) = keys d"
    and rd_same: "inv d \<Longrightarrow> l \<in> keys d \<Longrightarrow> valid v \<Longrightarrow> rd l (wr l v d) = v"
    and rd_other: "inv d \<Longrightarrow> l \<in> keys d \<Longrightarrow> k \<in> keys d \<Longrightarrow> k \<noteq> l \<Longrightarrow> valid v \<Longrightarrow> rd k (wr l v d) = rd k d"
begin

lemma fold_wr:
  assumes "inv d" "\<forall>(l, v) \<in> set ws. l \<in> keys d \<and> valid v" "k \<in> keys d"
  shows "inv (fold (\<lambda>(l, v). wr l v) ws d) \<and> keys (fold (\<lambda>(l, v). wr l v) ws d) = keys d \<and>
    rd k (fold (\<lambda>(l, v). wr l v) ws d) = (case map_of (rev ws) k of Some v \<Rightarrow> v | None \<Rightarrow> rd k d)"
  using assms
proof (induction ws rule: rev_induct)
  case (snoc w ws)
  obtain l v where w: "w = (l, v)" by fastforce
  let ?d = "fold (\<lambda>(l, v). wr l v) ws d"
  have ih: "inv ?d" "keys ?d = keys d" "rd k ?d = (case map_of (rev ws) k of Some v \<Rightarrow> v | None \<Rightarrow> rd k d)"
    using snoc by auto
  have l: "l \<in> keys ?d" "valid v" using snoc.prems(2) ih(2) w by auto
  show ?case
    using wr_inv [OF ih(1) l] rd_same [OF ih(1) l] rd_other [OF ih(1) l(1) _ _ l(2), of k] ih snoc.prems(3)
    by (auto simp: w)
qed simp

end

end
