(* ===== verification/Harddisk.thy ===== *)
theory Harddisk
  imports Rosco_Prelude Store
begin

text \<open>
  The disk image of the SD card: \<^verbatim>\<open>hard_disk_file\<close> of \<^verbatim>\<open>src/lib/util/harddisk.cpp\<close> on a plain file,
  with the guess of the disk geometry from the length of the file and the sector accesses, and
  the device \<^verbatim>\<open>harddisk_image_device\<close> of \<^verbatim>\<open>src/devices/imagedev/harddriv.cpp\<close> that holds it. The
  file is the list of its bytes; \<^verbatim>\<open>io_read_error\<close> and \<^verbatim>\<open>io_write_error\<close> say whether the next call of
  the operating system fails. Compressed images (CHD) are not modelled.
\<close>

section \<open>State\<close>

record hard_disk_info =
  cylinders :: nat
  heads :: nat
  sectors :: nat
  sectorbytes :: nat

record hard_disk_file =
  fhandle :: "u8 list"
  hdinfo :: hard_disk_info
  fileoffset :: nat
  io_read_error :: bool
  io_write_error :: bool

text \<open>The device that holds the disk: the name of the image (empty when there is none), whether its
  file is open, and the disk on that file.\<close>

record harddisk_image =
  m_image_name :: string
  m_file_open :: bool
  m_hard_disk_handle :: "hard_disk_file option"

definition image_exists :: "harddisk_image \<Rightarrow> bool" where
  "image_exists img \<longleftrightarrow> m_image_name img \<noteq> []"

text \<open>The disk that an access of the image reaches: none when it was never mounted, or when its
  file is closed.\<close>

definition image_disk :: "harddisk_image \<Rightarrow> hard_disk_file option" where
  "image_disk img = (if m_file_open img then m_hard_disk_handle img else None)"

section \<open>Sector accesses\<close>

text \<open>The byte position of a sector: the product and the sum are computed in 32 bits.\<close>

definition sector_pos :: "nat \<Rightarrow> hard_disk_file \<Rightarrow> nat" where
  "sector_pos lbasector h = (fileoffset h + lbasector * sectorbytes (hdinfo h) mod 2 ^ 32) mod 2 ^ 32"

text \<open>Reading and writing at a position of a file. A write past the end extends the file.\<close>

definition file_read :: "nat \<Rightarrow> nat \<Rightarrow> u8 list \<Rightarrow> u8 list" where
  "file_read pos n f = take n (drop pos f)"

definition file_write :: "nat \<Rightarrow> u8 list \<Rightarrow> u8 list \<Rightarrow> u8 list" where
  "file_write pos bs f = take pos (f @ replicate (pos - length f) 0) @ bs @ drop (pos + length bs) f"

text \<open>\<^verbatim>\<open>hard_disk_file::read\<close>: the result, and the bytes that reached the buffer.\<close>

definition hd_read :: "nat \<Rightarrow> hard_disk_file \<Rightarrow> bool \<times> u8 list" where
  "hd_read lbasector h =
     (if io_read_error h then (False, [])
      else let bs = file_read (sector_pos lbasector h) (sectorbytes (hdinfo h)) (fhandle h)
           in (length bs = sectorbytes (hdinfo h), bs))"

definition hd_write :: "nat \<Rightarrow> u8 list \<Rightarrow> hard_disk_file \<Rightarrow> bool \<times> hard_disk_file" where
  "hd_write lbasector buffer h =
     (if io_write_error h then (False, h)
      else (True, h\<lparr>fhandle := file_write (sector_pos lbasector h)
                        (take (sectorbytes (hdinfo h)) buffer) (fhandle h)\<rparr>))"

definition set_block_size :: "nat \<Rightarrow> hard_disk_file \<Rightarrow> bool \<times> hard_disk_file" where
  "set_block_size blocksize h = (True, h\<lparr>hdinfo := (hdinfo h)\<lparr>sectorbytes := blocksize\<rparr>\<rparr>)"

section \<open>The geometry guess\<close>

text \<open>The inner loops of the constructor: the sector counts 63 down to 2, for each of them the head
  counts 16 down to 2.\<close>

fun guess_heads :: "nat \<Rightarrow> nat \<Rightarrow> nat option" where
  "guess_heads curheads totalheads =
     (if curheads > 1
      then (if totalheads mod curheads = 0 then Some curheads else guess_heads (curheads - 1) totalheads)
      else None)"

fun guess_sectors :: "nat \<Rightarrow> nat \<Rightarrow> (nat \<times> nat \<times> nat) option" where
  "guess_sectors cursectors totalsectors =
     (if cursectors > 1
      then (if totalsectors mod cursectors = 0
            then let totalheads = totalsectors div cursectors
                 in case guess_heads 16 totalheads of
                      Some curheads \<Rightarrow> Some (totalheads div curheads, curheads, cursectors)
                    | None \<Rightarrow> guess_sectors (cursectors - 1) totalsectors
            else guess_sectors (cursectors - 1) totalsectors)
      else None)"

declare guess_heads.simps [simp del] guess_sectors.simps [simp del]

text \<open>What a hit of the loops says, and that a multiple of four is always a hit.\<close>

lemma guess_heads_Some:
  "guess_heads n t = Some h \<Longrightarrow> 1 < h \<and> h \<le> n \<and> t mod h = 0"
proof (induction n t rule: guess_heads.induct)
  case (1 n t)
  then show ?case by (subst (asm) (2) guess_heads.simps) (auto split: if_splits)
qed

lemma guess_heads_hit: "1 < k \<Longrightarrow> k \<le> n \<Longrightarrow> t mod k = 0 \<Longrightarrow> guess_heads n t \<noteq> None"
proof (induction n t rule: guess_heads.induct)
  case (1 n t)
  show ?case
  proof (cases "t mod n = 0")
    case False
    with "1.prems" have "k \<noteq> n" by auto
    then show ?thesis using 1 False by (subst guess_heads.simps) auto
  qed (use "1.prems" in \<open>subst guess_heads.simps, simp\<close>)
qed

lemma guess_sectors_Some:
  "guess_sectors n t = Some (c, h, s) \<Longrightarrow> 1 < s \<and> s \<le> n \<and> 1 < h \<and> h \<le> 16 \<and> c * h * s = t"
proof (induction n t rule: guess_sectors.induct)
  case (1 n t)
  have g: "guess_sectors n t = Some (c, h, s)" by fact
  then have n: "n > 1" by (subst (asm) guess_sectors.simps) (auto split: if_splits)
  show ?case
  proof (cases "t mod n = 0 \<and> guess_heads 16 (t div n) \<noteq> None")
    case True
    then obtain h' where h: "guess_heads 16 (t div n) = Some h'" by auto
    then have r: "c = t div n div h'" "h = h'" "s = n"
      using g True n by (subst (asm) guess_sectors.simps, simp add: Let_def)+
    have "1 < h'" "h' \<le> 16" "t div n mod h' = 0" using guess_heads_Some [OF h] by auto
    moreover have "t div n div h' * h' * n = t" using calculation(3) True by auto
    ultimately show ?thesis using r n by simp
  next
    case False
    then have "guess_sectors (n - 1) t = Some (c, h, s)"
      using g n by (subst (asm) guess_sectors.simps) (auto simp: Let_def split: if_splits option.splits)
    then have "1 < s \<and> s \<le> n - 1 \<and> 1 < h \<and> h \<le> 16 \<and> c * h * s = t"
      using 1 n False by (cases "t mod n = 0") auto
    then show ?thesis by auto
  qed
qed

lemma guess_sectors_hit: "1 < n \<Longrightarrow> 4 dvd t \<Longrightarrow> guess_sectors n t \<noteq> None"
proof (induction n t rule: guess_sectors.induct)
  case (1 n t)
  show ?case
  proof (cases "t mod n = 0 \<and> guess_heads 16 (t div n) \<noteq> None")
    case True
    then show ?thesis using "1.prems" by (subst guess_sectors.simps) (auto simp: Let_def)
  next
    case False
    have "n \<noteq> 2"
    proof
      assume "n = 2"
      moreover have "t div 2 mod 2 = 0" "t mod 2 = 0" using "1.prems"(2) by presburger+
      ultimately show False using False guess_heads_hit [of 2 16 "t div 2"] by simp
    qed
    with "1.prems" have "1 < n - 1" by simp
    then have "guess_sectors (n - 1) t \<noteq> None" using 1 False by (cases "t mod n = 0") auto
    then show ?thesis using False "1.prems"
      by (subst guess_sectors.simps) (auto simp: Let_def split: option.splits)
  qed
qed

text \<open>The distance to the next multiple of four.\<close>

lemma mod_4_step:
  fixes n :: nat
  assumes "\<not> 4 dvd n"
  shows "(4 - n mod 4) mod 4 = Suc ((4 - (n + 1) mod 4) mod 4)"
proof -
  have "n mod 4 \<noteq> 0" using assms by (simp add: dvd_eq_mod_eq_0)
  moreover have "n mod 4 < 4" by simp
  ultimately consider "n mod 4 = 1" | "n mod 4 = 2" | "n mod 4 = 3" by linarith
  then show ?thesis by cases (simp_all add: mod_Suc)
qed

text \<open>The outer loop over the number of sectors, a 32-bit counter. It ends at the next multiple of
  four at the latest.\<close>

function guess_geometry :: "nat \<Rightarrow> nat \<times> nat \<times> nat" where
  "guess_geometry totalsectors =
     (case guess_sectors 63 totalsectors of
        Some chs \<Rightarrow> chs
      | None \<Rightarrow> guess_geometry ((totalsectors + 1) mod 2 ^ 32))"
  by auto
termination
proof (relation "measure (\<lambda>n. (4 - n mod 4) mod 4)")
  fix n :: nat
  assume "guess_sectors 63 n = None"
  then have "\<not> 4 dvd n" using guess_sectors_hit [of 63 n] by auto
  moreover have "(n + 1) mod 2 ^ 32 mod 4 = (n + 1) mod 4" by (simp add: mod_mod_cancel)
  ultimately show "((n + 1) mod 2 ^ 32, n) \<in> measure (\<lambda>n. (4 - n mod 4) mod 4)"
    using mod_4_step [of n] by (simp add: in_measure)
qed simp

declare guess_geometry.simps [simp del]

text \<open>The constructor on a plain file, with \<^verbatim>\<open>skipoffs\<close> bytes before the disk.\<close>

definition hard_disk_file_init :: "u8 list \<Rightarrow> nat \<Rightarrow> hard_disk_file" where
  "hard_disk_file_init f skipoffs =
     (let len = nat ((int (length f) - int skipoffs) mod 2 ^ 64);
          (c, h, s) = guess_geometry (len div 512 mod 2 ^ 32)
      in \<lparr>fhandle = f, hdinfo = \<lparr>cylinders = c, heads = h, sectors = s, sectorbytes = 512\<rparr>,
          fileoffset = skipoffs, io_read_error = False, io_write_error = False\<rparr>)"

section \<open>Mounting an image\<close>

definition get_u32le :: "u8 list \<Rightarrow> nat" where
  "get_u32le b = unat (b ! 0) + unat (b ! 1) * 2 ^ 8 + unat (b ! 2) * 2 ^ 16 + unat (b ! 3) * 2 ^ 24"

text \<open>The number of bytes before the disk in a plain image file of at least 64 bytes: a 2MG header
  (\<^verbatim>\<open>2IMG\<close>), or an HDI header whose data size fits the file.\<close>

definition image_skip :: "bool \<Rightarrow> u8 list \<Rightarrow> nat" where
  "image_skip is_hdi f =
     (if take 4 f = [0x32, 0x49, 0x4d, 0x47] then get_u32le (drop 0x18 f)
      else if is_hdi then
        (let skip = get_u32le (drop 0x8 f)
         in if int (get_u32le (drop 0xc f)) = (int (length f) - int skip) mod 2 ^ 64 then skip else 0)
      else 0)"

text \<open>\<^verbatim>\<open>internal_load_hd\<close> on the open file \<open>f\<close>; \<open>clear\<close> closes the file and forgets the name,
  but leaves the disk of a derived device in place.\<close>

definition internal_load_hd :: "bool \<Rightarrow> u8 list \<Rightarrow> harddisk_image \<Rightarrow> harddisk_image" where
  "internal_load_hd is_hdi f img =
     img\<lparr>m_hard_disk_handle := Some (hard_disk_file_init f (image_skip is_hdi f))\<rparr>"

definition image_clear :: "harddisk_image \<Rightarrow> harddisk_image" where
  "image_clear img = img\<lparr>m_image_name := [], m_file_open := False\<rparr>"

section \<open>Properties\<close>

definition total_sectors :: "hard_disk_info \<Rightarrow> nat" where
  "total_sectors i = cylinders i * heads i * sectors i"

lemma guess_geometry_step:
  assumes "guess_geometry n = (c, h, s)" "n + 3 < 2 ^ 32"
  shows "1 < s \<and> s \<le> 63 \<and> 1 < h \<and> h \<le> 16 \<and> n \<le> c * h * s \<and> c * h * s \<le> n + (4 - n mod 4) mod 4"
  using assms
proof (induction n rule: guess_geometry.induct)
  case (1 n)
  show ?case
  proof (cases "guess_sectors 63 n")
    case None
    then have m: "(4 - n mod 4) mod 4 = Suc ((4 - (n + 1) mod 4) mod 4)"
      using guess_sectors_hit [of 63 n] mod_4_step [of n] by auto
    show ?thesis
    proof (cases "n + 4 < 2 ^ 32")
      case True
      then have n1: "(n + 1) mod 2 ^ 32 = n + 1" by simp
      have "guess_geometry (n + 1) = (c, h, s)"
        using "1.prems"(1) None n1 by (subst (asm) guess_geometry.simps) simp
      then show ?thesis using "1.IH" [OF None] n1 True m by auto
    next
      case False
      with "1.prems"(2) have "n = 4294967292" by simp
      then have "4 dvd n" by simp
      then show ?thesis using None guess_sectors_hit [of 63 n] by simp
    qed
  next
    case (Some chs)
    then show ?thesis
      using "1.prems"(1) guess_sectors_Some [of 63 n c h s] by (subst (asm) guess_geometry.simps) simp
  qed
qed

text \<open>The geometry guess always ends, and for a disk of \<open>n\<close> sectors it gives a geometry with 2 to
  63 sectors per track and 2 to 16 heads whose number of sectors is at least \<open>n\<close> and exceeds it
  by less than four, and equals it when \<open>n\<close> is a multiple of four.\<close>

theorem geometry_guess_close:
  assumes "n + 3 < 2 ^ 32"
  shows "let (c, h, s) = guess_geometry n
         in 1 < s \<and> s \<le> 63 \<and> 1 < h \<and> h \<le> 16 \<and> n \<le> c * h * s \<and> c * h * s < n + 4 \<and>
            (4 dvd n \<longrightarrow> c * h * s = n)"
proof -
  obtain c h s where g: "guess_geometry n = (c, h, s)" by (metis prod_cases3)
  have "(4 - n mod 4) mod 4 < 4" "4 dvd n \<longrightarrow> (4 - n mod 4) mod 4 = 0" by auto
  then show ?thesis using guess_geometry_step [OF g assms] by (auto simp: g)
qed

theorem geometry_guess_close_witness:
  "let (c, h, s) = guess_geometry 204800
   in 1 < s \<and> s \<le> 63 \<and> 1 < h \<and> h \<le> 16 \<and> 204800 \<le> c * h * s \<and> c * h * s < 204800 + 4 \<and>
      (4 dvd (204800 :: nat) \<longrightarrow> c * h * s = 204800)"
  by (rule geometry_guess_close) simp

section \<open>The disk as a store of sectors\<close>

text \<open>The contract of a block device: what a read returns after a write of the same and of another
  block. \<open>blocks\<close> are the addresses the device distinguishes.\<close>

locale block_device = keyed_store inv blocks "\<lambda>bs. length bs = size" rd wr
  for inv :: "'d \<Rightarrow> bool" and blocks :: "'d \<Rightarrow> nat set" and size :: nat
    and rd :: "nat \<Rightarrow> 'd \<Rightarrow> u8 list" and wr :: "nat \<Rightarrow> u8 list \<Rightarrow> 'd \<Rightarrow> 'd"

text \<open>A mounted disk with no failing system calls and no sector beyond the 32-bit range.\<close>

definition disk_ok :: "hard_disk_file \<Rightarrow> bool" where
  "disk_ok h \<longleftrightarrow> sectorbytes (hdinfo h) = 512 \<and> \<not> io_read_error h \<and> \<not> io_write_error h"

definition disk_blocks :: "hard_disk_file \<Rightarrow> nat set" where
  "disk_blocks h = {l. fileoffset h + (l + 1) * 512 \<le> length (fhandle h) \<and> fileoffset h + (l + 1) * 512 \<le> 2 ^ 32}"

lemma sector_pos_block:
  assumes "disk_ok h" "l \<in> disk_blocks h"
  shows "sector_pos l h = fileoffset h + l * 512"
  using assms by (simp add: disk_ok_def disk_blocks_def sector_pos_def)

lemma length_file_write: "pos + length bs \<le> length f \<Longrightarrow> length (file_write pos bs f) = length f"
  by (simp add: file_write_def)

lemma file_read_write_same: "pos + length bs \<le> length f \<Longrightarrow> file_read pos (length bs) (file_write pos bs f) = bs"
  by (simp add: file_read_def file_write_def)

lemma file_read_write_other:
  assumes "pos + length bs \<le> length f" "q + n \<le> pos \<or> pos + length bs \<le> q" "q + n \<le> length f"
  shows "file_read q n (file_write pos bs f) = file_read q n f"
proof (rule nth_equalityI)
  show "length (file_read q n (file_write pos bs f)) = length (file_read q n f)"
    using assms length_file_write [OF assms(1)] by (simp add: file_read_def)
  fix i assume "i < length (file_read q n (file_write pos bs f))"
  then have i: "i < n" by (simp add: file_read_def)
  have "file_write pos bs f ! (q + i) = f ! (q + i)"
    using assms i by (auto simp: file_write_def nth_append min_def)
  then show "file_read q n (file_write pos bs f) ! i = file_read q n f ! i"
    using i assms length_file_write [OF assms(1)] by (simp add: file_read_def)
qed

interpretation disk: block_device disk_ok disk_blocks 512 "\<lambda>l h. snd (hd_read l h)" "\<lambda>l bs h. snd (hd_write l bs h)"
proof unfold_locales
  fix h :: hard_disk_file and l :: nat and bs :: "u8 list"
  assume a: "disk_ok h" "l \<in> disk_blocks h" "length bs = (512 :: nat)"
  have p: "fileoffset h + l * 512 + length bs \<le> length (fhandle h)" using a by (simp add: disk_blocks_def)
  have w: "snd (hd_write l bs h) = h\<lparr>fhandle := file_write (fileoffset h + l * 512) bs (fhandle h)\<rparr>"
    using a sector_pos_block [OF a(1,2)] by (simp add: hd_write_def disk_ok_def)
  show ok: "disk_ok (snd (hd_write l bs h)) \<and> disk_blocks (snd (hd_write l bs h)) = disk_blocks h"
    using a(1) length_file_write [OF p] by (simp add: w disk_ok_def disk_blocks_def)
  have r: "snd (hd_read k (snd (hd_write l bs h)))
      = file_read (fileoffset h + k * 512) 512 (file_write (fileoffset h + l * 512) bs (fhandle h))"
    if "k \<in> disk_blocks h" for k
  proof -
    have "sector_pos k (snd (hd_write l bs h)) = fileoffset h + k * 512"
      using sector_pos_block [of "snd (hd_write l bs h)" k] ok that by (simp add: w)
    then show ?thesis using ok by (simp add: hd_read_def disk_ok_def Let_def) (simp add: w)
  qed
  show "snd (hd_read l (snd (hd_write l bs h))) = bs"
    using r [OF a(2)] file_read_write_same [OF p] a(3) by simp
  fix k assume k: "k \<in> disk_blocks h" "k \<noteq> l"
  have d: "fileoffset h + k * 512 + 512 \<le> fileoffset h + l * 512 \<or> fileoffset h + l * 512 + length bs \<le> fileoffset h + k * 512"
    using k(2) a(3) by (cases "k < l") (auto simp: not_less_iff_gr_or_eq)
  have "fileoffset h + k * 512 + 512 \<le> length (fhandle h)" using k by (simp add: disk_blocks_def)
  then show "snd (hd_read k (snd (hd_write l bs h))) = snd (hd_read k h)"
    using r [OF k(1)] file_read_write_other [OF p d] sector_pos_block [OF a(1) k(1)] a(1)
    by (simp add: hd_read_def disk_ok_def Let_def)
qed

text \<open>A plain disk image stores sectors: after any sequence of successful sector writes, a read of a
  sector returns the data written to it last, or its original data if it was not written. This
  holds for all sectors inside the file whose byte position is below 4 GiB.\<close>

theorem disk_reads_last_write:
  assumes "disk_ok h" "\<forall>(l, bs) \<in> set ws. l \<in> disk_blocks h \<and> length bs = 512" "k \<in> disk_blocks h"
  shows "snd (hd_read k (fold (\<lambda>(l, bs) h. snd (hd_write l bs h)) ws h))
    = (case map_of (rev ws) k of Some bs \<Rightarrow> bs | None \<Rightarrow> snd (hd_read k h))"
  using disk.fold_wr [OF assms] by simp

theorem disk_reads_last_write_witness:
  "snd (hd_read 1 (fold (\<lambda>(l, bs) h. snd (hd_write l bs h)) [(1, replicate 512 7), (0, replicate 512 8)]
      (hard_disk_file_init (replicate 2048 0) 0))) = replicate 512 7"
proof -
  let ?h = "hard_disk_file_init (replicate 2048 0) 0"
  obtain c h s where g: "guess_geometry 4 = (c, h, s)" by (metis prod_cases3)
  have h: "disk_ok ?h" "fhandle ?h = replicate 2048 0" "fileoffset ?h = 0"
    by (simp_all add: hard_disk_file_init_def disk_ok_def g)
  then show ?thesis
    using disk_reads_last_write [of ?h "[(1, replicate 512 7), (0, replicate 512 8)]" 1]
    by (simp add: disk_blocks_def)
qed

text \<open>The byte position of a sector is computed in 32 bits: on a disk with 512-byte sectors,
  sector numbers that differ by a multiple of 2^23 (4 GiB) address the same bytes, so a read of
  one returns what was written to the other.\<close>

theorem disk_sectors_alias:
  assumes "sectorbytes (hdinfo h) = 512"
  shows "hd_read (l + n * 2 ^ 23) h = hd_read l h \<and> hd_write (l + n * 2 ^ 23) bs h = hd_write l bs h"
proof -
  have "(l + n * 2 ^ 23) * 512 mod 2 ^ 32 = l * 512 mod (2 ^ 32 :: nat)"
  proof -
    have "(l + n * 2 ^ 23) * 512 = l * 512 + n * 2 ^ 32" by simp
    then show ?thesis by (simp only: mod_mult_self1)
  qed
  then have "sector_pos (l + n * 2 ^ 23) h = sector_pos l h" using assms by (simp add: sector_pos_def)
  then show ?thesis by (simp add: hd_read_def hd_write_def)
qed

theorem disk_sectors_alias_witness:
  "hd_read (5 + 2 * 2 ^ 23) (hard_disk_file_init [] 0) = hd_read 5 (hard_disk_file_init [] 0)"
proof -
  obtain c h s where g: "guess_geometry 0 = (c, h, s)" by (metis prod_cases3)
  have "sectorbytes (hdinfo (hard_disk_file_init [] 0)) = 512" by (simp add: hard_disk_file_init_def g)
  then show ?thesis using disk_sectors_alias [of "hard_disk_file_init [] 0" 5 2] by blast
qed

end
