(* ===== verification/Spi_Sdcard.thy ===== *)
theory Spi_Sdcard
  imports Crc16 Harddisk
begin

unbundle bit_operations_syntax

text \<open>
  The SD card on the SPI bus, \<^verbatim>\<open>spi_sdcard_device\<close> of \<^verbatim>\<open>src/devices/machine/spi_sdcard.cpp\<close>: its pins,
  its shift registers, its commands and the card-specific data it derives from the mounted image.
  Bytes are words; the counters are natural numbers with the wrap-around of their width written
  out. The levels written to MISO are logged in \<open>sd_miso\<close>. An access outside one of the arrays, or
  through the handle of an image that is not mounted, sets the flag \<open>sd_ub\<close> instead of the
  undefined behaviour of the C++ code.
\<close>

section \<open>State\<close>

datatype sd_type = SD_TYPE_V2 | SD_TYPE_HC

datatype sd_state =
    SD_STATE_IDLE | SD_STATE_READY | SD_STATE_IDENT | SD_STATE_STBY | SD_STATE_TRAN | SD_STATE_DATA
  | SD_STATE_DATA_MULTI | SD_STATE_RCV | SD_STATE_PRG | SD_STATE_DIS | SD_STATE_INA
  | SD_STATE_WRITE_WAITFE | SD_STATE_WRITE_DATA

datatype image_error = INVALIDIMAGE

abbreviation DATA_RESPONSE_OK :: u8 where "DATA_RESPONSE_OK \<equiv> 0x05"
abbreviation DATA_RESPONSE_IO_ERROR :: u8 where "DATA_RESPONSE_IO_ERROR \<equiv> 0x0d"
abbreviation SPI_DELAY_RESPONSE :: nat where "SPI_DELAY_RESPONSE \<equiv> 1"

record sdcard =
  m_image :: harddisk_image
  m_preferred_type :: sd_type
  m_sectorbuf :: "u8 list"
  m_blksize :: nat
  m_type :: sd_type
  m_csd :: "u8 list"
  m_data :: "u8 list"
  m_cmd :: "u8 list"
  m_state :: sd_state
  m_ss :: bool
  m_in_bit :: bool
  m_clk_state :: bool
  m_in_latch :: u8
  m_out_latch :: u8
  m_cur_bit :: nat
  m_out_delay :: nat
  m_out_count :: nat
  m_out_ptr :: nat
  m_write_ptr :: nat
  m_xferblk :: nat
  m_blknext :: nat
  m_crc_off :: bool
  m_bACMD :: bool
  sd_miso :: "bool list"
  sd_ub :: bool

text \<open>The constructor and \<^verbatim>\<open>device_start\<close>, with no image mounted.\<close>

definition sdcard_init :: sdcard where
  "sdcard_init =
     \<lparr>m_image = \<lparr>m_image_name = [], m_file_open = False, m_hard_disk_handle = None\<rparr>,
       m_preferred_type = SD_TYPE_V2, m_sectorbuf = [],
      m_blksize = 512, m_type = SD_TYPE_V2, m_csd = replicate 16 0, m_data = replicate (2048 + 8) 0,
      m_cmd = replicate 6 0xff, m_state = SD_STATE_IDLE, m_ss = False, m_in_bit = False,
      m_clk_state = False, m_in_latch = 0, m_out_latch = 0xff, m_cur_bit = 0, m_out_delay = 0,
      m_out_count = 0, m_out_ptr = 0, m_write_ptr = 0, m_xferblk = 512, m_blknext = 0,
      m_crc_off = True, m_bACMD = False, sd_miso = [], sd_ub = False\<rparr>"

definition set_prefer_sd :: "sdcard \<Rightarrow> sdcard" where
  "set_prefer_sd s = s\<lparr>m_preferred_type := SD_TYPE_V2\<rparr>"

definition set_prefer_sdhc :: "sdcard \<Rightarrow> sdcard" where
  "set_prefer_sdhc s = s\<lparr>m_preferred_type := SD_TYPE_HC\<rparr>"

text \<open>Stores into \<^verbatim>\<open>m_data\<close> and the transfers between it and the image.\<close>

definition list_put :: "nat \<Rightarrow> 'a list \<Rightarrow> 'a list \<Rightarrow> 'a list" where
  "list_put i bs xs = take i xs @ bs @ drop (i + length bs) xs"

definition data_put :: "nat \<Rightarrow> u8 list \<Rightarrow> sdcard \<Rightarrow> sdcard" where
  "data_put i bs s =
     (if i + length bs \<le> length (m_data s) then s\<lparr>m_data := list_put i bs (m_data s)\<rparr>
      else s\<lparr>sd_ub := True\<rparr>)"

definition data_get :: "nat \<Rightarrow> nat \<Rightarrow> sdcard \<Rightarrow> u8 list" where
  "data_get i n s = take n (drop i (m_data s))"

definition image_read :: "nat \<Rightarrow> nat \<Rightarrow> sdcard \<Rightarrow> sdcard" where
  "image_read blk i s =
     (case image_disk (m_image s) of
        None \<Rightarrow> s\<lparr>sd_ub := True\<rparr>
      | Some h \<Rightarrow> data_put i (snd (hd_read blk h)) s)"

definition image_read_sectorbuf :: "nat \<Rightarrow> sdcard \<Rightarrow> sdcard" where
  "image_read_sectorbuf blk s =
     (case image_disk (m_image s) of
        None \<Rightarrow> s\<lparr>sd_ub := True\<rparr>
      | Some h \<Rightarrow>
          let bs = snd (hd_read blk h)
          in if length bs \<le> length (m_sectorbuf s) then s\<lparr>m_sectorbuf := list_put 0 bs (m_sectorbuf s)\<rparr>
             else s\<lparr>sd_ub := True\<rparr>)"

definition image_write :: "nat \<Rightarrow> sdcard \<Rightarrow> bool \<times> sdcard" where
  "image_write blk s =
     (case image_disk (m_image s) of
        None \<Rightarrow> (False, s\<lparr>sd_ub := True\<rparr>)
      | Some h \<Rightarrow>
          let (ok, h1) = hd_write blk (m_data s) h
          in (ok, s\<lparr>m_image := (m_image s)\<lparr>m_hard_disk_handle := Some h1\<rparr>\<rparr>))"

section \<open>Commands\<close>

definition send_data :: "nat \<Rightarrow> sd_state \<Rightarrow> nat \<Rightarrow> sdcard \<Rightarrow> sdcard" where
  "send_data count new_state delay s =
     s\<lparr>m_out_delay := delay, m_out_ptr := 0, m_out_count := count mod 2 ^ 16, m_state := new_state\<rparr>"

abbreviation respond :: "u8 list \<Rightarrow> sd_state \<Rightarrow> sdcard \<Rightarrow> sdcard" where
  "respond bs new_state s \<equiv> send_data (length bs) new_state SPI_DELAY_RESPONSE (data_put 0 bs s)"

definition cmd0_go_idle_state :: "sdcard \<Rightarrow> sdcard" where
  "cmd0_go_idle_state s =
     (if image_exists (m_image s) then respond [0x01] SD_STATE_IDLE s else respond [0x00] SD_STATE_INA s)"

definition cmd1_send_op_cond :: "sdcard \<Rightarrow> sdcard" where
  "cmd1_send_op_cond s = respond [0x00] SD_STATE_READY s"

definition cmd8_send_if_cond :: "sdcard \<Rightarrow> sdcard" where
  "cmd8_send_if_cond s = respond [0x01, 0, 0, 0x01, 0xaa] SD_STATE_IDLE s"

definition cmd9_send_csd :: "sdcard \<Rightarrow> sdcard" where
  "cmd9_send_csd s =
     send_data (3 + length (m_csd s)) SD_STATE_STBY SPI_DELAY_RESPONSE
       (data_put 3 (m_csd s) (data_put 0 [0x00, 0xff, 0xfe] s))"

text \<open>The card identification: \<^verbatim>\<open>M\<close>, \<^verbatim>\<open>MD\<close>, \<^verbatim>\<open>MCARD\<close>, revision, serial number, date and a zero CRC7.\<close>

definition cid :: "u8 list" where
  "cid = [0x4d, 0x4d, 0x44, 0x4d, 0x43, 0x41, 0x52, 0x44, 0x10] @ put_u32be 0x12345678 @ [0x01, 0x59, 0x00]"

definition cmd10_send_cid :: "sdcard \<Rightarrow> sdcard" where
  "cmd10_send_cid s =
     (let s1 = data_put 0 ([0x00, 0xff, 0xfe] @ cid) s;
          s2 = data_put 19 (put_u16be (crc16_simple (data_get 3 16 s1))) s1
      in send_data (3 + 16 + 2) SD_STATE_STBY SPI_DELAY_RESPONSE s2)"

definition cmd12_stop_transmission :: "sdcard \<Rightarrow> sdcard" where
  "cmd12_stop_transmission s =
     respond [0] (if m_state s = SD_STATE_RCV then SD_STATE_PRG else SD_STATE_TRAN) s"

definition cmd13_send_status :: "sdcard \<Rightarrow> sdcard" where
  "cmd13_send_status s = respond [0, 0] SD_STATE_STBY s"

definition cmd16_set_blocklen :: "sdcard \<Rightarrow> sdcard" where
  "cmd16_set_blocklen s =
     (if image_exists (m_image s) then
        let blocklen = unat (get_u16be (drop 3 (m_cmd s)))
        in if blocklen \<noteq> 0 \<and> (m_type s = SD_TYPE_V2 \<or> blocklen = m_blksize s) \<and> blocklen \<le> m_blksize s
           then respond [0x00] SD_STATE_TRAN (s\<lparr>m_xferblk := blocklen\<rparr>)
           else respond [0x40] SD_STATE_TRAN s
      else respond [0xff] SD_STATE_TRAN s)"

text \<open>The block that follows its token in \<^verbatim>\<open>m_data\<close> from index \<open>i\<close> gets its CRC behind it.\<close>

definition append_crc :: "nat \<Rightarrow> nat \<Rightarrow> sdcard \<Rightarrow> sdcard" where
  "append_crc i n s = data_put (i + n) (put_u16be (crc16_simple (data_get i n s))) s"

definition cmd17_read_single_block :: "sdcard \<Rightarrow> sdcard" where
  "cmd17_read_single_block s =
     (if image_exists (m_image s) then
        let s1 = data_put 0 [0x00, 0xff, 0xfe] s;
            blk = unat (get_u32be (drop 1 (m_cmd s1)));
            bs = m_blksize s1; xb = m_xferblk s1
        in if m_type s1 = SD_TYPE_V2 \<and> blk div bs \<noteq> (blk + xb + 2 ^ 32 - 1) mod 2 ^ 32 div bs
           then respond [0x40] SD_STATE_TRAN s1
           else if xb = bs
           then let lba = (if m_type s1 = SD_TYPE_V2 then blk div bs else blk)
                in send_data (3 + xb + 2) SD_STATE_DATA SPI_DELAY_RESPONSE (append_crc 3 xb (image_read lba 3 s1))
           else let s2 = image_read_sectorbuf (blk div bs) s1;
                    s3 = (if blk mod bs + xb \<le> length (m_sectorbuf s2)
                          then data_put 3 (take xb (drop (blk mod bs) (m_sectorbuf s2))) s2
                          else s2\<lparr>sd_ub := True\<rparr>)
                in send_data (3 + xb + 2) SD_STATE_DATA SPI_DELAY_RESPONSE (append_crc 3 xb s3)
      else respond [0xff] SD_STATE_TRAN s)"

definition cmd18_read_multiple_block :: "sdcard \<Rightarrow> sdcard" where
  "cmd18_read_multiple_block s =
     (if image_exists (m_image s) then
        (if m_xferblk s = m_blksize s then
           let s1 = data_put 0 [0x00] s;
               blk = unat (get_u32be (drop 1 (m_cmd s1)));
               s2 = s1\<lparr>m_blknext := (if m_type s1 = SD_TYPE_V2 then blk div m_xferblk s1 else blk)\<rparr>
           in send_data 1 SD_STATE_DATA_MULTI SPI_DELAY_RESPONSE s2
         else respond [0x40] SD_STATE_TRAN s)
      else respond [0xff] SD_STATE_TRAN s)"

definition cmd24_write_block :: "sdcard \<Rightarrow> sdcard" where
  "cmd24_write_block s =
     (if m_xferblk s \<noteq> m_blksize s then respond [0x40] SD_STATE_TRAN s
      else
        let blk = unat (get_u32be (drop 1 (m_cmd s))); s1 = s\<lparr>m_blknext := blk\<rparr>
        in if m_type s1 = SD_TYPE_V2 \<and> blk mod m_blksize s1 \<noteq> 0 then respond [0x40] SD_STATE_TRAN s1
           else respond [0] SD_STATE_WRITE_WAITFE
                  (if m_type s1 = SD_TYPE_V2 then s1\<lparr>m_blknext := blk div m_xferblk s1\<rparr> else s1))"

definition cmd41_send_op_cond :: "sdcard \<Rightarrow> sdcard" where
  "cmd41_send_op_cond s =
     (if m_bACMD s then respond [0] SD_STATE_READY s else respond [0xff] SD_STATE_INA s)"

definition cmd55_app_cmd :: "sdcard \<Rightarrow> sdcard" where
  "cmd55_app_cmd s = respond [0x01] SD_STATE_IDLE s"

definition cmd58_read_ocr :: "sdcard \<Rightarrow> sdcard" where
  "cmd58_read_ocr s =
     respond [0, 0x80 OR (if m_type s = SD_TYPE_V2 then 0 else 0x40), 0, 0, 0] SD_STATE_DATA s"

definition cmd59_crc_on_off :: "sdcard \<Rightarrow> sdcard" where
  "cmd59_crc_on_off s = respond [0] SD_STATE_STBY (s\<lparr>m_crc_off := (BIT (m_cmd s ! 4) 0 = 0)\<rparr>)"

text \<open>The dispatch on the command number; \<^verbatim>\<open>None\<close> for a command that is not supported.\<close>

definition run_command :: "u8 \<Rightarrow> sdcard \<Rightarrow> sdcard option" where
  "run_command n s =
     (if n = 0 then Some (cmd0_go_idle_state s)
      else if n = 1 then Some (cmd1_send_op_cond s)
      else if n = 8 then Some (cmd8_send_if_cond s)
      else if n = 9 then Some (cmd9_send_csd s)
      else if n = 10 then Some (cmd10_send_cid s)
      else if n = 12 then Some (cmd12_stop_transmission s)
      else if n = 13 then Some (cmd13_send_status s)
      else if n = 16 then Some (cmd16_set_blocklen s)
      else if n = 17 then Some (cmd17_read_single_block s)
      else if n = 18 then Some (cmd18_read_multiple_block s)
      else if n = 24 then Some (cmd24_write_block s)
      else if n = 41 then Some (cmd41_send_op_cond s)
      else if n = 55 then Some (cmd55_app_cmd s)
      else if n = 58 then Some (cmd58_read_ocr s)
      else if n = 59 then Some (cmd59_crc_on_off s)
      else None)"

definition do_command :: "sdcard \<Rightarrow> sdcard" where
  "do_command s =
     (if m_cmd s ! 0 AND 0xc0 = 0x40 \<and> (m_cmd s ! 5 AND 1 \<noteq> 0 \<or> m_crc_off s) then
        let n = m_cmd s ! 0 AND 0x3f
        in case run_command n s of
             Some s1 \<Rightarrow> s1\<lparr>m_bACMD := (n = 55), m_cmd := replicate 6 0xff\<rparr>
           | None \<Rightarrow> s\<lparr>m_bACMD := (n = 55)\<rparr>
      else s)"

section \<open>Pins and shift registers\<close>

text \<open>A complete byte that arrives while a block is written.\<close>

definition receive_write_data :: "sdcard \<Rightarrow> sdcard" where
  "receive_write_data s =
     (let s1 = (data_put (m_write_ptr s) [m_in_latch s] s)\<lparr>m_write_ptr := (m_write_ptr s + 1) mod 2 ^ 16\<rparr>
      in if m_write_ptr s1 = m_xferblk s1 + 2 then
           let (ok, s2) = image_write (m_blknext s1) s1
           in send_data 2 SD_STATE_IDLE 0
                (data_put 0 [if ok then DATA_RESPONSE_OK else DATA_RESPONSE_IO_ERROR, 0x01] s2)
         else s1)"

text \<open>The next block of a multiple block read.\<close>

definition send_next_block :: "sdcard \<Rightarrow> sdcard" where
  "send_next_block s =
     (let s1 = image_read (m_blknext s) 1 (data_put 0 [0xfe] s);
          s2 = s1\<lparr>m_blknext := (m_blknext s + 1) mod 2 ^ 32\<rparr>
      in send_data (1 + m_blksize s2 + 2) SD_STATE_DATA_MULTI SPI_DELAY_RESPONSE (append_crc 1 (m_blksize s2) s2))"

definition receive_command_byte :: "sdcard \<Rightarrow> sdcard" where
  "receive_command_byte s =
     (let s1 = s\<lparr>m_cmd := drop 1 (m_cmd s) @ [m_in_latch s]\<rparr>
      in if m_state s1 = SD_STATE_DATA_MULTI then
           let s2 = do_command s1
           in if m_state s2 = SD_STATE_DATA_MULTI \<and> m_out_count s2 = 0 then send_next_block s2 else s2
         else if m_state s1 = SD_STATE_IDLE \<or> m_cmd s1 ! 0 AND 0x70 = 0x40 \<or> m_out_count s1 = 0
         then do_command s1
         else s1)"

text \<open>What a complete byte in the input latch causes.\<close>

definition receive_byte :: "sdcard \<Rightarrow> sdcard" where
  "receive_byte s =
     (if m_state s = SD_STATE_WRITE_WAITFE then
        (if m_in_latch s = 0xfe
         then s\<lparr>m_state := SD_STATE_WRITE_DATA, m_out_latch := 0xff, m_write_ptr := 0\<rparr> else s)
      else if m_state s = SD_STATE_WRITE_DATA then receive_write_data s
      else receive_command_byte s)"

definition latch_in :: "sdcard \<Rightarrow> sdcard" where
  "latch_in s =
     (let s1 = s\<lparr>m_in_latch := (m_in_latch s AND NOT 0x01) OR of_bool (m_in_bit s),
                 m_cur_bit := (m_cur_bit s + 1) mod 256\<rparr>
      in if m_cur_bit s1 = 8 then receive_byte s1 else s1)"

text \<open>The load of the output latch at a byte boundary.\<close>

definition load_out :: "sdcard \<Rightarrow> sdcard" where
  "load_out s =
     (if m_out_ptr s < m_out_delay s then s\<lparr>m_out_ptr := (m_out_ptr s + 1) mod 2 ^ 16\<rparr>
      else if m_out_count s > 0 then
        (if m_out_ptr s - m_out_delay s < length (m_data s)
         then s\<lparr>m_out_latch := m_data s ! (m_out_ptr s - m_out_delay s),
                m_out_ptr := (m_out_ptr s + 1) mod 2 ^ 16, m_out_count := m_out_count s - 1\<rparr>
         else s\<lparr>sd_ub := True\<rparr>)
      else s)"

definition shift_in_latch :: "u8 \<Rightarrow> u8" where
  "shift_in_latch w = push_bit 1 w"

definition shift_out_latch :: "u8 \<Rightarrow> u8" where
  "shift_out_latch w = push_bit 1 w OR 1"

definition shift_out :: "sdcard \<Rightarrow> sdcard" where
  "shift_out s =
     (let s1 = s\<lparr>m_in_latch := shift_in_latch (m_in_latch s), m_out_latch := shift_out_latch (m_out_latch s),
                 m_cur_bit := m_cur_bit s mod 8\<rparr>;
          s2 = (if m_cur_bit s1 = 0 then load_out s1 else s1)
      in s2\<lparr>sd_miso := sd_miso s2 @ [bit (m_out_latch s2) 7]\<rparr>)"

definition spi_clock_w :: "bool \<Rightarrow> sdcard \<Rightarrow> sdcard" where
  "spi_clock_w state s =
     (if m_ss s \<and> state \<noteq> m_clk_state s then (if state then latch_in s else shift_out s) else s)
       \<lparr>m_clk_state := state\<rparr>"

definition spi_ss_w :: "bool \<Rightarrow> sdcard \<Rightarrow> sdcard" where
  "spi_ss_w state s =
     (if \<not> m_ss s \<and> state
      then s\<lparr>m_cmd := replicate 6 0xff, m_state := SD_STATE_IDLE, m_in_latch := 0, m_cur_bit := 0,
             m_out_latch := 0xff, m_out_delay := 0, m_out_count := 0\<rparr>
      else s)\<lparr>m_ss := state\<rparr>"

definition spi_mosi_w :: "bool \<Rightarrow> sdcard \<Rightarrow> sdcard" where
  "spi_mosi_w state s = s\<lparr>m_in_bit := state\<rparr>"

section \<open>Mounting an image\<close>

text \<open>The loop that strips the factors of two from a number, counting them.\<close>

function strip_twos :: "nat \<Rightarrow> nat \<Rightarrow> nat \<times> nat" where
  "strip_twos mant ex = (if mant \<noteq> 0 \<and> even mant then strip_twos (mant div 2) (ex + 1) else (mant, ex))"
  by auto
termination by (relation "measure fst") auto

declare strip_twos.simps [simp del]

definition csd_common :: "u8 \<Rightarrow> u8 list" where
  "csd_common block_size_exp =
     [0x00, 0x00, 0x00, 0x02 OR 0x30, 0x5b, 0x50 OR block_size_exp, 0x00, 0x00, 0x00, 0x00, 0x3f, 0x80,
      0x04 OR BITS block_size_exp 2 2, push_bit 6 (BITS block_size_exp 0 2), 0x00, 0x01]"

text \<open>\<^verbatim>\<open>m_csd[i] |= v\<close> and \<^verbatim>\<open>m_csd[i] = v\<close>.\<close>

definition csd_or :: "nat \<Rightarrow> u8 \<Rightarrow> u8 list \<Rightarrow> u8 list" where
  "csd_or i v c = c[i := c ! i OR v]"

definition csd_v20 :: "u32 \<Rightarrow> u8 list \<Rightarrow> u8 list" where
  "csd_v20 c_size c =
     csd_or 9 (ucast (BITS c_size 0 8)) (csd_or 8 (ucast (BITS c_size 8 8)) (csd_or 7 (ucast (BITS c_size 16 6))
       ((csd_or 0 (push_bit 6 0x1) c)[1 := 0x06 OR 0x08])))"

definition csd_v10 :: "u16 \<Rightarrow> u8 \<Rightarrow> u8 list \<Rightarrow> u8 list" where
  "csd_v10 c_size c_size_mult c =
     csd_or 11 0x3f (csd_or 10 (push_bit 7 (BITS c_size_mult 0 1)) (csd_or 9 (BITS c_size_mult 1 2)
       (csd_or 9 (push_bit 2 0x06) (csd_or 9 (push_bit 5 0x07) (csd_or 8 0x06 (csd_or 8 (push_bit 3 0x07)
         (csd_or 8 (push_bit 6 (ucast (BITS c_size 0 2))) (csd_or 7 (ucast (BITS c_size 2 8))
           (csd_or 6 (ucast (BITS c_size 10 2)) (csd_or 6 0x80
             ((csd_or 0 (push_bit 6 0x0) c)[1 := 0x06 OR 0x20])))))))))))"

text \<open>The checks of \<^verbatim>\<open>image_loaded\<close> on the mantissa and exponent of the number of blocks.\<close>

definition csd_sd_ok :: "nat \<Rightarrow> nat \<Rightarrow> bool" where
  "csd_sd_ok mant ex \<longleftrightarrow> 2 \<le> ex \<and> mant * 2 ^ (if 9 < ex then ex - 9 else 0) \<le> 2 ^ 12"

definition csd_sdhc_ok :: "nat \<Rightarrow> nat \<Rightarrow> nat \<Rightarrow> bool" where
  "csd_sdhc_ok bytes mant ex \<longleftrightarrow> bytes = 512 \<and> 10 \<le> ex \<and> mant * 2 ^ (ex - 10) \<le> 2 ^ 16"

definition image_loaded :: "sdcard \<Rightarrow> image_error option \<times> sdcard" where
  "image_loaded s =
     (case m_hard_disk_handle (m_image s) of
        None \<Rightarrow> (None, s\<lparr>sd_ub := True\<rparr>)
      | Some h \<Rightarrow>
          let info = hdinfo h;
              total_blocks = cylinders info * heads info * sectors info mod 2 ^ 64;
              bytes = sectorbytes info;
              (mant, ex) = strip_twos total_blocks 0;
              sd_ok = csd_sd_ok mant ex; sdhc_ok = csd_sdhc_ok bytes mant ex
          in if total_blocks = 0 then (Some INVALIDIMAGE, s)
             else if fst (strip_twos bytes 0) \<noteq> 1 \<or> 512 > bytes \<or> 2048 < bytes then (Some INVALIDIMAGE, s)
             else if \<not> sd_ok \<and> \<not> sdhc_ok then (Some INVALIDIMAGE, s)
             else
               let block_size_exp = of_nat (snd (strip_twos bytes 0));
                   s1 = s\<lparr>m_sectorbuf := take bytes (m_sectorbuf s @ replicate bytes 0),
                          m_blksize := bytes, m_xferblk := bytes, m_crc_off := True\<rparr>
               in if sdhc_ok \<and> (m_preferred_type s = SD_TYPE_HC \<or> \<not> sd_ok)
                  then (None, s1\<lparr>m_type := SD_TYPE_HC,
                         m_csd := csd_v20 (of_nat (total_blocks div 2 ^ 10 - 1)) (csd_common block_size_exp)\<rparr>)
                  else
                    let c_size_mult = min ex 9 - 2
                    in (None, s1\<lparr>m_type := SD_TYPE_V2,
                          m_csd := csd_v10 (of_nat (total_blocks div 2 ^ (c_size_mult + 2) - 1))
                                     (of_nat c_size_mult) (csd_common block_size_exp)\<rparr>))"

definition image_unloaded :: "sdcard \<Rightarrow> sdcard" where
  "image_unloaded s = s\<lparr>m_csd := replicate 16 0\<rparr>"

text \<open>The life of the image: \<^verbatim>\<open>unload\<close> calls the card and drops the disk; \<^verbatim>\<open>load_internal\<close> unloads the old
  image, opens the new one and asks the card, and an error of the card closes the file again.\<close>

definition image_unload :: "sdcard \<Rightarrow> sdcard" where
  "image_unload s =
     (let s1 = (if m_file_open (m_image s) \<or> image_exists (m_image s)
                then (image_unloaded s)\<lparr>m_image := (m_image s)\<lparr>m_hard_disk_handle := None\<rparr>\<rparr> else s)
      in s1\<lparr>m_image := image_clear (m_image s1)\<rparr>)"

definition image_load :: "string \<Rightarrow> bool \<Rightarrow> u8 list \<Rightarrow> sdcard \<Rightarrow> image_error option \<times> sdcard" where
  "image_load name is_hdi f s =
     (let s1 = image_unload s;
          img = internal_load_hd is_hdi f ((m_image s1)\<lparr>m_image_name := name, m_file_open := True\<rparr>);
          (err, s2) = image_loaded (s1\<lparr>m_image := img\<rparr>)
      in (err, if err = None then s2 else s2\<lparr>m_image := image_clear (m_image s2)\<rparr>))"

end
