(* ===== verification/Sdcard_Inv.thy ===== *)
theory Sdcard_Inv
  imports Spi_Sdcard
begin

unbundle bit_operations_syntax

text \<open>
  Memory safety of the SD card: no sequence of pin changes makes the card access its arrays out
  of range or use an image that is not there, as long as an image is mounted.
\<close>

section \<open>The invariant\<close>

definition sd_base :: "nat \<Rightarrow> sdcard \<Rightarrow> bool" where
  "sd_base B s \<longleftrightarrow> length (m_data s) = 2056 \<and> length (m_cmd s) = 6 \<and> length (m_csd s) = 16 \<and> \<not> sd_ub s \<and>
     m_blksize s = B \<and> 512 \<le> B \<and> B \<le> 2048 \<and> 0 < m_xferblk s \<and> m_xferblk s \<le> m_blksize s \<and>
     length (m_sectorbuf s) = m_blksize s \<and> (m_type s = SD_TYPE_HC \<longrightarrow> m_xferblk s = m_blksize s) \<and>
     map_option (\<lambda>h. sectorbytes (hdinfo h)) (image_disk (m_image s)) = Some B"

definition sd_inv :: "nat \<Rightarrow> sdcard \<Rightarrow> bool" where
  "sd_inv B s \<longleftrightarrow> sd_base B s \<and>
     (0 < m_out_count s \<longrightarrow> m_out_ptr s - m_out_delay s + m_out_count s \<le> 2056) \<and> m_out_delay s \<le> 1 \<and>
     (m_state s = SD_STATE_WRITE_WAITFE \<or> m_state s = SD_STATE_WRITE_DATA \<longrightarrow> m_xferblk s = m_blksize s) \<and>
     (m_state s = SD_STATE_WRITE_DATA \<longrightarrow> m_write_ptr s < m_xferblk s + 2)"

section \<open>Stores and responses\<close>

lemma length_list_put [simp]: "i + length bs \<le> length xs \<Longrightarrow> length (list_put i bs xs) = length xs"
  by (simp add: list_put_def)

lemma sd_base_data_put [simp]:
  "sd_base B s \<Longrightarrow> i + length bs \<le> 2056 \<Longrightarrow> sd_base B (data_put i bs s)"
  by (auto simp: sd_base_def data_put_def)

lemma data_put_fields [simp]:
  "m_cmd (data_put i bs s) = m_cmd s" "m_type (data_put i bs s) = m_type s" "m_blksize (data_put i bs s) = m_blksize s"
  "m_xferblk (data_put i bs s) = m_xferblk s" "m_image (data_put i bs s) = m_image s"
  "m_csd (data_put i bs s) = m_csd s" "m_sectorbuf (data_put i bs s) = m_sectorbuf s" "m_state (data_put i bs s) = m_state s"
  "m_write_ptr (data_put i bs s) = m_write_ptr s" "m_blknext (data_put i bs s) = m_blknext s"
  "m_out_count (data_put i bs s) = m_out_count s" "m_out_ptr (data_put i bs s) = m_out_ptr s"
  "m_out_delay (data_put i bs s) = m_out_delay s" "m_out_latch (data_put i bs s) = m_out_latch s"
  "m_ss (data_put i bs s) = m_ss s" "m_clk_state (data_put i bs s) = m_clk_state s" "m_cur_bit (data_put i bs s) = m_cur_bit s"
  "m_in_latch (data_put i bs s) = m_in_latch s" "m_crc_off (data_put i bs s) = m_crc_off s" "m_bACMD (data_put i bs s) = m_bACMD s"
  by (simp_all add: data_put_def)

lemma sd_inv_send [simp]:
  assumes "sd_base B s" "count \<le> 2056" "delay \<le> 1" "st \<noteq> SD_STATE_WRITE_DATA"
    "st = SD_STATE_WRITE_WAITFE \<Longrightarrow> m_xferblk s = m_blksize s"
  shows "sd_inv B (send_data count st delay s)"
  using assms by (auto simp: sd_inv_def send_data_def sd_base_def)

lemma sd_base_ext [simp]:
  "sd_base B (s\<lparr>m_blknext := n\<rparr>) = sd_base B s" "sd_base B (s\<lparr>m_crc_off := b\<rparr>) = sd_base B s"
  "sd_base B (s\<lparr>m_write_ptr := n\<rparr>) = sd_base B s"
  by (simp_all add: sd_base_def)

lemma hd_read_length: "length (snd (hd_read l h)) \<le> sectorbytes (hdinfo h)"
  by (simp add: hd_read_def file_read_def Let_def)

lemma sd_base_image_read:
  assumes "sd_base B s" "i + m_blksize s \<le> 2056"
  shows "sd_base B (image_read blk i s)"
proof -
  obtain h where h: "image_disk (m_image s) = Some h" "sectorbytes (hdinfo h) = m_blksize s"
    using assms(1) by (auto simp: sd_base_def)
  then show ?thesis using assms hd_read_length [of blk h] by (simp add: image_read_def)
qed

lemma image_read_fields [simp]:
  "m_blksize (image_read blk i s) = m_blksize s" "m_xferblk (image_read blk i s) = m_xferblk s"
  by (simp_all add: image_read_def split: option.splits)

lemma sd_base_sectorbuf:
  assumes "sd_base B s"
  shows "sd_base B (image_read_sectorbuf blk s)"
proof -
  obtain h where h: "image_disk (m_image s) = Some h" "sectorbytes (hdinfo h) = m_blksize s"
    using assms by (auto simp: sd_base_def)
  then show ?thesis using assms hd_read_length [of blk h]
    by (auto simp: image_read_sectorbuf_def sd_base_def Let_def)
qed

lemma sd_base_append_crc: "sd_base B s \<Longrightarrow> i + n + 2 \<le> 2056 \<Longrightarrow> sd_base B (append_crc i n s)"
  by (simp add: append_crc_def put_u16be_def)

lemma append_crc_fields [simp]: "m_blksize (append_crc i n s) = m_blksize s" "m_xferblk (append_crc i n s) = m_xferblk s"
  by (simp_all add: append_crc_def)

section \<open>Commands\<close>

lemma length_cid [simp]: "length cid = 16"
  by (simp add: cid_def put_u32be_def)

lemma length_put_be [simp]: "length (put_u16be w) = 2" "length (put_u32be v) = 4"
  by (simp_all add: put_u16be_def put_u32be_def)

lemma cmd16_inv: "sd_base B s \<Longrightarrow> sd_inv B (cmd16_set_blocklen s)"
  by (auto simp: cmd16_set_blocklen_def Let_def sd_base_def intro!: sd_inv_send sd_base_data_put)

lemma no_crossing:
  fixes blk bs xb :: nat
  assumes "0 < xb" "xb \<le> bs" "bs \<le> 2048" "blk < 2 ^ 32" "blk div bs = (blk + xb + 2 ^ 32 - 1) mod 2 ^ 32 div bs"
  shows "blk mod bs + xb \<le> bs"
proof (cases "blk + xb - 1 < 2 ^ 32")
  case True
  have "blk + xb + 2 ^ 32 - 1 = blk + xb - 1 + 2 ^ 32" using assms(1) by simp
  then have "(blk + xb + 2 ^ 32 - 1) mod 2 ^ 32 = (blk + xb - 1) mod 2 ^ 32" by (simp only: mod_add_self2)
  then have "(blk + xb + 2 ^ 32 - 1) mod 2 ^ 32 = blk + xb - 1" using True by simp
  with assms(5) have e: "(blk + xb - 1) div bs = blk div bs" by simp
  have "blk + xb - 1 < (blk + xb - 1) div bs * bs + bs"
    using assms(1,2) dividend_less_div_times [of bs "blk + xb - 1"] by simp
  then have "blk + xb - 1 < blk div bs * bs + bs" by (simp only: e)
  moreover have "blk = blk div bs * bs + blk mod bs" by simp
  ultimately show ?thesis using assms(1) by linarith
next
  case False
  then have w: "(blk + xb + 2 ^ 32 - 1) mod 2 ^ 32 = blk + xb - 1 - 2 ^ 32"
    using assms(1-4) by (simp add: mod_if)
  have "blk + xb - 1 - 2 ^ 32 < bs" using assms(1,2,4) by simp
  then have "blk div bs = 0" using assms(5) w by simp
  then have "blk < bs" using assms(1,2) by (simp add: div_eq_0_iff)
  then show ?thesis using False assms(2,3) by simp
qed

lemma cmd17_inv:
  assumes "sd_base B s"
  shows "sd_inv B (cmd17_read_single_block s)"
proof -
  define s1 where "s1 = data_put 0 [0x00, 0xff, 0xfe] s"
  define blk where "blk = unat (get_u32be (drop 1 (m_cmd s)))"
  have b1: "sd_base B s1" using assms by (simp add: s1_def)
  have f: "m_blksize s1 = m_blksize s" "m_xferblk s1 = m_xferblk s" "m_type s1 = m_type s" "m_cmd s1 = m_cmd s"
    by (simp_all add: s1_def)
  have sz: "512 \<le> m_blksize s" "m_blksize s \<le> 2048" "0 < m_xferblk s" "m_xferblk s \<le> m_blksize s"
    using assms by (auto simp: sd_base_def)
  have blk: "blk < 2 ^ 32" using unsigned_less [of "get_u32be (drop 1 (m_cmd s))"] by (simp add: blk_def)
  have full: "sd_inv B (send_data (3 + m_xferblk s + 2) SD_STATE_DATA 1 (append_crc 3 (m_xferblk s) (image_read l 3 s1)))" for l
    using sz f b1 by (intro sd_inv_send sd_base_append_crc sd_base_image_read) auto
  define s2 where "s2 = image_read_sectorbuf (blk div m_blksize s) s1"
  have b2: "sd_base B s2" "m_blksize s2 = m_blksize s"
    using sd_base_sectorbuf [OF b1] f by (auto simp: s2_def image_read_sectorbuf_def Let_def split: option.splits)
  then have l2: "length (m_sectorbuf s2) = m_blksize s" by (simp add: sd_base_def)
  have part: "sd_inv B (send_data (3 + m_xferblk s + 2) SD_STATE_DATA 1 (append_crc 3 (m_xferblk s)
      (data_put 3 (take (m_xferblk s) (drop (blk mod m_blksize s) (m_sectorbuf s2))) s2)))"
    using sz b2 l2 by (intro sd_inv_send sd_base_append_crc sd_base_data_put) auto
  have bad: "sd_inv B (respond [0x40] SD_STATE_TRAN s1)" "sd_inv B (respond [0xff] SD_STATE_TRAN s)"
    using b1 assms by (intro sd_inv_send sd_base_data_put; simp)+
  have range: "blk mod m_blksize s + m_xferblk s \<le> length (m_sectorbuf s2)"
    if "m_xferblk s \<noteq> m_blksize s" "\<not> (m_type s = SD_TYPE_V2 \<and>
      blk div m_blksize s \<noteq> (blk + m_xferblk s + 2 ^ 32 - 1) mod 2 ^ 32 div m_blksize s)"
  proof -
    have "m_type s = SD_TYPE_V2" using that(1) assms by (cases "m_type s") (auto simp: sd_base_def)
    then show ?thesis using no_crossing [OF sz(3,4,2) blk] that(2) l2 by simp
  qed
  show ?thesis
    unfolding cmd17_read_single_block_def Let_def s1_def [symmetric] f blk_def [symmetric] s2_def [symmetric]
    using full part bad range by (simp only: if_True split: if_splits) (simp, blast)
qed

lemma cmd24_inv: "sd_base B s \<Longrightarrow> sd_inv B (cmd24_write_block s)"
  by (auto simp: cmd24_write_block_def Let_def sd_base_def intro!: sd_inv_send sd_base_data_put)

text \<open>The commands with a fixed response.\<close>

lemma simple_commands_inv:
  assumes "sd_base B s"
  shows "sd_inv B (cmd0_go_idle_state s)" "sd_inv B (cmd1_send_op_cond s)" "sd_inv B (cmd8_send_if_cond s)"
    "sd_inv B (cmd12_stop_transmission s)" "sd_inv B (cmd13_send_status s)" "sd_inv B (cmd41_send_op_cond s)"
    "sd_inv B (cmd55_app_cmd s)" "sd_inv B (cmd58_read_ocr s)" "sd_inv B (cmd59_crc_on_off s)"
  unfolding cmd0_go_idle_state_def cmd1_send_op_cond_def cmd8_send_if_cond_def cmd12_stop_transmission_def
    cmd13_send_status_def cmd41_send_op_cond_def cmd55_app_cmd_def cmd58_read_ocr_def cmd59_crc_on_off_def
  using assms by (auto intro!: sd_inv_send sd_base_data_put)

lemma cmd9_inv: "sd_base B s \<Longrightarrow> sd_inv B (cmd9_send_csd s)"
proof -
  assume a: "sd_base B s"
  then have "length (m_csd s) = 16" by (simp add: sd_base_def)
  then show ?thesis unfolding cmd9_send_csd_def using a by (intro sd_inv_send sd_base_data_put) auto
qed

lemma cmd10_inv: "sd_base B s \<Longrightarrow> sd_inv B (cmd10_send_cid s)"
  unfolding cmd10_send_cid_def Let_def by (rule sd_inv_send) (auto intro!: sd_base_data_put)

lemma cmd18_inv: "sd_base B s \<Longrightarrow> sd_inv B (cmd18_read_multiple_block s)"
  unfolding cmd18_read_multiple_block_def Let_def by (auto intro!: sd_inv_send sd_base_data_put)

lemma run_command_inv: "sd_base B s \<Longrightarrow> run_command n s = Some s' \<Longrightarrow> sd_inv B s'"
  by (auto simp: run_command_def simple_commands_inv cmd9_inv cmd10_inv cmd16_inv cmd17_inv cmd18_inv cmd24_inv
      split: if_splits)

lemma sd_inv_ext [simp]:
  "length c = 6 \<Longrightarrow> sd_inv B s \<Longrightarrow> sd_inv B (s\<lparr>m_cmd := c\<rparr>)" "sd_inv B (s\<lparr>m_bACMD := b\<rparr>) = sd_inv B s"
  "sd_inv B (s\<lparr>m_in_latch := w\<rparr>) = sd_inv B s" "sd_inv B (s\<lparr>m_out_latch := w\<rparr>) = sd_inv B s"
  "sd_inv B (s\<lparr>m_cur_bit := k\<rparr>) = sd_inv B s" "sd_inv B (s\<lparr>sd_miso := l\<rparr>) = sd_inv B s"
  "sd_inv B (s\<lparr>m_in_bit := b\<rparr>) = sd_inv B s" "sd_inv B (s\<lparr>m_clk_state := b\<rparr>) = sd_inv B s" "sd_inv B (s\<lparr>m_ss := b\<rparr>) = sd_inv B s"
  by (auto simp: sd_inv_def sd_base_def)

lemma sd_inv_base: "sd_inv B s \<Longrightarrow> sd_base B s"
  by (simp add: sd_inv_def)

lemma do_command_inv: "sd_inv B s \<Longrightarrow> sd_inv B (do_command s)"
  by (auto simp: do_command_def Let_def dest: run_command_inv [OF sd_inv_base] split: option.splits)

section \<open>Bytes and pins\<close>

lemma hd_write_info: "hdinfo (snd (hd_write l bs h)) = hdinfo h"
  by (simp add: hd_write_def)

lemma sd_base_image_write: "sd_base B s \<Longrightarrow> sd_base B (snd (image_write l s))"
  by (auto simp: sd_base_def image_disk_def image_write_def hd_write_def split: option.splits if_splits)

lemma receive_write_data_inv:
  assumes "sd_inv B s" "m_state s = SD_STATE_WRITE_DATA"
  shows "sd_inv B (receive_write_data s)"
proof -
  define s1 where "s1 = (data_put (m_write_ptr s) [m_in_latch s] s)\<lparr>m_write_ptr := (m_write_ptr s + 1) mod 2 ^ 16\<rparr>"
  have w: "m_write_ptr s < m_xferblk s + 2" "m_xferblk s \<le> 2048" using assms by (auto simp: sd_inv_def sd_base_def)
  have b1: "sd_base B s1" using assms w by (simp add: s1_def sd_inv_base)
  show ?thesis
  proof (cases "m_write_ptr s1 = m_xferblk s1 + 2")
    case True
    have "sd_inv B (send_data 2 SD_STATE_IDLE 0 (data_put 0 bs (snd (image_write (m_blknext s1) s1))))"
      if "length bs = 2" for bs
      using b1 that by (intro sd_inv_send sd_base_data_put sd_base_image_write) auto
    then show ?thesis
      unfolding receive_write_data_def Let_def s1_def [symmetric] using True by (simp add: case_prod_beta)
  next
    case False
    moreover have "m_write_ptr s1 = m_write_ptr s + 1" "m_xferblk s1 = m_xferblk s" using w by (simp_all add: s1_def)
    ultimately have "sd_inv B s1" using assms b1 w by (auto simp: sd_inv_def s1_def)
    then show ?thesis unfolding receive_write_data_def Let_def s1_def [symmetric] using False by simp
  qed
qed

lemma send_next_block_inv:
  assumes "sd_base B s"
  shows "sd_inv B (send_next_block s)"
proof -
  have sz: "m_blksize s \<le> 2048" using assms by (simp add: sd_base_def)
  have "sd_base B (image_read (m_blknext s) 1 (data_put 0 [0xfe] s))"
    using sz assms by (intro sd_base_image_read sd_base_data_put) auto
  then show ?thesis
    using sz unfolding send_next_block_def Let_def by (intro sd_inv_send sd_base_append_crc) auto
qed

lemma receive_command_byte_inv: "sd_inv B s \<Longrightarrow> sd_inv B (receive_command_byte s)"
proof -
  assume a: "sd_inv B s"
  then have "length (m_cmd s) = 6" by (simp add: sd_inv_def sd_base_def)
  then have "sd_inv B (s\<lparr>m_cmd := drop 1 (m_cmd s) @ [m_in_latch s]\<rparr>)" using a by simp
  then show ?thesis
    unfolding receive_command_byte_def Let_def
    by (auto simp: do_command_inv send_next_block_inv sd_inv_base simp del: sd_inv_ext)
qed

lemma receive_byte_inv: "sd_inv B s \<Longrightarrow> sd_inv B (receive_byte s)"
  unfolding receive_byte_def
  by (auto simp: receive_write_data_inv receive_command_byte_inv) (auto simp: sd_inv_def sd_base_def)

lemma latch_in_inv: "sd_inv B s \<Longrightarrow> sd_inv B (latch_in s)"
  by (simp add: latch_in_def Let_def receive_byte_inv)

lemma load_out_inv: "sd_inv B s \<Longrightarrow> sd_inv B (load_out s)"
  by (auto simp: load_out_def sd_inv_def sd_base_def)

lemma shift_out_inv: "sd_inv B s \<Longrightarrow> sd_inv B (shift_out s)"
  by (simp add: shift_out_def Let_def load_out_inv)

lemma spi_clock_w_inv: "sd_inv B s \<Longrightarrow> sd_inv B (spi_clock_w state s)"
  by (simp add: spi_clock_w_def latch_in_inv shift_out_inv)

lemma spi_ss_w_inv: "sd_inv B s \<Longrightarrow> sd_inv B (spi_ss_w state s)"
proof -
  assume a: "sd_inv B s"
  then have "sd_inv B (s\<lparr>m_cmd := replicate 6 0xff, m_state := SD_STATE_IDLE, m_in_latch := 0, m_cur_bit := 0,
             m_out_latch := 0xff, m_out_delay := 0, m_out_count := 0\<rparr>)"
    by (simp add: sd_inv_def sd_base_def)
  then show ?thesis using a by (simp add: spi_ss_w_def)
qed

lemma spi_mosi_w_inv: "sd_inv B s \<Longrightarrow> sd_inv B (spi_mosi_w state s)"
  by (simp add: spi_mosi_w_def)

section \<open>Mounting\<close>

text \<open>What a successful mount sets, and what it leaves alone.\<close>

lemma length_csd [simp]:
  "length (csd_or i v c) = length c" "length (csd_v20 n c) = length c" "length (csd_v10 m k c) = length c"
  "length (csd_common e) = 16"
  by (simp_all add: csd_or_def csd_v20_def csd_v10_def csd_common_def)

lemma image_loaded_ok:
  assumes "image_loaded s = (None, s')" "m_hard_disk_handle (m_image s) = Some h"
  shows "\<exists>buf ty csd. s' = s\<lparr>m_sectorbuf := buf, m_blksize := sectorbytes (hdinfo h), m_xferblk := sectorbytes (hdinfo h),
      m_crc_off := True, m_type := ty, m_csd := csd\<rparr> \<and> length buf = sectorbytes (hdinfo h) \<and> length csd = 16"
proof -
  let ?b = "sectorbytes (hdinfo h)"
  define T where "T = cylinders (hdinfo h) * heads (hdinfo h) * sectors (hdinfo h) mod 2 ^ 64"
  obtain mant ex where m: "strip_twos T 0 = (mant, ex)" by fastforce
  define s1 where "s1 = s\<lparr>m_sectorbuf := take ?b (m_sectorbuf s @ replicate ?b 0), m_blksize := ?b, m_xferblk := ?b, m_crc_off := True\<rparr>"
  have "\<exists>ty csd. s' = s1\<lparr>m_type := ty, m_csd := csd\<rparr> \<and> length csd = 16"
    using assms(1) unfolding image_loaded_def Let_def assms(2) option.case T_def [symmetric] m prod.case s1_def [symmetric]
    by (auto split: if_splits) (rule exI, rule exI, rule conjI, rule refl, simp)+
  then obtain ty csd where "s' = s1\<lparr>m_type := ty, m_csd := csd\<rparr>" "length csd = 16" by blast
  moreover have "length (take ?b (m_sectorbuf s @ replicate ?b 0)) = ?b" by simp
  ultimately show ?thesis unfolding s1_def by blast
qed

lemma hard_disk_file_init_bytes [simp]: "sectorbytes (hdinfo (hard_disk_file_init f n)) = 512"
  by (simp add: hard_disk_file_init_def Let_def case_prod_beta)

definition sd_unmounted_inv :: "sdcard \<Rightarrow> bool" where
  "sd_unmounted_inv s \<longleftrightarrow> length (m_data s) = 2056 \<and> length (m_cmd s) = 6 \<and> \<not> sd_ub s \<and>
     (0 < m_out_count s \<longrightarrow> m_out_ptr s - m_out_delay s + m_out_count s \<le> 2056) \<and> m_out_delay s \<le> 1 \<and>
     (m_state s = SD_STATE_WRITE_DATA \<longrightarrow> m_write_ptr s < 512 + 2)"

lemma image_load_inv:
  assumes "image_load name is_hdi f s = (None, s')" "sd_unmounted_inv s"
  shows "sd_inv 512 s'"
proof -
  define s0 where "s0 = (image_unload s)\<lparr>m_image := internal_load_hd is_hdi f
      ((m_image (image_unload s))\<lparr>m_image_name := name, m_file_open := True\<rparr>)\<rparr>"
  obtain h where h: "m_hard_disk_handle (m_image s0) = Some h" "m_file_open (m_image s0)" "sectorbytes (hdinfo h) = 512"
    by (simp add: s0_def internal_load_hd_def)
  have l: "image_loaded s0 = (None, s')"
    using assms(1) unfolding image_load_def Let_def s0_def [symmetric]
    by (cases "image_loaded s0") (auto split: if_splits)
  have u: "sd_unmounted_inv s0"
    using assms(2) by (simp add: s0_def image_unload_def Let_def image_unloaded_def sd_unmounted_inv_def)
  show ?thesis
    using image_loaded_ok [OF l h(1)] h u by (auto simp: sd_inv_def sd_base_def sd_unmounted_inv_def image_disk_def)
qed

section \<open>Reachable states\<close>

text \<open>The operating system may start or stop failing accesses to the file at any time.\<close>

definition io_fault :: "bool \<Rightarrow> bool \<Rightarrow> sdcard \<Rightarrow> sdcard" where
  "io_fault r w s =
     s\<lparr>m_image := (m_image s)\<lparr>m_hard_disk_handle :=
        map_option (\<lambda>h. h\<lparr>io_read_error := r, io_write_error := w\<rparr>) (m_hard_disk_handle (m_image s))\<rparr>\<rparr>"

inductive sd_step :: "sdcard \<Rightarrow> sdcard \<Rightarrow> bool" where
  Clock: "sd_step s (spi_clock_w state s)"
| Select: "sd_step s (spi_ss_w state s)"
| Mosi: "sd_step s (spi_mosi_w state s)"
| Fault: "sd_step s (io_fault r w s)"
| Swap: "image_load name is_hdi f s = (None, s') \<Longrightarrow> sd_step s s'"

inductive_cases sd_stepE: "sd_step s s'"

text \<open>A card is mounted after its machine started, then its pins move and images are exchanged.\<close>

inductive sd_reachable :: "sdcard \<Rightarrow> bool" where
  Start: "s0 \<in> {sdcard_init, set_prefer_sdhc sdcard_init} \<Longrightarrow> image_load name is_hdi f s0 = (None, s) \<Longrightarrow> sd_reachable s"
| Step: "sd_reachable s \<Longrightarrow> sd_step s s' \<Longrightarrow> sd_reachable s'"

lemma sd_step_inv: "sd_step s s' \<Longrightarrow> sd_inv 512 s \<Longrightarrow> sd_inv 512 s'"
proof (erule sd_stepE)
  fix r w assume "sd_inv 512 s" "s' = io_fault r w s"
  then show "sd_inv 512 s'"
    by (auto simp: io_fault_def sd_inv_def sd_base_def image_disk_def split: if_splits)
next
  fix name is_hdi f assume a: "sd_inv 512 s" "image_load name is_hdi f s = (None, s')"
  then have "sd_unmounted_inv s" by (auto simp: sd_inv_def sd_base_def sd_unmounted_inv_def)
  then show "sd_inv 512 s'" using a(2) by (rule image_load_inv [rotated])
qed (simp_all add: spi_clock_w_inv spi_ss_w_inv spi_mosi_w_inv)

lemma sd_reachable_inv: "sd_reachable s \<Longrightarrow> sd_inv 512 s"
proof (induction rule: sd_reachable.induct)
  case (Start s0 name is_hdi f s)
  then have "sd_unmounted_inv s0" by (auto simp: sd_unmounted_inv_def sdcard_init_def set_prefer_sdhc_def)
  then show ?case using Start(2) by (rule image_load_inv [rotated])
next
  case (Step s s')
  then show ?case by (blast intro: sd_step_inv)
qed

text \<open>C11. Memory safety of the SD card. Once an image was mounted, no sequence of changes of the clock, select
  and data pins, of failing file accesses and of exchanges of the image makes the card access its data,
  command or sector buffers out of range, or use an image that is not open; and its block and
  transfer sizes keep the relation the transfers rely on.\<close>

theorem sd_memory_safe:
  assumes "sd_reachable s"
  shows "\<not> sd_ub s \<and> m_blksize s = 512 \<and> 0 < m_xferblk s \<and> m_xferblk s \<le> m_blksize s \<and> image_disk (m_image s) \<noteq> None"
  using sd_reachable_inv [OF assms] by (auto simp: sd_inv_def sd_base_def)

text \<open>A card with an image of four empty sectors.\<close>

definition small_card :: sdcard where
  "small_card = snd (image_load ''sd.img'' False (replicate 2048 0) sdcard_init)"

lemma small_disk: "hdinfo (hard_disk_file_init (replicate 2048 0) 0) = \<lparr>cylinders = 1, heads = 2, sectors = 2, sectorbytes = 512\<rparr>"
proof -
  have "guess_geometry 4 = (1, 2, 2)" by code_simp
  then show ?thesis by (simp add: hard_disk_file_init_def)
qed

lemma small_card_mounts: "image_load ''sd.img'' False (replicate 2048 0) sdcard_init = (None, small_card)"
proof -
  have t: "strip_twos 4 0 = (1, 2)" "strip_twos 512 0 = (1, 9)" by code_simp+
  have i: "image_skip False (replicate 2048 0) = 0" by (auto simp: image_skip_def dest: arg_cong [where f = hd])
  define s where "s = (image_unload sdcard_init)\<lparr>m_image := internal_load_hd False (replicate 2048 0)
      ((m_image (image_unload sdcard_init))\<lparr>m_image_name := ''sd.img'', m_file_open := True\<rparr>)\<rparr>"
  have "m_hard_disk_handle (m_image s) = Some (hard_disk_file_init (replicate 2048 0) 0)"
    by (simp add: s_def internal_load_hd_def i)
  then have "fst (image_loaded s) = None"
    by (simp add: image_loaded_def small_disk t csd_sd_ok_def csd_sdhc_ok_def)
  then have "fst (image_load ''sd.img'' False (replicate 2048 0) sdcard_init) = None"
    unfolding image_load_def Let_def s_def [symmetric] by (simp add: case_prod_beta)
  then show ?thesis by (metis prod.collapse small_card_def)
qed

theorem sd_memory_safe_witness: "\<not> sd_ub (spi_ss_w True small_card) \<and> sd_reachable (spi_ss_w True small_card)"
proof -
  have "sd_reachable small_card" using small_card_mounts by (blast intro: sd_reachable.Start)
  then have "sd_reachable (spi_ss_w True small_card)" by (blast intro: sd_reachable.Step sd_step.Select)
  then show ?thesis using sd_memory_safe [of "spi_ss_w True small_card"] by blast
qed

end
