(* ===== verification/Sdcard_Bytes.thy ===== *)
theory Sdcard_Bytes
  imports Sdcard_Inv
begin

unbundle bit_operations_syntax

text \<open>
  The SD card at the level of bytes. A master that selects the card and moves the data and clock
  pins bit by bit (data, clock high, clock low; most significant bit first) exchanges one byte
  with the card for every eight clocks: the card receives the byte sent and the master samples
  the output latch of the card. The theory shows that the pin-level operations of the card
  implement this byte-level step, and that a response queued by a command is delivered.
\<close>

section \<open>The master's pin sequence\<close>

definition spi_bit :: "bool \<Rightarrow> sdcard \<Rightarrow> sdcard" where
  "spi_bit b s = spi_clock_w False (spi_clock_w True (spi_mosi_w b s))"

definition msb_bits :: "u8 \<Rightarrow> bool list" where
  "msb_bits w = map (bit w) [7, 6, 5, 4, 3, 2, 1, 0]"

definition spi_xfer :: "u8 \<Rightarrow> sdcard \<Rightarrow> sdcard" where
  "spi_xfer w s = fold spi_bit (msb_bits w) s"

section \<open>The byte-level step\<close>

definition byte_in :: "u8 \<Rightarrow> sdcard \<Rightarrow> sdcard" where
  "byte_in w s =
     s\<lparr>m_out_latch := push_bit 7 (m_out_latch s) OR 0x7f, sd_miso := sd_miso s @ map (bit (m_out_latch s)) [6, 5, 4, 3, 2, 1, 0],
       m_in_bit := bit w 0, m_in_latch := w, m_cur_bit := 8\<rparr>"

definition byte_step :: "u8 \<Rightarrow> sdcard \<Rightarrow> sdcard" where
  "byte_step w s = shift_out (receive_byte (byte_in w s))"

text \<open>The card is selected, and the clock is low between two bytes.\<close>

definition byte_ready :: "sdcard \<Rightarrow> bool" where
  "byte_ready s \<longleftrightarrow> m_ss s \<and> \<not> m_clk_state s \<and> m_cur_bit s = 0"

section \<open>Pins that no operation moves\<close>

lemma data_put_pins [simp]:
  "m_in_bit (data_put i bs s) = m_in_bit s" "m_preferred_type (data_put i bs s) = m_preferred_type s"
  "sd_miso (data_put i bs s) = sd_miso s"
  by (simp_all add: data_put_def)

lemma send_data_fields [simp]:
  "m_ss (send_data n st d s) = m_ss s" "m_clk_state (send_data n st d s) = m_clk_state s"
  "m_cur_bit (send_data n st d s) = m_cur_bit s"
  "m_data (send_data n st d s) = m_data s" "m_image (send_data n st d s) = m_image s" "m_type (send_data n st d s) = m_type s"
  "m_blksize (send_data n st d s) = m_blksize s" "m_xferblk (send_data n st d s) = m_xferblk s"
  "m_out_latch (send_data n st d s) = m_out_latch s" "m_cmd (send_data n st d s) = m_cmd s"
  "m_crc_off (send_data n st d s) = m_crc_off s" "sd_miso (send_data n st d s) = sd_miso s"
  "m_in_latch (send_data n st d s) = m_in_latch s" "m_blknext (send_data n st d s) = m_blknext s"
  "sd_ub (send_data n st d s) = sd_ub s" "m_bACMD (send_data n st d s) = m_bACMD s" "m_csd (send_data n st d s) = m_csd s"
  "m_sectorbuf (send_data n st d s) = m_sectorbuf s" "m_write_ptr (send_data n st d s) = m_write_ptr s"
  "m_state (send_data n st d s) = st" "m_out_delay (send_data n st d s) = d" "m_out_ptr (send_data n st d s) = 0"
  "m_out_count (send_data n st d s) = n mod 65536"
  by (simp_all add: send_data_def)

definition pins_of :: "sdcard \<Rightarrow> bool \<times> bool \<times> nat \<times> bool list \<times> u8" where
  "pins_of s = (m_ss s, m_clk_state s, m_cur_bit s, sd_miso s, m_out_latch s)"

lemma pins_of_ops [simp]:
  "pins_of (data_put i bs s) = pins_of s" "pins_of (send_data n st d s) = pins_of s"
  "pins_of (image_read l i s) = pins_of s" "pins_of (image_read_sectorbuf l s) = pins_of s"
  "pins_of (append_crc i n s) = pins_of s" "pins_of (snd (image_write l s)) = pins_of s"
  by (simp_all add: pins_of_def append_crc_def image_read_def image_read_sectorbuf_def image_write_def Let_def case_prod_beta
      split: option.splits)

lemma pins_of_upd [simp]:
  "pins_of (s\<lparr>m_cmd := c\<rparr>) = pins_of s" "pins_of (s\<lparr>m_bACMD := b\<rparr>) = pins_of s" "pins_of (s\<lparr>m_blknext := n\<rparr>) = pins_of s"
  "pins_of (s\<lparr>m_xferblk := n\<rparr>) = pins_of s" "pins_of (s\<lparr>m_crc_off := b\<rparr>) = pins_of s" "pins_of (s\<lparr>sd_ub := b\<rparr>) = pins_of s"
  "pins_of (s\<lparr>m_write_ptr := n\<rparr>) = pins_of s"
  by (simp_all add: pins_of_def)

lemma command_pins [simp]:
  "pins_of (cmd0_go_idle_state s) = pins_of s" "pins_of (cmd1_send_op_cond s) = pins_of s" "pins_of (cmd8_send_if_cond s) = pins_of s"
  "pins_of (cmd9_send_csd s) = pins_of s" "pins_of (cmd10_send_cid s) = pins_of s" "pins_of (cmd12_stop_transmission s) = pins_of s"
  "pins_of (cmd13_send_status s) = pins_of s" "pins_of (cmd16_set_blocklen s) = pins_of s"
  "pins_of (cmd17_read_single_block s) = pins_of s" "pins_of (cmd18_read_multiple_block s) = pins_of s"
  "pins_of (cmd24_write_block s) = pins_of s" "pins_of (cmd41_send_op_cond s) = pins_of s" "pins_of (cmd55_app_cmd s) = pins_of s"
  "pins_of (cmd58_read_ocr s) = pins_of s" "pins_of (cmd59_crc_on_off s) = pins_of s"
  by (simp_all only: cmd0_go_idle_state_def cmd1_send_op_cond_def cmd8_send_if_cond_def cmd12_stop_transmission_def
    cmd13_send_status_def cmd41_send_op_cond_def cmd55_app_cmd_def cmd58_read_ocr_def cmd59_crc_on_off_def cmd9_send_csd_def
    cmd10_send_cid_def cmd16_set_blocklen_def cmd17_read_single_block_def cmd18_read_multiple_block_def cmd24_write_block_def
    Let_def pins_of_ops pins_of_upd if_distrib [of pins_of] if_cancel)

lemma run_command_pins: "run_command n s = Some s' \<Longrightarrow> pins_of s' = pins_of s"
  by (auto simp: run_command_def split: if_splits)

lemma do_command_pins [simp]: "pins_of (do_command s) = pins_of s"
  by (auto simp: do_command_def Let_def run_command_pins split: option.splits)

lemma receive_command_byte_pins [simp]: "pins_of (receive_command_byte s) = pins_of s"
  by (simp add: receive_command_byte_def send_next_block_def Let_def)

lemma receive_write_data_pins [simp]: "pins_of (receive_write_data s) = pins_of s"
  by (simp add: receive_write_data_def Let_def case_prod_beta)

lemma receive_byte_pins [simp]:
  "m_ss (receive_byte s) = m_ss s" "m_clk_state (receive_byte s) = m_clk_state s" "m_cur_bit (receive_byte s) = m_cur_bit s"
  "sd_miso (receive_byte s) = sd_miso s"
  using receive_write_data_pins [of s] receive_command_byte_pins [of s]
  by (auto simp: receive_byte_def pins_of_def)

lemma load_out_fields [simp]:
  "m_ss (load_out s) = m_ss s" "m_clk_state (load_out s) = m_clk_state s" "m_cur_bit (load_out s) = m_cur_bit s"
  "sd_miso (load_out s) = sd_miso s" "m_state (load_out s) = m_state s" "m_data (load_out s) = m_data s"
  "m_cmd (load_out s) = m_cmd s" "m_image (load_out s) = m_image s" "m_type (load_out s) = m_type s"
  "m_blksize (load_out s) = m_blksize s" "m_xferblk (load_out s) = m_xferblk s" "m_crc_off (load_out s) = m_crc_off s"
  "m_blknext (load_out s) = m_blknext s" "m_write_ptr (load_out s) = m_write_ptr s" "m_out_delay (load_out s) = m_out_delay s"
  by (simp_all add: load_out_def)

section \<open>Eight clocks make a byte\<close>

definition latch_bit :: "bool \<Rightarrow> u8 \<Rightarrow> u8" where
  "latch_bit b w = (w AND NOT 0x01) OR of_bool b"

lemma bit_shl: "bit (push_bit 1 w :: u8) k \<longleftrightarrow> 0 < k \<and> k < 8 \<and> bit w (k - 1)"
  unfolding bit_push_bit_iff by (auto dest: bit_imp_le_length)

lemma bit_latches [simp]:
  "bit (latch_bit b w) k \<longleftrightarrow> (if k = 0 then b else bit w k)"
  "bit (shift_in_latch w) k \<longleftrightarrow> 0 < k \<and> k < 8 \<and> bit w (k - 1)"
  "bit (shift_out_latch w) k \<longleftrightarrow> k = 0 \<or> k < 8 \<and> bit w (k - 1)"
  unfolding latch_bit_def shift_in_latch_def shift_out_latch_def bit_or_iff bit_and_iff bit_not_iff bit_shl
  by (auto simp: bit_1_iff bit_of_bool_iff dest: bit_imp_le_length)

lemma clk_low: "\<not> m_clk_state s \<Longrightarrow> s\<lparr>m_clk_state := False\<rparr> = s"
  by (cases s) simp

lemma spi_bit_mid:
  assumes "m_ss s" "\<not> m_clk_state s" "m_cur_bit s < 7"
  shows "spi_bit b s = s\<lparr>m_in_bit := b, m_in_latch := shift_in_latch (latch_bit b (m_in_latch s)),
    m_out_latch := shift_out_latch (m_out_latch s), m_cur_bit := m_cur_bit s + 1, sd_miso := sd_miso s @ [bit (m_out_latch s) 6]\<rparr>"
proof -
  have "spi_clock_w True (spi_mosi_w b s) =
      s\<lparr>m_in_bit := b, m_in_latch := latch_bit b (m_in_latch s), m_cur_bit := m_cur_bit s + 1, m_clk_state := True\<rparr>"
    using assms by (simp add: spi_clock_w_def spi_mosi_w_def latch_in_def Let_def latch_bit_def)
  then show ?thesis
    unfolding spi_bit_def using assms by (simp add: spi_clock_w_def [of False] shift_out_def Let_def clk_low)
qed

lemma spi_bit_last:
  assumes "m_ss s" "\<not> m_clk_state s" "m_cur_bit s = 7"
  shows "spi_bit b s = shift_out (receive_byte (s\<lparr>m_in_bit := b, m_in_latch := latch_bit b (m_in_latch s), m_cur_bit := 8\<rparr>))"
proof -
  let ?s = "receive_byte (s\<lparr>m_in_bit := b, m_in_latch := latch_bit b (m_in_latch s), m_cur_bit := 8\<rparr>)"
  have "spi_clock_w True (spi_mosi_w b s) = ?s\<lparr>m_clk_state := True\<rparr>"
    using assms by (simp add: spi_clock_w_def spi_mosi_w_def latch_in_def Let_def latch_bit_def)
  moreover have "(shift_out (t\<lparr>m_clk_state := True\<rparr>))\<lparr>m_clk_state := False\<rparr> = (shift_out t)\<lparr>m_clk_state := False\<rparr>" for t
    by (simp add: shift_out_def Let_def load_out_def)
  moreover have "(shift_out ?s)\<lparr>m_clk_state := False\<rparr> = shift_out ?s"
    using assms(2) by (simp add: shift_out_def Let_def)
  ultimately show ?thesis using assms by (simp add: spi_bit_def spi_clock_w_def)
qed

lemma spi_xfer_eq:
  assumes "byte_ready s"
  shows "spi_xfer w s = byte_step w s"
proof -
  have r: "m_ss s" "\<not> m_clk_state s" "m_cur_bit s = 0" using assms by (auto simp: byte_ready_def)
  define i7 where "i7 = shift_in_latch (latch_bit (bit w 1) (shift_in_latch (latch_bit (bit w 2) (shift_in_latch (latch_bit (bit w 3)
    (shift_in_latch (latch_bit (bit w 4) (shift_in_latch (latch_bit (bit w 5) (shift_in_latch (latch_bit (bit w 6)
    (shift_in_latch (latch_bit (bit w 7) (m_in_latch s))))))))))))))"
  define o7 where "o7 = shift_out_latch (shift_out_latch (shift_out_latch (shift_out_latch (shift_out_latch
    (shift_out_latch (shift_out_latch (m_out_latch s)))))))"
  have i7: "latch_bit (bit w 0) i7 = w" by (simp add: i7_def u8_eq_iff)
  have o7: "o7 = push_bit 7 (m_out_latch s) OR 0x7f"
  proof -
    have "(0x7f :: u8) = mask 7" by (simp add: mask_eq_exp_minus_1)
    then show ?thesis
      unfolding u8_eq_iff o7_def bit_or_iff bit_push_bit_iff by (simp only: bit_mask_iff bit_latches) simp
  qed
  have "fold spi_bit (map (bit w) [7, 6, 5, 4, 3, 2, 1]) s = s\<lparr>m_in_bit := bit w 1, m_in_latch := i7, m_out_latch := o7,
      m_cur_bit := 7, sd_miso := sd_miso s @ map (bit (m_out_latch s)) [6, 5, 4, 3, 2, 1, 0]\<rparr>"
    using r by (simp add: spi_bit_mid i7_def o7_def)
  then have "spi_xfer w s = spi_bit (bit w 0) (s\<lparr>m_in_bit := bit w 1, m_in_latch := i7, m_out_latch := o7,
      m_cur_bit := 7, sd_miso := sd_miso s @ map (bit (m_out_latch s)) [6, 5, 4, 3, 2, 1, 0]\<rparr>)"
    by (simp add: spi_xfer_def msb_bits_def)
  also have "\<dots> = byte_step w s"
    using r by (simp add: spi_bit_last byte_step_def byte_in_def i7 o7 [symmetric])
  finally show ?thesis .
qed

section \<open>What the master samples\<close>

text \<open>The master samples MISO while the clock is low, before each rising edge.\<close>

fun spi_rx :: "bool list \<Rightarrow> sdcard \<Rightarrow> bool list" where
  "spi_rx [] s = []"
| "spi_rx (b # bs) s = last (sd_miso s) # spi_rx bs (spi_bit b s)"

definition byte_of :: "bool list \<Rightarrow> u8" where
  "byte_of bs = horner_sum of_bool 2 (rev bs)"

fun spi_io :: "u8 list \<Rightarrow> sdcard \<Rightarrow> u8 list \<times> sdcard" where
  "spi_io [] s = ([], s)"
| "spi_io (w # ws) s =
     (let (rs, s') = spi_io ws (spi_xfer w s) in (byte_of (spi_rx (msb_bits w) s) # rs, s'))"

text \<open>MISO shows the top bit of the output latch at a byte boundary.\<close>

definition miso_ready :: "sdcard \<Rightarrow> bool" where
  "miso_ready s \<longleftrightarrow> byte_ready s \<and> sd_miso s \<noteq> [] \<and> last (sd_miso s) = bit (m_out_latch s) 7"

lemma byte_of_msb_bits [simp]: "byte_of (msb_bits w) = w"
  unfolding u8_eq_iff byte_of_def msb_bits_def by (simp add: bit_horner_sum_bit_word_iff numeral_eq_Suc)

lemma spi_rx_latch:
  assumes "miso_ready s"
  shows "spi_rx (msb_bits w) s = msb_bits (m_out_latch s)"
proof -
  have r: "m_ss s" "\<not> m_clk_state s" "m_cur_bit s = 0" "last (sd_miso s) = bit (m_out_latch s) 7"
    using assms by (auto simp: miso_ready_def byte_ready_def)
  then show ?thesis by (simp add: msb_bits_def spi_bit_mid)
qed

lemma byte_step_pins:
  assumes "byte_ready s"
  shows "miso_ready (byte_step w s) \<and>
    sd_miso (byte_step w s) = sd_miso s @ map (bit (m_out_latch s)) [6, 5, 4, 3, 2, 1, 0] @ [bit (m_out_latch (byte_step w s)) 7]"
  using assms by (simp add: byte_step_def shift_out_def Let_def byte_in_def byte_ready_def miso_ready_def)

lemma spi_io_Cons:
  assumes "miso_ready s"
  shows "spi_io (w # ws) s = (m_out_latch s # fst (spi_io ws (byte_step w s)), snd (spi_io ws (byte_step w s)))"
  using assms spi_rx_latch [OF assms] by (simp add: spi_xfer_eq miso_ready_def case_prod_beta)

lemma spi_io_append:
  "spi_io (us @ ws) s = (fst (spi_io us s) @ fst (spi_io ws (snd (spi_io us s))), snd (spi_io ws (snd (spi_io us s))))"
  by (induction us arbitrary: s) (simp_all add: case_prod_beta)

text \<open>Eight clocks exchange a byte. When the card is selected and the clock is low at a byte boundary,
  setting the data pin and pulsing the clock for each bit of a byte, most significant bit first,
  has exactly the effect of the card receiving this byte, whatever its input latch held before; the
  levels the master samples are the bits of the card's output latch; and the card is at a byte boundary
  again, with the top bit of its next byte on MISO.\<close>

theorem spi_byte_exchange:
  assumes "miso_ready s"
  shows "spi_xfer w s = byte_step w s \<and> spi_rx (msb_bits w) s = msb_bits (m_out_latch s) \<and> miso_ready (spi_xfer w s)"
  using assms spi_xfer_eq [of s w] spi_rx_latch [OF assms] byte_step_pins [of s w] by (simp add: miso_ready_def)

end
