(* ===== verification/Sdcard_Protocol.thy ===== *)
theory Sdcard_Protocol
  imports Sdcard_Bytes
begin

unbundle bit_operations_syntax

text \<open>
  The SPI protocol of the SD card, seen by a master that exchanges bytes: how a command frame of six bytes is taken
  in, how its response is delivered, and the complete transactions that read and write a block.
\<close>

section \<open>Between two bytes\<close>

text \<open>The part of the state that the shift registers and the delivery of a response do not touch.\<close>

definition core :: "sdcard \<Rightarrow> sdcard" where
  "core s = s\<lparr>m_in_bit := False, m_in_latch := 0, m_out_latch := 0, m_cur_bit := 0, m_out_ptr := 0, m_out_count := 0, sd_miso := []\<rparr>"

lemma core_eq_fields:
  assumes "core s = core t"
  shows "m_image s = m_image t" "m_type s = m_type t" "m_blksize s = m_blksize t" "m_xferblk s = m_xferblk t"
    "m_cmd s = m_cmd t" "m_state s = m_state t" "m_data s = m_data t" "m_crc_off s = m_crc_off t" "m_out_delay s = m_out_delay t"
    "m_blknext s = m_blknext t" "m_write_ptr s = m_write_ptr t" "m_csd s = m_csd t" "m_ss s = m_ss t"
    "m_bACMD s = m_bACMD t" "sd_ub s = sd_ub t" "m_sectorbuf s = m_sectorbuf t" "m_preferred_type s = m_preferred_type t"
    "m_clk_state s = m_clk_state t"
  using assms by (cases s; cases t; simp add: core_def)+

lemma core_upd [simp]:
  "core (s\<lparr>m_in_bit := b\<rparr>) = core s" "core (s\<lparr>m_in_latch := w\<rparr>) = core s" "core (s\<lparr>m_out_latch := w\<rparr>) = core s"
  "core (s\<lparr>m_cur_bit := n\<rparr>) = core s" "core (s\<lparr>m_out_ptr := n\<rparr>) = core s" "core (s\<lparr>m_out_count := n\<rparr>) = core s"
  "core (s\<lparr>sd_miso := l\<rparr>) = core s"
  by (cases s; simp add: core_def)+

lemma core_byte_in [simp]: "core (byte_in w s) = core s"
  by (simp add: byte_in_def)

text \<open>The states in which a byte is a byte of a command.\<close>

definition command_state :: "sd_state \<Rightarrow> bool" where
  "command_state st \<longleftrightarrow> st \<notin> {SD_STATE_DATA_MULTI, SD_STATE_WRITE_WAITFE, SD_STATE_WRITE_DATA}"

text \<open>Nothing is pending: no part of a command, no rest of a response.\<close>

definition sd_quiet :: "sdcard \<Rightarrow> bool" where
  "sd_quiet s \<longleftrightarrow> miso_ready s \<and> m_cmd s = replicate 6 0xff \<and> m_out_latch s = 0xff \<and> m_out_count s = 0 \<and> m_out_delay s \<le> m_out_ptr s"

text \<open>The bytes from index \<open>p\<close> to \<open>p + n\<close> of the data buffer are still to be sent.\<close>

definition sending :: "nat \<Rightarrow> nat \<Rightarrow> sdcard \<Rightarrow> bool" where
  "sending p n s \<longleftrightarrow> miso_ready s \<and> m_cmd s = replicate 6 0xff \<and> m_out_count s = n \<and> m_out_delay s \<le> 1 \<and>
     m_out_ptr s = m_out_delay s + p \<and> p + n \<le> length (m_data s) \<and> length (m_data s) = 2056 \<and>
     (command_state (m_state s) \<or> m_state s = SD_STATE_WRITE_WAITFE)"

section \<open>Delivery of a response\<close>

lemma out_latch_spent: "push_bit 1 (push_bit 7 w OR 0x7f) OR 1 = (0xff :: u8)"
proof -
  have "(0x7f :: u8) = mask 7" by (simp add: mask_eq_exp_minus_1)
  then show ?thesis unfolding u8_eq_iff bit_or_iff bit_shl by (simp add: bit_mask_iff bit_push_bit_iff bit_or_iff)
qed

lemma shift_out_boundary:
  assumes "m_cur_bit s = 8" "shift_out_latch (m_out_latch s) = 0xff"
  shows "shift_out s = (let t = load_out (s\<lparr>m_in_latch := shift_in_latch (m_in_latch s), m_out_latch := 0xff, m_cur_bit := 0\<rparr>)
    in t\<lparr>sd_miso := sd_miso t @ [bit (m_out_latch t) 7]\<rparr>)"
  using assms by (simp add: shift_out_def Let_def)

text \<open>The three cases of the load at the end of a byte: the delay, the next byte of a response, nothing.\<close>

lemma shift_out_delay:
  assumes "m_cur_bit s = 8" "shift_out_latch (m_out_latch s) = 0xff" "m_out_ptr s < m_out_delay s" "m_out_delay s \<le> 1"
  shows "core (shift_out s) = core s" "m_out_latch (shift_out s) = 0xff" "m_out_ptr (shift_out s) = 1" "m_out_count (shift_out s) = m_out_count s"
  using assms by (simp_all add: shift_out_boundary load_out_def Let_def)

lemma shift_out_data:
  assumes "m_cur_bit s = 8" "shift_out_latch (m_out_latch s) = 0xff" "m_out_count s = Suc n" "m_out_ptr s = m_out_delay s + p"
    "p < length (m_data s)" "m_out_delay s \<le> 1" "length (m_data s) = 2056"
  shows "core (shift_out s) = core s" "m_out_latch (shift_out s) = m_data s ! p" "m_out_ptr (shift_out s) = m_out_delay s + Suc p"
    "m_out_count (shift_out s) = n"
  using assms by (simp_all add: shift_out_boundary load_out_def Let_def)

lemma shift_out_none:
  assumes "m_cur_bit s = 8" "shift_out_latch (m_out_latch s) = 0xff" "m_out_count s = 0" "m_out_delay s \<le> m_out_ptr s"
  shows "core (shift_out s) = core s" "m_out_latch (shift_out s) = 0xff" "m_out_ptr (shift_out s) = m_out_ptr s" "m_out_count (shift_out s) = 0"
  using assms by (simp_all add: shift_out_boundary load_out_def Let_def)

lemma byte_in_fields [simp]:
  "m_cur_bit (byte_in w s) = 8" "shift_out_latch (m_out_latch (byte_in w s)) = 0xff" "m_in_latch (byte_in w s) = w"
  "m_out_count (byte_in w s) = m_out_count s" "m_out_ptr (byte_in w s) = m_out_ptr s" "m_out_delay (byte_in w s) = m_out_delay s"
  "m_data (byte_in w s) = m_data s" "m_cmd (byte_in w s) = m_cmd s" "m_state (byte_in w s) = m_state s"
  "m_write_ptr (byte_in w s) = m_write_ptr s" "m_xferblk (byte_in w s) = m_xferblk s" "m_blknext (byte_in w s) = m_blknext s"
  "m_image (byte_in w s) = m_image s" "m_crc_off (byte_in w s) = m_crc_off s" "m_type (byte_in w s) = m_type s"
  "m_blksize (byte_in w s) = m_blksize s"
  using out_latch_spent [of "m_out_latch s"] by (simp_all add: byte_in_def shift_out_latch_def)

lemma do_command_ff: "m_cmd s = replicate 6 0xff \<Longrightarrow> do_command s = s"
  by (simp add: do_command_def)

lemma receive_ff:
  assumes "m_cmd s = replicate 6 0xff" "command_state (m_state s) \<or> m_state s = SD_STATE_WRITE_WAITFE" "m_in_latch s = 0xff"
  shows "receive_byte s = s"
proof -
  have c: "drop 1 (m_cmd s) @ [m_in_latch s] = m_cmd s" using assms by (simp add: numeral_eq_Suc)
  then have "s\<lparr>m_cmd := drop 1 (m_cmd s) @ [m_in_latch s]\<rparr> = s" by simp
  then show ?thesis
    using assms by (auto simp: receive_byte_def receive_command_byte_def do_command_ff command_state_def Let_def)
qed

lemma ff_byte:
  assumes "sending p n s"
  shows "byte_step 0xff s = shift_out (byte_in 0xff s)" "miso_ready (byte_step 0xff s)"
proof -
  have "receive_byte (byte_in 0xff s) = byte_in 0xff s" using assms by (intro receive_ff) (simp_all add: sending_def)
  then show "byte_step 0xff s = shift_out (byte_in 0xff s)" by (simp add: byte_step_def)
  show "miso_ready (byte_step 0xff s)" using assms byte_step_pins [of s "0xff"] by (simp add: sending_def miso_ready_def)
qed

lemma ff_step:
  assumes "sending p (Suc n) s"
  shows "sending (Suc p) n (byte_step 0xff s)" "m_out_latch (byte_step 0xff s) = m_data s ! p" "core (byte_step 0xff s) = core s"
proof -
  have s: "m_out_count s = Suc n" "m_out_ptr s = m_out_delay s + p" "m_out_delay s \<le> 1" "p < length (m_data s)" "length (m_data s) = 2056"
    using assms by (auto simp: sending_def)
  have f: "core (shift_out (byte_in 0xff s)) = core s" "m_out_latch (shift_out (byte_in 0xff s)) = m_data s ! p"
    "m_out_ptr (shift_out (byte_in 0xff s)) = m_out_delay s + Suc p" "m_out_count (shift_out (byte_in 0xff s)) = n"
    using shift_out_data [of "byte_in 0xff s" n p] s by auto
  show c: "core (byte_step 0xff s) = core s" "m_out_latch (byte_step 0xff s) = m_data s ! p"
    using f ff_byte(1) [OF assms] by simp_all
  show "sending (Suc p) n (byte_step 0xff s)"
    using assms f(3,4) ff_byte(2) [OF assms] unfolding sending_def core_eq_fields [OF c(1)] ff_byte(1) [OF assms, symmetric] by simp
qed

lemma ff_last:
  assumes "sending p 0 s"
  shows "sd_quiet (byte_step 0xff s)" "core (byte_step 0xff s) = core s"
proof -
  have s: "m_out_count s = 0" "m_out_delay s \<le> m_out_ptr s" "m_cmd s = replicate 6 0xff" using assms by (auto simp: sending_def)
  note f = shift_out_none [of "byte_in 0xff s", simplified, OF s(1,2)]
  show c: "core (byte_step 0xff s) = core s" using f ff_byte(1) [OF assms] by simp
  show "sd_quiet (byte_step 0xff s)"
    using f(2-4) s ff_byte(2) [OF assms] unfolding sd_quiet_def core_eq_fields [OF c] ff_byte(1) [OF assms, symmetric] by simp
qed

lemma deliver:
  "sending p n s \<Longrightarrow> \<exists>s'. spi_io (replicate (Suc n) 0xff) s = (m_out_latch s # take n (drop p (m_data s)), s') \<and> sd_quiet s' \<and> core s' = core s"
proof (induction n arbitrary: p s)
  case 0
  then have "miso_ready s" by (simp add: sending_def)
  then show ?case using ff_last [OF 0] spi_io_Cons [of s "0xff" "[]"] by simp
next
  case (Suc n)
  let ?t = "byte_step 0xff s"
  have t: "sending (Suc p) n ?t" "m_out_latch ?t = m_data s ! p" "core ?t = core s" using ff_step [OF Suc.prems] by auto
  obtain s' where s': "spi_io (replicate (Suc n) 0xff) ?t = (m_out_latch ?t # take n (drop (Suc p) (m_data ?t)), s')" "sd_quiet s'" "core s' = core ?t"
    using Suc.IH [OF t(1)] by blast
  have m: "miso_ready s" "p < length (m_data s)" using Suc.prems by (auto simp: sending_def)
  have "m_data s ! p # take n (drop (Suc p) (m_data s)) = take (Suc n) (drop p (m_data s))"
    using m(2) by (simp add: Cons_nth_drop_Suc [symmetric])
  moreover have "spi_io (replicate (Suc (Suc n)) 0xff) s
      = (m_out_latch s # fst (spi_io (replicate (Suc n) 0xff) ?t), snd (spi_io (replicate (Suc n) 0xff) ?t))"
    unfolding replicate_Suc [of "Suc n"] by (rule spi_io_Cons [OF m(1)])
  ultimately show ?case using s' t(2,3) core_eq_fields(7) [OF t(3)] by simp
qed

section \<open>Commands do not look at the shift registers\<close>

definition put_pins :: "bool \<times> u8 \<times> u8 \<times> nat \<times> bool list \<Rightarrow> sdcard \<Rightarrow> sdcard" where
  "put_pins x s = (case x of (b, i, w, k, l) \<Rightarrow>
     s\<lparr>m_in_bit := b, m_in_latch := i, m_out_latch := w, m_cur_bit := k, sd_miso := l\<rparr>)"

definition put_out :: "nat \<times> nat \<Rightarrow> sdcard \<Rightarrow> sdcard" where
  "put_out y s = (case y of (p, c) \<Rightarrow> s\<lparr>m_out_ptr := p, m_out_count := c\<rparr>)"

lemma put_fields [simp]:
  "m_image (put_pins x s) = m_image s" "m_type (put_pins x s) = m_type s" "m_blksize (put_pins x s) = m_blksize s"
  "m_xferblk (put_pins x s) = m_xferblk s" "m_cmd (put_pins x s) = m_cmd s" "m_state (put_pins x s) = m_state s"
  "m_data (put_pins x s) = m_data s" "m_csd (put_pins x s) = m_csd s" "m_bACMD (put_pins x s) = m_bACMD s"
  "m_sectorbuf (put_pins x s) = m_sectorbuf s" "m_crc_off (put_pins x s) = m_crc_off s"
  "m_out_ptr (put_pins x s) = m_out_ptr s" "m_out_count (put_pins x s) = m_out_count s" "m_out_delay (put_pins x s) = m_out_delay s"
  "m_image (put_out y s) = m_image s" "m_type (put_out y s) = m_type s" "m_blksize (put_out y s) = m_blksize s"
  "m_xferblk (put_out y s) = m_xferblk s" "m_cmd (put_out y s) = m_cmd s" "m_state (put_out y s) = m_state s"
  "m_data (put_out y s) = m_data s" "m_csd (put_out y s) = m_csd s" "m_bACMD (put_out y s) = m_bACMD s"
  "m_sectorbuf (put_out y s) = m_sectorbuf s" "m_crc_off (put_out y s) = m_crc_off s"
  by (cases x, simp add: put_pins_def | cases y, simp add: put_out_def)+

lemma put_commute [simp]:
  "(put_pins x s)\<lparr>m_data := d\<rparr> = put_pins x (s\<lparr>m_data := d\<rparr>)" "(put_pins x s)\<lparr>sd_ub := b\<rparr> = put_pins x (s\<lparr>sd_ub := b\<rparr>)"
  "(put_pins x s)\<lparr>m_sectorbuf := d\<rparr> = put_pins x (s\<lparr>m_sectorbuf := d\<rparr>)" "(put_pins x s)\<lparr>m_xferblk := n\<rparr> = put_pins x (s\<lparr>m_xferblk := n\<rparr>)"
  "(put_pins x s)\<lparr>m_blknext := n\<rparr> = put_pins x (s\<lparr>m_blknext := n\<rparr>)" "(put_pins x s)\<lparr>m_crc_off := b\<rparr> = put_pins x (s\<lparr>m_crc_off := b\<rparr>)"
  "(put_pins x s)\<lparr>m_cmd := c\<rparr> = put_pins x (s\<lparr>m_cmd := c\<rparr>)" "(put_pins x s)\<lparr>m_bACMD := b\<rparr> = put_pins x (s\<lparr>m_bACMD := b\<rparr>)"
  "(put_out y s)\<lparr>m_data := d\<rparr> = put_out y (s\<lparr>m_data := d\<rparr>)" "(put_out y s)\<lparr>sd_ub := b\<rparr> = put_out y (s\<lparr>sd_ub := b\<rparr>)"
  "(put_out y s)\<lparr>m_sectorbuf := d\<rparr> = put_out y (s\<lparr>m_sectorbuf := d\<rparr>)" "(put_out y s)\<lparr>m_xferblk := n\<rparr> = put_out y (s\<lparr>m_xferblk := n\<rparr>)"
  "(put_out y s)\<lparr>m_blknext := n\<rparr> = put_out y (s\<lparr>m_blknext := n\<rparr>)" "(put_out y s)\<lparr>m_crc_off := b\<rparr> = put_out y (s\<lparr>m_crc_off := b\<rparr>)"
  by (cases x, cases y, simp add: put_pins_def put_out_def)+

lemma put_ops [simp]:
  "data_put i bs (put_pins x s) = put_pins x (data_put i bs s)" "data_put i bs (put_out y s) = put_out y (data_put i bs s)"
  "data_get i n (put_pins x s) = data_get i n s" "data_get i n (put_out y s) = data_get i n s"
  "image_read l i (put_pins x s) = put_pins x (image_read l i s)" "image_read l i (put_out y s) = put_out y (image_read l i s)"
  "image_read_sectorbuf l (put_pins x s) = put_pins x (image_read_sectorbuf l s)"
  "image_read_sectorbuf l (put_out y s) = put_out y (image_read_sectorbuf l s)"
  "append_crc i n (put_pins x s) = put_pins x (append_crc i n s)" "append_crc i n (put_out y s) = put_out y (append_crc i n s)"
  by (simp_all add: append_crc_def data_get_def image_read_def image_read_sectorbuf_def data_put_def Let_def split: option.splits)

lemma put_send [simp]:
  "send_data n st d (put_pins x s) = put_pins x (send_data n st d s)" "send_data n st d (put_out y s) = send_data n st d s"
  by (cases x, simp add: send_data_def put_pins_def) (cases y, simp add: send_data_def put_out_def)

lemma command_put:
  "cmd0_go_idle_state (put_pins x (put_out y s)) = put_pins x (cmd0_go_idle_state s)"
  "cmd1_send_op_cond (put_pins x (put_out y s)) = put_pins x (cmd1_send_op_cond s)"
  "cmd8_send_if_cond (put_pins x (put_out y s)) = put_pins x (cmd8_send_if_cond s)"
  "cmd9_send_csd (put_pins x (put_out y s)) = put_pins x (cmd9_send_csd s)"
  "cmd10_send_cid (put_pins x (put_out y s)) = put_pins x (cmd10_send_cid s)"
  "cmd12_stop_transmission (put_pins x (put_out y s)) = put_pins x (cmd12_stop_transmission s)"
  "cmd13_send_status (put_pins x (put_out y s)) = put_pins x (cmd13_send_status s)"
  "cmd16_set_blocklen (put_pins x (put_out y s)) = put_pins x (cmd16_set_blocklen s)"
  "cmd18_read_multiple_block (put_pins x (put_out y s)) = put_pins x (cmd18_read_multiple_block s)"
  "cmd24_write_block (put_pins x (put_out y s)) = put_pins x (cmd24_write_block s)"
  "cmd41_send_op_cond (put_pins x (put_out y s)) = put_pins x (cmd41_send_op_cond s)"
  "cmd55_app_cmd (put_pins x (put_out y s)) = put_pins x (cmd55_app_cmd s)"
  "cmd58_read_ocr (put_pins x (put_out y s)) = put_pins x (cmd58_read_ocr s)"
  "cmd59_crc_on_off (put_pins x (put_out y s)) = put_pins x (cmd59_crc_on_off s)"
  by (simp_all add: cmd0_go_idle_state_def cmd1_send_op_cond_def cmd8_send_if_cond_def cmd9_send_csd_def cmd10_send_cid_def
    cmd12_stop_transmission_def cmd13_send_status_def cmd16_set_blocklen_def cmd18_read_multiple_block_def cmd24_write_block_def
    cmd41_send_op_cond_def cmd55_app_cmd_def cmd58_read_ocr_def cmd59_crc_on_off_def Let_def)

lemma cmd17_put: "cmd17_read_single_block (put_pins x (put_out y s)) = put_pins x (cmd17_read_single_block s)"
  unfolding cmd17_read_single_block_def Let_def by (simp split del: if_split cong: if_cong add: if_distrib [of "put_pins x"] if_distrib [of "put_out y"]
     if_distrib [of "data_put _ _"] if_distrib [of "append_crc _ _"] if_distrib [of "send_data _ _ _"])

lemma run_command_put: "run_command n (put_pins x (put_out y s)) = map_option (put_pins x) (run_command n s)"
  by (simp add: run_command_def command_put cmd17_put)

lemma core_put:
  assumes "core t = core s"
  shows "t = put_pins (m_in_bit t, m_in_latch t, m_out_latch t, m_cur_bit t, sd_miso t) (put_out (m_out_ptr t, m_out_count t) s)"
  using assms by (cases s; cases t; simp add: core_def put_pins_def put_out_def)

lemma core_put_pins [simp]: "core (put_pins x s) = core s"
  by (cases x) (simp add: put_pins_def)

lemma core_cmd: "core (s\<lparr>m_cmd := c\<rparr>) = (core s)\<lparr>m_cmd := c\<rparr>"
  by (simp add: core_def)

section \<open>A command frame\<close>

text \<open>The bytes \<open>cs\<close> of a command were received.\<close>

definition collecting :: "u8 list \<Rightarrow> sdcard \<Rightarrow> bool" where
  "collecting cs s \<longleftrightarrow> miso_ready s \<and> m_cmd s = replicate (6 - length cs) 0xff @ cs \<and> length cs < 6 \<and> m_out_latch s = 0xff \<and>
     m_out_count s = 0 \<and> m_out_delay s \<le> m_out_ptr s \<and> command_state (m_state s)"

lemma receive_command:
  assumes "collecting cs s"
  shows "receive_byte (byte_in w s) = do_command ((byte_in w s)\<lparr>m_cmd := replicate (5 - length cs) 0xff @ cs @ [w]\<rparr>)"
proof -
  have "drop 1 (m_cmd s) @ [w] = replicate (5 - length cs) 0xff @ cs @ [w]" using assms by (auto simp: collecting_def)
  then show ?thesis
    using assms by (auto simp: receive_byte_def receive_command_byte_def collecting_def command_state_def Let_def)
qed

lemma collect_byte:
  assumes "collecting cs s" "length cs < 5"
  shows "collecting (cs @ [w]) (byte_step w s)" "core (byte_step w s) = core (s\<lparr>m_cmd := replicate (5 - length cs) 0xff @ cs @ [w]\<rparr>)"
proof -
  let ?t = "(byte_in w s)\<lparr>m_cmd := replicate (5 - length cs) 0xff @ cs @ [w]\<rparr>"
  have r: "m_out_count s = 0" "m_out_delay s \<le> m_out_ptr s" "byte_ready s" "command_state (m_state s)"
    using assms by (auto simp: collecting_def miso_ready_def)
  have "m_cmd ?t ! 0 = 0xff" using assms(2) by (simp add: nth_append)
  then have "do_command ?t = ?t" by (simp add: do_command_def)
  then have b: "byte_step w s = shift_out ?t" by (simp add: byte_step_def receive_command [OF assms(1)])
  note f = shift_out_none [of ?t, simplified, OF r(1,2)]
  show c: "core (byte_step w s) = core (s\<lparr>m_cmd := replicate (5 - length cs) 0xff @ cs @ [w]\<rparr>)"
    unfolding b f(1) by (simp add: core_def byte_in_def)
  show "collecting (cs @ [w]) (byte_step w s)"
    using f(2-4) r assms(2) byte_step_pins [OF r(3), of w] unfolding collecting_def core_eq_fields [OF c] b [symmetric] by simp
qed

lemma collect_all:
  assumes "sd_quiet s" "command_state (m_state s)" "length cs < 6"
  shows "\<exists>s'. spi_io cs s = (replicate (length cs) 0xff, s') \<and> collecting cs s' \<and>
    core s' = core (s\<lparr>m_cmd := replicate (6 - length cs) 0xff @ cs\<rparr>)"
  using assms(3)
proof (induction cs rule: rev_induct)
  case Nil
  have "core (s\<lparr>m_cmd := replicate 6 0xff\<rparr>) = core s" using assms(1) by (cases s) (simp add: sd_quiet_def)
  then show ?case using assms(1,2) by (simp only: spi_io.simps) (simp add: sd_quiet_def collecting_def)
next
  case (snoc w cs)
  then obtain s' where s': "spi_io cs s = (replicate (length cs) 0xff, s')" "collecting cs s'"
    "core s' = core (s\<lparr>m_cmd := replicate (6 - length cs) 0xff @ cs\<rparr>)" by auto
  have m: "miso_ready s'" "m_out_latch s' = 0xff" using s'(2) by (simp_all add: collecting_def)
  have "spi_io (cs @ [w]) s = (replicate (Suc (length cs)) 0xff, byte_step w s')"
    using spi_io_Cons [OF m(1), of w "[]"] by (simp add: spi_io_append s'(1) m(2) replicate_append_same)
  moreover have "core (byte_step w s') = core (s\<lparr>m_cmd := replicate (5 - length cs) 0xff @ cs @ [w]\<rparr>)"
    using collect_byte(2) [OF s'(2), of w] snoc.prems s'(3) by (simp add: core_cmd)
  ultimately show ?case using collect_byte(1) [OF s'(2), of w] snoc.prems by simp
qed

text \<open>The sixth byte starts the command.\<close>

lemma command_frame:
  assumes "sd_quiet s" "command_state (m_state s)" "length frame = 6"
  shows "\<exists>t. spi_io frame s = (replicate 6 0xff, shift_out (do_command t)) \<and> core t = core (s\<lparr>m_cmd := frame\<rparr>) \<and>
    m_cur_bit t = 8 \<and> shift_out_latch (m_out_latch t) = 0xff \<and> miso_ready (shift_out (do_command t))"
proof -
  obtain cs w where f: "frame = cs @ [w]" "length cs = 5" using assms(3) by (cases frame rule: rev_cases) auto
  obtain s' where s': "spi_io cs s = (replicate 5 0xff, s')" "collecting cs s'" "core s' = core (s\<lparr>m_cmd := replicate 1 0xff @ cs\<rparr>)"
    using collect_all [OF assms(1,2), of cs] f(2) by auto
  have m: "miso_ready s'" "m_out_latch s' = 0xff" using s'(2) by (simp_all add: collecting_def)
  let ?t = "(byte_in w s')\<lparr>m_cmd := frame\<rparr>"
  have b: "byte_step w s' = shift_out (do_command ?t)"
    using receive_command [OF s'(2), of w] f by (simp add: byte_step_def)
  have "spi_io frame s = (replicate 6 0xff, byte_step w s')"
    using spi_io_Cons [OF m(1), of w "[]"] by (simp add: f(1) spi_io_append s'(1) m(2) replicate_append_same) (simp add: numeral_eq_Suc)
  moreover have "core ?t = core (s\<lparr>m_cmd := frame\<rparr>)"
    using s'(3) by (simp add: core_cmd)
  moreover have "miso_ready (shift_out (do_command ?t))"
    using byte_step_pins [of s' w] m(1) b by (simp add: miso_ready_def)
  ultimately show ?thesis unfolding b by (intro exI [of _ ?t]) simp
qed

section \<open>A command and its response\<close>

definition answer_of :: "sdcard \<Rightarrow> nat \<times> nat" where
  "answer_of s = (m_out_delay s, m_out_ptr s)"

lemma answer_of_send [simp]: "answer_of (send_data n st d s) = (d, 0)"
  by (simp add: answer_of_def)

lemma run_command_answer: "run_command n s = Some u \<Longrightarrow> answer_of u = (1, 0)"
  by (auto simp: run_command_def cmd0_go_idle_state_def cmd1_send_op_cond_def cmd8_send_if_cond_def cmd12_stop_transmission_def
    cmd13_send_status_def cmd41_send_op_cond_def cmd55_app_cmd_def cmd58_read_ocr_def cmd59_crc_on_off_def cmd9_send_csd_def
    cmd10_send_cid_def cmd16_set_blocklen_def cmd17_read_single_block_def cmd18_read_multiple_block_def cmd24_write_block_def
    Let_def if_distrib [of answer_of] simp del: One_nat_def split del: if_split split: if_split_asm)

lemma run_command_state: "run_command n s = Some u \<Longrightarrow> m_state u \<noteq> SD_STATE_WRITE_DATA"
  by (auto simp: run_command_def cmd0_go_idle_state_def cmd1_send_op_cond_def cmd8_send_if_cond_def cmd12_stop_transmission_def
    cmd13_send_status_def cmd41_send_op_cond_def cmd55_app_cmd_def cmd58_read_ocr_def cmd59_crc_on_off_def cmd9_send_csd_def
    cmd10_send_cid_def cmd16_set_blocklen_def cmd17_read_single_block_def cmd18_read_multiple_block_def cmd24_write_block_def
    Let_def if_distrib [of m_state] split del: if_split split: if_split_asm)

text \<open>A frame the card accepts: start bits \<^verbatim>\<open>01\<close>, and the end bit unless the check is off.\<close>

definition frame_ok :: "u8 list \<Rightarrow> sdcard \<Rightarrow> bool" where
  "frame_ok frame s \<longleftrightarrow> length frame = 6 \<and> frame ! 0 AND 0xc0 = 0x40 \<and> (frame ! 5 AND 1 \<noteq> 0 \<or> m_crc_off s)"

lemma do_command_frame:
  assumes "frame_ok frame s" "run_command (frame ! 0 AND 0x3f) (s\<lparr>m_cmd := frame\<rparr>) = Some u" "core t = core (s\<lparr>m_cmd := frame\<rparr>)"
  shows "\<exists>x. do_command t = put_pins x (u\<lparr>m_bACMD := (frame ! 0 AND 0x3f = 55), m_cmd := replicate 6 0xff\<rparr>)"
proof -
  define x where "x = (m_in_bit t, m_in_latch t, m_out_latch t, m_cur_bit t, sd_miso t)"
  define y where "y = (m_out_ptr t, m_out_count t)"
  have t: "t = put_pins x (put_out y (s\<lparr>m_cmd := frame\<rparr>))" using core_put [OF assms(3)] by (simp add: x_def y_def)
  have "do_command t = put_pins x (u\<lparr>m_bACMD := (frame ! 0 AND 0x3f = 55), m_cmd := replicate 6 0xff\<rparr>)"
    using assms(1,2) by (simp add: t do_command_def run_command_put frame_ok_def Let_def)
  then show ?thesis by blast
qed

lemma transaction:
  assumes s: "sd_quiet s" "command_state (m_state s)" "sd_base B s"
    and f: "frame_ok frame s" "run_command (frame ! 0 AND 0x3f) (s\<lparr>m_cmd := frame\<rparr>) = Some u" "m_state u \<noteq> SD_STATE_DATA_MULTI"
  shows "\<exists>s'. spi_io (frame @ replicate (Suc (m_out_count u)) 0xff) s = (replicate 7 0xff @ take (m_out_count u) (m_data u), s') \<and>
    sd_quiet s' \<and> core s' = core (u\<lparr>m_bACMD := (frame ! 0 AND 0x3f = 55), m_cmd := replicate 6 0xff\<rparr>)"
proof -
  let ?u = "u\<lparr>m_bACMD := (frame ! 0 AND 0x3f = 55), m_cmd := replicate 6 0xff\<rparr>" and ?n = "m_out_count u"
  obtain t where t: "spi_io frame s = (replicate 6 0xff, shift_out (do_command t))" "core t = core (s\<lparr>m_cmd := frame\<rparr>)"
    "m_cur_bit t = 8" "shift_out_latch (m_out_latch t) = 0xff" "miso_ready (shift_out (do_command t))"
    using command_frame [OF s(1,2)] f(1) by (auto simp: frame_ok_def)
  obtain x where d: "do_command t = put_pins x ?u" using do_command_frame [OF f(1,2) t(2)] by blast
  have "sd_base B (s\<lparr>m_cmd := frame\<rparr>)" using s(3) f(1) by (simp add: sd_base_def frame_ok_def)
  then have inv: "sd_inv B u" using run_command_inv f(2) by blast
  have a: "m_out_delay u = 1" "m_out_ptr u = 0" using run_command_answer [OF f(2)] by (simp_all add: answer_of_def)
  let ?r = "shift_out (do_command t)"
  have p: "m_cur_bit (do_command t) = 8" "shift_out_latch (m_out_latch (do_command t)) = 0xff"
    using do_command_pins [of t] t(3,4) by (simp_all add: pins_of_def)
  have q: "m_out_ptr (do_command t) < m_out_delay (do_command t)" "m_out_delay (do_command t) \<le> 1" "m_out_count (do_command t) = ?n"
    unfolding d using a by simp_all
  note r = shift_out_delay [OF p q(1,2)]
  have c: "core ?r = core ?u" using r(1) by (simp add: d)
  have "m_state u \<noteq> SD_STATE_WRITE_DATA" by (rule run_command_state [OF f(2)])
  then have "sending 0 ?n ?r"
    using t(5) inv a r(3,4) q(3) f(3) unfolding sending_def core_eq_fields [OF c]
    by (auto simp: sd_inv_def sd_base_def command_state_def)
  then obtain s' where "spi_io (replicate (Suc ?n) 0xff) ?r = (m_out_latch ?r # take ?n (drop 0 (m_data ?r)), s')" "sd_quiet s'" "core s' = core ?r"
    using deliver by blast
  then show ?thesis using r(2) c core_eq_fields(7) [OF c]
    by (simp add: spi_io_append t(1) numeral_eq_Suc del: replicate_Suc spi_io.simps) (simp add: numeral_eq_Suc del: spi_io.simps)
qed

end
