(* ===== verification/Sdcard_Block.thy ===== *)
theory Sdcard_Block
  imports Sdcard_Protocol
begin

unbundle bit_operations_syntax

text \<open>
  Complete block transfers. A master that sends the frame of a read or write command and clocks the
  bytes of the transfer sees the card as a store of 512-byte blocks: the theory interprets the
  contract \<open>block_device\<close> on the pin sequences of the two transactions.
\<close>

section \<open>The card at rest\<close>

definition card_disk :: "sdcard \<Rightarrow> hard_disk_file" where
  "card_disk s = the (image_disk (m_image s))"

definition card_store :: "sdcard \<Rightarrow> bool" where
  "card_store s \<longleftrightarrow> sd_base 512 s \<and> m_xferblk s = 512 \<and> image_exists (m_image s) \<and> disk_ok (card_disk s)"

definition card_ok :: "sdcard \<Rightarrow> bool" where
  "card_ok s \<longleftrightarrow> sd_quiet s \<and> command_state (m_state s) \<and> card_store s"

definition card_blocks :: "sdcard \<Rightarrow> nat set" where
  "card_blocks s = disk_blocks (card_disk s)"

text \<open>A standard capacity card is addressed by bytes, a high capacity card by blocks.\<close>

definition block_addr :: "sdcard \<Rightarrow> nat \<Rightarrow> u32" where
  "block_addr s l = of_nat (if m_type s = SD_TYPE_V2 then l * 512 else l)"

definition frame_of :: "u8 \<Rightarrow> u32 \<Rightarrow> u8 list" where
  "frame_of n arg = (0x40 OR n) # put_u32be arg @ [0x01]"

lemma card_disk_Some: "card_store s \<Longrightarrow> image_disk (m_image s) = Some (card_disk s)"
  by (auto simp: card_store_def sd_base_def card_disk_def)

lemma frame_of_arg [simp]: "get_u32be (drop (Suc 0) (frame_of n arg)) = arg" "length (frame_of n arg) = 6"
  using get_put_u32be [of arg] by (simp_all add: frame_of_def get_u32be_def put_u32be_def)

lemma block_addr_unat:
  assumes "l \<in> card_blocks s"
  shows "unat (block_addr s l) = (if m_type s = SD_TYPE_V2 then l * 512 else l)"
proof -
  have "l * 512 < 2 ^ 32" using assms by (simp add: card_blocks_def disk_blocks_def)
  then show ?thesis by (simp add: block_addr_def unat_of_nat)
qed

lemma disk_read_block:
  assumes "card_store s" "l \<in> card_blocks s"
  shows "length (snd (hd_read l (card_disk s))) = 512"
proof -
  have o: "disk_ok (card_disk s)" "l \<in> disk_blocks (card_disk s)" using assms by (auto simp: card_store_def card_blocks_def)
  then show ?thesis using sector_pos_block [OF o] by (auto simp: hd_read_def file_read_def disk_ok_def disk_blocks_def Let_def min_def)
qed

section \<open>Reading a block\<close>

lemma take_list_put:
  "length ps = 3 \<Longrightarrow> length bs = 512 \<Longrightarrow> length cs = 2 \<Longrightarrow> length d = 2056 \<Longrightarrow>
    take 517 (list_put 515 cs (list_put 3 bs (list_put 0 ps d))) = ps @ bs @ cs"
  "length ps = 3 \<Longrightarrow> length bs = 512 \<Longrightarrow> length d = 2056 \<Longrightarrow> take 512 (drop 3 (list_put 3 bs (list_put 0 ps d))) = bs"
  by (simp_all add: list_put_def)

lemma cmd17_full_block:
  assumes s: "card_store s" "l \<in> card_blocks s" and c: "get_u32be (drop 1 (m_cmd s)) = block_addr s l"
  defines "bs \<equiv> snd (hd_read l (card_disk s))"
  shows "cmd17_read_single_block s = send_data 517 SD_STATE_DATA 1
    (s\<lparr>m_data := list_put 515 (put_u16be (crc16_simple bs)) (list_put 3 bs (list_put 0 [0x00, 0xff, 0xfe] (m_data s)))\<rparr>)"
proof -
  have b: "m_blksize s = 512" "m_xferblk s = 512" "length (m_data s) = 2056" "image_exists (m_image s)"
    using s(1) by (auto simp: card_store_def sd_base_def)
  have l: "length bs = 512" using disk_read_block [OF s] by (simp add: bs_def)
  have a: "unat (block_addr s l) = (if m_type s = SD_TYPE_V2 then l * 512 else l)" using block_addr_unat [OF s(2)] .
  have lt: "l * 512 + 512 \<le> 2 ^ 32" using s(2) by (simp add: card_blocks_def disk_blocks_def)
  have x: "(l * 512 + 512 + 2 ^ 32 - 1) mod 2 ^ 32 div 512 = l"
  proof -
    have "l * 512 + 512 + 2 ^ 32 - 1 = (l * 512 + 511) + 2 ^ 32" by simp
    then have "(l * 512 + 512 + 2 ^ 32 - 1) mod 2 ^ 32 = l * 512 + 511" using lt by (simp only: mod_add_self2) simp
    then show ?thesis by simp
  qed
  define s1 where "s1 = data_put 0 [0x00, 0xff, 0xfe] s"
  have s1: "s1 = s\<lparr>m_data := list_put 0 [0x00, 0xff, 0xfe] (m_data s)\<rparr>" using b by (simp add: s1_def data_put_def)
  have r: "image_read l 3 s1 = s\<lparr>m_data := list_put 3 bs (list_put 0 [0x00, 0xff, 0xfe] (m_data s))\<rparr>"
    using card_disk_Some [OF s(1)] b l by (simp add: image_read_def s1 data_put_def bs_def [symmetric])
  have k: "append_crc 3 512 (image_read l 3 s1) =
      s\<lparr>m_data := list_put 515 (put_u16be (crc16_simple bs)) (list_put 3 bs (list_put 0 [0x00, 0xff, 0xfe] (m_data s)))\<rparr>"
    using b l take_list_put(2) [of "[0x00, 0xff, 0xfe]" bs "m_data s"] by (simp add: r append_crc_def data_get_def data_put_def)
  have f: "m_blksize s1 = 512" "m_xferblk s1 = 512" "m_type s1 = m_type s" "m_cmd s1 = m_cmd s" using b by (simp_all add: s1_def)
  show ?thesis
    unfolding cmd17_read_single_block_def Let_def s1_def [symmetric] f c a using b(4) x k
    by (cases "m_type s") simp_all
qed

lemma core_card_store:
  assumes "core s' = core t"
  shows "card_store s' = card_store t" "card_disk s' = card_disk t"
  unfolding card_store_def sd_base_def card_disk_def core_eq_fields [OF assms] by simp_all

lemma card_store_upd [simp]:
  "length c = 6 \<Longrightarrow> card_store s \<Longrightarrow> card_store (s\<lparr>m_cmd := c\<rparr>)" "card_store (s\<lparr>m_bACMD := b\<rparr>) = card_store s"
  "length d = 2056 \<Longrightarrow> card_store s \<Longrightarrow> card_store (s\<lparr>m_data := d\<rparr>)" "card_store (send_data n st k s) = card_store s"
  "card_store (s\<lparr>m_blknext := n\<rparr>) = card_store s" "card_store (s\<lparr>m_write_ptr := n\<rparr>) = card_store s"
  "card_store (s\<lparr>m_state := st\<rparr>) = card_store s" "card_store (s\<lparr>m_out_latch := w\<rparr>) = card_store s"
  by (auto simp: card_store_def sd_base_def card_disk_def)

text \<open>The bytes of a read transaction: the frame, one byte of delay, then the response byte, a gap, the token,
  the block and its CRC.\<close>

definition read_bytes :: "nat \<Rightarrow> sdcard \<Rightarrow> u8 list" where
  "read_bytes l s = frame_of 17 (block_addr s l) @ replicate 518 0xff"

lemma frame_of_ok [simp]: "frame_ok (frame_of 17 arg) s" "frame_ok (frame_of 24 arg) s"
  "frame_of 17 arg ! 0 AND 0x3f = 17" "frame_of 24 arg ! 0 AND 0x3f = 24"
  by (simp_all add: frame_ok_def frame_of_def put_u32be_def)

lemma read_transaction:
  assumes "card_ok s" "l \<in> card_blocks s"
  shows "\<exists>s'. spi_io (read_bytes l s) s = (replicate 7 0xff @ [0x00, 0xff, 0xfe] @ snd (hd_read l (card_disk s)) @
      put_u16be (crc16_simple (snd (hd_read l (card_disk s)))), s') \<and>
    card_ok s' \<and> m_image s' = m_image s \<and> m_type s' = m_type s"
proof -
  let ?bs = "snd (hd_read l (card_disk s))" and ?f = "frame_of 17 (block_addr s l)"
  let ?d = "list_put 515 (put_u16be (crc16_simple ?bs)) (list_put 3 ?bs (list_put 0 [0x00, 0xff, 0xfe] (m_data s)))"
  let ?u = "send_data 517 SD_STATE_DATA 1 (s\<lparr>m_cmd := ?f, m_data := ?d\<rparr>)"
  have q: "sd_quiet s" "command_state (m_state s)" "sd_base 512 s" "card_store s" using assms(1) by (auto simp: card_ok_def card_store_def)
  have len: "length ?bs = 512" "length (m_data s) = 2056" using disk_read_block [OF q(4) assms(2)] q(3) by (auto simp: sd_base_def)
  have "cmd17_read_single_block (s\<lparr>m_cmd := ?f\<rparr>) = ?u"
    using cmd17_full_block [of "s\<lparr>m_cmd := ?f\<rparr>" l] q(4) assms(2) by (simp add: card_blocks_def card_disk_def block_addr_def)
  then have r: "run_command (?f ! 0 AND 0x3f) (s\<lparr>m_cmd := ?f\<rparr>) = Some ?u" by (simp add: run_command_def)
  obtain s' where s': "spi_io (?f @ replicate (Suc (m_out_count ?u)) 0xff) s = (replicate 7 0xff @ take (m_out_count ?u) (m_data ?u), s')"
    "sd_quiet s'" "core s' = core (?u\<lparr>m_bACMD := False, m_cmd := replicate 6 0xff\<rparr>)"
    using transaction [OF q(1,2,3) _ r] by auto
  have "take 517 ?d = [0x00, 0xff, 0xfe] @ ?bs @ put_u16be (crc16_simple ?bs)"
    using take_list_put(1) [of "[0x00, 0xff, 0xfe]" ?bs "put_u16be (crc16_simple ?bs)" "m_data s"] len by simp
  moreover have "card_ok s'"
    using s'(2) q len by (simp add: card_ok_def core_card_store [OF s'(3)] core_eq_fields [OF s'(3)] command_state_def)
  ultimately show ?thesis using s'(1) core_eq_fields(1,2) [OF s'(3)] by (simp add: read_bytes_def del: replicate_Suc)
qed

section \<open>Writing a block\<close>

lemma cmd24_full_block:
  assumes s: "card_store s" "l \<in> card_blocks s" and c: "get_u32be (drop 1 (m_cmd s)) = block_addr s l"
  shows "cmd24_write_block s = send_data 1 SD_STATE_WRITE_WAITFE 1 (s\<lparr>m_blknext := l, m_data := list_put 0 [0] (m_data s)\<rparr>)"
proof -
  have b: "m_blksize s = 512" "m_xferblk s = 512" "length (m_data s) = 2056"
    using s(1) by (auto simp: card_store_def sd_base_def)
  have a: "unat (block_addr s l) = (if m_type s = SD_TYPE_V2 then l * 512 else l)" using block_addr_unat [OF s(2)] .
  have d: "data_put 0 [0] (s\<lparr>m_blknext := l\<rparr>) = s\<lparr>m_blknext := l, m_data := list_put 0 [0] (m_data s)\<rparr>"
    using b by (simp add: data_put_def)
  show ?thesis
    unfolding cmd24_write_block_def Let_def c a using b d by (cases "m_type s") simp_all
qed

text \<open>The bytes \<open>ds\<close> of the block (and of its CRC) were received.\<close>

definition writing :: "nat \<Rightarrow> u8 list \<Rightarrow> sdcard \<Rightarrow> bool" where
  "writing l ds s \<longleftrightarrow> miso_ready s \<and> m_cmd s = replicate 6 0xff \<and> m_out_latch s = 0xff \<and> m_out_count s = 0 \<and> m_out_delay s \<le> m_out_ptr s \<and>
     m_state s = SD_STATE_WRITE_DATA \<and> m_write_ptr s = length ds \<and> take (length ds) (m_data s) = ds \<and> length ds < 514 \<and>
     card_store s \<and> m_blknext s = l"

lemma card_store_data: "card_store s \<Longrightarrow> length (m_data s) = 2056 \<and> m_xferblk s = 512"
  by (simp add: card_store_def sd_base_def)

lemma take_put_byte: "length ds < length xs \<Longrightarrow> take (length ds) xs = ds \<Longrightarrow> take (Suc (length ds)) (list_put (length ds) [w] xs) = ds @ [w]"
  by (simp add: list_put_def)

lemma write_token:
  assumes "sd_quiet s" "m_state s = SD_STATE_WRITE_WAITFE" "card_store s" "m_blknext s = l"
  shows "writing l [] (byte_step 0xfe s)" "m_image (byte_step 0xfe s) = m_image s" "m_type (byte_step 0xfe s) = m_type s"
proof -
  let ?t = "(byte_in 0xfe s)\<lparr>m_state := SD_STATE_WRITE_DATA, m_out_latch := 0xff, m_write_ptr := 0\<rparr>"
  have r: "byte_ready s" "m_out_count s = 0" "m_out_delay s \<le> m_out_ptr s" "m_cmd s = replicate 6 0xff"
    using assms(1) by (auto simp: sd_quiet_def miso_ready_def)
  have b: "byte_step 0xfe s = shift_out ?t" using assms(2) by (simp add: byte_step_def receive_byte_def)
  have l: "shift_out_latch 0xff = 0xff" by (simp add: u8_eq_iff)
  have f: "core (shift_out ?t) = core ?t" "m_out_latch (shift_out ?t) = 0xff" "m_out_ptr (shift_out ?t) = m_out_ptr s" "m_out_count (shift_out ?t) = 0"
    using shift_out_none [of ?t] r l by simp_all
  have "core ?t = core (s\<lparr>m_state := SD_STATE_WRITE_DATA, m_write_ptr := 0\<rparr>)" by (simp add: core_def byte_in_def)
  then have c: "core (byte_step 0xfe s) = core (s\<lparr>m_state := SD_STATE_WRITE_DATA, m_write_ptr := 0\<rparr>)" using f(1) b by simp
  show "m_image (byte_step 0xfe s) = m_image s" "m_type (byte_step 0xfe s) = m_type s" using core_eq_fields(1,2) [OF c] by simp_all
  show "writing l [] (byte_step 0xfe s)"
    using f(2-4) r assms(3,4) byte_step_pins [OF r(1), of "0xfe"]
    unfolding writing_def core_eq_fields [OF c] core_card_store [OF c] b [symmetric] by simp
qed

lemma sd_write_byte_step:
  assumes "writing l ds s" "length ds < 513"
  shows "writing l (ds @ [w]) (byte_step w s)" "m_image (byte_step w s) = m_image s" "m_type (byte_step w s) = m_type s"
proof -
  have r: "byte_ready s" "m_out_count s = 0" "m_out_delay s \<le> m_out_ptr s" "m_cmd s = replicate 6 0xff" "m_state s = SD_STATE_WRITE_DATA"
    "m_write_ptr s = length ds" "take (length ds) (m_data s) = ds" "card_store s" "m_blknext s = l"
    using assms(1) by (auto simp: writing_def miso_ready_def)
  have x: "m_xferblk s = 512" "length (m_data s) = 2056" using card_store_data [OF r(8)] by auto
  let ?d = "list_put (length ds) [w] (m_data s)"
  let ?t = "(byte_in w s)\<lparr>m_data := ?d, m_write_ptr := Suc (length ds)\<rparr>"
  have "receive_byte (byte_in w s) = ?t"
    using r x assms(2) by (simp add: receive_byte_def receive_write_data_def data_put_def Let_def)
  then have b: "byte_step w s = shift_out ?t" by (simp add: byte_step_def)
  have f: "core (shift_out ?t) = core ?t" "m_out_latch (shift_out ?t) = 0xff" "m_out_ptr (shift_out ?t) = m_out_ptr s" "m_out_count (shift_out ?t) = 0"
    using shift_out_none [of ?t] r by simp_all
  have "core ?t = core (s\<lparr>m_data := ?d, m_write_ptr := Suc (length ds)\<rparr>)" by (simp add: core_def byte_in_def)
  then have c: "core (byte_step w s) = core (s\<lparr>m_data := ?d, m_write_ptr := Suc (length ds)\<rparr>)" using f(1) b by simp
  show "m_image (byte_step w s) = m_image s" "m_type (byte_step w s) = m_type s" using core_eq_fields(1,2) [OF c] by simp_all
  have "take (Suc (length ds)) ?d = ds @ [w]" using r(7) x(2) assms(2) by (intro take_put_byte) auto
  then show "writing l (ds @ [w]) (byte_step w s)"
    using f(2-4) r x assms(2) byte_step_pins [OF r(1), of w]
    unfolding writing_def core_eq_fields [OF c] core_card_store [OF c] b [symmetric] by simp
qed

lemma sd_write_bytes_step:
  assumes "writing l [] s" "length ds < 514"
  shows "\<exists>s'. spi_io ds s = (replicate (length ds) 0xff, s') \<and> writing l ds s' \<and> m_image s' = m_image s \<and> m_type s' = m_type s"
  using assms(2)
proof (induction ds rule: rev_induct)
  case (snoc w ds)
  then obtain s' where s': "spi_io ds s = (replicate (length ds) 0xff, s')" "writing l ds s'" "m_image s' = m_image s" "m_type s' = m_type s"
    by auto
  have m: "miso_ready s'" "m_out_latch s' = 0xff" using s'(2) by (simp_all add: writing_def)
  have "spi_io (ds @ [w]) s = (replicate (length (ds @ [w])) 0xff, byte_step w s')"
    using spi_io_Cons [OF m(1), of w "[]"] by (simp add: spi_io_append s'(1) m(2) replicate_append_same)
  then show ?case using sd_write_byte_step [OF s'(2), of w] snoc.prems s'(3,4) by simp
qed (use assms(1) in simp)

text \<open>The last byte of the CRC writes the block to the disk and queues the data response.\<close>

definition with_disk :: "hard_disk_file \<Rightarrow> sdcard \<Rightarrow> sdcard" where
  "with_disk h s = s\<lparr>m_image := (m_image s)\<lparr>m_hard_disk_handle := Some h\<rparr>\<rparr>"

lemma image_write_ok:
  assumes "card_store s" "take 512 (m_data s) = bs"
  shows "image_write l s = (True, with_disk (snd (hd_write l bs (card_disk s))) s)"
proof -
  have h: "image_disk (m_image s) = Some (card_disk s)" by (rule card_disk_Some [OF assms(1)])
  have k: "disk_ok (card_disk s)" using assms(1) by (simp add: card_store_def)
  have "hd_write l (m_data s) (card_disk s) = (True, snd (hd_write l bs (card_disk s)))"
    using k assms(2) by (auto simp: hd_write_def disk_ok_def)
  then show ?thesis by (simp add: image_write_def h with_disk_def)
qed

lemma card_store_with_disk:
  assumes "card_store s" "disk_ok h"
  shows "card_store (with_disk h s)" "card_disk (with_disk h s) = h" "m_type (with_disk h s) = m_type s"
  using assms by (auto simp: card_store_def with_disk_def card_disk_def sd_base_def image_disk_def disk_ok_def image_exists_def split: if_splits)

lemma write_last:
  assumes "writing l ds s" "length ds = 513"
  defines "h \<equiv> snd (hd_write l (take 512 ds) (card_disk s))"
  shows "sending 1 1 (byte_step w s)" "m_out_latch (byte_step w s) = 0x05" "m_data (byte_step w s) ! 1 = 0x01"
    "card_store (byte_step w s)" "card_disk (byte_step w s) = h" "m_type (byte_step w s) = m_type s" "m_state (byte_step w s) = SD_STATE_IDLE"
proof -
  have r: "byte_ready s" "m_out_count s = 0" "m_cmd s = replicate 6 0xff" "m_state s = SD_STATE_WRITE_DATA"
    "m_write_ptr s = 513" "take 513 (m_data s) = ds" "card_store s" "m_blknext s = l"
    using assms(1,2) by (auto simp: writing_def miso_ready_def)
  have x: "m_xferblk s = 512" "length (m_data s) = 2056" using card_store_data [OF r(7)] by auto
  let ?d = "list_put 513 [w] (m_data s)"
  let ?t = "(byte_in w s)\<lparr>m_data := ?d, m_write_ptr := 514\<rparr>"
  have tk: "take 512 ?d = take 512 ds" using r(6) x(2) by (auto simp: list_put_def)
  have ct: "core ?t = core (s\<lparr>m_data := ?d, m_write_ptr := 514\<rparr>)" by (simp add: core_def byte_in_def)
  have st: "card_store ?t" "card_disk ?t = card_disk s" unfolding core_card_store [OF ct] using r(7) x by (simp_all add: card_disk_def)
  have dk: "disk_ok h" using r(7) by (simp add: h_def card_store_def disk_ok_def hd_write_def)
  define v where "v = (with_disk h ?t)\<lparr>m_data := list_put 0 [0x05, 0x01] ?d\<rparr>"
  have w: "image_write l ?t = (True, with_disk h ?t)"
    using image_write_ok [OF st(1), of "take 512 ds" l] tk st(2) by (simp add: h_def)
  have lv: "length (m_data (with_disk h ?t)) = 2056" "m_data (with_disk h ?t) = ?d" using x by (simp_all add: with_disk_def)
  have "receive_byte (byte_in w s) = send_data 2 SD_STATE_IDLE 0 v"
    using r x w lv by (simp add: v_def receive_byte_def receive_write_data_def Let_def data_put_def)
  then have b: "byte_step w s = shift_out (send_data 2 SD_STATE_IDLE 0 v)" by (simp add: byte_step_def)
  let ?u = "send_data 2 SD_STATE_IDLE 0 v"
  have pv: "m_cur_bit v = 8" "shift_out_latch (m_out_latch v) = 0xff" "m_cmd v = replicate 6 0xff"
    "m_data v = list_put 0 [0x05, 0x01] ?d" "length (m_data v) = 2056" "m_data v \<noteq> []"
    using r x by (simp_all add: with_disk_def v_def) (auto simp: list_put_def)
  have f: "core (shift_out ?u) = core ?u" "m_out_latch (shift_out ?u) = m_data v ! 0" "m_out_ptr (shift_out ?u) = 1" "m_out_count (shift_out ?u) = 1"
    using shift_out_data [of ?u 1 0] pv by simp_all
  have d01: "m_data v ! 0 = 0x05" "m_data v ! 1 = 0x01" by (simp_all add: pv(4) list_put_def)
  have c: "core (byte_step w s) = core ?u" using f(1) b by simp
  show "m_out_latch (byte_step w s) = 0x05" using f(2) d01(1) b by simp
  show "m_data (byte_step w s) ! 1 = 0x01" "m_state (byte_step w s) = SD_STATE_IDLE" "m_type (byte_step w s) = m_type s"
    unfolding core_eq_fields [OF c] using d01 by (simp_all add: with_disk_def v_def)
  have "card_store (with_disk h ?t)" "card_disk (with_disk h ?t) = h" using card_store_with_disk [OF st(1) dk] by auto
  then show "card_store (byte_step w s)" "card_disk (byte_step w s) = h"
    unfolding core_card_store [OF c] using pv(5) by (simp_all add: card_disk_def v_def)
  show "sending 1 1 (byte_step w s)"
    using f(3,4) pv byte_step_pins [OF r(1), of w] unfolding sending_def core_eq_fields [OF c] b [symmetric]
    by (simp add: command_state_def)
qed

text \<open>The bytes of a write transaction: the frame, the response, the token, the block with a CRC that is not
  checked, and the data response.\<close>

definition write_bytes_of :: "nat \<Rightarrow> u8 list \<Rightarrow> u8 \<times> u8 \<Rightarrow> sdcard \<Rightarrow> u8 list" where
  "write_bytes_of l bs crc s = frame_of 24 (block_addr s l) @ [0xff, 0xff] @ [0xfe] @ bs @ [fst crc, snd crc] @ [0xff, 0xff]"

lemma write_transaction:
  assumes "card_ok s" "l \<in> card_blocks s" "length bs = 512"
  shows "\<exists>s'. spi_io (write_bytes_of l bs crc s) s = (replicate 7 0xff @ [0x00] @ replicate 515 0xff @ [0x05, 0x01], s') \<and>
    card_ok s' \<and> card_disk s' = snd (hd_write l bs (card_disk s)) \<and> m_type s' = m_type s"
proof -
  let ?f = "frame_of 24 (block_addr s l)"
  let ?u = "send_data 1 SD_STATE_WRITE_WAITFE 1 (s\<lparr>m_cmd := ?f, m_blknext := l, m_data := list_put 0 [0] (m_data s)\<rparr>)"
  have q: "sd_quiet s" "command_state (m_state s)" "sd_base 512 s" "card_store s" using assms(1) by (auto simp: card_ok_def card_store_def)
  have len: "length (m_data s) = 2056" using q(3) by (simp add: sd_base_def)
  have "cmd24_write_block (s\<lparr>m_cmd := ?f\<rparr>) = ?u"
    using cmd24_full_block [of "s\<lparr>m_cmd := ?f\<rparr>" l] q(4) assms(2) by (simp add: card_blocks_def card_disk_def block_addr_def)
  then have r: "run_command (?f ! 0 AND 0x3f) (s\<lparr>m_cmd := ?f\<rparr>) = Some ?u" by (simp add: run_command_def)
  obtain s1 where s1: "spi_io (?f @ replicate (Suc (m_out_count ?u)) 0xff) s = (replicate 7 0xff @ take (m_out_count ?u) (m_data ?u), s1)"
    "sd_quiet s1" "core s1 = core (?u\<lparr>m_bACMD := False, m_cmd := replicate 6 0xff\<rparr>)"
    using transaction [OF q(1,2,3) _ r] by auto
  have p1: "spi_io (?f @ [0xff, 0xff]) s = (replicate 7 0xff @ [0x00], s1)" using s1(1) by (simp add: list_put_def)
  have k1: "card_store s1" "card_disk s1 = card_disk s" "m_type s1 = m_type s" "m_state s1 = SD_STATE_WRITE_WAITFE" "m_blknext s1 = l"
    using q(4) len unfolding core_card_store [OF s1(3)] core_eq_fields [OF s1(3)] by (simp_all add: card_disk_def)
  note t = write_token [OF s1(2) k1(4,1,5)]
  have m1: "miso_ready s1" "m_out_latch s1 = 0xff" using s1(2) by (simp_all add: sd_quiet_def)
  obtain s2 where s2: "spi_io (bs @ [fst crc]) (byte_step 0xfe s1) = (replicate 513 0xff, s2)" "writing l (bs @ [fst crc]) s2"
    "m_image s2 = m_image (byte_step 0xfe s1)" "m_type s2 = m_type (byte_step 0xfe s1)"
    using sd_write_bytes_step [OF t(1), of "bs @ [fst crc]"] assms(3) by auto
  have d2: "card_disk s2 = card_disk s" using s2(3) t(2) k1(2) by (simp add: card_disk_def)
  have m2: "miso_ready s2" "m_out_latch s2 = 0xff" using s2(2) by (simp_all add: writing_def)
  let ?s3 = "byte_step (snd crc) s2"
  note z = write_last [OF s2(2), of "snd crc"]
  have l2: "length (bs @ [fst crc]) = 513" "take 512 (bs @ [fst crc]) = bs" using assms(3) by simp_all
  obtain s4 where s4: "spi_io (replicate (Suc 1) 0xff) ?s3 = (m_out_latch ?s3 # take 1 (drop 1 (m_data ?s3)), s4)" "sd_quiet s4" "core s4 = core ?s3"
    using deliver [OF z(1) [OF l2(1)]] by blast
  have ld: "1 < length (m_data ?s3)" using z(1) [OF l2(1)] by (simp add: sending_def)
  then have "take 1 (drop 1 (m_data ?s3)) = [0x01]" using z(3) [OF l2(1)] by (simp add: take_Suc hd_drop_conv_nth drop_eq_Nil2)
  then have p4: "spi_io [0xff, 0xff] ?s3 = ([0x05, 0x01], s4)" using s4(1) z(2) [OF l2(1)] by simp
  have p3: "spi_io (snd crc # ws) s2 = (0xff # fst (spi_io ws ?s3), snd (spi_io ws ?s3))" for ws
    using spi_io_Cons [OF m2(1), of "snd crc" ws] m2(2) by simp
  have pt: "spi_io (0xfe # ws) s1 = (0xff # fst (spi_io ws (byte_step 0xfe s1)), snd (spi_io ws (byte_step 0xfe s1)))" for ws
    using spi_io_Cons [OF m1(1), of "0xfe" ws] m1(2) by simp
  have ff515: "replicate 515 (0xff :: u8) = 0xff # replicate 513 0xff @ [0xff]"
    by (simp only: replicate_append_same replicate_Suc [symmetric]) simp
  have e: "write_bytes_of l bs crc s = (?f @ [0xff, 0xff]) @ 0xfe # (bs @ [fst crc]) @ snd crc # [0xff, 0xff]"
    by (simp add: write_bytes_of_def)
  have "spi_io (write_bytes_of l bs crc s) s = (replicate 7 0xff @ [0x00] @ replicate 515 0xff @ [0x05, 0x01], s4)"
    unfolding e spi_io_append [of "?f @ [0xff, 0xff]"] spi_io_append [of "bs @ [fst crc]"] p1 fst_conv snd_conv pt s2(1) p3 p4
    by (simp add: ff515)
  moreover have "card_ok s4"
    using s4(2) z(4,7) [OF l2(1)] by (simp add: card_ok_def core_card_store [OF s4(3)] core_eq_fields [OF s4(3)] command_state_def)
  moreover have "card_disk s4 = snd (hd_write l bs (card_disk s))"
    using z(5) [OF l2(1)] l2(2) d2 by (simp add: core_card_store [OF s4(3)])
  ultimately show ?thesis using z(6) [OF l2(1)] s2(4) t(3) k1(3) core_eq_fields(2) [OF s4(3)] by simp
qed

section \<open>The card as a store of blocks\<close>

definition sd_read_block :: "nat \<Rightarrow> sdcard \<Rightarrow> u8 list" where
  "sd_read_block l s = take 512 (drop 10 (fst (spi_io (read_bytes l s) s)))"

definition sd_write_block :: "nat \<Rightarrow> u8 list \<Rightarrow> sdcard \<Rightarrow> sdcard" where
  "sd_write_block l bs s = snd (spi_io (write_bytes_of l bs (0xff, 0xff) s) s)"

lemma sd_read_block_eq:
  assumes "card_ok s" "l \<in> card_blocks s"
  shows "sd_read_block l s = snd (hd_read l (card_disk s))"
proof -
  have "card_store s" using assms(1) by (simp add: card_ok_def)
  then show ?thesis
    using read_transaction [OF assms] disk_read_block [OF _ assms(2)] by (auto simp: sd_read_block_def)
qed

lemma sd_write_block_ok:
  assumes "card_ok s" "l \<in> card_blocks s" "length bs = 512"
  shows "card_ok (sd_write_block l bs s)" "card_disk (sd_write_block l bs s) = snd (hd_write l bs (card_disk s))"
  using write_transaction [OF assms, of "(0xff, 0xff)"] by (auto simp: sd_write_block_def)

interpretation sdc: block_device card_ok card_blocks 512 sd_read_block sd_write_block
proof unfold_locales
  fix s :: sdcard and l :: nat and bs :: "u8 list"
  assume a: "card_ok s" "l \<in> card_blocks s" "length bs = (512 :: nat)"
  have d: "disk_ok (card_disk s)" "l \<in> disk_blocks (card_disk s)"
    using a by (auto simp: card_ok_def card_store_def card_blocks_def)
  note w = sd_write_block_ok [OF a]
  have b: "card_blocks (sd_write_block l bs s) = card_blocks s"
    using disk.wr_inv [OF d a(3)] w(2) by (simp add: card_blocks_def)
  then show "card_ok (sd_write_block l bs s) \<and> card_blocks (sd_write_block l bs s) = card_blocks s" using w by simp
  show "sd_read_block l (sd_write_block l bs s) = bs"
    using sd_read_block_eq [OF w(1)] b a w(2) disk.rd_same [OF d a(3)] by simp
  fix k assume k: "k \<in> card_blocks s" "k \<noteq> l"
  show "sd_read_block k (sd_write_block l bs s) = sd_read_block k s"
    using sd_read_block_eq [OF w(1), of k] sd_read_block_eq [OF a(1) k(1)] b k w(2) disk.rd_other [OF d _ k(2) a(3)]
    by (simp add: card_blocks_def)
qed

section \<open>Properties\<close>

text \<open>A card with an image of four empty sectors that was selected and clocked for one byte.\<close>

definition ready_card :: sdcard where
  "ready_card = spi_xfer 0xff (spi_ss_w True small_card)"

lemma small_card_eq:
  "\<exists>buf ty csd. small_card = sdcard_init\<lparr>m_image := \<lparr>m_image_name = ''sd.img'', m_file_open = True,
     m_hard_disk_handle = Some (hard_disk_file_init (replicate 2048 0) 0)\<rparr>, m_sectorbuf := buf, m_blksize := 512, m_xferblk := 512,
     m_crc_off := True, m_type := ty, m_csd := csd\<rparr> \<and> length buf = 512 \<and> length csd = 16"
proof -
  let ?img = "\<lparr>m_image_name = ''sd.img'', m_file_open = True, m_hard_disk_handle = Some (hard_disk_file_init (replicate 2048 0) 0)\<rparr>"
  have i: "image_skip False (replicate 2048 0) = 0" by (auto simp: image_skip_def dest: arg_cong [where f = hd])
  have "image_loaded (sdcard_init\<lparr>m_image := ?img\<rparr>) = (None, small_card)"
  proof -
    have "image_unload sdcard_init = sdcard_init" by (simp add: image_unload_def image_clear_def image_exists_def sdcard_init_def Let_def)
    moreover have "internal_load_hd False (replicate 2048 0) ((m_image sdcard_init)\<lparr>m_image_name := ''sd.img'', m_file_open := True\<rparr>) = ?img"
      by (simp add: internal_load_hd_def i sdcard_init_def)
    ultimately show ?thesis
      using small_card_mounts by (cases "image_loaded (sdcard_init\<lparr>m_image := ?img\<rparr>)") (auto simp: image_load_def Let_def split: if_splits)
  qed
  then show ?thesis using image_loaded_ok [of "sdcard_init\<lparr>m_image := ?img\<rparr>" small_card] by auto
qed

lemma ready_card_ok: "card_ok ready_card" "card_disk ready_card = hard_disk_file_init (replicate 2048 0) 0"
proof -
  let ?h = "hard_disk_file_init (replicate 2048 0) 0"
  obtain buf ty csd where e: "small_card = sdcard_init\<lparr>m_image := \<lparr>m_image_name = ''sd.img'', m_file_open = True,
     m_hard_disk_handle = Some ?h\<rparr>, m_sectorbuf := buf, m_blksize := 512, m_xferblk := 512,
     m_crc_off := True, m_type := ty, m_csd := csd\<rparr>" "length buf = 512" "length csd = 16" using small_card_eq by blast
  define s where "s = spi_ss_w True small_card"
  have k: "disk_ok ?h" by (simp add: hard_disk_file_init_def disk_ok_def Let_def case_prod_beta)
  have st: "card_store s" "card_disk s = ?h" "m_state s = SD_STATE_IDLE" "m_cmd s = replicate 6 0xff" "byte_ready s"
    "m_out_count s = 0" "m_out_delay s = 0"
    using e(2,3) k by (simp_all add: s_def e(1) spi_ss_w_def sdcard_init_def card_store_def sd_base_def card_disk_def image_disk_def
      image_exists_def byte_ready_def)
  have "receive_byte (byte_in 0xff s) = byte_in 0xff s" using st by (intro receive_ff) (simp_all add: command_state_def)
  then have b: "ready_card = shift_out (byte_in 0xff s)" using spi_xfer_eq [OF st(5), of "0xff"] by (simp add: ready_card_def s_def byte_step_def)
  note f = shift_out_none [of "byte_in 0xff s", simplified, OF st(6)]
  have c: "core ready_card = core s" using f(1) st(7) b by simp
  have "sd_quiet ready_card"
    using f(2-4) st byte_step_pins [OF st(5), of "0xff"] spi_xfer_eq [OF st(5), of "0xff"] b
    unfolding sd_quiet_def core_eq_fields [OF c] by (simp add: ready_card_def s_def)
  then show "card_ok ready_card" "card_disk ready_card = ?h"
    using st by (simp_all add: card_ok_def core_card_store [OF c] core_eq_fields [OF c] command_state_def)
qed

lemma ready_card_block: "1 \<in> card_blocks ready_card" "0 \<in> card_blocks ready_card"
  using ready_card_ok by (simp_all add: card_blocks_def disk_blocks_def hard_disk_file_init_def Let_def case_prod_beta)

text \<open>Response delivery. A card at rest that is sent a command frame it supports answers it: while the master
  clocks in the frame and one further byte it reads 0xff, then exactly the response the command prepared in the
  data buffer, after which the card is at rest again. (CMD18 keeps sending blocks and is excluded.)\<close>

theorem sd_command_response:
  assumes "sd_quiet s" "command_state (m_state s)" "sd_base B s" "frame_ok frame s"
    "run_command (frame ! 0 AND 0x3f) (s\<lparr>m_cmd := frame\<rparr>) = Some u" "m_state u \<noteq> SD_STATE_DATA_MULTI"
  shows "\<exists>s'. spi_io (frame @ replicate (Suc (m_out_count u)) 0xff) s = (replicate 7 0xff @ take (m_out_count u) (m_data u), s') \<and>
    sd_quiet s' \<and> m_state s' = m_state u \<and> m_image s' = m_image u \<and> (m_bACMD s' \<longleftrightarrow> frame ! 0 AND 0x3f = 55)"
proof -
  obtain s' where s': "spi_io (frame @ replicate (Suc (m_out_count u)) 0xff) s = (replicate 7 0xff @ take (m_out_count u) (m_data u), s')"
    "sd_quiet s'" "core s' = core (u\<lparr>m_bACMD := (frame ! 0 AND 0x3f = 55), m_cmd := replicate 6 0xff\<rparr>)"
    using transaction [OF assms] by blast
  show ?thesis using s'(1,2) core_eq_fields [OF s'(3)] by (intro exI [of _ s']) simp
qed

theorem sd_command_response_witness:
  "fst (spi_io (frame_of 8 0x1aa @ replicate 6 0xff) ready_card) = replicate 7 0xff @ [0x01, 0, 0, 0x01, 0xaa]"
proof -
  have k: "sd_quiet ready_card" "command_state (m_state ready_card)" "sd_base 512 ready_card" "length (m_data ready_card) = 2056"
    using ready_card_ok(1) by (auto simp: card_ok_def card_store_def sd_base_def)
  let ?f = "frame_of 8 0x1aa"
  let ?u = "cmd8_send_if_cond (ready_card\<lparr>m_cmd := ?f\<rparr>)"
  have f: "frame_ok ?f ready_card" "?f ! 0 AND 0x3f = 8" by (simp_all add: frame_ok_def frame_of_def put_u32be_def)
  have r: "run_command (?f ! 0 AND 0x3f) (ready_card\<lparr>m_cmd := ?f\<rparr>) = Some ?u"
    unfolding f(2) by (simp add: run_command_def)
  have u: "m_out_count ?u = 5" "take 5 (m_data ?u) = [0x01, 0, 0, 0x01, 0xaa]" "m_state ?u \<noteq> SD_STATE_DATA_MULTI"
    using k(4) by (simp_all add: cmd8_send_if_cond_def data_put_def list_put_def)
  have "Suc 5 = 6" by simp
  then show ?thesis using sd_command_response [OF k(1-3) f(1) r u(3)] unfolding u(1,2) by (auto simp del: spi_io.simps replicate_Suc)
qed

text \<open>Block read over the pins. A master that clocks the frame of CMD17 for a block of the mounted image and then the
  bytes of the transfer samples the response byte 0x00, the token 0xfe, the 512 bytes of that sector of the image file and
  their CRC-16; the card is at rest again and the image is unchanged. The block is addressed by its byte position on a
  standard capacity card and by its number on a high capacity card.\<close>

theorem sd_block_read:
  assumes "card_ok s" "l \<in> card_blocks s"
  shows "\<exists>s'. spi_io (frame_of 17 (block_addr s l) @ replicate 518 0xff) s =
      (replicate 7 0xff @ [0x00, 0xff, 0xfe] @ snd (hd_read l (card_disk s)) @ put_u16be (crc16_simple (snd (hd_read l (card_disk s)))), s') \<and>
    card_ok s' \<and> m_image s' = m_image s \<and> m_type s' = m_type s"
  using read_transaction [OF assms] by (simp add: read_bytes_def)

theorem sd_block_read_witness:
  "take 3 (drop 7 (fst (spi_io (frame_of 17 (block_addr ready_card 1) @ replicate 518 0xff) ready_card))) = [0x00, 0xff, 0xfe]"
  using sd_block_read [OF ready_card_ok(1) ready_card_block(1)] by (auto simp del: spi_io.simps)

text \<open>C27. Block write over the pins. A master that clocks the frame of CMD24 for a block of the mounted image, the token 0xfe,
  512 bytes of data and two bytes of CRC (which the card does not check) samples the response 0x00 and then the data
  response 0x05; the image file then holds the data in that sector, and the card is at rest again.\<close>

theorem sd_block_write:
  assumes "card_ok s" "l \<in> card_blocks s" "length bs = 512"
  shows "\<exists>s'. spi_io (frame_of 24 (block_addr s l) @ [0xff, 0xff] @ [0xfe] @ bs @ [crc1, crc2] @ [0xff, 0xff]) s =
      (replicate 7 0xff @ [0x00] @ replicate 515 0xff @ [0x05, 0x01], s') \<and>
    card_ok s' \<and> hd_write l bs (card_disk s) = (True, card_disk s') \<and> m_type s' = m_type s"
proof -
  have "fst (hd_write l bs (card_disk s))" using assms(1) by (simp add: card_ok_def card_store_def disk_ok_def hd_write_def)
  then show ?thesis using write_transaction [OF assms, of "(crc1, crc2)"] by (auto simp: write_bytes_of_def prod_eq_iff)
qed

theorem sd_block_write_witness:
  "drop 523 (fst (spi_io (frame_of 24 (block_addr ready_card 1) @ [0xff, 0xff] @ [0xfe] @ replicate 512 7 @ [0, 0] @ [0xff, 0xff]) ready_card))
    = [0x05, 0x01]"
  using sd_block_write [OF ready_card_ok(1) ready_card_block(1), of "replicate 512 7" 0 0] by (auto simp del: spi_io.simps)

text \<open>C2. The card behind its pins is a store of blocks: after any sequence of block write transactions, a block read
  transaction returns the data written to the block last, or the original contents of the image.\<close>

theorem sd_block_store:
  assumes "card_ok s" "\<forall>(l, bs) \<in> set ws. l \<in> card_blocks s \<and> length bs = 512" "k \<in> card_blocks s"
  shows "sd_read_block k (fold (\<lambda>(l, bs). sd_write_block l bs) ws s) =
    (case map_of (rev ws) k of Some bs \<Rightarrow> bs | None \<Rightarrow> snd (hd_read k (card_disk s)))"
  using sdc.fold_wr [OF assms] sd_read_block_eq [OF assms(1,3)] by (auto split: option.splits)

theorem sd_block_store_witness:
  "sd_read_block 1 (fold (\<lambda>(l, bs). sd_write_block l bs) [(1, replicate 512 7), (0, replicate 512 8)] ready_card) = replicate 512 7"
  using sd_block_store [OF ready_card_ok(1) _ ready_card_block(1), of "[(1, replicate 512 7), (0, replicate 512 8)]"] ready_card_block
  by simp

text \<open>A state to apply the byte exchange to.\<close>

theorem spi_byte_exchange_witness: "spi_rx (msb_bits 0x5a) ready_card = replicate 8 True"
proof -
  have "miso_ready ready_card" "m_out_latch ready_card = 0xff" using ready_card_ok(1) by (auto simp: card_ok_def sd_quiet_def)
  then show ?thesis using spi_byte_exchange [of ready_card "0x5a"] by (simp add: msb_bits_def numeral_eq_Suc)
qed

end
