(* ===== verification/Sdcard_Multi.thy ===== *)
theory Sdcard_Multi
  imports Sdcard_Block
begin

unbundle bit_operations_syntax

text \<open>
  The multiple block read of the SD card (CMD18): a stream of blocks, each with a gap, a token and a CRC, for as long as
  the master clocks; and what a write command does when no image is mounted.
\<close>

section \<open>Streaming\<close>

text \<open>The stream holds at byte \<open>p\<close> of the bytes \<open>ds\<close> that start the data buffer; \<open>l\<close> is the next block.\<close>

definition streaming :: "nat \<Rightarrow> nat \<Rightarrow> u8 list \<Rightarrow> sdcard \<Rightarrow> bool" where
  "streaming l p ds s \<longleftrightarrow> miso_ready s \<and> m_cmd s = replicate 6 0xff \<and> m_state s = SD_STATE_DATA_MULTI \<and> m_out_delay s = 1 \<and>
     m_out_ptr s = p + 1 \<and> m_out_count s = length ds - p \<and> p \<le> length ds \<and> take (length ds) (m_data s) = ds \<and> length ds \<le> 515 \<and>
     card_store s \<and> m_blknext s = l"

lemma receive_ff_multi:
  assumes "m_cmd s = replicate 6 0xff" "m_state s = SD_STATE_DATA_MULTI" "m_in_latch s = 0xff"
  shows "receive_byte s = (if m_out_count s = 0 then send_next_block s else s)"
proof -
  have c: "drop 1 (m_cmd s) @ [m_in_latch s] = m_cmd s" using assms by (simp add: numeral_eq_Suc)
  then have "s\<lparr>m_cmd := drop 1 (m_cmd s) @ [m_in_latch s]\<rparr> = s" by simp
  then show ?thesis using assms by (simp add: receive_byte_def receive_command_byte_def do_command_ff Let_def)
qed

lemma stream_byte:
  assumes "streaming l p ds s" "p < length ds"
  shows "streaming l (Suc p) ds (byte_step 0xff s)" "m_out_latch (byte_step 0xff s) = ds ! p"
    "m_image (byte_step 0xff s) = m_image s" "m_type (byte_step 0xff s) = m_type s"
proof -
  have s: "byte_ready s" "m_cmd s = replicate 6 0xff" "m_state s = SD_STATE_DATA_MULTI" "m_out_delay s = 1" "m_out_ptr s = p + 1"
    "m_out_count s = length ds - p" "take (length ds) (m_data s) = ds" "card_store s"
    using assms by (auto simp: streaming_def miso_ready_def)
  have ld: "length (m_data s) = 2056" using card_store_data [OF s(8)] by simp
  have lp: "p < length (m_data s)" using assms ld by (simp add: streaming_def)
  have n: "m_out_count s = Suc (length ds - Suc p)" using s(6) assms(2) by simp
  have "receive_byte (byte_in 0xff s) = byte_in 0xff s" using receive_ff_multi [of "byte_in 0xff s"] s n by simp
  then have b: "byte_step 0xff s = shift_out (byte_in 0xff s)" by (simp add: byte_step_def)
  have f: "core (byte_step 0xff s) = core s" "m_out_latch (byte_step 0xff s) = m_data s ! p" "m_out_ptr (byte_step 0xff s) = Suc (Suc p)"
    "m_out_count (byte_step 0xff s) = length ds - Suc p"
    using shift_out_data [of "byte_in 0xff s" "length ds - Suc p" p] s n lp ld unfolding b by simp_all
  have "m_data s ! p = ds ! p" using s(7) assms(2) by (metis nth_take)
  then show "m_out_latch (byte_step 0xff s) = ds ! p" using f(2) by simp
  show "m_image (byte_step 0xff s) = m_image s" "m_type (byte_step 0xff s) = m_type s" using core_eq_fields [OF f(1)] by simp_all
  show "streaming l (Suc p) ds (byte_step 0xff s)"
    using assms f(3,4) byte_step_pins [OF s(1), of "0xff"]
    unfolding streaming_def core_eq_fields [OF f(1)] core_card_store [OF f(1)] by auto
qed

text \<open>The bytes of a block in the stream.\<close>

definition block_bytes :: "nat \<Rightarrow> hard_disk_file \<Rightarrow> u8 list" where
  "block_bytes l h = [0xfe] @ snd (hd_read l h) @ put_u16be (crc16_simple (snd (hd_read l h)))"

lemma take_block_put:
  "length bs = 512 \<Longrightarrow> length cs = 2 \<Longrightarrow> length d = 2056 \<Longrightarrow>
    take 515 (list_put 513 cs (list_put 1 bs (list_put 0 [w] d))) = [w] @ bs @ cs"
  "length bs = 512 \<Longrightarrow> length d = 2056 \<Longrightarrow> take 512 (drop 1 (list_put 1 bs (list_put 0 [w] d))) = bs"
  by (simp_all add: list_put_def)

lemma send_next_block_eq:
  assumes s: "card_store s" "m_blknext s = l" "l \<in> card_blocks s"
  defines "bs \<equiv> snd (hd_read l (card_disk s))"
  shows "send_next_block s = send_data 515 SD_STATE_DATA_MULTI 1
    (s\<lparr>m_blknext := l + 1, m_data := list_put 513 (put_u16be (crc16_simple bs)) (list_put 1 bs (list_put 0 [0xfe] (m_data s)))\<rparr>)"
proof -
  have b: "m_blksize s = 512" "length (m_data s) = 2056" using s(1) by (auto simp: card_store_def sd_base_def)
  have l: "length bs = 512" using disk_read_block [OF s(1,3)] by (simp add: bs_def)
  have lt: "(l + 1) mod 2 ^ 32 = l + 1" using s(3) by (simp add: card_blocks_def disk_blocks_def)
  have r: "image_read l 1 (data_put 0 [0xfe] s) = s\<lparr>m_data := list_put 1 bs (list_put 0 [0xfe] (m_data s))\<rparr>"
    using card_disk_Some [OF s(1)] b l by (simp add: image_read_def data_put_def bs_def [symmetric])
  show ?thesis
    unfolding send_next_block_def Let_def s(2) r lt
    using b l take_block_put(2) [of bs "m_data s" "0xfe"] by (simp add: append_crc_def data_get_def data_put_def)
qed

lemma stream_next:
  assumes "streaming l (length ds) ds s" "l \<in> card_blocks s"
  shows "streaming (Suc l) 0 (block_bytes l (card_disk s)) (byte_step 0xff s)" "m_out_latch (byte_step 0xff s) = 0xff"
    "m_image (byte_step 0xff s) = m_image s" "m_type (byte_step 0xff s) = m_type s"
proof -
  let ?bs = "snd (hd_read l (card_disk s))"
  let ?d = "list_put 513 (put_u16be (crc16_simple ?bs)) (list_put 1 ?bs (list_put 0 [0xfe] (m_data s)))"
  have s: "byte_ready s" "m_cmd s = replicate 6 0xff" "m_state s = SD_STATE_DATA_MULTI" "m_out_count s = 0" "card_store s" "m_blknext s = l"
    using assms by (auto simp: streaming_def miso_ready_def)
  have ct: "core (byte_in 0xff s) = core s" by simp
  have k: "card_store (byte_in 0xff s)" "card_disk (byte_in 0xff s) = card_disk s" "card_blocks (byte_in 0xff s) = card_blocks s"
    using s(5) core_card_store [OF ct] by (simp_all add: card_blocks_def)
  have ld: "length (m_data s) = 2056" "length ?bs = 512" using card_store_data [OF s(5)] disk_read_block [OF s(5) assms(2)] by auto
  let ?u = "send_data 515 SD_STATE_DATA_MULTI 1 ((byte_in 0xff s)\<lparr>m_blknext := l + 1, m_data := ?d\<rparr>)"
  have "receive_byte (byte_in 0xff s) = ?u"
    using receive_ff_multi [of "byte_in 0xff s"] send_next_block_eq [OF k(1), of l] s k assms(2) by simp
  then have b: "byte_step 0xff s = shift_out ?u" by (simp add: byte_step_def)
  have f: "core (byte_step 0xff s) = core ?u" "m_out_latch (byte_step 0xff s) = 0xff" "m_out_ptr (byte_step 0xff s) = 1"
    "m_out_count (byte_step 0xff s) = 515"
    using shift_out_delay [of ?u] unfolding b by simp_all
  show "m_out_latch (byte_step 0xff s) = 0xff" by (rule f(2))
  show "m_image (byte_step 0xff s) = m_image s" "m_type (byte_step 0xff s) = m_type s" using core_eq_fields [OF f(1)] by simp_all
  have t: "take 515 ?d = block_bytes l (card_disk s)" "length (block_bytes l (card_disk s)) = 515"
    using take_block_put(1) [of ?bs "put_u16be (crc16_simple ?bs)" "m_data s" "0xfe"] ld by (simp_all add: block_bytes_def)
  have lc: "length ?d = 2056" using ld by simp
  show "streaming (Suc l) 0 (block_bytes l (card_disk s)) (byte_step 0xff s)"
    using f(3,4) t lc s k(1) byte_step_pins [OF s(1), of "0xff"]
    unfolding streaming_def core_eq_fields [OF f(1)] core_card_store [OF f(1)] by simp
qed

lemma replicate_snoc: "replicate (Suc n) x = replicate n x @ [x]"
  by (simp add: replicate_append_same)

lemma stream_part:
  assumes "streaming l 0 ds s" "k \<le> length ds"
  shows "\<exists>s'. spi_io (replicate k 0xff) s = (take k (m_out_latch s # ds), s') \<and> streaming l k ds s' \<and>
    m_out_latch s' = (m_out_latch s # ds) ! k \<and> m_image s' = m_image s \<and> m_type s' = m_type s"
  using assms(2)
proof (induction k)
  case (Suc k)
  let ?ws = "m_out_latch s # ds"
  obtain s' where s': "spi_io (replicate k 0xff) s = (take k ?ws, s')" "streaming l k ds s'" "m_out_latch s' = ?ws ! k"
    "m_image s' = m_image s" "m_type s' = m_type s" using Suc by auto
  have m: "miso_ready s'" using s'(2) by (simp add: streaming_def)
  have "spi_io (replicate (Suc k) 0xff) s = (take k ?ws @ [?ws ! k], byte_step 0xff s')"
    unfolding replicate_snoc spi_io_append using spi_io_Cons [OF m, of "0xff" "[]"] s'(1,3) by simp
  moreover have "take k ?ws @ [?ws ! k] = take (Suc k) ?ws" using Suc.prems by (intro take_Suc_conv_app_nth [symmetric]) simp
  moreover have "k < length ds" using Suc.prems by simp
  ultimately show ?case using stream_byte [OF s'(2)] s'(4,5) by simp
qed (use assms(1) in simp)

lemma stream_item:
  assumes "streaming l 0 ds s" "l \<in> card_blocks s" "m_out_latch s = 0xff"
  shows "\<exists>s'. spi_io (replicate (Suc (length ds)) 0xff) s = (0xff # ds, s') \<and> streaming (Suc l) 0 (block_bytes l (card_disk s)) s' \<and>
    m_out_latch s' = 0xff \<and> m_image s' = m_image s \<and> m_type s' = m_type s"
proof -
  let ?n = "length ds"
  obtain s' where s': "spi_io (replicate ?n 0xff) s = (take ?n (0xff # ds), s')" "streaming l ?n ds s'" "m_out_latch s' = (0xff # ds) ! ?n"
    "m_image s' = m_image s" "m_type s' = m_type s" using stream_part [OF assms(1), of ?n] assms(3) by auto
  have m: "miso_ready s'" using s'(2) by (simp add: streaming_def)
  have d: "card_disk s' = card_disk s" "l \<in> card_blocks s'" using s'(4) assms(2) by (simp_all add: card_disk_def card_blocks_def)
  have "spi_io (replicate (Suc ?n) 0xff) s = (take ?n (0xff # ds) @ [(0xff # ds) ! ?n], byte_step 0xff s')"
    unfolding replicate_snoc spi_io_append using spi_io_Cons [OF m, of "0xff" "[]"] s'(1,3) by simp
  moreover have "take ?n (0xff # ds) @ [(0xff # ds) ! ?n] = 0xff # ds"
    using take_Suc_conv_app_nth [of ?n "0xff # ds"] by simp
  ultimately show ?thesis using stream_next [OF s'(2) d(2)] s'(4,5) d(1) by simp
qed

lemma block_bytes_length:
  assumes "card_store s" "l \<in> card_blocks s"
  shows "length (block_bytes l (card_disk s)) = 515"
  using disk_read_block [OF assms] by (simp add: block_bytes_def)

lemma stream_blocks:
  assumes "streaming (Suc l) 0 (block_bytes l (card_disk s)) s" "m_out_latch s = 0xff" "\<forall>j \<le> k. l + j \<in> card_blocks s"
  shows "\<exists>s'. spi_io (replicate (516 * k) 0xff) s = (concat (map (\<lambda>j. 0xff # block_bytes j (card_disk s)) [l..<l + k]), s') \<and>
    streaming (Suc (l + k)) 0 (block_bytes (l + k) (card_disk s)) s' \<and> m_out_latch s' = 0xff \<and> m_image s' = m_image s"
  using assms(3)
proof (induction k)
  case (Suc k)
  let ?h = "card_disk s"
  obtain s' where s': "spi_io (replicate (516 * k) 0xff) s = (concat (map (\<lambda>j. 0xff # block_bytes j ?h) [l..<l + k]), s')"
    "streaming (Suc (l + k)) 0 (block_bytes (l + k) ?h) s'" "m_out_latch s' = 0xff" "m_image s' = m_image s"
    using Suc by auto
  have d: "card_disk s' = ?h" "Suc (l + k) \<in> card_blocks s'" using s'(4) Suc.prems by (auto simp: card_disk_def card_blocks_def)
  have "length (block_bytes (l + k) ?h) = 515"
    using block_bytes_length [of s "l + k"] assms(1) Suc.prems by (simp add: streaming_def)
  then obtain s2 where s2: "spi_io (replicate (Suc 515) 0xff) s' = (0xff # block_bytes (l + k) ?h, s2)"
    "streaming (Suc (Suc (l + k))) 0 (block_bytes (Suc (l + k)) ?h) s2" "m_out_latch s2 = 0xff" "m_image s2 = m_image s'"
    using stream_item [OF s'(2) d(2) s'(3)] d(1) by auto
  have "replicate (516 * Suc k) (0xff :: u8) = replicate (516 * k) 0xff @ replicate (Suc 515) 0xff"
    unfolding replicate_add [symmetric] by simp
  then have "spi_io (replicate (516 * Suc k) 0xff) s = (concat (map (\<lambda>j. 0xff # block_bytes j ?h) [l..<l + Suc k]), s2)"
    by (simp only: spi_io_append s'(1) s2(1) fst_conv snd_conv) simp
  then show ?case using s2(2-4) s'(4) by simp
qed (use assms(1,2) in simp)

section \<open>The transaction\<close>

lemma cmd18_stream:
  assumes "card_store s" "l \<in> card_blocks s" "get_u32be (drop 1 (m_cmd s)) = block_addr s l"
  shows "cmd18_read_multiple_block s = send_data 1 SD_STATE_DATA_MULTI 1 (s\<lparr>m_data := list_put 0 [0] (m_data s), m_blknext := l\<rparr>)"
proof -
  have b: "m_blksize s = 512" "m_xferblk s = 512" "length (m_data s) = 2056" "image_exists (m_image s)"
    using assms(1) by (auto simp: card_store_def sd_base_def)
  have a: "unat (block_addr s l) = (if m_type s = SD_TYPE_V2 then l * 512 else l)" by (rule block_addr_unat [OF assms(2)])
  have d: "data_put 0 [0] s = s\<lparr>m_data := list_put 0 [0] (m_data s)\<rparr>" using b by (simp add: data_put_def)
  show ?thesis
    unfolding cmd18_read_multiple_block_def Let_def d using b assms(3) a by (cases "m_type s") simp_all
qed

lemma multi_start:
  assumes "card_ok s" "l \<in> card_blocks s"
  shows "\<exists>s'. spi_io (frame_of 18 (block_addr s l)) s = (replicate 6 0xff, s') \<and> streaming l 0 [0x00] s' \<and> m_out_latch s' = 0xff \<and>
    m_image s' = m_image s"
proof -
  let ?f = "frame_of 18 (block_addr s l)"
  let ?u = "send_data 1 SD_STATE_DATA_MULTI 1 (s\<lparr>m_cmd := ?f, m_data := list_put 0 [0] (m_data s), m_blknext := l\<rparr>)"
  have q: "sd_quiet s" "command_state (m_state s)" "card_store s" using assms(1) by (auto simp: card_ok_def)
  have ld: "length (m_data s) = 2056" using card_store_data [OF q(3)] by simp
  have f: "frame_ok ?f s" "?f ! 0 AND 0x3f = 18" by (simp_all add: frame_ok_def frame_of_def put_u32be_def)
  have "cmd18_read_multiple_block (s\<lparr>m_cmd := ?f\<rparr>) = ?u"
    using cmd18_stream [of "s\<lparr>m_cmd := ?f\<rparr>" l] q(3) assms(2) by (simp add: card_blocks_def card_disk_def block_addr_def)
  then have r: "run_command (?f ! 0 AND 0x3f) (s\<lparr>m_cmd := ?f\<rparr>) = Some ?u" unfolding f(2) by (simp add: run_command_def)
  obtain t where t: "spi_io ?f s = (replicate 6 0xff, shift_out (do_command t))" "core t = core (s\<lparr>m_cmd := ?f\<rparr>)"
    "m_cur_bit t = 8" "shift_out_latch (m_out_latch t) = 0xff" "miso_ready (shift_out (do_command t))"
    using command_frame [OF q(1,2), of ?f] by auto
  let ?v = "?u\<lparr>m_bACMD := False, m_cmd := replicate 6 0xff\<rparr>"
  obtain x where d: "do_command t = put_pins x ?v" using do_command_frame [OF f(1) r t(2)] unfolding f(2) by auto
  have p: "m_cur_bit (do_command t) = 8" "shift_out_latch (m_out_latch (do_command t)) = 0xff"
    using do_command_pins [of t] t(3,4) by (simp_all add: pins_of_def)
  have o: "m_out_ptr (do_command t) < m_out_delay (do_command t)" "m_out_delay (do_command t) \<le> 1" "m_out_count (do_command t) = 1"
    unfolding d by simp_all
  note g = shift_out_delay [OF p o(1,2)]
  have c: "core (shift_out (do_command t)) = core ?v" using g(1) by (simp add: d)
  have "streaming l 0 [0x00] (shift_out (do_command t))"
    using t(5) g(3,4) o(3) q(3) ld unfolding streaming_def core_eq_fields [OF c] core_card_store [OF c] by (simp add: list_put_def)
  then show ?thesis using t(1) g(2) core_eq_fields(1) [OF c] by simp
qed

text \<open>Multiple block read. After CMD18 a master that keeps clocking samples the response byte 0x00 and then, one after the
  other, the blocks from the requested one on: for each a gap byte, the token 0xfe, the 512 bytes of the sector and their CRC-16,
  for any number of blocks of the image, with the card staying in the streaming state.\<close>

theorem sd_multi_block_read:
  assumes "card_ok s" "\<forall>j \<le> k. l + j \<in> card_blocks s"
  shows "\<exists>s'. spi_io (frame_of 18 (block_addr s l) @ replicate (2 + 516 * k) 0xff) s =
      (replicate 7 0xff @ [0x00] @ concat (map (\<lambda>j. [0xff, 0xfe] @ snd (hd_read j (card_disk s)) @
         put_u16be (crc16_simple (snd (hd_read j (card_disk s))))) [l..<l + k]), s') \<and>
    m_state s' = SD_STATE_DATA_MULTI \<and> m_image s' = m_image s"
proof -
  let ?h = "card_disk s"
  have l: "l \<in> card_blocks s" using assms(2) [rule_format, of 0] by simp
  obtain s1 where s1: "spi_io (frame_of 18 (block_addr s l)) s = (replicate 6 0xff, s1)" "streaming l 0 [0x00] s1" "m_out_latch s1 = 0xff"
    "m_image s1 = m_image s" using multi_start [OF assms(1) l] by blast
  have d1: "card_disk s1 = ?h" "card_blocks s1 = card_blocks s" using s1(4) by (simp_all add: card_disk_def card_blocks_def)
  obtain s2 where s2: "spi_io (replicate (Suc 1) 0xff) s1 = ([0xff, 0x00], s2)" "streaming (Suc l) 0 (block_bytes l ?h) s2" "m_out_latch s2 = 0xff"
    "m_image s2 = m_image s1" using stream_item [OF s1(2) _ s1(3)] l d1 by auto
  have d2: "card_disk s2 = ?h" "card_blocks s2 = card_blocks s" using s2(4) s1(4) by (simp_all add: card_disk_def card_blocks_def)
  obtain s3 where s3: "spi_io (replicate (516 * k) 0xff) s2 = (concat (map (\<lambda>j. 0xff # block_bytes j ?h) [l..<l + k]), s3)"
    "m_state s3 = SD_STATE_DATA_MULTI" "m_image s3 = m_image s2"
    using stream_blocks [of l s2 k] s2(2,3) assms(2) d2 by (auto simp: streaming_def)
  have "replicate (2 + 516 * k) (0xff :: u8) = replicate (Suc 1) 0xff @ replicate (516 * k) 0xff"
    unfolding replicate_add [symmetric] by simp
  moreover have "replicate 6 (0xff :: u8) @ [0xff, 0x00] @ xs = replicate 7 0xff @ [0x00] @ xs" for xs by (simp add: numeral_eq_Suc)
  ultimately have "spi_io (frame_of 18 (block_addr s l) @ replicate (2 + 516 * k) 0xff) s =
      (replicate 7 0xff @ [0x00] @ concat (map (\<lambda>j. 0xff # block_bytes j ?h) [l..<l + k]), s3)"
    by (simp only: spi_io_append s1(1) s2(1) s3(1) fst_conv snd_conv append_assoc)
  then show ?thesis using s3(2,3) s2(4) s1(4) by (simp add: block_bytes_def)
qed

theorem sd_multi_block_read_witness:
  "take 8 (fst (spi_io (frame_of 18 (block_addr ready_card 0) @ replicate (2 + 516 * 1) 0xff) ready_card)) = replicate 7 0xff @ [0x00]"
proof -
  have "\<forall>j \<le> 1. 0 + j \<in> card_blocks ready_card" using ready_card_block by (auto simp: le_Suc_eq)
  then show ?thesis using sd_multi_block_read [OF ready_card_ok(1), of 1 0] by (auto simp del: spi_io.simps)
qed

section \<open>Writing without an image\<close>

text \<open>CMD24 is accepted by a card without an image (CMD17, CMD18 and CMD16 check for one): it answers 0x00 and waits for the data,
  and the last byte of the block then writes through the missing disk.\<close>

theorem sd_write_without_image:
  assumes "m_hard_disk_handle (m_image s) = None" "m_xferblk s = m_blksize s" "get_u32be (drop 1 (m_cmd s)) = 0" "length (m_data s) = 2056"
  shows "m_state (cmd24_write_block s) = SD_STATE_WRITE_WAITFE \<and> m_data (cmd24_write_block s) ! 0 = 0x00 \<and>
    (\<forall>t w. m_image t = m_image s \<and> m_state t = SD_STATE_WRITE_DATA \<and> m_write_ptr t = m_xferblk t + 1 \<and> m_xferblk t < 2048 \<longrightarrow>
       sd_ub (receive_byte (t\<lparr>m_in_latch := w\<rparr>)))"
proof -
  have "m_state (cmd24_write_block s) = SD_STATE_WRITE_WAITFE"
    using assms(2,3) by (simp add: cmd24_write_block_def Let_def)
  moreover have "m_data (cmd24_write_block s) ! 0 = 0x00"
    using assms(2-4) by (simp add: cmd24_write_block_def Let_def data_put_def list_put_def)
  moreover have "sd_ub (receive_byte (t\<lparr>m_in_latch := w\<rparr>))"
    if "m_image t = m_image s" "m_state t = SD_STATE_WRITE_DATA" "m_write_ptr t = m_xferblk t + 1" "m_xferblk t < 2048" for t w
    using that assms(1)
    by (auto simp: receive_byte_def receive_write_data_def image_write_def image_disk_def Let_def data_put_def send_data_def)
  ultimately show ?thesis by blast
qed

theorem sd_write_without_image_witness:
  "m_state (cmd24_write_block (sdcard_init\<lparr>m_cmd := replicate 6 0\<rparr>)) = SD_STATE_WRITE_WAITFE"
  using sd_write_without_image [of "sdcard_init\<lparr>m_cmd := replicate 6 0\<rparr>"]
  by (simp add: sdcard_init_def get_u32be_def numeral_eq_Suc)

end
