(* ===== verification/Sdcard_Csd.thy ===== *)
theory Sdcard_Csd
  imports Sdcard_Inv
begin

unbundle bit_operations_syntax

text \<open>
  The card-specific data register. A host computes the capacity of a card from the fields of the
  register; the theory shows that the register \<^verbatim>\<open>image_loaded\<close> builds says the size of the
  mounted image.
\<close>

section \<open>The host's view\<close>

text \<open>The fields of the two versions of the register, by their bit positions in the SD specification.\<close>

definition csd_version :: "u8 list \<Rightarrow> u8" where
  "csd_version c = drop_bit 6 (c ! 0)"

definition csd_read_bl_len :: "u8 list \<Rightarrow> nat" where
  "csd_read_bl_len c = unat (c ! 5 AND 0x0f)"

definition csd_c_size_v1 :: "u8 list \<Rightarrow> u16" where
  "csd_c_size_v1 c = push_bit 10 (ucast (c ! 6 AND 0x03)) OR push_bit 2 (ucast (c ! 7)) OR ucast (drop_bit 6 (c ! 8))"

definition csd_c_size_mult :: "u8 list \<Rightarrow> u8" where
  "csd_c_size_mult c = push_bit 1 (c ! 9 AND 0x03) OR drop_bit 7 (c ! 10)"

definition csd_c_size_v2 :: "u8 list \<Rightarrow> u32" where
  "csd_c_size_v2 c = push_bit 16 (ucast (c ! 7 AND 0x3f)) OR push_bit 8 (ucast (c ! 8)) OR ucast (c ! 9)"

definition csd_capacity :: "u8 list \<Rightarrow> nat" where
  "csd_capacity c =
     (if csd_version c = 0
      then (unat (csd_c_size_v1 c) + 1) * 2 ^ (unat (csd_c_size_mult c) + 2) * 2 ^ csd_read_bl_len c
      else (unat (csd_c_size_v2 c) + 1) * 2 ^ 19)"

section \<open>Factors of two\<close>

lemma strip_twos_eq: "strip_twos m e = (m', e') \<Longrightarrow> 0 < m \<Longrightarrow> odd m' \<and> e \<le> e' \<and> m = m' * 2 ^ (e' - e)"
proof (induction m e rule: strip_twos.induct)
  case (1 m e)
  show ?case
  proof (cases "even m")
    case True
    then have s: "strip_twos (m div 2) (e + 1) = (m', e')" using "1.prems" by (subst (asm) strip_twos.simps) simp
    have "0 < m div 2" using True "1.prems"(2) by (auto elim!: evenE)
    then have ih: "odd m'" "e + 1 \<le> e'" "m div 2 = m' * 2 ^ (e' - (e + 1))" using "1.IH" s True "1.prems"(2) by auto
    have "m = 2 * (m div 2)" using True by simp
    also have "\<dots> = m' * 2 ^ Suc (e' - (e + 1))" by (simp add: ih(3))
    also have "Suc (e' - (e + 1)) = e' - e" using ih(2) by simp
    finally show ?thesis using ih by simp
  next
    case False
    then have "m' = m" "e' = e" using "1.prems" by (subst (asm) strip_twos.simps, simp)+
    then show ?thesis using False by simp
  qed
qed

lemma block_size_exp:
  assumes "fst (strip_twos b 0) = 1" "512 \<le> b" "b \<le> 2048"
  shows "b = 2 ^ snd (strip_twos b 0) \<and> snd (strip_twos b 0) \<in> {9, 10, 11}"
proof -
  obtain e where e: "strip_twos b 0 = (1, e)" using assms(1) by (cases "strip_twos b 0") auto
  then have b: "b = 2 ^ e" using strip_twos_eq [OF e] assms(2) by simp
  then have "(2::nat) ^ 9 \<le> 2 ^ e" "(2::nat) ^ e \<le> 2 ^ 11" using assms by simp_all
  then have "9 \<le> e" "e \<le> 11" by (simp_all only: power_increasing_iff one_less_numeral_iff semiring_norm) 
  then show ?thesis using b e by auto
qed

section \<open>The register of a mounted image\<close>

lemma csd_common_len: "e \<in> {9, 10, 11} \<Longrightarrow> csd_read_bl_len (csd_common (of_nat e)) = e"
  by (auto simp: csd_read_bl_len_def csd_common_def)

lemma csd_or_nth: "j < length c \<Longrightarrow> csd_or i v c ! j = (if i = j then c ! j OR v else c ! j)"
  by (auto simp: csd_or_def)

lemma csd_common_nth:
  "csd_common b ! 0 = 0" "csd_common b ! 6 = 0" "csd_common b ! 7 = 0" "csd_common b ! 8 = 0" "csd_common b ! 9 = 0" "csd_common b ! 10 = 0x3f"
  by (simp_all add: csd_common_def)

lemma csd_v10_nth:
  "csd_v10 c m (csd_common b) ! 0 = 0" "csd_v10 c m (csd_common b) ! 5 = csd_common b ! 5"
  "csd_v10 c m (csd_common b) ! 6 = 0x80 OR ucast (BITS c 10 2)" "csd_v10 c m (csd_common b) ! 7 = ucast (BITS c 2 8)"
  "csd_v10 c m (csd_common b) ! 8 = (push_bit 6 (ucast (BITS c 0 2)) OR push_bit 3 0x07) OR 0x06"
  "csd_v10 c m (csd_common b) ! 9 = (push_bit 5 0x07 OR push_bit 2 0x06) OR BITS m 1 2"
  "csd_v10 c m (csd_common b) ! 10 = 0x3f OR push_bit 7 (BITS m 0 1)"
  unfolding csd_v10_def by (simp_all add: csd_or_nth csd_common_nth or.assoc)

lemma csd_v20_nth:
  "csd_v20 c (csd_common b) ! 0 = 0x40" "csd_v20 c (csd_common b) ! 5 = csd_common b ! 5"
  "csd_v20 c (csd_common b) ! 7 = ucast (BITS c 16 6)" "csd_v20 c (csd_common b) ! 8 = ucast (BITS c 8 8)"
  "csd_v20 c (csd_common b) ! 9 = ucast (BITS c 0 8)"
  unfolding csd_v20_def by (simp_all add: csd_or_nth csd_common_nth)

lemma small_masks: "(0x03 :: u8) = mask 2" "(0x3f :: u8) = mask 6"
  by (simp_all add: mask_eq_exp_minus_1)

lemma csd_v10_c_size: "csd_c_size_v1 (csd_v10 c m (csd_common b)) = take_bit 12 c"
proof (rule bit_word_eqI)
  fix n assume n: "n < LENGTH(16)"
  have s2: "2 \<le> n \<Longrightarrow> Suc (Suc (n - 2)) = n" by simp
  consider "n = 0" | "n = 1" | "2 \<le> n" "n < 10" | "n = 10" | "n = 11" | "12 \<le> n" by linarith
  then show "bit (csd_c_size_v1 (csd_v10 c m (csd_common b))) n = bit (take_bit 12 c) n"
    by cases (use n in \<open>auto simp: csd_c_size_v1_def csd_v10_nth small_masks bit_simps s2\<close>)
qed

lemma csd_v10_mult: "csd_c_size_mult (csd_v10 c m (csd_common b)) = take_bit 3 m"
  unfolding u8_eq_iff csd_c_size_mult_def csd_v10_nth small_masks bit_or_iff bit_push_bit_iff bit_drop_bit_eq bit_and_iff
  by (simp add: bit_simps) (simp add: numeral_2_eq_2)

lemma csd_v20_c_size: "csd_c_size_v2 (csd_v20 c (csd_common b)) = take_bit 22 c"
proof (rule bit_word_eqI)
  fix n assume n: "n < LENGTH(32)"
  consider "n < 8" | "8 \<le> n" "n < 16" | "16 \<le> n" "n < 22" | "22 \<le> n" by linarith
  then show "bit (csd_c_size_v2 (csd_v20 c (csd_common b))) n = bit (take_bit 22 c) n"
    by cases (use n in \<open>auto simp: csd_c_size_v2_def csd_v20_nth small_masks bit_simps\<close>)
qed

lemma capacity_v10:
  assumes "n < 4096" "m < 8" "e \<in> {9, 10, 11}"
  shows "csd_capacity (csd_v10 (of_nat n) (of_nat m) (csd_common (of_nat e))) = (n + 1) * 2 ^ (m + 2) * 2 ^ e"
proof -
  let ?c = "csd_v10 (of_nat n) (of_nat m) (csd_common (of_nat e))"
  have "unat (csd_c_size_v1 ?c) = n" using assms(1) by (simp only: csd_v10_c_size unsigned_take_bit_eq unat_of_nat) (simp add: take_bit_nat_eq_self)
  moreover have "unat (csd_c_size_mult ?c) = m" using assms(2) by (simp only: csd_v10_mult unsigned_take_bit_eq unat_of_nat) (simp add: take_bit_nat_eq_self)
  moreover have "csd_read_bl_len ?c = e" using csd_common_len [OF assms(3)] by (simp add: csd_read_bl_len_def csd_v10_nth)
  ultimately show ?thesis by (simp add: csd_capacity_def csd_version_def csd_v10_nth)
qed

lemma capacity_v20:
  assumes "n < 2 ^ 22"
  shows "csd_capacity (csd_v20 (of_nat n) (csd_common b)) = (n + 1) * 2 ^ 19"
proof -
  have "unat (csd_c_size_v2 (csd_v20 (of_nat n) (csd_common b))) = n"
    using assms by (simp only: csd_v20_c_size unsigned_take_bit_eq unat_of_nat) (simp add: take_bit_nat_eq_self)
  then show ?thesis by (simp add: csd_capacity_def csd_version_def csd_v20_nth)
qed

text \<open>C37. Card capacity. When the card accepts an image, the capacity a host computes from the card-specific data
  register (version 1.0 or 2.0) is exactly the number of blocks of the image times its block size.\<close>

theorem csd_capacity_correct:
  assumes "image_loaded s = (None, s')" "m_hard_disk_handle (m_image s) = Some h"
    "cylinders (hdinfo h) * heads (hdinfo h) * sectors (hdinfo h) < 2 ^ 64"
  shows "csd_capacity (m_csd s') = cylinders (hdinfo h) * heads (hdinfo h) * sectors (hdinfo h) * sectorbytes (hdinfo h)"
proof -
  define T where "T = cylinders (hdinfo h) * heads (hdinfo h) * sectors (hdinfo h)"
  define b where "b = sectorbytes (hdinfo h)"
  obtain m e where m: "strip_twos T 0 = (m, e)" by fastforce
  have T: "T mod 2 ^ 64 = T" using assms(3) by (simp add: T_def)
  note l = assms(1) [unfolded image_loaded_def Let_def assms(2) option.case T_def [symmetric] b_def [symmetric] T m prod.case]
  have z: "0 < T" "fst (strip_twos b 0) = 1" "512 \<le> b" "b \<le> 2048" "csd_sd_ok m e \<or> csd_sdhc_ok b m e"
    using l by (auto split: if_splits)
  define f where "f = snd (strip_twos b 0)"
  have f: "b = 2 ^ f" "f \<in> {9, 10, 11}" using block_size_exp [OF z(2-4)] by (simp_all add: f_def)
  have me: "T = m * 2 ^ e" "0 < m" using strip_twos_eq [OF m z(1)] by (auto intro: Nat.gr0I)
  show ?thesis
  proof (cases "csd_sdhc_ok b m e \<and> (m_preferred_type s = SD_TYPE_HC \<or> \<not> csd_sd_ok m e)")
    case True
    then have c: "m_csd s' = csd_v20 (of_nat (T div 2 ^ 10 - 1)) (csd_common (of_nat f))" using l z by (auto simp: f_def)
    have k: "b = 512" "10 \<le> e" "m * 2 ^ (e - 10) \<le> 2 ^ 16" using True by (auto simp: csd_sdhc_ok_def)
    have "T = m * 2 ^ (e - 10) * 2 ^ 10" using me(1) k(2) by (simp only: power_add [symmetric] mult.assoc) simp
    then have d: "T div 2 ^ 10 = m * 2 ^ (e - 10)" "T = T div 2 ^ 10 * 2 ^ 10" by simp_all
    have "0 < T div 2 ^ 10" using d(1) me(2) by simp
    moreover have "T div 2 ^ 10 - 1 < 2 ^ 22" using d(1) k(3) by simp
    ultimately have "csd_capacity (m_csd s') = T div 2 ^ 10 * 2 ^ 19" unfolding c by (simp only: capacity_v20) simp
    also have "\<dots> = T * b" using d(2) k(1) by simp
    finally show ?thesis by (simp add: T_def b_def)
  next
    case False
    define k where "k = min e 9 - 2"
    have o: "csd_sd_ok m e" using False z(5) by auto
    then have c: "m_csd s' = csd_v10 (of_nat (T div 2 ^ (k + 2) - 1)) (of_nat k) (csd_common (of_nat f))"
      using l z False by (auto simp: f_def k_def split: if_splits)
    have e: "2 \<le> e" "m * 2 ^ (if 9 < e then e - 9 else 0) \<le> 2 ^ 12" using o by (auto simp: csd_sd_ok_def)
    have k: "k + 2 = min e 9" "k < 8" using e(1) by (auto simp: k_def)
    have x: "e = (if 9 < e then e - 9 else 0) + (k + 2)" using k(1) by auto
    have "T = m * 2 ^ (if 9 < e then e - 9 else 0) * 2 ^ (k + 2)" using me(1) x by (metis mult.assoc power_add)
    then have d: "T div 2 ^ (k + 2) = m * 2 ^ (if 9 < e then e - 9 else 0)" "T = T div 2 ^ (k + 2) * 2 ^ (k + 2)" by simp_all
    have p: "0 < T div 2 ^ (k + 2)" unfolding d(1) using me(2) by simp
    moreover have "T div 2 ^ (k + 2) - 1 < 4096" using d(1) e(2) by simp
    ultimately have "csd_capacity (m_csd s') = T div 2 ^ (k + 2) * 2 ^ (k + 2) * 2 ^ f"
      unfolding c by (simp only: capacity_v10 [OF _ k(2) f(2)]) simp
    then show ?thesis using d(2) f(1) by (simp add: T_def b_def)
  qed
qed

text \<open>A high capacity image of 2^26 blocks (32 GiB).\<close>

theorem csd_capacity_correct_witness:
  "csd_capacity (m_csd (snd (image_loaded (sdcard_init\<lparr>m_image := \<lparr>m_image_name = ''sd.img'', m_file_open = True,
     m_hard_disk_handle = Some \<lparr>fhandle = [], hdinfo = \<lparr>cylinders = 2 ^ 17, heads = 16, sectors = 32, sectorbytes = 512\<rparr>,
       fileoffset = 0, io_read_error = False, io_write_error = False\<rparr>\<rparr>\<rparr>)))) = 2 ^ 35"
proof -
  let ?h = "\<lparr>fhandle = [], hdinfo = \<lparr>cylinders = 2 ^ 17, heads = 16, sectors = 32, sectorbytes = 512\<rparr>,
       fileoffset = 0, io_read_error = False, io_write_error = False\<rparr> :: hard_disk_file"
  let ?s = "sdcard_init\<lparr>m_image := \<lparr>m_image_name = ''sd.img'', m_file_open = True, m_hard_disk_handle = Some ?h\<rparr>\<rparr>"
  have t: "strip_twos 67108864 0 = (1, 26)" "strip_twos 512 0 = (1, 9)" by (simp_all add: strip_twos.simps)
  have "fst (image_loaded ?s) = None"
    by (simp add: image_loaded_def t csd_sd_ok_def csd_sdhc_ok_def)
  then have "image_loaded ?s = (None, snd (image_loaded ?s))" by (metis prod.collapse)
  then show ?thesis using csd_capacity_correct [of ?s "snd (image_loaded ?s)" ?h] by simp
qed

end
