(* ===== verification/Memory.thy ===== *)
theory Memory
  imports Rosco_Prelude Store
begin

text \<open>
  The parts of the memory system the drivers use (\<^verbatim>\<open>src/emu/emumem.cpp\<close>, \<^verbatim>\<open>src/emu/emumem_aspace.cpp\<close>): banks that
  switch a window between blocks of memory, and address maps that say which handler serves an
  address. A pointer into a block of memory is its offset, \<^verbatim>\<open>nullptr\<close> is \<^const>\<open>None\<close>. An operation that throws
  \<^verbatim>\<open>emu_fatalerror\<close>, and an access outside a block, has the result \<^const>\<open>None\<close>.
\<close>

section \<open>Memory banks\<close>

record memory_bank =
  m_entries :: "nat option list"
  m_curentry :: nat

definition memory_bank_init :: memory_bank where
  "memory_bank_init = \<lparr>m_entries = [], m_curentry = 0\<rparr>"

definition bank_base :: "memory_bank \<Rightarrow> nat option" where
  "bank_base m = (if m_entries m = [] then None else m_entries m ! m_curentry m)"

text \<open>\<^verbatim>\<open>m_entries.resize(n)\<close> for a size that is not smaller.\<close>

definition entries_resize :: "nat \<Rightarrow> nat option list \<Rightarrow> nat option list" where
  "entries_resize n es = es @ replicate (n - length es) None"

definition set_base :: "nat option \<Rightarrow> memory_bank \<Rightarrow> memory_bank option" where
  "set_base base m =
     (case base of None \<Rightarrow> None
      | Some p \<Rightarrow>
          let m1 = (if m_entries m = [] then m\<lparr>m_entries := [None], m_curentry := 0\<rparr> else m)
          in Some (m1\<lparr>m_entries := (m_entries m1)[m_curentry m1 := Some p]\<rparr>))"

definition set_entry :: "int \<Rightarrow> memory_bank \<Rightarrow> memory_bank option" where
  "set_entry entrynum m =
     (if entrynum = -1 \<and> m_entries m = [] then Some m
      else if entrynum < 0 \<or> int (length (m_entries m)) \<le> entrynum then None
      else if m_entries m ! nat entrynum = None then None
      else Some (m\<lparr>m_curentry := nat entrynum\<rparr>))"

definition configure_entry :: "int \<Rightarrow> nat option \<Rightarrow> memory_bank \<Rightarrow> memory_bank option" where
  "configure_entry entrynum base m =
     (if entrynum < 0 then None
      else
        let n = nat entrynum;
            es = (if length (m_entries m) \<le> n then entries_resize (n + 1) (m_entries m) else m_entries m)
        in Some (m\<lparr>m_entries := es[n := base]\<rparr>))"

definition configure_entries :: "nat \<Rightarrow> nat \<Rightarrow> nat \<Rightarrow> nat \<Rightarrow> memory_bank \<Rightarrow> memory_bank" where
  "configure_entries startentry numentries base stride m =
     (let n = startentry + numentries;
          es = (if length (m_entries m) \<le> n then entries_resize (n + 1) (m_entries m) else m_entries m)
      in m\<lparr>m_entries := fold (\<lambda>e es. es[e + startentry := Some (base + e * stride)]) [0..<numentries] es\<rparr>)"

text \<open>The entries after a configuration: the requested ones are set, the others are kept; one entry more than requested
  is allocated and stays null.\<close>

lemma length_fold_entries: "length (fold (\<lambda>e es. es[e + s := Some (b + e * k)]) [0..<n] es) = length es"
  by (induction n) auto

lemma fold_entries:
  assumes "j < length es"
  shows "fold (\<lambda>e es. es[e + s := Some (b + e * k)]) [0..<n] es ! j = (if s \<le> j \<and> j < s + n then Some (b + (j - s) * k) else es ! j)"
proof (induction n)
  case (Suc n)
  let ?es = "fold (\<lambda>e es. es[e + s := Some (b + e * k)]) [0..<n] es"
  have "fold (\<lambda>e es. es[e + s := Some (b + e * k)]) [0..<Suc n] es = ?es[n + s := Some (b + n * k)]" by simp
  then show ?case using Suc assms by (cases "j = n + s") (auto simp: length_fold_entries)
qed auto

lemma configure_entries_nth:
  assumes "j < length (m_entries m)"
  shows "m_entries (configure_entries s n b k m) ! j = (if s \<le> j \<and> j < s + n then Some (b + (j - s) * k) else m_entries m ! j)"
  using assms by (simp add: configure_entries_def Let_def fold_entries entries_resize_def nth_append)

lemma length_configure_fresh: "length (m_entries (configure_entries 0 n b k memory_bank_init)) = Suc n"
  using length_fold_entries [of 0 b k n "entries_resize (n + 1) []"]
  by (simp add: configure_entries_def Let_def entries_resize_def memory_bank_init_def)

lemma configure_entries_fresh:
  "m_entries (configure_entries 0 n b k memory_bank_init) = map (\<lambda>e. Some (b + e * k)) [0..<n] @ [None]"
proof (rule nth_equalityI)
  fix j assume "j < length (m_entries (configure_entries 0 n b k memory_bank_init))"
  then have j: "j < Suc n" by (simp add: length_configure_fresh)
  then show "m_entries (configure_entries 0 n b k memory_bank_init) ! j = (map (\<lambda>e. Some (b + e * k)) [0..<n] @ [None]) ! j"
    using fold_entries [of j "replicate (Suc n) None" 0 b k n]
    by (auto simp: configure_entries_def Let_def entries_resize_def memory_bank_init_def nth_append less_Suc_eq simp del: replicate_Suc)
qed (simp add: length_configure_fresh)

text \<open>A bank whose entries stand at equal distances: the entries before the last one can be selected, and the base is
  that of the selected block.\<close>

definition strided :: "nat \<Rightarrow> nat \<Rightarrow> memory_bank \<Rightarrow> bool" where
  "strided n k m \<longleftrightarrow> m_entries m = map (\<lambda>e. Some (e * k)) [0..<n] @ [None]"

lemma strided_configure: "strided n k (configure_entries 0 n 0 k memory_bank_init)"
  by (simp add: strided_def configure_entries_fresh)

lemma strided_nth:
  assumes "strided n k m" "i < n"
  shows "m_entries m ! i = Some (i * k)" "m_entries m \<noteq> []" "i < length (m_entries m)"
  using assms by (simp_all add: strided_def nth_append)

lemma strided_set_entry:
  assumes "strided n k m" "i < n"
  shows "set_entry (int i) m = Some (m\<lparr>m_curentry := i\<rparr>)"
  using strided_nth [OF assms] by (simp add: set_entry_def)

lemma strided_base:
  assumes "strided n k m" "m_curentry m < n"
  shows "bank_base m = Some (m_curentry m * k)"
  using strided_nth [OF assms] by (simp add: bank_base_def)

section \<open>Address maps\<close>

text \<open>A line of an address map: its range and the handlers of its two halves.\<close>

record 'h address_map_entry =
  m_addrstart :: nat
  m_addrend :: nat
  m_read :: "'h option"
  m_write :: "'h option"

definition map_rw :: "nat \<Rightarrow> nat \<Rightarrow> 'h \<Rightarrow> 'h address_map_entry" where
  "map_rw lo hi h = \<lparr>m_addrstart = lo, m_addrend = hi, m_read = Some h, m_write = Some h\<rparr>"

definition map_r :: "nat \<Rightarrow> nat \<Rightarrow> 'h \<Rightarrow> 'h address_map_entry" where
  "map_r lo hi h = \<lparr>m_addrstart = lo, m_addrend = hi, m_read = Some h, m_write = None\<rparr>"

definition map_w :: "nat \<Rightarrow> nat \<Rightarrow> 'h \<Rightarrow> 'h address_map_entry" where
  "map_w lo hi h = \<lparr>m_addrstart = lo, m_addrend = hi, m_read = None, m_write = Some h\<rparr>"

text \<open>The dispatch of an address space: for each address the handler and the start of its range. The lines of a map are
  installed one after the other, each over what was there.\<close>

record 'h address_space =
  root_read :: "nat \<Rightarrow> ('h \<times> nat) option"
  root_write :: "nat \<Rightarrow> ('h \<times> nat) option"

definition populate :: "nat \<Rightarrow> nat \<Rightarrow> 'h option \<Rightarrow> (nat \<Rightarrow> ('h \<times> nat) option) \<Rightarrow> nat \<Rightarrow> ('h \<times> nat) option" where
  "populate lo hi h disp = (case h of None \<Rightarrow> disp | Some x \<Rightarrow> (\<lambda>a. if lo \<le> a \<and> a \<le> hi then Some (x, lo) else disp a))"

definition populate_map_entry :: "'h address_map_entry \<Rightarrow> 'h address_space \<Rightarrow> 'h address_space" where
  "populate_map_entry e sp =
     sp\<lparr>root_read := populate (m_addrstart e) (m_addrend e) (m_read e) (root_read sp),
        root_write := populate (m_addrstart e) (m_addrend e) (m_write e) (root_write sp)\<rparr>"

definition populate_from_map :: "'h address_map_entry list \<Rightarrow> 'h address_space" where
  "populate_from_map mp = fold populate_map_entry mp \<lparr>root_read = (\<lambda>_. None), root_write = (\<lambda>_. None)\<rparr>"

lemma populate_simps [simp]:
  "populate lo hi None disp = disp"
  "populate lo hi (Some x) disp a = (if lo \<le> a \<and> a \<le> hi then Some (x, lo) else disp a)"
  by (simp_all add: populate_def)

lemma map_entry_simps [simp]:
  "m_addrstart (map_rw lo hi h) = lo" "m_addrend (map_rw lo hi h) = hi" "m_read (map_rw lo hi h) = Some h" "m_write (map_rw lo hi h) = Some h"
  "m_addrstart (map_r lo hi h) = lo" "m_addrend (map_r lo hi h) = hi" "m_read (map_r lo hi h) = Some h" "m_write (map_r lo hi h) = None"
  "m_addrstart (map_w lo hi h) = lo" "m_addrend (map_w lo hi h) = hi" "m_read (map_w lo hi h) = None" "m_write (map_w lo hi h) = Some h"
  by (simp_all add: map_rw_def map_r_def map_w_def)

section \<open>Accesses to a block of memory\<close>

definition mem_get :: "nat \<Rightarrow> 'a list \<Rightarrow> 'a option" where
  "mem_get i xs = (if i < length xs then Some (xs ! i) else None)"

definition mem_put :: "nat \<Rightarrow> 'a \<Rightarrow> 'a list \<Rightarrow> 'a list option" where
  "mem_put i x xs = (if i < length xs then Some (xs[i := x]) else None)"

lemma mem_get_Some [simp]: "i < length xs \<Longrightarrow> mem_get i xs = Some (xs ! i)"
  by (simp add: mem_get_def)

lemma mem_put_Some [simp]: "i < length xs \<Longrightarrow> mem_put i x xs = Some (xs[i := x])"
  by (simp add: mem_put_def)

end
