(* ===== verification/Duart_Prog.thy ===== *)
theory Duart_Prog
  imports Duart_Props
begin

unbundle bit_operations_syntax

text \<open>
  The register accesses of the DUART cut at their callbacks. The operations of \<open>Duart\<close> compute the state after an access
  and log the calls it makes. A call to \<^verbatim>\<open>write_outport\<close> however is made in the middle of the access, and the devices behind it
  can call the DUART again (\<^verbatim>\<open>ip2_w\<close>) before the access goes on. So an access is also given as a program: a resumption
  that does one step on the state the chip then has, lets the calls of the step happen, and goes on. Where an operation
  tests or changes the chip after a call, it sees what the call has left. Run without interference, every
  program does what the operation of \<open>Duart\<close> does (\<open>duart_write_prog_run\<close>, \<open>duart_read_prog_run\<close>, \<open>ip_change_prog_run\<close>).
\<close>

section \<open>Programs\<close>

datatype duart_prog = Halt | Act "duart \<Rightarrow> duart" "duart \<Rightarrow> duart_prog"

text \<open>The rest of an access is a function of the state at that point. \<open>act f k\<close> changes the state by \<open>f\<close>, lets the calls
  of \<open>f\<close> happen, and goes on with \<open>k\<close>.\<close>

type_synonym duart_kont = "duart \<Rightarrow> duart_prog"

definition act :: "(duart \<Rightarrow> duart) \<Rightarrow> duart_kont \<Rightarrow> duart_kont" where
  "act f k = (\<lambda>d. Act f k)"

definition done_prog :: duart_kont where
  "done_prog = (\<lambda>d. Halt)"

text \<open>A program whose calls do not come back.\<close>

primrec run_prog :: "duart_prog \<Rightarrow> duart \<Rightarrow> duart" where
  "run_prog Halt d = d"
| "run_prog (Act f k) d = run_prog (k (f d)) (f d)"

section \<open>Interrupts\<close>

text \<open>\<^verbatim>\<open>update_interrupts\<close>: the calls of the base class are made before the vector flag is looked at.\<close>

definition clear_read_vector :: "duart \<Rightarrow> duart" where
  "clear_read_vector d = (if \<not> irq_pending d then d\<lparr>m_read_vector := False\<rparr> else d)"

definition update_interrupts_prog :: "duart_kont \<Rightarrow> duart_kont" where
  "update_interrupts_prog k = act update_interrupts_base (act clear_read_vector k)"

definition clear_ISR_prog :: "u8 \<Rightarrow> duart_kont \<Rightarrow> duart_kont" where
  "clear_ISR_prog m k d =
     (if ISR d AND m \<noteq> 0 then act (\<lambda>d. d\<lparr>ISR := ISR d AND NOT m\<rparr>) (update_interrupts_prog k) d else k d)"

definition set_ISR_prog :: "u8 \<Rightarrow> duart_kont \<Rightarrow> duart_kont" where
  "set_ISR_prog m k d =
     (if ISR d AND m = 0 then act (\<lambda>d. d\<lparr>ISR := ISR d OR m\<rparr>) (update_interrupts_prog k) d else k d)"

definition chan_update_txrdy_prog :: "nat \<Rightarrow> duart_kont \<Rightarrow> duart_kont" where
  "chan_update_txrdy_prog c k d =
     (if SR (get_channel c d) AND STATUS_TRANSMITTER_READY \<noteq> 0
      then set_ISR_prog (txrdy_bit c) k d else clear_ISR_prog (txrdy_bit c) k d)"

definition chan_update_rxrdy_prog :: "nat \<Rightarrow> duart_kont \<Rightarrow> duart_kont" where
  "chan_update_rxrdy_prog c k d =
     (let ch = get_channel c d
      in if MR1 ch AND MODE_RX_INT_SELECT_BIT \<noteq> 0
         then (if SR ch AND STATUS_FIFO_FULL \<noteq> 0
               then set_ISR_prog (rxrdy_bit c) k d else clear_ISR_prog (rxrdy_bit c) k d)
         else (if SR ch AND STATUS_RECEIVER_READY \<noteq> 0
               then set_ISR_prog (rxrdy_bit c) k d else clear_ISR_prog (rxrdy_bit c) k d))"

definition chan_update_interrupts_prog :: "nat \<Rightarrow> duart_kont \<Rightarrow> duart_kont" where
  "chan_update_interrupts_prog c k =
     act (upd_chan c chan_update_mode) (chan_update_txrdy_prog c (chan_update_rxrdy_prog c k))"

section \<open>The registers of a channel\<close>

definition rx_fifo_push_prog :: "nat \<Rightarrow> u8 \<Rightarrow> u8 \<Rightarrow> duart_kont \<Rightarrow> duart_kont" where
  "rx_fifo_push_prog c data errors k =
     act (upd_chan c (rx_fifo_push_chan data errors)) (chan_update_interrupts_prog c k)"

definition read_rx_fifo_prog :: "nat \<Rightarrow> duart_kont \<Rightarrow> duart_kont" where
  "read_rx_fifo_prog c k d =
     (if rx_fifo_num (get_channel c d) = 0 then chan_update_interrupts_prog c k d
      else act (upd_chan c (\<lambda>ch. snd (read_rx_fifo_chan ch))) (chan_update_interrupts_prog c k) d)"

definition write_MR_prog :: "nat \<Rightarrow> u8 \<Rightarrow> duart_kont \<Rightarrow> duart_kont" where
  "write_MR_prog c data k =
     act (upd_chan c (\<lambda>ch. recalc_framing
            (if MR_ptr ch = 0 then ch\<lparr>MR1 := data, MR_ptr := 1\<rparr> else ch\<lparr>MR2 := data\<rparr>)))
       (chan_update_interrupts_prog c k)"

definition reset_transmitter_prog :: "nat \<Rightarrow> duart_kont \<Rightarrow> duart_kont" where
  "reset_transmitter_prog c k =
     act (upd_chan c (clear_SR (STATUS_TRANSMITTER_READY OR STATUS_TRANSMITTER_EMPTY)))
       (act (emit (Write_tx c True))
         (clear_ISR_prog (txrdy_bit c)
           (act (upd_chan c (\<lambda>ch. (transmit_register_reset ch)
                  \<lparr>m_bits_transmitted := 255, m_tx_data_in_buffer := False, m_tx_enabled := False\<rparr>)) k)))"

definition start_break_prog :: "nat \<Rightarrow> duart_kont \<Rightarrow> duart_kont" where
  "start_break_prog c k d =
     (if \<not> m_tx_break (get_channel c d)
      then act (upd_chan c (\<lambda>ch. ch\<lparr>m_tx_break := True\<rparr>))
             (\<lambda>d. if MR2 (get_channel c d) AND 0xc0 = 0x80
                  then set_ISR_prog (delta_break_bit c) (rx_fifo_push_prog c 0 STATUS_RECEIVED_BREAK k) d
                  else k d) d
      else k d)"

definition stop_break_prog :: "nat \<Rightarrow> duart_kont \<Rightarrow> duart_kont" where
  "stop_break_prog c k d =
     (if m_tx_break (get_channel c d)
      then act (upd_chan c (\<lambda>ch. ch\<lparr>m_tx_break := False\<rparr>))
             (\<lambda>d. if MR2 (get_channel c d) AND 0xc0 = 0x80 then set_ISR_prog (delta_break_bit c) k d else k d) d
      else k d)"

definition CR_command_prog :: "nat \<Rightarrow> u8 \<Rightarrow> duart_kont \<Rightarrow> duart_kont" where
  "CR_command_prog c data k =
     (let cmd = BITS data 4 3
      in if cmd = 1 then act (upd_chan c (\<lambda>ch. ch\<lparr>MR_ptr := 0\<rparr>)) k
         else if cmd = 2 then act (upd_chan c reset_receiver) k
         else if cmd = 3 then reset_transmitter_prog c k
         else if cmd = 4 then act (upd_chan c (clear_SR (SR_RX_ERRORS OR STATUS_OVERRUN_ERROR))) k
         else if cmd = 5 then clear_ISR_prog (delta_break_bit c) k
         else if cmd = 6 then start_break_prog c k
         else if cmd = 7 then stop_break_prog c k
         else k)"

definition CR_tx_on_prog :: "nat \<Rightarrow> u8 \<Rightarrow> duart_kont \<Rightarrow> duart_kont" where
  "CR_tx_on_prog c data k d =
     (if BIT (CR (get_channel c d)) 2 = 0 \<and> BIT data 2 \<noteq> 0
      then act (upd_chan c (\<lambda>ch. (set_SR (STATUS_TRANSMITTER_READY OR STATUS_TRANSMITTER_EMPTY) ch)
                  \<lparr>m_tx_data_in_buffer := False, m_tx_enabled := True\<rparr>))
             (set_ISR_prog (txrdy_bit c) k) d
      else k d)"

definition CR_tx_off_prog :: "nat \<Rightarrow> u8 \<Rightarrow> duart_kont \<Rightarrow> duart_kont" where
  "CR_tx_off_prog c data k =
     (if BIT data 3 \<noteq> 0
      then act (upd_chan c (\<lambda>ch. (clear_SR (STATUS_TRANSMITTER_READY OR STATUS_TRANSMITTER_EMPTY) ch)
                  \<lparr>m_tx_data_in_buffer := False, m_tx_enabled := False\<rparr>))
             (clear_ISR_prog (txrdy_bit c) k)
      else k)"

definition write_CR_prog :: "nat \<Rightarrow> u8 \<Rightarrow> duart_kont \<Rightarrow> duart_kont" where
  "write_CR_prog c data k =
     CR_command_prog c data
       (act (CR_enable_rx c data)
         (CR_tx_on_prog c data
           (CR_tx_off_prog c data
             (chan_update_interrupts_prog c (act (upd_chan c (\<lambda>ch. ch\<lparr>CR := data\<rparr>)) k)))))"

definition write_TX_prog :: "attotime \<Rightarrow> nat \<Rightarrow> u8 \<Rightarrow> duart_kont \<Rightarrow> duart_kont" where
  "write_TX_prog now c data k d =
     (if SR (get_channel c d) AND STATUS_TRANSMITTER_READY = 0 then k d
      else act (upd_chan c (\<lambda>ch.
                  let ch1 = clear_SR (STATUS_TRANSMITTER_READY OR STATUS_TRANSMITTER_EMPTY) ch
                  in if \<not> is_transmit_register_empty ch1
                     then ch1\<lparr>m_tx_data := data, m_tx_data_in_buffer := True\<rparr>
                     else (transmit_register_setup now data ch1)\<lparr>m_bits_transmitted := 0\<rparr>))
             (chan_update_interrupts_prog c k) d)"

definition write_chan_reg_prog :: "attotime \<Rightarrow> nat \<Rightarrow> nat \<Rightarrow> u8 \<Rightarrow> duart_kont \<Rightarrow> duart_kont" where
  "write_chan_reg_prog now c reg data k =
     (if reg = 0 then write_MR_prog c data k
      else if reg = 1 then act (write_CSR now c data) k
      else if reg = 2 then write_CR_prog c data k
      else if reg = 3 then write_TX_prog now c data k
      else k)"

definition read_chan_reg_prog :: "nat \<Rightarrow> nat \<Rightarrow> duart_kont \<Rightarrow> duart_kont" where
  "read_chan_reg_prog c reg k =
     (if reg = 3 then read_rx_fifo_prog c k else act (\<lambda>d. snd (read_chan_reg c reg d)) k)"

section \<open>The registers of the chip\<close>

definition write_ACR_prog :: "attotime \<Rightarrow> u8 \<Rightarrow> duart_kont \<Rightarrow> duart_kont" where
  "write_ACR_prog now data k =
     act (\<lambda>d. let old_acr = ACR d; d1 = d\<lparr>ACR := data\<rparr>
              in if (old_acr XOR data) AND 0x40 \<noteq> 0 then
                   (if data AND 0x40 \<noteq> 0
                    then let a = d1\<lparr>half_period := 0\<rparr> in start_ct now (ct_preset a) a
                    else d1\<lparr>duart_timer := timer_never now (duart_timer d1)\<rparr>)
                 else d1)
       (\<lambda>d. let k1 = act (baud_updated now 0) (act (baud_updated now 1)
                       (chan_update_interrupts_prog 0 (chan_update_interrupts_prog 1 k)))
            in if (drop_bit 4 (IPCR d) AND data) AND 0x0f \<noteq> 0
               then set_ISR_prog INT_INPUT_PORT_CHANGE k1 d else k1 d)"

definition write_base_prog :: "attotime \<Rightarrow> nat \<Rightarrow> u8 \<Rightarrow> duart_kont \<Rightarrow> duart_kont" where
  "write_base_prog now offset data k =
     (let r = offset mod 16
      in if r \<le> 0x3 then write_chan_reg_prog now 0 (r mod 4) data k
         else if r = 0x4 then write_ACR_prog now data k
         else if r = 0x5 then act (\<lambda>d. d\<lparr>IMR := data\<rparr>) (update_interrupts_prog k)
         else if 0x8 \<le> r \<and> r \<le> 0xb then write_chan_reg_prog now 1 (r mod 4) data k
         else act (write_base now offset data) k)"

definition write_mc68681_prog :: "attotime \<Rightarrow> nat \<Rightarrow> u8 \<Rightarrow> duart_kont \<Rightarrow> duart_kont" where
  "write_mc68681_prog now offset data k =
     (if offset = 0x0c then act (\<lambda>d. d\<lparr>IVR := data\<rparr>) k else write_base_prog now offset data k)"

text \<open>The extended commands make no calls; the byte they pass on depends on the data only.\<close>

definition duart_write_prog :: "attotime \<Rightarrow> nat \<Rightarrow> u8 \<Rightarrow> duart_kont \<Rightarrow> duart_kont" where
  "duart_write_prog now offset data k d =
     (if offset = 0x02 \<or> offset = 0x0a
      then let c = (if offset = 0x02 then 0 else 1)
           in act (\<lambda>d. snd (extended_command now c data d))
                (write_mc68681_prog now offset (fst (extended_command now c data d)) k) d
      else write_mc68681_prog now offset data k d)"

text \<open>The value of a read is fixed before its calls are made.\<close>

definition read_base_prog :: "attotime \<Rightarrow> nat \<Rightarrow> duart_kont \<Rightarrow> duart_kont" where
  "read_base_prog now offset k =
     (let r = offset mod 16
      in if r = 0x0 \<or> r = 0x1 \<or> r = 0x3 then read_chan_reg_prog 0 (r mod 4) k
         else if r = 0x4 then act (\<lambda>d. d\<lparr>IPCR := IPCR d AND 0x0f\<rparr>) (clear_ISR_prog INT_INPUT_PORT_CHANGE k)
         else if r = 0x8 \<or> r = 0x9 \<or> r = 0xb then read_chan_reg_prog 1 (r mod 4) k
         else if r = 0xf then
           act (\<lambda>d. if ACR d AND 0x40 = 0
                    then let a = d\<lparr>duart_timer := timer_enable False (duart_timer d)\<rparr>
                         in if OPCR a AND 0xc = 0x4 then a\<lparr>OPR := OPR a AND NOT 0x8\<rparr> else a
                    else d)
             (clear_ISR_prog INT_COUNTER_READY k)
         else act (\<lambda>d. snd (read_base now offset d)) k)"

definition duart_read_prog :: "attotime \<Rightarrow> nat \<Rightarrow> duart_kont \<Rightarrow> duart_kont" where
  "duart_read_prog now offset k =
     (if offset = 0x02 \<or> offset = 0x0c then k else read_base_prog now offset k)"

text \<open>\<^verbatim>\<open>ip0_w\<close> to \<^verbatim>\<open>ip3_w\<close>: \<^verbatim>\<open>newIP\<close> is computed at the start and stored after the interrupt has been raised.\<close>

definition ip_store_prog :: "u8 \<Rightarrow> duart_kont \<Rightarrow> duart_kont" where
  "ip_store_prog newIP = act (\<lambda>d. d\<lparr>IP_last_state := newIP\<rparr>)"

definition ip_raise_prog :: "u8 \<Rightarrow> duart_kont \<Rightarrow> duart_kont" where
  "ip_raise_prog m k d = (if ACR d AND m \<noteq> 0 then set_ISR_prog INT_INPUT_PORT_CHANGE k d else k d)"

definition ip_change_prog :: "nat \<Rightarrow> bool \<Rightarrow> duart_kont \<Rightarrow> duart_kont" where
  "ip_change_prog i state k d =
     (let m = push_bit i 1; newIP = (IP_last_state d AND NOT m) OR (if state then m else 0)
      in if newIP \<noteq> IP_last_state d
         then act (\<lambda>d. d\<lparr>IPCR := ((IPCR d AND NOT 0x0f) OR (newIP AND 0x0f)) OR push_bit 4 m\<rparr>)
                (ip_raise_prog m (ip_store_prog newIP k)) d
         else ip_store_prog newIP k d)"

definition ip2_prog :: "bool \<Rightarrow> duart_kont \<Rightarrow> duart_kont" where
  "ip2_prog = ip_change_prog 2"

section \<open>Without interference the programs are the operations\<close>

lemma run_act [simp]: "run_prog (act f k d) d = run_prog (k (f d)) (f d)"
  by (simp add: act_def)

lemma run_done [simp]: "run_prog (done_prog d) d = d"
  by (simp add: done_prog_def)

lemma update_interrupts_split: "update_interrupts d = clear_read_vector (update_interrupts_base d)"
  by (simp add: update_interrupts_def clear_read_vector_def Let_def)

lemma interrupts_prog_run [simp]:
  "run_prog (update_interrupts_prog k d) d = run_prog (k (update_interrupts d)) (update_interrupts d)"
  "run_prog (clear_ISR_prog m k d) d = run_prog (k (clear_ISR_bits m d)) (clear_ISR_bits m d)"
  "run_prog (set_ISR_prog m k d) d = run_prog (k (set_ISR_bits m d)) (set_ISR_bits m d)"
proof -
  show u: "run_prog (update_interrupts_prog k d) d = run_prog (k (update_interrupts d)) (update_interrupts d)" for k d
    by (simp add: update_interrupts_prog_def update_interrupts_split)
  show "run_prog (clear_ISR_prog m k d) d = run_prog (k (clear_ISR_bits m d)) (clear_ISR_bits m d)"
    "run_prog (set_ISR_prog m k d) d = run_prog (k (set_ISR_bits m d)) (set_ISR_bits m d)"
    by (simp_all add: clear_ISR_prog_def set_ISR_prog_def clear_ISR_bits_def set_ISR_bits_def u)
qed

lemma chan_update_interrupts_prog_run [simp]:
  "run_prog (chan_update_interrupts_prog c k d) d = run_prog (k (chan_update_interrupts c d)) (chan_update_interrupts c d)"
  by (simp add: chan_update_interrupts_prog_def chan_update_txrdy_prog_def chan_update_rxrdy_prog_def chan_update_interrupts_def Let_def)

lemma upd_chan_get: "upd_chan c f d = upd_chan c (\<lambda>_. f (get_channel c d)) d"
  by (simp add: upd_chan_def get_channel_def)

lemma channel_prog_run [simp]:
  "run_prog (rx_fifo_push_prog c x e k d) d = run_prog (k (rx_fifo_push c x e d)) (rx_fifo_push c x e d)"
  "run_prog (read_rx_fifo_prog c k d) d = run_prog (k (snd (read_rx_fifo c d))) (snd (read_rx_fifo c d))"
  "run_prog (write_MR_prog c x k d) d = run_prog (k (write_MR c x d)) (write_MR c x d)"
  "run_prog (write_TX_prog now c x k d) d = run_prog (k (write_TX now c x d)) (write_TX now c x d)"
  using upd_chan_get [of c "\<lambda>ch. snd (read_rx_fifo_chan ch)" d]
  by (simp_all add: rx_fifo_push_prog_def rx_fifo_push_def read_rx_fifo_prog_def read_rx_fifo_def write_MR_prog_def write_MR_def
      write_TX_prog_def write_TX_def case_prod_beta)

lemma CR_command_prog_run [simp]: "run_prog (CR_command_prog c x k d) d = run_prog (k (CR_command c x d)) (CR_command c x d)"
  by (simp add: CR_command_prog_def CR_command_def reset_transmitter_prog_def reset_transmitter_def start_break_prog_def
      start_break_def stop_break_prog_def stop_break_def Let_def)

lemma write_CR_prog_run [simp]: "run_prog (write_CR_prog c x k d) d = run_prog (k (write_CR c x d)) (write_CR c x d)"
  by (simp add: write_CR_prog_def write_CR_def CR_tx_on_prog_def CR_tx_off_prog_def CR_enable_tx_def Let_def)

lemma chan_reg_prog_run [simp]:
  "run_prog (write_chan_reg_prog now c r x k d) d = run_prog (k (write_chan_reg now c r x d)) (write_chan_reg now c r x d)"
  "run_prog (read_chan_reg_prog c r k d) d = run_prog (k (snd (read_chan_reg c r d))) (snd (read_chan_reg c r d))"
  by (simp_all add: write_chan_reg_prog_def write_chan_reg_def read_chan_reg_prog_def read_chan_reg_def Let_def)

lemma write_ACR_prog_run [simp]: "run_prog (write_ACR_prog now x k d) d = run_prog (k (write_ACR now x d)) (write_ACR now x d)"
  by (simp add: write_ACR_prog_def write_ACR_def Let_def)

lemma write_base_prog_run: "run_prog (write_base_prog now r x k d) d = run_prog (k (write_base now r x d)) (write_base now r x d)"
  unfolding write_base_prog_def Let_def
  by (simp only: if_distrib [where f = "\<lambda>p. run_prog (p _) _"] chan_reg_prog_run write_ACR_prog_run run_act interrupts_prog_run
      split: if_split) (auto simp: write_base_def)

lemma duart_write_prog_run:
  "run_prog (duart_write_prog now r x k d) d = run_prog (k (duart_write now r x d)) (duart_write now r x d)"
  by (simp add: duart_write_prog_def duart_write_def write_mc68681_prog_def write_mc68681_def case_prod_beta write_base_prog_run Let_def)

lemma duart_read_prog_run:
  "run_prog (duart_read_prog now r k d) d = run_prog (k (snd (duart_read now r d))) (snd (duart_read now r d))"
proof -
  have "run_prog (read_base_prog now r k d) d = run_prog (k (snd (read_base now r d))) (snd (read_base now r d))"
    unfolding read_base_prog_def Let_def
    by (simp only: if_distrib [where f = "\<lambda>p. run_prog (p _) _"] chan_reg_prog_run run_act interrupts_prog_run split: if_split)
      (auto simp: read_base_def Let_def)
  then show ?thesis by (simp add: duart_read_prog_def duart_read_def read_mc68681_def case_prod_beta)
qed

lemma ip_change_prog_run: "run_prog (ip_change_prog i st k d) d = run_prog (k (ip_change_w i st d)) (ip_change_w i st d)"
  by (simp add: ip_change_prog_def ip_raise_prog_def ip_store_prog_def ip_change_w_def Let_def)

end
