(* ===== verification/Board.thy ===== *)
theory Board
  imports Duart_Prog Sdcard_Block
begin

unbundle bit_operations_syntax

text \<open>
  The wiring of the boards (\<^verbatim>\<open>rosco_6502_state::rosco_6502\<close> and \<^verbatim>\<open>rosco_m68k_state::rosco_m68k\<close> under
  \<^verbatim>\<open>src/rosco/drivers\<close>): the DUART with its interrupt, serial and port lines, and the SD card
  on its output port and on its input pin IP2. A line a device drives calls the devices
  behind it at once, in the middle of the operation of the device. The list of \<open>run_calls\<close> is the
  stack of these calls: the head is the call that runs, and the entries below it are what the callers still have
  to do. A call that calls other devices pushes these calls, and below them the rest of its own work
  (\<open>Duart_run\<close>, \<open>Sd_clock_done\<close>), which goes on with the state that the nested calls have left.
\<close>

section \<open>State and calls\<close>

record board =
  m_duart :: duart
  m_sdcard :: sdcard
  cpu_irq :: bool
  terminal_txd :: bool
  terminal_rts :: bool
  host_txd :: bool
  host_rts :: bool

datatype board_call =
    Duart_out duart_event
  | Terminal_rts bool
  | Host_rts bool
  | Red_led bool
  | Green_led bool
  | Sd_ss bool
  | Sd_clock bool
  | Sd_clock_done bool
  | Sd_mosi bool
  | Duart_run duart_kont

text \<open>The callbacks of the output port, in the order of the drivers.\<close>

definition outport_cb :: "u8 \<Rightarrow> board_call list" where
  "outport_cb data =
     [Terminal_rts (bit data 0), Host_rts (bit data 1), Red_led (bit data 3), Green_led (bit data 5),
      Sd_ss (\<not> bit data 2), Sd_clock (bit data 4), Sd_mosi (bit data 6)]"

text \<open>The calls the DUART made since it was in the state \<open>d\<close>.\<close>

definition duart_calls :: "duart \<Rightarrow> duart \<Rightarrow> board_call list" where
  "duart_calls d d' = map Duart_out (drop (length (m_out d)) (m_out d'))"

text \<open>The levels of MISO that the card has driven since it was in the state \<open>s\<close>, as calls of IP2.\<close>

definition sdcard_calls :: "sdcard \<Rightarrow> sdcard \<Rightarrow> board_call list" where
  "sdcard_calls s s' = map (\<lambda>m. Duart_run (ip2_prog m done_prog)) (drop (length (sd_miso s)) (sd_miso s'))"

text \<open>\<^verbatim>\<open>spi_clock_w\<close> of the card in two parts: the edge, whose last action drives MISO, and the assignment of the clock
  level after it.\<close>

definition spi_clock_edge :: "bool \<Rightarrow> sdcard \<Rightarrow> sdcard" where
  "spi_clock_edge state s =
     (if m_ss s \<and> state \<noteq> m_clk_state s then (if state then latch_in s else shift_out s) else s)"

definition spi_clock_done :: "bool \<Rightarrow> sdcard \<Rightarrow> sdcard" where
  "spi_clock_done state s = s\<lparr>m_clk_state := state\<rparr>"

lemma spi_clock_w_parts: "spi_clock_w state s = spi_clock_done state (spi_clock_edge state s)"
  by (simp add: spi_clock_w_def spi_clock_edge_def spi_clock_done_def)

text \<open>One call: the board after it, and the calls to push.\<close>

fun exec_call :: "board_call \<Rightarrow> board \<Rightarrow> board \<times> board_call list" where
  "exec_call (Duart_out (Write_irq state)) b = (b\<lparr>cpu_irq := state\<rparr>, [])"
| "exec_call (Duart_out (Write_tx c state)) b =
     (if c = 0 then b\<lparr>terminal_txd := state\<rparr> else b\<lparr>host_txd := state\<rparr>, [])"
| "exec_call (Duart_out (Write_outport data)) b = (b, outport_cb data)"
| "exec_call (Terminal_rts state) b = (b\<lparr>terminal_rts := state\<rparr>, [])"
| "exec_call (Host_rts state) b = (b\<lparr>host_rts := state\<rparr>, [])"
| "exec_call (Red_led state) b = (b, [])"
| "exec_call (Green_led state) b = (b, [])"
| "exec_call (Sd_ss state) b = (b\<lparr>m_sdcard := spi_ss_w state (m_sdcard b)\<rparr>, [])"
| "exec_call (Sd_clock state) b =
     (let s = spi_clock_edge state (m_sdcard b)
      in (b\<lparr>m_sdcard := s\<rparr>, sdcard_calls (m_sdcard b) s @ [Sd_clock_done state]))"
| "exec_call (Sd_clock_done state) b = (b\<lparr>m_sdcard := spi_clock_done state (m_sdcard b)\<rparr>, [])"
| "exec_call (Sd_mosi state) b = (b\<lparr>m_sdcard := spi_mosi_w state (m_sdcard b)\<rparr>, [])"
| "exec_call (Duart_run k) b =
     (case k (m_duart b) of
        Halt \<Rightarrow> (b, [])
      | Act f k' \<Rightarrow> (let d = f (m_duart b)
                     in (b\<lparr>m_duart := d\<rparr>, duart_calls (m_duart b) d @ [Duart_run k'])))"

partial_function (option) run_calls :: "board_call list \<Rightarrow> board \<Rightarrow> board option" where
  "run_calls cs b =
     (case cs of [] \<Rightarrow> Some b
      | c # cs' \<Rightarrow> (case exec_call c b of (b', new) \<Rightarrow> run_calls (new @ cs') b'))"

declare run_calls.simps [code]

text \<open>Accesses to the registers of the DUART. What a read returns is fixed before its calls.\<close>

definition board_duart_write :: "attotime \<Rightarrow> nat \<Rightarrow> u8 \<Rightarrow> board \<Rightarrow> board option" where
  "board_duart_write now offset data b = run_calls [Duart_run (duart_write_prog now offset data done_prog)] b"

definition board_duart_read :: "attotime \<Rightarrow> nat \<Rightarrow> board \<Rightarrow> (u8 \<times> board) option" where
  "board_duart_read now offset b =
     map_option (Pair (fst (duart_read now offset (m_duart b))))
       (run_calls [Duart_run (duart_read_prog now offset done_prog)] b)"

text \<open>The part of \<^verbatim>\<open>machine_reset\<close> both drivers share.\<close>

definition board_machine_reset :: "board \<Rightarrow> board option" where
  "board_machine_reset b = run_calls [Sd_clock False] b"

lemma run_calls_Nil [simp]: "run_calls [] b = Some b"
  by (subst run_calls.simps) simp

lemma run_calls_Cons: "run_calls (c # cs) b = (case exec_call c b of (b', new) \<Rightarrow> run_calls (new @ cs) b')"
  by (subst run_calls.simps) simp

lemma run_calls_Cons_None [simp]: "snd (exec_call c b) = [] \<Longrightarrow> run_calls (c # cs) b = run_calls cs (fst (exec_call c b))"
  by (simp add: run_calls_Cons case_prod_beta)

text \<open>The stack is run from the top: what is on top of \<open>cs'\<close> does not see it.\<close>

lemma run_calls_append:
  assumes "run_calls cs b = Some b'"
  shows "run_calls (cs @ cs') b = run_calls cs' b'"
proof (rule run_calls.raw_induct [where P = "\<lambda>cs b b'. \<forall>cs'. run_calls (cs @ cs') b = run_calls cs' b'", OF _ assms, THEN spec])
  fix run' cs b b'
  assume IH: "\<And>cs b b'. run' cs b = Some b' \<Longrightarrow> \<forall>cs'. run_calls (cs @ cs') b = run_calls cs' b'"
    and r: "(case cs of [] \<Rightarrow> Some b | c # cs' \<Rightarrow> (case exec_call c b of (b', new) \<Rightarrow> run' (new @ cs') b')) = Some b'"
  show "\<forall>cs'. run_calls (cs @ cs') b = run_calls cs' b'"
  proof (cases cs)
    case (Cons c cs1)
    obtain b1 new where e: "exec_call c b = (b1, new)" by fastforce
    then have "run' (new @ cs1) b1 = Some b'" using r Cons by simp
    then show ?thesis using IH [of "new @ cs1" b1 b'] Cons e by (simp add: run_calls_Cons)
  qed (use r in simp)
qed

lemma run_calls_Cons_append: "run_calls [c] b = Some b' \<Longrightarrow> run_calls (c # cs) b = run_calls cs b'"
  using run_calls_append [of "[c]" b b' cs] by simp

section \<open>What the calls change\<close>

lemma bit_4 [simp]: "bit (4 :: u8) k \<longleftrightarrow> k = 2" "bit (4 :: int) k \<longleftrightarrow> k = 2"
  using bit_exp_iff [where 'a = u8, of 2 k] bit_exp_iff [where 'a = int, of 2 k] by auto

lemma ip2_w_fields [simp]:
  "OPCR (ip2_w st d) = OPCR d" "read_inport (ip2_w st d) = read_inport d" "ACR (ip2_w st d) = ACR d" "IMR (ip2_w st d) = IMR d"
  by (auto simp: ip2_w_def ip_change_w_def Let_def)

lemma ip2_w_last: "bit (IP_last_state (ip2_w st d)) k \<longleftrightarrow> (if k = 2 then st else bit (IP_last_state d) k)"
  by (auto simp: ip2_w_def ip_change_w_def Let_def bit_simps dest: bit_imp_le_length)

lemma shift_out_miso: "\<exists>m. sd_miso (shift_out s) = sd_miso s @ [m]"
  by (simp add: shift_out_def Let_def)

lemma latch_in_miso [simp]: "sd_miso (latch_in s) = sd_miso s"
  by (simp add: latch_in_def Let_def)

lemma spi_clock_edge_miso: "\<exists>ms. sd_miso (spi_clock_edge st s) = sd_miso s @ ms"
  using shift_out_miso [of s] by (auto simp: spi_clock_edge_def)

lemma exec_act: "exec_call (Duart_run (act f k)) b = (b\<lparr>m_duart := f (m_duart b)\<rparr>, duart_calls (m_duart b) (f (m_duart b)) @ [Duart_run k])"
  by (simp add: act_def Let_def)

lemma duart_calls_same [simp]: "m_out d' = m_out d \<Longrightarrow> duart_calls d d' = []"
  by (simp add: duart_calls_def)

text \<open>A silent step of the DUART makes no calls.\<close>

lemma run_act_calls:
  "run_calls (Duart_run (act f k) # cs) b =
     run_calls (duart_calls (m_duart b) (f (m_duart b)) @ Duart_run k # cs) (b\<lparr>m_duart := f (m_duart b)\<rparr>)"
  by (simp add: run_calls_Cons exec_act del: exec_call.simps)

lemma run_silent:
  assumes "m_out (f (m_duart b)) = m_out (m_duart b)"
  shows "run_calls (Duart_run (act f k) # cs) b = run_calls (Duart_run k # cs) (b\<lparr>m_duart := f (m_duart b)\<rparr>)"
  using assms by (simp add: run_act_calls)

lemma run_done_prog [simp]: "run_calls (Duart_run done_prog # cs) b = run_calls cs b"
  by (simp add: run_calls_Cons done_prog_def)

text \<open>A call that starts by a test of the chip goes on with the branch.\<close>

lemma run_kont: "k (m_duart b) = k' (m_duart b) \<Longrightarrow> run_calls (Duart_run k # cs) b = run_calls (Duart_run k' # cs) b"
  by (simp add: run_calls_Cons)

section \<open>The calls come to an end\<close>

text \<open>Once the input port interrupt is raised it stays raised, since no call acknowledges it, and the calls of IP2
  are silent: \<open>settled\<close> holds of the calls that then return with the interrupt still raised.\<close>

abbreviation ip_raised :: "board \<Rightarrow> bool" where
  "ip_raised b \<equiv> bit (ISR (m_duart b)) 7"

definition settled :: "board_call list \<Rightarrow> bool" where
  "settled cs \<longleftrightarrow> (\<forall>b. ip_raised b \<longrightarrow> (\<exists>b'. run_calls cs b = Some b' \<and> ip_raised b'))"

definition returning :: "board_call list \<Rightarrow> bool" where
  "returning cs \<longleftrightarrow> (\<forall>b. \<exists>b'. run_calls cs b = Some b')"

lemma settledD: "settled cs \<Longrightarrow> ip_raised b \<Longrightarrow> \<exists>b'. run_calls cs b = Some b' \<and> ip_raised b'"
  by (simp add: settled_def)

lemma settledI: "(\<And>b. ip_raised b \<Longrightarrow> \<exists>b'. run_calls cs b = Some b' \<and> ip_raised b') \<Longrightarrow> settled cs"
  by (simp add: settled_def)

lemma settled_append: "settled cs \<Longrightarrow> settled cs' \<Longrightarrow> settled (cs @ cs')"
  unfolding settled_def using run_calls_append by fastforce

lemma returning_append:
  assumes "returning cs" "returning cs'"
  shows "returning (cs @ cs')"
  unfolding returning_def
proof
  fix b
  obtain b1 where "run_calls cs b = Some b1" using assms(1) by (auto simp: returning_def)
  then have "run_calls (cs @ cs') b = run_calls cs' b1" by (rule run_calls_append)
  then show "\<exists>b'. run_calls (cs @ cs') b = Some b'" using assms(2) by (simp add: returning_def)
qed

lemma settled_list: "(\<And>c. c \<in> set cs \<Longrightarrow> settled [c]) \<Longrightarrow> settled cs"
proof (induction cs)
  case (Cons c cs)
  then show ?case using settled_append [of "[c]" cs] by simp
qed (simp add: settled_def)

lemma returning_list: "(\<And>c. c \<in> set cs \<Longrightarrow> returning [c]) \<Longrightarrow> returning cs"
proof (induction cs)
  case (Cons c cs)
  then show ?case using returning_append [of "[c]" cs] by simp
qed (simp add: returning_def)

text \<open>A step that leaves the interrupt raised, with settled calls, and a settled rest.\<close>

lemma settled_act:
  assumes "settled [Duart_run k]" "\<And>d. bit (ISR d) 7 \<Longrightarrow> bit (ISR (f d)) 7"
    "\<And>d c. bit (ISR d) 7 \<Longrightarrow> c \<in> set (duart_calls d (f d)) \<Longrightarrow> settled [c]"
  shows "settled [Duart_run (act f k)]"
proof (rule settledI)
  fix b assume b: "ip_raised b"
  let ?cs = "duart_calls (m_duart b) (f (m_duart b)) @ [Duart_run k]"
  have "settled ?cs" using settled_append [OF settled_list assms(1)] assms(3) [OF b] by blast
  moreover have "ip_raised (b\<lparr>m_duart := f (m_duart b)\<rparr>)" using b assms(2) by simp
  ultimately show "\<exists>b'. run_calls [Duart_run (act f k)] b = Some b' \<and> ip_raised b'"
    unfolding run_act_calls append_Cons append_Nil by (rule settledD)
qed

lemma settled_done: "settled [Duart_run done_prog]"
  by (simp add: settled_def)

lemma settled_kont:
  assumes "\<And>b :: board. ip_raised b \<Longrightarrow> \<exists>k'. k (m_duart b) = k' (m_duart b) \<and> settled [Duart_run k']"
  shows "settled [Duart_run k]"
proof (rule settledI)
  fix b assume b: "ip_raised b"
  obtain k' where "k (m_duart b) = k' (m_duart b)" "settled [Duart_run k']" using assms [OF b] by blast
  then show "\<exists>b'. run_calls [Duart_run k] b = Some b' \<and> ip_raised b'" using run_kont [of k b k' "[]"] settledD [OF _ b] by simp
qed

lemma set_ISR_prog_raised: "bit (ISR d) 7 \<Longrightarrow> set_ISR_prog INT_INPUT_PORT_CHANGE k d = k d"
  by (auto simp: set_ISR_prog_def mask_bits bit_simps)

lemma settled_ip_store: "settled [Duart_run k] \<Longrightarrow> settled [Duart_run (ip_store_prog p k)]"
  unfolding ip_store_prog_def by (rule settled_act) auto

lemma settled_ip_raise: "settled [Duart_run k] \<Longrightarrow> settled [Duart_run (ip_raise_prog m k)]"
  by (rule settled_kont) (auto simp: ip_raise_prog_def set_ISR_prog_raised)

lemma settled_ip2: "settled [Duart_run (ip2_prog m done_prog)]"
proof (rule settled_kont)
  fix b :: board
  let ?n = "(IP_last_state (m_duart b) AND NOT (push_bit 2 1)) OR (if m then push_bit 2 1 else 0)"
  let ?k1 = "ip_store_prog ?n done_prog"
  let ?k2 = "act (\<lambda>d. d\<lparr>IPCR := ((IPCR d AND NOT 0x0f) OR (?n AND 0x0f)) OR push_bit 4 (push_bit 2 1)\<rparr>) (ip_raise_prog (push_bit 2 1) ?k1)"
  have "ip2_prog m done_prog (m_duart b) = (if ?n \<noteq> IP_last_state (m_duart b) then ?k2 else ?k1) (m_duart b)"
    unfolding ip2_prog_def ip_change_prog_def Let_def by (rule if_distrib [symmetric, where f = "\<lambda>k. k (m_duart b)"])
  moreover have 1: "settled [Duart_run ?k1]" by (rule settled_ip_store [OF settled_done])
  moreover have "settled [Duart_run ?k2]" by (rule settled_act [OF settled_ip_raise [OF 1]]) auto
  ultimately show "\<exists>k'. ip2_prog m done_prog (m_duart b) = k' (m_duart b) \<and> settled [Duart_run k']"
    by (intro exI [of _ "if ?n \<noteq> IP_last_state (m_duart b) then ?k2 else ?k1"] conjI) (simp_all only: if_True if_False split: if_split, simp)
qed

lemma settled_clock: "settled [Sd_clock st]"
proof (rule settledI)
  fix b assume b: "ip_raised b"
  let ?s = "spi_clock_edge st (m_sdcard b)"
  have "settled (sdcard_calls (m_sdcard b) ?s @ [Sd_clock_done st])"
    by (rule settled_append [OF settled_list]) (auto simp: sdcard_calls_def settled_ip2, simp add: settled_def)
  then show "\<exists>b'. run_calls [Sd_clock st] b = Some b' \<and> ip_raised b'"
    using settledD [of _ "b\<lparr>m_sdcard := ?s\<rparr>"] b by (simp add: run_calls_Cons Let_def)
qed

lemma settled_outport: "settled (outport_cb v)"
proof (rule settled_list)
  fix c assume "c \<in> set (outport_cb v)"
  then show "settled [c]" using settled_clock by (auto simp: outport_cb_def settled_def)
qed

lemma settled_out: "settled [Duart_out e]"
proof (cases e)
  case (Write_outport v)
  then show ?thesis using settled_outport [of v] by (simp add: settled_def run_calls_Cons)
qed (auto simp: settled_def)

lemma settled_duart_act:
  "settled [Duart_run k] \<Longrightarrow> (\<And>d. bit (ISR d) 7 \<Longrightarrow> bit (ISR (f d)) 7) \<Longrightarrow> settled [Duart_run (act f k)]"
  by (rule settled_act) (auto simp: duart_calls_def settled_out)

lemma settled_update_interrupts: "settled [Duart_run k] \<Longrightarrow> settled [Duart_run (update_interrupts_prog k)]"
  unfolding update_interrupts_prog_def by (intro settled_duart_act) (auto simp: clear_read_vector_def)

text \<open>With the interrupt not yet raised, a call of IP2 raises it before it makes any call.\<close>

lemma returningD: "returning cs \<Longrightarrow> \<exists>b'. run_calls cs b = Some b'"
  by (simp add: returning_def)

lemma returningI: "(\<And>b. \<exists>b'. run_calls cs b = Some b') \<Longrightarrow> returning cs"
  by (simp add: returning_def)

lemma returning_kont:
  assumes "\<And>b :: board. \<exists>k'. k (m_duart b) = k' (m_duart b) \<and> returning [Duart_run k']"
  shows "returning [Duart_run k]"
proof (rule returningI)
  fix b :: board
  obtain k' where "k (m_duart b) = k' (m_duart b)" "returning [Duart_run k']" using assms [of b] by blast
  then show "\<exists>b'. run_calls [Duart_run k] b = Some b'" using run_kont [of k b k' "[]"] returningD by simp
qed

lemma returning_act:
  assumes "returning [Duart_run k]" "\<And>d c. c \<in> set (duart_calls d (f d)) \<Longrightarrow> returning [c]"
  shows "returning [Duart_run (act f k)]"
proof (rule returningI)
  fix b :: board
  have "returning (duart_calls (m_duart b) (f (m_duart b)) @ [Duart_run k])"
    using returning_append [OF returning_list assms(1)] assms(2) by blast
  then show "\<exists>b'. run_calls [Duart_run (act f k)] b = Some b'"
    unfolding run_act_calls append_Cons append_Nil by (rule returningD)
qed

lemma returning_set_ISR:
  assumes "settled [Duart_run k]"
  shows "\<exists>b'. run_calls [Duart_run (set_ISR_prog INT_INPUT_PORT_CHANGE k)] b = Some b'"
proof (cases "bit (ISR (m_duart b)) 7")
  case True
  then have "run_calls [Duart_run (set_ISR_prog INT_INPUT_PORT_CHANGE k)] b = run_calls [Duart_run k] b"
    by (intro run_kont set_ISR_prog_raised)
  then show ?thesis using settledD [OF assms True] by auto
next
  case False
  let ?f = "\<lambda>d. d\<lparr>ISR := ISR d OR INT_INPUT_PORT_CHANGE\<rparr>"
  have "set_ISR_prog INT_INPUT_PORT_CHANGE k (m_duart b) = act ?f (update_interrupts_prog k) (m_duart b)"
    using False by (auto simp: set_ISR_prog_def mask_bits)
  then have "run_calls [Duart_run (set_ISR_prog INT_INPUT_PORT_CHANGE k)] b = run_calls [Duart_run (act ?f (update_interrupts_prog k))] b"
    by (rule run_kont)
  also have "\<dots> = run_calls [Duart_run (update_interrupts_prog k)] (b\<lparr>m_duart := ?f (m_duart b)\<rparr>)" by (rule run_silent) simp
  finally have "run_calls [Duart_run (set_ISR_prog INT_INPUT_PORT_CHANGE k)] b =
    run_calls [Duart_run (update_interrupts_prog k)] (b\<lparr>m_duart := ?f (m_duart b)\<rparr>)" .
  moreover have "ip_raised (b\<lparr>m_duart := ?f (m_duart b)\<rparr>)" by (simp add: bit_simps)
  ultimately show ?thesis using settledD [OF settled_update_interrupts [OF assms], of "b\<lparr>m_duart := ?f (m_duart b)\<rparr>"] by auto
qed

lemma returning_ip_store: "returning [Duart_run k] \<Longrightarrow> returning [Duart_run (ip_store_prog p k)]"
  unfolding ip_store_prog_def by (rule returning_act) auto

lemma returning_done: "returning [Duart_run done_prog]"
  by (simp add: returning_def)

lemma returning_ip_raise:
  assumes "settled [Duart_run k]" "returning [Duart_run k]"
  shows "returning [Duart_run (ip_raise_prog m k)]"
proof (rule returning_kont)
  fix b :: board
  show "\<exists>k'. ip_raise_prog m k (m_duart b) = k' (m_duart b) \<and> returning [Duart_run k']"
    using returning_set_ISR [OF assms(1)] assms(2) by (auto simp: ip_raise_prog_def intro!: returningI)
qed

lemma returning_ip2: "returning [Duart_run (ip2_prog m done_prog)]"
proof (rule returning_kont)
  fix b :: board
  let ?n = "(IP_last_state (m_duart b) AND NOT (push_bit 2 1)) OR (if m then push_bit 2 1 else 0)"
  let ?k1 = "ip_store_prog ?n done_prog"
  let ?k2 = "act (\<lambda>d. d\<lparr>IPCR := ((IPCR d AND NOT 0x0f) OR (?n AND 0x0f)) OR push_bit 4 (push_bit 2 1)\<rparr>) (ip_raise_prog (push_bit 2 1) ?k1)"
  have "ip2_prog m done_prog (m_duart b) = (if ?n \<noteq> IP_last_state (m_duart b) then ?k2 else ?k1) (m_duart b)"
    unfolding ip2_prog_def ip_change_prog_def Let_def by (rule if_distrib [symmetric, where f = "\<lambda>k. k (m_duart b)"])
  moreover have 1: "returning [Duart_run ?k1]" by (rule returning_ip_store [OF returning_done])
  moreover have "returning [Duart_run ?k2]"
    by (rule returning_act [OF returning_ip_raise [OF settled_ip_store [OF settled_done] 1]]) auto
  ultimately show "\<exists>k'. ip2_prog m done_prog (m_duart b) = k' (m_duart b) \<and> returning [Duart_run k']"
    by (intro exI [of _ "if ?n \<noteq> IP_last_state (m_duart b) then ?k2 else ?k1"] conjI) (simp_all only: if_True if_False split: if_split, simp)
qed

lemma returning_clock: "returning [Sd_clock st]"
proof (rule returningI)
  fix b :: board
  let ?s = "spi_clock_edge st (m_sdcard b)"
  have "returning (sdcard_calls (m_sdcard b) ?s @ [Sd_clock_done st])"
    by (rule returning_append [OF returning_list]) (auto simp: sdcard_calls_def returning_ip2, simp add: returning_def)
  then show "\<exists>b'. run_calls [Sd_clock st] b = Some b'"
    using returningD [of _ "b\<lparr>m_sdcard := ?s\<rparr>"] by (simp add: run_calls_Cons Let_def)
qed

lemma returning_out: "returning [Duart_out e]"
proof (cases e)
  case (Write_outport v)
  have "returning (outport_cb v)"
  proof (rule returning_list)
    fix c assume "c \<in> set (outport_cb v)"
    then show "returning [c]" using returning_clock by (auto simp: outport_cb_def returning_def)
  qed
  then show ?thesis using Write_outport by (simp add: returning_def run_calls_Cons)
qed (auto simp: returning_def)

text \<open>Whatever program the chip runs.\<close>

lemma returning_prog: "k (m_duart b) = p \<Longrightarrow> \<exists>b'. run_calls [Duart_run k] b = Some b'"
proof (induction p arbitrary: k b)
  case (Act f k')
  let ?cs = "duart_calls (m_duart b) (f (m_duart b))" and ?b = "b\<lparr>m_duart := f (m_duart b)\<rparr>"
  have "returning ?cs" by (rule returning_list) (auto simp: duart_calls_def returning_out)
  then obtain b1 where "run_calls ?cs ?b = Some b1" using returningD by blast
  then have "run_calls (?cs @ [Duart_run k']) ?b = run_calls [Duart_run k'] b1" by (rule run_calls_append)
  moreover have "\<exists>b'. run_calls [Duart_run k'] b1 = Some b'" using Act.IH [OF rangeI refl] .
  ultimately show ?case using run_calls_Cons [of "Duart_run k" "[]" b] Act.prems by (simp add: Let_def)
qed (simp add: run_calls_Cons)

lemma returning_call: "returning [c]"
proof (cases c)
  case (Duart_run k)
  then show ?thesis using returning_prog by (simp add: returning_def)
qed (auto simp: returning_def returning_out [unfolded returning_def] returning_clock [unfolded returning_def])

lemma run_calls_returns: "\<exists>b'. run_calls cs b = Some b'"
  using returningD [OF returning_list] returning_call by blast

lemma board_duart_write_returns: "\<exists>b'. board_duart_write now offset data b = Some b'"
  unfolding board_duart_write_def by (rule run_calls_returns)

lemma board_duart_read_returns: "\<exists>v b'. board_duart_read now offset b = Some (v, b')"
  unfolding board_duart_read_def using run_calls_returns by fastforce

lemma board_machine_reset_returns: "\<exists>b'. board_machine_reset b = Some b'"
  unfolding board_machine_reset_def by (rule run_calls_returns)

text \<open>C25. The callbacks between the DUART and the SD card come to an end. Whatever the DUART's registers and the state of the card,
  the nested calls that a register access of the DUART sets off (output port, SD card pins, MISO, input pin IP2, interrupt and output
  port again, with the clock level of the card and the register IP of the DUART not yet updated) are finitely many, so every register
  access of a board and its machine reset return.\<close>

theorem board_access_returns:
  "(\<exists>b'. board_duart_write now offset data b = Some b') \<and> (\<exists>v b'. board_duart_read now offset b = Some (v, b')) \<and>
   (\<exists>b'. board_machine_reset b = Some b')"
  using board_duart_write_returns board_duart_read_returns board_machine_reset_returns by blast

end
