(* ===== verification/Board_Spi.thy ===== *)
theory Board_Spi
  imports Board
begin

unbundle bit_operations_syntax

text \<open>
  The SD card as a program on the board sees it: register accesses of the DUART that bit-bang the SPI bus are
  refined to the pin sequences of the card, and the contract \<open>block_device\<close> is interpreted on them.
\<close>

section \<open>The SPI bus behind the output port\<close>

text \<open>The output port bits that carry the bus: chip select on 2, clock on 4, data out on 6. The port drives the complement of its
  register, and the chip select is inverted once more.\<close>

definition spi_wired :: "board \<Rightarrow> bool" where
  "spi_wired b \<longleftrightarrow> OPCR (m_duart b) AND 0xf0 = 0 \<and> read_inport (m_duart b) = None \<and>
     m_ss (m_sdcard b) = bit (OPR (m_duart b)) 2 \<and> m_clk_state (m_sdcard b) = (\<not> bit (OPR (m_duart b)) 4) \<and>
     m_in_bit (m_sdcard b) = (\<not> bit (OPR (m_duart b)) 6)"

text \<open>IP2 follows MISO once the card has driven it.\<close>

definition miso_wired :: "board \<Rightarrow> bool" where
  "miso_wired b \<longleftrightarrow> (sd_miso (m_sdcard b) \<noteq> [] \<longrightarrow> bit (IP_last_state (m_duart b)) 2 = last (sd_miso (m_sdcard b)))"

lemma same_level [simp]:
  "spi_ss_w (m_ss s) s = s" "spi_clock_w (m_clk_state s) s = s" "spi_mosi_w (m_in_bit s) s = s"
  by (cases s; simp add: spi_ss_w_def spi_clock_w_def spi_mosi_w_def)+

lemma ip2_w_quiet:
  assumes "OPCR d AND 0xf0 = 0"
  shows "OPR (ip2_w st d) = OPR d"
  using assms
  by (auto simp: ip2_w_def ip_change_w_def Let_def set_ISR_bits_def update_interrupts_def update_interrupts_base_def
      update_irq_line_def emit_def)

lemma run_irq_calls: "\<exists>irq. run_calls (map Duart_out (map Write_irq es) @ cs) b = run_calls cs (b\<lparr>cpu_irq := irq\<rparr>)"
proof (induction es arbitrary: b)
  case Nil
  have "b\<lparr>cpu_irq := cpu_irq b\<rparr> = b" by simp
  then show ?case by (metis append_Nil list.simps(8))
next
  case (Cons e es)
  then obtain irq where "run_calls (map Duart_out (map Write_irq es) @ cs) (b\<lparr>cpu_irq := e\<rparr>) = run_calls cs (b\<lparr>cpu_irq := e, cpu_irq := irq\<rparr>)"
    by blast
  then show ?case by auto
qed

text \<open>Programs of the DUART whose calls are changes of the interrupt line only: nothing comes back to the chip, so on the
  board they do what they do alone.\<close>

primrec irq_only :: "duart_prog \<Rightarrow> duart \<Rightarrow> bool" where
  "irq_only Halt d = True"
| "irq_only (Act f k) d = ((\<exists>es. m_out (f d) = m_out d @ map Write_irq es) \<and> irq_only (k (f d)) (f d))"

lemma irq_only_act: "irq_only (act f k d) d = ((\<exists>es. m_out (f d) = m_out d @ map Write_irq es) \<and> irq_only (k (f d)) (f d))"
  by (simp add: act_def)

lemma run_irq_only:
  "k (m_duart b) = p \<Longrightarrow> irq_only p (m_duart b) \<Longrightarrow>
   \<exists>irq. run_calls (Duart_run k # cs) b = run_calls cs (b\<lparr>m_duart := run_prog p (m_duart b), cpu_irq := irq\<rparr>)"
proof (induction p arbitrary: k b)
  case Halt
  have "run_calls (Duart_run k # cs) b = run_calls cs b" using Halt by (simp add: run_calls_Cons)
  then show ?case by (auto intro: exI [of _ "cpu_irq b"])
next
  case (Act f k')
  let ?d = "f (m_duart b)"
  obtain es where es: "m_out ?d = m_out (m_duart b) @ map Write_irq es" and r: "irq_only (k' ?d) ?d" using Act.prems by auto
  obtain irq where "run_calls (map Duart_out (map Write_irq es) @ Duart_run k' # cs) (b\<lparr>m_duart := ?d\<rparr>) =
      run_calls (Duart_run k' # cs) (b\<lparr>m_duart := ?d, cpu_irq := irq\<rparr>)"
    using run_irq_calls by blast
  moreover have "\<exists>irq'. run_calls (Duart_run k' # cs) (b\<lparr>m_duart := ?d, cpu_irq := irq\<rparr>) =
      run_calls cs (b\<lparr>m_duart := ?d, cpu_irq := irq, m_duart := run_prog (k' ?d) ?d, cpu_irq := irq'\<rparr>)"
    using Act.IH [of "k' ?d" k' "b\<lparr>m_duart := ?d, cpu_irq := irq\<rparr>"] r by simp
  ultimately show ?case using Act.prems es by (simp add: run_calls_Cons Let_def duart_calls_def)
qed

lemma irq_line_calls:
  "OPCR d AND 0xf0 = 0 \<Longrightarrow> \<exists>es. m_out (update_interrupts_base d) = m_out d @ map Write_irq es"
  by (auto simp: update_interrupts_base_def update_irq_line_def emit_def intro: exI [of _ "[]"])
    (auto intro: exI [of _ "[True]"] exI [of _ "[False]"])

lemma silent_calls: "m_out d' = m_out d \<Longrightarrow> \<exists>es. m_out d' = m_out d @ map Write_irq es"
  by (rule exI [of _ "[]"]) simp

text \<open>A call of IP2 is of this kind when no output port pin mirrors an interrupt, or when the input port interrupt is
  already raised.\<close>

definition calm :: "duart \<Rightarrow> bool" where
  "calm d \<longleftrightarrow> OPCR d AND 0xf0 = 0 \<or> bit (ISR d) 7"

lemma calm_ip2_w [simp]: "calm d \<Longrightarrow> calm (ip2_w st d)"
  by (auto simp: calm_def ip2_w_def ip_change_w_def Let_def set_ISR_bits_def mask_bits bit_simps)

lemma irq_only_ip2:
  assumes "calm d"
  shows "irq_only (ip2_prog m done_prog d) d"
proof -
  have s: "irq_only (ip_store_prog p done_prog d) d" for p d
    by (simp add: ip_store_prog_def irq_only_act silent_calls done_prog_def)
  have "irq_only (ip_raise_prog x (ip_store_prog p done_prog) d) d" if "calm d" for x p d
    using that s irq_line_calls [of "d\<lparr>ISR := ISR d OR INT_INPUT_PORT_CHANGE\<rparr>"] set_ISR_prog_raised [of d]
    by (cases "bit (ISR d) 7")
      (simp_all add: calm_def ip_raise_prog_def set_ISR_prog_def update_interrupts_prog_def irq_only_act silent_calls clear_read_vector_def)
  then show ?thesis using s assms by (simp add: ip2_prog_def ip_change_prog_def Let_def irq_only_act silent_calls calm_def)
qed

lemma run_ip2_calls:
  assumes "calm (m_duart b)"
  shows "\<exists>irq. run_calls (map (\<lambda>m. Duart_run (ip2_prog m done_prog)) ms @ cs) b =
    run_calls cs (b\<lparr>m_duart := fold ip2_w ms (m_duart b), cpu_irq := irq\<rparr>)"
  using assms
proof (induction ms arbitrary: b)
  case Nil
  have "b\<lparr>m_duart := m_duart b, cpu_irq := cpu_irq b\<rparr> = b" by simp
  then show ?case by (metis append_Nil fold_simps(1) list.simps(8))
next
  case (Cons m ms)
  let ?ip2 = "\<lambda>m. Duart_run (ip2_prog m done_prog)"
  let ?b = "b\<lparr>m_duart := ip2_w m (m_duart b)\<rparr>"
  have p: "run_prog (ip2_prog m done_prog (m_duart b)) (m_duart b) = ip2_w m (m_duart b)"
    by (simp add: ip2_prog_def ip_change_prog_run ip2_w_def)
  obtain irq where "run_calls (map ?ip2 (m # ms) @ cs) b = run_calls (map ?ip2 ms @ cs) (?b\<lparr>cpu_irq := irq\<rparr>)"
    using run_irq_only [where k = "ip2_prog m done_prog" and cs = "map ?ip2 ms @ cs", OF refl irq_only_ip2 [OF Cons.prems]] unfolding p by auto
  moreover have "\<exists>irq'. run_calls (map ?ip2 ms @ cs) (?b\<lparr>cpu_irq := irq\<rparr>) =
      run_calls cs (?b\<lparr>cpu_irq := irq, m_duart := fold ip2_w ms (ip2_w m (m_duart b)), cpu_irq := irq'\<rparr>)"
    using Cons.IH [of "?b\<lparr>cpu_irq := irq\<rparr>"] Cons.prems by simp
  ultimately show ?case by auto
qed

lemma spi_clock_done_miso [simp]: "sd_miso (spi_clock_done st s) = sd_miso s"
  by (simp add: spi_clock_done_def)

lemma spi_clock_w_miso: "\<exists>ms. sd_miso (spi_clock_w st s) = sd_miso s @ ms"
  using spi_clock_edge_miso [of st s] by (simp add: spi_clock_w_parts)

lemma run_outport:
  fixes v :: u8 and b :: board
  assumes "calm (m_duart b)"
  defines "s \<equiv> spi_ss_w (\<not> bit v 2) (m_sdcard b)"
  defines "s' \<equiv> spi_clock_w (bit v 4) s"
  shows "\<exists>irq. run_calls (outport_cb v @ cs) b = run_calls cs (b\<lparr>terminal_rts := bit v 0, host_rts := bit v 1, m_sdcard := spi_mosi_w (bit v 6) s',
    m_duart := fold ip2_w (drop (length (sd_miso s)) (sd_miso s')) (m_duart b), cpu_irq := irq\<rparr>)"
proof -
  let ?e = "spi_clock_edge (bit v 4) s"
  let ?b = "b\<lparr>terminal_rts := bit v 0, host_rts := bit v 1, m_sdcard := ?e\<rparr>"
  let ?ms = "drop (length (sd_miso s)) (sd_miso ?e)" and ?cs = "[Sd_clock_done (bit v 4), Sd_mosi (bit v 6)] @ cs"
  have e: "s' = spi_clock_done (bit v 4) ?e" unfolding s'_def by (rule spi_clock_w_parts)
  have "run_calls (outport_cb v @ cs) b = run_calls (map (\<lambda>m. Duart_run (ip2_prog m done_prog)) ?ms @ ?cs) ?b"
    by (simp add: outport_cb_def run_calls_Cons Let_def s_def sdcard_calls_def)
  moreover obtain irq where "run_calls (map (\<lambda>m. Duart_run (ip2_prog m done_prog)) ?ms @ ?cs) ?b =
      run_calls ?cs (?b\<lparr>m_duart := fold ip2_w ?ms (m_duart b), cpu_irq := irq\<rparr>)"
    using run_ip2_calls [of ?b ?ms ?cs] assms(1) by auto
  moreover have "run_calls ?cs b2 = run_calls cs (b2\<lparr>m_sdcard := spi_mosi_w (bit v 6) (spi_clock_done (bit v 4) (m_sdcard b2))\<rparr>)" for b2
    by (simp add: run_calls_Cons)
  ultimately show ?thesis unfolding e by (intro exI [of _ irq]) (cases b; simp)
qed

lemma fold_ip2_w [simp]: "OPCR (fold ip2_w ms d) = OPCR d" "read_inport (fold ip2_w ms d) = read_inport d"
  by (induction ms arbitrary: d) auto

lemma fold_ip2_w_OPR: "OPCR d AND 0xf0 = 0 \<Longrightarrow> OPR (fold ip2_w ms d) = OPR d"
  by (induction ms arbitrary: d) (auto simp: ip2_w_quiet)

lemma fold_ip2_w_last: "bit (IP_last_state (fold ip2_w ms d)) 2 = (if ms = [] then bit (IP_last_state d) 2 else last ms)"
  by (induction ms arbitrary: d) (auto simp: ip2_w_last)

lemma spi_clock_w_ss [simp]: "m_ss (spi_clock_w c s) = m_ss s" "m_clk_state (spi_clock_w c s) = c"
  by (simp_all add: spi_clock_w_def latch_in_def shift_out_def Let_def)

lemma spi_ss_w_fields [simp]: "m_ss (spi_ss_w c s) = c" "m_clk_state (spi_ss_w c s) = m_clk_state s" "sd_miso (spi_ss_w c s) = sd_miso s"
  by (simp_all add: spi_ss_w_def)

text \<open>With an output port pin that mirrors an interrupt and with the change interrupt of IP2 on, a falling clock edge on which MISO
  changes shifts the card twice: the call of IP2 drives the output port again while the card has not yet stored the new clock
  level.\<close>

lemma mirrored_port_calls:
  assumes "OPCR d AND 0xf0 = 0x80"
  shows "\<exists>es v. m_out (update_interrupts_base d) = m_out d @ map Write_irq es @ [Write_outport v] \<and>
    bit v 2 = (\<not> bit (OPR d) 2) \<and> bit v 4 = (\<not> bit (OPR d) 4)"
proof -
  have "\<exists>es. m_out (update_irq_line d) = m_out d @ map Write_irq es"
    by (auto simp: update_irq_line_def emit_def intro: exI [of _ "[]"]) (auto intro: exI [of _ "[True]"] exI [of _ "[False]"])
  moreover have "OPR (update_irq_line d) = OPR d" "OPCR (update_irq_line d) = OPCR d" by (simp_all add: update_irq_line_def emit_def)
  ultimately obtain es where es: "m_out (update_irq_line d) = m_out d @ map Write_irq es" "OPR (update_irq_line d) = OPR d" "OPCR (update_irq_line d) = OPCR d"
    by blast
  have b: "bit (OPCR d) k = (k = 7)" if "k = 4 \<or> k = 5 \<or> k = 6 \<or> k = 7" for k
    using arg_cong [OF assms, of "\<lambda>w. bit w k"] that by (auto simp: bit_simps)
  let ?d = "update_irq_line d"
  let ?e = "opr_mirror 7 4 0x80 ?d"
  have m: "opr_mirror 4 1 0x10 ?d = ?d" "opr_mirror 5 5 0x20 ?d = ?d" "opr_mirror 6 0 0x40 ?d = ?d"
    using b by (simp_all add: opr_mirror_def es(3) BIT_eq_0_iff)
  have u: "update_interrupts_base d = write_outport ?e"
    unfolding update_interrupts_base_def Let_def es(3) assms m by simp
  have "m_out ?e = m_out ?d" "bit (OPR ?e) 2 = bit (OPR d) 2" "bit (OPR ?e) 4 = bit (OPR d) 4"
    by (simp_all add: opr_mirror_def es(2) bit_simps)
  then show ?thesis
    unfolding u by (intro exI [of _ es] exI [of _ "OPR ?e XOR 0xff"]) (simp add: write_outport_def emit_def es(1) bit_simps)
qed

lemma run_clock_done: "run_calls [Sd_clock_done st] b = Some (b\<lparr>m_sdcard := spi_clock_done st (m_sdcard b)\<rparr>)"
  by (simp add: run_calls_Cons)

lemma falling_edge_shifts_twice:
  fixes b :: board
  defines "c \<equiv> shift_out (m_sdcard b)"
  assumes "m_ss (m_sdcard b)" "m_clk_state (m_sdcard b)" "OPCR (m_duart b) AND 0xf0 = 0x80" "ACR (m_duart b) AND 4 \<noteq> 0"
    "\<not> bit (ISR (m_duart b)) 7" "bit (OPR (m_duart b)) 2" "bit (OPR (m_duart b)) 4"
    "bit (IP_last_state (m_duart b)) 2 \<noteq> last (sd_miso c)"
  shows "\<exists>b' m. run_calls [Sd_clock False] b = Some b' \<and> m_sdcard b' = spi_clock_done False (spi_mosi_w m (spi_clock_done False (shift_out c)))"
proof -
  let ?m = "last (sd_miso c)" and ?e = "[Sd_clock_done False]" and ?d = "m_duart b"
  let ?n = "(IP_last_state ?d AND NOT 4) OR (if ?m then 4 else 0)"
  let ?d1 = "?d\<lparr>IPCR := ((IPCR ?d AND NOT 0x0f) OR (?n AND 0x0f)) OR 0x40\<rparr>"
  let ?d2 = "?d1\<lparr>ISR := ISR ?d1 OR 0x80\<rparr>" and ?k = "act clear_read_vector (ip_store_prog ?n done_prog)"
  let ?b = "b\<lparr>m_sdcard := c\<rparr>" and ?d3 = "update_interrupts_base ?d2"
  have c: "m_ss c" "m_clk_state c" using assms(2,3) by (simp_all add: c_def shift_out_def load_out_def Let_def)
  have "bit ?n 2 = ?m" by (simp add: bit_simps)
  then have "?n \<noteq> IP_last_state ?d" using assms(9) by metis
  then have p: "ip2_prog ?m done_prog ?d = act (\<lambda>d. d\<lparr>IPCR := ((IPCR d AND NOT 0x0f) OR (?n AND 0x0f)) OR 0x40\<rparr>) (ip_raise_prog 4 (ip_store_prog ?n done_prog)) ?d"
    by (simp add: ip2_prog_def ip_change_prog_def Let_def)
  have q: "ip_raise_prog 4 (ip_store_prog ?n done_prog) ?d1 = act (\<lambda>d. d\<lparr>ISR := ISR d OR 0x80\<rparr>) (update_interrupts_prog (ip_store_prog ?n done_prog)) ?d1"
    using assms(5,6) by (simp add: ip_raise_prog_def set_ISR_prog_def mask_bits)
  obtain m where m: "sd_miso c = sd_miso (m_sdcard b) @ [m]" using shift_out_miso c_def by blast
  then have "run_calls [Sd_clock False] b = run_calls (Duart_run (ip2_prog ?m done_prog) # ?e) ?b"
    using assms(2,3) by (simp add: run_calls_Cons spi_clock_edge_def sdcard_calls_def c_def Let_def)
  also have "\<dots> = run_calls (Duart_run (ip_raise_prog 4 (ip_store_prog ?n done_prog)) # ?e) (?b\<lparr>m_duart := ?d1\<rparr>)"
    using p by (simp add: run_calls_Cons act_def Let_def)
  also have "\<dots> = run_calls (Duart_run (update_interrupts_prog (ip_store_prog ?n done_prog)) # ?e) (?b\<lparr>m_duart := ?d2\<rparr>)"
    using q by (simp add: run_calls_Cons act_def Let_def)
  also have "\<dots> = run_calls (duart_calls ?d2 ?d3 @ Duart_run ?k # ?e) (?b\<lparr>m_duart := ?d3\<rparr>)"
    unfolding update_interrupts_prog_def run_act_calls by simp
  finally have r1: "run_calls [Sd_clock False] b = run_calls (duart_calls ?d2 ?d3 @ Duart_run ?k # ?e) (?b\<lparr>m_duart := ?d3\<rparr>)" .
  obtain es v where v: "duart_calls ?d2 ?d3 = map Duart_out (map Write_irq es) @ [Duart_out (Write_outport v)]" "\<not> bit v 2" "\<not> bit v 4"
    using mirrored_port_calls [of ?d2] assms(4,7,8) by (auto simp: duart_calls_def)
  obtain irq where "run_calls [Sd_clock False] b = run_calls (outport_cb v @ Duart_run ?k # ?e) (?b\<lparr>m_duart := ?d3, cpu_irq := irq\<rparr>)"
    using run_irq_calls [of es "Duart_out (Write_outport v) # Duart_run ?k # ?e" "?b\<lparr>m_duart := ?d3\<rparr>"] r1 v(1) by (auto simp: run_calls_Cons)
  moreover have "calm ?d3" by (simp add: calm_def bit_simps)
  moreover have "spi_clock_w (bit v 4) (spi_ss_w (\<not> bit v 2) c) = spi_clock_done False (shift_out c)"
    using v c same_level(1) [of c] by (simp add: spi_clock_w_def spi_clock_done_def)
  ultimately obtain b2 where b2: "run_calls [Sd_clock False] b = run_calls (Duart_run ?k # ?e) b2" "m_sdcard b2 = spi_mosi_w (bit v 6) (spi_clock_done False (shift_out c))"
    using run_outport [of "?b\<lparr>m_duart := ?d3, cpu_irq := irq\<rparr>" v "Duart_run ?k # ?e"] by auto
  have "run_calls (Duart_run ?k # ?e) b2 = run_calls (Duart_run (ip_store_prog ?n done_prog) # ?e) (b2\<lparr>m_duart := clear_read_vector (m_duart b2)\<rparr>)"
    by (rule run_silent) (simp add: clear_read_vector_def)
  also have "\<dots> = run_calls (Duart_run done_prog # ?e) (b2\<lparr>m_duart := (clear_read_vector (m_duart b2))\<lparr>IP_last_state := ?n\<rparr>\<rparr>)"
    unfolding ip_store_prog_def by (subst run_silent) simp_all
  finally have "run_calls [Sd_clock False] b = run_calls ?e (b2\<lparr>m_duart := (clear_read_vector (m_duart b2))\<lparr>IP_last_state := ?n\<rparr>\<rparr>)"
    unfolding b2(1) run_done_prog .
  then show ?thesis unfolding run_clock_done by (auto simp: b2(2))
qed

text \<open>A write of the output port set or reset register moves the three lines of the bus.\<close>

definition opr_write :: "nat \<Rightarrow> u8 \<Rightarrow> u8 \<Rightarrow> u8" where
  "opr_write r m opr = (if r = 0xe then opr OR m else opr AND NOT m)"

lemma duart_write_opr:
  assumes "r = 0xe \<or> r = 0xf"
  shows "duart_write_prog now r m k d = act (write_base now r m) k d"
    "write_base now r m d = write_outport (d\<lparr>OPR := opr_write r m (OPR d)\<rparr>)"
  using assms by (auto simp: duart_write_prog_def write_mc68681_prog_def write_base_prog_def write_base_def opr_write_def)

lemma board_opr_write:
  fixes b :: board and m :: u8 and r :: nat
  assumes "spi_wired b" "r = 0xe \<or> r = 0xf"
  defines "opr \<equiv> opr_write r m (OPR (m_duart b))"
  shows "\<exists>b'. board_duart_write now r m b = Some b' \<and>
    m_sdcard b' = spi_mosi_w (\<not> bit opr 6) (spi_clock_w (\<not> bit opr 4) (spi_ss_w (bit opr 2) (m_sdcard b))) \<and>
    OPR (m_duart b') = opr \<and> spi_wired b' \<and> (miso_wired b \<longrightarrow> miso_wired b')"
proof -
  let ?v = "opr XOR 0xff" and ?d = "write_outport ((m_duart b)\<lparr>OPR := opr\<rparr>)"
  have v: "bit ?v k = (\<not> bit opr k)" if "k < 8" for k using that by (simp add: bit_simps)
  have d: "duart_write_prog now r m done_prog (m_duart b) = act (write_base now r m) done_prog (m_duart b)"
    and w: "write_base now r m (m_duart b) = ?d" using duart_write_opr [OF assms(2)] by (simp_all add: opr_def)
  have o: "OPCR ?d AND 0xf0 = 0" using assms(1) by (simp add: spi_wired_def)
  then have c: "calm ?d" by (simp add: calm_def)
  let ?s = "spi_ss_w (bit opr 2) (m_sdcard b)" and ?ms = "\<lambda>s s'. drop (length (sd_miso s)) (sd_miso s')"
  let ?s' = "spi_clock_w (\<not> bit opr 4) ?s"
  have "board_duart_write now r m b = run_calls [Duart_run (act (write_base now r m) done_prog)] b"
    unfolding board_duart_write_def by (rule run_kont) (rule d)
  also have "\<dots> = run_calls (outport_cb ?v @ [Duart_run done_prog]) (b\<lparr>m_duart := ?d\<rparr>)"
    unfolding run_act_calls w by (simp add: duart_calls_def run_calls_Cons)
  finally have "board_duart_write now r m b = run_calls (outport_cb ?v @ [Duart_run done_prog]) (b\<lparr>m_duart := ?d\<rparr>)" .
  moreover obtain irq where "run_calls (outport_cb ?v @ [Duart_run done_prog]) (b\<lparr>m_duart := ?d\<rparr>) = Some (b\<lparr>m_duart := ?d, terminal_rts := bit ?v 0, host_rts := bit ?v 1,
      m_sdcard := spi_mosi_w (\<not> bit opr 6) ?s', m_duart := fold ip2_w (?ms ?s ?s') ?d, cpu_irq := irq\<rparr>)"
    using run_outport [of "b\<lparr>m_duart := ?d\<rparr>" ?v "[Duart_run done_prog]"] c v by (auto simp: v)
  ultimately obtain b' where b': "board_duart_write now r m b = Some b'" "m_sdcard b' = spi_mosi_w (\<not> bit opr 6) ?s'"
    "m_duart b' = fold ip2_w (?ms ?s ?s') ?d" by auto
  have "OPR (m_duart b') = opr" using fold_ip2_w_OPR [OF o] by (simp add: b'(3))
  moreover have "spi_wired b'" using assms(1) calculation by (simp add: spi_wired_def b'(2,3)) (simp add: spi_mosi_w_def)
  moreover have "miso_wired b'" if "miso_wired b"
  proof -
    obtain ms where ms: "sd_miso ?s' = sd_miso (m_sdcard b) @ ms" using spi_clock_w_miso [of "\<not> bit opr 4" ?s] by auto
    then show ?thesis using that by (auto simp: miso_wired_def b'(2,3) spi_mosi_w_def fold_ip2_w_last)
  qed
  ultimately show ?thesis using b' by blast
qed

text \<open>The level of MOSI is the card's until the next write.\<close>

lemma run_command_in_bit:
  assumes "run_command n s = Some u"
  shows "m_in_bit u = m_in_bit s"
proof -
  let ?x = "(m_in_bit s, m_in_latch s, m_out_latch s, m_cur_bit s, sd_miso s)" and ?y = "(m_out_ptr s, m_out_count s)"
  have "put_pins ?x (put_out ?y s) = s" by (simp add: put_pins_def put_out_def)
  then have "u = put_pins ?x u" using run_command_put [of n ?x ?y s] assms by simp
  then have "m_in_bit u = m_in_bit (put_pins ?x u)" by (rule arg_cong)
  then show ?thesis by (simp add: put_pins_def)
qed

lemma in_bit_ops [simp]:
  "m_in_bit (send_data n st k s) = m_in_bit s" "m_in_bit (image_read l i s) = m_in_bit s" "m_in_bit (append_crc i n s) = m_in_bit s"
  "m_in_bit (snd (image_write l s)) = m_in_bit s" "m_in_bit (load_out s) = m_in_bit s"
  by (simp_all add: send_data_def image_read_def append_crc_def image_write_def load_out_def Let_def case_prod_beta split: option.splits)

lemma do_command_in_bit [simp]: "m_in_bit (do_command s) = m_in_bit s"
  by (auto simp: do_command_def Let_def run_command_in_bit split: option.splits)

lemma receive_byte_in_bit [simp]: "m_in_bit (receive_byte s) = m_in_bit s"
  by (auto simp: receive_byte_def receive_write_data_def receive_command_byte_def send_next_block_def Let_def case_prod_beta)

lemma spi_clock_w_in_bit [simp]: "m_in_bit (spi_clock_w c s) = m_in_bit s"
  by (simp add: spi_clock_w_def latch_in_def shift_out_def Let_def)

section \<open>A bit-banged transfer through the registers\<close>

text \<open>The accesses with which a program on the board exchanges a bit: it samples IP2 in the input port register, sets the data
  line, and pulses the clock. The clock and data lines are the complement of the output port register, so the reset register
  raises them and the set register lowers them.\<close>

definition bb_bit :: "attotime \<Rightarrow> bool \<Rightarrow> board \<Rightarrow> (bool \<times> board) option" where
  "bb_bit now w b =
     Option.bind (board_duart_read now 0xd b) (\<lambda>(v, b1).
     Option.bind (board_duart_write now (if w then 0xf else 0xe) 0x40 b1) (\<lambda>b2.
     Option.bind (board_duart_write now 0xf 0x10 b2) (\<lambda>b3.
     Option.bind (board_duart_write now 0xe 0x10 b3) (\<lambda>b4. Some (bit v 2, b4)))))"

fun bb_bits :: "attotime \<Rightarrow> bool list \<Rightarrow> board \<Rightarrow> (bool list \<times> board) option" where
  "bb_bits now [] b = Some ([], b)"
| "bb_bits now (w # ws) b =
     Option.bind (bb_bit now w b) (\<lambda>(r, b1). Option.bind (bb_bits now ws b1) (\<lambda>(rs, b2). Some (r # rs, b2)))"

fun bb_io :: "attotime \<Rightarrow> u8 list \<Rightarrow> board \<Rightarrow> (u8 list \<times> board) option" where
  "bb_io now [] b = Some ([], b)"
| "bb_io now (w # ws) b =
     Option.bind (bb_bits now (msb_bits w) b) (\<lambda>(bs, b1). Option.bind (bb_io now ws b1) (\<lambda>(rs, b2). Some (byte_of bs # rs, b2)))"

text \<open>The board between two bits of a transfer.\<close>

definition bb_ready :: "board \<Rightarrow> bool" where
  "bb_ready b \<longleftrightarrow> spi_wired b \<and> miso_wired b \<and> sd_miso (m_sdcard b) \<noteq> [] \<and> m_ss (m_sdcard b) \<and> \<not> m_clk_state (m_sdcard b)"

lemma read_inport_pin:
  assumes "spi_wired b"
  shows "\<exists>v. board_duart_read now 0xd b = Some (v, b) \<and> bit v 2 = bit (IP_last_state (m_duart b)) 2"
proof -
  let ?d = "m_duart b" and ?v = "IP_last_state (m_duart b) OR 0x80"
  have r: "read_inport ?d = None" using assms by (simp add: spi_wired_def)
  then have p: "read_base now 0xd ?d = (?v, ?d)" by (simp add: read_base_def Let_def)
  have "duart_read now 0xd ?d = (if m_read_vector ?d then ?v AND NOT 0x40 else ?v OR 0x40, ?d)"
    using p by (simp add: duart_read_def read_mc68681_def Let_def)
  then have v: "bit (fst (duart_read now 0xd ?d)) 2 = bit (IP_last_state ?d) 2" by (auto simp: bit_simps)
  have "run_calls [Duart_run (duart_read_prog now 0xd done_prog)] b =
      run_calls [Duart_run (act (\<lambda>d. snd (read_base now 0xd d)) done_prog)] b"
    by (simp add: duart_read_prog_def read_base_prog_def)
  also have "\<dots> = Some b" using p by (subst run_silent) simp_all
  finally show ?thesis using v by (simp add: board_duart_read_def)
qed

lemma opr_bits:
  "bit (opr_write 0xe 0x40 w) k = (k = 6 \<or> bit w k)" "bit (opr_write 0xf 0x40 w) k = (k \<noteq> 6 \<and> bit w k)"
  "bit (opr_write 0xe 0x10 w) k = (k = 4 \<or> bit w k)" "bit (opr_write 0xf 0x10 w) k = (k \<noteq> 4 \<and> bit w k)"
proof -
  have p: "(0x40 :: u8) = push_bit 6 1" "(0x10 :: u8) = push_bit 4 1" by (simp_all add: push_bit_eq_mult)
  have e: "opr_write 0xe m w = w OR m" "opr_write 0xf m w = w AND NOT m" for m by (simp_all add: opr_write_def)
  show "bit (opr_write 0xe 0x40 w) k = (k = 6 \<or> bit w k)" "bit (opr_write 0xf 0x40 w) k = (k \<noteq> 6 \<and> bit w k)"
    "bit (opr_write 0xe 0x10 w) k = (k = 4 \<or> bit w k)" "bit (opr_write 0xf 0x10 w) k = (k \<noteq> 4 \<and> bit w k)"
    unfolding e p bit_or_iff bit_and_iff bit_not_iff bit_push_bit_iff bit_1_iff by (auto dest: bit_imp_le_length)
qed

lemma bb_bit_ok:
  assumes "bb_ready b"
  shows "\<exists>b'. bb_bit now w b = Some (last (sd_miso (m_sdcard b)), b') \<and> m_sdcard b' = spi_bit w (m_sdcard b) \<and> bb_ready b'"
proof -
  let ?s = "m_sdcard b" and ?o = "OPR (m_duart b)"
  have w: "spi_wired b" "miso_wired b" "sd_miso ?s \<noteq> []" "m_ss ?s" "\<not> m_clk_state ?s" using assms by (auto simp: bb_ready_def)
  then have o: "bit ?o 2" "bit ?o 4" by (auto simp: spi_wired_def)
  obtain v where v: "board_duart_read now 0xd b = Some (v, b)" "bit v 2 = last (sd_miso ?s)"
    using read_inport_pin [OF w(1)] w(2,3) by (auto simp: miso_wired_def)
  let ?r = "if w then 0xf else 0xe :: nat"
  have bo: "bit (opr_write ?r 0x40 ?o) 6 = (\<not> w)" "bit (opr_write ?r 0x40 ?o) 4" "bit (opr_write ?r 0x40 ?o) 2"
    using o by (simp_all add: opr_bits)
  obtain b1 where b1: "board_duart_write now ?r 0x40 b = Some b1" "m_sdcard b1 = spi_mosi_w w ?s" "OPR (m_duart b1) = opr_write ?r 0x40 ?o"
    "spi_wired b1" "miso_wired b1"
    using board_opr_write [OF w(1), where r = ?r and m = "0x40" and now = now] bo w same_level(1,2) [of ?s] by auto
  let ?o1 = "OPR (m_duart b1)" and ?s1 = "m_sdcard b1"
  have s1: "m_ss ?s1" "m_in_bit ?s1 = w" using b1(2) w(4) by (simp_all add: spi_mosi_w_def)
  have o1: "\<not> bit (opr_write 0xf 0x10 ?o1) 4" "bit (opr_write 0xf 0x10 ?o1) 2" "bit (opr_write 0xf 0x10 ?o1) 6 = (\<not> w)"
    using bo b1(3) by (simp_all add: opr_bits)
  obtain b2 where b2: "board_duart_write now 0xf 0x10 b1 = Some b2" "m_sdcard b2 = spi_clock_w True ?s1" "OPR (m_duart b2) = opr_write 0xf 0x10 ?o1"
    "spi_wired b2" "miso_wired b2"
    using board_opr_write [OF b1(4), where r = "0xf" and m = "0x10" and now = now] o1 b1(5) s1 same_level(1) [of ?s1] same_level(3) [of "spi_clock_w True ?s1"] by auto
  let ?o2 = "OPR (m_duart b2)" and ?s2 = "m_sdcard b2"
  have s2: "m_ss ?s2" "m_in_bit ?s2 = w" using b2(2) s1 by simp_all
  have o2: "bit (opr_write 0xe 0x10 ?o2) 4" "bit (opr_write 0xe 0x10 ?o2) 2" "bit (opr_write 0xe 0x10 ?o2) 6 = (\<not> w)"
    using o1 b2(3) by (simp_all add: opr_bits)
  obtain b3 where b3: "board_duart_write now 0xe 0x10 b2 = Some b3" "m_sdcard b3 = spi_clock_w False ?s2" "spi_wired b3" "miso_wired b3"
    using board_opr_write [OF b2(4), where r = "0xe" and m = "0x10" and now = now] o2 b2(5) s2 same_level(1) [of ?s2] same_level(3) [of "spi_clock_w False ?s2"] by auto
  have e: "m_sdcard b3 = spi_bit w ?s" using b1(2) b2(2) b3(2) by (simp add: spi_bit_def)
  have "sd_miso (m_sdcard b3) \<noteq> []"
    using w(3) spi_clock_w_miso [of True ?s1] spi_clock_w_miso [of False ?s2] b1(2) b2(2) b3(2) by (auto simp: spi_mosi_w_def)
  then have "bb_ready b3" using b3 s2 by (simp add: bb_ready_def)
  moreover have "bb_bit now w b = Some (last (sd_miso ?s), b3)" using v b1(1) b2(1) b3(1) by (simp add: bb_bit_def)
  ultimately show ?thesis using e by blast
qed

lemma bb_bits_ok:
  "bb_ready b \<Longrightarrow> \<exists>b'. bb_bits now ws b = Some (spi_rx ws (m_sdcard b), b') \<and> m_sdcard b' = fold spi_bit ws (m_sdcard b) \<and> bb_ready b'"
proof (induction ws arbitrary: b)
  case (Cons w ws)
  obtain b1 where b1: "bb_bit now w b = Some (last (sd_miso (m_sdcard b)), b1)" "m_sdcard b1 = spi_bit w (m_sdcard b)" "bb_ready b1"
    using bb_bit_ok [OF Cons.prems] by blast
  then show ?case using Cons.IH [OF b1(3)] by auto
qed simp

lemma bb_io_ok:
  "bb_ready b \<Longrightarrow> \<exists>b'. bb_io now ws b = Some (fst (spi_io ws (m_sdcard b)), b') \<and> m_sdcard b' = snd (spi_io ws (m_sdcard b)) \<and> bb_ready b'"
proof (induction ws arbitrary: b)
  case (Cons w ws)
  obtain b1 where b1: "bb_bits now (msb_bits w) b = Some (spi_rx (msb_bits w) (m_sdcard b), b1)" "m_sdcard b1 = spi_xfer w (m_sdcard b)" "bb_ready b1"
    using bb_bits_ok [OF Cons.prems, of now "msb_bits w"] by (auto simp: spi_xfer_def)
  then show ?case using Cons.IH [OF b1(3)] by (auto simp: case_prod_beta)
qed simp

section \<open>The board's SD card as a store of blocks\<close>

text \<open>The register accesses that read and write a block, as a program on the board makes them.\<close>

definition bb_read_block :: "nat \<Rightarrow> board \<Rightarrow> u8 list" where
  "bb_read_block l b = take 512 (drop 10 (fst (the (bb_io attotime_zero (read_bytes l (m_sdcard b)) b))))"

definition bb_write_block :: "nat \<Rightarrow> u8 list \<Rightarrow> board \<Rightarrow> board" where
  "bb_write_block l bs b = snd (the (bb_io attotime_zero (write_bytes_of l bs (0xff, 0xff) (m_sdcard b)) b))"

definition board_ok :: "board \<Rightarrow> bool" where
  "board_ok b \<longleftrightarrow> bb_ready b \<and> card_ok (m_sdcard b)"

lemma bb_read_block_eq: "board_ok b \<Longrightarrow> bb_read_block l b = sd_read_block l (m_sdcard b)"
  using bb_io_ok [of b attotime_zero "read_bytes l (m_sdcard b)"] by (auto simp: board_ok_def bb_read_block_def sd_read_block_def)

lemma bb_write_block_card:
  assumes "board_ok b"
  shows "m_sdcard (bb_write_block l bs b) = sd_write_block l bs (m_sdcard b)" "bb_ready (bb_write_block l bs b)"
  using bb_io_ok [of b attotime_zero "write_bytes_of l bs (0xff, 0xff) (m_sdcard b)"] assms
  by (auto simp: board_ok_def bb_write_block_def sd_write_block_def)

interpretation bbc: block_device board_ok "\<lambda>b. card_blocks (m_sdcard b)" 512 bb_read_block bb_write_block
proof unfold_locales
  fix b :: board and l :: nat and bs :: "u8 list"
  assume a: "board_ok b" "l \<in> card_blocks (m_sdcard b)" "length bs = (512 :: nat)"
  then have c: "card_ok (m_sdcard b)" by (simp add: board_ok_def)
  note w = bb_write_block_card [OF a(1), of l bs]
  have o: "board_ok (bb_write_block l bs b)" using w sdc.wr_inv [OF c a(2,3)] by (simp add: board_ok_def)
  show "board_ok (bb_write_block l bs b) \<and> card_blocks (m_sdcard (bb_write_block l bs b)) = card_blocks (m_sdcard b)"
    using o w(1) sdc.wr_inv [OF c a(2,3)] by simp
  show "bb_read_block l (bb_write_block l bs b) = bs"
    using bb_read_block_eq [OF o] w(1) sdc.rd_same [OF c a(2,3)] by simp
  fix k assume k: "k \<in> card_blocks (m_sdcard b)" "k \<noteq> l"
  show "bb_read_block k (bb_write_block l bs b) = bb_read_block k b"
    using bb_read_block_eq [OF o] bb_read_block_eq [OF a(1)] w(1) sdc.rd_other [OF c a(2) k a(3)] by simp
qed

text \<open>A board whose program has selected the card and left the clock low.\<close>

definition ready_board :: board where
  "ready_board = \<lparr>m_duart = power_on\<lparr>OPR := 0x14, OPCR := 0, IP_last_state := 4, read_inport := None\<rparr>, m_sdcard = ready_card,
     cpu_irq = False, terminal_txd = True, terminal_rts = False, host_txd = True, host_rts = False\<rparr>"

lemma ready_card_pins: "m_in_bit ready_card" "m_ss ready_card" "\<not> m_clk_state ready_card" "sd_miso ready_card \<noteq> []" "last (sd_miso ready_card)"
proof -
  have q: "miso_ready ready_card" "m_out_latch ready_card = 0xff" using ready_card_ok(1) by (auto simp: card_ok_def sd_quiet_def)
  then show "m_ss ready_card" "\<not> m_clk_state ready_card" "sd_miso ready_card \<noteq> []" "last (sd_miso ready_card)"
    by (auto simp: miso_ready_def byte_ready_def)
  have "spi_bit True s = spi_clock_w False (spi_clock_w True (spi_mosi_w True s))" for s by (simp add: spi_bit_def)
  then have "m_in_bit (spi_bit True s)" for s by (simp add: spi_mosi_w_def)
  then show "m_in_bit ready_card" by (simp add: ready_card_def spi_xfer_def msb_bits_def)
qed

lemma ready_board_ok: "board_ok ready_board"
proof -
  have "bit (0x14 :: u8) 2" "bit (0x14 :: u8) 4" "\<not> bit (0x14 :: u8) 6" by (simp_all add: bit_simps)
  then show ?thesis
    using ready_card_pins ready_card_ok(1) by (simp add: board_ok_def bb_ready_def spi_wired_def miso_wired_def ready_board_def)
qed

text \<open>A block read by a program on the board. When the SD card is selected and at rest, the sequence of DUART register accesses that
  bit-bangs the CMD17 transaction (output port set and reset registers for data and clock, input port register for MISO) returns the
  response, the token, the sector of the mounted image and its CRC; afterwards the board is ready for the next transaction.\<close>

theorem board_block_read:
  assumes "board_ok b" "l \<in> card_blocks (m_sdcard b)"
  shows "\<exists>b'. bb_io now (frame_of 17 (block_addr (m_sdcard b) l) @ replicate 518 0xff) b =
      Some (replicate 7 0xff @ [0x00, 0xff, 0xfe] @ snd (hd_read l (card_disk (m_sdcard b))) @
        put_u16be (crc16_simple (snd (hd_read l (card_disk (m_sdcard b))))), b') \<and>
    board_ok b' \<and> m_image (m_sdcard b') = m_image (m_sdcard b)"
proof -
  have "bb_ready b" "card_ok (m_sdcard b)" using assms(1) by (auto simp: board_ok_def)
  then show ?thesis
    using bb_io_ok [of b now "read_bytes l (m_sdcard b)"] read_transaction [OF _ assms(2)] by (auto simp: board_ok_def read_bytes_def)
qed

theorem board_block_read_witness:
  "map_option (\<lambda>(rs, b). take 3 (drop 7 rs))
     (bb_io attotime_zero (frame_of 17 (block_addr ready_card 1) @ replicate 518 0xff) ready_board) = Some [0x00, 0xff, 0xfe]"
proof -
  have c: "m_sdcard ready_board = ready_card" by (simp add: ready_board_def)
  have l: "1 \<in> card_blocks (m_sdcard ready_board)" using ready_card_block(1) by (simp add: c)
  show ?thesis using board_block_read [OF ready_board_ok l, of attotime_zero] by (auto simp: c simp del: bb_io.simps)
qed

text \<open>C3. The board's SD card is a store of blocks for the program: after any sequence of block writes bit-banged through the DUART
  registers, a bit-banged block read returns the data written to the block last, or the original sector of the image.\<close>

theorem board_block_store:
  assumes "board_ok b" "\<forall>(l, bs) \<in> set ws. l \<in> card_blocks (m_sdcard b) \<and> length bs = 512" "k \<in> card_blocks (m_sdcard b)"
  shows "bb_read_block k (fold (\<lambda>(l, bs). bb_write_block l bs) ws b) =
    (case map_of (rev ws) k of Some bs \<Rightarrow> bs | None \<Rightarrow> snd (hd_read k (card_disk (m_sdcard b))))"
proof -
  have "card_ok (m_sdcard b)" using assms(1) by (simp add: board_ok_def)
  then have "bb_read_block k b = snd (hd_read k (card_disk (m_sdcard b)))"
    using bb_read_block_eq [OF assms(1)] sd_read_block_eq [OF _ assms(3)] by simp
  then show ?thesis using bbc.fold_wr [OF assms] by (auto split: option.splits)
qed

theorem board_block_store_witness:
  "bb_read_block 1 (fold (\<lambda>(l, bs). bb_write_block l bs) [(1, replicate 512 7), (0, replicate 512 8)] ready_board) = replicate 512 7"
proof -
  have c: "m_sdcard ready_board = ready_card" by (simp add: ready_board_def)
  show ?thesis
    using board_block_store [OF ready_board_ok, of "[(1, replicate 512 7), (0, replicate 512 8)]" 1] ready_card_block by (simp add: c)
qed

end
