(* ===== verification/Rosco_6502.thy ===== *)
theory Rosco_6502
  imports Memory Board_Spi
begin

unbundle bit_operations_syntax

text \<open>
  The 6502 board, \<^verbatim>\<open>src/rosco/drivers/rosco_6502.cpp\<close>: its address map, the bank register at $0000, the RAM and ROM banks,
  reset and the quickload of a program. The devices and their wiring are those of the theory \<open>Board\<close>. The CPU is the
  source of the accesses; of its state only the program counter the quickload sets is kept.
\<close>

section \<open>State\<close>

abbreviation RAM_BANKS :: nat where "RAM_BANKS \<equiv> 16"
abbreviation ROM_BANKS :: nat where "ROM_BANKS \<equiv> 4"
abbreviation RAM_BANK_SIZE :: nat where "RAM_BANK_SIZE \<equiv> 0x8000"
abbreviation ROM_BANK_SIZE :: nat where "ROM_BANK_SIZE \<equiv> 0x2000"

record rosco_6502 =
  brd :: board
  m_rombank :: memory_bank
  m_rambank :: memory_bank
  m_lowram :: "u8 list"
  m_bankram :: "u8 list"
  rom_region :: "u8 list"
  m_bank_set :: u8
  maincpu_pc :: nat

datatype handler_6502 = Low_ram | Bank_register | Ram_bank | Duart_regs | Rom_bank

definition mem_map :: "handler_6502 address_map_entry list" where
  "mem_map =
     [map_rw 0x0000 0x3fff Low_ram,
      map_rw 0x0000 0x0001 Bank_register,
      map_rw 0x4000 0xbfff Ram_bank,
      map_rw 0xc000 0xc00f Duart_regs,
      map_r 0xe000 0xffff Rom_bank]"

section \<open>Banking\<close>

definition update_banks :: "rosco_6502 \<Rightarrow> rosco_6502 option" where
  "update_banks s =
     Option.bind (set_entry (uint (m_bank_set s AND 0x0f)) (m_rambank s)) (\<lambda>ram.
     Option.bind (set_entry (uint (drop_bit 4 (m_bank_set s) AND 0x03)) (m_rombank s)) (\<lambda>rom.
     Some (s\<lparr>m_rambank := ram, m_rombank := rom\<rparr>)))"

definition bank_r :: "nat \<Rightarrow> rosco_6502 \<Rightarrow> u8 option" where
  "bank_r offset s = mem_get offset (m_lowram s)"

definition bank_w :: "nat \<Rightarrow> u8 \<Rightarrow> rosco_6502 \<Rightarrow> rosco_6502 option" where
  "bank_w offset data s =
     Option.bind (mem_put offset data (m_lowram s)) (\<lambda>ram. update_banks (s\<lparr>m_lowram := ram, m_bank_set := data\<rparr>))"

section \<open>Accesses of the CPU\<close>

text \<open>A read of an address without a handler returns the unmapped value 0, a write there has no effect.\<close>

definition read_byte :: "attotime \<Rightarrow> nat \<Rightarrow> rosco_6502 \<Rightarrow> (u8 \<times> rosco_6502) option" where
  "read_byte now addr s =
     (case root_read (populate_from_map mem_map) addr of
        None \<Rightarrow> Some (0, s)
      | Some (h, start) \<Rightarrow>
          let offset = addr - start
          in (case h of
                Low_ram \<Rightarrow> map_option (\<lambda>v. (v, s)) (mem_get offset (m_lowram s))
              | Bank_register \<Rightarrow> map_option (\<lambda>v. (v, s)) (bank_r offset s)
              | Ram_bank \<Rightarrow> Option.bind (bank_base (m_rambank s)) (\<lambda>p. map_option (\<lambda>v. (v, s)) (mem_get (p + offset) (m_bankram s)))
              | Duart_regs \<Rightarrow> map_option (\<lambda>(v, b). (v, s\<lparr>brd := b\<rparr>)) (board_duart_read now offset (brd s))
              | Rom_bank \<Rightarrow> Option.bind (bank_base (m_rombank s)) (\<lambda>p. map_option (\<lambda>v. (v, s)) (mem_get (p + offset) (rom_region s)))))"

definition write_byte :: "attotime \<Rightarrow> nat \<Rightarrow> u8 \<Rightarrow> rosco_6502 \<Rightarrow> rosco_6502 option" where
  "write_byte now addr data s =
     (case root_write (populate_from_map mem_map) addr of
        None \<Rightarrow> Some s
      | Some (h, start) \<Rightarrow>
          let offset = addr - start
          in (case h of
                Low_ram \<Rightarrow> map_option (\<lambda>m. s\<lparr>m_lowram := m\<rparr>) (mem_put offset data (m_lowram s))
              | Bank_register \<Rightarrow> bank_w offset data s
              | Ram_bank \<Rightarrow> Option.bind (bank_base (m_rambank s)) (\<lambda>p. map_option (\<lambda>m. s\<lparr>m_bankram := m\<rparr>) (mem_put (p + offset) data (m_bankram s)))
              | Duart_regs \<Rightarrow> map_option (\<lambda>b. s\<lparr>brd := b\<rparr>) (board_duart_write now offset data (brd s))
              | Rom_bank \<Rightarrow> Some s))"

section \<open>Start, reset and quickload\<close>

text \<open>The RAM of the banks is allocated here, with the value 0 everywhere.\<close>

definition machine_start :: "rosco_6502 \<Rightarrow> rosco_6502" where
  "machine_start s =
     s\<lparr>m_bankram := replicate (RAM_BANKS * RAM_BANK_SIZE) 0,
       m_rambank := configure_entries 0 RAM_BANKS 0 RAM_BANK_SIZE (m_rambank s),
       m_rombank := configure_entries 0 ROM_BANKS 0 ROM_BANK_SIZE (m_rombank s)\<rparr>"

definition machine_reset :: "rosco_6502 \<Rightarrow> rosco_6502 option" where
  "machine_reset s =
     Option.bind (board_machine_reset (brd s)) (\<lambda>b. update_banks (s\<lparr>brd := b, m_bank_set := 0\<rparr>))"

datatype load_error = INVALIDLENGTH | UNSPECIFIED

text \<open>The image is its length and the bytes that reading it delivers. The error is the left part of the sum.\<close>

fun write_bytes :: "attotime \<Rightarrow> nat \<Rightarrow> u8 list \<Rightarrow> rosco_6502 \<Rightarrow> rosco_6502 option" where
  "write_bytes now addr [] s = Some s"
| "write_bytes now addr (v # vs) s = Option.bind (write_byte now addr v s) (write_bytes now (addr + 1) vs)"

definition quickload_cb :: "attotime \<Rightarrow> nat \<Rightarrow> u8 list \<Rightarrow> rosco_6502 \<Rightarrow> (load_error + rosco_6502) option" where
  "quickload_cb now len fread s =
     (if len = 0 \<or> 0x4000 - 0x0800 < len then Some (Inl INVALIDLENGTH)
      else if length fread \<noteq> len then Some (Inl UNSPECIFIED)
      else map_option (\<lambda>s1. Inr (s1\<lparr>maincpu_pc := 0x0800\<rparr>)) (write_bytes now 0x0800 fread s))"

section \<open>The address map decoded\<close>

text \<open>Which device answers, by address.\<close>

definition decode_6502 :: "nat \<Rightarrow> (handler_6502 \<times> nat) option" where
  "decode_6502 a =
     (if a \<le> 1 then Some (Bank_register, 0) else if a \<le> 0x3fff then Some (Low_ram, 0) else if a \<le> 0xbfff then Some (Ram_bank, 0x4000)
      else if 0xc000 \<le> a \<and> a \<le> 0xc00f then Some (Duart_regs, 0xc000) else if 0xe000 \<le> a \<and> a \<le> 0xffff then Some (Rom_bank, 0xe000) else None)"

lemma decode_read: "root_read (populate_from_map mem_map) a = decode_6502 a"
  by (simp add: populate_from_map_def mem_map_def populate_map_entry_def decode_6502_def)

lemma decode_write:
  "root_write (populate_from_map mem_map) a = (case decode_6502 a of Some (Rom_bank, _) \<Rightarrow> None | x \<Rightarrow> x)"
  by (simp add: populate_from_map_def mem_map_def populate_map_entry_def decode_6502_def)

section \<open>The invariant\<close>

text \<open>The banks have their blocks and show those that the bank register selects; the memories have their sizes.\<close>

definition banks_ok :: "rosco_6502 \<Rightarrow> bool" where
  "banks_ok s \<longleftrightarrow>
     strided RAM_BANKS RAM_BANK_SIZE (m_rambank s) \<and> strided ROM_BANKS ROM_BANK_SIZE (m_rombank s) \<and>
     m_curentry (m_rambank s) = unat (m_bank_set s AND 0x0f) \<and> m_curentry (m_rombank s) = unat (drop_bit 4 (m_bank_set s) AND 0x03)"

definition sizes_ok :: "rosco_6502 \<Rightarrow> bool" where
  "sizes_ok s \<longleftrightarrow> length (m_lowram s) = 0x4000 \<and> length (m_bankram s) = RAM_BANKS * RAM_BANK_SIZE \<and> length (rom_region s) = ROM_BANKS * ROM_BANK_SIZE"

lemma nibbles: "unat ((w :: u8) AND 0x0f) < 16" "unat (drop_bit 4 (w :: u8) AND 0x03) < 4"
proof -
  have "(w AND 0x0f) \<le> 0x0f" "(drop_bit 4 w AND 0x03) \<le> 0x03" by (simp_all add: word_and_le1)
  then show "unat (w AND 0x0f) < 16" "unat (drop_bit 4 w AND 0x03) < 4" by (simp_all add: word_le_nat_alt)
qed

text \<open>A bank selection with configured entries never fails.\<close>

lemma update_banks_ok:
  assumes "strided RAM_BANKS RAM_BANK_SIZE (m_rambank s)" "strided ROM_BANKS ROM_BANK_SIZE (m_rombank s)"
  shows "update_banks s = Some (s\<lparr>m_rambank := (m_rambank s)\<lparr>m_curentry := unat (m_bank_set s AND 0x0f)\<rparr>,
    m_rombank := (m_rombank s)\<lparr>m_curentry := unat (drop_bit 4 (m_bank_set s) AND 0x03)\<rparr>\<rparr>)"
  unfolding update_banks_def uint_nat strided_set_entry [OF assms(1) nibbles(1)] strided_set_entry [OF assms(2) nibbles(2)]
    Option.bind.bind_lunit
  by (rule refl)

lemma banks_base:
  assumes "banks_ok s"
  shows "bank_base (m_rambank s) = Some (unat (m_bank_set s AND 0x0f) * RAM_BANK_SIZE)"
    "bank_base (m_rombank s) = Some (unat (drop_bit 4 (m_bank_set s) AND 0x03) * ROM_BANK_SIZE)"
proof -
  have "strided RAM_BANKS RAM_BANK_SIZE (m_rambank s)" "strided ROM_BANKS ROM_BANK_SIZE (m_rombank s)"
    and c: "m_curentry (m_rambank s) = unat (m_bank_set s AND 0x0f)" "m_curentry (m_rombank s) = unat (drop_bit 4 (m_bank_set s) AND 0x03)"
    using assms unfolding banks_ok_def by blast+
  then have "bank_base (m_rambank s) = Some (m_curentry (m_rambank s) * RAM_BANK_SIZE)" "bank_base (m_rombank s) = Some (m_curentry (m_rombank s) * ROM_BANK_SIZE)"
    using nibbles [of "m_bank_set s"] by (simp_all only: strided_base)
  then show "bank_base (m_rambank s) = Some (unat (m_bank_set s AND 0x0f) * RAM_BANK_SIZE)"
    "bank_base (m_rombank s) = Some (unat (drop_bit 4 (m_bank_set s) AND 0x03) * ROM_BANK_SIZE)"
    unfolding c by blast+
qed

text \<open>The accesses, handler by handler.\<close>

lemma read_low: "a < 0x4000 \<Longrightarrow> read_byte now a s = map_option (\<lambda>v. (v, s)) (mem_get a (m_lowram s))"
  by (auto simp: read_byte_def decode_read decode_6502_def bank_r_def)

lemma read_ram:
  assumes "banks_ok s" "0x4000 \<le> a" "a < 0xc000"
  shows "read_byte now a s = map_option (\<lambda>v. (v, s)) (mem_get (unat (m_bank_set s AND 0x0f) * RAM_BANK_SIZE + (a - 0x4000)) (m_bankram s))"
  using assms(2,3) by (simp add: read_byte_def decode_read decode_6502_def banks_base(1) [OF assms(1)])

lemma read_rom:
  assumes "banks_ok s" "0xe000 \<le> a" "a \<le> 0xffff"
  shows "read_byte now a s =
    map_option (\<lambda>v. (v, s)) (mem_get (unat (drop_bit 4 (m_bank_set s) AND 0x03) * ROM_BANK_SIZE + (a - 0xe000)) (rom_region s))"
  using assms(2,3) by (simp add: read_byte_def decode_read decode_6502_def banks_base(2) [OF assms(1)])

lemma write_low: "2 \<le> a \<Longrightarrow> a < 0x4000 \<Longrightarrow> write_byte now a v s = map_option (\<lambda>m. s\<lparr>m_lowram := m\<rparr>) (mem_put a v (m_lowram s))"
  by (simp add: write_byte_def decode_write decode_6502_def)

lemma write_bank_register: "a < 2 \<Longrightarrow> write_byte now a v s = bank_w a v s"
  by (simp add: write_byte_def decode_write decode_6502_def)

lemma write_ram:
  assumes "banks_ok s" "0x4000 \<le> a" "a < 0xc000"
  shows "write_byte now a v s =
    map_option (\<lambda>m. s\<lparr>m_bankram := m\<rparr>) (mem_put (unat (m_bank_set s AND 0x0f) * RAM_BANK_SIZE + (a - 0x4000)) v (m_bankram s))"
  using assms(2,3) by (simp add: write_byte_def decode_write decode_6502_def banks_base(1) [OF assms(1)])

lemma read_duart: "0xc000 \<le> a \<Longrightarrow> a \<le> 0xc00f \<Longrightarrow> read_byte now a s = map_option (\<lambda>(v, b). (v, s\<lparr>brd := b\<rparr>)) (board_duart_read now (a - 0xc000) (brd s))"
  by (simp add: read_byte_def decode_read decode_6502_def)

lemma write_duart: "0xc000 \<le> a \<Longrightarrow> a \<le> 0xc00f \<Longrightarrow> write_byte now a v s = map_option (\<lambda>b. s\<lparr>brd := b\<rparr>) (board_duart_write now (a - 0xc000) v (brd s))"
  by (simp add: write_byte_def decode_write decode_6502_def)

lemma unmapped_6502: "0xc00f < a \<Longrightarrow> a < 0xe000 \<or> 0xffff < a \<Longrightarrow> read_byte now a s = Some (0, s)" "0xc00f < a \<Longrightarrow> write_byte now a v s = Some s"
  by (auto simp: read_byte_def write_byte_def decode_read decode_write decode_6502_def split: if_splits)

text \<open>The regions, as the address map has them.\<close>

lemma regions_6502:
  fixes a :: nat
  obtains "a < 2" | "2 \<le> a" "a < 0x4000" | "0x4000 \<le> a" "a < 0xc000" | "0xc000 \<le> a" "a \<le> 0xc00f" | "0xe000 \<le> a" "a \<le> 0xffff"
    | "0xc00f < a" "a < 0xe000 \<or> 0xffff < a"
  by linarith

lemma bank_offset:
  fixes o' n k :: nat
  assumes "i < n" "o' < k"
  shows "i * k + o' < n * k"
proof -
  have "i * k + o' < (i + 1) * k" using assms(2) by simp
  also have "\<dots> \<le> n * k" using assms(1) by (intro mult_right_mono) auto
  finally show ?thesis .
qed

definition ok_6502 :: "rosco_6502 \<Rightarrow> bool" where
  "ok_6502 s \<longleftrightarrow> banks_ok s \<and> sizes_ok s"

lemma ok_read:
  assumes "ok_6502 s"
  shows "\<exists>v s'. read_byte now a s = Some (v, s') \<and> ok_6502 s' \<and> rom_region s' = rom_region s"
proof -
  have ok: "banks_ok s" "length (m_lowram s) = 0x4000" "length (m_bankram s) = RAM_BANKS * RAM_BANK_SIZE" "length (rom_region s) = ROM_BANKS * ROM_BANK_SIZE"
    using assms by (simp_all add: ok_6502_def sizes_ok_def)
  show ?thesis
  proof (cases a rule: regions_6502)
    case 3
    have "unat (m_bank_set s AND 0x0f) * RAM_BANK_SIZE + (a - 0x4000) < length (m_bankram s)"
      unfolding ok(3) using 3 by (intro bank_offset nibbles) simp
    then show ?thesis unfolding read_ram [OF ok(1) 3] using assms by simp
  next
    case 4
    obtain v b where "board_duart_read now (a - 0xc000) (brd s) = Some (v, b)"
      using board_duart_read_returns by blast
    then show ?thesis using assms by (simp add: read_duart [OF 4] ok_6502_def banks_ok_def sizes_ok_def)
  next
    case 5
    have "unat (drop_bit 4 (m_bank_set s) AND 0x03) * ROM_BANK_SIZE + (a - 0xe000) < length (rom_region s)"
      unfolding ok(4) using 5 by (intro bank_offset nibbles) simp
    then show ?thesis unfolding read_rom [OF ok(1) 5] using assms by simp
  next
    case 6
    then show ?thesis using assms unmapped_6502(1) [of a now s] by simp
  qed (use assms in \<open>simp_all add: read_low ok(2)\<close>)
qed

lemma ok_select:
  assumes "banks_ok s"
  shows "\<exists>s'. update_banks (s\<lparr>m_bank_set := v\<rparr>) = Some s' \<and> banks_ok s' \<and> m_bank_set s' = v \<and> m_lowram s' = m_lowram s \<and>
    m_bankram s' = m_bankram s \<and> rom_region s' = rom_region s \<and> brd s' = brd s \<and> maincpu_pc s' = maincpu_pc s"
proof -
  have e: "strided RAM_BANKS RAM_BANK_SIZE (m_rambank (s\<lparr>m_bank_set := v\<rparr>))" "strided ROM_BANKS ROM_BANK_SIZE (m_rombank (s\<lparr>m_bank_set := v\<rparr>))"
    using assms by (simp_all add: banks_ok_def)
  show ?thesis unfolding update_banks_ok [OF e] using assms by (simp add: banks_ok_def strided_def)
qed

lemma bank_w_ok:
  assumes "ok_6502 s" "a < 0x4000"
  shows "\<exists>s'. bank_w a v s = Some s' \<and> ok_6502 s' \<and> m_bank_set s' = v \<and> m_lowram s' = (m_lowram s)[a := v] \<and>
    m_bankram s' = m_bankram s \<and> rom_region s' = rom_region s \<and> brd s' = brd s \<and> maincpu_pc s' = maincpu_pc s"
proof -
  have "banks_ok (s\<lparr>m_lowram := (m_lowram s)[a := v]\<rparr>)" using assms(1) by (simp add: ok_6502_def banks_ok_def)
  then show ?thesis
    using ok_select [of "s\<lparr>m_lowram := (m_lowram s)[a := v]\<rparr>" v] assms by (auto simp: bank_w_def ok_6502_def sizes_ok_def)
qed

lemma ok_write:
  assumes "ok_6502 s"
  shows "\<exists>s'. write_byte now a v s = Some s' \<and> ok_6502 s' \<and> rom_region s' = rom_region s"
proof -
  have ok: "banks_ok s" "length (m_lowram s) = 0x4000" "length (m_bankram s) = RAM_BANKS * RAM_BANK_SIZE"
    using assms by (simp_all add: ok_6502_def sizes_ok_def)
  show ?thesis
  proof (cases a rule: regions_6502)
    case 1
    then show ?thesis using bank_w_ok [OF assms, of a v] by (auto simp: write_bank_register)
  next
    case 3
    have "unat (m_bank_set s AND 0x0f) * RAM_BANK_SIZE + (a - 0x4000) < length (m_bankram s)"
      unfolding ok(3) using 3 by (intro bank_offset nibbles) simp
    then show ?thesis unfolding write_ram [OF ok(1) 3] using assms by (simp add: ok_6502_def banks_ok_def sizes_ok_def)
  next
    case 4
    obtain b where "board_duart_write now (a - 0xc000) v (brd s) = Some b"
      using board_duart_write_returns by blast
    then show ?thesis using assms by (simp add: write_duart [OF 4] ok_6502_def banks_ok_def sizes_ok_def)
  next
    case 5
    then show ?thesis using assms unmapped_6502(2) [of a now v s] by simp
  next
    case 6
    then show ?thesis using assms unmapped_6502(2) [of a now v s] by simp
  qed (use assms in \<open>simp add: write_low ok(2) ok_6502_def banks_ok_def sizes_ok_def\<close>)
qed

section \<open>Runs of the machine\<close>

text \<open>The machine is started once, on unconfigured banks, and then sees resets, accesses of the CPU and quickloads.\<close>

definition fresh_6502 :: "u8 list \<Rightarrow> rosco_6502 \<Rightarrow> bool" where
  "fresh_6502 rom s \<longleftrightarrow> m_rombank s = memory_bank_init \<and> m_rambank s = memory_bank_init \<and> length (m_lowram s) = 0x4000 \<and>
     rom_region s = rom \<and> length rom = ROM_BANKS * ROM_BANK_SIZE"

inductive run_6502 :: "u8 list \<Rightarrow> rosco_6502 \<Rightarrow> bool" for rom where
  started: "fresh_6502 rom s \<Longrightarrow> machine_reset (machine_start s) = Some s' \<Longrightarrow> run_6502 rom s'"
| resets: "run_6502 rom s \<Longrightarrow> machine_reset s = Some s' \<Longrightarrow> run_6502 rom s'"
| reads: "run_6502 rom s \<Longrightarrow> read_byte now a s = Some (v, s') \<Longrightarrow> run_6502 rom s'"
| writes: "run_6502 rom s \<Longrightarrow> write_byte now a v s = Some s' \<Longrightarrow> run_6502 rom s'"
| quickloads: "run_6502 rom s \<Longrightarrow> quickload_cb now n bs s = Some (Inr s') \<Longrightarrow> run_6502 rom s'"

lemma reset_ok:
  assumes "strided RAM_BANKS RAM_BANK_SIZE (m_rambank s)" "strided ROM_BANKS ROM_BANK_SIZE (m_rombank s)" "sizes_ok s"
  shows "\<exists>s'. machine_reset s = Some s' \<and> ok_6502 s' \<and> m_bank_set s' = 0 \<and> rom_region s' = rom_region s \<and>
    m_lowram s' = m_lowram s \<and> m_bankram s' = m_bankram s"
proof -
  obtain b where b: "board_machine_reset (brd s) = Some b"
    using board_machine_reset_returns by blast
  let ?s = "s\<lparr>brd := b, m_bank_set := 0\<rparr>"
  have "update_banks ?s = Some (?s\<lparr>m_rambank := (m_rambank s)\<lparr>m_curentry := 0\<rparr>, m_rombank := (m_rombank s)\<lparr>m_curentry := 0\<rparr>\<rparr>)"
    using update_banks_ok [of ?s] assms by simp
  then show ?thesis using assms by (simp add: machine_reset_def b ok_6502_def banks_ok_def strided_def sizes_ok_def)
qed

lemma started_ok:
  assumes "fresh_6502 rom s"
  shows "\<exists>s'. machine_reset (machine_start s) = Some s' \<and> ok_6502 s' \<and> m_bank_set s' = 0 \<and> rom_region s' = rom"
proof -
  have "strided RAM_BANKS RAM_BANK_SIZE (m_rambank (machine_start s))" "strided ROM_BANKS ROM_BANK_SIZE (m_rombank (machine_start s))"
    using assms strided_configure [of RAM_BANKS RAM_BANK_SIZE] strided_configure [of ROM_BANKS ROM_BANK_SIZE]
    unfolding machine_start_def fresh_6502_def by simp_all
  moreover have "sizes_ok (machine_start s)" "rom_region (machine_start s) = rom"
    using assms unfolding machine_start_def fresh_6502_def sizes_ok_def by simp_all
  ultimately show ?thesis using reset_ok [of "machine_start s"] by auto
qed

lemma write_bytes_ok:
  "ok_6502 s \<Longrightarrow> \<exists>s'. write_bytes now a vs s = Some s' \<and> ok_6502 s' \<and> rom_region s' = rom_region s"
proof (induction vs arbitrary: a s)
  case (Cons v vs)
  obtain s' where "write_byte now a v s = Some s'" "ok_6502 s'" "rom_region s' = rom_region s" using ok_write [OF Cons.prems] by blast
  then show ?case using Cons.IH [of s' "a + 1"] by auto
qed simp

lemma quickload_ok:
  assumes "ok_6502 s"
  shows "\<exists>r. quickload_cb now n bs s = Some r \<and> (\<forall>s'. r = Inr s' \<longrightarrow> ok_6502 s' \<and> rom_region s' = rom_region s)"
  using write_bytes_ok [OF assms, where now = now and a = "0x0800" and vs = bs]
  by (auto simp: quickload_cb_def ok_6502_def banks_ok_def sizes_ok_def)

lemma run_ok: "run_6502 rom s \<Longrightarrow> ok_6502 s \<and> rom_region s = rom"
proof (induction rule: run_6502.induct)
  case (started s s')
  then show ?case using started_ok [OF started(1)] by auto
next
  case (resets s s')
  then show ?case using reset_ok [of s] by (auto simp: ok_6502_def banks_ok_def)
next
  case (reads s now a v s')
  then show ?case using ok_read [of s now a] by auto
next
  case (writes s now a v s')
  then show ?case using ok_write [of s now a v] by auto
next
  case (quickloads s now n bs s')
  then show ?case using quickload_ok [of s now n bs] by auto
qed

text \<open>C23. The 6502 machine never fails. From its start on, after any sequence of resets, reads, writes (of any address and value, the
  bank register included) and quickloads, the ROM is unchanged, the RAM window shows the block of the bank register's low nibble
  and the ROM window that of its bits 4 and 5, and the next access of any address or reset stays inside the memories and returns.\<close>

theorem machine_6502_safe:
  assumes "run_6502 rom s"
  shows "rom_region s = rom \<and>
    bank_base (m_rambank s) = Some (unat (m_bank_set s AND 0x0f) * RAM_BANK_SIZE) \<and>
    bank_base (m_rombank s) = Some (unat (drop_bit 4 (m_bank_set s) AND 0x03) * ROM_BANK_SIZE) \<and>
    (\<exists>v s'. read_byte now a s = Some (v, s')) \<and> (\<exists>s'. write_byte now a data s = Some s') \<and> (\<exists>s'. machine_reset s = Some s') \<and>
    (\<exists>r. quickload_cb now n bs s = Some r)"
proof -
  have ok: "ok_6502 s" "rom_region s = rom" using run_ok [OF assms] by auto
  then have "banks_ok s" "strided RAM_BANKS RAM_BANK_SIZE (m_rambank s)" "strided ROM_BANKS ROM_BANK_SIZE (m_rombank s)" "sizes_ok s"
    by (simp_all add: ok_6502_def banks_ok_def)
  then show ?thesis
    using ok banks_base [of s] ok_read [OF ok(1), of now a] ok_write [OF ok(1), of now a data] reset_ok [of s] quickload_ok [OF ok(1), of now n bs]
    by blast
qed

definition fresh_machine :: rosco_6502 where
  "fresh_machine = \<lparr>brd = ready_board, m_rombank = memory_bank_init, m_rambank = memory_bank_init, m_lowram = replicate 0x4000 0,
     m_bankram = [], rom_region = replicate 0x8000 0xea, m_bank_set = 0, maincpu_pc = 0\<rparr>"

lemma fresh_machine_ok: "fresh_6502 (replicate 0x8000 0xea) fresh_machine"
  by (simp add: fresh_6502_def fresh_machine_def)

theorem machine_6502_safe_witness:
  "\<exists>s. machine_reset (machine_start fresh_machine) = Some s \<and> (\<exists>v s'. read_byte attotime_zero 0xfffc s = Some (v, s')) \<and>
     rom_region s = replicate 0x8000 0xea"
proof -
  obtain s where s: "machine_reset (machine_start fresh_machine) = Some s" using started_ok [OF fresh_machine_ok] by blast
  then show ?thesis using machine_6502_safe [OF run_6502.started [OF fresh_machine_ok s]] by blast
qed

section \<open>The RAM banks as a store\<close>

text \<open>A program reaches location \<open>a\<close> of bank \<open>k\<close> by a write to the bank register and an access of the window.\<close>

definition banked_read :: "attotime \<Rightarrow> nat \<times> nat \<Rightarrow> rosco_6502 \<Rightarrow> u8" where
  "banked_read now l s =
     (case Option.bind (write_byte now 0 (word_of_nat (fst l)) s) (read_byte now (snd l)) of Some (v, _) \<Rightarrow> v | None \<Rightarrow> 0)"

definition banked_write :: "attotime \<Rightarrow> nat \<times> nat \<Rightarrow> u8 \<Rightarrow> rosco_6502 \<Rightarrow> rosco_6502" where
  "banked_write now l v s =
     (case Option.bind (write_byte now 0 (word_of_nat (fst l)) s) (write_byte now (snd l) v) of Some s' \<Rightarrow> s' | None \<Rightarrow> s)"

definition bank_locations :: "(nat \<times> nat) set" where
  "bank_locations = {0..<RAM_BANKS} \<times> {0x4000..<0xc000}"

definition bank_offs :: "nat \<times> nat \<Rightarrow> nat" where
  "bank_offs l = fst l * RAM_BANK_SIZE + (snd l - 0x4000)"

lemma bank_offs_less: "l \<in> bank_locations \<Longrightarrow> bank_offs l < RAM_BANKS * RAM_BANK_SIZE"
  unfolding bank_locations_def bank_offs_def by (intro bank_offset) auto

lemma bank_offs_inj: "l \<in> bank_locations \<Longrightarrow> k \<in> bank_locations \<Longrightarrow> bank_offs l = bank_offs k \<Longrightarrow> l = k"
proof -
  assume *: "l \<in> bank_locations" "k \<in> bank_locations" "bank_offs l = bank_offs k"
  then have "fst l = fst k" by (auto simp: bank_locations_def bank_offs_def)
  moreover from this have "snd l = snd k" using * by (auto simp: bank_locations_def bank_offs_def)
  ultimately show ?thesis by (simp add: prod_eq_iff)
qed

lemma low_nibble: "k < RAM_BANKS \<Longrightarrow> unat ((word_of_nat k :: u8) AND 0x0f) = k"
proof -
  assume k: "k < RAM_BANKS"
  have "(0x0f :: u8) = mask 4" by (simp add: mask_eq_exp_minus_1)
  then have "unat ((word_of_nat k :: u8) AND 0x0f) = take_bit 4 (take_bit 8 k)"
    by (simp only: take_bit_eq_mask [symmetric] unsigned_take_bit_eq unsigned_of_nat) simp
  also have "\<dots> = k" using k by (simp add: take_bit_nat_eq_self)
  finally show ?thesis .
qed

lemma select_bank:
  assumes "ok_6502 s" "l \<in> bank_locations"
  shows "\<exists>s'. write_byte now 0 (word_of_nat (fst l)) s = Some s' \<and> ok_6502 s' \<and> unat (m_bank_set s' AND 0x0f) = fst l \<and> m_bankram s' = m_bankram s"
proof -
  have "fst l < RAM_BANKS" using assms(2) by (auto simp: bank_locations_def)
  then show ?thesis
    using bank_w_ok [OF assms(1), of 0 "word_of_nat (fst l)"] low_nibble [of "fst l"] by (auto simp: write_bank_register)
qed

lemma banked_read_eq:
  assumes "ok_6502 s" "l \<in> bank_locations"
  shows "banked_read now l s = m_bankram s ! bank_offs l"
proof -
  obtain s' where s': "write_byte now 0 (word_of_nat (fst l)) s = Some s'" "ok_6502 s'" "unat (m_bank_set s' AND 0x0f) = fst l" "m_bankram s' = m_bankram s"
    using select_bank [OF assms, of now] by blast
  have l: "0x4000 \<le> snd l" "snd l < 0xc000" using assms(2) by (auto simp: bank_locations_def)
  have "bank_offs l < length (m_bankram s')" using s'(2) bank_offs_less [OF assms(2)] by (simp add: ok_6502_def sizes_ok_def)
  then have "read_byte now (snd l) s' = Some (m_bankram s ! bank_offs l, s')"
    using read_ram [OF _ l, of s' now] s' unfolding ok_6502_def bank_offs_def by simp
  then show ?thesis by (simp add: banked_read_def s'(1))
qed

lemma banked_write_eq:
  assumes "ok_6502 s" "l \<in> bank_locations"
  shows "ok_6502 (banked_write now l v s) \<and> m_bankram (banked_write now l v s) = (m_bankram s)[bank_offs l := v]"
proof -
  obtain s' where s': "write_byte now 0 (word_of_nat (fst l)) s = Some s'" "ok_6502 s'" "unat (m_bank_set s' AND 0x0f) = fst l" "m_bankram s' = m_bankram s"
    using select_bank [OF assms, of now] by blast
  have l: "0x4000 \<le> snd l" "snd l < 0xc000" using assms(2) by (auto simp: bank_locations_def)
  have "bank_offs l < length (m_bankram s')" using s'(2) bank_offs_less [OF assms(2)] by (simp add: ok_6502_def sizes_ok_def)
  then have "write_byte now (snd l) v s' = Some (s'\<lparr>m_bankram := (m_bankram s)[bank_offs l := v]\<rparr>)"
    using write_ram [OF _ l, of s' now] s' unfolding ok_6502_def bank_offs_def by simp
  then show ?thesis using s' by (simp add: banked_write_def ok_6502_def banks_ok_def sizes_ok_def)
qed

interpretation brs: keyed_store ok_6502 "\<lambda>_. bank_locations" "\<lambda>_. True" "banked_read now" "banked_write now"
proof
  fix d :: rosco_6502 and l k :: "nat \<times> nat" and v :: u8
  assume d: "ok_6502 d" and l: "l \<in> bank_locations"
  note w = banked_write_eq [OF d l, of now v]
  have "length (m_bankram d) = RAM_BANKS * RAM_BANK_SIZE" using d by (simp add: ok_6502_def sizes_ok_def)
  then have b: "bank_offs l < length (m_bankram d)" using bank_offs_less [OF l] by simp
  show "ok_6502 (banked_write now l v d) \<and> bank_locations = bank_locations" using w by simp
  show "banked_read now l (banked_write now l v d) = v" using w banked_read_eq [OF _ l] b by simp
  assume k: "k \<in> bank_locations" and "k \<noteq> l"
  then have "bank_offs l \<noteq> bank_offs k" using bank_offs_inj [OF l k] by blast
  then show "banked_read now k (banked_write now l v d) = banked_read now k d"
    using w banked_read_eq [OF _ k] d by simp
qed

text \<open>C32. The sixteen RAM banks are 512 KB of independent memory. After any sequence of writes to locations of the banks, each selected
  through the bank register, a read of a location returns the value written to it last, whatever was written to the same address
  of another bank.\<close>

theorem ram_banks_store:
  assumes "run_6502 rom s" "set (map fst ws) \<subseteq> bank_locations" "k \<in> bank_locations"
  shows "banked_read now k (fold (\<lambda>(l, v). banked_write now l v) ws s) =
    (case map_of (rev ws) k of Some v \<Rightarrow> v | None \<Rightarrow> banked_read now k s)"
  using brs.fold_wr [of s ws k now] run_ok [OF assms(1)] assms(2,3) by fastforce

theorem ram_banks_store_witness:
  "\<exists>s. run_6502 (replicate 0x8000 0xea) s \<and>
     banked_read attotime_zero (3, 0x4000)
       (fold (\<lambda>(l, v). banked_write attotime_zero l v) [((3, 0x4000), 1), ((4, 0x4000), 2), ((3, 0x4001), 5)] s) = 1"
proof -
  obtain s where s: "machine_reset (machine_start fresh_machine) = Some s" using started_ok [OF fresh_machine_ok] by blast
  have r: "run_6502 (replicate 0x8000 0xea) s" by (rule run_6502.started [OF fresh_machine_ok s])
  show ?thesis
    using r ram_banks_store [OF r, of "[((3, 0x4000), 1), ((4, 0x4000), 2), ((3, 0x4001), 5)]" "(3, 0x4000)" attotime_zero]
    by (intro exI [of _ s]) (simp add: bank_locations_def)
qed

section \<open>Quickload\<close>

text \<open>Bytes written one after the other into the low RAM above the bank register.\<close>

definition overlay :: "nat \<Rightarrow> 'a list \<Rightarrow> 'a list \<Rightarrow> 'a list" where
  "overlay a vs m = take a m @ vs @ drop (a + length vs) m"

lemma overlay_Cons: "a < length m \<Longrightarrow> overlay (Suc a) vs (m[a := v]) = overlay a (v # vs) m"
  by (simp add: overlay_def take_Suc_conv_app_nth)

lemma write_bytes_low:
  assumes "2 \<le> a" "a + length vs \<le> 0x4000" "length (m_lowram s) = 0x4000"
  shows "write_bytes now a vs s = Some (s\<lparr>m_lowram := overlay a vs (m_lowram s)\<rparr>)"
  using assms
proof (induction vs arbitrary: a s)
  case (Cons v vs)
  then have "write_byte now a v s = Some (s\<lparr>m_lowram := (m_lowram s)[a := v]\<rparr>)" by (simp add: write_low)
  then show ?case using Cons.IH [of "Suc a" "s\<lparr>m_lowram := (m_lowram s)[a := v]\<rparr>"] Cons.prems by (simp add: overlay_Cons)
qed (simp add: overlay_def)

text \<open>The quickload of the 6502 board, on every outcome. An empty image and one that does not fit between $0800 and the end of low RAM
  are refused as having an invalid length, one that cannot be read completely as a read error. Otherwise exactly the bytes of low
  RAM from $0800 on that the image covers are replaced by it, everything else keeps its value, and the CPU continues at $0800.\<close>

theorem quickload_6502:
  assumes "run_6502 rom s"
  shows "quickload_cb now n bs s =
    (if n = 0 \<or> 0x3800 < n then Some (Inl INVALIDLENGTH)
     else if length bs \<noteq> n then Some (Inl UNSPECIFIED)
     else Some (Inr (s\<lparr>m_lowram := overlay 0x0800 bs (m_lowram s), maincpu_pc := 0x0800\<rparr>)))"
proof -
  have "length (m_lowram s) = 0x4000" using run_ok [OF assms] by (simp add: ok_6502_def sizes_ok_def)
  then show ?thesis using write_bytes_low [of "0x0800" bs s now] by (auto simp: quickload_cb_def)
qed

theorem quickload_6502_witness:
  "\<exists>s s'. machine_reset (machine_start fresh_machine) = Some s \<and>
     quickload_cb attotime_zero 3 [0xa9, 0x01, 0x60] s = Some (Inr s') \<and> maincpu_pc s' = 0x0800 \<and>
     quickload_cb attotime_zero 0 [] s = Some (Inl INVALIDLENGTH)"
proof -
  obtain s where s: "machine_reset (machine_start fresh_machine) = Some s" using started_ok [OF fresh_machine_ok] by blast
  note q = quickload_6502 [OF run_6502.started [OF fresh_machine_ok s]]
  show ?thesis using s q [of attotime_zero 3 "[0xa9, 0x01, 0x60]"] q [of attotime_zero 0 "[]"] by simp
qed

end
