(* ===== verification/Memory_Access.thy ===== *)
theory Memory_Access
  imports Rosco_Prelude "HOL-Library.Monad_Syntax"
begin

unbundle bit_operations_syntax

text \<open>
  The decomposition of an access into accesses of the width of the bus (\<^verbatim>\<open>memory_read_generic\<close> and \<^verbatim>\<open>memory_write_generic\<close> of
  \<^verbatim>\<open>src/emu/emumem.h\<close>), for every bus width, access width, byte order and alignment. The widths are the template
  parameters: 0 to 3 for 8 to 64 bits. A value of a type of \<open>n\<close> bits is a natural number; \<open>take_bit n\<close> is written where C++
  truncates. The native reader and writer act on a state and may fail.
\<close>

datatype endianness_t = ENDIANNESS_LITTLE | ENDIANNESS_BIG

type_synonym 's rop_t = "nat \<Rightarrow> nat \<Rightarrow> 's \<Rightarrow> (nat \<times> 's) option"
type_synonym 's wop_t = "nat \<Rightarrow> nat \<Rightarrow> nat \<Rightarrow> 's \<Rightarrow> 's option"

section \<open>Constants of an access\<close>

abbreviation BYTES :: "nat \<Rightarrow> nat" where "BYTES w \<equiv> 2 ^ w"
abbreviation WBITS :: "nat \<Rightarrow> nat" where "WBITS w \<equiv> 8 * BYTES w"

definition NATIVE_STEP :: "nat \<Rightarrow> int \<Rightarrow> nat" where
  "NATIVE_STEP Width AddrShift = (if 0 \<le> AddrShift then push_bit (nat AddrShift) (BYTES Width) else drop_bit (nat (- AddrShift)) (BYTES Width))"

definition NATIVE_MASK :: "nat \<Rightarrow> int \<Rightarrow> nat" where
  "NATIVE_MASK Width AddrShift = (if 0 \<le> int Width + AddrShift then mask (nat (int Width + AddrShift)) else 0)"

definition memory_offset_to_byte :: "nat \<Rightarrow> int \<Rightarrow> nat" where
  "memory_offset_to_byte offset AddrShift =
     (if AddrShift < 0 then take_bit 32 (push_bit (nat (- AddrShift)) offset) else drop_bit (nat AddrShift) offset)"

text \<open>\<^verbatim>\<open>address & ~NATIVE_MASK\<close> on 32 bits, and the addition of \<^verbatim>\<open>offs_t\<close>.\<close>

definition clear_mask :: "nat \<Rightarrow> nat \<Rightarrow> nat" where
  "clear_mask address m = unat ((word_of_nat address :: u32) AND NOT (word_of_nat m))"

definition offs_add :: "nat \<Rightarrow> nat \<Rightarrow> nat" where
  "offs_add address step = take_bit 32 (address + step)"

lemma offs_add_eq: "a + n < 2 ^ 32 \<Longrightarrow> offs_add a n = a + n"
  by (simp add: offs_add_def take_bit_nat_eq_self)

text \<open>An access with an empty mask is left out.\<close>

definition masked_rop :: "'s rop_t \<Rightarrow> 's rop_t" where
  "masked_rop rop address curmask s = (if curmask \<noteq> 0 then rop address curmask s else Some (0, s))"

definition masked_wop :: "'s wop_t \<Rightarrow> 's wop_t" where
  "masked_wop wop address data curmask s = (if curmask \<noteq> 0 then wop address data curmask s else Some s)"

section \<open>Reading\<close>

text \<open>The loops over the middle units: address, bit offset and result so far, and the number of units left.\<close>

fun read_middle_little :: "nat \<Rightarrow> int \<Rightarrow> nat \<Rightarrow> 's rop_t \<Rightarrow> nat \<Rightarrow> nat \<Rightarrow> nat \<Rightarrow> nat \<Rightarrow> nat \<Rightarrow> 's \<Rightarrow> ((nat \<times> nat \<times> nat) \<times> 's) option" where
  "read_middle_little W sh T rop msk 0 address offsbits result s = Some ((address, offsbits, result), s)"
| "read_middle_little W sh T rop msk (Suc n) address offsbits result s = do {
     let address = offs_add address (NATIVE_STEP W sh);
     let curmask = take_bit (WBITS W) (drop_bit offsbits msk);
     (v, s) \<leftarrow> masked_rop rop address curmask s;
     read_middle_little W sh T rop msk n address (offsbits + WBITS W) (result OR take_bit (WBITS T) (push_bit offsbits v)) s
   }"

fun read_middle_big :: "nat \<Rightarrow> int \<Rightarrow> nat \<Rightarrow> 's rop_t \<Rightarrow> nat \<Rightarrow> nat \<Rightarrow> nat \<Rightarrow> nat \<Rightarrow> nat \<Rightarrow> 's \<Rightarrow> ((nat \<times> nat \<times> nat) \<times> 's) option" where
  "read_middle_big W sh T rop msk 0 address offsbits result s = Some ((address, offsbits, result), s)"
| "read_middle_big W sh T rop msk (Suc n) address offsbits result s = do {
     let offsbits = offsbits - WBITS W;
     let address = offs_add address (NATIVE_STEP W sh);
     let curmask = take_bit (WBITS W) (drop_bit offsbits msk);
     (v, s) \<leftarrow> masked_rop rop address curmask s;
     read_middle_big W sh T rop msk n address offsbits (result OR take_bit (WBITS T) (push_bit offsbits v)) s
   }"

text \<open>The native unit is as large as the access or larger and the access straddles a boundary: two reads.\<close>

definition read_straddle :: "nat \<Rightarrow> int \<Rightarrow> endianness_t \<Rightarrow> nat \<Rightarrow> 's rop_t \<Rightarrow> nat \<Rightarrow> nat \<Rightarrow> nat \<Rightarrow> 's \<Rightarrow> (nat \<times> 's) option" where
  "read_straddle W sh Endian T rop address offsbits msk s =
     (case Endian of
        ENDIANNESS_LITTLE \<Rightarrow> do {
          (v, s) \<leftarrow> masked_rop rop address (take_bit (WBITS W) (push_bit offsbits msk)) s;
          let result = take_bit (WBITS T) (drop_bit offsbits v);
          let offsbits = WBITS W - offsbits;
          (v, s) \<leftarrow> masked_rop rop (offs_add address (NATIVE_STEP W sh)) (drop_bit offsbits msk) s;
          Some (result OR take_bit (WBITS T) (push_bit offsbits v), s)
        }
      | ENDIANNESS_BIG \<Rightarrow> do {
          let justify = WBITS W - WBITS T;
          let ljmask = take_bit (WBITS W) (push_bit justify msk);
          (v, s) \<leftarrow> masked_rop rop address (drop_bit offsbits ljmask) s;
          let result = take_bit (WBITS W) (push_bit offsbits v);
          let offsbits = WBITS W - offsbits;
          (v, s) \<leftarrow> masked_rop rop (offs_add address (NATIVE_STEP W sh)) (take_bit (WBITS W) (push_bit offsbits ljmask)) s;
          Some (take_bit (WBITS T) (drop_bit justify (result OR drop_bit offsbits v)), s)
        })"

text \<open>The native unit is smaller than the access: a first unit, the middle ones, and a last one when the access is not aligned.\<close>

definition read_split :: "nat \<Rightarrow> int \<Rightarrow> endianness_t \<Rightarrow> nat \<Rightarrow> bool \<Rightarrow> 's rop_t \<Rightarrow> nat \<Rightarrow> nat \<Rightarrow> nat \<Rightarrow> 's \<Rightarrow> (nat \<times> 's) option" where
  "read_split W sh Endian T Aligned rop address offsbits msk s =
     (case Endian of
        ENDIANNESS_LITTLE \<Rightarrow> do {
          (v, s) \<leftarrow> masked_rop rop address (take_bit (WBITS W) (push_bit offsbits msk)) s;
          ((address, offsbits, result), s) \<leftarrow>
            read_middle_little W sh T rop msk (BYTES T div BYTES W - 1) address (WBITS W - offsbits) (drop_bit offsbits v) s;
          if \<not> Aligned \<and> offsbits < WBITS T then do {
            (v, s) \<leftarrow> masked_rop rop (offs_add address (NATIVE_STEP W sh)) (take_bit (WBITS W) (drop_bit offsbits msk)) s;
            Some (result OR take_bit (WBITS T) (push_bit offsbits v), s)
          } else Some (result, s)
        }
      | ENDIANNESS_BIG \<Rightarrow> do {
          let offsbits = WBITS T - (WBITS W - offsbits);
          (v, s) \<leftarrow> masked_rop rop address (take_bit (WBITS W) (drop_bit offsbits msk)) s;
          ((address, offsbits, result), s) \<leftarrow>
            read_middle_big W sh T rop msk (BYTES T div BYTES W - 1) address offsbits (take_bit (WBITS T) (push_bit offsbits v)) s;
          if \<not> Aligned \<and> offsbits \<noteq> 0 then do {
            let offsbits = WBITS W - offsbits;
            (v, s) \<leftarrow> masked_rop rop (offs_add address (NATIVE_STEP W sh)) (take_bit (WBITS W) (push_bit offsbits msk)) s;
            Some (result OR drop_bit offsbits v, s)
          } else Some (result, s)
        })"

text \<open>The single masked read of a wider unit, where it is possible; the bit offset of the access in the unit.\<close>

definition single_offsbits :: "nat \<Rightarrow> int \<Rightarrow> nat \<Rightarrow> bool \<Rightarrow> nat \<Rightarrow> nat" where
  "single_offsbits W sh T Aligned address =
     8 * (memory_offset_to_byte address sh AND (BYTES W - (if Aligned then BYTES T else 1)))"

definition memory_read_generic :: "nat \<Rightarrow> int \<Rightarrow> endianness_t \<Rightarrow> nat \<Rightarrow> bool \<Rightarrow> 's rop_t \<Rightarrow> nat \<Rightarrow> nat \<Rightarrow> 's \<Rightarrow> (nat \<times> 's) option" where
  "memory_read_generic W sh Endian T Aligned rop address msk s =
     (let NM = NATIVE_MASK W sh; o1 = single_offsbits W sh T Aligned address
      in if W = T \<and> (Aligned \<or> address AND NM = 0) then rop (clear_mask address NM) msk s
         else if T < W \<and> (Aligned \<or> o1 + WBITS T \<le> WBITS W) then
           let offsbits = (if Endian \<noteq> ENDIANNESS_LITTLE then WBITS W - WBITS T - o1 else o1)
           in do {
             (v, s) \<leftarrow> rop (clear_mask address NM) (take_bit (WBITS W) (push_bit offsbits msk)) s;
             Some (take_bit (WBITS T) (drop_bit offsbits v), s)
           }
         else
           let offsbits = 8 * (memory_offset_to_byte address sh AND (BYTES W - 1));
               address = clear_mask address NM
           in if T \<le> W then read_straddle W sh Endian T rop address offsbits msk s
              else read_split W sh Endian T Aligned rop address offsbits msk s)"

section \<open>Writing\<close>

fun write_middle_little :: "nat \<Rightarrow> int \<Rightarrow> 's wop_t \<Rightarrow> nat \<Rightarrow> nat \<Rightarrow> nat \<Rightarrow> nat \<Rightarrow> nat \<Rightarrow> 's \<Rightarrow> ((nat \<times> nat) \<times> 's) option" where
  "write_middle_little W sh wop data msk 0 address offsbits s = Some ((address, offsbits), s)"
| "write_middle_little W sh wop data msk (Suc n) address offsbits s = do {
     let address = offs_add address (NATIVE_STEP W sh);
     let curmask = take_bit (WBITS W) (drop_bit offsbits msk);
     s \<leftarrow> masked_wop wop address (take_bit (WBITS W) (drop_bit offsbits data)) curmask s;
     write_middle_little W sh wop data msk n address (offsbits + WBITS W) s
   }"

fun write_middle_big :: "nat \<Rightarrow> int \<Rightarrow> 's wop_t \<Rightarrow> nat \<Rightarrow> nat \<Rightarrow> nat \<Rightarrow> nat \<Rightarrow> nat \<Rightarrow> 's \<Rightarrow> ((nat \<times> nat) \<times> 's) option" where
  "write_middle_big W sh wop data msk 0 address offsbits s = Some ((address, offsbits), s)"
| "write_middle_big W sh wop data msk (Suc n) address offsbits s = do {
     let offsbits = offsbits - WBITS W;
     let address = offs_add address (NATIVE_STEP W sh);
     let curmask = take_bit (WBITS W) (drop_bit offsbits msk);
     s \<leftarrow> masked_wop wop address (take_bit (WBITS W) (drop_bit offsbits data)) curmask s;
     write_middle_big W sh wop data msk n address offsbits s
   }"

definition write_straddle :: "nat \<Rightarrow> int \<Rightarrow> endianness_t \<Rightarrow> nat \<Rightarrow> 's wop_t \<Rightarrow> nat \<Rightarrow> nat \<Rightarrow> nat \<Rightarrow> nat \<Rightarrow> 's \<Rightarrow> 's option" where
  "write_straddle W sh Endian T wop address offsbits data msk s =
     (case Endian of
        ENDIANNESS_LITTLE \<Rightarrow> do {
          s \<leftarrow> masked_wop wop address (take_bit (WBITS W) (push_bit offsbits data)) (take_bit (WBITS W) (push_bit offsbits msk)) s;
          let offsbits = WBITS W - offsbits;
          masked_wop wop (offs_add address (NATIVE_STEP W sh)) (drop_bit offsbits data) (drop_bit offsbits msk) s
        }
      | ENDIANNESS_BIG \<Rightarrow> do {
          let justify = WBITS W - WBITS T;
          let ljdata = take_bit (WBITS W) (push_bit justify data);
          let ljmask = take_bit (WBITS W) (push_bit justify msk);
          s \<leftarrow> masked_wop wop address (drop_bit offsbits ljdata) (drop_bit offsbits ljmask) s;
          let offsbits = WBITS W - offsbits;
          masked_wop wop (offs_add address (NATIVE_STEP W sh)) (take_bit (WBITS W) (push_bit offsbits ljdata)) (take_bit (WBITS W) (push_bit offsbits ljmask)) s
        })"

definition write_split :: "nat \<Rightarrow> int \<Rightarrow> endianness_t \<Rightarrow> nat \<Rightarrow> bool \<Rightarrow> 's wop_t \<Rightarrow> nat \<Rightarrow> nat \<Rightarrow> nat \<Rightarrow> nat \<Rightarrow> 's \<Rightarrow> 's option" where
  "write_split W sh Endian T Aligned wop address offsbits data msk s =
     (case Endian of
        ENDIANNESS_LITTLE \<Rightarrow> do {
          s \<leftarrow> masked_wop wop address (take_bit (WBITS W) (push_bit offsbits data)) (take_bit (WBITS W) (push_bit offsbits msk)) s;
          ((address, offsbits), s) \<leftarrow> write_middle_little W sh wop data msk (BYTES T div BYTES W - 1) address (WBITS W - offsbits) s;
          if \<not> Aligned \<and> offsbits < WBITS T
          then masked_wop wop (offs_add address (NATIVE_STEP W sh)) (take_bit (WBITS W) (drop_bit offsbits data)) (take_bit (WBITS W) (drop_bit offsbits msk)) s
          else Some s
        }
      | ENDIANNESS_BIG \<Rightarrow> do {
          let offsbits = WBITS T - (WBITS W - offsbits);
          s \<leftarrow> masked_wop wop address (take_bit (WBITS W) (drop_bit offsbits data)) (take_bit (WBITS W) (drop_bit offsbits msk)) s;
          ((address, offsbits), s) \<leftarrow> write_middle_big W sh wop data msk (BYTES T div BYTES W - 1) address offsbits s;
          if \<not> Aligned \<and> offsbits \<noteq> 0 then do {
            let offsbits = WBITS W - offsbits;
            masked_wop wop (offs_add address (NATIVE_STEP W sh)) (take_bit (WBITS W) (push_bit offsbits data)) (take_bit (WBITS W) (push_bit offsbits msk)) s
          } else Some s
        })"

definition memory_write_generic :: "nat \<Rightarrow> int \<Rightarrow> endianness_t \<Rightarrow> nat \<Rightarrow> bool \<Rightarrow> 's wop_t \<Rightarrow> nat \<Rightarrow> nat \<Rightarrow> nat \<Rightarrow> 's \<Rightarrow> 's option" where
  "memory_write_generic W sh Endian T Aligned wop address data msk s =
     (let NM = NATIVE_MASK W sh; o1 = single_offsbits W sh T Aligned address
      in if W = T \<and> (Aligned \<or> address AND NM = 0) then wop (clear_mask address NM) data msk s
         else if T < W \<and> (Aligned \<or> o1 + WBITS T \<le> WBITS W) then
           let offsbits = (if Endian \<noteq> ENDIANNESS_LITTLE then WBITS W - WBITS T - o1 else o1)
           in wop (clear_mask address NM) (take_bit (WBITS W) (push_bit offsbits data)) (take_bit (WBITS W) (push_bit offsbits msk)) s
         else
           let offsbits = 8 * (memory_offset_to_byte address sh AND (BYTES W - 1));
               address = clear_mask address NM
           in if T \<le> W then write_straddle W sh Endian T wop address offsbits data msk s
              else write_split W sh Endian T Aligned wop address offsbits data msk s)"

section \<open>Byte addressed spaces\<close>

text \<open>The constants of an access when an address is that of a byte.\<close>

lemma NATIVE_STEP_0 [simp]: "NATIVE_STEP W 0 = BYTES W"
  by (simp add: NATIVE_STEP_def)

lemma NATIVE_MASK_0 [simp]: "NATIVE_MASK W 0 = mask W"
  by (simp add: NATIVE_MASK_def)

lemma memory_offset_to_byte_0 [simp]: "memory_offset_to_byte a 0 = a"
  by (simp add: memory_offset_to_byte_def)

lemma and_mask_mod [simp]: "(a :: nat) AND mask W = a mod BYTES W" "(a :: nat) AND (BYTES W - Suc 0) = a mod BYTES W"
proof -
  show *: "a AND mask W = a mod BYTES W" by (simp add: take_bit_eq_mask [symmetric] take_bit_eq_mod)
  then show "a AND (BYTES W - Suc 0) = a mod BYTES W" unfolding mask_nat_def by simp
qed

lemma bit_less_exp: "(a :: nat) < 2 ^ k \<Longrightarrow> bit a n \<Longrightarrow> n < k"
  by (metis bit_take_bit_iff take_bit_nat_eq_self)

lemma clear_mask_mod:
  assumes "a < 2 ^ 32"
  shows "clear_mask a (mask W) = a - a mod BYTES W"
proof -
  have "clear_mask a (mask W) = push_bit W (drop_bit W a)"
    using bit_less_exp [OF assms] by (auto intro!: bit_eqI simp: clear_mask_def bit_simps)
  also have "\<dots> = a - a mod BYTES W" by (simp add: push_bit_eq_mult drop_bit_eq_div minus_mod_eq_div_mult)
  finally show ?thesis .
qed

lemma and_aligned:
  fixes a :: nat
  assumes "T \<le> W" "BYTES T dvd a"
  shows "a AND (BYTES W - BYTES T) = a mod BYTES W"
proof -
  have "(2 :: nat) ^ W - 2 ^ T = push_bit T (mask (W - T))"
    using assms(1) by (simp add: push_bit_eq_mult mask_eq_exp_minus_1 diff_mult_distrib flip: power_add)
  moreover have "\<not> bit a n" if "n < T" for n
    using assms(2) that by (auto simp: dvd_def bit_simps simp flip: push_bit_eq_mult mult.commute [of _ "2 ^ T"])
  ultimately have "a AND (2 ^ W - 2 ^ T) = take_bit W a"
    by (intro bit_eqI) (auto simp: bit_simps, (meson not_less diff_less_mono)+)
  then show ?thesis by (simp add: take_bit_eq_mod)
qed

text \<open>The position in memory of the byte that holds the bits from \<open>8 * i\<close> on, in a value of \<open>n\<close> bytes.\<close>

definition lane :: "endianness_t \<Rightarrow> nat \<Rightarrow> nat \<Rightarrow> nat" where
  "lane E n i = (if E = ENDIANNESS_LITTLE then i else n - 1 - i)"

lemma lane_less [simp]: "i < n \<Longrightarrow> lane E n i < n"
  by (auto simp: lane_def)

lemma lane_lane [simp]: "i < n \<Longrightarrow> lane E n (lane E n i) = i"
  by (auto simp: lane_def)

text \<open>What a handler of the width of the bus promises: it reads and writes the bytes of a memory, at least the bits in the mask.\<close>

locale native_bus =
  fixes W :: nat and E :: endianness_t and lo hi :: nat and inv :: "'s \<Rightarrow> bool" and byte :: "'s \<Rightarrow> nat \<Rightarrow> u8"
    and rop :: "'s rop_t" and wop :: "'s wop_t"
  assumes hi_le: "hi \<le> 2 ^ 32" and lo_dvd: "BYTES W dvd lo" and hi_dvd: "BYTES W dvd hi"
    and rop_unit: "inv s \<Longrightarrow> BYTES W dvd a \<Longrightarrow> lo \<le> a \<Longrightarrow> a < hi \<Longrightarrow> m < 2 ^ WBITS W \<Longrightarrow>
      \<exists>v. rop a m s = Some (v, s) \<and> v < 2 ^ WBITS W \<and> (\<forall>n. bit m n \<longrightarrow> bit v n = bit (byte s (a + lane E (BYTES W) (n div 8))) (n mod 8))"
    and wop_unit: "inv s \<Longrightarrow> BYTES W dvd a \<Longrightarrow> lo \<le> a \<Longrightarrow> a < hi \<Longrightarrow> d < 2 ^ WBITS W \<Longrightarrow> m < 2 ^ WBITS W \<Longrightarrow>
      \<exists>s'. wop a d m s = Some s' \<and> inv s' \<and>
        (\<forall>b j. j < 8 \<longrightarrow> bit (byte s' b) j = (if a \<le> b \<and> b < a + BYTES W \<and> bit m (8 * lane E (BYTES W) (b - a) + j)
          then bit d (8 * lane E (BYTES W) (b - a) + j) else bit (byte s b) j))"
begin

text \<open>Part of a result: the bits of \<open>v\<close> are in a range, and those of the range and the mask are those of the memory.\<close>

definition covers :: "nat \<Rightarrow> nat \<Rightarrow> nat \<Rightarrow> 's \<Rightarrow> nat \<Rightarrow> nat \<Rightarrow> nat \<Rightarrow> bool" where
  "covers addr T msk s x y v \<longleftrightarrow> (\<forall>n. bit v n \<longrightarrow> x \<le> n \<and> n < y) \<and>
     (\<forall>n. x \<le> n \<longrightarrow> n < y \<longrightarrow> bit msk n \<longrightarrow> bit v n = bit (byte s (addr + lane E (BYTES T) (n div 8))) (n mod 8))"

lemma covers_or:
  assumes "covers addr T msk s x y v" "covers addr T msk s y z w" "x \<le> y" "y \<le> z"
  shows "covers addr T msk s x z (v OR w)" "covers addr T msk s x z (w OR v)"
  using assms unfolding covers_def bit_or_iff by (meson leD le_less_linear less_le_trans order_trans)+

text \<open>A unit read at a displacement of \<open>d\<close> bytes into the result, and one read \<open>d\<close> bytes before its start.\<close>

lemma masked_rop_unit:
  assumes "inv s" "BYTES W dvd a" "lo \<le> a" "a < hi" "m < 2 ^ WBITS W"
  shows "\<exists>v. masked_rop rop a m s = Some (v, s) \<and> v < 2 ^ WBITS W \<and>
    (\<forall>n. bit m n \<longrightarrow> bit v n = bit (byte s (a + lane E (BYTES W) (n div 8))) (n mod 8))"
  using rop_unit [OF assms] by (auto simp: masked_rop_def)

lemma part_push:
  assumes v: "v < 2 ^ WBITS W" "\<And>n. bit m n \<Longrightarrow> bit v n = bit (byte s (a + lane E (BYTES W) (n div 8))) (n mod 8)"
    and m: "m = take_bit (WBITS W) (drop_bit (8 * d) msk)"
    and disp: "\<And>j. j < BYTES W \<Longrightarrow> j + d < BYTES T \<Longrightarrow> a + lane E (BYTES W) j = addr + lane E (BYTES T) (j + d)"
    and up: "z = min (8 * d + WBITS W) (WBITS T)"
  shows "covers addr T msk s (8 * d) z (take_bit (WBITS T) (push_bit (8 * d) v))"
proof -
  have "bit v (n - 8 * d) = bit (byte s (addr + lane E (BYTES T) (n div 8))) (n mod 8)"
    if n: "8 * d \<le> n" "n < 8 * d + WBITS W" "n < WBITS T" "bit msk n" for n
  proof -
    have e: "(n - 8 * d) div 8 = n div 8 - d" "(n - 8 * d) mod 8 = n mod 8" "n div 8 - d + d = n div 8"
      using n(1) by (auto dest!: le_Suc_ex)
    have "bit m (n - 8 * d)" using n m by (simp add: bit_simps)
    then have "bit v (n - 8 * d) = bit (byte s (a + lane E (BYTES W) (n div 8 - d))) (n mod 8)" using v(2) e by metis
    moreover have "n div 8 - d < BYTES W" "n div 8 < BYTES T" using n by auto
    ultimately show ?thesis using disp [of "n div 8 - d"] e(3) by simp
  qed
  then show ?thesis using bit_less_exp [OF v(1)] up by (fastforce simp: covers_def bit_simps)
qed

lemma part_drop:
  assumes v: "v < 2 ^ WBITS W" "\<And>n. bit m n \<Longrightarrow> bit v n = bit (byte s (a + lane E (BYTES W) (n div 8))) (n mod 8)"
    and m: "m = take_bit (WBITS W) (push_bit (8 * d) msk)"
    and disp: "\<And>j. j + d < BYTES W \<Longrightarrow> j < BYTES T \<Longrightarrow> a + lane E (BYTES W) (j + d) = addr + lane E (BYTES T) j"
    and up: "z = min (WBITS W - 8 * d) (WBITS T)"
  shows "covers addr T msk s 0 z (take_bit (WBITS T) (drop_bit (8 * d) v))"
proof -
  have "bit v (8 * d + n) = bit (byte s (addr + lane E (BYTES T) (n div 8))) (n mod 8)"
    if n: "n + 8 * d < WBITS W" "n < WBITS T" "bit msk n" for n
  proof -
    have "bit m (8 * d + n)" using n m by (simp add: bit_simps)
    then have "bit v (8 * d + n) = bit (byte s (a + lane E (BYTES W) (n div 8 + d))) (n mod 8)"
      using v(2) [of "8 * d + n"] by (simp add: add.commute)
    moreover have "n div 8 + d < BYTES W" "n div 8 < BYTES T" using n by auto
    ultimately show ?thesis using disp [of "n div 8"] by simp
  qed
  then show ?thesis using bit_less_exp [OF v(1)] up by (fastforce simp: covers_def bit_simps)
qed

lemmas split_run = Let_def Option.bind.bind_lunit prod.case NATIVE_STEP_0

lemma dvd_unit: "BYTES W dvd addr - addr mod BYTES W" "addr - addr mod BYTES W + addr mod BYTES W = addr"
  by (simp_all add: minus_mod_eq_mult_div)

text \<open>The units an access touches are in the range of the memory.\<close>

lemma unit_in_range:
  assumes "lo \<le> addr"
  shows "lo \<le> addr - addr mod BYTES W"
proof -
  obtain k where k: "lo = BYTES W * k" using lo_dvd by auto
  then have "k \<le> addr div BYTES W" using assms by (simp add: less_eq_div_iff_mult_less_eq mult.commute)
  then show ?thesis using k by (simp add: minus_mod_eq_mult_div)
qed

lemma unit_less: "addr + BYTES T \<le> z \<Longrightarrow> addr - addr mod BYTES W < z"
  by (rule order.strict_trans1 [OF diff_le_self]) (use less_le_trans [of addr "addr + BYTES T" z] in simp)

lemma straddle_bits:
  fixes N M k msk v w :: nat
  assumes "k < N" "M \<le> N" "N < k + M" and m: "msk < 2 ^ (8 * M)"
  shows "drop_bit (8 * N - 8 * k) msk = take_bit (8 * N) (drop_bit (8 * (N - k)) msk)"
    and "drop_bit (8 * k) (take_bit (8 * N) (push_bit (8 * N - 8 * M) msk)) = take_bit (8 * N) (drop_bit (8 * (k + M - N)) msk)"
    and "take_bit (8 * N) (push_bit (8 * N - 8 * k) (take_bit (8 * N) (push_bit (8 * N - 8 * M) msk))) =
      take_bit (8 * N) (push_bit (8 * ((N - k) + (N - M))) msk)"
    and "take_bit (8 * M) (drop_bit (8 * N - 8 * M) (take_bit (8 * N) (push_bit (8 * k) v) OR drop_bit (8 * N - 8 * k) w)) =
      take_bit (8 * M) (push_bit (8 * (k + M - N)) v) OR take_bit (8 * M) (drop_bit (8 * ((N - k) + (N - M))) w)"
proof -
  obtain a where a: "N = k + a" using assms(1) less_imp_add_positive by metis
  obtain b where b: "k + M = N + b" using assms(3) less_imp_add_positive by metis
  obtain c where c: "k = b + c" using a b assms(2) le_Suc_ex [of b k] by auto
  have e: "8 * N - 8 * k = 8 * a" "N - k = a" "8 * N - 8 * M = 8 * c" "k + M - N = b" "N - M = c" "k = b + c" "N = a + b + c" "M = a + b"
    using a b c by auto
  have bits: "n < 8 * (a + b)" if "bit msk n" for n using bit_less_exp [OF m that] e by simp
  show "drop_bit (8 * N - 8 * k) msk = take_bit (8 * N) (drop_bit (8 * (N - k)) msk)"
    unfolding e using bits by (intro bit_eqI) (fastforce simp: bit_simps)
  show "drop_bit (8 * k) (take_bit (8 * N) (push_bit (8 * N - 8 * M) msk)) = take_bit (8 * N) (drop_bit (8 * (k + M - N)) msk)"
    unfolding e using bits by (intro bit_eqI) (fastforce simp: bit_simps)
  show "take_bit (8 * N) (push_bit (8 * N - 8 * k) (take_bit (8 * N) (push_bit (8 * N - 8 * M) msk))) =
      take_bit (8 * N) (push_bit (8 * ((N - k) + (N - M))) msk)"
    unfolding e using bits by (intro bit_eqI) (fastforce simp: bit_simps)
  show "take_bit (8 * M) (drop_bit (8 * N - 8 * M) (take_bit (8 * N) (push_bit (8 * k) v) OR drop_bit (8 * N - 8 * k) w)) =
      take_bit (8 * M) (push_bit (8 * (k + M - N)) v) OR take_bit (8 * M) (drop_bit (8 * ((N - k) + (N - M))) w)"
    unfolding e by (intro bit_eqI) (auto simp: bit_simps algebra_simps)
qed

lemma read_straddle_covers:
  assumes "inv s" and k: "k = addr mod BYTES W" "k \<noteq> 0" "BYTES W < k + BYTES T" "T \<le> W"
    and r: "lo \<le> addr" "addr + BYTES T \<le> hi" and m: "msk < 2 ^ WBITS T"
  shows "\<exists>v. read_straddle W 0 E T rop (addr - k) (8 * k) msk s = Some (v, s) \<and> covers addr T msk s 0 (WBITS T) v"
proof -
  let ?a = "addr - k"
  have N: "k < BYTES W" "BYTES T \<le> BYTES W" "?a + k = addr" using k dvd_unit(2) [of addr] by (simp_all add: power_increasing)
  have a: "BYTES W dvd ?a" "lo \<le> ?a" "?a < hi" unfolding k(1) by (rule dvd_unit(1) unit_in_range [OF r(1)] unit_less [OF r(2)])+
  have b: "BYTES W dvd ?a + BYTES W" "lo \<le> ?a + BYTES W" "?a + BYTES W < hi"
    using a(2) N(3) k(3) r(2) dvd_add [OF a(1) dvd_refl] by linarith+
  have o: "offs_add ?a (BYTES W) = ?a + BYTES W" using b(3) hi_le by (intro offs_add_eq) linarith
  show ?thesis
  proof (cases E)
    case ENDIANNESS_LITTLE
    let ?m1 = "take_bit (WBITS W) (push_bit (8 * k) msk)" and ?m2 = "drop_bit (WBITS W - 8 * k) msk"
    have m2: "?m2 = take_bit (WBITS W) (drop_bit (8 * (BYTES W - k)) msk)"
      by (rule straddle_bits(1) [OF N(1,2) k(3) m])
    obtain v1 where v1: "masked_rop rop ?a ?m1 s = Some (v1, s)" "v1 < 2 ^ WBITS W"
        "\<And>n. bit ?m1 n \<Longrightarrow> bit v1 n = bit (byte s (?a + lane E (BYTES W) (n div 8))) (n mod 8)"
      using masked_rop_unit [OF assms(1) a, of ?m1] by (auto simp: take_bit_nat_less_exp)
    obtain v2 where v2: "masked_rop rop (?a + BYTES W) ?m2 s = Some (v2, s)" "v2 < 2 ^ WBITS W"
        "\<And>n. bit ?m2 n \<Longrightarrow> bit v2 n = bit (byte s (?a + BYTES W + lane E (BYTES W) (n div 8))) (n mod 8)"
      using masked_rop_unit [OF assms(1) b, of ?m2] m2 by (auto simp: take_bit_nat_less_exp)
    have "covers addr T msk s 0 (8 * (BYTES W - k)) (take_bit (WBITS T) (drop_bit (8 * k) v1))"
      using N k(2,3) by (intro part_drop [OF v1(2,3)]) (auto simp: lane_def ENDIANNESS_LITTLE simp del: power_increasing_iff)
    moreover have "covers addr T msk s (8 * (BYTES W - k)) (WBITS T) (take_bit (WBITS T) (push_bit (8 * (BYTES W - k)) v2))"
      using N k(2,3) by (intro part_push [OF v2(2,3) m2]) (auto simp: lane_def ENDIANNESS_LITTLE simp del: power_increasing_iff)
    ultimately have "covers addr T msk s 0 (WBITS T) (take_bit (WBITS T) (drop_bit (8 * k) v1) OR take_bit (WBITS T) (push_bit (8 * (BYTES W - k)) v2))"
      using N k(2,3) by (intro covers_or) (auto simp del: power_increasing_iff)
    then show ?thesis by (simp add: read_straddle_def ENDIANNESS_LITTLE v1(1) v2(1) o right_diff_distrib')
  next
    case ENDIANNESS_BIG
    let ?lj = "take_bit (WBITS W) (push_bit (WBITS W - WBITS T) msk)"
    let ?m1 = "drop_bit (8 * k) ?lj" and ?m2 = "take_bit (WBITS W) (push_bit (WBITS W - 8 * k) ?lj)"
    let ?d1 = "k + BYTES T - BYTES W" and ?d2 = "(BYTES W - k) + (BYTES W - BYTES T)"
    have m1: "?m1 = take_bit (WBITS W) (drop_bit (8 * ?d1) msk)" by (rule straddle_bits(2) [OF N(1,2) k(3) m])
    have m2: "?m2 = take_bit (WBITS W) (push_bit (8 * ?d2) msk)" by (rule straddle_bits(3) [OF N(1,2) k(3) m])
    obtain v1 where v1: "masked_rop rop ?a ?m1 s = Some (v1, s)" "v1 < 2 ^ WBITS W"
        "\<And>n. bit ?m1 n \<Longrightarrow> bit v1 n = bit (byte s (?a + lane E (BYTES W) (n div 8))) (n mod 8)"
      using masked_rop_unit [OF assms(1) a, of ?m1] m1 by (auto simp: take_bit_nat_less_exp)
    obtain v2 where v2: "masked_rop rop (?a + BYTES W) ?m2 s = Some (v2, s)" "v2 < 2 ^ WBITS W"
        "\<And>n. bit ?m2 n \<Longrightarrow> bit v2 n = bit (byte s (?a + BYTES W + lane E (BYTES W) (n div 8))) (n mod 8)"
      using masked_rop_unit [OF assms(1) b, of ?m2] by (auto simp: take_bit_nat_less_exp)
    have "covers addr T msk s (8 * ?d1) (WBITS T) (take_bit (WBITS T) (push_bit (8 * ?d1) v1))"
      using N k(2,3) by (intro part_push [OF v1(2,3) m1]) (auto simp: lane_def ENDIANNESS_BIG simp del: power_increasing_iff)
    moreover have "covers addr T msk s 0 (8 * ?d1) (take_bit (WBITS T) (drop_bit (8 * ?d2) v2))"
      using N k(2,3) by (intro part_drop [OF v2(2,3) m2]) (auto simp: lane_def ENDIANNESS_BIG simp del: power_increasing_iff)
    ultimately have c: "covers addr T msk s 0 (WBITS T) (take_bit (WBITS T) (push_bit (8 * ?d1) v1) OR take_bit (WBITS T) (drop_bit (8 * ?d2) v2))"
      using N(1) by (intro covers_or(2)) auto
    have "take_bit (WBITS T) (drop_bit (WBITS W - WBITS T) (take_bit (WBITS W) (push_bit (8 * k) v1) OR drop_bit (WBITS W - 8 * k) v2)) =
        take_bit (WBITS T) (push_bit (8 * ?d1) v1) OR take_bit (WBITS T) (drop_bit (8 * ?d2) v2)"
      by (rule straddle_bits(4) [OF N(1,2) k(3) m])
    then show ?thesis using c by (simp add: read_straddle_def ENDIANNESS_BIG v1(1) v2(1) o Let_def)
  qed
qed

text \<open>The loops over the middle units: the result grows by one unit in each step.\<close>

lemma read_middle_little_covers:
  assumes "inv s" "E = ENDIANNESS_LITTLE" "BYTES W dvd a" "lo \<le> a" "a + n * BYTES W < hi"
    "a + BYTES W = addr + d" "d + n * BYTES W \<le> BYTES T" "covers addr T msk s 0 (8 * d) r"
  shows "\<exists>r'. read_middle_little W 0 T rop msk n a (8 * d) r s = Some ((a + n * BYTES W, 8 * (d + n * BYTES W), r'), s) \<and>
    covers addr T msk s 0 (8 * (d + n * BYTES W)) r'"
  using assms
proof (induction n arbitrary: a d r)
  case (Suc n)
  let ?a = "a + BYTES W" and ?m = "take_bit (WBITS W) (drop_bit (8 * d) msk)"
  have a: "BYTES W dvd ?a" "lo \<le> ?a" "?a < hi" "?a + n * BYTES W < hi" using Suc.prems(3-5) dvd_add [OF Suc.prems(3) dvd_refl] by auto
  have o: "offs_add a (BYTES W) = ?a" using a(3) hi_le by (intro offs_add_eq) linarith
  obtain v where v: "masked_rop rop ?a ?m s = Some (v, s)" "v < 2 ^ WBITS W"
      "\<And>n. bit ?m n \<Longrightarrow> bit v n = bit (byte s (?a + lane E (BYTES W) (n div 8))) (n mod 8)"
    using masked_rop_unit [OF Suc.prems(1) a(1-3), of ?m] by (auto simp: take_bit_nat_less_exp)
  have "covers addr T msk s (8 * d) (8 * (d + BYTES W)) (take_bit (WBITS T) (push_bit (8 * d) v))"
    using Suc.prems(2,6,7) by (intro part_push [OF v(2,3) refl]) (auto simp: lane_def)
  then have "covers addr T msk s 0 (8 * (d + BYTES W)) (r OR take_bit (WBITS T) (push_bit (8 * d) v))"
    using Suc.prems(8) by (intro covers_or) auto
  moreover have "?a + BYTES W = addr + (d + BYTES W)" "d + BYTES W + n * BYTES W \<le> BYTES T" using Suc.prems(6,7) by auto
  ultimately have "\<exists>r'. read_middle_little W 0 T rop msk n ?a (8 * (d + BYTES W)) (r OR take_bit (WBITS T) (push_bit (8 * d) v)) s =
      Some ((?a + n * BYTES W, 8 * (d + BYTES W + n * BYTES W), r'), s) \<and> covers addr T msk s 0 (8 * (d + BYTES W + n * BYTES W)) r'"
    by (intro Suc.IH [OF Suc.prems(1,2) a(1,2,4)])
  moreover have "8 * (d + BYTES W) = 8 * d + WBITS W" by simp
  ultimately show ?case by (simp only: read_middle_little.simps NATIVE_STEP_0 o Let_def v(1) Option.bind.bind_lunit prod.case mult_Suc add.assoc)
qed simp

lemma read_middle_big_covers:
  assumes "inv s" "E = ENDIANNESS_BIG" "BYTES W dvd a" "lo \<le> a" "a + n * BYTES W < hi"
    "a + BYTES W + d = addr + BYTES T" "n * BYTES W \<le> d" "d \<le> BYTES T" "covers addr T msk s (8 * d) (WBITS T) r"
  shows "\<exists>r'. read_middle_big W 0 T rop msk n a (8 * d) r s = Some ((a + n * BYTES W, 8 * (d - n * BYTES W), r'), s) \<and>
    covers addr T msk s (8 * (d - n * BYTES W)) (WBITS T) r'"
  using assms
proof (induction n arbitrary: a d r)
  case (Suc n)
  let ?a = "a + BYTES W" and ?d = "d - BYTES W"
  let ?m = "take_bit (WBITS W) (drop_bit (8 * ?d) msk)"
  have a: "BYTES W dvd ?a" "lo \<le> ?a" "?a < hi" "?a + n * BYTES W < hi" using Suc.prems(3-5) dvd_add [OF Suc.prems(3) dvd_refl] by auto
  have o: "offs_add a (BYTES W) = ?a" using a(3) hi_le by (intro offs_add_eq) linarith
  have d: "BYTES W \<le> d" "8 * d - WBITS W = 8 * ?d" "?d + BYTES W = d" "n * BYTES W \<le> ?d" "?a + BYTES W + ?d = addr + BYTES T" "?d \<le> BYTES T"
    using Suc.prems(6,7,8) by auto
  obtain v where v: "masked_rop rop ?a ?m s = Some (v, s)" "v < 2 ^ WBITS W"
      "\<And>n. bit ?m n \<Longrightarrow> bit v n = bit (byte s (?a + lane E (BYTES W) (n div 8))) (n mod 8)"
    using masked_rop_unit [OF Suc.prems(1) a(1-3), of ?m] by (auto simp: take_bit_nat_less_exp)
  have "covers addr T msk s (8 * ?d) (8 * d) (take_bit (WBITS T) (push_bit (8 * ?d) v))"
    using Suc.prems(2,8) d by (intro part_push [OF v(2,3) refl]) (auto simp: lane_def)
  then have "covers addr T msk s (8 * ?d) (WBITS T) (r OR take_bit (WBITS T) (push_bit (8 * ?d) v))"
    using Suc.prems(8,9) by (intro covers_or(2)) auto
  from Suc.IH [OF Suc.prems(1,2) a(1,2,4) d(5,4,6) this]
  show ?case by (simp only: read_middle_big.simps NATIVE_STEP_0 d(2) o Let_def v(1) Option.bind.bind_lunit prod.case mult_Suc add.assoc diff_diff_left)
qed simp

lemma take_bit_drop_native: "v < 2 ^ WBITS W \<Longrightarrow> BYTES W \<le> BYTES T \<Longrightarrow> take_bit (WBITS T) (drop_bit n v) = drop_bit n (v :: nat)"
proof -
  assume v: "v < 2 ^ WBITS W" and "BYTES W \<le> BYTES T"
  have "drop_bit n v \<le> v" by (simp add: drop_bit_eq_div)
  also note v
  also have "(2 :: nat) ^ WBITS W \<le> 2 ^ WBITS T" using \<open>BYTES W \<le> BYTES T\<close> by (intro power_increasing) auto
  finally show ?thesis by (simp add: take_bit_nat_eq_self)
qed

lemma middle_units:
  assumes "W < T" "n = BYTES T div BYTES W - 1"
  shows "n * BYTES W + BYTES W = BYTES T" "BYTES W \<le> BYTES T"
proof -
  have "BYTES T = BYTES W * BYTES (T - W)" using assms(1) by (simp flip: power_add)
  then have e: "BYTES T = (n + 1) * BYTES W" using assms by (simp add: mult.commute)
  then show "n * BYTES W + BYTES W = BYTES T" by simp
  then show "BYTES W \<le> BYTES T" by linarith
qed

lemma split_offsets:
  fixes k N M p :: nat
  assumes "k < N" "p + N = M"
  shows "8 * M - (8 * N - 8 * k) = 8 * (p + k)" "p + k + N = M + k" "8 * (N - k + p) = 8 * (M - k)" "8 * N - 8 * k = 8 * (N - k)"
  using assms by auto

lemma read_split_little_covers:
  assumes "inv s" and E: "E = ENDIANNESS_LITTLE" and k: "k = addr mod BYTES W" "Aligned \<longrightarrow> k = 0" "W < T"
    and r: "lo \<le> addr" "addr + BYTES T \<le> hi" and m: "msk < 2 ^ WBITS T"
  shows "\<exists>v. read_split W 0 E T Aligned rop (addr - k) (8 * k) msk s = Some (v, s) \<and> covers addr T msk s 0 (WBITS T) v"
proof -
  let ?a = "addr - k" and ?c = "BYTES T div BYTES W - 1"
  note c = middle_units [OF k(3) refl]
  have N: "k < BYTES W" "?a + k = addr" using k dvd_unit(2) [of addr] by simp_all
  have a: "BYTES W dvd ?a" "lo \<le> ?a" "?a < hi" unfolding k(1) by (rule dvd_unit(1) unit_in_range [OF r(1)] unit_less [OF r(2)])+
  let ?m1 = "take_bit (WBITS W) (push_bit (8 * k) msk)"
  obtain v1 where v1: "masked_rop rop ?a ?m1 s = Some (v1, s)" "v1 < 2 ^ WBITS W"
      "\<And>n. bit ?m1 n \<Longrightarrow> bit v1 n = bit (byte s (?a + lane E (BYTES W) (n div 8))) (n mod 8)"
    using masked_rop_unit [OF assms(1) a, of ?m1] by (auto simp: take_bit_nat_less_exp)
  have "covers addr T msk s 0 (8 * (BYTES W - k)) (take_bit (WBITS T) (drop_bit (8 * k) v1))"
    using N c by (intro part_drop [OF v1(2,3)]) (auto simp: lane_def E simp del: power_increasing_iff)
  then have "covers addr T msk s 0 (8 * (BYTES W - k)) (drop_bit (8 * k) v1)" by (simp only: take_bit_drop_native [OF v1(2) c(2)])
  moreover have "?a + ?c * BYTES W < hi" "?a + BYTES W = addr + (BYTES W - k)" "BYTES W - k + ?c * BYTES W \<le> BYTES T" using N c r by linarith+
  ultimately obtain r' where r': "covers addr T msk s 0 (8 * (BYTES W - k + ?c * BYTES W)) r'"
      "read_middle_little W 0 T rop msk ?c ?a (8 * (BYTES W - k)) (drop_bit (8 * k) v1) s = Some ((?a + ?c * BYTES W, 8 * (BYTES W - k + ?c * BYTES W), r'), s)"
    using read_middle_little_covers [OF assms(1) E a(1,2)] by blast
  note t = split_offsets(3,4) [OF N(1) c(1)]
  note u = r' [unfolded t(1)]
  show ?thesis
  proof (cases "k = 0")
    case True
    then show ?thesis using u v1(1) by (simp add: read_split_def E)
  next
    case False
    let ?b = "?a + ?c * BYTES W + BYTES W" and ?m2 = "take_bit (WBITS W) (drop_bit (8 * (BYTES T - k)) msk)"
    have b: "BYTES W dvd ?b" using a(1) by (intro dvd_add) auto
    have b': "lo \<le> ?b" "?b < hi" "?b = addr + (BYTES T - k)" using a N c r False by linarith+
    have o: "offs_add (?a + ?c * BYTES W) (BYTES W) = ?b" using b' hi_le by (intro offs_add_eq) linarith
    obtain v2 where v2: "masked_rop rop ?b ?m2 s = Some (v2, s)" "v2 < 2 ^ WBITS W"
        "\<And>n. bit ?m2 n \<Longrightarrow> bit v2 n = bit (byte s (?b + lane E (BYTES W) (n div 8))) (n mod 8)"
      using masked_rop_unit [OF assms(1) b b'(1,2), of ?m2] by (auto simp: take_bit_nat_less_exp)
    have "covers addr T msk s (8 * (BYTES T - k)) (WBITS T) (take_bit (WBITS T) (push_bit (8 * (BYTES T - k)) v2))"
      using N c b'(3) by (intro part_push [OF v2(2,3) refl]) (auto simp: lane_def E simp del: power_increasing_iff)
    then have "covers addr T msk s 0 (WBITS T) (r' OR take_bit (WBITS T) (push_bit (8 * (BYTES T - k)) v2))"
      using u(1) by (intro covers_or) auto
    moreover have l: "\<not> Aligned" "8 * (BYTES T - k) < WBITS T" using k(2) False N c by auto
    have "read_split W 0 E T Aligned rop ?a (8 * k) msk s = Some (r' OR take_bit (WBITS T) (push_bit (8 * (BYTES T - k)) v2), s)"
      by (simp only: read_split_def E endianness_t.case v1(1) t(2) u(2) o v2(1) split_run l simp_thms if_True)
    ultimately show ?thesis by blast
  qed
qed

lemma read_split_big_covers:
  assumes "inv s" and E: "E = ENDIANNESS_BIG" and k: "k = addr mod BYTES W" "Aligned \<longrightarrow> k = 0" "W < T"
    and r: "lo \<le> addr" "addr + BYTES T \<le> hi" and m: "msk < 2 ^ WBITS T"
  shows "\<exists>v. read_split W 0 E T Aligned rop (addr - k) (8 * k) msk s = Some (v, s) \<and> covers addr T msk s 0 (WBITS T) v"
proof -
  let ?a = "addr - k" and ?c = "BYTES T div BYTES W - 1"
  note c = middle_units [OF k(3) refl]
  let ?d = "?c * BYTES W + k"
  have N: "k < BYTES W" "?a + k = addr" using k dvd_unit(2) [of addr] by simp_all
  have a: "BYTES W dvd ?a" "lo \<le> ?a" "?a < hi" unfolding k(1) by (rule dvd_unit(1) unit_in_range [OF r(1)] unit_less [OF r(2)])+
  note d = split_offsets(1,2) [OF N(1) c(1)]
  let ?m1 = "take_bit (WBITS W) (drop_bit (8 * ?d) msk)"
  obtain v1 where v1: "masked_rop rop ?a ?m1 s = Some (v1, s)" "v1 < 2 ^ WBITS W"
      "\<And>n. bit ?m1 n \<Longrightarrow> bit v1 n = bit (byte s (?a + lane E (BYTES W) (n div 8))) (n mod 8)"
    using masked_rop_unit [OF assms(1) a, of ?m1] by (auto simp: take_bit_nat_less_exp)
  have "covers addr T msk s (8 * ?d) (WBITS T) (take_bit (WBITS T) (push_bit (8 * ?d) v1))"
    using N d(2) by (intro part_push [OF v1(2,3) refl]) (auto simp: lane_def E simp del: power_increasing_iff)
  moreover have "?a + ?c * BYTES W < hi" "?a + BYTES W + ?d = addr + BYTES T" "?c * BYTES W \<le> ?d" "?d \<le> BYTES T" "?d - ?c * BYTES W = k"
    using N c r by linarith+
  ultimately obtain r' where u: "covers addr T msk s (8 * k) (WBITS T) r'"
      "read_middle_big W 0 T rop msk ?c ?a (8 * ?d) (take_bit (WBITS T) (push_bit (8 * ?d) v1)) s = Some ((?a + ?c * BYTES W, 8 * k, r'), s)"
    using read_middle_big_covers [OF assms(1) E a(1,2), of ?c ?d addr T] by metis
  show ?thesis
  proof (cases "k = 0")
    case True
    then show ?thesis using u v1(1) d(1) by (simp add: read_split_def E Let_def)
  next
    case False
    let ?b = "?a + ?c * BYTES W + BYTES W" and ?m2 = "take_bit (WBITS W) (push_bit (8 * (BYTES W - k)) msk)"
    have b: "BYTES W dvd ?b" using a(1) by (intro dvd_add) auto
    have b': "lo \<le> ?b" "?b < hi" "?b + k = addr + BYTES T" "WBITS W - 8 * k = 8 * (BYTES W - k)" using a N c r False by linarith+
    have o: "offs_add (?a + ?c * BYTES W) (BYTES W) = ?b" using b' hi_le by (intro offs_add_eq) linarith
    obtain v2 where v2: "masked_rop rop ?b ?m2 s = Some (v2, s)" "v2 < 2 ^ WBITS W"
        "\<And>n. bit ?m2 n \<Longrightarrow> bit v2 n = bit (byte s (?b + lane E (BYTES W) (n div 8))) (n mod 8)"
      using masked_rop_unit [OF assms(1) b b'(1,2), of ?m2] by (auto simp: take_bit_nat_less_exp)
    have "covers addr T msk s 0 (8 * k) (take_bit (WBITS T) (drop_bit (8 * (BYTES W - k)) v2))"
      using N c b'(3) by (intro part_drop [OF v2(2,3) refl]) (auto simp: lane_def E simp del: power_increasing_iff)
    then have "covers addr T msk s 0 (8 * k) (drop_bit (8 * (BYTES W - k)) v2)" by (simp only: take_bit_drop_native [OF v2(2) c(2)])
    then have "covers addr T msk s 0 (WBITS T) (r' OR drop_bit (8 * (BYTES W - k)) v2)"
      using u(1) N c by (intro covers_or(2)) auto
    moreover have l: "\<not> Aligned" "8 * k \<noteq> 0" using k(2) False by auto
    have "read_split W 0 E T Aligned rop ?a (8 * k) msk s = Some (r' OR drop_bit (8 * (BYTES W - k)) v2, s)"
      by (simp only: read_split_def E endianness_t.case v1(1) d(1) [unfolded b'(4)] u(2) o v2(1) b'(4) split_run l simp_thms if_True)
    ultimately show ?thesis by blast
  qed
qed

lemma single_offsbits_mod:
  assumes "T \<le> W" "Aligned \<longrightarrow> BYTES T dvd addr"
  shows "single_offsbits W 0 T Aligned addr = 8 * (addr mod BYTES W)"
  using assms by (simp add: single_offsbits_def and_aligned)

lemma aligned_fits:
  fixes a :: nat
  assumes "T \<le> W" "BYTES T dvd a"
  shows "a mod BYTES W + BYTES T \<le> BYTES W"
proof -
  have "BYTES T dvd BYTES W" using assms(1) by (rule le_imp_power_dvd)
  then obtain p q where "a mod BYTES W = BYTES T * p" "BYTES W = BYTES T * q" using assms(2) by (meson dvdE dvd_mod)
  moreover have "a mod BYTES W < BYTES W" by simp
  ultimately have "p < q" "BYTES W = BYTES T * q" "a mod BYTES W = BYTES T * p" by simp_all
  then have "BYTES T * Suc p \<le> BYTES W" by (simp only: mult_le_mono2 Suc_leI)
  then show ?thesis using \<open>a mod BYTES W = BYTES T * p\<close> by simp
qed

text \<open>The four ways of an access: a native unit, part of one, two units, and more than two.\<close>

lemma access_cases:
  assumes "Aligned \<longrightarrow> BYTES (min W T) dvd addr"
  obtains (same) "W = T" "addr mod BYTES W = 0" | (single) "T < W" "addr mod BYTES W + BYTES T \<le> BYTES W"
    | (straddle) "T \<le> W" "addr mod BYTES W \<noteq> 0" "\<not> Aligned" "BYTES W < addr mod BYTES W + BYTES T" | (split) "W < T"
proof (cases "W < T")
  case False
  then have le: "T \<le> W" "BYTES T \<le> BYTES W" by (auto intro: power_increasing)
  show thesis
  proof (cases "addr mod BYTES W + BYTES T \<le> BYTES W")
    case True
    then show thesis using same single le(1) by (cases "W = T") auto
  next
    case False
    moreover have "\<not> Aligned" using aligned_fits [OF le(1), of addr] False assms le(1) by (auto simp: min_absorb2)
    ultimately show thesis using straddle le by linarith
  qed
qed

text \<open>Every read of the generic routine delivers the bytes of the memory.\<close>

definition delivers :: "nat \<Rightarrow> nat \<Rightarrow> nat \<Rightarrow> 's \<Rightarrow> nat \<Rightarrow> bool" where
  "delivers addr T msk s v \<longleftrightarrow> v < 2 ^ WBITS T \<and> (\<forall>n. bit msk n \<longrightarrow> bit v n = bit (byte s (addr + lane E (BYTES T) (n div 8))) (n mod 8))"

lemma covers_delivers: "covers addr T msk s 0 (WBITS T) v \<Longrightarrow> msk < 2 ^ WBITS T \<Longrightarrow> delivers addr T msk s v"
proof -
  assume c: "covers addr T msk s 0 (WBITS T) v" and m: "msk < 2 ^ WBITS T"
  then have "take_bit (WBITS T) v = v" by (intro bit_eqI) (auto simp: bit_take_bit_iff covers_def)
  then have "v < 2 ^ WBITS T" by (metis take_bit_nat_less_exp)
  then show ?thesis using c bit_less_exp [OF m] unfolding covers_def delivers_def by blast
qed

lemma generic_read:
  assumes "inv s" "lo \<le> addr" "addr + BYTES T \<le> hi" and m: "msk < 2 ^ WBITS T"
    and al: "Aligned \<longrightarrow> BYTES (min W T) dvd addr"
  shows "\<exists>v. memory_read_generic W 0 E T Aligned rop addr msk s = Some (v, s) \<and> delivers addr T msk s v"
proof -
  let ?k = "addr mod BYTES W"
  have lt: "addr < 2 ^ 32" using assms(3) hi_le less_le_trans [of addr "addr + BYTES T" hi] by simp
  have a: "BYTES W dvd addr - ?k" "lo \<le> addr - ?k" "addr - ?k < hi" by (rule dvd_unit(1) unit_in_range [OF assms(2)] unit_less [OF assms(3)])+
  note g = memory_read_generic_def Let_def NATIVE_MASK_0 and_mask_mod(1) memory_offset_to_byte_0 clear_mask_mod [OF lt]
  from al show ?thesis
  proof (cases rule: access_cases)
    case same
    then obtain v where "rop addr msk s = Some (v, s)" "delivers addr T msk s v"
      using rop_unit [OF assms(1) a, of msk] m unfolding delivers_def same by auto
    then show ?thesis using same by (simp add: g)
  next
    case single
    have o: "single_offsbits W 0 T Aligned addr = 8 * ?k" using single_offsbits_mod [of T Aligned addr] single(1) al by (simp add: min_absorb2)
    let ?d = "if E = ENDIANNESS_LITTLE then ?k else BYTES W - BYTES T - ?k"
    let ?m = "take_bit (WBITS W) (push_bit (8 * ?d) msk)"
    obtain v where v: "rop (addr - ?k) ?m s = Some (v, s)" "v < 2 ^ WBITS W"
        "\<And>n. bit ?m n \<Longrightarrow> bit v n = bit (byte s (addr - ?k + lane E (BYTES W) (n div 8))) (n mod 8)"
      using rop_unit [OF assms(1) a, of ?m] by (auto simp: take_bit_nat_less_exp)
    have e: "addr - ?k + ?k = addr" "?k < BYTES W" by simp_all
    have "covers addr T msk s 0 (WBITS T) (take_bit (WBITS T) (drop_bit (8 * ?d) v))"
      using single(2) e by (intro part_drop [OF v(2,3) refl]) (auto simp: lane_def min_def)
    moreover have "memory_read_generic W 0 E T Aligned rop addr msk s = Some (take_bit (WBITS T) (drop_bit (8 * ?d) v), s)"
    proof -
      have "(if E \<noteq> ENDIANNESS_LITTLE then WBITS W - WBITS T - 8 * ?k else 8 * ?k) = 8 * ?d" using single(2) by (simp add: right_diff_distrib')
      moreover have "T < W \<and> (Aligned \<or> 8 * ?k + WBITS T \<le> WBITS W)" "W \<noteq> T" using single by auto
      ultimately show ?thesis using v(1) by (simp only: g o simp_thms if_True if_False split_run)
    qed
    ultimately show ?thesis using covers_delivers m by blast
  next
    case straddle
    have o: "single_offsbits W 0 T Aligned addr = 8 * ?k" using single_offsbits_mod [of T Aligned addr] straddle by simp
    have "memory_read_generic W 0 E T Aligned rop addr msk s = read_straddle W 0 E T rop (addr - ?k) (8 * ?k) msk s"
      using straddle o by (simp add: g)
    then show ?thesis using read_straddle_covers [OF assms(1) refl straddle(2,4,1) assms(2,3) m] covers_delivers m by metis
  next
    case split
    have "Aligned \<longrightarrow> ?k = 0" using al split by (simp add: min_absorb1)
    moreover have "memory_read_generic W 0 E T Aligned rop addr msk s = read_split W 0 E T Aligned rop (addr - ?k) (8 * ?k) msk s"
      using split by (simp add: g)
    ultimately show ?thesis
      using read_split_little_covers [OF assms(1) _ refl _ split assms(2,3) m] read_split_big_covers [OF assms(1) _ refl _ split assms(2,3) m]
        covers_delivers m by (cases E) metis+
  qed
qed

lemma bits_bytes: "8 * i + j < 8 * m \<Longrightarrow> i < (m :: nat)"
  by simp

text \<open>Part of a write: the bits of the mask in a range have the data, all others are as before.\<close>

definition wrote :: "nat \<Rightarrow> nat \<Rightarrow> nat \<Rightarrow> nat \<Rightarrow> nat \<Rightarrow> nat \<Rightarrow> 's \<Rightarrow> 's \<Rightarrow> bool" where
  "wrote addr T data msk x y s s' \<longleftrightarrow> inv s' \<and> (\<forall>b j. j < 8 \<longrightarrow> bit (byte s' b) j =
     (let n = 8 * lane E (BYTES T) (b - addr) + j
      in if addr \<le> b \<and> b < addr + BYTES T \<and> x \<le> n \<and> n < y \<and> bit msk n then bit data n else bit (byte s b) j))"

lemma wrote_trans:
  assumes "x \<le> y" "y \<le> z"
  shows "wrote addr T data msk x y s s1 \<Longrightarrow> wrote addr T data msk y z s1 s2 \<Longrightarrow> wrote addr T data msk x z s s2"
    and "wrote addr T data msk y z s s1 \<Longrightarrow> wrote addr T data msk x y s1 s2 \<Longrightarrow> wrote addr T data msk x z s s2"
  using assms unfolding wrote_def Let_def by (smt (verit) le_trans linorder_not_less order_less_le_trans)+

lemma masked_wop_unit:
  assumes "inv s" "BYTES W dvd a" "lo \<le> a" "a < hi" "d < 2 ^ WBITS W" "m < 2 ^ WBITS W"
  shows "\<exists>s'. masked_wop wop a d m s = Some s' \<and> wrote a W d m 0 (WBITS W) s s'"
proof -
  have "8 * lane E (BYTES W) (b - a) + j < WBITS W" if "a \<le> b" "b < a + BYTES W" "j < 8" for b j
    using lane_less [of "b - a" "BYTES W" E] that by linarith
  then show ?thesis using wop_unit [OF assms] assms(1) unfolding wrote_def Let_def masked_wop_def by (cases "m = 0") auto
qed

text \<open>The bytes of a unit and the bytes of an access, for a unit \<open>d\<close> bytes into the access and for one that starts \<open>d\<close> bytes before it.\<close>

lemma part_wpush:
  assumes w: "wrote a W (take_bit (WBITS W) (drop_bit (8 * d) data)) (take_bit (WBITS W) (drop_bit (8 * d) msk)) 0 (WBITS W) s s'"
    and m: "msk < 2 ^ WBITS T"
    and disp: "\<And>j. j < BYTES W \<Longrightarrow> j + d < BYTES T \<Longrightarrow> a + lane E (BYTES W) j = addr + lane E (BYTES T) (j + d)"
    and up: "z = min (8 * d + WBITS W) (WBITS T)"
  shows "wrote addr T data msk (8 * d) z s s'"
proof -
  have "bit (byte s' b) j = (let n = 8 * lane E (BYTES T) (b - addr) + j
      in if addr \<le> b \<and> b < addr + BYTES T \<and> 8 * d \<le> n \<and> n < z \<and> bit msk n then bit data n else bit (byte s b) j)" if j: "j < 8" for b j
  proof (cases "a \<le> b \<and> b < a + BYTES W \<and> bit msk (8 * (lane E (BYTES W) (b - a) + d) + j)")
    case True
    define i where "i = lane E (BYTES W) (b - a)"
    have i: "i < BYTES W" "b = a + lane E (BYTES W) i" using True by (auto simp: i_def intro: lane_less)
    have "8 * (i + d) + j < WBITS T" using bit_less_exp [OF m] True i_def by blast
    then have id: "i + d < BYTES T" by (rule bits_bytes)
    then have b: "b = addr + lane E (BYTES T) (i + d)" using disp i by simp
    then have "lane E (BYTES T) (b - addr) = i + d" "addr \<le> b" "b < addr + BYTES T" using id by simp_all
    then show ?thesis using w j True i up id unfolding wrote_def Let_def i_def [symmetric] by (auto simp: bit_simps algebra_simps)
  next
    case False
    then have "bit (byte s' b) j = bit (byte s b) j" using w j unfolding wrote_def Let_def by (auto simp: bit_simps algebra_simps)
    moreover have "\<not> (addr \<le> b \<and> b < addr + BYTES T \<and> 8 * d \<le> n \<and> n < z \<and> bit msk n)" if n: "n = 8 * lane E (BYTES T) (b - addr) + j" for n
    proof
      assume *: "addr \<le> b \<and> b < addr + BYTES T \<and> 8 * d \<le> n \<and> n < z \<and> bit msk n"
      define i where "i = lane E (BYTES T) (b - addr) - d"
      have i: "lane E (BYTES T) (b - addr) = i + d" "i < BYTES W" "i + d < BYTES T" using * n j up by (auto simp: i_def)
      have "b - addr < BYTES T" using * by (simp add: less_diff_conv2)
      then have "b = addr + lane E (BYTES T) (i + d)" using * unfolding i(1) [symmetric] by simp
      then have "b = a + lane E (BYTES W) i" using disp i by simp
      then have "a \<le> b" "b < a + BYTES W" "lane E (BYTES W) (b - a) = i" using i(2) by simp_all
      then show False using False * n i(1) by simp
    qed
    ultimately show ?thesis unfolding Let_def by auto
  qed
  then show ?thesis using w unfolding wrote_def by blast
qed

lemma part_wdrop:
  assumes w: "wrote a W (take_bit (WBITS W) (push_bit (8 * d) data)) (take_bit (WBITS W) (push_bit (8 * d) msk)) 0 (WBITS W) s s'"
    and m: "msk < 2 ^ WBITS T"
    and disp: "\<And>j. j + d < BYTES W \<Longrightarrow> j < BYTES T \<Longrightarrow> a + lane E (BYTES W) (j + d) = addr + lane E (BYTES T) j"
    and up: "z = min (WBITS W - 8 * d) (WBITS T)"
  shows "wrote addr T data msk 0 z s s'"
proof -
  have "bit (byte s' b) j = (let n = 8 * lane E (BYTES T) (b - addr) + j
      in if addr \<le> b \<and> b < addr + BYTES T \<and> 0 \<le> n \<and> n < z \<and> bit msk n then bit data n else bit (byte s b) j)" if j: "j < 8" for b j
  proof (cases "a \<le> b \<and> b < a + BYTES W \<and> d \<le> lane E (BYTES W) (b - a) \<and> bit msk (8 * (lane E (BYTES W) (b - a) - d) + j)")
    case True
    define i where "i = lane E (BYTES W) (b - a) - d"
    have i: "lane E (BYTES W) (b - a) = i + d" "i + d < BYTES W" "b = a + lane E (BYTES W) (i + d)"
      using True lane_less [of "b - a" "BYTES W" E] by (auto simp: i_def)
    have "8 * i + j < WBITS T" using bit_less_exp [OF m] True i_def by blast
    then have id: "i < BYTES T" by (rule bits_bytes)
    then have b: "b = addr + lane E (BYTES T) i" using disp i by simp
    then have "lane E (BYTES T) (b - addr) = i" "addr \<le> b" "b < addr + BYTES T" using id by simp_all
    then show ?thesis using w j True i up id unfolding wrote_def Let_def i(1) by (auto simp: bit_simps algebra_simps)
  next
    case False
    have "(8 * lane E (BYTES W) (b - a) + j < 8 * d) = (lane E (BYTES W) (b - a) < d)" using j by linarith
    then have "bit (byte s' b) j = bit (byte s b) j" using w j False unfolding wrote_def Let_def by (auto simp: bit_simps algebra_simps not_less)
    moreover have "\<not> (addr \<le> b \<and> b < addr + BYTES T \<and> 0 \<le> n \<and> n < z \<and> bit msk n)" if n: "n = 8 * lane E (BYTES T) (b - addr) + j" for n
    proof
      assume *: "addr \<le> b \<and> b < addr + BYTES T \<and> 0 \<le> n \<and> n < z \<and> bit msk n"
      define i where "i = lane E (BYTES T) (b - addr)"
      have i: "i + d < BYTES W" "i < BYTES T" using * n j up by (auto simp: i_def)
      have "b - addr < BYTES T" using * by (simp add: less_diff_conv2)
      then have "b = addr + lane E (BYTES T) i" using * by (simp add: i_def)
      then have "b = a + lane E (BYTES W) (i + d)" using disp i by simp
      then have "a \<le> b" "b < a + BYTES W" "lane E (BYTES W) (b - a) = i + d" using i(1) by simp_all
      then show False using False * n i_def by simp
    qed
    ultimately show ?thesis unfolding Let_def by auto
  qed
  then show ?thesis using w unfolding wrote_def by blast
qed

lemma wunit:
  assumes "inv s" "BYTES W dvd a" "lo \<le> a" "a < hi"
  shows "\<exists>s'. masked_wop wop a (take_bit (WBITS W) d) (take_bit (WBITS W) m) s = Some s' \<and> inv s' \<and>
    wrote a W (take_bit (WBITS W) d) (take_bit (WBITS W) m) 0 (WBITS W) s s'"
  using masked_wop_unit [OF assms, of "take_bit (WBITS W) d" "take_bit (WBITS W) m"] by (auto simp: take_bit_nat_less_exp wrote_def)

lemma write_straddle_wrote:
  assumes "inv s" and k: "k = addr mod BYTES W" "k \<noteq> 0" "BYTES W < k + BYTES T" "T \<le> W"
    and r: "lo \<le> addr" "addr + BYTES T \<le> hi" and m: "data < 2 ^ WBITS T" "msk < 2 ^ WBITS T"
  shows "\<exists>s'. write_straddle W 0 E T wop (addr - k) (8 * k) data msk s = Some s' \<and> wrote addr T data msk 0 (WBITS T) s s'"
proof -
  let ?a = "addr - k"
  have N: "k < BYTES W" "BYTES T \<le> BYTES W" "?a + k = addr" using k dvd_unit(2) [of addr] by (simp_all add: power_increasing)
  have a: "BYTES W dvd ?a" "lo \<le> ?a" "?a < hi" unfolding k(1) by (rule dvd_unit(1) unit_in_range [OF r(1)] unit_less [OF r(2)])+
  have b: "BYTES W dvd ?a + BYTES W" "lo \<le> ?a + BYTES W" "?a + BYTES W < hi"
    using a(2) N(3) k(3) r(2) dvd_add [OF a(1) dvd_refl] by linarith+
  have o: "offs_add ?a (BYTES W) = ?a + BYTES W" using b(3) hi_le by (intro offs_add_eq) linarith
  note bits = straddle_bits [OF N(1,2) k(3) m(1)] straddle_bits [OF N(1,2) k(3) m(2)]
  show ?thesis
  proof (cases E)
    case ENDIANNESS_LITTLE
    obtain s1 where s1: "masked_wop wop ?a (take_bit (WBITS W) (push_bit (8 * k) data)) (take_bit (WBITS W) (push_bit (8 * k) msk)) s = Some s1" "inv s1"
        "wrote ?a W (take_bit (WBITS W) (push_bit (8 * k) data)) (take_bit (WBITS W) (push_bit (8 * k) msk)) 0 (WBITS W) s s1"
      using wunit [OF assms(1) a] by blast
    let ?d = "8 * (BYTES W - k)"
    obtain s2 where s2: "masked_wop wop (?a + BYTES W) (take_bit (WBITS W) (drop_bit ?d data)) (take_bit (WBITS W) (drop_bit ?d msk)) s1 = Some s2"
        "wrote (?a + BYTES W) W (take_bit (WBITS W) (drop_bit ?d data)) (take_bit (WBITS W) (drop_bit ?d msk)) 0 (WBITS W) s1 s2"
      using wunit [OF s1(2) b] by blast
    have "wrote addr T data msk 0 ?d s s1"
      using N k(2,3) by (intro part_wdrop [OF s1(3) m(2)]) (auto simp: lane_def ENDIANNESS_LITTLE simp del: power_increasing_iff)
    moreover have "wrote addr T data msk ?d (WBITS T) s1 s2"
      using N k(2,3) by (intro part_wpush [OF s2(2) m(2)]) (auto simp: lane_def ENDIANNESS_LITTLE simp del: power_increasing_iff)
    ultimately have "wrote addr T data msk 0 (WBITS T) s s2" by (rule wrote_trans(1) [rotated 2]) (use N k(3) in linarith)+
    then show ?thesis unfolding write_straddle_def by (simp only: ENDIANNESS_LITTLE endianness_t.case s1(1) o bits(1,5) s2(1) split_run) blast
  next
    case ENDIANNESS_BIG
    let ?d1 = "k + BYTES T - BYTES W" and ?d2 = "(BYTES W - k) + (BYTES W - BYTES T)"
    obtain s1 where s1: "masked_wop wop ?a (take_bit (WBITS W) (drop_bit (8 * ?d1) data)) (take_bit (WBITS W) (drop_bit (8 * ?d1) msk)) s = Some s1" "inv s1"
        "wrote ?a W (take_bit (WBITS W) (drop_bit (8 * ?d1) data)) (take_bit (WBITS W) (drop_bit (8 * ?d1) msk)) 0 (WBITS W) s s1"
      using wunit [OF assms(1) a] by blast
    obtain s2 where s2: "masked_wop wop (?a + BYTES W) (take_bit (WBITS W) (push_bit (8 * ?d2) data)) (take_bit (WBITS W) (push_bit (8 * ?d2) msk)) s1 = Some s2"
        "wrote (?a + BYTES W) W (take_bit (WBITS W) (push_bit (8 * ?d2) data)) (take_bit (WBITS W) (push_bit (8 * ?d2) msk)) 0 (WBITS W) s1 s2"
      using wunit [OF s1(2) b] by blast
    have "wrote addr T data msk (8 * ?d1) (WBITS T) s s1"
      using N k(2,3) by (intro part_wpush [OF s1(3) m(2)]) (auto simp: lane_def ENDIANNESS_BIG simp del: power_increasing_iff)
    moreover have "wrote addr T data msk 0 (8 * ?d1) s1 s2"
      using N k(2,3) by (intro part_wdrop [OF s2(2) m(2)]) (auto simp: lane_def ENDIANNESS_BIG simp del: power_increasing_iff)
    ultimately have "wrote addr T data msk 0 (WBITS T) s s2" by (rule wrote_trans(2) [rotated 2]) (use N k(3) in linarith)+
    then show ?thesis unfolding write_straddle_def by (simp only: ENDIANNESS_BIG endianness_t.case split_run bits(2,3,6,7) s1(1) o s2(1)) blast
  qed
qed

lemma write_middle_little_wrote:
  assumes "inv s" "E = ENDIANNESS_LITTLE" "BYTES W dvd a" "lo \<le> a" "a + n * BYTES W < hi"
    "a + BYTES W = addr + d" "d + n * BYTES W \<le> BYTES T" "msk < 2 ^ WBITS T" "wrote addr T data msk 0 (8 * d) s0 s"
  shows "\<exists>s'. write_middle_little W 0 wop data msk n a (8 * d) s = Some ((a + n * BYTES W, 8 * (d + n * BYTES W)), s') \<and>
    wrote addr T data msk 0 (8 * (d + n * BYTES W)) s0 s'"
  using assms
proof (induction n arbitrary: a d s)
  case (Suc n)
  let ?a = "a + BYTES W"
  have a: "BYTES W dvd ?a" "lo \<le> ?a" "?a < hi" "?a + n * BYTES W < hi" using Suc.prems(3-5) dvd_add [OF Suc.prems(3) dvd_refl] by auto
  have o: "offs_add a (BYTES W) = ?a" using a(3) hi_le by (intro offs_add_eq) linarith
  obtain s1 where s1: "masked_wop wop ?a (take_bit (WBITS W) (drop_bit (8 * d) data)) (take_bit (WBITS W) (drop_bit (8 * d) msk)) s = Some s1" "inv s1"
      "wrote ?a W (take_bit (WBITS W) (drop_bit (8 * d) data)) (take_bit (WBITS W) (drop_bit (8 * d) msk)) 0 (WBITS W) s s1"
    using wunit [OF Suc.prems(1) a(1-3)] by blast
  have "wrote addr T data msk (8 * d) (8 * (d + BYTES W)) s s1"
    using Suc.prems(2,6,7) by (intro part_wpush [OF s1(3) Suc.prems(8)]) (auto simp: lane_def)
  with Suc.prems(9) have w: "wrote addr T data msk 0 (8 * (d + BYTES W)) s0 s1" by (rule wrote_trans(1) [rotated 2]) auto
  have "?a + BYTES W = addr + (d + BYTES W)" "d + BYTES W + n * BYTES W \<le> BYTES T" using Suc.prems(6,7) by auto
  from Suc.IH [OF s1(2) Suc.prems(2) a(1,2,4) this Suc.prems(8) w]
  have "\<exists>s'. write_middle_little W 0 wop data msk n ?a (8 * (d + BYTES W)) s1 = Some ((?a + n * BYTES W, 8 * (d + BYTES W + n * BYTES W)), s') \<and>
      wrote addr T data msk 0 (8 * (d + BYTES W + n * BYTES W)) s0 s'" .
  moreover have "8 * (d + BYTES W) = 8 * d + WBITS W" by simp
  ultimately show ?case by (simp only: write_middle_little.simps o s1(1) split_run mult_Suc add.assoc)
qed simp

lemma write_middle_big_wrote:
  assumes "inv s" "E = ENDIANNESS_BIG" "BYTES W dvd a" "lo \<le> a" "a + n * BYTES W < hi"
    "a + BYTES W + d = addr + BYTES T" "n * BYTES W \<le> d" "d \<le> BYTES T" "msk < 2 ^ WBITS T" "wrote addr T data msk (8 * d) (WBITS T) s0 s"
  shows "\<exists>s'. write_middle_big W 0 wop data msk n a (8 * d) s = Some ((a + n * BYTES W, 8 * (d - n * BYTES W)), s') \<and>
    wrote addr T data msk (8 * (d - n * BYTES W)) (WBITS T) s0 s'"
  using assms
proof (induction n arbitrary: a d s)
  case (Suc n)
  let ?a = "a + BYTES W" and ?d = "d - BYTES W"
  have a: "BYTES W dvd ?a" "lo \<le> ?a" "?a < hi" "?a + n * BYTES W < hi" using Suc.prems(3-5) dvd_add [OF Suc.prems(3) dvd_refl] by auto
  have o: "offs_add a (BYTES W) = ?a" using a(3) hi_le by (intro offs_add_eq) linarith
  have d: "BYTES W \<le> d" "8 * d - WBITS W = 8 * ?d" "?d + BYTES W = d" "n * BYTES W \<le> ?d" "?a + BYTES W + ?d = addr + BYTES T" "?d \<le> BYTES T"
    using Suc.prems(6,7,8) by auto
  obtain s1 where s1: "masked_wop wop ?a (take_bit (WBITS W) (drop_bit (8 * ?d) data)) (take_bit (WBITS W) (drop_bit (8 * ?d) msk)) s = Some s1" "inv s1"
      "wrote ?a W (take_bit (WBITS W) (drop_bit (8 * ?d) data)) (take_bit (WBITS W) (drop_bit (8 * ?d) msk)) 0 (WBITS W) s s1"
    using wunit [OF Suc.prems(1) a(1-3)] by blast
  have "wrote addr T data msk (8 * ?d) (8 * d) s s1"
    using Suc.prems(2,8) d by (intro part_wpush [OF s1(3) Suc.prems(9)]) (auto simp: lane_def)
  with Suc.prems(10) have w: "wrote addr T data msk (8 * ?d) (WBITS T) s0 s1" by (rule wrote_trans(2) [rotated 2]) (use Suc.prems(8) in auto)
  from Suc.IH [OF s1(2) Suc.prems(2) a(1,2,4) d(5,4,6) Suc.prems(9) w]
  show ?case by (simp only: write_middle_big.simps d(2) o s1(1) split_run mult_Suc add.assoc diff_diff_left)
qed simp

lemma write_split_little_wrote:
  assumes "inv s" and E: "E = ENDIANNESS_LITTLE" and k: "k = addr mod BYTES W" "Aligned \<longrightarrow> k = 0" "W < T"
    and r: "lo \<le> addr" "addr + BYTES T \<le> hi" and m: "msk < 2 ^ WBITS T"
  shows "\<exists>s'. write_split W 0 E T Aligned wop (addr - k) (8 * k) data msk s = Some s' \<and> wrote addr T data msk 0 (WBITS T) s s'"
proof -
  let ?a = "addr - k" and ?c = "BYTES T div BYTES W - 1"
  note c = middle_units [OF k(3) refl]
  have N: "k < BYTES W" "?a + k = addr" using k dvd_unit(2) [of addr] by simp_all
  have a: "BYTES W dvd ?a" "lo \<le> ?a" "?a < hi" unfolding k(1) by (rule dvd_unit(1) unit_in_range [OF r(1)] unit_less [OF r(2)])+
  obtain s1 where s1: "masked_wop wop ?a (take_bit (WBITS W) (push_bit (8 * k) data)) (take_bit (WBITS W) (push_bit (8 * k) msk)) s = Some s1" "inv s1"
      "wrote ?a W (take_bit (WBITS W) (push_bit (8 * k) data)) (take_bit (WBITS W) (push_bit (8 * k) msk)) 0 (WBITS W) s s1"
    using wunit [OF assms(1) a] by blast
  have w: "wrote addr T data msk 0 (8 * (BYTES W - k)) s s1"
    using N c by (intro part_wdrop [OF s1(3) m]) (auto simp: lane_def E simp del: power_increasing_iff)
  have "?a + ?c * BYTES W < hi" "?a + BYTES W = addr + (BYTES W - k)" "BYTES W - k + ?c * BYTES W \<le> BYTES T" using N c r by linarith+
  from write_middle_little_wrote [OF s1(2) E a(1,2) this m w]
  obtain s2 where s2: "wrote addr T data msk 0 (8 * (BYTES W - k + ?c * BYTES W)) s s2"
      "write_middle_little W 0 wop data msk ?c ?a (8 * (BYTES W - k)) s1 = Some ((?a + ?c * BYTES W, 8 * (BYTES W - k + ?c * BYTES W)), s2)"
    by blast
  note t = split_offsets(3,4) [OF N(1) c(1)]
  note u = s2 [unfolded t(1)]
  show ?thesis
  proof (cases "k = 0")
    case True
    then show ?thesis using u s1(1) by (simp add: write_split_def E)
  next
    case False
    let ?b = "?a + ?c * BYTES W + BYTES W" and ?d = "BYTES T - k"
    have b: "BYTES W dvd ?b" using a(1) by (intro dvd_add) auto
    have b': "lo \<le> ?b" "?b < hi" "?b = addr + ?d" using a N c r False by linarith+
    have o: "offs_add (?a + ?c * BYTES W) (BYTES W) = ?b" using b' hi_le by (intro offs_add_eq) linarith
    have "inv s2" using u(1) by (simp add: wrote_def)
    then obtain s3 where s3: "masked_wop wop ?b (take_bit (WBITS W) (drop_bit (8 * ?d) data)) (take_bit (WBITS W) (drop_bit (8 * ?d) msk)) s2 = Some s3"
        "wrote ?b W (take_bit (WBITS W) (drop_bit (8 * ?d) data)) (take_bit (WBITS W) (drop_bit (8 * ?d) msk)) 0 (WBITS W) s2 s3"
      using wunit [OF _ b b'(1,2)] by blast
    have "wrote addr T data msk (8 * ?d) (WBITS T) s2 s3"
      using N c b'(3) by (intro part_wpush [OF s3(2) m]) (auto simp: lane_def E simp del: power_increasing_iff)
    with u(1) have "wrote addr T data msk 0 (WBITS T) s s3" by (rule wrote_trans(1) [rotated 2]) auto
    moreover have l: "\<not> Aligned" "8 * ?d < WBITS T" using k(2) False N c by auto
    have "write_split W 0 E T Aligned wop ?a (8 * k) data msk s = Some s3"
      by (simp only: write_split_def E endianness_t.case s1(1) t(2) u(2) o s3(1) split_run l simp_thms if_True)
    ultimately show ?thesis by blast
  qed
qed

lemma write_split_big_wrote:
  assumes "inv s" and E: "E = ENDIANNESS_BIG" and k: "k = addr mod BYTES W" "Aligned \<longrightarrow> k = 0" "W < T"
    and r: "lo \<le> addr" "addr + BYTES T \<le> hi" and m: "msk < 2 ^ WBITS T"
  shows "\<exists>s'. write_split W 0 E T Aligned wop (addr - k) (8 * k) data msk s = Some s' \<and> wrote addr T data msk 0 (WBITS T) s s'"
proof -
  let ?a = "addr - k" and ?c = "BYTES T div BYTES W - 1"
  note c = middle_units [OF k(3) refl]
  let ?d = "?c * BYTES W + k"
  have N: "k < BYTES W" "?a + k = addr" using k dvd_unit(2) [of addr] by simp_all
  have a: "BYTES W dvd ?a" "lo \<le> ?a" "?a < hi" unfolding k(1) by (rule dvd_unit(1) unit_in_range [OF r(1)] unit_less [OF r(2)])+
  note d = split_offsets(1,2) [OF N(1) c(1)]
  obtain s1 where s1: "masked_wop wop ?a (take_bit (WBITS W) (drop_bit (8 * ?d) data)) (take_bit (WBITS W) (drop_bit (8 * ?d) msk)) s = Some s1" "inv s1"
      "wrote ?a W (take_bit (WBITS W) (drop_bit (8 * ?d) data)) (take_bit (WBITS W) (drop_bit (8 * ?d) msk)) 0 (WBITS W) s s1"
    using wunit [OF assms(1) a] by blast
  have w: "wrote addr T data msk (8 * ?d) (WBITS T) s s1"
    using N d(2) by (intro part_wpush [OF s1(3) m]) (auto simp: lane_def E simp del: power_increasing_iff)
  have e: "?a + ?c * BYTES W < hi" "?a + BYTES W + ?d = addr + BYTES T" "?c * BYTES W \<le> ?d" "?d \<le> BYTES T" "?d - ?c * BYTES W = k"
    using N c r by linarith+
  obtain s2 where u: "wrote addr T data msk (8 * k) (WBITS T) s s2"
      "write_middle_big W 0 wop data msk ?c ?a (8 * ?d) s1 = Some ((?a + ?c * BYTES W, 8 * k), s2)"
    using write_middle_big_wrote [OF s1(2) E a(1,2) e(1-4) m w] e(5) by metis
  show ?thesis
  proof (cases "k = 0")
    case True
    then show ?thesis using u s1(1) d(1) by (simp add: write_split_def E Let_def)
  next
    case False
    let ?b = "?a + ?c * BYTES W + BYTES W" and ?d2 = "BYTES W - k"
    have b: "BYTES W dvd ?b" using a(1) by (intro dvd_add) auto
    have b': "lo \<le> ?b" "?b < hi" "?b + k = addr + BYTES T" "WBITS W - 8 * k = 8 * ?d2" using a N c r False by linarith+
    have o: "offs_add (?a + ?c * BYTES W) (BYTES W) = ?b" using b' hi_le by (intro offs_add_eq) linarith
    have "inv s2" using u(1) by (simp add: wrote_def)
    then obtain s3 where s3: "masked_wop wop ?b (take_bit (WBITS W) (push_bit (8 * ?d2) data)) (take_bit (WBITS W) (push_bit (8 * ?d2) msk)) s2 = Some s3"
        "wrote ?b W (take_bit (WBITS W) (push_bit (8 * ?d2) data)) (take_bit (WBITS W) (push_bit (8 * ?d2) msk)) 0 (WBITS W) s2 s3"
      using wunit [OF _ b b'(1,2)] by blast
    have "wrote addr T data msk 0 (8 * k) s2 s3"
      using N c b'(3) by (intro part_wdrop [OF s3(2) m]) (auto simp: lane_def E simp del: power_increasing_iff)
    with u(1) have "wrote addr T data msk 0 (WBITS T) s s3" by (rule wrote_trans(2) [rotated 2]) (use N c in auto)
    moreover have l: "\<not> Aligned" "8 * k \<noteq> 0" using k(2) False by auto
    have "write_split W 0 E T Aligned wop ?a (8 * k) data msk s = Some s3"
      by (simp only: write_split_def E endianness_t.case s1(1) d(1) [unfolded b'(4)] u(2) o s3(1) b'(4) split_run l simp_thms if_True)
    ultimately show ?thesis by blast
  qed
qed

text \<open>Every write of the generic routine changes the bits of the mask, and nothing else.\<close>

lemma generic_write:
  assumes "inv s" "lo \<le> addr" "addr + BYTES T \<le> hi" and m: "data < 2 ^ WBITS T" "msk < 2 ^ WBITS T"
    and al: "Aligned \<longrightarrow> BYTES (min W T) dvd addr"
  shows "\<exists>s'. memory_write_generic W 0 E T Aligned wop addr data msk s = Some s' \<and> wrote addr T data msk 0 (WBITS T) s s'"
proof -
  let ?k = "addr mod BYTES W"
  have lt: "addr < 2 ^ 32" using assms(3) hi_le less_le_trans [of addr "addr + BYTES T" hi] by simp
  have a: "BYTES W dvd addr - ?k" "lo \<le> addr - ?k" "addr - ?k < hi" by (rule dvd_unit(1) unit_in_range [OF assms(2)] unit_less [OF assms(3)])+
  note g = memory_write_generic_def Let_def NATIVE_MASK_0 and_mask_mod(1) memory_offset_to_byte_0 clear_mask_mod [OF lt]
  have unit: "\<exists>s'. wop (addr - ?k) d m s = Some s' \<and> wrote (addr - ?k) W d m 0 (WBITS W) s s'" if "d < 2 ^ WBITS W" "m < 2 ^ WBITS W" for d m
  proof -
    have "8 * lane E (BYTES W) (b - (addr - ?k)) + j < WBITS W" if "addr - ?k \<le> b" "b < addr - ?k + BYTES W" "j < 8" for b j
      using lane_less [of "b - (addr - ?k)" "BYTES W" E] that by linarith
    then show ?thesis using wop_unit [OF assms(1) a that] unfolding wrote_def Let_def by auto
  qed
  from al show ?thesis
  proof (cases rule: access_cases)
    case same
    then show ?thesis using unit [of data msk] m by (simp add: g)
  next
    case single
    have o: "single_offsbits W 0 T Aligned addr = 8 * ?k" using single_offsbits_mod [of T Aligned addr] single(1) al by (simp add: min_absorb2)
    let ?d = "if E = ENDIANNESS_LITTLE then ?k else BYTES W - BYTES T - ?k"
    let ?D = "take_bit (WBITS W) (push_bit (8 * ?d) data)" and ?m = "take_bit (WBITS W) (push_bit (8 * ?d) msk)"
    obtain s' where s': "wop (addr - ?k) ?D ?m s = Some s'" "wrote (addr - ?k) W ?D ?m 0 (WBITS W) s s'"
      using unit [of ?D ?m] by (auto simp: take_bit_nat_less_exp)
    have e: "addr - ?k + ?k = addr" "?k < BYTES W" by simp_all
    have "wrote addr T data msk 0 (WBITS T) s s'"
      using single(2) e by (intro part_wdrop [OF s'(2) m(2)]) (auto simp: lane_def min_def)
    moreover have "(if E \<noteq> ENDIANNESS_LITTLE then WBITS W - WBITS T - 8 * ?k else 8 * ?k) = 8 * ?d" using single(2) by (simp add: right_diff_distrib')
    moreover have "T < W \<and> (Aligned \<or> 8 * ?k + WBITS T \<le> WBITS W)" "W \<noteq> T" using single by auto
    ultimately show ?thesis using s'(1) by (simp only: g o simp_thms if_True if_False) blast
  next
    case straddle
    have o: "single_offsbits W 0 T Aligned addr = 8 * ?k" using single_offsbits_mod [of T Aligned addr] straddle by simp
    have "memory_write_generic W 0 E T Aligned wop addr data msk s = write_straddle W 0 E T wop (addr - ?k) (8 * ?k) data msk s"
      using straddle o by (simp add: g)
    then show ?thesis using write_straddle_wrote [OF assms(1) refl straddle(2,4,1) assms(2,3) m] by metis
  next
    case split
    have "Aligned \<longrightarrow> ?k = 0" using al split by (simp add: min_absorb1)
    moreover have "memory_write_generic W 0 E T Aligned wop addr data msk s = write_split W 0 E T Aligned wop (addr - ?k) (8 * ?k) data msk s"
      using split by (simp add: g)
    ultimately show ?thesis
      using write_split_little_wrote [OF assms(1) _ refl _ split assms(2,3) m(2)] write_split_big_wrote [OF assms(1) _ refl _ split assms(2,3) m(2)]
      by (cases E) metis+
  qed
qed

end

end
