(* ===== verification/Memory_Handler.thy ===== *)
theory Memory_Handler
  imports Memory_Access
begin

unbundle bit_operations_syntax

text \<open>
  The handlers of plain memory (\<^verbatim>\<open>src/emu/emumem_hem.cpp\<close>) on an array of units of the width of the bus, and what accesses of other
  widths through them amount to: the bytes of the memory. The address mask of a handler is that of a map line without mirror
  or mask, which keeps all bits of an offset into the line.
\<close>

section \<open>The handlers\<close>

definition hem_read :: "nat \<Rightarrow> nat \<Rightarrow> nat list rop_t" where
  "hem_read W m_address_base offset mem_mask m_base =
     (let off = drop_bit W (offset - m_address_base)
      in if off < length m_base then Some (m_base ! off, m_base) else None)"

definition hem_write :: "nat \<Rightarrow> nat \<Rightarrow> nat list wop_t" where
  "hem_write W m_address_base offset data mem_mask m_base =
     (let off = drop_bit W (offset - m_address_base)
      in if off < length m_base
         then Some (if W = 0 then m_base[off := data]
                    else m_base[off := (m_base ! off AND (mask (WBITS W) XOR mem_mask)) OR (data AND mem_mask)])
         else None)"

section \<open>The bytes of a memory\<close>

text \<open>A byte of the memory by its address, and the value that a list of bytes has in a byte order.\<close>

definition hem_byte :: "nat \<Rightarrow> endianness_t \<Rightarrow> nat \<Rightarrow> nat list \<Rightarrow> nat \<Rightarrow> u8" where
  "hem_byte W E m_address_base m_base a =
     (let i = a - m_address_base
      in if m_address_base \<le> a \<and> i div BYTES W < length m_base then word_of_nat (drop_bit (8 * lane E (BYTES W) (i mod BYTES W)) (m_base ! (i div BYTES W))) else 0)"

fun little_value :: "u8 list \<Rightarrow> nat" where
  "little_value [] = 0"
| "little_value (b # bs) = unat b OR push_bit 8 (little_value bs)"

definition bytes_value :: "endianness_t \<Rightarrow> u8 list \<Rightarrow> nat" where
  "bytes_value E bs = little_value (if E = ENDIANNESS_LITTLE then bs else rev bs)"

lemma bit_little_value: "bit (little_value bs) n \<longleftrightarrow> n < 8 * length bs \<and> bit (bs ! (n div 8)) (n mod 8)"
proof (induction bs arbitrary: n)
  case (Cons b bs)
  show ?case
  proof (cases "n < 8")
    case True
    then show ?thesis by (simp add: bit_simps)
  next
    case False
    then obtain k where "n = 8 + k" using le_Suc_ex [of 8 n] by auto
    moreover from this have "n div 8 = Suc (k div 8)" "n mod 8 = k mod 8" by simp_all
    ultimately show ?thesis using Cons.IH [of k] by (auto simp: bit_simps dest: bit_imp_le_length)
  qed
qed simp

lemma bit_bytes_value:
  "bit (bytes_value E bs) n \<longleftrightarrow> n < 8 * length bs \<and> bit (bs ! lane E (length bs) (n div 8)) (n mod 8)"
  by (auto simp: bytes_value_def bit_little_value lane_def rev_nth)

definition hem_ok :: "nat \<Rightarrow> nat \<Rightarrow> nat list \<Rightarrow> bool" where
  "hem_ok W n m_base \<longleftrightarrow> length m_base = n \<and> (\<forall>u \<in> set m_base. u < 2 ^ WBITS W)"

lemma hem_unit:
  assumes "BYTES W dvd a" "BYTES W dvd base" "base \<le> a" "a < base + n * BYTES W"
  shows "(a - base) mod BYTES W = 0" "(a - base) div BYTES W < n"
    "i < BYTES W \<Longrightarrow> (a + i - base) div BYTES W = (a - base) div BYTES W \<and> (a + i - base) mod BYTES W = i"
proof -
  obtain k where k: "a - base = k * BYTES W" using dvd_diff_nat [OF assms(1,2)] by (metis dvd_div_mult_self)
  have "a - base < n * BYTES W" using assms(3,4) by linarith
  then have "k < n" unfolding k by simp
  then show "(a - base) mod BYTES W = 0" "(a - base) div BYTES W < n" by (simp_all add: k)
  assume i: "i < BYTES W"
  have "a + i - base = i + k * BYTES W" using k assms(3) by linarith
  then show "(a + i - base) div BYTES W = (a - base) div BYTES W \<and> (a + i - base) mod BYTES W = i" using i by (simp add: k)
qed

lemma hem_native_bus:
  assumes "1 \<le> W" "BYTES W dvd base" "base + n * BYTES W \<le> 2 ^ 32"
  shows "native_bus W E base (base + n * BYTES W) (hem_ok W n) (hem_byte W E base) (hem_read W base) (hem_write W base)"
proof
  fix s :: "nat list" and a m :: nat
  assume s: "hem_ok W n s" and a: "BYTES W dvd a" "base \<le> a" "a < base + n * BYTES W" and m: "m < 2 ^ WBITS W"
  note u = hem_unit [OF a(1) assms(2) a(2,3)]
  let ?q = "(a - base) div BYTES W"
  have d: "drop_bit W (a - base) = ?q" by (simp add: drop_bit_eq_div)
  have q: "?q < length s" "s ! ?q < 2 ^ WBITS W" using s u(2) by (auto simp: hem_ok_def)
  have b: "bit (hem_byte W E base s (a + i)) j = bit (s ! ?q) (8 * lane E (BYTES W) i + j)" if "i < BYTES W" "j < 8" for i j
    using that u(3) [of i] q(1) a(2) by (simp add: hem_byte_def Let_def bit_simps)
  have "bit (s ! ?q) k = bit (hem_byte W E base s (a + lane E (BYTES W) (k div 8))) (k mod 8)" if "bit m k" for k
  proof -
    have "k div 8 < BYTES W" using bit_less_exp [OF m that] by auto
    then show ?thesis using b [of "lane E (BYTES W) (k div 8)" "k mod 8"] by simp
  qed
  then show "\<exists>v. hem_read W base a m s = Some (v, s) \<and> v < 2 ^ WBITS W \<and>
      (\<forall>k. bit m k \<longrightarrow> bit v k = bit (hem_byte W E base s (a + lane E (BYTES W) (k div 8))) (k mod 8))"
    using q by (simp add: hem_read_def d)
  fix D :: nat assume D: "D < 2 ^ WBITS W"
  define v where "v = (s ! ?q AND (mask (WBITS W) XOR m)) OR (D AND m)"
  have v: "bit v k = (if bit m k then bit D k else bit (s ! ?q) k)" for k
    using bit_less_exp [OF q(2)] by (auto simp: v_def bit_simps)
  have "take_bit (WBITS W) v = v" using v bit_less_exp [OF q(2)] bit_less_exp [OF D] by (intro bit_eqI) (auto simp: bit_take_bit_iff split: if_splits)
  then have lt: "v < 2 ^ WBITS W" by (metis take_bit_nat_less_exp)
  have w: "hem_write W base a D m s = Some (s[?q := v])" using q(1) assms(1) by (simp add: hem_write_def d v_def Let_def)
  have ok: "hem_ok W n (s[?q := v])" using s lt by (auto simp: hem_ok_def dest!: set_update_subset_insert [THEN subsetD])
  have "bit (hem_byte W E base (s[?q := v]) b) j = (if a \<le> b \<and> b < a + BYTES W \<and> bit m (8 * lane E (BYTES W) (b - a) + j)
      then bit D (8 * lane E (BYTES W) (b - a) + j) else bit (hem_byte W E base s b) j)" if j: "j < 8" for b j
  proof (cases "a \<le> b \<and> b < a + BYTES W")
    case True
    then obtain i where i: "b = a + i" "i < BYTES W" by (metis le_add_diff_inverse nat_add_left_cancel_less)
    then show ?thesis using u(3) [of i] q(1) a(2) j by (simp add: hem_byte_def Let_def bit_simps v)
  next
    case False
    have "(b - base) div BYTES W \<noteq> ?q" if "base \<le> b"
    proof
      assume e: "(b - base) div BYTES W = ?q"
      have "b - base = ?q * BYTES W + (b - base) mod BYTES W" using e by (metis div_mult_mod_eq)
      moreover have "a - base = ?q * BYTES W" using u(1) by (metis add.right_neutral div_mult_mod_eq)
      moreover have "(b - base) mod BYTES W < BYTES W" by simp
      ultimately show False using False that a(2) by linarith
    qed
    then show ?thesis using False by (auto simp: hem_byte_def Let_def)
  qed
  then show "\<exists>s'. hem_write W base a D m s = Some s' \<and> hem_ok W n s' \<and>
      (\<forall>b j. j < 8 \<longrightarrow> bit (hem_byte W E base s' b) j = (if a \<le> b \<and> b < a + BYTES W \<and> bit m (8 * lane E (BYTES W) (b - a) + j)
          then bit D (8 * lane E (BYTES W) (b - a) + j) else bit (hem_byte W E base s b) j))"
    using w ok by blast
qed (use assms in auto)

section \<open>Accesses of any width are accesses of bytes\<close>

text \<open>C13. Reads of memory through the bus, for every width of the bus from 16 to 64 bits, every width of the access, both byte orders and
  any alignment. The routine may need one native read, part of one, two or several; in each case the bits of the result that
  the mask asks for are those of the value which the bytes from the address on have in the byte order of the bus, the memory is
  unchanged, and no read falls outside the memory.\<close>

theorem memory_read_bytes:
  assumes "1 \<le> W" "BYTES W dvd base" "base + length m * BYTES W \<le> 2 ^ 32" "\<forall>u \<in> set m. u < 2 ^ WBITS W"
    and "base \<le> addr" "addr + BYTES T \<le> base + length m * BYTES W" "msk < 2 ^ WBITS T" "Aligned \<longrightarrow> BYTES (min W T) dvd addr"
  shows "\<exists>v. memory_read_generic W 0 E T Aligned (hem_read W base) addr msk m = Some (v, m) \<and>
    v AND msk = bytes_value E (map (hem_byte W E base m) [addr..<addr + BYTES T]) AND msk"
proof -
  note bus = hem_native_bus [OF assms(1-3), of E]
  have "hem_ok W (length m) m" using assms(4) by (simp add: hem_ok_def)
  then obtain v where v: "memory_read_generic W 0 E T Aligned (hem_read W base) addr msk m = Some (v, m)"
      "native_bus.delivers E (hem_byte W E base) addr T msk m v"
    using native_bus.generic_read [OF bus _ assms(5-8)] by blast
  have "v AND msk = bytes_value E (map (hem_byte W E base m) [addr..<addr + BYTES T]) AND msk"
  proof (rule bit_eqI)
    fix n
    show "bit (v AND msk) n = bit (bytes_value E (map (hem_byte W E base m) [addr..<addr + BYTES T]) AND msk) n"
    proof (cases "bit msk n")
      case True
      then have n: "n < WBITS T" by (rule bit_less_exp [OF assms(7)])
      then have "lane E (BYTES T) (n div 8) < BYTES T" by (intro lane_less) auto
      then show ?thesis using v(2) True n unfolding native_bus.delivers_def [OF bus] by (auto simp: bit_simps bit_bytes_value)
    qed (simp add: bit_simps)
  qed
  then show ?thesis using v(1) by blast
qed

theorem memory_read_bytes_witness:
  "\<exists>v. memory_read_generic 1 0 ENDIANNESS_BIG 1 False (hem_read 1 0x100) 0x101 0xffff [0x0123, 0x4567, 0x89ab] =
     Some (v, [0x0123, 0x4567, 0x89ab]) \<and> v AND 0xffff = 0x2345"
proof -
  have "[0x101..<0x101 + BYTES 1] = [0x101, 0x102]" by (simp add: upt_rec)
  then have "bytes_value ENDIANNESS_BIG (map (hem_byte 1 ENDIANNESS_BIG 0x100 [0x0123, 0x4567, 0x89ab]) [0x101..<0x101 + BYTES 1]) AND 0xffff = 0x2345"
    by (simp add: bytes_value_def hem_byte_def lane_def drop_bit_eq_div push_bit_eq_mult)
  then show ?thesis
    using memory_read_bytes [of 1 "0x100" "[0x0123, 0x4567, 0x89ab]" "0x101" 1 "0xffff" False ENDIANNESS_BIG] by simp
qed

text \<open>C14. Writes to memory through the bus, for every width of the bus from 16 to 64 bits, every width of the access, both byte orders and
  any alignment. A bit of the memory is changed exactly when it belongs to the bytes of the access and its bit of the mask is set;
  it then has the value of its bit of the data. The memory keeps its size, and no write falls outside it.\<close>

theorem memory_write_bytes:
  assumes "1 \<le> W" "BYTES W dvd base" "base + length m * BYTES W \<le> 2 ^ 32" "\<forall>u \<in> set m. u < 2 ^ WBITS W"
    and "base \<le> addr" "addr + BYTES T \<le> base + length m * BYTES W" "data < 2 ^ WBITS T" "msk < 2 ^ WBITS T" "Aligned \<longrightarrow> BYTES (min W T) dvd addr"
  shows "\<exists>m'. memory_write_generic W 0 E T Aligned (hem_write W base) addr data msk m = Some m' \<and> length m' = length m \<and>
    (\<forall>u \<in> set m'. u < 2 ^ WBITS W) \<and>
    (\<forall>b j. j < 8 \<longrightarrow> bit (hem_byte W E base m' b) j =
       (let n = 8 * lane E (BYTES T) (b - addr) + j
        in if addr \<le> b \<and> b < addr + BYTES T \<and> bit msk n then bit data n else bit (hem_byte W E base m b) j))"
proof -
  note bus = hem_native_bus [OF assms(1-3), of E]
  have "hem_ok W (length m) m" using assms(4) by (simp add: hem_ok_def)
  then obtain m' where m': "memory_write_generic W 0 E T Aligned (hem_write W base) addr data msk m = Some m'"
      "native_bus.wrote E (hem_ok W (length m)) (hem_byte W E base) addr T data msk 0 (WBITS T) m m'"
    using native_bus.generic_write [OF bus _ assms(5-9)] by blast
  moreover have "8 * lane E (BYTES T) (b - addr) + j < WBITS T" if "addr \<le> b" "b < addr + BYTES T" "j < 8" for b j
    using lane_less [of "b - addr" "BYTES T" E] that by linarith
  ultimately show ?thesis unfolding native_bus.wrote_def [OF bus] hem_ok_def Let_def by auto
qed

theorem memory_write_bytes_witness:
  "\<exists>m'. memory_write_generic 1 0 ENDIANNESS_BIG 1 False (hem_write 1 0x100) 0x101 0x1122 0xff00 [0x0123, 0x4567, 0x89ab] = Some m' \<and>
     length m' = 3 \<and> bit (hem_byte 1 ENDIANNESS_BIG 0x100 m' 0x101) 4"
proof -
  have b: "bit (0xff00 :: nat) 12" "bit (0x1122 :: nat) 12" by (simp_all add: bit_iff_odd)
  obtain m' where m': "memory_write_generic 1 0 ENDIANNESS_BIG 1 False (hem_write 1 0x100) 0x101 0x1122 0xff00 [0x0123, 0x4567, 0x89ab] = Some m'"
      "length m' = 3"
      "\<And>b j. j < 8 \<Longrightarrow> bit (hem_byte 1 ENDIANNESS_BIG 0x100 m' b) j =
         (let n = 8 * lane ENDIANNESS_BIG (BYTES 1) (b - 0x101) + j
          in if 0x101 \<le> b \<and> b < 0x101 + BYTES 1 \<and> bit (0xff00 :: nat) n then bit (0x1122 :: nat) n
             else bit (hem_byte 1 ENDIANNESS_BIG 0x100 [0x0123, 0x4567, 0x89ab] b) j)"
    using memory_write_bytes [of 1 "0x100" "[0x0123, 0x4567, 0x89ab]" "0x101" 1 "0x1122" "0xff00" False ENDIANNESS_BIG] by auto
  show ?thesis using m'(1,2) m'(3) [of 4 "0x101"] b by (simp add: lane_def Let_def)
qed

end
