(* ===== verification/Rosco_M68k.thy ===== *)
theory Rosco_M68k
  imports Memory Memory_Handler Board_Spi
begin

unbundle bit_operations_syntax

text \<open>
  The 68000 and 68010 boards, \<^verbatim>\<open>src/rosco/drivers/rosco_m68k.cpp\<close>: the address map on its 16 bit bus, the boot vectors
  that the ROM shows at address 0 until the first write, the bus errors of unmapped areas with their hold-off timer, reset and
  the quickload of a program. The devices and their wiring are those of the theory \<open>Board\<close>. The CPU is the source of the
  accesses; what the board tells it is a list of events. The ATA interface is a parameter here, an
  arbitrary state with arbitrary handlers; the theory \<open>Ata_Board\<close> puts the interface with its disk in.
\<close>

section \<open>Memory views\<close>

text \<open>\<^verbatim>\<open>memory_view\<close>: the mapping from slots to entries, and the entry in force, -1 for none.\<close>

record memory_view =
  m_entry_mapping :: "(int \<times> int) list"
  m_cur_id :: int
  m_cur_slot :: int

definition view_disable :: "memory_view \<Rightarrow> memory_view" where
  "view_disable v = (if m_cur_id v \<noteq> -1 then v\<lparr>m_cur_slot := -1, m_cur_id := -1\<rparr> else v)"

definition view_select :: "int \<Rightarrow> memory_view \<Rightarrow> memory_view option" where
  "view_select slot v =
     (if slot \<noteq> m_cur_slot v \<or> m_cur_id v = -1 then
        (case map_of (m_entry_mapping v) slot of
           None \<Rightarrow> None
         | Some i \<Rightarrow> Some (v\<lparr>m_cur_slot := slot, m_cur_id := i\<rparr>))
      else Some v)"

section \<open>State\<close>

datatype cpu_type_68k = M68000 | M68010

datatype cpu_event_68k = Trigger_bus_error | Set_buserror_details u32 bool u8 | Line_buserror bool

record 'a rosco_m68k =
  board68 :: board
  cpu_type :: cpu_type_68k
  m_sysram :: "nat list"
  monitor :: "nat list"
  m_bootvect :: memory_view
  m_bus_error :: bool
  m_bus_error_timer :: emu_timer
  side_effects_disabled :: bool
  m_clock :: int
  get_fc :: u8
  cpu_log :: "cpu_event_68k list"
  cpu_pc :: nat
  m_ata :: 'a

text \<open>The handlers of the ATA interface get the time of the access, and reads whether side effects are disabled.\<close>

record 'a ata_handlers =
  cs0_r :: "attotime \<Rightarrow> bool \<Rightarrow> nat \<Rightarrow> nat \<Rightarrow> 'a \<Rightarrow> nat \<times> 'a"
  cs0_w :: "attotime \<Rightarrow> nat \<Rightarrow> nat \<Rightarrow> nat \<Rightarrow> 'a \<Rightarrow> 'a"
  cs1_r :: "attotime \<Rightarrow> bool \<Rightarrow> nat \<Rightarrow> nat \<Rightarrow> 'a \<Rightarrow> nat \<times> 'a"
  cs1_w :: "attotime \<Rightarrow> nat \<Rightarrow> nat \<Rightarrow> nat \<Rightarrow> 'a \<Rightarrow> 'a"

datatype handler_m68k = Sysram | Monitor | Duart_lanes | Ata_cs0 | Ata_cs1 | Unmapped_ram | Unmapped_exp | Bootvect_view

text \<open>The map of the board and, last, the line of the 68000 and 68010 models.\<close>

definition mem_map_m68k :: "handler_m68k address_map_entry list" where
  "mem_map_m68k =
     [map_rw 0x000000 0x0fffff Sysram,
      map_r 0xe00000 0xefffff Monitor,
      map_rw 0xf00000 0xf0001f Duart_lanes,
      map_rw 0xf80040 0xf8004f Ata_cs0,
      map_rw 0xf80050 0xf8005f Ata_cs1,
      map_rw 0x100000 0xdfffff Unmapped_ram,
      map_rw 0xf00020 0xf8003f Unmapped_exp,
      map_rw 0xf80060 0xfffdff Unmapped_exp]"

definition delegated_mem_map :: "handler_m68k address_map_entry list \<Rightarrow> handler_m68k address_map_entry list" where
  "delegated_mem_map mp = mp @ [map_rw 0x000000 0x000007 Bootvect_view]"

section \<open>Bus errors\<close>

definition clocks_to_attotime :: "int \<Rightarrow> nat \<Rightarrow> attotime" where
  "clocks_to_attotime clock numclocks =
     (if clock = 0 then attotime_never
      else if int numclocks < clock then Attotime 0 (int numclocks * HZ_TO_ATTOSECONDS clock)
      else Attotime (int numclocks div clock) ((int numclocks mod clock) * HZ_TO_ATTOSECONDS clock))"

definition signal_bus_error :: "u32 \<Rightarrow> bool \<Rightarrow> 'a rosco_m68k \<Rightarrow> 'a rosco_m68k" where
  "signal_bus_error address rw s =
     (case cpu_type s of
        M68000 \<Rightarrow> s\<lparr>cpu_log := cpu_log s @ [Trigger_bus_error]\<rparr>
      | M68010 \<Rightarrow> s\<lparr>cpu_log := cpu_log s @ [Set_buserror_details address rw (get_fc s), Line_buserror True, Line_buserror False]\<rparr>)"

definition set_bus_error :: "attotime \<Rightarrow> u32 \<Rightarrow> bool \<Rightarrow> nat \<Rightarrow> 'a rosco_m68k \<Rightarrow> 'a rosco_m68k" where
  "set_bus_error now address rw mem_mask s =
     (if m_bus_error s then s
      else if side_effects_disabled s then s
      else
        let s1 = signal_bus_error address rw (s\<lparr>m_bus_error := True\<rparr>)
        in s1\<lparr>m_bus_error_timer := timer_adjust now (clocks_to_attotime (m_clock s1) 16) 0 attotime_never (m_bus_error_timer s1)\<rparr>)"

text \<open>The callback of the timer.\<close>

definition bus_error :: "'a rosco_m68k \<Rightarrow> 'a rosco_m68k" where
  "bus_error s = s\<lparr>m_bus_error := False\<rparr>"

definition unmapped_ram_r :: "attotime \<Rightarrow> nat \<Rightarrow> nat \<Rightarrow> 'a rosco_m68k \<Rightarrow> nat \<times> 'a rosco_m68k" where
  "unmapped_ram_r now offset mem_mask s = (0xff, set_bus_error now (push_bit 1 (word_of_nat offset)) False mem_mask s)"

definition unmapped_ram_w :: "attotime \<Rightarrow> nat \<Rightarrow> nat \<Rightarrow> nat \<Rightarrow> 'a rosco_m68k \<Rightarrow> 'a rosco_m68k" where
  "unmapped_ram_w now offset data mem_mask s = set_bus_error now (push_bit 1 (word_of_nat offset)) True mem_mask s"

definition unmapped_exp_r :: "attotime \<Rightarrow> nat \<Rightarrow> nat \<Rightarrow> 'a rosco_m68k \<Rightarrow> nat \<times> 'a rosco_m68k" where
  "unmapped_exp_r now offset mem_mask s = (0xff, set_bus_error now (push_bit 1 (word_of_nat offset) + 0xf00000) False mem_mask s)"

definition unmapped_exp_w :: "attotime \<Rightarrow> nat \<Rightarrow> nat \<Rightarrow> nat \<Rightarrow> 'a rosco_m68k \<Rightarrow> 'a rosco_m68k" where
  "unmapped_exp_w now offset data mem_mask s = set_bus_error now (push_bit 1 (word_of_nat offset) + 0xf00000) True mem_mask s"

section \<open>Boot vectors\<close>

definition bootvect_w :: "nat \<Rightarrow> nat \<Rightarrow> nat \<Rightarrow> 'a rosco_m68k \<Rightarrow> 'a rosco_m68k option" where
  "bootvect_w offset data mem_mask s =
     map_option (\<lambda>ram. s\<lparr>m_sysram := ram, m_bootvect := view_disable (m_bootvect s)\<rparr>)
       (hem_write 1 0 (push_bit 1 offset) data mem_mask (m_sysram s))"

definition bootvec_reset :: "'a rosco_m68k \<Rightarrow> 'a rosco_m68k option" where
  "bootvec_reset s = map_option (\<lambda>v. s\<lparr>m_bootvect := v\<rparr>) (view_select 0 (m_bootvect s))"

section \<open>Accesses of the bus\<close>

text \<open>A word of a memory block, at an address; the DUART is on the low lane only.\<close>

definition sysram_r :: "nat \<Rightarrow> nat \<Rightarrow> 'a rosco_m68k \<Rightarrow> (nat \<times> 'a rosco_m68k) option" where
  "sysram_r addr mem_mask s = map_option (\<lambda>(v, _). (v, s)) (hem_read 1 0 addr mem_mask (m_sysram s))"

definition sysram_w :: "nat \<Rightarrow> nat \<Rightarrow> nat \<Rightarrow> 'a rosco_m68k \<Rightarrow> 'a rosco_m68k option" where
  "sysram_w addr data mem_mask s = map_option (\<lambda>ram. s\<lparr>m_sysram := ram\<rparr>) (hem_write 1 0 addr data mem_mask (m_sysram s))"

definition monitor_r :: "nat \<Rightarrow> nat \<Rightarrow> nat \<Rightarrow> 'a rosco_m68k \<Rightarrow> (nat \<times> 'a rosco_m68k) option" where
  "monitor_r base addr mem_mask s = map_option (\<lambda>(v, _). (v, s)) (hem_read 1 base addr mem_mask (monitor s))"

definition duart_lanes_r :: "attotime \<Rightarrow> nat \<Rightarrow> nat \<Rightarrow> 'a rosco_m68k \<Rightarrow> (nat \<times> 'a rosco_m68k) option" where
  "duart_lanes_r now offset mem_mask s =
     (if mem_mask AND 0x00ff \<noteq> 0 then map_option (\<lambda>(v, b). (unat v, s\<lparr>board68 := b\<rparr>)) (board_duart_read now offset (board68 s))
      else Some (0, s))"

definition duart_lanes_w :: "attotime \<Rightarrow> nat \<Rightarrow> nat \<Rightarrow> nat \<Rightarrow> 'a rosco_m68k \<Rightarrow> 'a rosco_m68k option" where
  "duart_lanes_w now offset data mem_mask s =
     (if mem_mask AND 0x00ff \<noteq> 0 then map_option (\<lambda>b. s\<lparr>board68 := b\<rparr>) (board_duart_write now offset (word_of_nat data) (board68 s))
      else Some s)"

definition with_ata :: "'a rosco_m68k \<Rightarrow> nat \<times> 'a \<Rightarrow> (nat \<times> 'a rosco_m68k) option" where
  "with_ata s = (\<lambda>(v, a). Some (v, s\<lparr>m_ata := a\<rparr>))"

text \<open>The native accesses. The address has 24 bits. An area without a handler reads as 0.\<close>

definition read_native :: "'a ata_handlers \<Rightarrow> attotime \<Rightarrow> 'a rosco_m68k rop_t" where
  "read_native ata now address mem_mask s =
     (let addr = take_bit 24 address
      in case root_read (populate_from_map (delegated_mem_map mem_map_m68k)) addr of
           None \<Rightarrow> Some (0, s)
         | Some (h, start) \<Rightarrow>
             let offset = drop_bit 1 (addr - start)
             in (case h of
                   Sysram \<Rightarrow> sysram_r addr mem_mask s
                 | Monitor \<Rightarrow> monitor_r 0xe00000 addr mem_mask s
                 | Duart_lanes \<Rightarrow> duart_lanes_r now offset mem_mask s
                 | Ata_cs0 \<Rightarrow> with_ata s (cs0_r ata now (side_effects_disabled s) offset mem_mask (m_ata s))
                 | Ata_cs1 \<Rightarrow> with_ata s (cs1_r ata now (side_effects_disabled s) offset mem_mask (m_ata s))
                 | Unmapped_ram \<Rightarrow> Some (unmapped_ram_r now offset mem_mask s)
                 | Unmapped_exp \<Rightarrow> Some (unmapped_exp_r now offset mem_mask s)
                 | Bootvect_view \<Rightarrow> (if m_cur_id (m_bootvect s) = -1 then sysram_r addr mem_mask s else monitor_r 0 addr mem_mask s)))"

definition write_native :: "'a ata_handlers \<Rightarrow> attotime \<Rightarrow> 'a rosco_m68k wop_t" where
  "write_native ata now address data mem_mask s =
     (let addr = take_bit 24 address
      in case root_write (populate_from_map (delegated_mem_map mem_map_m68k)) addr of
           None \<Rightarrow> Some s
         | Some (h, start) \<Rightarrow>
             let offset = drop_bit 1 (addr - start)
             in (case h of
                   Sysram \<Rightarrow> sysram_w addr data mem_mask s
                 | Monitor \<Rightarrow> Some s
                 | Duart_lanes \<Rightarrow> duart_lanes_w now offset data mem_mask s
                 | Ata_cs0 \<Rightarrow> Some (s\<lparr>m_ata := cs0_w ata now offset data mem_mask (m_ata s)\<rparr>)
                 | Ata_cs1 \<Rightarrow> Some (s\<lparr>m_ata := cs1_w ata now offset data mem_mask (m_ata s)\<rparr>)
                 | Unmapped_ram \<Rightarrow> Some (unmapped_ram_w now offset data mem_mask s)
                 | Unmapped_exp \<Rightarrow> Some (unmapped_exp_w now offset data mem_mask s)
                 | Bootvect_view \<Rightarrow> (if m_cur_id (m_bootvect s) = -1 then sysram_w addr data mem_mask s else bootvect_w offset data mem_mask s)))"

section \<open>Accesses of other widths, start, reset and quickload\<close>

definition read_byte68 :: "'a ata_handlers \<Rightarrow> attotime \<Rightarrow> nat \<Rightarrow> 'a rosco_m68k \<Rightarrow> (nat \<times> 'a rosco_m68k) option" where
  "read_byte68 ata now address = memory_read_generic 1 0 ENDIANNESS_BIG 0 True (read_native ata now) address 0xff"

definition write_byte68 :: "'a ata_handlers \<Rightarrow> attotime \<Rightarrow> nat \<Rightarrow> nat \<Rightarrow> 'a rosco_m68k \<Rightarrow> 'a rosco_m68k option" where
  "write_byte68 ata now address data = memory_write_generic 1 0 ENDIANNESS_BIG 0 True (write_native ata now) address data 0xff"

definition machine_start68 :: "attotime \<Rightarrow> 'a rosco_m68k \<Rightarrow> 'a rosco_m68k" where
  "machine_start68 now s = s\<lparr>m_bus_error_timer := timer_init now attotime_never 0\<rparr>"

definition machine_reset68 :: "'a rosco_m68k \<Rightarrow> 'a rosco_m68k option" where
  "machine_reset68 s = Option.bind (board_machine_reset (board68 s)) (\<lambda>b. bootvec_reset (s\<lparr>board68 := b\<rparr>))"

datatype load_error68 = INVALIDLENGTH68 | UNSPECIFIED68

fun write_bytes68 :: "'a ata_handlers \<Rightarrow> attotime \<Rightarrow> nat \<Rightarrow> u8 list \<Rightarrow> 'a rosco_m68k \<Rightarrow> 'a rosco_m68k option" where
  "write_bytes68 ata now addr [] s = Some s"
| "write_bytes68 ata now addr (v # vs) s = Option.bind (write_byte68 ata now addr (unat v) s) (write_bytes68 ata now (addr + 1) vs)"

definition quickload_cb68 :: "'a ata_handlers \<Rightarrow> attotime \<Rightarrow> nat \<Rightarrow> u8 list \<Rightarrow> 'a rosco_m68k \<Rightarrow> (load_error68 + 'a rosco_m68k) option" where
  "quickload_cb68 ata now len fread s =
     (if len = 0 \<or> 0x100000 - 0x40000 < len then Some (Inl INVALIDLENGTH68)
      else if length fread \<noteq> len then Some (Inl UNSPECIFIED68)
      else map_option (\<lambda>s1. Inr (s1\<lparr>cpu_pc := 0x40000\<rparr>)) (write_bytes68 ata now 0x40000 fread s))"

section \<open>The address map decoded\<close>

definition decode_m68k :: "nat \<Rightarrow> (handler_m68k \<times> nat) option" where
  "decode_m68k a =
     (if a \<le> 7 then Some (Bootvect_view, 0) else if a \<le> 0x0fffff then Some (Sysram, 0) else if a \<le> 0xdfffff then Some (Unmapped_ram, 0x100000)
      else if a \<le> 0xefffff then Some (Monitor, 0xe00000) else if a \<le> 0xf0001f then Some (Duart_lanes, 0xf00000)
      else if a \<le> 0xf8003f then Some (Unmapped_exp, 0xf00020) else if a \<le> 0xf8004f then Some (Ata_cs0, 0xf80040)
      else if a \<le> 0xf8005f then Some (Ata_cs1, 0xf80050) else if a \<le> 0xfffdff then Some (Unmapped_exp, 0xf80060) else None)"

lemma decode_read68: "root_read (populate_from_map (delegated_mem_map mem_map_m68k)) a = decode_m68k a"
  by (simp add: populate_from_map_def delegated_mem_map_def mem_map_m68k_def populate_map_entry_def decode_m68k_def)

lemma decode_write68:
  "root_write (populate_from_map (delegated_mem_map mem_map_m68k)) a = (case decode_m68k a of Some (Monitor, _) \<Rightarrow> None | x \<Rightarrow> x)"
  by (simp add: populate_from_map_def delegated_mem_map_def mem_map_m68k_def populate_map_entry_def decode_m68k_def) arith

section \<open>The invariant\<close>

definition ok68 :: "'a rosco_m68k \<Rightarrow> bool" where
  "ok68 s \<longleftrightarrow> hem_ok 1 0x80000 (m_sysram s) \<and> hem_ok 1 0x80000 (monitor s) \<and> m_entry_mapping (m_bootvect s) = [(0, 0)] \<and>
     (m_cur_id (m_bootvect s), m_cur_slot (m_bootvect s)) \<in> {(-1, -1), (0, 0)}"

lemma set_bus_error_frame [simp]:
  "board68 (set_bus_error now a rw m s) = board68 s" "m_sysram (set_bus_error now a rw m s) = m_sysram s"
  "monitor (set_bus_error now a rw m s) = monitor s" "m_bootvect (set_bus_error now a rw m s) = m_bootvect s"
  "cpu_type (set_bus_error now a rw m s) = cpu_type s" "side_effects_disabled (set_bus_error now a rw m s) = side_effects_disabled s"
  "cpu_pc (set_bus_error now a rw m s) = cpu_pc s" "m_ata (set_bus_error now a rw m s) = m_ata s"
  by (simp_all add: set_bus_error_def signal_bus_error_def Let_def split: cpu_type_68k.split)

text \<open>The parts of the state that decide how memory looks.\<close>

definition same_memory :: "'a rosco_m68k \<Rightarrow> 'a rosco_m68k \<Rightarrow> bool" where
  "same_memory s s' \<longleftrightarrow> m_sysram s' = m_sysram s \<and> monitor s' = monitor s \<and> m_bootvect s' = m_bootvect s"

lemma same_memory_refl [simp]: "same_memory s s"
  by (simp add: same_memory_def)

lemma ok68_same: "ok68 s \<Longrightarrow> same_memory s s' \<Longrightarrow> ok68 s'"
  by (simp add: ok68_def same_memory_def)

lemma sysram_access:
  assumes "ok68 s" "a < 0x100000"
  shows "sysram_r a m s = Some (m_sysram s ! (a div 2), s)"
    "\<exists>ram. hem_write 1 0 a d m (m_sysram s) = Some ram \<and> sysram_w a d m s = Some (s\<lparr>m_sysram := ram\<rparr>) \<and>
       ram = (m_sysram s)[a div 2 := (m_sysram s ! (a div 2) AND (mask 16 XOR m)) OR (d AND m)]"
  using assms by (auto simp: ok68_def hem_ok_def sysram_r_def sysram_w_def hem_read_def hem_write_def drop_bit_eq_div Let_def)

lemma monitor_access:
  assumes "ok68 s" "base \<le> a" "a < base + 0x100000"
  shows "monitor_r base a m s = Some (monitor s ! ((a - base) div 2), s)"
proof -
  have "(a - base) div 2 < 0x80000" using assms(2,3) by linarith
  then show ?thesis using assms(1) by (simp add: ok68_def hem_ok_def monitor_r_def hem_read_def drop_bit_eq_div)
qed

lemma masked_lt:
  fixes u d m :: nat
  assumes "u < 2 ^ k" "m < 2 ^ k"
  shows "(u AND (mask k XOR m)) OR (d AND m) < 2 ^ k"
proof -
  have "take_bit k ((u AND (mask k XOR m)) OR (d AND m)) = (u AND (mask k XOR m)) OR (d AND m)"
    using bit_less_exp [OF assms(1)] bit_less_exp [OF assms(2)] by (intro bit_eqI) (auto simp: bit_simps)
  then show ?thesis by (metis take_bit_nat_less_exp)
qed

lemma hem_ok_update: "hem_ok W n ram \<Longrightarrow> v < 2 ^ WBITS W \<Longrightarrow> hem_ok W n (ram[i := v])"
  by (auto simp: hem_ok_def dest!: set_update_subset_insert [THEN subsetD])

lemma ok68_sysram:
  assumes "ok68 s" "a < 0x100000" "m < 2 ^ 16"
  shows "ok68 (s\<lparr>m_sysram := (m_sysram s)[a div 2 := (m_sysram s ! (a div 2) AND (mask 16 XOR m)) OR (d AND m)]\<rparr>)"
proof -
  have "m_sysram s ! (a div 2) < 2 ^ 16" using assms(1,2) by (auto simp: ok68_def hem_ok_def)
  then have "(m_sysram s ! (a div 2) AND (mask 16 XOR m)) OR (d AND m) < 2 ^ WBITS 1" using masked_lt [of _ 16] assms(3) by simp
  then show ?thesis using assms(1) hem_ok_update by (auto simp: ok68_def)
qed

lemma read_native_ok:
  assumes "ok68 s"
  shows "\<exists>v s'. read_native ata now a m s = Some (v, s') \<and> same_memory s s'"
proof -
  obtain b v where "board_duart_read now (drop_bit 1 (take_bit 24 a - 0xf00000)) (board68 s) = Some (v, b)"
    using board_duart_read_returns by blast
  then have duart: "\<exists>v s'. duart_lanes_r now (drop_bit 1 (take_bit 24 a - 0xf00000)) m s = Some (v, s') \<and> same_memory s s'"
    by (simp add: duart_lanes_r_def same_memory_def)
  have ata: "\<exists>v s'. with_ata s x = Some (v, s') \<and> same_memory s s'" for x
    by (cases x) (simp add: with_ata_def same_memory_def)
  show ?thesis
    using duart ata sysram_access(1) [OF assms, of "take_bit 24 a" m] monitor_access [OF assms, of _ "take_bit 24 a" m]
    by (auto simp: read_native_def Let_def decode_read68 decode_m68k_def unmapped_ram_r_def unmapped_exp_r_def same_memory_def)
qed

text \<open>Accesses of the first megabyte: RAM, except that reads below 8 see the ROM while the view is selected.\<close>

definition ram_update :: "nat \<Rightarrow> nat \<Rightarrow> nat \<Rightarrow> 'a rosco_m68k \<Rightarrow> 'a rosco_m68k" where
  "ram_update a d m s = s\<lparr>m_sysram := (m_sysram s)[a div 2 := (m_sysram s ! (a div 2) AND (mask 16 XOR m)) OR (d AND m)]\<rparr>"

lemma read_native_low:
  assumes "ok68 s" "a < 0x100000"
  shows "read_native ata now a m s =
    Some ((if a < 8 \<and> m_cur_id (m_bootvect s) \<noteq> -1 then monitor s else m_sysram s) ! (a div 2), s)"
proof -
  have t: "take_bit 24 a = a" using assms(2) by (simp add: take_bit_nat_eq_self)
  show ?thesis
  proof (cases "a < 8")
    case True
    then show ?thesis using sysram_access(1) [OF assms] monitor_access [OF assms(1), of 0 a m] t
      by (simp add: read_native_def decode_read68 decode_m68k_def)
  next
    case False
    then show ?thesis using sysram_access(1) [OF assms] assms(2) t by (simp add: read_native_def decode_read68 decode_m68k_def)
  qed
qed

lemma write_native_low:
  assumes "ok68 s" "a < 0x100000"
  shows "write_native ata now a d m s =
    Some (if a < 8 then (ram_update a d m s)\<lparr>m_bootvect := view_disable (m_bootvect s)\<rparr> else ram_update a d m s)"
proof -
  have t: "take_bit 24 a = a" using assms(2) by (simp add: take_bit_nat_eq_self)
  note w = sysram_access(2) [OF assms, of d m]
  have p: "hem_write 1 0 (push_bit 1 (drop_bit 1 a)) d m (m_sysram s) = hem_write 1 0 a d m (m_sysram s)"
  proof -
    have "drop_bit 1 (push_bit 1 (drop_bit 1 a)) = drop_bit 1 a" by (simp add: drop_bit_eq_div push_bit_eq_mult)
    then show ?thesis by (simp only: hem_write_def diff_zero)
  qed
  show ?thesis
  proof (cases "a < 8")
    case True
    then show ?thesis using w t p
      by (auto simp: write_native_def decode_write68 decode_m68k_def ram_update_def bootvect_w_def view_disable_def Let_def simp del: push_bit_of_nat)
  next
    case False
    then show ?thesis using w assms(2) t by (auto simp: write_native_def decode_write68 decode_m68k_def ram_update_def)
  qed
qed

lemma write_native_high:
  assumes "0x100000 \<le> take_bit 24 a"
  shows "\<exists>s'. write_native ata now a d m s = Some s' \<and> same_memory s s'"
proof -
  obtain b where "board_duart_write now (drop_bit 1 (take_bit 24 a - 0xf00000)) (word_of_nat d) (board68 s) = Some b"
    using board_duart_write_returns by blast
  then have "\<exists>s'. duart_lanes_w now (drop_bit 1 (take_bit 24 a - 0xf00000)) d m s = Some s' \<and> same_memory s s'"
    by (simp add: duart_lanes_w_def same_memory_def)
  then show ?thesis using assms
    by (auto simp: write_native_def Let_def decode_write68 decode_m68k_def unmapped_ram_w_def unmapped_exp_w_def same_memory_def)
qed

lemma write_native_wrap: "write_native ata now a d m s = write_native ata now (take_bit 24 a) d m s"
  "read_native ata now a m s = read_native ata now (take_bit 24 a) m s"
  by (simp_all add: write_native_def read_native_def)

lemma ok68_view: "ok68 s \<Longrightarrow> ok68 (s\<lparr>m_bootvect := view_disable (m_bootvect s)\<rparr>)"
  by (auto simp: ok68_def view_disable_def)

lemma write_native_ok:
  assumes "ok68 s" "m < 2 ^ 16"
  shows "\<exists>s'. write_native ata now a d m s = Some s' \<and> ok68 s' \<and> monitor s' = monitor s"
proof (cases "take_bit 24 a < 0x100000")
  case True
  have r: "ok68 (ram_update (take_bit 24 a) d m s)" using ok68_sysram [OF assms(1) True assms(2)] by (simp add: ram_update_def)
  then have "ok68 ((ram_update (take_bit 24 a) d m s)\<lparr>m_bootvect := view_disable (m_bootvect s)\<rparr>)"
    using ok68_view [OF r] by (simp add: ram_update_def)
  then show ?thesis using write_native_low [OF assms(1) True, of ata now d m] r
    by (subst write_native_wrap) (simp add: ram_update_def)
next
  case False
  then show ?thesis using write_native_high [of a ata now d m s] ok68_same [OF assms(1)] by (auto simp: same_memory_def)
qed

section \<open>Runs of the machine\<close>

text \<open>What happens to the machine: accesses of the CPU, resets, the timer, and whatever the timers and the reset of the ATA drives
  do to the interface. An access has a mask of the word's bytes.\<close>

datatype access68 = Read68 nat nat | Write68 nat nat nat

fun do_access68 :: "'a ata_handlers \<Rightarrow> attotime \<Rightarrow> access68 \<Rightarrow> 'a rosco_m68k \<Rightarrow> 'a rosco_m68k option" where
  "do_access68 ata now (Read68 a m) s = map_option snd (read_native ata now a m s)"
| "do_access68 ata now (Write68 a d m) s = write_native ata now a d m s"

fun accesses68 :: "'a ata_handlers \<Rightarrow> (attotime \<times> access68) list \<Rightarrow> 'a rosco_m68k \<Rightarrow> 'a rosco_m68k option" where
  "accesses68 ata [] s = Some s"
| "accesses68 ata ((now, c) # cs) s = Option.bind (do_access68 ata now c s) (accesses68 ata cs)"

fun access_mask :: "access68 \<Rightarrow> nat" where
  "access_mask (Read68 a m) = m"
| "access_mask (Write68 a d m) = m"

definition fresh68 :: "nat list \<Rightarrow> 'a rosco_m68k \<Rightarrow> bool" where
  "fresh68 rom s \<longleftrightarrow> hem_ok 1 0x80000 (m_sysram s) \<and> hem_ok 1 0x80000 rom \<and> monitor s = rom \<and> m_bus_error s = False \<and>
     m_bootvect s = \<lparr>m_entry_mapping = [(0, 0)], m_cur_id = -1, m_cur_slot = -1\<rparr>"

inductive run68 :: "'a ata_handlers \<Rightarrow> nat list \<Rightarrow> 'a rosco_m68k \<Rightarrow> bool" for ata rom where
  started68: "fresh68 rom s \<Longrightarrow> machine_reset68 (machine_start68 now s) = Some s' \<Longrightarrow> run68 ata rom s'"
| resets68: "run68 ata rom s \<Longrightarrow> machine_reset68 s = Some s' \<Longrightarrow> run68 ata rom s'"
| accesses: "run68 ata rom s \<Longrightarrow> access_mask c < 2 ^ 16 \<Longrightarrow> do_access68 ata now c s = Some s' \<Longrightarrow> run68 ata rom s'"
| timeouts: "run68 ata rom s \<Longrightarrow> run68 ata rom (bus_error s)"
| ata_events: "run68 ata rom s \<Longrightarrow> run68 ata rom (s\<lparr>m_ata := d\<rparr>)"
| quickloads68: "run68 ata rom s \<Longrightarrow> quickload_cb68 ata now n bs s = Some (Inr s') \<Longrightarrow> run68 ata rom s'"

lemma reset68_ok:
  assumes "ok68 s"
  shows "\<exists>s'. machine_reset68 s = Some s' \<and> ok68 s' \<and> monitor s' = monitor s \<and> m_sysram s' = m_sysram s \<and> m_cur_id (m_bootvect s') = 0 \<and>
    m_bus_error s' = m_bus_error s"
proof -
  obtain b where "board_machine_reset (board68 s) = Some b" using board_machine_reset_returns by blast
  then show ?thesis using assms by (auto simp: machine_reset68_def bootvec_reset_def view_select_def ok68_def)
qed

lemma started68_ok:
  assumes "fresh68 rom s"
  shows "\<exists>s'. machine_reset68 (machine_start68 now s) = Some s' \<and> ok68 s' \<and> monitor s' = rom \<and> m_cur_id (m_bootvect s') = 0"
proof -
  have "ok68 (machine_start68 now s)" "monitor (machine_start68 now s) = rom"
    using assms by (simp_all add: fresh68_def ok68_def machine_start68_def)
  then show ?thesis using reset68_ok by metis
qed

lemma access68_ok:
  assumes "ok68 s" "access_mask c < 2 ^ 16"
  shows "\<exists>s'. do_access68 ata now c s = Some s' \<and> ok68 s' \<and> monitor s' = monitor s"
proof (cases c)
  case (Read68 a m)
  then show ?thesis using read_native_ok [OF assms(1), of ata now a m] ok68_same [OF assms(1)] by (auto simp: same_memory_def)
next
  case (Write68 a d m)
  then show ?thesis using write_native_ok [of s m ata now a d] assms by auto
qed

section \<open>The RAM as a memory of bytes\<close>

definition ram_byte :: "'a rosco_m68k \<Rightarrow> nat \<Rightarrow> u8" where
  "ram_byte s = hem_byte 1 ENDIANNESS_BIG 0 (m_sysram s)"

text \<open>Above the boot vectors the native accesses are those of plain memory.\<close>

interpretation ram68: native_bus 1 ENDIANNESS_BIG 8 "0x100000" ok68 ram_byte "read_native ata now" "write_native ata now"
proof
  fix s :: "'a rosco_m68k" and a m :: nat
  assume s: "ok68 s" and a: "BYTES 1 dvd a" "8 \<le> a" "a < 0x100000" and m: "m < 2 ^ WBITS 1"
  have h: "native_bus 1 ENDIANNESS_BIG 0 (0 + 0x80000 * BYTES 1) (hem_ok 1 0x80000) (hem_byte 1 ENDIANNESS_BIG 0) (hem_read 1 0) (hem_write 1 0)"
    by (rule hem_native_bus) simp_all
  have ok: "hem_ok 1 0x80000 (m_sysram s)" "a < 0 + 0x80000 * BYTES 1" using s a by (simp_all add: ok68_def)
  have "read_native ata now a m s = Some (m_sysram s ! (a div 2), s)" using read_native_low [OF s a(3)] a(2) by simp
  moreover have "hem_read 1 0 a m (m_sysram s) = Some (m_sysram s ! (a div 2), m_sysram s)"
    using ok a by (simp add: hem_read_def hem_ok_def drop_bit_eq_div Let_def)
  ultimately show "\<exists>v. read_native ata now a m s = Some (v, s) \<and> v < 2 ^ WBITS 1 \<and>
      (\<forall>n. bit m n \<longrightarrow> bit v n = bit (ram_byte s (a + lane ENDIANNESS_BIG (BYTES 1) (n div 8))) (n mod 8))"
    using native_bus.rop_unit [OF h ok(1) a(1) le0 ok(2) m] by (auto simp: ram_byte_def)
  fix d :: nat assume d: "d < 2 ^ WBITS 1"
  obtain ram where ram: "hem_write 1 0 a d m (m_sysram s) = Some ram"
      "ram = (m_sysram s)[a div 2 := (m_sysram s ! (a div 2) AND (mask 16 XOR m)) OR (d AND m)]"
    using sysram_access(2) [OF s a(3), of d m] by blast
  have w: "write_native ata now a d m s = Some (s\<lparr>m_sysram := ram\<rparr>)"
    using write_native_low [OF s a(3)] a(2) ram(2) by (simp add: ram_update_def)
  have "ok68 (s\<lparr>m_sysram := ram\<rparr>)" using ok68_sysram [OF s a(3), of m d] m ram(2) by simp
  then show "\<exists>s'. write_native ata now a d m s = Some s' \<and> ok68 s' \<and>
      (\<forall>b j. j < 8 \<longrightarrow> bit (ram_byte s' b) j = (if a \<le> b \<and> b < a + BYTES 1 \<and> bit m (8 * lane ENDIANNESS_BIG (BYTES 1) (b - a) + j)
          then bit d (8 * lane ENDIANNESS_BIG (BYTES 1) (b - a) + j) else bit (ram_byte s b) j))"
    using native_bus.wop_unit [OF h ok(1) a(1) le0 ok(2) d m] ram(1) unfolding w ram_byte_def by auto
qed (simp_all add: dvd_def)

text \<open>A byte written to RAM, and a program written byte by byte.\<close>

lemma write_byte68_ram:
  assumes "ok68 s" "8 \<le> a" "a < 0x100000"
  shows "\<exists>s'. write_byte68 ata now a (unat (v :: u8)) s = Some s' \<and> ok68 s' \<and> ram_byte s' = (ram_byte s)(a := v)"
proof -
  obtain s' where s': "write_byte68 ata now a (unat v) s = Some s'" "ram68.wrote a 0 (unat v) 0xff 0 (WBITS 0) s s'"
    using ram68.generic_write [OF assms(1,2), of 0 "unat v" "0xff" True] assms(3) unsigned_less [of v] by (auto simp: write_byte68_def)
  have "ram_byte s' = (ram_byte s)(a := v)"
  proof (rule ext, rule bit_word_eqI)
    fix b j assume j: "j < LENGTH(8)"
    have "bit (0xff :: nat) j" using j bit_mask_iff [where 'a = nat, of 8 j] by (simp add: mask_eq_exp_minus_1)
    then show "bit (ram_byte s' b) j = bit (((ram_byte s)(a := v)) b) j"
      using s'(2) j unfolding ram68.wrote_def Let_def by (auto simp: lane_def bit_simps)
  qed
  then show ?thesis using s' unfolding ram68.wrote_def by blast
qed

lemma write_byte68_frame:
  assumes "ok68 s" "8 \<le> a" "a < 0x100000" "write_byte68 ata now a v s = Some s'"
  shows "s' = s\<lparr>m_sysram := m_sysram s'\<rparr>"
proof -
  have a: "a < 2 ^ 32" "a - a mod 2 < 0x100000" "8 \<le> a - a mod 2" using assms(2,3) by (simp, simp, presburger)
  obtain d m where "write_byte68 ata now a v s = write_native ata now (a - a mod 2) d m s"
    using clear_mask_mod [OF a(1), of 1] by (simp add: write_byte68_def memory_write_generic_def Let_def)
  then show ?thesis using write_native_low [OF assms(1) a(2)] a(3) assms(4) by (simp add: ram_update_def)
qed

lemma write_bytes68_ram:
  assumes "ok68 s" "8 \<le> a" "a + length vs \<le> 0x100000"
  shows "\<exists>s'. write_bytes68 ata now a vs s = Some s' \<and> ok68 s' \<and> s' = s\<lparr>m_sysram := m_sysram s'\<rparr> \<and>
    (\<forall>b. ram_byte s' b = (if a \<le> b \<and> b < a + length vs then vs ! (b - a) else ram_byte s b))"
  using assms
proof (induction vs arbitrary: a s)
  case (Cons v vs)
  have a: "a < 0x100000" using Cons.prems(3) by simp
  obtain s1 where s1: "write_byte68 ata now a (unat v) s = Some s1" "ok68 s1" "ram_byte s1 = (ram_byte s)(a := v)"
    using write_byte68_ram [OF Cons.prems(1,2) a] by blast
  have f: "s1 = s\<lparr>m_sysram := m_sysram s1\<rparr>" by (rule write_byte68_frame [OF Cons.prems(1,2) a s1(1)])
  have "8 \<le> a + 1" "a + 1 + length vs \<le> 0x100000" using Cons.prems(2,3) by simp_all
  from Cons.IH [OF s1(2) this]
  obtain s2 where s2: "write_bytes68 ata now (a + 1) vs s1 = Some s2" "ok68 s2" "s2 = s1\<lparr>m_sysram := m_sysram s2\<rparr>"
      "\<And>b. ram_byte s2 b = (if a + 1 \<le> b \<and> b < a + 1 + length vs then vs ! (b - (a + 1)) else ram_byte s1 b)"
    by blast
  have "s2 = s\<lparr>m_sysram := m_sysram s2\<rparr>" by (subst s2(3), subst f) simp
  moreover have "ram_byte s2 b = (if a \<le> b \<and> b < a + length (v # vs) then (v # vs) ! (b - a) else ram_byte s b)" for b
    by (auto simp: s2(4) s1(3) nth_Cons split: nat.split) (metis Suc_diff_Suc Suc_inject less_eq_Suc_le)
  ultimately show ?case using s1(1) s2(1,2) by auto
qed auto

lemma quickload68_ok:
  assumes "ok68 s"
  shows "\<exists>r. quickload_cb68 ata now n bs s = Some r \<and> (\<forall>s'. r = Inr s' \<longrightarrow> ok68 s' \<and> monitor s' = monitor s)"
proof (cases "n = 0 \<or> 0xc0000 < n \<or> length bs \<noteq> n")
  case True
  then show ?thesis by (auto simp: quickload_cb68_def)
next
  case False
  then obtain s1 where s1: "write_bytes68 ata now 0x40000 bs s = Some s1" "ok68 s1" "s1 = s\<lparr>m_sysram := m_sysram s1\<rparr>"
    using write_bytes68_ram [OF assms, where a = "0x40000" and vs = bs and ata = ata and now = now] by auto
  have "monitor s1 = monitor s" by (subst s1(3)) simp
  moreover have "ok68 (s1\<lparr>cpu_pc := 0x40000\<rparr>)" using s1(2) by (simp add: ok68_def)
  ultimately show ?thesis using False s1(1) by (auto simp: quickload_cb68_def)
qed

lemma run68_ok: "run68 ata rom s \<Longrightarrow> ok68 s \<and> monitor s = rom"
proof (induction rule: run68.induct)
  case (started68 s now s')
  then show ?case using started68_ok [OF started68(1), of now] by auto
next
  case (resets68 s s')
  then show ?case using reset68_ok [of s] by auto
next
  case (accesses s c now s')
  then show ?case using access68_ok [of s c ata now] by auto
next
  case (timeouts s)
  then show ?case by (auto simp: bus_error_def ok68_def)
next
  case (ata_events s d)
  then show ?case by (auto simp: ok68_def)
next
  case (quickloads68 s now n bs s')
  then show ?case using quickload68_ok [of s ata now n bs] by auto
qed

text \<open>C22. The 68000 and 68010 machines never fail. Whatever the ATA interface does, from the start on and after any sequence of resets,
  word and byte accesses of any address, bus error timeouts, events of the ATA interface and quickloads, the ROM is unchanged, the boot vector view is in one of
  its two states, and the next access, reset or quickload stays inside the memories and returns.\<close>

theorem machine_m68k_safe:
  assumes "run68 ata rom s" "access_mask c < 2 ^ 16"
  shows "monitor s = rom \<and> m_cur_id (m_bootvect s) \<in> {-1, 0} \<and> (\<exists>s'. do_access68 ata now c s = Some s') \<and>
    (\<exists>s'. machine_reset68 s = Some s') \<and> (\<exists>r. quickload_cb68 ata now n bs s = Some r)"
proof -
  have ok: "ok68 s" "monitor s = rom" using run68_ok [OF assms(1)] by auto
  then have "m_cur_id (m_bootvect s) \<in> {-1, 0}" by (auto simp: ok68_def)
  then show ?thesis using ok access68_ok [OF ok(1) assms(2), of ata now] reset68_ok [OF ok(1)] quickload68_ok [OF ok(1), of ata now n bs] by blast
qed

definition no_ata :: "unit ata_handlers" where
  "no_ata = \<lparr>cs0_r = \<lambda>_ _ _ _ a. (0xffff, a), cs0_w = \<lambda>_ _ _ _ a. a, cs1_r = \<lambda>_ _ _ _ a. (0xffff, a), cs1_w = \<lambda>_ _ _ _ a. a\<rparr>"

definition fresh_machine68 :: "unit rosco_m68k" where
  "fresh_machine68 = \<lparr>board68 = ready_board, cpu_type = M68010, m_sysram = replicate 0x80000 0, monitor = replicate 0x80000 0x4e71,
     m_bootvect = \<lparr>m_entry_mapping = [(0, 0)], m_cur_id = -1, m_cur_slot = -1\<rparr>, m_bus_error = False,
     m_bus_error_timer = timer_init attotime_zero attotime_never 0, side_effects_disabled = False, m_clock = 10000000, get_fc = 5,
     cpu_log = [], cpu_pc = 0, m_ata = ()\<rparr>"

lemma fresh_machine68_ok: "fresh68 (replicate 0x80000 0x4e71) fresh_machine68"
  by (simp add: fresh68_def fresh_machine68_def hem_ok_def)

lemma fresh_run68:
  obtains s where "machine_reset68 (machine_start68 attotime_zero fresh_machine68) = Some s" "run68 no_ata (replicate 0x80000 0x4e71) s"
    "m_cur_id (m_bootvect s) = 0"
  using started68_ok [OF fresh_machine68_ok, of attotime_zero] run68.started68 [OF fresh_machine68_ok, of attotime_zero] by blast

theorem machine_m68k_safe_witness:
  "\<exists>s. machine_reset68 (machine_start68 attotime_zero fresh_machine68) = Some s \<and> monitor s = replicate 0x80000 0x4e71 \<and>
     (\<exists>s'. do_access68 no_ata attotime_zero (Write68 0x123456 0xffff 0xffff) s = Some s')"
proof -
  obtain s where s: "machine_reset68 (machine_start68 attotime_zero fresh_machine68) = Some s" "run68 no_ata (replicate 0x80000 0x4e71) s"
    using fresh_run68 by blast
  then show ?thesis using machine_m68k_safe [OF s(2), of "Write68 0x123456 0xffff 0xffff" attotime_zero] by simp
qed

section \<open>Boot vectors\<close>

text \<open>A write below 8 is the only access that changes the view, and it ends it.\<close>

fun vector_write :: "access68 \<Rightarrow> bool" where
  "vector_write (Write68 a d m) \<longleftrightarrow> take_bit 24 a < 8"
| "vector_write (Read68 a m) \<longleftrightarrow> False"

lemma access68_view:
  assumes "ok68 s" "access_mask c < 2 ^ 16" "do_access68 ata now c s = Some s'"
  shows "m_bootvect s' = (if vector_write c then view_disable (m_bootvect s) else m_bootvect s)"
proof (cases c)
  case (Read68 a m)
  then show ?thesis using read_native_ok [OF assms(1), of ata now a m] assms(3) by (auto simp: same_memory_def)
next
  case (Write68 a d m)
  then have w: "write_native ata now (take_bit 24 a) d m s = Some s'" using assms(3) by (simp add: write_native_wrap(1) [of ata now a])
  show ?thesis
  proof (cases "take_bit 24 a < 0x100000")
    case True
    then show ?thesis using write_native_low [OF assms(1) True, of ata now d m] w Write68 by (auto simp: ram_update_def)
  next
    case False
    then show ?thesis using write_native_high [of "take_bit 24 a" ata now d m s] w Write68 by (auto simp: same_memory_def)
  qed
qed

lemma accesses68_view:
  assumes "ok68 s" "\<forall>(t, c) \<in> set cs. access_mask c < 2 ^ 16"
  shows "\<exists>s'. accesses68 ata cs s = Some s' \<and> ok68 s' \<and> monitor s' = monitor s \<and>
    (m_cur_id (m_bootvect s') = -1 \<longleftrightarrow> m_cur_id (m_bootvect s) = -1 \<or> (\<exists>(t, c) \<in> set cs. vector_write c))"
  using assms
proof (induction cs arbitrary: s)
  case (Cons x cs)
  obtain t c where x: "x = (t, c)" by fastforce
  obtain s1 where s1: "do_access68 ata t c s = Some s1" "ok68 s1" "monitor s1 = monitor s" using access68_ok [OF Cons.prems(1), of c ata t] Cons.prems(2) x by auto
  have "m_bootvect s1 = (if vector_write c then view_disable (m_bootvect s) else m_bootvect s)"
    using access68_view [OF Cons.prems(1) _ s1(1)] Cons.prems(2) x by simp
  then have "m_cur_id (m_bootvect s1) = -1 \<longleftrightarrow> m_cur_id (m_bootvect s) = -1 \<or> vector_write c" by (simp add: view_disable_def)
  then show ?case using Cons.IH [OF s1(2)] Cons.prems(2) s1 x by auto
qed simp

text \<open>C30. The boot vectors. After a reset, and after any further accesses none of which writes below address 8, the words at addresses 0 to 6
  read as the first words of the ROM; from the first write below 8 on, whatever else happens before the next reset, they read as
  the RAM underneath.\<close>

theorem boot_vectors:
  assumes "run68 ata rom s0" "machine_reset68 s0 = Some s" "\<forall>(t, c) \<in> set cs. access_mask c < 2 ^ 16" "a < 8"
  shows "\<exists>s'. accesses68 ata cs s = Some s' \<and>
    read_native ata now a m s' = Some ((if \<exists>(t, c) \<in> set cs. vector_write c then m_sysram s' else rom) ! (a div 2), s')"
proof -
  have ok: "ok68 s" "monitor s = rom" "m_cur_id (m_bootvect s) = 0" using reset68_ok [of s0] run68_ok [OF assms(1)] assms(2) by auto
  obtain s' where s': "accesses68 ata cs s = Some s'" "ok68 s'" "monitor s' = monitor s"
      "m_cur_id (m_bootvect s') = -1 \<longleftrightarrow> m_cur_id (m_bootvect s) = -1 \<or> (\<exists>(t, c) \<in> set cs. vector_write c)"
    using accesses68_view [OF ok(1) assms(3), of ata] by blast
  then show ?thesis using read_native_low [OF s'(2), of a ata now m] assms(4) ok by auto
qed

theorem boot_vectors_witness:
  "\<exists>s0 s s'. machine_reset68 (machine_start68 attotime_zero fresh_machine68) = Some s0 \<and> machine_reset68 s0 = Some s \<and>
     accesses68 no_ata [(attotime_zero, Read68 0x100 0xffff)] s = Some s' \<and> read_native no_ata attotime_zero 4 0xffff s' = Some (0x4e71, s')"
proof -
  obtain s0 where s0: "machine_reset68 (machine_start68 attotime_zero fresh_machine68) = Some s0" "run68 no_ata (replicate 0x80000 0x4e71) s0"
    using fresh_run68 by blast
  obtain s where s: "machine_reset68 s0 = Some s" using reset68_ok [of s0] run68_ok [OF s0(2)] by blast
  show ?thesis
    using s0 s boot_vectors [OF s0(2) s, of "[(attotime_zero, Read68 0x100 0xffff)]" 4 attotime_zero "0xffff"] by (simp del: accesses68.simps)
qed

section \<open>Bus errors\<close>

text \<open>The areas that are decoded to a bus error, and the bus errors among the events of the CPU.\<close>

definition unmapped68 :: "nat \<Rightarrow> bool" where
  "unmapped68 address \<longleftrightarrow>
     (let a = take_bit 24 address
      in 0x100000 \<le> a \<and> a \<le> 0xdfffff \<or> 0xf00020 \<le> a \<and> a \<le> 0xf8003f \<or> 0xf80060 \<le> a \<and> a \<le> 0xfffdff)"

fun access_addr :: "access68 \<Rightarrow> nat" where
  "access_addr (Read68 a m) = a"
| "access_addr (Write68 a d m) = a"

definition bus_errors :: "cpu_event_68k list \<Rightarrow> nat" where
  "bus_errors es = length (filter (\<lambda>e. e = Trigger_bus_error \<or> e = Line_buserror True) es)"

lemma bus_errors_append [simp]: "bus_errors (es @ fs) = bus_errors es + bus_errors fs"
  by (simp add: bus_errors_def)

text \<open>An access reports a bus error exactly when it is to an unmapped area and none is pending.\<close>

definition faults68 :: "access68 \<Rightarrow> 'a rosco_m68k \<Rightarrow> bool" where
  "faults68 c s \<longleftrightarrow> unmapped68 (access_addr c) \<and> \<not> m_bus_error s \<and> \<not> side_effects_disabled s"

lemma set_bus_error_effect:
  "m_bus_error (set_bus_error now a rw m s) = (m_bus_error s \<or> \<not> side_effects_disabled s)"
  "bus_errors (cpu_log (set_bus_error now a rw m s)) = bus_errors (cpu_log s) + of_bool (\<not> m_bus_error s \<and> \<not> side_effects_disabled s)"
  by (auto simp: set_bus_error_def signal_bus_error_def Let_def bus_errors_def split: cpu_type_68k.split)

lemma decode_unmapped:
  "(\<exists>st. decode_m68k (take_bit 24 a) = Some (Unmapped_ram, st) \<or> decode_m68k (take_bit 24 a) = Some (Unmapped_exp, st)) = unmapped68 a"
  by (auto simp: decode_m68k_def unmapped68_def Let_def)

text \<open>Accesses of mapped areas leave the bus error state alone.\<close>

definition quiet68 :: "'a rosco_m68k \<Rightarrow> 'a rosco_m68k \<Rightarrow> bool" where
  "quiet68 s s' \<longleftrightarrow> m_bus_error s' = m_bus_error s \<and> side_effects_disabled s' = side_effects_disabled s \<and> cpu_log s' = cpu_log s"

lemma quiet_handlers:
  "sysram_r a m s = Some (v, s') \<Longrightarrow> quiet68 s s'" "monitor_r b a m s = Some (v, s') \<Longrightarrow> quiet68 s s'"
  "duart_lanes_r now a m s = Some (v, s') \<Longrightarrow> quiet68 s s'" "with_ata s x = Some (v, s') \<Longrightarrow> quiet68 s s'"
  "sysram_w a d m s = Some s' \<Longrightarrow> quiet68 s s'" "bootvect_w a d m s = Some s' \<Longrightarrow> quiet68 s s'" "duart_lanes_w now a d m s = Some s' \<Longrightarrow> quiet68 s s'"
  by (auto simp: quiet68_def sysram_r_def monitor_r_def duart_lanes_r_def with_ata_def sysram_w_def bootvect_w_def duart_lanes_w_def
    split: if_splits prod.splits)

definition faulted :: "nat \<Rightarrow> 'a rosco_m68k \<Rightarrow> 'a rosco_m68k \<Rightarrow> bool" where
  "faulted a s s' \<longleftrightarrow> (if unmapped68 a then \<exists>ad rw m now. s' = set_bus_error now ad rw m s else quiet68 s s')"

lemma faulted_read: "read_native ata now a m s = Some (v, s') \<Longrightarrow> faulted a s s'"
proof -
  assume r: "read_native ata now a m s = Some (v, s')"
  show ?thesis
  proof (cases "decode_m68k (take_bit 24 a)")
    case None
    then show ?thesis using r decode_unmapped [of a] by (simp add: read_native_def decode_read68 faulted_def quiet68_def)
  next
    case (Some x)
    obtain h st where x: "x = (h, st)" by fastforce
    note d = decode_unmapped [of a, unfolded Some x]
    show ?thesis
      using r d Some x
      by (cases h) (auto simp: read_native_def Let_def decode_read68 faulted_def unmapped_ram_r_def unmapped_exp_r_def split: if_splits intro: quiet_handlers)
  qed
qed

lemma faulted_write: "write_native ata now a d m s = Some s' \<Longrightarrow> faulted a s s'"
proof -
  assume r: "write_native ata now a d m s = Some s'"
  show ?thesis
  proof (cases "decode_m68k (take_bit 24 a)")
    case None
    then show ?thesis using r decode_unmapped [of a] by (simp add: write_native_def decode_write68 faulted_def quiet68_def)
  next
    case (Some x)
    obtain h st where x: "x = (h, st)" by fastforce
    note u = decode_unmapped [of a, unfolded Some x]
    have q: "quiet68 s s" "quiet68 s (s\<lparr>m_ata := y\<rparr>)" for y by (simp_all add: quiet68_def)
    show ?thesis
      using r u Some x q
      by (cases h) (auto simp: write_native_def Let_def decode_write68 faulted_def unmapped_ram_w_def unmapped_exp_w_def split: if_splits intro: quiet_handlers)
  qed
qed

lemma access68_faults:
  assumes "do_access68 ata now c s = Some s'"
  shows "m_bus_error s' = (m_bus_error s \<or> faults68 c s)" "side_effects_disabled s' = side_effects_disabled s"
    "bus_errors (cpu_log s') = bus_errors (cpu_log s) + of_bool (faults68 c s)"
proof -
  have "faulted (access_addr c) s s'" using assms by (cases c) (auto dest: faulted_read faulted_write)
  then have "if unmapped68 (access_addr c) then \<exists>ad rw m now. s' = set_bus_error now ad rw m s else quiet68 s s'" by (simp only: faulted_def)
  then show "m_bus_error s' = (m_bus_error s \<or> faults68 c s)" "side_effects_disabled s' = side_effects_disabled s"
    "bus_errors (cpu_log s') = bus_errors (cpu_log s) + of_bool (faults68 c s)"
    by (auto simp: faults68_def set_bus_error_effect quiet68_def split: if_splits)
qed

lemma accesses68_pending:
  assumes "accesses68 ata cs s = Some s'" "m_bus_error s \<or> side_effects_disabled s"
  shows "m_bus_error s' = m_bus_error s \<and> bus_errors (cpu_log s') = bus_errors (cpu_log s)"
  using assms
proof (induction cs arbitrary: s)
  case (Cons x cs)
  obtain t c where x: "x = (t, c)" by fastforce
  obtain s1 where s1: "do_access68 ata t c s = Some s1" "accesses68 ata cs s1 = Some s'" using Cons.prems x by (auto split: bind_splits)
  have "\<not> faults68 c s" using Cons.prems(2) by (auto simp: faults68_def)
  then show ?case using Cons.IH [OF s1(2)] access68_faults [OF s1(1)] Cons.prems(2) by auto
qed simp

text \<open>C31. A burst of accesses gives one bus error. As long as the hold-off timer has not fired, any sequence of accesses reports a single
  bus error to the CPU if one of them is to an unmapped area, and none otherwise; accesses without side effects, as those of the
  debugger, report none.\<close>

theorem single_bus_error:
  assumes "accesses68 ata cs s = Some s'" "\<not> m_bus_error s"
  shows "bus_errors (cpu_log s') = bus_errors (cpu_log s) + of_bool (\<not> side_effects_disabled s \<and> (\<exists>(t, c) \<in> set cs. unmapped68 (access_addr c))) \<and>
    (m_bus_error s' \<longleftrightarrow> \<not> side_effects_disabled s \<and> (\<exists>(t, c) \<in> set cs. unmapped68 (access_addr c)))"
  using assms
proof (induction cs arbitrary: s)
  case (Cons x cs)
  obtain t c where x: "x = (t, c)" by fastforce
  obtain s1 where s1: "do_access68 ata t c s = Some s1" "accesses68 ata cs s1 = Some s'" using Cons.prems x by (auto split: bind_splits)
  note f = access68_faults [OF s1(1)]
  show ?case
  proof (cases "faults68 c s")
    case True
    then show ?thesis using accesses68_pending [OF s1(2)] f x by (auto simp: faults68_def)
  next
    case False
    then show ?thesis using Cons.IH [OF s1(2)] f x Cons.prems(2) by (auto simp: faults68_def)
  qed
qed simp

theorem single_bus_error_witness:
  "\<exists>s s'. machine_reset68 (machine_start68 attotime_zero fresh_machine68) = Some s \<and>
     accesses68 no_ata [(attotime_zero, Read68 0x200000 0xffff), (attotime_zero, Write68 0x200000 1 0xffff)] s = Some s' \<and>
     bus_errors (cpu_log s') = bus_errors (cpu_log s) + 1"
proof -
  let ?cs = "[(attotime_zero, Read68 0x200000 0xffff), (attotime_zero, Write68 0x200000 1 0xffff)]"
  obtain s where s: "machine_reset68 (machine_start68 attotime_zero fresh_machine68) = Some s" "run68 no_ata (replicate 0x80000 0x4e71) s"
    using fresh_run68 by blast
  have b: "\<not> m_bus_error s" "\<not> side_effects_disabled s"
    using s(1) by (auto simp: machine_reset68_def machine_start68_def bootvec_reset_def fresh_machine68_def split: bind_splits)
  obtain s' where s': "accesses68 no_ata ?cs s = Some s'" using accesses68_view [of s ?cs no_ata] run68_ok [OF s(2)] by auto
  have "unmapped68 0x200000" by (simp add: unmapped68_def take_bit_eq_mod)
  then have "bus_errors (cpu_log s') = bus_errors (cpu_log s) + 1" using single_bus_error [OF s' b(1)] b(2) by auto
  then show ?thesis using s(1) s' by blast
qed

text \<open>The address reported with a bus error.\<close>

definition reported68 :: "nat \<Rightarrow> nat" where
  "reported68 a = (if a \<le> 0xdfffff then a - 0x100000 else if a \<le> 0xf8003f then a - 0x20 else a - 0x80060)"

lemma reported_offset:
  assumes "even a" "unmapped68 a" "a < 2 ^ 24"
  shows "\<exists>st off. decode_m68k (take_bit 24 a) = Some (if a \<le> 0xdfffff then Unmapped_ram else Unmapped_exp, st) \<and> off = drop_bit 1 (a - st) \<and>
    (push_bit 1 (word_of_nat off) + (if a \<le> 0xdfffff then 0 else 0xf00000) :: u32) = word_of_nat (reported68 a)"
proof -
  have t: "take_bit 24 a = a" using assms(3) by (simp add: take_bit_nat_eq_self)
  have w: "(push_bit 1 (word_of_nat k) :: u32) = word_of_nat (2 * k)" for k by (simp add: push_bit_eq_mult mult.commute)
  obtain k where k: "a = 2 * k" using assms(1) by blast
  consider "0x100000 \<le> a" "a \<le> 0xdfffff" | "0xf00020 \<le> a" "a \<le> 0xf8003f" | "0xf80060 \<le> a" "a \<le> 0xfffdff"
    using assms(2) by (auto simp: unmapped68_def t)
  then show ?thesis
  proof cases
    case 1
    then have r: "decode_m68k a = Some (Unmapped_ram, 0x100000)" "2 * ((a - 0x100000) div 2) = reported68 a"
      by (simp_all add: decode_m68k_def reported68_def k)
    then show ?thesis using 1 unfolding t w by (simp add: drop_bit_eq_div flip: r(2))
  next
    case 2
    then have r: "decode_m68k a = Some (Unmapped_exp, 0xf00020)" "2 * ((a - 0xf00020) div 2) + 0xf00000 = reported68 a"
      by (simp_all add: decode_m68k_def reported68_def k)
    then show ?thesis using 2 unfolding t w by (simp add: drop_bit_eq_div flip: r(2))
  next
    case 3
    then have r: "decode_m68k a = Some (Unmapped_exp, 0xf80060)" "2 * ((a - 0xf80060) div 2) + 0xf00000 = reported68 a"
      by (simp_all add: decode_m68k_def reported68_def k)
    then show ?thesis using 3 unfolding t w by (simp add: drop_bit_eq_div flip: r(2))
  qed
qed

text \<open>What a bus error reports on the 68010. A word access to an unmapped area, when no bus error is pending, hands the CPU an
  address and a direction, pulses the bus error line and starts the hold-off timer for 16 clocks. The address is that of the access
  less 0x100000, 0x20 or 0x80060: it lacks the start of the range the access falls in. The direction is set for writes.\<close>

theorem bus_error_details:
  assumes "cpu_type s = M68010" "\<not> m_bus_error s" "\<not> side_effects_disabled s" "even a" "unmapped68 a" "a < 2 ^ 24"
  shows "do_access68 ata now c s = Some s' \<Longrightarrow> access_addr c = a \<Longrightarrow>
    cpu_log s' = cpu_log s @ [Set_buserror_details (word_of_nat (reported68 a)) (case c of Read68 _ _ \<Rightarrow> False | Write68 _ _ _ \<Rightarrow> True) (get_fc s),
      Line_buserror True, Line_buserror False] \<and>
    m_expire (m_bus_error_timer s') = attotime_add now (let d = clocks_to_attotime (m_clock s) 16 in if m_seconds d < 0 then attotime_zero else d)"
proof -
  assume s': "do_access68 ata now c s = Some s'" and c: "access_addr c = a"
  obtain st off where o: "decode_m68k (take_bit 24 a) = Some (if a \<le> 0xdfffff then Unmapped_ram else Unmapped_exp, st)" "off = drop_bit 1 (a - st)"
      "(push_bit 1 (word_of_nat off) + (if a \<le> 0xdfffff then 0 else 0xf00000) :: u32) = word_of_nat (reported68 a)"
    using reported_offset [OF assms(4-6)] by blast
  have t: "take_bit 24 a = a" using assms(6) by (simp add: take_bit_nat_eq_self)
  have "s' = set_bus_error now (word_of_nat (reported68 a)) (case c of Read68 _ _ \<Rightarrow> False | Write68 _ _ _ \<Rightarrow> True) (access_mask c) s"
    using s' c o t
    by (cases c) (auto simp: read_native_def write_native_def decode_read68 decode_write68 Let_def unmapped_ram_r_def unmapped_exp_r_def
      unmapped_ram_w_def unmapped_exp_w_def split: if_splits)
  then show ?thesis using assms(1-3) by (simp add: set_bus_error_def signal_bus_error_def Let_def timer_adjust_def)
qed

theorem bus_error_details_witness:
  "\<exists>s s'. machine_reset68 (machine_start68 attotime_zero fresh_machine68) = Some s \<and>
     do_access68 no_ata attotime_zero (Read68 0xf90000 0xffff) s = Some s' \<and>
     cpu_log s' = [Set_buserror_details 0xf0ffa0 False 5, Line_buserror True, Line_buserror False]"
proof -
  let ?c = "Read68 0xf90000 0xffff"
  obtain s where s: "machine_reset68 (machine_start68 attotime_zero fresh_machine68) = Some s" "run68 no_ata (replicate 0x80000 0x4e71) s"
    using fresh_run68 by blast
  have b: "cpu_type s = M68010" "\<not> m_bus_error s" "\<not> side_effects_disabled s" "cpu_log s = []" "get_fc s = 5"
    using s(1) by (auto simp: machine_reset68_def machine_start68_def bootvec_reset_def fresh_machine68_def split: bind_splits)
  obtain s' where s': "do_access68 no_ata attotime_zero ?c s = Some s'" using access68_ok [of s ?c no_ata attotime_zero] run68_ok [OF s(2)] by auto
  have u: "unmapped68 0xf90000" "(0xf90000 :: nat) < 2 ^ 24" "even (0xf90000 :: nat)" by (simp_all add: unmapped68_def take_bit_eq_mod)
  have "cpu_log s' = [Set_buserror_details 0xf0ffa0 False 5, Line_buserror True, Line_buserror False]"
    using bus_error_details [OF b(1-3) u(3,1,2) s'] b(4,5) by (simp add: reported68_def)
  then show ?thesis using s(1) s' by blast
qed

section \<open>Quickload\<close>

text \<open>C33. The quickload of the 68000 boards, on every outcome. An empty image and one that does not fit between 0x40000 and the end of RAM are
  refused as having an invalid length, one that cannot be read completely as a read error. Otherwise exactly the bytes of RAM from
  0x40000 on that the image covers are replaced by it, in the order of the file although the bus is 16 bits wide, nothing else of the
  machine changes, and the CPU continues at 0x40000.\<close>

theorem quickload_m68k:
  assumes "run68 ata rom s"
  shows "if n = 0 \<or> 0xc0000 < n then quickload_cb68 ata now n bs s = Some (Inl INVALIDLENGTH68)
    else if length bs \<noteq> n then quickload_cb68 ata now n bs s = Some (Inl UNSPECIFIED68)
    else \<exists>s'. quickload_cb68 ata now n bs s = Some (Inr s') \<and> s' = s\<lparr>m_sysram := m_sysram s', cpu_pc := 0x40000\<rparr> \<and>
      (\<forall>b. ram_byte s' b = (if 0x40000 \<le> b \<and> b < 0x40000 + n then bs ! (b - 0x40000) else ram_byte s b))"
proof (cases "n = 0 \<or> 0xc0000 < n \<or> length bs \<noteq> n")
  case True
  then show ?thesis by (auto simp: quickload_cb68_def)
next
  case False
  have "ok68 s" using run68_ok [OF assms] by simp
  from write_bytes68_ram [OF this, where a = "0x40000" and vs = bs and ata = ata and now = now] False
  obtain s1 where s1: "write_bytes68 ata now 0x40000 bs s = Some s1" "s1 = s\<lparr>m_sysram := m_sysram s1\<rparr>"
      "\<And>b. ram_byte s1 b = (if 0x40000 \<le> b \<and> b < 0x40000 + n then bs ! (b - 0x40000) else ram_byte s b)"
    by auto
  let ?s = "s1\<lparr>cpu_pc := 0x40000\<rparr>"
  have "?s = s\<lparr>m_sysram := m_sysram ?s, cpu_pc := 0x40000\<rparr>" by (subst s1(2)) simp
  moreover have "quickload_cb68 ata now n bs s = Some (Inr ?s)" using False s1(1) by (simp add: quickload_cb68_def)
  moreover have "ram_byte ?s = ram_byte s1" by (simp add: ram_byte_def)
  ultimately show ?thesis using False s1(3) by auto
qed

theorem quickload_m68k_witness:
  "\<exists>s s'. machine_reset68 (machine_start68 attotime_zero fresh_machine68) = Some s \<and>
     quickload_cb68 no_ata attotime_zero 3 [0x60, 0xfe, 0x4e] s = Some (Inr s') \<and> ram_byte s' 0x40001 = 0xfe \<and>
     quickload_cb68 no_ata attotime_zero 0 [] s = Some (Inl INVALIDLENGTH68)"
proof -
  obtain s where s: "machine_reset68 (machine_start68 attotime_zero fresh_machine68) = Some s" "run68 no_ata (replicate 0x80000 0x4e71) s"
    using fresh_run68 by blast
  obtain s' where "quickload_cb68 no_ata attotime_zero 3 [0x60, 0xfe, 0x4e] s = Some (Inr s')"
      "\<And>b. ram_byte s' b = (if 0x40000 \<le> b \<and> b < 0x40000 + 3 then [0x60, 0xfe, 0x4e] ! (b - 0x40000) else ram_byte s b)"
    using quickload_m68k [OF s(2), of 3 attotime_zero "[0x60, 0xfe, 0x4e]"] by auto
  moreover have "quickload_cb68 no_ata attotime_zero 0 [] s = Some (Inl INVALIDLENGTH68)"
    using quickload_m68k [OF s(2), of 0 attotime_zero "[]"] by simp
  ultimately show ?thesis using s(1) by auto
qed

end
