(* ===== verification/Scheduler.thy ===== *)
theory Scheduler
  imports Emu_Timer "HOL-Library.Monad_Syntax"
begin

text \<open>
  The timer lists of the emulator core, \<^verbatim>\<open>device_scheduler\<close> of \<^verbatim>\<open>src/emu/schedule.cpp\<close>: timers are nodes with a next and a
  previous pointer, in a list of active timers ordered by the time they expire and a list of inactive ones. A pointer is the number of
  its node, \<^verbatim>\<open>nullptr\<close> is \<^const>\<open>None\<close>; the store maps numbers to nodes. A loop over a list of nodes that does not end
  has the result \<^const>\<open>None\<close>. What a callback does is a parameter: the calls to the scheduler it makes.
\<close>

section \<open>State\<close>

record timer_node =
  m_next :: "nat option"
  m_prev :: "nat option"
  m_callback :: "nat option"
  m_temporary :: bool
  m_index :: nat
  tmr :: emu_timer

record scheduler =
  nodes :: "nat \<Rightarrow> timer_node"
  m_timer_list :: "nat option"
  m_inactive_timers :: "nat option"
  m_timer_allocator :: "nat list \<times> nat"
  m_basetime :: attotime
  m_executing_device :: "attotime option"
  m_callback_timer :: "nat option"
  m_callback_timer_modified :: bool
  m_callback_timer_expire_time :: attotime

abbreviation expire_of :: "scheduler \<Rightarrow> nat \<Rightarrow> attotime" where
  "expire_of s t \<equiv> m_expire (tmr (nodes s t))"

text \<open>Assignments through a pointer.\<close>

definition set_next :: "nat \<Rightarrow> nat option \<Rightarrow> scheduler \<Rightarrow> scheduler" where
  "set_next t v s = s\<lparr>nodes := (nodes s)(t := (nodes s t)\<lparr>m_next := v\<rparr>)\<rparr>"

definition set_prev :: "nat \<Rightarrow> nat option \<Rightarrow> scheduler \<Rightarrow> scheduler" where
  "set_prev t v s = s\<lparr>nodes := (nodes s)(t := (nodes s t)\<lparr>m_prev := v\<rparr>)\<rparr>"

definition upd_tmr :: "nat \<Rightarrow> (emu_timer \<Rightarrow> emu_timer) \<Rightarrow> scheduler \<Rightarrow> scheduler" where
  "upd_tmr t f s = s\<lparr>nodes := (nodes s)(t := (nodes s t)\<lparr>tmr := f (tmr (nodes s t))\<rparr>)\<rparr>"

text \<open>The current time: that of the timer in its callback, of the executing device, or the base time.\<close>

definition time :: "scheduler \<Rightarrow> attotime" where
  "time s =
     (if m_callback_timer s \<noteq> None then m_callback_timer_expire_time s
      else case m_executing_device s of Some local_time \<Rightarrow> local_time | None \<Rightarrow> m_basetime s)"

section \<open>The lists\<close>

text \<open>The place before which a timer is linked in.\<close>

definition insert_here :: "bool \<Rightarrow> timer_node \<Rightarrow> timer_node \<Rightarrow> bool" where
  "insert_here CheckIndex timer curtimer \<longleftrightarrow>
     m_expire (tmr timer) < m_expire (tmr curtimer) \<or>
     CheckIndex \<and> \<not> m_expire (tmr curtimer) < m_expire (tmr timer) \<and> m_index timer < m_index curtimer"

definition link_after :: "nat option \<Rightarrow> nat \<Rightarrow> scheduler \<Rightarrow> scheduler" where
  "link_after prevtimer t s = (case prevtimer of Some p \<Rightarrow> set_next p (Some t) s | None \<Rightarrow> s\<lparr>m_timer_list := Some t\<rparr>)"

partial_function (option) insert_loop :: "bool \<Rightarrow> nat \<Rightarrow> nat option \<Rightarrow> nat option \<Rightarrow> scheduler \<Rightarrow> scheduler option" where
  "insert_loop CheckIndex t prevtimer curtimer s =
     (case curtimer of
        None \<Rightarrow> Some (set_next t None (set_prev t prevtimer (link_after prevtimer t s)))
      | Some c \<Rightarrow>
          if insert_here CheckIndex (nodes s t) (nodes s c)
          then Some (set_prev c (Some t) (link_after prevtimer t (set_next t (Some c) (set_prev t prevtimer s))))
          else insert_loop CheckIndex t (Some c) (m_next (nodes s c)) s)"

definition timer_list_insert :: "bool \<Rightarrow> nat \<Rightarrow> scheduler \<Rightarrow> scheduler option" where
  "timer_list_insert CheckIndex t s =
     (let timer = tmr (nodes s t)
      in if \<not> is_never (m_expire timer) \<and> m_enabled timer then insert_loop CheckIndex t None (m_timer_list s) s
         else
           let s1 = (case m_inactive_timers s of Some h \<Rightarrow> set_prev h (Some t) s | None \<Rightarrow> s);
               s2 = set_prev t None (set_next t (m_inactive_timers s1) s1)
           in Some (s2\<lparr>m_inactive_timers := Some t\<rparr>))"

definition timer_list_remove :: "nat \<Rightarrow> scheduler \<Rightarrow> scheduler" where
  "timer_list_remove t s =
     (let s1 = (case m_prev (nodes s t) of
                  Some p \<Rightarrow> set_next p (m_next (nodes s t)) s
                | None \<Rightarrow> if m_timer_list s = Some t then s\<lparr>m_timer_list := m_next (nodes s t)\<rparr>
                          else s\<lparr>m_inactive_timers := m_next (nodes s t)\<rparr>)
      in case m_next (nodes s1 t) of Some n \<Rightarrow> set_prev n (m_prev (nodes s1 t)) s1 | None \<Rightarrow> s1)"

definition reinsert :: "nat \<Rightarrow> scheduler \<Rightarrow> scheduler option" where
  "reinsert t s = timer_list_insert False t (timer_list_remove t s)"

section \<open>Operations of a timer\<close>

text \<open>The abort of the time slice that a new head asks for has no effect on the timers.\<close>

definition emu_timer_enable :: "nat \<Rightarrow> bool \<Rightarrow> scheduler \<Rightarrow> scheduler option" where
  "emu_timer_enable t enable s =
     (if m_enabled (tmr (nodes s t)) \<noteq> enable then reinsert t (upd_tmr t (\<lambda>x. x\<lparr>m_enabled := enable\<rparr>) s) else Some s)"

definition emu_timer_adjust :: "nat \<Rightarrow> attotime \<Rightarrow> int \<Rightarrow> attotime \<Rightarrow> scheduler \<Rightarrow> scheduler option" where
  "emu_timer_adjust t start_delay param period s =
     (let s1 = (if m_callback_timer s = Some t then s\<lparr>m_callback_timer_modified := True\<rparr> else s)
      in reinsert t (upd_tmr t (timer_adjust (time s) start_delay param period) s1))"

definition emu_timer_schedule_next_period :: "nat \<Rightarrow> scheduler \<Rightarrow> scheduler option" where
  "emu_timer_schedule_next_period t s = reinsert t (upd_tmr t schedule_next_period s)"

text \<open>Allocation: the node reclaimed first, else a new one.\<close>

definition alloc_node :: "scheduler \<Rightarrow> nat \<times> scheduler" where
  "alloc_node s =
     (case m_timer_allocator s of
        (t # free, n) \<Rightarrow> (t, s\<lparr>m_timer_allocator := (free, n)\<rparr>)
      | ([], n) \<Rightarrow> (n, s\<lparr>m_timer_allocator := ([], Suc n)\<rparr>))"

definition reclaim_node :: "nat \<Rightarrow> scheduler \<Rightarrow> scheduler" where
  "reclaim_node t s = s\<lparr>m_timer_allocator := (fst (m_timer_allocator s) @ [t], snd (m_timer_allocator s))\<rparr>"

definition emu_timer_init :: "nat option \<Rightarrow> attotime \<Rightarrow> int \<Rightarrow> bool \<Rightarrow> nat \<Rightarrow> scheduler \<Rightarrow> scheduler option" where
  "emu_timer_init callback start_delay param temporary t s =
     timer_list_insert False t
       (s\<lparr>nodes := (nodes s)(t := (nodes s t)\<lparr>m_next := None, m_prev := None, m_callback := callback, m_temporary := temporary,
           tmr := timer_init (time s) start_delay param\<rparr>)\<rparr>)"

definition sched_timer_alloc :: "nat option \<Rightarrow> scheduler \<Rightarrow> (nat \<times> scheduler) option" where
  "sched_timer_alloc callback s =
     (case alloc_node s of (t, s1) \<Rightarrow> map_option (Pair t) (emu_timer_init callback attotime_never 0 False t s1))"

definition sched_timer_set :: "attotime \<Rightarrow> nat option \<Rightarrow> int \<Rightarrow> scheduler \<Rightarrow> scheduler option" where
  "sched_timer_set duration callback param s =
     (case alloc_node s of (t, s1) \<Rightarrow> emu_timer_init callback duration param True t s1)"

definition sched_synchronize :: "nat option \<Rightarrow> int \<Rightarrow> scheduler \<Rightarrow> scheduler option" where
  "sched_synchronize callback param s =
     (case alloc_node s of (t, s1) \<Rightarrow> emu_timer_init callback attotime_zero param True t s1)"

section \<open>Firing timers\<close>

text \<open>The calls of a callback, and the callbacks themselves: what they do depends on and changes a state of the devices.\<close>

datatype sched_call =
    Call_adjust nat attotime int attotime
  | Call_enable nat bool
  | Call_timer_set attotime "nat option" int
  | Call_synchronize "nat option" int

fun do_sched_call :: "sched_call \<Rightarrow> scheduler \<Rightarrow> scheduler option" where
  "do_sched_call (Call_adjust t d p per) s = emu_timer_adjust t d p per s"
| "do_sched_call (Call_enable t e) s = emu_timer_enable t e s"
| "do_sched_call (Call_timer_set d cb p) s = sched_timer_set d cb p s"
| "do_sched_call (Call_synchronize cb p) s = sched_synchronize cb p s"

fun sched_calls :: "sched_call list \<Rightarrow> scheduler \<Rightarrow> scheduler option" where
  "sched_calls [] s = Some s"
| "sched_calls (c # cs) s = Option.bind (do_sched_call c s) (sched_calls cs)"

type_synonym 'w callbacks = "nat \<Rightarrow> int \<Rightarrow> 'w \<Rightarrow> sched_call list \<times> 'w"

definition is_due :: "scheduler \<Rightarrow> bool" where
  "is_due s \<longleftrightarrow> (case m_timer_list s of Some t \<Rightarrow> expire_of s t \<le> m_basetime s | None \<Rightarrow> False)"

text \<open>What a run of the loop did, one entry for each timer that fired: the timer and its time, the callback that was called with its
  parameter, none if the timer was disabled or has no callback, and the calls that the callback made.\<close>

record firing =
  fired_timer :: nat
  fired_at :: attotime
  fired_callback :: "(nat \<times> int) option"
  fired_calls :: "sched_call list"

type_synonym 'w fire_state = "scheduler \<times> 'w \<times> firing list"

text \<open>One round of the loop: the head of the list fires.\<close>

definition fire_head :: "'w callbacks \<Rightarrow> nat \<Rightarrow> 'w fire_state \<Rightarrow> 'w fire_state option" where
  "fire_head cbs t = (\<lambda>(s, w, log). do {
     let was_enabled = m_enabled (tmr (nodes s t));
     let s = (if is_zero (m_period (tmr (nodes s t))) \<or> is_never (m_period (tmr (nodes s t)))
              then upd_tmr t (\<lambda>x. x\<lparr>m_enabled := False\<rparr>) s else s);
     let s = s\<lparr>m_callback_timer_modified := False, m_callback_timer := Some t, m_callback_timer_expire_time := expire_of s t\<rparr>;
     let entry = \<lparr>fired_timer = t, fired_at = expire_of s t, fired_callback = None, fired_calls = []\<rparr>;
     (s, w, entry) \<leftarrow>
       (case m_callback (nodes s t) of
          Some cb \<Rightarrow>
            if was_enabled then
              let param = m_param (tmr (nodes s t)); (calls, w') = cbs cb param w
              in map_option (\<lambda>s. (s, w', entry\<lparr>fired_callback := Some (cb, param), fired_calls := calls\<rparr>)) (sched_calls calls s)
            else Some (s, w, entry)
        | None \<Rightarrow> Some (s, w, entry));
     s \<leftarrow> (if \<not> m_callback_timer_modified s
            then if \<not> m_temporary (nodes s t) then emu_timer_schedule_next_period t s
                 else Some (reclaim_node t (timer_list_remove t (s\<lparr>nodes := (nodes s)(t := (nodes s t)\<lparr>m_callback := None\<rparr>)\<rparr>)))
            else Some s);
     Some (s, w, log @ [entry])
   })"

partial_function (option) execute_loop :: "'w callbacks \<Rightarrow> 'w fire_state \<Rightarrow> 'w fire_state option" where
  "execute_loop cbs x =
     (case m_timer_list (fst x) of
        None \<Rightarrow> None
      | Some t \<Rightarrow>
          if expire_of (fst x) t \<le> m_basetime (fst x) then Option.bind (fire_head cbs t x) (execute_loop cbs) else Some x)"

definition execute_timers :: "'w callbacks \<Rightarrow> scheduler \<Rightarrow> 'w \<Rightarrow> 'w fire_state option" where
  "execute_timers cbs s w = map_option (\<lambda>(s, w, log). (s\<lparr>m_callback_timer := None\<rparr>, w, log)) (execute_loop cbs (s, w, []))"

section \<open>Segments of linked nodes\<close>

text \<open>From the pointer \<open>st\<close>, the nodes \<open>xs\<close> follow each other up to the pointer \<open>en\<close>; \<open>p\<close> and \<open>q\<close> are the last nodes before
  the segment and before \<open>en\<close>.\<close>

fun seg :: "(nat \<Rightarrow> timer_node) \<Rightarrow> nat option \<Rightarrow> nat option \<Rightarrow> nat list \<Rightarrow> nat option \<Rightarrow> nat option \<Rightarrow> bool" where
  "seg h p st [] q en \<longleftrightarrow> st = en \<and> p = q"
| "seg h p st (x # xs) q en \<longleftrightarrow> st = Some x \<and> m_prev (h x) = p \<and> seg h (Some x) (m_next (h x)) xs q en"

lemma seg_append: "seg h p st (xs @ ys) q en \<longleftrightarrow> (\<exists>r m. seg h p st xs r m \<and> seg h r m ys q en)"
  by (induction xs arbitrary: p st) auto

text \<open>A segment depends on the pointers of its own nodes only.\<close>

lemma seg_frame:
  "seg h p st xs q en \<Longrightarrow> (\<And>x. x \<in> set xs \<Longrightarrow> m_next (h' x) = m_next (h x) \<and> m_prev (h' x) = m_prev (h x)) \<Longrightarrow> seg h' p st xs q en"
  by (induction xs arbitrary: p st) auto

lemma seg_last: "seg h p st xs q en \<Longrightarrow> q = (if xs = [] then p else Some (last xs))"
  by (induction xs arbitrary: p st) (auto split: if_splits)

text \<open>The pointer out of a segment is in its last node, or outside of an empty segment; the pointer back is in the first.\<close>

lemma seg_redirect:
  assumes "seg h p st xs q en" "distinct xs" "xs \<noteq> []"
    and "\<And>x. x \<in> set xs \<Longrightarrow> m_prev (h' x) = m_prev (h x) \<and> m_next (h' x) = (if x = last xs then en' else m_next (h x))"
  shows "seg h' p st xs q en'"
  using assms
proof (induction xs arbitrary: p st)
  case (Cons x xs)
  show ?case
  proof (cases "xs = []")
    case False
    then have "x \<noteq> last xs" using Cons.prems(2) by auto
    moreover have "seg h' (Some x) (m_next (h x)) xs q en'"
      using Cons.prems False by (intro Cons.IH) auto
    ultimately show ?thesis using Cons.prems False by auto
  qed (use Cons.prems in auto)
qed simp

lemma seg_back:
  assumes "seg h p st xs q en" "distinct xs" "xs \<noteq> []"
    and "\<And>x. x \<in> set xs \<Longrightarrow> m_next (h' x) = m_next (h x) \<and> m_prev (h' x) = (if x = hd xs then p' else m_prev (h x))"
  shows "seg h' p' st xs q en"
proof -
  obtain y ys where xs: "xs = y # ys" using assms(3) by (cases xs) auto
  have y: "m_next (h' y) = m_next (h y)" "m_prev (h' y) = p'" using assms(4) [of y] xs by simp_all
  have "m_next (h' x) = m_next (h x) \<and> m_prev (h' x) = m_prev (h x)" if "x \<in> set ys" for x
    using assms(4) [of x] assms(2) that xs by auto
  then have "seg h' (Some y) (m_next (h y)) ys q en" using assms(1) xs by - (rule seg_frame [of h], simp_all)
  then show ?thesis using assms(1) xs y by simp
qed

section \<open>The lists a scheduler represents\<close>

definition timer_lists :: "scheduler \<Rightarrow> nat list \<Rightarrow> nat list \<Rightarrow> bool" where
  "timer_lists s xs ys \<longleftrightarrow> (\<exists>q. seg (nodes s) None (m_timer_list s) xs q None) \<and> (\<exists>q. seg (nodes s) None (m_inactive_timers s) ys q None) \<and>
     distinct (xs @ ys)"

text \<open>Insertion behind the timers that do not expire later.\<close>

definition insert_sorted :: "bool \<Rightarrow> (nat \<Rightarrow> timer_node) \<Rightarrow> nat \<Rightarrow> nat list \<Rightarrow> nat list" where
  "insert_sorted ci h t xs = takeWhile (\<lambda>c. \<not> insert_here ci (h t) (h c)) xs @ t # dropWhile (\<lambda>c. \<not> insert_here ci (h t) (h c)) xs"

definition same_data :: "scheduler \<Rightarrow> scheduler \<Rightarrow> bool" where
  "same_data s s' \<longleftrightarrow> (\<forall>x. tmr (nodes s' x) = tmr (nodes s x) \<and> m_callback (nodes s' x) = m_callback (nodes s x) \<and>
       m_temporary (nodes s' x) = m_temporary (nodes s x) \<and> m_index (nodes s' x) = m_index (nodes s x)) \<and>
     m_timer_allocator s' = m_timer_allocator s \<and> m_basetime s' = m_basetime s \<and> m_executing_device s' = m_executing_device s \<and>
     m_callback_timer s' = m_callback_timer s \<and> m_callback_timer_modified s' = m_callback_timer_modified s \<and>
     m_callback_timer_expire_time s' = m_callback_timer_expire_time s"

lemma same_data_trans: "same_data s s1 \<Longrightarrow> same_data s1 s2 \<Longrightarrow> same_data s s2"
  by (simp add: same_data_def)

lemma set_next_simps [simp]:
  "nodes (set_next t v s) = (nodes s)(t := (nodes s t)\<lparr>m_next := v\<rparr>)" "m_timer_list (set_next t v s) = m_timer_list s"
  "m_inactive_timers (set_next t v s) = m_inactive_timers s" "same_data s (set_next t v s)"
  by (simp_all add: set_next_def same_data_def)

lemma set_prev_simps [simp]:
  "nodes (set_prev t v s) = (nodes s)(t := (nodes s t)\<lparr>m_prev := v\<rparr>)" "m_timer_list (set_prev t v s) = m_timer_list s"
  "m_inactive_timers (set_prev t v s) = m_inactive_timers s" "same_data s (set_prev t v s)"
  by (simp_all add: set_prev_def same_data_def)

lemma link_after_simps [simp]:
  "m_inactive_timers (link_after p t s) = m_inactive_timers s" "same_data s (link_after p t s)"
  by (simp_all add: link_after_def same_data_def set_next_def split: option.split)

lemma insert_loop_simps:
  "insert_loop ci t p None s = Some (set_next t None (set_prev t p (link_after p t s)))"
  "insert_loop ci t p (Some c) s =
     (if insert_here ci (nodes s t) (nodes s c) then Some (set_prev c (Some t) (link_after p t (set_next t (Some c) (set_prev t p s))))
      else insert_loop ci t (Some c) (m_next (nodes s c)) s)"
  by (subst insert_loop.simps, simp)+

text \<open>Linking a node in between two segments.\<close>

lemma link_between:
  assumes a: "seg (nodes s) None (m_timer_list s) as p c" and b: "seg (nodes s) p c bs q None"
    and d: "distinct (as @ bs)" "t \<notin> set (as @ bs)"
    and s': "nodes s' = (\<lambda>x. (nodes s x)\<lparr>m_next := (if x = t then c else if Some x = p then Some t else m_next (nodes s x)),
      m_prev := (if x = t then p else if Some x = c then Some t else m_prev (nodes s x))\<rparr>)"
      "m_timer_list s' = (if p = None then Some t else m_timer_list s)"
  shows "\<exists>q. seg (nodes s') None (m_timer_list s') (as @ t # bs) q None"
proof -
  have c: "c = (if bs = [] then None else Some (hd bs))" using b by (cases bs) auto
  have p: "p = (if as = [] then None else Some (last as))" using seg_last [OF a] by simp
  have na: "Some x \<noteq> c" "x \<noteq> t" if "x \<in> set as" for x using that c d hd_in_set [of bs] by (auto split: if_splits)
  have "last as \<notin> set bs" if "as \<noteq> []" using last_in_set [OF that] d(1) by auto
  then have nb: "Some x \<noteq> p" "x \<noteq> t" if "x \<in> set bs" for x using that p d(2) by (auto split: if_splits)
  have "seg (nodes s') None (m_timer_list s') as p (Some t)"
  proof (cases "as = []")
    case False
    then have "seg (nodes s') None (m_timer_list s) as p (Some t)"
      using na d p by (intro seg_redirect [OF a]) (auto simp: s'(1))
    then show ?thesis using False p s'(2) by simp
  qed (use p s'(2) in simp)
  moreover have "\<exists>q. seg (nodes s') (Some t) c bs q None"
  proof (cases "bs = []")
    case False
    have "seg (nodes s') (Some t) c bs q None"
      using nb d c False by (intro seg_back [OF b]) (auto simp: s'(1))
    then show ?thesis ..
  qed (use c in simp)
  moreover have "m_prev (nodes s' t) = p" "m_next (nodes s' t) = c" by (simp_all add: s'(1))
  ultimately show ?thesis unfolding seg_append by auto
qed

lemma insert_loop_lists:
  assumes a: "seg (nodes s) None (m_timer_list s) as p c" and b: "seg (nodes s) p c bs q None"
    and d: "distinct (as @ bs)" "t \<notin> set (as @ bs)"
  shows "\<exists>s'. insert_loop ci t p c s = Some s' \<and> same_data s s' \<and> m_inactive_timers s' = m_inactive_timers s \<and>
    (\<exists>q. seg (nodes s') None (m_timer_list s') (as @ insert_sorted ci (nodes s) t bs) q None) \<and>
    (\<forall>x. x \<notin> set (as @ t # bs) \<longrightarrow> nodes s' x = nodes s x)"
  using assms
proof (induction bs arbitrary: as p c)
  case Nil
  let ?s = "set_next t None (set_prev t p (link_after p t s))"
  have c: "c = None" using Nil.prems(2) by simp
  have p: "p = (if as = [] then None else Some (last as))" using seg_last [OF Nil.prems(1)] by simp
  have "\<exists>q. seg (nodes ?s) None (m_timer_list ?s) (as @ t # []) q None"
    using Nil.prems p c by (intro link_between [of s as p c "[]" q]) (auto simp: link_after_def fun_eq_iff split: option.split)
  moreover have "same_data s ?s" by (meson link_after_simps(2) same_data_trans set_next_simps(4) set_prev_simps(4))
  moreover have "nodes ?s x = nodes s x" if "x \<notin> set (as @ [t])" for x
    using that p by (auto simp: link_after_def split: option.split if_splits)
  ultimately show ?case by (simp add: c insert_loop_simps insert_sorted_def)
next
  case (Cons b bs)
  have c: "c = Some b" using Cons.prems(2) by simp
  have p: "p = (if as = [] then None else Some (last as))" using seg_last [OF Cons.prems(1)] by simp
  show ?case
  proof (cases "insert_here ci (nodes s t) (nodes s b)")
    case True
    let ?s = "set_prev b (Some t) (link_after p t (set_next t (Some b) (set_prev t p s)))"
    have n: "b \<noteq> t" "p \<noteq> Some b" "p \<noteq> Some t" using Cons.prems(3,4) p by (auto split: if_splits)
    have "\<exists>q. seg (nodes ?s) None (m_timer_list ?s) (as @ t # b # bs) q None"
      using Cons.prems n c by (intro link_between [of s as p c "b # bs" q]) (auto simp: link_after_def fun_eq_iff split: option.split)
    moreover have "same_data s ?s" by (meson link_after_simps(2) same_data_trans set_next_simps(4) set_prev_simps(4))
    moreover have "nodes ?s x = nodes s x" if "x \<notin> set (as @ t # b # bs)" for x
      using that p by (auto simp: link_after_def split: option.split if_splits)
    ultimately show ?thesis using True by (simp add: c insert_loop_simps insert_sorted_def)
  next
    case False
    have "seg (nodes s) None (m_timer_list s) (as @ [b]) (Some b) (m_next (nodes s b))"
      using Cons.prems(1,2) c unfolding seg_append by auto
    moreover have "seg (nodes s) (Some b) (m_next (nodes s b)) bs q None" using Cons.prems(2) by simp
    ultimately show ?thesis
      using Cons.IH [of "as @ [b]" "Some b" "m_next (nodes s b)"] Cons.prems(3,4) False by (simp add: c insert_loop_simps insert_sorted_def) metis
  qed
qed

lemma set_insert_sorted: "set (insert_sorted ci h t xs) = insert t (set xs)"
proof -
  let ?P = "\<lambda>c. \<not> insert_here ci (h t) (h c)"
  have "set (takeWhile ?P xs) \<union> set (dropWhile ?P xs) = set xs" by (metis set_append takeWhile_dropWhile_id)
  then show ?thesis unfolding insert_sorted_def by auto
qed

lemma distinct_insert_sorted: "distinct xs \<Longrightarrow> t \<notin> set xs \<Longrightarrow> distinct (insert_sorted ci h t xs)"
proof -
  let ?P = "\<lambda>c. \<not> insert_here ci (h t) (h c)"
  assume d: "distinct xs" "t \<notin> set xs"
  have "distinct (takeWhile ?P xs) \<and> distinct (dropWhile ?P xs) \<and> set (takeWhile ?P xs) \<inter> set (dropWhile ?P xs) = {}"
    using d(1) by (metis distinct_append takeWhile_dropWhile_id)
  then show ?thesis using d(2) unfolding insert_sorted_def by (auto dest: set_takeWhileD set_dropWhileD)
qed

lemma seg_other:
  assumes "seg h p st xs q en" "\<And>x. x \<in> set xs \<Longrightarrow> h' x = h x"
  shows "seg h' p st xs q en"
  using assms(2) by (intro seg_frame [OF assms(1)]) simp

text \<open>Insertion into the lists: a timer that is enabled and will expire goes to its place in the active list, any other one to the front
  of the inactive list.\<close>

lemma timer_list_insert_lists:
  assumes "timer_lists s xs ys" "t \<notin> set (xs @ ys)"
  shows "\<exists>s'. timer_list_insert ci t s = Some s' \<and> same_data s s' \<and>
    (if is_never (expire_of s t) \<or> \<not> m_enabled (tmr (nodes s t)) then timer_lists s' xs (t # ys)
     else timer_lists s' (insert_sorted ci (nodes s) t xs) ys)"
proof (cases "is_never (expire_of s t) \<or> \<not> m_enabled (tmr (nodes s t))")
  case False
  obtain q where q: "seg (nodes s) None (m_timer_list s) xs q None" using assms(1) by (auto simp: timer_lists_def)
  obtain r where r: "seg (nodes s) None (m_inactive_timers s) ys r None" using assms(1) by (auto simp: timer_lists_def)
  have d: "distinct ([] @ xs)" "t \<notin> set ([] @ xs)" "distinct (xs @ ys)" using assms by (auto simp: timer_lists_def)
  obtain s' where s': "insert_loop ci t None (m_timer_list s) s = Some s'" "same_data s s'" "m_inactive_timers s' = m_inactive_timers s"
      "\<exists>q. seg (nodes s') None (m_timer_list s') (insert_sorted ci (nodes s) t xs) q None" "\<And>x. x \<notin> set (t # xs) \<Longrightarrow> nodes s' x = nodes s x"
    using insert_loop_lists [OF _ q d(1,2), of ci] by auto
  have "nodes s' x = nodes s x" if "x \<in> set ys" for x using s'(5) [of x] that d(3) assms(2) by auto
  then have "seg (nodes s') None (m_inactive_timers s') ys r None"
    using seg_other [OF r, of "nodes s'"] s'(3) by simp
  moreover have m: "set (insert_sorted ci (nodes s) t xs) = insert t (set xs)" "distinct (insert_sorted ci (nodes s) t xs)"
    using set_insert_sorted distinct_insert_sorted d by auto
  ultimately have "timer_lists s' (insert_sorted ci (nodes s) t xs) ys" using s'(4) d assms(2) unfolding timer_lists_def by auto
  then show ?thesis using False s'(1,2) by (simp add: timer_list_insert_def Let_def)
next
  case True
  obtain q where q: "seg (nodes s) None (m_timer_list s) xs q None" using assms(1) by (auto simp: timer_lists_def)
  obtain r where r: "seg (nodes s) None (m_inactive_timers s) ys r None" using assms(1) by (auto simp: timer_lists_def)
  have d: "distinct (xs @ ys)" using assms(1) by (simp add: timer_lists_def)
  have h: "m_inactive_timers s = (if ys = [] then None else Some (hd ys))" using r by (cases ys) auto
  let ?s1 = "case m_inactive_timers s of Some h \<Rightarrow> set_prev h (Some t) s | None \<Rightarrow> s"
  let ?s = "(set_prev t None (set_next t (m_inactive_timers ?s1) ?s1))\<lparr>m_inactive_timers := Some t\<rparr>"
  have n: "m_inactive_timers ?s1 = m_inactive_timers s" "m_timer_list ?s1 = m_timer_list s" by (simp_all split: option.split)
  have o: "nodes ?s x = nodes s x" if "x \<in> set xs" for x
    using that assms(2) d h hd_in_set [of ys] by (auto split: if_splits)
  have "seg (nodes ?s) None (m_timer_list ?s) xs q None"
    using seg_other [OF q, of "nodes ?s", OF o] n(2) by simp
  moreover have "\<exists>r. seg (nodes ?s) None (Some t) (t # ys) r None"
  proof (cases "ys = []")
    case False
    have "seg (nodes ?s) (Some t) (m_inactive_timers s) ys r None"
      using assms(2) d h False by (intro seg_back [OF r]) (auto simp: n)
    then show ?thesis using n by auto
  qed (use h n in auto)
  ultimately have "timer_lists ?s xs (t # ys)" using d assms(2) unfolding timer_lists_def by auto
  moreover have "same_data s ?s" by (auto simp: same_data_def set_prev_def set_next_def split: option.split)
  ultimately show ?thesis using True by (auto simp: timer_list_insert_def Let_def)
qed

lemma unlink:
  assumes l: "seg h None H (as @ t # bs) q None" "distinct (as @ t # bs)"
    and h': "h' = (\<lambda>x. (h x)\<lparr>m_next := (if Some x = m_prev (h t) then m_next (h t) else m_next (h x)),
      m_prev := (if Some x = m_next (h t) then m_prev (h t) else m_prev (h x))\<rparr>)"
  shows "\<exists>q. seg h' None (if m_prev (h t) = None then m_next (h t) else H) (as @ bs) q None"
proof -
  obtain p where a: "seg h None H as p (Some t)" "m_prev (h t) = p" "seg h (Some t) (m_next (h t)) bs q None"
    using l(1) unfolding seg_append by auto
  let ?c = "m_next (h t)"
  have c: "?c = (if bs = [] then None else Some (hd bs))" using a(3) by (cases bs) auto
  have p: "p = (if as = [] then None else Some (last as))" using seg_last [OF a(1)] by simp
  have "hd bs \<notin> set as" if "bs \<noteq> []" using hd_in_set [OF that] l(2) by auto
  then have na: "Some x \<noteq> ?c" if "x \<in> set as" for x using that c by (auto split: if_splits)
  have "last as \<notin> set bs" if "as \<noteq> []" using last_in_set [OF that] l(2) by auto
  then have nb: "Some x \<noteq> p" if "x \<in> set bs" for x using that p by (auto split: if_splits)
  have "seg h' None (if p = None then ?c else H) as p ?c"
  proof (cases "as = []")
    case False
    then have "seg h' None H as p ?c" using na l(2) p a(2) by (intro seg_redirect [OF a(1)]) (auto simp: h')
    then show ?thesis using False p by simp
  qed (use p in simp)
  moreover have "\<exists>q. seg h' p ?c bs q None"
  proof (cases "bs = []")
    case False
    have "seg h' p ?c bs q None" using nb l(2) c a(2) False by (intro seg_back [OF a(3)]) (auto simp: h')
    then show ?thesis ..
  qed (use c in simp)
  ultimately show ?thesis unfolding seg_append a(2) by blast
qed

lemma not_adjacent:
  assumes "seg h p st (as @ t # bs) q None" "distinct (as @ t # bs)" "p \<noteq> Some t"
  shows "m_prev (h t) \<noteq> Some t" "m_next (h t) \<noteq> Some t" "m_prev (h t) = (if as = [] then p else Some (last as))"
    "m_next (h t) = (if bs = [] then None else Some (hd bs))"
proof -
  obtain r where a: "seg h p st as r (Some t)" "m_prev (h t) = r" "seg h (Some t) (m_next (h t)) bs q None"
    using assms(1) unfolding seg_append by auto
  show "m_prev (h t) = (if as = [] then p else Some (last as))" using seg_last [OF a(1)] a(2) by simp
  then show "m_prev (h t) \<noteq> Some t" using assms(2,3) last_in_set [of as] by auto
  show "m_next (h t) = (if bs = [] then None else Some (hd bs))" using a(3) by (cases bs) auto
  then show "m_next (h t) \<noteq> Some t" using assms(2) hd_in_set [of bs] by auto
qed

lemma timer_list_remove_nodes:
  assumes "m_prev (nodes s t) \<noteq> Some t" "m_next (nodes s t) \<noteq> Some t"
  shows "nodes (timer_list_remove t s) = (\<lambda>x. (nodes s x)\<lparr>m_next := (if Some x = m_prev (nodes s t) then m_next (nodes s t) else m_next (nodes s x)),
      m_prev := (if Some x = m_next (nodes s t) then m_prev (nodes s t) else m_prev (nodes s x))\<rparr>)"
    and "m_timer_list (timer_list_remove t s) = (if m_prev (nodes s t) = None \<and> m_timer_list s = Some t then m_next (nodes s t) else m_timer_list s)"
    and "m_inactive_timers (timer_list_remove t s) = (if m_prev (nodes s t) = None \<and> m_timer_list s \<noteq> Some t then m_next (nodes s t) else m_inactive_timers s)"
    and "same_data s (timer_list_remove t s)"
  using assms by (auto simp: timer_list_remove_def Let_def fun_eq_iff same_data_def set_next_def set_prev_def split: option.split)

lemma timer_list_remove_lists:
  assumes "timer_lists s xs ys" "t \<in> set (xs @ ys)"
  shows "timer_lists (timer_list_remove t s) (remove1 t xs) (remove1 t ys) \<and> same_data s (timer_list_remove t s)"
proof -
  obtain q where q: "seg (nodes s) None (m_timer_list s) xs q None" using assms(1) by (auto simp: timer_lists_def)
  obtain r where r: "seg (nodes s) None (m_inactive_timers s) ys r None" using assms(1) by (auto simp: timer_lists_def)
  have d: "distinct xs" "distinct ys" "set xs \<inter> set ys = {}" using assms(1) by (auto simp: timer_lists_def)
  show ?thesis
  proof (cases "t \<in> set xs")
    case True
    then obtain as bs where xs: "xs = as @ t # bs" by (meson split_list)
    note n = not_adjacent [OF q [unfolded xs] d(1) [unfolded xs]]
    note R = timer_list_remove_nodes [OF n(1,2), simplified]
    have hd: "m_timer_list s = Some t \<longleftrightarrow> m_prev (nodes s t) = None" using q n(3) d(1) unfolding xs by (cases as) auto
    have "\<exists>q. seg (nodes (timer_list_remove t s)) None (m_timer_list (timer_list_remove t s)) (as @ bs) q None"
      using unlink [OF q [unfolded xs] d(1) [unfolded xs] R(1)] R(2) hd by auto
    moreover have "nodes (timer_list_remove t s) x = nodes s x" if "x \<in> set ys" for x
    proof -
      have "x \<notin> set as" "x \<notin> set bs" using that d(3) unfolding xs by auto
      then have "Some x \<noteq> m_prev (nodes s t)" "Some x \<noteq> m_next (nodes s t)"
        unfolding n(3) [OF option.distinct(1)] n(4) [OF option.distinct(1)] using last_in_set [of as] hd_in_set [of bs] by auto
      then show ?thesis by (simp add: R(1))
    qed
    then have "seg (nodes (timer_list_remove t s)) None (m_inactive_timers (timer_list_remove t s)) ys r None"
      using seg_other [OF r, of "nodes (timer_list_remove t s)"] R(3) hd by auto
    moreover have "remove1 t xs = as @ bs" "remove1 t ys = ys" using d True by (auto simp: xs remove1_append remove1_idem)
    ultimately show ?thesis using d R(4) unfolding timer_lists_def xs by auto
  next
    case False
    then have ty: "t \<in> set ys" using assms(2) by simp
    then obtain as bs where ys: "ys = as @ t # bs" by (meson split_list)
    note n = not_adjacent [OF r [unfolded ys] d(2) [unfolded ys]]
    note R = timer_list_remove_nodes [OF n(1,2), simplified]
    have hd: "m_timer_list s \<noteq> Some t" using q False by (cases xs) auto
    have "\<exists>q. seg (nodes (timer_list_remove t s)) None (m_inactive_timers (timer_list_remove t s)) (as @ bs) q None"
      using unlink [OF r [unfolded ys] d(2) [unfolded ys] R(1)] R(3) hd by auto
    moreover have "nodes (timer_list_remove t s) x = nodes s x" if "x \<in> set xs" for x
    proof -
      have "x \<notin> set as" "x \<notin> set bs" using that d(3) unfolding ys by auto
      then have "Some x \<noteq> m_prev (nodes s t)" "Some x \<noteq> m_next (nodes s t)"
        unfolding n(3) [OF option.distinct(1)] n(4) [OF option.distinct(1)] using last_in_set [of as] hd_in_set [of bs] by auto
      then show ?thesis by (simp add: R(1))
    qed
    then have "seg (nodes (timer_list_remove t s)) None (m_timer_list (timer_list_remove t s)) xs q None"
      using seg_other [OF q, of "nodes (timer_list_remove t s)"] R(2) hd by auto
    moreover have "remove1 t ys = as @ bs" "remove1 t xs = xs" using d False by (auto simp: ys remove1_append remove1_idem)
    ultimately show ?thesis using d R(4) unfolding timer_lists_def ys by auto
  qed
qed

section \<open>Times\<close>

text \<open>A time as the emulator makes them: never, or a normalised time before that.\<close>

definition ok_time :: "attotime \<Rightarrow> bool" where
  "ok_time t \<longleftrightarrow> t = attotime_never \<or> wf_time t"

lemma ok_time_never: "ok_time t \<Longrightarrow> is_never t \<longleftrightarrow> t = attotime_never"
  by (auto simp: ok_time_def wf_time_def is_never_def attotime_never_def)

lemma less_never: "ok_time t \<Longrightarrow> t \<noteq> attotime_never \<Longrightarrow> t < attotime_never"
  by (auto simp: ok_time_def wf_time_def less_attotime_def attotime_less_def attotime_never_def)

lemma wf_less_never: "wf_time t \<Longrightarrow> t < attotime_never"
  by (auto simp: wf_time_def less_attotime_def attotime_less_def attotime_never_def)

lemma le_never: "ok_time t \<Longrightarrow> t \<le> attotime_never"
  using less_never by (cases "t = attotime_never") (auto intro: less_imp_le)

lemma add_later:
  assumes "wf_time a" "ok_time b"
  shows "ok_time (attotime_add a b)" "a \<le> attotime_add a b"
    "wf_time b \<Longrightarrow> attotime_add a b = attotime_never \<or> wf_time (attotime_add a b) \<and> attos (attotime_add a b) = attos a + attos b"
proof -
  show e: "wf_time b \<Longrightarrow> attotime_add a b = attotime_never \<or> wf_time (attotime_add a b) \<and> attos (attotime_add a b) = attos a + attos b"
    using attotime_add_exact [OF assms(1), of b] by linarith
  have n: "attotime_add a attotime_never = attotime_never" by (simp add: attotime_add_def attotime_never_def)
  show ok: "ok_time (attotime_add a b)" using e n assms(2) by (auto simp: ok_time_def)
  have "0 \<le> attos b" if "wf_time b" using wf_time_attos [OF that] by simp
  then have "a \<le> attotime_add a b" if "wf_time b"
    using e [OF that] that less_by_order [of "attotime_add a b" a] assms(1) le_never [of a] by (force simp: ok_time_def not_less [symmetric])
  then show "a \<le> attotime_add a b" using n assms le_never [of a] by (auto simp: ok_time_def)
qed

section \<open>The state of a scheduler\<close>

text \<open>The active list is ordered and ends with the timer \<open>d\<close> that never expires, so that there always is a first timer; only timers that
  will expire precede it. Nodes in use are neither free nor new.\<close>

definition sched_ok :: "nat \<Rightarrow> scheduler \<Rightarrow> nat list \<Rightarrow> nat list \<Rightarrow> bool" where
  "sched_ok d s xs ys \<longleftrightarrow> timer_lists s (xs @ [d]) ys \<and> sorted (map (expire_of s) xs) \<and> (\<forall>x \<in> set xs. wf_time (expire_of s x)) \<and>
     expire_of s d = attotime_never \<and> (\<forall>x \<in> set ys. ok_time (expire_of s x)) \<and> (\<forall>x \<in> set (xs @ ys). ok_time (m_period (tmr (nodes s x)))) \<and>
     distinct (fst (m_timer_allocator s)) \<and> (\<forall>x \<in> set (fst (m_timer_allocator s)). x < snd (m_timer_allocator s) \<and> x \<notin> set (xs @ d # ys)) \<and>
     (\<forall>x \<in> set (xs @ d # ys). x < snd (m_timer_allocator s))"

lemma sorted_insert:
  assumes "sorted (map f xs)" "\<And>c. P c = (\<not> f t < f c)"
  shows "sorted (map f (takeWhile P xs @ t # dropWhile P xs))"
  using assms
proof (induction xs)
  case (Cons x xs)
  then show ?case by (cases "P x") (auto simp: not_less dest: set_takeWhileD set_dropWhileD)
qed simp

text \<open>The place of a timer before the one that never expires.\<close>

lemma insert_sorted_end:
  assumes "wf_time (m_expire (tmr (h t)))" "m_expire (tmr (h d)) = attotime_never"
  shows "insert_sorted False h t (xs @ [d]) = insert_sorted False h t xs @ [d]"
proof -
  have "insert_here False (h t) (h d)" using assms wf_less_never by (simp add: insert_here_def)
  then show ?thesis by (simp add: insert_sorted_def) (induction xs; simp)
qed

lemma upd_tmr_simps [simp]:
  "m_next (nodes (upd_tmr t f s) x) = m_next (nodes s x)" "m_prev (nodes (upd_tmr t f s) x) = m_prev (nodes s x)"
  "tmr (nodes (upd_tmr t f s) x) = (if x = t then f (tmr (nodes s t)) else tmr (nodes s x))" "m_callback (nodes (upd_tmr t f s) x) = m_callback (nodes s x)"
  "m_temporary (nodes (upd_tmr t f s) x) = m_temporary (nodes s x)" "m_index (nodes (upd_tmr t f s) x) = m_index (nodes s x)"
  "m_timer_list (upd_tmr t f s) = m_timer_list s" "m_inactive_timers (upd_tmr t f s) = m_inactive_timers s" "m_timer_allocator (upd_tmr t f s) = m_timer_allocator s"
  "m_basetime (upd_tmr t f s) = m_basetime s" "m_executing_device (upd_tmr t f s) = m_executing_device s" "m_callback_timer (upd_tmr t f s) = m_callback_timer s"
  "m_callback_timer_modified (upd_tmr t f s) = m_callback_timer_modified s" "m_callback_timer_expire_time (upd_tmr t f s) = m_callback_timer_expire_time s"
  by (simp_all add: upd_tmr_def)

lemma timer_lists_frame:
  assumes "timer_lists s xs ys" "\<And>x. m_next (nodes s' x) = m_next (nodes s x) \<and> m_prev (nodes s' x) = m_prev (nodes s x)"
    "m_timer_list s' = m_timer_list s" "m_inactive_timers s' = m_inactive_timers s"
  shows "timer_lists s' xs ys"
  using assms(1,3,4) unfolding timer_lists_def by (auto intro: seg_frame [OF _ assms(2)])

text \<open>The lists after a timer was removed and put back, from its new data.\<close>

definition moved :: "scheduler \<Rightarrow> nat \<Rightarrow> nat list \<Rightarrow> nat list \<Rightarrow> nat list \<times> nat list" where
  "moved s t xs ys =
     (if is_never (expire_of s t) \<or> \<not> m_enabled (tmr (nodes s t)) then (remove1 t xs, t # remove1 t ys)
      else (insert_sorted False (nodes s) t (remove1 t xs), remove1 t ys))"

lemma sched_ok_members:
  assumes "sched_ok d s xs ys" "t \<in> set (xs @ ys)"
  shows "t \<noteq> d" "distinct xs" "distinct ys" "set xs \<inter> set ys = {}" "d \<notin> set xs" "d \<notin> set ys"
  using assms by (auto simp: sched_ok_def timer_lists_def)

lemma set_moved: "t \<in> set (xs @ ys) \<Longrightarrow> distinct xs \<Longrightarrow> distinct ys \<Longrightarrow> set (fst (moved s t xs ys)) \<union> set (snd (moved s t xs ys)) = set (xs @ ys)"
  by (auto simp: moved_def set_insert_sorted)

lemma reinsert_ok:
  assumes ok: "sched_ok d s xs ys" "t \<in> set (xs @ ys)"
    and f: "ok_time (m_expire (f (tmr (nodes s t))))" "ok_time (m_period (f (tmr (nodes s t))))"
  shows "\<exists>s'. reinsert t (upd_tmr t f s) = Some s' \<and> same_data (upd_tmr t f s) s' \<and>
    sched_ok d s' (fst (moved (upd_tmr t f s) t xs ys)) (snd (moved (upd_tmr t f s) t xs ys))"
proof -
  let ?u = "upd_tmr t f s"
  note m = sched_ok_members [OF ok]
  have r1: "remove1 t (xs @ [d]) = remove1 t xs @ [d]" using m(1) by (auto simp: remove1_append remove1_idem)
  have tl: "timer_lists ?u (xs @ [d]) ys" using ok(1) by - (rule timer_lists_frame [of s], simp_all add: sched_ok_def)
  have "t \<in> set ((xs @ [d]) @ ys)" using ok(2) by auto
  from timer_list_remove_lists [OF tl this]
  have r: "timer_lists (timer_list_remove t ?u) (remove1 t xs @ [d]) (remove1 t ys)" "same_data ?u (timer_list_remove t ?u)"
    unfolding r1 by blast+
  have n: "t \<notin> set ((remove1 t xs @ [d]) @ remove1 t ys)" using m by auto
  let ?v = "timer_list_remove t ?u"
  have e: "expire_of ?v x = (if x = t then m_expire (f (tmr (nodes s t))) else expire_of s x)" "m_enabled (tmr (nodes ?v t)) = m_enabled (tmr (nodes ?u t))" for x
    using r(2) by (auto simp: same_data_def)
  have i: "insert_here False (nodes ?v t) (nodes ?v x) = insert_here False (nodes ?u t) (nodes ?u x)" for x
    using r(2) by (simp add: insert_here_def same_data_def)
  then have ins: "insert_sorted False (nodes ?v) t = insert_sorted False (nodes ?u) t" by (intro ext) (simp add: insert_sorted_def)
  obtain s' where s': "timer_list_insert False t ?v = Some s'" "same_data ?v s'"
      "if is_never (expire_of ?v t) \<or> \<not> m_enabled (tmr (nodes ?v t)) then timer_lists s' (remove1 t xs @ [d]) (t # remove1 t ys)
       else timer_lists s' (insert_sorted False (nodes ?v) t (remove1 t xs @ [d])) (remove1 t ys)"
    using timer_list_insert_lists [OF r(1) n, of False] by blast
  have sd: "same_data ?u s'" by (rule same_data_trans [OF r(2) s'(2)])
  obtain xs' ys' where mv: "moved ?u t xs ys = (xs', ys')" by fastforce
  have "timer_lists s' (xs' @ [d]) ys'"
  proof (cases "is_never (expire_of ?u t) \<or> \<not> m_enabled (tmr (nodes ?u t))")
    case True
    then show ?thesis using s'(3) mv e by (auto simp: moved_def)
  next
    case False
    have "wf_time (m_expire (f (tmr (nodes s t))))" using False f(1) ok_time_never by (auto simp: ok_time_def)
    then have "insert_sorted False (nodes ?v) t (remove1 t xs @ [d]) = insert_sorted False (nodes ?v) t (remove1 t xs) @ [d]"
      using ok(1) e m(1) by (intro insert_sorted_end) (auto simp: sched_ok_def)
    then show ?thesis using s'(3) mv e False ins by (auto simp: moved_def)
  qed
  moreover have x': "expire_of s' x = expire_of ?u x" "m_period (tmr (nodes s' x)) = m_period (tmr (nodes ?u x))" for x using sd by (auto simp: same_data_def)
  have "sorted (map (expire_of s') xs')"
  proof -
    have "sorted (map (expire_of ?u) (remove1 t xs))"
    proof -
      have "map (expire_of ?u) (remove1 t xs) = map (expire_of s) (remove1 t xs)" using m(2) by (intro map_cong) auto
      moreover have "sorted (map (expire_of s) (remove1 t xs))" using ok(1) by (simp add: sched_ok_def sorted_map_remove1)
      ultimately show ?thesis by (simp only:)
    qed
    then have "sorted (map (expire_of ?u) xs')"
      using mv sorted_insert [of "expire_of ?u" "remove1 t xs" "\<lambda>c. \<not> insert_here False (nodes ?u t) (nodes ?u c)" t]
      by (auto simp: moved_def insert_sorted_def insert_here_def split: if_splits)
    then show ?thesis using x'(1) by simp
  qed
  moreover have mem: "set xs' \<union> set ys' = set (xs @ ys)" using set_moved [OF ok(2) m(2,3), of ?u] mv by simp
  moreover have "wf_time (expire_of s' x)" if "x \<in> set xs'" for x
    using that mv f(1) ok(1) x'(1) ok_time_never [OF f(1)] m(2)
    by (auto simp: moved_def sched_ok_def set_insert_sorted ok_time_def split: if_splits)
  moreover have "ok_time (expire_of s' x)" if "x \<in> set ys'" for x
    using that mv f(1) ok(1) x'(1) m(3) by (auto simp: moved_def sched_ok_def split: if_splits)
  moreover have "m_timer_allocator s' = m_timer_allocator s" "expire_of s' d = attotime_never" using sd ok(1) m(1) x'(1) by (auto simp: same_data_def sched_ok_def)
  moreover have "ok_time (m_period (tmr (nodes s' x)))" if "x \<in> set (xs' @ ys')" for x
    using that mem x'(2) f(2) ok(1) by (auto simp: sched_ok_def)
  ultimately have "sched_ok d s' xs' ys'" using ok(1) unfolding sched_ok_def by (auto simp: mem)
  then show ?thesis using s'(1) sd mv by (simp add: reinsert_def)
qed

end
