(* ===== verification/Scheduler_Fire.thy ===== *)
theory Scheduler_Fire
  imports Scheduler "HOL-Library.Multiset"
begin

text \<open>
  The loop that fires the timers: what the calls of a callback keep, the order in which timers fire, and that the loop ends.
\<close>

section \<open>What the calls keep\<close>

text \<open>What callbacks that set timers for later only keep since the state \<open>s0\<close> with the active timers \<open>xs0\<close>: an active timer
  is as it was or is due after \<open>T\<close>, up to the timer of the callback.\<close>

definition kept :: "nat \<Rightarrow> attotime \<Rightarrow> scheduler \<Rightarrow> nat list \<Rightarrow> scheduler \<Rightarrow> nat list \<Rightarrow> bool" where
  "kept t0 T s0 xs0 s xs \<longleftrightarrow>
     (\<forall>x \<in> set xs. x \<noteq> t0 \<and> x \<in> set xs0 \<and> expire_of s x = expire_of s0 x \<or> T < expire_of s x \<or> x = t0 \<and> \<not> m_callback_timer_modified s) \<and>
     (\<not> m_callback_timer_modified s \<longrightarrow> m_period (tmr (nodes s t0)) = m_period (tmr (nodes s0 t0)) \<and> (m_enabled (tmr (nodes s t0)) \<longrightarrow> m_enabled (tmr (nodes s0 t0))))"

text \<open>During the callback of the timer \<open>t0\<close>, which expired at \<open>T\<close>: the timers \<open>P\<close> of the devices are in the lists for good, and with
  \<open>ord\<close> nothing in the active list is due before \<open>T\<close>.\<close>

definition calls_inv :: "bool \<Rightarrow> (scheduler \<times> nat list) option \<Rightarrow> nat \<Rightarrow> nat set \<Rightarrow> nat \<Rightarrow> attotime \<Rightarrow> attotime \<Rightarrow> scheduler \<Rightarrow> nat list \<Rightarrow> nat list \<Rightarrow> bool" where
  "calls_inv ord k d P t0 T base s xs ys \<longleftrightarrow> (\<forall>s0 xs0. k = Some (s0, xs0) \<longrightarrow> kept t0 T s0 xs0 s xs) \<and> sched_ok d s xs ys \<and> P \<subseteq> set (xs @ ys) \<and> (\<forall>x \<in> P. \<not> m_temporary (nodes s x)) \<and> t0 \<in> set (xs @ ys) \<and>
     (ord \<longrightarrow> (\<forall>x \<in> set xs. T \<le> expire_of s x)) \<and> wf_time T \<and> m_callback_timer s = Some t0 \<and> m_callback_timer_expire_time s = T \<and> m_basetime s = base \<and>
     (m_callback_timer_modified s \<or> expire_of s t0 = T)"

text \<open>The calls a callback may make: on the timers of the devices, with proper times.\<close>

fun allowed_call :: "nat set \<Rightarrow> sched_call \<Rightarrow> bool" where
  "allowed_call P (Call_adjust t d p per) \<longleftrightarrow> t \<in> P \<and> (m_seconds d < 0 \<or> ok_time d) \<and> ok_time per"
| "allowed_call P (Call_enable t e) \<longleftrightarrow> t \<in> P"
| "allowed_call P (Call_timer_set d cb p) \<longleftrightarrow> ok_time d"
| "allowed_call P (Call_synchronize cb p) \<longleftrightarrow> True"

text \<open>Calls that do not enable a timer, which may have expired long ago, and calls that set timers for later only.\<close>

fun orderly_call :: "sched_call \<Rightarrow> bool" where
  "orderly_call (Call_enable t e) \<longleftrightarrow> \<not> e"
| "orderly_call c \<longleftrightarrow> True"

fun later_call :: "sched_call \<Rightarrow> bool" where
  "later_call (Call_adjust t d p per) \<longleftrightarrow> attotime_zero < d"
| "later_call (Call_enable t e) \<longleftrightarrow> \<not> e"
| "later_call (Call_timer_set d cb p) \<longleftrightarrow> attotime_zero < d"
| "later_call (Call_synchronize cb p) \<longleftrightarrow> False"

lemma later_orderly: "later_call c \<Longrightarrow> orderly_call c"
  by (cases c) auto

text \<open>The timers a call works on, and what it leaves alone: the active timers outside of \<open>U\<close> stay active, with their data.\<close>

fun call_timers :: "sched_call \<Rightarrow> nat set" where
  "call_timers (Call_adjust t d p per) = {t}"
| "call_timers (Call_enable t e) = {t}"
| "call_timers c = {}"

definition unchanged :: "nat set \<Rightarrow> scheduler \<Rightarrow> nat list \<Rightarrow> scheduler \<Rightarrow> nat list \<Rightarrow> bool" where
  "unchanged U s xs s' xs' \<longleftrightarrow>
     (\<forall>x \<in> set xs - U. x \<in> set xs' \<and> tmr (nodes s' x) = tmr (nodes s x) \<and> m_callback (nodes s' x) = m_callback (nodes s x))"

lemma unchanged_refl [simp]: "unchanged U s xs s xs"
  by (simp add: unchanged_def)

lemma unchanged_trans: "unchanged U s xs s1 xs1 \<Longrightarrow> unchanged V s1 xs1 s2 xs2 \<Longrightarrow> unchanged (U \<union> V) s xs s2 xs2"
  by (auto simp: unchanged_def)

lemma add_strictly_later:
  assumes "wf_time a" "ok_time b" "attotime_zero < b"
  shows "a < attotime_add a b"
proof (cases "b = attotime_never")
  case True
  then show ?thesis using wf_less_never [OF assms(1)] by (simp add: attotime_add_def attotime_never_def)
next
  case False
  then have b: "wf_time b" using assms(2) by (simp add: ok_time_def)
  have "wf_time attotime_zero" "attos attotime_zero = 0" by (simp_all add: wf_time_def attotime_zero_def attos_def atto_consts)
  then have "0 < attos b" using less_by_order [of attotime_zero b] b assms(3) by simp
  then show ?thesis
    using add_later(3) [OF assms(1,2) b] less_by_order [OF assms(1), of "attotime_add a b"] wf_less_never [OF assms(1)] by auto
qed

lemma calls_inv_time: "calls_inv ord k d P t0 T base s xs ys \<Longrightarrow> time s = T"
  by (simp add: calls_inv_def time_def)

lemma calls_inv_reinsert:
  assumes inv: "calls_inv ord k d P t0 T base s xs ys" and t: "t \<in> P"
    and f: "ok_time (m_expire (f (tmr (nodes s t))))" "ok_time (m_period (f (tmr (nodes s t))))"
    and later: "ord \<Longrightarrow> m_enabled (f (tmr (nodes s t))) \<Longrightarrow> T \<le> m_expire (f (tmr (nodes s t)))"
    and s1: "s1 = s\<lparr>m_callback_timer_modified := b\<rparr>" "(m_callback_timer_modified s \<longrightarrow> b) \<and> (t \<noteq> t0 \<longrightarrow> b = m_callback_timer_modified s)"
      "t = t0 \<longrightarrow> b \<or> m_expire (f (tmr (nodes s t))) = expire_of s t \<and> m_period (f (tmr (nodes s t))) = m_period (tmr (nodes s t)) \<and>
        (k \<noteq> None \<longrightarrow> \<not> m_enabled (f (tmr (nodes s t))))"
    and k: "k \<noteq> None \<Longrightarrow> m_enabled (f (tmr (nodes s t))) \<Longrightarrow> T < m_expire (f (tmr (nodes s t)))"
  shows "\<exists>s' xs' ys'. reinsert t (upd_tmr t f s1) = Some s' \<and> calls_inv ord k d P t0 T base s' xs' ys' \<and> unchanged {t} s xs s' xs'"
proof -
  have ok: "sched_ok d s1 xs ys" using inv s1(1) by (simp add: calls_inv_def sched_ok_def timer_lists_def)
  have ts: "t \<in> set (xs @ ys)" using inv t by (auto simp: calls_inv_def)
  have n: "nodes s1 = nodes s" using s1(1) by simp
  obtain xs' ys' where mv: "moved (upd_tmr t f s1) t xs ys = (xs', ys')" by fastforce
  obtain s' where s': "reinsert t (upd_tmr t f s1) = Some s'" "same_data (upd_tmr t f s1) s'" "sched_ok d s' xs' ys'"
    using reinsert_ok [OF ok ts, of f] f mv n by auto
  note m = sched_ok_members [OF ok ts]
  have mem: "set xs' \<union> set ys' = set (xs @ ys)" using set_moved [OF ts m(2,3), of "upd_tmr t f s1"] mv by simp
  have tm: "tmr (nodes s' x) = (if x = t then f (tmr (nodes s t)) else tmr (nodes s x))" "m_callback_timer_modified s' = b" for x
    using s'(2) n s1(1) by (auto simp: same_data_def)
  have mx: "x \<noteq> t \<and> x \<in> set xs \<or> x = t \<and> m_enabled (f (tmr (nodes s t)))" if "x \<in> set xs'" for x
    using that mv n m(2) by (auto simp: moved_def set_insert_sorted split: if_splits)
  have "T \<le> expire_of s' x" if "ord" "x \<in> set xs'" for x
    using mx [OF that(2)] inv later that(1) tm(1) by (auto simp: calls_inv_def)
  moreover have "kept t0 T s0 xs0 s' xs'" if "k = Some (s0, xs0)" for s0 xs0
  proof -
    have kp: "kept t0 T s0 xs0 s xs" using inv that by (simp add: calls_inv_def)
    have "x \<noteq> t0 \<and> x \<in> set xs0 \<and> expire_of s' x = expire_of s0 x \<or> T < expire_of s' x \<or> x = t0 \<and> \<not> b" if x: "x \<in> set xs'" for x
    proof (cases "x = t")
      case True
      then show ?thesis using mx [OF x] k \<open>k = _\<close> tm(1) by simp
    next
      case False
      then have "x \<in> set xs" "expire_of s' x = expire_of s x" using mx [OF x] tm(1) by simp_all
      then show ?thesis using kp s1(2,3) False unfolding kept_def by metis
    qed
    moreover have "m_period (tmr (nodes s' t0)) = m_period (tmr (nodes s0 t0)) \<and> (m_enabled (tmr (nodes s' t0)) \<longrightarrow> m_enabled (tmr (nodes s0 t0)))" if "\<not> b"
      using kp s1(2,3) tm(1) [of t0] that \<open>k = _\<close> unfolding kept_def by (cases "t = t0") auto
    ultimately show ?thesis unfolding kept_def tm(2) by blast
  qed
  moreover have "P \<subseteq> set (xs' @ ys')" "t0 \<in> set (xs' @ ys')" using inv mem by (auto simp: calls_inv_def)
  moreover have "b \<or> expire_of s' t0 = T" using inv s1(2,3) tm(1) [of t0] by (auto simp: calls_inv_def)
  moreover have "m_temporary (nodes s' x) = m_temporary (nodes s x)" "m_callback_timer s' = m_callback_timer s" "m_basetime s' = m_basetime s"
      "m_callback_timer_expire_time s' = m_callback_timer_expire_time s" for x
    using s'(2) s1(1) n by (simp_all add: same_data_def)
  ultimately have "calls_inv ord k d P t0 T base s' xs' ys'"
    using inv s'(3) unfolding calls_inv_def tm(2) by simp
  moreover have "unchanged {t} s xs s' xs'"
    using mv n m(2) tm(1) s'(2) s1(1) by (auto simp: unchanged_def moved_def set_insert_sorted same_data_def split: if_splits)
  ultimately show ?thesis using s'(1) by blast
qed

lemma adjust_calls_inv:
  assumes "calls_inv ord k d P t0 T base s xs ys" "t \<in> P" "m_seconds delay < 0 \<or> ok_time delay" "ok_time per"
    "k \<noteq> None \<Longrightarrow> attotime_zero < delay"
  shows "\<exists>s' xs' ys'. emu_timer_adjust t delay p per s = Some s' \<and> calls_inv ord k d P t0 T base s' xs' ys' \<and> unchanged {t} s xs s' xs'"
proof -
  let ?d = "if m_seconds delay < 0 then attotime_zero else delay"
  let ?f = "timer_adjust (time s) delay p per" and ?b = "m_callback_timer s = Some t \<or> m_callback_timer_modified s"
  have T: "wf_time T" "time s = T" using assms(1) calls_inv_time [OF assms(1)] by (simp_all add: calls_inv_def)
  have "ok_time ?d" using assms(3) by (auto simp: ok_time_def wf_time_def attotime_zero_def atto_consts)
  then have f: "ok_time (m_expire (?f (tmr (nodes s t))))" "T \<le> m_expire (?f (tmr (nodes s t)))" "m_period (?f (tmr (nodes s t))) = per"
    using add_later [OF T(1), of ?d] T(2) by (auto simp: timer_adjust_def Let_def)
  have l: "T < m_expire (?f (tmr (nodes s t)))" if "k \<noteq> None"
  proof -
    have "ok_time delay" "\<not> m_seconds delay < 0"
      using assms(3) assms(5) [OF that] by (auto simp: less_attotime_def attotime_less_def attotime_zero_def)
    then show ?thesis using add_strictly_later [OF T(1) _ assms(5) [OF that]] T(2) by (simp add: timer_adjust_def Let_def)
  qed
  have e: "(if m_callback_timer s = Some t then s\<lparr>m_callback_timer_modified := True\<rparr> else s) = s\<lparr>m_callback_timer_modified := ?b\<rparr>" by simp
  have "m_callback_timer s = Some t0" using assms(1) by (simp add: calls_inv_def)
  then have "\<exists>s' xs' ys'. reinsert t (upd_tmr t ?f (s\<lparr>m_callback_timer_modified := ?b\<rparr>)) = Some s' \<and> calls_inv ord k d P t0 T base s' xs' ys' \<and>
      unchanged {t} s xs s' xs'"
    using f assms(4) l by (intro calls_inv_reinsert [OF assms(1,2)]) auto
  then show ?thesis unfolding emu_timer_adjust_def Let_def e .
qed

lemma enable_calls_inv:
  assumes "calls_inv ord k d P t0 T base s xs ys" "t \<in> P" "e \<Longrightarrow> \<not> ord \<and> k = None"
  shows "\<exists>s' xs' ys'. emu_timer_enable t e s = Some s' \<and> calls_inv ord k d P t0 T base s' xs' ys' \<and> unchanged {t} s xs s' xs'"
proof (cases "m_enabled (tmr (nodes s t)) \<noteq> e")
  case True
  have "t \<in> set (xs @ ys)" using assms by (auto simp: calls_inv_def)
  then have "ok_time (expire_of s t)" "ok_time (m_period (tmr (nodes s t)))" using assms(1) by (auto simp: calls_inv_def sched_ok_def ok_time_def)
  then have "\<exists>s' xs' ys'. reinsert t (upd_tmr t (\<lambda>x. x\<lparr>m_enabled := e\<rparr>) s) = Some s' \<and> calls_inv ord k d P t0 T base s' xs' ys' \<and> unchanged {t} s xs s' xs'"
    using assms(3) by (intro calls_inv_reinsert [OF assms(1,2), of "\<lambda>x. x\<lparr>m_enabled := e\<rparr>" s "m_callback_timer_modified s"]) auto
  then show ?thesis using True by (simp add: emu_timer_enable_def)
next
  case False
  then show ?thesis using assms(1) by (auto simp: emu_timer_enable_def)
qed

text \<open>A new temporary timer.\<close>

lemma alloc_node_ok:
  assumes "sched_ok d s xs ys" "alloc_node s = (t, s1)"
  shows "t \<notin> set (xs @ d # ys)" "t \<notin> set (fst (m_timer_allocator s1))" "t < snd (m_timer_allocator s1)"
    "sched_ok d s1 xs ys" "nodes s1 = nodes s" "m_basetime s1 = m_basetime s" "m_callback_timer s1 = m_callback_timer s"
    "m_callback_timer_modified s1 = m_callback_timer_modified s" "m_callback_timer_expire_time s1 = m_callback_timer_expire_time s" "time s1 = time s"
proof -
  obtain free n where a: "m_timer_allocator s = (free, n)" by fastforce
  obtain a' where s1: "s1 = s\<lparr>m_timer_allocator := a'\<rparr>" using assms(2) by (auto simp: alloc_node_def split: prod.splits list.splits)
  show "nodes s1 = nodes s" "m_basetime s1 = m_basetime s" "m_callback_timer s1 = m_callback_timer s"
    "m_callback_timer_modified s1 = m_callback_timer_modified s" "m_callback_timer_expire_time s1 = m_callback_timer_expire_time s" "time s1 = time s"
    by (simp_all add: s1 time_def split: option.split)
  have "timer_lists s1 (xs @ [d]) ys" using assms(1) by (auto simp: s1 sched_ok_def timer_lists_def)
  then show "t \<notin> set (xs @ d # ys)" "t \<notin> set (fst (m_timer_allocator s1))" "t < snd (m_timer_allocator s1)" "sched_ok d s1 xs ys"
    using assms a by (auto simp: alloc_node_def sched_ok_def less_Suc_eq split: list.splits)
qed

lemma init_calls_inv:
  assumes inv: "calls_inv ord k d P t0 T base s xs ys" and "ok_time delay" and al: "alloc_node s = (t, s1)"
    and later: "k \<noteq> None \<Longrightarrow> attotime_zero < delay"
  shows "\<exists>s' xs' ys'. emu_timer_init cb delay p True t s1 = Some s' \<and> calls_inv ord k d P t0 T base s' xs' ys' \<and> unchanged {} s xs s' xs'"
proof -
  have ok: "sched_ok d s xs ys" using inv by (simp add: calls_inv_def)
  note A = alloc_node_ok [OF ok al]
  have T: "wf_time T" "time s1 = T" using inv calls_inv_time [OF inv] A(10) by (simp_all add: calls_inv_def)
  define u where "u = s1\<lparr>nodes := (nodes s1)(t := (nodes s1 t)\<lparr>m_next := None, m_prev := None, m_callback := cb, m_temporary := True,
           tmr := timer_init (time s1) delay p\<rparr>)\<rparr>"
  have f: "ok_time (attotime_add T delay)" "T \<le> attotime_add T delay" using add_later [OF T(1) assms(2)] by auto
  have un: "nodes u x = nodes s1 x" if "x \<in> set (xs @ d # ys)" for x using that A(1) by (auto simp: u_def)
  have ul: "m_timer_list u = m_timer_list s1" "m_inactive_timers u = m_inactive_timers s1" by (simp_all add: u_def)
  have x: "expire_of u x = (if x = t then attotime_add T delay else expire_of s x)" "m_enabled (tmr (nodes u t)) = (\<not> is_never (attotime_add T delay))" for x
    using T(2) A(5) by (simp_all add: timer_init_def Let_def u_def)
  obtain q r where qr: "seg (nodes s1) None (m_timer_list s1) (xs @ [d]) q None" "seg (nodes s1) None (m_inactive_timers s1) ys r None" "distinct ((xs @ [d]) @ ys)"
    using A(4) unfolding sched_ok_def timer_lists_def by blast
  have "seg (nodes u) None (m_timer_list u) (xs @ [d]) q None" unfolding ul by (rule seg_other [OF qr(1)]) (rule un, auto)
  moreover have "seg (nodes u) None (m_inactive_timers u) ys r None" unfolding ul by (rule seg_other [OF qr(2)]) (rule un, auto)
  ultimately have tl: "timer_lists u (xs @ [d]) ys" using qr(3) unfolding timer_lists_def by blast
  have tn: "t \<notin> set ((xs @ [d]) @ ys)" using A(1) by auto
  obtain s' where s': "timer_list_insert False t u = Some s'" "same_data u s'"
      "if is_never (expire_of u t) \<or> \<not> m_enabled (tmr (nodes u t)) then timer_lists s' (xs @ [d]) (t # ys)
       else timer_lists s' (insert_sorted False (nodes u) t (xs @ [d])) ys"
    using timer_list_insert_lists [OF tl tn, of False] by blast
  have d: "\<And>x. tmr (nodes s' x) = tmr (nodes u x)" "\<And>x. m_temporary (nodes s' x) = (x = t \<or> m_temporary (nodes s x))" "m_timer_allocator s' = m_timer_allocator s1"
    "m_basetime s' = m_basetime s" "m_callback_timer s' = m_callback_timer s" "m_callback_timer_modified s' = m_callback_timer_modified s"
    "m_callback_timer_expire_time s' = m_callback_timer_expire_time s"
    using s'(2) A by (auto simp: same_data_def u_def)
  have nd: "d \<noteq> t" "expire_of s d = attotime_never" "t0 \<noteq> t" "t \<notin> P" using A(1) ok inv by (auto simp: sched_ok_def calls_inv_def)
  have k: "kept t0 T s0 xs0 s' xs'" if "k = Some (s0, xs0)" "set xs' \<subseteq> insert t (set xs)" for s0 xs0 xs'
  proof -
    have "kept t0 T s0 xs0 s xs" using inv that(1) by (simp add: calls_inv_def)
    moreover have "T < expire_of s' t" using add_strictly_later [OF T(1) assms(2)] later that(1) d(1) x(1) by simp
    moreover have "tmr (nodes s' y) = tmr (nodes s y)" if "y \<noteq> t" for y using that d(1) A(5) by (simp add: u_def)
    ultimately show ?thesis using that(2) nd(3) unfolding kept_def d(6) by (metis insertE subsetD)
  qed
  have uc: "unchanged {} s xs s' xs'" if "set xs \<subseteq> set xs'" for xs'
    using that tn s'(2) A(5) by (auto simp: unchanged_def same_data_def u_def)
  have per: "m_period (tmr (nodes s' x)) = (if x = t then attotime_never else m_period (tmr (nodes s x)))" for x using d(1) A(5) by (simp add: timer_init_def Let_def u_def)
  have "map (expire_of u) xs = map (expire_of s) xs" using x tn by (intro map_cong) auto
  then have su: "sorted (map (expire_of u) xs)" using ok by (simp only: sched_ok_def)
  show ?thesis
  proof (cases "is_never (attotime_add T delay)")
    case True
    then have l: "timer_lists s' (xs @ [d]) (t # ys)" using s'(3) x by simp
    have "sched_ok d s' xs (t # ys)"
      using A(1-4) l nd f(1) x per d(1,3) su unfolding sched_ok_def by (auto simp: A(5) ok_time_def)
    moreover have "\<forall>s0 xs0. k = Some (s0, xs0) \<longrightarrow> kept t0 T s0 xs0 s' xs" using k by blast
    ultimately have "calls_inv ord k d P t0 T base s' xs (t # ys)" using inv nd x d tn A(5) unfolding calls_inv_def by auto
    then show ?thesis using s'(1) uc [of xs] unfolding emu_timer_init_def u_def by blast
  next
    case False
    then have w: "wf_time (attotime_add T delay)" using f(1) ok_time_never by (auto simp: ok_time_def)
    have "insert_sorted False (nodes u) t (xs @ [d]) = insert_sorted False (nodes u) t xs @ [d]"
      using w x nd by (intro insert_sorted_end) auto
    then have l: "timer_lists s' (insert_sorted False (nodes u) t xs @ [d]) ys" using s'(3) x False by simp
    have "sorted (map (expire_of u) (insert_sorted False (nodes u) t xs))"
      using sorted_insert [of "expire_of u" xs "\<lambda>c. \<not> insert_here False (nodes u t) (nodes u c)" t] su by (simp add: insert_sorted_def insert_here_def)
    then have so: "sorted (map (expire_of s') (insert_sorted False (nodes u) t xs))" using d(1) by simp
    have "sched_ok d s' (insert_sorted False (nodes u) t xs) ys"
      using A(1-4) l so nd w x per d(1,3) unfolding sched_ok_def by (auto simp: A(5) ok_time_def set_insert_sorted)
    moreover have "\<forall>s0 xs0. k = Some (s0, xs0) \<longrightarrow> kept t0 T s0 xs0 s' (insert_sorted False (nodes u) t xs)"
      using k by (auto simp: set_insert_sorted)
    ultimately have "calls_inv ord k d P t0 T base s' (insert_sorted False (nodes u) t xs) ys"
      using inv nd x d tn A(5) f(2) unfolding calls_inv_def by (auto simp: set_insert_sorted)
    moreover have "unchanged {} s xs s' (insert_sorted False (nodes u) t xs)" by (rule uc) (auto simp: set_insert_sorted)
    ultimately show ?thesis using s'(1) unfolding emu_timer_init_def u_def by blast
  qed
qed

lemma call_calls_inv:
  assumes "calls_inv ord k d P t0 T base s xs ys" "allowed_call P c" "ord \<Longrightarrow> orderly_call c" "k \<noteq> None \<Longrightarrow> later_call c"
  shows "\<exists>s' xs' ys'. do_sched_call c s = Some s' \<and> calls_inv ord k d P t0 T base s' xs' ys' \<and> unchanged (call_timers c) s xs s' xs'"
proof (cases c)
  case (Call_adjust t delay p per)
  then show ?thesis using adjust_calls_inv [OF assms(1), of t delay per p] assms(2,4) by simp
next
  case (Call_enable t e)
  have "t \<in> P" using assms(2) Call_enable by simp
  moreover have "\<not> ord \<and> k = None" if e
  proof -
    have "\<not> orderly_call c" "\<not> later_call c" using that Call_enable by simp_all
    then show ?thesis using assms(3,4) by blast
  qed
  ultimately show ?thesis using enable_calls_inv [OF assms(1), of t e] Call_enable by simp
next
  case (Call_timer_set delay cb p)
  obtain t s1 where a: "alloc_node s = (t, s1)" by fastforce
  then show ?thesis using init_calls_inv [OF assms(1) _ a, of delay cb p] Call_timer_set assms(2,4) a by (simp add: sched_timer_set_def)
next
  case (Call_synchronize cb p)
  obtain t s1 where a: "alloc_node s = (t, s1)" by fastforce
  have "ok_time attotime_zero" by (simp add: ok_time_def wf_time_def attotime_zero_def atto_consts)
  moreover have "k = None" using assms(4) Call_synchronize by (cases k) auto
  ultimately show ?thesis using init_calls_inv [OF assms(1) _ a, of attotime_zero cb p] Call_synchronize a by (simp add: sched_synchronize_def)
qed

lemma calls_calls_inv:
  "calls_inv ord k d P t0 T base s xs ys \<Longrightarrow> \<forall>c \<in> set cs. allowed_call P c \<and> (ord \<longrightarrow> orderly_call c) \<and> (k \<noteq> None \<longrightarrow> later_call c) \<Longrightarrow>
   \<exists>s' xs' ys'. sched_calls cs s = Some s' \<and> calls_inv ord k d P t0 T base s' xs' ys' \<and> unchanged (\<Union> (call_timers ` set cs)) s xs s' xs'"
proof (induction cs arbitrary: s xs ys)
  case (Cons c cs)
  obtain s1 xs1 ys1 where 1: "do_sched_call c s = Some s1" "calls_inv ord k d P t0 T base s1 xs1 ys1" "unchanged (call_timers c) s xs s1 xs1"
    using call_calls_inv [OF Cons.prems(1), of c] Cons.prems(2) by auto
  obtain s2 xs2 ys2 where "sched_calls cs s1 = Some s2" "calls_inv ord k d P t0 T base s2 xs2 ys2" "unchanged (\<Union> (call_timers ` set cs)) s1 xs1 s2 xs2"
    using Cons.IH [OF 1(2)] Cons.prems(2) by auto
  then show ?case using 1 unchanged_trans [OF 1(3)] by auto
qed auto

section \<open>One firing\<close>

definition proper_callbacks :: "nat set \<Rightarrow> 'w callbacks \<Rightarrow> bool" where
  "proper_callbacks P cbs \<longleftrightarrow> (\<forall>cb p w. \<forall>c \<in> set (fst (cbs cb p w)). allowed_call P c)"

definition orderly_callbacks :: "'w callbacks \<Rightarrow> bool" where
  "orderly_callbacks cbs \<longleftrightarrow> (\<forall>cb p w. \<forall>c \<in> set (fst (cbs cb p w)). orderly_call c)"

text \<open>Between firings: the devices' timers are in the lists, and with \<open>ord\<close> nothing is due before \<open>T\<close>.\<close>

definition fire_inv :: "bool \<Rightarrow> nat \<Rightarrow> nat set \<Rightarrow> attotime \<Rightarrow> attotime \<Rightarrow> scheduler \<Rightarrow> nat list \<Rightarrow> nat list \<Rightarrow> bool" where
  "fire_inv ord d P T base s xs ys \<longleftrightarrow> sched_ok d s xs ys \<and> P \<subseteq> set (xs @ ys) \<and> (\<forall>x \<in> P. \<not> m_temporary (nodes s x)) \<and>
     (ord \<longrightarrow> (\<forall>x \<in> set xs. T \<le> expire_of s x)) \<and> wf_time base \<and> m_basetime s = base"

lemma fire_inv_head:
  assumes "fire_inv ord d P T base s xs ys"
  shows "m_timer_list s = Some (hd (xs @ [d]))"
  using assms by (cases xs) (auto simp: fire_inv_def sched_ok_def timer_lists_def)

lemma upd_enabled_ok:
  assumes "sched_ok d s xs ys"
  shows "sched_ok d (upd_tmr t (\<lambda>x. x\<lparr>m_enabled := e\<rparr>) s) xs ys"
proof -
  let ?u = "upd_tmr t (\<lambda>x. x\<lparr>m_enabled := e\<rparr>) s"
  have "timer_lists ?u (xs @ [d]) ys" using assms by - (rule timer_lists_frame [of s], simp_all add: sched_ok_def)
  moreover have e: "expire_of ?u x = expire_of s x" "m_period (tmr (nodes ?u x)) = m_period (tmr (nodes s x))" for x by simp_all
  ultimately show ?thesis using assms unfolding sched_ok_def e upd_tmr_simps(9) by blast
qed

lemma remove_temporary:
  assumes ok: "sched_ok d s xs ys" "t \<in> set (xs @ ys)"
  shows "sched_ok d (reclaim_node t (timer_list_remove t (s\<lparr>nodes := (nodes s)(t := (nodes s t)\<lparr>m_callback := None\<rparr>)\<rparr>))) (remove1 t xs) (remove1 t ys)"
    (is "sched_ok d (reclaim_node t ?r) _ _")
proof -
  let ?u = "s\<lparr>nodes := (nodes s)(t := (nodes s t)\<lparr>m_callback := None\<rparr>)\<rparr>"
  note m = sched_ok_members [OF ok]
  have r1: "remove1 t (xs @ [d]) = remove1 t xs @ [d]" using m(1) by (auto simp: remove1_append remove1_idem)
  have tl: "timer_lists ?u (xs @ [d]) ys" using ok(1) by - (rule timer_lists_frame [of s], simp_all add: sched_ok_def)
  have "t \<in> set ((xs @ [d]) @ ys)" using ok(2) by auto
  from timer_list_remove_lists [OF tl this]
  have r: "timer_lists ?r (remove1 t xs @ [d]) (remove1 t ys)" "same_data ?u ?r" unfolding r1 by blast+
  have e: "tmr (nodes ?r x) = tmr (nodes s x)" for x using r(2) by (simp add: same_data_def)
  have al: "m_timer_allocator ?r = m_timer_allocator s" using r(2) by (simp add: same_data_def)
  have "sorted (map (expire_of s) (remove1 t xs))" using ok(1) by (simp add: sched_ok_def sorted_map_remove1)
  moreover have "timer_lists (reclaim_node t ?r) (remove1 t xs @ [d]) (remove1 t ys)" using r(1) by (simp add: timer_lists_def reclaim_node_def)
  ultimately show ?thesis using ok m e al unfolding sched_ok_def by (auto simp: reclaim_node_def)
qed

text \<open>A firing at \<open>T\<close> whose callback sets timers for later only: every active timer but those that were active before is due after \<open>T\<close>.\<close>

definition stepped :: "nat \<Rightarrow> attotime \<Rightarrow> scheduler \<Rightarrow> nat list \<Rightarrow> scheduler \<Rightarrow> nat list \<Rightarrow> bool" where
  "stepped t T s0 xs0 s xs \<longleftrightarrow> (\<forall>x \<in> set xs. x \<noteq> t \<and> x \<in> set xs0 \<and> expire_of s x = expire_of s0 x \<or> T < expire_of s x)"

text \<open>After a callback: the timer is rescheduled, or reclaimed if it is temporary, unless the callback set it anew.\<close>

lemma after_callback:
  assumes inv: "calls_inv ord k d P t T base s xs ys" "wf_time base"
  shows "\<exists>s' xs' ys'. (if \<not> m_callback_timer_modified s
      then if \<not> m_temporary (nodes s t) then emu_timer_schedule_next_period t s
           else Some (reclaim_node t (timer_list_remove t (s\<lparr>nodes := (nodes s)(t := (nodes s t)\<lparr>m_callback := None\<rparr>)\<rparr>)))
      else Some s) = Some s' \<and> fire_inv ord d P T base s' xs' ys' \<and> unchanged {t} s xs s' xs' \<and>
    (\<forall>s0 xs0. k = Some (s0, xs0) \<longrightarrow> (m_enabled (tmr (nodes s0 t)) \<longrightarrow> attotime_zero < m_period (tmr (nodes s0 t))) \<longrightarrow> stepped t T s0 xs0 s' xs')"
proof -
  have ok: "sched_ok d s xs ys" "t \<in> set (xs @ ys)" and T: "wf_time T" using inv(1) by (auto simp: calls_inv_def)
  note m = sched_ok_members [OF ok]
  consider "m_callback_timer_modified s" | "\<not> m_callback_timer_modified s" "\<not> m_temporary (nodes s t)" | "\<not> m_callback_timer_modified s" "m_temporary (nodes s t)"
    by blast
  then show ?thesis
  proof cases
    case 1
    then have "fire_inv ord d P T base s xs ys" using inv by (simp add: calls_inv_def fire_inv_def)
    moreover have "stepped t T s0 xs0 s xs" if "k = Some (s0, xs0)" for s0 xs0 using inv(1) that 1 by (auto simp: calls_inv_def kept_def stepped_def)
    ultimately show ?thesis using 1 by fastforce
  next
    case 2
    let ?f = schedule_next_period and ?p = "m_period (tmr (nodes s t))"
    have e: "expire_of s t = T" "ok_time ?p" using inv(1) ok 2(1) by (auto simp: calls_inv_def sched_ok_def)
    have f: "ok_time (m_expire (?f (tmr (nodes s t))))" "m_period (?f (tmr (nodes s t))) = ?p" "T \<le> m_expire (?f (tmr (nodes s t)))"
      using add_later [OF T e(2)] e(1) by (simp_all add: schedule_next_period_def)
    obtain xs' ys' where mv: "moved (upd_tmr t ?f s) t xs ys = (xs', ys')" by fastforce
    obtain s' where s': "reinsert t (upd_tmr t ?f s) = Some s'" "same_data (upd_tmr t ?f s) s'" "sched_ok d s' xs' ys'"
      using reinsert_ok [OF ok, of ?f] f e(2) mv by auto
    have mem: "set xs' \<union> set ys' = set (xs @ ys)" using set_moved [OF ok(2) m(2,3), of "upd_tmr t ?f s"] mv by simp
    have "T \<le> expire_of s' x" if "ord" "x \<in> set xs'" for x
      using that mv inv(1) f(3) s'(2) m(2) by (auto simp: moved_def calls_inv_def same_data_def set_insert_sorted split: if_splits)
    then have "fire_inv ord d P T base s' xs' ys'" using inv s'(2,3) mem unfolding calls_inv_def fire_inv_def by (auto simp: same_data_def)
    moreover have "unchanged {t} s xs s' xs'"
      using mv m(2) s'(2) by (auto simp: unchanged_def moved_def set_insert_sorted same_data_def split: if_splits)
    moreover have "stepped t T s0 xs0 s' xs'"
      if "k = Some (s0, xs0)" "m_enabled (tmr (nodes s0 t)) \<longrightarrow> attotime_zero < m_period (tmr (nodes s0 t))" for s0 xs0
    proof -
      have kp: "kept t T s0 xs0 s xs" using inv(1) that(1) by (simp add: calls_inv_def)
      have "T < expire_of s' t" if "t \<in> set xs'"
      proof -
        have "m_enabled (tmr (nodes (upd_tmr t ?f s) t))" using \<open>t \<in> set xs'\<close> mv m(2) by (auto simp: moved_def split: if_splits)
        then have "attotime_zero < ?p" using kp 2(1) \<open>m_enabled (tmr (nodes s0 t)) \<longrightarrow> _\<close> by (simp add: kept_def schedule_next_period_def)
        then show ?thesis using add_strictly_later [OF T e(2)] s'(2) e(1) by (simp add: same_data_def schedule_next_period_def)
      qed
      moreover have "set xs' \<subseteq> insert t (set xs)" using mv m(2) by (auto simp: moved_def set_insert_sorted split: if_splits)
      moreover have "\<forall>x. x \<noteq> t \<longrightarrow> expire_of s' x = expire_of s x" using s'(2) by (simp add: same_data_def)
      ultimately show ?thesis using kp unfolding kept_def stepped_def by (metis insertE subsetD)
    qed
    ultimately show ?thesis using 2 s'(1) by (auto simp: emu_timer_schedule_next_period_def)
  next
    case 3
    let ?u = "s\<lparr>nodes := (nodes s)(t := (nodes s t)\<lparr>m_callback := None\<rparr>)\<rparr>"
    let ?s = "reclaim_node t (timer_list_remove t ?u)"
    have "same_data ?u (timer_list_remove t ?u)"
    proof -
      have tl: "timer_lists ?u (xs @ [d]) ys" using ok(1) by - (rule timer_lists_frame [of s], simp_all add: sched_ok_def)
      have "t \<in> set ((xs @ [d]) @ ys)" using ok(2) by auto
      from timer_list_remove_lists [OF tl this] show ?thesis by blast
    qed
    then have d: "tmr (nodes ?s x) = tmr (nodes s x)" "m_temporary (nodes ?s x) = m_temporary (nodes s x)" "m_basetime ?s = m_basetime s"
      "x \<noteq> t \<Longrightarrow> m_callback (nodes ?s x) = m_callback (nodes s x)" for x
      by (auto simp: same_data_def reclaim_node_def)
    then have "unchanged {t} s xs ?s (remove1 t xs)" by (auto simp: unchanged_def)
    moreover
    have "t \<notin> P" using inv(1) 3(2) by (auto simp: calls_inv_def)
    then have "fire_inv ord d P T base ?s (remove1 t xs) (remove1 t ys)"
      using remove_temporary [OF ok] inv m d unfolding calls_inv_def fire_inv_def by auto
    moreover have "stepped t T s0 xs0 ?s (remove1 t xs)" if "k = Some (s0, xs0)" for s0 xs0
      using inv(1) that m(2) d(1) by (auto simp: calls_inv_def kept_def stepped_def)
    ultimately show ?thesis using 3 by auto
  qed
qed

definition later_callbacks :: "'w callbacks \<Rightarrow> bool" where
  "later_callbacks cbs \<longleftrightarrow> (\<forall>cb p w. \<forall>c \<in> set (fst (cbs cb p w)). later_call c)"

lemma positive_time: "ok_time b \<Longrightarrow> \<not> is_zero b \<Longrightarrow> attotime_zero < b"
  by (auto simp: ok_time_def wf_time_def is_zero_def attotime_zero_def attotime_never_def less_attotime_def attotime_less_def atto_consts)

text \<open>The entry of a firing in the log: which callback is called, and that its calls are those of the entry.\<close>

definition callback_of :: "scheduler \<Rightarrow> nat \<Rightarrow> (nat \<times> int) option" where
  "callback_of s x =
     (if m_enabled (tmr (nodes s x)) then map_option (\<lambda>cb. (cb, m_param (tmr (nodes s x)))) (m_callback (nodes s x)) else None)"

definition callback_effect :: "'w callbacks \<Rightarrow> firing \<Rightarrow> 'w \<Rightarrow> sched_call list \<times> 'w" where
  "callback_effect cbs f w = (case fired_callback f of Some (cb, p) \<Rightarrow> cbs cb p w | None \<Rightarrow> ([], w))"

abbreviation firing_timers :: "firing \<Rightarrow> nat set" where
  "firing_timers f \<equiv> \<Union> (call_timers ` set (fired_calls f))"

lemma fire_head_ok:
  assumes inv: "fire_inv ord d P T base s (t # xs) ys" and cbs: "proper_callbacks P cbs" "ord \<Longrightarrow> orderly_callbacks cbs"
  shows "\<exists>s' w' f xs' ys'. fire_head cbs t (s, w, log) = Some (s', w', log @ [f]) \<and> fire_inv ord d P (expire_of s t) base s' xs' ys' \<and>
    (later_callbacks cbs \<longrightarrow> stepped t (expire_of s t) s xs s' xs') \<and> fired_timer f = t \<and> fired_at f = expire_of s t \<and>
    fired_callback f = callback_of s t \<and> callback_effect cbs f w = (fired_calls f, w') \<and> unchanged (insert t (firing_timers f)) s (t # xs) s' xs'"
proof -
  define u where "u = (if is_zero (m_period (tmr (nodes s t))) \<or> is_never (m_period (tmr (nodes s t)))
    then upd_tmr t (\<lambda>x. x\<lparr>m_enabled := False\<rparr>) s else s)"
  have ok: "sched_ok d u (t # xs) ys" using inv upd_enabled_ok [of d s "t # xs" ys t False] by (simp add: u_def fire_inv_def)
  have e: "expire_of u x = expire_of s x" "m_temporary (nodes u x) = m_temporary (nodes s x)" "m_basetime u = m_basetime s"
    "m_callback (nodes u x) = m_callback (nodes s x)" "m_param (tmr (nodes u x)) = m_param (tmr (nodes s x))" "x \<noteq> t \<Longrightarrow> tmr (nodes u x) = tmr (nodes s x)" for x
    by (simp_all add: u_def)
  define v where "v = u\<lparr>m_callback_timer_modified := False, m_callback_timer := Some t, m_callback_timer_expire_time := expire_of u t\<rparr>"
  define k where "k = (if later_callbacks cbs then Some (v, t # xs) else None)"
  define f0 where "f0 = \<lparr>fired_timer = t, fired_at = expire_of v t, fired_callback = None, fired_calls = []\<rparr>"
  have "sched_ok d v (t # xs) ys" using ok by (simp add: v_def sched_ok_def timer_lists_def)
  moreover have "wf_time (expire_of s t)" "\<forall>x \<in> set (t # xs). expire_of s t \<le> expire_of s x" using inv by (auto simp: fire_inv_def sched_ok_def)
  ultimately have cv: "calls_inv ord k d P t (expire_of s t) base v (t # xs) ys" "wf_time base"
    using inv e unfolding calls_inv_def fire_inv_def k_def kept_def by (auto simp: v_def)
  have uv: "unchanged {t} s (t # xs) v (t # xs)" using e by (auto simp: unchanged_def v_def)
  define body where "body = (case m_callback (nodes v t) of
       Some cb \<Rightarrow> if m_enabled (tmr (nodes s t)) then
           let param = m_param (tmr (nodes v t)); (calls, w') = cbs cb param w
           in map_option (\<lambda>s. (s, w', f0\<lparr>fired_callback := Some (cb, param), fired_calls := calls\<rparr>)) (sched_calls calls v)
         else Some (v, w, f0)
     | None \<Rightarrow> Some (v, w, f0))"
  have "\<exists>s1 w1 f xs1 ys1. body = Some (s1, w1, f) \<and> calls_inv ord k d P t (expire_of s t) base s1 xs1 ys1 \<and>
    fired_timer f = t \<and> fired_at f = expire_of s t \<and> fired_callback f = callback_of s t \<and> callback_effect cbs f w = (fired_calls f, w1) \<and>
    unchanged (firing_timers f) v (t # xs) s1 xs1"
  proof (cases "m_callback (nodes v t) = None \<or> \<not> m_enabled (tmr (nodes s t))")
    case True
    then have "body = Some (v, w, f0)" "fired_callback f0 = callback_of s t"
      using e by (auto simp: body_def f0_def callback_of_def v_def split: option.split)
    moreover have "fired_timer f0 = t" "fired_at f0 = expire_of s t" "fired_calls f0 = []" "callback_effect cbs f0 w = ([], w)"
      using e by (simp_all add: f0_def v_def callback_effect_def)
    ultimately show ?thesis using cv(1) by (metis unchanged_refl)
  next
    case False
    then obtain cb where cb: "m_callback (nodes v t) = Some cb" "m_enabled (tmr (nodes s t))" by auto
    obtain calls w' where c: "cbs cb (m_param (tmr (nodes v t))) w = (calls, w')" by fastforce
    have "\<forall>c \<in> set calls. allowed_call P c \<and> (ord \<longrightarrow> orderly_call c) \<and> (k \<noteq> None \<longrightarrow> later_call c)"
      using cbs c unfolding proper_callbacks_def orderly_callbacks_def later_callbacks_def k_def by (metis fst_conv)
    then obtain s1 xs1 ys1 where s1: "sched_calls calls v = Some s1" "calls_inv ord k d P t (expire_of s t) base s1 xs1 ys1"
        "unchanged (\<Union> (call_timers ` set calls)) v (t # xs) s1 xs1"
      using calls_calls_inv [OF cv(1)] by blast
    define f where "f = f0\<lparr>fired_callback := Some (cb, m_param (tmr (nodes v t))), fired_calls := calls\<rparr>"
    have "body = Some (s1, w', f)" using cb c s1(1) by (simp add: body_def f_def)
    moreover have "fired_callback f = callback_of s t" using cb e by (simp add: f_def callback_of_def v_def)
    moreover have "fired_timer f = t" "fired_at f = expire_of s t" "fired_calls f = calls" "callback_effect cbs f w = (calls, w')"
      using e c by (simp_all add: f_def f0_def v_def callback_effect_def)
    ultimately show ?thesis using s1(2,3) by metis
  qed
  then obtain s1 w1 f xs1 ys1 where c1: "body = Some (s1, w1, f)" "calls_inv ord k d P t (expire_of s t) base s1 xs1 ys1"
    "fired_timer f = t" "fired_at f = expire_of s t" "fired_callback f = callback_of s t" "callback_effect cbs f w = (fired_calls f, w1)"
    "unchanged (firing_timers f) v (t # xs) s1 xs1"
    by blast
  obtain s2 xs2 ys2 where s2: "(if \<not> m_callback_timer_modified s1
      then if \<not> m_temporary (nodes s1 t) then emu_timer_schedule_next_period t s1
           else Some (reclaim_node t (timer_list_remove t (s1\<lparr>nodes := (nodes s1)(t := (nodes s1 t)\<lparr>m_callback := None\<rparr>)\<rparr>)))
      else Some s1) = Some s2" "fire_inv ord d P (expire_of s t) base s2 xs2 ys2" "unchanged {t} s1 xs1 s2 xs2"
      "\<forall>s0 xs0. k = Some (s0, xs0) \<longrightarrow> (m_enabled (tmr (nodes s0 t)) \<longrightarrow> attotime_zero < m_period (tmr (nodes s0 t))) \<longrightarrow> stepped t (expire_of s t) s0 xs0 s2 xs2"
    using after_callback [OF c1(2) cv(2)] by blast
  have "ok_time (m_period (tmr (nodes s t)))" using inv by (simp add: fire_inv_def sched_ok_def)
  then have "m_enabled (tmr (nodes v t)) \<longrightarrow> attotime_zero < m_period (tmr (nodes v t))" by (auto simp: v_def u_def dest: positive_time split: if_splits)
  then have "later_callbacks cbs \<longrightarrow> stepped t (expire_of s t) s xs s2 xs2"
    using s2(4) e(1) by (auto simp: k_def v_def stepped_def)
  moreover have "fire_head cbs t (s, w, log) = Some (s2, w1, log @ [f])"
    unfolding fire_head_def prod.case Let_def u_def [symmetric] v_def [symmetric] f0_def [symmetric]
    unfolding body_def [unfolded Let_def, symmetric] c1(1) Option.bind.bind_lunit prod.case s2(1) by simp
  moreover have "unchanged ({t} \<union> firing_timers f \<union> {t}) s (t # xs) s2 xs2"
    by (rule unchanged_trans [OF unchanged_trans [OF uv c1(7)] s2(3)])
  then have "unchanged (insert t (firing_timers f)) s (t # xs) s2 xs2" by (simp add: insert_commute)
  ultimately show ?thesis using s2(2) c1(3-6) by blast
qed

section \<open>The loop\<close>

text \<open>The first \<open>n\<close> rounds of the loop, fewer if no timer is due before that.\<close>

fun fire_rounds :: "'w callbacks \<Rightarrow> nat \<Rightarrow> 'w fire_state \<Rightarrow> 'w fire_state option" where
  "fire_rounds cbs 0 x = Some x"
| "fire_rounds cbs (Suc n) x =
     (case m_timer_list (fst x) of
        None \<Rightarrow> None
      | Some t \<Rightarrow>
          if expire_of (fst x) t \<le> m_basetime (fst x) then Option.bind (fire_head cbs t x) (fire_rounds cbs n) else Some x)"

lemma execute_loop_rounds:
  "fire_rounds cbs n x = Some y \<Longrightarrow> m_timer_list (fst y) \<noteq> None \<Longrightarrow> \<not> is_due (fst y) \<Longrightarrow> execute_loop cbs x = Some y"
proof (induction n arbitrary: x)
  case 0
  then show ?case by (subst execute_loop.simps) (auto simp: is_due_def)
next
  case (Suc n)
  then show ?case by (subst execute_loop.simps) (auto split: option.splits if_splits simp: Option.bind_eq_Some_conv)
qed

lemma fire_inv_not_due:
  assumes "fire_inv ord d P T base s xs ys" "xs = [] \<or> \<not> expire_of s (hd xs) \<le> base"
  shows "\<exists>t. m_timer_list s = Some t \<and> \<not> expire_of s t \<le> m_basetime s"
proof (cases xs)
  case Nil
  have "expire_of s d = attotime_never" "m_basetime s < attotime_never"
    using assms(1) wf_less_never by (auto simp: fire_inv_def sched_ok_def)
  then show ?thesis using fire_inv_head [OF assms(1)] Nil by (simp add: not_le)
next
  case Cons
  then show ?thesis using fire_inv_head [OF assms(1)] assms by (simp add: fire_inv_def)
qed

lemma execute_loop_split:
  "fire_rounds cbs n x = Some y \<Longrightarrow> execute_loop cbs x = execute_loop cbs y"
proof (induction n arbitrary: x)
  case (Suc n)
  then show ?case by (subst execute_loop.simps) (auto split: option.splits if_splits simp: Option.bind_eq_Some_conv execute_loop.simps [of cbs y])
qed simp

definition fired_in_order :: "bool \<Rightarrow> attotime \<Rightarrow> attotime \<Rightarrow> firing list \<Rightarrow> bool" where
  "fired_in_order ord T base log \<longleftrightarrow>
     (ord \<longrightarrow> sorted (map fired_at log) \<and> (\<forall>f \<in> set log. fired_at f \<le> T)) \<and> (\<forall>f \<in> set log. fired_at f \<le> base)"

lemma fired_in_order_step:
  "fired_in_order ord T base log \<Longrightarrow> (ord \<Longrightarrow> T \<le> e) \<Longrightarrow> e \<le> base \<Longrightarrow> fired_at f = e \<Longrightarrow> fired_in_order ord e base (log @ [f])"
  by (auto simp: fired_in_order_def sorted_append)

text \<open>The callbacks of a log, run one after the other from the state \<open>w\<close> of the devices, make the calls of the log and lead to \<open>w'\<close>.\<close>

fun callbacks_run :: "'w callbacks \<Rightarrow> firing list \<Rightarrow> 'w \<Rightarrow> 'w \<Rightarrow> bool" where
  "callbacks_run cbs [] w w' \<longleftrightarrow> w = w'"
| "callbacks_run cbs (f # fs) w w' \<longleftrightarrow>
     fst (callback_effect cbs f w) = fired_calls f \<and> callbacks_run cbs fs (snd (callback_effect cbs f w)) w'"

lemma fire_rounds_ok:
  assumes "fire_inv ord d P T base s xs ys" "proper_callbacks P cbs" "ord \<Longrightarrow> orderly_callbacks cbs" "fired_in_order ord T base log"
  shows "\<exists>s' w' rest xs' ys' T'. fire_rounds cbs n (s, w, log) = Some (s', w', log @ rest) \<and> fire_inv ord d P T' base s' xs' ys' \<and>
    fired_in_order ord T' base (log @ rest) \<and> callbacks_run cbs rest w w'"
  using assms(1,4)
proof (induction n arbitrary: T s w log xs ys)
  case 0
  have "fire_rounds cbs 0 (s, w, log) = Some (s, w, log @ [])" "callbacks_run cbs [] w w" "fired_in_order ord T base (log @ [])"
    using 0(2) by simp_all
  then show ?case using 0(1) by blast
next
  case (Suc n)
  show ?case
  proof (cases "xs = [] \<or> \<not> expire_of s (hd xs) \<le> base")
    case True
    then obtain t where "m_timer_list s = Some t" "\<not> expire_of s t \<le> m_basetime s" using fire_inv_not_due [OF Suc.prems(1) True] by blast
    then have "fire_rounds cbs (Suc n) (s, w, log) = Some (s, w, log @ [])" by simp
    moreover have "callbacks_run cbs [] w w" "fired_in_order ord T base (log @ [])" using Suc.prems(2) by simp_all
    ultimately show ?thesis using Suc.prems(1) by blast
  next
    case False
    then obtain t zs where xs: "xs = t # zs" and e: "expire_of s t \<le> base" by (cases xs) auto
    have b: "m_basetime s = base" "ord \<Longrightarrow> T \<le> expire_of s t" using Suc.prems(1) xs by (auto simp: fire_inv_def)
    obtain s1 w1 f xs1 ys1 where f: "fire_head cbs t (s, w, log) = Some (s1, w1, log @ [f])" "fire_inv ord d P (expire_of s t) base s1 xs1 ys1"
        "fired_at f = expire_of s t" "callback_effect cbs f w = (fired_calls f, w1)"
      using fire_head_ok [OF Suc.prems(1) [unfolded xs] assms(2,3)] by blast
    obtain s' w' rest xs' ys' T' where r: "fire_rounds cbs n (s1, w1, log @ [f]) = Some (s', w', (log @ [f]) @ rest)"
        "fire_inv ord d P T' base s' xs' ys'" "fired_in_order ord T' base ((log @ [f]) @ rest)" "callbacks_run cbs rest w1 w'"
      using Suc.IH [OF f(2) fired_in_order_step [OF Suc.prems(2) b(2) e f(3)]] by blast
    have "fire_rounds cbs (Suc n) (s, w, log) = Some (s', w', log @ f # rest)" using fire_inv_head [OF Suc.prems(1)] xs e b(1) f(1) r(1) by simp
    moreover have "callbacks_run cbs (f # rest) w w'" using f(4) r(4) by simp
    moreover have "fired_in_order ord T' base (log @ f # rest)" using r(3) by simp
    ultimately show ?thesis using r(2) by blast
  qed
qed

text \<open>What the loop owes to the timers that are active and due in a state: each fires at its time, with its callback, unless a callback
  that runs before sets, enables or disables it.\<close>

definition served :: "scheduler \<Rightarrow> nat list \<Rightarrow> firing list \<Rightarrow> bool" where
  "served s xs log \<longleftrightarrow>
     (\<forall>x \<in> set xs. expire_of s x \<le> m_basetime s \<longrightarrow>
        (\<exists>f \<in> set log. fired_timer f = x \<and> fired_at f = expire_of s x \<and> fired_callback f = callback_of s x) \<or>
        (\<exists>f \<in> set log. x \<in> firing_timers f \<and> fired_at f \<le> expire_of s x))"

lemma served_step:
  assumes "served s1 xs1 rest" "m_basetime s1 = m_basetime s" "unchanged (insert t (firing_timers f)) s (t # zs) s1 xs1"
    and f: "fired_timer f = t" "fired_at f = expire_of s t" "fired_callback f = callback_of s t" "sorted (map (expire_of s) (t # zs))"
  shows "served s (t # zs) (f # rest)"
  unfolding served_def
proof (intro ballI impI)
  fix x assume x: "x \<in> set (t # zs)" "expire_of s x \<le> m_basetime s"
  consider "x = t" | "x \<noteq> t" "x \<in> firing_timers f" | "x \<noteq> t" "x \<notin> firing_timers f" by blast
  then show "(\<exists>g \<in> set (f # rest). fired_timer g = x \<and> fired_at g = expire_of s x \<and> fired_callback g = callback_of s x) \<or>
      (\<exists>g \<in> set (f # rest). x \<in> firing_timers g \<and> fired_at g \<le> expire_of s x)"
  proof cases
    case 1
    then show ?thesis using f by auto
  next
    case 2
    then have "fired_at f \<le> expire_of s x" using x(1) f(2,4) by auto
    then show ?thesis using 2 by auto
  next
    case 3
    then have "x \<in> set xs1" "tmr (nodes s1 x) = tmr (nodes s x)" "m_callback (nodes s1 x) = m_callback (nodes s x)"
      using assms(3) x(1) by (auto simp: unchanged_def)
    moreover from this have "callback_of s1 x = callback_of s x" by (simp add: callback_of_def)
    ultimately show ?thesis using assms(1,2) x(2) unfolding served_def by (metis list.set_intros(2))
  qed
qed

section \<open>The loop ends\<close>

text \<open>How far each due timer is from the base time: a firing replaces an element by smaller ones.\<close>

definition due :: "attotime \<Rightarrow> scheduler \<Rightarrow> nat list \<Rightarrow> nat multiset" where
  "due base s xs = image_mset (\<lambda>x. nat (attos base - attos (expire_of s x) + 1)) (filter_mset (\<lambda>x. expire_of s x \<le> base) (mset xs))"

lemma due_decreases:
  assumes ok: "fire_inv ord d P T base s (t # xs) ys" "fire_inv ord d P T' base s' xs' ys'" and t: "expire_of s t \<le> base"
    and st: "stepped t (expire_of s t) s xs s' xs'"
  shows "(due base s' xs', due base s (t # xs)) \<in> mult less_than"
proof -
  let ?L = "\<lambda>s x. nat (attos base - attos (expire_of s x) + 1)"
  let ?K = "\<lambda>x. x \<noteq> t \<and> x \<in> set xs \<and> expire_of s' x = expire_of s x"
  let ?A = "filter_mset ?K (filter_mset (\<lambda>x. expire_of s' x \<le> base) (mset xs'))"
  let ?B = "filter_mset (\<lambda>x. \<not> ?K x) (filter_mset (\<lambda>x. expire_of s' x \<le> base) (mset xs'))"
  let ?D = "filter_mset (\<lambda>x. expire_of s x \<le> base) (mset xs)"
  have dist: "distinct xs" "distinct xs'" using ok by (auto simp: fire_inv_def sched_ok_def timer_lists_def)
  have wf: "wf_time base" "wf_time (expire_of s t)" "\<And>x. x \<in> set xs' \<Longrightarrow> wf_time (expire_of s' x)"
    using ok by (auto simp: fire_inv_def sched_ok_def)
  have "?A \<subseteq># ?D" using dist by (intro mset_subset_eqI) (auto simp: distinct_count_atmost_1)
  then obtain C where C: "?D = ?A + C" using subset_mset.le_iff_add by blast
  have "due base s' xs' = image_mset (?L s') ?A + image_mset (?L s') ?B"
    unfolding due_def by (subst multiset_partition [of _ ?K]) (simp only: image_mset_union)
  also have "image_mset (?L s') ?A = image_mset (?L s) ?A" by (intro image_mset_cong) auto
  finally have l: "due base s' xs' = image_mset (?L s) ?A + image_mset (?L s') ?B" .
  have r: "due base s (t # xs) = image_mset (?L s) ?A + add_mset (?L s t) (image_mset (?L s) C)"
    using t C by (simp add: due_def)
  have "?L s' x < ?L s t" if "x \<in># ?B" for x
  proof -
    have x: "x \<in> set xs'" "expire_of s' x \<le> base" "expire_of s t < expire_of s' x" using that st by (auto simp: stepped_def)
    then have "attos (expire_of s t) < attos (expire_of s' x)" "\<not> attos base < attos (expire_of s' x)"
      using less_by_order [OF wf(2) wf(3) [OF x(1)]] less_by_order [OF wf(1) wf(3) [OF x(1)]] by auto
    then show ?thesis by linarith
  qed
  then show ?thesis unfolding l r by (intro one_step_implies_mult) auto
qed

lemma execute_loop_ends:
  assumes "fire_inv True d P T base s xs ys" "proper_callbacks P cbs" "later_callbacks cbs" "fired_in_order True T base log"
  shows "\<exists>s' w' rest xs' ys' T'. execute_loop cbs (s, w, log) = Some (s', w', log @ rest) \<and> fire_inv True d P T' base s' xs' ys' \<and>
    fired_in_order True T' base (log @ rest) \<and> \<not> is_due s' \<and> callbacks_run cbs rest w w' \<and> served s xs rest"
  using assms(1,4)
proof (induction "due base s xs" arbitrary: T s w log xs ys rule: wf_induct_rule [OF wf_mult [OF wf_less_than]])
  case 1
  show ?case
  proof (cases "xs = [] \<or> \<not> expire_of s (hd xs) \<le> base")
    case True
    from fire_inv_not_due [OF "1.prems"(1) this] have n: "m_timer_list s \<noteq> None" "\<not> is_due s" by (auto simp: is_due_def)
    then have "execute_loop cbs (s, w, log) = Some (s, w, log @ [])" using execute_loop_rounds [of cbs 0 "(s, w, log)"] by simp
    moreover have "sorted (map (expire_of s) xs)" "m_basetime s = base" using "1.prems"(1) by (simp_all add: fire_inv_def sched_ok_def)
    then have "served s xs []" using True by (cases xs) (auto simp: served_def)
    moreover have "callbacks_run cbs [] w w" "fired_in_order True T base (log @ [])" using "1.prems"(2) by simp_all
    ultimately show ?thesis using "1.prems"(1) n(2) by blast
  next
    case False
    then obtain t zs where xs: "xs = t # zs" and e: "expire_of s t \<le> base" by (cases xs) auto
    have b: "m_basetime s = base" "T \<le> expire_of s t" "sorted (map (expire_of s) (t # zs))" using "1.prems"(1) xs by (auto simp: fire_inv_def sched_ok_def)
    have o: "orderly_callbacks cbs" using assms(3) later_orderly by (auto simp: orderly_callbacks_def later_callbacks_def)
    obtain s1 w1 f xs1 ys1 where f: "fire_head cbs t (s, w, log) = Some (s1, w1, log @ [f])" "fire_inv True d P (expire_of s t) base s1 xs1 ys1"
        "stepped t (expire_of s t) s zs s1 xs1" "fired_timer f = t" "fired_at f = expire_of s t" "fired_callback f = callback_of s t"
        "callback_effect cbs f w = (fired_calls f, w1)" "unchanged (insert t (firing_timers f)) s (t # zs) s1 xs1"
      using fire_head_ok [OF "1.prems"(1) [unfolded xs] assms(2) o] assms(3) by blast
    have "(due base s1 xs1, due base s xs) \<in> mult less_than" unfolding xs by (rule due_decreases [OF "1.prems"(1) [unfolded xs] f(2) e f(3)])
    from "1.hyps" [OF this f(2) fired_in_order_step [OF "1.prems"(2) b(2) e f(5)]]
    obtain s' w' rest xs' ys' T' where r: "execute_loop cbs (s1, w1, log @ [f]) = Some (s', w', (log @ [f]) @ rest)"
        "fire_inv True d P T' base s' xs' ys'" "fired_in_order True T' base ((log @ [f]) @ rest)" "\<not> is_due s'" "callbacks_run cbs rest w1 w'"
        "served s1 xs1 rest"
      by blast
    have "execute_loop cbs (s, w, log) = Some (s', w', log @ f # rest)"
      using fire_inv_head [OF "1.prems"(1)] xs e b(1) f(1) r(1) by (subst execute_loop.simps) simp
    moreover have "m_basetime s1 = m_basetime s" using f(2) b(1) by (simp add: fire_inv_def)
    then have "served s xs (f # rest)" unfolding xs by (rule served_step [OF r(6) _ f(8,4,5,6) b(3)])
    moreover have "callbacks_run cbs (f # rest) w w'" using f(7) r(5) by simp
    moreover have "fired_in_order True T' base (log @ f # rest)" using r(3) by simp
    ultimately show ?thesis using r(2,4) by blast
  qed
qed

section \<open>Properties\<close>

lemma fire_inv_start:
  assumes "sched_ok d s xs ys" "P \<subseteq> set (xs @ ys)" "\<forall>x \<in> P. \<not> m_temporary (nodes s x)" "wf_time (m_basetime s)"
  shows "fire_inv ord d P attotime_zero (m_basetime s) s xs ys" "fired_in_order ord attotime_zero (m_basetime s) []"
proof -
  have "attotime_zero \<le> t" if "wf_time t" for t
    using that less_by_order [of t attotime_zero] wf_time_attos [OF that]
    by (auto simp: not_less [symmetric] wf_time_def attotime_zero_def attos_def atto_consts)
  then show "fire_inv ord d P attotime_zero (m_basetime s) s xs ys" using assms by (auto simp: fire_inv_def sched_ok_def)
qed (simp add: fired_in_order_def)

text \<open>A scheduler for the examples: the timer 1 fires every second from second 1 on, the timer 2 is not set, the timer 0 never fires. The time is second 2.\<close>

definition example_node :: "nat \<Rightarrow> timer_node" where
  "example_node t =
     \<lparr>m_next = (if t = 1 then Some 0 else None), m_prev = (if t = 0 then Some 1 else None), m_callback = (if t = 0 then None else Some t),
      m_temporary = (t = 0), m_index = 0,
      tmr = \<lparr>m_param = 0, m_enabled = (t = 1), m_period = (if t = 1 then Attotime 1 0 else attotime_never), m_start = attotime_zero,
            m_expire = (if t = 1 then Attotime 1 0 else attotime_never)\<rparr>\<rparr>"

definition example_scheduler :: scheduler where
  "example_scheduler =
     \<lparr>nodes = example_node, m_timer_list = Some 1, m_inactive_timers = Some 2, m_timer_allocator = ([], 3), m_basetime = Attotime 2 0,
      m_executing_device = None, m_callback_timer = None, m_callback_timer_modified = False, m_callback_timer_expire_time = attotime_zero\<rparr>"

text \<open>The callback of the timer 1 sets the timer 2 for half a second later.\<close>

definition example_callbacks :: "unit callbacks" where
  "example_callbacks cb p w = (if cb = 1 then [Call_adjust 2 (Attotime 0 500000000000000000) 0 attotime_never] else [], w)"

lemma example_calls: "callbacks_run example_callbacks log w w' \<Longrightarrow> f \<in> set log \<Longrightarrow> firing_timers f \<subseteq> {2}"
proof (induction log arbitrary: w)
  case (Cons g log)
  have "firing_timers g \<subseteq> {2}" if "fst (callback_effect example_callbacks g w) = fired_calls g"
    using that [symmetric] by (auto simp: callback_effect_def example_callbacks_def split: option.splits if_splits)
  then show ?case using Cons by auto
qed simp

lemma example_scheduler_ok:
  "sched_ok 0 example_scheduler [1] [2]" "{1, 2} \<subseteq> set ([1] @ [2::nat])" "\<forall>x \<in> {1, 2}. \<not> m_temporary (nodes example_scheduler x)"
  "wf_time (m_basetime example_scheduler)" "proper_callbacks {1, 2} example_callbacks" "later_callbacks example_callbacks"
  "orderly_callbacks example_callbacks"
  by (auto simp: orderly_callbacks_def sched_ok_def timer_lists_def example_scheduler_def example_node_def ok_time_def wf_time_def atto_consts proper_callbacks_def later_callbacks_def
      example_callbacks_def less_attotime_def attotime_less_def attotime_zero_def)

text \<open>C17. Setting a timer takes it out of its list and puts it where its new time belongs: behind every active timer that expires no
  later, so that timers due at the same time fire in the order they were set, or in the inactive list if it never expires. The pointers of both
  lists stay consistent, the loop that looks for the place ends, and no other timer changes.\<close>

theorem emu_timer_adjust_refines:
  assumes "sched_ok d s xs ys" "t \<in> set (xs @ ys)" "wf_time (time s)" "m_seconds delay < 0 \<or> ok_time delay" "ok_time period"
  defines "e \<equiv> attotime_add (time s) (if m_seconds delay < 0 then attotime_zero else delay)"
  shows "\<exists>s'. emu_timer_adjust t delay param period s = Some s' \<and>
    sched_ok d s' (if is_never e then remove1 t xs
                   else takeWhile (\<lambda>x. expire_of s x \<le> e) (remove1 t xs) @ t # dropWhile (\<lambda>x. expire_of s x \<le> e) (remove1 t xs))
                  (if is_never e then t # remove1 t ys else remove1 t ys) \<and>
    tmr (nodes s' t) = \<lparr>m_param = param, m_enabled = True, m_period = period, m_start = time s, m_expire = e\<rparr> \<and>
    (\<forall>x. x \<noteq> t \<longrightarrow> tmr (nodes s' x) = tmr (nodes s x))"
proof -
  define f where "f = timer_adjust (time s) delay param period"
  define s1 where "s1 = (if m_callback_timer s = Some t then s\<lparr>m_callback_timer_modified := True\<rparr> else s)"
  have n: "nodes s1 = nodes s" by (simp add: s1_def)
  have fx: "f x = \<lparr>m_param = param, m_enabled = True, m_period = period, m_start = time s, m_expire = e\<rparr>" for x
    by (cases x) (simp add: f_def timer_adjust_def Let_def e_def)
  have ok: "sched_ok d s1 xs ys" using assms(1) by (simp add: s1_def sched_ok_def timer_lists_def)
  have "ok_time (if m_seconds delay < 0 then attotime_zero else delay)"
    using assms(4) by (auto simp: ok_time_def wf_time_def attotime_zero_def atto_consts)
  then have "ok_time e" using add_later(1) [OF assms(3)] by (simp add: e_def)
  then obtain s' where s': "reinsert t (upd_tmr t f s1) = Some s'" "same_data (upd_tmr t f s1) s'"
      "sched_ok d s' (fst (moved (upd_tmr t f s1) t xs ys)) (snd (moved (upd_tmr t f s1) t xs ys))"
    using reinsert_ok [OF ok assms(2), of f] assms(5) by (auto simp: fx)
  have w: "takeWhile (\<lambda>x. x \<noteq> t \<longrightarrow> \<not> e < expire_of s x) zs = takeWhile (\<lambda>x. expire_of s x \<le> e) zs"
    "dropWhile (\<lambda>x. x \<noteq> t \<longrightarrow> \<not> e < expire_of s x) zs = dropWhile (\<lambda>x. expire_of s x \<le> e) zs" if "t \<notin> set zs" for zs
    using that by (induction zs) (auto simp: not_less)
  have "t \<notin> set (remove1 t xs)" using sched_ok_members(2) [OF ok assms(2)] by simp
  then have "moved (upd_tmr t f s1) t xs ys =
     (if is_never e then remove1 t xs
      else takeWhile (\<lambda>x. expire_of s x \<le> e) (remove1 t xs) @ t # dropWhile (\<lambda>x. expire_of s x \<le> e) (remove1 t xs),
      if is_never e then t # remove1 t ys else remove1 t ys)"
    using w by (simp add: moved_def insert_sorted_def insert_here_def n fx)
  moreover have "tmr (nodes s' x) = (if x = t then f (tmr (nodes s t)) else tmr (nodes s x))" for x using s'(2) n by (simp add: same_data_def)
  ultimately show ?thesis using s'(1,3) by (simp add: emu_timer_adjust_def f_def [symmetric] s1_def [symmetric] fx)
qed

theorem emu_timer_adjust_refines_witness:
  "\<exists>s'. emu_timer_adjust 2 (Attotime 0 1) 5 attotime_never example_scheduler = Some s' \<and> sched_ok 0 s' [1, 2] []"
  using emu_timer_adjust_refines [OF example_scheduler_ok(1), of 2 "Attotime 0 1" attotime_never 5]
  by (auto simp: example_scheduler_def example_node_def time_def wf_time_def ok_time_def atto_consts attotime_add_def is_never_def attotime_never_def
      less_eq_attotime_def attotime_le_def)



text \<open>C15. If callbacks set timers for a later time only, the loop ends, and then no timer is due. Every timer was served: in every state
  that the loop goes through, each timer that is active and due then, also one that a callback has set, fires later in the loop at the time
  it expires with its callback called, unless a callback that runs before that sets or disables it. The callbacks ran in the order of
  the times, each on the state the one before it left.\<close>

theorem execute_timers_ends:
  assumes "sched_ok d s xs ys" "P \<subseteq> set (xs @ ys)" "\<forall>x \<in> P. \<not> m_temporary (nodes s x)" "wf_time (m_basetime s)" "proper_callbacks P cbs" "later_callbacks cbs"
  shows "\<exists>s' w' log xs' ys'. execute_timers cbs s w = Some (s', w', log) \<and> sched_ok d s' xs' ys' \<and> (\<forall>x \<in> set xs'. m_basetime s < expire_of s' x) \<and>
    m_callback_timer s' = None \<and> sorted (map fired_at log) \<and> (\<forall>f \<in> set log. fired_at f \<le> m_basetime s) \<and> callbacks_run cbs log w w' \<and>
    (\<forall>n sn wn ln. fire_rounds cbs n (s, w, []) = Some (sn, wn, ln) \<longrightarrow>
       (\<exists>xsn ysn rest. log = ln @ rest \<and> sched_ok d sn xsn ysn \<and> served sn xsn rest))"
proof -
  note F = fire_inv_start [OF assms(1-4), of True]
  have o: "orderly_callbacks cbs" using assms(6) later_orderly by (auto simp: orderly_callbacks_def later_callbacks_def)
  obtain s' w' log xs' ys' T' where r: "execute_loop cbs (s, w, []) = Some (s', w', [] @ log)" "fire_inv True d P T' (m_basetime s) s' xs' ys'"
      "fired_in_order True T' (m_basetime s) ([] @ log)" "\<not> is_due s'" "callbacks_run cbs log w w'"
    using execute_loop_ends [OF F(1) assms(5,6) F(2)] by blast
  have ok: "sched_ok d s' xs' ys'" "m_basetime s' = m_basetime s" using r(2) by (simp_all add: fire_inv_def)
  have "m_basetime s < expire_of s' x" if "x \<in> set xs'" for x
  proof -
    have "m_timer_list s' = Some (hd xs')" using fire_inv_head [OF r(2)] that by (cases xs') auto
    then have "m_basetime s < expire_of s' (hd xs')" using r(4) ok(2) by (simp add: is_due_def)
    also have "expire_of s' (hd xs') \<le> expire_of s' x" using ok(1) that by (cases xs') (auto simp: sched_ok_def)
    finally show ?thesis .
  qed
  moreover have "\<exists>xsn ysn rest. log = ln @ rest \<and> sched_ok d sn xsn ysn \<and> served sn xsn rest"
    if n: "fire_rounds cbs n (s, w, []) = Some (sn, wn, ln)" for n sn wn ln
  proof -
    obtain xsn ysn Tn where i: "fire_inv True d P Tn (m_basetime s) sn xsn ysn" "fired_in_order True Tn (m_basetime s) ln"
      using fire_rounds_ok [OF F(1) assms(5) o F(2), of n w] n by auto
    obtain rest where "execute_loop cbs (sn, wn, ln) = Some (s', w', ln @ rest)" "served sn xsn rest"
      using execute_loop_ends [OF i(1) assms(5,6) i(2), of wn] r(1) execute_loop_split [OF n] by auto
    then show ?thesis using r(1) execute_loop_split [OF n] i(1) by (auto simp: fire_inv_def)
  qed
  moreover have "sched_ok d (s'\<lparr>m_callback_timer := None\<rparr>) xs' ys'" using ok(1) by (simp add: sched_ok_def timer_lists_def)
  moreover have "execute_timers cbs s w = Some (s'\<lparr>m_callback_timer := None\<rparr>, w', log)" using r(1) by (simp add: execute_timers_def)
  moreover have "sorted (map fired_at log)" "\<forall>f \<in> set log. fired_at f \<le> m_basetime s" using r(3) by (auto simp: fired_in_order_def)
  ultimately show ?thesis using r(5) by (intro exI [of _ "s'\<lparr>m_callback_timer := None\<rparr>"] exI [of _ w'] exI [of _ log] exI [of _ xs'] exI [of _ ys']) simp
qed

text \<open>In the example, the timer 1 fires at second 1, and its callback is called.\<close>

theorem execute_timers_ends_witness:
  "\<exists>s' log. execute_timers example_callbacks example_scheduler () = Some (s', (), log) \<and>
    (\<exists>f \<in> set log. fired_timer f = 1 \<and> fired_at f = Attotime 1 0 \<and> fired_callback f = Some (1, 0))"
proof -
  obtain s' w' log xs' ys' where e: "execute_timers example_callbacks example_scheduler () = Some (s', w', log)"
      "\<exists>xsn ysn rest. log = [] @ rest \<and> sched_ok 0 example_scheduler xsn ysn \<and> served example_scheduler xsn rest"
      "callbacks_run example_callbacks log () w'"
    using execute_timers_ends [OF example_scheduler_ok(1-6), of "()"] fire_rounds.simps(1) [of example_callbacks "(example_scheduler, (), [])"] by blast
  then obtain xsn ysn where x: "sched_ok 0 example_scheduler xsn ysn" "served example_scheduler xsn log" by auto
  have "1 \<in> set xsn"
    using x(1) by (cases xsn) (auto simp: sched_ok_def timer_lists_def example_scheduler_def)
  moreover have "expire_of example_scheduler 1 = Attotime 1 0" "m_basetime example_scheduler = Attotime 2 0" "callback_of example_scheduler 1 = Some (1, 0)"
    by (simp_all add: example_scheduler_def example_node_def callback_of_def)
  moreover have "Attotime 1 0 \<le> Attotime 2 0" by (simp add: less_eq_attotime_def attotime_le_def)
  ultimately have "(\<exists>f \<in> set log. fired_timer f = 1 \<and> fired_at f = Attotime 1 0 \<and> fired_callback f = Some (1, 0)) \<or> (\<exists>f \<in> set log. 1 \<in> firing_timers f)"
    using x(2) unfolding served_def by fastforce
  moreover have "1 \<notin> firing_timers f" if "f \<in> set log" for f
  proof
    assume "1 \<in> firing_timers f"
    then have "(1::nat) \<in> {2}" by (rule subsetD [OF example_calls [OF e(3) that]])
    then show False by simp
  qed
  ultimately have "\<exists>f \<in> set log. fired_timer f = 1 \<and> fired_at f = Attotime 1 0 \<and> fired_callback f = Some (1, 0)" by blast
  moreover have "execute_timers example_callbacks example_scheduler () = Some (s', (), log)" using e(1) by simp
  ultimately show ?thesis by blast
qed

end
