(* ===== verification/Scheduler_Save.thy ===== *)
theory Scheduler_Save
  imports Scheduler "HOL-Library.Product_Lexorder"
begin

text \<open>
  The constructor of the scheduler and its part in save states: \<^verbatim>\<open>can_save\<close>, \<^verbatim>\<open>presave\<close>, which numbers the active timers, and
  \<^verbatim>\<open>postload\<close>, which takes all timers out of their lists and puts them back by the time and number that were loaded.
\<close>

section \<open>Operations\<close>

text \<open>A timer that never expires is taken out of the inactive list, where it lands, and becomes the active list.\<close>

definition device_scheduler :: "(nat \<Rightarrow> timer_node) \<Rightarrow> scheduler option" where
  "device_scheduler mem = do {
     let (t, s) = alloc_node \<lparr>nodes = mem, m_timer_list = None, m_inactive_timers = None, m_timer_allocator = ([], 0), m_basetime = attotime_zero,
                      m_executing_device = None, m_callback_timer = None, m_callback_timer_modified = False, m_callback_timer_expire_time = attotime_zero\<rparr>;
     s \<leftarrow> emu_timer_init None attotime_never 0 True t s;
     Some ((timer_list_remove t s)\<lparr>m_timer_list := Some t\<rparr>)
   }"

partial_function (option) can_save_loop :: "nat option \<Rightarrow> scheduler \<Rightarrow> bool option" where
  "can_save_loop timer s =
     (case timer of
        None \<Rightarrow> Some True
      | Some t \<Rightarrow> if m_temporary (nodes s t) \<and> \<not> is_never (expire_of s t) then Some False else can_save_loop (m_next (nodes s t)) s)"

definition can_save :: "scheduler \<Rightarrow> bool option" where
  "can_save s = can_save_loop (m_timer_list s) s"

definition set_index :: "nat \<Rightarrow> nat \<Rightarrow> scheduler \<Rightarrow> scheduler" where
  "set_index t i s = s\<lparr>nodes := (nodes s)(t := (nodes s t)\<lparr>m_index := i\<rparr>)\<rparr>"

partial_function (option) presave_loop :: "nat \<Rightarrow> nat option \<Rightarrow> scheduler \<Rightarrow> scheduler option" where
  "presave_loop index timer s =
     (case timer of
        None \<Rightarrow> Some s
      | Some t \<Rightarrow> let s = set_index t index s in presave_loop ((index + 1) mod 2 ^ 32) (m_next (nodes s t)) s)"

definition presave :: "scheduler \<Rightarrow> scheduler option" where
  "presave s = presave_loop 0 (m_timer_list s) s"

text \<open>The private list is linked by the next pointers of its nodes.\<close>

partial_function (option) take_inactive :: "nat option \<times> scheduler \<Rightarrow> (nat option \<times> scheduler) option" where
  "take_inactive x =
     (case m_inactive_timers (snd x) of
        None \<Rightarrow> Some x
      | Some t \<Rightarrow> take_inactive (Some t, set_next t (fst x) (timer_list_remove t (snd x))))"

partial_function (option) take_active :: "nat option \<times> scheduler \<Rightarrow> (nat option \<times> scheduler) option" where
  "take_active x =
     (case m_timer_list (snd x) of
        None \<Rightarrow> None
      | Some t \<Rightarrow>
          if m_next (nodes (snd x) t) = None then Some x
          else if m_temporary (nodes (snd x) t)
          then take_active (fst x, reclaim_node t (timer_list_remove t
                 ((snd x)\<lparr>nodes := (nodes (snd x))(t := (nodes (snd x) t)\<lparr>m_callback := None\<rparr>)\<rparr>)))
          else take_active (Some t, set_next t (fst x) (timer_list_remove t (snd x))))"

partial_function (option) put_back :: "nat option \<times> scheduler \<Rightarrow> scheduler option" where
  "put_back x =
     (case fst x of
        None \<Rightarrow> Some (snd x)
      | Some t \<Rightarrow> Option.bind (timer_list_insert True t (snd x)) (\<lambda>s. put_back (m_next (nodes (snd x) t), s)))"

text \<open>The list of executing devices, which is rebuilt too, is not part of this state.\<close>

definition postload :: "scheduler \<Rightarrow> scheduler option" where
  "postload s = do {
     x \<leftarrow> take_inactive (None, s);
     x \<leftarrow> take_active x;
     put_back x
   }"

section \<open>The constructor\<close>

lemma device_scheduler_ok: "\<exists>s. device_scheduler mem = Some s \<and> sched_ok 0 s [] [] \<and> m_basetime s = attotime_zero"
  by (simp add: device_scheduler_def alloc_node_def emu_timer_init_def timer_init_def Let_def attotime_add_def timer_list_insert_def is_never_def
      attotime_never_def set_next_def set_prev_def timer_list_remove_def sched_ok_def timer_lists_def)

section \<open>Framing\<close>

lemma timer_list_remove_frame:
  assumes "timer_lists s xs ys" "t \<in> set (xs @ ys)" "x \<notin> set (xs @ ys) \<or> x = t"
  shows "nodes (timer_list_remove t s) x = nodes s x"
proof -
  obtain zs H q where z: "seg (nodes s) None H zs q None" "distinct zs" "t \<in> set zs" "set zs \<subseteq> set (xs @ ys)"
    using assms(1,2) by (auto simp: timer_lists_def)
  obtain as bs where ab: "zs = as @ t # bs" using z(3) by (meson split_list)
  note n = not_adjacent [OF z(1,2) [unfolded ab] option.distinct(1)]
  have "as \<noteq> [] \<Longrightarrow> last as \<in> set (xs @ ys) \<and> last as \<noteq> t" "bs \<noteq> [] \<Longrightarrow> hd bs \<in> set (xs @ ys) \<and> hd bs \<noteq> t"
  proof -
    have "last as \<in> set as" if "as \<noteq> []" using that by simp
    moreover have "hd bs \<in> set bs" if "bs \<noteq> []" using that by simp
    moreover have "set as \<subseteq> set (xs @ ys)" "set bs \<subseteq> set (xs @ ys)" "t \<notin> set as" "t \<notin> set bs" using z(2,4) unfolding ab by auto
    ultimately show "as \<noteq> [] \<Longrightarrow> last as \<in> set (xs @ ys) \<and> last as \<noteq> t" "bs \<noteq> [] \<Longrightarrow> hd bs \<in> set (xs @ ys) \<and> hd bs \<noteq> t" by blast+
  qed
  then have "Some x \<noteq> m_prev (nodes s t)" "Some x \<noteq> m_next (nodes s t)"
    using assms(3) unfolding n(3,4) by (auto split: if_splits)
  then show ?thesis by (simp add: timer_list_remove_nodes(1) [OF n(1,2)])
qed

lemma timer_list_insert_frame:
  assumes "timer_lists s xs ys" "t \<notin> set (xs @ ys)" "timer_list_insert ci t s = Some s'" "x \<notin> set (xs @ t # ys)"
  shows "nodes s' x = nodes s x"
proof (cases "is_never (expire_of s t) \<or> \<not> m_enabled (tmr (nodes s t))")
  case True
  obtain r where r: "seg (nodes s) None (m_inactive_timers s) ys r None" using assms(1) by (auto simp: timer_lists_def)
  then have "m_inactive_timers s \<noteq> Some x" using assms(4) by (cases ys) auto
  then show ?thesis using assms(3,4) True by (auto simp: timer_list_insert_def Let_def split: option.splits)
next
  case False
  obtain q where q: "seg (nodes s) None (m_timer_list s) xs q None" using assms(1) by (auto simp: timer_lists_def)
  have "distinct ([] @ xs)" "t \<notin> set ([] @ xs)" using assms(1,2) by (auto simp: timer_lists_def)
  from insert_loop_lists [OF _ q this, of ci] show ?thesis
    using False assms(3,4) by (auto simp: timer_list_insert_def Let_def)
qed

section \<open>The loops\<close>

text \<open>A list linked by the next pointers only.\<close>

fun chain :: "(nat \<Rightarrow> timer_node) \<Rightarrow> nat option \<Rightarrow> nat list \<Rightarrow> bool" where
  "chain h p [] \<longleftrightarrow> p = None"
| "chain h p (x # xs) \<longleftrightarrow> p = Some x \<and> chain h (m_next (h x)) xs"

lemma chain_frame: "chain h p ps \<Longrightarrow> (\<And>x. x \<in> set ps \<Longrightarrow> m_next (h' x) = m_next (h x)) \<Longrightarrow> chain h' p ps"
  by (induction ps arbitrary: p) auto

lemma timer_lists_other:
  assumes "timer_lists s xs ys" "\<And>x. x \<in> set (xs @ ys) \<Longrightarrow> nodes s' x = nodes s x"
    "m_timer_list s' = m_timer_list s" "m_inactive_timers s' = m_inactive_timers s"
  shows "timer_lists s' xs ys"
proof -
  obtain q r where "seg (nodes s) None (m_timer_list s) xs q None" "seg (nodes s) None (m_inactive_timers s) ys r None"
    using assms(1) by (auto simp: timer_lists_def)
  then have "seg (nodes s') None (m_timer_list s') xs q None" "seg (nodes s') None (m_inactive_timers s') ys r None"
    unfolding assms(3,4) by - (rule seg_other; simp add: assms(2))+
  then show ?thesis using assms(1) by (auto simp: timer_lists_def)
qed

text \<open>Moving a timer from its list to the private list.\<close>

lemma take_one:
  assumes "timer_lists s xs ys" "t \<in> set (xs @ ys)" "chain (nodes s) pr ps" "distinct (xs @ ys @ ps)"
  defines "s' \<equiv> set_next t pr (timer_list_remove t s)"
  shows "timer_lists s' (remove1 t xs) (remove1 t ys)" "chain (nodes s') (Some t) (t # ps)" "same_data s s'"
proof -
  note r = timer_list_remove_lists [OF assms(1,2)]
  show sd: "same_data s s'" unfolding s'_def using r same_data_trans set_next_simps(4) by blast
  have "t \<notin> set (remove1 t xs @ remove1 t ys)" using assms(4) by auto
  then show "timer_lists s' (remove1 t xs) (remove1 t ys)"
    using r by - (rule timer_lists_other [of "timer_list_remove t s"]; auto simp: s'_def)
  have "m_next (nodes s' x) = m_next (nodes s x)" if "x \<in> set ps" for x
  proof -
    have "x \<notin> set (xs @ ys)" using that assms(4) by auto
    then show ?thesis using timer_list_remove_frame [OF assms(1,2), of x] assms(2) by (auto simp: s'_def)
  qed
  then show "chain (nodes s') (Some t) (t # ps)" using chain_frame [OF assms(3), of "nodes s'"] by (simp add: s'_def)
qed

lemma take_inactive_ok:
  "timer_lists s xs ys \<Longrightarrow> chain (nodes s) pr ps \<Longrightarrow> distinct (xs @ ys @ ps) \<Longrightarrow>
   \<exists>pr' s'. take_inactive (pr, s) = Some (pr', s') \<and> timer_lists s' xs [] \<and> chain (nodes s') pr' (rev ys @ ps) \<and> same_data s s'"
proof (induction ys arbitrary: s pr ps)
  case Nil
  then have "m_inactive_timers s = None" by (auto simp: timer_lists_def)
  then have "take_inactive (pr, s) = Some (pr, s)" by (subst take_inactive.simps) simp
  then show ?case using Nil by (simp add: same_data_def)
next
  case (Cons y ys)
  have h: "m_inactive_timers s = Some y" "y \<notin> set xs" using Cons.prems by (auto simp: timer_lists_def)
  note o = take_one [OF Cons.prems(1) _ Cons.prems(2,3), of y]
  define u where "u = set_next y pr (timer_list_remove y s)"
  have u: "timer_lists u xs ys" "chain (nodes u) (Some y) (y # ps)" "same_data s u"
    using o h(2) unfolding u_def [symmetric] by (simp_all del: chain.simps add: remove1_idem)
  have "take_inactive (pr, s) = take_inactive (Some y, u)" unfolding u_def using h(1) by (subst take_inactive.simps) simp
  moreover have "distinct (xs @ ys @ y # ps)" using Cons.prems(3) by auto
  from Cons.IH [OF u(1,2) this] obtain pr' s' where "take_inactive (Some y, u) = Some (pr', s')" "timer_lists s' xs []"
      "chain (nodes s') pr' (rev ys @ y # ps)" "same_data u s'" by blast
  ultimately show ?case using same_data_trans [OF u(3)] by simp
qed

text \<open>The data of timers up to the callbacks of temporary ones.\<close>

definition same_timers :: "scheduler \<Rightarrow> scheduler \<Rightarrow> bool" where
  "same_timers s s' \<longleftrightarrow> (\<forall>x. tmr (nodes s' x) = tmr (nodes s x) \<and> m_temporary (nodes s' x) = m_temporary (nodes s x) \<and> m_index (nodes s' x) = m_index (nodes s x) \<and>
     (\<not> m_temporary (nodes s x) \<longrightarrow> m_callback (nodes s' x) = m_callback (nodes s x))) \<and> m_basetime s' = m_basetime s"

lemma same_timers_data: "same_data s s' \<Longrightarrow> same_timers s s'"
  by (simp add: same_data_def same_timers_def)

lemma same_timers_trans: "same_timers s s1 \<Longrightarrow> same_timers s1 s2 \<Longrightarrow> same_timers s s2"
  by (simp add: same_timers_def)

lemma take_active_ok:
  "timer_lists s (xs @ [d]) [] \<Longrightarrow> chain (nodes s) pr ps \<Longrightarrow> distinct (xs @ d # ps) \<Longrightarrow>
   \<exists>pr' s'. take_active (pr, s) = Some (pr', s') \<and> timer_lists s' [d] [] \<and> chain (nodes s') pr' (rev (filter (\<lambda>x. \<not> m_temporary (nodes s x)) xs) @ ps) \<and>
     same_timers s s' \<and> m_timer_allocator s' = (fst (m_timer_allocator s) @ filter (\<lambda>x. m_temporary (nodes s x)) xs, snd (m_timer_allocator s))"
proof (induction xs arbitrary: s pr ps)
  case Nil
  then have "m_timer_list s = Some d" "m_next (nodes s d) = None" by (auto simp: timer_lists_def)
  then have "take_active (pr, s) = Some (pr, s)" by (subst take_active.simps) simp
  then show ?case using Nil by (simp add: same_timers_def)
next
  case (Cons x xs)
  have h: "m_timer_list s = Some x" "m_next (nodes s x) \<noteq> None" using Cons.prems by (cases xs; auto simp: timer_lists_def)+
  have xin: "x \<in> set (((x # xs) @ [d]) @ [])" by simp
  have dist: "distinct (((x # xs) @ [d]) @ [] @ ps)" using Cons.prems(3) by simp
  show ?case
  proof (cases "m_temporary (nodes s x)")
    case False
    define u where "u = set_next x pr (timer_list_remove x s)"
    note o = take_one [OF Cons.prems(1) xin Cons.prems(2) dist, folded u_def]
    have u: "timer_lists u (xs @ [d]) []" using o(1) by simp
    have m: "m_temporary (nodes u y) = m_temporary (nodes s y)" "m_timer_allocator u = m_timer_allocator s" for y using o(3) by (simp_all add: same_data_def)
    have "take_active (pr, s) = take_active (Some x, u)" unfolding u_def using h False by (subst take_active.simps) auto
    moreover have "distinct (xs @ d # x # ps)" using Cons.prems(3) by auto
    from Cons.IH [OF u o(2) this] obtain pr' s' where "take_active (Some x, u) = Some (pr', s')" "timer_lists s' [d] []"
        "chain (nodes s') pr' (rev (filter (\<lambda>x. \<not> m_temporary (nodes s x)) xs) @ x # ps)" "same_timers u s'"
        "m_timer_allocator s' = (fst (m_timer_allocator s) @ filter (\<lambda>x. m_temporary (nodes s x)) xs, snd (m_timer_allocator s))"
      unfolding m by blast
    ultimately show ?thesis using False same_timers_trans [OF same_timers_data [OF o(3)]] by simp
  next
    case True
    let ?u = "s\<lparr>nodes := (nodes s)(x := (nodes s x)\<lparr>m_callback := None\<rparr>)\<rparr>"
    define v where "v = reclaim_node x (timer_list_remove x ?u)"
    have tl: "timer_lists ?u ((x # xs) @ [d]) []" using Cons.prems(1) by - (rule timer_lists_frame [of s], simp_all)
    note r = timer_list_remove_lists [OF tl xin]
    have tv: "timer_lists v (xs @ [d]) []" using r by (simp add: v_def timer_lists_def reclaim_node_def)
    have c: "chain (nodes v) pr ps"
    proof (rule chain_frame [OF Cons.prems(2)])
      fix y assume "y \<in> set ps"
      then have "y \<notin> set (((x # xs) @ [d]) @ [])" "y \<noteq> x" using Cons.prems(3) by auto
      then have "nodes (timer_list_remove x ?u) y = nodes ?u y" "y \<noteq> x" using timer_list_remove_frame [OF tl xin] by blast+
      then show "m_next (nodes v y) = m_next (nodes s y)" by (simp add: v_def reclaim_node_def)
    qed
    have st: "same_timers s v" using r True by (simp add: v_def same_data_def same_timers_def reclaim_node_def)
    have m: "m_temporary (nodes v y) = m_temporary (nodes s y)" "m_timer_allocator v = (fst (m_timer_allocator s) @ [x], snd (m_timer_allocator s))" for y
      using st r by (simp_all add: same_timers_def v_def same_data_def reclaim_node_def)
    have "take_active (pr, s) = take_active (pr, v)" unfolding v_def using h True by (subst take_active.simps) auto
    moreover have "distinct (xs @ d # ps)" using Cons.prems(3) by auto
    from Cons.IH [OF tv c this] obtain pr' s' where "take_active (pr, v) = Some (pr', s')" "timer_lists s' [d] []"
        "chain (nodes s') pr' (rev (filter (\<lambda>x. \<not> m_temporary (nodes s x)) xs) @ ps)" "same_timers v s'"
        "m_timer_allocator s' = ((fst (m_timer_allocator s) @ [x]) @ filter (\<lambda>x. m_temporary (nodes s x)) xs, snd (m_timer_allocator s))"
      unfolding m fst_conv snd_conv by blast
    ultimately show ?thesis using True same_timers_trans [OF st] by simp
  qed
qed

text \<open>Where a timer belongs.\<close>

definition is_active :: "scheduler \<Rightarrow> nat \<Rightarrow> bool" where
  "is_active s t \<longleftrightarrow> \<not> is_never (expire_of s t) \<and> m_enabled (tmr (nodes s t))"

definition place :: "scheduler \<Rightarrow> nat \<Rightarrow> nat list \<Rightarrow> nat list" where
  "place s t xs = (if is_active s t then insert_sorted True (nodes s) t xs else xs)"

lemma place_same: "same_data s s' \<Longrightarrow> place s' = place s" "same_data s s' \<Longrightarrow> is_active s' = is_active s"
proof -
  assume sd: "same_data s s'"
  then show a: "is_active s' = is_active s" by (auto simp: is_active_def same_data_def fun_eq_iff)
  have "insert_here True (nodes s' x) (nodes s' y) = insert_here True (nodes s x) (nodes s y)" for x y
    using sd by (simp add: insert_here_def same_data_def)
  then show "place s' = place s" by (simp add: place_def a fun_eq_iff insert_sorted_def)
qed

lemma set_place: "set (place s t xs) = (if is_active s t then insert t (set xs) else set xs)"
  by (simp add: place_def set_insert_sorted)

lemma put_back_ok:
  "timer_lists s xs ys \<Longrightarrow> chain (nodes s) pr ps \<Longrightarrow> distinct (xs @ ys @ ps) \<Longrightarrow>
   \<exists>s'. put_back (pr, s) = Some s' \<and> same_data s s' \<and> timer_lists s' (foldl (\<lambda>l t. place s t l) xs ps) (rev (filter (\<lambda>t. \<not> is_active s t) ps) @ ys)"
proof (induction ps arbitrary: s xs ys pr)
  case Nil
  then have "put_back (pr, s) = Some s" by (subst put_back.simps) simp
  then show ?case using Nil by (simp add: same_data_def)
next
  case (Cons t ps)
  have t: "pr = Some t" "t \<notin> set (xs @ ys)" using Cons.prems by auto
  obtain u where u: "timer_list_insert True t s = Some u" "same_data s u"
      "if is_never (expire_of s t) \<or> \<not> m_enabled (tmr (nodes s t)) then timer_lists u xs (t # ys) else timer_lists u (insert_sorted True (nodes s) t xs) ys"
    using timer_list_insert_lists [OF Cons.prems(1) t(2), of True] by blast
  have lu: "timer_lists u (place s t xs) ((if is_active s t then [] else [t]) @ ys)"
    using u(3) by (auto simp: place_def is_active_def split: if_splits)
  have c: "chain (nodes u) (m_next (nodes s t)) ps"
  proof (rule chain_frame)
    show "chain (nodes s) (m_next (nodes s t)) ps" using Cons.prems(2) by simp
    fix x assume "x \<in> set ps"
    then have "x \<notin> set (xs @ t # ys)" using Cons.prems(3) by auto
    then show "m_next (nodes u x) = m_next (nodes s x)" using timer_list_insert_frame [OF Cons.prems(1) t(2) u(1)] by simp
  qed
  have "distinct (place s t xs @ ((if is_active s t then [] else [t]) @ ys) @ ps)"
  proof -
    have "distinct (place s t xs @ (if is_active s t then [] else [t]) @ ys)" using lu by (simp add: timer_lists_def)
    moreover have "set (place s t xs @ (if is_active s t then [] else [t]) @ ys) \<inter> set ps = {}" using Cons.prems(3) by (auto simp: set_place)
    ultimately show ?thesis using Cons.prems(3) by auto
  qed
  from Cons.IH [OF lu c this]
  obtain s' where s': "put_back (m_next (nodes s t), u) = Some s'" "same_data u s'"
      "timer_lists s' (foldl (\<lambda>l t. place s t l) (place s t xs) ps) (rev (filter (\<lambda>t. \<not> is_active s t) ps) @ (if is_active s t then [] else [t]) @ ys)"
    unfolding place_same [OF u(2)] by blast
  have "put_back (pr, s) = Some s'" using t(1) u(1) s'(1) by (subst put_back.simps) simp
  then show ?case using s'(3) same_data_trans [OF u(2) s'(2)] by auto
qed

section \<open>The order of the timers\<close>

text \<open>The timers are ordered by the time they expire and their number.\<close>

definition key :: "scheduler \<Rightarrow> nat \<Rightarrow> attotime \<times> nat" where
  "key s x = (expire_of s x, m_index (nodes s x))"

lemma insert_here_key: "insert_here True (nodes s t) (nodes s c) \<longleftrightarrow> key s t < key s c"
  by (auto simp: insert_here_def key_def)

lemma sorted_place: "sorted (map (key s) xs) \<Longrightarrow> sorted (map (key s) (place s t xs))"
  using sorted_insert [of "key s" xs "\<lambda>c. \<not> insert_here True (nodes s t) (nodes s c)" t]
  by (simp add: place_def insert_sorted_def insert_here_key)

lemma sorted_places: "sorted (map (key s) xs) \<Longrightarrow> sorted (map (key s) (foldl (\<lambda>l t. place s t l) xs ps))"
  by (induction ps arbitrary: xs) (simp_all add: sorted_place)

lemma set_places: "set (foldl (\<lambda>l t. place s t l) xs ps) = set xs \<union> {x \<in> set ps. is_active s x}"
  by (induction ps arbitrary: xs) (auto simp: set_place)

section \<open>Saving\<close>

fun numbered :: "nat \<Rightarrow> nat list \<Rightarrow> scheduler \<Rightarrow> scheduler" where
  "numbered i [] s = s"
| "numbered i (x # xs) s = numbered (Suc i) xs (set_index x i s)"

lemma set_index_simps [simp]:
  "nodes (set_index t i s) = (nodes s)(t := (nodes s t)\<lparr>m_index := i\<rparr>)" "m_timer_list (set_index t i s) = m_timer_list s"
  "m_inactive_timers (set_index t i s) = m_inactive_timers s" "m_timer_allocator (set_index t i s) = m_timer_allocator s"
  "m_basetime (set_index t i s) = m_basetime s"
  by (simp_all add: set_index_def)

lemma numbered_same:
  "m_next (nodes (numbered i xs s) x) = m_next (nodes s x)" "m_prev (nodes (numbered i xs s) x) = m_prev (nodes s x)"
  "tmr (nodes (numbered i xs s) x) = tmr (nodes s x)" "m_timer_list (numbered i xs s) = m_timer_list s"
  "m_inactive_timers (numbered i xs s) = m_inactive_timers s" "m_timer_allocator (numbered i xs s) = m_timer_allocator s"
  "m_basetime (numbered i xs s) = m_basetime s" "x \<notin> set xs \<Longrightarrow> m_index (nodes (numbered i xs s) x) = m_index (nodes s x)"
  by (induction xs arbitrary: i s; simp)+

lemma numbered_index: "distinct xs \<Longrightarrow> k < length xs \<Longrightarrow> m_index (nodes (numbered i xs s) (xs ! k)) = i + k"
  by (induction xs arbitrary: i s k) (auto simp: numbered_same nth_Cons split: nat.split)

lemma presave_loop_ok:
  "seg (nodes s) p st xs q None \<Longrightarrow> i + length xs \<le> 2 ^ 32 \<Longrightarrow> distinct xs \<Longrightarrow> presave_loop (i mod 2 ^ 32) st s = Some (numbered i xs s)"
proof (induction xs arbitrary: i s p st)
  case Nil
  then show ?case by (subst presave_loop.simps) simp
next
  case (Cons x xs)
  have m: "i mod 2 ^ 32 = i" using Cons.prems(2) by simp
  have f: "seg (nodes (set_index x i s)) (Some x) (m_next (nodes s x)) xs q None"
    using Cons.prems(1) by - (rule seg_frame [of "nodes s"]; simp)
  have "presave_loop (Suc i mod 2 ^ 32) (m_next (nodes s x)) (set_index x i s) = Some (numbered (Suc i) xs (set_index x i s))"
    using Cons.prems(2,3) by (intro Cons.IH [OF f]) simp_all
  then show ?case using Cons.prems(1) m by (subst presave_loop.simps) (simp add: Let_def)
qed

text \<open>A save state is possible if and only if no temporary timer is pending.\<close>

lemma can_save_loop_ok:
  "seg (nodes s) p st xs q None \<Longrightarrow> can_save_loop st s = Some (\<forall>x \<in> set xs. m_temporary (nodes s x) \<longrightarrow> is_never (expire_of s x))"
proof (induction xs arbitrary: p st)
  case Nil
  then show ?case by (subst can_save_loop.simps) simp
next
  case (Cons x xs)
  then show ?case by (subst can_save_loop.simps) auto
qed

lemma can_save_ok:
  assumes "sched_ok d s xs ys"
  shows "can_save s = Some (\<forall>x \<in> set xs. \<not> m_temporary (nodes s x))"
proof -
  obtain q where q: "seg (nodes s) None (m_timer_list s) (xs @ [d]) q None" using assms by (auto simp: sched_ok_def timer_lists_def)
  have "is_never (expire_of s d)" using assms by (simp add: sched_ok_def is_never_def attotime_never_def)
  moreover have "\<not> is_never (expire_of s x)" if "x \<in> set xs" for x
    using assms that by (auto simp: sched_ok_def wf_time_def is_never_def)
  ultimately show ?thesis unfolding can_save_def can_save_loop_ok [OF q] by auto
qed

text \<open>What a save state holds of the timers \<open>P\<close>, put into the timers of another state.\<close>

definition load_timers :: "nat set \<Rightarrow> scheduler \<Rightarrow> scheduler \<Rightarrow> scheduler" where
  "load_timers P saved s =
     s\<lparr>nodes := \<lambda>x. if x \<in> P then (nodes s x)\<lparr>tmr := tmr (nodes saved x), m_index := m_index (nodes saved x)\<rparr> else nodes s x,
       m_basetime := m_basetime saved\<rparr>"

text \<open>The timers between two time slices: the active ones are enabled, the others are disabled or never expire, and none is temporary.\<close>

definition settled :: "scheduler \<Rightarrow> nat list \<Rightarrow> nat list \<Rightarrow> bool" where
  "settled s xs ys \<longleftrightarrow> (\<forall>x \<in> set xs. m_enabled (tmr (nodes s x))) \<and> (\<forall>x \<in> set ys. is_never (expire_of s x) \<or> \<not> m_enabled (tmr (nodes s x)))"

text \<open>The numbers of a save state make the order of the timers strict.\<close>

lemma sorted_keys:
  assumes "sched_ok d s xs ys" "\<And>x. x \<in> set xs \<Longrightarrow> expire_of u x = expire_of s x" "expire_of u d = attotime_never"
    "\<And>k. k < length xs \<Longrightarrow> m_index (nodes u (xs ! k)) = k"
  shows "sorted_wrt (<) (map (key u) (xs @ [d]))"
proof -
  have "key u (xs ! j) < key u (xs ! k)" if "j < k" "k < length xs" for j k
  proof -
    have "expire_of s (xs ! j) \<le> expire_of s (xs ! k)"
      using assms(1) that sorted_nth_mono [of "map (expire_of s) xs" j k] by (simp add: sched_ok_def)
    then show ?thesis using that assms(2) assms(4) [of j] assms(4) [of k] by (auto simp: key_def)
  qed
  then have "sorted_wrt (<) (map (key u) xs)" by (auto simp: sorted_wrt_iff_nth_less)
  moreover have "key u x < key u d" if "x \<in> set xs" for x
    using assms(1-3) that wf_less_never by (auto simp: key_def sched_ok_def)
  ultimately show ?thesis by (simp add: sorted_wrt_append)
qed

text \<open>What \<open>postload\<close> makes of lists with any data: the permanent timers in their places.\<close>

lemma postload_lists:
  assumes l: "timer_lists u (us @ [d]) vs"
  shows "\<exists>t' L ps. postload u = Some t' \<and> ps = rev (filter (\<lambda>x. \<not> m_temporary (nodes u x)) us) @ rev vs \<and> L = foldl (\<lambda>l t. place u t l) [d] ps \<and>
    timer_lists t' L (rev (filter (\<lambda>x. \<not> is_active u x) ps)) \<and> same_timers u t' \<and>
    m_timer_allocator t' = (fst (m_timer_allocator u) @ filter (\<lambda>x. m_temporary (nodes u x)) us, snd (m_timer_allocator u))"
proof -
  have d: "distinct ((us @ [d]) @ vs @ [])" using l by (simp add: timer_lists_def)
  obtain pr1 u1 where u1: "take_inactive (None, u) = Some (pr1, u1)" "timer_lists u1 (us @ [d]) []" "chain (nodes u1) pr1 (rev vs)" "same_data u u1"
    using take_inactive_ok [OF l _ d, of None] by auto
  let ?ps = "rev (filter (\<lambda>x. \<not> m_temporary (nodes u x)) us) @ rev vs"
  have m1: "m_temporary (nodes u1 x) = m_temporary (nodes u x)" "m_timer_allocator u1 = m_timer_allocator u" for x
    using u1(4) by (simp_all add: same_data_def)
  obtain pr2 u2 where u2: "take_active (pr1, u1) = Some (pr2, u2)" "timer_lists u2 [d] []" "chain (nodes u2) pr2 ?ps" "same_timers u1 u2"
      "m_timer_allocator u2 = (fst (m_timer_allocator u) @ filter (\<lambda>x. m_temporary (nodes u x)) us, snd (m_timer_allocator u))"
    using take_active_ok [OF u1(2,3)] d unfolding m1 by auto
  obtain t' where t': "put_back (pr2, u2) = Some t'" "same_data u2 t'"
      "timer_lists t' (foldl (\<lambda>l t. place u2 t l) [d] ?ps) (rev (filter (\<lambda>t. \<not> is_active u2 t) ?ps) @ [])"
    using put_back_ok [OF u2(2,3)] d by auto
  have st: "same_timers u u2" using same_timers_trans [OF same_timers_data [OF u1(4)] u2(4)] .
  then have act: "is_active u2 = is_active u" by (auto simp: is_active_def same_timers_def fun_eq_iff)
  have "insert_here True (nodes u2 x) (nodes u2 y) = insert_here True (nodes u x) (nodes u y)" for x y
    using st by (simp add: insert_here_def same_timers_def)
  then have pl: "place u2 = place u" by (simp add: place_def act fun_eq_iff insert_sorted_def)
  have "postload u = Some t'" by (simp add: postload_def u1(1) u2(1) t'(1))
  moreover have "same_timers u t'" using same_timers_trans [OF st same_timers_data [OF t'(2)]] .
  moreover have "m_timer_allocator t' = m_timer_allocator u2" using t'(2) by (simp add: same_data_def)
  ultimately show ?thesis using t'(3) u2(5) unfolding act pl by auto
qed

text \<open>C20. A save state restores the timers: when it is loaded into a machine with the same permanent timers, whatever these and any temporary timers are set
  to, the permanent timers get their data back and the active ones are in the order they were in, also those that expire at the same time; temporary
  timers are gone and free.\<close>

theorem save_state_restores_timers:
  assumes saved: "sched_ok d s xs ys" "settled s xs ys" "length xs + 1 \<le> 2 ^ 32"
    and other: "sched_ok d t us vs" "{x \<in> set us. \<not> m_temporary (nodes t x)} \<union> set vs = set (xs @ ys)"
  shows "\<exists>s1 t' zs. presave s = Some s1 \<and> postload (load_timers (set (xs @ ys)) s1 t) = Some t' \<and>
    sched_ok d t' xs zs \<and> set zs = set ys \<and> (\<forall>x \<in> set (xs @ ys). tmr (nodes t' x) = tmr (nodes s x)) \<and> m_basetime t' = m_basetime s \<and>
    {x \<in> set us. m_temporary (nodes t x)} \<subseteq> set (fst (m_timer_allocator t'))"
proof -
  have dx: "distinct xs" "d \<notin> set (xs @ ys)" "distinct (us @ d # vs)" using saved(1) other(1) by (auto simp: sched_ok_def timer_lists_def)
  obtain q where q: "seg (nodes s) None (m_timer_list s) (xs @ [d]) q None" "distinct (xs @ [d])" using saved(1) by (auto simp: sched_ok_def timer_lists_def)
  define s1 where "s1 = numbered 0 (xs @ [d]) s"
  have s1: "presave s = Some s1" using presave_loop_ok [OF q(1) _ q(2), of 0] saved(3) by (simp add: presave_def s1_def)
  define u where "u = load_timers (set (xs @ ys)) s1 t"
  have ut: "tmr (nodes u x) = (if x \<in> set (xs @ ys) then tmr (nodes s x) else tmr (nodes t x))" "m_temporary (nodes u x) = m_temporary (nodes t x)"
      "m_timer_allocator u = m_timer_allocator t" "m_basetime u = m_basetime s" for x
    by (simp_all add: u_def load_timers_def s1_def numbered_same)
  have idx: "m_index (nodes u (xs ! k)) = k" if "k < length xs" for k
    using numbered_index [OF q(2), of k 0 s] that by (simp add: u_def load_timers_def s1_def nth_append)
  have "timer_lists u (us @ [d]) vs"
    using other(1) by - (rule timer_lists_frame [of t]; simp add: sched_ok_def u_def load_timers_def)
  then obtain t' L ps where t': "postload u = Some t'" "ps = rev (filter (\<lambda>x. \<not> m_temporary (nodes t x)) us) @ rev vs" "L = foldl (\<lambda>l t. place u t l) [d] ps"
      "timer_lists t' L (rev (filter (\<lambda>x. \<not> is_active u x) ps))" "same_timers u t'"
      "m_timer_allocator t' = (fst (m_timer_allocator t) @ filter (\<lambda>x. m_temporary (nodes t x)) us, snd (m_timer_allocator t))"
    using postload_lists [of u us d vs] unfolding ut(2,3) by blast
  have ps: "set ps = set (xs @ ys)" using t'(2) other(2) by auto
  have act: "is_active u x \<longleftrightarrow> x \<in> set xs" if "x \<in> set (xs @ ys)" for x
    using that saved(1,2) ut(1) [of x] by (auto simp: is_active_def settled_def sched_ok_def wf_time_def is_never_def timer_lists_def)
  have "expire_of u d = attotime_never" using other(1) dx(2) ut(1) [of d] by (simp add: sched_ok_def)
  then have sk: "sorted_wrt (<) (map (key u) (xs @ [d]))"
    using ut(1) idx by (intro sorted_keys [OF saved(1)]) auto
  have setL: "set L = set (xs @ [d])" using set_places [of u "[d]" ps] ps act unfolding t'(3) by auto
  have "L = xs @ [d]"
  proof (rule map_sorted_distinct_set_unique [of "key u"])
    have k: "distinct (map (key u) (xs @ [d]))" using sk by (simp add: strict_sorted_iff)
    then show inj: "inj_on (key u) (set L \<union> set (xs @ [d]))" unfolding setL by (simp only: distinct_map Un_absorb)
    show "sorted (map (key u) L)" unfolding t'(3) by (rule sorted_places) simp
    show "sorted (map (key u) (xs @ [d]))" using sk by (simp only: strict_sorted_iff)
    show "distinct (map (key u) (xs @ [d]))" by (rule k)
    have "distinct L" using t'(4) by (simp add: timer_lists_def)
    then show "distinct (map (key u) L)" using inj unfolding setL distinct_map by simp
  qed (rule setL)
  define zs where "zs = rev (filter (\<lambda>x. \<not> is_active u x) ps)"
  have zs: "set zs = set ys" using ps act saved(1) by (auto simp: zs_def sched_ok_def timer_lists_def)
  have tm: "tmr (nodes t' x) = tmr (nodes u x)" "m_basetime t' = m_basetime s" for x using t'(5) ut(4) by (simp_all add: same_timers_def)
  have e: "tmr (nodes t' x) = tmr (nodes s x)" if "x \<in> set (xs @ ys)" for x using that tm(1) ut(1) by simp
  have tl: "timer_lists t' (xs @ [d]) zs" using t'(4) \<open>L = xs @ [d]\<close> by (simp add: zs_def)
  have al: "distinct (fst (m_timer_allocator t'))" "\<forall>x \<in> set (fst (m_timer_allocator t')). x < snd (m_timer_allocator t') \<and> x \<notin> set (xs @ d # zs)"
    "\<forall>x \<in> set (xs @ d # zs). x < snd (m_timer_allocator t')"
  proof -
    let ?F = "fst (m_timer_allocator t)" and ?N = "snd (m_timer_allocator t)" and ?T = "filter (\<lambda>x. m_temporary (nodes t x)) us"
    have F: "distinct ?F" "\<forall>x \<in> set ?F. x < ?N \<and> x \<notin> set (us @ d # vs)" "\<forall>x \<in> set (us @ d # vs). x < ?N"
      using other(1) unfolding sched_ok_def by blast+
    have X: "set (xs @ d # zs) = insert d (set (xs @ ys))" using zs by auto
    have S: "set (xs @ ys) \<subseteq> set (us @ vs)" "set ?T \<inter> set (xs @ ys) = {}" using other(2) dx(3) by fastforce+
    show "distinct (fst (m_timer_allocator t'))" using F(1,2) dx(3) unfolding t'(6) by fastforce
    show "\<forall>x \<in> set (fst (m_timer_allocator t')). x < snd (m_timer_allocator t') \<and> x \<notin> set (xs @ d # zs)"
      using F(2,3) S dx(3) unfolding t'(6) X by fastforce
    show "\<forall>x \<in> set (xs @ d # zs). x < snd (m_timer_allocator t')" using F(3) S(1) unfolding t'(6) X by fastforce
  qed
  have "map (expire_of t') xs = map (expire_of s) xs" using e by simp
  then have "sorted (map (expire_of t') xs)" using saved(1) by (simp only: sched_ok_def)
  then have "sched_ok d t' xs zs"
    using tl al saved(1) e zs tm(1) \<open>expire_of u d = attotime_never\<close> unfolding sched_ok_def by simp
  moreover have "{x \<in> set us. m_temporary (nodes t x)} \<subseteq> set (fst (m_timer_allocator t'))" using t'(6) by auto
  ultimately show ?thesis using s1 t'(1) zs e tm(2) unfolding u_def by blast
qed

text \<open>Two timers set for the same time, and another machine where they are set the other way round and a temporary timer is pending.\<close>

definition example_saved :: "nat list \<Rightarrow> scheduler" where
  "example_saved xs =
     \<lparr>nodes = \<lambda>t. \<lparr>m_next = (if t = 0 then None else if Suc 0 < length xs \<and> t = xs ! 0 then Some (xs ! 1) else if 2 < length xs \<and> t = xs ! 1 then Some (xs ! 2) else Some 0),
        m_prev = (if t = 0 then Some (last xs) else if t = xs ! 0 then None else if t = xs ! 1 then Some (xs ! 0) else Some (xs ! 1)), m_callback = None, m_temporary = (t = 0 \<or> t = 3), m_index = 0,
        tmr = \<lparr>m_param = 0, m_enabled = (t \<noteq> 0), m_period = attotime_never, m_start = attotime_zero,
              m_expire = (if t = 0 then attotime_never else Attotime 1 0)\<rparr>\<rparr>,
      m_timer_list = Some (hd xs), m_inactive_timers = None, m_timer_allocator = ([], 4), m_basetime = attotime_zero,
      m_executing_device = None, m_callback_timer = None, m_callback_timer_modified = False, m_callback_timer_expire_time = attotime_zero\<rparr>"

theorem save_state_restores_timers_witness:
  "\<exists>s1 t' zs. presave (example_saved [2, 1]) = Some s1 \<and> postload (load_timers {1, 2} s1 (example_saved [1, 3, 2])) = Some t' \<and>
    sched_ok 0 t' [2, 1] zs \<and> set zs = {}"
proof -
  have ok: "ok_time attotime_never" "wf_time (Attotime 1 0)" by (simp_all add: ok_time_def wf_time_def atto_consts)
  have a: "sched_ok 0 (example_saved [2, 1]) [2, 1] []" "settled (example_saved [2, 1]) [2, 1] []" "sched_ok 0 (example_saved [1, 3, 2]) [1, 3, 2] []"
    using ok by (simp_all add: sched_ok_def timer_lists_def example_saved_def settled_def)
  have P: "set ([2, 1] @ []) = {1, 2::nat}" by auto
  have "{x \<in> set [1, 3, 2]. \<not> m_temporary (nodes (example_saved [1, 3, 2]) x)} \<union> set [] = set ([2, 1] @ [])" by (auto simp: example_saved_def)
  from save_state_restores_timers [OF a(1,2) _ a(3) this] show ?thesis unfolding P by auto
qed

end
