(* ===== verification/Serial_Clock.thy ===== *)
theory Serial_Clock
  imports Diserial
begin

unbundle bit_operations_syntax

text \<open>
  Reception in time: the line of a receiver changes at given times, and its clock, a timer that starts with the start bit, samples the line. The
  receiver gets the bits of the frame if every bit is on the line when the clock samples it, whatever the sender's clock is.
\<close>

section \<open>The receive clock\<close>

text \<open>The callback of the timer \<^verbatim>\<open>m_rcv_clock\<close>, and one firing of the timer: it is set for the next period unless the callback set it anew.\<close>

definition rx_clock_tick :: "(attotime \<Rightarrow> 'a device_serial_interface_scheme \<Rightarrow> 'a device_serial_interface_scheme) \<Rightarrow> attotime \<Rightarrow>
    'a device_serial_interface_scheme \<Rightarrow> 'a device_serial_interface_scheme" where
  "rx_clock_tick rcv_complete now s = rx_clock_w (\<lambda>s. s) (\<lambda>f. f) (rcv_complete now) now (\<not> m_rcv_clock_state s) s"

definition rcv_timer :: "(attotime \<Rightarrow> 'a device_serial_interface_scheme \<Rightarrow> 'a device_serial_interface_scheme) \<Rightarrow>
    'a device_serial_interface_scheme \<Rightarrow> 'a device_serial_interface_scheme" where
  "rcv_timer rcv_complete s =
     (let s1 = rx_clock_tick rcv_complete (m_expire (m_rcv_clock s)) s
      in if m_rcv_clock s1 = m_rcv_clock s then s1\<lparr>m_rcv_clock := schedule_next_period (m_rcv_clock s1)\<rparr> else s1)"

text \<open>The firings before a time, at most \<open>n\<close> of them; and changes of the line at given times.\<close>

fun rcv_until :: "(attotime \<Rightarrow> 'a device_serial_interface_scheme \<Rightarrow> 'a device_serial_interface_scheme) \<Rightarrow> nat \<Rightarrow> attotime \<Rightarrow>
    'a device_serial_interface_scheme \<Rightarrow> 'a device_serial_interface_scheme" where
  "rcv_until rc 0 \<tau> s = s"
| "rcv_until rc (Suc n) \<tau> s =
     (if m_enabled (m_rcv_clock s) \<and> \<not> is_never (m_expire (m_rcv_clock s)) \<and> m_expire (m_rcv_clock s) < \<tau>
      then rcv_until rc n \<tau> (rcv_timer rc s) else s)"

fun line_run :: "(attotime \<Rightarrow> 'a device_serial_interface_scheme \<Rightarrow> 'a device_serial_interface_scheme) \<Rightarrow> nat \<Rightarrow> (attotime \<times> bool) list \<Rightarrow>
    'a device_serial_interface_scheme \<Rightarrow> 'a device_serial_interface_scheme" where
  "line_run rc n [] s = s"
| "line_run rc n ((\<tau>, b) # evs) s = line_run rc n evs (rx_w \<tau> b (rcv_until rc n \<tau> s))"

section \<open>One firing\<close>

text \<open>The state \<open>X\<close> of a receiver but for its clock, which fires next \<open>2 k + 2\<close> or, after the rising edge, \<open>2 k + 3\<close> half bits after the start.\<close>

definition clocked :: "int \<Rightarrow> attotime \<Rightarrow> nat \<Rightarrow> bool \<Rightarrow> 'a device_serial_interface_scheme \<Rightarrow> 'a device_serial_interface_scheme \<Rightarrow> bool" where
  "clocked A R k p X s \<longleftrightarrow> (\<exists>c. s = X\<lparr>m_rcv_clock := c, m_rcv_clock_state := p\<rparr> \<and> m_enabled c \<and> m_period c = R \<and> wf_time (m_expire c) \<and>
     attos (m_expire c) = A + (2 * int k + (if p then 3 else 2)) * attos R)"

abbreviation MAX_ATTOS :: int where "MAX_ATTOS \<equiv> ATTOTIME_MAX_SECONDS * ATTOSECONDS_PER_SECOND"

lemma next_period:
  assumes "wf_time (m_expire c)" "wf_time (m_period c)" "attos (m_expire c) + attos (m_period c) < MAX_ATTOS"
  shows "wf_time (m_expire (schedule_next_period c))" "attos (m_expire (schedule_next_period c)) = attos (m_expire c) + attos (m_period c)"
    "m_period (schedule_next_period c) = m_period c" "m_enabled (schedule_next_period c) = m_enabled c"
  using attotime_add_exact(1) [OF assms] by (simp_all add: schedule_next_period_def)

lemma update_bit_clock:
  "receive_register_update_bit b (X\<lparr>m_rcv_clock := c, m_rcv_clock_state := p\<rparr>) = (receive_register_update_bit b X)\<lparr>m_rcv_clock := c, m_rcv_clock_state := p\<rparr>"
  by (simp add: receive_register_update_bit_def Let_def)

lemma rise:
  assumes "clocked A R k False X s" "wf_time R" "0 < attos R" "A + (2 * int k + 3) * attos R < MAX_ATTOS"
  shows "clocked A R k True X (rcv_timer rc s)"
proof -
  obtain c where c: "s = X\<lparr>m_rcv_clock := c, m_rcv_clock_state := False\<rparr>" "m_enabled c" "m_period c = R" "wf_time (m_expire c)"
      "attos (m_expire c) = A + (2 * int k + 2) * attos R"
    using assms(1) by (auto simp: clocked_def)
  have "rcv_timer rc s = X\<lparr>m_rcv_clock := schedule_next_period c, m_rcv_clock_state := True\<rparr>"
    by (simp add: c(1) rcv_timer_def rx_clock_tick_def rx_clock_w_def Let_def)
  moreover have "attos (m_expire c) + attos (m_period c) < MAX_ATTOS" using assms(4) c(3,5) by (simp add: algebra_simps)
  note next_period [OF c(4) _ this]
  ultimately show ?thesis using assms(2) c unfolding clocked_def by (intro exI [of _ "schedule_next_period c"]) (simp add: algebra_simps)
qed

lemma sample:
  assumes "clocked A R k True X s" "wf_time R" "0 < attos R" "A + (2 * int k + 4) * attos R < MAX_ATTOS"
    and "\<not> is_receive_register_full (receive_register_update_bit (m_rcv_line X) X)"
  shows "clocked A R (Suc k) False (receive_register_update_bit (m_rcv_line X) X) (rcv_timer rc s)"
proof -
  obtain c where c: "s = X\<lparr>m_rcv_clock := c, m_rcv_clock_state := True\<rparr>" "m_enabled c" "m_period c = R" "wf_time (m_expire c)"
      "attos (m_expire c) = A + (2 * int k + 3) * attos R"
    using assms(1) by (auto simp: clocked_def)
  let ?X = "receive_register_update_bit (m_rcv_line X) X"
  have "rcv_timer rc s = ?X\<lparr>m_rcv_clock := schedule_next_period c, m_rcv_clock_state := False\<rparr>"
    using assms(5) by (simp add: c(1) rcv_timer_def rx_clock_tick_def rx_clock_w_def rcv_edge_def update_bit_clock Let_def is_receive_register_full_def)
  moreover have "attos (m_expire c) + attos (m_period c) < MAX_ATTOS" using assms(4) c(3,5) by (simp add: algebra_simps)
  note next_period [OF c(4) _ this]
  ultimately show ?thesis using assms(2) c unfolding clocked_def by (intro exI [of _ "schedule_next_period c"]) (simp add: algebra_simps)
qed

lemma last_sample:
  assumes "clocked A R k True X s" and "is_receive_register_full (receive_register_update_bit (m_rcv_line X) X)"
    and rc: "\<And>now s. m_rcv_clock (rc now s) = m_rcv_clock s"
  shows "\<exists>e c. wf_time e \<and> attos e = A + (2 * int k + 3) * attos R \<and> is_never (m_expire c) \<and>
    rcv_timer rc s = rc e ((receive_register_update_bit (m_rcv_line X) X)\<lparr>m_rcv_clock := c, m_rcv_clock_state := False\<rparr>)"
proof -
  obtain c where c: "s = X\<lparr>m_rcv_clock := c, m_rcv_clock_state := True\<rparr>" "m_enabled c" "m_period c = R" "wf_time (m_expire c)"
      "attos (m_expire c) = A + (2 * int k + 3) * attos R"
    using assms(1) by (auto simp: clocked_def)
  let ?X = "receive_register_update_bit (m_rcv_line X) X" and ?c = "timer_never (m_expire c) c"
  have n: "is_never (m_expire ?c)" by (rule timer_never_expire)
  have o: "?X\<lparr>m_rcv_clock_state := False, m_rcv_clock := ?c\<rparr> = ?X\<lparr>m_rcv_clock := ?c, m_rcv_clock_state := False\<rparr>" by simp
  have "?c \<noteq> c" using n c(4) by (auto simp: wf_time_def is_never_def)
  then have "rcv_timer rc s = rc (m_expire c) (?X\<lparr>m_rcv_clock := ?c, m_rcv_clock_state := False\<rparr>)"
    using assms(2) by (simp add: c(1) rcv_timer_def rx_clock_tick_def rx_clock_w_def rcv_edge_def update_bit_clock Let_def is_receive_register_full_def rc o)
  then show ?thesis using c(4,5) n by blast
qed

section \<open>Between two changes of the line\<close>

lemma clocked_fires:
  assumes "clocked A R k p X s" "wf_time \<tau>"
  shows "m_enabled (m_rcv_clock s) \<and> \<not> is_never (m_expire (m_rcv_clock s)) \<and> m_expire (m_rcv_clock s) < \<tau> \<longleftrightarrow>
    A + (2 * int k + (if p then 3 else 2)) * attos R < attos \<tau>"
  using assms less_by_order [of _ \<tau>] by (auto simp: clocked_def wf_time_def is_never_def)

lemma until_stops:
  assumes "clocked A R k p X s" "wf_time \<tau>" "attos \<tau> \<le> A + (2 * int k + (if p then 3 else 2)) * attos R"
  shows "rcv_until rc n \<tau> s = s"
  using clocked_fires [OF assms(1,2)] assms(3) by (cases n) auto

lemma until_rise:
  assumes "clocked A R k False X s" "wf_time R" "0 < attos R" "A + (2 * int k + 3) * attos R < MAX_ATTOS" "wf_time \<tau>"
    "attos \<tau> \<le> A + (2 * int k + 3) * attos R" "0 < n"
  shows "\<exists>p. clocked A R k p X (rcv_until rc n \<tau> s)"
proof (cases "A + (2 * int k + 2) * attos R < attos \<tau>")
  case True
  obtain m where n: "n = Suc m" using assms(7) by (cases n) auto
  note r = rise [OF assms(1-4), of rc]
  have "rcv_until rc m \<tau> (rcv_timer rc s) = rcv_timer rc s" using assms(6) by (intro until_stops [OF r assms(5)]) simp
  then show ?thesis using r clocked_fires [OF assms(1,5)] True by (auto simp: n)
next
  case False
  then show ?thesis using until_stops [OF assms(1,5)] assms(1) by auto
qed

text \<open>Up to a time after the sample of bit \<open>k\<close> and not after the next one.\<close>

lemma until_sample:
  assumes s: "clocked A R k p X s" and R: "wf_time R" "0 < attos R" "A + (2 * int k + 5) * attos R < MAX_ATTOS" and \<tau>: "wf_time \<tau>"
    "A + (2 * int k + 3) * attos R < attos \<tau>" "attos \<tau> \<le> A + (2 * int k + 5) * attos R" and n: "3 \<le> n"
    and nf: "\<not> is_receive_register_full (receive_register_update_bit (m_rcv_line X) X)"
  shows "\<exists>p. clocked A R (Suc k) p (receive_register_update_bit (m_rcv_line X) X) (rcv_until rc n \<tau> s)"
proof -
  have b: "A + (2 * int k + 3) * attos R < MAX_ATTOS" "A + (2 * int k + 4) * attos R < MAX_ATTOS" "A + (2 * int k + 2) * attos R < attos \<tau>"
    using R \<tau> by (simp_all add: algebra_simps)
  have sampled: "\<exists>p. clocked A R (Suc k) p (receive_register_update_bit (m_rcv_line X) X) (rcv_until rc m \<tau> t)"
    if t: "clocked A R k True X t" and m: "2 \<le> m" for t m
  proof -
    obtain l where l: "m = Suc l" "0 < l" using m by (cases m) auto
    have "clocked A R (Suc k) False (receive_register_update_bit (m_rcv_line X) X) (rcv_timer rc t)" by (rule sample [OF t R(1,2) b(2) nf])
    from until_rise [OF this R(1,2) _ \<tau>(1) _ l(2)] R \<tau>
    have "\<exists>p. clocked A R (Suc k) p (receive_register_update_bit (m_rcv_line X) X) (rcv_until rc l \<tau> (rcv_timer rc t))" by (simp add: algebra_simps)
    moreover have "rcv_until rc m \<tau> t = rcv_until rc l \<tau> (rcv_timer rc t)" using clocked_fires [OF t \<tau>(1)] \<tau>(2) by (simp add: l)
    ultimately show ?thesis by simp
  qed
  show ?thesis
  proof (cases p)
    case True
    then show ?thesis using sampled [of s n] s n by simp
  next
    case False
    obtain l where l: "n = Suc l" "2 \<le> l" using n by (cases n) auto
    have "clocked A R k True X (rcv_timer rc s)" using rise [OF _ R(1,2) b(1)] s False by simp
    then have "\<exists>p. clocked A R (Suc k) p (receive_register_update_bit (m_rcv_line X) X) (rcv_until rc l \<tau> (rcv_timer rc s))" by (rule sampled [OF _ l(2)])
    moreover have "rcv_until rc n \<tau> s = rcv_until rc l \<tau> (rcv_timer rc s)" using clocked_fires [OF s \<tau>(1)] b(3) False by (simp add: l)
    ultimately show ?thesis by simp
  qed
qed

text \<open>Up to a time after the last sample: the frame is complete, and the clock stops.\<close>

lemma until_last:
  assumes s: "clocked A R k p X s" and R: "wf_time R" "0 < attos R" "A + (2 * int k + 3) * attos R < MAX_ATTOS" and \<tau>: "wf_time \<tau>"
    "A + (2 * int k + 3) * attos R < attos \<tau>" and n: "2 \<le> n" and full: "is_receive_register_full (receive_register_update_bit (m_rcv_line X) X)"
    and rc: "\<And>now s. m_rcv_clock (rc now s) = m_rcv_clock s"
  shows "\<exists>e c. wf_time e \<and> attos e = A + (2 * int k + 3) * attos R \<and> is_never (m_expire c) \<and>
    rcv_until rc n \<tau> s = rc e ((receive_register_update_bit (m_rcv_line X) X)\<lparr>m_rcv_clock := c, m_rcv_clock_state := False\<rparr>)"
proof -
  have b: "A + (2 * int k + 2) * attos R < attos \<tau>" using R \<tau> by (simp add: algebra_simps)
  have last: "\<exists>e c. wf_time e \<and> attos e = A + (2 * int k + 3) * attos R \<and> is_never (m_expire c) \<and>
      rcv_until rc (Suc l) \<tau> t = rc e ((receive_register_update_bit (m_rcv_line X) X)\<lparr>m_rcv_clock := c, m_rcv_clock_state := False\<rparr>)"
    if t: "clocked A R k True X t" for t l
  proof -
    obtain e c where e: "wf_time e" "attos e = A + (2 * int k + 3) * attos R" "is_never (m_expire c)"
        "rcv_timer rc t = rc e ((receive_register_update_bit (m_rcv_line X) X)\<lparr>m_rcv_clock := c, m_rcv_clock_state := False\<rparr>)"
      using last_sample [OF t full, of rc, OF rc] by (elim exE conjE)
    have "m_rcv_clock (rcv_timer rc t) = c" by (simp add: e(4) rc)
    then have "rcv_until rc l \<tau> (rcv_timer rc t) = rcv_timer rc t" using e(3) by (cases l) auto
    then have "rcv_until rc (Suc l) \<tau> t = rcv_timer rc t" using clocked_fires [OF t \<tau>(1)] \<tau>(2) by simp
    then show ?thesis using e by metis
  qed
  obtain l where l: "n = Suc (Suc l)" using n by (cases n; cases "n - 1") auto
  show ?thesis
  proof (cases p)
    case True
    then show ?thesis using last [of s "Suc l"] s l by simp
  next
    case False
    have "clocked A R k True X (rcv_timer rc s)" using rise [OF _ R] s False by simp
    from last [OF this, of l] show ?thesis using clocked_fires [OF s \<tau>(1)] b False by (simp add: l)
  qed
qed

section \<open>A frame\<close>

lemma clocked_line:
  assumes "clocked A R k p X s" "receiving X"
  shows "clocked A R k p (X\<lparr>m_rcv_line := b\<rparr>) (rx_w \<tau> b s)"
proof -
  obtain c where c: "s = X\<lparr>m_rcv_clock := c, m_rcv_clock_state := p\<rparr>" "m_enabled c" "m_period c = R" "wf_time (m_expire c)"
      "attos (m_expire c) = A + (2 * int k + (if p then 3 else 2)) * attos R"
    using assms(1) unfolding clocked_def by (elim exE conjE)
  have "m_rcv_flags s AND RECEIVE_REGISTER_SYNCHRONISED \<noteq> 0" using assms(2) by (simp add: c(1) receiving_def mask_bits)
  then have "rx_w \<tau> b s = (X\<lparr>m_rcv_line := b\<rparr>)\<lparr>m_rcv_clock := c, m_rcv_clock_state := p\<rparr>" by (simp add: rx_w_def Let_def c(1))
  then show ?thesis using c(2-5) unfolding clocked_def by blast
qed

text \<open>The times of the bits after the start bit: bit \<open>i\<close> comes on the line after the sample of the bit before it and before its own sample.\<close>

definition timely :: "int \<Rightarrow> int \<Rightarrow> attotime list \<Rightarrow> bool" where
  "timely A r ts \<longleftrightarrow> (\<forall>i < length ts. wf_time (ts ! i) \<and> A + (2 * int i + 1) * r < attos (ts ! i) \<and> attos (ts ! i) < A + (2 * int i + 3) * r)"

lemma timely_snoc:
  "timely A r (ts @ [t]) \<longleftrightarrow> timely A r ts \<and> wf_time t \<and> A + (2 * int (length ts) + 1) * r < attos t \<and> attos t < A + (2 * int (length ts) + 3) * r"
  by (auto simp: timely_def nth_append less_Suc_eq)

lemma line_run_append: "line_run rc n (xs @ ys) s = line_run rc n ys (line_run rc n xs s)"
  by (induction xs arbitrary: s) auto

lemma stops_ok_prefix: "stops_ok s (bs @ cs) \<Longrightarrow> stops_ok s bs"
  by (auto simp: stops_ok_def nth_append split: if_splits)

lemma events_clocked:
  assumes X: "receiving X" "m_rcv_bit_count_received X = 0" "m_rcv_bit_count X \<le> 16" and s: "clocked A R 0 False X s"
    and R: "wf_time R" "0 < attos R" and n: "3 \<le> n"
  shows "length ts = length bs \<Longrightarrow> length bs < m_rcv_bit_count X \<Longrightarrow> stops_ok X bs \<Longrightarrow> timely A (attos R) (ts @ [t]) \<Longrightarrow>
    A + (2 * int (length bs) + 3) * attos R < MAX_ATTOS \<Longrightarrow>
    \<exists>p. clocked A R (length bs) p ((fold (bit_time now) bs X)\<lparr>m_rcv_line := b\<rparr>) (line_run rc n (zip (ts @ [t]) (bs @ [b])) s)"
proof (induction bs arbitrary: ts t b rule: rev_induct)
  case Nil
  then have "\<exists>p. clocked A R 0 p X (rcv_until rc n t s)"
    using n by (intro until_rise [OF s R]) (auto simp: timely_def)
  then show ?case using Nil clocked_line [OF _ X(1)] by fastforce
next
  case (snoc c bs)
  obtain us u where ts: "ts = us @ [u]" using snoc.prems(1) by (cases ts rule: rev_cases) auto
  have l: "length us = length bs" using snoc.prems(1) ts by simp
  have st: "stops_ok X bs" using stops_ok_prefix [OF snoc.prems(3)] .
  have le: "A + (2 * int (length bs) + 5) * attos R < MAX_ATTOS" using snoc.prems(5) by (simp add: algebra_simps)
  have tm: "timely A (attos R) (us @ [u])" "wf_time t" "A + (2 * int (length bs) + 3) * attos R < attos t" "attos t < A + (2 * int (length bs) + 5) * attos R"
    using snoc.prems(4) [unfolded timely_snoc] l by (auto simp: ts algebra_simps)
  define Y where "Y = fold (bit_time now) bs X"
  have "\<exists>p. clocked A R (length bs) p (Y\<lparr>m_rcv_line := c\<rparr>) (line_run rc n (zip ts (bs @ [c])) s)"
    unfolding Y_def ts using snoc.IH [OF l _ st tm(1), of c] snoc.prems(2) le R(2) by (simp add: algebra_simps)
  then obtain p where p: "clocked A R (length bs) p (Y\<lparr>m_rcv_line := c\<rparr>) (line_run rc n (zip ts (bs @ [c])) s)" ..
  have rY: "receiving Y" using receive_prefix [OF X(1,2) _ X(3), of bs now] snoc.prems(2) st by (simp add: Y_def Let_def stops_ok_def)
  have rZ: "receiving (bit_time now c Y)"
    using receive_prefix [OF X(1,2) _ X(3), of "bs @ [c]" now] snoc.prems(2,3) by (simp add: Y_def Let_def stops_ok_def)
  have u: "receive_register_update_bit (m_rcv_line (Y\<lparr>m_rcv_line := c\<rparr>)) (Y\<lparr>m_rcv_line := c\<rparr>) = bit_time now c Y"
    using bit_time_receiving [OF rY] by simp
  have nf: "\<not> is_receive_register_full (bit_time now c Y)" using rZ by (simp add: receiving_def is_receive_register_full_def mask_bits)
  have "\<exists>p. clocked A R (Suc (length bs)) p (bit_time now c Y) (rcv_until rc n t (line_run rc n (zip ts (bs @ [c])) s))"
    using until_sample [OF p R le tm(2,3) less_imp_le [OF tm(4)] n, unfolded u, OF nf] .
  then obtain q where q: "clocked A R (Suc (length bs)) q (bit_time now c Y) (rcv_until rc n t (line_run rc n (zip ts (bs @ [c])) s))" ..
  have "line_run rc n (zip (ts @ [t]) ((bs @ [c]) @ [b])) s = rx_w t b (rcv_until rc n t (line_run rc n (zip ts (bs @ [c])) s))"
    using snoc.prems(1) zip_append [of ts "bs @ [c]" "[t]" "[b]"] by (simp only: line_run_append) simp
  then show ?case using clocked_line [OF q rZ] by (intro exI [of _ q]) (simp add: Y_def)
qed

lemma start_clocked:
  assumes "waiting s" "\<not> m_rcv_clock_state s" "m_rcv_rate s = R" "wf_time R" "wf_time a" "attos a + 2 * attos R < MAX_ATTOS"
  shows "clocked (attos a) R 0 False (rx_w a False s) (rx_w a False s)"
proof -
  have nn: "\<not> is_never R" using assms(4) by (simp add: wf_time_def is_never_def)
  define u where "u = receive_register_update_bit False (s\<lparr>m_rcv_line := False\<rparr>)"
  have u: "m_rcv_flags u AND RECEIVE_REGISTER_SYNCHRONISED \<noteq> 0" "m_rcv_rate u = R" "\<not> m_rcv_clock_state u"
    using assms(1-3) by (auto simp: u_def receive_register_update_bit_def waiting_def mask_bits bit_simps Let_def)
  define c where "c = timer_adjust a (attotime_mul R 2) 0 R (m_rcv_clock u)"
  have e: "rx_w a False s = u\<lparr>m_rcv_clock := c\<rparr>"
    using assms(1) u nn by (simp add: rx_w_def waiting_def mask_bits Let_def u_def [symmetric] c_def)
  have m: "wf_time (attotime_mul R 2)" "attos (attotime_mul R 2) = 2 * attos R"
    using attotime_mul_exact [OF assms(4), of 2] assms(5,6) wf_time_attos [OF assms(5)] by auto
  have "wf_time (m_expire c)" "attos (m_expire c) = attos a + 2 * attos R" "m_enabled c" "m_period c = R"
    using attotime_add_exact(1) [OF assms(5) m(1)] m assms(6) by (auto simp: c_def timer_adjust_def Let_def wf_time_def)
  moreover have "rx_w a False s = (rx_w a False s)\<lparr>m_rcv_clock := c, m_rcv_clock_state := False\<rparr>"
    using u(3) by (simp add: e)
  ultimately show ?thesis unfolding clocked_def by (intro exI [of _ c]) simp
qed

text \<open>A receiver between frames whose clock is stopped.\<close>

definition stopped :: "'a device_serial_interface_scheme \<Rightarrow> bool" where
  "stopped s \<longleftrightarrow> is_never (m_expire (m_rcv_clock s)) \<and> \<not> m_rcv_clock_state s"

lemma until_stopped: "stopped s \<Longrightarrow> rcv_until rc n \<tau> s = s"
  by (cases n) (simp_all add: stopped_def)

text \<open>A whole frame in time. The samples are those of \<open>receive_frame\<close>, one after the other.\<close>

lemma frame_in_time:
  assumes s: "waiting s" "stopped s" "m_rcv_rate s = R" and R: "wf_time R" "0 < attos R" and a: "wf_time a"
    and bs: "length bs = m_rcv_bit_count s" "bs \<noteq> []" "length bs \<le> 16" "stops_ok s bs"
    and ts: "length ts = length bs" "timely (attos a) (attos R) ts" and n: "3 \<le> n"
    and \<tau>: "wf_time \<tau>" "attos a + (2 * int (length bs) + 1) * attos R < attos \<tau>"
    and rc: "\<And>now s. m_rcv_clock (rc now s) = m_rcv_clock s"
  shows "\<exists>e c. wf_time e \<and> attos e = attos a + (2 * int (length bs) + 1) * attos R \<and> is_never (m_expire c) \<and>
    rcv_until rc n \<tau> (line_run rc n ((a, False) # zip ts bs) s) =
      rc e ((receive_frame a (False # bs) s)\<lparr>m_rcv_clock := c, m_rcv_clock_state := False\<rparr>)"
proof -
  obtain cs b where b: "bs = cs @ [b]" using bs(2) by (cases bs rule: rev_cases) auto
  obtain us u where u: "ts = us @ [u]" "length us = length cs" using ts(1) b by (cases ts rule: rev_cases) auto
  have max: "attos a + (2 * int (length bs) + 1) * attos R < MAX_ATTOS" using \<tau> wf_time_attos [OF \<tau>(1)] by linarith
  have ge: "2 * attos R \<le> (2 * int (length bs) + 1) * attos R" using R(2) b by (intro mult_right_mono) auto
  define X where "X = rx_w a False s"
  have nn: "\<not> m_start_bit_hack_for_external_clocks s \<or> \<not> is_never (m_rcv_rate s)" using s(3) R(1) by (simp add: wf_time_def is_never_def)
  note X = start_bit [OF s(1) nn, of a, folded X_def]
  have st: "stops_ok X bs" using bs(4) X by (simp add: stops_ok_def)
  have c0: "clocked (attos a) R 0 False X X"
    unfolding X_def using s(2) max ge by (intro start_clocked [OF s(1) _ s(3) R(1) a]) (auto simp: stopped_def)
  have t: "attos a + (2 * int (length cs) + 3) * attos R < MAX_ATTOS" using max b by (simp add: algebra_simps)
  have cnt: "m_rcv_bit_count X \<le> 16" "length cs < m_rcv_bit_count X" using X(5) bs(1,3) b by auto
  have stc: "stops_ok X cs" using st b stops_ok_prefix by blast
  define Y where "Y = fold (bit_time a) cs X"
  obtain p where p: "clocked (attos a) R (length cs) p (Y\<lparr>m_rcv_line := b\<rparr>) (line_run rc n (zip ts bs) X)"
    using events_clocked [OF X(1,2) cnt(1) c0 R n u(2) cnt(2) stc _ t, where now = a and b = b and rc = rc and t = u] ts(2) u b by (auto simp: Y_def)
  have rY: "receiving Y" using receive_prefix [OF X(1,2) cnt(2,1), of a] stc by (simp add: Y_def Let_def stops_ok_def)
  have full: "is_receive_register_full (bit_time a b Y)"
    using receive_all [OF X(1,2), of bs a] X(3,5) bs st b by (simp add: Y_def Let_def stops_ok_def)
  have ub: "receive_register_update_bit (m_rcv_line (Y\<lparr>m_rcv_line := b\<rparr>)) (Y\<lparr>m_rcv_line := b\<rparr>) = bit_time a b Y"
    using bit_time_receiving [OF rY] by simp
  have af: "attos a + (2 * int (length cs) + 3) * attos R < attos \<tau>" using \<tau>(2) b by (simp add: algebra_simps)
  have n2: "2 \<le> n" using n by simp
  have rf: "receive_frame a (False # bs) s = bit_time a b Y" using bs(1) b by (simp add: receive_frame_def X_def [symmetric] Y_def)
  have run: "line_run rc n ((a, False) # zip ts bs) s = line_run rc n (zip ts bs) X" using until_stopped [OF s(2)] by (simp add: X_def)
  show ?thesis using until_last [OF p R t \<tau>(1) af n2 _ rc, unfolded ub, OF full] b unfolding run rf by (simp add: algebra_simps)
qed

section \<open>A byte in time\<close>

text \<open>A receiver between frames that is set to a frame with one start bit, \<open>wl\<close> data bits, parity \<open>p\<close> and a stop bit, at half a bit time \<open>R\<close>.\<close>

definition ready :: "nat \<Rightarrow> parity_t \<Rightarrow> attotime \<Rightarrow> 'a device_serial_interface_scheme \<Rightarrow> bool" where
  "ready wl p R s \<longleftrightarrow> waiting s \<and> stopped s \<and> df_consistent s \<and> m_df_start_bit_count s = 1 \<and> m_df_word_length s = wl \<and> m_df_parity s = p \<and>
     m_df_min_rx_stop_bit_count s = 1 \<and> m_rcv_rate s = R"

lemma ready_body:
  fixes s :: "'a device_serial_interface_scheme"
  assumes "ready wl p R s" "wf_time R"
  shows "waiting s" "df_consistent s" "\<not> m_start_bit_hack_for_external_clocks s \<or> \<not> is_never (m_rcv_rate s)" "m_df_word_length s = wl" "m_df_parity s = p"
    "m_df_min_rx_stop_bit_count s = 1"
  using assms by (simp_all add: ready_def wf_time_def is_never_def)

lemma extract_clock:
  "receive_register_extract (s\<lparr>m_rcv_clock := c, m_rcv_clock_state := b\<rparr>) = (receive_register_extract s)\<lparr>m_rcv_clock := c, m_rcv_clock_state := b\<rparr>"
  by (simp add: receive_register_extract_def receive_register_reset_def Let_def)

text \<open>The times of a sender with its own bit time \<open>B\<close>.\<close>

lemma tolerance_timely:
  assumes "int (length ts) * \<bar>B - 2 * r\<bar> < r" "\<And>i. i < length ts \<Longrightarrow> wf_time (ts ! i) \<and> attos (ts ! i) = A + (int i + 1) * B"
  shows "timely A r ts"
  unfolding timely_def
proof (intro allI impI)
  fix i assume i: "i < length ts"
  have "(int i + 1) * \<bar>B - 2 * r\<bar> \<le> int (length ts) * \<bar>B - 2 * r\<bar>" using i by (intro mult_right_mono) auto
  then have "\<bar>(int i + 1) * (B - 2 * r)\<bar> < r" using assms(1) by (simp add: abs_mult)
  then have "- r < (int i + 1) * (B - 2 * r)" "(int i + 1) * (B - 2 * r) < r" by linarith+
  then show "wf_time (ts ! i) \<and> A + (2 * int i + 1) * r < attos (ts ! i) \<and> attos (ts ! i) < A + (2 * int i + 3) * r"
    using assms(2) [OF i] by (simp add: algebra_simps)
qed

text \<open>C8. Clock tolerance: a byte sent to an idle receiver by a sender whose bit time \<open>B\<close> is off by less than \<open>1 / 2n\<close> of the receiver's, \<open>n\<close> the bits after the start
  bit, arrives unchanged. The clock that starts with the start bit samples every bit while it is on the line, \<open>rcv_complete\<close> is called once, in the middle of the stop bit and
  with the register full, and the byte has no framing error. Three firings of the timer between two changes of the line are enough.\<close>

theorem serial_clock_tolerance:
  assumes "5 \<le> wl" "wl \<le> 8" "ready wl p R s" "wf_time R" "0 < attos R" "wf_time a"
    and "m_df_start_bit_count tx = 1" "m_df_word_length tx = wl" "m_df_parity tx = p" "0 < m_df_stop_bit_count tx"
    and "length ts = m_rcv_bit_count s" "\<And>i. i < length ts \<Longrightarrow> wf_time (ts ! i) \<and> attos (ts ! i) = attos a + (int i + 1) * B"
    and "int (m_rcv_bit_count s) * \<bar>B - 2 * attos R\<bar> < attos R"
    and "wf_time \<tau>" "attos a + (2 * int (m_rcv_bit_count s) + 1) * attos R < attos \<tau>"
    and "\<And>now s. m_rcv_clock (rcv_complete now s) = m_rcv_clock s"
  shows "\<exists>e u. rcv_until rcv_complete 3 \<tau> (line_run rcv_complete 3 (zip (a # ts) (frame_bits tx data)) s) = rcv_complete e u \<and>
    attos e = attos a + (2 * int (m_rcv_bit_count s) + 1) * attos R \<and> is_receive_register_full u \<and>
    m_rcv_byte_received (receive_register_extract u) = data AND mask wl \<and> \<not> m_rcv_framing_error (receive_register_extract u) \<and>
    m_rcv_parity_error (receive_register_extract u) = parity_error p (data AND mask wl) (transmit_parity p data)"
proof -
  define t where "t = receive_frame a (False # frame_body wl p data) s"
  note b = receive_body(1,2) [OF assms(1,2) ready_body [OF assms(3,4)], of data]
    receive_body(3-) [OF assms(1,2) ready_body [OF assms(3,4)], of a data, folded t_def]
  obtain k where k: "m_df_stop_bit_count tx = Suc k" using assms(10) by (cases "m_df_stop_bit_count tx") auto
  have l: "length ts = length (frame_body wl p data)" using b(1) assms(11) by simp
  have z: "zip (a # ts) (frame_bits tx data) = (a, False) # zip ts (frame_body wl p data)"
    using l by (simp add: frame_bits_body [OF assms(7-9) k] zip_append2)
  have r: "waiting s" "stopped s" "m_rcv_rate s = R" using assms(3) by (simp_all add: ready_def)
  have ne: "frame_body wl p data \<noteq> []" "length (frame_body wl p data) \<le> 16" using assms(2) by (auto simp: frame_body_def)
  have tm: "timely (attos a) (attos R) ts" using assms(11,12,13) by (intro tolerance_timely) auto
  obtain e c where ec: "attos e = attos a + (2 * int (m_rcv_bit_count s) + 1) * attos R"
      "rcv_until rcv_complete 3 \<tau> (line_run rcv_complete 3 ((a, False) # zip ts (frame_body wl p data)) s) = rcv_complete e (t\<lparr>m_rcv_clock := c, m_rcv_clock_state := False\<rparr>)"
    using frame_in_time [OF r assms(4-6) b(1) ne b(2) l tm order_refl assms(14), of rcv_complete] assms(15,16) unfolding b(1) t_def by blast
  show ?thesis
    unfolding z ec(2) by (intro exI conjI, rule refl, fact ec(1)) (use b in \<open>simp_all add: extract_clock extract_framing is_receive_register_full_def\<close>)
qed

theorem serial_clock_tolerance_witness:
  "let s = set_data_frame 1 8 PARITY_NONE STOP_BITS_1 (set_rcv_rate_baud attotime_zero 115200 (device_serial_interface_init attotime_zero));
       evs = zip (attotime_zero # map (\<lambda>i. Attotime 0 ((int i + 1) * 9100000000000)) [0..<9]) (frame_bits s 0x41);
       rc = (\<lambda>now. receive_register_extract)
   in m_rcv_byte_received (rcv_until rc 3 (Attotime 0 100000000000000) (line_run rc 3 evs s)) = 0x41"
proof -
  define s where "s = set_data_frame 1 8 PARITY_NONE STOP_BITS_1 (set_rcv_rate_baud attotime_zero 115200 (device_serial_interface_init attotime_zero))"
  define ts where "ts = map (\<lambda>i. Attotime 0 ((int i + 1) * 9100000000000)) [0..<9]"
  let ?R = "Attotime 0 4340277777778" and ?\<tau> = "Attotime 0 100000000000000" and ?rc = "\<lambda>now::attotime. receive_register_extract"
  have R: "attotime_div (baud_to_rate 115200) 2 = ?R" by code_simp
  have s: "ready 8 PARITY_NONE ?R s" "m_rcv_bit_count s = 9" "m_df_start_bit_count s = 1" "m_df_word_length s = 8" "m_df_parity s = PARITY_NONE"
      "0 < m_df_stop_bit_count s"
    using timer_never_expire [of attotime_zero]
    by (simp_all add: s_def set_rcv_rate_baud_def set_rcv_rate_def R ready_def waiting_def stopped_def df_consistent_def set_data_frame_def
        receive_register_reset_def device_serial_interface_init_def stop_bit_counts_def bit_simps)
  have ts: "length ts = m_rcv_bit_count s" "\<And>i. i < length ts \<Longrightarrow> wf_time (ts ! i) \<and> attos (ts ! i) = attos attotime_zero + (int i + 1) * 9100000000000"
    by (auto simp: ts_def s(2) wf_time_def attos_def atto_consts attotime_zero_def)
  have n: "int (m_rcv_bit_count s) * \<bar>9100000000000 - 2 * attos ?R\<bar> < attos ?R" "wf_time ?R" "0 < attos ?R" "wf_time attotime_zero" "wf_time ?\<tau>"
      "attos attotime_zero + (2 * int (m_rcv_bit_count s) + 1) * attos ?R < attos ?\<tau>"
    by (simp_all add: s(2) attos_def atto_consts wf_time_def attotime_zero_def)
  have rc: "m_rcv_clock (?rc now u) = m_rcv_clock u" for now u by (simp add: receive_register_extract_def receive_register_reset_def Let_def)
  have "m_rcv_byte_received (rcv_until ?rc 3 ?\<tau> (line_run ?rc 3 (zip (attotime_zero # ts) (frame_bits s 0x41)) s)) = 0x41 AND mask 8"
    using serial_clock_tolerance [where data = "0x41" and rcv_complete = ?rc, OF _ _ s(1) n(2-4) s(3-6) ts n(1,5,6) rc] by auto
  then show ?thesis by (simp add: s_def ts_def mask_eq_exp_minus_1)
qed

end
