(* ===== verification/Buffered_Serial.thy ===== *)
theory Buffered_Serial
  imports Serial_Clock
begin

unbundle bit_operations_syntax

text \<open>
  The buffered serial interface of \<^verbatim>\<open>src/emu/diserial.h\<close>: a serial interface with a ring of bytes that wait for the transmit register. The ring
  keeps a head, a tail and a flag that tells a full ring from an empty one. Its contract, a bounded queue, is the locale \<open>bounded_queue\<close>. The sender as a whole
  refines a list of the bits that are still to be sent (\<open>pending\<close>).
\<close>

section \<open>State and operations\<close>

text \<open>The length of \<open>m_fifo\<close> is the template parameter \<^verbatim>\<open>FIFO_LENGTH\<close>.\<close>

record buffered_serial = device_serial_interface +
  m_fifo :: "u8 list"
  m_head :: nat
  m_tail :: nat
  m_empty :: bool

definition clear_fifo :: "'a buffered_serial_scheme \<Rightarrow> 'a buffered_serial_scheme" where
  "clear_fifo s = s\<lparr>m_head := 0, m_tail := 0, m_empty := True\<rparr>"

definition fifo_empty :: "'a buffered_serial_scheme \<Rightarrow> bool" where
  "fifo_empty s \<longleftrightarrow> m_empty s"

definition fifo_full :: "'a buffered_serial_scheme \<Rightarrow> bool" where
  "fifo_full s \<longleftrightarrow> \<not> m_empty s \<and> m_head s = m_tail s"

text \<open>A byte into the ring and out of it, parts of the next two functions.\<close>

definition fifo_put_byte :: "u8 \<Rightarrow> 'a buffered_serial_scheme \<Rightarrow> 'a buffered_serial_scheme" where
  "fifo_put_byte byte s = s\<lparr>m_fifo := (m_fifo s)[m_tail s := byte], m_tail := (m_tail s + 1) mod length (m_fifo s), m_empty := False\<rparr>"

definition fifo_get_byte :: "'a buffered_serial_scheme \<Rightarrow> u8 \<times> 'a buffered_serial_scheme" where
  "fifo_get_byte s =
     (m_fifo s ! m_head s, let s1 = s\<lparr>m_head := (m_head s + 1) mod length (m_fifo s)\<rparr> in s1\<lparr>m_empty := (m_head s1 = m_tail s1)\<rparr>)"

definition buf_tra_complete :: "attotime \<Rightarrow> 'a buffered_serial_scheme \<Rightarrow> 'a buffered_serial_scheme" where
  "buf_tra_complete now s =
     (if \<not> m_empty s then snd (fifo_get_byte (transmit_register_setup now (fst (fifo_get_byte s)) s)) else s)"

definition transmit_byte :: "attotime \<Rightarrow> u8 \<Rightarrow> 'a buffered_serial_scheme \<Rightarrow> 'a buffered_serial_scheme" where
  "transmit_byte now byte s =
     (if m_empty s \<and> is_transmit_register_empty s then transmit_register_setup now byte s
      else if m_empty s \<or> m_head s \<noteq> m_tail s then fifo_put_byte byte s
      else s)"

definition buf_rcv_complete :: "(attotime \<Rightarrow> u8 \<Rightarrow> 'a buffered_serial_scheme \<Rightarrow> 'a buffered_serial_scheme) \<Rightarrow> attotime \<Rightarrow>
    'a buffered_serial_scheme \<Rightarrow> 'a buffered_serial_scheme" where
  "buf_rcv_complete received_byte now s = (let s1 = receive_register_extract s in received_byte now (m_rcv_byte_received s1) s1)"

section \<open>The ring as a queue\<close>

locale bounded_queue =
  fixes inv :: "'s \<Rightarrow> bool" and abs :: "'s \<Rightarrow> 'b list" and cap :: "'s \<Rightarrow> nat"
    and put :: "'b \<Rightarrow> 's \<Rightarrow> 's" and get :: "'s \<Rightarrow> 'b \<times> 's" and emp :: "'s \<Rightarrow> bool" and full :: "'s \<Rightarrow> bool"
  assumes empty_iff: "inv s \<Longrightarrow> emp s \<longleftrightarrow> abs s = []"
    and full_iff: "inv s \<Longrightarrow> full s \<longleftrightarrow> length (abs s) = cap s"
    and bounded: "inv s \<Longrightarrow> length (abs s) \<le> cap s"
    and put_law: "inv s \<Longrightarrow> \<not> full s \<Longrightarrow> inv (put x s) \<and> abs (put x s) = abs s @ [x] \<and> cap (put x s) = cap s"
    and get_law: "inv s \<Longrightarrow> \<not> emp s \<Longrightarrow> inv (snd (get s)) \<and> abs s = fst (get s) # abs (snd (get s)) \<and> cap (snd (get s)) = cap s"
begin

text \<open>As many bytes as there is room for come out in the order they went in.\<close>

primrec drain :: "nat \<Rightarrow> 's \<Rightarrow> 'b list" where
  "drain 0 s = []"
| "drain (Suc n) s = fst (get s) # drain n (snd (get s))"

lemma puts: "inv s \<Longrightarrow> length (abs s) + length xs \<le> cap s \<Longrightarrow> inv (fold put xs s) \<and> abs (fold put xs s) = abs s @ xs"
proof (induction xs arbitrary: s)
  case (Cons x xs)
  then have "\<not> full s" using full_iff by auto
  then show ?case using Cons put_law [of s x] by simp
qed simp

lemma drain_all: "inv s \<Longrightarrow> drain (length (abs s)) s = abs s"
proof (induction "abs s" arbitrary: s)
  case (Cons x xs)
  then have "\<not> emp s" using empty_iff by auto
  from get_law [OF Cons.prems this] show ?case using Cons(1) [of "snd (get s)"] Cons(2)
    by (metis drain.simps(2) length_Cons list.inject)
qed auto

lemma fifo: "inv s \<Longrightarrow> abs s = [] \<Longrightarrow> length xs \<le> cap s \<Longrightarrow> drain (length xs) (fold put xs s) = xs"
  using puts [of s xs] drain_all [of "fold put xs s"] by simp

end

definition fifo_num :: "'a buffered_serial_scheme \<Rightarrow> nat" where
  "fifo_num s = (if m_empty s then 0 else if m_head s < m_tail s then m_tail s - m_head s else length (m_fifo s) + m_tail s - m_head s)"

definition fifo_list :: "'a buffered_serial_scheme \<Rightarrow> u8 list" where
  "fifo_list s = map (\<lambda>i. m_fifo s ! ((m_head s + i) mod length (m_fifo s))) [0..<fifo_num s]"

text \<open>What the assertions of the code check.\<close>

definition fifo_wf :: "'a buffered_serial_scheme \<Rightarrow> bool" where
  "fifo_wf s \<longleftrightarrow> (m_empty s \<longrightarrow> m_head s = m_tail s) \<and> m_head s < length (m_fifo s) \<and> m_tail s < length (m_fifo s)"

lemma ring_inj: "(h + i) mod N = (h + j) mod N \<Longrightarrow> h < N \<Longrightarrow> i < N \<Longrightarrow> j < N \<Longrightarrow> i = (j::nat)"
  by (auto simp: mod_if split: if_splits)

lemma fifo_num_tail: "fifo_wf s \<Longrightarrow> fifo_num s \<le> length (m_fifo s) \<and> m_tail s = (m_head s + fifo_num s) mod length (m_fifo s)"
  by (auto simp: fifo_wf_def fifo_num_def)

lemma length_fifo_list [simp]: "length (fifo_list s) = fifo_num s"
  by (simp add: fifo_list_def)

lemma fifo_num_simps: "fifo_wf s \<Longrightarrow> m_empty s \<longleftrightarrow> fifo_num s = 0" "fifo_wf s \<Longrightarrow> fifo_full s \<longleftrightarrow> fifo_num s = length (m_fifo s)"
  by (auto simp: fifo_wf_def fifo_num_def fifo_full_def)

lemma fifo_put_law:
  assumes "fifo_wf s" "\<not> fifo_full s"
  shows "fifo_wf (fifo_put_byte x s) \<and> fifo_list (fifo_put_byte x s) = fifo_list s @ [x] \<and> length (m_fifo (fifo_put_byte x s)) = length (m_fifo s)"
proof -
  let ?N = "length (m_fifo s)" and ?n = "fifo_num s"
  have h: "m_head s < ?N" "m_tail s < ?N" using assms(1) by (simp_all add: fifo_wf_def)
  have n: "?n < ?N" "m_tail s = (m_head s + ?n) mod ?N"
    using fifo_num_tail [OF assms(1)] fifo_num_simps(2) [OF assms(1)] assms(2) by auto
  have m: "k mod ?N < ?N" for k using h(1) by (intro mod_less_divisor) auto
  have wf: "fifo_wf (fifo_put_byte x s)" using h m by (simp add: fifo_wf_def fifo_put_byte_def)
  have nn: "fifo_num (fifo_put_byte x s) = Suc ?n"
    using h assms by (auto simp: fifo_num_def fifo_put_byte_def fifo_wf_def fifo_full_def mod_if)
  have "fifo_list (fifo_put_byte x s) = fifo_list s @ [x]"
  proof (rule nth_equalityI)
    fix i assume "i < length (fifo_list (fifo_put_byte x s))"
    then consider "i < ?n" | "i = ?n" using nn by fastforce
    then show "fifo_list (fifo_put_byte x s) ! i = (fifo_list s @ [x]) ! i"
    proof cases
      case 1
      then have "(m_head s + i) mod ?N \<noteq> m_tail s" using n ring_inj [OF _ h(1), of i ?n] by auto
      moreover have "(m_head s + i) mod ?N < ?N" by (rule m)
      ultimately have "(m_head s + i) mod ?N < ?N \<and> (m_fifo s)[m_tail s := x] ! ((m_head s + i) mod ?N) = m_fifo s ! ((m_head s + i) mod ?N)" by simp
      then show ?thesis using 1 nn by (simp add: fifo_list_def nth_append) (simp add: fifo_put_byte_def)
    next
      case 2
      have "(m_fifo s)[m_tail s := x] ! ((m_head s + ?n) mod ?N) = x" unfolding n(2) [symmetric] using h(2) by simp
      then show ?thesis using 2 nn by (simp add: fifo_list_def nth_append del: upt_Suc) (simp add: fifo_put_byte_def)
    qed
  qed (use nn in simp)
  then show ?thesis using wf by (simp add: fifo_put_byte_def)
qed

lemma fifo_get_law:
  assumes "fifo_wf s" "\<not> fifo_empty s"
  shows "fifo_wf (snd (fifo_get_byte s)) \<and> fifo_list s = fst (fifo_get_byte s) # fifo_list (snd (fifo_get_byte s)) \<and>
    length (m_fifo (snd (fifo_get_byte s))) = length (m_fifo s)"
proof -
  let ?N = "length (m_fifo s)" and ?t = "snd (fifo_get_byte s)"
  have h: "m_head s < ?N" "m_tail s < ?N" "\<not> m_empty s" using assms by (simp_all add: fifo_wf_def fifo_empty_def)
  have m: "k mod ?N < ?N" for k using h(1) by (intro mod_less_divisor) auto
  have wf: "fifo_wf ?t" using h m by (auto simp: fifo_wf_def fifo_get_byte_def Let_def)
  have "Suc (m_head s) mod ?N = (if Suc (m_head s) = ?N then 0 else Suc (m_head s))" using h(1) by auto
  then have n: "fifo_num s = Suc (fifo_num ?t)" using h by (auto simp: fifo_num_def fifo_get_byte_def Let_def)
  have "fifo_list s = fst (fifo_get_byte s) # fifo_list ?t"
  proof (rule nth_equalityI)
    fix i assume i: "i < length (fifo_list s)"
    show "fifo_list s ! i = (fst (fifo_get_byte s) # fifo_list ?t) ! i"
    proof (cases i)
      case 0
      then show ?thesis using n h by (simp add: fifo_list_def fifo_get_byte_def nth_append del: upt_Suc)
    next
      case (Suc j)
      then have "j < fifo_num ?t" using i n by simp
      moreover have "((m_head s + 1) mod ?N + j) mod ?N = (m_head s + i) mod ?N" using Suc by (simp add: mod_add_left_eq)
      ultimately show ?thesis using Suc n i by (simp add: fifo_list_def del: upt_Suc) (simp add: fifo_get_byte_def Let_def)
    qed
  qed (use n in simp)
  then show ?thesis using wf by (simp add: fifo_get_byte_def Let_def)
qed

interpretation bq: bounded_queue fifo_wf fifo_list "\<lambda>s. length (m_fifo s)" fifo_put_byte fifo_get_byte fifo_empty fifo_full
proof (unfold_locales, goal_cases)
  case (1 s) then show ?case using fifo_num_simps(1) [OF 1] by (simp add: fifo_empty_def fifo_list_def)
next
  case (2 s) then show ?case using fifo_num_simps(2) [OF 2] by simp
next
  case (3 s) then show ?case using fifo_num_tail [OF 3] by simp
qed (fact fifo_put_law fifo_get_law)+

section \<open>The sender\<close>

text \<open>The serial interface leaves the fields of the device it is part of alone.\<close>

abbreviation dev_part :: "'a device_serial_interface_scheme \<Rightarrow> 'a" where
  "dev_part \<equiv> device_serial_interface.more"

lemma more_add_bits [simp]:
  "dev_part (transmit_register_add_bit b s) = dev_part s"
  "dev_part ((transmit_register_add_bit b ^^ n) s) = dev_part s"
  "dev_part (add_data_bits n x s) = dev_part s"
proof -
  show 1: "dev_part (transmit_register_add_bit b s) = dev_part s" for b and s :: "'a device_serial_interface_scheme" by (simp add: transmit_register_add_bit_def)
  show "dev_part ((transmit_register_add_bit b ^^ n) s) = dev_part s" by (induction n) (simp_all add: 1)
  show "dev_part (add_data_bits n x s) = dev_part s" by (induction n arbitrary: x s) (simp_all add: 1)
qed

lemma more_serial [simp]:
  "dev_part (transmit_register_setup now x s) = dev_part s" "dev_part (snd (transmit_register_get_data_bit s)) = dev_part s"
  "dev_part (receive_register_reset s) = dev_part s" "dev_part (receive_register_update_bit b s) = dev_part s" "dev_part (rx_w now b s) = dev_part s"
  "dev_part (receive_register_extract s) = dev_part s" "dev_part (set_data_frame st wl p sb s) = dev_part s" "dev_part (transmit_register_reset s) = dev_part s"
  by (simp_all add: transmit_register_setup_def transmit_register_get_data_bit_def receive_register_reset_def receive_register_update_bit_def rx_w_def
      receive_register_extract_def set_data_frame_def transmit_register_reset_def Let_def split: prod.split)

lemma more_receive_frame [simp]: "dev_part (receive_frame now bs s) = dev_part s"
proof -
  have "dev_part (fold (bit_time now) cs t) = dev_part t" for cs and t :: "'a device_serial_interface_scheme"
    by (induction cs arbitrary: t) (simp_all add: bit_time_def Let_def)
  then show ?thesis by (simp add: receive_frame_def)
qed

lemma dev_part_fifo:
  "dev_part t = dev_part s \<Longrightarrow> m_fifo t = m_fifo s \<and> m_head t = m_head s \<and> m_tail t = m_tail s \<and> m_empty t = m_empty s \<and> buffered_serial.more t = buffered_serial.more s"
  by (cases t; cases s) simp

lemma fifo_list_cong: "dev_part t = dev_part s \<Longrightarrow> fifo_list t = fifo_list s" "dev_part t = dev_part s \<Longrightarrow> fifo_wf t = fifo_wf s"
  using dev_part_fifo [of t s] by (simp_all add: fifo_list_def fifo_num_def fifo_wf_def)

lemma setup_frame [simp]:
  "m_df_start_bit_count (transmit_register_setup now x s) = m_df_start_bit_count s" "m_df_word_length (transmit_register_setup now x s) = m_df_word_length s"
  "m_df_parity (transmit_register_setup now x s) = m_df_parity s" "m_df_stop_bit_count (transmit_register_setup now x s) = m_df_stop_bit_count s"
  by (simp_all add: transmit_register_setup_def Let_def)

text \<open>The bits that wait to be sent: the rest of the register, and the frames of the bytes in the ring.\<close>

definition pending :: "'a buffered_serial_scheme \<Rightarrow> bool list" where
  "pending s = (if is_transmit_register_empty s then [] else drop (m_tra_bit_count_transmitted s) (tra_list s)) @ concat (map (frame_bits s) (fifo_list s))"

text \<open>A sender whose frames fit the register, and whose ring is used only while the register is in use.\<close>

definition sender_ok :: "'a buffered_serial_scheme \<Rightarrow> bool" where
  "sender_ok s \<longleftrightarrow> fifo_wf s \<and> (is_transmit_register_empty s \<longrightarrow> m_empty s) \<and>
     (\<not> is_transmit_register_empty s \<longrightarrow> m_tra_bit_count_transmitted s < m_tra_bit_count s \<and> m_tra_bit_count s \<le> 16) \<and>
     (\<forall>x. frame_bits s x \<noteq> [] \<and> length (frame_bits s x) \<le> 16)"

lemma frame_bits_setup [simp]: "frame_bits (transmit_register_setup now x s) = frame_bits s"
  by (simp add: frame_bits_def fun_eq_iff)

lemma fifo_list_empty: "fifo_wf s \<Longrightarrow> m_empty s \<longleftrightarrow> fifo_list s = []"
  using bq.empty_iff [of s] by (simp add: fifo_empty_def)

lemma setup_pending:
  assumes "fifo_wf s" "\<forall>x. frame_bits s x \<noteq> [] \<and> length (frame_bits s x) \<le> 16"
  shows "sender_ok (transmit_register_setup now x s)" "pending (transmit_register_setup now x s) = frame_bits s x @ concat (map (frame_bits s) (fifo_list s))"
proof -
  let ?t = "transmit_register_setup now x s"
  have m: "dev_part ?t = dev_part s" by simp
  have "length (frame_bits s x) \<le> 16" "0 < length (frame_bits s x)" using assms(2) by auto
  note S = transmit_register_setup_list [OF this(1), of now] this
  show "sender_ok ?t" unfolding sender_ok_def fifo_list_cong(2) [OF m] using assms S by simp
  show "pending ?t = frame_bits s x @ concat (map (frame_bits s) (fifo_list s))" unfolding pending_def fifo_list_cong(1) [OF m] using S by simp
qed

lemma transmit_byte_pending:
  assumes "sender_ok s"
  shows "sender_ok (transmit_byte now x s)" "pending (transmit_byte now x s) = pending s @ (if fifo_full s then [] else frame_bits s x)"
    "frame_bits (transmit_byte now x s) = frame_bits s" "buffered_serial.more (transmit_byte now x s) = buffered_serial.more s"
proof -
  have wf: "fifo_wf s" and fb: "\<forall>x. frame_bits s x \<noteq> [] \<and> length (frame_bits s x) \<le> 16" using assms by (simp_all add: sender_ok_def)
  consider (reg) "m_empty s" "is_transmit_register_empty s" | (put) "\<not> (m_empty s \<and> is_transmit_register_empty s)" "\<not> fifo_full s" | (full) "fifo_full s"
    by blast
  then have "sender_ok (transmit_byte now x s) \<and> pending (transmit_byte now x s) = pending s @ (if fifo_full s then [] else frame_bits s x) \<and>
    frame_bits (transmit_byte now x s) = frame_bits s \<and> buffered_serial.more (transmit_byte now x s) = buffered_serial.more s"
  proof cases
    case reg
    have m: "buffered_serial.more (transmit_register_setup now x s) = buffered_serial.more s" using dev_part_fifo [of "transmit_register_setup now x s" s] by simp
    have "pending s = []" using reg fifo_list_empty [OF wf] by (simp add: pending_def)
    then show ?thesis using reg m setup_pending [OF wf fb, of now x] fifo_list_empty [OF wf] by (simp add: transmit_byte_def fifo_full_def)
  next
    case put
    let ?t = "fifo_put_byte x s"
    have t: "transmit_byte now x s = ?t" using put by (auto simp: transmit_byte_def fifo_full_def)
    note P = bq.put_law [OF wf put(2), of x]
    have k: "frame_bits ?t = frame_bits s" "is_transmit_register_empty ?t = is_transmit_register_empty s" "m_tra_bit_count_transmitted ?t = m_tra_bit_count_transmitted s"
        "tra_list ?t = tra_list s" "m_tra_bit_count ?t = m_tra_bit_count s" "buffered_serial.more ?t = buffered_serial.more s"
      by (simp_all add: fifo_put_byte_def frame_bits_def fun_eq_iff is_transmit_register_empty_def tra_list_def)
    have "\<not> is_transmit_register_empty s" using put(1) assms by (auto simp: sender_ok_def)
    then show ?thesis using P assms put(2) unfolding t sender_ok_def pending_def k by simp
  next
    case full
    then have "transmit_byte now x s = s" by (auto simp: transmit_byte_def fifo_full_def)
    then show ?thesis using full assms by simp
  qed
  then show "sender_ok (transmit_byte now x s)" "pending (transmit_byte now x s) = pending s @ (if fifo_full s then [] else frame_bits s x)"
    "frame_bits (transmit_byte now x s) = frame_bits s" "buffered_serial.more (transmit_byte now x s) = buffered_serial.more s" by blast+
qed

text \<open>The callback at the end of a frame, when the register is empty: the next byte goes from the ring into the register.\<close>

lemma tra_complete_pending:
  assumes "fifo_wf s" "is_transmit_register_empty s" "\<forall>x. frame_bits s x \<noteq> [] \<and> length (frame_bits s x) \<le> 16"
  shows "sender_ok (buf_tra_complete now s)" "pending (buf_tra_complete now s) = pending s" "frame_bits (buf_tra_complete now s) = frame_bits s"
    "buffered_serial.more (buf_tra_complete now s) = buffered_serial.more s"
proof -
  have "sender_ok (buf_tra_complete now s) \<and> pending (buf_tra_complete now s) = pending s \<and> frame_bits (buf_tra_complete now s) = frame_bits s \<and>
    buffered_serial.more (buf_tra_complete now s) = buffered_serial.more s"
  proof (cases "m_empty s")
    case True
    then show ?thesis using assms by (simp add: buf_tra_complete_def sender_ok_def)
  next
    case False
    let ?x = "fst (fifo_get_byte s)"
    define u where "u = transmit_register_setup now ?x s"
    let ?v = "snd (fifo_get_byte u)"
    have e: "buf_tra_complete now s = ?v" using False by (simp add: buf_tra_complete_def u_def)
    have m: "dev_part u = dev_part s" by (simp add: u_def)
    have u: "fifo_wf u" "\<not> fifo_empty u" "fst (fifo_get_byte u) = ?x"
      using assms(1) False fifo_list_cong(2) [OF m] dev_part_fifo [OF m] by (simp_all add: fifo_empty_def fifo_get_byte_def)
    note G = bq.get_law [OF u(1,2), unfolded u(3) fifo_list_cong(1) [OF m]]
    note S = setup_pending [OF assms(1,3), of now ?x, folded u_def]
    have k: "frame_bits ?v = frame_bits u" "is_transmit_register_empty ?v = is_transmit_register_empty u" "m_tra_bit_count_transmitted ?v = m_tra_bit_count_transmitted u"
        "tra_list ?v = tra_list u" "m_tra_bit_count ?v = m_tra_bit_count u" "buffered_serial.more ?v = buffered_serial.more u"
      by (simp_all add: fifo_get_byte_def frame_bits_def fun_eq_iff is_transmit_register_empty_def tra_list_def Let_def)
    have ne: "\<not> is_transmit_register_empty u" "frame_bits u = frame_bits s"
      using transmit_register_setup_list(4) [of s ?x now] assms(3) by (simp_all add: u_def)
    have "sender_ok ?v" using S(1) G ne unfolding sender_ok_def k by simp
    moreover have "pending ?v = pending s" using S(2) G ne assms(2) fifo_list_cong(1) [OF m] unfolding pending_def k by simp
    ultimately show ?thesis using ne(2) dev_part_fifo [OF m] unfolding e k by simp
  qed
  then show "sender_ok (buf_tra_complete now s)" "pending (buf_tra_complete now s) = pending s" "frame_bits (buf_tra_complete now s) = frame_bits s"
    "buffered_serial.more (buf_tra_complete now s) = buffered_serial.more s" by blast+
qed

end
