(* ===== verification/Terminal.thy ===== *)
theory Terminal
  imports Emu_Timer
begin

unbundle bit_operations_syntax

text \<open>
  The terminal of \<^verbatim>\<open>src/devices/machine/terminal.cpp\<close>: a screen of characters with a cursor, a bell and a keyboard. A store outside of
  the buffer sets the flag \<open>term_ub\<close>, which no operation ever does (\<open>term_write_ok\<close>). The option port is a field, since
  the user can change it at any time. What the screen shows is compared with a list of rows.
\<close>

section \<open>State and operations\<close>

record generic_terminal =
  m_io_term_conf :: u16
  m_width :: nat
  m_height :: nat
  m_buffer :: "u8 list"
  m_x_pos :: nat
  m_y_pos :: nat
  m_framecnt :: nat
  m_beeper :: bool
  m_bell_timer :: emu_timer
  term_keys :: "u8 list"
  term_ub :: bool

text \<open>\<^verbatim>\<open>memmove\<close> of all rows but the first, and \<^verbatim>\<open>memset\<close> of the last.\<close>

definition scroll_line :: "generic_terminal \<Rightarrow> generic_terminal" where
  "scroll_line t =
     (let w = m_width t; h = m_height t;
          moved = take ((h - 1) * w) (drop w (m_buffer t)) @ drop ((h - 1) * w) (m_buffer t)
      in t\<lparr>m_buffer := take (w * (h - 1)) moved @ replicate w 0x20 @ drop (w * (h - 1) + w) moved\<rparr>)"

text \<open>The next line, with a scroll at the bottom.\<close>

definition next_line :: "generic_terminal \<Rightarrow> generic_terminal" where
  "next_line t =
     (let t1 = t\<lparr>m_y_pos := (m_y_pos t + 1) mod 256\<rparr>
      in if m_y_pos t1 \<ge> m_height t1 then (scroll_line t1)\<lparr>m_y_pos := (m_height t1 - 1) mod 256\<rparr> else t1)"

definition write_char :: "u8 \<Rightarrow> generic_terminal \<Rightarrow> generic_terminal" where
  "write_char data t =
     (let pos = m_y_pos t * m_width t + m_x_pos t;
          t1 = (if pos < length (m_buffer t) then t\<lparr>m_buffer := (m_buffer t)[pos := data]\<rparr> else t\<lparr>term_ub := True\<rparr>);
          t2 = t1\<lparr>m_x_pos := (m_x_pos t1 + 1) mod 256\<rparr>
      in if m_x_pos t2 \<ge> m_width t2 then next_line (t2\<lparr>m_x_pos := 0\<rparr>) else t2)"

definition clear :: "generic_terminal \<Rightarrow> generic_terminal" where
  "clear t = t\<lparr>m_buffer := replicate (m_width t * m_height t) 0x20 @ drop (m_width t * m_height t) (m_buffer t), m_x_pos := 0, m_y_pos := 0\<rparr>"

definition linefeed :: "generic_terminal \<Rightarrow> generic_terminal" where
  "linefeed t =
     (let t1 = next_line t
      in if m_io_term_conf t1 AND 0x040 \<noteq> 0 then t1\<lparr>m_x_pos := 0\<rparr> else t1)"

definition term_write :: "attotime \<Rightarrow> u8 \<Rightarrow> generic_terminal \<Rightarrow> generic_terminal" where
  "term_write now data t =
     (if data > 0x1f then (if data \<noteq> 0x7f then write_char data t else t)
      else if data = 0x07 then
        t\<lparr>m_beeper := True,
          m_bell_timer := timer_adjust now (from_msec 250) (m_param (m_bell_timer t)) (m_period (m_bell_timer t)) (m_bell_timer t)\<rparr>
      else if data = 0x08 then (if m_x_pos t \<noteq> 0 then t\<lparr>m_x_pos := m_x_pos t - 1\<rparr> else t)
      else if data = 0x09 then t\<lparr>m_x_pos := min (((m_x_pos t AND 0xf8) + 8) mod 256) ((m_width t - 1) mod 256)\<rparr>
      else if data = 0x0d then
        (let t1 = t\<lparr>m_x_pos := 0\<rparr> in if m_io_term_conf t1 AND 0x080 = 0 then t1 else linefeed t1)
      else if data = 0x0a then linefeed t
      else if data = 0x0b then (if m_y_pos t \<noteq> 0 then t\<lparr>m_y_pos := m_y_pos t - 1\<rparr> else t)
      else if data = 0x0c then clear t
      else if data = 0x1e then t\<lparr>m_x_pos := 0, m_y_pos := 0\<rparr>
      else t)"

definition bell_off :: "generic_terminal \<Rightarrow> generic_terminal" where
  "bell_off t = t\<lparr>m_beeper := False\<rparr>"

text \<open>A key: shown if local echo is on, then sent. The generic terminal sends it to its keyboard callback.\<close>

definition send_key :: "u8 \<Rightarrow> generic_terminal \<Rightarrow> generic_terminal" where
  "send_key code t = t\<lparr>term_keys := term_keys t @ [code]\<rparr>"

definition kbd_put :: "attotime \<Rightarrow> u8 \<Rightarrow> generic_terminal \<Rightarrow> generic_terminal" where
  "kbd_put now data t = send_key data (if m_io_term_conf t AND 0x100 \<noteq> 0 then term_write now data t else t)"

text \<open>The constructor with \<^verbatim>\<open>device_start\<close>, and the reset.\<close>

definition generic_terminal_start :: "attotime \<Rightarrow> u16 \<Rightarrow> nat \<Rightarrow> nat \<Rightarrow> generic_terminal" where
  "generic_terminal_start now conf w h =
     \<lparr>m_io_term_conf = conf, m_width = w, m_height = h, m_buffer = replicate (w * h) 0, m_x_pos = 0, m_y_pos = 0, m_framecnt = 0, m_beeper = False,
      m_bell_timer = timer_init now attotime_never 0, term_keys = [], term_ub = False\<rparr>"

definition terminal_reset :: "generic_terminal \<Rightarrow> generic_terminal" where
  "terminal_reset t = (clear (t\<lparr>m_beeper := False\<rparr>))\<lparr>m_framecnt := 0\<rparr>"

section \<open>Invariant\<close>

definition term_ok :: "generic_terminal \<Rightarrow> bool" where
  "term_ok t \<longleftrightarrow> 0 < m_width t \<and> m_width t < 256 \<and> 0 < m_height t \<and> m_height t < 256 \<and> length (m_buffer t) = m_width t * m_height t \<and>
     m_x_pos t < m_width t \<and> m_y_pos t < m_height t \<and> \<not> term_ub t"

lemma pos_in_buffer: "y < h \<Longrightarrow> x < w \<Longrightarrow> y * w + x < w * (h::nat)"
proof -
  assume "y < h" "x < w"
  then have "y * w + x < (y + 1) * w" by simp
  also have "\<dots> \<le> h * w" using \<open>y < h\<close> by (intro mult_le_mono1) simp
  finally show ?thesis by (simp add: mult.commute)
qed

lemma length_scroll: "term_ok t \<Longrightarrow> length (m_buffer (scroll_line t)) = m_width t * m_height t"
  by (cases "m_height t") (auto simp: term_ok_def scroll_line_def Let_def min_def algebra_simps)

lemma scroll_line_simps [simp]:
  "m_width (scroll_line t) = m_width t" "m_height (scroll_line t) = m_height t" "m_x_pos (scroll_line t) = m_x_pos t" "m_y_pos (scroll_line t) = m_y_pos t"
  "term_ub (scroll_line t) = term_ub t" "m_io_term_conf (scroll_line t) = m_io_term_conf t"
  by (simp_all add: scroll_line_def Let_def)

lemma next_line_ok: "term_ok t \<Longrightarrow> term_ok (next_line t)"
proof -
  assume ok: "term_ok t"
  have l: "length (m_buffer (scroll_line (t\<lparr>m_y_pos := y\<rparr>))) = m_width t * m_height t" for y
    using ok by (cases "m_height t") (auto simp: term_ok_def scroll_line_def Let_def min_def algebra_simps)
  show ?thesis using ok l by (auto simp: term_ok_def next_line_def Let_def)
qed

lemma write_char_ok: "term_ok t \<Longrightarrow> term_ok (write_char c t)"
proof -
  assume ok: "term_ok t"
  have p: "m_y_pos t * m_width t + m_x_pos t < length (m_buffer t)" using ok pos_in_buffer by (simp add: term_ok_def)
  let ?t = "t\<lparr>m_buffer := (m_buffer t)[m_y_pos t * m_width t + m_x_pos t := c]\<rparr>"
  have "term_ok (?t\<lparr>m_x_pos := 0\<rparr>)" using ok by (simp add: term_ok_def)
  then have "term_ok (next_line (?t\<lparr>m_x_pos := 0\<rparr>))" by (rule next_line_ok)
  then show ?thesis using ok p by (auto simp: write_char_def Let_def term_ok_def [of "?t\<lparr>m_x_pos := _\<rparr>"]) (auto simp: term_ok_def)
qed

lemma linefeed_ok: "term_ok t \<Longrightarrow> term_ok (linefeed t)"
  using next_line_ok [of t] by (auto simp: linefeed_def Let_def term_ok_def)

lemma term_ok_upd:
  "term_ok t \<Longrightarrow> x < m_width t \<Longrightarrow> term_ok (t\<lparr>m_x_pos := x\<rparr>)" "term_ok t \<Longrightarrow> y < m_height t \<Longrightarrow> term_ok (t\<lparr>m_y_pos := y\<rparr>)"
  "term_ok t \<Longrightarrow> term_ok (t\<lparr>m_x_pos := 0, m_y_pos := 0\<rparr>)" "term_ok t \<Longrightarrow> term_ok (t\<lparr>m_beeper := b, m_bell_timer := e\<rparr>)" "term_ok t \<Longrightarrow> term_ok (clear t)"
  "term_ok t \<Longrightarrow> m_x_pos t - 1 < m_width t" "term_ok t \<Longrightarrow> m_y_pos t - 1 < m_height t" "term_ok t \<Longrightarrow> 0 < m_width t"
  "term_ok t \<Longrightarrow> min n ((m_width t - 1) mod 256) < m_width t"
  by (auto simp: term_ok_def clear_def min_def)

lemma term_ok_if: "(P \<Longrightarrow> term_ok a) \<Longrightarrow> (\<not> P \<Longrightarrow> term_ok b) \<Longrightarrow> term_ok (if P then a else b)"
  by simp

lemma term_write_ok: "term_ok t \<Longrightarrow> term_ok (term_write now c t)"
  unfolding term_write_def Let_def
  by (intro term_ok_if; (rule write_char_ok linefeed_ok term_ok_upd | assumption)+)

section \<open>The rows of the screen\<close>

definition rows :: "generic_terminal \<Rightarrow> u8 list list" where
  "rows t = map (\<lambda>y. take (m_width t) (drop (y * m_width t) (m_buffer t))) [0..<m_height t]"

lemma length_rows [simp]: "length (rows t) = m_height t"
  by (simp add: rows_def)

abbreviation blank_row :: "nat \<Rightarrow> u8 list" where
  "blank_row w \<equiv> replicate w 0x20"

lemma row_nth:
  assumes "length b = w * h" "y < h" "x < w"
  shows "take w (drop (y * w) b) ! x = b ! (y * w + x)"
  using assms pos_in_buffer [of y h x w] by simp

lemma rows_eqI:
  assumes "length b = w * h" "length rs = h" "\<And>y. y < h \<Longrightarrow> length (rs ! y) = w" "\<And>y x. y < h \<Longrightarrow> x < w \<Longrightarrow> b ! (y * w + x) = rs ! y ! x"
  shows "map (\<lambda>y. take w (drop (y * w) b)) [0..<h] = rs"
proof (rule nth_equalityI)
  fix y assume "y < length (map (\<lambda>y. take w (drop (y * w) b)) [0..<h])"
  then have y: "y < h" by simp
  have "w + y * w \<le> w * h" using mult_le_mono2 [of "Suc y" h w] y by (simp add: mult.commute)
  then have "length (take w (drop (y * w) b)) = w" using assms(1) by simp
  then have "take w (drop (y * w) b) = rs ! y"
    using assms(3,4) [OF y] row_nth [OF assms(1) y] by (intro nth_equalityI) auto
  then show "map (\<lambda>y. take w (drop (y * w) b)) [0..<h] ! y = rs ! y" using y by simp
qed (use assms(2) in simp)

lemma buffer_rows: "term_ok t \<Longrightarrow> y < m_height t \<Longrightarrow> x < m_width t \<Longrightarrow> m_buffer t ! (y * m_width t + x) = rows t ! y ! x"
  using row_nth [of "m_buffer t" "m_width t" "m_height t" y x] by (simp add: term_ok_def rows_def)

lemma length_row: "term_ok t \<Longrightarrow> y < m_height t \<Longrightarrow> length (rows t ! y) = m_width t"
proof -
  assume "term_ok t" "y < m_height t"
  then show ?thesis using mult_le_mono2 [of "Suc y" "m_height t" "m_width t"] by (simp add: rows_def term_ok_def mult.commute)
qed

lemma rows_put:
  assumes "term_ok t" "y < m_height t" "x < m_width t"
  shows "map (\<lambda>r. take (m_width t) (drop (r * m_width t) ((m_buffer t)[y * m_width t + x := c]))) [0..<m_height t] = (rows t)[y := (rows t ! y)[x := c]]"
proof (rule rows_eqI)
  fix r k assume rk: "r < m_height t" "k < m_width t"
  have "r = y \<and> k = x" if "r * m_width t + k = y * m_width t + x"
    using arg_cong [OF that, of "\<lambda>n. n div m_width t"] arg_cong [OF that, of "\<lambda>n. n mod m_width t"] rk assms(3) by simp
  then show "(m_buffer t)[y * m_width t + x := c] ! (r * m_width t + k) = (rows t)[y := (rows t ! y)[x := c]] ! r ! k"
    using buffer_rows [OF assms(1) rk] length_row [OF assms(1,2)] assms rk pos_in_buffer [OF rk] pos_in_buffer [OF assms(2,3)]
    by (auto simp: nth_list_update term_ok_def)
qed (use assms length_row [OF assms(1)] in \<open>auto simp: term_ok_def nth_list_update\<close>)

lemma rows_scroll:
  assumes "term_ok t"
  shows "rows (scroll_line t) = tl (rows t) @ [blank_row (m_width t)]"
proof -
  let ?w = "m_width t" and ?h = "m_height t"
  have ok: "length (m_buffer t) = ?w * ?h" "0 < ?h" using assms by (auto simp: term_ok_def)
  obtain n where n: "?h = Suc n" using ok(2) by (cases ?h) auto
  have b: "m_buffer (scroll_line t) = drop ?w (m_buffer t) @ blank_row ?w"
    using ok n by (simp add: scroll_line_def Let_def algebra_simps)
  have "map (\<lambda>y. take ?w (drop (y * ?w) (m_buffer (scroll_line t)))) [0..<?h] = tl (rows t) @ [blank_row ?w]"
  proof (rule rows_eqI)
    fix y x assume yx: "y < ?h" "x < ?w"
    have i: "y * ?w + x < ?w * n \<longleftrightarrow> y < n"
    proof
      assume "y < n" then show "y * ?w + x < ?w * n" using yx(2) by (intro pos_in_buffer) auto
    next
      assume "y * ?w + x < ?w * n"
      then have "y * ?w < n * ?w" unfolding mult.commute [of ?w n] by linarith
      then show "y < n" by simp
    qed
    show "m_buffer (scroll_line t) ! (y * ?w + x) = (tl (rows t) @ [blank_row ?w]) ! y ! x"
    proof (cases "y < n")
      case True
      then have "m_buffer (scroll_line t) ! (y * ?w + x) = m_buffer t ! (Suc y * ?w + x)"
        using i ok n by (simp add: b nth_append algebra_simps)
      also have "\<dots> = rows t ! Suc y ! x" using True n yx(2) by (intro buffer_rows [OF assms]) auto
      finally show ?thesis using True n by (simp add: nth_append nth_tl)
    next
      case False
      then have y: "y = n" using yx(1) n by simp
      then have "m_buffer (scroll_line t) ! (y * ?w + x) = 0x20" using ok n yx(2) by (simp add: b nth_append algebra_simps)
      then show ?thesis using y n yx(2) by (simp add: nth_append)
    qed
  next
    fix y assume y: "y < ?h"
    show "length ((tl (rows t) @ [blank_row ?w]) ! y) = ?w"
      using length_row [OF assms, of "Suc y"] y n by (cases "y < n") (auto simp: nth_append nth_tl)
  qed (use length_scroll [OF assms] n in auto)
  then show ?thesis by (simp add: rows_def)
qed

section \<open>Text\<close>

definition printable :: "u8 \<Rightarrow> bool" where
  "printable c \<longleftrightarrow> c > 0x1f \<and> c \<noteq> 0x7f"

text \<open>The parts of a terminal a text depends on: size, options, rows and cursor.\<close>

definition screen_is :: "nat \<Rightarrow> nat \<Rightarrow> u16 \<Rightarrow> u8 list list \<Rightarrow> nat \<Rightarrow> nat \<Rightarrow> generic_terminal \<Rightarrow> bool" where
  "screen_is w h conf rs x y t \<longleftrightarrow> term_ok t \<and> m_width t = w \<and> m_height t = h \<and> m_io_term_conf t = conf \<and> rows t = rs \<and> m_x_pos t = x \<and> m_y_pos t = y"

lemma write_char_screen:
  assumes "screen_is w h conf rs x y t" "Suc x < w"
  shows "screen_is w h conf (rs[y := (rs ! y)[x := c]]) (Suc x) y (write_char c t)"
proof -
  have ok: "term_ok t" "y < h" "x < w" using assms by (auto simp: screen_is_def term_ok_def)
  have "y * w + x < w * h" using ok by (intro pos_in_buffer)
  then have p: "y * w + x < length (m_buffer t)" using assms(1) by (auto simp: screen_is_def term_ok_def)
  have w: "w < 256" using assms(1) by (auto simp: screen_is_def term_ok_def)
  have "rows (t\<lparr>m_buffer := (m_buffer t)[y * w + x := c], m_x_pos := Suc x\<rparr>) = rs[y := (rs ! y)[x := c]]"
    using rows_put [OF ok(1), of y x c] ok assms(1) by (simp add: rows_def [of "t\<lparr>m_buffer := _, m_x_pos := _\<rparr>"] screen_is_def)
  moreover have "write_char c t = t\<lparr>m_buffer := (m_buffer t)[y * w + x := c], m_x_pos := Suc x\<rparr>"
    using assms p w by (simp add: write_char_def Let_def screen_is_def)
  ultimately show ?thesis using assms write_char_ok [OF ok(1), of c] by (simp add: screen_is_def)
qed

lemma write_line_screen:
  assumes "screen_is w h conf rs x y t" "x + length l < w" "\<forall>c \<in> set l. printable c"
  shows "screen_is w h conf (rs[y := take x (rs ! y) @ l @ drop (x + length l) (rs ! y)]) (x + length l) y (fold (term_write now) l t)"
  using assms
proof (induction l arbitrary: rs x t)
  case Nil
  then show ?case by simp
next
  case (Cons c l)
  have y: "y < length rs" "length (rs ! y) = w" using Cons.prems(1) length_row by (auto simp: screen_is_def term_ok_def)
  have "term_write now c t = write_char c t" using Cons.prems(3) by (simp add: term_write_def printable_def)
  moreover have "screen_is w h conf (rs[y := (rs ! y)[x := c]]) (Suc x) y (write_char c t)"
    using Cons.prems by (intro write_char_screen) auto
  from Cons.IH [OF this] have "screen_is w h conf (rs[y := take (Suc x) ((rs ! y)[x := c]) @ l @ drop (Suc x + length l) ((rs ! y)[x := c])]) (Suc x + length l) y
      (fold (term_write now) l (write_char c t))"
    using Cons.prems(2,3) y(1) by simp
  moreover have "take (Suc x) ((rs ! y)[x := c]) = take x (rs ! y) @ [c]" using y(2) Cons.prems(2) by (simp add: take_Suc_conv_app_nth)
  ultimately show ?case using y by simp
qed

lemma next_line_screen:
  assumes "screen_is w h conf rs x y t"
  shows "screen_is w h conf (if Suc y < h then rs else tl rs @ [blank_row w]) x (min (Suc y) (h - 1)) (next_line t)"
proof -
  have ok: "term_ok t" "h < 256" "y < h" using assms by (auto simp: screen_is_def term_ok_def)
  have y: "rows (t\<lparr>m_y_pos := n\<rparr>) = rows t" for n by (simp add: rows_def)
  have s: "scroll_line (t\<lparr>m_y_pos := n\<rparr>) = (scroll_line t)\<lparr>m_y_pos := n\<rparr>" for n by (simp add: scroll_line_def Let_def)
  have z: "rows ((scroll_line t)\<lparr>m_y_pos := n\<rparr>) = rows (scroll_line t)" for n by (simp add: rows_def)
  show ?thesis
    using assms ok next_line_ok [OF ok(1)] rows_scroll [OF ok(1)]
    by (auto simp: screen_is_def next_line_def Let_def s z y min_def)
qed

lemma crlf_screen:
  assumes "screen_is w h conf rs x y t" "conf AND 0x080 = 0"
  shows "screen_is w h conf (if Suc y < h then rs else tl rs @ [blank_row w]) 0 (min (Suc y) (h - 1)) (fold (term_write now) [0x0d, 0x0a] t)"
proof -
  have c: "screen_is w h conf rs 0 y (t\<lparr>m_x_pos := 0\<rparr>)" using assms(1) by (auto simp: screen_is_def rows_def term_ok_def)
  have "term_write now 0x0d t = t\<lparr>m_x_pos := 0\<rparr>" using assms by (simp add: term_write_def screen_is_def)
  moreover have "term_write now 0x0a (t\<lparr>m_x_pos := 0\<rparr>) = next_line (t\<lparr>m_x_pos := 0\<rparr>)"
  proof -
    have "m_x_pos (next_line (t\<lparr>m_x_pos := 0\<rparr>)) = 0" using next_line_screen [OF c] by (simp add: screen_is_def)
    then have "(next_line (t\<lparr>m_x_pos := 0\<rparr>))\<lparr>m_x_pos := 0\<rparr> = next_line (t\<lparr>m_x_pos := 0\<rparr>)" by simp
    then show ?thesis by (simp add: term_write_def linefeed_def Let_def)
  qed
  ultimately show ?thesis using next_line_screen [OF c] by simp
qed

text \<open>What a screen shows after lines of text: the last ones, and an empty line below them.\<close>

definition pad :: "nat \<Rightarrow> u8 list \<Rightarrow> u8 list" where
  "pad w l = l @ replicate (w - length l) 0x20"

definition shown :: "nat \<Rightarrow> nat \<Rightarrow> u8 list list \<Rightarrow> u8 list list" where
  "shown w h ls =
     (let all = map (pad w) ls @ [blank_row w]
      in drop (length all - h) all @ replicate (h - length all) (blank_row w))"

lemma shown_step:
  assumes "0 < h" "R = shown w h ls" "y = min (length ls) (h - 1)"
  shows "length R = h" "R ! y = blank_row w"
    "(if Suc y < h then R[y := pad w l] else tl (R[y := pad w l]) @ [blank_row w]) = shown w h (ls @ [l])"
proof -
  show len: "length R = h" using assms(2) by (auto simp: shown_def Let_def)
  show "R ! y = blank_row w" using assms by (auto simp: shown_def Let_def nth_append min_def)
  show "(if Suc y < h then R[y := pad w l] else tl (R[y := pad w l]) @ [blank_row w]) = shown w h (ls @ [l])"
  proof (cases "Suc (length ls) < h")
    case True
    then obtain k where k: "h = length ls + 2 + k" using less_iff_Suc_add [of "Suc (length ls)" h] by auto
    then show ?thesis using assms(2,3) by (simp add: shown_def Let_def list_update_append)
  next
    case False
    obtain n where n: "h = Suc n" using assms(1) by (cases h) auto
    have le: "n \<le> length ls" using False n by simp
    have R: "R = drop (length ls - n) (map (pad w) ls) @ [blank_row w]" using assms(2) n le by (simp add: shown_def Let_def)
    have "R[y := pad w l] = drop (length ls - n) (map (pad w) ls) @ [pad w l]" using R assms(3) n le by (simp add: list_update_append min_def)
    moreover have "tl (drop (length ls - n) (map (pad w) ls) @ [pad w l]) = drop (Suc (length ls) - n) (map (pad w) ls @ [pad w l])"
    proof (cases "n = 0")
      case False
      then have "drop (length ls - n) (map (pad w) ls) \<noteq> []" using le by simp
      then show ?thesis using le by (simp add: tl_append2 tl_drop drop_Suc Suc_diff_le)
    qed simp
    ultimately show ?thesis using False n le assms(3) by (cases n) (auto simp: shown_def Let_def)
  qed
qed

lemma write_lines_screen:
  assumes "screen_is w h conf (shown w h []) 0 0 t" "conf AND 0x080 = 0" "\<forall>l \<in> set ls. length l < w \<and> (\<forall>c \<in> set l. printable c)"
  shows "screen_is w h conf (shown w h ls) 0 (min (length ls) (h - 1)) (fold (term_write now) (concat (map (\<lambda>l. l @ [0x0d, 0x0a]) ls)) t)"
  using assms(3)
proof (induction ls rule: rev_induct)
  case Nil
  then show ?case using assms(1) by simp
next
  case (snoc l ls)
  let ?y = "min (length ls) (h - 1)"
  let ?t = "fold (term_write now) (concat (map (\<lambda>l. l @ [0x0d, 0x0a]) ls)) t"
  have i: "screen_is w h conf (shown w h ls) 0 ?y ?t" using snoc by simp
  then have h: "0 < h" by (auto simp: screen_is_def term_ok_def)
  have s: "screen_is w h conf ((shown w h ls)[?y := take 0 (shown w h ls ! ?y) @ l @ drop (0 + length l) (shown w h ls ! ?y)]) (0 + length l) ?y (fold (term_write now) l ?t)"
    using snoc.prems by (intro write_line_screen [OF i]) auto
  note S = shown_step [OF h refl refl, where w = w and ls = ls]
  have "take 0 (shown w h ls ! ?y) @ l @ drop (0 + length l) (shown w h ls ! ?y) = pad w l" using S(2) by (simp add: pad_def)
  from crlf_screen [OF s [unfolded this] assms(2), of now] show ?case
    using S(3) [of l] h by (simp add: min_def split: if_splits)
qed

lemma reset_screen:
  assumes "term_ok t"
  shows "screen_is (m_width t) (m_height t) (m_io_term_conf t) (shown (m_width t) (m_height t) []) 0 0 (terminal_reset t)"
proof -
  have "rows (terminal_reset t) = replicate (m_height t) (blank_row (m_width t))"
  proof -
    have l: "length (m_buffer (terminal_reset t)) = m_width t * m_height t" using assms by (simp add: terminal_reset_def clear_def term_ok_def)
    have "m_buffer (terminal_reset t) = replicate (m_width t * m_height t) 0x20" using assms by (simp add: terminal_reset_def clear_def term_ok_def)
    then have "map (\<lambda>y. take (m_width t) (drop (y * m_width t) (m_buffer (terminal_reset t)))) [0..<m_height t] = replicate (m_height t) (blank_row (m_width t))"
      using pos_in_buffer by (intro rows_eqI [OF l]) auto
    then show ?thesis by (simp add: rows_def terminal_reset_def clear_def)
  qed
  then show ?thesis using assms by (cases "m_height t") (auto simp: screen_is_def terminal_reset_def clear_def term_ok_def shown_def Let_def)
qed

text \<open>Lines of text sent to a terminal that was reset, each ended by a carriage return and a line feed, appear on the screen one below the other, and once it is
  full the last of them stay and the older ones scroll out at the top; the cursor is at the start of the empty line below. No store leaves the buffer.\<close>

theorem terminal_shows_lines:
  assumes "term_ok t" "m_io_term_conf t AND 0x080 = 0" "\<forall>l \<in> set ls. length l < m_width t \<and> (\<forall>c \<in> set l. printable c)"
  shows "let t' = fold (term_write now) (concat (map (\<lambda>l. l @ [0x0d, 0x0a]) ls)) (terminal_reset t)
    in rows t' = shown (m_width t) (m_height t) ls \<and> m_x_pos t' = 0 \<and> m_y_pos t' = min (length ls) (m_height t - 1) \<and> \<not> term_ub t'"
  using write_lines_screen [OF reset_screen [OF assms(1)] assms(2,3), of now] by (simp add: screen_is_def term_ok_def Let_def)

theorem terminal_shows_lines_witness:
  "rows (fold (term_write attotime_zero) (concat (map (\<lambda>l. l @ [0x0d, 0x0a]) [[0x41, 0x42], [0x43]])) (terminal_reset (generic_terminal_start attotime_zero 0x4f 4 2)))
     = [[0x43, 0x20, 0x20, 0x20], [0x20, 0x20, 0x20, 0x20]]"
proof -
  let ?t = "generic_terminal_start attotime_zero 0x4f 4 2"
  have "term_ok ?t" "m_io_term_conf ?t AND 0x080 = 0" by (simp_all add: generic_terminal_start_def term_ok_def)
  moreover have "\<forall>l \<in> set [[0x41, 0x42], [0x43]]. length l < m_width ?t \<and> (\<forall>c \<in> set l. printable c)"
    by (simp add: generic_terminal_start_def printable_def)
  ultimately show ?thesis
    using terminal_shows_lines [of ?t "[[0x41, 0x42], [0x43]]" attotime_zero] by (simp add: shown_def pad_def generic_terminal_start_def numeral_eq_Suc Let_def)
qed

end
