(* ===== verification/Serial_Terminal.thy ===== *)
theory Serial_Terminal
  imports "HOL-Library.Monad_Syntax" Buffered_Serial Terminal
begin

unbundle bit_operations_syntax

text \<open>
  The RS-232 port (\<^verbatim>\<open>src/devices/bus/rs232/rs232.cpp\<close>, \<^verbatim>\<open>rs232.h\<close>) and the serial terminal in it (\<^verbatim>\<open>src/devices/bus/rs232/terminal.cpp\<close>),
  the device the boards have on channel A of their DUART. The calls of the port's handlers are recorded in \<open>port_calls\<close>.
\<close>

section \<open>The port\<close>

datatype rs232_line = RXD | DCD | DSR | RI | SI | CTS | RXC | TXC

record rs232_port =
  m_rxd :: bool
  m_dcd :: bool
  m_dsr :: bool
  m_ri :: bool
  m_si :: bool
  m_cts :: bool
  m_dce_rxc :: bool
  m_dce_txc :: bool
  port_calls :: "(rs232_line \<times> bool) list"

text \<open>The constructor with \<^verbatim>\<open>device_resolve_objects\<close>; the reset, which calls the handlers with the lines as they are.\<close>

definition rs232_port_start :: rs232_port where
  "rs232_port_start = \<lparr>m_rxd = True, m_dcd = True, m_dsr = True, m_ri = True, m_si = True, m_cts = True, m_dce_rxc = False, m_dce_txc = False, port_calls = []\<rparr>"

definition rs232_port_reset :: "rs232_port \<Rightarrow> rs232_port" where
  "rs232_port_reset p =
     p\<lparr>port_calls := port_calls p @ [(RXD, m_rxd p), (DCD, m_dcd p), (DSR, m_dsr p), (RI, m_ri p), (SI, m_si p), (CTS, m_cts p)]\<rparr>"

text \<open>The functions \<^verbatim>\<open>output_rxd\<close>, \<^verbatim>\<open>output_dcd\<close> and so on.\<close>

fun set_line :: "rs232_line \<Rightarrow> bool \<Rightarrow> rs232_port \<Rightarrow> rs232_port" where
  "set_line RXD b p = p\<lparr>m_rxd := b\<rparr>"
| "set_line DCD b p = p\<lparr>m_dcd := b\<rparr>"
| "set_line DSR b p = p\<lparr>m_dsr := b\<rparr>"
| "set_line RI b p = p\<lparr>m_ri := b\<rparr>"
| "set_line SI b p = p\<lparr>m_si := b\<rparr>"
| "set_line CTS b p = p\<lparr>m_cts := b\<rparr>"
| "set_line RXC b p = p\<lparr>m_dce_rxc := b\<rparr>"
| "set_line TXC b p = p\<lparr>m_dce_txc := b\<rparr>"

definition output_line :: "rs232_line \<Rightarrow> bool \<Rightarrow> rs232_port \<Rightarrow> rs232_port" where
  "output_line l b p = (set_line l b p)\<lparr>port_calls := port_calls p @ [(l, b)]\<rparr>"

text \<open>\<^verbatim>\<open>write_txd\<close>, \<^verbatim>\<open>write_dtr\<close> and so on pass a level on to the card in the port, if there is one.\<close>

definition write_line :: "(bool \<Rightarrow> 'd \<Rightarrow> 'd) \<Rightarrow> bool \<Rightarrow> 'd option \<Rightarrow> 'd option" where
  "write_line input state m_dev = (case m_dev of Some d \<Rightarrow> Some (input state d) | None \<Rightarrow> None)"

text \<open>The settings of the ports; \<^const>\<open>None\<close> is a read past the end of the table.\<close>

definition table_get :: "'b list \<Rightarrow> nat \<Rightarrow> 'b option" where
  "table_get xs i = (if i < length xs then Some (xs ! i) else None)"

definition convert_baud :: "nat \<Rightarrow> int option" where
  "convert_baud = table_get [110, 150, 300, 600, 1200, 2400, 4800, 9600, 14400, 19200, 28800, 38400, 57600, 115200,
     50, 75, 134, 200, 1800, 2000, 3600, 7200, 111900, 76800, 78125]"

definition convert_databits :: "nat \<Rightarrow> nat option" where
  "convert_databits = table_get [5, 6, 7, 8]"

definition convert_parity :: "nat \<Rightarrow> parity_t option" where
  "convert_parity = table_get [PARITY_NONE, PARITY_ODD, PARITY_EVEN, PARITY_MARK, PARITY_SPACE]"

definition convert_stopbits :: "nat \<Rightarrow> stop_bits_t option" where
  "convert_stopbits = table_get [STOP_BITS_0, STOP_BITS_1, STOP_BITS_1_5, STOP_BITS_2]"

section \<open>The terminal\<close>

record serial_terminal = buffered_serial +
  st_term :: generic_terminal
  m_port :: rs232_port
  m_rs232_txbaud :: nat
  m_rs232_rxbaud :: nat
  m_rs232_databits :: nat
  m_rs232_parity :: nat
  m_rs232_stopbits :: nat

definition output_port :: "rs232_line \<Rightarrow> bool \<Rightarrow> serial_terminal \<Rightarrow> serial_terminal" where
  "output_port l b s = s\<lparr>m_port := output_line l b (m_port s)\<rparr>"

definition input_txd :: "attotime \<Rightarrow> bool \<Rightarrow> serial_terminal \<Rightarrow> serial_terminal" where
  "input_txd now state s = rx_w now state s"

definition update_serial :: "attotime \<Rightarrow> serial_terminal \<Rightarrow> serial_terminal option" where
  "update_serial now s =
     (let s1 = clear_fifo s
      in do {
        databits \<leftarrow> convert_databits (m_rs232_databits s1);
        parity \<leftarrow> convert_parity (m_rs232_parity s1);
        stopbits \<leftarrow> convert_stopbits (m_rs232_stopbits s1);
        let s2 = set_data_frame 1 databits parity stopbits s1;
        txbaud \<leftarrow> convert_baud (m_rs232_txbaud s2);
        let s3 = set_tra_rate_baud now txbaud s2;
        rxbaud \<leftarrow> convert_baud (m_rs232_rxbaud s3);
        let s4 = set_rcv_rate_baud now rxbaud s3;
        let s5 = output_port CTS False (output_port DSR False (output_port DCD False (output_port RXD True s4)));
        Some (transmit_register_reset (receive_register_reset s5))
      })"

definition st_device_reset :: "attotime \<Rightarrow> serial_terminal \<Rightarrow> serial_terminal option" where
  "st_device_reset now s = update_serial now (s\<lparr>st_term := terminal_reset (st_term s)\<rparr>)"

definition st_send_key :: "attotime \<Rightarrow> u8 \<Rightarrow> serial_terminal \<Rightarrow> serial_terminal" where
  "st_send_key now code s = transmit_byte now code s"

definition st_tra_callback :: "serial_terminal \<Rightarrow> serial_terminal" where
  "st_tra_callback s = (let (b, s1) = transmit_register_get_data_bit s in output_port RXD b s1)"

definition received_byte :: "attotime \<Rightarrow> u8 \<Rightarrow> serial_terminal \<Rightarrow> serial_terminal" where
  "received_byte now byte s = s\<lparr>st_term := term_write now byte (st_term s)\<rparr>"

text \<open>The inherited \<^verbatim>\<open>kbd_put\<close> with this \<^verbatim>\<open>send_key\<close>, and the inherited timer callbacks with these virtual functions.\<close>

definition st_kbd_put :: "attotime \<Rightarrow> u8 \<Rightarrow> serial_terminal \<Rightarrow> serial_terminal" where
  "st_kbd_put now data s =
     st_send_key now data (if m_io_term_conf (st_term s) AND 0x100 \<noteq> 0 then s\<lparr>st_term := term_write now data (st_term s)\<rparr> else s)"

definition st_tra_clock :: "attotime \<Rightarrow> serial_terminal \<Rightarrow> serial_terminal" where
  "st_tra_clock now s = tx_clock_w (\<lambda>s. s) (\<lambda>f. f) st_tra_callback (buf_tra_complete now) now (\<not> m_tra_clock_state s) s"

definition st_rcv_complete :: "attotime \<Rightarrow> serial_terminal \<Rightarrow> serial_terminal" where
  "st_rcv_complete = buf_rcv_complete received_byte"

text \<open>The terminal after its start, with the settings of the ports.\<close>

definition serial_terminal_start :: "attotime \<Rightarrow> u16 \<Rightarrow> nat \<Rightarrow> nat \<Rightarrow> nat \<Rightarrow> nat \<Rightarrow> nat \<Rightarrow> serial_terminal" where
  "serial_terminal_start now conf txbaud rxbaud databits parity stopbits =
     device_serial_interface.extend (device_serial_interface_init now)
       \<lparr>m_fifo = replicate 16 0, m_head = 0, m_tail = 0, m_empty = True, st_term = generic_terminal_start now conf 80 24, m_port = rs232_port_start,
        m_rs232_txbaud = txbaud, m_rs232_rxbaud = rxbaud, m_rs232_databits = databits, m_rs232_parity = parity, m_rs232_stopbits = stopbits\<rparr>"

section \<open>Keys on the line\<close>

text \<open>A terminal in use: keys are typed, and the transmit clock ticks.\<close>

datatype kbd_event = Key u8 | Tick

definition kbd_step :: "attotime \<Rightarrow> kbd_event \<Rightarrow> serial_terminal \<Rightarrow> serial_terminal" where
  "kbd_step now ev s = (case ev of Key c \<Rightarrow> st_kbd_put now c s | Tick \<Rightarrow> st_tra_clock now s)"

definition rxd_bits :: "serial_terminal \<Rightarrow> bool list" where
  "rxd_bits s = map snd (filter (\<lambda>(l, b). l = RXD) (port_calls (m_port s)))"

lemma port_more: "buffered_serial.more (t::serial_terminal) = buffered_serial.more s \<Longrightarrow> m_port t = m_port s \<and> st_term t = st_term s"
  by (cases t; cases s) simp

lemma tra_callback_parts:
  assumes "sender_ok s" "\<not> is_transmit_register_empty s"
  defines "u \<equiv> st_tra_callback s"
  shows "fifo_wf u" "frame_bits u = frame_bits s" "\<exists>b. rxd_bits u = rxd_bits s @ [b] \<and> pending s = b # pending u"
    "\<not> is_transmit_register_empty u \<Longrightarrow> sender_ok u" "st_term u = st_term s"
proof -
  obtain b v where g: "transmit_register_get_data_bit s = (b, v)" by fastforce
  have t: "m_tra_bit_count_transmitted s < m_tra_bit_count s" "m_tra_bit_count s \<le> 16" using assms(1,2) by (simp_all add: sender_ok_def)
  note G = get_data_bit_list [OF t g]
  have u: "u = output_port RXD b v" by (simp add: u_def st_tra_callback_def g)
  have m: "dev_part v = dev_part s" using more_serial(2) [of s] g by simp
  have vp: "m_port v = m_port s" "st_term v = st_term s" using dev_part_fifo [OF m] port_more [of v s] by auto
  have k: "fifo_wf u = fifo_wf v" "fifo_list u = fifo_list v" "frame_bits u = frame_bits v" "is_transmit_register_empty u = is_transmit_register_empty v"
      "m_tra_bit_count_transmitted u = m_tra_bit_count_transmitted v" "m_tra_bit_count u = m_tra_bit_count v" "tra_list u = tra_list v" "m_empty u = m_empty v"
    by (simp_all add: u output_port_def fifo_wf_def fifo_list_def fifo_num_def frame_bits_def fun_eq_iff is_transmit_register_empty_def tra_list_def)
  have fb: "frame_bits v = frame_bits s" using g by (auto simp: transmit_register_get_data_bit_def Let_def frame_bits_def fun_eq_iff split: if_splits)
  have fw: "fifo_wf s" using assms(1) by (simp add: sender_ok_def)
  show "fifo_wf u" using k(1) fifo_list_cong(2) [OF m] fw by simp
  show "frame_bits u = frame_bits s" using k fb by simp
  show "st_term u = st_term s" using vp by (simp add: u output_port_def)
  show "\<exists>b. rxd_bits u = rxd_bits s @ [b] \<and> pending s = b # pending u"
  proof (intro exI conjI)
    show "rxd_bits u = rxd_bits s @ [b]" by (simp add: u output_port_def rxd_bits_def output_line_def vp)
    have "drop (m_tra_bit_count_transmitted s) (tra_list s) = b # drop (Suc (m_tra_bit_count_transmitted s)) (tra_list s)"
      using G(1) t by (simp add: Cons_nth_drop_Suc)
    moreover have "Suc (m_tra_bit_count_transmitted s) = m_tra_bit_count s \<Longrightarrow> drop (Suc (m_tra_bit_count_transmitted s)) (tra_list s) = []" by simp
    ultimately show "pending s = b # pending u"
      unfolding pending_def k fb fifo_list_cong(1) [OF m] using assms(2) G(2-5) by auto
  qed
  show "sender_ok u" if "\<not> is_transmit_register_empty u"
    using assms(1,2) that G t \<open>fifo_wf u\<close> unfolding sender_ok_def k fb by auto
qed

text \<open>Fields the sender does not depend on.\<close>

lemma frame_upd [simp]:
  "frame_bits (s\<lparr>m_tra_clock := c\<rparr>) = frame_bits s" "frame_bits (s\<lparr>m_tra_clock_state := b\<rparr>) = frame_bits s"
  "frame_bits (s\<lparr>st_term := t\<rparr>) = frame_bits s"
  by (simp_all add: frame_bits_def fun_eq_iff)

lemma sender_upd [simp]:
  "sender_ok (s\<lparr>m_tra_clock := c\<rparr>) = sender_ok s" "pending (s\<lparr>m_tra_clock := c\<rparr>) = pending s" "rxd_bits (s\<lparr>m_tra_clock := c\<rparr>) = rxd_bits s"
  "sender_ok (s\<lparr>m_tra_clock_state := b\<rparr>) = sender_ok s" "pending (s\<lparr>m_tra_clock_state := b\<rparr>) = pending s" "rxd_bits (s\<lparr>m_tra_clock_state := b\<rparr>) = rxd_bits s"
  "sender_ok (s\<lparr>st_term := t\<rparr>) = sender_ok s" "pending (s\<lparr>st_term := t\<rparr>) = pending s" "rxd_bits (s\<lparr>st_term := t\<rparr>) = rxd_bits s"
  "fifo_full (s\<lparr>st_term := t\<rparr>) = fifo_full s"
  by (simp_all add: sender_ok_def pending_def is_transmit_register_empty_def tra_list_def fifo_list_def fifo_num_def fifo_wf_def fifo_full_def rxd_bits_def)

lemma clock_state_setup [simp]: "m_tra_clock_state (transmit_register_setup now x s) = m_tra_clock_state s"
proof -
  have 1: "m_tra_clock_state ((transmit_register_add_bit b ^^ n) u) = m_tra_clock_state u" for b n and u :: "'a device_serial_interface_scheme"
    by (induction n) (simp_all add: transmit_register_add_bit_def)
  have 2: "m_tra_clock_state (add_data_bits n y u) = m_tra_clock_state u" for n y and u :: "'a device_serial_interface_scheme"
    by (induction n arbitrary: y u) (simp_all add: transmit_register_add_bit_def)
  show ?thesis by (simp add: transmit_register_setup_def Let_def 1 2 transmit_register_add_bit_def)
qed

text \<open>A tick: the clock line toggles, and with its rising edge the first pending bit goes out on RXD.\<close>

definition tick_spec :: "bool \<Rightarrow> bool list \<Rightarrow> bool list" where
  "tick_spec clk bits = (if \<not> clk then take 1 bits else [])"

lemma tra_edge_sends:
  fixes now :: attotime
  assumes "sender_ok s"
  defines "u \<equiv> tra_edge (\<lambda>s. s) (\<lambda>f. f) st_tra_callback (buf_tra_complete now) now s"
  shows "sender_ok u \<and> frame_bits u = frame_bits s \<and> st_term u = st_term s \<and> m_tra_clock_state u = m_tra_clock_state s \<and>
    rxd_bits u = rxd_bits s @ take 1 (pending s) \<and> pending u = drop 1 (pending s)"
proof (cases "is_transmit_register_empty s")
  case True
  then have p: "pending s = []" using assms(1) fifo_list_empty by (auto simp: sender_ok_def pending_def)
  have "u = s \<or> (\<exists>c. u = s\<lparr>m_tra_clock := c\<rparr>)" using True by (auto simp: u_def tra_edge_def Let_def)
  then show ?thesis using assms(1) p by auto
next
  case False
  define v where "v = st_tra_callback s"
  note C = tra_callback_parts [OF assms(1) False, folded v_def]
  obtain b where b: "rxd_bits v = rxd_bits s @ [b]" "pending s = b # pending v" using C(3) by blast
  have cv: "m_tra_clock_state v = m_tra_clock_state s"
    by (simp add: v_def st_tra_callback_def output_port_def transmit_register_get_data_bit_def Let_def)
  define w where "w = (if is_transmit_register_empty v then buf_tra_complete now v else v)"
  have fb: "\<forall>x. frame_bits v x \<noteq> [] \<and> length (frame_bits v x) \<le> 16" using assms(1) C(2) by (simp add: sender_ok_def)
  have w: "sender_ok w \<and> pending w = pending v \<and> frame_bits w = frame_bits s \<and> st_term w = st_term s \<and> rxd_bits w = rxd_bits v \<and> m_tra_clock_state w = m_tra_clock_state s"
  proof (cases "is_transmit_register_empty v")
    case True
    note T = tra_complete_pending [OF C(1) True fb, of now]
    have "m_tra_clock_state (buf_tra_complete now v) = m_tra_clock_state v" by (simp add: buf_tra_complete_def fifo_get_byte_def Let_def)
    then show ?thesis using True T(1-3) port_more [OF T(4)] C(2,5) cv by (simp add: w_def rxd_bits_def)
  next
    case False
    then show ?thesis using C cv by (simp add: w_def)
  qed
  have "u = w \<or> (\<exists>c. u = w\<lparr>m_tra_clock := c\<rparr>)" using False by (auto simp: u_def tra_edge_def Let_def v_def [symmetric] w_def)
  then show ?thesis using w b by auto
qed

lemma tick_step:
  fixes now :: attotime
  assumes "sender_ok s"
  defines "u \<equiv> st_tra_clock now s"
  shows "sender_ok u" "frame_bits u = frame_bits s" "m_tra_clock_state u = (\<not> m_tra_clock_state s)"
    "rxd_bits u = rxd_bits s @ tick_spec (m_tra_clock_state s) (pending s)" "pending u = drop (length (tick_spec (m_tra_clock_state s) (pending s))) (pending s)"
proof -
  let ?d = "s\<lparr>m_tra_clock_state := \<not> m_tra_clock_state s\<rparr>"
  have d: "sender_ok ?d" using assms(1) by simp
  have e: "drop (length (take 1 xs)) xs = drop 1 xs" for xs :: "bool list" by (cases xs) auto
  define v where "v = tra_edge (\<lambda>s. s) (\<lambda>f. f) st_tra_callback (buf_tra_complete now) now ?d"
  note V = tra_edge_sends [OF d, of now, folded v_def]
  have u: "u = (if m_tra_clock_state s then ?d else v)"
    by (simp add: u_def st_tra_clock_def tx_clock_w_def Let_def v_def)
  have "sender_ok u \<and> frame_bits u = frame_bits s \<and> m_tra_clock_state u = (\<not> m_tra_clock_state s) \<and>
    rxd_bits u = rxd_bits s @ tick_spec (m_tra_clock_state s) (pending s) \<and> pending u = drop (length (tick_spec (m_tra_clock_state s) (pending s))) (pending s)"
  proof (cases "m_tra_clock_state s")
    case True
    then show ?thesis using assms(1) by (simp add: u tick_spec_def)
  next
    case False
    then have "u = v" "tick_spec (m_tra_clock_state s) (pending s) = take 1 (pending s)" by (simp_all add: u tick_spec_def)
    then show ?thesis using V e [of "pending s"] False by simp
  qed
  then show "sender_ok u" "frame_bits u = frame_bits s" "m_tra_clock_state u = (\<not> m_tra_clock_state s)"
    "rxd_bits u = rxd_bits s @ tick_spec (m_tra_clock_state s) (pending s)" "pending u = drop (length (tick_spec (m_tra_clock_state s) (pending s))) (pending s)"
    by blast+
qed

text \<open>The ring only grows with keys.\<close>

lemma fifo_upd [simp]:
  "fifo_list (s\<lparr>m_tra_clock := c\<rparr>) = fifo_list s" "fifo_list (s\<lparr>m_tra_clock_state := b\<rparr>) = fifo_list s" "fifo_list (s\<lparr>st_term := t\<rparr>) = fifo_list s"
  "fifo_list (output_port l x s) = fifo_list s" "m_fifo (output_port l x s) = m_fifo s" "fifo_wf (output_port l x s) = fifo_wf s"
  by (simp_all add: fifo_list_def fifo_num_def output_port_def fifo_wf_def)

lemma complete_fifo:
  assumes "fifo_wf s"
  shows "length (fifo_list (buf_tra_complete now s)) \<le> length (fifo_list s)" "m_fifo (buf_tra_complete now s) = m_fifo s"
proof -
  have "length (fifo_list (buf_tra_complete now s)) \<le> length (fifo_list s) \<and> m_fifo (buf_tra_complete now s) = m_fifo s"
  proof (cases "m_empty s")
    case False
    define u where "u = transmit_register_setup now (fst (fifo_get_byte s)) s"
    have m: "dev_part u = dev_part s" by (simp add: u_def)
    have u: "fifo_wf u" "\<not> fifo_empty u" using assms False fifo_list_cong(2) [OF m] dev_part_fifo [OF m] by (simp_all add: fifo_empty_def)
    have e: "buf_tra_complete now s = snd (fifo_get_byte u)" using False by (simp add: buf_tra_complete_def u_def)
    have l: "length (fifo_list s) = Suc (length (fifo_list (snd (fifo_get_byte u))))"
      unfolding fifo_list_cong(1) [OF m, symmetric] using bq.get_law [OF u] by (metis length_Cons)
    have "m_fifo (snd (fifo_get_byte u)) = m_fifo u" by (simp add: fifo_get_byte_def Let_def)
    then show ?thesis unfolding e using l dev_part_fifo [OF m] by simp
  qed (simp add: buf_tra_complete_def)
  then show "length (fifo_list (buf_tra_complete now s)) \<le> length (fifo_list s)" "m_fifo (buf_tra_complete now s) = m_fifo s" by blast+
qed

lemma tick_fifo:
  assumes "sender_ok s"
  shows "length (fifo_list (st_tra_clock now s)) \<le> length (fifo_list s) \<and> m_fifo (st_tra_clock now s) = m_fifo s"
proof -
  define d where "d = s\<lparr>m_tra_clock_state := \<not> m_tra_clock_state s\<rparr>"
  have d: "fifo_wf d" "fifo_list d = fifo_list s" "m_fifo d = m_fifo s" using assms by (simp_all add: d_def sender_ok_def fifo_wf_def)
  have m: "dev_part (snd (transmit_register_get_data_bit d)) = dev_part d" by simp
  define v where "v = st_tra_callback d"
  have "v = output_port RXD (fst (transmit_register_get_data_bit d)) (snd (transmit_register_get_data_bit d))"
    by (simp add: v_def st_tra_callback_def split: prod.split)
  then have v: "fifo_list v = fifo_list s" "m_fifo v = m_fifo s" "fifo_wf v"
    using fifo_list_cong [OF m] dev_part_fifo [OF m] d by simp_all
  define w where "w = (if is_transmit_register_empty d then d else if is_transmit_register_empty v then buf_tra_complete now v else v)"
  have w: "length (fifo_list w) \<le> length (fifo_list s)" "m_fifo w = m_fifo s" using complete_fifo [OF v(3), of now] v d by (simp_all add: w_def del: length_fifo_list)
  have "tra_edge (\<lambda>s. s) (\<lambda>f. f) st_tra_callback (buf_tra_complete now) now d = w \<or>
      (\<exists>c. tra_edge (\<lambda>s. s) (\<lambda>f. f) st_tra_callback (buf_tra_complete now) now d = w\<lparr>m_tra_clock := c\<rparr>)"
    by (auto simp: tra_edge_def Let_def v_def [symmetric] w_def)
  moreover have "st_tra_clock now s = (if m_tra_clock_state s then d else tra_edge (\<lambda>s. s) (\<lambda>f. f) st_tra_callback (buf_tra_complete now) now d)"
    by (simp add: st_tra_clock_def tx_clock_w_def Let_def d_def)
  ultimately show ?thesis using w d by (auto simp del: length_fifo_list)
qed

lemma key_fifo:
  assumes "sender_ok s"
  shows "length (fifo_list (transmit_byte now c s)) \<le> Suc (length (fifo_list s)) \<and> length (m_fifo (transmit_byte now c s)) = length (m_fifo s)"
proof -
  let ?u = "transmit_register_setup now c s"
  have m: "dev_part ?u = dev_part s" by simp
  have wf: "fifo_wf s" using assms by (simp add: sender_ok_def)
  consider "transmit_byte now c s = ?u" | "transmit_byte now c s = fifo_put_byte c s" "\<not> fifo_full s" | "transmit_byte now c s = s"
    by (cases "m_empty s \<and> is_transmit_register_empty s"; cases "m_empty s \<or> m_head s \<noteq> m_tail s") (auto simp: transmit_byte_def fifo_full_def)
  then show ?thesis
  proof cases
    case 1
    then show ?thesis using fifo_list_cong(1) [OF m] dev_part_fifo [OF m] by (simp del: length_fifo_list)
  next
    case 2
    then show ?thesis using bq.put_law [OF wf 2(2), of c] by (simp del: length_fifo_list)
  qed simp
qed

text \<open>The keys a run accepts, and all of its keys.\<close>

fun accepted :: "attotime \<Rightarrow> kbd_event list \<Rightarrow> serial_terminal \<Rightarrow> u8 list" where
  "accepted now [] s = []"
| "accepted now (Key c # evs) s = (if fifo_full s then [] else [c]) @ accepted now evs (kbd_step now (Key c) s)"
| "accepted now (Tick # evs) s = accepted now evs (kbd_step now Tick s)"

fun keys_of :: "kbd_event list \<Rightarrow> u8 list" where
  "keys_of [] = []"
| "keys_of (Key c # evs) = c # keys_of evs"
| "keys_of (Tick # evs) = keys_of evs"

lemma key_step:
  fixes now :: attotime and c :: u8
  assumes "sender_ok s"
  defines "u \<equiv> kbd_step now (Key c) s"
  shows "sender_ok u" "frame_bits u = frame_bits s" "rxd_bits u = rxd_bits s" "pending u = pending s @ (if fifo_full s then [] else frame_bits s c)"
    "length (fifo_list u) \<le> Suc (length (fifo_list s))" "length (m_fifo u) = length (m_fifo s)"
proof -
  define d where "d = (if m_io_term_conf (st_term s) AND 0x100 \<noteq> 0 then s\<lparr>st_term := term_write now c (st_term s)\<rparr> else s)"
  have d: "sender_ok d" "frame_bits d = frame_bits s" "pending d = pending s" "fifo_full d = fifo_full s" "m_port d = m_port s" "fifo_list d = fifo_list s"
      "m_fifo d = m_fifo s"
    using assms(1) by (auto simp: d_def)
  have u: "u = transmit_byte now c d" by (simp add: u_def kbd_step_def st_kbd_put_def st_send_key_def d_def)
  note T = transmit_byte_pending [OF d(1), of now c, folded u]
  show "sender_ok u" "frame_bits u = frame_bits s" "pending u = pending s @ (if fifo_full s then [] else frame_bits s c)" using T d by simp_all
  show "rxd_bits u = rxd_bits s" using port_more [OF T(4)] d(5) by (simp add: rxd_bits_def)
  show "length (fifo_list u) \<le> Suc (length (fifo_list s))" "length (m_fifo u) = length (m_fifo s)"
    using key_fifo [OF d(1), of now c, folded u] d(6,7) by (simp_all del: length_fifo_list)
qed

lemma run_keys:
  "sender_ok s \<Longrightarrow> sender_ok (fold (kbd_step now) evs s) \<and> frame_bits (fold (kbd_step now) evs s) = frame_bits s \<and>
    (\<exists>sent. rxd_bits (fold (kbd_step now) evs s) = rxd_bits s @ sent \<and>
       sent @ pending (fold (kbd_step now) evs s) = pending s @ concat (map (frame_bits s) (accepted now evs s)))"
proof (induction evs arbitrary: s)
  case (Cons ev evs)
  define u where "u = kbd_step now ev s"
  define w where "w = fold (kbd_step now) evs u"
  have step: "sender_ok u \<and> frame_bits u = frame_bits s \<and> (\<exists>b. rxd_bits u = rxd_bits s @ b \<and>
      b @ pending u @ concat (map (frame_bits s) (accepted now evs u)) = pending s @ concat (map (frame_bits s) (accepted now (ev # evs) s)))"
  proof (cases ev)
    case (Key c)
    note K = key_step [OF Cons.prems, of now c, folded Key u_def]
    show ?thesis using K(1-4) by (auto simp: Key u_def [unfolded Key, symmetric])
  next
    case Tick
    let ?b = "tick_spec (m_tra_clock_state s) (pending s)"
    have u: "u = st_tra_clock now s" by (simp add: u_def kbd_step_def Tick)
    note K = tick_step [OF Cons.prems, of now, folded u]
    have "?b @ drop (length ?b) (pending s) = pending s" by (cases "pending s") (auto simp: tick_spec_def)
    then have "?b @ pending u @ zs = pending s @ zs" for zs unfolding K(5) by (metis append.assoc)
    then show ?thesis using K(1,2,4) by (auto simp: Tick u_def [unfolded Tick, symmetric])
  qed
  then obtain b where b: "rxd_bits u = rxd_bits s @ b"
      "b @ pending u @ concat (map (frame_bits s) (accepted now evs u)) = pending s @ concat (map (frame_bits s) (accepted now (ev # evs) s))" by blast
  have fu: "frame_bits u = frame_bits s" "sender_ok u" using step by blast+
  obtain sent where sent: "sender_ok w" "frame_bits w = frame_bits u" "rxd_bits w = rxd_bits u @ sent" "sent @ pending w = pending u @ concat (map (frame_bits u) (accepted now evs u))"
    using Cons.IH [OF fu(2)] unfolding w_def by blast
  have e: "fold (kbd_step now) (ev # evs) s = w" by (simp add: w_def u_def)
  show ?case unfolding e using sent b fu by (intro conjI exI [of _ "b @ sent"]) simp_all
qed simp

lemma accepted_all:
  "sender_ok s \<Longrightarrow> length (fifo_list s) + length (keys_of evs) \<le> length (m_fifo s) \<Longrightarrow> accepted now evs s = keys_of evs"
proof (induction evs arbitrary: s)
  case (Cons ev evs)
  have wf: "fifo_wf s" using Cons.prems(1) by (simp add: sender_ok_def)
  show ?case
  proof (cases ev)
    case (Key c)
    note K = key_step [OF Cons.prems(1), of now c]
    have "\<not> fifo_full s" using bq.full_iff [OF wf] Cons.prems(2) by (simp add: Key del: length_fifo_list)
    moreover have "accepted now evs (kbd_step now (Key c) s) = keys_of evs"
      using Cons.IH [OF K(1)] K(5,6) Cons.prems(2) by (simp add: Key del: length_fifo_list)
    ultimately show ?thesis by (simp add: Key)
  next
    case Tick
    note K = tick_step(1) [OF Cons.prems(1), of now] tick_fifo [OF Cons.prems(1), of now]
    show ?thesis using Cons.IH [OF K(1)] K(2) Cons.prems(2) by (simp add: Tick kbd_step_def del: length_fifo_list)
  qed
qed simp

lemma ticks_drain:
  "sender_ok s \<Longrightarrow> pending (fold (kbd_step now) (replicate (2 * n) Tick) s) = drop n (pending s)"
proof (induction n arbitrary: s)
  case (Suc n)
  define u v where "u = st_tra_clock now s" and "v = st_tra_clock now u"
  note U = tick_step [OF Suc.prems, of now, folded u_def]
  note V = tick_step [OF U(1), of now, folded v_def]
  have d: "drop (min (length xs) (Suc 0)) xs = drop (Suc 0) xs" for xs :: "bool list" by (cases xs) auto
  have p: "pending v = drop 1 (pending s)" using U(3,5) V(5) by (cases "m_tra_clock_state s") (simp_all add: tick_spec_def d)
  have "fold (kbd_step now) (replicate (2 * Suc n) Tick) s = fold (kbd_step now) (replicate (2 * n) Tick) v"
    by (simp add: kbd_step_def u_def v_def)
  then show ?case using Suc.IH [OF V(1)] p by simp
qed simp

text \<open>The terminal after \<^verbatim>\<open>update_serial\<close>: nothing to send, and ready to receive.\<close>

lemma table_get_Some: "table_get xs i = Some x \<Longrightarrow> x \<in> set xs"
  by (auto simp: table_get_def split: if_splits)

lemma update_serial_eq:
  "update_serial now s = do {
     wl \<leftarrow> convert_databits (m_rs232_databits s); p \<leftarrow> convert_parity (m_rs232_parity s); sb \<leftarrow> convert_stopbits (m_rs232_stopbits s);
     tb \<leftarrow> convert_baud (m_rs232_txbaud s); rb \<leftarrow> convert_baud (m_rs232_rxbaud s);
     Some (transmit_register_reset (receive_register_reset (output_port CTS False (output_port DSR False (output_port DCD False (output_port RXD True
       (set_rcv_rate_baud now rb (set_tra_rate_baud now tb (set_data_frame 1 wl p sb (clear_fifo s)))))))))) }"
proof -
  have m: "m_rs232_txbaud u = m_rs232_txbaud v \<and> m_rs232_rxbaud u = m_rs232_rxbaud v" if "dev_part u = dev_part v" for u v :: serial_terminal
    using that by (cases u; cases v) simp
  have c: "m_rs232_databits (clear_fifo s) = m_rs232_databits s" "m_rs232_parity (clear_fifo s) = m_rs232_parity s" "m_rs232_stopbits (clear_fifo s) = m_rs232_stopbits s"
      "m_rs232_txbaud (clear_fifo s) = m_rs232_txbaud s" "m_rs232_rxbaud (clear_fifo s) = m_rs232_rxbaud s"
    by (simp_all add: clear_fifo_def)
  have d: "m_rs232_txbaud (set_data_frame 1 wl p sb (clear_fifo s)) = m_rs232_txbaud s" for wl p sb using m [OF more_serial(7)] c by simp
  have e: "m_rs232_rxbaud (set_tra_rate_baud now tb (set_data_frame 1 wl p sb (clear_fifo s))) = m_rs232_rxbaud s" for tb wl p sb
    using m [OF more_serial(7) [of 1 wl p sb "clear_fifo s"]] c by (simp add: set_tra_rate_baud_def set_tra_rate_def transmit_register_reset_def Let_def)
  show ?thesis unfolding update_serial_def Let_def c d e ..
qed

lemma update_serial_Some:
  assumes "update_serial now s = Some t"
  obtains wl p sb tb rb where "5 \<le> wl" "wl \<le> 8" "convert_databits (m_rs232_databits s) = Some wl" "convert_parity (m_rs232_parity s) = Some p"
    "convert_stopbits (m_rs232_stopbits s) = Some sb" "convert_baud (m_rs232_txbaud s) = Some tb" "convert_baud (m_rs232_rxbaud s) = Some rb"
    "t = transmit_register_reset (receive_register_reset (output_port CTS False (output_port DSR False (output_port DCD False (output_port RXD True
       (set_rcv_rate_baud now rb (set_tra_rate_baud now tb (set_data_frame 1 wl p sb (clear_fifo s)))))))))"
proof -
  have w: "convert_databits i = Some wl \<Longrightarrow> 5 \<le> wl \<and> wl \<le> 8" for i wl using table_get_Some [of "[5, 6, 7, 8]" i wl] by (auto simp: convert_databits_def)
  obtain wl p sb tb rb where r: "convert_databits (m_rs232_databits s) = Some wl" "convert_parity (m_rs232_parity s) = Some p"
      "convert_stopbits (m_rs232_stopbits s) = Some sb" "convert_baud (m_rs232_txbaud s) = Some tb" "convert_baud (m_rs232_rxbaud s) = Some rb"
      "t = transmit_register_reset (receive_register_reset (output_port CTS False (output_port DSR False (output_port DCD False (output_port RXD True
         (set_rcv_rate_baud now rb (set_tra_rate_baud now tb (set_data_frame 1 wl p sb (clear_fifo s)))))))))"
    using assms unfolding update_serial_eq by (auto split: Option.bind_splits)
  show thesis by (rule that [OF _ _ r]) (use w [OF r(1)] in simp_all)
qed

lemma set_data_frame_keeps [simp]:
  "m_rcv_clock_state (set_data_frame st wl p sb s) = m_rcv_clock_state s" "m_tra_flags (set_data_frame st wl p sb s) = m_tra_flags s"
  "m_tra_clock_state (set_data_frame st wl p sb s) = m_tra_clock_state s"
  by (auto simp: set_data_frame_def receive_register_reset_def Let_def split: prod.splits)

lemma update_serial_ready:
  assumes "update_serial now s = Some t" "m_fifo s \<noteq> []"
  shows "sender_ok t" "pending t = []" "fifo_list t = []" "length (m_fifo t) = length (m_fifo s)" "st_term t = st_term s"
    "df_consistent s \<Longrightarrow> bit (m_rcv_register_data s) 15 \<Longrightarrow> \<not> m_rcv_clock_state s \<Longrightarrow> m_rs232_stopbits s \<noteq> 0 \<Longrightarrow>
      ready (m_df_word_length t) (m_df_parity t) (m_rcv_rate t) t \<and> 5 \<le> m_df_word_length t \<and> m_df_word_length t \<le> 8"
proof -
  obtain wl p sb tb rb where wl: "5 \<le> wl" "wl \<le> 8" and sbs: "convert_stopbits (m_rs232_stopbits s) = Some sb"
    and t: "t = transmit_register_reset (receive_register_reset (output_port CTS False (output_port DSR False (output_port DCD False (output_port RXD True
       (set_rcv_rate_baud now rb (set_tra_rate_baud now tb (set_data_frame 1 wl p sb (clear_fifo s)))))))))"
    by (rule update_serial_Some [OF assms(1)])
  define u where "u = set_data_frame 1 wl p sb (clear_fifo s)"
  have m: "dev_part u = dev_part (clear_fifo s)" by (simp add: u_def)
  have uf: "m_fifo u = m_fifo s" "m_head u = 0" "m_tail u = 0" "m_empty u" "st_term u = st_term s"
    using dev_part_fifo [OF m] port_more [of u "clear_fifo s"] by (simp_all add: clear_fifo_def)
  note eval = t [folded u_def] output_port_def set_rcv_rate_baud_def set_rcv_rate_def set_tra_rate_baud_def set_tra_rate_def transmit_register_reset_def
    receive_register_reset_def Let_def
  have tf: "m_fifo t = m_fifo s" "m_head t = 0" "m_tail t = 0" "m_empty t" "st_term t = st_term s" by (simp_all add: eval uf)
  have e: "is_transmit_register_empty t" by (simp add: eval is_transmit_register_empty_def mask_bits bit_simps)
  have df: "m_df_start_bit_count t = 1" "m_df_word_length t = wl" "m_df_parity t = p" "m_df_stop_bit_count t = fst (stop_bit_counts sb)"
      "m_df_min_rx_stop_bit_count t = snd (stop_bit_counts sb)"
    by (simp_all add: eval u_def)
  have sl: "fst (stop_bit_counts sb) \<le> 2" by (cases sb) (simp_all add: stop_bit_counts_def)
  have fb: "frame_bits t x \<noteq> [] \<and> length (frame_bits t x) \<le> 16" for x using wl sl by (simp add: frame_bits_def df)
  show fl: "fifo_list t = []" by (simp add: fifo_list_def fifo_num_def tf)
  show "sender_ok t" using assms(2) e tf fb by (simp add: sender_ok_def fifo_wf_def)
  show "pending t = []" using e fl by (simp add: pending_def)
  show "length (m_fifo t) = length (m_fifo s)" "st_term t = st_term s" using tf by simp_all
  assume r: "df_consistent s" "bit (m_rcv_register_data s) 15" "\<not> m_rcv_clock_state s" "m_rs232_stopbits s \<noteq> 0"
  have "sb \<noteq> STOP_BITS_0"
  proof -
    obtain n where n: "m_rs232_stopbits s = Suc n" using r(4) by (cases "m_rs232_stopbits s") auto
    then show ?thesis using sbs by (auto simp: convert_stopbits_def table_get_def numeral_eq_Suc less_Suc_eq split: if_splits)
  qed
  then have s1: "m_df_min_rx_stop_bit_count t = 1" unfolding df by (cases sb) (simp_all add: stop_bit_counts_def)
  have "df_consistent u" unfolding u_def by (rule set_data_frame_consistent) (use r(1) in \<open>simp add: df_consistent_def clear_fifo_def\<close>)
  then have "df_consistent t" by (simp add: df_consistent_def eval)
  moreover have "waiting t" using r(2) df(1) by (simp add: waiting_def eval u_def clear_fifo_def bit_simps)
  moreover have "stopped t" using r(3) timer_never_expire by (simp add: stopped_def eval u_def clear_fifo_def)
  ultimately show "ready (m_df_word_length t) (m_df_parity t) (m_rcv_rate t) t \<and> 5 \<le> m_df_word_length t \<and> m_df_word_length t \<le> 8"
    using wl df s1 by (simp add: ready_def)
qed

text \<open>C10. What is typed goes out: however keys and ticks of the transmit clock are mixed, the bits on RXD are the frames of the accepted keys in the order they were typed, each bit once.
  Two ticks for every bit that waits send all of them. A key is dropped only when the ring is full, so no key is lost while at most as many are typed as the ring has room for.\<close>

theorem terminal_sends_keys:
  assumes "sender_ok s"
  shows "let u = fold (kbd_step now) evs s; v = fold (kbd_step now) (replicate (2 * length (pending u)) Tick) u
    in rxd_bits v = rxd_bits s @ pending s @ concat (map (frame_bits s) (accepted now evs s)) \<and> pending v = [] \<and>
       (length (fifo_list s) + length (keys_of evs) \<le> length (m_fifo s) \<longrightarrow> accepted now evs s = keys_of evs)"
proof -
  define u where "u = fold (kbd_step now) evs s"
  define ticks where "ticks = replicate (2 * length (pending u)) Tick"
  define v where "v = fold (kbd_step now) ticks u"
  obtain x where x: "sender_ok u" "rxd_bits u = rxd_bits s @ x" "x @ pending u = pending s @ concat (map (frame_bits s) (accepted now evs s))"
    using run_keys [OF assms, of now evs, folded u_def] by blast
  have na: "accepted now (replicate n Tick) w = []" for n w by (induction n arbitrary: w) auto
  have pv: "pending v = []" using ticks_drain [OF x(1), of now "length (pending u)"] by (simp add: v_def ticks_def)
  then have "rxd_bits v = rxd_bits u @ pending u" using run_keys [OF x(1), of now ticks, folded v_def] na by (auto simp: ticks_def)
  then have "rxd_bits v = rxd_bits s @ pending s @ concat (map (frame_bits s) (accepted now evs s))" using x(2,3) by simp
  then show ?thesis
    unfolding Let_def u_def [symmetric] ticks_def [symmetric] v_def [symmetric] using pv accepted_all [OF assms, of evs now] by blast
qed

abbreviation board_terminal :: serial_terminal where
  "board_terminal \<equiv> serial_terminal_start attotime_zero 0x4f 13 13 3 0 1"

lemma start_terminal:
  "m_fifo (serial_terminal_start now conf tb rb wl p sb) = replicate 16 0" "st_term (serial_terminal_start now conf tb rb wl p sb) = generic_terminal_start now conf 80 24"
  "df_consistent (serial_terminal_start now conf tb rb wl p sb)" "bit (m_rcv_register_data (serial_terminal_start now conf tb rb wl p sb)) 15"
  "\<not> m_rcv_clock_state (serial_terminal_start now conf tb rb wl p sb)" "m_rs232_stopbits (serial_terminal_start now conf tb rb wl p sb) = sb"
  by (simp_all add: serial_terminal_start_def device_serial_interface.extend_def device_serial_interface_init_def df_consistent_def bit_simps)

lemma board_terminal_rate: obtains t where "st_device_reset attotime_zero board_terminal = Some t" "m_rcv_rate t = Attotime 0 4340277777778"
    "m_df_word_length t = 8" "m_df_parity t = PARITY_NONE"
proof -
  let ?s = "board_terminal\<lparr>st_term := terminal_reset (st_term board_terminal)\<rparr>"
  have p: "m_rs232_databits ?s = 3" "m_rs232_parity ?s = 0" "m_rs232_stopbits ?s = 1" "m_rs232_txbaud ?s = 13" "m_rs232_rxbaud ?s = 13"
    by (simp_all add: serial_terminal_start_def device_serial_interface.extend_def device_serial_interface_init_def)
  have c: "convert_databits 3 = Some 8" "convert_parity 0 = Some PARITY_NONE" "convert_stopbits 1 = Some STOP_BITS_1" "convert_baud 13 = Some 115200"
    by (simp_all add: convert_databits_def convert_parity_def convert_stopbits_def convert_baud_def table_get_def)
  have R: "attotime_div (baud_to_rate 115200) 2 = Attotime 0 4340277777778" by code_simp
  show thesis
    by (rule that, unfold st_device_reset_def update_serial_eq p c, simp only: Option.bind.simps)
      (simp_all add: output_port_def set_rcv_rate_baud_def set_rcv_rate_def set_tra_rate_baud_def set_tra_rate_def transmit_register_reset_def
        receive_register_reset_def Let_def R)
qed

lemma board_terminal_resets: obtains t where "st_device_reset attotime_zero board_terminal = Some t" "m_rcv_rate t = Attotime 0 4340277777778"
    "m_df_word_length t = 8" "m_df_parity t = PARITY_NONE" "ready 8 PARITY_NONE (Attotime 0 4340277777778) t" "m_rcv_bit_count t = 9" "sender_ok t" "pending t = []"
    "fifo_list t = []" "length (m_fifo t) = 16"
proof -
  let ?s = "board_terminal\<lparr>st_term := terminal_reset (st_term board_terminal)\<rparr>"
  obtain t where t: "st_device_reset attotime_zero board_terminal = Some t" "m_rcv_rate t = Attotime 0 4340277777778" "m_df_word_length t = 8" "m_df_parity t = PARITY_NONE"
    by (rule board_terminal_rate)
  have b: "m_fifo ?s \<noteq> []" "df_consistent ?s" "bit (m_rcv_register_data ?s) 15" "\<not> m_rcv_clock_state ?s" "m_rs232_stopbits ?s \<noteq> 0" "length (m_fifo ?s) = 16"
    using start_terminal(3) by (simp_all add: start_terminal df_consistent_def)
  note U = update_serial_ready [OF t(1) [unfolded st_device_reset_def] b(1)]
  have r: "ready 8 PARITY_NONE (Attotime 0 4340277777778) t" using U(6) [OF b(2-5)] t by simp
  then have "m_rcv_bit_count t = 9" by (simp add: ready_def df_consistent_def)
  then show thesis by (rule that [OF t r _ U(1-3)]) (use U(4) b(6) in simp)
qed

theorem terminal_sends_keys_witness:
  "\<exists>t. st_device_reset attotime_zero board_terminal = Some t \<and>
     (let u = fold (kbd_step attotime_zero) [Key 0x41, Tick, Key 0x42, Tick] t; v = fold (kbd_step attotime_zero) (replicate (2 * length (pending u)) Tick) u
      in rxd_bits v = rxd_bits t @ frame_bits t 0x41 @ frame_bits t 0x42)"
proof -
  obtain t where t: "st_device_reset attotime_zero board_terminal = Some t" and U: "sender_ok t" "pending t = []" "fifo_list t = []" "length (m_fifo t) = 16"
    by (rule board_terminal_resets)
  have "length (fifo_list t) + length (keys_of [Key 0x41, Tick, Key 0x42, Tick]) \<le> length (m_fifo t)" using U by simp
  then have "accepted attotime_zero [Key 0x41, Tick, Key 0x42, Tick] t = [0x41, 0x42]" "rxd_bits (fold (kbd_step attotime_zero)
      (replicate (2 * length (pending (fold (kbd_step attotime_zero) [Key 0x41, Tick, Key 0x42, Tick] t))) Tick) (fold (kbd_step attotime_zero) [Key 0x41, Tick, Key 0x42, Tick] t)) =
      rxd_bits t @ pending t @ concat (map (frame_bits t) (accepted attotime_zero [Key 0x41, Tick, Key 0x42, Tick] t))"
    using terminal_sends_keys [of t attotime_zero "[Key 0x41, Tick, Key 0x42, Tick]"] U unfolding Let_def by auto
  then show ?thesis using t U(2) unfolding Let_def by (intro exI [of _ t]) simp
qed

section \<open>Text on the line\<close>

lemma rcv_complete_eq:
  "st_rcv_complete now s = (receive_register_extract s)\<lparr>st_term := term_write now (m_rcv_byte_received (receive_register_extract s)) (st_term s)\<rparr>"
proof -
  have m: "dev_part (receive_register_extract s) = dev_part s" by simp
  have "st_term (receive_register_extract s) = st_term s" using dev_part_fifo [OF m] port_more by blast
  then show ?thesis by (simp add: st_rcv_complete_def buf_rcv_complete_def received_byte_def Let_def)
qed

lemma extract_waiting:
  assumes "m_df_start_bit_count s = 1" "bit (m_rcv_register_data s) 15"
  shows "waiting (receive_register_extract s)"
  using assms by (simp add: waiting_def receive_register_extract_def receive_register_reset_def Let_def bit_simps)

lemma rate_kept: "m_rcv_rate (receive_frame now bs s) = m_rcv_rate s"
proof -
  have 1: "m_rcv_rate (receive_register_update_bit b u) = m_rcv_rate u" for b and u :: "'a device_serial_interface_scheme"
    by (simp add: receive_register_update_bit_def Let_def)
  have 2: "m_rcv_rate (rx_w now b u) = m_rcv_rate u" for b and u :: "'a device_serial_interface_scheme" by (simp add: rx_w_def Let_def 1)
  have "m_rcv_rate (fold (bit_time now) cs u) = m_rcv_rate u" for cs and u :: "'a device_serial_interface_scheme"
    by (induction cs arbitrary: u) (simp_all add: bit_time_def Let_def 1 2)
  then show ?thesis by (simp add: receive_frame_def 2)
qed

text \<open>The changes of the line for a byte whose frame starts at time \<open>a\<close>.\<close>

definition byte_events :: "nat \<Rightarrow> parity_t \<Rightarrow> attotime \<times> attotime list \<times> u8 \<Rightarrow> (attotime \<times> bool) list" where
  "byte_events wl p f = (case f of (a, ts, c) \<Rightarrow> (a, False) # zip ts (frame_body wl p c))"

definition frame_char :: "attotime \<times> attotime list \<times> u8 \<Rightarrow> u8" where
  "frame_char f = (case f of (a, ts, c) \<Rightarrow> c)"

lemma byte_to_screen:
  assumes wl: "5 \<le> wl" "wl \<le> 8" and s: "ready wl p R s" and R: "wf_time R" "0 < attos R" and a: "wf_time a"
    and ts: "length ts = m_rcv_bit_count s" "timely (attos a) (attos R) ts"
    and \<tau>: "wf_time \<tau>" "attos a + (2 * int (m_rcv_bit_count s) + 1) * attos R < attos \<tau>"
  shows "\<exists>e. let u = rcv_until st_rcv_complete 3 \<tau> (line_run st_rcv_complete 3 (byte_events wl p (a, ts, c)) s)
    in ready wl p R u \<and> m_rcv_bit_count u = m_rcv_bit_count s \<and> st_term u = term_write e (c AND mask wl) (st_term s)"
proof -
  define t where "t = receive_frame a (False # frame_body wl p c) s"
  note b = receive_body(1,2) [OF wl ready_body [OF s R(1)], of c] receive_body(3-) [OF wl ready_body [OF s R(1)], of a c, folded t_def]
  have r: "waiting s" "stopped s" "m_rcv_rate s = R" "m_df_start_bit_count s = 1" "df_consistent s" using s by (simp_all add: ready_def)
  have ne: "frame_body wl p c \<noteq> []" "length (frame_body wl p c) \<le> 16" using wl by (auto simp: frame_body_def)
  have rc: "m_rcv_clock (st_rcv_complete now s) = m_rcv_clock s" for now s
    by (simp add: rcv_complete_eq) (simp add: receive_register_extract_def receive_register_reset_def Let_def)
  have l: "length ts = length (frame_body wl p c)" using ts(1) b(1) by simp
  obtain e k where ek: "is_never (m_expire k)" "rcv_until st_rcv_complete 3 \<tau> (line_run st_rcv_complete 3 ((a, False) # zip ts (frame_body wl p c)) s)
      = st_rcv_complete e (t\<lparr>m_rcv_clock := k, m_rcv_clock_state := False\<rparr>)"
    using frame_in_time [OF r(1-3) R a b(1) ne b(2) l ts(2) order_refl \<tau>(1), of st_rcv_complete] \<tau>(2) rc unfolding b(1) t_def by blast
  define x where "x = receive_register_extract t"
  have m: "dev_part t = dev_part s" by (simp add: t_def)
  have tt: "st_term t = st_term s" using dev_part_fifo [OF m] port_more by blast
  define u where "u = x\<lparr>m_rcv_clock := k, m_rcv_clock_state := False, st_term := term_write e (c AND mask wl) (st_term s)\<rparr>"
  have u: "st_rcv_complete e (t\<lparr>m_rcv_clock := k, m_rcv_clock_state := False\<rparr>) = u"
    using b(11) by (simp add: rcv_complete_eq extract_clock tt x_def u_def)
  have top: "bit (m_rcv_register_data t) 15"
  proof -
    have "frame_body wl p c ! (length (frame_body wl p c) - 1)" by (simp add: frame_body_def nth_append)
    then have "rcv_list (m_rcv_bit_count s) t ! (m_rcv_bit_count s - 1)" unfolding b(4) b(1) .
    moreover have "0 < m_rcv_bit_count s" "m_rcv_bit_count s \<le> 16" unfolding b(1) [symmetric] using ne by auto
    ultimately show ?thesis by (simp add: rcv_list_def Suc_diff_Suc numeral_eq_Suc)
  qed
  have xf: "m_rcv_bit_count x = m_rcv_bit_count s" "m_df_word_length x = wl" "m_df_parity x = p" "m_df_min_rx_stop_bit_count x = 1" "m_df_start_bit_count x = 1"
      "m_rcv_rate x = R"
    using b r rate_kept [of a "False # frame_body wl p c" s, folded t_def]
    by (simp_all add: x_def receive_register_extract_def receive_register_reset_def Let_def)
  have w: "waiting x" unfolding x_def using b(10) r(4) top by (intro extract_waiting) simp_all
  have "df_consistent x" using r(5) s xf by (simp add: df_consistent_def ready_def)
  then have "ready wl p R u" using w xf ek(1) by (simp add: ready_def u_def waiting_def df_consistent_def stopped_def)
  then show ?thesis using ek(2) u xf(1) by (intro exI [of _ e]) (simp add: byte_events_def Let_def, simp add: u_def)
qed

text \<open>A text in time: every frame is timely, and starts after the stop bit of the frame before it was sampled; \<open>\<tau>\<close> is after the last one.\<close>

fun text_timely :: "nat \<Rightarrow> int \<Rightarrow> attotime \<Rightarrow> (attotime \<times> attotime list \<times> u8) list \<Rightarrow> bool" where
  "text_timely n r \<tau> [] \<longleftrightarrow> wf_time \<tau>"
| "text_timely n r \<tau> ((a, ts, c) # fs) \<longleftrightarrow> wf_time a \<and> length ts = n \<and> timely (attos a) r ts \<and>
     attos a + (2 * int n + 1) * r < attos (case fs of [] \<Rightarrow> \<tau> | (a', _) # _ \<Rightarrow> a') \<and> text_timely n r \<tau> fs"

lemma term_write_now: "c \<noteq> 0x07 \<Longrightarrow> term_write e c t = term_write now c t"
  by (simp add: term_write_def)

lemma text_to_screen:
  assumes wl: "5 \<le> wl" "wl \<le> 8" and R: "wf_time R" "0 < attos R"
  shows "ready wl p R s \<Longrightarrow> text_timely (m_rcv_bit_count s) (attos R) \<tau> fs \<Longrightarrow> \<forall>(a, ts, c) \<in> set fs. c \<noteq> 0x07 \<and> c AND mask wl = c \<Longrightarrow>
    st_term (rcv_until st_rcv_complete 3 \<tau> (line_run st_rcv_complete 3 (concat (map (byte_events wl p) fs)) s)) = fold (term_write now) (map frame_char fs) (st_term s)"
proof (induction fs arbitrary: s)
  case Nil
  then show ?case using until_stopped [of s st_rcv_complete 3 \<tau>] by (simp add: ready_def)
next
  case (Cons f fs)
  obtain a ts c where f: "f = (a, ts, c)" by (cases f) auto
  define \<sigma> where "\<sigma> = (case fs of [] \<Rightarrow> \<tau> | (a', _) # _ \<Rightarrow> a')"
  have T: "wf_time a" "length ts = m_rcv_bit_count s" "timely (attos a) (attos R) ts" "attos a + (2 * int (m_rcv_bit_count s) + 1) * attos R < attos \<sigma>"
      "text_timely (m_rcv_bit_count s) (attos R) \<tau> fs"
    using Cons.prems(2) by (simp_all add: f \<sigma>_def)
  have c: "c \<noteq> 0x07" "c AND mask wl = c" using Cons.prems(3) by (auto simp: f)
  have w\<sigma>: "wf_time \<sigma>" using T(5) by (cases fs) (auto simp: \<sigma>_def)
  define Y where "Y = line_run st_rcv_complete 3 (byte_events wl p f) s"
  define u where "u = rcv_until st_rcv_complete 3 \<sigma> Y"
  obtain e where u: "ready wl p R u" "m_rcv_bit_count u = m_rcv_bit_count s" "st_term u = term_write e (c AND mask wl) (st_term s)"
    using byte_to_screen [OF wl Cons.prems(1) R T(1-3) w\<sigma> T(4), of c, folded f, folded Y_def, folded u_def] by (auto simp: Let_def)
  have st: "stopped u" using u(1) by (simp add: ready_def)
  have run: "rcv_until st_rcv_complete 3 \<tau> (line_run st_rcv_complete 3 (concat (map (byte_events wl p) fs)) Y)
      = rcv_until st_rcv_complete 3 \<tau> (line_run st_rcv_complete 3 (concat (map (byte_events wl p) fs)) u)"
  proof (cases fs)
    case Nil
    then show ?thesis using until_stopped [OF st] by (simp add: u_def \<sigma>_def)
  next
    case (Cons g gs)
    then obtain a' us d where g: "g = (a', us, d)" by (cases g) auto
    then have "\<sigma> = a'" by (simp add: \<sigma>_def Cons)
    then show ?thesis using until_stopped [OF st, of st_rcv_complete 3 a'] by (simp add: Cons g byte_events_def u_def)
  qed
  have "st_term (rcv_until st_rcv_complete 3 \<tau> (line_run st_rcv_complete 3 (concat (map (byte_events wl p) fs)) u)) = fold (term_write now) (map frame_char fs) (st_term u)"
    using Cons.IH [OF u(1)] T(5) Cons.prems(3) by (simp add: u(2))
  then show ?case using u(3) c term_write_now [OF c(1), of e "st_term s" now] by (simp add: line_run_append Y_def [symmetric] run) (simp add: f frame_char_def)
qed

text \<open>C9. Lines of text on the TXD line appear on the screen: the terminal is reset and set to a frame with a stop bit, and every frame on the line has its bits in time for the samples of the
  terminal's clock. Each character is then received and written once, in order, and the screen shows the lines of the text below each other, the last ones if they do not all fit.\<close>

theorem terminal_receives_text:
  assumes "st_device_reset now s\<^sub>0 = Some s" "m_fifo s\<^sub>0 \<noteq> []" "df_consistent s\<^sub>0" "bit (m_rcv_register_data s\<^sub>0) 15" "\<not> m_rcv_clock_state s\<^sub>0" "m_rs232_stopbits s\<^sub>0 \<noteq> 0"
    and "wf_time (m_rcv_rate s)" "0 < attos (m_rcv_rate s)"
    and "term_ok (st_term s\<^sub>0)" "m_io_term_conf (st_term s\<^sub>0) AND 0x080 = 0"
    and "\<forall>l \<in> set ls. length l < m_width (st_term s\<^sub>0) \<and> (\<forall>c \<in> set l. printable c \<and> c AND mask (m_df_word_length s) = c)"
    and "map frame_char fs = concat (map (\<lambda>l. l @ [0x0d, 0x0a]) ls)" "text_timely (m_rcv_bit_count s) (attos (m_rcv_rate s)) \<tau> fs"
  shows "let u = rcv_until st_rcv_complete 3 \<tau> (line_run st_rcv_complete 3 (concat (map (byte_events (m_df_word_length s) (m_df_parity s)) fs)) s)
    in rows (st_term u) = shown (m_width (st_term s\<^sub>0)) (m_height (st_term s\<^sub>0)) ls \<and> \<not> term_ub (st_term u)"
proof -
  let ?s = "s\<^sub>0\<lparr>st_term := terminal_reset (st_term s\<^sub>0)\<rparr>" and ?wl = "m_df_word_length s" and ?p = "m_df_parity s" and ?R = "m_rcv_rate s"
  have s: "update_serial now ?s = Some s" "m_fifo ?s \<noteq> []" using assms(1,2) by (simp_all add: st_device_reset_def)
  note U = update_serial_ready [OF s]
  have r: "ready ?wl ?p ?R s" "5 \<le> ?wl" "?wl \<le> 8" using U(6) assms(3-6) by (simp_all add: df_consistent_def)
  have cr: "(0x0d::u8) AND mask ?wl = 0x0d" "(0x0a::u8) AND mask ?wl = 0x0a"
  proof -
    have "?wl = 5 \<or> ?wl = 6 \<or> ?wl = 7 \<or> ?wl = 8" using r(2,3) by linarith
    then show "(0x0d::u8) AND mask ?wl = 0x0d" "(0x0a::u8) AND mask ?wl = 0x0a" by (elim disjE; simp add: mask_eq_exp_minus_1)+
  qed
  have p7: "\<not> printable 0x07" by (simp add: printable_def)
  have "\<forall>c \<in> set (map frame_char fs). c \<noteq> 0x07 \<and> c AND mask ?wl = c"
    unfolding assms(12) using assms(11) cr p7 by auto
  then have cs: "\<forall>(a, ts, c) \<in> set fs. c \<noteq> 0x07 \<and> c AND mask ?wl = c" by (auto simp: frame_char_def)
  have st: "st_term s = terminal_reset (st_term s\<^sub>0)" using U(5) by simp
  define u where "u = rcv_until st_rcv_complete 3 \<tau> (line_run st_rcv_complete 3 (concat (map (byte_events ?wl ?p) fs)) s)"
  have "st_term u = fold (term_write now) (map frame_char fs) (st_term s)"
    unfolding u_def by (rule text_to_screen [OF r(2,3) assms(7,8) r(1) assms(13) cs])
  then have "st_term u = fold (term_write now) (concat (map (\<lambda>l. l @ [0x0d, 0x0a]) ls)) (terminal_reset (st_term s\<^sub>0))" by (simp add: assms(12) st)
  then have "screen_is (m_width (st_term s\<^sub>0)) (m_height (st_term s\<^sub>0)) (m_io_term_conf (st_term s\<^sub>0)) (shown (m_width (st_term s\<^sub>0)) (m_height (st_term s\<^sub>0)) ls) 0
      (min (length ls) (m_height (st_term s\<^sub>0) - 1)) (st_term u)"
    using write_lines_screen [OF reset_screen [OF assms(9)] assms(10), of ls now] assms(11) by simp
  then show ?thesis by (simp add: u_def [symmetric] Let_def screen_is_def term_ok_def)
qed

theorem terminal_receives_text_witness:
  "let frame = (\<lambda>k c. (Attotime 0 (k * 100000000000000), map (\<lambda>i. Attotime 0 (k * 100000000000000 + (int i + 1) * 8680555555556)) [0..<9], c));
       fs = [frame 0 0x41, frame 1 0x0d, frame 2 0x0a]
   in \<exists>t. st_device_reset attotime_zero board_terminal = Some t \<and>
     hd (rows (st_term (rcv_until st_rcv_complete 3 (Attotime 0 300000000000000) (line_run st_rcv_complete 3 (concat (map (byte_events 8 PARITY_NONE) fs)) t)))) =
       0x41 # replicate 79 0x20"
proof -
  define frame :: "int \<Rightarrow> u8 \<Rightarrow> attotime \<times> attotime list \<times> u8" where
    "frame = (\<lambda>k c. (Attotime 0 (k * 100000000000000), map (\<lambda>i. Attotime 0 (k * 100000000000000 + (int i + 1) * 8680555555556)) [0..<9], c))"
  let ?fs = "[frame 0 0x41, frame 1 0x0d, frame 2 0x0a]" and ?\<tau> = "Attotime 0 300000000000000" and ?ls = "[[0x41]] :: u8 list list"
  obtain t where t: "st_device_reset attotime_zero board_terminal = Some t" "m_rcv_rate t = Attotime 0 4340277777778" "m_df_word_length t = 8" "m_df_parity t = PARITY_NONE"
    and n: "m_rcv_bit_count t = 9"
    by (rule board_terminal_resets)
  have b: "m_fifo board_terminal \<noteq> []" "df_consistent board_terminal" "bit (m_rcv_register_data board_terminal) 15" "\<not> m_rcv_clock_state board_terminal"
      "m_rs232_stopbits board_terminal \<noteq> 0" by (simp_all add: start_terminal)
  have R: "wf_time (m_rcv_rate t)" "0 < attos (m_rcv_rate t)" by (simp_all add: t wf_time_def attos_def atto_consts)
  have tt: "text_timely (m_rcv_bit_count t) (attos (m_rcv_rate t)) ?\<tau> ?fs"
    by (simp add: n t(2) frame_def timely_def attos_def atto_consts wf_time_def)
  have ls: "\<forall>l \<in> set ?ls. length l < m_width (st_term board_terminal) \<and> (\<forall>c \<in> set l. printable c \<and> c AND mask (m_df_word_length t) = c)"
    by (simp add: start_terminal(2) generic_terminal_start_def printable_def t(3) mask_eq_exp_minus_1)
  have ok: "term_ok (st_term board_terminal)" "m_io_term_conf (st_term board_terminal) AND 0x080 = 0" by (simp_all add: start_terminal(2) generic_terminal_start_def term_ok_def)
  have "map frame_char ?fs = concat (map (\<lambda>l. l @ [0x0d, 0x0a]) ?ls)" by (simp add: frame_def frame_char_def)
  from terminal_receives_text [OF t(1) b R ok ls this tt]
  have "hd (rows (st_term (rcv_until st_rcv_complete 3 ?\<tau> (line_run st_rcv_complete 3 (concat (map (byte_events 8 PARITY_NONE) ?fs)) t)))) = 0x41 # replicate 79 0x20"
    unfolding t(3,4) Let_def by (simp add: start_terminal(2) generic_terminal_start_def shown_def pad_def)
  then show ?thesis using t(1) unfolding frame_def Let_def by blast
qed

end
