(* ===== verification/Terminal_Video.thy ===== *)
theory Terminal_Video
  imports Terminal
begin

unbundle bit_operations_syntax

text \<open>
  The picture of the terminal: its font and \<^verbatim>\<open>generic_terminal_device::update\<close> of \<^verbatim>\<open>src/devices/machine/terminal.cpp\<close>. The bitmap is the list of the
  pixel rows that are written, from the left; a read outside of the buffer or the font is \<^const>\<open>None\<close>.
\<close>

text \<open>The table in the source has the first 128 of 256 characters; C++ fills up the rest with zeros.\<close>

definition font_0 :: "u8 list" where
  "font_0 = [
    0x00, 0x00, 0x00, 0x00, 0x00, 0x00, 0x00, 0x00, 0x00, 0x00, 0x00, 0x00, 0x00, 0x00, 0x00, 0x00,
    0x00, 0x10, 0x38, 0x7c, 0xfe, 0x7c, 0x38, 0x10, 0x00, 0x00, 0x00, 0x00, 0x00, 0x00, 0x00, 0x00,
    0x00, 0x92, 0x44, 0x92, 0x44, 0x92, 0x44, 0x92, 0x00, 0x00, 0x00, 0x00, 0x00, 0x00, 0x00, 0x00,
    0x00, 0x88, 0x88, 0xf8, 0x88, 0x88, 0x3e, 0x08, 0x08, 0x08, 0x00, 0x00, 0x00, 0x00, 0x00, 0x00,
    0x00, 0xf0, 0x80, 0xe0, 0x80, 0x9e, 0x10, 0x1c, 0x10, 0x10, 0x00, 0x00, 0x00, 0x00, 0x00, 0x00,
    0x00, 0x78, 0x80, 0x80, 0x78, 0x3c, 0x22, 0x3c, 0x22, 0x22, 0x00, 0x00, 0x00, 0x00, 0x00, 0x00,
    0x00, 0x80, 0x80, 0x80, 0xf8, 0x3e, 0x20, 0x3c, 0x20, 0x20, 0x00, 0x00, 0x00, 0x00, 0x00, 0x00,
    0x00, 0x38, 0x44, 0x44, 0x38, 0x00, 0x00, 0x00, 0x00, 0x00, 0x00, 0x00, 0x00, 0x00, 0x00, 0x00,
    0x00, 0x00, 0x10, 0x10, 0xfe, 0x10, 0x10, 0xfe, 0x00, 0x00, 0x00, 0x00, 0x00, 0x00, 0x00, 0x00,
    0x00, 0x88, 0xc8, 0xa8, 0x98, 0x88, 0x20, 0x20, 0x20, 0x3e, 0x00, 0x00, 0x00, 0x00, 0x00, 0x00,
    0x00, 0x88, 0x88, 0x50, 0x20, 0x3e, 0x08, 0x08, 0x08, 0x08, 0x00, 0x00, 0x00, 0x00, 0x00, 0x00,
    0x10, 0x10, 0x10, 0x10, 0xf0, 0x00, 0x00, 0x00, 0x00, 0x00, 0x00, 0x00, 0x00, 0x00, 0x00, 0x00,
    0x00, 0x00, 0x00, 0x00, 0xf0, 0x10, 0x10, 0x10, 0x10, 0x10, 0x00, 0x00, 0x00, 0x00, 0x00, 0x00,
    0x00, 0x00, 0x00, 0x00, 0x1f, 0x10, 0x10, 0x10, 0x10, 0x10, 0x00, 0x00, 0x00, 0x00, 0x00, 0x00,
    0x10, 0x10, 0x10, 0x10, 0x1f, 0x00, 0x00, 0x00, 0x00, 0x00, 0x00, 0x00, 0x00, 0x00, 0x00, 0x00,
    0x10, 0x10, 0x10, 0x10, 0xff, 0x10, 0x10, 0x10, 0x10, 0x10, 0x00, 0x00, 0x00, 0x00, 0x00, 0x00]"

definition font_1 :: "u8 list" where
  "font_1 = [
    0xff, 0x00, 0x00, 0x00, 0x00, 0x00, 0x00, 0x00, 0x00, 0x00, 0x00, 0x00, 0x00, 0x00, 0x00, 0x00,
    0x00, 0x00, 0xff, 0x00, 0x00, 0x00, 0x00, 0x00, 0x00, 0x00, 0x00, 0x00, 0x00, 0x00, 0x00, 0x00,
    0x00, 0x00, 0x00, 0x00, 0xff, 0x00, 0x00, 0x00, 0x00, 0x00, 0x00, 0x00, 0x00, 0x00, 0x00, 0x00,
    0x00, 0x00, 0x00, 0x00, 0x00, 0x00, 0xff, 0x00, 0x00, 0x00, 0x00, 0x00, 0x00, 0x00, 0x00, 0x00,
    0x00, 0x00, 0x00, 0x00, 0x00, 0x00, 0x00, 0x00, 0xff, 0x00, 0x00, 0x00, 0x00, 0x00, 0x00, 0x00,
    0x10, 0x10, 0x10, 0x10, 0x1f, 0x10, 0x10, 0x10, 0x10, 0x10, 0x00, 0x00, 0x00, 0x00, 0x00, 0x00,
    0x10, 0x10, 0x10, 0x10, 0xf0, 0x10, 0x10, 0x10, 0x10, 0x10, 0x00, 0x00, 0x00, 0x00, 0x00, 0x00,
    0x10, 0x10, 0x10, 0x10, 0xff, 0x00, 0x00, 0x00, 0x00, 0x00, 0x00, 0x00, 0x00, 0x00, 0x00, 0x00,
    0x00, 0x00, 0x00, 0x00, 0xff, 0x10, 0x10, 0x10, 0x10, 0x10, 0x00, 0x00, 0x00, 0x00, 0x00, 0x00,
    0x10, 0x10, 0x10, 0x10, 0x10, 0x10, 0x10, 0x10, 0x10, 0x10, 0x00, 0x00, 0x00, 0x00, 0x00, 0x00,
    0x00, 0x02, 0x08, 0x20, 0x80, 0x20, 0x08, 0x02, 0xfe, 0x00, 0x00, 0x00, 0x00, 0x00, 0x00, 0x00,
    0x00, 0x80, 0x20, 0x08, 0x02, 0x08, 0x20, 0x80, 0xfe, 0x00, 0x00, 0x00, 0x00, 0x00, 0x00, 0x00,
    0x00, 0x00, 0x00, 0xfe, 0x24, 0x24, 0x24, 0x44, 0x00, 0x00, 0x00, 0x00, 0x00, 0x00, 0x00, 0x00,
    0x00, 0x02, 0x04, 0xfe, 0x10, 0xfe, 0x40, 0x80, 0x00, 0x00, 0x00, 0x00, 0x00, 0x00, 0x00, 0x00,
    0x00, 0x1c, 0x22, 0x20, 0xf8, 0x20, 0x78, 0xa6, 0x40, 0x00, 0x00, 0x00, 0x00, 0x00, 0x00, 0x00,
    0x00, 0x00, 0x00, 0x00, 0x10, 0x00, 0x00, 0x00, 0x00, 0x00, 0x00, 0x00, 0x00, 0x00, 0x00, 0x00]"

definition font_2 :: "u8 list" where
  "font_2 = [
    0x00, 0x00, 0x00, 0x00, 0x00, 0x00, 0x00, 0x00, 0x00, 0x00, 0x00, 0x00, 0x00, 0x00, 0x00, 0x00,
    0x00, 0x10, 0x10, 0x10, 0x10, 0x10, 0x00, 0x10, 0x00, 0x00, 0x00, 0x00, 0x00, 0x00, 0x00, 0x00,
    0x00, 0x24, 0x24, 0x24, 0x00, 0x00, 0x00, 0x00, 0x00, 0x00, 0x00, 0x00, 0x00, 0x00, 0x00, 0x00,
    0x00, 0x48, 0x48, 0xfc, 0x48, 0xfc, 0x48, 0x48, 0x00, 0x00, 0x00, 0x00, 0x00, 0x00, 0x00, 0x00,
    0x00, 0x10, 0x7c, 0x90, 0x7c, 0x12, 0x7c, 0x10, 0x00, 0x00, 0x00, 0x00, 0x00, 0x00, 0x00, 0x00,
    0x00, 0xc2, 0xc4, 0x08, 0x10, 0x20, 0x46, 0x86, 0x00, 0x00, 0x00, 0x00, 0x00, 0x00, 0x00, 0x00,
    0x00, 0x70, 0x88, 0x88, 0x70, 0x8a, 0x84, 0x7a, 0x00, 0x00, 0x00, 0x00, 0x00, 0x00, 0x00, 0x00,
    0x00, 0x18, 0x10, 0x20, 0x00, 0x00, 0x00, 0x00, 0x00, 0x00, 0x00, 0x00, 0x00, 0x00, 0x00, 0x00,
    0x00, 0x08, 0x10, 0x20, 0x20, 0x20, 0x10, 0x08, 0x00, 0x00, 0x00, 0x00, 0x00, 0x00, 0x00, 0x00,
    0x00, 0x20, 0x10, 0x08, 0x08, 0x08, 0x10, 0x20, 0x00, 0x00, 0x00, 0x00, 0x00, 0x00, 0x00, 0x00,
    0x00, 0x00, 0x44, 0x28, 0xfe, 0x28, 0x44, 0x00, 0x00, 0x00, 0x00, 0x00, 0x00, 0x00, 0x00, 0x00,
    0x00, 0x00, 0x10, 0x10, 0xfe, 0x10, 0x10, 0x00, 0x00, 0x00, 0x00, 0x00, 0x00, 0x00, 0x00, 0x00,
    0x00, 0x00, 0x00, 0x00, 0x00, 0x00, 0x30, 0x20, 0x40, 0x00, 0x00, 0x00, 0x00, 0x00, 0x00, 0x00,
    0x00, 0x00, 0x00, 0x00, 0xfe, 0x00, 0x00, 0x00, 0x00, 0x00, 0x00, 0x00, 0x00, 0x00, 0x00, 0x00,
    0x00, 0x00, 0x00, 0x00, 0x00, 0x00, 0x30, 0x30, 0x00, 0x00, 0x00, 0x00, 0x00, 0x00, 0x00, 0x00,
    0x00, 0x02, 0x04, 0x08, 0x10, 0x20, 0x40, 0x80, 0x00, 0x00, 0x00, 0x00, 0x00, 0x00, 0x00, 0x00]"

definition font_3 :: "u8 list" where
  "font_3 = [
    0x00, 0x38, 0x44, 0x82, 0x82, 0x82, 0x44, 0x38, 0x00, 0x00, 0x00, 0x00, 0x00, 0x00, 0x00, 0x00,
    0x00, 0x10, 0x30, 0x50, 0x10, 0x10, 0x10, 0x7c, 0x00, 0x00, 0x00, 0x00, 0x00, 0x00, 0x00, 0x00,
    0x00, 0x78, 0x84, 0x02, 0x1c, 0x60, 0x80, 0xfe, 0x00, 0x00, 0x00, 0x00, 0x00, 0x00, 0x00, 0x00,
    0x00, 0xfe, 0x04, 0x08, 0x1c, 0x02, 0x82, 0x7c, 0x00, 0x00, 0x00, 0x00, 0x00, 0x00, 0x00, 0x00,
    0x00, 0x08, 0x18, 0x28, 0x48, 0xfe, 0x08, 0x08, 0x00, 0x00, 0x00, 0x00, 0x00, 0x00, 0x00, 0x00,
    0x00, 0xfe, 0x80, 0xbc, 0xc2, 0x02, 0x82, 0x7c, 0x00, 0x00, 0x00, 0x00, 0x00, 0x00, 0x00, 0x00,
    0x00, 0x3c, 0x42, 0x80, 0xbc, 0xc2, 0x42, 0x3c, 0x00, 0x00, 0x00, 0x00, 0x00, 0x00, 0x00, 0x00,
    0x00, 0xfe, 0x02, 0x04, 0x08, 0x10, 0x20, 0x40, 0x00, 0x00, 0x00, 0x00, 0x00, 0x00, 0x00, 0x00,
    0x00, 0x7c, 0x82, 0x82, 0x7c, 0x82, 0x82, 0x7c, 0x00, 0x00, 0x00, 0x00, 0x00, 0x00, 0x00, 0x00,
    0x00, 0x78, 0x84, 0x86, 0x7a, 0x02, 0x84, 0x78, 0x00, 0x00, 0x00, 0x00, 0x00, 0x00, 0x00, 0x00,
    0x00, 0x00, 0x30, 0x30, 0x00, 0x00, 0x30, 0x30, 0x00, 0x00, 0x00, 0x00, 0x00, 0x00, 0x00, 0x00,
    0x00, 0x00, 0x30, 0x30, 0x00, 0x00, 0x30, 0x20, 0x40, 0x00, 0x00, 0x00, 0x00, 0x00, 0x00, 0x00,
    0x00, 0x02, 0x08, 0x20, 0x80, 0x20, 0x08, 0x02, 0x00, 0x00, 0x00, 0x00, 0x00, 0x00, 0x00, 0x00,
    0x00, 0x00, 0x00, 0xfe, 0x00, 0xfe, 0x00, 0x00, 0x00, 0x00, 0x00, 0x00, 0x00, 0x00, 0x00, 0x00,
    0x00, 0x80, 0x20, 0x08, 0x02, 0x08, 0x20, 0x80, 0x00, 0x00, 0x00, 0x00, 0x00, 0x00, 0x00, 0x00,
    0x00, 0x7c, 0x82, 0x0c, 0x10, 0x10, 0x00, 0x10, 0x00, 0x00, 0x00, 0x00, 0x00, 0x00, 0x00, 0x00]"

definition font_4 :: "u8 list" where
  "font_4 = [
    0x00, 0x7c, 0x82, 0x8a, 0x92, 0x9c, 0x80, 0x7c, 0x00, 0x00, 0x00, 0x00, 0x00, 0x00, 0x00, 0x00,
    0x00, 0x10, 0x28, 0x44, 0x82, 0xfe, 0x82, 0x82, 0x00, 0x00, 0x00, 0x00, 0x00, 0x00, 0x00, 0x00,
    0x00, 0xfc, 0x42, 0x42, 0x7c, 0x42, 0x42, 0xfc, 0x00, 0x00, 0x00, 0x00, 0x00, 0x00, 0x00, 0x00,
    0x00, 0x3c, 0x42, 0x80, 0x80, 0x80, 0x42, 0x3c, 0x00, 0x00, 0x00, 0x00, 0x00, 0x00, 0x00, 0x00,
    0x00, 0xf8, 0x44, 0x42, 0x42, 0x42, 0x44, 0xf8, 0x00, 0x00, 0x00, 0x00, 0x00, 0x00, 0x00, 0x00,
    0x00, 0xfe, 0x80, 0x80, 0xf8, 0x80, 0x80, 0xfe, 0x00, 0x00, 0x00, 0x00, 0x00, 0x00, 0x00, 0x00,
    0x00, 0xfe, 0x80, 0x80, 0xf8, 0x80, 0x80, 0x80, 0x00, 0x00, 0x00, 0x00, 0x00, 0x00, 0x00, 0x00,
    0x00, 0x3c, 0x42, 0x80, 0x80, 0x8e, 0x42, 0x3c, 0x00, 0x00, 0x00, 0x00, 0x00, 0x00, 0x00, 0x00,
    0x00, 0x82, 0x82, 0x82, 0xfe, 0x82, 0x82, 0x82, 0x00, 0x00, 0x00, 0x00, 0x00, 0x00, 0x00, 0x00,
    0x00, 0x7c, 0x10, 0x10, 0x10, 0x10, 0x10, 0x7c, 0x00, 0x00, 0x00, 0x00, 0x00, 0x00, 0x00, 0x00,
    0x00, 0x0e, 0x04, 0x04, 0x04, 0x04, 0x84, 0x78, 0x00, 0x00, 0x00, 0x00, 0x00, 0x00, 0x00, 0x00,
    0x00, 0x82, 0x8c, 0xb0, 0xc0, 0xb0, 0x8c, 0x82, 0x00, 0x00, 0x00, 0x00, 0x00, 0x00, 0x00, 0x00,
    0x00, 0x80, 0x80, 0x80, 0x80, 0x80, 0x80, 0xfe, 0x00, 0x00, 0x00, 0x00, 0x00, 0x00, 0x00, 0x00,
    0x00, 0x82, 0xc6, 0xaa, 0x92, 0x82, 0x82, 0x82, 0x00, 0x00, 0x00, 0x00, 0x00, 0x00, 0x00, 0x00,
    0x00, 0x82, 0xc2, 0xa2, 0x92, 0x8a, 0x86, 0x82, 0x00, 0x00, 0x00, 0x00, 0x00, 0x00, 0x00, 0x00,
    0x00, 0x7c, 0x82, 0x82, 0x82, 0x82, 0x82, 0x7c, 0x00, 0x00, 0x00, 0x00, 0x00, 0x00, 0x00, 0x00]"

definition font_5 :: "u8 list" where
  "font_5 = [
    0x00, 0xfc, 0x82, 0x82, 0xfc, 0x80, 0x80, 0x80, 0x00, 0x00, 0x00, 0x00, 0x00, 0x00, 0x00, 0x00,
    0x00, 0x7c, 0x82, 0x82, 0x82, 0x8a, 0x84, 0x7a, 0x00, 0x00, 0x00, 0x00, 0x00, 0x00, 0x00, 0x00,
    0x00, 0xfc, 0x82, 0x82, 0xfc, 0x88, 0x84, 0x82, 0x00, 0x00, 0x00, 0x00, 0x00, 0x00, 0x00, 0x00,
    0x00, 0x7c, 0x82, 0x80, 0x7c, 0x02, 0x82, 0x7c, 0x00, 0x00, 0x00, 0x00, 0x00, 0x00, 0x00, 0x00,
    0x00, 0xfe, 0x10, 0x10, 0x10, 0x10, 0x10, 0x10, 0x00, 0x00, 0x00, 0x00, 0x00, 0x00, 0x00, 0x00,
    0x00, 0x82, 0x82, 0x82, 0x82, 0x82, 0x82, 0x7c, 0x00, 0x00, 0x00, 0x00, 0x00, 0x00, 0x00, 0x00,
    0x00, 0x82, 0x82, 0x44, 0x44, 0x28, 0x28, 0x10, 0x00, 0x00, 0x00, 0x00, 0x00, 0x00, 0x00, 0x00,
    0x00, 0x82, 0x82, 0x82, 0x92, 0x92, 0xaa, 0x44, 0x00, 0x00, 0x00, 0x00, 0x00, 0x00, 0x00, 0x00,
    0x00, 0x82, 0x44, 0x28, 0x10, 0x28, 0x44, 0x82, 0x00, 0x00, 0x00, 0x00, 0x00, 0x00, 0x00, 0x00,
    0x00, 0x82, 0x44, 0x28, 0x10, 0x10, 0x10, 0x10, 0x00, 0x00, 0x00, 0x00, 0x00, 0x00, 0x00, 0x00,
    0x00, 0xfe, 0x04, 0x08, 0x10, 0x20, 0x40, 0xfe, 0x00, 0x00, 0x00, 0x00, 0x00, 0x00, 0x00, 0x00,
    0x00, 0x3c, 0x20, 0x20, 0x20, 0x20, 0x20, 0x3c, 0x00, 0x00, 0x00, 0x00, 0x00, 0x00, 0x00, 0x00,
    0x00, 0x80, 0x40, 0x20, 0x10, 0x08, 0x04, 0x02, 0x00, 0x00, 0x00, 0x00, 0x00, 0x00, 0x00, 0x00,
    0x00, 0x78, 0x08, 0x08, 0x08, 0x08, 0x08, 0x78, 0x00, 0x00, 0x00, 0x00, 0x00, 0x00, 0x00, 0x00,
    0x00, 0x10, 0x28, 0x44, 0x82, 0x00, 0x00, 0x00, 0x00, 0x00, 0x00, 0x00, 0x00, 0x00, 0x00, 0x00,
    0x00, 0x00, 0x00, 0x00, 0x00, 0x00, 0x00, 0xfe, 0x00, 0x00, 0x00, 0x00, 0x00, 0x00, 0x00, 0x00]"

definition font_6 :: "u8 list" where
  "font_6 = [
    0x00, 0x30, 0x10, 0x08, 0x00, 0x00, 0x00, 0x00, 0x00, 0x00, 0x00, 0x00, 0x00, 0x00, 0x00, 0x00,
    0x00, 0x00, 0x00, 0x7c, 0x02, 0x7e, 0x82, 0x7e, 0x00, 0x00, 0x00, 0x00, 0x00, 0x00, 0x00, 0x00,
    0x00, 0x80, 0x80, 0xbc, 0xc2, 0x82, 0xc2, 0xbc, 0x00, 0x00, 0x00, 0x00, 0x00, 0x00, 0x00, 0x00,
    0x00, 0x00, 0x00, 0x3c, 0x42, 0x80, 0x40, 0x3e, 0x00, 0x00, 0x00, 0x00, 0x00, 0x00, 0x00, 0x00,
    0x00, 0x02, 0x02, 0x7a, 0x86, 0x82, 0x86, 0x7a, 0x00, 0x00, 0x00, 0x00, 0x00, 0x00, 0x00, 0x00,
    0x00, 0x00, 0x00, 0x7c, 0x82, 0xfe, 0x80, 0x7c, 0x00, 0x00, 0x00, 0x00, 0x00, 0x00, 0x00, 0x00,
    0x00, 0x1c, 0x22, 0x20, 0xf8, 0x20, 0x20, 0x20, 0x00, 0x00, 0x00, 0x00, 0x00, 0x00, 0x00, 0x00,
    0x00, 0x00, 0x00, 0x7c, 0x84, 0x84, 0x7c, 0x04, 0x84, 0x78, 0x00, 0x00, 0x00, 0x00, 0x00, 0x00,
    0x00, 0x80, 0x80, 0xbc, 0xc2, 0x82, 0x82, 0x82, 0x00, 0x00, 0x00, 0x00, 0x00, 0x00, 0x00, 0x00,
    0x00, 0x10, 0x00, 0x30, 0x10, 0x10, 0x10, 0x7c, 0x00, 0x00, 0x00, 0x00, 0x00, 0x00, 0x00, 0x00,
    0x00, 0x04, 0x00, 0x04, 0x04, 0x04, 0x04, 0x84, 0x84, 0x78, 0x00, 0x00, 0x00, 0x00, 0x00, 0x00,
    0x00, 0x80, 0x80, 0x88, 0x90, 0xe0, 0x88, 0x82, 0x00, 0x00, 0x00, 0x00, 0x00, 0x00, 0x00, 0x00,
    0x00, 0x30, 0x10, 0x10, 0x10, 0x10, 0x10, 0x38, 0x00, 0x00, 0x00, 0x00, 0x00, 0x00, 0x00, 0x00,
    0x00, 0x00, 0x00, 0xc4, 0xaa, 0x92, 0x92, 0x82, 0x00, 0x00, 0x00, 0x00, 0x00, 0x00, 0x00, 0x00,
    0x00, 0x00, 0x00, 0xbc, 0xc2, 0x82, 0x82, 0x82, 0x00, 0x00, 0x00, 0x00, 0x00, 0x00, 0x00, 0x00,
    0x00, 0x00, 0x00, 0x7c, 0x82, 0x82, 0x82, 0x7c, 0x00, 0x00, 0x00, 0x00, 0x00, 0x00, 0x00, 0x00]"

definition font_7 :: "u8 list" where
  "font_7 = [
    0x00, 0x00, 0x00, 0xbc, 0xc2, 0xc2, 0xbc, 0x80, 0x80, 0x80, 0x00, 0x00, 0x00, 0x00, 0x00, 0x00,
    0x00, 0x00, 0x00, 0x7a, 0x86, 0x86, 0x7a, 0x02, 0x02, 0x02, 0x00, 0x00, 0x00, 0x00, 0x00, 0x00,
    0x00, 0x00, 0x00, 0x9c, 0x62, 0x40, 0x40, 0x40, 0x00, 0x00, 0x00, 0x00, 0x00, 0x00, 0x00, 0x00,
    0x00, 0x00, 0x00, 0x7c, 0x80, 0x7c, 0x02, 0xfc, 0x00, 0x00, 0x00, 0x00, 0x00, 0x00, 0x00, 0x00,
    0x00, 0x20, 0x20, 0xf8, 0x20, 0x20, 0x24, 0x18, 0x00, 0x00, 0x00, 0x00, 0x00, 0x00, 0x00, 0x00,
    0x00, 0x00, 0x00, 0x84, 0x84, 0x84, 0x84, 0x7a, 0x00, 0x00, 0x00, 0x00, 0x00, 0x00, 0x00, 0x00,
    0x00, 0x00, 0x00, 0x82, 0x82, 0x44, 0x28, 0x10, 0x00, 0x00, 0x00, 0x00, 0x00, 0x00, 0x00, 0x00,
    0x00, 0x00, 0x00, 0x82, 0x82, 0x92, 0xaa, 0x44, 0x00, 0x00, 0x00, 0x00, 0x00, 0x00, 0x00, 0x00,
    0x00, 0x00, 0x00, 0x84, 0x48, 0x30, 0x48, 0x84, 0x00, 0x00, 0x00, 0x00, 0x00, 0x00, 0x00, 0x00,
    0x00, 0x00, 0x00, 0x84, 0x84, 0x8c, 0x74, 0x04, 0x84, 0x78, 0x00, 0x00, 0x00, 0x00, 0x00, 0x00,
    0x00, 0x00, 0x00, 0xfe, 0x04, 0x18, 0x20, 0xfe, 0x00, 0x00, 0x00, 0x00, 0x00, 0x00, 0x00, 0x00,
    0x00, 0x0e, 0x10, 0x10, 0x60, 0x10, 0x10, 0x0e, 0x00, 0x00, 0x00, 0x00, 0x00, 0x00, 0x00, 0x00,
    0x00, 0x10, 0x10, 0x10, 0x00, 0x00, 0x10, 0x10, 0x10, 0x00, 0x00, 0x00, 0x00, 0x00, 0x00, 0x00,
    0x00, 0xe0, 0x10, 0x10, 0x0c, 0x10, 0x10, 0xe0, 0x00, 0x00, 0x00, 0x00, 0x00, 0x00, 0x00, 0x00,
    0x00, 0x62, 0x92, 0x8c, 0x00, 0x00, 0x00, 0x00, 0x00, 0x00, 0x00, 0x00, 0x00, 0x00, 0x00, 0x00,
    0x00, 0x00, 0x00, 0x00, 0x00, 0x00, 0x00, 0x00, 0x00, 0x00, 0x00, 0x00, 0x00, 0x00, 0x00, 0x00]"

definition terminal_font :: "u8 list" where
  "terminal_font = font_0 @ font_1 @ font_2 @ font_3 @ font_4 @ font_5 @ font_6 @ font_7 @ replicate 2048 0"

definition rgb :: "u8 \<Rightarrow> u8 \<Rightarrow> u8 \<Rightarrow> u32" where
  "rgb r g b = 0xff000000 OR push_bit 16 (ucast r) OR push_bit 8 (ucast g) OR ucast b"

definition font_color :: "u16 \<Rightarrow> u32" where
  "font_color options =
     (if options AND 0x030 = 0x010 then rgb 0xf7 0xaa 0x00 else if options AND 0x030 = 0x020 then rgb 0xff 0xff 0xff else rgb 0x00 0xff 0x00)"

text \<open>The cursor on the scanline \<open>ra\<close> of the character it is on.\<close>

definition cursor_gfx :: "u16 \<Rightarrow> nat \<Rightarrow> nat \<Rightarrow> u8 \<Rightarrow> u8" where
  "cursor_gfx options framecnt ra gfx =
     (if options AND 2 \<noteq> 0 \<or> ra = 9 then
        if options AND 0x004 \<noteq> 0 \<and> framecnt AND 8 \<noteq> 0 then gfx
        else if options AND 0x008 \<noteq> 0 then gfx XOR 0xff else gfx OR 0xff
      else gfx)"

definition gfx_pixels :: "u32 \<Rightarrow> u8 \<Rightarrow> u32 list" where
  "gfx_pixels color gfx = map (\<lambda>k. if bit gfx k then color else 0) [7, 6, 5, 4, 3, 2, 1, 0]"

definition char_pixels :: "generic_terminal \<Rightarrow> nat \<Rightarrow> nat \<Rightarrow> u32 list option" where
  "char_pixels t ra x =
     (if x < length (m_buffer t) then
        let chr = m_buffer t ! x; i = (unat chr * 16) OR ra
        in if i < length terminal_font then
             let options = m_io_term_conf t; gfx = terminal_font ! i; cursor = (m_y_pos t * m_width t + m_x_pos t) mod 65536
             in Some (gfx_pixels (font_color options) (if x = cursor \<and> options AND 0x001 \<noteq> 0 then cursor_gfx options (m_framecnt t) ra gfx else gfx))
           else None
      else None)"

text \<open>The three loops; \<^verbatim>\<open>ma\<close> and \<^verbatim>\<open>x\<close> have 16 bits.\<close>

primrec scanline :: "generic_terminal \<Rightarrow> nat \<Rightarrow> nat \<Rightarrow> nat \<Rightarrow> u32 list option" where
  "scanline t ra x 0 = Some []"
| "scanline t ra x (Suc n) =
     (case char_pixels t ra x of None \<Rightarrow> None
      | Some ps \<Rightarrow> map_option (\<lambda>qs. ps @ qs) (scanline t ra ((x + 1) mod 65536) n))"

primrec char_lines :: "generic_terminal \<Rightarrow> nat \<Rightarrow> nat \<Rightarrow> nat \<Rightarrow> u32 list list option" where
  "char_lines t ma ra 0 = Some []"
| "char_lines t ma ra (Suc n) =
     (case scanline t ra ma (m_width t) of None \<Rightarrow> None
      | Some l \<Rightarrow> map_option (\<lambda>ls. l # ls) (char_lines t ma (ra + 1) n))"

primrec text_lines :: "generic_terminal \<Rightarrow> nat \<Rightarrow> nat \<Rightarrow> u32 list list option" where
  "text_lines t ma 0 = Some []"
| "text_lines t ma (Suc n) =
     (case char_lines t ma 0 10 of None \<Rightarrow> None
      | Some ls \<Rightarrow> map_option (\<lambda>ms. ls @ ms) (text_lines t ((ma + m_width t) mod 65536) n))"

definition terminal_update :: "generic_terminal \<Rightarrow> (u32 list list \<times> generic_terminal) option" where
  "terminal_update t =
     (let t1 = t\<lparr>m_framecnt := (m_framecnt t + 1) mod 256\<rparr>
      in map_option (\<lambda>ls. (ls, t1)) (text_lines t1 0 (m_height t1)))"

section \<open>The picture of the rows\<close>

lemma length_terminal_font: "length terminal_font = 4096"
  by (simp add: terminal_font_def font_0_def font_1_def font_2_def font_3_def font_4_def font_5_def font_6_def font_7_def)

lemma font_index:
  assumes "ra < 16"
  shows "(unat (c::u8) * 16) OR ra = unat c * 16 + ra" "unat c * 16 + ra < length terminal_font"
proof -
  have c: "unat c < 256" by (rule less_le_trans [OF unsigned_less]) simp
  have p: "unat c * 16 = push_bit 4 (unat c)" by (simp add: push_bit_eq_mult)
  have r: "take_bit 4 ra = ra" using assms by (simp add: take_bit_nat_eq_self_iff)
  have "push_bit 4 (unat c) AND ra = 0"
  proof (rule bit_eqI)
    fix n show "bit (push_bit 4 (unat c) AND ra) n \<longleftrightarrow> bit 0 n"
      by (subst r [symmetric]) (auto simp: bit_simps)
  qed
  then show "(unat c * 16) OR ra = unat c * 16 + ra" unfolding p by (simp add: disjunctive_add_eq_or)
  show "unat c * 16 + ra < length terminal_font" using c assms by (simp add: length_terminal_font)
qed

text \<open>The scanline \<open>ra\<close> of the character at buffer position \<open>x\<close>.\<close>

definition glyph :: "generic_terminal \<Rightarrow> nat \<Rightarrow> nat \<Rightarrow> u8" where
  "glyph t ra x =
     (let gfx = terminal_font ! (unat (m_buffer t ! x) * 16 + ra)
      in if x = m_y_pos t * m_width t + m_x_pos t \<and> m_io_term_conf t AND 0x001 \<noteq> 0 then cursor_gfx (m_io_term_conf t) (m_framecnt t) ra gfx else gfx)"

lemma buffer_small:
  assumes "term_ok t"
  shows "length (m_buffer t) < 65536" "m_y_pos t * m_width t + m_x_pos t < length (m_buffer t)"
proof -
  have "m_width t * m_height t \<le> 255 * 255" using assms by (intro mult_le_mono) (auto simp: term_ok_def)
  then show "length (m_buffer t) < 65536" using assms by (simp add: term_ok_def)
  show "m_y_pos t * m_width t + m_x_pos t < length (m_buffer t)" using assms pos_in_buffer by (simp add: term_ok_def)
qed

lemma char_pixels_ok:
  assumes "term_ok t" "x < length (m_buffer t)" "ra < 16"
  shows "char_pixels t ra x = Some (gfx_pixels (font_color (m_io_term_conf t)) (glyph t ra x))"
  using assms buffer_small [OF assms(1)] font_index [OF assms(3)] by (simp add: char_pixels_def glyph_def Let_def)

lemma scanline_ok:
  assumes "term_ok t" "ra < 16"
  shows "x + n \<le> length (m_buffer t) \<Longrightarrow>
    scanline t ra x n = Some (concat (map (\<lambda>i. gfx_pixels (font_color (m_io_term_conf t)) (glyph t ra i)) [x..<x + n]))"
proof (induction n arbitrary: x)
  case (Suc n)
  have "char_pixels t ra x = Some (gfx_pixels (font_color (m_io_term_conf t)) (glyph t ra x))"
    using Suc.prems by (intro char_pixels_ok assms) simp
  moreover have "(x + 1) mod 65536 = x + 1" using Suc.prems buffer_small(1) [OF assms(1)] by simp
  ultimately show ?case using Suc.IH [of "x + 1"] Suc.prems by (simp add: upt_conv_Cons del: upt_Suc)
qed simp

lemma char_lines_ok:
  assumes "term_ok t" "ma + m_width t \<le> length (m_buffer t)"
  shows "ra + n \<le> 16 \<Longrightarrow> char_lines t ma ra n = Some (map (\<lambda>ra. concat (map (\<lambda>i. gfx_pixels (font_color (m_io_term_conf t)) (glyph t ra i)) [ma..<ma + m_width t])) [ra..<ra + n])"
proof (induction n arbitrary: ra)
  case (Suc n)
  then show ?case using Suc.IH [of "ra + 1"] scanline_ok [OF assms(1) _ assms(2), of ra] by (simp add: upt_conv_Cons del: upt_Suc)
qed simp

lemma text_lines_ok:
  assumes "term_ok t"
  shows "ma + n * m_width t \<le> length (m_buffer t) \<Longrightarrow> text_lines t ma n = Some (concat (map (\<lambda>j. map (\<lambda>ra. concat (map (\<lambda>i.
      gfx_pixels (font_color (m_io_term_conf t)) (glyph t ra i)) [ma + j * m_width t..<ma + j * m_width t + m_width t])) [0..<10]) [0..<n]))"
proof (induction n arbitrary: ma)
  case (Suc n)
  let ?w = "m_width t"
  have m: "ma + ?w \<le> length (m_buffer t)" "ma + ?w + n * ?w \<le> length (m_buffer t)" using Suc.prems by (simp_all add: algebra_simps)
  have "(ma + ?w) mod 65536 = ma + ?w" using m(1) buffer_small(1) [OF assms] by simp
  moreover have "char_lines t ma 0 10 = Some (map (\<lambda>ra. concat (map (\<lambda>i. gfx_pixels (font_color (m_io_term_conf t)) (glyph t ra i)) [ma..<ma + ?w])) [0..<10])"
    using char_lines_ok [OF assms m(1), of 0 10] by simp
  moreover have "map f [0..<Suc n] = f 0 # map (\<lambda>j. f (Suc j)) [0..<n]" for f :: "nat \<Rightarrow> u32 list list"
    by (simp add: upt_conv_Cons map_Suc_upt [symmetric] del: upt_Suc)
  ultimately show ?case using Suc.IH [OF m(2)] by (simp add: algebra_simps del: upt_Suc)
qed simp

lemma concat_nth: "\<forall>xs \<in> set xss. length xs = L \<Longrightarrow> i < length xss \<Longrightarrow> j < L \<Longrightarrow> concat xss ! (i * L + j) = xss ! i ! j"
proof (induction xss arbitrary: i)
  case (Cons xs xss)
  then show ?case by (cases i) (auto simp: nth_append)
qed simp

text \<open>C18. The picture of a terminal shows its screen: the update of the screen reads only the buffer and the font, ends, and draws ten scanlines for each row; the pixels of a scanline are the
  bits of the glyphs of the row's characters in the colour of the options, with the glyph at the cursor changed as the options say.\<close>

theorem terminal_draws_screen:
  assumes "term_ok t"
  shows "\<exists>pic t'. terminal_update t = Some (pic, t') \<and> t' = t\<lparr>m_framecnt := (m_framecnt t + 1) mod 256\<rparr> \<and> length pic = 10 * m_height t \<and>
    (\<forall>y < m_height t. \<forall>x < m_width t. \<forall>ra < 10. \<forall>k < 8. pic ! (y * 10 + ra) ! (x * 8 + k) =
       (let g = terminal_font ! (unat (rows t ! y ! x) * 16 + ra);
            g' = (if y = m_y_pos t \<and> x = m_x_pos t \<and> m_io_term_conf t AND 0x001 \<noteq> 0 then cursor_gfx (m_io_term_conf t) (m_framecnt t') ra g else g)
        in if bit g' (7 - k) then font_color (m_io_term_conf t) else 0))"
proof -
  define t' where "t' = t\<lparr>m_framecnt := (m_framecnt t + 1) mod 256\<rparr>"
  let ?w = "m_width t" and ?h = "m_height t"
  let ?P = "\<lambda>ra i. gfx_pixels (font_color (m_io_term_conf t)) (glyph t' ra i)"
  define F where "F = (\<lambda>j. map (\<lambda>ra. concat (map (?P ra) [j * ?w..<j * ?w + ?w])) [0..<10])"
  have f: "m_width t' = ?w" "m_height t' = ?h" "m_io_term_conf t' = m_io_term_conf t" "m_buffer t' = m_buffer t" "m_y_pos t' = m_y_pos t" "m_x_pos t' = m_x_pos t"
    by (simp_all add: t'_def)
  have ok: "term_ok t'" using assms by (simp add: t'_def term_ok_def)
  have "0 + ?h * m_width t' \<le> length (m_buffer t')" using assms by (simp add: f term_ok_def)
  from text_lines_ok [OF ok this] have lines: "text_lines t' 0 ?h = Some (concat (map F [0..<?h]))" by (simp add: F_def f)
  have lF: "\<forall>xs \<in> set (map F [0..<?h]). length xs = 10" by (auto simp: F_def)
  have lP: "length (?P ra i) = 8" for ra i by (simp add: gfx_pixels_def)
  have len: "length (concat (map F [0..<?h])) = 10 * ?h"
  proof -
    have "sum_list (map (length \<circ> F) xs) = 10 * length xs" for xs by (induction xs) (simp_all add: F_def)
    then show ?thesis by (simp add: length_concat)
  qed
  have pixel: "concat (map F [0..<?h]) ! (y * 10 + ra) ! (x * 8 + k) = (if bit (glyph t' ra (y * ?w + x)) (7 - k) then font_color (m_io_term_conf t) else 0)"
    if "y < ?h" "x < ?w" "ra < 10" "k < 8" for y x ra k
  proof -
    have "concat (map F [0..<?h]) ! (y * 10 + ra) = F y ! ra" using concat_nth [OF lF, of y ra] that by simp
    also have "\<dots> = concat (map (?P ra) [y * ?w..<y * ?w + ?w])" using that by (simp add: F_def)
    finally have "concat (map F [0..<?h]) ! (y * 10 + ra) ! (x * 8 + k) = map (?P ra) [y * ?w..<y * ?w + ?w] ! x ! k"
      using concat_nth [of "map (?P ra) [y * ?w..<y * ?w + ?w]" 8 x k] that lP by simp
    also have "\<dots> = ?P ra (y * ?w + x) ! k" using that by simp
    also have "\<dots> = (if bit (glyph t' ra (y * ?w + x)) (7 - k) then font_color (m_io_term_conf t) else 0)"
    proof -
      have "k = 0 \<or> k = 1 \<or> k = 2 \<or> k = 3 \<or> k = 4 \<or> k = 5 \<or> k = 6 \<or> k = 7" using that(4) by linarith
      then show ?thesis by (elim disjE) (simp_all add: gfx_pixels_def)
    qed
    finally show ?thesis .
  qed
  have g: "glyph t' ra (y * ?w + x) = (let g = terminal_font ! (unat (rows t ! y ! x) * 16 + ra)
      in if y = m_y_pos t \<and> x = m_x_pos t \<and> m_io_term_conf t AND 0x001 \<noteq> 0 then cursor_gfx (m_io_term_conf t) (m_framecnt t') ra g else g)"
    if "y < ?h" "x < ?w" for y x ra
  proof -
    have "y * ?w + x = m_y_pos t * ?w + m_x_pos t \<longleftrightarrow> y = m_y_pos t \<and> x = m_x_pos t"
    proof
      assume e: "y * ?w + x = m_y_pos t * ?w + m_x_pos t"
      show "y = m_y_pos t \<and> x = m_x_pos t"
        using arg_cong [OF e, of "\<lambda>n. n div ?w"] arg_cong [OF e, of "\<lambda>n. n mod ?w"] that assms by (simp add: term_ok_def)
    qed simp
    then show ?thesis using buffer_rows [OF assms that] by (simp add: glyph_def f Let_def)
  qed
  have "terminal_update t = Some (concat (map F [0..<?h]), t')" unfolding terminal_update_def Let_def t'_def [symmetric] using lines by (simp add: f)
  then show ?thesis using len pixel g t'_def by (intro exI [of _ "concat (map F [0..<?h])"] exI [of _ t'] conjI) (simp_all add: Let_def)
qed

theorem terminal_draws_screen_witness:
  "\<exists>pic t'. terminal_update (term_write attotime_zero 0x41 (terminal_reset (generic_terminal_start attotime_zero 0x4e 4 2))) = Some (pic, t') \<and> pic ! 1 ! 3 = 0xff00ff00"
proof -
  define t where "t = term_write attotime_zero 0x41 (terminal_reset (generic_terminal_start attotime_zero 0x4e 4 2))"
  have s: "screen_is 4 2 0x4e (shown 4 2 []) 0 0 (terminal_reset (generic_terminal_start attotime_zero 0x4e 4 2))"
    using reset_screen [of "generic_terminal_start attotime_zero 0x4e 4 2"] by (simp add: generic_terminal_start_def term_ok_def)
  have "screen_is 4 2 0x4e ((shown 4 2 [])[0 := (shown 4 2 [] ! 0)[0 := 0x41]]) (Suc 0) 0 t"
    unfolding t_def using write_char_screen [where c = "0x41", OF s] by (simp add: term_write_def)
  then have t: "term_ok t" "m_io_term_conf t = 0x4e" "m_width t = 4" "m_height t = 2" "rows t ! 0 ! 0 = 0x41"
    by (auto simp: screen_is_def shown_def pad_def numeral_eq_Suc)
  have f: "terminal_font ! (0x41 * 16 + 1) = 0x10" by code_simp
  obtain pic t' where p: "terminal_update t = Some (pic, t')" and
    pix: "\<forall>y < m_height t. \<forall>x < m_width t. \<forall>ra < 10. \<forall>k < 8. pic ! (y * 10 + ra) ! (x * 8 + k) =
       (let g = terminal_font ! (unat (rows t ! y ! x) * 16 + ra);
            g' = (if y = m_y_pos t \<and> x = m_x_pos t \<and> m_io_term_conf t AND 0x001 \<noteq> 0 then cursor_gfx (m_io_term_conf t) (m_framecnt t') ra g else g)
        in if bit g' (7 - k) then font_color (m_io_term_conf t) else 0)"
    using terminal_draws_screen [OF t(1)] by blast
  have "pic ! (0 * 10 + 1) ! (0 * 8 + 3) = font_color 0x4e"
    using pix [rule_format, of 0 0 1 3] f t by (simp add: bit_simps)
  then have "pic ! 1 ! 3 = font_color 0x4e" by simp
  moreover have "font_color 0x4e = 0xff00ff00" by code_simp
  ultimately show ?thesis using p unfolding t_def by auto
qed

end
