(* ===== verification/Ata_Hle.thy ===== *)
theory Ata_Hle
  imports Emu_Timer Harddisk
begin

unbundle bit_operations_syntax

text \<open>
  The state of an ATA hard disk and the part of its base class \<^verbatim>\<open>device_ata_hle_interface\<close> of
  \<^verbatim>\<open>src/devices/machine/atahle.cpp\<close> that calls no function of the derived classes: the four lines it drives, its
  timers, the transfer modes and the end of the diagnostics. The record \<open>ide_hdd\<close> extends the
  fields of the base class by those of \<^verbatim>\<open>device_ata_mass_storage_device_interface\<close> and of \<^verbatim>\<open>ide_hdd_device_base\<close>.
  What the device writes to its output lines is logged in \<open>ata_lines\<close>. An access outside the buffer,
  or through a null pointer, sets the flag \<open>ata_ub\<close>.
\<close>

section \<open>State\<close>

datatype ata_line = IRQ_OUT bool | DMARQ_OUT bool | DASP_OUT bool | PDIAG_OUT bool

record ata_hle =
  m_buffer :: "u8 list"
  m_buffer_offset :: nat
  m_buffer_size :: nat
  m_error :: u8
  m_feature :: u8
  m_sector_count :: u8
  m_sector_count_hob :: u8
  m_sector_number :: u8
  m_sector_number_hob :: u8
  m_cylinder_low :: u8
  m_cylinder_low_hob :: u8
  m_cylinder_high :: u8
  m_cylinder_high_hob :: u8
  m_device_head :: u8
  m_status :: u8
  m_command :: u8
  m_device_control :: u8
  m_identify_buffer :: "u16 list"
  m_revert_to_defaults :: bool
  m_8bit_data_transfers :: bool
  m_csel :: nat
  m_daspin :: bool
  m_daspout :: bool
  m_dmack :: bool
  m_dmarq :: bool
  m_irq :: bool
  m_pdiagin :: bool
  m_pdiagout :: bool
  m_single_device :: bool
  m_resetting :: bool
  m_busy_timer :: emu_timer
  m_buffer_empty_timer :: emu_timer
  ata_lines :: "ata_line list"
  ata_ub :: bool

record ide_hdd = ata_hle +
  m_can_identify_device :: bool
  m_num_cylinders :: nat
  m_num_sectors :: u8
  m_num_heads :: u8
  m_cur_lba :: nat
  m_block_count :: nat
  m_sectors_until_int :: nat
  m_sectors_remaining :: nat
  m_master_password_enable :: bool
  m_user_password_enable :: bool
  m_master_password :: "u8 list option"
  m_user_password :: "u8 list option"
  m_dma_transfer_time :: attotime
  m_ide_image :: harddisk_image
  m_last_status_timer :: emu_timer

abbreviation (input) IDE_STATUS_ERR :: u8 where "IDE_STATUS_ERR \<equiv> 0x01"
abbreviation (input) IDE_STATUS_IDX :: u8 where "IDE_STATUS_IDX \<equiv> 0x02"
abbreviation (input) IDE_STATUS_DRQ :: u8 where "IDE_STATUS_DRQ \<equiv> 0x08"
abbreviation (input) IDE_STATUS_DSC :: u8 where "IDE_STATUS_DSC \<equiv> 0x10"
abbreviation (input) IDE_STATUS_DRDY :: u8 where "IDE_STATUS_DRDY \<equiv> 0x40"
abbreviation (input) IDE_STATUS_BSY :: u8 where "IDE_STATUS_BSY \<equiv> 0x80"

abbreviation (input) IDE_ERROR_NONE :: u8 where "IDE_ERROR_NONE \<equiv> 0x00"
abbreviation (input) IDE_ERROR_ABRT :: u8 where "IDE_ERROR_ABRT \<equiv> 0x04"
abbreviation (input) IDE_ERROR_BAD_SECTOR :: u8 where "IDE_ERROR_BAD_SECTOR \<equiv> 0x80"
abbreviation (input) IDE_ERROR_DIAGNOSTIC_FAILED :: u8 where "IDE_ERROR_DIAGNOSTIC_FAILED \<equiv> 0x00"
abbreviation (input) IDE_ERROR_DIAGNOSTIC_PASSED :: u8 where "IDE_ERROR_DIAGNOSTIC_PASSED \<equiv> 0x01"
abbreviation (input) IDE_ERROR_DIAGNOSTIC_DEVICE1_FAILED :: u8 where "IDE_ERROR_DIAGNOSTIC_DEVICE1_FAILED \<equiv> 0x80"

abbreviation (input) IDE_COMMAND_DEVICE_RESET :: u8 where "IDE_COMMAND_DEVICE_RESET \<equiv> 0x08"
abbreviation (input) IDE_COMMAND_RECALIBRATE :: u8 where "IDE_COMMAND_RECALIBRATE \<equiv> 0x10"
abbreviation (input) IDE_COMMAND_READ_SECTORS :: u8 where "IDE_COMMAND_READ_SECTORS \<equiv> 0x20"
abbreviation (input) IDE_COMMAND_READ_SECTORS_NORETRY :: u8 where "IDE_COMMAND_READ_SECTORS_NORETRY \<equiv> 0x21"
abbreviation (input) IDE_COMMAND_READ_SECTORS_EXT :: u8 where "IDE_COMMAND_READ_SECTORS_EXT \<equiv> 0x24"
abbreviation (input) IDE_COMMAND_READ_DMA_EXT :: u8 where "IDE_COMMAND_READ_DMA_EXT \<equiv> 0x25"
abbreviation (input) IDE_COMMAND_READ_MULTIPLE_EXT :: u8 where "IDE_COMMAND_READ_MULTIPLE_EXT \<equiv> 0x29"
abbreviation (input) IDE_COMMAND_WRITE_SECTORS :: u8 where "IDE_COMMAND_WRITE_SECTORS \<equiv> 0x30"
abbreviation (input) IDE_COMMAND_WRITE_SECTORS_NORETRY :: u8 where "IDE_COMMAND_WRITE_SECTORS_NORETRY \<equiv> 0x31"
abbreviation (input) IDE_COMMAND_WRITE_SECTORS_EXT :: u8 where "IDE_COMMAND_WRITE_SECTORS_EXT \<equiv> 0x34"
abbreviation (input) IDE_COMMAND_WRITE_DMA_EXT :: u8 where "IDE_COMMAND_WRITE_DMA_EXT \<equiv> 0x35"
abbreviation (input) IDE_COMMAND_WRITE_MULTIPLE_EXT :: u8 where "IDE_COMMAND_WRITE_MULTIPLE_EXT \<equiv> 0x39"
abbreviation (input) IDE_COMMAND_VERIFY_SECTORS :: u8 where "IDE_COMMAND_VERIFY_SECTORS \<equiv> 0x40"
abbreviation (input) IDE_COMMAND_VERIFY_SECTORS_NORETRY :: u8 where "IDE_COMMAND_VERIFY_SECTORS_NORETRY \<equiv> 0x41"
abbreviation (input) IDE_COMMAND_VERIFY_SECTORS_EXT :: u8 where "IDE_COMMAND_VERIFY_SECTORS_EXT \<equiv> 0x42"
abbreviation (input) IDE_COMMAND_SEEK :: u8 where "IDE_COMMAND_SEEK \<equiv> 0x70"
abbreviation (input) IDE_COMMAND_DIAGNOSTIC :: u8 where "IDE_COMMAND_DIAGNOSTIC \<equiv> 0x90"
abbreviation (input) IDE_COMMAND_SET_CONFIG :: u8 where "IDE_COMMAND_SET_CONFIG \<equiv> 0x91"
abbreviation (input) IDE_COMMAND_READ_MULTIPLE :: u8 where "IDE_COMMAND_READ_MULTIPLE \<equiv> 0xc4"
abbreviation (input) IDE_COMMAND_WRITE_MULTIPLE :: u8 where "IDE_COMMAND_WRITE_MULTIPLE \<equiv> 0xc5"
abbreviation (input) IDE_COMMAND_SET_BLOCK_COUNT :: u8 where "IDE_COMMAND_SET_BLOCK_COUNT \<equiv> 0xc6"
abbreviation (input) IDE_COMMAND_READ_DMA :: u8 where "IDE_COMMAND_READ_DMA \<equiv> 0xc8"
abbreviation (input) IDE_COMMAND_WRITE_DMA :: u8 where "IDE_COMMAND_WRITE_DMA \<equiv> 0xca"
abbreviation (input) IDE_COMMAND_IDLE_IMMEDIATE :: u8 where "IDE_COMMAND_IDLE_IMMEDIATE \<equiv> 0xe1"
abbreviation (input) IDE_COMMAND_IDLE :: u8 where "IDE_COMMAND_IDLE \<equiv> 0xe3"
abbreviation (input) IDE_COMMAND_READ_BUFFER :: u8 where "IDE_COMMAND_READ_BUFFER \<equiv> 0xe4"
abbreviation (input) IDE_COMMAND_CACHE_FLUSH :: u8 where "IDE_COMMAND_CACHE_FLUSH \<equiv> 0xe7"
abbreviation (input) IDE_COMMAND_WRITE_BUFFER :: u8 where "IDE_COMMAND_WRITE_BUFFER \<equiv> 0xe8"
abbreviation (input) IDE_COMMAND_IDENTIFY_DEVICE :: u8 where "IDE_COMMAND_IDENTIFY_DEVICE \<equiv> 0xec"
abbreviation (input) IDE_COMMAND_SET_FEATURES :: u8 where "IDE_COMMAND_SET_FEATURES \<equiv> 0xef"
abbreviation (input) IDE_COMMAND_SECURITY_UNLOCK :: u8 where "IDE_COMMAND_SECURITY_UNLOCK \<equiv> 0xf2"
abbreviation (input) IDE_COMMAND_SECURITY_DISABLE_PASSWORD :: u8 where "IDE_COMMAND_SECURITY_DISABLE_PASSWORD \<equiv> 0xf6"
abbreviation (input) IDE_COMMAND_READ_NATIVE_MAX_ADDRESS :: u8 where "IDE_COMMAND_READ_NATIVE_MAX_ADDRESS \<equiv> 0xf8"
abbreviation (input) IDE_COMMAND_SET_MAX :: u8 where "IDE_COMMAND_SET_MAX \<equiv> 0xf9"

abbreviation (input) IDE_DEVICE_HEAD_HS :: u8 where "IDE_DEVICE_HEAD_HS \<equiv> 0x0f"
abbreviation (input) IDE_DEVICE_HEAD_DRV :: u8 where "IDE_DEVICE_HEAD_DRV \<equiv> 0x10"
abbreviation (input) IDE_DEVICE_HEAD_L :: u8 where "IDE_DEVICE_HEAD_L \<equiv> 0x40"
abbreviation (input) IDE_DEVICE_CONTROL_NIEN :: u8 where "IDE_DEVICE_CONTROL_NIEN \<equiv> 0x02"
abbreviation (input) IDE_DEVICE_CONTROL_SRST :: u8 where "IDE_DEVICE_CONTROL_SRST \<equiv> 0x04"
abbreviation (input) IDE_DEVICE_CONTROL_HOB :: u8 where "IDE_DEVICE_CONTROL_HOB \<equiv> 0x80"
abbreviation (input) COMMAND_SET_SUPPORTED_LBA48 :: u16 where "COMMAND_SET_SUPPORTED_LBA48 \<equiv> 0x400"

abbreviation (input) PARAM_RESET :: int where "PARAM_RESET \<equiv> 0"
abbreviation (input) PARAM_DETECT_DEVICE1 :: int where "PARAM_DETECT_DEVICE1 \<equiv> 1"
abbreviation (input) PARAM_DIAGNOSTIC :: int where "PARAM_DIAGNOSTIC \<equiv> 2"
abbreviation (input) PARAM_WAIT_FOR_PDIAG :: int where "PARAM_WAIT_FOR_PDIAG \<equiv> 3"
abbreviation (input) PARAM_COMMAND :: int where "PARAM_COMMAND \<equiv> 4"

abbreviation (input) MINIMUM_COMMAND_TIME :: attotime where "MINIMUM_COMMAND_TIME \<equiv> from_usec 10"
abbreviation (input) DETECT_DEVICE1_TIME :: attotime where "DETECT_DEVICE1_TIME \<equiv> from_msec 2"
abbreviation (input) DEVICE1_PDIAG_TIME :: attotime where "DEVICE1_PDIAG_TIME \<equiv> from_msec 2"
abbreviation (input) DIAGNOSTIC_TIME :: attotime where "DIAGNOSTIC_TIME \<equiv> from_msec 2"

text \<open>The constructor and \<^verbatim>\<open>interface_post_start\<close>. The constructor leaves the \<^verbatim>\<open>_hob\<close> registers and the identification unset,
  so they are arguments.\<close>

definition ide_hdd_start :: "attotime \<Rightarrow> u8 \<times> u8 \<times> u8 \<times> u8 \<Rightarrow> u16 list \<Rightarrow> harddisk_image \<Rightarrow> ide_hdd" where
  "ide_hdd_start now hob ident img =
     \<lparr>m_buffer = replicate 512 0, m_buffer_offset = 0, m_buffer_size = 0, m_error = 0, m_feature = 0,
      m_sector_count = 0, m_sector_count_hob = fst hob, m_sector_number = 0, m_sector_number_hob = fst (snd hob),
      m_cylinder_low = 0, m_cylinder_low_hob = fst (snd (snd hob)), m_cylinder_high = 0, m_cylinder_high_hob = snd (snd (snd hob)),
      m_device_head = 0, m_status = 0, m_command = 0, m_device_control = 0, m_identify_buffer = ident,
      m_revert_to_defaults = True, m_8bit_data_transfers = False, m_csel = 0, m_daspin = False, m_daspout = False,
      m_dmack = False, m_dmarq = False, m_irq = False, m_pdiagin = False, m_pdiagout = False, m_single_device = False,
      m_resetting = False, m_busy_timer = timer_init now attotime_never 0, m_buffer_empty_timer = timer_init now attotime_never 0,
      ata_lines = [], ata_ub = False,
      m_can_identify_device = False, m_num_cylinders = 0, m_num_sectors = 0, m_num_heads = 0, m_cur_lba = 0, m_block_count = 0,
      m_sectors_until_int = 0, m_sectors_remaining = 0, m_master_password_enable = False, m_user_password_enable = False,
      m_master_password = None, m_user_password = None, m_dma_transfer_time = attotime_zero, m_ide_image = img,
      m_last_status_timer = timer_init now attotime_never 0\<rparr>"

definition set_master_password :: "u8 list option \<Rightarrow> ide_hdd \<Rightarrow> ide_hdd" where
  "set_master_password p s = s\<lparr>m_master_password := p, m_master_password_enable := (p \<noteq> None)\<rparr>"

definition set_user_password :: "u8 list option \<Rightarrow> ide_hdd \<Rightarrow> ide_hdd" where
  "set_user_password p s = s\<lparr>m_user_password := p, m_user_password_enable := (p \<noteq> None)\<rparr>"

definition set_dma_transfer_time :: "attotime \<Rightarrow> ide_hdd \<Rightarrow> ide_hdd" where
  "set_dma_transfer_time t s = s\<lparr>m_dma_transfer_time := t\<rparr>"

section \<open>Lines\<close>

definition dev :: "ide_hdd \<Rightarrow> nat" where
  "dev s = unat (drop_bit 4 (m_device_head s AND IDE_DEVICE_HEAD_DRV))"

definition device_selected :: "ide_hdd \<Rightarrow> bool" where
  "device_selected s \<longleftrightarrow> m_csel s = dev s"

definition always_respond :: "ide_hdd \<Rightarrow> bool" where
  "always_respond s \<longleftrightarrow> m_csel s = 0"

definition line_out :: "ata_line \<Rightarrow> ide_hdd \<Rightarrow> ide_hdd" where
  "line_out l s = s\<lparr>ata_lines := ata_lines s @ [l]\<rparr>"

definition update_irq :: "ide_hdd \<Rightarrow> ide_hdd" where
  "update_irq s =
     (if device_selected s \<and> m_device_control s AND IDE_DEVICE_CONTROL_NIEN = 0 then line_out (IRQ_OUT (m_irq s)) s
      else line_out (IRQ_OUT False) s)"

definition set_irq :: "bool \<Rightarrow> ide_hdd \<Rightarrow> ide_hdd" where
  "set_irq state s = (if m_irq s \<noteq> state then update_irq (s\<lparr>m_irq := state\<rparr>) else s)"

definition set_dmarq :: "bool \<Rightarrow> ide_hdd \<Rightarrow> ide_hdd" where
  "set_dmarq state s = (if m_dmarq s \<noteq> state then line_out (DMARQ_OUT state) (s\<lparr>m_dmarq := state\<rparr>) else s)"

definition set_dasp :: "bool \<Rightarrow> ide_hdd \<Rightarrow> ide_hdd" where
  "set_dasp state s = (if m_daspout s \<noteq> state then line_out (DASP_OUT state) (s\<lparr>m_daspout := state\<rparr>) else s)"

definition set_pdiag :: "bool \<Rightarrow> ide_hdd \<Rightarrow> ide_hdd" where
  "set_pdiag state s = (if m_pdiagout s \<noteq> state then line_out (PDIAG_OUT state) (s\<lparr>m_pdiagout := state\<rparr>) else s)"

definition set_csel_in :: "nat \<Rightarrow> ide_hdd \<Rightarrow> ide_hdd" where
  "set_csel_in state s = s\<lparr>m_csel := state\<rparr>"

definition set_dasp_in :: "bool \<Rightarrow> ide_hdd \<Rightarrow> ide_hdd" where
  "set_dasp_in state s = s\<lparr>m_daspin := state\<rparr>"

section \<open>Busy\<close>

definition status_set :: "u8 \<Rightarrow> ide_hdd \<Rightarrow> ide_hdd" where
  "status_set m s = s\<lparr>m_status := m_status s OR m\<rparr>"

definition status_clear :: "u8 \<Rightarrow> ide_hdd \<Rightarrow> ide_hdd" where
  "status_clear m s = s\<lparr>m_status := m_status s AND NOT m\<rparr>"

definition start_busy :: "attotime \<Rightarrow> attotime \<Rightarrow> int \<Rightarrow> ide_hdd \<Rightarrow> ide_hdd" where
  "start_busy now time param s =
     (let s1 = status_set IDE_STATUS_BSY s
      in s1\<lparr>m_busy_timer := timer_adjust now time param attotime_never (m_busy_timer s1)\<rparr>)"

definition stop_busy :: "attotime \<Rightarrow> ide_hdd \<Rightarrow> ide_hdd" where
  "stop_busy now s =
     (let s1 = status_clear IDE_STATUS_BSY s
      in s1\<lparr>m_busy_timer := timer_never now (m_busy_timer s1)\<rparr>)"

section \<open>Transfer modes and features\<close>

definition clear_dma_modes :: "ide_hdd \<Rightarrow> ide_hdd" where
  "clear_dma_modes s =
     (let i = m_identify_buffer s
      in s\<lparr>m_identify_buffer := i[62 := i ! 62 AND 0xff, 63 := i ! 63 AND 0xff, 88 := i ! 88 AND 0xff]\<rparr>)"

definition set_dma_mode :: "nat \<Rightarrow> ide_hdd \<Rightarrow> bool \<times> ide_hdd" where
  "set_dma_mode w s =
     (let n = unat (m_sector_count s AND 7)
      in if drop_bit n (m_identify_buffer s ! w) AND 1 \<noteq> 0 then
           let s1 = clear_dma_modes s
           in (True, s1\<lparr>m_identify_buffer := (m_identify_buffer s1)[w := m_identify_buffer s1 ! w OR push_bit n 0x100]\<rparr>)
         else (False, s))"

definition set_features :: "ide_hdd \<Rightarrow> bool \<times> ide_hdd" where
  "set_features s =
     (let f = m_feature s; t = m_sector_count s AND 0xf8; n = unat (m_sector_count s AND 7)
      in if f = 0x01 then (True, s\<lparr>m_8bit_data_transfers := True\<rparr>)
         else if f = 0x03 then
           (if t = 0x00 then (n = 0 \<or> n = 1, s)
            else if t = 0x08 then
              (if n \<le> 2 then (True, s)
               else if drop_bit (n - 3) (m_identify_buffer s ! 64) AND 1 \<noteq> 0 then (True, clear_dma_modes s)
               else (False, s))
            else if t = 0x10 then set_dma_mode 62 s
            else if t = 0x20 then set_dma_mode 63 s
            else if t = 0x40 then set_dma_mode 88 s
            else (False, s))
         else if f = 0x66 then (True, s\<lparr>m_revert_to_defaults := False\<rparr>)
         else if f = 0x81 then (True, s\<lparr>m_8bit_data_transfers := False\<rparr>)
         else if f = 0xcc then (True, s\<lparr>m_revert_to_defaults := True\<rparr>)
         else (f \<in> {0x88, 0x99, 0xaa}, s))"

definition bit_to_mode :: "u16 \<Rightarrow> int" where
  "bit_to_mode w =
     (let h = drop_bit 8 w
      in if h = 0x01 then 0 else if h = 0x02 then 1 else if h = 0x04 then 2 else if h = 0x08 then 3
         else if h = 0x10 then 4 else if h = 0x20 then 5 else if h = 0x40 then 6 else if h = 0x80 then 7 else -1)"

definition single_word_dma_mode :: "ide_hdd \<Rightarrow> int" where
  "single_word_dma_mode s = bit_to_mode (m_identify_buffer s ! 62)"

definition multi_word_dma_mode :: "ide_hdd \<Rightarrow> int" where
  "multi_word_dma_mode s = bit_to_mode (m_identify_buffer s ! 63)"

definition ultra_dma_mode :: "ide_hdd \<Rightarrow> int" where
  "ultra_dma_mode s = bit_to_mode (m_identify_buffer s ! 88)"

definition set_dmack_in :: "bool \<Rightarrow> ide_hdd \<Rightarrow> ide_hdd" where
  "set_dmack_in state s =
     (let s1 = (if state \<and> \<not> m_dmack s \<and> single_word_dma_mode s \<ge> 0 then set_dmarq False s else s)
      in s1\<lparr>m_dmack := state\<rparr>)"

definition is_hob :: "ide_hdd \<Rightarrow> bool" where
  "is_hob s \<longleftrightarrow> m_device_control s AND IDE_DEVICE_CONTROL_HOB \<noteq> 0 \<and> m_identify_buffer s ! 83 AND COMMAND_SET_SUPPORTED_LBA48 \<noteq> 0"

section \<open>Resets and diagnostics\<close>

definition hle_soft_reset :: "attotime \<Rightarrow> ide_hdd \<Rightarrow> ide_hdd" where
  "hle_soft_reset now s = start_busy now DIAGNOSTIC_TIME PARAM_DIAGNOSTIC (s\<lparr>m_buffer_offset := 0, m_buffer_size := 0, m_status := 0\<rparr>)"

text \<open>\<^verbatim>\<open>soft_reset\<close>, \<^verbatim>\<open>perform_diagnostic\<close> and \<^verbatim>\<open>signature\<close> as the mass storage device overrides them.\<close>

definition soft_reset :: "attotime \<Rightarrow> ide_hdd \<Rightarrow> ide_hdd" where
  "soft_reset now s =
     (let s1 = status_set IDE_STATUS_DSC ((hle_soft_reset now s)\<lparr>m_cur_lba := 0\<rparr>)
      in s1\<lparr>m_master_password_enable := (m_master_password s1 \<noteq> None), m_user_password_enable := (m_user_password s1 \<noteq> None)\<rparr>)"

definition perform_diagnostic :: "ide_hdd \<Rightarrow> ide_hdd" where
  "perform_diagnostic s = (if m_can_identify_device s then s\<lparr>m_error := IDE_ERROR_DIAGNOSTIC_PASSED\<rparr> else s)"

definition signature :: "ide_hdd \<Rightarrow> ide_hdd" where
  "signature s = s\<lparr>m_sector_count := 1, m_sector_number := 1, m_cylinder_low := 0, m_cylinder_high := 0, m_device_head := 0\<rparr>"

definition finished_diagnostic :: "ide_hdd \<Rightarrow> ide_hdd" where
  "finished_diagnostic s = signature (status_set IDE_STATUS_DRDY (s\<lparr>m_resetting := False\<rparr>))"

definition start_diagnostic :: "attotime \<Rightarrow> ide_hdd \<Rightarrow> ide_hdd" where
  "start_diagnostic now s =
     (let s1 = perform_diagnostic (s\<lparr>m_error := IDE_ERROR_DIAGNOSTIC_FAILED\<rparr>);
          s2 = (if m_csel s1 = 1 \<and> m_error s1 = IDE_ERROR_DIAGNOSTIC_PASSED then set_pdiag True s1 else s1)
      in if m_csel s2 = 0 \<and> \<not> m_single_device s2 \<and> \<not> m_pdiagin s2 then start_busy now DEVICE1_PDIAG_TIME PARAM_WAIT_FOR_PDIAG s2
         else finished_diagnostic s2)"

definition set_pdiag_in :: "attotime \<Rightarrow> bool \<Rightarrow> ide_hdd \<Rightarrow> ide_hdd" where
  "set_pdiag_in now state s =
     (let s1 = s\<lparr>m_pdiagin := state\<rparr>
      in if m_pdiagin s1 \<and> m_param (m_busy_timer s1) = PARAM_WAIT_FOR_PDIAG then finished_diagnostic (stop_busy now s1) else s1)"

definition interface_post_reset :: "attotime \<Rightarrow> ide_hdd \<Rightarrow> ide_hdd" where
  "interface_post_reset now s =
     (let s1 = set_pdiag False (set_irq False (set_dmarq False (set_dasp False s)));
          s2 = s1\<lparr>m_status := 0, m_device_control := 0, m_resetting := True\<rparr>
      in if m_csel s2 = 0 then start_busy now DETECT_DEVICE1_TIME PARAM_DETECT_DEVICE1 s2
         else soft_reset now (set_dasp True s2))"

end
