(* ===== verification/Ata_Disk.thy ===== *)
theory Ata_Disk
  imports Ata_Hle
begin

unbundle bit_operations_syntax

text \<open>
  The hard disk of \<^verbatim>\<open>src/devices/machine/atastorage.cpp\<close>: the identification page, the addresses of sectors, the
  commands and their ends, and then the operations of the base class in \<^verbatim>\<open>src/devices/machine/atahle.cpp\<close> that
  call these as virtual functions: the data transfers, the timers and the accesses of the registers
  over the bus. The virtual functions are resolved for \<^verbatim>\<open>ide_hdd_device\<close> of \<^verbatim>\<open>src/devices/bus/ata/hdd.h\<close>, which is not a
  packet device and always ready.
\<close>

section \<open>Addresses\<close>

definition is_lba48 :: "ide_hdd \<Rightarrow> bool" where
  "is_lba48 s \<longleftrightarrow> m_command s \<in> {IDE_COMMAND_READ_SECTORS_EXT, IDE_COMMAND_READ_DMA_EXT, IDE_COMMAND_READ_MULTIPLE_EXT,
     IDE_COMMAND_WRITE_SECTORS_EXT, IDE_COMMAND_WRITE_DMA_EXT, IDE_COMMAND_WRITE_MULTIPLE_EXT, IDE_COMMAND_VERIFY_SECTORS_EXT}"

text \<open>The address is a 64 bit number. With cylinders, heads and sectors it is computed as an \<^verbatim>\<open>int\<close> and can become -1.\<close>

definition lba_address :: "ide_hdd \<Rightarrow> nat" where
  "lba_address s =
     (if m_device_head s AND IDE_DEVICE_HEAD_L \<noteq> 0 then
        (if is_lba48 s
         then unat (m_cylinder_high_hob s) * 2 ^ 16 + unat (m_cylinder_low_hob s) * 2 ^ 8 + unat (m_sector_number_hob s)
         else unat (m_device_head s AND IDE_DEVICE_HEAD_HS)) * 2 ^ 24
        + unat (m_cylinder_high s) * 2 ^ 16 + unat (m_cylinder_low s) * 2 ^ 8 + unat (m_sector_number s)
      else
        nat (to_u64 (to_s32 (int (((unat (m_cylinder_high s) * 2 ^ 8 + unat (m_cylinder_low s)) * unat (m_num_heads s)
          + unat (m_device_head s AND IDE_DEVICE_HEAD_HS)) * unat (m_num_sectors s) + unat (m_sector_number s)) - 1))))"

definition sectors_remaining :: "ide_hdd \<Rightarrow> nat" where
  "sectors_remaining s =
     (if is_lba48 s then
        (if m_sector_count_hob s \<noteq> 0 \<or> m_sector_count s \<noteq> 0 then unat (m_sector_count_hob s) * 2 ^ 8 + unat (m_sector_count s)
         else 0x10000)
      else if m_sector_count s \<noteq> 0 then unat (m_sector_count s) else 0x100)"

definition next_sector :: "ide_hdd \<Rightarrow> ide_hdd" where
  "next_sector s =
     (let cur_head = m_device_head s AND IDE_DEVICE_HEAD_HS;
          (s1, cur_head1) =
            (if m_device_head s AND IDE_DEVICE_HEAD_L \<noteq> 0 then
               let a = s\<lparr>m_sector_number := m_sector_number s + 1\<rparr>
               in if m_sector_number a = 0 then
                    let b = a\<lparr>m_cylinder_low := m_cylinder_low a + 1\<rparr>
                    in if m_cylinder_low b = 0 then
                         let c = b\<lparr>m_cylinder_high := m_cylinder_high b + 1\<rparr>
                         in if m_cylinder_high c = 0 then (c, cur_head + 1) else (c, cur_head)
                       else (b, cur_head)
                  else (a, cur_head)
             else
               let a = s\<lparr>m_sector_number := m_sector_number s + 1\<rparr>
               in if m_sector_number a > m_num_sectors a then
                    let b = a\<lparr>m_sector_number := 1\<rparr>; h = cur_head + 1
                    in if h \<ge> m_num_heads b then
                         let c = b\<lparr>m_cylinder_low := m_cylinder_low b + 1\<rparr>
                         in if m_cylinder_low c = 0 then (c\<lparr>m_cylinder_high := m_cylinder_high c + 1\<rparr>, 0) else (c, 0)
                       else (b, h)
                  else (a, cur_head));
          s2 = s1\<lparr>m_device_head := (m_device_head s1 AND NOT IDE_DEVICE_HEAD_HS) OR cur_head1\<rparr>
      in s2\<lparr>m_cur_lba := lba_address s2\<rparr>)"

abbreviation (input) TIME_PER_SECTOR_WRITE :: attotime where "TIME_PER_SECTOR_WRITE \<equiv> from_usec 100"
abbreviation (input) TIME_PER_ROTATION :: attotime where "TIME_PER_ROTATION \<equiv> from_hz (5400 div 60)"
abbreviation (input) TIME_BETWEEN_SECTORS :: attotime where "TIME_BETWEEN_SECTORS \<equiv> from_nsec 400"
abbreviation (input) TIME_FULL_STROKE_SEEK :: attotime where "TIME_FULL_STROKE_SEEK \<equiv> from_usec 13000"
abbreviation (input) TIME_AVERAGE_ROTATIONAL_LATENCY :: attotime where "TIME_AVERAGE_ROTATIONAL_LATENCY \<equiv> from_usec 1300"

definition seek_time :: "ide_hdd \<Rightarrow> attotime \<times> ide_hdd" where
  "seek_time s =
     (let sectors_per_cylinder = unat (m_num_heads s) * unat (m_num_sectors s)
      in if sectors_per_cylinder = 0 \<or> m_num_cylinders s = 0 then (attotime_zero, s)
         else
           let new_lba = lba_address s;
               old_cylinder = to_s64 (int (m_cur_lba s div sectors_per_cylinder));
               new_cylinder = to_s64 (int (new_lba div sectors_per_cylinder));
               diff = \<bar>old_cylinder - new_cylinder\<bar>;
               s1 = s\<lparr>m_cur_lba := new_lba\<rparr>
           in if diff = 0 then (TIME_BETWEEN_SECTORS, s1)
              else (attotime_add (attotime_div (attotime_mul TIME_FULL_STROKE_SEEK (to_u32 diff)) (int (m_num_cylinders s)))
                      TIME_AVERAGE_ROTATIONAL_LATENCY, s1))"

section \<open>The identification page\<close>

fun identify_words :: "nat \<Rightarrow> string \<Rightarrow> u16 list" where
  "identify_words 0 s = []"
| "identify_words (Suc n) [] = 0x2020 # identify_words n []"
| "identify_words (Suc n) [a] = (push_bit 8 (of_char a) OR 0x20) # identify_words n []"
| "identify_words (Suc n) (a # b # s) = (push_bit 8 (of_char a) OR of_char b) # identify_words n s"

definition identify :: "nat \<Rightarrow> nat \<Rightarrow> string \<Rightarrow> u16 list \<Rightarrow> u16 list" where
  "identify word_offset word_length s buf = take word_offset buf @ identify_words word_length s @ drop (word_offset + word_length) buf"

text \<open>Only the words that are not zero are listed; the number of sectors is a product of 32 bits.\<close>

definition ide_build_identify_device :: "ide_hdd \<Rightarrow> ide_hdd" where
  "ide_build_identify_device s =
     (let c = m_num_cylinders s; h = unat (m_num_heads s); n = unat (m_num_sectors s);
          total_sectors = c * h * n mod 2 ^ 32;
          w = (\<lambda>x :: nat. word_of_nat x :: u16);
          b0 = (replicate 256 0)[0 := 0x045a, 1 := w c, 3 := w h, 6 := w n];
          b1 = identify 27 20 ''MAME    Virtual Hard Disk'' (identify 23 4 ''1.0''
                 ((identify 10 10 ''00000000000000000000'' b0)[22 := 4]));
          b2 = b1[47 := 0x8010, 49 := 0x0f03, 51 := 2, 52 := 2, 53 := 3];
          b3 = (if total_sectors \<ge> 16514064
                then b2[1 := 16383, 3 := 16, 6 := 63, 54 := 16383, 55 := 16, 56 := 63,
                        57 := w (16514064 mod 2 ^ 16), 58 := w (16514064 div 2 ^ 16)]
                else b2[54 := w c, 55 := w h, 56 := w n, 57 := w (total_sectors mod 2 ^ 16), 58 := w (total_sectors div 2 ^ 16)]);
          b4 = (if total_sectors > 0xfffffff
                then b3[60 := w (0xfffffff mod 2 ^ 16), 61 := w (0xfffffff div 2 ^ 16)]
                else b3[60 := w (total_sectors mod 2 ^ 16), 61 := w (total_sectors div 2 ^ 16)]);
          b5 = b4[62 := 0x0007, 63 := 0x0407, 64 := 0x0003, 65 := 0x78, 66 := 0x78, 67 := 0x014d, 68 := 0x78];
          b6 = (if total_sectors > 0xfffffff
                then b5[83 := COMMAND_SET_SUPPORTED_LBA48, 100 := w (total_sectors mod 2 ^ 16), 101 := w (total_sectors div 2 ^ 16),
                        102 := w (total_sectors div 2 ^ 32), 103 := w (total_sectors div 2 ^ 48)]
                else b5)
      in s\<lparr>m_identify_buffer := b6\<rparr>)"

definition get_u16le :: "u8 list \<Rightarrow> nat \<Rightarrow> u16" where
  "get_u16le b i = ucast (b ! i) OR push_bit 8 (ucast (b ! (i + 1)))"

text \<open>\<^verbatim>\<open>device_reset\<close>. \<open>inquiry\<close> is the identification that a CHD image can hold; a plain file has none and gives the empty list.\<close>

definition ide_hdd_device_reset :: "u8 list \<Rightarrow> ide_hdd \<Rightarrow> ide_hdd" where
  "ide_hdd_device_reset inquiry s =
     (if image_exists (m_ide_image s) \<and> \<not> m_can_identify_device s then
        (case image_disk (m_ide_image s) of
           None \<Rightarrow> s\<lparr>ata_ub := True\<rparr>
         | Some h \<Rightarrow>
             let i = hdinfo h;
                 s1 = (if sectorbytes i = 512
                       then s\<lparr>m_num_cylinders := cylinders i, m_num_sectors := word_of_nat (sectors i), m_num_heads := word_of_nat (heads i)\<rparr>
                       else s);
                 s2 = (if length inquiry = 512
                       then s1\<lparr>m_identify_buffer := map (\<lambda>w. get_u16le inquiry (w * 2)) [0..<256]\<rparr>
                       else ide_build_identify_device s1)
             in s2\<lparr>m_can_identify_device := True\<rparr>)
      else s)"

section \<open>Sectors of the image\<close>

text \<open>The sector number is cut to 32 bits at the call of the image device.\<close>

definition read_sector :: "nat \<Rightarrow> ide_hdd \<Rightarrow> bool \<times> ide_hdd" where
  "read_sector lba s =
     (if \<not> image_exists (m_ide_image s) then (False, s)
      else (case image_disk (m_ide_image s) of
              None \<Rightarrow> (False, s\<lparr>ata_ub := True\<rparr>)
            | Some h \<Rightarrow>
                let (ok, bs) = hd_read (lba mod 2 ^ 32) h
                in if length bs \<le> length (m_buffer s) then (ok, s\<lparr>m_buffer := bs @ drop (length bs) (m_buffer s)\<rparr>)
                   else (ok, s\<lparr>ata_ub := True\<rparr>)))"

definition write_sector :: "nat \<Rightarrow> ide_hdd \<Rightarrow> bool \<times> ide_hdd" where
  "write_sector lba s =
     (if \<not> image_exists (m_ide_image s) then (False, s)
      else (case image_disk (m_ide_image s) of
              None \<Rightarrow> (False, s\<lparr>ata_ub := True\<rparr>)
            | Some h \<Rightarrow>
                let (ok, h1) = hd_write (lba mod 2 ^ 32) (m_buffer s) h;
                    s1 = s\<lparr>m_ide_image := (m_ide_image s)\<lparr>m_hard_disk_handle := Some h1\<rparr>\<rparr>
                in (ok, if sectorbytes (hdinfo h) \<le> length (m_buffer s) then s1 else s1\<lparr>ata_ub := True\<rparr>)))"

end
