(* ===== verification/Ata_Command.thy ===== *)
theory Ata_Command
  imports Ata_Disk
begin

unbundle bit_operations_syntax

text \<open>
  The commands of the hard disk, \<^verbatim>\<open>src/devices/machine/atastorage.cpp\<close>, and the operations of the base class in
  \<^verbatim>\<open>src/devices/machine/atahle.cpp\<close> that call them: the data transfers, the timers and the accesses of the registers
  over the bus. The call of \<^verbatim>\<open>fill_buffer\<close> in \<^verbatim>\<open>read_buffer_empty\<close> is an argument, because \<^verbatim>\<open>finished_read\<close> reaches it only for
  the commands that verify sectors, for which it takes the last branch (\<open>finished_read_calls\<close> in theory \<open>Ata_Address\<close>).
\<close>

section \<open>Reading\<close>

definition is_verify :: "u8 \<Rightarrow> bool" where
  "is_verify c \<longleftrightarrow> c \<in> {IDE_COMMAND_VERIFY_SECTORS, IDE_COMMAND_VERIFY_SECTORS_EXT, IDE_COMMAND_VERIFY_SECTORS_NORETRY}"

definition is_read_multiple :: "u8 \<Rightarrow> bool" where
  "is_read_multiple c \<longleftrightarrow> c = IDE_COMMAND_READ_MULTIPLE \<or> c = IDE_COMMAND_READ_MULTIPLE_EXT"

definition is_write_multiple :: "u8 \<Rightarrow> bool" where
  "is_write_multiple c \<longleftrightarrow> c = IDE_COMMAND_WRITE_MULTIPLE \<or> c = IDE_COMMAND_WRITE_MULTIPLE_EXT"

text \<open>One sector less to transfer, and the count of the registers.\<close>

definition count_sector :: "ide_hdd \<Rightarrow> ide_hdd" where
  "count_sector s =
     (if m_sectors_remaining s > 0 then
        let n = m_sectors_remaining s - 1
        in s\<lparr>m_sectors_remaining := n, m_sector_count := word_of_nat n, m_sector_count_hob := word_of_nat (n div 2 ^ 8)\<rparr>
      else s)"

text \<open>The last branch of \<^verbatim>\<open>fill_buffer\<close>.\<close>

definition fill_buffer_default :: "attotime \<Rightarrow> ide_hdd \<Rightarrow> ide_hdd" where
  "fill_buffer_default now s =
     (let s1 = count_sector s
      in if m_sectors_remaining s1 > 0 then
           let s2 = set_dasp True (set_irq False s1)
           in if m_command s2 = IDE_COMMAND_READ_DMA \<or> m_command s2 = IDE_COMMAND_READ_DMA_EXT
              then start_busy now (attotime_add TIME_BETWEEN_SECTORS (m_dma_transfer_time s2)) PARAM_COMMAND s2
              else start_busy now TIME_BETWEEN_SECTORS PARAM_COMMAND s2
         else s1)"

definition read_buffer_empty :: "(attotime \<Rightarrow> ide_hdd \<Rightarrow> ide_hdd) \<Rightarrow> attotime \<Rightarrow> ide_hdd \<Rightarrow> ide_hdd" where
  "read_buffer_empty fill now s =
     (let s1 = set_dmarq False (status_clear IDE_STATUS_DRQ (s\<lparr>m_buffer_offset := 0\<rparr>))
      in if ultra_dma_mode s1 \<ge> 0
         then s1\<lparr>m_buffer_empty_timer := timer_adjust now attotime_zero 0 attotime_never (timer_enable True (m_buffer_empty_timer s1))\<rparr>
         else fill now s1)"

text \<open>One sector less until the next interrupt, a 16 bit counter; the interrupt starts the next block.\<close>

definition interrupt_due :: "bool \<Rightarrow> bool \<Rightarrow> ide_hdd \<Rightarrow> ide_hdd" where
  "interrupt_due is_last multiple s =
     (let s1 = s\<lparr>m_sectors_until_int := (m_sectors_until_int s + 2 ^ 16 - 1) mod 2 ^ 16\<rparr>
      in if m_sectors_until_int s1 = 0 \<or> is_last
         then set_irq True (s1\<lparr>m_sectors_until_int := (if multiple then m_block_count s1 else 1)\<rparr>)
         else s1)"

text \<open>A sector that cannot be read or written.\<close>

definition bad_sector :: "ide_hdd \<Rightarrow> ide_hdd" where
  "bad_sector s = set_irq True ((status_set IDE_STATUS_ERR s)\<lparr>m_error := IDE_ERROR_BAD_SECTOR\<rparr>)"

definition finished_read :: "attotime \<Rightarrow> ide_hdd \<Rightarrow> ide_hdd" where
  "finished_read now s =
     (let lba = lba_address s;
          s1 = set_dasp False s;
          (read_status, s2) = (if m_command s1 = IDE_COMMAND_READ_BUFFER then (True, s1) else read_sector lba s1)
      in if read_status then
           let s3 = (if m_sectors_remaining s2 \<noteq> 1 then next_sector s2 else s2);
               multiple = is_read_multiple (m_command s3);
               s4 = interrupt_due (m_sectors_remaining s3 = 1 \<and> \<not> multiple) multiple s3
           in if is_verify (m_command s4) then read_buffer_empty fill_buffer_default now s4
              else
                let s5 = status_set IDE_STATUS_DRQ s4
                in if m_command s5 = IDE_COMMAND_READ_DMA \<or> m_command s5 = IDE_COMMAND_READ_DMA_EXT then set_dmarq True s5 else s5
         else bad_sector s2)"

definition fill_buffer :: "attotime \<Rightarrow> ide_hdd \<Rightarrow> ide_hdd" where
  "fill_buffer now s =
     (if m_command s = IDE_COMMAND_IDENTIFY_DEVICE then s
      else if is_read_multiple (m_command s) then
        let s1 = count_sector s
        in if m_sectors_remaining s1 > 0 then finished_read now s1 else s1
      else if m_command s = IDE_COMMAND_READ_BUFFER then set_irq True s
      else fill_buffer_default now s)"

definition security_error :: "ide_hdd \<Rightarrow> ide_hdd" where
  "security_error s = (status_set IDE_STATUS_ERR s)\<lparr>m_error := IDE_ERROR_ABRT\<rparr>"

definition read_first_sector :: "attotime \<Rightarrow> ide_hdd \<Rightarrow> ide_hdd" where
  "read_first_sector now s =
     (if m_master_password_enable s \<or> m_user_password_enable s then security_error s
      else
        let s1 = set_dasp True s
        in if m_command s1 = IDE_COMMAND_READ_BUFFER then start_busy now TIME_BETWEEN_SECTORS PARAM_COMMAND s1
           else let (t, s2) = seek_time s1 in start_busy now t PARAM_COMMAND s2)"

section \<open>Writing\<close>

definition finished_write :: "ide_hdd \<Rightarrow> ide_hdd" where
  "finished_write s =
     (let lba = lba_address s;
          s1 = set_dasp False s;
          (ok, s2) = (if m_command s1 = IDE_COMMAND_WRITE_BUFFER then (True, s1) else write_sector lba s1)
      in if ok then
           let s3 = (if m_sectors_remaining s2 \<noteq> 1 then next_sector s2 else s2);
               s4 = interrupt_due (m_sectors_remaining s3 = 1) (is_write_multiple (m_command s3)) s3;
               s5 = count_sector s4
           in if m_sectors_remaining s5 > 0 then
                let s6 = status_set IDE_STATUS_DRQ s5
                in if m_command s6 = IDE_COMMAND_WRITE_DMA \<or> m_command s6 = IDE_COMMAND_WRITE_DMA_EXT then set_dmarq True s6 else s6
              else s5
         else bad_sector s2)"

text \<open>\<^verbatim>\<open>process_buffer\<close>. The password that \<^verbatim>\<open>SECURITY_UNLOCK\<close> compares may be a null pointer.\<close>

definition unlock :: "ide_hdd \<Rightarrow> ide_hdd" where
  "unlock s =
     (let master = m_buffer s ! 0 AND 1 \<noteq> 0
      in case (if master then m_master_password s else m_user_password s) of
           None \<Rightarrow> s\<lparr>ata_ub := True\<rparr>
         | Some password \<Rightarrow>
             let s1 = (if take 32 password = take 32 (drop 2 (m_buffer s))
                       then (if master then s\<lparr>m_master_password_enable := False\<rparr> else s\<lparr>m_user_password_enable := False\<rparr>)
                       else s)
             in if m_master_password_enable s1 \<or> m_user_password_enable s1 then security_error s1 else s1)"

definition process_buffer :: "attotime \<Rightarrow> ide_hdd \<Rightarrow> ide_hdd" where
  "process_buffer now s =
     (if m_command s = IDE_COMMAND_SECURITY_UNLOCK then unlock s
      else if m_command s = IDE_COMMAND_SECURITY_DISABLE_PASSWORD then s
      else if m_command s = IDE_COMMAND_WRITE_BUFFER then set_irq True s
      else
        let s1 = set_dasp True s
        in if is_write_multiple (m_command s1) \<and> m_sectors_until_int s1 \<noteq> 1 then finished_write s1
           else start_busy now TIME_PER_SECTOR_WRITE PARAM_COMMAND s1)"

definition write_buffer_full :: "attotime \<Rightarrow> ide_hdd \<Rightarrow> ide_hdd" where
  "write_buffer_full now s = process_buffer now (set_dmarq False (status_clear IDE_STATUS_DRQ (s\<lparr>m_buffer_offset := 0\<rparr>)))"

section \<open>Commands\<close>

definition hle_process_command :: "attotime \<Rightarrow> ide_hdd \<Rightarrow> ide_hdd" where
  "hle_process_command now s =
     (if m_command s = IDE_COMMAND_DIAGNOSTIC then start_busy now DIAGNOSTIC_TIME PARAM_COMMAND s
      else if m_command s = IDE_COMMAND_SET_FEATURES then start_busy now MINIMUM_COMMAND_TIME PARAM_COMMAND s
      else if m_command s = IDE_COMMAND_CACHE_FLUSH then start_busy now MINIMUM_COMMAND_TIME PARAM_COMMAND s
      else set_irq True ((status_set IDE_STATUS_ERR s)\<lparr>m_error := IDE_ERROR_ABRT\<rparr>))"

definition hle_finished_command :: "attotime \<Rightarrow> ide_hdd \<Rightarrow> ide_hdd" where
  "hle_finished_command now s =
     (if m_command s = IDE_COMMAND_DIAGNOSTIC then
        let s1 = start_diagnostic now s in if m_csel s1 = 0 then set_irq True s1 else s1
      else if m_command s = IDE_COMMAND_SET_FEATURES then
        let (ok, s1) = set_features s
        in set_irq True (if ok then s1 else (status_set IDE_STATUS_ERR s1)\<lparr>m_error := IDE_ERROR_ABRT\<rparr>)
      else if m_command s = IDE_COMMAND_CACHE_FLUSH then set_irq True s
      else s)"

definition process_command :: "attotime \<Rightarrow> ide_hdd \<Rightarrow> ide_hdd" where
  "process_command now s0 =
     (if is_lba48 s0 \<and> m_identify_buffer s0 ! 83 AND COMMAND_SET_SUPPORTED_LBA48 = 0 then hle_process_command now s0
      else
        let s = s0\<lparr>m_sectors_until_int := 0, m_buffer_size := 512\<rparr>; c = m_command s;
            counted = s\<lparr>m_sectors_remaining := sectors_remaining s\<rparr>
        in if c \<in> {IDE_COMMAND_READ_SECTORS, IDE_COMMAND_READ_SECTORS_EXT, IDE_COMMAND_READ_SECTORS_NORETRY,
                    IDE_COMMAND_READ_MULTIPLE, IDE_COMMAND_READ_MULTIPLE_EXT}
           then read_first_sector now (counted\<lparr>m_sectors_until_int := 1\<rparr>)
           else if c = IDE_COMMAND_READ_BUFFER
           then read_first_sector now (counted\<lparr>m_sectors_until_int := 1, m_buffer_offset := 0\<rparr>)
           else if is_verify c \<or> c = IDE_COMMAND_READ_DMA \<or> c = IDE_COMMAND_READ_DMA_EXT
           then read_first_sector now (counted\<lparr>m_sectors_until_int := m_sectors_remaining counted mod 2 ^ 16\<rparr>)
           else if c \<in> {IDE_COMMAND_WRITE_SECTORS, IDE_COMMAND_WRITE_SECTORS_EXT, IDE_COMMAND_WRITE_SECTORS_NORETRY}
           then status_set IDE_STATUS_DRQ (counted\<lparr>m_sectors_until_int := 1\<rparr>)
           else if c = IDE_COMMAND_WRITE_BUFFER
           then status_set IDE_STATUS_DRQ (counted\<lparr>m_sectors_until_int := 1, m_buffer_offset := 0\<rparr>)
           else if is_write_multiple c
           then status_set IDE_STATUS_DRQ (counted\<lparr>m_sectors_until_int := m_block_count counted\<rparr>)
           else if c = IDE_COMMAND_WRITE_DMA \<or> c = IDE_COMMAND_WRITE_DMA_EXT
           then set_dmarq True (status_set IDE_STATUS_DRQ (counted\<lparr>m_sectors_until_int := m_sectors_remaining counted mod 2 ^ 16\<rparr>))
           else if c = IDE_COMMAND_SECURITY_UNLOCK \<or> c = IDE_COMMAND_SECURITY_DISABLE_PASSWORD
           then set_irq True (status_set IDE_STATUS_DRQ s)
           else if c \<in> {IDE_COMMAND_IDENTIFY_DEVICE, IDE_COMMAND_RECALIBRATE, IDE_COMMAND_SET_CONFIG, IDE_COMMAND_READ_NATIVE_MAX_ADDRESS}
           then start_busy now MINIMUM_COMMAND_TIME PARAM_COMMAND s
           else if c = IDE_COMMAND_SET_BLOCK_COUNT
           then set_irq True (s\<lparr>m_block_count := (if m_sector_count s \<noteq> 0 then unat (m_sector_count s) else 0x100)\<rparr>)
           else if c \<in> {IDE_COMMAND_IDLE, IDE_COMMAND_SET_MAX, IDE_COMMAND_SEEK, IDE_COMMAND_IDLE_IMMEDIATE}
           then set_irq True s
           else hle_process_command now s)"

definition put_u16le :: "u16 \<Rightarrow> u8 list" where
  "put_u16le w = [ucast w, ucast (drop_bit 8 w)]"

definition ata_put_u32be :: "u32 \<Rightarrow> u8 list" where
  "ata_put_u32be w = [ucast (drop_bit 24 w), ucast (drop_bit 16 w), ucast (drop_bit 8 w), ucast w]"

text \<open>The parameters of \<^verbatim>\<open>set_geometry\<close> are bytes: 256 sectors become none.\<close>

definition set_geometry :: "nat \<Rightarrow> u8 \<Rightarrow> ide_hdd \<Rightarrow> ide_hdd" where
  "set_geometry n h s = s\<lparr>m_num_sectors := word_of_nat n, m_num_heads := h\<rparr>"

definition finished_command :: "attotime \<Rightarrow> ide_hdd \<Rightarrow> ide_hdd" where
  "finished_command now s =
     (let c = m_command s;
          total_sectors = m_num_cylinders s * unat (m_num_heads s) * unat (m_num_sectors s)
      in if c = IDE_COMMAND_IDENTIFY_DEVICE then
           set_irq True
             (if m_can_identify_device s
              then status_set IDE_STATUS_DRQ (s\<lparr>m_buffer := concat (map put_u16le (m_identify_buffer s)) @ drop 512 (m_buffer s)\<rparr>)
              else (status_set IDE_STATUS_ERR s)\<lparr>m_error := IDE_ERROR_NONE\<rparr>)
         else if c = IDE_COMMAND_SET_CONFIG then
           set_irq True (set_geometry (if m_sector_count s \<noteq> 0 then unat (m_sector_count s) else 0x100)
             ((m_device_head s AND IDE_DEVICE_HEAD_HS) + 1) s)
         else if c \<in> {IDE_COMMAND_READ_SECTORS, IDE_COMMAND_READ_SECTORS_EXT, IDE_COMMAND_READ_SECTORS_NORETRY,
                      IDE_COMMAND_READ_MULTIPLE, IDE_COMMAND_READ_MULTIPLE_EXT, IDE_COMMAND_VERIFY_SECTORS,
                      IDE_COMMAND_VERIFY_SECTORS_EXT, IDE_COMMAND_VERIFY_SECTORS_NORETRY, IDE_COMMAND_READ_DMA,
                      IDE_COMMAND_READ_DMA_EXT, IDE_COMMAND_READ_BUFFER}
         then finished_read now s
         else if c \<in> {IDE_COMMAND_WRITE_SECTORS, IDE_COMMAND_WRITE_SECTORS_EXT, IDE_COMMAND_WRITE_SECTORS_NORETRY,
                      IDE_COMMAND_WRITE_MULTIPLE, IDE_COMMAND_WRITE_MULTIPLE_EXT, IDE_COMMAND_WRITE_DMA,
                      IDE_COMMAND_WRITE_DMA_EXT, IDE_COMMAND_WRITE_BUFFER}
         then finished_write s
         else if c = IDE_COMMAND_RECALIBRATE then set_irq True s
         else if c = IDE_COMMAND_READ_NATIVE_MAX_ADDRESS then
           set_irq True (s\<lparr>m_buffer := ata_put_u32be (word_of_nat total_sectors) @ drop 4 (m_buffer s)\<rparr>)
         else hle_finished_command now s)"

section \<open>Timers\<close>

definition finished_busy :: "attotime \<Rightarrow> int \<Rightarrow> ide_hdd \<Rightarrow> ide_hdd" where
  "finished_busy now param s =
     (if param = PARAM_DETECT_DEVICE1 then soft_reset now (s\<lparr>m_single_device := \<not> m_daspin s\<rparr>)
      else if param = PARAM_DIAGNOSTIC then start_diagnostic now s
      else if param = PARAM_WAIT_FOR_PDIAG then finished_diagnostic (s\<lparr>m_error := m_error s OR IDE_ERROR_DIAGNOSTIC_DEVICE1_FAILED\<rparr>)
      else if param = PARAM_COMMAND then finished_command now s
      else s)"

definition busy_tick :: "attotime \<Rightarrow> int \<Rightarrow> ide_hdd \<Rightarrow> ide_hdd" where
  "busy_tick now param s = finished_busy now param (status_clear IDE_STATUS_BSY s)"

definition empty_tick :: "attotime \<Rightarrow> ide_hdd \<Rightarrow> ide_hdd" where
  "empty_tick now s = fill_buffer now (s\<lparr>m_buffer_empty_timer := timer_enable False (m_buffer_empty_timer s)\<rparr>)"

section \<open>Accesses of the bus\<close>

text \<open>The value on the bus is a word; most registers drive only its low byte.\<close>

definition set_low :: "u8 \<Rightarrow> u16 \<Rightarrow> u16" where
  "set_low b data = (data AND 0xff00) OR ucast b"

text \<open>\<^verbatim>\<open>read_data\<close> and \<^verbatim>\<open>write_data\<close> for whole words, as the disk calls them; \<open>dbg\<close> says that side effects are disabled.\<close>

definition read_data :: "attotime \<Rightarrow> bool \<Rightarrow> u16 \<Rightarrow> ide_hdd \<Rightarrow> u16 \<times> ide_hdd" where
  "read_data now dbg data s =
     (let size = (if m_8bit_data_transfers s then 1 else 2);
          i = m_buffer_offset s;
          d = (if size = 2 then ucast (m_buffer s ! i) OR push_bit 8 (ucast (m_buffer s ! (i + 1))) else set_low (m_buffer s ! i) data);
          s1 = (if i + size \<le> length (m_buffer s) then s else s\<lparr>ata_ub := True\<rparr>)
      in (d,
          if dbg then s1
          else
            let s2 = s1\<lparr>m_buffer_offset := (i + size) mod 2 ^ 16\<rparr>
            in if m_buffer_offset s2 \<ge> m_buffer_size s2 then read_buffer_empty fill_buffer now s2 else s2))"

definition put_byte :: "u8 \<Rightarrow> ide_hdd \<Rightarrow> ide_hdd" where
  "put_byte b s =
     (let i = m_buffer_offset s;
          s1 = (if i < length (m_buffer s) then s\<lparr>m_buffer := (m_buffer s)[i := b]\<rparr> else s\<lparr>ata_ub := True\<rparr>)
      in s1\<lparr>m_buffer_offset := (i + 1) mod 2 ^ 16\<rparr>)"

definition write_data :: "attotime \<Rightarrow> u16 \<Rightarrow> ide_hdd \<Rightarrow> ide_hdd" where
  "write_data now data s =
     (let s1 = put_byte (ucast data) s;
          s2 = (if m_8bit_data_transfers s1 then s1 else put_byte (ucast (drop_bit 8 data)) s1)
      in if m_buffer_offset s2 \<ge> m_buffer_size s2 then write_buffer_full now s2 else s2)"

definition calculate_status :: "attotime \<Rightarrow> ide_hdd \<Rightarrow> u8 \<times> ide_hdd" where
  "calculate_status now s =
     (if timer_elapsed now (m_last_status_timer s) > TIME_PER_ROTATION
      then (m_status s OR IDE_STATUS_IDX, s\<lparr>m_last_status_timer := timer_never now (m_last_status_timer s)\<rparr>)
      else (m_status s, s))"

text \<open>The status that a read of the bus sees: only that of the selected device.\<close>

definition read_status :: "attotime \<Rightarrow> u16 \<Rightarrow> ide_hdd \<Rightarrow> u16 \<times> ide_hdd" where
  "read_status now data s =
     (if device_selected s then let (st, s1) = calculate_status now s in (set_low st data, s1) else (set_low 0 data, s))"

definition dma_r :: "attotime \<Rightarrow> bool \<Rightarrow> u16 \<Rightarrow> ide_hdd \<Rightarrow> u16 \<times> ide_hdd" where
  "dma_r now dbg data s =
     (if \<not> device_selected s \<or> \<not> m_dmack s \<or> (m_dmarq s \<and> single_word_dma_mode s \<ge> 0) \<or>
         (\<not> m_dmarq s \<and> multi_word_dma_mode s \<ge> 0) \<or> (\<not> m_dmarq s \<and> ultra_dma_mode s \<ge> 0) \<or>
         m_status s AND IDE_STATUS_BSY \<noteq> 0 \<or> m_status s AND IDE_STATUS_DRQ = 0
      then (data, s)
      else
        let (d, s1) = read_data now dbg data s
        in (d, if m_status s1 AND IDE_STATUS_DRQ \<noteq> 0 \<and> single_word_dma_mode s1 \<ge> 0 then set_dmarq True s1 else s1))"

definition dma_w :: "attotime \<Rightarrow> u16 \<Rightarrow> ide_hdd \<Rightarrow> ide_hdd" where
  "dma_w now data s =
     (if \<not> device_selected s \<or> \<not> m_dmack s \<or> (m_dmarq s \<and> single_word_dma_mode s \<ge> 0) \<or>
         (\<not> m_dmarq s \<and> multi_word_dma_mode s \<ge> 0) \<or> (\<not> m_dmarq s \<and> ultra_dma_mode s \<ge> 0) \<or>
         m_status s AND IDE_STATUS_BSY \<noteq> 0 \<or> m_status s AND IDE_STATUS_DRQ = 0
      then s
      else
        let s1 = write_data now data s
        in if m_status s1 AND IDE_STATUS_DRQ \<noteq> 0 \<and> single_word_dma_mode s1 \<ge> 0 then set_dmarq True s1 else s1)"

definition command_r :: "attotime \<Rightarrow> bool \<Rightarrow> nat \<Rightarrow> u16 \<Rightarrow> ide_hdd \<Rightarrow> u16 \<times> ide_hdd" where
  "command_r now dbg offset data s =
     (if \<not> (device_selected s \<or> (m_single_device s \<and> always_respond s)) then (data, s)
      else if m_dmack s then (data, s)
      else if m_status s AND IDE_STATUS_BSY \<noteq> 0 \<and> offset \<noteq> 0 then read_status now data s
      else if offset = 0 then
        (if device_selected s \<and> m_status s AND IDE_STATUS_BSY = 0 \<and> m_status s AND IDE_STATUS_DRQ \<noteq> 0 then read_data now dbg data s
         else (data, s))
      else if offset = 1 then (set_low (m_error s) data, s)
      else if offset = 2 then (set_low (if is_hob s then m_sector_count_hob s else m_sector_count s) data, s)
      else if offset = 3 then (set_low (if is_hob s then m_sector_number_hob s else m_sector_number s) data, s)
      else if offset = 4 then (set_low (if is_hob s then m_cylinder_low_hob s else m_cylinder_low s) data, s)
      else if offset = 5 then (set_low (if is_hob s then m_cylinder_high_hob s else m_cylinder_high s) data, s)
      else if offset = 6 then (set_low (m_device_head s) data, s)
      else if offset = 7 then
        let (d, s1) = read_status now data s
        in (d, if \<not> dbg \<and> device_selected s1 then set_irq False s1 else s1)
      else (data, s))"

definition control_r :: "attotime \<Rightarrow> nat \<Rightarrow> u16 \<Rightarrow> ide_hdd \<Rightarrow> u16 \<times> ide_hdd" where
  "control_r now offset data s =
     (if \<not> (device_selected s \<or> (m_single_device s \<and> always_respond s)) then (data, s)
      else if m_dmack s then (data, s)
      else if offset = 6 then read_status now data s
      else if offset = 7 then (set_low (if device_selected s then 1 else 0) data, s)
      else (data, s))"

text \<open>A write to any register but the data register, while data is expected, aborts the transfer.\<close>

definition abort_transfer :: "attotime \<Rightarrow> ide_hdd \<Rightarrow> ide_hdd" where
  "abort_transfer now s =
     (status_set IDE_STATUS_ERR (set_dmarq False (status_clear IDE_STATUS_DRQ (stop_busy now s))))\<lparr>m_error := IDE_ERROR_ABRT\<rparr>"

definition command_w :: "attotime \<Rightarrow> nat \<Rightarrow> u16 \<Rightarrow> ide_hdd \<Rightarrow> ide_hdd" where
  "command_w now offset data s0 =
     (let s = (if m_status s0 AND IDE_STATUS_DRQ \<noteq> 0 \<and> offset \<noteq> 0 \<and> (offset \<noteq> 6 \<or> data \<noteq> ucast (m_device_head s0))
               then abort_transfer now s0 else s0);
          b = ucast data :: u8
      in if m_status s AND IDE_STATUS_BSY \<noteq> 0 then s
         else if m_dmack s then s
         else if offset = 0 then
           (if device_selected s \<and> m_status s AND IDE_STATUS_DRQ \<noteq> 0 then write_data now data s else s)
         else if offset = 1 then s\<lparr>m_feature := b\<rparr>
         else if offset = 2 then s\<lparr>m_sector_count_hob := m_sector_count s, m_sector_count := b\<rparr>
         else if offset = 3 then s\<lparr>m_sector_number_hob := m_sector_number s, m_sector_number := b\<rparr>
         else if offset = 4 then s\<lparr>m_cylinder_low_hob := m_cylinder_low s, m_cylinder_low := b\<rparr>
         else if offset = 5 then s\<lparr>m_cylinder_high_hob := m_cylinder_high s, m_cylinder_high := b\<rparr>
         else if offset = 6 then
           let s1 = s\<lparr>m_device_head := b\<rparr>
           in if (ucast (m_device_head s) XOR data) AND ucast IDE_DEVICE_HEAD_DRV \<noteq> 0 then update_irq s1 else s1
         else if offset = 7 then
           (if device_selected s \<or> m_command s = IDE_COMMAND_DIAGNOSTIC then
              process_command now (set_dasp False (set_irq False
                ((status_clear IDE_STATUS_ERR (s\<lparr>m_command := b, m_buffer_offset := 0\<rparr>))\<lparr>m_error := IDE_ERROR_NONE\<rparr>)))
            else s)
         else s)"

definition control_w :: "attotime \<Rightarrow> nat \<Rightarrow> u16 \<Rightarrow> ide_hdd \<Rightarrow> ide_hdd" where
  "control_w now offset data s =
     (if m_dmack s then s
      else if offset = 6 then
        let old = m_device_control s;
            s1 = s\<lparr>m_device_control := ucast data\<rparr>;
            s2 = (if (m_device_control s1 XOR old) AND IDE_DEVICE_CONTROL_NIEN \<noteq> 0 then update_irq s1 else s1)
        in if (m_device_control s2 XOR old) AND IDE_DEVICE_CONTROL_SRST \<noteq> 0 then
             (if m_device_control s2 AND IDE_DEVICE_CONTROL_SRST \<noteq> 0 then
                (if m_resetting s2 then s2
                 else start_busy now attotime_never PARAM_RESET
                   (set_pdiag False (set_irq False (set_dmarq False (set_dasp False s2)))))
              else if m_param (m_busy_timer s2) = PARAM_RESET then soft_reset now s2
              else s2)
           else s2
      else s)"

end
