(* ===== verification/Ata_Inv.thy ===== *)
theory Ata_Inv
  imports Ata_Command
begin

unbundle bit_operations_syntax

text \<open>
  Memory safety of the ATA disk: as long as the host does not send \<^verbatim>\<open>SECURITY_UNLOCK\<close>, no sequence of accesses,
  timer ticks, resets and changes of the image makes the disk leave its sector buffer or use an image that is not there. With that
  command a disk without passwords compares the buffer with a null pointer.
\<close>

section \<open>The invariant\<close>

definition ide_image_ok :: "harddisk_image \<Rightarrow> bool" where
  "ide_image_ok img \<longleftrightarrow> (image_exists img \<longrightarrow> map_option (\<lambda>h. sectorbytes (hdinfo h)) (image_disk img) = Some 512)"

definition hdd_inv :: "ide_hdd \<Rightarrow> bool" where
  "hdd_inv s \<longleftrightarrow> length (m_buffer s) = 512 \<and> m_buffer_offset s < 512 \<and> m_buffer_size s \<le> 512 \<and>
     (odd (m_buffer_offset s) \<longrightarrow> m_8bit_data_transfers s) \<and>
     (m_command s = IDE_COMMAND_SET_FEATURES \<longrightarrow> m_buffer_offset s = 0 \<and> \<not> bit (m_status s) 3) \<and>
     m_command s \<noteq> IDE_COMMAND_SECURITY_UNLOCK \<and> length (m_identify_buffer s) = 256 \<and> ide_image_ok (m_ide_image s) \<and> \<not> ata_ub s"

text \<open>The fields that the invariant does not depend on.\<close>

lemma hdd_inv_fields [simp]:
  "hdd_inv (s\<lparr>m_error := e\<rparr>) = hdd_inv s" "hdd_inv (s\<lparr>m_feature := e\<rparr>) = hdd_inv s"
  "hdd_inv (s\<lparr>m_sector_count := e\<rparr>) = hdd_inv s" "hdd_inv (s\<lparr>m_sector_count_hob := e\<rparr>) = hdd_inv s"
  "hdd_inv (s\<lparr>m_sector_number := e\<rparr>) = hdd_inv s" "hdd_inv (s\<lparr>m_sector_number_hob := e\<rparr>) = hdd_inv s"
  "hdd_inv (s\<lparr>m_cylinder_low := e\<rparr>) = hdd_inv s" "hdd_inv (s\<lparr>m_cylinder_low_hob := e\<rparr>) = hdd_inv s"
  "hdd_inv (s\<lparr>m_cylinder_high := e\<rparr>) = hdd_inv s" "hdd_inv (s\<lparr>m_cylinder_high_hob := e\<rparr>) = hdd_inv s"
  "hdd_inv (s\<lparr>m_device_head := e\<rparr>) = hdd_inv s" "hdd_inv (s\<lparr>m_device_control := e\<rparr>) = hdd_inv s"
  "hdd_inv (s\<lparr>m_revert_to_defaults := b\<rparr>) = hdd_inv s" "hdd_inv (s\<lparr>m_csel := k\<rparr>) = hdd_inv s"
  "hdd_inv (s\<lparr>m_daspin := b\<rparr>) = hdd_inv s" "hdd_inv (s\<lparr>m_daspout := b\<rparr>) = hdd_inv s" "hdd_inv (s\<lparr>m_dmack := b\<rparr>) = hdd_inv s"
  "hdd_inv (s\<lparr>m_dmarq := b\<rparr>) = hdd_inv s" "hdd_inv (s\<lparr>m_irq := b\<rparr>) = hdd_inv s" "hdd_inv (s\<lparr>m_pdiagin := b\<rparr>) = hdd_inv s"
  "hdd_inv (s\<lparr>m_pdiagout := b\<rparr>) = hdd_inv s" "hdd_inv (s\<lparr>m_single_device := b\<rparr>) = hdd_inv s" "hdd_inv (s\<lparr>m_resetting := b\<rparr>) = hdd_inv s"
  "hdd_inv (s\<lparr>m_busy_timer := t\<rparr>) = hdd_inv s" "hdd_inv (s\<lparr>m_buffer_empty_timer := t\<rparr>) = hdd_inv s" "hdd_inv (s\<lparr>ata_lines := ls\<rparr>) = hdd_inv s"
  "hdd_inv (s\<lparr>m_can_identify_device := b\<rparr>) = hdd_inv s" "hdd_inv (s\<lparr>m_num_cylinders := k\<rparr>) = hdd_inv s"
  "hdd_inv (s\<lparr>m_num_sectors := e\<rparr>) = hdd_inv s" "hdd_inv (s\<lparr>m_num_heads := e\<rparr>) = hdd_inv s" "hdd_inv (s\<lparr>m_cur_lba := k\<rparr>) = hdd_inv s"
  "hdd_inv (s\<lparr>m_block_count := k\<rparr>) = hdd_inv s" "hdd_inv (s\<lparr>m_sectors_until_int := k\<rparr>) = hdd_inv s"
  "hdd_inv (s\<lparr>m_sectors_remaining := k\<rparr>) = hdd_inv s" "hdd_inv (s\<lparr>m_master_password_enable := b\<rparr>) = hdd_inv s"
  "hdd_inv (s\<lparr>m_user_password_enable := b\<rparr>) = hdd_inv s" "hdd_inv (s\<lparr>m_master_password := p\<rparr>) = hdd_inv s"
  "hdd_inv (s\<lparr>m_user_password := p\<rparr>) = hdd_inv s" "hdd_inv (s\<lparr>m_dma_transfer_time := at\<rparr>) = hdd_inv s"
  "hdd_inv (s\<lparr>m_last_status_timer := t\<rparr>) = hdd_inv s"
  by (simp_all add: hdd_inv_def)

lemma hdd_inv_offset [simp]: "hdd_inv s \<Longrightarrow> hdd_inv (s\<lparr>m_buffer_offset := 0\<rparr>)"
  by (simp add: hdd_inv_def)

lemma hdd_inv_status [simp]:
  "hdd_inv s \<Longrightarrow> hdd_inv (status_clear m s)"
  "hdd_inv s \<Longrightarrow> \<not> bit m 3 \<or> m_command s \<noteq> IDE_COMMAND_SET_FEATURES \<Longrightarrow> hdd_inv (status_set m s)"
  by (auto simp: hdd_inv_def status_clear_def status_set_def bit_simps)

text \<open>Lines, timers and registers.\<close>

lemma hdd_inv_lines [simp]:
  "hdd_inv (line_out l s) = hdd_inv s" "hdd_inv (update_irq s) = hdd_inv s" "hdd_inv (set_irq b s) = hdd_inv s"
  "hdd_inv (set_dmarq b s) = hdd_inv s" "hdd_inv (set_dasp b s) = hdd_inv s" "hdd_inv (set_pdiag b s) = hdd_inv s"
  by (simp_all add: line_out_def update_irq_def set_irq_def set_dmarq_def set_dasp_def set_pdiag_def)

lemma ata_command_frame [simp]:
  "m_command (status_set m s) = m_command s" "m_command (status_clear m s) = m_command s" "m_command (line_out l s) = m_command s"
  "m_command (update_irq s) = m_command s" "m_command (set_irq b s) = m_command s" "m_command (set_dmarq b s) = m_command s"
  "m_command (set_dasp b s) = m_command s" "m_command (set_pdiag b s) = m_command s" "m_command (start_busy now t p s) = m_command s"
  "m_command (stop_busy now s) = m_command s" "m_command (next_sector s) = m_command s" "m_command (count_sector s) = m_command s"
  "m_command (interrupt_due il mu s) = m_command s" "m_command (snd (seek_time s)) = m_command s"
  "m_command (snd (read_sector a s)) = m_command s" "m_command (snd (write_sector a s)) = m_command s"
  by (simp_all add: status_set_def status_clear_def line_out_def update_irq_def set_irq_def set_dmarq_def set_dasp_def set_pdiag_def
    start_busy_def stop_busy_def next_sector_def count_sector_def interrupt_due_def seek_time_def read_sector_def write_sector_def Let_def
    split: option.splits prod.splits)

lemma bit_BSY: "\<not> bit IDE_STATUS_BSY 3" "\<not> bit IDE_STATUS_ERR 3" "\<not> bit IDE_STATUS_DSC 3" "\<not> bit IDE_STATUS_DRDY 3"
  by (simp_all add: bit_numeral_rec)

lemma hdd_inv_busy [simp]:
  "hdd_inv s \<Longrightarrow> hdd_inv (start_busy now t p s)" "hdd_inv s \<Longrightarrow> hdd_inv (stop_busy now s)"
  by (simp_all add: start_busy_def stop_busy_def Let_def bit_BSY)

lemma hdd_inv_next [simp]: "hdd_inv (next_sector s) = hdd_inv s" "hdd_inv (count_sector s) = hdd_inv s" "hdd_inv (interrupt_due il mu s) = hdd_inv s"
  "hdd_inv (snd (seek_time s)) = hdd_inv s"
  by (simp_all add: next_sector_def count_sector_def interrupt_due_def seek_time_def Let_def)

section \<open>Every operation keeps the invariant\<close>

lemma identify_words_length: "length (identify_words n s) = n"
  by (induction n s rule: identify_words.induct) simp_all

lemma identify_length: "o1 + n \<le> length b \<Longrightarrow> length (identify o1 n s b) = length b"
  by (simp add: identify_def identify_words_length)

lemma build_identify_length: "length (m_identify_buffer (ide_build_identify_device s)) = 256"
  by (simp add: ide_build_identify_device_def Let_def identify_length)

lemma hdd_inv_identify: "hdd_inv s \<Longrightarrow> length i = 256 \<Longrightarrow> hdd_inv (s\<lparr>m_identify_buffer := i\<rparr>)"
  by (simp add: hdd_inv_def)

lemma hdd_inv_build [simp]:
  assumes "hdd_inv s"
  shows "hdd_inv (ide_build_identify_device s)"
proof -
  have "ide_build_identify_device s = s\<lparr>m_identify_buffer := m_identify_buffer (ide_build_identify_device s)\<rparr>"
    by (simp add: ide_build_identify_device_def Let_def)
  then show ?thesis using hdd_inv_identify [OF assms build_identify_length] by metis
qed

lemma hdd_inv_device_reset [simp]:
  assumes "hdd_inv s"
  shows "hdd_inv (ide_hdd_device_reset inquiry s)"
proof (cases "image_exists (m_ide_image s) \<and> \<not> m_can_identify_device s")
  case True
  then obtain h where "image_disk (m_ide_image s) = Some h" using assms by (auto simp: hdd_inv_def ide_image_ok_def)
  then show ?thesis using assms by (simp add: ide_hdd_device_reset_def Let_def hdd_inv_identify)
qed (use assms in \<open>auto simp: ide_hdd_device_reset_def\<close>)

lemma hdd_inv_dma_modes [simp]: "hdd_inv s \<Longrightarrow> hdd_inv (clear_dma_modes s)" "hdd_inv s \<Longrightarrow> hdd_inv (snd (set_dma_mode w s))"
  by (auto simp: clear_dma_modes_def set_dma_mode_def Let_def hdd_inv_def)

lemma hdd_inv_features:
  assumes "hdd_inv s" "m_command s = IDE_COMMAND_SET_FEATURES"
  shows "hdd_inv (snd (set_features s))"
proof -
  have "hdd_inv (s\<lparr>m_8bit_data_transfers := b\<rparr>)" for b using assms by (simp add: hdd_inv_def)
  then show ?thesis using assms(1) by (simp add: set_features_def Let_def)
qed

lemma hdd_inv_resets [simp]:
  assumes "hdd_inv s"
  shows "hdd_inv (soft_reset now s)" "hdd_inv (signature s)" "hdd_inv (perform_diagnostic s)" "hdd_inv (finished_diagnostic s)"
    "hdd_inv (start_diagnostic now s)" "hdd_inv (set_pdiag_in now b s)" "hdd_inv (interface_post_reset now s)"
    "hdd_inv (set_dmack_in b s)" "hdd_inv (set_dasp_in b s)" "hdd_inv (set_csel_in k s)"
proof -
  have "hdd_inv (s\<lparr>m_buffer_offset := 0, m_buffer_size := 0, m_status := 0\<rparr>)" if "hdd_inv s" for s using that by (simp add: hdd_inv_def)
  then have r: "hdd_inv (soft_reset now s)" if "hdd_inv s" for s
    using that by (simp add: soft_reset_def hle_soft_reset_def Let_def bit_BSY)
  then show "hdd_inv (soft_reset now s)" using assms .
  have d: "hdd_inv (finished_diagnostic s)" if "hdd_inv s" for s
    using that by (simp add: finished_diagnostic_def signature_def bit_BSY)
  then show "hdd_inv (finished_diagnostic s)" using assms .
  have p: "hdd_inv (perform_diagnostic s) = hdd_inv s" for s by (simp add: perform_diagnostic_def)
  show "hdd_inv (signature s)" "hdd_inv (perform_diagnostic s)" using assms p by (simp_all add: signature_def)
  show "hdd_inv (start_diagnostic now s)" using assms p d by (simp add: start_diagnostic_def Let_def)
  show "hdd_inv (set_pdiag_in now b s)" using assms d by (simp add: set_pdiag_in_def Let_def)
  have "hdd_inv (s\<lparr>m_status := 0, m_device_control := 0, m_resetting := True\<rparr>)" if "hdd_inv s" for s using that by (simp add: hdd_inv_def)
  then show "hdd_inv (interface_post_reset now s)" using assms r by (simp add: interface_post_reset_def Let_def)
  show "hdd_inv (set_dmack_in b s)" "hdd_inv (set_dasp_in b s)" "hdd_inv (set_csel_in k s)"
    using assms by (simp_all add: set_dmack_in_def set_dasp_in_def set_csel_in_def Let_def)
qed

lemma hdd_inv_sectors [simp]:
  assumes "hdd_inv s"
  shows "hdd_inv (snd (read_sector l s))" "hdd_inv (snd (write_sector l s))"
proof -
  show "hdd_inv (snd (read_sector l s))"
  proof (cases "image_exists (m_ide_image s)")
    case True
    then obtain h where h: "image_disk (m_ide_image s) = Some h" "sectorbytes (hdinfo h) = 512" using assms by (auto simp: hdd_inv_def ide_image_ok_def)
    have "length (snd (hd_read (l mod 2 ^ 32) h)) \<le> 512" using h(2) by (simp add: hd_read_def file_read_def Let_def)
    then show ?thesis using assms True h by (auto simp: read_sector_def Let_def hdd_inv_def split: prod.splits)
  qed (use assms in \<open>simp add: read_sector_def\<close>)
  show "hdd_inv (snd (write_sector l s))"
  proof (cases "image_exists (m_ide_image s)")
    case True
    then obtain h where h: "image_disk (m_ide_image s) = Some h" "sectorbytes (hdinfo h) = 512" using assms by (auto simp: hdd_inv_def ide_image_ok_def)
    have f: "m_file_open (m_ide_image s)" using h(1) by (auto simp: image_disk_def split: if_splits)
    have s: "sectorbytes (hdinfo (snd (hd_write (l mod 2 ^ 32) (m_buffer s) h))) = 512" using h(2) by (simp add: hd_write_def)
    then have "ide_image_ok ((m_ide_image s)\<lparr>m_hard_disk_handle := Some (snd (hd_write (l mod 2 ^ 32) (m_buffer s) h))\<rparr>)"
      using f by (simp add: ide_image_ok_def image_disk_def)
    then show ?thesis using assms True h by (auto simp: write_sector_def Let_def hdd_inv_def split: prod.splits)
  qed (use assms in \<open>simp add: write_sector_def\<close>)
qed

lemma hdd_inv_fill_default [simp]: "hdd_inv s \<Longrightarrow> hdd_inv (fill_buffer_default now s)"
  by (simp add: fill_buffer_default_def Let_def)

lemma hdd_inv_buffer_empty [simp]: "(\<And>s. hdd_inv s \<Longrightarrow> hdd_inv (f now s)) \<Longrightarrow> hdd_inv s \<Longrightarrow> hdd_inv (read_buffer_empty f now s)"
  by (simp add: read_buffer_empty_def Let_def)

lemma hdd_inv_bad_sector [simp]: "hdd_inv s \<Longrightarrow> hdd_inv (bad_sector s)" "hdd_inv s \<Longrightarrow> hdd_inv (security_error s)"
  by (simp_all add: bad_sector_def security_error_def bit_BSY)

lemma hdd_inv_finished_read:
  assumes "hdd_inv s" "m_command s \<noteq> IDE_COMMAND_SET_FEATURES"
  shows "hdd_inv (finished_read now s)"
proof -
  define s1 where "s1 = set_dasp False s"
  define r where "r = (if m_command s1 = IDE_COMMAND_READ_BUFFER then (True, s1) else read_sector (lba_address s) s1)"
  have r: "hdd_inv (snd r)" "m_command (snd r) \<noteq> IDE_COMMAND_SET_FEATURES" using assms by (simp_all add: r_def s1_def)
  define s4 where "s4 il im b = interrupt_due il im (if b then next_sector (snd r) else snd r)" for il im b
  have s4: "hdd_inv (s4 il im b)" "m_command (s4 il im b) \<noteq> IDE_COMMAND_SET_FEATURES" for il im b using r by (simp_all add: s4_def)
  show ?thesis
    using r s4 by (simp add: finished_read_def Let_def case_prod_beta s1_def [symmetric] r_def [symmetric] s4_def [symmetric])
qed

lemma hdd_inv_finished_write:
  assumes "hdd_inv s" "m_command s \<noteq> IDE_COMMAND_SET_FEATURES"
  shows "hdd_inv (finished_write s)"
proof -
  define s1 where "s1 = set_dasp False s"
  define r where "r = (if m_command s1 = IDE_COMMAND_WRITE_BUFFER then (True, s1) else write_sector (lba_address s) s1)"
  have r: "hdd_inv (snd r)" "m_command (snd r) \<noteq> IDE_COMMAND_SET_FEATURES" using assms by (simp_all add: r_def s1_def)
  define s4 where "s4 il im b = count_sector (interrupt_due il im (if b then next_sector (snd r) else snd r))" for il im b
  have s4: "hdd_inv (s4 il im b)" "m_command (s4 il im b) \<noteq> IDE_COMMAND_SET_FEATURES" for il im b using r by (simp_all add: s4_def)
  show ?thesis
    using r s4 by (simp add: finished_write_def Let_def case_prod_beta s1_def [symmetric] r_def [symmetric] s4_def [symmetric])
qed

lemma hdd_inv_fill_buffer [simp]:
  assumes "hdd_inv s"
  shows "hdd_inv (fill_buffer now s)"
proof -
  have "hdd_inv (finished_read now (count_sector s))" if "is_read_multiple (m_command s)"
    using assms that by (intro hdd_inv_finished_read) (auto simp: is_read_multiple_def)
  then show ?thesis using assms by (simp add: fill_buffer_def Let_def)
qed

lemma hdd_inv_first_sector [simp]: "hdd_inv s \<Longrightarrow> hdd_inv (read_first_sector now s)"
  by (simp add: read_first_sector_def Let_def case_prod_beta)

lemma hdd_inv_size: "hdd_inv s \<Longrightarrow> hdd_inv (s\<lparr>m_buffer_size := 512\<rparr>)"
  by (simp add: hdd_inv_def)

text \<open>A command other than \<^verbatim>\<open>SECURITY_UNLOCK\<close>. The data request of a write is not raised for \<^verbatim>\<open>SET_FEATURES\<close>.\<close>

lemma hdd_inv_hle_process [simp]: "hdd_inv s \<Longrightarrow> hdd_inv (hle_process_command now s)"
  by (simp add: hle_process_command_def bit_BSY)

lemma hdd_inv_process_command:
  assumes "hdd_inv s"
  shows "hdd_inv (process_command now s)"
proof -
  define s1 where "s1 = s\<lparr>m_sectors_until_int := 0, m_buffer_size := 512\<rparr>"
  define s2 where "s2 = s1\<lparr>m_sectors_remaining := sectors_remaining s1\<rparr>"
  have s: "hdd_inv s1" "hdd_inv s2" "m_command s1 = m_command s" "m_command s2 = m_command s"
    using hdd_inv_size [of "s\<lparr>m_sectors_until_int := 0\<rparr>"] assms by (simp_all add: s1_def s2_def)
  have u: "m_command s \<noteq> IDE_COMMAND_SECURITY_UNLOCK" using assms by (simp add: hdd_inv_def)
  show ?thesis
    using assms s u unfolding process_command_def Let_def s1_def [symmetric] s2_def [symmetric]
    by (simp add: is_write_multiple_def)
qed

lemma hdd_inv_process_buffer:
  assumes "hdd_inv s" "m_command s \<noteq> IDE_COMMAND_SET_FEATURES"
  shows "hdd_inv (process_buffer now s)"
  using assms hdd_inv_finished_write [of "set_dasp True s"] by (simp add: process_buffer_def Let_def) (simp add: hdd_inv_def)

lemma hdd_inv_hle_finished: "hdd_inv s \<Longrightarrow> hdd_inv (hle_finished_command now s)"
  using hdd_inv_features [of s] by (simp add: hle_finished_command_def Let_def case_prod_beta bit_BSY)

lemma put_u16le_length: "length (concat (map put_u16le ws)) = 2 * length ws"
  by (induction ws) (simp_all add: put_u16le_def)

lemma hdd_inv_buffer: "hdd_inv s \<Longrightarrow> length b = 512 \<Longrightarrow> hdd_inv (s\<lparr>m_buffer := b\<rparr>)"
  by (simp add: hdd_inv_def)

lemma hdd_inv_finished_command [simp]:
  assumes "hdd_inv s"
  shows "hdd_inv (finished_command now s)"
proof -
  have l: "length (m_identify_buffer s) = 256" "length (m_buffer s) = 512" using assms by (simp_all add: hdd_inv_def)
  have i: "hdd_inv (s\<lparr>m_buffer := concat (map put_u16le (m_identify_buffer s)) @ drop 512 (m_buffer s)\<rparr>)"
    "hdd_inv (s\<lparr>m_buffer := ata_put_u32be w @ drop 4 (m_buffer s)\<rparr>)" for w
    using assms l by (auto intro!: hdd_inv_buffer simp: put_u16le_length ata_put_u32be_def)
  show ?thesis
    using assms i hdd_inv_finished_read [OF assms] hdd_inv_finished_write [OF assms] hdd_inv_hle_finished [OF assms]
    by (auto simp: finished_command_def Let_def set_geometry_def bit_BSY)
qed

lemma hdd_inv_ticks:
  assumes "hdd_inv s"
  shows "hdd_inv (busy_tick now p s)" "hdd_inv (empty_tick now s)"
  using assms by (simp_all add: busy_tick_def finished_busy_def empty_tick_def)

text \<open>The transfers of a word: while there is data to transfer the position is inside the buffer.\<close>

lemma hdd_inv_read_data:
  assumes "hdd_inv s" "bit (m_status s) 3"
  shows "hdd_inv (snd (read_data now dbg data s))"
proof -
  define z where "z = (if m_8bit_data_transfers s then 1 else 2 :: nat)"
  have i: "m_buffer_offset s + z \<le> 512" "length (m_buffer s) = 512" "m_command s \<noteq> IDE_COMMAND_SET_FEATURES"
    "m_8bit_data_transfers s \<or> even (m_buffer_offset s + z)" "m_buffer_size s \<le> 512"
    using assms by (auto simp: hdd_inv_def z_def elim!: evenE)
  define s2 where "s2 = s\<lparr>m_buffer_offset := (m_buffer_offset s + z) mod 2 ^ 16\<rparr>"
  have b: "hdd_inv (read_buffer_empty fill_buffer now s2)" if "m_buffer_offset s + z = 512"
  proof -
    have "hdd_inv (s2\<lparr>m_buffer_offset := 0\<rparr>)" using assms by (simp add: s2_def)
    then show ?thesis by (simp add: read_buffer_empty_def Let_def)
  qed
  have "hdd_inv s2" if "m_buffer_offset s + z < 512" using assms i that by (auto simp: s2_def hdd_inv_def)
  then show ?thesis
    using i b assms(1) unfolding read_data_def Let_def z_def [symmetric] s2_def [symmetric] by (cases "m_buffer_offset s + z = 512") (auto simp: s2_def)
qed

text \<open>A word written to the buffer: one or two bytes, then the buffer may be full.\<close>

lemma hdd_inv_write_data:
  assumes "hdd_inv s" "bit (m_status s) 3"
  shows "hdd_inv (write_data now data s)"
proof -
  define z where "z = (if m_8bit_data_transfers s then 1 else 2 :: nat)"
  have i: "m_buffer_offset s + z \<le> 512" "length (m_buffer s) = 512" "m_command s \<noteq> IDE_COMMAND_SET_FEATURES"
    "m_8bit_data_transfers s \<or> even (m_buffer_offset s + z)" "m_buffer_size s \<le> 512"
    using assms by (auto simp: hdd_inv_def z_def elim!: evenE)
  define s1 where "s1 = put_byte (ucast data) s"
  define s2 where "s2 = (if m_8bit_data_transfers s1 then s1 else put_byte (ucast (drop_bit 8 data)) s1)"
  obtain b where s2: "s2 = s\<lparr>m_buffer := b, m_buffer_offset := m_buffer_offset s + z\<rparr>" "length b = 512"
    using i by (cases "m_8bit_data_transfers s") (auto simp: s2_def s1_def put_byte_def z_def Let_def)
  have w: "hdd_inv (write_buffer_full now s2)"
  proof -
    have "hdd_inv (s2\<lparr>m_buffer_offset := 0\<rparr>)" "m_command s2 \<noteq> IDE_COMMAND_SET_FEATURES" using assms i s2 by (simp_all add: hdd_inv_def)
    then show ?thesis by (simp add: write_buffer_full_def hdd_inv_process_buffer)
  qed
  have "hdd_inv s2" if "m_buffer_offset s + z < 512" using assms i that s2 by (auto simp: hdd_inv_def)
  then show ?thesis
    using i w s2 unfolding write_data_def Let_def s1_def [symmetric] s2_def [symmetric] by (cases "m_buffer_offset s + z = 512") auto
qed

lemma DRQ_bit: "m_status s AND IDE_STATUS_DRQ = 0 \<longleftrightarrow> \<not> bit (m_status s) 3"
  by (simp add: mask_bits)

lemma hdd_inv_status_read [simp]: "hdd_inv (snd (read_status now data s)) = hdd_inv s"
  by (simp add: read_status_def calculate_status_def Let_def)

lemma hdd_inv_reads:
  assumes "hdd_inv s"
  shows "hdd_inv (snd (command_r now dbg offset data s))" "hdd_inv (snd (control_r now offset data s))" "hdd_inv (snd (dma_r now dbg data s))"
  using assms hdd_inv_read_data [OF assms]
  by (simp_all add: command_r_def control_r_def dma_r_def DRQ_bit Let_def case_prod_beta split del: if_split cong: if_cong)
    (simp_all split: if_splits)

lemma hdd_inv_abort [simp]: "hdd_inv s \<Longrightarrow> hdd_inv (abort_transfer now s)"
  by (simp add: abort_transfer_def bit_BSY)

lemma hdd_inv_new_command:
  assumes "hdd_inv s" "\<not> bit (m_status s) 3" "b \<noteq> IDE_COMMAND_SECURITY_UNLOCK"
  shows "hdd_inv (s\<lparr>m_command := b, m_buffer_offset := 0\<rparr>)"
  using assms by (simp add: hdd_inv_def)

lemma hdd_inv_command_w:
  assumes "hdd_inv s" "offset \<noteq> 7 \<or> ucast data \<noteq> IDE_COMMAND_SECURITY_UNLOCK"
  shows "hdd_inv (command_w now offset data s)"
proof -
  define s1 where "s1 = (if m_status s AND IDE_STATUS_DRQ \<noteq> 0 \<and> offset \<noteq> 0 \<and> (offset \<noteq> 6 \<or> data \<noteq> ucast (m_device_head s))
               then abort_transfer now s else s)"
  have s1: "hdd_inv s1" using assms by (simp add: s1_def)
  have d: "\<not> bit (m_status s1) 3" if "offset = 7"
    using that by (auto simp: s1_def abort_transfer_def DRQ_bit status_set_def status_clear_def set_dmarq_def line_out_def stop_busy_def Let_def bit_simps)
  have "hdd_inv (s1\<lparr>m_command := ucast data, m_buffer_offset := 0\<rparr>)" if "offset = 7"
    using hdd_inv_new_command [OF s1 d] that assms(2) by simp
  then show ?thesis
    using s1 hdd_inv_write_data [OF s1] unfolding command_w_def Let_def s1_def [symmetric]
    by (simp add: DRQ_bit hdd_inv_process_command)
qed

lemma hdd_inv_control_w: "hdd_inv s \<Longrightarrow> hdd_inv (control_w now offset data s)"
  by (simp add: control_w_def Let_def)

lemma hdd_inv_dma_w: "hdd_inv s \<Longrightarrow> hdd_inv (dma_w now data s)"
  by (simp add: dma_w_def DRQ_bit hdd_inv_write_data Let_def)

section \<open>Runs\<close>

text \<open>The image of the disk, a raw file: it is mounted and unmounted by \<^verbatim>\<open>harddisk_image_device\<close>, and the calls of the operating
  system on its file can begin and cease to fail.\<close>

definition no_image :: harddisk_image where
  "no_image = \<lparr>m_image_name = [], m_file_open = False, m_hard_disk_handle = None\<rparr>"

definition ide_image_unload :: "ide_hdd \<Rightarrow> ide_hdd" where
  "ide_image_unload s =
     (let img = m_ide_image s;
          img1 = (if m_file_open img \<or> image_exists img then img\<lparr>m_hard_disk_handle := None\<rparr> else img)
      in s\<lparr>m_ide_image := image_clear img1\<rparr>)"

definition ide_image_load :: "string \<Rightarrow> bool \<Rightarrow> u8 list \<Rightarrow> ide_hdd \<Rightarrow> ide_hdd" where
  "ide_image_load name is_hdi f s =
     (let s1 = ide_image_unload s
      in s1\<lparr>m_ide_image := internal_load_hd is_hdi f ((m_ide_image s1)\<lparr>m_image_name := name, m_file_open := True\<rparr>)\<rparr>)"

definition ide_image_errors :: "bool \<Rightarrow> bool \<Rightarrow> ide_hdd \<Rightarrow> ide_hdd" where
  "ide_image_errors r w s =
     s\<lparr>m_ide_image := (m_ide_image s)\<lparr>m_hard_disk_handle :=
       map_option (\<lambda>h. h\<lparr>io_read_error := r, io_write_error := w\<rparr>) (m_hard_disk_handle (m_ide_image s))\<rparr>\<rparr>"

lemma ide_image_ok_events:
  "ide_image_ok no_image" "ide_image_ok (m_ide_image (ide_image_unload s))" "ide_image_ok (m_ide_image (ide_image_load name is_hdi f s))"
  "ide_image_ok (m_ide_image s) \<Longrightarrow> ide_image_ok (m_ide_image (ide_image_errors r w s))"
  by (auto simp: ide_image_ok_def image_exists_def no_image_def ide_image_unload_def image_clear_def ide_image_load_def internal_load_hd_def
      image_disk_def hard_disk_file_init_def ide_image_errors_def Let_def case_prod_beta)

lemma hdd_inv_image_events:
  assumes "hdd_inv s"
  shows "hdd_inv (ide_image_unload s)" "hdd_inv (ide_image_load name is_hdi f s)" "hdd_inv (ide_image_errors r w s)"
proof -
  have i: "hdd_inv (s\<lparr>m_ide_image := img\<rparr>)" if "ide_image_ok img" for img using assms that by (simp add: hdd_inv_def)
  have "ide_image_ok (m_ide_image s)" using assms by (simp add: hdd_inv_def)
  note e = ide_image_ok_events(2) ide_image_ok_events(3) ide_image_ok_events(4) [OF this]
  have "ide_image_unload s = s\<lparr>m_ide_image := m_ide_image (ide_image_unload s)\<rparr>"
    "ide_image_load name is_hdi f s = s\<lparr>m_ide_image := m_ide_image (ide_image_load name is_hdi f s)\<rparr>"
    "ide_image_errors r w s = s\<lparr>m_ide_image := m_ide_image (ide_image_errors r w s)\<rparr>"
    by (simp_all add: ide_image_unload_def ide_image_load_def ide_image_errors_def Let_def)
  then show "hdd_inv (ide_image_unload s)" "hdd_inv (ide_image_load name is_hdi f s)" "hdd_inv (ide_image_errors r w s)"
    using i e by metis+
qed

text \<open>What happens to a disk, at any time: accesses of its registers and of the DMA port, changes of its input lines, ticks of its
  timers, resets, mounting and unmounting of raw images, passwords, and failing calls of the operating system. The disk starts without
  an image. The only restriction is on the command.\<close>

inductive hdd_run :: "ide_hdd \<Rightarrow> bool" where
  hdd_started: "length ident = 256 \<Longrightarrow> hdd_run (ide_hdd_start now hob ident no_image)"
| hdd_reset: "hdd_run s \<Longrightarrow> hdd_run (interface_post_reset now (ide_hdd_device_reset inquiry s))"
| hdd_command_w: "hdd_run s \<Longrightarrow> offset \<noteq> 7 \<or> ucast data \<noteq> IDE_COMMAND_SECURITY_UNLOCK \<Longrightarrow> hdd_run (command_w now offset data s)"
| hdd_control_w: "hdd_run s \<Longrightarrow> hdd_run (control_w now offset data s)"
| hdd_command_r: "hdd_run s \<Longrightarrow> hdd_run (snd (command_r now dbg offset data s))"
| hdd_control_r: "hdd_run s \<Longrightarrow> hdd_run (snd (control_r now offset data s))"
| hdd_dma_r: "hdd_run s \<Longrightarrow> hdd_run (snd (dma_r now dbg data s))"
| hdd_dma_w: "hdd_run s \<Longrightarrow> hdd_run (dma_w now data s)"
| hdd_dmack: "hdd_run s \<Longrightarrow> hdd_run (set_dmack_in b s)"
| hdd_dasp: "hdd_run s \<Longrightarrow> hdd_run (set_dasp_in b s)"
| hdd_pdiag: "hdd_run s \<Longrightarrow> hdd_run (set_pdiag_in now b s)"
| hdd_csel: "hdd_run s \<Longrightarrow> hdd_run (set_csel_in k s)"
| hdd_busy_tick: "hdd_run s \<Longrightarrow> hdd_run (busy_tick now p s)"
| hdd_empty_tick: "hdd_run s \<Longrightarrow> hdd_run (empty_tick now s)"
| hdd_passwords: "hdd_run s \<Longrightarrow> hdd_run (set_master_password p (set_user_password q (set_dma_transfer_time now s)))"
| hdd_load: "hdd_run s \<Longrightarrow> hdd_run (ide_image_load name is_hdi f s)"
| hdd_unload: "hdd_run s \<Longrightarrow> hdd_run (ide_image_unload s)"
| hdd_errors: "hdd_run s \<Longrightarrow> hdd_run (ide_image_errors r w s)"

lemma hdd_run_inv: "hdd_run s \<Longrightarrow> hdd_inv s"
proof (induction rule: hdd_run.induct)
  case (hdd_started ident now hob)
  then show ?case by (simp add: hdd_inv_def ide_hdd_start_def ide_image_ok_events)
qed (simp_all add: hdd_inv_image_events hdd_inv_command_w hdd_inv_control_w hdd_inv_reads hdd_inv_dma_w hdd_inv_ticks set_master_password_def set_user_password_def
    set_dma_transfer_time_def)



end
