(* ===== verification/Ata_Sector.thy ===== *)
theory Ata_Sector
  imports Ata_Inv
begin

unbundle bit_operations_syntax

text \<open>
  Transfers of sectors: the address registers, and what one step of a transfer does to the disk (a command, a
  tick of the timer, the data of a sector).
\<close>

section \<open>Addresses\<close>

lemma unat_inc: "unat (x + 1 :: u8) = (if x + 1 = 0 then 0 else unat x + 1)" "x + 1 = 0 \<Longrightarrow> unat (x :: u8) = 255"
proof -
  have u: "unat (x + 1) = (unat x + 1) mod 256" by (simp add: unat_word_ariths)
  have l: "unat x < 256" using unsigned_less [of x, where 'a = nat] by simp
  have z: "x + 1 = 0 \<longleftrightarrow> unat (x + 1) = 0" by (simp only: unat_eq_zero)
  show "unat (x + 1 :: u8) = (if x + 1 = 0 then 0 else unat x + 1)" using u l z by (cases "unat x = 255") auto
  show "unat x = 255" if "x + 1 = 0"
  proof -
    have "(unat x + 1) mod 256 = 0" using u z that by simp
    then show ?thesis using l by (cases "unat x = 255") auto
  qed
qed

text \<open>The head in the low nibble of the device register.\<close>

lemma head_nibble: "unat (d AND 0x0f :: u8) < 16"
proof -
  have "d AND 0x0f = take_bit 4 d" by (simp add: take_bit_eq_mask mask_eq_exp_minus_1)
  then show ?thesis by (simp add: unsigned_take_bit_eq) (simp add: take_bit_eq_mod)
qed

lemma head_put:
  assumes "unat h < 16"
  shows "((d AND NOT 0x0f) OR h) AND 0x0f = (h :: u8)" "bit ((d AND NOT 0x0f) OR h) 6 = bit d 6" "bit ((d AND NOT 0x0f) OR h) 4 = bit d 4"
proof -
  have "unat (take_bit 4 h) = unat h" using assms by (simp add: unsigned_take_bit_eq take_bit_nat_eq_self)
  then have t: "take_bit 4 h = h" by (metis unsigned_word_eqI)
  have f: "(0x0f :: u8) = mask 4" by (simp add: mask_eq_exp_minus_1)
  have n: "bit h k \<longleftrightarrow> k < 4 \<and> bit h k" for k by (metis t bit_take_bit_iff)
  show "((d AND NOT 0x0f) OR h) AND 0x0f = h" unfolding f
    by (rule bit_word_eqI) (use n in \<open>auto simp: bit_simps\<close>)
  show "bit ((d AND NOT 0x0f) OR h) 6 = bit d 6" "bit ((d AND NOT 0x0f) OR h) 4 = bit d 4"
    using n [of 6] n [of 4] unfolding f by (auto simp: bit_simps)
qed

lemma lba28:
  assumes "bit (m_device_head s) 6" "\<not> is_lba48 s"
  shows "lba_address s = unat (m_device_head s AND 0x0f) * 2 ^ 24 + unat (m_cylinder_high s) * 2 ^ 16
    + unat (m_cylinder_low s) * 2 ^ 8 + unat (m_sector_number s)"
  using assms by (simp add: lba_address_def mask_bits)

text \<open>The fields that a change of the address leaves alone.\<close>

lemma next_sector_frame [simp]:
  "m_buffer (next_sector s) = m_buffer s" "m_buffer_offset (next_sector s) = m_buffer_offset s"
  "m_buffer_size (next_sector s) = m_buffer_size s" "m_error (next_sector s) = m_error s" "m_status (next_sector s) = m_status s"
  "m_device_control (next_sector s) = m_device_control s" "m_identify_buffer (next_sector s) = m_identify_buffer s"
  "m_8bit_data_transfers (next_sector s) = m_8bit_data_transfers s" "m_csel (next_sector s) = m_csel s"
  "m_dmack (next_sector s) = m_dmack s" "m_irq (next_sector s) = m_irq s" "m_busy_timer (next_sector s) = m_busy_timer s"
  "m_buffer_empty_timer (next_sector s) = m_buffer_empty_timer s"
  "m_single_device (next_sector s) = m_single_device s" "m_num_cylinders (next_sector s) = m_num_cylinders s"
  "m_num_sectors (next_sector s) = m_num_sectors s" "m_num_heads (next_sector s) = m_num_heads s"
  "m_sectors_until_int (next_sector s) = m_sectors_until_int s" "m_sectors_remaining (next_sector s) = m_sectors_remaining s"
  "m_block_count (next_sector s) = m_block_count s" "m_master_password_enable (next_sector s) = m_master_password_enable s"
  "m_user_password_enable (next_sector s) = m_user_password_enable s" "m_ide_image (next_sector s) = m_ide_image s"
  "m_daspout (next_sector s) = m_daspout s" "ata_ub (next_sector s) = ata_ub s"
  by (simp_all add: next_sector_def Let_def)

lemma next_sector_lba:
  assumes "bit (m_device_head s) 6" "\<not> is_lba48 s" "lba_address s + 1 < 2 ^ 28"
  shows "lba_address (next_sector s) = lba_address s + 1" "bit (m_device_head (next_sector s)) 6"
    "bit (m_device_head (next_sector s)) 4 = bit (m_device_head s) 4" "m_cur_lba (next_sector s) = lba_address s + 1"
proof -
  define h where "h = m_device_head s AND 0x0f"
  define carry where "carry = (m_sector_number s + 1 = 0 \<and> m_cylinder_low s + 1 = 0 \<and> m_cylinder_high s + 1 = 0)"
  define h1 where "h1 = (if carry then h + 1 else h)"
  have l: "lba_address s = unat h * 2 ^ 24 + unat (m_cylinder_high s) * 2 ^ 16 + unat (m_cylinder_low s) * 2 ^ 8 + unat (m_sector_number s)"
    using lba28 [OF assms(1,2)] by (simp add: h_def)
  have h: "unat h < 16" using head_nibble by (simp add: h_def)
  have c: "unat h < 15" if carry
    using l assms(3) that unat_inc(2) [of "m_sector_number s"] unat_inc(2) [of "m_cylinder_low s"] unat_inc(2) [of "m_cylinder_high s"]
    by (auto simp: carry_def)
  have h1: "unat h1 = unat h + of_bool carry" "unat h1 < 16"
    using c h unat_inc(1) [of h] unat_inc(2) [of h] by (auto simp: h1_def)
  have n: "m_device_head (next_sector s) = (m_device_head s AND NOT 0x0f) OR h1"
    "m_sector_number (next_sector s) = m_sector_number s + 1"
    "m_cylinder_low (next_sector s) = (if m_sector_number s + 1 = 0 then m_cylinder_low s + 1 else m_cylinder_low s)"
    "m_cylinder_high (next_sector s) = (if m_sector_number s + 1 = 0 \<and> m_cylinder_low s + 1 = 0 then m_cylinder_high s + 1 else m_cylinder_high s)"
    using assms(1) by (simp_all add: next_sector_def Let_def mask_bits h1_def carry_def h_def)
  note p = head_put [OF h1(2), of "m_device_head s"]
  show b: "bit (m_device_head (next_sector s)) 6" "bit (m_device_head (next_sector s)) 4 = bit (m_device_head s) 4"
    using p assms(1) by (simp_all add: n)
  have "\<not> is_lba48 (next_sector s)" using assms(2) by (simp add: is_lba48_def)
  from lba28 [OF b(1) this] have l': "lba_address (next_sector s) = unat h1 * 2 ^ 24 + unat (m_cylinder_high (next_sector s)) * 2 ^ 16
      + unat (m_cylinder_low (next_sector s)) * 2 ^ 8 + unat (m_sector_number (next_sector s))"
    by (simp only: n(1) p(1))
  show "lba_address (next_sector s) = lba_address s + 1"
    unfolding l' l h1(1) n(2,3,4)
    using unat_inc [of "m_sector_number s"] unat_inc [of "m_cylinder_low s"] unat_inc [of "m_cylinder_high s"]
    by (auto simp: carry_def)
  moreover have "lba_address s1 = lba_address (s1\<lparr>m_cur_lba := k\<rparr>)" for s1 k by (simp add: lba_address_def is_lba48_def)
  then have "m_cur_lba (next_sector s) = lba_address (next_sector s)" by (simp add: next_sector_def Let_def)
  ultimately show "m_cur_lba (next_sector s) = lba_address s + 1" by simp
qed

section \<open>A host that transfers data with the processor\<close>

text \<open>What the host does: it writes a register, reads one, or waits for the disk. A port is a way to the registers; an access
  that fails ends the program.\<close>

datatype pio = Out nat u16 | In nat | Wait

record 's ata_port =
  port_out :: "attotime \<Rightarrow> nat \<Rightarrow> u16 \<Rightarrow> 's \<Rightarrow> 's option"
  port_in :: "attotime \<Rightarrow> nat \<Rightarrow> 's \<Rightarrow> (u16 \<times> 's) option"
  port_wait :: "attotime \<Rightarrow> 's \<Rightarrow> attotime \<times> 's"

fun pio_run :: "'s ata_port \<Rightarrow> attotime \<Rightarrow> pio list \<Rightarrow> 's \<Rightarrow> ((nat \<times> u16) list \<times> attotime \<times> 's) option" where
  "pio_run p now [] s = Some ([], now, s)"
| "pio_run p now (Out a d # ps) s = Option.bind (port_out p now a d s) (pio_run p now ps)"
| "pio_run p now (In a # ps) s =
     Option.bind (port_in p now a s) (\<lambda>(v, s1). map_option (\<lambda>(vs, r). ((a, v) # vs, r)) (pio_run p now ps s1))"
| "pio_run p now (Wait # ps) s = (let (now1, s1) = port_wait p now s in pio_run p now1 ps s1)"

lemma pio_run_append:
  "pio_run p now (xs @ ys) s =
     Option.bind (pio_run p now xs s) (\<lambda>(vs, now1, s1). map_option (\<lambda>(ws, r). (vs @ ws, r)) (pio_run p now1 ys s1))"
proof (induction xs arbitrary: now s)
  case Nil
  then show ?case by (cases "pio_run p now ys s") auto
next
  case (Cons x xs)
  then show ?case
    by (cases x) (auto simp: Option.bind_assoc Option.map_conv_bind_option case_prod_beta split: option.splits bind_splits)
qed

lemma pio_run_seq:
  assumes "pio_run p now xs s = Some (vs, now1, s1)" "pio_run p now1 ys s1 = Some (ws, r)"
  shows "pio_run p now (xs @ ys) s = Some (vs @ ws, r)"
  using assms by (simp add: pio_run_append)

text \<open>The registers of the disk itself. When the timer of the disk fires, the scheduler has disabled it and
  \<^verbatim>\<open>schedule_next_period\<close> leaves a timer without a period without an expiry time.\<close>

definition busy_fire :: "ide_hdd \<Rightarrow> ide_hdd" where
  "busy_fire s =
     (let t = m_busy_timer s
      in busy_tick (m_expire t) (m_param t) (s\<lparr>m_busy_timer := schedule_next_period (t\<lparr>m_enabled := False\<rparr>)\<rparr>))"

definition busy_pending :: "ide_hdd \<Rightarrow> bool" where
  "busy_pending s \<longleftrightarrow> m_enabled (m_busy_timer s) \<and> \<not> is_never (m_expire (m_busy_timer s))"

definition empty_fire :: "ide_hdd \<Rightarrow> ide_hdd" where
  "empty_fire s =
     (let t = m_buffer_empty_timer s
      in empty_tick (m_expire t) (s\<lparr>m_buffer_empty_timer := schedule_next_period (t\<lparr>m_enabled := False\<rparr>)\<rparr>))"

definition timer_pending :: "emu_timer \<Rightarrow> bool" where
  "timer_pending t \<longleftrightarrow> m_enabled t \<and> \<not> is_never (m_expire t)"

abbreviation empty_pending :: "ide_hdd \<Rightarrow> bool" where
  "empty_pending s \<equiv> timer_pending (m_buffer_empty_timer s)"

text \<open>The timer of the disk that fires next, with its time. When both are due at the same time, the busy timer is first: it was set
  earlier, since it is set with a delay and the other one without.\<close>

definition hdd_next_event :: "ide_hdd \<Rightarrow> (attotime \<times> (ide_hdd \<Rightarrow> ide_hdd)) option" where
  "hdd_next_event s =
     (if empty_pending s \<and> \<not> (busy_pending s \<and> m_expire (m_busy_timer s) \<le> m_expire (m_buffer_empty_timer s))
      then Some (m_expire (m_buffer_empty_timer s), empty_fire)
      else if busy_pending s then Some (m_expire (m_busy_timer s), busy_fire)
      else None)"

lemma next_event_busy: "\<not> empty_pending s \<Longrightarrow> busy_pending s \<Longrightarrow> hdd_next_event s = Some (m_expire (m_busy_timer s), busy_fire)"
  by (simp add: hdd_next_event_def)

text \<open>Waiting for the disk is waiting for the next event of its timers.\<close>

definition hdd_port :: "ide_hdd ata_port" where
  "hdd_port =
     \<lparr>port_out = (\<lambda>now a d s. Some (command_w now a d s)),
      port_in = (\<lambda>now a s. Some (command_r now False a 0xffff s)),
      port_wait = (\<lambda>now s. case hdd_next_event s of Some (t, fire) \<Rightarrow> (t, fire s) | None \<Rightarrow> (now, s))\<rparr>"

lemma wait_busy:
  assumes "\<not> empty_pending s" "busy_pending s"
  shows "port_wait hdd_port now s = (m_expire (m_busy_timer s), busy_fire s)"
  by (simp add: hdd_port_def next_event_busy [OF assms])

section \<open>The words of the buffer\<close>

fun words_of :: "u8 list \<Rightarrow> u16 list" where
  "words_of (a # b # bs) = (ucast a OR push_bit 8 (ucast b)) # words_of bs"
| "words_of bs = []"

definition bytes_of :: "u16 list \<Rightarrow> u8 list" where
  "bytes_of ws = concat (map put_u16le ws)"

lemma put_word: "put_u16le (ucast a OR push_bit 8 (ucast b)) = [a, b]"
proof -
  have "ucast (ucast a OR push_bit 8 (ucast b) :: u16) = a" "ucast (drop_bit 8 (ucast a OR push_bit 8 (ucast b) :: u16)) = b"
    by (rule bit_word_eqI, auto simp: bit_simps dest: bit_imp_le_length)+
  then show ?thesis by (simp add: put_u16le_def)
qed

lemma bytes_words: "even (length bs) \<Longrightarrow> bytes_of (words_of bs) = bs"
  by (induction bs rule: words_of.induct) (auto simp: bytes_of_def put_word)

lemma words_length: "length (words_of bs) = length bs div 2" "length (bytes_of ws) = 2 * length ws"
  by (induction bs rule: words_of.induct) (simp_all add: bytes_of_def put_u16le_length)

text \<open>A disk that has data to transfer, addressed by the host, in words.\<close>

definition transferring :: "ide_hdd \<Rightarrow> bool" where
  "transferring s \<longleftrightarrow> m_csel s = 0 \<and> \<not> bit (m_device_head s) 4 \<and> \<not> m_dmack s \<and> \<not> m_8bit_data_transfers s \<and> length (m_buffer s) = 512 \<and>
     m_buffer_size s = 512 \<and> \<not> bit (m_status s) 7 \<and> bit (m_status s) 3"

lemma selected: "m_csel s = 0 \<Longrightarrow> \<not> bit (m_device_head s) 4 \<Longrightarrow> device_selected s"
proof -
  assume "m_csel s = 0" "\<not> bit (m_device_head s) 4"
  then have "drop_bit 4 (m_device_head s AND IDE_DEVICE_HEAD_DRV) = 0" by (auto simp: mask_bits bit_simps)
  with \<open>m_csel s = 0\<close> show ?thesis by (simp add: device_selected_def dev_def)
qed

lemma empty_offset [simp]: "read_buffer_empty f now (s\<lparr>m_buffer_offset := k\<rparr>) = read_buffer_empty f now s"
  "write_buffer_full now (s\<lparr>m_buffer_offset := k\<rparr>) = write_buffer_full now s"
  by (simp_all add: read_buffer_empty_def write_buffer_full_def)

lemma read_word:
  assumes "transferring s" "m_buffer_offset s + 2 \<le> 512"
  shows "command_r now False 0 x s =
    (ucast (m_buffer s ! m_buffer_offset s) OR push_bit 8 (ucast (m_buffer s ! (m_buffer_offset s + 1))),
     if m_buffer_offset s + 2 = 512 then read_buffer_empty fill_buffer now s else s\<lparr>m_buffer_offset := m_buffer_offset s + 2\<rparr>)"
  using assms selected [of s] by (auto simp: transferring_def command_r_def read_data_def Let_def mask_bits)

lemma data_in:
  assumes "transferring s" "m_buffer_offset s + 2 * k = 512" "0 < k"
  shows "pio_run hdd_port now (replicate k (In 0)) s =
    Some (map (Pair 0) (words_of (drop (m_buffer_offset s) (m_buffer s))), now, read_buffer_empty fill_buffer now s)"
  using assms
proof (induction k arbitrary: s)
  case (Suc k)
  let ?i = "m_buffer_offset s"
  have l: "?i + 1 < length (m_buffer s)" using Suc.prems by (auto simp: transferring_def)
  then have d: "drop ?i (m_buffer s) = m_buffer s ! ?i # m_buffer s ! (?i + 1) # drop (?i + 2) (m_buffer s)"
    by (metis Cons_nth_drop_Suc Suc_eq_plus1 add_2_eq_Suc' add_lessD1 add_Suc_right)
  have w: "words_of (drop ?i (m_buffer s)) = (ucast (m_buffer s ! ?i) OR push_bit 8 (ucast (m_buffer s ! (?i + 1)))) # words_of (drop (?i + 2) (m_buffer s))"
    by (simp only: d words_of.simps)
  have le: "?i + 2 \<le> 512" using Suc.prems(2) by simp
  note r = read_word [OF Suc.prems(1) le, of now "0xffff"]
  show ?case
  proof (cases "k = 0")
    case True
    then have e: "drop (?i + 2) (m_buffer s) = []" "?i + 2 = 512" using Suc.prems by (auto simp: transferring_def)
    have "words_of (drop ?i (m_buffer s)) = [ucast (m_buffer s ! ?i) OR push_bit 8 (ucast (m_buffer s ! (?i + 1)))]"
      unfolding w e(1) by simp
    then show ?thesis using r True e(2) by (simp add: hdd_port_def)
  next
    case False
    have ne: "?i + 2 \<noteq> 512" "?i + 2 + 2 * k = 512" using False Suc.prems(2) by simp_all
    have "transferring (s\<lparr>m_buffer_offset := ?i + 2\<rparr>)" using Suc.prems(1) by (simp add: transferring_def)
    note ih = Suc.IH [OF this]
    have "pio_run hdd_port now (replicate k (In 0)) (s\<lparr>m_buffer_offset := ?i + 2\<rparr>) =
        Some (map (Pair 0) (words_of (drop (?i + 2) (m_buffer s))), now, read_buffer_empty fill_buffer now s)"
      using ih False ne(2) by (simp only: ide_hdd.simps ata_hle.simps empty_offset) simp
    then show ?thesis using r ne(1) unfolding w by (simp add: hdd_port_def)
  qed
qed simp

lemma write_word:
  assumes "transferring s" "m_buffer_offset s + 2 \<le> 512"
  shows "command_w now 0 d s =
    (let i = m_buffer_offset s; s1 = s\<lparr>m_buffer := (m_buffer s)[i := ucast d, i + 1 := ucast (drop_bit 8 d)]\<rparr>
     in if i + 2 = 512 then write_buffer_full now s1 else s1\<lparr>m_buffer_offset := i + 2\<rparr>)"
proof -
  let ?i = "m_buffer_offset s"
  have p: "put_byte (ucast (drop_bit 8 d)) (put_byte (ucast d) s) =
      (s\<lparr>m_buffer := (m_buffer s)[?i := ucast d, ?i + 1 := ucast (drop_bit 8 d)]\<rparr>)\<lparr>m_buffer_offset := ?i + 2\<rparr>"
    using assms by (simp add: put_byte_def transferring_def Let_def)
  have "\<not> m_8bit_data_transfers (put_byte (ucast d) s)" using assms(1) by (simp add: put_byte_def transferring_def Let_def)
  then have "write_data now d s = (let s1 = s\<lparr>m_buffer := (m_buffer s)[?i := ucast d, ?i + 1 := ucast (drop_bit 8 d)]\<rparr>
     in if ?i + 2 = 512 then write_buffer_full now s1 else s1\<lparr>m_buffer_offset := ?i + 2\<rparr>)"
    using assms by (auto simp: write_data_def p Let_def transferring_def simp del: empty_offset(1))
  then show ?thesis using assms(1) selected [of s] by (simp add: command_w_def Let_def mask_bits transferring_def)
qed

lemma take_two_updates: "i + 1 < length b \<Longrightarrow> take (i + 2) (b[i := x, i + 1 := y]) = take i b @ [x, y]"
  by (simp add: take_Suc_conv_app_nth nth_list_update)

lemma data_out:
  assumes "transferring s" "m_buffer_offset s + 2 * length ws = 512" "ws \<noteq> []"
  shows "pio_run hdd_port now (map (Out 0) ws) s =
    Some ([], now, write_buffer_full now (s\<lparr>m_buffer := take (m_buffer_offset s) (m_buffer s) @ bytes_of ws\<rparr>))"
  using assms
proof (induction ws arbitrary: s)
  case (Cons d ws)
  let ?i = "m_buffer_offset s" and ?b = "m_buffer s"
  define b1 where "b1 = ?b[?i := ucast d, ?i + 1 := ucast (drop_bit 8 d)]"
  have i: "?i + 1 < length ?b" "length ?b = 512" using Cons.prems by (auto simp: transferring_def)
  have t: "take (?i + 2) b1 = take ?i ?b @ put_u16le d" "length b1 = 512"
    using i take_two_updates [of ?i ?b] by (simp_all add: b1_def put_u16le_def)
  have le: "?i + 2 \<le> 512" using Cons.prems(2) by simp
  note w = write_word [OF Cons.prems(1) le, of now d, unfolded Let_def, folded b1_def]
  have bw: "bytes_of (d # ws) = put_u16le d @ bytes_of ws" by (simp add: bytes_of_def)
  show ?case
  proof (cases "ws = []")
    case True
    then have e: "?i + 2 = 512" using Cons.prems(2) by simp
    then have "take ?i ?b @ bytes_of (d # ws) = b1" using t True by (simp add: bw) (simp add: bytes_of_def)
    then show ?thesis using w e True by (simp add: hdd_port_def)
  next
    case False
    define s1 where "s1 = s\<lparr>m_buffer := b1, m_buffer_offset := ?i + 2\<rparr>"
    have ne: "?i + 2 \<noteq> 512" "?i + 2 + 2 * length ws = 512" using False Cons.prems(2) by (cases ws, simp_all)
    have s1: "transferring s1" "m_buffer_offset s1 = ?i + 2" "m_buffer s1 = b1" using Cons.prems(1) t by (simp_all add: s1_def transferring_def)
    have c: "command_w now 0 d s = s1" using w ne(1) by (simp add: s1_def)
    have "s1\<lparr>m_buffer := take (?i + 2) b1 @ bytes_of ws\<rparr> = (s\<lparr>m_buffer := take ?i ?b @ bytes_of (d # ws)\<rparr>)\<lparr>m_buffer_offset := ?i + 2\<rparr>"
      unfolding t(1) bw by (simp add: s1_def)
    then have "pio_run hdd_port now (map (Out 0) ws) s1 = Some ([], now, write_buffer_full now (s\<lparr>m_buffer := take ?i ?b @ bytes_of (d # ws)\<rparr>))"
      using Cons.IH [OF s1(1)] s1 ne(2) False by simp
    then show ?thesis using c by (simp add: hdd_port_def)
  qed
qed simp

end
