(* ===== verification/Ata_Pio.thy ===== *)
theory Ata_Pio
  imports Ata_Sector
begin

unbundle bit_operations_syntax

text \<open>
  Reading and writing sectors by programmed input and output: what the host programs of the ATA standard get
  from the disk. The phases of a transfer are predicates of the state; each step of the host leads from one to the next.
\<close>

section \<open>Lines without case distinctions\<close>

definition irq_log :: "bool \<Rightarrow> ide_hdd \<Rightarrow> ata_line list" where "irq_log b s = ata_lines (set_irq b s)"
definition dasp_log :: "bool \<Rightarrow> ide_hdd \<Rightarrow> ata_line list" where "dasp_log b s = ata_lines (set_dasp b s)"
definition dmarq_log :: "bool \<Rightarrow> ide_hdd \<Rightarrow> ata_line list" where "dmarq_log b s = ata_lines (set_dmarq b s)"

lemma line_flat:
  "set_irq b s = s\<lparr>m_irq := b, ata_lines := irq_log b s\<rparr>" "set_dasp b s = s\<lparr>m_daspout := b, ata_lines := dasp_log b s\<rparr>"
  "set_dmarq b s = s\<lparr>m_dmarq := b, ata_lines := dmarq_log b s\<rparr>"
  by (simp_all add: irq_log_def dasp_log_def dmarq_log_def set_irq_def set_dasp_def set_dmarq_def update_irq_def line_out_def)

lemmas flat = line_flat status_set_def status_clear_def

section \<open>Times\<close>

definition time_left :: "nat \<Rightarrow> attotime \<Rightarrow> bool" where
  "time_left k t \<longleftrightarrow> wf_time t \<and> attos t + int k * 10 ^ 15 < 10 ^ 27"

lemma timer_set:
  assumes "time_left (Suc k) now" "wf_time d" "attos d < 10 ^ 15"
  shows "time_left k (m_expire (timer_adjust now d p q t))" "m_enabled (timer_adjust now d p q t)"
    "\<not> is_never (m_expire (timer_adjust now d p q t))" "m_param (timer_adjust now d p q t) = p"
proof -
  have d: "\<not> m_seconds d < 0" using assms(2) by (simp add: wf_time_def)
  have e: "m_expire (timer_adjust now d p q t) = attotime_add now d" using d by (simp add: timer_adjust_def Let_def)
  have b: "wf_time now" "attos now + attos d < 10 ^ 27" "attos now + attos d + int k * 10 ^ 15 < 10 ^ 27"
    using assms by (auto simp: time_left_def algebra_simps)
  have a: "wf_time (attotime_add now d)" "attos (attotime_add now d) = attos now + attos d"
    using attotime_add_exact(1) [OF b(1) assms(2)] b(2) by (simp_all add: atto_consts)
  then show "time_left k (m_expire (timer_adjust now d p q t))" using b(3) by (simp add: e time_left_def)
  show "\<not> is_never (m_expire (timer_adjust now d p q t))" using a(1) by (simp add: e wf_time_def is_never_def)
qed (simp_all add: timer_adjust_def)

lemma short_times: "wf_time TIME_BETWEEN_SECTORS" "attos TIME_BETWEEN_SECTORS < 10 ^ 15"
    "wf_time TIME_PER_SECTOR_WRITE" "attos TIME_PER_SECTOR_WRITE < 10 ^ 15"
  by (simp_all add: from_nsec_def from_usec_def tdiv_def wf_time_def attos_def atto_consts)

lemma seek_time_short:
  assumes "lba_address s < 2 ^ 28" "m_cur_lba s < 2 ^ 28" "m_num_cylinders s < 2 ^ 32"
  shows "wf_time (fst (seek_time s)) \<and> attos (fst (seek_time s)) < 4 * 10 ^ 24 \<and>
    (\<exists>x < 2 ^ 28. snd (seek_time s) = s\<lparr>m_cur_lba := x\<rparr>)"
proof -
  define spc where "spc = unat (m_num_heads s) * unat (m_num_sectors s)"
  define oc where "oc = m_cur_lba s div spc"
  define nc where "nc = lba_address s div spc"
  define diff where "diff = \<bar>to_s64 (int oc) - to_s64 (int nc)\<bar>"
  define cyl where "cyl = int (m_num_cylinders s)"
  show ?thesis
  proof (cases "spc = 0 \<or> cyl = 0")
    case True
    then show ?thesis using assms(2)
      by (auto simp: seek_time_def Let_def spc_def cyl_def attotime_zero_def wf_time_def attos_def atto_consts intro!: exI [of _ "m_cur_lba s"])
  next
    case False
    have b: "oc < 2 ^ 28" "nc < 2 ^ 28" using assms(1,2) by (auto simp: oc_def nc_def intro: le_less_trans [OF div_le_dividend])
    then have d: "diff = \<bar>int oc - int nc\<bar>" "0 \<le> diff" "diff < 2 ^ 28" by (auto simp: diff_def)
    then have u: "to_u32 diff = diff" by simp
    have c: "0 < cyl" "cyl < 4294967296" using False assms(3) by (auto simp: cyl_def)
    have e: "seek_time s = (if diff = 0 then TIME_BETWEEN_SECTORS
        else attotime_add (attotime_div (attotime_mul TIME_FULL_STROKE_SEEK diff) cyl) TIME_AVERAGE_ROTATIONAL_LATENCY,
        s\<lparr>m_cur_lba := lba_address s\<rparr>)"
      unfolding seek_time_def Let_def spc_def [symmetric] unfolding oc_def [symmetric] nc_def [symmetric] unfolding diff_def [symmetric]
      using False u by (simp add: cyl_def)
    have "wf_time (fst (seek_time s)) \<and> attos (fst (seek_time s)) < 4 * 10 ^ 24"
    proof (cases "diff = 0")
      case True
      then show ?thesis using short_times by (simp add: e)
    next
      case False
      have f: "wf_time TIME_FULL_STROKE_SEEK" "attos TIME_FULL_STROKE_SEEK = 13 * 10 ^ 15"
        "wf_time TIME_AVERAGE_ROTATIONAL_LATENCY" "attos TIME_AVERAGE_ROTATIONAL_LATENCY = 13 * 10 ^ 14"
        by (simp_all add: from_usec_def tdiv_def wf_time_def attos_def atto_consts)
      have m: "wf_time (attotime_mul TIME_FULL_STROKE_SEEK diff)" "attos (attotime_mul TIME_FULL_STROKE_SEEK diff) = 13 * 10 ^ 15 * diff"
        using attotime_mul_exact(1) [OF f(1), of diff] d False f(2) by (auto simp: atto_consts)
      define q where "q = attotime_div (attotime_mul TIME_FULL_STROKE_SEEK diff) cyl"
      have "13 * 10 ^ 15 * diff div cyl \<le> 13 * 10 ^ 15 * diff" using zdiv_mono2 [of "13 * 10 ^ 15 * diff" 1 cyl] c d(2) by simp
      then have q: "attos q \<le> 13 * 10 ^ 15 * diff + 1" "0 \<le> m_seconds q" "0 \<le> m_attoseconds q" "m_attoseconds q < ATTOSECONDS_PER_SECOND"
        using attotime_div_exact [OF m(1) c] m(2) by (auto simp: q_def)
      then have qw: "wf_time q" using d(3) by (simp add: wf_time_def attos_def atto_consts)
      have "wf_time (attotime_add q TIME_AVERAGE_ROTATIONAL_LATENCY) \<and>
          attos (attotime_add q TIME_AVERAGE_ROTATIONAL_LATENCY) = attos q + 13 * 10 ^ 14"
        using attotime_add_exact(1) [OF qw f(3)] q(1) d(3) f(4) by (simp add: atto_consts)
      then show ?thesis using False q(1) d(3) by (simp add: e q_def [symmetric])
    qed
    then show ?thesis using assms(1) by (simp add: e) blast
  qed
qed

section \<open>The phases of a transfer\<close>

text \<open>A disk that can transfer sectors: it is the master, has an image and no password, transfers words, no ultra DMA mode is
  set, and no event of an earlier ultra DMA transfer is pending. The disk is the one on the image.\<close>

definition hdd_disk :: "ide_hdd \<Rightarrow> hard_disk_file" where
  "hdd_disk s = the (m_hard_disk_handle (m_ide_image s))"

definition attached :: "ide_hdd \<Rightarrow> bool" where
  "attached s \<longleftrightarrow> m_csel s = 0 \<and> \<not> bit (m_device_head s) 4 \<and> \<not> m_dmack s \<and> \<not> m_8bit_data_transfers s \<and> length (m_buffer s) = 512 \<and>
     ultra_dma_mode s < 0 \<and> \<not> m_master_password_enable s \<and> \<not> m_user_password_enable s \<and> image_exists (m_ide_image s) \<and>
     m_file_open (m_ide_image s) \<and> m_hard_disk_handle (m_ide_image s) \<noteq> None \<and> disk_ok (hdd_disk s) \<and> m_num_cylinders s < 2 ^ 32 \<and>
     m_cur_lba s < 2 ^ 28 \<and> \<not> empty_pending s"

definition hdd_idle :: "ide_hdd \<Rightarrow> bool" where
  "hdd_idle s \<longleftrightarrow> attached s \<and> \<not> bit (m_status s) 7 \<and> \<not> bit (m_status s) 3"

text \<open>The command \<open>c\<close> has \<open>k\<close> sectors left, the next of them is \<open>a\<close>.\<close>

definition in_command :: "u8 \<Rightarrow> nat \<Rightarrow> nat \<Rightarrow> ide_hdd \<Rightarrow> bool" where
  "in_command c k a s \<longleftrightarrow> attached s \<and> bit (m_device_head s) 6 \<and> m_command s = c \<and> m_buffer_offset s = 0 \<and> m_buffer_size s = 512 \<and>
     \<not> bit (m_status s) 0 \<and> m_sectors_remaining s = k \<and> m_sectors_until_int s = 1 \<and> lba_address s = a"

definition data_phase :: "ide_hdd \<Rightarrow> bool" where
  "data_phase s \<longleftrightarrow> \<not> bit (m_status s) 7 \<and> bit (m_status s) 3"

definition busy_phase :: "nat \<Rightarrow> ide_hdd \<Rightarrow> bool" where
  "busy_phase j s \<longleftrightarrow> bit (m_status s) 7 \<and> \<not> bit (m_status s) 3 \<and> busy_pending s \<and> m_param (m_busy_timer s) = PARAM_COMMAND \<and>
     time_left j (m_expire (m_busy_timer s))"

lemma data_transferring: "in_command c k a s \<Longrightarrow> data_phase s \<Longrightarrow> transferring s"
  by (simp add: in_command_def data_phase_def attached_def transferring_def)

lemma lba_more: "lba_address (s\<lparr>m_status := x\<rparr>) = lba_address s" "lba_address (s\<lparr>m_irq := b\<rparr>) = lba_address s" "lba_address (s\<lparr>ata_lines := ls\<rparr>) = lba_address s"
  "lba_address (s\<lparr>m_daspout := b\<rparr>) = lba_address s" "lba_address (s\<lparr>m_dmarq := b\<rparr>) = lba_address s" "lba_address (s\<lparr>m_busy_timer := t\<rparr>) = lba_address s"
  "lba_address (s\<lparr>m_sectors_until_int := k\<rparr>) = lba_address s" "lba_address (s\<lparr>m_sectors_remaining := k\<rparr>) = lba_address s"
  "lba_address (s\<lparr>m_buffer := bs\<rparr>) = lba_address s" "lba_address (s\<lparr>m_buffer_offset := k\<rparr>) = lba_address s" "lba_address (s\<lparr>m_cur_lba := k\<rparr>) = lba_address s"
  "lba_address (s\<lparr>m_last_status_timer := t\<rparr>) = lba_address s" "lba_address (s\<lparr>m_ide_image := img\<rparr>) = lba_address s" "lba_address (s\<lparr>m_error := x\<rparr>) = lba_address s"
  "lba_address (s\<lparr>m_buffer_size := k\<rparr>) = lba_address s"
  by (simp_all add: lba_address_def is_lba48_def)

lemma lba_count:
  assumes "\<not> is_lba48 s" "bit (m_device_head s) 6"
  shows "lba_address (s\<lparr>m_sector_count := x\<rparr>) = lba_address s" "lba_address (s\<lparr>m_sector_count_hob := x\<rparr>) = lba_address s"
  using assms by (simp_all add: lba_address_def is_lba48_def)

lemma ultra_more [simp]: "ultra_dma_mode (s\<lparr>m_status := x\<rparr>) = ultra_dma_mode s" "ultra_dma_mode (s\<lparr>m_irq := b\<rparr>) = ultra_dma_mode s"
  "ultra_dma_mode (s\<lparr>ata_lines := ls\<rparr>) = ultra_dma_mode s" "ultra_dma_mode (s\<lparr>m_daspout := b\<rparr>) = ultra_dma_mode s"
  "ultra_dma_mode (s\<lparr>m_dmarq := b\<rparr>) = ultra_dma_mode s" "ultra_dma_mode (s\<lparr>m_busy_timer := t\<rparr>) = ultra_dma_mode s"
  "ultra_dma_mode (s\<lparr>m_sectors_until_int := k\<rparr>) = ultra_dma_mode s" "ultra_dma_mode (s\<lparr>m_sectors_remaining := k\<rparr>) = ultra_dma_mode s"
  "ultra_dma_mode (s\<lparr>m_buffer := bs\<rparr>) = ultra_dma_mode s" "ultra_dma_mode (s\<lparr>m_buffer_offset := k\<rparr>) = ultra_dma_mode s"
  "ultra_dma_mode (s\<lparr>m_cur_lba := k\<rparr>) = ultra_dma_mode s" "ultra_dma_mode (s\<lparr>m_last_status_timer := t\<rparr>) = ultra_dma_mode s"
  "ultra_dma_mode (s\<lparr>m_ide_image := img\<rparr>) = ultra_dma_mode s" "ultra_dma_mode (s\<lparr>m_error := x\<rparr>) = ultra_dma_mode s"
  "ultra_dma_mode (s\<lparr>m_sector_count := x\<rparr>) = ultra_dma_mode s" "ultra_dma_mode (s\<lparr>m_sector_count_hob := x\<rparr>) = ultra_dma_mode s"
  "ultra_dma_mode (next_sector s) = ultra_dma_mode s"
  by (simp_all add: ultra_dma_mode_def)

text \<open>The address of the next sector, for the last sector the same.\<close>

definition advanced :: "ide_hdd \<Rightarrow> ide_hdd" where
  "advanced s = (if m_sectors_remaining s \<noteq> 1 then next_sector s else s)"

lemma attached_advanced:
  assumes "attached s" "bit (m_device_head s) 6" "\<not> is_lba48 s" "lba_address s + m_sectors_remaining s \<le> 2 ^ 28" "0 < m_sectors_remaining s"
  shows "attached (advanced s)" "bit (m_device_head (advanced s)) 6"
    "lba_address (advanced s) = (if m_sectors_remaining s \<noteq> 1 then lba_address s + 1 else lba_address s)"
    "hdd_disk (advanced s) = hdd_disk s"
proof -
  have n: "lba_address s + 1 < 2 ^ 28" if "m_sectors_remaining s \<noteq> 1" using that assms(4,5) by simp
  note m = next_sector_lba [OF assms(2,3) n]
  show "attached (advanced s)" using assms(1) m n by (auto simp: advanced_def attached_def hdd_disk_def)
  show "bit (m_device_head (advanced s)) 6" "hdd_disk (advanced s) = hdd_disk s"
    "lba_address (advanced s) = (if m_sectors_remaining s \<noteq> 1 then lba_address s + 1 else lba_address s)"
    using assms(2) m by (simp_all add: advanced_def hdd_disk_def)
qed

lemma advanced_frame [simp]:
  "m_buffer (advanced s) = m_buffer s" "m_buffer_offset (advanced s) = m_buffer_offset s" "m_buffer_size (advanced s) = m_buffer_size s"
  "m_status (advanced s) = m_status s" "m_command (advanced s) = m_command s" "m_sectors_remaining (advanced s) = m_sectors_remaining s"
  "m_sectors_until_int (advanced s) = m_sectors_until_int s" "m_busy_timer (advanced s) = m_busy_timer s" "m_block_count (advanced s) = m_block_count s"
  by (simp_all add: advanced_def)

section \<open>Reading a sector\<close>

lemma hd_read_block:
  assumes "disk_ok h" "l \<in> disk_blocks h"
  shows "hd_read l h = (True, snd (hd_read l h))" "length (snd (hd_read l h)) = 512"
proof -
  have "fileoffset h + l * 512 + 512 \<le> length (fhandle h)" using assms(2) by (simp add: disk_blocks_def)
  then have "length (file_read (sector_pos l h) 512 (fhandle h)) = 512" using sector_pos_block [OF assms] by (simp add: file_read_def)
  then show "hd_read l h = (True, snd (hd_read l h))" "length (snd (hd_read l h)) = 512" using assms(1) by (simp_all add: hd_read_def disk_ok_def Let_def)
qed

lemma hdd_image_disk: "attached s \<Longrightarrow> image_disk (m_ide_image s) = Some (hdd_disk s)"
  by (auto simp: attached_def image_disk_def hdd_disk_def)

lemma read_sector_ok:
  assumes "attached s" "l \<in> disk_blocks (hdd_disk s)" "l < 2 ^ 28"
  shows "read_sector l s = (True, s\<lparr>m_buffer := snd (hd_read l (hdd_disk s))\<rparr>)"
proof -
  have d: "disk_ok (hdd_disk s)" "image_exists (m_ide_image s)" "length (m_buffer s) = 512" "l mod 2 ^ 32 = l"
    using assms(1,3) by (simp_all add: attached_def)
  then show ?thesis using hdd_image_disk [OF assms(1)] hd_read_block [OF d(1) assms(2)] by (simp add: read_sector_def case_prod_beta Let_def prod_eq_iff)
qed

lemma not_lba48: "m_command s = IDE_COMMAND_READ_SECTORS \<or> m_command s = IDE_COMMAND_WRITE_SECTORS \<Longrightarrow> \<not> is_lba48 s"
  by (auto simp: is_lba48_def)

lemma finished_read_step:
  fixes now :: attotime
  assumes "in_command IDE_COMMAND_READ_SECTORS k a s" "0 < k" "a + k \<le> 2 ^ 28" "a \<in> disk_blocks (hdd_disk s)"
  defines "s' \<equiv> finished_read now s"
  shows "in_command IDE_COMMAND_READ_SECTORS k (if k \<noteq> 1 then a + 1 else a) s'" "m_buffer s' = snd (hd_read a (hdd_disk s))"
    "hdd_disk s' = hdd_disk s" "m_status s' = m_status s OR IDE_STATUS_DRQ"
proof -
  define bs where "bs = snd (hd_read a (hdd_disk s))"
  define s2 where "s2 = (set_dasp False s)\<lparr>m_buffer := bs\<rparr>"
  note c = assms(1) [unfolded in_command_def]
  have a: "attached (set_dasp False s)" "hdd_disk (set_dasp False s) = hdd_disk s" using c by (simp_all add: attached_def hdd_disk_def line_flat)
  have l: "length bs = 512" using hd_read_block(2) [OF _ assms(4)] c by (simp add: bs_def attached_def)
  have r: "read_sector a (set_dasp False s) = (True, s2)"
    using read_sector_ok [OF a(1)] assms(2-4) a(2) by (simp add: s2_def bs_def)
  have s2: "attached s2" "bit (m_device_head s2) 6" "\<not> is_lba48 s2" "lba_address s2 = a" "m_sectors_remaining s2 = k" "m_command s2 = 0x20"
      "m_sectors_until_int s2 = 1" "hdd_disk s2 = hdd_disk s" "m_buffer_offset s2 = 0" "m_buffer_size s2 = 512" "m_status s2 = m_status s" "m_buffer s2 = bs"
    using c l by (simp_all add: s2_def line_flat attached_def hdd_disk_def lba_more is_lba48_def)
  define s3 where "s3 = advanced s2"
  have s3: "attached s3" "bit (m_device_head s3) 6" "lba_address s3 = (if k \<noteq> 1 then a + 1 else a)" "hdd_disk s3 = hdd_disk s"
    using attached_advanced [of s2] s2 assms(2,3) by (simp_all add: s3_def)
  have e: "s' = status_set IDE_STATUS_DRQ (set_irq True (s3\<lparr>m_sectors_until_int := 1\<rparr>))"
    using c r s2 assms(2) unfolding s'_def finished_read_def Let_def
    by (simp add: interrupt_due_def Let_def is_read_multiple_def is_verify_def s3_def advanced_def)
  show "m_buffer s' = snd (hd_read a (hdd_disk s))" "hdd_disk s' = hdd_disk s" "m_status s' = m_status s OR IDE_STATUS_DRQ"
    using s2 s3 by (simp_all add: e flat s3_def bs_def hdd_disk_def)
  have "attached s'" "lba_address s' = (if k \<noteq> 1 then a + 1 else a)" using s3 by (simp_all add: e flat attached_def hdd_disk_def lba_more)
  moreover have "\<not> bit (m_status s OR IDE_STATUS_DRQ) 0" using c by (simp add: bit_simps)
  ultimately show "in_command IDE_COMMAND_READ_SECTORS k (if k \<noteq> 1 then a + 1 else a) s'"
    using s2 s3(2) by (simp add: in_command_def e flat s3_def)
qed

text \<open>The host waits: the timer of the command fires.\<close>

lemma busy_fire_command:
  assumes "busy_phase j s"
  shows "\<exists>t. busy_fire s = finished_command (m_expire (m_busy_timer s)) (status_clear IDE_STATUS_BSY (s\<lparr>m_busy_timer := t\<rparr>))"
  using assms by (auto simp: busy_fire_def busy_tick_def finished_busy_def busy_phase_def Let_def)

lemma clear_BSY:
  fixes t :: emu_timer
  assumes "in_command c k a s" "busy_phase j s"
  defines "s1 \<equiv> status_clear IDE_STATUS_BSY (s\<lparr>m_busy_timer := t\<rparr>)"
  shows "in_command c k a s1" "hdd_disk s1 = hdd_disk s" "\<not> bit (m_status s1) 7" "\<not> bit (m_status s1) 3" "m_command s1 = c" "m_buffer s1 = m_buffer s"
  using assms(1,2) by (simp_all add: s1_def in_command_def attached_def status_clear_def lba_more hdd_disk_def busy_phase_def bit_simps)

lemma wait_read:
  assumes "in_command IDE_COMMAND_READ_SECTORS k a s" "busy_phase j s" "0 < k" "a + k \<le> 2 ^ 28" "a \<in> disk_blocks (hdd_disk s)"
  shows "\<exists>s'. port_wait hdd_port now s = (m_expire (m_busy_timer s), s') \<and> in_command IDE_COMMAND_READ_SECTORS k (if k \<noteq> 1 then a + 1 else a) s' \<and>
    data_phase s' \<and> m_buffer s' = snd (hd_read a (hdd_disk s)) \<and> hdd_disk s' = hdd_disk s"
proof -
  obtain t where t: "busy_fire s = finished_command (m_expire (m_busy_timer s)) (status_clear IDE_STATUS_BSY (s\<lparr>m_busy_timer := t\<rparr>))"
    using busy_fire_command [OF assms(2)] by blast
  define s1 where "s1 = status_clear IDE_STATUS_BSY (s\<lparr>m_busy_timer := t\<rparr>)"
  have s1: "in_command IDE_COMMAND_READ_SECTORS k a s1" "hdd_disk s1 = hdd_disk s" "\<not> bit (m_status s1) 7" "m_command s1 = 0x20"
    using clear_BSY [OF assms(1,2)] by (simp_all add: s1_def)
  have f: "busy_fire s = finished_read (m_expire (m_busy_timer s)) s1" using s1(4) by (simp add: t s1_def [symmetric] finished_command_def Let_def)
  note r = finished_read_step [OF s1(1) assms(3,4), unfolded s1(2), OF assms(5), of "m_expire (m_busy_timer s)"]
  have "data_phase (finished_read (m_expire (m_busy_timer s)) s1)" using r(4) s1(3) by (simp add: data_phase_def bit_simps)
  moreover have "port_wait hdd_port now s = (m_expire (m_busy_timer s), busy_fire s)"
    using assms(1,2) by (intro wait_busy) (simp_all add: in_command_def attached_def busy_phase_def)
  ultimately show ?thesis using r f by simp
qed

text \<open>The host reads the status, which clears the interrupt.\<close>

lemma read_status_step:
  assumes "attached s" "\<not> bit (m_status s) 7"
  shows "\<exists>v t b ls. port_in hdd_port now 7 s = Some (v, s\<lparr>m_irq := b, ata_lines := ls, m_last_status_timer := t\<rparr>) \<and> (\<forall>i < 8. i \<noteq> 1 \<longrightarrow> bit v i = bit (m_status s) i)"
proof -
  have sel: "device_selected s" "\<not> m_dmack s" using assms(1) selected [of s] by (auto simp: attached_def)
  have i: "\<forall>i < 8. i \<noteq> 1 \<longrightarrow> bit (m_status s OR IDE_STATUS_IDX) i = bit (m_status s) i" by (simp add: bit_simps less_8_cases)
  obtain st t where st: "calculate_status now s = (st, s\<lparr>m_last_status_timer := t\<rparr>)" "\<forall>i < 8. i \<noteq> 1 \<longrightarrow> bit st i = bit (m_status s) i"
  proof (cases "timer_elapsed now (m_last_status_timer s) > TIME_PER_ROTATION")
    case True
    show ?thesis
      by (rule that [of "m_status s OR IDE_STATUS_IDX" "timer_never now (m_last_status_timer s)"]) (use True i in \<open>simp_all add: calculate_status_def\<close>)
  next
    case False
    show ?thesis by (rule that [of "m_status s" "m_last_status_timer s"]) (use False in \<open>simp_all add: calculate_status_def\<close>)
  qed
  define v where "v = set_low st 0xffff"
  have m: "(0xff00 :: u16) = push_bit 8 (mask 8)" by (simp add: mask_eq_exp_minus_1)
  have "bit v i = bit st i" if "i < 8" for i using that unfolding v_def set_low_def m by (auto simp: bit_simps)
  then have v: "read_status now 0xffff s = (v, s\<lparr>m_last_status_timer := t\<rparr>)" "\<forall>i < 8. i \<noteq> 1 \<longrightarrow> bit v i = bit (m_status s) i"
    using st sel(1) by (simp_all add: read_status_def v_def)
  define s1 where "s1 = s\<lparr>m_last_status_timer := t\<rparr>"
  have "device_selected s1" using sel(1) by (simp add: s1_def device_selected_def dev_def)
  then have "command_r now False 7 0xffff s = (v, set_irq False s1)"
    using sel assms(2) v(1) by (simp add: command_r_def mask_bits s1_def)
  moreover have "set_irq False s1 = s\<lparr>m_irq := False, ata_lines := irq_log False s1, m_last_status_timer := t\<rparr>"
    by (simp add: line_flat s1_def)
  ultimately show ?thesis using v(2) by (auto simp: hdd_port_def)
qed

lemma status_update:
  assumes "s' = s\<lparr>m_irq := b, ata_lines := ls, m_last_status_timer := t\<rparr>"
  shows "in_command c k a s' = in_command c k a s" "data_phase s' = data_phase s" "hdd_idle s' = hdd_idle s" "m_buffer s' = m_buffer s" "hdd_disk s' = hdd_disk s"
    "busy_phase j s' = busy_phase j s" "attached s' = attached s" "m_status s' = m_status s" "m_busy_timer s' = m_busy_timer s"
  by (simp_all add: assms in_command_def attached_def data_phase_def hdd_disk_def lba_more hdd_idle_def busy_phase_def busy_pending_def)

text \<open>The buffer is empty: the next sector, or the end.\<close>

lemma buffer_empty_step:
  fixes now :: attotime
  assumes "in_command IDE_COMMAND_READ_SECTORS k a s" "data_phase s" "0 < k" "time_left (Suc j) now"
  defines "s' \<equiv> read_buffer_empty fill_buffer now s"
  shows "hdd_disk s' = hdd_disk s" "k = 1 \<Longrightarrow> hdd_idle s'"
    "k \<noteq> 1 \<Longrightarrow> in_command IDE_COMMAND_READ_SECTORS (k - 1) a s' \<and> busy_phase j s'"
proof -
  define s1 where "s1 = set_dmarq False (status_clear IDE_STATUS_DRQ (s\<lparr>m_buffer_offset := 0\<rparr>))"
  define s2 where "s2 = s1\<lparr>m_sectors_remaining := k - 1, m_sector_count := word_of_nat (k - 1), m_sector_count_hob := word_of_nat ((k - 1) div 2 ^ 8)\<rparr>"
  note c = assms(1) [unfolded in_command_def] and d = assms(2) [unfolded data_phase_def]
  have s1: "in_command IDE_COMMAND_READ_SECTORS k a s1" "\<not> bit (m_status s1) 7" "\<not> bit (m_status s1) 3" "hdd_disk s1 = hdd_disk s"
    using c d by (simp_all add: s1_def in_command_def attached_def hdd_disk_def flat lba_more bit_simps)
  have u: "\<not> ultra_dma_mode s1 \<ge> 0" using s1(1) by (simp add: in_command_def attached_def)
  have s2: "in_command IDE_COMMAND_READ_SECTORS (k - 1) a s2" "\<not> bit (m_status s2) 7" "\<not> bit (m_status s2) 3" "hdd_disk s2 = hdd_disk s"
    using s1 by (simp_all add: s2_def in_command_def attached_def hdd_disk_def lba_more lba_count not_lba48)
  have cs: "count_sector s1 = s2" using s1(1) assms(3) by (simp add: count_sector_def s2_def in_command_def Let_def)
  have cm: "m_command s1 = IDE_COMMAND_READ_SECTORS" "m_command s2 = IDE_COMMAND_READ_SECTORS" "m_sectors_remaining s2 = k - 1"
    using s1(1) s2(1) by (simp_all add: in_command_def)
  have f: "s' = (if k - 1 > 0 then start_busy now TIME_BETWEEN_SECTORS PARAM_COMMAND (set_dasp True (set_irq False s2)) else s2)"
    using u cm unfolding s'_def read_buffer_empty_def s1_def [symmetric] Let_def
    by (simp add: fill_buffer_def is_read_multiple_def fill_buffer_default_def cs Let_def line_flat)
  show "hdd_idle s'" if "k = 1" using that s2 by (simp add: f hdd_idle_def in_command_def)
  show "hdd_disk s' = hdd_disk s" using s2(4) by (simp add: f start_busy_def flat hdd_disk_def Let_def)
  show "in_command IDE_COMMAND_READ_SECTORS (k - 1) a s' \<and> busy_phase j s'" if "k \<noteq> 1"
  proof -
    define s3 where "s3 = set_dasp True (set_irq False s2)"
    have s3: "in_command IDE_COMMAND_READ_SECTORS (k - 1) a s3" "\<not> bit (m_status s3) 3"
      using s2 by (simp_all add: s3_def in_command_def attached_def hdd_disk_def flat lba_more)
    have e: "s' = s3\<lparr>m_status := m_status s3 OR IDE_STATUS_BSY, m_busy_timer := timer_adjust now TIME_BETWEEN_SECTORS PARAM_COMMAND attotime_never (m_busy_timer s3)\<rparr>"
      using that assms(3) by (simp add: f s3_def [symmetric] start_busy_def status_set_def Let_def)
    show ?thesis
      using s3 timer_set [OF assms(4) short_times(1,2)]
      by (simp add: e in_command_def attached_def hdd_disk_def lba_more busy_phase_def busy_pending_def bit_simps)
  qed
qed

section \<open>Writing a sector\<close>

lemma buffer_full_step:
  fixes now :: attotime
  assumes "in_command IDE_COMMAND_WRITE_SECTORS k a s" "data_phase s" "time_left (Suc j) now" "length bs = 512"
  defines "s' \<equiv> write_buffer_full now (s\<lparr>m_buffer := bs\<rparr>)"
  shows "in_command IDE_COMMAND_WRITE_SECTORS k a s'" "busy_phase j s'" "m_buffer s' = bs" "hdd_disk s' = hdd_disk s"
proof -
  define s1 where "s1 = set_dasp True (set_dmarq False (status_clear IDE_STATUS_DRQ (s\<lparr>m_buffer := bs, m_buffer_offset := 0\<rparr>)))"
  note c = assms(1) [unfolded in_command_def] and d = assms(2) [unfolded data_phase_def]
  have s1: "in_command IDE_COMMAND_WRITE_SECTORS k a s1" "\<not> bit (m_status s1) 7" "\<not> bit (m_status s1) 3" "hdd_disk s1 = hdd_disk s" "m_buffer s1 = bs"
    using c d assms(4) by (simp_all add: s1_def in_command_def attached_def hdd_disk_def flat lba_more bit_simps)
  have e: "s' = s1\<lparr>m_status := m_status s1 OR IDE_STATUS_BSY, m_busy_timer := timer_adjust now TIME_PER_SECTOR_WRITE PARAM_COMMAND attotime_never (m_busy_timer s1)\<rparr>"
    using c unfolding s'_def write_buffer_full_def process_buffer_def s1_def
    by (simp add: is_write_multiple_def start_busy_def status_set_def Let_def)
  show "in_command IDE_COMMAND_WRITE_SECTORS k a s'" "busy_phase j s'" "m_buffer s' = bs" "hdd_disk s' = hdd_disk s"
    using s1 timer_set [OF assms(3) short_times(3,4)]
    by (simp_all add: e in_command_def attached_def hdd_disk_def lba_more busy_phase_def busy_pending_def bit_simps)
qed

lemma write_sector_ok:
  assumes "attached s" "l \<in> disk_blocks (hdd_disk s)" "l < 2 ^ 28"
  defines "h1 \<equiv> snd (hd_write l (m_buffer s) (hdd_disk s))"
  shows "write_sector l s = (True, s\<lparr>m_ide_image := (m_ide_image s)\<lparr>m_hard_disk_handle := Some h1\<rparr>\<rparr>)" "disk_ok h1" "disk_blocks h1 = disk_blocks (hdd_disk s)"
proof -
  have d: "disk_ok (hdd_disk s)" "image_exists (m_ide_image s)" "length (m_buffer s) = 512" "l mod 2 ^ 32 = l"
    using assms(1,3) by (simp_all add: attached_def)
  show "disk_ok h1" "disk_blocks h1 = disk_blocks (hdd_disk s)" using disk.wr_inv [OF d(1) assms(2) d(3)] by (simp_all add: h1_def)
  have "hd_write l (m_buffer s) (hdd_disk s) = (True, h1)" using d(1) by (simp add: h1_def hd_write_def disk_ok_def)
  then show "write_sector l s = (True, s\<lparr>m_ide_image := (m_ide_image s)\<lparr>m_hard_disk_handle := Some h1\<rparr>\<rparr>)"
    using hdd_image_disk [OF assms(1)] d by (simp add: write_sector_def Let_def disk_ok_def)
qed

lemma finished_write_step:
  assumes "in_command IDE_COMMAND_WRITE_SECTORS k a s" "0 < k" "a + k \<le> 2 ^ 28" "a \<in> disk_blocks (hdd_disk s)"
    "\<not> bit (m_status s) 7" "\<not> bit (m_status s) 3"
  defines "s' \<equiv> finished_write s"
  shows "hdd_disk s' = snd (hd_write a (m_buffer s) (hdd_disk s))" "disk_blocks (hdd_disk s') = disk_blocks (hdd_disk s)" "k = 1 \<Longrightarrow> hdd_idle s'"
    "k \<noteq> 1 \<Longrightarrow> in_command IDE_COMMAND_WRITE_SECTORS (k - 1) (a + 1) s' \<and> data_phase s'" "attached s'" "\<not> bit (m_status s') 7" "\<not> bit (m_status s') 0"
proof -
  define h1 where "h1 = snd (hd_write a (m_buffer s) (hdd_disk s))"
  define s2 where "s2 = (set_dasp False s)\<lparr>m_ide_image := (m_ide_image s)\<lparr>m_hard_disk_handle := Some h1\<rparr>\<rparr>"
  note c = assms(1) [unfolded in_command_def]
  have a: "attached (set_dasp False s)" "hdd_disk (set_dasp False s) = hdd_disk s" "m_buffer (set_dasp False s) = m_buffer s" "m_ide_image (set_dasp False s) = m_ide_image s"
    using c by (simp_all add: attached_def hdd_disk_def line_flat)
  note w = write_sector_ok [OF a(1), unfolded a(2,3,4), OF assms(4), folded h1_def]
  have w1: "write_sector a (set_dasp False s) = (True, s2)" "disk_ok h1" "disk_blocks h1 = disk_blocks (hdd_disk s)"
    using w assms(2,3) by (simp_all add: s2_def)
  have s2: "attached s2" "bit (m_device_head s2) 6" "\<not> is_lba48 s2" "lba_address s2 = a" "m_sectors_remaining s2 = k" "m_command s2 = 0x30"
      "m_sectors_until_int s2 = 1" "hdd_disk s2 = h1" "m_buffer_offset s2 = 0" "m_buffer_size s2 = 512" "m_status s2 = m_status s"
    using c w1(2) by (simp_all add: s2_def line_flat attached_def hdd_disk_def lba_more is_lba48_def image_exists_def)
  define s3 where "s3 = advanced s2"
  have s3: "attached s3" "bit (m_device_head s3) 6" "lba_address s3 = (if k \<noteq> 1 then a + 1 else a)" "hdd_disk s3 = h1" "m_command s3 = 0x30"
      "m_sectors_remaining s3 = k" "m_status s3 = m_status s" "m_buffer_offset s3 = 0" "m_buffer_size s3 = 512"
    using attached_advanced [of s2] s2 assms(2,3) by (simp_all add: s3_def)
  define s4 where "s4 = (set_irq True (s3\<lparr>m_sectors_until_int := 1\<rparr>))\<lparr>m_sectors_remaining := k - 1, m_sector_count := word_of_nat (k - 1), m_sector_count_hob := word_of_nat ((k - 1) div 2 ^ 8)\<rparr>"
  have s4: "attached s4" "bit (m_device_head s4) 6" "lba_address s4 = (if k \<noteq> 1 then a + 1 else a)" "hdd_disk s4 = h1" "m_command s4 = 0x30" "m_sectors_remaining s4 = k - 1"
      "m_status s4 = m_status s" "m_buffer_offset s4 = 0" "m_buffer_size s4 = 512" "m_sectors_until_int s4 = 1"
    using s3 by (simp_all add: s4_def line_flat attached_def hdd_disk_def lba_more lba_count not_lba48)
  have i: "count_sector (interrupt_due (k = 1) False s3) = s4"
    using s2(7) s3(6) assms(2) by (simp add: interrupt_due_def count_sector_def s4_def Let_def line_flat s3_def)
  have e: "s' = (if k - 1 > 0 then status_set IDE_STATUS_DRQ s4 else s4)"
  proof (cases "k = 1")
    case True
    then show ?thesis using c w1(1) s2(5,6) s4(5,6) i unfolding s'_def finished_write_def Let_def
      by (simp add: is_write_multiple_def s3_def advanced_def)
  next
    case False
    then show ?thesis using c w1(1) s2(5,6) s4(5,6) i unfolding s'_def finished_write_def Let_def
      by (simp add: is_write_multiple_def s3_def advanced_def)
  qed
  show "hdd_disk s' = snd (hd_write a (m_buffer s) (hdd_disk s))" using s4(4) by (simp add: e status_set_def hdd_disk_def h1_def)
  then show "disk_blocks (hdd_disk s') = disk_blocks (hdd_disk s)" using w1(3) by (simp add: h1_def)
  show "hdd_idle s'" if "k = 1" using that s4 assms(5,6) by (simp add: e hdd_idle_def)
  show "in_command IDE_COMMAND_WRITE_SECTORS (k - 1) (a + 1) s' \<and> data_phase s'" if "k \<noteq> 1"
    using that s4 c assms(2,5) by (simp add: e in_command_def attached_def hdd_disk_def status_set_def lba_more data_phase_def bit_simps)
  show "attached s'" "\<not> bit (m_status s') 7" "\<not> bit (m_status s') 0" using c s4 assms(5) by (simp_all add: e attached_def hdd_disk_def status_set_def bit_simps)
qed

lemma wait_write:
  assumes "in_command IDE_COMMAND_WRITE_SECTORS k a s" "busy_phase j s" "0 < k" "a + k \<le> 2 ^ 28" "a \<in> disk_blocks (hdd_disk s)"
  shows "\<exists>s'. port_wait hdd_port now s = (m_expire (m_busy_timer s), s') \<and> hdd_disk s' = snd (hd_write a (m_buffer s) (hdd_disk s)) \<and>
    disk_blocks (hdd_disk s') = disk_blocks (hdd_disk s) \<and> (k = 1 \<longrightarrow> hdd_idle s') \<and>
    (k \<noteq> 1 \<longrightarrow> in_command IDE_COMMAND_WRITE_SECTORS (k - 1) (a + 1) s' \<and> data_phase s') \<and> attached s' \<and> \<not> bit (m_status s') 7 \<and> \<not> bit (m_status s') 0"
proof -
  obtain t where t: "busy_fire s = finished_command (m_expire (m_busy_timer s)) (status_clear IDE_STATUS_BSY (s\<lparr>m_busy_timer := t\<rparr>))"
    using busy_fire_command [OF assms(2)] by blast
  define s1 where "s1 = status_clear IDE_STATUS_BSY (s\<lparr>m_busy_timer := t\<rparr>)"
  have s1: "in_command IDE_COMMAND_WRITE_SECTORS k a s1" "hdd_disk s1 = hdd_disk s" "\<not> bit (m_status s1) 7" "\<not> bit (m_status s1) 3" "m_command s1 = 0x30" "m_buffer s1 = m_buffer s"
    using clear_BSY [OF assms(1,2)] by (simp_all add: s1_def)
  have f: "busy_fire s = finished_write s1" using s1(5) by (simp add: t s1_def [symmetric] finished_command_def Let_def)
  note r = finished_write_step [OF s1(1) assms(3,4), unfolded s1(2), OF assms(5) s1(3,4), unfolded s1(6)]
  have "port_wait hdd_port now s = (m_expire (m_busy_timer s), busy_fire s)"
    using assms(1,2) by (intro wait_busy) (simp_all add: in_command_def attached_def busy_phase_def)
  then show ?thesis using r f by simp
qed

end
