(* ===== verification/Ata_Block.thy ===== *)
theory Ata_Block
  imports Ata_Pio
begin

unbundle bit_operations_syntax

text \<open>
  The disk as a store of sectors: the programs with which a host reads and writes sectors by programmed input and output, and
  the theorem that they refine a memory of blocks.
\<close>

section \<open>The programs of the host\<close>

text \<open>The address of a sector in the registers of a 28 bit access, and the number of sectors, 0 for 256.\<close>

definition lba_registers :: "nat \<Rightarrow> nat \<Rightarrow> pio list" where
  "lba_registers l n =
     [Out 6 (word_of_nat (0xe0 + l div 2 ^ 24)), Out 2 (word_of_nat n), Out 3 (word_of_nat (l mod 2 ^ 8)),
      Out 4 (word_of_nat (l div 2 ^ 8 mod 2 ^ 8)), Out 5 (word_of_nat (l div 2 ^ 16 mod 2 ^ 8))]"

definition read_sector_program :: "pio list" where
  "read_sector_program = [Wait, In 7] @ replicate 256 (In 0)"

definition read_program :: "nat \<Rightarrow> nat \<Rightarrow> pio list" where
  "read_program l n = lba_registers l n @ [Out 7 0x20] @ concat (replicate n read_sector_program)"

definition write_sector_program :: "u8 list \<Rightarrow> pio list" where
  "write_sector_program bs = map (Out 0) (words_of bs) @ [Wait, In 7]"

definition write_program :: "nat \<Rightarrow> u8 list list \<Rightarrow> pio list" where
  "write_program l bss = lba_registers l (length bss) @ [Out 7 0x30] @ concat (map write_sector_program bss)"

text \<open>The words read from the data register, and the status values.\<close>

definition data_words :: "(nat \<times> u16) list \<Rightarrow> u16 list" where
  "data_words res = map snd (filter (\<lambda>(a, v). a = 0) res)"

definition status_good :: "(nat \<times> u16) list \<Rightarrow> bool" where
  "status_good res \<longleftrightarrow> (\<forall>(a, v) \<in> set res. a = 7 \<longrightarrow> \<not> bit v 0 \<and> \<not> bit v 7)"

lemma data_words_append [simp]: "data_words (xs @ ys) = data_words xs @ data_words ys" "status_good (xs @ ys) = (status_good xs \<and> status_good ys)"
  by (auto simp: data_words_def status_good_def)

lemma data_words_pair [simp]: "data_words (map (Pair 0) ws) = ws" "status_good (map (Pair 0) ws)" "data_words [] = []" "status_good []" "data_words [(7, v)] = []"
  by (induction ws) (auto simp: data_words_def status_good_def)

section \<open>A command\<close>

definition host_time :: "attotime \<Rightarrow> bool" where
  "host_time t \<longleftrightarrow> wf_time t \<and> m_seconds t < 990000000"

lemma lba_head:
  assumes "h < 16"
  shows "bit (word_of_nat (0xe0 + h) :: u8) 6" "\<not> bit (word_of_nat (0xe0 + h) :: u8) 4" "unat (word_of_nat (0xe0 + h) AND 0x0f :: u8) = h"
    "\<not> bit (word_of_nat (0xe0 + h) :: u16) 4" "(ucast (word_of_nat (0xe0 + h) :: u16) :: u8) = word_of_nat (0xe0 + h)"
proof -
  have "h = 0 \<or> h = 1 \<or> h = 2 \<or> h = 3 \<or> h = 4 \<or> h = 5 \<or> h = 6 \<or> h = 7 \<or> h = 8 \<or> h = 9 \<or> h = 10 \<or> h = 11 \<or> h = 12 \<or> h = 13 \<or> h = 14 \<or> h = 15"
    using assms by presburger
  then show "bit (word_of_nat (0xe0 + h) :: u8) 6" "\<not> bit (word_of_nat (0xe0 + h) :: u8) 4" "unat (word_of_nat (0xe0 + h) AND 0x0f :: u8) = h"
    "\<not> bit (word_of_nat (0xe0 + h) :: u16) 4" "(ucast (word_of_nat (0xe0 + h) :: u16) :: u8) = word_of_nat (0xe0 + h)"
    by (auto simp: bit_numeral_rec)
qed

lemma ucast_byte: "(ucast (word_of_nat n :: u16) :: u8) = word_of_nat n"
  by (rule bit_word_eqI) (simp add: bit_simps)

lemma lba_bytes: "l div 2 ^ 24 * 2 ^ 24 + l div 2 ^ 16 mod 2 ^ 8 * 2 ^ 16 + l div 2 ^ 8 mod 2 ^ 8 * 2 ^ 8 + l mod 2 ^ 8 = (l :: nat)"
proof -
  have d: "l div 65536 = l div 256 div 256" "l div 16777216 = l div 256 div 256 div 256" by (simp_all add: div_mult2_eq [symmetric])
  have "l = l div 256 * 256 + l mod 256" "l div 256 = l div 256 div 256 * 256 + l div 256 mod 256"
    "l div 256 div 256 = l div 256 div 256 div 256 * 256 + l div 256 div 256 mod 256" by (simp_all only: div_mult_mod_eq)
  then have "l div 256 div 256 div 256 * 16777216 + l div 256 div 256 mod 256 * 65536 + l div 256 mod 256 * 256 + l mod 256 = l" by linarith
  then show ?thesis by (simp add: d)
qed

text \<open>Registers of an idle disk.\<close>

lemma register_w:
  assumes "hdd_idle s"
  shows "command_w now 2 d s = s\<lparr>m_sector_count_hob := m_sector_count s, m_sector_count := ucast d\<rparr>"
    "command_w now 3 d s = s\<lparr>m_sector_number_hob := m_sector_number s, m_sector_number := ucast d\<rparr>"
    "command_w now 4 d s = s\<lparr>m_cylinder_low_hob := m_cylinder_low s, m_cylinder_low := ucast d\<rparr>"
    "command_w now 5 d s = s\<lparr>m_cylinder_high_hob := m_cylinder_high s, m_cylinder_high := ucast d\<rparr>"
  using assms by (simp_all add: command_w_def hdd_idle_def attached_def Let_def mask_bits)

lemma register_head_w:
  assumes "hdd_idle s" "\<not> bit d 4"
  shows "command_w now 6 d s = s\<lparr>m_device_head := ucast d\<rparr>"
proof -
  have m: "(ucast IDE_DEVICE_HEAD_DRV :: u16) = 2 ^ 4" by simp
  have "(ucast (m_device_head s) XOR d) AND ucast IDE_DEVICE_HEAD_DRV = 0"
    unfolding m and_exp_eq_0_iff_not_bit using assms by (simp add: hdd_idle_def attached_def bit_simps)
  then show ?thesis using assms(1) by (simp add: command_w_def hdd_idle_def attached_def Let_def mask_bits)
qed

definition addressed :: "nat \<Rightarrow> nat \<Rightarrow> ide_hdd \<Rightarrow> bool" where
  "addressed l n s \<longleftrightarrow> bit (m_device_head s) 6 \<and> m_sector_count s = word_of_nat n \<and>
     unat (m_device_head s AND 0x0f) * 2 ^ 24 + unat (m_cylinder_high s) * 2 ^ 16 + unat (m_cylinder_low s) * 2 ^ 8 + unat (m_sector_number s) = l"

lemma run_registers:
  assumes "hdd_idle s" "l < 2 ^ 28"
  shows "\<exists>s'. pio_run hdd_port now (lba_registers l n) s = Some ([], now, s') \<and> hdd_idle s' \<and> addressed l n s' \<and> hdd_disk s' = hdd_disk s"
proof -
  define h where "h = l div 2 ^ 24"
  have h: "h < 16" using assms(2) by (simp add: h_def less_mult_imp_div_less)
  note lh = lba_head [OF h]
  define s1 where "s1 = s\<lparr>m_device_head := word_of_nat (0xe0 + h)\<rparr>"
  have s1: "command_w now 6 (word_of_nat (0xe0 + h)) s = s1" "hdd_idle s1" "hdd_disk s1 = hdd_disk s" "bit (m_device_head s1) 6" "unat (m_device_head s1 AND 0x0f) = h"
    using register_head_w [OF assms(1) lh(4)] lh assms(1) by (simp_all add: s1_def hdd_idle_def attached_def hdd_disk_def ultra_dma_mode_def)
  define s2 where "s2 = s1\<lparr>m_sector_count_hob := m_sector_count s1, m_sector_count := word_of_nat n\<rparr>"
  have s2: "command_w now 2 (word_of_nat n) s1 = s2" "hdd_idle s2" "hdd_disk s2 = hdd_disk s" "m_device_head s2 = m_device_head s1" "m_sector_count s2 = word_of_nat n"
    using register_w(1) [OF s1(2)] s1 by (simp_all add: s2_def ucast_byte hdd_idle_def attached_def hdd_disk_def ultra_dma_mode_def)
  define s3 where "s3 = s2\<lparr>m_sector_number_hob := m_sector_number s2, m_sector_number := word_of_nat (l mod 2 ^ 8)\<rparr>"
  have s3: "command_w now 3 (word_of_nat (l mod 2 ^ 8)) s2 = s3" "hdd_idle s3" "hdd_disk s3 = hdd_disk s" "m_device_head s3 = m_device_head s1"
      "m_sector_count s3 = word_of_nat n" "unat (m_sector_number s3) = l mod 2 ^ 8"
    using register_w(2) [OF s2(2)] s2 by (simp_all add: s3_def ucast_byte hdd_idle_def attached_def hdd_disk_def ultra_dma_mode_def unat_of_nat)
  define s4 where "s4 = s3\<lparr>m_cylinder_low_hob := m_cylinder_low s3, m_cylinder_low := word_of_nat (l div 2 ^ 8 mod 2 ^ 8)\<rparr>"
  have s4: "command_w now 4 (word_of_nat (l div 2 ^ 8 mod 2 ^ 8)) s3 = s4" "hdd_idle s4" "hdd_disk s4 = hdd_disk s" "m_device_head s4 = m_device_head s1"
      "m_sector_count s4 = word_of_nat n" "unat (m_sector_number s4) = l mod 2 ^ 8" "unat (m_cylinder_low s4) = l div 2 ^ 8 mod 2 ^ 8"
    using register_w(3) [OF s3(2)] s3 by (simp_all add: s4_def ucast_byte hdd_idle_def attached_def hdd_disk_def ultra_dma_mode_def unat_of_nat)
  define s5 where "s5 = s4\<lparr>m_cylinder_high_hob := m_cylinder_high s4, m_cylinder_high := word_of_nat (l div 2 ^ 16 mod 2 ^ 8)\<rparr>"
  have s5: "command_w now 5 (word_of_nat (l div 2 ^ 16 mod 2 ^ 8)) s4 = s5" "hdd_idle s5" "hdd_disk s5 = hdd_disk s" "m_device_head s5 = m_device_head s1"
      "m_sector_count s5 = word_of_nat n" "unat (m_sector_number s5) = l mod 2 ^ 8" "unat (m_cylinder_low s5) = l div 2 ^ 8 mod 2 ^ 8"
      "unat (m_cylinder_high s5) = l div 2 ^ 16 mod 2 ^ 8"
    using register_w(4) [OF s4(2)] s4 by (simp_all add: s5_def ucast_byte hdd_idle_def attached_def hdd_disk_def ultra_dma_mode_def unat_of_nat)
  have "addressed l n s5" using s5 s1 lba_bytes [of l] by (simp only: addressed_def h_def simp_thms)
  moreover have "pio_run hdd_port now (lba_registers l n) s = Some ([], now, s5)"
    using s1(1) s2(1) s3(1) s4(1) s5(1) by (simp only: lba_registers_def h_def [symmetric] pio_run.simps hdd_port_def ata_port.simps Option.bind.simps)
  ultimately show ?thesis using s5 by blast
qed

lemma sector_count_register:
  assumes "0 < n" "n \<le> 256"
  shows "(if (word_of_nat n :: u8) \<noteq> 0 then unat (word_of_nat n :: u8) else 0x100) = n"
proof (cases "n = 256")
  case False
  then have "unat (word_of_nat n :: u8) = n" using assms by (simp add: unat_of_nat)
  then show ?thesis using assms(1) by auto
qed simp

text \<open>The state in which a command starts.\<close>

definition issued :: "u8 \<Rightarrow> nat \<Rightarrow> ide_hdd \<Rightarrow> ide_hdd" where
  "issued c n s = (set_dasp False (set_irq False ((status_clear IDE_STATUS_ERR (s\<lparr>m_command := c, m_buffer_offset := 0\<rparr>))\<lparr>m_error := IDE_ERROR_NONE\<rparr>)))
     \<lparr>m_sectors_until_int := 1, m_buffer_size := 512, m_sectors_remaining := n\<rparr>"

lemma issued_command:
  assumes "hdd_idle s" "addressed l n s" "0 < n" "n \<le> 256" "c = IDE_COMMAND_READ_SECTORS \<or> c = IDE_COMMAND_WRITE_SECTORS"
  shows "in_command c n l (issued c n s)" "\<not> bit (m_status (issued c n s)) 7" "\<not> bit (m_status (issued c n s)) 3" "hdd_disk (issued c n s) = hdd_disk s"
    "command_w now 7 (ucast c) s = (if c = IDE_COMMAND_READ_SECTORS then read_first_sector now (issued c n s) else status_set IDE_STATUS_DRQ (issued c n s))"
proof -
  let ?s = "issued c n s"
  note i = assms(1) [unfolded hdd_idle_def attached_def] and d = assms(2) [unfolded addressed_def]
  have f: "m_device_head ?s = m_device_head s" "m_sector_number ?s = m_sector_number s" "m_cylinder_low ?s = m_cylinder_low s"
    "m_cylinder_high ?s = m_cylinder_high s" "m_sector_count ?s = m_sector_count s" "m_command ?s = c" by (simp_all add: issued_def flat)
  have n48: "\<not> is_lba48 ?s" using assms(5) f(6) by (intro not_lba48) auto
  have l: "lba_address ?s = l" using lba28 [OF _ n48] d f by simp
  show st: "\<not> bit (m_status ?s) 7" "\<not> bit (m_status ?s) 3" using i by (simp_all add: issued_def flat bit_simps)
  show "hdd_disk ?s = hdd_disk s" by (simp add: issued_def flat hdd_disk_def)
  have "attached ?s" using assms(1) by (simp add: issued_def flat hdd_idle_def attached_def hdd_disk_def ultra_dma_mode_def)
  then show "in_command c n l ?s"
    using d l by (simp add: in_command_def f) (simp add: issued_def flat bit_simps)
  define s1 where "s1 = set_dasp False (set_irq False ((status_clear IDE_STATUS_ERR (s\<lparr>m_command := c, m_buffer_offset := 0\<rparr>))\<lparr>m_error := IDE_ERROR_NONE\<rparr>))"
  have u: "(ucast (ucast c :: u16) :: u8) = c" by (rule bit_word_eqI) (auto simp: bit_simps)
  have w: "command_w now 7 (ucast c) s = process_command now s1"
    using i selected [of s] by (simp add: command_w_def Let_def mask_bits s1_def u)
  have s1: "m_command s1 = c" "\<not> is_lba48 s1" "m_sector_count s1 = m_sector_count s" using assms(5) by (auto simp: s1_def flat is_lba48_def)
  define s2 where "s2 = s1\<lparr>m_sectors_until_int := 0, m_buffer_size := 512\<rparr>"
  have s2: "\<not> is_lba48 s2" "m_sector_count s2 = m_sector_count s" "m_command s2 = c" using s1 by (simp_all add: s2_def is_lba48_def)
  then have "sectors_remaining s2 = (if (word_of_nat n :: u8) \<noteq> 0 then unat (word_of_nat n :: u8) else 0x100)"
    using d by (simp add: sectors_remaining_def)
  then have r: "sectors_remaining s2 = n" using sector_count_register [OF assms(3,4)] by (rule trans)
  have e: "s2\<lparr>m_sectors_remaining := n, m_sectors_until_int := 1\<rparr> = ?s" by (simp add: s2_def s1_def issued_def)
  have "process_command now s1 = (if c = IDE_COMMAND_READ_SECTORS then read_first_sector now (s2\<lparr>m_sectors_remaining := n, m_sectors_until_int := 1\<rparr>)
      else status_set IDE_STATUS_DRQ (s2\<lparr>m_sectors_remaining := n, m_sectors_until_int := 1\<rparr>))"
    using assms(5)
  proof (elim disjE)
    assume c: "c = IDE_COMMAND_READ_SECTORS"
    then show ?thesis using s1(2) s2(3) unfolding process_command_def Let_def s2_def [symmetric] r by simp
  next
    assume c: "c = IDE_COMMAND_WRITE_SECTORS"
    then show ?thesis using s1(2) s2(3) unfolding process_command_def Let_def s2_def [symmetric] r by (simp add: is_verify_def)
  qed
  then show "command_w now 7 (ucast c) s = (if c = IDE_COMMAND_READ_SECTORS then read_first_sector now ?s else status_set IDE_STATUS_DRQ ?s)"
    using w e by simp
qed

section \<open>Reading\<close>

lemma issue_read:
  assumes "hdd_idle s" "addressed l n s" "0 < n" "n \<le> 256" "l < 2 ^ 28" "host_time now"
  shows "\<exists>s'. command_w now 7 0x20 s = s' \<and> in_command IDE_COMMAND_READ_SECTORS n l s' \<and> busy_phase n s' \<and> hdd_disk s' = hdd_disk s"
proof -
  define s1 where "s1 = set_dasp True (issued 0x20 n s)"
  note i = issued_command [OF assms(1-4), where c = "0x20", simplified]
  have s1: "in_command IDE_COMMAND_READ_SECTORS n l s1" "\<not> bit (m_status s1) 3" "hdd_disk s1 = hdd_disk s" "attached s1"
    using i by (simp_all add: s1_def in_command_def attached_def hdd_disk_def lba_more line_flat)
  have f: "\<not> m_master_password_enable (issued 0x20 n s)" "\<not> m_user_password_enable (issued 0x20 n s)" "m_command s1 = 0x20" "lba_address s1 = l"
    "m_cur_lba s1 < 2 ^ 28" "m_num_cylinders s1 < 2 ^ 32"
    using i(1) s1(1,4) by (simp_all add: in_command_def attached_def)
  obtain x where x: "x < 2 ^ 28" "snd (seek_time s1) = s1\<lparr>m_cur_lba := x\<rparr>" "wf_time (fst (seek_time s1))" "attos (fst (seek_time s1)) < 4 * 10 ^ 24"
    using seek_time_short [of s1] f assms(5) by auto
  define t where "t = fst (seek_time s1)"
  define s2 where "s2 = s1\<lparr>m_cur_lba := x\<rparr>"
  have s2: "in_command IDE_COMMAND_READ_SECTORS n l s2" "\<not> bit (m_status s2) 3" "hdd_disk s2 = hdd_disk s"
    using s1 x(1) by (simp_all add: s2_def in_command_def attached_def hdd_disk_def lba_more)
  have r: "command_w now 7 0x20 s = start_busy now t PARAM_COMMAND s2"
    using i(5) [of now] f x(2) by (simp add: read_first_sector_def Let_def case_prod_beta s1_def t_def s2_def)
  have w: "wf_time now" "attos now < 99 * 10 ^ 25" using assms(6) by (auto simp: host_time_def wf_time_def attos_def atto_consts)
  have a: "wf_time (attotime_add now t)" "attos (attotime_add now t) = attos now + attos t"
    using attotime_add_exact(1) [OF w(1) x(3)] w(2) x(4) by (simp_all add: t_def atto_consts)
  have "\<not> m_seconds t < 0" using x(3) by (simp add: t_def wf_time_def)
  then have e: "m_expire (timer_adjust now t p q tm) = attotime_add now t" for p q tm by (simp add: timer_adjust_def Let_def)
  have "time_left n (attotime_add now t)" using a w(2) x(4) assms(4) by (simp add: time_left_def t_def)
  moreover have "\<not> is_never (attotime_add now t)" using a(1) by (simp add: wf_time_def is_never_def)
  ultimately have "in_command IDE_COMMAND_READ_SECTORS n l (start_busy now t PARAM_COMMAND s2) \<and> busy_phase n (start_busy now t PARAM_COMMAND s2)
      \<and> hdd_disk (start_busy now t PARAM_COMMAND s2) = hdd_disk s"
    using s2 by (simp add: start_busy_def status_set_def Let_def in_command_def attached_def hdd_disk_def lba_more busy_phase_def busy_pending_def
      bit_simps e) (simp add: timer_adjust_def)
  then show ?thesis by (simp add: r)
qed

lemma read_loop:
  assumes "in_command IDE_COMMAND_READ_SECTORS k a s" "busy_phase k s" "0 < k" "a + k \<le> 2 ^ 28" "{a..<a + k} \<subseteq> disk_blocks (hdd_disk s)"
  shows "\<exists>res now1 s'. pio_run hdd_port now (concat (replicate k read_sector_program)) s = Some (res, now1, s') \<and>
    data_words res = concat (map (\<lambda>i. words_of (snd (hd_read i (hdd_disk s)))) [a..<a + k]) \<and> status_good res \<and> hdd_idle s' \<and> hdd_disk s' = hdd_disk s"
  using assms
proof (induction k arbitrary: a s now)
  case (Suc k)
  define h where "h = hdd_disk s"
  define t where "t = m_expire (m_busy_timer s)"
  have b: "a \<in> disk_blocks (hdd_disk s)" using Suc.prems(5) by auto
  obtain s1 where s1: "port_wait hdd_port now s = (t, s1)" "in_command IDE_COMMAND_READ_SECTORS (Suc k) (if Suc k \<noteq> 1 then a + 1 else a) s1"
      "data_phase s1" "m_buffer s1 = snd (hd_read a h)" "hdd_disk s1 = h"
    using wait_read [OF Suc.prems(1-4) b] by (auto simp: t_def h_def)
  have at: "attached s1" "\<not> bit (m_status s1) 7" "\<not> bit (m_status s1) 0" using s1(2,3) by (auto simp: in_command_def data_phase_def)
  obtain v u x ls where v: "port_in hdd_port t 7 s1 = Some (v, s1\<lparr>m_irq := x, ata_lines := ls, m_last_status_timer := u\<rparr>)"
      "\<forall>i<8. i \<noteq> 1 \<longrightarrow> bit v i = bit (m_status s1) i"
    using read_status_step [OF at(1,2)] by blast
  define s2 where "s2 = s1\<lparr>m_irq := x, ata_lines := ls, m_last_status_timer := u\<rparr>"
  note e2 = status_update [OF s2_def]
  have s2: "in_command IDE_COMMAND_READ_SECTORS (Suc k) (if Suc k \<noteq> 1 then a + 1 else a) s2" "data_phase s2" "m_buffer s2 = snd (hd_read a h)" "hdd_disk s2 = h"
    using s1 e2 by simp_all
  have o: "transferring s2" "m_buffer_offset s2 + 2 * 256 = 512" "m_buffer_offset s2 = 0"
    using data_transferring [OF s2(1,2)] s2(1) by (simp_all add: in_command_def)
  have tl: "time_left (Suc k) t" using Suc.prems(2) by (simp add: busy_phase_def t_def)
  define s3 where "s3 = read_buffer_empty fill_buffer t s2"
  note s3 = buffer_empty_step [OF s2(1,2) zero_less_Suc tl, folded s3_def]
  have p: "pio_run hdd_port now read_sector_program s = Some ((7, v) # map (Pair 0) (words_of (snd (hd_read a h))), t, s3)"
    using data_in [OF o(1,2), of t] s1(1) v(1) o(3) s2(3) by (simp add: read_sector_program_def s2_def s3_def)
  have g: "status_good ((7, v) # map (Pair 0) (words_of (snd (hd_read a h))))" "data_words ((7, v) # map (Pair 0) (words_of (snd (hd_read a h)))) = words_of (snd (hd_read a h))"
    using v(2) at data_words_append [of "[(7, v)]" "map (Pair 0) (words_of (snd (hd_read a h)))"] by (simp_all add: status_good_def)
  show ?case
  proof (cases "k = 0")
    case True
    then show ?thesis using p g s3 s2(4) by (simp add: h_def)
  next
    case False
    then have n: "in_command IDE_COMMAND_READ_SECTORS k (a + 1) s3" "busy_phase k s3" "hdd_disk s3 = h" using s3 s2(4) by simp_all
    have r: "a + 1 + k \<le> 2 ^ 28" "{a + 1..<a + 1 + k} \<subseteq> disk_blocks (hdd_disk s3)" using Suc.prems(4,5) n(3) by (auto simp: h_def)
    obtain res now1 s' where s': "pio_run hdd_port t (concat (replicate k read_sector_program)) s3 = Some (res, now1, s')"
        "data_words res = concat (map (\<lambda>i. words_of (snd (hd_read i h))) [a + 1..<a + 1 + k])" "status_good res" "hdd_idle s'" "hdd_disk s' = h"
      using Suc.IH [OF n(1,2) _ r, of t] False unfolding n(3) by blast
    have "[a..<a + Suc k] = a # [a + 1..<a + 1 + k]" by (simp add: upt_rec)
    then have d: "concat (map (\<lambda>i. words_of (snd (hd_read i h))) [a..<a + Suc k]) = words_of (snd (hd_read a h)) @ data_words res" using s'(2) by simp
    have "pio_run hdd_port now (concat (replicate (Suc k) read_sector_program)) s =
        Some (((7, v) # map (Pair 0) (words_of (snd (hd_read a h)))) @ res, now1, s')"
      using pio_run_seq [OF p s'(1)] by simp
    then show ?thesis
      using g s' d unfolding h_def [symmetric] by (intro exI conjI) (assumption | simp only: data_words_append simp_thms)+
  qed
qed simp

section \<open>Writing\<close>

definition write_blocks :: "nat \<Rightarrow> u8 list list \<Rightarrow> hard_disk_file \<Rightarrow> hard_disk_file" where
  "write_blocks a bss h = fold (\<lambda>(i, bs). snd \<circ> hd_write i bs) (zip [a..<a + length bss] bss) h"

lemma write_blocks_Cons: "write_blocks a (bs # bss) h = write_blocks (a + 1) bss (snd (hd_write a bs h))"
proof -
  have "[a..<a + length (bs # bss)] = a # [a + 1..<a + 1 + length bss]" by (simp add: upt_rec)
  then show ?thesis by (simp only: write_blocks_def zip_Cons_Cons fold_Cons) simp
qed

lemma issue_write:
  assumes "hdd_idle s" "addressed l n s" "0 < n" "n \<le> 256"
  shows "\<exists>s'. command_w now 7 0x30 s = s' \<and> in_command IDE_COMMAND_WRITE_SECTORS n l s' \<and> data_phase s' \<and> hdd_disk s' = hdd_disk s"
  using issued_command [OF assms, where c = "0x30"]
  by (simp add: status_set_def in_command_def attached_def hdd_disk_def lba_more data_phase_def bit_simps)

lemma write_loop:
  assumes "in_command IDE_COMMAND_WRITE_SECTORS (length bss) a s" "data_phase s" "bss \<noteq> []" "a + length bss \<le> 2 ^ 28"
    "{a..<a + length bss} \<subseteq> disk_blocks (hdd_disk s)" "\<forall>bs \<in> set bss. length bs = 512" "time_left (length bss) now"
  shows "\<exists>res now1 s'. pio_run hdd_port now (concat (map write_sector_program bss)) s = Some (res, now1, s') \<and>
    data_words res = [] \<and> status_good res \<and> hdd_idle s' \<and> hdd_disk s' = write_blocks a bss (hdd_disk s)"
  using assms
proof (induction bss arbitrary: a s now)
  case (Cons bs bss)
  define h where "h = hdd_disk s"
  let ?k = "Suc (length bss)"
  have c: "in_command IDE_COMMAND_WRITE_SECTORS ?k a s" "length bs = 512" "time_left ?k now" using Cons.prems by simp_all
  have b: "a \<in> disk_blocks (hdd_disk s)" using Cons.prems(5) by auto
  have o: "transferring s" "m_buffer_offset s = 0" using data_transferring [OF c(1) Cons.prems(2)] c(1) by (simp_all add: in_command_def)
  have w: "words_of bs \<noteq> []" "m_buffer_offset s + 2 * length (words_of bs) = 512"
    using c(2) o(2) words_length(1) [of bs] by (auto simp: words_length simp flip: length_greater_0_conv)
  define s1 where "s1 = write_buffer_full now (s\<lparr>m_buffer := bs\<rparr>)"
  have p1: "pio_run hdd_port now (map (Out 0) (words_of bs)) s = Some ([], now, s1)"
    using data_out [OF o(1) w(2,1), of now] o(2) c(2) by (simp add: s1_def bytes_words)
  note s1 = buffer_full_step [OF c(1) Cons.prems(2) c(3) c(2), folded s1_def]
  define t where "t = m_expire (m_busy_timer s1)"
  have l: "a + ?k \<le> 2 ^ 28" "a \<in> disk_blocks (hdd_disk s1)" using Cons.prems(4) b s1(4) by simp_all
  obtain s2 where s2: "port_wait hdd_port now s1 = (t, s2)" "hdd_disk s2 = snd (hd_write a bs h)" "disk_blocks (hdd_disk s2) = disk_blocks h"
      "?k = 1 \<Longrightarrow> hdd_idle s2" "?k \<noteq> 1 \<Longrightarrow> in_command IDE_COMMAND_WRITE_SECTORS (?k - 1) (a + 1) s2 \<and> data_phase s2" "attached s2" "\<not> bit (m_status s2) 7" "\<not> bit (m_status s2) 0"
    using wait_write [OF s1(1,2) zero_less_Suc l, of now] s1(3,4) by (auto simp: t_def h_def)
  obtain v u x ls where v: "port_in hdd_port t 7 s2 = Some (v, s2\<lparr>m_irq := x, ata_lines := ls, m_last_status_timer := u\<rparr>)"
      "\<forall>i<8. i \<noteq> 1 \<longrightarrow> bit v i = bit (m_status s2) i"
    using read_status_step [OF s2(6,7)] by blast
  define s3 where "s3 = s2\<lparr>m_irq := x, ata_lines := ls, m_last_status_timer := u\<rparr>"
  note e3 = status_update [OF s3_def]
  have p: "pio_run hdd_port now (write_sector_program bs) s = Some ([(7, v)], t, s3)"
    using pio_run_seq [OF p1, of "[Wait, In 7]"] s2(1) v(1) by (simp add: write_sector_program_def s3_def)
  have g: "status_good [(7, v)]" using v(2) s2(7,8) by (simp add: status_good_def)
  have tl: "time_left (length bss) t" using s1(2) by (simp add: busy_phase_def t_def)
  show ?case
  proof (cases "bss = []")
    case True
    then show ?thesis using p g s2 e3 by (simp add: h_def write_blocks_def)
  next
    case False
    then have n: "in_command IDE_COMMAND_WRITE_SECTORS (length bss) (a + 1) s3" "data_phase s3" "hdd_disk s3 = snd (hd_write a bs h)" using s2 e3 by simp_all
    have r: "a + 1 + length bss \<le> 2 ^ 28" "{a + 1..<a + 1 + length bss} \<subseteq> disk_blocks (hdd_disk s3)" "\<forall>bs \<in> set bss. length bs = 512"
      using Cons.prems(4,5,6) s2(3) e3(5) by (auto simp: h_def)
    obtain res now1 s' where s': "pio_run hdd_port t (concat (map write_sector_program bss)) s3 = Some (res, now1, s')"
        "data_words res = []" "status_good res" "hdd_idle s'" "hdd_disk s' = write_blocks (a + 1) bss (hdd_disk s3)"
      using Cons.IH [OF n(1,2) False r tl] by blast
    have "pio_run hdd_port now (concat (map write_sector_program (bs # bss))) s = Some ([(7, v)] @ res, now1, s')"
      using pio_run_seq [OF p s'(1)] by simp
    moreover have "hdd_disk s' = write_blocks a (bs # bss) (hdd_disk s)" using s'(5) n(3) by (simp add: write_blocks_Cons h_def)
    moreover have "data_words ([(7, v)] @ res) = []" "status_good ([(7, v)] @ res)" unfolding data_words_append using g s'(2,3) by simp_all
    ultimately show ?thesis using s'(4) by blast
  qed
qed simp

section \<open>The disk as a store of blocks\<close>

datatype block_op = Read_blocks nat nat | Write_blocks nat "u8 list list"

fun block_program :: "block_op \<Rightarrow> pio list" where
  "block_program (Read_blocks l n) = read_program l n"
| "block_program (Write_blocks l bss) = write_program l bss"

text \<open>What a host gets from a sequence of such programs, each started at a time: the bytes read, and whether every status was good.\<close>

fun block_ops :: "'s ata_port \<Rightarrow> (attotime \<times> block_op) list \<Rightarrow> 's \<Rightarrow> (u8 list list \<times> bool \<times> 's) option" where
  "block_ops p [] s = Some ([], True, s)"
| "block_ops p ((t, x) # ops) s =
     Option.bind (pio_run p t (block_program x) s) (\<lambda>(res, _, s1).
       map_option (\<lambda>(bss, good, s2). (bytes_of (data_words res) # bss, status_good res \<and> good, s2)) (block_ops p ops s1))"

text \<open>The specification: a function from block numbers to blocks.\<close>

fun store_op :: "block_op \<Rightarrow> (nat \<Rightarrow> u8 list) \<Rightarrow> u8 list \<times> (nat \<Rightarrow> u8 list)" where
  "store_op (Read_blocks l n) f = (concat (map f [l..<l + n]), f)"
| "store_op (Write_blocks l bss) f = ([], \<lambda>k. if l \<le> k \<and> k < l + length bss then bss ! (k - l) else f k)"

fun store_ops :: "block_op list \<Rightarrow> (nat \<Rightarrow> u8 list) \<Rightarrow> u8 list list \<times> (nat \<Rightarrow> u8 list)" where
  "store_ops [] f = ([], f)"
| "store_ops (x # ops) f = (let (r, f1) = store_op x f; (rs, f2) = store_ops ops f1 in (r # rs, f2))"

text \<open>An operation on blocks \<open>B\<close> within the range of 28 bit addresses, of at most 256 blocks.\<close>

fun block_op_ok :: "nat set \<Rightarrow> block_op \<Rightarrow> bool" where
  "block_op_ok B (Read_blocks l n) \<longleftrightarrow> 0 < n \<and> n \<le> 256 \<and> l + n \<le> 2 ^ 28 \<and> {l..<l + n} \<subseteq> B"
| "block_op_ok B (Write_blocks l bss) \<longleftrightarrow> bss \<noteq> [] \<and> length bss \<le> 256 \<and> l + length bss \<le> 2 ^ 28 \<and> {l..<l + length bss} \<subseteq> B \<and>
     (\<forall>bs \<in> set bss. length bs = 512)"

lemma write_blocks_read:
  assumes "disk_ok h" "{a..<a + length bss} \<subseteq> disk_blocks h" "\<forall>bs \<in> set bss. length bs = 512"
  shows "disk_blocks (write_blocks a bss h) = disk_blocks h \<and> (\<forall>k \<in> disk_blocks h.
    snd (hd_read k (write_blocks a bss h)) = (if a \<le> k \<and> k < a + length bss then bss ! (k - a) else snd (hd_read k h)))"
  using assms
proof (induction bss arbitrary: a h)
  case (Cons bs bss)
  define h1 where "h1 = snd (hd_write a bs h)"
  have a: "a \<in> disk_blocks h" "length bs = 512" using Cons.prems(2,3) by auto
  have h1: "disk_ok h1" "disk_blocks h1 = disk_blocks h" using disk.wr_inv [OF Cons.prems(1) a] by (simp_all add: h1_def)
  have r: "snd (hd_read k h1) = (if k = a then bs else snd (hd_read k h))" if "k \<in> disk_blocks h" for k
    using disk.rd_same [OF Cons.prems(1) a] disk.rd_other [OF Cons.prems(1) a(1) that _ a(2)] by (simp add: h1_def)
  have "{a + 1..<a + 1 + length bss} \<subseteq> disk_blocks h1" using Cons.prems(2) h1(2) by auto
  note ih = Cons.IH [OF h1(1) this]
  have e: "(if a + 1 \<le> k \<and> k < a + 1 + length bss then bss ! (k - (a + 1)) else if k = a then bs else z) =
      (if a \<le> k \<and> k < a + length (bs # bss) then (bs # bss) ! (k - a) else z)" for k and z :: "u8 list"
    by (cases "k = a") (auto simp: nth_Cons')
  show ?case
    using ih Cons.prems(3) h1(2) r unfolding write_blocks_Cons h1_def [symmetric] e [symmetric] by simp
qed (auto simp: write_blocks_def)

lemma bytes_of_blocks:
  assumes "\<forall>i \<in> set is. length (f i) = 512"
  shows "bytes_of (concat (map (\<lambda>i. words_of (f i)) is)) = concat (map f is)"
proof -
  have a: "bytes_of (xs @ ys) = bytes_of xs @ bytes_of ys" for xs ys by (simp add: bytes_of_def)
  show ?thesis using assms by (induction "is") (simp_all add: a bytes_words, simp add: bytes_of_def)
qed

lemma block_op_step:
  assumes "hdd_idle s" "block_op_ok (disk_blocks (hdd_disk s)) x" "host_time t" "\<forall>k \<in> disk_blocks (hdd_disk s). snd (hd_read k (hdd_disk s)) = f k"
  shows "\<exists>res t1 s1. pio_run hdd_port t (block_program x) s = Some (res, t1, s1) \<and> hdd_idle s1 \<and> status_good res \<and>
    disk_blocks (hdd_disk s1) = disk_blocks (hdd_disk s) \<and> bytes_of (data_words res) = fst (store_op x f) \<and>
    (\<forall>k \<in> disk_blocks (hdd_disk s1). snd (hd_read k (hdd_disk s1)) = snd (store_op x f) k)"
proof (cases x)
  case (Read_blocks l n)
  then have o: "0 < n" "n \<le> 256" "l + n \<le> 2 ^ 28" "{l..<l + n} \<subseteq> disk_blocks (hdd_disk s)" "l < 2 ^ 28" using assms(2) by auto
  obtain s1 where s1: "pio_run hdd_port t (lba_registers l n) s = Some ([], t, s1)" "hdd_idle s1" "addressed l n s1" "hdd_disk s1 = hdd_disk s"
    using run_registers [OF assms(1) o(5)] by blast
  obtain s2 where s2: "command_w t 7 0x20 s1 = s2" "in_command IDE_COMMAND_READ_SECTORS n l s2" "busy_phase n s2" "hdd_disk s2 = hdd_disk s1"
    using issue_read [OF s1(2,3) o(1,2,5) assms(3)] by blast
  obtain res t1 s3 where s3: "pio_run hdd_port t (concat (replicate n read_sector_program)) s2 = Some (res, t1, s3)"
      "data_words res = concat (map (\<lambda>i. words_of (snd (hd_read i (hdd_disk s2)))) [l..<l + n])" "status_good res" "hdd_idle s3" "hdd_disk s3 = hdd_disk s2"
    using read_loop [OF s2(2,3) o(1,3)] o(4) s1(4) s2(4) by metis
  have "pio_run hdd_port t ([Out 7 0x20] @ concat (replicate n read_sector_program)) s1 = Some (res, t1, s3)"
    using s2(1) s3(1) by (simp add: hdd_port_def)
  from pio_run_seq [OF s1(1) this] have p: "pio_run hdd_port t (block_program x) s = Some (res, t1, s3)" by (simp add: Read_blocks read_program_def)
  have k: "disk_ok (hdd_disk s)" using assms(1) by (simp add: hdd_idle_def attached_def)
  have "\<forall>i \<in> set [l..<l + n]. length (snd (hd_read i (hdd_disk s))) = 512" using o(4) hd_read_block(2) [OF k] by auto
  from bytes_of_blocks [OF this] have "bytes_of (data_words res) = concat (map (\<lambda>i. snd (hd_read i (hdd_disk s))) [l..<l + n])"
    using s3(2) s2(4) s1(4) by simp
  also have "\<dots> = concat (map f [l..<l + n])" using o(4) assms(4) by (intro arg_cong [where f = concat] map_cong) auto
  finally show ?thesis using p s3 s2(4) s1(4) assms(4) Read_blocks by simp
next
  case (Write_blocks l bss)
  then have o: "0 < length bss" "length bss \<le> 256" "l + length bss \<le> 2 ^ 28" "{l..<l + length bss} \<subseteq> disk_blocks (hdd_disk s)" "bss \<noteq> []"
      "\<forall>bs \<in> set bss. length bs = 512" using assms(2) by auto
  then have l: "l < 2 ^ 28" by linarith
  obtain s1 where s1: "pio_run hdd_port t (lba_registers l (length bss)) s = Some ([], t, s1)" "hdd_idle s1" "addressed l (length bss) s1" "hdd_disk s1 = hdd_disk s"
    using run_registers [OF assms(1) l] by blast
  obtain s2 where s2: "command_w t 7 0x30 s1 = s2" "in_command IDE_COMMAND_WRITE_SECTORS (length bss) l s2" "data_phase s2" "hdd_disk s2 = hdd_disk s1"
    using issue_write [OF s1(2,3) o(1,2)] by blast
  have tl: "time_left (length bss) t" using assms(3) o(2) by (auto simp: host_time_def time_left_def wf_time_def attos_def atto_consts)
  obtain res t1 s3 where s3: "pio_run hdd_port t (concat (map write_sector_program bss)) s2 = Some (res, t1, s3)"
      "data_words res = []" "status_good res" "hdd_idle s3" "hdd_disk s3 = write_blocks l bss (hdd_disk s2)"
    using write_loop [OF s2(2,3) o(5,3) _ o(6) tl] o(4) s1(4) s2(4) by metis
  have "pio_run hdd_port t ([Out 7 0x30] @ concat (map write_sector_program bss)) s1 = Some (res, t1, s3)"
    using s2(1) s3(1) by (simp add: hdd_port_def)
  from pio_run_seq [OF s1(1) this] have p: "pio_run hdd_port t (block_program x) s = Some (res, t1, s3)" by (simp add: Write_blocks write_program_def)
  have k: "disk_ok (hdd_disk s)" using assms(1) by (simp add: hdd_idle_def attached_def)
  have e: "hdd_disk s3 = write_blocks l bss (hdd_disk s)" using s3(5) s2(4) s1(4) by simp
  show ?thesis
    using p s3(2,3,4) write_blocks_read [OF k o(4,6)] assms(4) by (simp add: Write_blocks e) (simp add: bytes_of_def)
qed

text \<open>A sequence of operations on the disk itself gives what the specification says.\<close>

lemma hdd_block_ops:
  assumes "hdd_idle s" "\<forall>(t, x) \<in> set ops. host_time t \<and> block_op_ok (disk_blocks (hdd_disk s)) x"
    "\<forall>k \<in> disk_blocks (hdd_disk s). snd (hd_read k (hdd_disk s)) = f k"
  shows "\<exists>s'. block_ops hdd_port ops s = Some (fst (store_ops (map snd ops) f), True, s') \<and> hdd_idle s' \<and>
    disk_blocks (hdd_disk s') = disk_blocks (hdd_disk s) \<and> (\<forall>k \<in> disk_blocks (hdd_disk s). snd (hd_read k (hdd_disk s')) = snd (store_ops (map snd ops) f) k)"
  using assms
proof (induction ops arbitrary: s f)
  case (Cons y ops)
  obtain t x where y: "y = (t, x)" by fastforce
  have ok: "host_time t" "block_op_ok (disk_blocks (hdd_disk s)) x" using Cons.prems(2) y by auto
  obtain res t1 s1 where s1: "pio_run hdd_port t (block_program x) s = Some (res, t1, s1)" "hdd_idle s1" "status_good res"
      "disk_blocks (hdd_disk s1) = disk_blocks (hdd_disk s)" "bytes_of (data_words res) = fst (store_op x f)"
      "\<forall>k \<in> disk_blocks (hdd_disk s1). snd (hd_read k (hdd_disk s1)) = snd (store_op x f) k"
    using block_op_step [OF Cons.prems(1) ok(2,1) Cons.prems(3)] by blast
  have "\<forall>(t, x) \<in> set ops. host_time t \<and> block_op_ok (disk_blocks (hdd_disk s1)) x" using Cons.prems(2) s1(4) by auto
  from Cons.IH [OF s1(2) this s1(6)] obtain s2 where
      "block_ops hdd_port ops s1 = Some (fst (store_ops (map snd ops) (snd (store_op x f))), True, s2)" "hdd_idle s2"
      "disk_blocks (hdd_disk s2) = disk_blocks (hdd_disk s1)"
      "\<forall>k \<in> disk_blocks (hdd_disk s1). snd (hd_read k (hdd_disk s2)) = snd (store_ops (map snd ops) (snd (store_op x f))) k" by blast
  then show ?case using s1 y by (simp add: Let_def case_prod_beta)
qed simp

section \<open>Ways to the registers\<close>

text \<open>The programs use the eight registers of the command block.\<close>

fun pio_ok :: "pio \<Rightarrow> bool" where
  "pio_ok (Out a d) \<longleftrightarrow> a < 8"
| "pio_ok (In a) \<longleftrightarrow> a < 8"
| "pio_ok Wait \<longleftrightarrow> True"

lemma block_program_ok: "\<forall>x \<in> set (block_program y). pio_ok x"
  by (cases y) (auto simp: read_program_def write_program_def lba_registers_def read_sector_program_def write_sector_program_def)

text \<open>The contract between a bus and the disk behind it: an access through the bus has the effect of the access of the disk's
  register, and nothing else happens to the disk.\<close>

locale ata_access =
  fixes port :: "'s ata_port" and drive :: "'s \<Rightarrow> ide_hdd" and ok :: "'s \<Rightarrow> bool"
  assumes access_out: "ok s \<Longrightarrow> a < 8 \<Longrightarrow> \<exists>s'. port_out port now a d s = Some s' \<and> drive s' = command_w now a d (drive s) \<and> ok s'"
    and access_in: "ok s \<Longrightarrow> a < 8 \<Longrightarrow> \<exists>s'. port_in port now a s = Some (fst (command_r now False a 0xffff (drive s)), s') \<and>
      drive s' = snd (command_r now False a 0xffff (drive s)) \<and> ok s'"
    and access_wait: "ok s \<Longrightarrow> \<exists>s'. port_wait port now s = (fst (port_wait hdd_port now (drive s)), s') \<and>
      drive s' = snd (port_wait hdd_port now (drive s)) \<and> ok s'"
begin

lemma access_run:
  assumes "ok s" "\<forall>x \<in> set ps. pio_ok x" "pio_run hdd_port now ps (drive s) = Some (res, t, d)"
  shows "\<exists>s'. pio_run port now ps s = Some (res, t, s') \<and> drive s' = d \<and> ok s'"
  using assms
proof (induction ps arbitrary: now s res)
  case (Cons x ps)
  have ps: "\<forall>x \<in> set ps. pio_ok x" using Cons.prems(2) by simp
  show ?case
  proof (cases x)
    case (Out a v)
    obtain s1 where s1: "port_out port now a v s = Some s1" "drive s1 = command_w now a v (drive s)" "ok s1"
      using access_out [OF Cons.prems(1), of a now v] Cons.prems(2) Out by auto
    have "pio_run hdd_port now ps (drive s1) = Some (res, t, d)" using Cons.prems(3) s1(2) Out by (simp add: hdd_port_def)
    then show ?thesis using Cons.IH [OF s1(3) ps] s1(1) Out by simp
  next
    case (In a)
    obtain s1 where s1: "port_in port now a s = Some (fst (command_r now False a 0xffff (drive s)), s1)"
        "drive s1 = snd (command_r now False a 0xffff (drive s))" "ok s1"
      using access_in [OF Cons.prems(1), of a now] Cons.prems(2) In by auto
    obtain r where r: "pio_run hdd_port now ps (drive s1) = Some (r, t, d)" "res = (a, fst (command_r now False a 0xffff (drive s))) # r"
      using Cons.prems(3) s1(2) In by (auto simp: hdd_port_def case_prod_beta)
    then show ?thesis using Cons.IH [OF s1(3) ps r(1)] s1(1) In by auto
  next
    case Wait
    obtain s1 where s1: "port_wait port now s = (fst (port_wait hdd_port now (drive s)), s1)" "drive s1 = snd (port_wait hdd_port now (drive s))" "ok s1"
      using access_wait [OF Cons.prems(1), of now] by auto
    have "pio_run hdd_port (fst (port_wait hdd_port now (drive s))) ps (drive s1) = Some (res, t, d)"
      using Cons.prems(3) s1(2) Wait by (simp add: case_prod_beta)
    then show ?thesis using Cons.IH [OF s1(3) ps] s1(1) Wait by simp
  qed
qed simp

lemma access_block_ops:
  assumes "ok s" "block_ops hdd_port ops (drive s) = Some (bss, good, d)"
  shows "\<exists>s'. block_ops port ops s = Some (bss, good, s') \<and> drive s' = d \<and> ok s'"
  using assms
proof (induction ops arbitrary: s bss good)
  case (Cons y ops)
  obtain t x where y: "y = (t, x)" by fastforce
  obtain res t1 d1 where d1: "pio_run hdd_port t (block_program x) (drive s) = Some (res, t1, d1)"
    using Cons.prems(2) y by (auto split: bind_splits)
  obtain bss1 good1 where g: "block_ops hdd_port ops d1 = Some (bss1, good1, d)" "bss = bytes_of (data_words res) # bss1" "good = (status_good res \<and> good1)"
    using Cons.prems(2) y d1 by auto
  obtain s1 where s1: "pio_run port t (block_program x) s = Some (res, t1, s1)" "drive s1 = d1" "ok s1"
    using access_run [OF Cons.prems(1) block_program_ok d1] by blast
  then show ?case using Cons.IH [OF s1(3), unfolded s1(2), OF g(1)] y g(2,3) by auto
qed simp

text \<open>Through any such bus the disk is a store of blocks.\<close>

lemma access_store:
  assumes "ok s" "hdd_idle (drive s)" "\<forall>(t, x) \<in> set ops. host_time t \<and> block_op_ok (disk_blocks (hdd_disk (drive s))) x"
  shows "\<exists>s'. block_ops port ops s = Some (fst (store_ops (map snd ops) (\<lambda>k. snd (hd_read k (hdd_disk (drive s))))), True, s') \<and> ok s' \<and> hdd_idle (drive s') \<and>
    (\<forall>k \<in> disk_blocks (hdd_disk (drive s)). snd (hd_read k (hdd_disk (drive s'))) = snd (store_ops (map snd ops) (\<lambda>k. snd (hd_read k (hdd_disk (drive s))))) k)"
proof -
  obtain d where d: "block_ops hdd_port ops (drive s) = Some (fst (store_ops (map snd ops) (\<lambda>k. snd (hd_read k (hdd_disk (drive s))))), True, d)" "hdd_idle d"
      "\<forall>k \<in> disk_blocks (hdd_disk (drive s)). snd (hd_read k (hdd_disk d)) = snd (store_ops (map snd ops) (\<lambda>k. snd (hd_read k (hdd_disk (drive s))))) k"
    using hdd_block_ops [OF assms(2,3), of "\<lambda>k. snd (hd_read k (hdd_disk (drive s)))"] by blast
  then show ?thesis using access_block_ops [OF assms(1) d(1)] by blast
qed

end

end
