(* ===== verification/Ata_Intf.thy ===== *)
theory Ata_Intf
  imports Ata_Block
begin

unbundle bit_operations_syntax

text \<open>
  The ATA interface with its two slots, \<^verbatim>\<open>src/devices/bus/ata/ataintf.cpp\<close>: the accesses of the bus reach the devices of both
  slots, the lines of the devices are combined for the board, and DASP and PDIAG of the slave go to the master. A device
  is a hard disk. The lines that a device wrote during an operation are handled after it, in their order: the
  handlers change only the interface and the device in the other slot.
\<close>

section \<open>State\<close>

datatype intf_line = Intf_irq bool | Intf_dmarq bool | Intf_dasp bool

record ata_interface =
  intf_slot :: "ide_hdd option list"
  intf_irq :: "bool list"
  intf_dmarq :: "bool list"
  intf_dasp :: "bool list"
  intf_pdiag :: "bool list"
  intf_default_data :: u16
  intf_log :: "intf_line list"

text \<open>The constructor and \<^verbatim>\<open>device_start\<close>, which tells each device its slot.\<close>

definition ata_interface_start :: "ide_hdd option \<Rightarrow> ide_hdd option \<Rightarrow> ata_interface" where
  "ata_interface_start d0 d1 =
     \<lparr>intf_slot = [map_option (set_csel_in 0) d0, map_option (set_csel_in 1) d1], intf_irq = [False, False], intf_dmarq = [False, False],
      intf_dasp = [False, False], intf_pdiag = [False, False], intf_default_data = 0xffff, intf_log = []\<rparr>"

section \<open>Lines of the devices\<close>

definition either :: "bool list \<Rightarrow> bool" where
  "either ls \<longleftrightarrow> ls ! 0 \<or> ls ! 1"

definition irq_write_line :: "nat \<Rightarrow> bool \<Rightarrow> ata_interface \<Rightarrow> ata_interface" where
  "irq_write_line i state t =
     (if intf_irq t ! i \<noteq> state then
        let t1 = t\<lparr>intf_irq := (intf_irq t)[i := state]\<rparr> in t1\<lparr>intf_log := intf_log t1 @ [Intf_irq (either (intf_irq t1))]\<rparr>
      else t)"

definition dmarq_write_line :: "nat \<Rightarrow> bool \<Rightarrow> ata_interface \<Rightarrow> ata_interface" where
  "dmarq_write_line i state t =
     (if intf_dmarq t ! i \<noteq> state then
        let t1 = t\<lparr>intf_dmarq := (intf_dmarq t)[i := state]\<rparr> in t1\<lparr>intf_log := intf_log t1 @ [Intf_dmarq (either (intf_dmarq t1))]\<rparr>
      else t)"

text \<open>What slot 1 tells the device in slot 0.\<close>

definition to_master :: "(ide_hdd \<Rightarrow> ide_hdd) \<Rightarrow> ata_interface \<Rightarrow> ata_interface" where
  "to_master f t = t\<lparr>intf_slot := (intf_slot t)[0 := map_option f (intf_slot t ! 0)]\<rparr>"

definition dasp_write_line :: "nat \<Rightarrow> bool \<Rightarrow> ata_interface \<Rightarrow> ata_interface" where
  "dasp_write_line i state t =
     (if intf_dasp t ! i \<noteq> state then
        let t1 = t\<lparr>intf_dasp := (intf_dasp t)[i := state]\<rparr>;
            t2 = (if i = 1 then to_master (set_dasp_in state) t1 else t1)
        in t2\<lparr>intf_log := intf_log t2 @ [Intf_dasp (either (intf_dasp t2))]\<rparr>
      else t)"

definition pdiag_write_line :: "attotime \<Rightarrow> nat \<Rightarrow> bool \<Rightarrow> ata_interface \<Rightarrow> ata_interface" where
  "pdiag_write_line now i state t =
     (if i = 0 then t\<lparr>intf_pdiag := (intf_pdiag t)[0 := state]\<rparr>
      else if intf_pdiag t ! 1 \<noteq> state then to_master (set_pdiag_in now state) (t\<lparr>intf_pdiag := (intf_pdiag t)[1 := state]\<rparr>)
      else t)"

fun slot_write_line :: "attotime \<Rightarrow> nat \<Rightarrow> ata_line \<Rightarrow> ata_interface \<Rightarrow> ata_interface" where
  "slot_write_line now i (IRQ_OUT b) t = irq_write_line i b t"
| "slot_write_line now i (DMARQ_OUT b) t = dmarq_write_line i b t"
| "slot_write_line now i (DASP_OUT b) t = dasp_write_line i b t"
| "slot_write_line now i (PDIAG_OUT b) t = pdiag_write_line now i b t"

section \<open>Operations on the devices\<close>

text \<open>An operation on the device of a slot, if there is one, with a result that starts as \<open>x\<close>.\<close>

definition on_slot :: "attotime \<Rightarrow> nat \<Rightarrow> ('a \<Rightarrow> ide_hdd \<Rightarrow> 'a \<times> ide_hdd) \<Rightarrow> 'a \<times> ata_interface \<Rightarrow> 'a \<times> ata_interface" where
  "on_slot now i f xt =
     (case intf_slot (snd xt) ! i of
        None \<Rightarrow> xt
      | Some d \<Rightarrow>
          let (y, d1) = f (fst xt) d; t1 = (snd xt)\<lparr>intf_slot := (intf_slot (snd xt))[i := Some d1]\<rparr>
          in (y, fold (slot_write_line now i) (drop (length (ata_lines d)) (ata_lines d1)) t1))"

definition read_slots :: "attotime \<Rightarrow> (u16 \<Rightarrow> ide_hdd \<Rightarrow> u16 \<times> ide_hdd) \<Rightarrow> ata_interface \<Rightarrow> u16 \<times> ata_interface" where
  "read_slots now f t = on_slot now 1 f (on_slot now 0 f (intf_default_data t, t))"

definition write_slots :: "attotime \<Rightarrow> (ide_hdd \<Rightarrow> ide_hdd) \<Rightarrow> ata_interface \<Rightarrow> ata_interface" where
  "write_slots now f t = snd (on_slot now 1 (\<lambda>x d. (x, f d)) (on_slot now 0 (\<lambda>x d. (x, f d)) ((), t)))"

definition read_dma :: "attotime \<Rightarrow> bool \<Rightarrow> ata_interface \<Rightarrow> u16 \<times> ata_interface" where
  "read_dma now dbg = read_slots now (dma_r now dbg)"

definition internal_read_cs0 :: "attotime \<Rightarrow> bool \<Rightarrow> nat \<Rightarrow> ata_interface \<Rightarrow> u16 \<times> ata_interface" where
  "internal_read_cs0 now dbg offset = read_slots now (command_r now dbg offset)"

definition internal_read_cs1 :: "attotime \<Rightarrow> bool \<Rightarrow> nat \<Rightarrow> ata_interface \<Rightarrow> u16 \<times> ata_interface" where
  "internal_read_cs1 now dbg offset = read_slots now (control_r now offset)"

definition write_dma :: "attotime \<Rightarrow> u16 \<Rightarrow> ata_interface \<Rightarrow> ata_interface" where
  "write_dma now data = write_slots now (dma_w now data)"

definition internal_write_cs0 :: "attotime \<Rightarrow> nat \<Rightarrow> u16 \<Rightarrow> ata_interface \<Rightarrow> ata_interface" where
  "internal_write_cs0 now offset data = write_slots now (command_w now offset data)"

definition internal_write_cs1 :: "attotime \<Rightarrow> nat \<Rightarrow> u16 \<Rightarrow> ata_interface \<Rightarrow> ata_interface" where
  "internal_write_cs1 now offset data = write_slots now (control_w now offset data)"

definition write_dmack :: "attotime \<Rightarrow> bool \<Rightarrow> ata_interface \<Rightarrow> ata_interface" where
  "write_dmack now state = write_slots now (set_dmack_in state)"

text \<open>The reset of the devices, with the identification data of their images, and their timers.\<close>

definition intf_reset :: "attotime \<Rightarrow> u8 list \<Rightarrow> u8 list \<Rightarrow> ata_interface \<Rightarrow> ata_interface" where
  "intf_reset now inq0 inq1 t =
     snd (on_slot now 1 (\<lambda>x d. (x, interface_post_reset now (ide_hdd_device_reset inq1 d)))
       (on_slot now 0 (\<lambda>x d. (x, interface_post_reset now (ide_hdd_device_reset inq0 d))) ((), t)))"

definition intf_timer_fire :: "nat \<Rightarrow> attotime \<Rightarrow> ata_interface \<Rightarrow> attotime \<times> ata_interface" where
  "intf_timer_fire i now t =
     (case Option.bind (intf_slot t ! i) hdd_next_event of
        None \<Rightarrow> (now, t)
      | Some (t1, fire) \<Rightarrow> (t1, snd (on_slot t1 i (\<lambda>x d. (x, fire d)) ((), t))))"

section \<open>The interface with one disk as a way to its registers\<close>

definition intf_port :: "ata_interface ata_port" where
  "intf_port =
     \<lparr>port_out = (\<lambda>now a d t. Some (internal_write_cs0 now a d t)),
      port_in = (\<lambda>now a t. Some (internal_read_cs0 now False a t)),
      port_wait = intf_timer_fire 0\<rparr>"

definition one_disk :: "ata_interface \<Rightarrow> bool" where
  "one_disk t \<longleftrightarrow> length (intf_slot t) = 2 \<and> intf_slot t ! 0 \<noteq> None \<and> intf_slot t ! 1 = None \<and> intf_default_data t = 0xffff"

definition master_disk :: "ata_interface \<Rightarrow> ide_hdd" where
  "master_disk t = the (intf_slot t ! 0)"

lemma line_slots_0: "intf_slot (slot_write_line now 0 l t) = intf_slot t" "intf_default_data (slot_write_line now 0 l t) = intf_default_data t"
  by (cases l; simp add: irq_write_line_def dmarq_write_line_def dasp_write_line_def pdiag_write_line_def Let_def)+

lemma lines_slots_0: "intf_slot (fold (slot_write_line now 0) ls t) = intf_slot t \<and> intf_default_data (fold (slot_write_line now 0) ls t) = intf_default_data t"
  by (induction ls arbitrary: t) (simp_all add: line_slots_0)

lemma on_slot_0:
  assumes "one_disk t"
  shows "fst (on_slot now 0 f (x, t)) = fst (f x (master_disk t))" "one_disk (snd (on_slot now 0 f (x, t)))"
    "master_disk (snd (on_slot now 0 f (x, t))) = snd (f x (master_disk t))"
  using assms by (auto simp: on_slot_def one_disk_def master_disk_def case_prod_beta Let_def lines_slots_0)

lemma on_slot_1: "one_disk (snd xt) \<Longrightarrow> on_slot now 1 f xt = xt" "one_disk (snd xt) \<Longrightarrow> on_slot now (Suc 0) f xt = xt"
  by (simp_all add: on_slot_def one_disk_def)

lemma read_one: 
  assumes "one_disk t"
  shows "fst (read_slots now f t) = fst (f 0xffff (master_disk t))" "one_disk (snd (read_slots now f t))"
    "master_disk (snd (read_slots now f t)) = snd (f 0xffff (master_disk t))"
proof -
  have "intf_default_data t = 0xffff" using assms by (simp add: one_disk_def)
  then show "fst (read_slots now f t) = fst (f 0xffff (master_disk t))" "one_disk (snd (read_slots now f t))"
    "master_disk (snd (read_slots now f t)) = snd (f 0xffff (master_disk t))"
    by (simp_all add: read_slots_def on_slot_0 [OF assms] on_slot_1)
qed

lemma write_one:
  assumes "one_disk t"
  shows "one_disk (write_slots now f t)" "master_disk (write_slots now f t) = f (master_disk t)"
  by (simp_all add: write_slots_def on_slot_0 [OF assms] on_slot_1)

interpretation intf: ata_access intf_port master_disk one_disk
proof
  fix t a now d
  assume o: "one_disk t"
  show "\<exists>t'. port_out intf_port now a d t = Some t' \<and> master_disk t' = command_w now a d (master_disk t) \<and> one_disk t'"
    using write_one [OF o] by (simp add: intf_port_def internal_write_cs0_def)
  show "\<exists>t'. port_in intf_port now a t = Some (fst (command_r now False a 0xffff (master_disk t)), t') \<and>
      master_disk t' = snd (command_r now False a 0xffff (master_disk t)) \<and> one_disk t'"
    using read_one [OF o, of now "command_r now False a"] by (simp add: intf_port_def internal_read_cs0_def prod_eq_iff)
  obtain d where d: "intf_slot t ! 0 = Some d" "master_disk t = d" using o by (auto simp: one_disk_def master_disk_def)
  show "\<exists>t'. port_wait intf_port now t = (fst (port_wait hdd_port now (master_disk t)), t') \<and>
      master_disk t' = snd (port_wait hdd_port now (master_disk t)) \<and> one_disk t'"
    using d o by (auto simp: intf_port_def hdd_port_def intf_timer_fire_def on_slot_0 [OF o] split: option.splits)
qed

end
