(* ===== verification/Ata_Reset.thy ===== *)
theory Ata_Reset
  imports Ata_Intf
begin

unbundle bit_operations_syntax

text \<open>
  The reset of the disk and what comes after it, and commands that are refused: a password that is not there, and a
  command for the other device.
\<close>

section \<open>Reset\<close>

text \<open>The two milliseconds of each phase of the reset.\<close>

lemma reset_times:
  assumes "wf_time now" "m_seconds now < 999999999"
  defines "d \<equiv> from_msec 2"
  shows "m_expire (timer_adjust now d p q t) = attotime_add now d" "\<not> is_never (attotime_add now d)"
    "wf_time (attotime_add now d)" "attos (attotime_add now d) = attos now + 2 * 10 ^ 15"
proof -
  have f: "wf_time d" "attos d = 2 * 10 ^ 15" by (simp_all add: d_def from_msec_def tdiv_def wf_time_def attos_def atto_consts)
  have "attos now + attos d < ATTOTIME_MAX_SECONDS * ATTOSECONDS_PER_SECOND" using assms(1,2) f(2) by (simp add: wf_time_def attos_def atto_consts)
  from attotime_add_exact(1) [OF assms(1) f(1) this] show a: "wf_time (attotime_add now d)" "attos (attotime_add now d) = attos now + 2 * 10 ^ 15"
    using f(2) by simp_all
  show "\<not> is_never (attotime_add now d)" using a(1) by (simp add: wf_time_def is_never_def)
  show "m_expire (timer_adjust now d p q t) = attotime_add now d" using f(1) by (simp add: timer_adjust_def Let_def wf_time_def)
qed

definition ready_after_reset :: "ide_hdd \<Rightarrow> bool" where
  "ready_after_reset s \<longleftrightarrow> m_status s = IDE_STATUS_DRDY OR IDE_STATUS_DSC \<and> m_error s = IDE_ERROR_DIAGNOSTIC_PASSED \<and>
     (m_sector_count s, m_sector_number s, m_cylinder_low s, m_cylinder_high s, m_device_head s) = (1, 1, 0, 0, 0) \<and> \<not> m_irq s \<and> \<not> m_dmarq s \<and> \<not> m_resetting s"

text \<open>What the reset leaves alone.\<close>

definition kept_by_reset :: "ide_hdd \<Rightarrow> ide_hdd \<Rightarrow> bool" where
  "kept_by_reset s s' \<longleftrightarrow> m_csel s' = m_csel s \<and> m_dmack s' = m_dmack s \<and> m_8bit_data_transfers s' = m_8bit_data_transfers s \<and> m_buffer s' = m_buffer s \<and>
     m_buffer_empty_timer s' = m_buffer_empty_timer s \<and> m_identify_buffer s' = m_identify_buffer s \<and> m_ide_image s' = m_ide_image s \<and> m_num_cylinders s' = m_num_cylinders s \<and>
     m_cur_lba s' = 0 \<and> m_master_password_enable s' = (m_master_password s \<noteq> None) \<and> m_user_password_enable s' = (m_user_password s \<noteq> None)"

lemma pdiag_flat: "\<exists>ls. set_pdiag b s = s\<lparr>m_pdiagout := b, ata_lines := ls\<rparr>"
proof (cases "m_pdiagout s = b")
  case True
  then have "set_pdiag b s = s\<lparr>m_pdiagout := b, ata_lines := ata_lines s\<rparr>" by (auto simp: set_pdiag_def)
  then show ?thesis by blast
qed (auto simp: set_pdiag_def line_out_def)

lemma reset_detect:
  assumes "m_csel s = 0"
  shows "\<exists>ls. interface_post_reset now s =
    start_busy now DETECT_DEVICE1_TIME PARAM_DETECT_DEVICE1 (s\<lparr>m_daspout := False, m_dmarq := False, m_irq := False, m_pdiagout := False, ata_lines := ls,
      m_status := 0, m_device_control := 0, m_resetting := True\<rparr>)"
proof -
  define s1 where "s1 = set_irq False (set_dmarq False (set_dasp False s))"
  obtain ls where ls: "set_pdiag False s1 = s1\<lparr>m_pdiagout := False, ata_lines := ls\<rparr>" using pdiag_flat by blast
  then show ?thesis using assms unfolding interface_post_reset_def Let_def s1_def [symmetric]
    by (intro exI [of _ ls]) (simp add: s1_def line_flat)
qed

lemma reset_sequence:
  assumes "m_csel s = 0" "\<not> m_daspin s" "m_can_identify_device s" "\<not> empty_pending s" "wf_time now" "m_seconds now < 999999998"
  defines "t1 \<equiv> attotime_add now (from_msec 2)"
  defines "t2 \<equiv> attotime_add t1 (from_msec 2)"
  shows "\<exists>s1 s2. port_wait hdd_port now (interface_post_reset now s) = (t1, s1) \<and> port_wait hdd_port t1 s1 = (t2, s2) \<and>
    ready_after_reset s2 \<and> kept_by_reset s s2"
proof -
  note a1 = reset_times [OF assms(5)]
  have n1: "m_seconds now < 999999999" using assms(6) by simp
  have w1: "wf_time t1" "attos t1 = attos now + 2 * 10 ^ 15" using a1(3,4) [OF n1] by (simp_all add: t1_def)
  have n2: "m_seconds t1 < 999999999" using w1 assms(5,6) by (auto simp: wf_time_def attos_def atto_consts)
  note a2 = reset_times [OF w1(1) n2]
  obtain ls where r: "interface_post_reset now s =
      start_busy now DETECT_DEVICE1_TIME PARAM_DETECT_DEVICE1 (s\<lparr>m_daspout := False, m_dmarq := False, m_irq := False, m_pdiagout := False, ata_lines := ls,
        m_status := 0, m_device_control := 0, m_resetting := True\<rparr>)"
    using reset_detect [OF assms(1)] by blast
  define s0 where "s0 = interface_post_reset now s"
  have p0: "busy_pending s0" "m_expire (m_busy_timer s0) = t1" "m_param (m_busy_timer s0) = PARAM_DETECT_DEVICE1"
    using a1(1,2) [OF n1] by (simp_all add: s0_def r start_busy_def Let_def status_set_def busy_pending_def t1_def) (simp_all add: timer_adjust_def)
  define s1 where "s1 = busy_fire s0"
  obtain tm where s1: "s1 = soft_reset t1 (status_clear IDE_STATUS_BSY (s0\<lparr>m_busy_timer := tm\<rparr>)\<lparr>m_single_device := True\<rparr>)"
    using p0 assms(2) by (auto simp: s1_def busy_fire_def busy_tick_def finished_busy_def Let_def status_clear_def s0_def r start_busy_def status_set_def)
  have p1: "busy_pending s1" "m_expire (m_busy_timer s1) = t2" "m_param (m_busy_timer s1) = PARAM_DIAGNOSTIC"
    using a2(1,2) by (simp_all add: s1 soft_reset_def hle_soft_reset_def start_busy_def Let_def status_set_def busy_pending_def t2_def) (simp_all add: timer_adjust_def)
  define s2 where "s2 = busy_fire s1"
  obtain tm2 where s2: "s2 = start_diagnostic t2 (status_clear IDE_STATUS_BSY (s1\<lparr>m_busy_timer := tm2\<rparr>))"
    using p1 by (auto simp: s2_def busy_fire_def busy_tick_def finished_busy_def Let_def)
  have st: "((IDE_STATUS_BSY OR IDE_STATUS_DSC) AND NOT IDE_STATUS_BSY) OR IDE_STATUS_DRDY = IDE_STATUS_DRDY OR IDE_STATUS_DSC" by simp
  have "ready_after_reset s2" "kept_by_reset s s2"
    using assms(1,3) by (simp_all add: s2 s1 s0_def r start_diagnostic_def perform_diagnostic_def finished_diagnostic_def signature_def soft_reset_def
      hle_soft_reset_def start_busy_def status_set_def status_clear_def Let_def ready_after_reset_def kept_by_reset_def)
  moreover have "\<not> empty_pending s0" using assms(4) by (simp add: s0_def r start_busy_def Let_def status_set_def)
  moreover from this have "\<not> empty_pending s1" by (simp add: s1 soft_reset_def hle_soft_reset_def start_busy_def Let_def status_set_def status_clear_def)
  ultimately show ?thesis using wait_busy [OF _ p0(1), of now] wait_busy [OF _ p1(1), of t1] p0(2) p1(2) by (auto simp: s0_def s1_def s2_def)
qed

text \<open>A reset while the buffer event of an ultra DMA read is pending is lost: the event, which comes first, goes on with the read, and the
  busy timer that was to detect the other device ends a command instead.\<close>

theorem ata_reset_lost:
  assumes "m_csel s = 0" "empty_pending s" "m_expire (m_buffer_empty_timer s) < attotime_add now DETECT_DEVICE1_TIME"
    "m_command s = IDE_COMMAND_READ_DMA" "1 < m_sectors_remaining s"
  shows "\<exists>s1. port_wait hdd_port now (interface_post_reset now s) = (m_expire (m_buffer_empty_timer s), s1) \<and>
    m_resetting s1 \<and> m_param (m_busy_timer s1) = PARAM_COMMAND \<and> \<not> empty_pending s1"
proof -
  define s0 where "s0 = interface_post_reset now s"
  obtain ls where r: "s0 = start_busy now DETECT_DEVICE1_TIME PARAM_DETECT_DEVICE1 (s\<lparr>m_daspout := False, m_dmarq := False, m_irq := False,
        m_pdiagout := False, ata_lines := ls, m_status := 0, m_device_control := 0, m_resetting := True\<rparr>)"
    using reset_detect [OF assms(1)] unfolding s0_def by blast
  have b: "m_buffer_empty_timer s0 = m_buffer_empty_timer s" "m_expire (m_busy_timer s0) = attotime_add now DETECT_DEVICE1_TIME" "m_resetting s0"
    "m_command s0 = IDE_COMMAND_READ_DMA" "m_sectors_remaining s0 = m_sectors_remaining s"
    using assms(4) by (simp_all add: r start_busy_def status_set_def Let_def) (simp add: timer_adjust_def from_msec_def tdiv_def Let_def)
  have "hdd_next_event s0 = Some (m_expire (m_buffer_empty_timer s), empty_fire)"
    using assms(2,3) by (simp add: hdd_next_event_def b not_le)
  then have w: "port_wait hdd_port now s0 = (m_expire (m_buffer_empty_timer s), empty_fire s0)" by (simp add: hdd_port_def)
  have "m_resetting (empty_fire s0) \<and> m_param (m_busy_timer (empty_fire s0)) = PARAM_COMMAND \<and> \<not> empty_pending (empty_fire s0)"
    using assms(5) b
    by (simp add: empty_fire_def empty_tick_def fill_buffer_def fill_buffer_default_def count_sector_def is_read_multiple_def start_busy_def
        status_set_def line_flat Let_def) (simp add: timer_pending_def timer_adjust_def timer_enable_def schedule_next_period_def)
  then show ?thesis using w by (simp add: s0_def)
qed


text \<open>A disk of four sectors, in the first slot.\<close>

definition small_image :: harddisk_image where
  "small_image = \<lparr>m_image_name = ''disk'', m_file_open = True, m_hard_disk_handle = Some (hard_disk_file_init (replicate 2048 0) 0)\<rparr>"

definition small_interface :: ata_interface where
  "small_interface = ata_interface_start (Some (ide_hdd_start attotime_zero (0, 0, 0, 0) (replicate 256 0) small_image)) None"

lemma small_image_ok: "ide_image_ok small_image" "image_exists small_image"
proof -
  obtain c h s where g: "guess_geometry 4 = (c, h, s)" by (metis prod_cases3)
  show "ide_image_ok small_image" "image_exists small_image"
    by (simp_all add: ide_image_ok_def small_image_def image_disk_def image_exists_def hard_disk_file_init_def g)
qed

lemma small_interface_ok: "one_disk small_interface" "m_ide_image (master_disk small_interface) = small_image"
  "\<not> empty_pending (master_disk small_interface)"
  by (simp_all add: small_interface_def ata_interface_start_def one_disk_def master_disk_def set_csel_in_def ide_hdd_start_def timer_pending_def
      timer_init_def attotime_add_def is_never_def attotime_never_def Let_def)


section \<open>Passwords\<close>

text \<open>Unlocking a disk without passwords reads through a null pointer. Any disk that has no password, as those on the boards here,
  is idle and gets the command \<^verbatim>\<open>SECURITY_UNLOCK\<close> and its 256 words of data compares them with a password that
  does not exist.\<close>

theorem ata_unlock_null:
  assumes "m_csel s = 0" "\<not> bit (m_device_head s) 4" "\<not> m_dmack s" "\<not> m_8bit_data_transfers s" "length (m_buffer s) = 512"
    "\<not> bit (m_status s) 7" "\<not> bit (m_status s) 3" "m_master_password s = None" "m_user_password s = None" "length ws = 256"
  shows "\<exists>s'. pio_run hdd_port now (Out 7 0xf2 # map (Out 0) ws) s = Some ([], now, s') \<and> ata_ub s'"
proof -
  define s1 where "s1 = command_w now 7 0xf2 s"
  have u: "(ucast (0xf2 :: u16) :: u8) = 0xf2" by simp
  have c: "transferring s1" "m_buffer_offset s1 = 0" "m_command s1 = IDE_COMMAND_SECURITY_UNLOCK" "m_master_password s1 = None" "m_user_password s1 = None"
    using assms selected [of s] unfolding s1_def command_w_def Let_def u
    by (simp_all add: mask_bits flat process_command_def is_lba48_def is_verify_def is_write_multiple_def transferring_def bit_simps)
  have w: "m_buffer_offset s1 + 2 * length ws = 512" "ws \<noteq> []" using c(2) assms(10) by auto
  define s2 where "s2 = s1\<lparr>m_buffer := take (m_buffer_offset s1) (m_buffer s1) @ bytes_of ws\<rparr>"
  have "ata_ub (write_buffer_full now s2)"
    using c by (simp add: write_buffer_full_def process_buffer_def unlock_def Let_def line_flat status_clear_def s2_def)
  then show ?thesis using data_out [OF c(1) w, of now] by (simp add: s2_def) (simp add: hdd_port_def s1_def)
qed

theorem ata_unlock_null_witness:
  "\<exists>s'. pio_run hdd_port attotime_zero (Out 7 0xf2 # map (Out 0) (replicate 256 0))
     (ide_hdd_start attotime_zero (0, 0, 0, 0) (replicate 256 0) small_image) = Some ([], attotime_zero, s') \<and> ata_ub s'"
  by (rule ata_unlock_null) (simp_all add: ide_hdd_start_def)

end
