(* ===== verification/Ata_Board.thy ===== *)
theory Ata_Board
  imports Ata_Reset Rosco_M68k
begin

unbundle bit_operations_syntax

text \<open>
  The ATA interface on the bus of the 68000 and 68010 boards, \<^verbatim>\<open>src/rosco/drivers/rosco_m68k.cpp\<close>: the handlers that the map of the
  board calls, and what a program on the CPU gets from a disk in the first slot. The second slot is empty, as in the configuration of
  the boards.
\<close>

section \<open>The handlers of the map\<close>

definition ata_board_handlers :: "ata_interface ata_handlers" where
  "ata_board_handlers =
     \<lparr>cs0_r = (\<lambda>now dbg offset mem_mask t. let (v, t1) = internal_read_cs0 now dbg offset t in (unat v, t1)),
      cs0_w = (\<lambda>now offset data mem_mask t. internal_write_cs0 now offset (word_of_nat data) t),
      cs1_r = (\<lambda>now dbg offset mem_mask t. let (v, t1) = internal_read_cs1 now dbg offset t in (unat v, t1)),
      cs1_w = (\<lambda>now offset data mem_mask t. internal_write_cs1 now offset (word_of_nat data) t)\<rparr>"

section \<open>The registers seen by the CPU\<close>

text \<open>The registers of the command block are words at 0xf80040.\<close>

definition board_port :: "ata_interface rosco_m68k ata_port" where
  "board_port =
     \<lparr>port_out = (\<lambda>now a d s. write_native ata_board_handlers now (0xf80040 + 2 * a) (unat d) 0xffff s),
      port_in = (\<lambda>now a s. map_option (\<lambda>(v, s1). (word_of_nat v, s1)) (read_native ata_board_handlers now (0xf80040 + 2 * a) 0xffff s)),
      port_wait = (\<lambda>now s. let (t, i) = port_wait intf_port now (m_ata s) in (t, s\<lparr>m_ata := i\<rparr>))\<rparr>"

text \<open>The board with one disk, of which nothing but the ATA interface differs from \<open>s0\<close>.\<close>

definition board_with_disk :: "ata_interface rosco_m68k \<Rightarrow> ata_interface rosco_m68k \<Rightarrow> bool" where
  "board_with_disk s0 s \<longleftrightarrow> one_disk (m_ata s) \<and> \<not> side_effects_disabled s \<and> s = s0\<lparr>m_ata := m_ata s\<rparr>"

lemma ata_address:
  assumes "a < 8"
  shows "decode_m68k (take_bit 24 (0xf80040 + 2 * a)) = Some (Ata_cs0, 0xf80040)" "drop_bit 1 (take_bit 24 (0xf80040 + 2 * a) - 0xf80040) = a"
proof -
  have t: "take_bit 24 (0xf80040 + 2 * a) = 0xf80040 + 2 * a" using assms by (simp add: take_bit_nat_eq_self)
  show "decode_m68k (take_bit 24 (0xf80040 + 2 * a)) = Some (Ata_cs0, 0xf80040)" unfolding t using assms by (simp add: decode_m68k_def)
  show "drop_bit 1 (take_bit 24 (0xf80040 + 2 * a) - 0xf80040) = a" unfolding t by (simp add: drop_bit_eq_div)
qed

lemma ata_board_read:
  assumes "a < 8" "\<not> side_effects_disabled s"
  shows "read_native ata_board_handlers now (0xf80040 + 2 * a) m s =
    Some (unat (fst (internal_read_cs0 now False a (m_ata s))), s\<lparr>m_ata := snd (internal_read_cs0 now False a (m_ata s))\<rparr>)"
  using assms(2) unfolding read_native_def Let_def decode_read68 ata_address(1) [OF assms(1)] option.case prod.case handler_m68k.case
    ata_address(2) [OF assms(1)]
  by (simp add: with_ata_def ata_board_handlers_def case_prod_beta)

lemma ata_board_write:
  assumes "a < 8"
  shows "write_native ata_board_handlers now (0xf80040 + 2 * a) d m s = Some (s\<lparr>m_ata := internal_write_cs0 now a (word_of_nat d) (m_ata s)\<rparr>)"
  unfolding write_native_def Let_def decode_write68 ata_address(1) [OF assms(1)] option.case prod.case handler_m68k.case ata_address(2) [OF assms(1)]
  by (simp add: ata_board_handlers_def)

interpretation board_ata: ata_access board_port "\<lambda>s. master_disk (m_ata s)" "board_with_disk s0" for s0
proof
  fix s now d
  fix a :: nat
  assume o: "board_with_disk s0 s"
  then have t: "one_disk (m_ata s)" "\<not> side_effects_disabled s" and e: "s = s0\<lparr>m_ata := m_ata s\<rparr>"
    unfolding board_with_disk_def by blast+
  have u: "s\<lparr>m_ata := x\<rparr> = s0\<lparr>m_ata := x\<rparr>" for x using arg_cong [OF e, of "\<lambda>s. s\<lparr>m_ata := x\<rparr>"] by simp
  have k: "board_with_disk s0 (s\<lparr>m_ata := x\<rparr>)" if "one_disk x" for x
    using that t(2) u [of x] arg_cong [OF e, of side_effects_disabled] by (simp add: board_with_disk_def)
  show "\<exists>s'. port_out board_port now a d s = Some s' \<and> master_disk (m_ata s') = command_w now a d (master_disk (m_ata s)) \<and> board_with_disk s0 s'"
    if "a < 8"
    using intf.access_out [OF t(1) that, of now d] k by (auto simp: board_port_def ata_board_write [OF that] intf_port_def)
  show "\<exists>s'. port_in board_port now a s = Some (fst (command_r now False a 0xffff (master_disk (m_ata s))), s') \<and>
      master_disk (m_ata s') = snd (command_r now False a 0xffff (master_disk (m_ata s))) \<and> board_with_disk s0 s'" if "a < 8"
    using intf.access_in [OF t(1) that, of now] k by (auto simp: board_port_def ata_board_read [OF that t(2)] intf_port_def)
  show "\<exists>s'. port_wait board_port now s = (fst (port_wait hdd_port now (master_disk (m_ata s))), s') \<and>
      master_disk (m_ata s') = snd (port_wait hdd_port now (master_disk (m_ata s))) \<and> board_with_disk s0 s'"
    using intf.access_wait [OF t(1), of now] k by (auto simp: board_port_def)
qed

section \<open>The disk of the board is a store of sectors\<close>

text \<open>C4. A program on the CPU sees a store of sectors. Let the disk in the first slot be idle with a raw image. Then any sequence of
  programs that read or write 1 to 256 consecutive sectors through the registers at 0xf80040, with 28 bit addresses
  inside the image, gets exactly what a memory of blocks would give: each read returns what was written last or the original contents.
  No status value shows an error, and nothing of the board but the ATA interface changes.\<close>

theorem ata_block_store:
  assumes "one_disk (m_ata s)" "\<not> side_effects_disabled s" "hdd_idle (master_disk (m_ata s))"
    "\<forall>(t, x) \<in> set ops. host_time t \<and> block_op_ok (disk_blocks (hdd_disk (master_disk (m_ata s)))) x"
  shows "\<exists>s'. block_ops board_port ops s =
      Some (fst (store_ops (map snd ops) (\<lambda>k. snd (hd_read k (hdd_disk (master_disk (m_ata s)))))), True, s') \<and>
    s' = s\<lparr>m_ata := m_ata s'\<rparr> \<and> hdd_idle (master_disk (m_ata s'))"
proof -
  have "board_with_disk s s" using assms(1,2) by (simp add: board_with_disk_def)
  from board_ata.access_store [OF this assms(3,4)] show ?thesis by (auto simp: board_with_disk_def)
qed

text \<open>The machine with the disk of four sectors, 4 milliseconds after its reset.\<close>

lemma identify_nth: "w + n \<le> length b \<Longrightarrow> i < length b \<Longrightarrow> i < w \<or> w + n \<le> i \<Longrightarrow> identify w n x b ! i = b ! i"
  by (auto simp: identify_def nth_append identify_words_length min_def)

lemma build_identify_88: "m_identify_buffer (ide_build_identify_device s) ! 88 = 0"
  by (simp add: ide_build_identify_device_def Let_def identify_nth identify_length nth_list_update)

definition board_disk :: ide_hdd where
  "board_disk = snd (port_wait hdd_port (from_msec 2) (snd (port_wait hdd_port attotime_zero
     (interface_post_reset attotime_zero (ide_hdd_device_reset [] (master_disk small_interface))))))"

lemma board_disk_idle: "hdd_idle board_disk" "hdd_disk board_disk = hard_disk_file_init (replicate 2048 0) 0"
proof -
  obtain c h n where g: "guess_geometry 4 = (c, h, n)" by (metis prod_cases3)
  have gc: "c * h * n \<le> 4" "1 < h" "1 < n" using guess_geometry_step [OF g] by simp_all
  have "c \<le> c * h * n" using gc(2,3) by (simp add: mult.assoc)
  with gc(1) have c: "c \<le> 4" by linarith
  define d0 where "d0 = master_disk small_interface"
  define d where "d = ide_hdd_device_reset [] d0"
  have d0: "m_csel d0 = 0" "\<not> m_daspin d0" "\<not> m_can_identify_device d0" "m_ide_image d0 = small_image" "\<not> m_dmack d0" "\<not> m_8bit_data_transfers d0"
      "length (m_buffer d0) = 512" "m_master_password d0 = None" "m_user_password d0 = None"
    by (simp_all add: d0_def small_interface_def ata_interface_start_def master_disk_def set_csel_in_def ide_hdd_start_def)
  have i: "image_disk small_image = Some (hard_disk_file_init (replicate 2048 0) 0)" "image_exists small_image"
    using small_image_ok(2) by (simp_all add: small_image_def image_disk_def)
  have hd: "sectorbytes (hdinfo (hard_disk_file_init (replicate 2048 0) 0)) = 512" "cylinders (hdinfo (hard_disk_file_init (replicate 2048 0) 0)) = c"
    "disk_ok (hard_disk_file_init (replicate 2048 0) 0)" by (simp_all add: hard_disk_file_init_def g disk_ok_def)
  obtain s where s: "d = (ide_build_identify_device s)\<lparr>m_can_identify_device := True\<rparr>"
      "s = d0\<lparr>m_num_cylinders := c, m_num_sectors := m_num_sectors s, m_num_heads := m_num_heads s\<rparr>"
    using d0(3,4) i hd(1,2) by (simp add: d_def ide_hdd_device_reset_def Let_def)
  have fr: "m_csel (ide_build_identify_device s) = m_csel s" "m_daspin (ide_build_identify_device s) = m_daspin s" "m_ide_image (ide_build_identify_device s) = m_ide_image s"
    "m_dmack (ide_build_identify_device s) = m_dmack s" "m_8bit_data_transfers (ide_build_identify_device s) = m_8bit_data_transfers s"
    "m_buffer (ide_build_identify_device s) = m_buffer s" "m_master_password (ide_build_identify_device s) = m_master_password s"
    "m_user_password (ide_build_identify_device s) = m_user_password s" "m_num_cylinders (ide_build_identify_device s) = m_num_cylinders s"
    "m_buffer_empty_timer (ide_build_identify_device s) = m_buffer_empty_timer s"
    by (simp_all add: ide_build_identify_device_def Let_def)
  have sf: "m_csel s = m_csel d0" "m_daspin s = m_daspin d0" "m_ide_image s = m_ide_image d0" "m_dmack s = m_dmack d0" "m_8bit_data_transfers s = m_8bit_data_transfers d0"
    "m_buffer s = m_buffer d0" "m_master_password s = m_master_password d0" "m_user_password s = m_user_password d0" "m_num_cylinders s = c"
    "m_buffer_empty_timer s = m_buffer_empty_timer d0" by (subst s(2), simp)+
  have d: "m_csel d = 0" "\<not> m_daspin d" "m_can_identify_device d" "m_ide_image d = small_image" "\<not> m_dmack d" "\<not> m_8bit_data_transfers d"
      "length (m_buffer d) = 512" "m_master_password d = None" "m_user_password d = None" "m_num_cylinders d = c" "m_identify_buffer d ! 88 = 0"
      "\<not> empty_pending d"
    using d0 build_identify_88 small_interface_ok(3) by (simp_all add: s(1) fr sf d0_def [symmetric])
  have t: "wf_time attotime_zero" "m_seconds attotime_zero < 999999998" by (simp_all add: attotime_zero_def wf_time_def atto_consts)
  have a: "attotime_add attotime_zero (from_msec 2) = from_msec 2" by (simp add: attotime_add_def attotime_zero_def from_msec_def tdiv_def atto_consts Let_def)
  obtain s1 s2 where p: "port_wait hdd_port attotime_zero (interface_post_reset attotime_zero d) = (from_msec 2, s1)"
      "port_wait hdd_port (from_msec 2) s1 = (attotime_add (from_msec 2) (from_msec 2), s2)" "ready_after_reset s2" "kept_by_reset d s2"
    using reset_sequence [OF d(1-3,12) t] unfolding a by blast
  have e: "board_disk = s2" using p(1,2) by (simp add: board_disk_def d_def d0_def)
  have k: "hdd_disk s2 = hard_disk_file_init (replicate 2048 0) 0" using p(4) d(4) by (simp add: kept_by_reset_def hdd_disk_def small_image_def)
  show "hdd_disk board_disk = hard_disk_file_init (replicate 2048 0) 0" by (simp add: e k)
  have "hdd_idle s2"
    using p(3,4) d hd(3) k c i(2) by (simp add: hdd_idle_def attached_def ready_after_reset_def kept_by_reset_def ultra_dma_mode_def bit_to_mode_def)
      (simp add: small_image_def)
  then show "hdd_idle board_disk" by (simp add: e)
qed

definition small_machine :: "ata_interface rosco_m68k" where
  "small_machine = \<lparr>board68 = ready_board, cpu_type = M68010, m_sysram = replicate 0x80000 0, monitor = replicate 0x80000 0x4e71,
     m_bootvect = \<lparr>m_entry_mapping = [(0, 0)], m_cur_id = -1, m_cur_slot = -1\<rparr>, m_bus_error = False,
     m_bus_error_timer = timer_init attotime_zero attotime_never 0, side_effects_disabled = False, m_clock = 10000000, get_fc = 5,
     cpu_log = [], cpu_pc = 0, m_ata = small_interface\<lparr>intf_slot := [Some board_disk, None]\<rparr>\<rparr>"

theorem ata_block_store_witness:
  "\<exists>s'. block_ops board_port [(from_msec 4, Write_blocks 1 [replicate 512 7, replicate 512 8]), (from_msec 900, Read_blocks 2 1)] small_machine =
     Some ([[], replicate 512 8], True, s')"
proof -
  let ?ops = "[(from_msec 4, Write_blocks 1 [replicate 512 7, replicate 512 8]), (from_msec 900, Read_blocks 2 1)]"
  obtain c h n where g: "guess_geometry 4 = (c, h, n)" by (metis prod_cases3)
  have m: "one_disk (m_ata small_machine)" "\<not> side_effects_disabled small_machine" "master_disk (m_ata small_machine) = board_disk"
    by (simp_all add: small_machine_def one_disk_def master_disk_def small_interface_def ata_interface_start_def)
  have "disk_blocks (hdd_disk board_disk) = {0, 1, 2, 3}"
    by (auto simp: board_disk_idle(2) disk_blocks_def hard_disk_file_init_def g)
  then have "\<forall>(t, x) \<in> set ?ops. host_time t \<and> block_op_ok (disk_blocks (hdd_disk board_disk)) x"
    by (auto simp: host_time_def from_msec_def tdiv_def wf_time_def atto_consts)
  from ata_block_store [OF m(1,2), unfolded m(3), OF board_disk_idle(1) this] show ?thesis by auto
qed

end
