(* ===== verification/Ata_Address.thy ===== *)
theory Ata_Address
  imports Ata_Sector
begin

unbundle bit_operations_syntax

text \<open>
  How \<^verbatim>\<open>next_sector\<close> of \<^verbatim>\<open>src/devices/machine/atastorage.cpp\<close> advances the address registers in its three modes: 28 bit
  addresses, 48 bit addresses, and cylinders, heads and sectors.
\<close>

section \<open>The recursion of the code\<close>

text \<open>For the commands that verify sectors, the buffer is filled as in the last branch.\<close>

lemma finished_read_calls:
  assumes "is_verify (m_command s)"
  shows "fill_buffer now s = fill_buffer_default now s"
  using assms by (auto simp: is_verify_def fill_buffer_def is_read_multiple_def)

section \<open>Cylinders, heads and sectors\<close>

definition chs_valid :: "ide_hdd \<Rightarrow> bool" where
  "chs_valid s \<longleftrightarrow> 1 \<le> unat (m_sector_number s) \<and> unat (m_sector_number s) \<le> unat (m_num_sectors s) \<and> unat (m_num_sectors s) < 255 \<and>
     unat (m_device_head s AND 0x0f) < unat (m_num_heads s) \<and> unat (m_num_heads s) \<le> 16"

definition cylinder :: "ide_hdd \<Rightarrow> nat" where
  "cylinder s = unat (m_cylinder_high s) * 2 ^ 8 + unat (m_cylinder_low s)"

lemma lba_chs:
  assumes "\<not> bit (m_device_head s) 6" "chs_valid s"
  shows "lba_address s + 1 = (cylinder s * unat (m_num_heads s) + unat (m_device_head s AND 0x0f)) * unat (m_num_sectors s) + unat (m_sector_number s)"
proof -
  define x where "x = (cylinder s * unat (m_num_heads s) + unat (m_device_head s AND 0x0f)) * unat (m_num_sectors s) + unat (m_sector_number s)"
  have l: "unat (m_cylinder_high s) < 256" "unat (m_cylinder_low s) < 256"
    using unsigned_less [of "m_cylinder_high s", where 'a = nat] unsigned_less [of "m_cylinder_low s", where 'a = nat] by simp_all
  then have "cylinder s \<le> 65535" by (simp add: cylinder_def)
  then have "cylinder s * unat (m_num_heads s) \<le> 65535 * 16" using assms(2) by (intro mult_le_mono) (simp_all add: chs_valid_def)
  then have "cylinder s * unat (m_num_heads s) + unat (m_device_head s AND 0x0f) \<le> 65535 * 16 + 16"
    using head_nibble [of "m_device_head s"] by simp
  then have "(cylinder s * unat (m_num_heads s) + unat (m_device_head s AND 0x0f)) * unat (m_num_sectors s) \<le> (65535 * 16 + 16) * 255"
    using assms(2) by (intro mult_le_mono) (simp_all add: chs_valid_def)
  then have x: "1 \<le> x" "x < 2 ^ 31" using assms(2) by (simp_all add: x_def chs_valid_def)
  have "lba_address s = nat (to_u64 (to_s32 (int x - 1)))"
    using assms(1) by (simp add: lba_address_def mask_bits x_def cylinder_def)
  also have "\<dots> = x - 1" using x by (simp add: to_u64_def)
  finally show ?thesis using x(1) by (simp add: x_def)
qed

lemma unat_less_255: "unat x < 255 \<Longrightarrow> unat (x + 1 :: u8) = unat x + 1"
  using unat_inc [of x] by auto

lemma next_sector_chs:
  assumes "\<not> bit (m_device_head s) 6" "chs_valid s" "cylinder s < 65535"
  shows "lba_address (next_sector s) = lba_address s + 1" "\<not> bit (m_device_head (next_sector s)) 6" "chs_valid (next_sector s)"
    "bit (m_device_head (next_sector s)) 4 = bit (m_device_head s) 4"
proof -
  define h where "h = m_device_head s AND 0x0f"
  define turn where "turn = (m_sector_number s + 1 > m_num_sectors s)"
  define wrap where "wrap = (h + 1 \<ge> m_num_heads s)"
  define h1 where "h1 = (if turn then if wrap then 0 else h + 1 else h)"
  have v: "1 \<le> unat (m_sector_number s)" "unat (m_sector_number s) \<le> unat (m_num_sectors s)" "unat (m_num_sectors s) < 255"
    "unat h < unat (m_num_heads s)" "unat (m_num_heads s) \<le> 16" using assms(2) by (simp_all add: chs_valid_def h_def)
  have sn: "unat (m_sector_number s + 1) = unat (m_sector_number s) + 1" and hn: "unat (h + 1) = unat h + 1"
    using v by (simp_all add: unat_less_255)
  have turn: "turn \<longleftrightarrow> unat (m_sector_number s) = unat (m_num_sectors s)" using v sn by (auto simp: turn_def word_less_nat_alt)
  have wrap: "wrap \<longleftrightarrow> unat h + 1 = unat (m_num_heads s)" using v hn by (auto simp: wrap_def word_le_nat_alt)
  have h1: "unat h1 = (if turn then if wrap then 0 else unat h + 1 else unat h)" by (simp add: h1_def hn)
  have h1b: "unat h1 < unat (m_num_heads s)" using h1 wrap v by (auto split: if_splits)
  then have h16: "unat h1 < 16" using v(5) by simp
  have n: "m_device_head (next_sector s) = (m_device_head s AND NOT 0x0f) OR h1"
    "m_sector_number (next_sector s) = (if turn then 1 else m_sector_number s + 1)"
    "m_cylinder_low (next_sector s) = (if turn \<and> wrap then m_cylinder_low s + 1 else m_cylinder_low s)"
    "m_cylinder_high (next_sector s) = (if turn \<and> wrap \<and> m_cylinder_low s + 1 = 0 then m_cylinder_high s + 1 else m_cylinder_high s)"
    using assms(1) by (simp_all add: next_sector_def Let_def mask_bits h1_def h_def turn_def wrap_def)
  note p = head_put [OF h16, of "m_device_head s"]
  show b: "\<not> bit (m_device_head (next_sector s)) 6" "bit (m_device_head (next_sector s)) 4 = bit (m_device_head s) 4"
    using p assms(1) by (simp_all add: n)
  show v': "chs_valid (next_sector s)" using v sn turn h1b p(1) by (auto simp: chs_valid_def n)
  have cl: "unat (m_cylinder_low s) < 256" using unsigned_less [of "m_cylinder_low s", where 'a = nat] by simp
  have cy: "cylinder (next_sector s) = (if turn \<and> wrap then cylinder s + 1 else cylinder s)"
    using assms(3) cl unat_inc [of "m_cylinder_low s"] unat_inc [of "m_cylinder_high s"] by (auto simp: cylinder_def n)
  define c ns nh where "c = cylinder s" and "ns = unat (m_num_sectors s)" and "nh = unat (m_num_heads s)"
  have s': "unat (m_sector_number (next_sector s)) = (if turn then 1 else unat (m_sector_number s) + 1)" by (simp add: n(2) sn)
  have "lba_address (next_sector s) + 1 = (cylinder (next_sector s) * nh + unat h1) * ns + unat (m_sector_number (next_sector s))"
    using lba_chs [OF b(1) v'] by (simp only: n(1) p(1) ns_def nh_def next_sector_frame)
  also have "\<dots> = (c * nh + unat h) * ns + unat (m_sector_number s) + 1"
  proof (cases turn)
    case False
    then show ?thesis by (simp add: cy h1 s' c_def)
  next
    case True
    then have e: "unat (m_sector_number s) = ns" using turn by (simp add: ns_def)
    show ?thesis
    proof (cases wrap)
      case True
      then have "nh = unat h + 1" using wrap by (simp add: nh_def)
      then show ?thesis using \<open>turn\<close> True by (simp add: cy h1 s' c_def e algebra_simps)
    next
      case False
      then show ?thesis using \<open>turn\<close> by (simp add: cy h1 s' c_def e algebra_simps)
    qed
  qed
  finally show "lba_address (next_sector s) = lba_address s + 1"
    using lba_chs [OF assms(1,2)] by (simp add: h_def c_def ns_def nh_def)
qed

section \<open>The next sector\<close>


definition chs_disk :: ide_hdd where
  "chs_disk = (ide_hdd_start attotime_zero (0, 0, 0, 0) [] \<lparr>m_image_name = [], m_file_open = False, m_hard_disk_handle = None\<rparr>)\<lparr>m_num_cylinders := 4, m_num_heads := 2, m_num_sectors := 63, m_device_head := 0xa1,
     m_cylinder_low := 0xff, m_cylinder_high := 0, m_sector_number := 63, m_command := IDE_COMMAND_READ_SECTORS\<rparr>"


text \<open>C39. With 48 bit addresses a transfer that crosses a multiple of 2^24 sectors goes on at the wrong place: the upper half of the
  address is never counted, so the sector after the last one of a block of 2^24 is the first one of the same block. The head number, which
  is no part of such an address, is counted instead, with a carry into the bit above it: from head 15 this selects the other device.\<close>

theorem ata_lba48_wraps:
  assumes "is_lba48 s" "bit (m_device_head s) 6" "m_sector_number s = 0xff" "m_cylinder_low s = 0xff" "m_cylinder_high s = 0xff"
  shows "lba_address (next_sector s) + 2 ^ 24 = lba_address s + 1 \<and>
    m_device_head (next_sector s) = (m_device_head s AND NOT 0x0f) OR ((m_device_head s AND 0x0f) + 1) \<and>
    (m_device_head s AND 0x1f = 0x0f \<longrightarrow> dev s = 0 \<and> dev (next_sector s) = 1)"
proof -
  define h where "h = m_device_head s AND 0x0f"
  have hl: "unat h < 16" using head_nibble by (simp add: h_def)
  then have hn: "unat (h + 1) = unat h + 1" by (simp add: unat_less_255)
  then have "\<not> bit (unat (h + 1)) 6" using hl by (simp add: bit_iff_odd)
  then have b: "\<not> bit (h + 1) 6" by (simp add: bit_unsigned_iff)
  have n: "m_device_head (next_sector s) = (m_device_head s AND NOT 0x0f) OR (h + 1)" "m_sector_number (next_sector s) = 0"
    "m_cylinder_low (next_sector s) = 0" "m_cylinder_high (next_sector s) = 0" "is_lba48 (next_sector s)"
    "m_cylinder_high_hob (next_sector s) = m_cylinder_high_hob s" "m_cylinder_low_hob (next_sector s) = m_cylinder_low_hob s"
    "m_sector_number_hob (next_sector s) = m_sector_number_hob s"
    using assms by (simp_all add: next_sector_def Let_def mask_bits h_def is_lba48_def)
  have m: "bit (m_device_head (next_sector s)) 6" using assms(2) b by (simp add: n(1) bit_simps)
  have "lba_address (next_sector s) + 2 ^ 24 = lba_address s + 1"
    using assms m by (simp add: lba_address_def mask_bits n)
  moreover have "dev s = 0 \<and> dev (next_sector s) = 1" if "m_device_head s AND 0x1f = 0x0f"
  proof -
    have "h = 0x0f" unfolding h_def that [symmetric] by (rule bit_word_eqI) (auto simp: bit_simps)
    moreover have "\<not> bit (m_device_head s) 4" using arg_cong [OF that, of "\<lambda>x. bit x 4"] by (simp add: bit_simps)
    moreover have "drop_bit 4 (m_device_head s AND 0x10) = 0"
      using \<open>\<not> bit (m_device_head s) 4\<close> by (auto simp: mask_bits bit_simps)
    moreover have "drop_bit 4 (((m_device_head s AND NOT 0x0f) OR 0x10) AND 0x10) = 1"
      by (rule bit_word_eqI) (auto simp: bit_simps mask_bits)
    ultimately show ?thesis unfolding dev_def n(1) by simp
  qed
  moreover have "m_device_head (next_sector s) = (m_device_head s AND NOT 0x0f) OR ((m_device_head s AND 0x0f) + 1)" by (simp add: n(1) h_def)
  ultimately show ?thesis by simp
qed

definition lba48_disk :: ide_hdd where
  "lba48_disk = chs_disk\<lparr>m_device_head := 0xcf, m_command := IDE_COMMAND_READ_SECTORS_EXT, m_sector_number_hob := 3,
     m_sector_number := 0xff, m_cylinder_low := 0xff, m_cylinder_high := 0xff, m_cylinder_low_hob := 0, m_cylinder_high_hob := 0\<rparr>"

theorem ata_lba48_wraps_witness:
  "lba_address (next_sector lba48_disk) = 3 * 2 ^ 24 \<and> dev lba48_disk = 0 \<and> dev (next_sector lba48_disk) = 1"
proof -
  have f: "m_device_head lba48_disk = 0xcf" "m_cylinder_low lba48_disk = 0xff" "m_cylinder_high lba48_disk = 0xff" "m_sector_number lba48_disk = 0xff"
    "m_cylinder_low_hob lba48_disk = 0" "m_cylinder_high_hob lba48_disk = 0" "m_sector_number_hob lba48_disk = 3"
    "m_command lba48_disk = IDE_COMMAND_READ_SECTORS_EXT" by (simp_all add: lba48_disk_def)
  have b: "bit (0xcf :: u8) 6" by simp
  have h: "is_lba48 lba48_disk" "bit (m_device_head lba48_disk) 6" "m_sector_number lba48_disk = 0xff" "m_cylinder_low lba48_disk = 0xff"
    "m_cylinder_high lba48_disk = 0xff" "m_device_head lba48_disk AND 0x1f = 0x0f"
    by (simp_all add: f b is_lba48_def)
  have "lba_address lba48_disk + 1 = 4 * 2 ^ 24" using h(1) by (simp add: lba_address_def f)
  with ata_lba48_wraps [OF h(1-5)] h(6) show ?thesis by simp
qed

end
