(* ===== verification/Save_Manager.thy ===== *)
theory Save_Manager
  imports Attotime Harddisk Memory_Handler "HOL-Library.List_Lexorder" "HOL-Library.Char_ord"
begin

text \<open>
  The save manager, \<^verbatim>\<open>src/emu/save.cpp\<close> and \<^verbatim>\<open>src/emu/save.h\<close>: the registration of memory and callbacks, the header of a state, and
  writing and reading states. The devices register pieces of the memory of the emulator itself, so that memory is explicit: a byte for
  every address. The CRC of zlib, the name of the system, the byte order of the host and the callbacks are the environment. A
  \<^verbatim>\<open>fatalerror\<close> is a value. Texts of messages are left out.
\<close>

section \<open>State\<close>

datatype save_error = STATERR_NONE | STATERR_NOT_FOUND | STATERR_INVALID_HEADER | STATERR_READ_ERROR | STATERR_WRITE_ERROR | STATERR_DISABLED

datatype save_fatal = Registration_closed | Duplicate_function | Duplicate_entries nat

record state_entry =
  entry_data :: nat
  entry_name :: string
  m_typesize :: nat
  m_typecount :: nat
  m_blockcount :: nat
  m_stride :: nat

text \<open>A stream over a vector of bytes: its contents, the two positions, and whether an operation failed.\<close>

record vectorstream =
  stream_bytes :: "u8 list"
  stream_put :: nat
  stream_get :: nat
  stream_fail :: bool

record ram_state =
  ram_data :: vectorstream
  m_valid :: bool
  ram_time :: attotime

record rewinder =
  rewind_enabled :: bool
  m_capacity :: nat
  m_current_index :: int
  m_first_invalid_index :: int
  m_first_time_warning :: bool
  m_first_time_note :: bool
  m_state_list :: "ram_state list"

record save_manager =
  m_reg_allowed :: bool
  m_supported :: bool
  m_entry_list :: "state_entry list"
  m_presave_list :: "nat list"
  m_postload_list :: "nat list"
  m_rewind :: rewinder

text \<open>The memory and whatever else the callbacks change.\<close>

record 'x save_host =
  host_mem :: "nat \<Rightarrow> u8"
  host_dev :: 'x

record 'x save_env =
  env_crc32 :: "u32 \<Rightarrow> u8 list \<Rightarrow> u32"
  env_endian :: endianness_t
  env_system :: string
  env_call :: "nat \<Rightarrow> 'x save_host \<Rightarrow> 'x save_host"

definition rewinder_init :: "bool \<Rightarrow> nat \<Rightarrow> rewinder" where
  "rewinder_init enabled capacity =
     \<lparr>rewind_enabled = enabled, m_capacity = capacity, m_current_index = -1, m_first_invalid_index = -1,
      m_first_time_warning = True, m_first_time_note = True, m_state_list = []\<rparr>"

definition save_manager_init :: "bool \<Rightarrow> nat \<Rightarrow> save_manager" where
  "save_manager_init enabled capacity =
     \<lparr>m_reg_allowed = True, m_supported = False, m_entry_list = [], m_presave_list = [], m_postload_list = [],
      m_rewind = rewinder_init enabled capacity\<rparr>"

section \<open>Sizes\<close>

text \<open>The products are of 32 bits, the sum is a \<^verbatim>\<open>size_t\<close>.\<close>

definition blocksize :: "state_entry \<Rightarrow> nat" where
  "blocksize e = m_typesize e * m_typecount e mod 2 ^ 32"

abbreviation HEADER_SIZE :: nat where "HEADER_SIZE \<equiv> 32"

definition total_size :: "save_manager \<Rightarrow> nat" where
  "total_size sm = foldl (\<lambda>n e. (n + m_typesize e * m_typecount e * m_blockcount e mod 2 ^ 32) mod 2 ^ 64) HEADER_SIZE (m_entry_list sm)"

definition ram_state_get_size :: "save_manager \<Rightarrow> nat" where
  "ram_state_get_size sm =
     (foldl (\<lambda>n e. (n + m_typesize e * m_typecount e * m_blockcount e mod 2 ^ 32) mod 2 ^ 64) 0 (m_entry_list sm) + HEADER_SIZE) mod 2 ^ 64"

section \<open>Registration\<close>

text \<open>Numbers in upper case hexadecimal, as \<^verbatim>\<open>%X\<close> prints them.\<close>

fun hex_upper :: "nat \<Rightarrow> string" where
  "hex_upper n = (let d = n mod 16; c = char_of (if d < 10 then 48 + d else 55 + d)
                  in if n < 16 then [c] else hex_upper (n div 16) @ [c])"

declare hex_upper.simps [simp del]

definition save_memory ::
  "string \<Rightarrow> string option \<Rightarrow> nat \<Rightarrow> string \<Rightarrow> nat \<Rightarrow> nat \<Rightarrow> nat \<Rightarrow> nat \<Rightarrow> nat \<Rightarrow> save_manager \<Rightarrow> save_fatal + save_manager" where
  "save_memory module tag index name val valsize valcount blockcount stride sm =
     (if \<not> m_reg_allowed sm then Inl Registration_closed
      else
        let totalname = module @ ''/'' @ (case tag of Some t \<Rightarrow> t @ ''/'' | None \<Rightarrow> []) @ hex_upper index @ ''/'' @ name
        in Inr (sm\<lparr>m_entry_list := m_entry_list sm @
             [\<lparr>entry_data = val, entry_name = totalname, m_typesize = valsize mod 2 ^ 8, m_typecount = valcount, m_blockcount = blockcount, m_stride = stride\<rparr>]\<rparr>))"

definition register_presave :: "nat \<Rightarrow> save_manager \<Rightarrow> save_fatal + save_manager" where
  "register_presave f sm =
     (if \<not> m_reg_allowed sm then Inl Registration_closed
      else if f \<in> set (m_presave_list sm) then Inl Duplicate_function
      else Inr (sm\<lparr>m_presave_list := m_presave_list sm @ [f]\<rparr>))"

definition register_postload :: "nat \<Rightarrow> save_manager \<Rightarrow> save_fatal + save_manager" where
  "register_postload f sm =
     (if \<not> m_reg_allowed sm then Inl Registration_closed
      else if f \<in> set (m_postload_list sm) then Inl Duplicate_function
      else Inr (sm\<lparr>m_postload_list := m_postload_list sm @ [f]\<rparr>))"

definition rewind_limit :: "save_manager \<Rightarrow> nat" where
  "rewind_limit sm = m_capacity (m_rewind sm) * 1024 * 1024 mod 2 ^ 64"

definition clamp_capacity :: "save_manager \<Rightarrow> save_manager" where
  "clamp_capacity sm =
     (if rewind_enabled (m_rewind sm) \<and> rewind_limit sm < ram_state_get_size sm
      then sm\<lparr>m_rewind := (m_rewind sm)\<lparr>rewind_enabled := False\<rparr>\<rparr>
      else sm)"

text \<open>Closing the registration sorts the entries by their names; \<open>unsupported\<close> are the flags of the devices.\<close>

definition allow_registration :: "bool \<Rightarrow> bool list \<Rightarrow> save_manager \<Rightarrow> save_fatal + save_manager" where
  "allow_registration allowed unsupported sm =
     (let s1 = sm\<lparr>m_reg_allowed := allowed\<rparr>
      in if allowed then Inr s1
         else
           let l = sort_key entry_name (m_entry_list s1);
               dupes = length (filter (\<lambda>i. entry_name (l ! (i - 1)) = entry_name (l ! i)) [1..<length l])
           in if dupes \<noteq> 0 then Inl (Duplicate_entries dupes)
              else Inr (clamp_capacity (s1\<lparr>m_entry_list := l, m_supported := (True \<notin> set unsupported)\<rparr>)))"

definition dispatch_presave :: "'x save_env \<Rightarrow> save_manager \<Rightarrow> 'x save_host \<Rightarrow> 'x save_host" where
  "dispatch_presave env sm = fold (env_call env) (m_presave_list sm)"

definition dispatch_postload :: "'x save_env \<Rightarrow> save_manager \<Rightarrow> 'x save_host \<Rightarrow> 'x save_host" where
  "dispatch_postload env sm = fold (env_call env) (m_postload_list sm)"

section \<open>Header and signature\<close>

definition put_u32le :: "u32 \<Rightarrow> u8 list" where
  "put_u32le w = [ucast w, ucast (drop_bit 8 w), ucast (drop_bit 16 w), ucast (drop_bit 24 w)]"

definition state_signature :: "'x save_env \<Rightarrow> save_manager \<Rightarrow> u32" where
  "state_signature env sm =
     foldl (\<lambda>crc e. env_crc32 env (env_crc32 env crc (map of_char (entry_name e)))
         (put_u32le (word_of_nat (m_typesize e)) @ put_u32le (word_of_nat (m_typecount e)) @ put_u32le (word_of_nat (m_blockcount e)) @ put_u32le 0))
       0 (m_entry_list sm)"

definition STATE_MAGIC_NUM :: "u8 list" where
  "STATE_MAGIC_NUM = map of_char ''MAMESAVE''"

abbreviation SAVE_VERSION :: u8 where "SAVE_VERSION \<equiv> 2"
abbreviation SS_MSB_FIRST :: u8 where "SS_MSB_FIRST \<equiv> 0x02"

text \<open>Strings of C end with a zero; \<^verbatim>\<open>strncpy\<close> fills the rest with zeros.\<close>

definition strncpy :: "nat \<Rightarrow> string \<Rightarrow> u8 list" where
  "strncpy n s = take n (map of_char s @ replicate n 0)"

fun strncmp_eq :: "nat \<Rightarrow> u8 list \<Rightarrow> u8 list \<Rightarrow> bool" where
  "strncmp_eq 0 a b \<longleftrightarrow> True"
| "strncmp_eq (Suc n) a b \<longleftrightarrow>
     (let x = (case a of [] \<Rightarrow> 0 | c # _ \<Rightarrow> c); y = (case b of [] \<Rightarrow> 0 | c # _ \<Rightarrow> c)
      in x = y \<and> (x = 0 \<or> strncmp_eq n (tl a) (tl b)))"

definition state_header :: "'x save_env \<Rightarrow> save_manager \<Rightarrow> u8 list" where
  "state_header env sm =
     STATE_MAGIC_NUM @ [SAVE_VERSION, if env_endian env = ENDIANNESS_BIG then SS_MSB_FIRST else 0] @
     strncpy (0x1c - 0x0a) (env_system env) @ put_u32le (state_signature env sm)"

definition validate_header :: "u8 list \<Rightarrow> string option \<Rightarrow> u32 \<Rightarrow> save_error" where
  "validate_header header gamename sig =
     (if take 8 header \<noteq> STATE_MAGIC_NUM then STATERR_INVALID_HEADER
      else if header ! 8 \<noteq> SAVE_VERSION then STATERR_INVALID_HEADER
      else if (case gamename of None \<Rightarrow> False | Some g \<Rightarrow> \<not> strncmp_eq (0x1c - 0x0a) (map of_char g) (drop 0x0a header)) then STATERR_INVALID_HEADER
      else if sig \<noteq> 0 \<and> unat sig \<noteq> get_u32le (drop 0x1c header) then STATERR_INVALID_HEADER
      else STATERR_NONE)"

text \<open>\<^verbatim>\<open>check_file\<close>: the file as its bytes, and whether reading it fails.\<close>

definition check_file :: "'x save_env \<Rightarrow> save_manager \<Rightarrow> bool \<Rightarrow> u8 list \<Rightarrow> string option \<Rightarrow> save_error" where
  "check_file env sm err file gamename =
     (if err \<or> length file < HEADER_SIZE then STATERR_READ_ERROR
      else validate_header (take HEADER_SIZE file) gamename (state_signature env sm))"

section \<open>Writing\<close>

definition mem_read :: "nat \<Rightarrow> nat \<Rightarrow> (nat \<Rightarrow> u8) \<Rightarrow> u8 list" where
  "mem_read a n m = map m [a..<a + n]"

definition mem_write :: "nat \<Rightarrow> u8 list \<Rightarrow> (nat \<Rightarrow> u8) \<Rightarrow> nat \<Rightarrow> u8" where
  "mem_write a bs m = (\<lambda>x. if a \<le> x \<and> x < a + length bs then bs ! (x - a) else m x)"

text \<open>The addresses and sizes of the blocks of an entry.\<close>

definition entry_blocks :: "state_entry \<Rightarrow> (nat \<times> nat) list" where
  "entry_blocks e = map (\<lambda>b. (entry_data e + b * m_stride e, blocksize e)) [0..<m_blockcount e]"

text \<open>Where a state goes: the functions that \<^verbatim>\<open>do_write\<close> and \<^verbatim>\<open>do_read\<close> get.\<close>

record 'w save_sink =
  check_space :: "nat \<Rightarrow> bool"
  write_block :: "u8 list \<Rightarrow> 'w \<Rightarrow> bool \<times> 'w"
  sink_header :: "'w \<Rightarrow> bool \<times> 'w"
  sink_data :: "'w \<Rightarrow> bool \<times> 'w"

record 'r save_source =
  check_length :: "nat \<Rightarrow> bool"
  read_block :: "nat \<Rightarrow> 'r \<Rightarrow> bool \<times> u8 list \<times> 'r"
  source_header :: "'r \<Rightarrow> bool \<times> 'r"
  source_data :: "'r \<Rightarrow> bool \<times> 'r"

fun write_blocks_from :: "'w save_sink \<Rightarrow> (nat \<Rightarrow> u8) \<Rightarrow> (nat \<times> nat) list \<Rightarrow> 'w \<Rightarrow> bool \<times> 'w" where
  "write_blocks_from sk m [] w = (True, w)"
| "write_blocks_from sk m ((a, n) # bl) w =
     (let (ok, w1) = write_block sk (mem_read a n m) w in if ok then write_blocks_from sk m bl w1 else (False, w1))"

definition do_write :: "'x save_env \<Rightarrow> 'w save_sink \<Rightarrow> save_manager \<Rightarrow> 'x save_host \<times> 'w \<Rightarrow> save_error \<times> 'x save_host \<times> 'w" where
  "do_write env sk sm hw =
     (let (h, w) = hw
      in if \<not> check_space sk (total_size sm) then (STATERR_WRITE_ERROR, h, w)
         else
           let (ok1, w1) = sink_header sk w
           in if \<not> ok1 then (STATERR_WRITE_ERROR, h, w1)
              else
                let (ok2, w2) = write_block sk (state_header env sm) w1
                in if \<not> ok2 then (STATERR_WRITE_ERROR, h, w2)
                   else
                     let (ok3, w3) = sink_data sk w2
                     in if \<not> ok3 then (STATERR_WRITE_ERROR, h, w3)
                        else
                          let h1 = dispatch_presave env sm h;
                              (ok4, w4) = write_blocks_from sk (host_mem h1) (concat (map entry_blocks (m_entry_list sm))) w3
                          in (if ok4 then STATERR_NONE else STATERR_WRITE_ERROR, h1, w4))"

section \<open>Reading\<close>

text \<open>A block that cannot be read completely leaves in memory what was read of it.\<close>

fun read_blocks_to :: "'r save_source \<Rightarrow> (nat \<times> nat) list \<Rightarrow> (nat \<Rightarrow> u8) \<Rightarrow> 'r \<Rightarrow> bool \<times> (nat \<Rightarrow> u8) \<times> 'r" where
  "read_blocks_to sc [] m r = (True, m, r)"
| "read_blocks_to sc ((a, n) # bl) m r =
     (let (ok, bs, r1) = read_block sc n r; m1 = mem_write a bs m in if ok then read_blocks_to sc bl m1 r1 else (False, m1, r1))"

definition swap_item :: "nat \<Rightarrow> nat \<Rightarrow> (nat \<Rightarrow> u8) \<Rightarrow> nat \<Rightarrow> u8" where
  "swap_item n a m = mem_write a (rev (mem_read a n m)) m"

text \<open>The addresses of the single values of an entry.\<close>

definition entry_items :: "state_entry \<Rightarrow> nat list" where
  "entry_items e = concat (map (\<lambda>b. map (\<lambda>c. entry_data e + b * m_stride e + c * m_typesize e) [0..<m_typecount e]) [0..<m_blockcount e])"

definition flip_data :: "state_entry \<Rightarrow> (nat \<Rightarrow> u8) \<Rightarrow> nat \<Rightarrow> u8" where
  "flip_data e m = (if m_typesize e \<in> {2, 4, 8} then fold (swap_item (m_typesize e)) (entry_items e) m else m)"

fun read_entries :: "'r save_source \<Rightarrow> bool \<Rightarrow> state_entry list \<Rightarrow> (nat \<Rightarrow> u8) \<Rightarrow> 'r \<Rightarrow> bool \<times> (nat \<Rightarrow> u8) \<times> 'r" where
  "read_entries sc flip [] m r = (True, m, r)"
| "read_entries sc flip (e # es) m r =
     (let (ok, m1, r1) = read_blocks_to sc (entry_blocks e) m r
      in if ok then read_entries sc flip es (if flip then flip_data e m1 else m1) r1 else (False, m1, r1))"

definition do_read :: "'x save_env \<Rightarrow> 'r save_source \<Rightarrow> save_manager \<Rightarrow> 'x save_host \<times> 'r \<Rightarrow> save_error \<times> 'x save_host \<times> 'r" where
  "do_read env sc sm hr =
     (let (h, r) = hr
      in if \<not> check_length sc (total_size sm) then (STATERR_READ_ERROR, h, r)
         else
           let (ok1, r1) = source_header sc r
           in if \<not> ok1 then (STATERR_READ_ERROR, h, r1)
              else
                let (ok2, header, r2) = read_block sc HEADER_SIZE r1
                in if \<not> ok2 then (STATERR_READ_ERROR, h, r2)
                   else
                     let (ok3, r3) = source_data sc r2
                     in if \<not> ok3 then (STATERR_READ_ERROR, h, r3)
                        else if validate_header header (Some (env_system env)) (state_signature env sm) \<noteq> STATERR_NONE then (STATERR_INVALID_HEADER, h, r3)
                        else
                          let msb = header ! 9 AND SS_MSB_FIRST \<noteq> 0;
                              flip = (if env_endian env = ENDIANNESS_LITTLE then msb else \<not> msb);
                              (ok4, m, r4) = read_entries sc flip (m_entry_list sm) (host_mem h) r3;
                              h1 = h\<lparr>host_mem := m\<rparr>
                          in if ok4 then (STATERR_NONE, dispatch_postload env sm h1, r4) else (STATERR_READ_ERROR, h1, r4))"

section \<open>Buffers\<close>

text \<open>\<^verbatim>\<open>write_buffer\<close>: the buffer, the place of the pointer in it, and whether a copy left the buffer.\<close>

definition buffer_sink :: "nat \<Rightarrow> (u8 list \<times> nat \<times> bool) save_sink" where
  "buffer_sink sz =
     \<lparr>check_space = (\<lambda>needed. sz = needed),
      write_block = (\<lambda>data (buf, p, ub).
        (True, take p buf @ take (length buf - p) data @ drop (p + length data) buf, p + length data, ub \<or> p + length data > length buf)),
      sink_header = Pair True, sink_data = Pair True\<rparr>"

definition write_buffer :: "'x save_env \<Rightarrow> nat \<Rightarrow> save_manager \<Rightarrow> 'x save_host \<Rightarrow> u8 list \<Rightarrow> save_error \<times> 'x save_host \<times> u8 list \<times> nat \<times> bool" where
  "write_buffer env sz sm h buf = do_write env (buffer_sink sz) sm (h, buf, 0, False)"

definition buffer_source :: "nat \<Rightarrow> (u8 list) save_source" where
  "buffer_source sz =
     \<lparr>check_length = (\<lambda>needed. sz = needed),
      read_block = (\<lambda>n p. if n > length p then (False, [], p) else (True, take n p, drop n p)),
      source_header = Pair True, source_data = Pair True\<rparr>"

definition read_buffer :: "'x save_env \<Rightarrow> u8 list \<Rightarrow> save_manager \<Rightarrow> 'x save_host \<Rightarrow> save_error \<times> 'x save_host \<times> u8 list" where
  "read_buffer env buf sm h = do_read env (buffer_source (length buf)) sm (h, buf)"

section \<open>Streams\<close>

definition stream_write :: "u8 list \<Rightarrow> vectorstream \<Rightarrow> bool \<times> vectorstream" where
  "stream_write data s =
     (if stream_fail s then (False, s)
      else (True, s\<lparr>stream_bytes := take (stream_put s) (stream_bytes s) @ data @ drop (stream_put s + length data) (stream_bytes s),
                    stream_put := stream_put s + length data\<rparr>))"

text \<open>A read past the end delivers what there is and makes the stream fail.\<close>

definition stream_read :: "nat \<Rightarrow> vectorstream \<Rightarrow> bool \<times> u8 list \<times> vectorstream" where
  "stream_read n s =
     (if stream_fail s then (False, [], s)
      else
        let bs = take n (drop (stream_get s) (stream_bytes s));
            s1 = s\<lparr>stream_get := stream_get s + length bs\<rparr>
        in if length bs = n then (True, bs, s1) else (False, bs, s1\<lparr>stream_fail := True\<rparr>))"

definition stream_sink :: "vectorstream save_sink" where
  "stream_sink = \<lparr>check_space = (\<lambda>needed. True), write_block = stream_write, sink_header = Pair True, sink_data = Pair True\<rparr>"

definition write_stream :: "'x save_env \<Rightarrow> save_manager \<Rightarrow> 'x save_host \<times> vectorstream \<Rightarrow> save_error \<times> 'x save_host \<times> vectorstream" where
  "write_stream env sm = do_write env stream_sink sm"

definition stream_source :: "vectorstream save_source" where
  "stream_source = \<lparr>check_length = (\<lambda>needed. True), read_block = stream_read, source_header = Pair True, source_data = Pair True\<rparr>"

definition read_stream :: "'x save_env \<Rightarrow> save_manager \<Rightarrow> 'x save_host \<times> vectorstream \<Rightarrow> save_error \<times> 'x save_host \<times> vectorstream" where
  "read_stream env sm = do_read env stream_source sm"

end
