(* ===== verification/Save_Roundtrip.thy ===== *)
theory Save_Roundtrip
  imports Save_Manager
begin

unbundle bit_operations_syntax

text \<open>
  States that are written and read back. The locale \<open>save_medium\<close> says what a medium for states promises, as \<^verbatim>\<open>do_write\<close> fills it
  and \<^verbatim>\<open>do_read\<close> empties it; it is interpreted on the buffers and on the streams of the code.
\<close>

section \<open>Memory\<close>

lemma mem_read_length [simp]: "length (mem_read a n m) = n"
  by (simp add: mem_read_def)

lemma mem_read_nth [simp]: "k < n \<Longrightarrow> mem_read a n m ! k = m (a + k)"
  by (simp add: mem_read_def)

text \<open>Pieces of memory by address and size, and when they do not overlap.\<close>

definition piece :: "nat \<times> nat \<Rightarrow> nat set" where
  "piece = (\<lambda>(a, n). {a..<a + n})"

definition apart :: "(nat \<times> nat) list \<Rightarrow> bool" where
  "apart = sorted_wrt (\<lambda>p q. piece p \<inter> piece q = {})"

lemma apart_simps [simp]: "apart []" "apart (p # ps) \<longleftrightarrow> (\<forall>q \<in> set ps. piece p \<inter> piece q = {}) \<and> apart ps"
  by (simp_all add: apart_def)

lemma apart_append: "apart (ps @ qs) \<longleftrightarrow> apart ps \<and> apart qs \<and> (\<forall>p \<in> set ps. \<forall>q \<in> set qs. piece p \<inter> piece q = {})"
  by (simp add: apart_def sorted_wrt_append)

lemma mem_write_out: "x \<notin> piece (a, length bs) \<Longrightarrow> mem_write a bs m x = m x"
  by (auto simp: mem_write_def piece_def)

lemma mem_read_write: "mem_read a (length bs) (mem_write a bs m) = bs"
  by (rule nth_equalityI) (simp_all add: mem_write_def)

lemma mem_read_out: "(\<And>x. x \<in> piece (a, n) \<Longrightarrow> m x = m' x) \<Longrightarrow> mem_read a n m = mem_read a n m'"
  by (auto simp: mem_read_def piece_def)

text \<open>Swapping the bytes of items that do not overlap.\<close>

lemma fold_swap_out: "x \<notin> (\<Union>a \<in> set as. piece (a, n)) \<Longrightarrow> fold (swap_item n) as m x = m x"
proof (induction as arbitrary: m)
  case (Cons a as)
  then have "swap_item n a m x = m x" by (simp add: swap_item_def mem_write_out)
  then show ?case using Cons by simp
qed simp

lemma fold_swap:
  assumes "apart (map (\<lambda>a. (a, n)) as)" "a \<in> set as"
  shows "mem_read a n (fold (swap_item n) as m) = rev (mem_read a n m)"
  using assms
proof (induction as arbitrary: m)
  case (Cons b as)
  have s: "mem_read b n (swap_item n b m) = rev (mem_read b n m)" using mem_read_write [of b "rev (mem_read b n m)" m] by (simp add: swap_item_def)
  show ?case
  proof (cases "a \<in> set as")
    case True
    then have "piece (b, n) \<inter> piece (a, n) = {}" using Cons.prems(1) by simp
    then have "mem_read a n (swap_item n b m) = mem_read a n m"
      by (intro mem_read_out) (auto simp: swap_item_def intro!: mem_write_out)
    then show ?thesis using Cons True by simp
  next
    case False
    then have "a = b" using Cons.prems(2) by simp
    have "mem_read b n (fold (swap_item n) as (swap_item n b m)) = mem_read b n (swap_item n b m)"
      using Cons.prems(1) by (intro mem_read_out fold_swap_out) auto
    then show ?thesis using s \<open>a = b\<close> by simp
  qed
qed simp

section \<open>Entries\<close>

definition entry_ok :: "state_entry \<Rightarrow> bool" where
  "entry_ok e \<longleftrightarrow> m_typesize e \<in> {1, 2, 4, 8} \<and> m_typesize e * m_typecount e < 2 ^ 32 \<and> m_typesize e * m_typecount e * m_blockcount e < 2 ^ 32"

definition entry_item :: "state_entry \<Rightarrow> nat \<Rightarrow> nat \<Rightarrow> nat" where
  "entry_item e b c = entry_data e + b * m_stride e + c * m_typesize e"

text \<open>The bytes of all blocks, in the order of the file.\<close>

definition entry_bytes :: "(nat \<Rightarrow> u8) \<Rightarrow> state_entry \<Rightarrow> u8 list" where
  "entry_bytes m e = concat (map (\<lambda>(a, n). mem_read a n m) (entry_blocks e))"

definition registered :: "state_entry list \<Rightarrow> nat set" where
  "registered es = (\<Union>p \<in> set (concat (map entry_blocks es)). piece p)"

definition disjoint_entries :: "state_entry list \<Rightarrow> bool" where
  "disjoint_entries es \<longleftrightarrow> apart (concat (map entry_blocks es))"

lemma entry_bytes_length: "entry_ok e \<Longrightarrow> length (entry_bytes m e) = m_typesize e * m_typecount e * m_blockcount e"
  by (simp add: entry_bytes_def entry_blocks_def length_concat comp_def blocksize_def entry_ok_def sum_list_triv)

lemma entry_items_eq: "entry_items e = concat (map (\<lambda>b. map (entry_item e b) [0..<m_typecount e]) [0..<m_blockcount e])"
  by (simp add: entry_items_def entry_item_def [abs_def])

lemma item_in_block:
  assumes "entry_ok e" "c < m_typecount e"
  shows "piece (entry_item e b c, m_typesize e) \<subseteq> piece (entry_data e + b * m_stride e, blocksize e)"
proof -
  have "c * m_typesize e + m_typesize e \<le> m_typecount e * m_typesize e" using assms(2) mult_le_mono1 [of "Suc c" "m_typecount e" "m_typesize e"] by simp
  then show ?thesis using assms(1) by (auto simp: piece_def entry_item_def blocksize_def entry_ok_def mult.commute)
qed

lemma apart_map_upt: "(\<And>i j. i < j \<Longrightarrow> j < k \<Longrightarrow> piece (f i) \<inter> piece (f j) = {}) \<Longrightarrow> apart (map f [0..<k])"
  by (auto simp: apart_def sorted_wrt_iff_nth_less)

lemma items_in_blocks:
  assumes "entry_ok e" "a \<in> set (entry_items e)"
  shows "\<exists>p \<in> set (entry_blocks e). piece (a, m_typesize e) \<subseteq> piece p"
proof -
  obtain b c where "b < m_blockcount e" "c < m_typecount e" "a = entry_item e b c" using assms(2) by (auto simp: entry_items_eq)
  then show ?thesis using item_in_block [OF assms(1), of c b] by (auto simp: entry_blocks_def)
qed

lemma items_apart:
  assumes "entry_ok e" "apart (entry_blocks e)"
  shows "apart (map (\<lambda>a. (a, m_typesize e)) (entry_items e))"
proof -
  have row: "apart (map (\<lambda>c. (entry_item e b c, m_typesize e)) [0..<m_typecount e])" for b
  proof (rule apart_map_upt)
    fix i j :: nat
    assume "i < j"
    then have "i * m_typesize e + m_typesize e \<le> j * m_typesize e" using mult_le_mono1 [of "Suc i" j "m_typesize e"] by simp
    then show "piece (entry_item e b i, m_typesize e) \<inter> piece (entry_item e b j, m_typesize e) = {}" by (auto simp: piece_def entry_item_def)
  qed
  have "apart (map (\<lambda>a. (a, m_typesize e)) (concat (map (\<lambda>b. map (entry_item e b) [0..<m_typecount e]) [0..<k])))"
    if "k \<le> m_blockcount e" for k
    using that
  proof (induction k)
    case (Suc k)
    have "piece (entry_item e b c, m_typesize e) \<inter> piece (entry_item e k d, m_typesize e) = {}"
      if "b < k" "c < m_typecount e" "d < m_typecount e" for b c d
    proof -
      have "piece (entry_data e + b * m_stride e, blocksize e) \<inter> piece (entry_data e + k * m_stride e, blocksize e) = {}"
        using assms(2) Suc.prems that(1) by (simp add: apart_def entry_blocks_def sorted_wrt_iff_nth_less)
      then show ?thesis using item_in_block [OF assms(1) that(2), of b] item_in_block [OF assms(1) that(3), of k] by blast
    qed
    then show ?case using Suc row [of k] by (auto simp: apart_append comp_def)
  qed simp
  from this [of "m_blockcount e"] show ?thesis by (simp add: entry_items_eq)
qed

lemma flip_data_out: "entry_ok e \<Longrightarrow> x \<notin> registered [e] \<Longrightarrow> flip_data e m x = m x"
proof -
  assume e: "entry_ok e" "x \<notin> registered [e]"
  have "x \<notin> piece (a, m_typesize e)" if "a \<in> set (entry_items e)" for a
    using items_in_blocks [OF e(1) that] e(2) by (auto simp: registered_def)
  then have "x \<notin> (\<Union>a \<in> set (entry_items e). piece (a, m_typesize e))" by blast
  then show ?thesis by (simp add: flip_data_def fold_swap_out)
qed

lemma flip_data_item:
  assumes "entry_ok e" "apart (entry_blocks e)" "b < m_blockcount e" "c < m_typecount e"
  shows "mem_read (entry_item e b c) (m_typesize e) (flip_data e m) = rev (mem_read (entry_item e b c) (m_typesize e) m)"
proof (cases "m_typesize e = 1")
  case True
  then show ?thesis by (simp add: flip_data_def mem_read_def)
next
  case False
  have "entry_item e b c \<in> set (entry_items e)" using assms(3,4) by (auto simp: entry_items_eq intro!: bexI [of _ b])
  then show ?thesis using False assms(1) fold_swap [OF items_apart [OF assms(1,2)]] by (simp add: flip_data_def entry_ok_def)
qed

text \<open>Two entries of one layout, in two hosts, and the values of one copied to the other.\<close>

definition same_layout :: "state_entry \<Rightarrow> state_entry \<Rightarrow> bool" where
  "same_layout e1 e2 \<longleftrightarrow> entry_name e1 = entry_name e2 \<and> m_typesize e1 = m_typesize e2 \<and> m_typecount e1 = m_typecount e2 \<and> m_blockcount e1 = m_blockcount e2"

definition items_copied :: "bool \<Rightarrow> (nat \<Rightarrow> u8) \<Rightarrow> (nat \<Rightarrow> u8) \<Rightarrow> state_entry \<Rightarrow> state_entry \<Rightarrow> bool" where
  "items_copied flip m1 m2 e1 e2 \<longleftrightarrow> (\<forall>b < m_blockcount e2. \<forall>c < m_typecount e2.
     mem_read (entry_item e2 b c) (m_typesize e2) m2 =
       (if flip then rev (mem_read (entry_item e1 b c) (m_typesize e2) m1) else mem_read (entry_item e1 b c) (m_typesize e2) m1))"

section \<open>The header\<close>

lemma put_u32le_length [simp]: "length (put_u32le w) = 4"
  by (simp add: put_u32le_def)

lemma get_put_u32le: "get_u32le (put_u32le w) = unat w"
proof -
  have l: "unat w < 2 ^ 32" using unsigned_less [of w, where 'a = nat] by simp
  have "unat (ucast (drop_bit k w) :: u8) = unat w div 2 ^ k mod 2 ^ 8" for k
    using l by (simp add: unsigned_ucast_eq unsigned_drop_bit_eq take_bit_nat_eq_self) (simp add: take_bit_eq_mod drop_bit_eq_div)
  from this [of 0] this [of 8] this [of 16] this [of 24]
  have g: "get_u32le (put_u32le w) = unat w mod 256 + (unat w div 256 mod 256) * 256 + (unat w div 65536 mod 256) * 65536 + (unat w div 16777216 mod 256) * 16777216"
    by (simp add: get_u32le_def put_u32le_def)
  have "unat w div 16777216 mod 256 = unat w div 16777216" using l by (simp add: mod_less)
  moreover have "unat w div 16777216 = unat w div 65536 div 256" "unat w div 65536 = unat w div 256 div 256" by (simp_all add: div_mult2_eq [symmetric])
  moreover have "x mod 256 + x div 256 * 256 = x" for x :: nat by simp
  from this [of "unat w"] this [of "unat w div 256"] this [of "unat w div 65536"]
  have "unat w = unat w mod 256 + unat w div 256 * 256" "unat w div 256 = unat w div 256 mod 256 + unat w div 256 div 256 * 256"
    "unat w div 65536 = unat w div 65536 mod 256 + unat w div 65536 div 256 * 256" by simp_all
  ultimately show ?thesis unfolding g by linarith
qed

lemma strncmp_strncpy: "n \<le> k \<Longrightarrow> strncmp_eq n a (take n (a @ replicate k 0) @ c)"
proof (induction n arbitrary: a k)
  case (Suc n)
  show ?case
  proof (cases a)
    case Nil
    then show ?thesis using Suc.prems by (cases k) simp_all
  next
    case (Cons x b)
    then show ?thesis using Suc.IH [of k b] Suc.prems by simp
  qed
qed simp

lemma state_header_length [simp]: "length (state_header env sm) = 32"
  by (simp add: state_header_def STATE_MAGIC_NUM_def strncpy_def)

lemma state_header_parts:
  "take 8 (state_header env sm) = STATE_MAGIC_NUM" "state_header env sm ! 8 = 2"
  "state_header env sm ! 9 = (if env_endian env = ENDIANNESS_BIG then 2 else 0)"
  "drop 10 (state_header env sm) = strncpy 18 (env_system env) @ put_u32le (state_signature env sm)"
  "drop 28 (state_header env sm) = put_u32le (state_signature env sm)"
  by (simp_all add: state_header_def STATE_MAGIC_NUM_def strncpy_def nth_append)

lemma header_valid:
  assumes "env_system env2 = env_system env1" "state_signature env2 sm2 = state_signature env1 sm1"
  shows "validate_header (state_header env1 sm1) (Some (env_system env2)) (state_signature env2 sm2) = STATERR_NONE"
  using strncmp_strncpy [of 18 18 "map of_char (env_system env1)" "put_u32le (state_signature env1 sm1)"] assms
  by (simp add: validate_header_def state_header_parts get_put_u32le strncpy_def)

section \<open>The whole state\<close>

definition layout_fits :: "save_manager \<Rightarrow> bool" where
  "layout_fits sm \<longleftrightarrow> (\<forall>e \<in> set (m_entry_list sm). entry_ok e) \<and>
     32 + (\<Sum>e \<leftarrow> m_entry_list sm. m_typesize e * m_typecount e * m_blockcount e) < 2 ^ 64"

definition state_bytes :: "'x save_env \<Rightarrow> save_manager \<Rightarrow> 'x save_host \<Rightarrow> u8 list" where
  "state_bytes env sm h = state_header env sm @ concat (map (entry_bytes (host_mem h)) (m_entry_list sm))"

lemma sizes_sum:
  assumes "\<forall>e \<in> set es. entry_ok e" "n + (\<Sum>e \<leftarrow> es. m_typesize e * m_typecount e * m_blockcount e) < 2 ^ 64"
  shows "foldl (\<lambda>n e. (n + m_typesize e * m_typecount e * m_blockcount e mod 2 ^ 32) mod 2 ^ 64) n es =
    n + (\<Sum>e \<leftarrow> es. m_typesize e * m_typecount e * m_blockcount e)"
  using assms
proof (induction es arbitrary: n)
  case (Cons e es)
  define k where "k = m_typesize e * m_typecount e * m_blockcount e"
  have "k mod 2 ^ 32 = k" using Cons.prems(1) by (simp add: entry_ok_def k_def)
  moreover have "(n + k) mod 2 ^ 64 = n + k" using Cons.prems(2) by (simp add: k_def)
  ultimately show ?case using Cons.IH [of "n + k"] Cons.prems by (simp add: k_def [symmetric] add.assoc)
qed simp

lemma total_size_sum:
  assumes "layout_fits sm"
  shows "total_size sm = 32 + (\<Sum>e \<leftarrow> m_entry_list sm. m_typesize e * m_typecount e * m_blockcount e)" "ram_state_get_size sm = total_size sm"
proof -
  show t: "total_size sm = 32 + (\<Sum>e \<leftarrow> m_entry_list sm. m_typesize e * m_typecount e * m_blockcount e)"
    using assms sizes_sum [of "m_entry_list sm" 32] by (simp add: layout_fits_def total_size_def)
  show "ram_state_get_size sm = total_size sm"
    using assms sizes_sum [of "m_entry_list sm" 0] unfolding t by (simp add: layout_fits_def ram_state_get_size_def)
qed

lemma entry_blocks_sum: "entry_ok e \<Longrightarrow> sum_list (map snd (entry_blocks e)) = m_typesize e * m_typecount e * m_blockcount e"
  by (simp add: entry_blocks_def comp_def sum_list_triv blocksize_def entry_ok_def)

lemma total_size_blocks:
  assumes "layout_fits sm"
  shows "total_size sm = 32 + sum_list (map snd (concat (map entry_blocks (m_entry_list sm))))"
proof -
  have "sum_list (map snd (concat (map entry_blocks es))) = (\<Sum>e \<leftarrow> es. m_typesize e * m_typecount e * m_blockcount e)" if "\<forall>e \<in> set es. entry_ok e" for es
    using that by (induction es) (simp_all add: entry_blocks_sum)
  then show ?thesis using assms by (simp add: total_size_sum layout_fits_def)
qed

lemma state_bytes_eq:
  "state_bytes env sm h = state_header env sm @ concat (map (\<lambda>(a, n). mem_read a n (host_mem h)) (concat (map entry_blocks (m_entry_list sm))))"
proof -
  have "concat (map (entry_bytes m) es) = concat (map (\<lambda>(a, n). mem_read a n m) (concat (map entry_blocks es)))" for m es
    by (induction es) (simp_all add: entry_bytes_def)
  then show ?thesis by (simp add: state_bytes_def)
qed

lemma state_bytes_length: "layout_fits sm \<Longrightarrow> length (state_bytes env sm h) = total_size sm"
proof -
  assume f: "layout_fits sm"
  have "length (concat (map (entry_bytes m) es)) = (\<Sum>e \<leftarrow> es. m_typesize e * m_typecount e * m_blockcount e)" if "\<forall>e \<in> set es. entry_ok e" for es m
    using that by (induction es) (simp_all add: entry_bytes_length)
  then show ?thesis using f by (simp add: state_bytes_def total_size_sum layout_fits_def)
qed

lemma same_signature:
  assumes "list_all2 same_layout (m_entry_list sm1) (m_entry_list sm2)" "env_crc32 env2 = env_crc32 env1"
  shows "state_signature env2 sm2 = state_signature env1 sm1"
proof -
  define f where "f crc (e :: state_entry) = env_crc32 env1 (env_crc32 env1 crc (map of_char (entry_name e)))
     (put_u32le (word_of_nat (m_typesize e)) @ put_u32le (word_of_nat (m_typecount e)) @ put_u32le (word_of_nat (m_blockcount e)) @ put_u32le 0)" for crc e
  have "foldl f c es2 = foldl f c es1" if "list_all2 same_layout es1 es2" for es1 es2 c
    using that by (induction arbitrary: c rule: list_all2_induct) (simp_all add: same_layout_def f_def)
  from this [OF assms(1), of 0] show ?thesis unfolding state_signature_def assms(2) f_def by assumption
qed

section \<open>Media\<close>

text \<open>What is written to the medium comes out of it again, in pieces of any sizes. \<open>content\<close> is what was written so far, \<open>room\<close> says how many
  bytes still fit, and \<open>holds\<close> what is left to read.\<close>

locale save_medium =
  fixes sk :: "'w save_sink" and sc :: "'r save_source" and content :: "'w \<Rightarrow> u8 list" and room :: "nat \<Rightarrow> 'w \<Rightarrow> bool"
    and holds :: "u8 list \<Rightarrow> 'r \<Rightarrow> bool"
  assumes sink_starts: "sink_header sk w = (True, w)" "sink_data sk w = (True, w)"
    and sink_write: "room (length bs + n) w \<Longrightarrow> \<exists>w'. write_block sk bs w = (True, w') \<and> content w' = content w @ bs \<and> room n w'"
    and source_starts: "source_header sc r = (True, r)" "source_data sc r = (True, r)"
    and source_read: "holds (bs @ cs) r \<Longrightarrow> \<exists>r'. read_block sc (length bs) r = (True, bs, r') \<and> holds cs r'"
begin

lemma written_blocks:
  assumes "room (sum_list (map snd bl) + n) w"
  shows "\<exists>w'. write_blocks_from sk m bl w = (True, w') \<and> content w' = content w @ concat (map (\<lambda>(a, n). mem_read a n m) bl) \<and> room n w'"
  using assms
proof (induction bl arbitrary: w)
  case (Cons p bl)
  obtain a k where p: "p = (a, k)" by (cases p)
  have "room (length (mem_read a k m) + (sum_list (map snd bl) + n)) w" using Cons.prems by (simp add: p add.assoc)
  from sink_write [OF this] obtain w1 where w1: "write_block sk (mem_read a k m) w = (True, w1)" "content w1 = content w @ mem_read a k m"
    "room (sum_list (map snd bl) + n) w1" by blast
  from Cons.IH [OF w1(3)] show ?case using w1(1,2) by (auto simp: p)
qed simp

lemma read_blocks:
  assumes "holds (concat (map snd ps) @ cs) r" "apart (map (\<lambda>(a, bs). (a, length bs)) ps)"
  shows "\<exists>m' r'. read_blocks_to sc (map (\<lambda>(a, bs). (a, length bs)) ps) m r = (True, m', r') \<and> holds cs r' \<and>
    (\<forall>(a, bs) \<in> set ps. mem_read a (length bs) m' = bs) \<and>
    (\<forall>x. x \<notin> (\<Union>p \<in> set (map (\<lambda>(a, bs). (a, length bs)) ps). piece p) \<longrightarrow> m' x = m x)"
  using assms
proof (induction ps arbitrary: m r)
  case (Cons p ps)
  obtain a bs where p: "p = (a, bs)" by (cases p)
  let ?bl = "map (\<lambda>(a, bs). (a, length bs)) ps"
  have "holds (bs @ (concat (map snd ps) @ cs)) r" using Cons.prems(1) by (simp add: p)
  from source_read [OF this] obtain r1 where r1: "read_block sc (length bs) r = (True, bs, r1)" "holds (concat (map snd ps) @ cs) r1" by auto
  have "apart ?bl" using Cons.prems(2) by simp
  from Cons.IH [OF r1(2) this, of "mem_write a bs m"] obtain m' r' where m':
    "read_blocks_to sc ?bl (mem_write a bs m) r1 = (True, m', r')" "holds cs r'" "\<forall>(a, bs) \<in> set ps. mem_read a (length bs) m' = bs"
    "\<And>x. x \<notin> (\<Union>p \<in> set ?bl. piece p) \<Longrightarrow> m' x = mem_write a bs m x" by blast
  have d: "\<forall>q \<in> set ?bl. piece (a, length bs) \<inter> piece q = {}" using Cons.prems(2) unfolding p list.map prod.case apart_simps by (rule conjunct1)
  then have "x \<notin> (\<Union>p \<in> set ?bl. piece p)" if "x \<in> piece (a, length bs)" for x using that by blast
  then have "mem_read a (length bs) m' = mem_read a (length bs) (mem_write a bs m)" using m'(4) by (intro mem_read_out) blast
  then have f: "mem_read a (length bs) m' = bs" using mem_read_write [of a bs m] by simp
  have "m' x = m x" if "x \<notin> (\<Union>p \<in> set (map (\<lambda>(a, bs). (a, length bs)) (p # ps)). piece p)" for x
    using that m'(4) [of x] mem_write_out [of x a bs m] by (simp add: p)
  then show ?case using r1(1) m'(1-3) f by (simp add: p)
qed simp

lemma read_entry:
  assumes "holds (entry_bytes m1 e1 @ cs) r" "same_layout e1 e2" "entry_ok e2" "apart (entry_blocks e2)"
  shows "\<exists>m' r'. read_blocks_to sc (entry_blocks e2) m r = (True, m', r') \<and> holds cs r' \<and>
    items_copied flip m1 (if flip then flip_data e2 m' else m') e1 e2 \<and>
    (\<forall>x. x \<notin> registered [e2] \<longrightarrow> (if flip then flip_data e2 m' else m') x = m x)"
proof -
  define ps where "ps = map (\<lambda>b. (entry_data e2 + b * m_stride e2, mem_read (entry_data e1 + b * m_stride e1) (blocksize e1) m1)) [0..<m_blockcount e2]"
  have bs: "blocksize e1 = blocksize e2" using assms(2) by (simp add: same_layout_def blocksize_def)
  have bl: "map (\<lambda>(a, bs). (a, length bs)) ps = entry_blocks e2" by (simp add: ps_def entry_blocks_def bs comp_def)
  have "concat (map snd ps) = entry_bytes m1 e1" using assms(2) by (simp add: ps_def entry_bytes_def entry_blocks_def comp_def same_layout_def)
  with assms(1) have "holds (concat (map snd ps) @ cs) r" by simp
  from read_blocks [OF this, of m, unfolded bl, OF assms(4)] obtain m' r' where m0: "read_blocks_to sc (entry_blocks e2) m r = (True, m', r')" "holds cs r'"
    "\<forall>(a, bs) \<in> set ps. mem_read a (length bs) m' = bs" "\<forall>x. x \<notin> (\<Union>p \<in> set (entry_blocks e2). piece p) \<longrightarrow> m' x = m x" by blast
  have m': "read_blocks_to sc (entry_blocks e2) m r = (True, m', r')" "holds cs r'"
    "\<And>a bs. (a, bs) \<in> set ps \<Longrightarrow> mem_read a (length bs) m' = bs" "\<And>x. x \<notin> registered [e2] \<Longrightarrow> m' x = m x"
    using m0 by (auto simp: registered_def)
  have copied: "mem_read (entry_item e2 b c) (m_typesize e2) m' = mem_read (entry_item e1 b c) (m_typesize e2) m1"
    if "b < m_blockcount e2" "c < m_typecount e2" for b c
  proof -
    have "(entry_data e2 + b * m_stride e2, mem_read (entry_data e1 + b * m_stride e1) (blocksize e1) m1) \<in> set ps"
      unfolding ps_def using that(1) by (simp add: image_iff) (rule bexI [of _ b], simp_all)
    from m'(3) [OF this] have e: "mem_read (entry_data e2 + b * m_stride e2) (blocksize e2) m' = mem_read (entry_data e1 + b * m_stride e1) (blocksize e2) m1"
      by (simp add: bs)
    have c: "c * m_typesize e2 + m_typesize e2 \<le> blocksize e2"
      using that(2) assms(3) mult_le_mono1 [of "Suc c" "m_typecount e2" "m_typesize e2"] by (simp add: blocksize_def entry_ok_def mult.commute)
    show ?thesis
    proof (rule nth_equalityI)
      fix k
      assume "k < length (mem_read (entry_item e2 b c) (m_typesize e2) m')"
      then have k: "k < m_typesize e2" by simp
      then have "m' (entry_data e2 + b * m_stride e2 + (c * m_typesize e2 + k)) = m1 (entry_data e1 + b * m_stride e1 + (c * m_typesize e2 + k))"
        using arg_cong [OF e, of "\<lambda>l. l ! (c * m_typesize e2 + k)"] c by simp
      then show "mem_read (entry_item e2 b c) (m_typesize e2) m' ! k = mem_read (entry_item e1 b c) (m_typesize e2) m1 ! k"
        using k assms(2) by (simp add: entry_item_def same_layout_def add.assoc)
    qed simp
  qed
  have "items_copied flip m1 (if flip then flip_data e2 m' else m') e1 e2"
    using copied flip_data_item [OF assms(3,4)] by (simp add: items_copied_def)
  moreover have "(if flip then flip_data e2 m' else m') x = m x" if "x \<notin> registered [e2]" for x
    using m'(4) [OF that] flip_data_out [OF assms(3) that] by simp
  ultimately show ?thesis using m'(1,2) by blast
qed

lemma entries_read:
  assumes "holds (concat (map (entry_bytes m1) es1) @ cs) r" "list_all2 same_layout es1 es2" "\<forall>e \<in> set es2. entry_ok e" "disjoint_entries es2"
  shows "\<exists>m' r'. read_entries sc flip es2 m r = (True, m', r') \<and> holds cs r' \<and> list_all2 (items_copied flip m1 m') es1 es2 \<and>
    (\<forall>x. x \<notin> registered es2 \<longrightarrow> m' x = m x)"
  using assms(2,1,3,4)
proof (induction es1 es2 arbitrary: m r rule: list_all2_induct)
  case (Cons e1 es1 e2 es2)
  have d: "apart (entry_blocks e2)" "disjoint_entries es2" "registered [e2] \<inter> registered es2 = {}"
    using Cons.prems(3) by (auto simp: disjoint_entries_def apart_append registered_def)
  have "holds (entry_bytes m1 e1 @ (concat (map (entry_bytes m1) es1) @ cs)) r" using Cons.prems(1) by simp
  from read_entry [OF this Cons.hyps(1) _ d(1), of m flip] Cons.prems(2) obtain m2 r2 where m2:
    "read_blocks_to sc (entry_blocks e2) m r = (True, m2, r2)" "holds (concat (map (entry_bytes m1) es1) @ cs) r2"
    "items_copied flip m1 (if flip then flip_data e2 m2 else m2) e1 e2"
    "\<And>x. x \<notin> registered [e2] \<Longrightarrow> (if flip then flip_data e2 m2 else m2) x = m x" by auto
  define m3 where "m3 = (if flip then flip_data e2 m2 else m2)"
  from Cons.IH [OF m2(2) _ d(2), of m3] Cons.prems(2) obtain m' r' where m':
    "read_entries sc flip es2 m3 r2 = (True, m', r')" "holds cs r'" "list_all2 (items_copied flip m1 m') es1 es2"
    "\<And>x. x \<notin> registered es2 \<Longrightarrow> m' x = m3 x" by auto
  have ok: "entry_ok e2" using Cons.prems(2) by simp
  have "mem_read (entry_item e2 b c) (m_typesize e2) m' = mem_read (entry_item e2 b c) (m_typesize e2) m3"
    if "b < m_blockcount e2" "c < m_typecount e2" for b c
  proof (rule mem_read_out)
    fix x
    assume "x \<in> piece (entry_item e2 b c, m_typesize e2)"
    then have "x \<in> registered [e2]"
      using item_in_block [OF ok that(2), of b] that(1) by (auto simp: registered_def entry_blocks_def)
    then show "m' x = m3 x" using d(3) m'(4) [of x] by blast
  qed
  then have "items_copied flip m1 m' e1 e2" using m2(3) by (simp add: items_copied_def m3_def)
  moreover have "m' x = m x" if "x \<notin> registered (e2 # es2)" for x
    using that m2(4) [of x] m'(4) [of x] by (simp add: registered_def m3_def)
  ultimately show ?case using m2(1) m'(1-3) by (simp add: m3_def)
qed (simp add: registered_def)

text \<open>The whole state.\<close>

lemma do_write_ok:
  assumes "layout_fits sm" "check_space sk (total_size sm)" "room (total_size sm) w"
  shows "\<exists>w'. do_write env sk sm (h, w) = (STATERR_NONE, dispatch_presave env sm h, w') \<and>
    content w' = content w @ state_bytes env sm (dispatch_presave env sm h) \<and> room 0 w'"
proof -
  let ?bl = "concat (map entry_blocks (m_entry_list sm))"
  have t: "total_size sm = length (state_header env sm) + (sum_list (map snd ?bl) + 0)" using total_size_blocks [OF assms(1)] by simp
  from sink_write [OF assms(3) [unfolded t]] obtain w1 where w1: "write_block sk (state_header env sm) w = (True, w1)"
    "content w1 = content w @ state_header env sm" "room (sum_list (map snd ?bl) + 0) w1" by blast
  from written_blocks [OF w1(3), of "host_mem (dispatch_presave env sm h)"] obtain w2 where
    "write_blocks_from sk (host_mem (dispatch_presave env sm h)) ?bl w1 = (True, w2)"
    "content w2 = content w1 @ concat (map (\<lambda>(a, n). mem_read a n (host_mem (dispatch_presave env sm h))) ?bl)" "room 0 w2" by blast
  then show ?thesis using assms(2) w1(1,2) by (simp add: do_write_def sink_starts state_bytes_eq Let_def)
qed

lemma do_read_ok:
  assumes "holds (state_bytes env1 sm1 h1 @ cs) r" "list_all2 same_layout (m_entry_list sm1) (m_entry_list sm2)" "layout_fits sm2"
    "disjoint_entries (m_entry_list sm2)" "check_length sc (total_size sm2)" "env_crc32 env2 = env_crc32 env1" "env_system env2 = env_system env1"
  shows "\<exists>m' r'. do_read env2 sc sm2 (g, r) = (STATERR_NONE, dispatch_postload env2 sm2 (g\<lparr>host_mem := m'\<rparr>), r') \<and> holds cs r' \<and>
    list_all2 (items_copied (env_endian env1 \<noteq> env_endian env2) (host_mem h1) m') (m_entry_list sm1) (m_entry_list sm2) \<and>
    (\<forall>x. x \<notin> registered (m_entry_list sm2) \<longrightarrow> m' x = host_mem g x)"
proof -
  have sig: "state_signature env2 sm2 = state_signature env1 sm1" using same_signature [OF assms(2,6)] by simp
  have "holds (state_header env1 sm1 @ (concat (map (entry_bytes (host_mem h1)) (m_entry_list sm1)) @ cs)) r" using assms(1) by (simp add: state_bytes_def)
  from source_read [OF this] obtain r1 where r1: "read_block sc 32 r = (True, state_header env1 sm1, r1)"
    "holds (concat (map (entry_bytes (host_mem h1)) (m_entry_list sm1)) @ cs) r1" by auto
  let ?flip = "env_endian env1 \<noteq> env_endian env2"
  have flip: "(if env_endian env2 = ENDIANNESS_LITTLE then state_header env1 sm1 ! 9 AND 2 \<noteq> 0 else state_header env1 sm1 ! 9 AND 2 = 0) = ?flip"
    by (cases "env_endian env1"; cases "env_endian env2") (simp_all add: state_header_parts)
  have "\<forall>e \<in> set (m_entry_list sm2). entry_ok e" using assms(3) by (simp add: layout_fits_def)
  from entries_read [OF r1(2) assms(2) this assms(4), of ?flip "host_mem g"] obtain m' r' where m':
    "read_entries sc ?flip (m_entry_list sm2) (host_mem g) r1 = (True, m', r')" "holds cs r'"
    "list_all2 (items_copied ?flip (host_mem h1) m') (m_entry_list sm1) (m_entry_list sm2)" "\<forall>x. x \<notin> registered (m_entry_list sm2) \<longrightarrow> m' x = host_mem g x" by blast
  have "do_read env2 sc sm2 (g, r) = (STATERR_NONE, dispatch_postload env2 sm2 (g\<lparr>host_mem := m'\<rparr>), r')"
    by (simp only: do_read_def Let_def prod.case source_starts r1(1) header_valid [OF assms(7) sig] assms(5) flip m'(1) simp_thms if_True if_False)
  with m'(2-4) show ?thesis by blast
qed

end

text \<open>The media of the code: buffers of a fixed size, and streams over vectors.\<close>

interpretation buffer: save_medium "buffer_sink N" "buffer_source N" "\<lambda>(buf, p, ub). take p buf"
    "\<lambda>n (buf, p, ub). \<not> ub \<and> length buf = N \<and> p + n \<le> N" "\<lambda>bs r. r = bs" for N
proof
  fix n :: nat and bs :: "u8 list" and w :: "u8 list \<times> nat \<times> bool"
  obtain buf p ub where w: "w = (buf, p, ub)" by (cases w)
  show "\<exists>w'. write_block (buffer_sink N) bs w = (True, w') \<and> (case w' of (buf, p, ub) \<Rightarrow> take p buf) = (case w of (buf, p, ub) \<Rightarrow> take p buf) @ bs \<and>
      (case w' of (buf, p, ub) \<Rightarrow> \<not> ub \<and> length buf = N \<and> p + n \<le> N)"
    if "case w of (buf, p, ub) \<Rightarrow> \<not> ub \<and> length buf = N \<and> p + (length bs + n) \<le> N"
  proof -
    have f: "\<not> ub" "length buf = N" "p + length bs + n \<le> N" using that by (simp_all add: w)
    then have "take (N - p) bs = bs" "min p N = p" "min (length bs) (N - p) = length bs" by simp_all
    then show ?thesis using f by (simp add: w buffer_sink_def)
  qed
qed (simp_all add: buffer_sink_def buffer_source_def)

interpretation vector_stream: save_medium stream_sink stream_source "\<lambda>s. take (stream_put s) (stream_bytes s)"
    "\<lambda>n s. \<not> stream_fail s \<and> stream_put s \<le> length (stream_bytes s)"
    "\<lambda>bs s. \<not> stream_fail s \<and> stream_get s \<le> length (stream_bytes s) \<and> take (length bs) (drop (stream_get s) (stream_bytes s)) = bs"
proof
  fix bs cs :: "u8 list" and r :: vectorstream
  assume a: "\<not> stream_fail r \<and> stream_get r \<le> length (stream_bytes r) \<and> take (length (bs @ cs)) (drop (stream_get r) (stream_bytes r)) = bs @ cs"
  define d where "d = drop (stream_get r) (stream_bytes r)"
  have t: "take (length bs + length cs) d = bs @ cs" using a by (simp add: d_def)
  then have l: "length bs + length cs \<le> length d" by (metis length_append length_take min.absorb_iff2 min.commute)
  have b: "take (length bs) d = bs" "take (length cs) (drop (length bs) d) = cs"
    using arg_cong [OF t, of "take (length bs)"] arg_cong [OF t, of "drop (length bs)"] by (simp_all add: drop_take)
  have "stream_get r + length bs \<le> length (stream_bytes r)" using l a unfolding d_def length_drop by linarith
  then show "\<exists>r'. read_block stream_source (length bs) r = (True, bs, r') \<and> \<not> stream_fail r' \<and> stream_get r' \<le> length (stream_bytes r') \<and>
      take (length cs) (drop (stream_get r') (stream_bytes r')) = cs"
    using a b l by (simp add: stream_source_def stream_read_def d_def [symmetric]) (simp add: d_def add.commute)
qed (simp_all add: stream_sink_def stream_source_def stream_write_def)

section \<open>Saving and loading\<close>

text \<open>C19. A state that one machine saves can be loaded by another with the same registered items, on a host of either byte order and with its
  items elsewhere in memory: both operations succeed, every item gets the value it had when the state was saved, after the presave callbacks, and
  then the postload callbacks run. The save stays in its buffer, and no other memory changes.\<close>

theorem save_state_portable:
  assumes "list_all2 same_layout (m_entry_list sm1) (m_entry_list sm2)" "layout_fits sm1" "layout_fits sm2" "disjoint_entries (m_entry_list sm2)"
    "env_crc32 env2 = env_crc32 env1" "env_system env2 = env_system env1" "length buf = total_size sm1"
  shows "let h1 = dispatch_presave env1 sm1 g1 in \<exists>buf' m. write_buffer env1 (length buf) sm1 g1 buf = (STATERR_NONE, h1, buf', length buf, False) \<and>
    read_buffer env2 buf' sm2 g2 = (STATERR_NONE, dispatch_postload env2 sm2 (g2\<lparr>host_mem := m\<rparr>), []) \<and>
    (\<forall>i < length (m_entry_list sm2). let e1 = m_entry_list sm1 ! i; e2 = m_entry_list sm2 ! i
       in \<forall>b < m_blockcount e2. \<forall>c < m_typecount e2.
         bytes_value (env_endian env2) (mem_read (entry_item e2 b c) (m_typesize e2) m) =
         bytes_value (env_endian env1) (mem_read (entry_item e1 b c) (m_typesize e1) (host_mem h1))) \<and>
    (\<forall>x. x \<notin> registered (m_entry_list sm2) \<longrightarrow> m x = host_mem g2 x)"
proof -
  define h1 where "h1 = dispatch_presave env1 sm1 g1"
  have size: "total_size sm2 = total_size sm1"
  proof -
    have "(\<Sum>e \<leftarrow> es2. m_typesize e * m_typecount e * m_blockcount e) = (\<Sum>e \<leftarrow> es1. m_typesize e * m_typecount e * m_blockcount e)"
      if "list_all2 same_layout es1 es2" for es1 es2 :: "state_entry list"
      using that by (induction rule: list_all2_induct) (simp_all add: same_layout_def)
    then show ?thesis using assms(1-3) by (simp add: total_size_sum)
  qed
  have "check_space (buffer_sink (length buf)) (total_size sm1)" using assms(7) by (simp add: buffer_sink_def)
  from buffer.do_write_ok [OF assms(2) this, of "(buf, 0, False)" env1 g1] assms(7) obtain buf' p where w:
    "write_buffer env1 (length buf) sm1 g1 buf = (STATERR_NONE, h1, buf', p, False)" "take p buf' = state_bytes env1 sm1 h1" "length buf' = length buf" "p \<le> length buf"
    by (auto simp: write_buffer_def h1_def)
  have "length (state_bytes env1 sm1 h1) = length buf" using state_bytes_length [OF assms(2)] assms(7) by simp
  moreover have "length (take p buf') = p" using w(3,4) by simp
  ultimately have p: "p = length buf" using w(2) by simp
  have b: "buf' = state_bytes env1 sm1 h1" using w(2,3) p by simp
  have "check_length (buffer_source (length buf')) (total_size sm2)" using assms(7) size w(3) by (simp add: buffer_source_def)
  from buffer.do_read_ok [where cs = "[]" and ?h1.0 = h1 and r = buf' and g = g2, OF _ assms(1,3,4) this assms(5,6)] b
  obtain m where m: "read_buffer env2 buf' sm2 g2 = (STATERR_NONE, dispatch_postload env2 sm2 (g2\<lparr>host_mem := m\<rparr>), [])"
    "list_all2 (items_copied (env_endian env1 \<noteq> env_endian env2) (host_mem h1) m) (m_entry_list sm1) (m_entry_list sm2)"
    "\<forall>x. x \<notin> registered (m_entry_list sm2) \<longrightarrow> m x = host_mem g2 x"
    by (auto simp: read_buffer_def)
  have "bytes_value (env_endian env2) (mem_read (entry_item e2 b c) (m_typesize e2) m) =
      bytes_value (env_endian env1) (mem_read (entry_item e1 b c) (m_typesize e1) (host_mem h1))"
    if "i < length (m_entry_list sm2)" "e1 = m_entry_list sm1 ! i" "e2 = m_entry_list sm2 ! i" "b < m_blockcount e2" "c < m_typecount e2" for i e1 e2 b c
  proof -
    have "items_copied (env_endian env1 \<noteq> env_endian env2) (host_mem h1) m e1 e2" "m_typesize e1 = m_typesize e2"
      using that(1-3) list_all2_nthD2 [OF m(2)] list_all2_nthD2 [OF assms(1)] by (simp_all add: same_layout_def)
    then show ?thesis using that(4,5) by (cases "env_endian env1"; cases "env_endian env2") (simp_all add: items_copied_def bytes_value_def)
  qed
  then show ?thesis unfolding Let_def h1_def [symmetric] using w(1) m(1,3) p by (intro exI [of _ buf'] exI [of _ m]) simp
qed

text \<open>Two machines with the same four values of 16 bits, in other places and other byte orders.\<close>

definition two_rows :: "nat \<Rightarrow> nat \<Rightarrow> state_entry" where
  "two_rows a stride = \<lparr>entry_data = a, entry_name = ''global/0/rows'', m_typesize = 2, m_typecount = 2, m_blockcount = 2, m_stride = stride\<rparr>"

definition rows_manager :: "nat \<Rightarrow> nat \<Rightarrow> save_manager" where
  "rows_manager a stride = (save_manager_init True 1)\<lparr>m_reg_allowed := False, m_entry_list := [two_rows a stride]\<rparr>"

definition rows_env :: "endianness_t \<Rightarrow> unit save_env" where
  "rows_env E = \<lparr>env_crc32 = (\<lambda>c bs. c + word_of_nat (length bs)), env_endian = E, env_system = ''rosco6502'', env_call = (\<lambda>f h. h)\<rparr>"

definition rows_host :: "unit save_host" where
  "rows_host = \<lparr>host_mem = word_of_nat, host_dev = ()\<rparr>"

lemma rows_ok: "layout_fits (rows_manager a stride)" "4 \<le> stride \<Longrightarrow> disjoint_entries (m_entry_list (rows_manager a stride))"
    "list_all2 same_layout (m_entry_list (rows_manager a s1)) (m_entry_list (rows_manager b s2))" "total_size (rows_manager a stride) = 40"
  by (simp_all add: layout_fits_def rows_manager_def two_rows_def entry_ok_def disjoint_entries_def entry_blocks_def blocksize_def piece_def
      same_layout_def total_size_def upt_rec)

theorem save_state_portable_witness:
  "\<exists>buf m. write_buffer (rows_env ENDIANNESS_LITTLE) 40 (rows_manager 0 8) rows_host (replicate 40 0) = (STATERR_NONE, rows_host, buf, 40, False) \<and>
     read_buffer (rows_env ENDIANNESS_BIG) buf (rows_manager 100 4) rows_host = (STATERR_NONE, rows_host\<lparr>host_mem := m\<rparr>, []) \<and>
     bytes_value ENDIANNESS_BIG (mem_read 106 2 m) = 0x0b0a \<and> m 108 = 108"
proof -
  have d: "dispatch_presave (rows_env E) (rows_manager a s) h = h" "dispatch_postload (rows_env E) (rows_manager a s) h = h" for E a s h
    by (simp_all add: dispatch_presave_def dispatch_postload_def rows_manager_def save_manager_init_def)
  have e: "env_crc32 (rows_env E) = env_crc32 (rows_env F)" "env_system (rows_env E) = env_system (rows_env F)" "env_endian (rows_env E) = E" for E F
    by (simp_all add: rows_env_def)
  have l: "length (replicate 40 (0 :: u8)) = total_size (rows_manager 0 8)" by (simp add: rows_ok)
  obtain buf m where p: "write_buffer (rows_env ENDIANNESS_LITTLE) 40 (rows_manager 0 8) rows_host (replicate 40 0) = (STATERR_NONE, rows_host, buf, 40, False)"
      "read_buffer (rows_env ENDIANNESS_BIG) buf (rows_manager 100 4) rows_host = (STATERR_NONE, rows_host\<lparr>host_mem := m\<rparr>, [])"
      "\<forall>i < length (m_entry_list (rows_manager 100 4)). \<forall>b < m_blockcount (m_entry_list (rows_manager 100 4) ! i). \<forall>c < m_typecount (m_entry_list (rows_manager 100 4) ! i).
         bytes_value ENDIANNESS_BIG (mem_read (entry_item (m_entry_list (rows_manager 100 4) ! i) b c) (m_typesize (m_entry_list (rows_manager 100 4) ! i)) m) =
         bytes_value ENDIANNESS_LITTLE (mem_read (entry_item (m_entry_list (rows_manager 0 8) ! i) b c) (m_typesize (m_entry_list (rows_manager 0 8) ! i)) (host_mem rows_host))"
      "\<forall>x. x \<notin> registered (m_entry_list (rows_manager 100 4)) \<longrightarrow> m x = host_mem rows_host x"
    using save_state_portable [OF rows_ok(3) [of 0 8 100 4] rows_ok(1,1) rows_ok(2) [OF order_refl] e(1,2) [of ENDIANNESS_BIG ENDIANNESS_LITTLE] l, of rows_host rows_host]
    unfolding Let_def d e(3) length_replicate by (elim exE conjE) (rule that)
  have "bytes_value ENDIANNESS_BIG (mem_read 106 2 m) = bytes_value ENDIANNESS_LITTLE (mem_read 10 2 (host_mem rows_host))"
    using p(3) [rule_format, of 0 1 1] by (simp add: rows_manager_def two_rows_def entry_item_def)
  also have "\<dots> = 0x0b0a" by (simp add: bytes_value_def mem_read_def rows_host_def upt_rec)
  moreover have "108 \<notin> registered (m_entry_list (rows_manager 100 4))"
    by (simp add: registered_def rows_manager_def two_rows_def entry_blocks_def blocksize_def piece_def upt_rec)
  then have "m 108 = 108" using p(4) by (simp add: rows_host_def)
  ultimately show ?thesis using p(1,2) by auto
qed

lemma read_entries_buffer:
  assumes "\<forall>e \<in> set es. entry_ok e" "length r = sum_list (map snd (concat (map entry_blocks es)))"
  shows "\<exists>m'. read_entries (buffer_source N) flip es m r = (True, m', [])"
proof -
  have blocks: "\<exists>m'. read_blocks_to (buffer_source N) bl m r = (True, m', drop (sum_list (map snd bl)) r)"
    if "sum_list (map snd bl) \<le> length r" for bl and m :: "nat \<Rightarrow> u8" and r
    using that
  proof (induction bl arbitrary: m r)
    case (Cons p bl)
    obtain a k where "p = (a, k)" by (cases p)
    then show ?case using Cons.IH [of "drop k r" "mem_write a (take k r) m"] Cons.prems by (auto simp: buffer_source_def add.commute)
  qed simp
  show ?thesis using assms
  proof (induction es arbitrary: m r)
    case (Cons e es)
    obtain m1 where m1: "read_blocks_to (buffer_source N) (entry_blocks e) m r = (True, m1, drop (sum_list (map snd (entry_blocks e))) r)"
      using blocks [of "entry_blocks e" r m] Cons.prems(2) by auto
    then show ?case using Cons.IH [of "drop (sum_list (map snd (entry_blocks e))) r" "if flip then flip_data e m1 else m1"] Cons.prems by simp
  qed simp
qed



end
