(* ===== verification/Rewinder.thy ===== *)
theory Rewinder
  imports Save_Roundtrip
begin

text \<open>
  The rewinder, \<^verbatim>\<open>rewinder\<close> and \<^verbatim>\<open>ram_state\<close> of \<^verbatim>\<open>src/emu/save.cpp\<close>: a list of states in memory and an index into it. An access outside
  the list, which \<^verbatim>\<open>at\<close> answers with an exception and an iterator not at all, is \<^term>\<open>None\<close>.
\<close>

section \<open>States in memory\<close>

definition ram_state_init :: "attotime \<Rightarrow> ram_state" where
  "ram_state_init now =
     \<lparr>ram_data = \<lparr>stream_bytes = [], stream_put = 0, stream_get = 0, stream_fail = False\<rparr>, m_valid = False, ram_time = now\<rparr>"

definition seekp :: "nat \<Rightarrow> vectorstream \<Rightarrow> vectorstream" where
  "seekp k s = (if stream_fail s then s else s\<lparr>stream_put := k\<rparr>)"

definition seekg :: "nat \<Rightarrow> vectorstream \<Rightarrow> vectorstream" where
  "seekg k s = (if stream_fail s then s else s\<lparr>stream_get := k\<rparr>)"

definition ram_state_save :: "'x save_env \<Rightarrow> attotime \<Rightarrow> save_manager \<Rightarrow> 'x save_host \<Rightarrow> ram_state \<Rightarrow> save_error \<times> 'x save_host \<times> ram_state" where
  "ram_state_save env now sm h st =
     (let s1 = st\<lparr>m_valid := False, ram_data := seekp 0 (ram_data st)\<rparr>;
          (err, h1, d) = write_stream env sm (h, ram_data s1);
          s2 = s1\<lparr>ram_data := d\<rparr>
      in if err \<noteq> STATERR_NONE then (err, h1, s2) else (STATERR_NONE, h1, s2\<lparr>m_valid := True, ram_time := now\<rparr>))"

definition ram_state_load :: "'x save_env \<Rightarrow> save_manager \<Rightarrow> 'x save_host \<Rightarrow> ram_state \<Rightarrow> save_error \<times> 'x save_host \<times> ram_state" where
  "ram_state_load env sm h st =
     (let (err, h1, d) = read_stream env sm (h, seekg 0 (ram_data st)) in (err, h1, st\<lparr>ram_data := d\<rparr>))"

section \<open>The rewinder\<close>

text \<open>The index is compared as a \<^verbatim>\<open>size_t\<close>.\<close>

definition current_index_is_last :: "rewinder \<Rightarrow> bool" where
  "current_index_is_last r \<longleftrightarrow> to_u64 (m_current_index r) = to_u64 (int (length (m_state_list r)) - 1)"

definition with_rewind :: "(rewinder \<Rightarrow> rewinder) \<Rightarrow> save_manager \<Rightarrow> save_manager" where
  "with_rewind f sm = sm\<lparr>m_rewind := f (m_rewind sm)\<rparr>"

text \<open>Of the reports only the one of a successful load changes anything.\<close>

definition report_error :: "save_error \<Rightarrow> bool \<Rightarrow> save_manager \<Rightarrow> save_manager" where
  "report_error err is_load sm =
     (if err = STATERR_NONE \<and> is_load \<and> m_first_time_warning (m_rewind sm) \<and> \<not> m_supported sm
      then with_rewind (\<lambda>r. r\<lparr>m_first_time_warning := False\<rparr>) sm else sm)"

definition rewinder_invalidate :: "save_manager \<Rightarrow> save_manager option" where
  "rewinder_invalidate sm =
     (let r = m_rewind sm; k = m_current_index r
      in if \<not> rewind_enabled r \<or> current_index_is_last r then Some sm
         else if k < 0 \<or> int (length (m_state_list r)) < k then None
         else Some (with_rewind (\<lambda>r. r\<lparr>m_first_invalid_index := k,
                m_state_list := take (nat k) (m_state_list r) @ map (\<lambda>st. st\<lparr>m_valid := False\<rparr>) (drop (nat k) (m_state_list r))\<rparr>) sm))"

definition check_size :: "save_manager \<Rightarrow> (bool \<times> save_manager) option" where
  "check_size sm =
     (if \<not> rewind_enabled (m_rewind sm) then Some (False, sm)
      else
        let singlesize = ram_state_get_size sm;
            totalsize = length (m_state_list (m_rewind sm)) * singlesize mod 2 ^ 64;
            capsize = rewind_limit sm;
            count = (if totalsize > capsize then (totalsize - capsize) div singlesize mod 2 ^ 32 else 0)
        in if length (m_state_list (m_rewind sm)) < count then None
           else
             let s1 = with_rewind (\<lambda>r. r\<lparr>m_state_list := drop count (m_state_list r)\<rparr>) sm;
                 totalsize1 = length (m_state_list (m_rewind s1)) * singlesize mod 2 ^ 64
             in if (totalsize1 + singlesize) mod 2 ^ 64 \<ge> capsize then
                  (if \<not> current_index_is_last (m_rewind s1) then Some (False, s1)
                   else (case m_state_list (m_rewind s1) of
                           [] \<Rightarrow> None
                         | first # rest \<Rightarrow>
                             Some (True, with_rewind (\<lambda>r. r\<lparr>m_state_list := rest @ [first\<lparr>m_valid := False\<rparr>], m_first_time_note := False\<rparr>) s1)))
                else Some (False, s1))"

text \<open>What \<^verbatim>\<open>capture\<close> does after a state was saved.\<close>

definition captured :: "save_manager \<Rightarrow> save_manager option" where
  "captured sm =
     (case check_size sm of
        None \<Rightarrow> None
      | Some (shrunk, s1) \<Rightarrow>
          let s2 = (if shrunk then s1 else with_rewind (\<lambda>r. r\<lparr>m_current_index := m_current_index r + 1\<rparr>) s1);
              r = m_rewind s2;
              s3 = with_rewind (\<lambda>r. r\<lparr>m_first_invalid_index := (if current_index_is_last r then -1 else m_current_index r + 1)\<rparr>) s2
          in Some (report_error STATERR_NONE False s3))"

definition rewinder_capture :: "'x save_env \<Rightarrow> attotime \<Rightarrow> save_manager \<Rightarrow> 'x save_host \<Rightarrow> (bool \<times> save_manager \<times> 'x save_host) option" where
  "rewinder_capture env now sm h =
     (if \<not> rewind_enabled (m_rewind sm) then Some (False, report_error STATERR_DISABLED False sm, h)
      else if current_index_is_last (m_rewind sm) then
        let (err, h1, st) = ram_state_save env now sm h (ram_state_init now)
        in if err = STATERR_NONE
           then map_option (\<lambda>s. (True, s, h1)) (captured (with_rewind (\<lambda>r. r\<lparr>m_state_list := m_state_list r @ [st]\<rparr>) sm))
           else Some (False, report_error err False sm, h1)
      else
        (case rewinder_invalidate sm of
           None \<Rightarrow> None
         | Some s1 \<Rightarrow>
             let k = m_current_index (m_rewind s1)
             in if k < 0 \<or> int (length (m_state_list (m_rewind s1))) \<le> k then None
                else
                  let (err, h1, st) = ram_state_save env now s1 h (m_state_list (m_rewind s1) ! nat k);
                      s2 = with_rewind (\<lambda>r. r\<lparr>m_state_list := (m_state_list r)[nat k := st]\<rparr>) s1
                  in if err = STATERR_NONE then map_option (\<lambda>s. (True, s, h1)) (captured s2)
                     else Some (False, report_error err False s2, h1)))"

definition rewinder_step :: "'x save_env \<Rightarrow> save_manager \<Rightarrow> 'x save_host \<Rightarrow> (bool \<times> save_manager \<times> 'x save_host) option" where
  "rewinder_step env sm h =
     (let r = m_rewind sm; i = m_first_invalid_index r
      in if \<not> rewind_enabled r then Some (False, report_error STATERR_DISABLED True sm, h)
         else if m_current_index r \<le> 0 \<or> i = 0 then Some (False, report_error STATERR_NOT_FOUND True sm, h)
         else
           let k = (if i > -1 \<and> m_current_index r > i then i else m_current_index r) - 1
           in if k < 0 \<or> int (length (m_state_list r)) \<le> k then None
              else
                let s1 = with_rewind (\<lambda>r. r\<lparr>m_current_index := k\<rparr>) sm;
                    (err, h1, st) = ram_state_load env s1 h (m_state_list r ! nat k);
                    s2 = with_rewind (\<lambda>r. r\<lparr>m_state_list := (m_state_list r)[nat k := st]\<rparr>) s1
                in Some (err = STATERR_NONE, report_error err True s2, h1))"

section \<open>The index stays in the list\<close>

definition rewind_inv :: "save_manager \<Rightarrow> bool" where
  "rewind_inv sm \<longleftrightarrow> (let r = m_rewind sm; n = length (m_state_list r)
     in layout_fits sm \<and> m_capacity r \<le> 2048 \<and> -1 \<le> m_first_invalid_index r \<and> m_current_index r < int n \<and> (n = 0 \<longrightarrow> m_current_index r = -1) \<and>
        (0 < n \<longrightarrow> 0 \<le> m_current_index r) \<and>
        (rewind_enabled r \<longrightarrow> total_size sm \<le> rewind_limit sm) \<and> (n * total_size sm < rewind_limit sm + total_size sm \<or> n = 0))"

text \<open>Everything that can happen to the rewinder once the registration is closed: for any states of the machine, at any times.\<close>

inductive rewind_reach :: "'x save_env \<Rightarrow> save_manager \<Rightarrow> bool" for env where
  rewind_start: "m_rewind sm = rewinder_init enabled capacity \<Longrightarrow> capacity \<le> 2048 \<Longrightarrow> layout_fits sm \<Longrightarrow> rewind_reach env (clamp_capacity sm)"
| rewind_captured: "rewind_reach env sm \<Longrightarrow> rewinder_capture env now sm h = Some (ok, sm', h') \<Longrightarrow> rewind_reach env sm'"
| rewind_stepped: "rewind_reach env sm \<Longrightarrow> rewinder_step env sm h = Some (ok, sm', h') \<Longrightarrow> rewind_reach env sm'"
| rewind_invalidated: "rewind_reach env sm \<Longrightarrow> rewinder_invalidate sm = Some sm' \<Longrightarrow> rewind_reach env sm'"

lemma with_rewind_simps [simp]:
  "m_rewind (with_rewind f sm) = f (m_rewind sm)" "m_entry_list (with_rewind f sm) = m_entry_list sm"
  "layout_fits (with_rewind f sm) = layout_fits sm" "total_size (with_rewind f sm) = total_size sm" "ram_state_get_size (with_rewind f sm) = ram_state_get_size sm"
  by (simp_all add: with_rewind_def layout_fits_def total_size_def ram_state_get_size_def)

lemma rewind_limit_with [simp]: "m_capacity (f (m_rewind sm)) = m_capacity (m_rewind sm) \<Longrightarrow> rewind_limit (with_rewind f sm) = rewind_limit sm"
  by (simp add: rewind_limit_def)

lemma rewind_inv_report [simp]: "rewind_inv (report_error err l sm) = rewind_inv sm"
  by (simp add: report_error_def rewind_inv_def Let_def)

lemma report_error_save [simp]: "report_error err False sm = sm"
  by (simp add: report_error_def)

lemma rewind_limit_bound: "m_capacity (m_rewind sm) \<le> 2048 \<Longrightarrow> rewind_limit sm \<le> 2 ^ 31"
  by (simp add: rewind_limit_def)

lemma last_index: "-1 \<le> m_current_index r \<Longrightarrow> m_current_index r < int (length (m_state_list r)) \<Longrightarrow> length (m_state_list r) < 2 ^ 40 \<Longrightarrow>
    current_index_is_last r \<longleftrightarrow> m_current_index r = int (length (m_state_list r)) - 1"
proof -
  assume a: "-1 \<le> m_current_index r" "m_current_index r < int (length (m_state_list r))" "length (m_state_list r) < 2 ^ 40"
  have u: "to_u64 x = (if x = -1 then 2 ^ 64 - 1 else x)" if "-1 \<le> x" "x < 2 ^ 40" for x using that by (simp add: to_u64_def)
  have "m_current_index r < 2 ^ 40" "-1 \<le> int (length (m_state_list r)) - 1" "int (length (m_state_list r)) - 1 < 2 ^ 40" using a by simp_all
  then show ?thesis using a by (auto simp: current_index_is_last_def u)
qed

lemma inv_facts:
  assumes "rewind_inv sm" "rewind_enabled (m_rewind sm)"
  shows "32 \<le> total_size sm" "rewind_limit sm \<le> 2 ^ 31" "length (m_state_list (m_rewind sm)) < 2 ^ 32" "total_size sm \<le> rewind_limit sm"
proof -
  show t: "32 \<le> total_size sm" using assms(1) by (simp add: rewind_inv_def Let_def total_size_sum)
  show l: "rewind_limit sm \<le> 2 ^ 31" using assms(1) rewind_limit_bound by (simp add: rewind_inv_def Let_def)
  show tl: "total_size sm \<le> rewind_limit sm" using assms by (simp add: rewind_inv_def Let_def)
  have "length (m_state_list (m_rewind sm)) * total_size sm < 2 ^ 32 \<or> length (m_state_list (m_rewind sm)) = 0"
    using assms(1) l tl by (auto simp: rewind_inv_def Let_def)
  moreover have "length (m_state_list (m_rewind sm)) \<le> length (m_state_list (m_rewind sm)) * total_size sm" using t by simp
  ultimately show "length (m_state_list (m_rewind sm)) < 2 ^ 32" by (metis le_less_trans zero_less_numeral zero_less_power)
qed

lemma captured_inv:
  fixes sm :: save_manager
  defines "n \<equiv> length (m_state_list (m_rewind sm))" and "T \<equiv> total_size sm" and "L \<equiv> rewind_limit sm" and "c \<equiv> m_current_index (m_rewind sm)"
  assumes "layout_fits sm" "m_capacity (m_rewind sm) \<le> 2048" "rewind_enabled (m_rewind sm)" "T \<le> L" "1 \<le> n" "-1 \<le> c" "c + 2 \<le> int n" "n * T < L + 2 * T"
  shows "\<exists>s'. captured sm = Some s' \<and> rewind_inv s'"
proof -
  have T: "32 \<le> T" "ram_state_get_size sm = T" using assms(5) by (simp_all add: total_size_sum T_def)
  have L: "L \<le> 2 ^ 31" using rewind_limit_bound [OF assms(6)] by (simp add: L_def)
  have nT: "n * T < 2 ^ 33" using assms(8,12) L by simp
  have n: "n < 2 ^ 33" using nT T(1) le_less_trans [of n "n * T" "2 ^ 33"] by simp
  define count where "count = (if n * T > L then (n * T - L) div T mod 2 ^ 32 else 0)"
  define n1 where "n1 = n - count"
  have count: "count \<le> 1" "count = 1 \<Longrightarrow> L + T \<le> n * T" "count = 0 \<Longrightarrow> n * T < L + T"
  proof -
    have d: "(n * T - L) div T \<le> 1" using assms(12) T(1) by (simp add: less_mult_imp_div_less less_Suc_eq_le [symmetric]) 
    then have "(n * T - L) div T < 2 ^ 32" by (rule le_less_trans) simp
    then have m: "(n * T - L) div T mod 2 ^ 32 = (n * T - L) div T" by (rule mod_less)
    show "count \<le> 1" using d unfolding count_def m by simp
    show "L + T \<le> n * T" if "count = 1"
    proof -
      have "L < n * T" "(n * T - L) div T = 1" using that unfolding count_def m by (auto split: if_splits)
      then show ?thesis using div_times_less_eq_dividend [of "n * T - L" T] by simp
    qed
    show "n * T < L + T" if "count = 0"
    proof (cases "L < n * T")
      case True
      then have "(n * T - L) div T = 0" using that unfolding count_def m by simp
      then have "n * T - L < T" using T(1) by (simp add: div_eq_0_iff)
      then show ?thesis using True by simp
    next
      case False
      then show ?thesis using T(1) by simp
    qed
  qed
  have n1: "1 \<le> n1" "n1 * T < L + T" "c + 1 \<le> int n1" "count = 0 \<Longrightarrow> c + 2 \<le> int n1" "count = 1 \<Longrightarrow> L \<le> n1 * T" "count \<le> n" "n1 \<le> n"
  proof -
    show "count \<le> n" using count(1) assms(9) by simp
    have two: "2 \<le> n" if "count = 1"
    proof (rule ccontr)
      assume "\<not> 2 \<le> n"
      then have "n * T \<le> T" by simp
      then show False using count(2) [OF that] assms(8) T(1) by linarith
    qed
    show "1 \<le> n1" using two count(1) assms(9) by (cases "count = 1") (simp_all add: n1_def)
    show "n1 * T < L + T" using count assms(12) by (cases "count = 1") (auto simp: n1_def diff_mult_distrib)
    show "c + 1 \<le> int n1" using count(1) assms(11) \<open>count \<le> n\<close> by (simp add: n1_def)
    show "c + 2 \<le> int n1" if "count = 0" using that assms(11) by (simp add: n1_def)
    show "L \<le> n1 * T" if "count = 1" using count(2) [OF that] that by (simp add: n1_def diff_mult_distrib)
    show "n1 \<le> n" by (simp add: n1_def)
  qed
  define s1 where "s1 = with_rewind (\<lambda>r. r\<lparr>m_state_list := drop count (m_state_list r)\<rparr>) sm"
  have len: "length (m_state_list (m_rewind s1)) = n1" by (simp add: s1_def n1_def n_def)
  have m: "n * T mod 2 ^ 64 = n * T" "n1 * T mod 2 ^ 64 = n1 * T" "(n1 * T + T) mod 2 ^ 64 = n1 * T + T" using nT n1(2) L assms(8) by simp_all
  have last: "current_index_is_last (m_rewind s1) \<longleftrightarrow> c = int n1 - 1"
    using last_index [of "m_rewind s1"] assms(10) n1(3,7) n len by (simp add: s1_def c_def)
  have chk: "check_size sm = (if L \<le> n1 * T + T then
        (if c \<noteq> int n1 - 1 then Some (False, s1)
         else (case m_state_list (m_rewind s1) of [] \<Rightarrow> None
               | first # rest \<Rightarrow> Some (True, with_rewind (\<lambda>r. r\<lparr>m_state_list := rest @ [first\<lparr>m_valid := False\<rparr>], m_first_time_note := False\<rparr>) s1)))
      else Some (False, s1))"
    unfolding check_size_def Let_def T(2) n_def [symmetric] L_def [symmetric] m(1) count_def [symmetric] s1_def [symmetric] len m(2,3) last
    using assms(7) n1(6) by simp
  have base: "layout_fits s1" "m_capacity (m_rewind s1) \<le> 2048" "total_size s1 = T" "rewind_limit s1 = L" "m_current_index (m_rewind s1) = c" "rewind_enabled (m_rewind s1)"
    using assms(5-7) by (simp_all add: s1_def T_def L_def c_def)
  show ?thesis
  proof (cases "L \<le> n1 * T + T \<and> c = int n1 - 1")
    case True
    obtain first rest where l: "m_state_list (m_rewind s1) = first # rest" using len n1(1) by (cases "m_state_list (m_rewind s1)") auto
    define s2 where "s2 = with_rewind (\<lambda>r. r\<lparr>m_state_list := rest @ [first\<lparr>m_valid := False\<rparr>], m_first_time_note := False\<rparr>) s1"
    have "check_size sm = Some (True, s2)" using True by (simp add: chk l s2_def)
    moreover have "length rest + 1 = n1" using len by (simp add: l)
    ultimately show ?thesis using base n1(1-3) True assms(8,10)
      by (auto simp: captured_def Let_def rewind_inv_def s2_def)
  next
    case False
    then have k: "check_size sm = Some (False, s1)" by (auto simp: chk)
    have "c + 2 \<le> int n1"
    proof (cases "count = 0")
      case True
      then show ?thesis by (rule n1(4))
    next
      case no: False
      then have "L \<le> n1 * T" using count(1) n1(5) by simp
      then show ?thesis using False n1(3) by simp
    qed
    then show ?thesis using k base len n1(1,2) assms(8,10) by (auto simp: captured_def Let_def rewind_inv_def)
  qed
qed

lemma inv_last:
  assumes "rewind_inv sm" "rewind_enabled (m_rewind sm)"
  shows "current_index_is_last (m_rewind sm) \<longleftrightarrow> m_current_index (m_rewind sm) = int (length (m_state_list (m_rewind sm))) - 1"
proof -
  have "-1 \<le> m_current_index (m_rewind sm)" "m_current_index (m_rewind sm) < int (length (m_state_list (m_rewind sm)))"
    using assms(1) by (cases "length (m_state_list (m_rewind sm)) = 0"; force simp: rewind_inv_def Let_def)+
  then show ?thesis using inv_facts(3) [OF assms] by (simp add: last_index)
qed

lemma invalidate_inv:
  assumes "rewind_inv sm"
  shows "\<exists>s'. rewinder_invalidate sm = Some s' \<and> rewind_inv s' \<and> m_current_index (m_rewind s') = m_current_index (m_rewind sm) \<and>
    length (m_state_list (m_rewind s')) = length (m_state_list (m_rewind sm)) \<and> m_entry_list s' = m_entry_list sm \<and>
    rewind_enabled (m_rewind s') = rewind_enabled (m_rewind sm)"
proof (cases "rewind_enabled (m_rewind sm) \<and> \<not> current_index_is_last (m_rewind sm)")
  case True
  define n where "n = length (m_state_list (m_rewind sm))"
  define c where "c = m_current_index (m_rewind sm)"
  have "c \<noteq> int n - 1" using True inv_last [OF assms] by (simp add: c_def n_def)
  then have c: "0 \<le> c" "c < int n" using assms by (cases "n = 0"; simp add: rewind_inv_def Let_def c_def n_def)+
  then have "\<not> n \<le> nat c" by simp
  then have m: "\<not> length (m_state_list (m_rewind sm)) \<le> nat (m_current_index (m_rewind sm))" by (simp add: c_def n_def)
  show ?thesis using True assms c m c_def n_def
    by (auto simp: rewinder_invalidate_def rewind_inv_def Let_def min_def)
next
  case False
  then show ?thesis using assms by (auto simp: rewinder_invalidate_def Let_def)
qed

lemma capture_inv:
  assumes "rewind_inv sm"
  shows "\<exists>ok s' h'. rewinder_capture env now sm h = Some (ok, s', h') \<and> rewind_inv s'"
proof (cases "rewind_enabled (m_rewind sm)")
  case False
  then show ?thesis using assms by (auto simp: rewinder_capture_def)
next
  case en: True
  define n where "n = length (m_state_list (m_rewind sm))"
  define c where "c = m_current_index (m_rewind sm)"
  have inv: "layout_fits sm" "m_capacity (m_rewind sm) \<le> 2048" "total_size sm \<le> rewind_limit sm" "c < int n" "n = 0 \<Longrightarrow> c = -1" "0 < n \<Longrightarrow> 0 \<le> c"
      "n * total_size sm < rewind_limit sm + total_size sm \<or> n = 0"
    using assms en by (simp_all add: rewind_inv_def Let_def n_def c_def)
  have "32 \<le> total_size sm" by (rule inv_facts(1) [OF assms en])
  then have nT: "n * total_size sm < rewind_limit sm + total_size sm" using inv(7) by auto
  show ?thesis
  proof (cases "current_index_is_last (m_rewind sm)")
    case True
    then have c: "c = int n - 1" using inv_last [OF assms en] by (simp add: c_def n_def)
    obtain err h1 st where sv: "ram_state_save env now sm h (ram_state_init now) = (err, h1, st)" by (metis prod_cases3)
    define s1 where "s1 = with_rewind (\<lambda>r. r\<lparr>m_state_list := m_state_list r @ [st]\<rparr>) sm"
    have "length (m_state_list (m_rewind s1)) = Suc n" "m_current_index (m_rewind s1) = c" "total_size s1 = total_size sm" "rewind_limit s1 = rewind_limit sm"
        "layout_fits s1" "m_capacity (m_rewind s1) \<le> 2048" "rewind_enabled (m_rewind s1)"
      using inv(1,2) en by (simp_all add: s1_def n_def c_def)
    then obtain s' where "captured s1 = Some s'" "rewind_inv s'" using captured_inv [of s1] inv(3) c nT by auto
    then show ?thesis using en True sv assms by (cases "err = STATERR_NONE") (auto simp: rewinder_capture_def s1_def [symmetric])
  next
    case False
    then have cn: "c \<noteq> int n - 1" using inv_last [OF assms en] by (simp add: c_def n_def)
    then have c: "0 \<le> c" "c + 2 \<le> int n" using inv(4-6) by (cases "n = 0"; simp)+
    obtain s1 where s1: "rewinder_invalidate sm = Some s1" "rewind_inv s1" "m_current_index (m_rewind s1) = c" "length (m_state_list (m_rewind s1)) = n"
        "m_entry_list s1 = m_entry_list sm" "rewind_enabled (m_rewind s1)"
      using invalidate_inv [OF assms] en by (auto simp: c_def n_def)
    have k: "\<not> (c < 0 \<or> int n \<le> c)" using c by simp
    obtain err h1 st where sv: "ram_state_save env now s1 h (m_state_list (m_rewind s1) ! nat c) = (err, h1, st)" by (metis prod_cases3)
    define s2 where "s2 = with_rewind (\<lambda>r. r\<lparr>m_state_list := (m_state_list r)[nat c := st]\<rparr>) s1"
    have s2: "length (m_state_list (m_rewind s2)) = n" "m_current_index (m_rewind s2) = c" "rewind_inv s2" "rewind_enabled (m_rewind s2)"
      using s1 by (simp_all add: s2_def rewind_inv_def Let_def)
    have "layout_fits s2" "m_capacity (m_rewind s2) \<le> 2048" "total_size s2 \<le> rewind_limit s2"
        "n * total_size s2 < rewind_limit s2 + total_size s2 \<or> n = 0"
      using s2 by (auto simp: rewind_inv_def Let_def)
    then obtain s' where "captured s2 = Some s'" "rewind_inv s'" using captured_inv [of s2] s2(1,2,4) c by auto
    then show ?thesis using en False s1(1,3,4) sv k s2(3)
      by (cases "err = STATERR_NONE") (auto simp: rewinder_capture_def s2_def [symmetric])
  qed
qed

lemma step_inv:
  assumes "rewind_inv sm"
  shows "\<exists>ok s' h'. rewinder_step env sm h = Some (ok, s', h') \<and> rewind_inv s'"
proof -
  define r where "r = m_rewind sm"
  define i where "i = m_first_invalid_index r"
  define k where "k = (if i > -1 \<and> m_current_index r > i then i else m_current_index r) - 1"
  show ?thesis
  proof (cases "\<not> rewind_enabled r \<or> m_current_index r \<le> 0 \<or> i = 0")
    case True
    then show ?thesis using assms unfolding rewinder_step_def Let_def r_def [symmetric] i_def [symmetric] by auto
  next
    case False
    have b: "m_current_index r < int (length (m_state_list r))" "-1 \<le> i" using assms by (simp_all add: rewind_inv_def Let_def r_def i_def)
    have kb: "0 \<le> k" "k < int (length (m_state_list r))" using False b by (auto simp: k_def)
    then have n: "\<not> (k < 0 \<or> int (length (m_state_list r)) \<le> k)" by simp
    define s1 where "s1 = with_rewind (\<lambda>r. r\<lparr>m_current_index := k\<rparr>) sm"
    obtain err h1 st where ld: "ram_state_load env s1 h (m_state_list r ! nat k) = (err, h1, st)" by (metis prod_cases3)
    define s2 where "s2 = with_rewind (\<lambda>r. r\<lparr>m_state_list := (m_state_list r)[nat k := st]\<rparr>) s1"
    have "rewinder_step env sm h = Some (err = STATERR_NONE, report_error err True s2, h1)"
      unfolding rewinder_step_def Let_def r_def [symmetric] i_def [symmetric] k_def [symmetric] s1_def [symmetric] ld prod.case s2_def [symmetric]
      using False n by simp
    moreover have "rewind_inv s2" using assms kb by (auto simp: s2_def s1_def rewind_inv_def Let_def r_def)
    ultimately show ?thesis by simp
  qed
qed

lemma rewind_reach_inv: "rewind_reach env sm \<Longrightarrow> rewind_inv sm"
proof (induction rule: rewind_reach.induct)
  case (rewind_start sm enabled capacity)
  then show ?case by (auto simp: clamp_capacity_def rewinder_init_def rewind_inv_def Let_def total_size_sum(2) rewind_limit_def layout_fits_def total_size_def not_less)
next
  case (rewind_captured sm now h ok sm' h')
  then show ?case using capture_inv [OF rewind_captured.IH, of env now h] by simp
next
  case (rewind_stepped sm h ok sm' h')
  then show ?case using step_inv [OF rewind_stepped.IH, of env h] by simp
next
  case (rewind_invalidated sm sm')
  then show ?case using invalidate_inv [OF rewind_invalidated.IH] by auto
qed

text \<open>C29. The rewinder stays inside its list and near its capacity. After any sequence of captures, steps and invalidations, whatever the states
  of the machine and the callbacks: the next operation returns without an access outside the list, and the states in the list take less than
  the capacity and one state more. For capacities up to the limit of the option, 2048 megabytes.\<close>

theorem rewind_stays_inside:
  assumes "rewind_reach env sm"
  shows "rewinder_capture env now sm h \<noteq> None \<and> rewinder_step env sm h \<noteq> None \<and> rewinder_invalidate sm \<noteq> None \<and>
    (length (m_state_list (m_rewind sm)) * total_size sm < rewind_limit sm + total_size sm \<or> m_state_list (m_rewind sm) = [])"
proof -
  note i = rewind_reach_inv [OF assms]
  have "length (m_state_list (m_rewind sm)) * total_size sm < rewind_limit sm + total_size sm \<or> m_state_list (m_rewind sm) = []"
    using i by (auto simp: rewind_inv_def Let_def)
  then show ?thesis using capture_inv [OF i, of env now h] step_inv [OF i, of env h] invalidate_inv [OF i] by auto
qed

theorem rewind_stays_inside_witness:
  "rewinder_capture (rows_env ENDIANNESS_LITTLE) attotime_zero (clamp_capacity (rows_manager 0 8)) rows_host \<noteq> None"
proof -
  have "rewind_reach (rows_env ENDIANNESS_LITTLE) (clamp_capacity (rows_manager 0 8))"
  proof (rule rewind_start)
    show "m_rewind (rows_manager 0 8) = rewinder_init True 1" by (simp add: rows_manager_def save_manager_init_def)
  qed (simp_all add: rows_ok)
  from rewind_stays_inside [OF this, of attotime_zero rows_host] show ?thesis by blast
qed

section \<open>States that the rewinder holds\<close>

text \<open>A state in memory that was saved when the machine was \<open>h\<close>, and a load of it into the machine \<open>g\<close>.\<close>

definition holds_state :: "'x save_env \<Rightarrow> save_manager \<Rightarrow> 'x save_host \<Rightarrow> ram_state \<Rightarrow> bool" where
  "holds_state env sm h st \<longleftrightarrow> \<not> stream_fail (ram_data st) \<and>
     take (total_size sm) (stream_bytes (ram_data st)) = state_bytes env sm (dispatch_presave env sm h)"

definition restores :: "'x save_env \<Rightarrow> save_manager \<Rightarrow> 'x save_host \<Rightarrow> 'x save_host \<Rightarrow> 'x save_host \<Rightarrow> bool" where
  "restores env sm h g g' \<longleftrightarrow> (\<exists>m. g' = dispatch_postload env sm (g\<lparr>host_mem := m\<rparr>) \<and>
     (\<forall>x. m x = (if x \<in> registered (m_entry_list sm) then host_mem (dispatch_presave env sm h) x else host_mem g x)))"

lemma same_entries [simp]:
  "state_bytes env (with_rewind f sm) h = state_bytes env sm h" "dispatch_presave env (with_rewind f sm) h = dispatch_presave env sm h"
  "dispatch_postload env (with_rewind f sm) h = dispatch_postload env sm h" "holds_state env (with_rewind f sm) h st = holds_state env sm h st"
  "restores env (with_rewind f sm) h g = restores env sm h g"
proof -
  show b: "state_bytes env (with_rewind f sm) h = state_bytes env sm h" for h by (simp add: state_bytes_def state_header_def state_signature_def)
  show p: "dispatch_presave env (with_rewind f sm) h = dispatch_presave env sm h" "dispatch_postload env (with_rewind f sm) h = dispatch_postload env sm h" for h
    by (simp_all add: dispatch_presave_def dispatch_postload_def with_rewind_def)
  show "holds_state env (with_rewind f sm) h st = holds_state env sm h st" "restores env (with_rewind f sm) h g = restores env sm h g"
    by (simp_all add: holds_state_def restores_def fun_eq_iff b p)
qed

lemma save_holds:
  assumes "layout_fits sm" "\<not> stream_fail (ram_data st)"
  shows "\<exists>st'. ram_state_save env now sm h st = (STATERR_NONE, dispatch_presave env sm h, st') \<and> holds_state env sm h st'"
proof -
  let ?d = "seekp 0 (ram_data st)"
  have "check_space stream_sink (total_size sm)" "\<not> stream_fail ?d \<and> stream_put ?d \<le> length (stream_bytes ?d)"
    using assms(2) by (simp_all add: stream_sink_def seekp_def)
  from vector_stream.do_write_ok [OF assms(1) this, of env h] obtain d where d:
    "do_write env stream_sink sm (h, ?d) = (STATERR_NONE, dispatch_presave env sm h, d)"
    "take (stream_put d) (stream_bytes d) = take (stream_put ?d) (stream_bytes ?d) @ state_bytes env sm (dispatch_presave env sm h)"
    "\<not> stream_fail d" "stream_put d \<le> length (stream_bytes d)" by blast
  have t: "take (stream_put d) (stream_bytes d) = state_bytes env sm (dispatch_presave env sm h)" using d(2) assms(2) by (simp add: seekp_def)
  have "stream_put d = length (take (stream_put d) (stream_bytes d))" using d(4) by simp
  then have "stream_put d = total_size sm" unfolding t by (simp add: state_bytes_length [OF assms(1)])
  then show ?thesis using d(1,3) t by (simp add: ram_state_save_def write_stream_def holds_state_def)
qed

text \<open>Reading does not change the bytes of a stream.\<close>

lemma stream_source_read: "read_block stream_source n s = stream_read n s"
  by (simp add: stream_source_def)

lemma reading_keeps_bytes:
  "stream_bytes (snd (snd (stream_read n s))) = stream_bytes s"
  "stream_bytes (snd (snd (read_blocks_to stream_source bl m s))) = stream_bytes s"
  "stream_bytes (snd (snd (read_entries stream_source flip es m s))) = stream_bytes s"
proof -
  show r: "stream_bytes (snd (snd (stream_read n s))) = stream_bytes s" for n s by (simp add: stream_read_def Let_def)
  show b: "stream_bytes (snd (snd (read_blocks_to stream_source bl m s))) = stream_bytes s" for bl m s
  proof (induction bl arbitrary: m s)
    case (Cons p bl)
    obtain a n where p: "p = (a, n)" by (cases p)
    obtain ok bs s1 where rd: "stream_read n s = (ok, bs, s1)" by (metis prod_cases3)
    then have "stream_bytes s1 = stream_bytes s" using r [of n s] by simp
    then show ?case using Cons.IH by (simp add: p stream_source_read rd Let_def)
  qed simp
  show "stream_bytes (snd (snd (read_entries stream_source flip es m s))) = stream_bytes s"
  proof (induction es arbitrary: m s)
    case (Cons e es)
    obtain ok m1 s1 where rd: "read_blocks_to stream_source (entry_blocks e) m s = (ok, m1, s1)" by (metis prod_cases3)
    then have "stream_bytes s1 = stream_bytes s" using b [of "entry_blocks e" m s] by simp
    then show ?case using Cons.IH by (simp add: rd)
  qed simp
qed

lemma copied_memory:
  assumes "list_all2 (items_copied False m1 m) es es" "\<forall>e \<in> set es. entry_ok e" "x \<in> registered es"
  shows "m x = m1 x"
proof -
  obtain e b where e: "e \<in> set es" "b < m_blockcount e" "x \<in> piece (entry_data e + b * m_stride e, blocksize e)"
    using assms(3) by (auto simp: registered_def entry_blocks_def)
  have ok: "entry_ok e" and c: "items_copied False m1 m e e" using assms(1,2) e(1) by (auto simp: list_all2_same)
  define k where "k = x - (entry_data e + b * m_stride e)"
  have k: "x = entry_data e + b * m_stride e + k" "k < m_typecount e * m_typesize e"
    using e(3) ok by (auto simp: piece_def k_def blocksize_def entry_ok_def mult.commute)
  have s: "0 < m_typesize e" using ok by (auto simp: entry_ok_def)
  have "k div m_typesize e < m_typecount e" using k(2) by (simp add: less_mult_imp_div_less)
  then have "mem_read (entry_item e b (k div m_typesize e)) (m_typesize e) m = mem_read (entry_item e b (k div m_typesize e)) (m_typesize e) m1"
    using c e(2) by (simp add: items_copied_def)
  from arg_cong [OF this, of "\<lambda>l. l ! (k mod m_typesize e)"] s
  show ?thesis by (simp add: entry_item_def k(1) add.assoc)
qed

lemma load_restores:
  assumes "layout_fits sm" "disjoint_entries (m_entry_list sm)" "holds_state env sm h st"
  shows "\<exists>g' st'. ram_state_load env sm g st = (STATERR_NONE, g', st') \<and> restores env sm h g g' \<and> holds_state env sm h st' \<and> m_valid st' = m_valid st"
proof -
  let ?d = "seekg 0 (ram_data st)" and ?h = "dispatch_presave env sm h"
  have st: "\<not> stream_fail (ram_data st)" "take (total_size sm) (stream_bytes (ram_data st)) = state_bytes env sm ?h" using assms(3) by (simp_all add: holds_state_def)
  have "\<not> stream_fail ?d \<and> stream_get ?d \<le> length (stream_bytes ?d) \<and>
      take (length (state_bytes env sm ?h @ [])) (drop (stream_get ?d) (stream_bytes ?d)) = state_bytes env sm ?h @ []"
    using st by (simp add: seekg_def state_bytes_length [OF assms(1)])
  from vector_stream.do_read_ok [OF this, of sm env g] assms(1,2) obtain m d where d:
    "do_read env stream_source sm (g, ?d) = (STATERR_NONE, dispatch_postload env sm (g\<lparr>host_mem := m\<rparr>), d)" "\<not> stream_fail d"
    "list_all2 (items_copied False (host_mem ?h) m) (m_entry_list sm) (m_entry_list sm)" "\<forall>x. x \<notin> registered (m_entry_list sm) \<longrightarrow> m x = host_mem g x"
    by (auto simp: list_all2_same same_layout_def stream_source_def)
  have keep: "stream_bytes d = stream_bytes (ram_data st)"
  proof -
    obtain ok2 hd r2 where r2: "stream_read 32 ?d = (ok2, hd, r2)" by (metis prod_cases3)
    have b2: "stream_bytes r2 = stream_bytes (ram_data st)" using reading_keeps_bytes(1) [of 32 ?d] r2 by (simp add: seekg_def split: if_splits)
    define fl where "fl = (if env_endian env = ENDIANNESS_LITTLE then hd ! 9 AND 2 \<noteq> 0 else \<not> hd ! 9 AND 2 \<noteq> 0)"
    obtain ok4 m4 r4 where r4: "read_entries stream_source fl (m_entry_list sm) (host_mem g) r2 = (ok4, m4, r4)" by (metis prod_cases3)
    then have b4: "stream_bytes r4 = stream_bytes (ram_data st)" using reading_keeps_bytes(3) [of fl "m_entry_list sm" "host_mem g" r2] b2 by simp
    have b0: "stream_bytes ?d = stream_bytes (ram_data st)" by (simp add: seekg_def)
    have "stream_bytes (snd (snd (do_read env stream_source sm (g, ?d)))) = stream_bytes (ram_data st)"
      unfolding do_read_def Let_def prod.case vector_stream.source_starts stream_source_read r2 fl_def [symmetric] r4
      by (simp only: b0 b2 b4 if_distrib [of snd] if_distrib [of stream_bytes] snd_conv if_cancel)
    then show ?thesis by (simp add: d(1))
  qed
  have "restores env sm h g (dispatch_postload env sm (g\<lparr>host_mem := m\<rparr>))"
    unfolding restores_def using d(3,4) copied_memory [OF d(3)] assms(1) by (intro exI [of _ m]) (auto simp: layout_fits_def)
  then show ?thesis using d(1,2) keep st(2) by (simp add: ram_state_load_def read_stream_def holds_state_def)
qed

section \<open>Timelines\<close>

text \<open>The list holds the states of the machines \<open>hs\<close>, there is room for \<open>n\<close> states, and the rewinder is at the index \<open>c\<close> with the first
  invalid index \<open>i\<close>.\<close>

definition timeline :: "'x save_env \<Rightarrow> save_manager \<Rightarrow> nat \<Rightarrow> 'x save_host list \<Rightarrow> int \<Rightarrow> int \<Rightarrow> save_manager \<Rightarrow> bool" where
  "timeline env sm0 n hs c i sm \<longleftrightarrow> sm = sm0\<lparr>m_rewind := m_rewind sm\<rparr> \<and> rewind_enabled (m_rewind sm) \<and> rewind_limit sm \<le> 2 ^ 31 \<and>
     layout_fits sm0 \<and> n * total_size sm0 \<le> rewind_limit sm \<and> length hs \<le> n \<and> m_current_index (m_rewind sm) = c \<and> m_first_invalid_index (m_rewind sm) = i \<and>
     list_all2 (holds_state env sm0) hs (m_state_list (m_rewind sm))"

lemma timeline_frame:
  assumes "timeline env sm0 n hs c i sm"
  shows "sm0 = with_rewind (\<lambda>_. m_rewind sm0) sm" "length (m_state_list (m_rewind sm)) = length hs" "layout_fits sm" "total_size sm = total_size sm0"
    "n < 2 ^ 32" "holds_state env sm = holds_state env sm0" "dispatch_presave env sm = dispatch_presave env sm0" "m_entry_list sm = m_entry_list sm0"
proof -
  have e: "sm = sm0\<lparr>m_rewind := m_rewind sm\<rparr>" using assms by (simp add: timeline_def)
  show w: "sm0 = with_rewind (\<lambda>_. m_rewind sm0) sm" unfolding with_rewind_def by (subst e) simp
  show "length (m_state_list (m_rewind sm)) = length hs" using assms by (auto simp: timeline_def dest: list_all2_lengthD)
  have l: "m_entry_list sm = m_entry_list sm0" "m_presave_list sm = m_presave_list sm0" by (subst e, simp)+
  show "layout_fits sm" "total_size sm = total_size sm0" "m_entry_list sm = m_entry_list sm0"
    using assms by (simp_all add: timeline_def layout_fits_def total_size_def l)
  have "32 \<le> total_size sm0" using assms by (simp add: timeline_def total_size_sum)
  moreover have "n * total_size sm0 \<le> 2 ^ 31" using assms by (simp add: timeline_def)
  ultimately show "n < 2 ^ 32" using le_trans [of n "n * total_size sm0" "2 ^ 31"] by simp
  show d: "dispatch_presave env sm = dispatch_presave env sm0" by (simp add: dispatch_presave_def l fun_eq_iff)
  show "holds_state env sm = holds_state env sm0"
    by (simp add: holds_state_def fun_eq_iff state_bytes_def state_header_def state_signature_def d l total_size_def)
qed

lemma captured_room:
  assumes "layout_fits sm" "rewind_enabled (m_rewind sm)" "rewind_limit sm \<le> 2 ^ 31" "length (m_state_list (m_rewind sm)) * total_size sm \<le> rewind_limit sm"
    "-1 \<le> m_current_index (m_rewind sm)" "m_current_index (m_rewind sm) + 2 \<le> int (length (m_state_list (m_rewind sm)))"
  shows "\<exists>s'. captured sm = Some s' \<and> s' = sm\<lparr>m_rewind := m_rewind s'\<rparr> \<and> m_state_list (m_rewind s') = m_state_list (m_rewind sm) \<and>
    rewind_enabled (m_rewind s') \<and> m_capacity (m_rewind s') = m_capacity (m_rewind sm) \<and> m_current_index (m_rewind s') = m_current_index (m_rewind sm) + 1 \<and>
    m_first_invalid_index (m_rewind s') = (if m_current_index (m_rewind sm) + 2 = int (length (m_state_list (m_rewind sm))) then -1 else m_current_index (m_rewind sm) + 2)"
proof -
  define n where "n = length (m_state_list (m_rewind sm))"
  have T: "32 \<le> total_size sm" "ram_state_get_size sm = total_size sm" using assms(1) by (simp_all add: total_size_sum)
  have nT: "n * total_size sm \<le> 2 ^ 31" using assms(3,4) by (simp add: n_def)
  then have n: "n < 2 ^ 32" using T(1) le_trans [of n "n * total_size sm" "2 ^ 31"] by simp
  have m: "n * total_size sm mod 2 ^ 64 = n * total_size sm" using nT by simp
  have l: "current_index_is_last (m_rewind sm) \<longleftrightarrow> False" "current_index_is_last ((m_rewind sm)\<lparr>m_current_index := m_current_index (m_rewind sm) + 1\<rparr>) \<longleftrightarrow>
      m_current_index (m_rewind sm) + 2 = int n"
    using assms(5,6) n by (simp_all add: last_index n_def) arith
  have id: "with_rewind (\<lambda>r. r\<lparr>m_state_list := drop 0 (m_state_list r)\<rparr>) sm = sm" by (simp add: with_rewind_def)
  have "check_size sm = Some (False, sm)"
    using assms(2,4) unfolding check_size_def Let_def T(2) n_def [symmetric] m by (simp add: id [simplified] l n_def [symmetric])
  then show ?thesis using assms(2) by (simp add: captured_def Let_def n_def [symmetric]) (simp add: with_rewind_def l(2))
qed

lemma timeline_append:
  assumes "timeline env sm0 n hs (int (length hs) - 1) i sm" "length hs < n"
  shows "\<exists>s' h'. rewinder_capture env now sm h = Some (True, s', h') \<and> timeline env sm0 n (hs @ [h]) (int (length hs)) (-1) s' \<and>
    take (length hs) (m_state_list (m_rewind s')) = m_state_list (m_rewind sm)"
proof -
  note f = timeline_frame [OF assms(1)]
  define r where "r = m_rewind sm"
  have t: "rewind_enabled r" "rewind_limit sm \<le> 2 ^ 31" "n * total_size sm0 \<le> rewind_limit sm" "m_current_index r = int (length hs) - 1"
      "list_all2 (holds_state env sm0) hs (m_state_list r)" "sm = sm0\<lparr>m_rewind := r\<rparr>" "layout_fits sm0"
    using assms(1) by (simp_all add: timeline_def r_def)
  have l: "current_index_is_last r" using last_index [of r] f(2,5) assms(2) t(4) by (simp add: r_def)
  obtain st where st: "ram_state_save env now sm h (ram_state_init now) = (STATERR_NONE, dispatch_presave env sm h, st)" "holds_state env sm0 h st"
    using save_holds [OF f(3), of "ram_state_init now" env now h] by (auto simp: ram_state_init_def f(6))
  define s1 where "s1 = with_rewind (\<lambda>r. r\<lparr>m_state_list := m_state_list r @ [st]\<rparr>) sm"
  have s1: "layout_fits s1" "rewind_enabled (m_rewind s1)" "rewind_limit s1 = rewind_limit sm" "m_state_list (m_rewind s1) = m_state_list r @ [st]"
      "total_size s1 = total_size sm0" "m_current_index (m_rewind s1) = int (length hs) - 1"
    using f(3,4) t(1,4) by (simp_all add: s1_def r_def)
  have "Suc (length hs) * total_size sm0 \<le> n * total_size sm0" using assms(2) by (intro mult_le_mono1) simp
  then have "length (m_state_list (m_rewind s1)) * total_size s1 \<le> rewind_limit s1" using t(3) s1(3-5) f(2) by (simp add: r_def)
  from captured_room [OF s1(1,2) _ this] s1(3,4,6) t(2) f(2) obtain s' where s': "captured s1 = Some s'" "s' = s1\<lparr>m_rewind := m_rewind s'\<rparr>"
      "m_state_list (m_rewind s') = m_state_list r @ [st]" "rewind_enabled (m_rewind s')" "m_capacity (m_rewind s') = m_capacity (m_rewind s1)"
      "m_current_index (m_rewind s') = int (length hs)" "m_first_invalid_index (m_rewind s') = -1"
    by (auto simp: r_def)
  have "rewinder_capture env now sm h = Some (True, s', dispatch_presave env sm h)"
    using t(1) l st(1) s'(1) by (simp add: rewinder_capture_def r_def [symmetric] s1_def [symmetric])
  moreover have "rewind_limit s' = rewind_limit sm" using s'(5) s1(3) by (simp add: rewind_limit_def)
  moreover have "s' = sm0\<lparr>m_rewind := m_rewind s'\<rparr>" by (subst s'(2), subst s1_def, subst t(6)) (simp add: with_rewind_def)
  moreover have "take (length hs) (m_state_list (m_rewind s')) = m_state_list (m_rewind sm)" using s'(3) f(2) by (simp add: r_def)
  ultimately show ?thesis using s'(3,4,6,7) t(2,3,5,7) st(2) assms(2) by (simp add: timeline_def list_all2_appendI)
qed

lemma timeline_step:
  assumes "timeline env sm0 n hs c i sm" "1 \<le> c" "c < int (length hs)" "i = -1 \<or> c \<le> i" "disjoint_entries (m_entry_list sm0)"
  shows "\<exists>s' g'. rewinder_step env sm g = Some (True, s', g') \<and> timeline env sm0 n hs (c - 1) i s' \<and> restores env sm0 (hs ! nat (c - 1)) g g' \<and>
    map m_valid (m_state_list (m_rewind s')) = map m_valid (m_state_list (m_rewind sm))"
proof -
  note f = timeline_frame [OF assms(1)]
  define r where "r = m_rewind sm"
  have t: "rewind_enabled r" "m_current_index r = c" "m_first_invalid_index r = i" "list_all2 (holds_state env sm0) hs (m_state_list r)" "length (m_state_list r) = length hs"
      "sm = sm0\<lparr>m_rewind := r\<rparr>"
    using assms(1) f(2) by (simp_all add: timeline_def r_def)
  define k where "k = nat (c - 1)"
  have k: "int k = c - 1" "k < length hs" using assms(2,3) by (simp_all add: k_def)
  have st: "holds_state env sm0 (hs ! k) (m_state_list r ! k)" by (rule list_all2_nthD [OF t(4) k(2)])
  define s1 where "s1 = with_rewind (\<lambda>r. r\<lparr>m_current_index := c - 1\<rparr>) sm"
  have s1: "layout_fits s1" "disjoint_entries (m_entry_list s1)" "holds_state env s1 (hs ! k) (m_state_list r ! k)"
    using f(3,6,8) assms(5) st by (simp_all add: s1_def)
  obtain g' st' where ld: "ram_state_load env s1 g (m_state_list r ! k) = (STATERR_NONE, g', st')" "restores env s1 (hs ! k) g g'" "holds_state env s1 (hs ! k) st'"
      "m_valid st' = m_valid (m_state_list r ! k)"
    using load_restores [OF s1, of g] by blast
  define s2 where "s2 = with_rewind (\<lambda>r. r\<lparr>m_state_list := (m_state_list r)[k := st']\<rparr>) s1"
  have rs: "restores env sm = restores env sm0" by (subst f(1)) (simp add: fun_eq_iff)
  have ke: "(if i > -1 \<and> c > i then i else c) - 1 = c - 1" using assms(2,4) by auto
  have "\<not> (c \<le> 0 \<or> i = 0)" "\<not> (c - 1 < 0 \<or> int (length hs) \<le> c - 1)" using assms(2-4) by auto
  then have "rewinder_step env sm g = Some (True, report_error STATERR_NONE True s2, g')"
    unfolding rewinder_step_def Let_def r_def [symmetric] t(2,3,5) ke using t(1) ld(1) by (simp add: k_def [symmetric] s1_def [symmetric] s2_def [symmetric])
  moreover have "timeline env sm0 n hs (c - 1) i (report_error STATERR_NONE True s2)"
  proof -
    have l: "list_all2 (holds_state env sm0) hs ((m_state_list r)[k := st'])"
      using list_all2_update_cong [OF t(4), of "hs ! k" st' k] ld(3) f(6) by (simp add: s1_def)
    define q where "q = report_error STATERR_NONE True s2"
    have q: "q = sm\<lparr>m_rewind := m_rewind q\<rparr>" "rewind_enabled (m_rewind q) = rewind_enabled r" "m_capacity (m_rewind q) = m_capacity r"
        "m_current_index (m_rewind q) = c - 1" "m_first_invalid_index (m_rewind q) = i" "m_state_list (m_rewind q) = (m_state_list r)[k := st']"
      by (simp_all add: q_def report_error_def s2_def s1_def with_rewind_def r_def [symmetric] t(3))
    have "q = sm0\<lparr>m_rewind := m_rewind q\<rparr>" by (subst q(1), subst t(6)) simp
    moreover have "rewind_limit q = rewind_limit sm" using q(3) by (simp add: rewind_limit_def r_def)
    ultimately show ?thesis using assms(1) l t(1) q(2,4-6) unfolding q_def [symmetric] by (simp add: timeline_def)
  qed
  moreover have "map m_valid (m_state_list (m_rewind (report_error STATERR_NONE True s2))) = map m_valid (m_state_list (m_rewind sm))"
  proof -
    have "map m_valid ((m_state_list r)[k := st']) = map m_valid (m_state_list r)"
      using k(2) t(5) by (intro nth_equalityI) (simp_all add: nth_list_update ld(4))
    then show ?thesis by (simp add: report_error_def s2_def s1_def r_def [symmetric])
  qed
  moreover have "restores env sm0 (hs ! nat (c - 1)) g g'" using ld(2) by (simp add: s1_def rs k_def [symmetric])
  ultimately show ?thesis by blast
qed

lemma timeline_overwrite:
  assumes "timeline env sm0 n hs c i sm" "0 \<le> c" "c + 1 < int (length hs)"
  shows "\<exists>s' h'. rewinder_capture env now sm h = Some (True, s', h') \<and>
    timeline env sm0 n (hs[nat c := h]) (c + 1) (if c + 2 = int (length hs) then -1 else c + 2) s' \<and>
    (\<forall>k < length hs. c < int k \<longrightarrow> \<not> m_valid (m_state_list (m_rewind s') ! k))"
proof -
  note f = timeline_frame [OF assms(1)]
  define r where "r = m_rewind sm"
  define k where "k = nat c"
  have t: "rewind_enabled r" "m_current_index r = c" "list_all2 (holds_state env sm0) hs (m_state_list r)" "length (m_state_list r) = length hs"
      "rewind_limit sm \<le> 2 ^ 31" "n * total_size sm0 \<le> rewind_limit sm" "length hs \<le> n" "sm = sm0\<lparr>m_rewind := r\<rparr>" "layout_fits sm0"
    using assms(1) f(2) by (simp_all add: timeline_def r_def)
  have kl: "int k = c" "k < length hs" "\<not> length hs \<le> k" using assms(2,3) by (simp_all add: k_def)
  have l: "\<not> current_index_is_last r" using last_index [of r] f(5) assms(2,3) t(2,4,7) by simp
  define ls where "ls = take k (m_state_list r) @ map (\<lambda>st. st\<lparr>m_valid := False\<rparr>) (drop k (m_state_list r))"
  define s1 where "s1 = with_rewind (\<lambda>r. r\<lparr>m_first_invalid_index := c, m_state_list := ls\<rparr>) sm"
  have inv: "rewinder_invalidate sm = Some s1"
    using t(1,2,4) l kl assms(2,3) by (simp add: rewinder_invalidate_def Let_def r_def [symmetric] k_def [symmetric] s1_def with_rewind_def ls_def)
  have len: "length ls = length hs" using t(4) kl by (simp add: ls_def)
  have nth: "ls ! j = (if j < k then m_state_list r ! j else (m_state_list r ! j)\<lparr>m_valid := False\<rparr>)" if "j < length hs" for j
    using that t(4) kl by (simp add: ls_def nth_append)
  have hold: "list_all2 (holds_state env sm0) hs ls"
    unfolding list_all2_conv_all_nth using len nth list_all2_nthD [OF t(3)] by (simp add: holds_state_def)
  have "\<not> stream_fail (ram_data (ls ! k))" using list_all2_nthD [OF hold kl(2)] by (simp add: holds_state_def)
  then obtain st where st: "ram_state_save env now s1 h (ls ! k) = (STATERR_NONE, dispatch_presave env s1 h, st)" "holds_state env s1 h st"
    using save_holds [of s1 "ls ! k" env now h] f(3) by (auto simp: s1_def)
  define s2 where "s2 = with_rewind (\<lambda>r. r\<lparr>m_state_list := (m_state_list r)[k := st]\<rparr>) s1"
  have s2: "layout_fits s2" "rewind_enabled (m_rewind s2)" "rewind_limit s2 = rewind_limit sm" "m_state_list (m_rewind s2) = ls[k := st]"
      "total_size s2 = total_size sm0" "m_current_index (m_rewind s2) = c"
    using f(3,4) t(1,2) by (simp_all add: s2_def s1_def r_def)
  have "length hs * total_size sm0 \<le> n * total_size sm0" using t(7) by (rule mult_le_mono1)
  then have room: "length (m_state_list (m_rewind s2)) * total_size s2 \<le> rewind_limit s2"
    unfolding s2(3) s2(4) s2(5) length_list_update len using t(6) by (rule le_trans)
  obtain s' where s': "captured s2 = Some s'" "s' = s2\<lparr>m_rewind := m_rewind s'\<rparr>" "m_state_list (m_rewind s') = ls[k := st]" "rewind_enabled (m_rewind s')"
      "m_capacity (m_rewind s') = m_capacity (m_rewind s2)" "m_current_index (m_rewind s') = c + 1"
      "m_first_invalid_index (m_rewind s') = (if c + 2 = int (length hs) then -1 else c + 2)"
    using captured_room [OF s2(1,2) _ room] s2(3,4,6) t(5) len assms(2,3) by auto
  have "rewinder_capture env now sm h = Some (True, s', dispatch_presave env s1 h)"
    using t(1) l inv st(1) s'(1) kl len
    by (simp add: rewinder_capture_def r_def [symmetric]) (simp add: s1_def r_def [symmetric] t(2) k_def [symmetric] s2_def)
  moreover have "rewind_limit s' = rewind_limit sm" using s'(5) s2(3) by (simp add: rewind_limit_def)
  moreover have "s' = sm0\<lparr>m_rewind := m_rewind s'\<rparr>" by (subst s'(2), subst s2_def, subst s1_def, subst t(8)) (simp add: with_rewind_def)
  moreover have "list_all2 (holds_state env sm0) (hs[k := h]) (ls[k := st])"
    using list_all2_update_cong [OF hold, of h st k] st(2) f(6) by (simp add: s1_def)
  moreover have "\<forall>j < length hs. c < int j \<longrightarrow> \<not> m_valid (ls[k := st] ! j)" using nth kl by auto
  ultimately show ?thesis using s'(3,4,6,7) t(5-7,9) by (simp add: timeline_def k_def [symmetric])
qed

section \<open>Rewinding\<close>

text \<open>A run of captures, and a run of steps, that all succeed: the machines to capture, with the times, and the machines the states are loaded into.\<close>

fun capture_all :: "'x save_env \<Rightarrow> (attotime \<times> 'x save_host) list \<Rightarrow> save_manager \<Rightarrow> save_manager option" where
  "capture_all env [] sm = Some sm"
| "capture_all env ((now, h) # hs) sm = (case rewinder_capture env now sm h of Some (True, s, _) \<Rightarrow> capture_all env hs s | _ \<Rightarrow> None)"

fun step_all :: "'x save_env \<Rightarrow> 'x save_host list \<Rightarrow> save_manager \<Rightarrow> ('x save_host list \<times> save_manager) option" where
  "step_all env [] sm = Some ([], sm)"
| "step_all env (g # gs) sm =
     (case rewinder_step env sm g of Some (True, s, g') \<Rightarrow> map_option (\<lambda>(gs', s'). (g' # gs', s')) (step_all env gs s) | _ \<Rightarrow> None)"

lemma timeline_start:
  assumes "m_rewind sm = rewinder_init True capacity" "capacity \<le> 2048" "layout_fits sm" "n * total_size sm \<le> rewind_limit sm"
  shows "timeline env sm n [] (-1) (-1) sm"
  using assms rewind_limit_bound [of sm] by (simp add: timeline_def rewinder_init_def)

lemma capture_all_timeline:
  assumes "timeline env sm0 n hs0 (int (length hs0) - 1) (-1) sm" "length hs0 + length hs \<le> n"
  shows "\<exists>s'. capture_all env hs sm = Some s' \<and>
    timeline env sm0 n (hs0 @ map snd hs) (int (length hs0 + length hs) - 1) (-1) s'"
  using assms
proof (induction hs arbitrary: hs0 sm)
  case (Cons p hs)
  obtain now h where p: "p = (now, h)" by (cases p)
  obtain s' h' where c: "rewinder_capture env now sm h = Some (True, s', h')" "timeline env sm0 n (hs0 @ [h]) (int (length hs0)) (-1) s'"
    using timeline_append [OF Cons.prems(1), of now h] Cons.prems(2) by auto
  show ?case using Cons.IH [of "hs0 @ [h]" s'] c Cons.prems(2) by (simp add: p)
qed simp

lemma step_all_timeline:
  assumes "timeline env sm0 n hs c (-1) sm" "int (length gs) \<le> c" "c < int (length hs)" "disjoint_entries (m_entry_list sm0)"
  shows "\<exists>gs' s'. step_all env gs sm = Some (gs', s') \<and> length gs' = length gs \<and>
    (\<forall>j < length gs. restores env sm0 (hs ! nat (c - 1 - int j)) (gs ! j) (gs' ! j))"
  using assms
proof (induction gs arbitrary: c sm)
  case (Cons g gs)
  from timeline_step [OF Cons.prems(1), of g] Cons.prems(2-4) obtain s1 g' where s1:
      "rewinder_step env sm g = Some (True, s1, g')" "timeline env sm0 n hs (c - 1) (-1) s1" "restores env sm0 (hs ! nat (c - 1)) g g'" by auto
  from Cons.IH [OF s1(2)] Cons.prems(2-4) obtain gs' s' where r: "step_all env gs s1 = Some (gs', s')" "length gs' = length gs"
      "\<forall>j < length gs. restores env sm0 (hs ! nat (c - 1 - 1 - int j)) (gs ! j) (gs' ! j)" by auto
  have "restores env sm0 (hs ! nat (c - 1 - int j)) ((g # gs) ! j) ((g' # gs') ! j)" if "j < length (g # gs)" for j
    using that s1(3) r(3) [rule_format, of "j - 1"] by (cases j) (simp_all add: algebra_simps)
  then show ?case using s1(1) r(1,2) by simp
qed simp

text \<open>C21. The rewinder goes back in time. After captures of any machines that fit into the capacity, steps load the captured states from the last but
  one to the first: each succeeds and makes the registered memory of the machine what it was at that capture, whatever the machine is at the
  time of the step. The machine is at the state captured last when the steps begin.\<close>

theorem rewind_steps_back:
  assumes "m_rewind sm = rewinder_init True capacity" "capacity \<le> 2048" "layout_fits sm" "disjoint_entries (m_entry_list sm)"
    "length hs * total_size sm \<le> rewind_limit sm" "length gs < length hs"
  shows "\<exists>s gs' s'. capture_all env hs sm = Some s \<and> step_all env gs s = Some (gs', s') \<and> length gs' = length gs \<and>
    (\<forall>j < length gs. restores env sm (snd (hs ! (length hs - 2 - j))) (gs ! j) (gs' ! j))"
proof -
  obtain s where s: "capture_all env hs sm = Some s" "timeline env sm (length hs) (map snd hs) (int (length hs) - 1) (-1) s"
    using capture_all_timeline [of env sm "length hs" "[]" sm hs] timeline_start [OF assms(1-3,5), of env] by auto
  obtain gs' s' where r: "step_all env gs s = Some (gs', s')" "length gs' = length gs"
      "\<forall>j < length gs. restores env sm (map snd hs ! nat (int (length hs) - 1 - 1 - int j)) (gs ! j) (gs' ! j)"
    using step_all_timeline [OF s(2), of gs] assms(4,6) by auto
  have "restores env sm (snd (hs ! (length hs - 2 - j))) (gs ! j) (gs' ! j)" if "j < length gs" for j
  proof -
    have "nat (int (length hs) - 1 - 1 - int j) = length hs - 2 - j" "length hs - 2 - j < length hs" using that assms(6) by linarith+
    then show ?thesis using r(3) that by (metis nth_map)
  qed
  then show ?thesis using s(1) r(1,2) by blast
qed

theorem rewind_steps_back_witness:
  "\<exists>s g' s'. capture_all (rows_env ENDIANNESS_LITTLE) [(attotime_zero, rows_host\<lparr>host_mem := (\<lambda>_. 1)\<rparr>), (attotime_zero, rows_host)] (rows_manager 0 8) = Some s \<and>
     step_all (rows_env ENDIANNESS_LITTLE) [rows_host] s = Some ([g'], s') \<and> host_mem g' 1 = 1 \<and> host_mem g' 5 = 5"
proof -
  have init: "m_rewind (rows_manager 0 8) = rewinder_init True 1" by (simp add: rows_manager_def save_manager_init_def)
  then have room: "length [(attotime_zero, rows_host\<lparr>host_mem := (\<lambda>_. 1)\<rparr>), (attotime_zero, rows_host)] * total_size (rows_manager 0 8) \<le> rewind_limit (rows_manager 0 8)"
    by (simp add: rows_ok rewind_limit_def rewinder_init_def)
  obtain s gs' s' where w: "capture_all (rows_env ENDIANNESS_LITTLE) [(attotime_zero, rows_host\<lparr>host_mem := (\<lambda>_. 1)\<rparr>), (attotime_zero, rows_host)] (rows_manager 0 8) = Some s"
      "step_all (rows_env ENDIANNESS_LITTLE) [rows_host] s = Some (gs', s')" "length gs' = 1" "restores (rows_env ENDIANNESS_LITTLE) (rows_manager 0 8) (rows_host\<lparr>host_mem := (\<lambda>_. 1)\<rparr>) rows_host (gs' ! 0)"
    using rewind_steps_back [OF init _ rows_ok(1) rows_ok(2) room, of "[rows_host]" "rows_env ENDIANNESS_LITTLE"] by auto
  obtain g' where "gs' = [g']" using w(3) by (auto simp: length_Suc_conv)
  moreover have "host_mem g' 1 = 1" "host_mem g' 5 = 5"
    using w(4) \<open>gs' = [g']\<close>
    by (auto simp: restores_def registered_def rows_manager_def two_rows_def entry_blocks_def blocksize_def piece_def upt_rec rows_env_def
        dispatch_postload_def dispatch_presave_def save_manager_init_def rows_host_def)
  ultimately show ?thesis using w(1,2) by blast
qed

text \<open>C40. An abandoned state is loaded. Three captures, one step back and two captures on the new course: the next step succeeds and loads the state of the
  third capture, which was marked invalid when the course changed, and not the state of the fourth. The first capture of the new course
  puts the index on the last state in the list, so that \<open>capture\<close> forgets the first invalid index; \<open>step\<close> never tests \<open>m_valid\<close>.\<close>

theorem rewind_loads_abandoned_state:
  assumes "m_rewind sm = rewinder_init True capacity" "capacity \<le> 2048" "layout_fits sm" "disjoint_entries (m_entry_list sm)" "4 * total_size sm \<le> rewind_limit sm"
  shows "\<exists>s1 s2 s3 s4 g' k'. capture_all env [hA, hB, hC] sm = Some s1 \<and> rewinder_step env s1 g = Some (True, s2, g') \<and> restores env sm (snd hB) g g' \<and>
    capture_all env [hD, hE] s2 = Some s3 \<and> \<not> m_valid (m_state_list (m_rewind s3) ! 2) \<and>
    rewinder_step env s3 k = Some (True, s4, k') \<and> restores env sm (snd hC) k k'"
proof -
  obtain s1 where s1: "capture_all env [hA, hB, hC] sm = Some s1" "timeline env sm 4 [snd hA, snd hB, snd hC] 2 (-1) s1"
    using capture_all_timeline [of env sm 4 "[]" sm "[hA, hB, hC]"] timeline_start [OF assms(1-3,5), of env] by auto
  obtain s2 g' where s2: "rewinder_step env s1 g = Some (True, s2, g')" "timeline env sm 4 [snd hA, snd hB, snd hC] 1 (-1) s2" "restores env sm (snd hB) g g'"
    using timeline_step [OF s1(2), of g] assms(4) by auto
  obtain tD mD tE mE where p: "hD = (tD, mD)" "hE = (tE, mE)" by (metis surj_pair)
  obtain s h where s: "rewinder_capture env tD s2 mD = Some (True, s, h)" "timeline env sm 4 [snd hA, mD, snd hC] 2 (-1) s" "\<not> m_valid (m_state_list (m_rewind s) ! 2)"
    using timeline_overwrite [OF s2(2), of tD mD] by auto
  obtain s3 h3 where s3: "rewinder_capture env tE s mE = Some (True, s3, h3)" "timeline env sm 4 [snd hA, mD, snd hC, mE] 3 (-1) s3"
      "take (Suc (Suc (Suc 0))) (m_state_list (m_rewind s3)) = m_state_list (m_rewind s)"
    using timeline_append [of env sm 4 "[snd hA, mD, snd hC]" "-1" s tE mE] s(2) by auto
  have "m_state_list (m_rewind s3) ! 2 = m_state_list (m_rewind s) ! 2" by (simp add: s3(3) [symmetric])
  moreover obtain s4 k' where "rewinder_step env s3 k = Some (True, s4, k')" "restores env sm (snd hC) k k'"
    using timeline_step [OF s3(2), of k] assms(4) by auto
  ultimately show ?thesis using s1(1) s2(1,3) s(1,3) s3(1) p by auto
qed

theorem rewind_loads_abandoned_state_witness:
  "\<exists>s1 s2 s3 s4 g' k'. capture_all (rows_env ENDIANNESS_LITTLE) [(attotime_zero, rows_host), (attotime_zero, rows_host), (attotime_zero, rows_host\<lparr>host_mem := (\<lambda>_. 1)\<rparr>)] (rows_manager 0 8) = Some s1 \<and>
     rewinder_step (rows_env ENDIANNESS_LITTLE) s1 rows_host = Some (True, s2, g') \<and> capture_all (rows_env ENDIANNESS_LITTLE) [(attotime_zero, rows_host), (attotime_zero, rows_host)] s2 = Some s3 \<and>
     rewinder_step (rows_env ENDIANNESS_LITTLE) s3 rows_host = Some (True, s4, k') \<and> host_mem k' 2 = 1"
proof -
  have init: "m_rewind (rows_manager 0 8) = rewinder_init True 1" by (simp add: rows_manager_def save_manager_init_def)
  then have room: "4 * total_size (rows_manager 0 8) \<le> rewind_limit (rows_manager 0 8)" by (simp add: rows_ok rewind_limit_def rewinder_init_def)
  have "host_mem k' 2 = 1" if "restores (rows_env ENDIANNESS_LITTLE) (rows_manager 0 8) (snd (attotime_zero, rows_host\<lparr>host_mem := (\<lambda>_. 1)\<rparr>)) rows_host k'" for k'
    using that
    by (auto simp: restores_def registered_def rows_manager_def two_rows_def entry_blocks_def blocksize_def piece_def upt_rec rows_env_def
        dispatch_postload_def dispatch_presave_def save_manager_init_def rows_host_def)
  then show ?thesis using rewind_loads_abandoned_state [OF init _ rows_ok(1) rows_ok(2) room, of "rows_env ENDIANNESS_LITTLE" "(attotime_zero, rows_host)" "(attotime_zero, rows_host)"
      "(attotime_zero, rows_host\<lparr>host_mem := (\<lambda>_. 1)\<rparr>)" rows_host "(attotime_zero, rows_host)" "(attotime_zero, rows_host)" rows_host] by (simp (no_asm_use)) blast
qed

end
