(* ===== verification/Spec2Isabelle.thy ===== *)
theory Spec2Isabelle
  imports Duart_Props Sdcard_Multi Sdcard_Csd Rosco_6502 Rosco_M68k Scheduler_Fire Scheduler_Save Serial_Terminal Terminal_Video Ata_Board Ata_Address Rewinder
begin

text \<open>
  A model of the rosco emulator: the machines of \<^verbatim>\<open>src/src/rosco\<close>, the devices on their boards, and the parts of the emulator core
  (\<^verbatim>\<open>src/src/emu\<close>) these devices live on.

  \<^bold>\<open>The program.\<close> A board is a CPU, memory and devices around an address map. The CPU reads and writes addresses; the memory system finds the
  handler of an address and splits an access that is wider than the bus. The boards have a DUART (\<^verbatim>\<open>mc68681.cpp\<close>), whose serial channels go to a
  terminal and to a host, whose output port drives the SPI pins of an SD card (\<^verbatim>\<open>spi_sdcard.cpp\<close>) and whose input port reads the card's
  answer. The card serves blocks of a hard disk image. The 68000 and 68010 boards also have an ATA interface (\<^verbatim>\<open>ataintf.cpp\<close>) with a hard
  disk (\<^verbatim>\<open>atahle.cpp\<close>, \<^verbatim>\<open>atastorage.cpp\<close>) on an image of its own. Devices act at times: the scheduler fires their timers in the order of the times they expire.

  \<^bold>\<open>Theories and sources.\<close>
  \<^item> \<^verbatim>\<open>Rosco_Prelude\<close>: machine integers of C++ as \<^typ>\<open>int\<close> with their wrap-around, lemmas on words and lists, collections of simplification rules.
    \<^verbatim>\<open>Store\<close>: the interfaces of stores as locales (a location returns what was put there last, other locations keep theirs). They are interpreted on the disk image, the
    blocks of the card and the RAM banks.
  \<^item> \<^verbatim>\<open>Attotime\<close>: \<^verbatim>\<open>attotime.h\<close>, \<^verbatim>\<open>attotime.cpp\<close>. \<^verbatim>\<open>Emu_Timer\<close>: the data of a timer in \<^verbatim>\<open>schedule.cpp\<close>; the devices are modelled
    with these timers, the current time an argument.
  \<^item> \<^verbatim>\<open>Scheduler\<close>, \<^verbatim>\<open>Scheduler_Fire\<close>: the timer lists of \<^verbatim>\<open>schedule.cpp\<close> as nodes with pointers, and the loop that fires timers.
    A callback is a parameter: it gets a state of the devices and yields the calls it makes to the scheduler. \<^verbatim>\<open>Scheduler_Save\<close>: what the scheduler
    does before a save state and after a load.
  \<^item> \<^verbatim>\<open>Diserial\<close>: the shift registers of \<^verbatim>\<open>diserial.cpp\<close>. \<^verbatim>\<open>Serial_Clock\<close>: receivers with a clock of their own. \<^verbatim>\<open>Buffered_Serial\<close>: the ring of bytes
    to send.
  \<^item> \<^verbatim>\<open>Terminal\<close>, \<^verbatim>\<open>Terminal_Video\<close>: the characters of \<^verbatim>\<open>machine/terminal.cpp\<close> and the picture drawn of them. \<^verbatim>\<open>Serial_Terminal\<close>: the port of
    \<^verbatim>\<open>rs232.cpp\<close> and the serial terminal of \<^verbatim>\<open>bus/rs232/terminal.cpp\<close>.
  \<^item> \<^verbatim>\<open>Duart\<close>: \<^verbatim>\<open>mc68681.cpp\<close>, the base device and the XR68C681: one record for a channel (an extension of the serial interface) and one for the device,
    with one definition per register and callback; the calls to other devices are a list of events in the order they are made. \<^verbatim>\<open>Duart_Inv\<close>, \<^verbatim>\<open>Duart_Reach\<close>: invariants
    of all states reachable by reads, writes, pins, clocks and timers. \<^verbatim>\<open>Duart_Fifo\<close>, \<^verbatim>\<open>Duart_Tx\<close>: the receive FIFO and the transmitter. \<^verbatim>\<open>Duart_Props\<close>: the properties.
  \<^item> \<^verbatim>\<open>Crc16\<close>: \<^verbatim>\<open>hashing.cpp\<close>. \<^verbatim>\<open>Harddisk\<close>: \<^verbatim>\<open>harddisk.cpp\<close>, \<^verbatim>\<open>harddriv.cpp\<close>, \<^verbatim>\<open>diimage.cpp\<close>, an image as the list of the bytes of its file.
  \<^item> \<^verbatim>\<open>Spi_Sdcard\<close>: \<^verbatim>\<open>spi_sdcard.cpp\<close>, every command and pin. An access outside an array sets the flag \<open>sd_ub\<close>, which \<^verbatim>\<open>Sdcard_Inv\<close> shows is never set.
    \<^verbatim>\<open>Sdcard_Bytes\<close>: bits to bytes on the pins. \<^verbatim>\<open>Sdcard_Protocol\<close>, \<^verbatim>\<open>Sdcard_Block\<close>, \<^verbatim>\<open>Sdcard_Multi\<close>, \<^verbatim>\<open>Sdcard_Csd\<close>: commands, block transfers, the CSD register.
  \<^item> \<^verbatim>\<open>Board\<close>, \<^verbatim>\<open>Board_Spi\<close>: the wiring of DUART and card in \<^verbatim>\<open>rosco_6502.cpp\<close> and \<^verbatim>\<open>rosco_m68k.cpp\<close>, with the calls back and forth between them; programs that bit-bang the card.
  \<^item> \<^verbatim>\<open>Memory\<close>, \<^verbatim>\<open>Memory_Access\<close>, \<^verbatim>\<open>Memory_Handler\<close>: banks, address maps and views, \<^verbatim>\<open>memory_read_generic\<close> and \<^verbatim>\<open>memory_write_generic\<close>, memory handlers
    of \<^verbatim>\<open>emumem*.cpp\<close> and \<^verbatim>\<open>emumem.h\<close>. The locale \<open>native_bus\<close> states what a bus of one width promises byte by byte; the accesses of every other width are proved from it once.
  \<^item> \<^verbatim>\<open>Rosco_6502\<close>, \<^verbatim>\<open>Rosco_M68k\<close>: the boards, each with its address map, start, reset, bus accesses and quick load. In \<^verbatim>\<open>Rosco_M68k\<close> the handlers of the ATA
    interface are arguments, so that its theorems hold whatever these do.
  \<^item> \<^verbatim>\<open>Ata_Hle\<close>, \<^verbatim>\<open>Ata_Disk\<close>, \<^verbatim>\<open>Ata_Command\<close>: the hard disk of \<^verbatim>\<open>atahle.cpp\<close> and \<^verbatim>\<open>atastorage.cpp\<close>, in one record: lines, resets and diagnostics; addresses,
    the identification page and the image; commands, timers and the accesses of the bus. An access outside a buffer or through a null pointer sets
    the flag \<open>ata_ub\<close>. \<^verbatim>\<open>Ata_Inv\<close>: when it is never set. \<^verbatim>\<open>Ata_Address\<close>: the address registers in their three modes. \<^verbatim>\<open>Ata_Sector\<close>, \<^verbatim>\<open>Ata_Pio\<close>, \<^verbatim>\<open>Ata_Block\<close>:
    programs that transfer sectors with the processor, from one step of the disk to a store of blocks; the locale \<open>ata_access\<close> states what a way to
    the registers promises. It is interpreted on the disk itself, on the interface with its slots (\<^verbatim>\<open>Ata_Intf\<close>) and on the bus of the board
    (\<^verbatim>\<open>Ata_Board\<close>). \<^verbatim>\<open>Ata_Reset\<close>: from a reset to a disk that is ready.
  \<^item> \<^verbatim>\<open>Save_Manager\<close>: \<^verbatim>\<open>save.cpp\<close>: registration, header, and the functions that write and read a state; the memory that devices register is a byte for every
    address. A \<open>save_sink\<close> and a \<open>save_source\<close> are the functions \<^verbatim>\<open>do_write\<close> and \<^verbatim>\<open>do_read\<close> get. \<^verbatim>\<open>Save_Roundtrip\<close>: the locale \<open>save_medium\<close> states what such a
    pair promises; it is interpreted on buffers and on streams. \<^verbatim>\<open>Rewinder\<close>: the states in memory that the machine can go back to. An access outside their list is \<^term>\<open>None\<close>.

  \<^bold>\<open>What is shown.\<close> Frames that a transmitter clocks out are received unchanged. The interrupt line, the status registers and the FIFO of the DUART agree
  in every reachable state; characters come out in the order they came in, or are counted lost. Seen through its pins, and through a program that
  bit-bangs it over the DUART, the card is a store of blocks; its arrays are never left. A wide access delivers exactly the bytes that single accesses
  would, in both byte orders. The same holds for programs that use the ATA registers of the board; the disk gets ready after every reset and stays in its buffers, but for
  one command. Characters written to the DUART get to the screen of the terminal at every bit clock that is near enough, the screen is drawn as the font says, and keys come
  back in order. The boards never run into an undefined access, boot from the vectors of their ROM and report bus errors once. Timers fire in order, and
  the loop that fires them ends; a saved state brings them back. A state that is saved is loaded with the same values on a host of either byte order, or not at all; the rewinder goes back state by
  state and stays inside its list, but can load a state that was abandoned. The other theorems state functional behaviour, round trips, bounds and error paths, and places where the code does not do what it or its
  comments say.

  \<^bold>\<open>Bounds and fuel.\<close> No definition has fuel but \<open>fire_rounds\<close>, which is any number of rounds of a loop that callbacks can keep going forever; the loop itself
  and the search for the place of a timer are \<^verbatim>\<open>partial_function (option)\<close>, and shown to return. The calls between DUART and card are run by a loop
  whose end is proved by a measure on the calls. \<open>rcv_until\<close> runs the receive clock of a terminal with fuel; three ticks from one change of the line to
  the next are enough, as \<open>serial_clock_tolerance\<close> shows. Times are below the 1,000,000,000 seconds that stand for never, as \<^const>\<open>wf_time\<close> says; programs for the disk start
  before 990,000,000 seconds, so that none of its timers gets there.

  \<^bold>\<open>Not modelled.\<close> The CPU cores, whose instructions are generated code: the boards take any sequence of accesses. CHD images; the identification that one can hold for
  a disk is an argument. Compact flash cards and packet devices on the ATA interface, the keyboard matrix and the other cards for the serial ports. The
  68020 and 68030 boards. Of the memory system: dispatch tables as arrays of arrays, taps and caches, which are ways to find the handler that the map names. Of the scheduler: time slices and
  quanta, which need the CPUs. The compressed files of save states. The front end, sound, video and the host system.
\<close>

unbundle bit_operations_syntax

section \<open>From the DUART to the screen\<close>

text \<open>C7. A character that a program writes to the transmit holding register of a DUART channel gets to the screen: the bits the channel puts on its TX line, taken to the terminal in the port at the
  times of a bit clock the terminal tolerates, make it write the character exactly once. Both ends are set to the same frame with one start bit and a stop bit.\<close>

theorem duart_character_on_screen:
  assumes "bit (SR (get_channel c d)) 2" "is_transmit_register_empty (get_channel c d)" "tx_idle (get_channel c d)"
    and "m_df_start_bit_count (get_channel c d) = 1" "m_df_word_length (get_channel c d) = wl" "m_df_parity (get_channel c d) = p"
      "m_df_stop_bit_count (get_channel c d) \<in> {1, 2}" "5 \<le> wl" "wl \<le> 8"
    and "ready wl p R s" "wf_time R" "0 < attos R" "wf_time a" "length ts = m_rcv_bit_count s"
      "\<And>i. i < length ts \<Longrightarrow> wf_time (ts ! i) \<and> attos (ts ! i) = attos a + (int i + 1) * B"
      "int (m_rcv_bit_count s) * \<bar>B - 2 * attos R\<bar> < attos R"
      "wf_time \<tau>" "attos a + (2 * int (m_rcv_bit_count s) + 1) * attos R < attos \<tau>"
  shows "let d' = tx_pulses (length (frame_bits (get_channel c d) data)) now c (write_TX now c data d);
             bits = drop (length (tx_line c (m_out d))) (tx_line c (m_out d'));
             s' = rcv_until st_rcv_complete 3 \<tau> (line_run st_rcv_complete 3 (zip (a # ts) bits) s)
         in \<exists>e. st_term s' = term_write e (data AND mask wl) (st_term s) \<and> ready wl p R s'"
proof -
  let ?ch = "get_channel c d"
  obtain k where k: "m_df_stop_bit_count ?ch = Suc k" "k \<le> 1" using assms(7) by auto
  have fb: "frame_bits ?ch data = False # frame_body wl p data @ replicate k True" by (rule frame_bits_body [OF assms(4-6) k(1)])
  have len: "length (frame_bits ?ch data) \<le> 16" "1 < length (frame_bits ?ch data)" using assms(8,9) k(2) by (simp_all add: fb frame_body_def)
  define d' where "d' = tx_pulses (length (frame_bits ?ch data)) now c (write_TX now c data d)"
  have tx: "tx_line c (m_out d') = tx_line c (m_out d) @ frame_bits ?ch data" using tx_frame [OF assms(1-3) len, of now] by (simp add: Let_def d'_def)
  have l: "length ts = length (frame_body wl p data)" using receive_body(1) [OF assms(8,9) ready_body [OF assms(10,11)], of data] assms(14) by simp
  have z: "zip (a # ts) (drop (length (tx_line c (m_out d))) (tx_line c (m_out d'))) = byte_events wl p (a, ts, data)"
    using l by (simp add: tx fb byte_events_def zip_append2)
  have tm: "timely (attos a) (attos R) ts" using assms(14,15,16) by (intro tolerance_timely) auto
  show ?thesis unfolding Let_def d'_def [symmetric] z
    using byte_to_screen [OF assms(8-14) tm assms(17,18), of data] unfolding Let_def by blast
qed

theorem duart_character_on_screen_witness:
  "let d = duart_write attotime_zero 2 0x04 power_on; d' = tx_pulses 10 attotime_zero 0 (write_TX attotime_zero 0 0x41 d);
       bits = drop (length (tx_line 0 (m_out d))) (tx_line 0 (m_out d'));
       times = attotime_zero # map (\<lambda>i. Attotime 0 ((int i + 1) * 8600000000000)) [0..<9]
   in \<exists>t e. st_device_reset attotime_zero board_terminal = Some t \<and>
        st_term (rcv_until st_rcv_complete 3 (Attotime 0 100000000000000) (line_run st_rcv_complete 3 (zip times bits) t)) = term_write e 0x41 (st_term t)"
proof -
  define d where "d = duart_write attotime_zero 2 0x04 power_on"
  define ts where "ts = map (\<lambda>i. Attotime 0 ((int i + 1) * 8600000000000)) [0..<9]"
  let ?R = "Attotime 0 4340277777778" and ?\<tau> = "Attotime 0 100000000000000"
  obtain t where t: "st_device_reset attotime_zero board_terminal = Some t" "ready 8 PARITY_NONE ?R t" "m_rcv_bit_count t = 9" by (rule board_terminal_resets)
  have "let ch = get_channel 0 (duart_write attotime_zero 2 0x04 power_on) in bit (SR ch) 2 \<and> is_transmit_register_empty ch \<and> tx_idle ch \<and> m_df_start_bit_count ch = 1 \<and>
      m_df_word_length ch = 8 \<and> m_df_parity ch = PARITY_NONE \<and> m_df_stop_bit_count ch = 1 \<and> length (frame_bits ch 0x41) = 10"
    by code_simp
  then have d: "bit (SR (get_channel 0 d)) 2" "is_transmit_register_empty (get_channel 0 d)" "tx_idle (get_channel 0 d)" "m_df_start_bit_count (get_channel 0 d) = 1"
      "m_df_word_length (get_channel 0 d) = 8" "m_df_parity (get_channel 0 d) = PARITY_NONE" "m_df_stop_bit_count (get_channel 0 d) \<in> {1, 2}"
      and f: "length (frame_bits (get_channel 0 d) 0x41) = 10"
    unfolding Let_def d_def [symmetric] by simp_all
  have ts: "length ts = m_rcv_bit_count t" "\<And>i. i < length ts \<Longrightarrow> wf_time (ts ! i) \<and> attos (ts ! i) = attos attotime_zero + (int i + 1) * 8600000000000"
    by (auto simp: ts_def t(3) wf_time_def attos_def atto_consts attotime_zero_def)
  have n: "wf_time ?R" "0 < attos ?R" "wf_time attotime_zero" "int (m_rcv_bit_count t) * \<bar>8600000000000 - 2 * attos ?R\<bar> < attos ?R" "wf_time ?\<tau>"
      "attos attotime_zero + (2 * int (m_rcv_bit_count t) + 1) * attos ?R < attos ?\<tau>"
    by (simp_all add: t(3) attos_def atto_consts wf_time_def attotime_zero_def)
  have "\<exists>e. st_term (rcv_until st_rcv_complete 3 ?\<tau> (line_run st_rcv_complete 3 (zip (attotime_zero # ts) (drop (length (tx_line 0 (m_out d)))
      (tx_line 0 (m_out (tx_pulses 10 attotime_zero 0 (write_TX attotime_zero 0 0x41 d)))))) t)) = term_write e (0x41 AND mask 8) (st_term t)"
    using duart_character_on_screen [where data = "0x41" and now = attotime_zero, OF d _ _ t(2) n(1-3) ts n(4-6)] unfolding f Let_def by auto
  then show ?thesis using t(1) by (simp add: d_def ts_def mask_eq_exp_minus_1)
qed

end
